(* ===== verification/Prelude.thy ===== *)
theory Prelude
  imports Main "HOL-Library.Word" "HOL-Library.Monad_Syntax" "HOL-Library.Multiset"
begin

text \<open>
  Shared vocabulary of the development: the machine integer types, the fault injecting
  allocator that stands for \<open>malloc\<close> and \<open>realloc\<close>, reads that fail outside the
  array they read, the part of \<open>ctype.h\<close> the code uses (in the C locale), and the
  generic lemmas on lists and words that several components share.

  Conventions used by every component:
  \<^item> a result of type \<open>'a option\<close> is \<open>None\<close> where the C code would have undefined
    behaviour (a NULL dereference, an access outside an allocation, a read of memory that
    was never written); error returns of the code are values, never \<open>None\<close>;
  \<^item> a \<open>heap\<close> lists the outcomes of the next allocations, \<open>False\<close> for a failure;
    when the list is used up every further allocation succeeds.
\<close>

unbundle bit_operations_syntax

section \<open>Machine types and fact collections\<close>

type_synonym byte = "8 word"
type_synonym u32 = "32 word"
type_synonym u64 = "64 word"
type_synonym bytes = "8 word list"

named_theorems inv_intros "preservation of component invariants by operations"
named_theorems frame_simps "state components an operation leaves unchanged"

abbreviation byte_of :: "char \<Rightarrow> byte" where
  "byte_of c \<equiv> of_char c"

abbreviation bytes_of :: "string \<Rightarrow> bytes" where
  "bytes_of s \<equiv> map of_char s"

abbreviation CR :: byte where "CR \<equiv> 13"
abbreviation LF :: byte where "LF \<equiv> 10"
abbreviation TAB :: byte where "TAB \<equiv> 9"
abbreviation SP :: byte where "SP \<equiv> 32"
abbreviation DASH :: byte where "DASH \<equiv> 45"

section \<open>Allocation\<close>

type_synonym heap = "bool list"

fun alloc :: "heap \<Rightarrow> bool \<times> heap" where
  "alloc [] = (True, [])"
| "alloc (b # h) = (b, h)"

section \<open>Checked array reads\<close>

definition rd :: "'a list \<Rightarrow> nat \<Rightarrow> 'a option" where
  "rd xs i = (if i < length xs then Some (xs ! i) else None)"

lemma rd_Some_iff [simp]: "rd xs i = Some x \<longleftrightarrow> i < length xs \<and> xs ! i = x"
  by (simp add: rd_def)

lemma rd_None_iff [simp]: "rd xs i = None \<longleftrightarrow> length xs \<le> i"
  by (simp add: rd_def not_less)

lemma rd_in [simp]: "i < length xs \<Longrightarrow> rd xs i = Some (xs ! i)"
  by simp

section \<open>Character classes of the C locale\<close>

definition isalnum :: "byte \<Rightarrow> bool" where
  "isalnum ch \<longleftrightarrow> (48 \<le> ch \<and> ch \<le> 57) \<or> (65 \<le> ch \<and> ch \<le> 90) \<or> (97 \<le> ch \<and> ch \<le> 122)"

definition isgraph :: "byte \<Rightarrow> bool" where
  "isgraph ch \<longleftrightarrow> 33 \<le> ch \<and> ch \<le> 126"

definition tolower :: "byte \<Rightarrow> byte" where
  "tolower ch = (if 65 \<le> ch \<and> ch \<le> 90 then ch + 32 else ch)"

section \<open>Lists\<close>

lemma take_Suc_snoc: "n < length xs \<Longrightarrow> take (Suc n) xs = take n xs @ [xs ! n]"
  by (rule take_Suc_conv_app_nth)

lemma set_take_nth: "x \<in> set (take n xs) \<longleftrightarrow> (\<exists>i < min n (length xs). xs ! i = x)"
  by (auto simp: in_set_conv_nth)

section \<open>Bytes, bit by bit\<close>

lemma byte_eq_iff:
  "(a :: byte) = b \<longleftrightarrow> (\<forall>n \<in> {0, 1, 2, 3, 4, 5, 6, 7}. bit a n = bit b n)"
proof
  assume *: "\<forall>n \<in> {0, 1, 2, 3, 4, 5, 6, 7}. bit a n = bit b n"
  show "a = b"
  proof (rule bit_word_eqI)
    fix n assume "n < LENGTH(8)"
    then have "n = 0 \<or> n = 1 \<or> n = 2 \<or> n = 3 \<or> n = 4 \<or> n = 5 \<or> n = 6 \<or> n = 7" by simp arith
    with * show "bit a n = bit b n" by auto
  qed
qed simp

lemma byte_bit_high: "8 \<le> n \<Longrightarrow> \<not> bit (y :: byte) n"
  using bit_imp_le_length [of y n] by auto

lemmas byte_bits = byte_eq_iff bit_simps byte_bit_high numeral_2_eq_2 [symmetric]
  numeral_3_eq_3 [symmetric]

lemma byte_less_64: "(v :: byte) = v AND 63 \<Longrightarrow> v < 64"
proof -
  assume "v = v AND 63"
  then have "v \<le> 63" by (metis word_and_le1)
  also have "(63 :: byte) < 64" by simp
  finally show ?thesis .
qed

end
