(* ===== verification/FwdLockGlue.thy ===== *)
theory FwdLockGlue
  imports Prelude
begin

text \<open>
  The key handling shared by the Forward Lock converter and decoder
  (\<open>forward-lock/internal-format/common/FwdLockGlue.c\<close>): the device key-encryption key
  is read from or created in \<open>kek.dat\<close> once, session keys are padded, encrypted with it
  in CBC mode and stored with their initialisation vector.

  OpenSSL is not part of the repository: its functions are the fields of the record
  \<open>crypto\<close>, an argument of every definition that calls them. \<open>'rk\<close> is the type of
  expanded AES keys and \<open>'hc\<close> that of HMAC contexts. The operating system's answers
  (the key file, \<open>/dev/urandom\<close>, \<open>mkdir\<close>) are the record \<open>fwdenv\<close>.
\<close>

section \<open>Parameters: OpenSSL and the operating system\<close>

record ('rk, 'hc) crypto =
  AES_set_encrypt_key :: "bytes \<Rightarrow> 'rk option"
  AES_set_decrypt_key :: "bytes \<Rightarrow> 'rk option"
  AES_encrypt :: "bytes \<Rightarrow> 'rk \<Rightarrow> bytes"
  AES_cbc_encrypt :: "bytes \<Rightarrow> 'rk \<Rightarrow> bytes \<Rightarrow> bytes"
  AES_cbc_decrypt :: "bytes \<Rightarrow> 'rk \<Rightarrow> bytes \<Rightarrow> bytes"
  HMAC_Init :: "bytes \<Rightarrow> 'hc"
  HMAC_Reinit :: "'hc \<Rightarrow> 'hc"
  HMAC_Update :: "'hc \<Rightarrow> bytes \<Rightarrow> 'hc"
  HMAC_Final :: "'hc \<Rightarrow> bytes"
  HMAC_Done :: "'hc \<Rightarrow> 'hc"

text \<open>
  \<open>HMAC_Reinit\<close> is \<open>HMAC_Init_ex (ctx, NULL, ...)\<close>, which restarts the context with
  the key it has; \<open>HMAC_Final\<close> is the signature \<open>HMAC_Final\<close> writes (its length is the
  signature size it reports) and \<open>HMAC_Done\<close> the context it leaves.

  In \<open>urandom\<close> each entry is one open-and-read of \<open>/dev/urandom\<close>: the bytes
  read (none when the open failed) or \<open>None\<close> when \<open>read\<close> returned -1.
  \<open>keyOpenDenied\<close> is an open of the existing key file that fails with another error than
  ENOENT; \<open>keyWriteLimit\<close> is how many bytes a short \<open>write\<close> of the new key file stores.
\<close>

record fwdenv =
  urandom :: "bytes option list"
  keyFile :: "bytes option"
  keyOpenDenied :: bool
  mkdirFails :: "string \<Rightarrow> bool"
  keyCreateFails :: bool
  keyWriteLimit :: "nat option"

record 'rk fwdglue =
  onceDone :: bool
  isInitialized :: bool
  encRoundKeys :: "'rk option"
  decRoundKeys :: "'rk option"

definition fwdglue_init :: "'rk fwdglue" where
  "fwdglue_init = \<lparr>onceDone = False, isInitialized = False, encRoundKeys = None, decRoundKeys = None\<rparr>"

abbreviation (input) AES_BLOCK_SIZE :: nat where "AES_BLOCK_SIZE \<equiv> 16"
abbreviation (input) KEY_SIZE :: nat where "KEY_SIZE \<equiv> 16"

section \<open>The operations\<close>

definition strKeyFilename :: string where
  "strKeyFilename = ''/data/drm/fwdlock/kek.dat''"

text \<open>
  The loop of \<open>FwdLockGlue_CreateDirectories\<close> over the characters of the path:
  \<open>done\<close> is the part already copied to \<open>partialPath\<close>; the result lists the
  directories \<open>mkdir\<close> was called for.
\<close>

fun FwdLockGlue_CreateDirectoriesLoop ::
  "(string \<Rightarrow> bool) \<Rightarrow> string \<Rightarrow> string \<Rightarrow> bool \<times> string list" where
  "FwdLockGlue_CreateDirectoriesLoop fails partialPath [] = (True, [])"
| "FwdLockGlue_CreateDirectoriesLoop fails partialPath (c # path) =
     (if c = CHR ''/'' \<and> 0 < length partialPath
      then if fails partialPath then (False, [partialPath])
           else (case FwdLockGlue_CreateDirectoriesLoop fails (partialPath @ [c]) path of
                   (r, made) \<Rightarrow> (r, partialPath # made))
      else FwdLockGlue_CreateDirectoriesLoop fails (partialPath @ [c]) path)"

definition FwdLockGlue_CreateDirectories ::
  "(string \<Rightarrow> bool) \<Rightarrow> string \<Rightarrow> heap \<Rightarrow> (bool \<times> string list) \<times> heap" where
  "FwdLockGlue_CreateDirectories fails path h =
     (case alloc h of (got, h') \<Rightarrow>
        if got then (FwdLockGlue_CreateDirectoriesLoop fails [] path, h')
        else ((False, []), h'))"

definition FwdLockGlue_GetRandomNumber :: "nat \<Rightarrow> fwdenv \<Rightarrow> bytes option \<times> fwdenv" where
  "FwdLockGlue_GetRandomNumber numBytes env =
     (case urandom env of
        [] \<Rightarrow> (if numBytes = 0 then Some [] else None, env)
      | r # rs \<Rightarrow>
          (case r of
             None \<Rightarrow> (None, env\<lparr>urandom := rs\<rparr>)
           | Some bs \<Rightarrow> (if length bs = numBytes then Some bs else None, env\<lparr>urandom := rs\<rparr>)))"

text \<open>
  \<open>FwdLockGlue_InitializeRoundKeys\<close>: the first part finds or makes the key-encryption
  key, the second expands it.
\<close>

definition FwdLockGlue_FindKek :: "fwdenv \<Rightarrow> heap \<Rightarrow> bytes option \<times> fwdenv \<times> heap" where
  "FwdLockGlue_FindKek env h =
     (if keyOpenDenied env then (None, env, h)
      else case keyFile env of
        Some content \<Rightarrow>
          (if KEY_SIZE \<le> length content then Some (take KEY_SIZE content) else None, env, h)
      | None \<Rightarrow>
          (case FwdLockGlue_GetRandomNumber KEY_SIZE env of
             (None, env1) \<Rightarrow> (None, env1, h)
           | (Some kek, env1) \<Rightarrow>
               (case FwdLockGlue_CreateDirectories (mkdirFails env1) strKeyFilename h of
                  ((dirsOk, made), h1) \<Rightarrow>
                    if \<not> dirsOk \<or> keyCreateFails env1 then (None, env1, h1)
                    else (let written = (case keyWriteLimit env1 of None \<Rightarrow> kek | Some n \<Rightarrow> take n kek)
                          in (if length written = KEY_SIZE then Some kek else None,
                              env1\<lparr>keyFile := Some written\<rparr>, h1)))))"

definition FwdLockGlue_InitializeRoundKeys ::
  "('rk, 'hc) crypto \<Rightarrow> 'rk fwdglue \<Rightarrow> fwdenv \<Rightarrow> heap \<Rightarrow> 'rk fwdglue \<times> fwdenv \<times> heap" where
  "FwdLockGlue_InitializeRoundKeys c g env h =
     (case FwdLockGlue_FindKek env h of
        (None, env1, h1) \<Rightarrow> (g, env1, h1)
      | (Some kek, env1, h1) \<Rightarrow>
          (let ek = AES_set_encrypt_key c kek; dk = AES_set_decrypt_key c kek in
             (g\<lparr>encRoundKeys := ek, decRoundKeys := (if ek = None then decRoundKeys g else dk),
                isInitialized := (ek \<noteq> None \<and> dk \<noteq> None)\<rparr>, env1, h1)))"

definition FwdLockGlue_InitializeKeyEncryption ::
  "('rk, 'hc) crypto \<Rightarrow> 'rk fwdglue \<Rightarrow> fwdenv \<Rightarrow> heap \<Rightarrow> 'rk fwdglue \<times> fwdenv \<times> heap" where
  "FwdLockGlue_InitializeKeyEncryption c g env h =
     (if onceDone g then (g, env, h)
      else (case FwdLockGlue_InitializeRoundKeys c g env h of
              (g1, env1, h1) \<Rightarrow> (g1\<lparr>onceDone := True\<rparr>, env1, h1)))"

definition FwdLockGlue_GetEncryptedKeyLength :: "nat \<Rightarrow> nat" where
  "FwdLockGlue_GetEncryptedKeyLength plaintextKeyLength =
     ((plaintextKeyLength div AES_BLOCK_SIZE) + 2) * AES_BLOCK_SIZE"

fun FwdLockGlue_ValidatePaddingLoop :: "nat \<Rightarrow> nat \<Rightarrow> bytes \<Rightarrow> bool option" where
  "FwdLockGlue_ValidatePaddingLoop 0 padding pData = Some True"
| "FwdLockGlue_ValidatePaddingLoop (Suc k) padding [] = None"
| "FwdLockGlue_ValidatePaddingLoop (Suc k) padding (b # pData) =
     (if unat b \<noteq> padding then Some False else FwdLockGlue_ValidatePaddingLoop k padding pData)"

definition FwdLockGlue_ValidatePadding :: "bytes \<Rightarrow> nat \<Rightarrow> bool option" where
  "FwdLockGlue_ValidatePadding pData decryptedKeyLength =
     (let padding = AES_BLOCK_SIZE - (decryptedKeyLength mod AES_BLOCK_SIZE) in
        FwdLockGlue_ValidatePaddingLoop padding padding (drop decryptedKeyLength pData))"

text \<open>
  \<open>FwdLockGlue_EncryptKey\<close> returns the encrypted key where the C function returns TRUE.
  The initialisation vector is copied behind the data before \<open>AES_cbc_encrypt\<close> changes
  it. Asking for another output size than \<open>FwdLockGlue_GetEncryptedKeyLength\<close> trips the
  assertion.
\<close>

definition FwdLockGlue_EncryptKey ::
  "('rk, 'hc) crypto \<Rightarrow> bytes \<Rightarrow> nat \<Rightarrow> 'rk fwdglue \<Rightarrow> fwdenv \<Rightarrow> heap
     \<Rightarrow> (bytes option \<times> 'rk fwdglue \<times> fwdenv \<times> heap) option" where
  "FwdLockGlue_EncryptKey c pPlaintextKey encryptedKeyLength g env h =
     (if encryptedKeyLength \<noteq> FwdLockGlue_GetEncryptedKeyLength (length pPlaintextKey) then None
      else case FwdLockGlue_InitializeKeyEncryption c g env h of (g1, env1, h1) \<Rightarrow>
        if \<not> isInitialized g1 then Some (None, g1, env1, h1)
        else (case FwdLockGlue_GetRandomNumber AES_BLOCK_SIZE env1 of
          (None, env2) \<Rightarrow> Some (None, g1, env2, h1)
        | (Some initVector, env2) \<Rightarrow>
            (let padding = AES_BLOCK_SIZE - (length pPlaintextKey mod AES_BLOCK_SIZE);
                 padded = pPlaintextKey @ replicate padding (of_nat padding)
             in (case encRoundKeys g1 of
                   None \<Rightarrow> None
                 | Some rk \<Rightarrow>
                     Some (Some (AES_cbc_encrypt c padded rk initVector @ initVector), g1, env2, h1)))))"

definition FwdLockGlue_DecryptKey ::
  "('rk, 'hc) crypto \<Rightarrow> bytes \<Rightarrow> nat \<Rightarrow> 'rk fwdglue \<Rightarrow> fwdenv \<Rightarrow> heap
     \<Rightarrow> ((bool \<times> bytes) \<times> 'rk fwdglue \<times> fwdenv \<times> heap) option" where
  "FwdLockGlue_DecryptKey c pEncryptedKey decryptedKeyLength g env h =
     (if length pEncryptedKey \<noteq> FwdLockGlue_GetEncryptedKeyLength decryptedKeyLength then None
      else case FwdLockGlue_InitializeKeyEncryption c g env h of (g1, env1, h1) \<Rightarrow>
        if \<not> isInitialized g1 then Some ((False, []), g1, env1, h1)
        else case alloc h1 of (got, h2) \<Rightarrow>
          if \<not> got then Some ((False, []), g1, env1, h2)
          else (case decRoundKeys g1 of
                  None \<Rightarrow> None
                | Some rk \<Rightarrow>
                    (let dataLength = length pEncryptedKey - AES_BLOCK_SIZE;
                         pData = AES_cbc_decrypt c (take dataLength pEncryptedKey) rk
                                   (drop dataLength pEncryptedKey)
                     in (case FwdLockGlue_ValidatePadding pData decryptedKeyLength of
                           None \<Rightarrow> None
                         | Some okPad \<Rightarrow>
                             Some ((okPad, take decryptedKeyLength pData), g1, env1, h2)))))"

end
