(* ===== verification/FwdLockConv.thy ===== *)
theory FwdLockConv
  imports FwdLockGlue
begin

text \<open>
  The converter from OMA DRM v1 messages to the internal Forward Lock format
  (\<open>forward-lock/internal-format/converter/FwdLockConv.c\<close> and \<open>.h\<close>): a character driven
  state machine that recognises the open delimiter, the MIME headers and the binary or
  base64 body of a message, and encrypts the body in AES counter mode.

  A step takes the session, the output record and the heap and returns a status with their
  new values. Characters are bytes; the code compares them only with ASCII constants,
  through \<open>ctype.h\<close> and with other characters of the stream, so whether \<open>char\<close> is
  signed makes no difference.
\<close>

section \<open>Data\<close>

datatype FwdLockConv_Status =
    Status_OK | Status_InvalidArgument | Status_OutOfMemory | Status_FileNotFound
  | Status_FileCreationFailed | Status_FileReadError | Status_FileWriteError
  | Status_FileSeekError | Status_SyntaxError | Status_UnsupportedFileFormat
  | Status_UnsupportedContentTransferEncoding | Status_RandomNumberGenerationFailed
  | Status_KeyEncryptionFailed | Status_IntegrityProtectionFailed
  | Status_TooManySessions | Status_ProgramError

datatype FwdLockConv_ParserState =
    WantsOpenDelimiter | WantsMimeHeaders | WantsBinaryEncodedData | WantsBase64EncodedData
  | Done

datatype FwdLockConv_ScannerState =
    WantsFirstDash | WantsSecondDash | WantsCR | WantsLF | WantsBoundary | WantsBoundaryEnd
  | WantsMimeHeaderNameStart | WantsMimeHeaderName | WantsMimeHeaderNameEnd
  | WantsContentTypeStart | WantsContentType | WantsContentTransferEncodingStart
  | Wants_A_OR_I | Wants_N | Wants_A | Wants_R | Wants_Y | Wants_S | Wants_E | Wants_6
  | Wants_4 | Wants_B | Wants_I | Wants_T | WantsContentTransferEncodingEnd
  | WantsMimeHeaderValueEnd | WantsMimeHeadersEnd | WantsByte1 | WantsByte1_AfterCRLF
  | WantsByte2 | WantsByte3 | WantsByte4 | WantsPadding | WantsWhitespace
  | WantsWhitespace_AfterCRLF | WantsDelimiter

datatype FwdLockConv_ContentTransferEncoding = CTE_Undefined | CTE_Binary | CTE_Base64

text \<open>
  A dynamically growing string: \<open>ptr\<close> is the C string stored (up to its terminating zero),
  \<open>None\<close> for NULL.
\<close>

record FwdLockConv_String =
  ptr :: "bytes option"
  strLength :: nat
  maxLength :: nat
  lengthIncrement :: nat

text \<open>
  The session. \<open>delimiter\<close> holds the first \<open>delimiterLength\<close> bytes of the C array, the
  ones that have been written. Of the union \<open>FwdLockConv_Output_t\<close> the two members are two
  records: \<open>pBuffer\<close> is the size of the allocation it points to (\<open>None\<close> for NULL) and
  \<open>outBytes\<close> its first \<open>numBytes\<close> bytes.
\<close>

record ('rk, 'hc) FwdLockConv_Session =
  parserState :: FwdLockConv_ParserState
  scannerState :: FwdLockConv_ScannerState
  savedScannerState :: FwdLockConv_ScannerState
  numCharsConsumed :: int
  delimiter :: bytes
  delimiterMatchPos :: nat
  mimeHeaderName :: FwdLockConv_String
  contentType :: FwdLockConv_String
  contentTransferEncoding :: FwdLockConv_ContentTransferEncoding
  sessionKey :: bytes
  pEncryptedSessionKey :: bytes
  encryptionRoundKeys :: 'rk
  signingContext :: 'hc
  topHeader :: bytes
  counter :: bytes
  keyStream :: bytes
  keyStreamIndex :: int
  sesCh :: byte
  outputBufferSize :: nat
  dataOffset :: nat
  numDataBytes :: nat

record FwdLockConv_ConvertData_Output =
  pBuffer :: "nat option"
  outBytes :: bytes
  errorPos :: int

record FwdLockConv_CloseSession_Output =
  signatures :: bytes
  fileOffset :: nat
  closeErrorPos :: int

type_synonym ('rk, 'hc) conv_step =
  "(FwdLockConv_Status \<times> ('rk, 'hc) FwdLockConv_Session
      \<times> FwdLockConv_ConvertData_Output \<times> heap) option"

abbreviation (input) INVALID_OFFSET :: int where "INVALID_OFFSET \<equiv> -1"
abbreviation (input) MAX_NUM_SESSIONS :: nat where "MAX_NUM_SESSIONS \<equiv> 32"
abbreviation (input) OUTPUT_BUFFER_SIZE_INCREMENT :: nat where "OUTPUT_BUFFER_SIZE_INCREMENT \<equiv> 1024"
abbreviation (input) READ_BUFFER_SIZE :: nat where "READ_BUFFER_SIZE \<equiv> 1024"
abbreviation (input) MAX_DELIMITER_LENGTH :: nat where "MAX_DELIMITER_LENGTH \<equiv> 74"
abbreviation (input) STRING_LENGTH_INCREMENT :: nat where "STRING_LENGTH_INCREMENT \<equiv> 25"
abbreviation (input) SHA1_HASH_SIZE :: nat where "SHA1_HASH_SIZE \<equiv> 20"
abbreviation (input) TOP_HEADER_SIZE :: nat where "TOP_HEADER_SIZE \<equiv> 8"
abbreviation (input) FWD_LOCK_SIGNATURES_SIZE :: nat where "FWD_LOCK_SIGNATURES_SIZE \<equiv> 40"

definition nullString :: FwdLockConv_String where
  "nullString = \<lparr>ptr = None, strLength = 0, maxLength = 0, lengthIncrement = STRING_LENGTH_INCREMENT\<rparr>"

definition topHeaderTemplate :: bytes where
  "topHeaderTemplate = [0x46, 0x57, 0x4C, 0x4B, 0, 0, 0]"

definition strContent :: bytes where "strContent = bytes_of ''content-''"
definition strType :: bytes where "strType = bytes_of ''type''"
definition strTransferEncoding :: bytes where "strTransferEncoding = bytes_of ''transfer-encoding''"
definition strTextPlain :: bytes where "strTextPlain = bytes_of ''text/plain''"
definition strApplicationVndOmaDrmRightsXml :: bytes where
  "strApplicationVndOmaDrmRightsXml = bytes_of ''application/vnd.oma.drm.rights+xml''"
definition strApplicationVndOmaDrmContent :: bytes where
  "strApplicationVndOmaDrmContent = bytes_of ''application/vnd.oma.drm.content''"

definition base64Values :: "int list" where
  "base64Values =
     [-1, -1, -1, -1, -1, -1, -1, -1, -1, -1, -1, -1, -1, -1, -1, -1,
      -1, -1, -1, -1, -1, -1, -1, -1, -1, -1, -1, -1, -1, -1, -1, -1,
      -1, -1, -1, -1, -1, -1, -1, -1, -1, -1, -1, 62, -1, -1, -1, 63,
      52, 53, 54, 55, 56, 57, 58, 59, 60, 61, -1, -1, -1, -2, -1, -1,
      -1,  0,  1,  2,  3,  4,  5,  6,  7,  8,  9, 10, 11, 12, 13, 14,
      15, 16, 17, 18, 19, 20, 21, 22, 23, 24, 25, -1, -1, -1, -1, -1,
      -1, 26, 27, 28, 29, 30, 31, 32, 33, 34, 35, 36, 37, 38, 39, 40,
      41, 42, 43, 44, 45, 46, 47, 48, 49, 50, 51]"

section \<open>Keys\<close>

text \<open>
  \<open>value\<close> is the block of zeros, then the block with first byte one.
\<close>

definition FwdLockConv_DeriveKeys ::
  "('rk, 'hc) crypto \<Rightarrow> ('rk, 'hc) FwdLockConv_Session \<Rightarrow> heap
     \<Rightarrow> FwdLockConv_Status \<times> ('rk, 'hc) FwdLockConv_Session \<times> heap" where
  "FwdLockConv_DeriveKeys c s h =
     (case alloc h of (got, h') \<Rightarrow>
        if \<not> got then (Status_OutOfMemory, s, h')
        else (case AES_set_encrypt_key c (sessionKey s) of
          None \<Rightarrow> (Status_ProgramError, s, h')
        | Some sessionRoundKeys \<Rightarrow>
            (case AES_set_encrypt_key c (AES_encrypt c (replicate KEY_SIZE 0) sessionRoundKeys) of
               None \<Rightarrow> (Status_ProgramError, s, h')
             | Some rk \<Rightarrow>
                 (Status_OK,
                  s\<lparr>encryptionRoundKeys := rk,
                    signingContext :=
                      HMAC_Init c (AES_encrypt c (1 # replicate (KEY_SIZE - 1) 0) sessionRoundKeys)\<rparr>,
                  h'))))"

section \<open>Character classes\<close>

definition FwdLockConv_IsBoundaryChar :: "byte \<Rightarrow> bool" where
  "FwdLockConv_IsBoundaryChar ch \<longleftrightarrow>
     isalnum ch \<or> ch = 0x27 \<or> ch = byte_of CHR ''('' \<or> ch = byte_of CHR '')'' \<or>
     ch = byte_of CHR ''+'' \<or> ch = byte_of CHR ''_'' \<or> ch = byte_of CHR '','' \<or>
     ch = byte_of CHR ''-'' \<or> ch = byte_of CHR ''.'' \<or> ch = byte_of CHR ''/'' \<or>
     ch = byte_of CHR '':'' \<or> ch = byte_of CHR ''='' \<or> ch = byte_of CHR ''?'' \<or>
     ch = byte_of CHR '' '' \<or> ch = byte_of CHR ''%'' \<or> ch = byte_of CHR ''['' \<or>
     ch = byte_of CHR ''&'' \<or> ch = byte_of CHR ''*'' \<or> ch = byte_of CHR ''^''"

definition FwdLockConv_IsWhitespace :: "byte \<Rightarrow> bool" where
  "FwdLockConv_IsWhitespace ch \<longleftrightarrow> ch = SP \<or> ch = TAB"

definition FwdLockConv_IsMimeHeaderNameChar :: "byte \<Rightarrow> bool" where
  "FwdLockConv_IsMimeHeaderNameChar ch \<longleftrightarrow> isgraph ch \<and> ch \<noteq> byte_of CHR '':''"

definition FwdLockConv_IsMimeHeaderValueChar :: "byte \<Rightarrow> bool" where
  "FwdLockConv_IsMimeHeaderValueChar ch \<longleftrightarrow> isgraph ch \<and> ch \<noteq> byte_of CHR '';''"

definition FwdLockConv_IsBase64Char :: "byte \<Rightarrow> bool" where
  "FwdLockConv_IsBase64Char ch \<longleftrightarrow> ch \<le> byte_of CHR ''z'' \<and> 0 \<le> base64Values ! unat ch"

section \<open>The open delimiter\<close>

text \<open>\<open>delimiterLength\<close> is decremented by dropping the last byte.\<close>

function FwdLockConv_TrimSpaces :: "bytes \<Rightarrow> bytes" where
  "FwdLockConv_TrimSpaces d =
     (if 4 < length d \<and> last d = SP then FwdLockConv_TrimSpaces (butlast d) else d)"
  by pat_completeness auto
termination
  by (relation "measure length") auto

declare FwdLockConv_TrimSpaces.simps [simp del]

definition FwdLockConv_RightTrimDelimiter ::
  "('rk, 'hc) FwdLockConv_Session \<Rightarrow> FwdLockConv_Status \<times> ('rk, 'hc) FwdLockConv_Session" where
  "FwdLockConv_RightTrimDelimiter s =
     (let s1 = s\<lparr>delimiter := FwdLockConv_TrimSpaces (delimiter s)\<rparr> in
        (if 4 < length (delimiter s1) then Status_OK else Status_SyntaxError, s1))"

definition FwdLockConv_MatchOpenDelimiter ::
  "('rk, 'hc) FwdLockConv_Session \<Rightarrow> byte
     \<Rightarrow> FwdLockConv_Status \<times> ('rk, 'hc) FwdLockConv_Session" where
  "FwdLockConv_MatchOpenDelimiter s ch =
     (case scannerState s of
        WantsFirstDash \<Rightarrow>
          (if ch = DASH then (Status_OK, s\<lparr>scannerState := WantsSecondDash\<rparr>)
           else if ch = CR then (Status_OK, s\<lparr>scannerState := WantsLF\<rparr>)
           else (Status_OK, s\<lparr>scannerState := WantsCR\<rparr>))
      | WantsSecondDash \<Rightarrow>
          (if ch = DASH
           then (Status_OK, s\<lparr>delimiter := [CR, LF, DASH, DASH], scannerState := WantsBoundary\<rparr>)
           else if ch = CR then (Status_OK, s\<lparr>scannerState := WantsLF\<rparr>)
           else (Status_OK, s\<lparr>scannerState := WantsCR\<rparr>))
      | WantsCR \<Rightarrow>
          (if ch = CR then (Status_OK, s\<lparr>scannerState := WantsLF\<rparr>) else (Status_OK, s))
      | WantsLF \<Rightarrow>
          (if ch = LF then (Status_OK, s\<lparr>scannerState := WantsFirstDash\<rparr>)
           else if ch \<noteq> CR then (Status_OK, s\<lparr>scannerState := WantsCR\<rparr>)
           else (Status_OK, s))
      | WantsBoundary \<Rightarrow>
          (if FwdLockConv_IsBoundaryChar ch
           then if length (delimiter s) < MAX_DELIMITER_LENGTH
                then (Status_OK, s\<lparr>delimiter := delimiter s @ [ch]\<rparr>)
                else if ch \<noteq> SP then (Status_SyntaxError, s)
                else (Status_OK, s)
           else if ch = CR
           then (case FwdLockConv_RightTrimDelimiter s of (status, s1) \<Rightarrow>
                   if status = Status_OK
                   then (status, s1\<lparr>scannerState := WantsBoundaryEnd\<rparr>) else (status, s1))
           else if ch = TAB
           then (case FwdLockConv_RightTrimDelimiter s of (status, s1) \<Rightarrow>
                   if status = Status_OK
                   then (status, s1\<lparr>scannerState := WantsWhitespace\<rparr>) else (status, s1))
           else (Status_SyntaxError, s))
      | WantsWhitespace \<Rightarrow>
          (if ch = CR then (Status_OK, s\<lparr>scannerState := WantsBoundaryEnd\<rparr>)
           else if \<not> FwdLockConv_IsWhitespace ch then (Status_SyntaxError, s)
           else (Status_OK, s))
      | WantsBoundaryEnd \<Rightarrow>
          (if ch = LF
           then (Status_OK, s\<lparr>parserState := WantsMimeHeaders,
                              scannerState := WantsMimeHeaderNameStart\<rparr>)
           else (Status_SyntaxError, s))
      | _ \<Rightarrow> (Status_ProgramError, s))"

section \<open>MIME headers\<close>

text \<open>
  \<open>ptr[length++] = ch; ptr[length] = 0\<close> keeps the first \<open>length\<close> characters: a string
  whose length was reset to 0 starts again.
\<close>

definition FwdLockConv_StringAppend ::
  "FwdLockConv_String \<Rightarrow> byte \<Rightarrow> heap \<Rightarrow> (FwdLockConv_Status \<times> FwdLockConv_String \<times> heap) option" where
  "FwdLockConv_StringAppend str ch h =
     (let put = (\<lambda>str h. case ptr str of
                   None \<Rightarrow> None
                 | Some p \<Rightarrow>
                     if strLength str < maxLength str \<and> strLength str \<le> length p
                     then Some (Status_OK,
                                str\<lparr>ptr := Some (take (strLength str) p @ [ch]),
                                    strLength := strLength str + 1\<rparr>, h)
                     else None)
      in if strLength str = maxLength str
         then (case alloc h of (got, h') \<Rightarrow>
                 if got
                 then put (str\<lparr>ptr := Some (case ptr str of None \<Rightarrow> [] | Some p \<Rightarrow> p),
                               maxLength := maxLength str + lengthIncrement str\<rparr>) h'
                 else Some (Status_OutOfMemory, str, h'))
         else put str h)"

definition FwdLockConv_RecognizeMimeHeaderName ::
  "('rk, 'hc) FwdLockConv_Session
     \<Rightarrow> (FwdLockConv_Status \<times> ('rk, 'hc) FwdLockConv_Session) option" where
  "FwdLockConv_RecognizeMimeHeaderName s =
     (case ptr (mimeHeaderName s) of
        None \<Rightarrow> None
      | Some name \<Rightarrow>
          Some (if take (length strContent) name = strContent
                then if drop (length strContent) name = strType
                     then if ptr (contentType s) = None
                          then (Status_OK, s\<lparr>scannerState := WantsContentTypeStart\<rparr>)
                          else (Status_SyntaxError, s)
                     else if drop (length strContent) name = strTransferEncoding
                     then if contentTransferEncoding s = CTE_Undefined
                          then (Status_OK, s\<lparr>scannerState := WantsContentTransferEncodingStart\<rparr>)
                          else (Status_SyntaxError, s)
                     else (Status_OK, s\<lparr>scannerState := WantsCR\<rparr>)
                else (Status_OK, s\<lparr>scannerState := WantsCR\<rparr>)))"

definition FwdLockConv_ApplyDefaults ::
  "('rk, 'hc) FwdLockConv_Session \<Rightarrow> heap
     \<Rightarrow> FwdLockConv_Status \<times> ('rk, 'hc) FwdLockConv_Session \<times> heap" where
  "FwdLockConv_ApplyDefaults s h =
     (let applyEncoding = (\<lambda>s. if contentTransferEncoding s = CTE_Undefined
                               then s\<lparr>contentTransferEncoding := CTE_Binary\<rparr> else s)
      in if ptr (contentType s) = None
         then (case alloc h of (got, h') \<Rightarrow>
                 if got
                 then (Status_OK,
                       applyEncoding
                         (s\<lparr>contentType := (contentType s)\<lparr>ptr := Some strTextPlain,
                                                          strLength := length strTextPlain,
                                                          maxLength := length strTextPlain\<rparr>\<rparr>),
                       h')
                 else (Status_OutOfMemory, s, h'))
         else (Status_OK, applyEncoding s, h))"

definition FwdLockConv_VerifyContentType ::
  "('rk, 'hc) FwdLockConv_Session \<Rightarrow> FwdLockConv_Status" where
  "FwdLockConv_VerifyContentType s =
     (case ptr (contentType s) of
        None \<Rightarrow> Status_ProgramError
      | Some p \<Rightarrow>
          if p = strApplicationVndOmaDrmRightsXml \<or> p = strApplicationVndOmaDrmContent
          then Status_UnsupportedFileFormat else Status_OK)"

text \<open>
  The header is written at the start of a fresh buffer of 1024 bytes: top header, content
  type, encrypted session key and two zero signatures. The writes must fit the allocation.
\<close>

definition FwdLockConv_WriteHeader ::
  "('rk, 'hc) FwdLockConv_Session \<Rightarrow> FwdLockConv_ConvertData_Output \<Rightarrow> heap \<Rightarrow> ('rk, 'hc) conv_step"
  where
  "FwdLockConv_WriteHeader s out h =
     (if 255 < strLength (contentType s) then Some (Status_SyntaxError, s, out, h)
      else let s1 = s\<lparr>outputBufferSize := OUTPUT_BUFFER_SIZE_INCREMENT\<rparr> in
        (case alloc h of (got, h') \<Rightarrow>
           if \<not> got then Some (Status_OutOfMemory, s1, out\<lparr>pBuffer := None\<rparr>, h')
           else
             (let encryptedSessionKeyPos = TOP_HEADER_SIZE + strLength (contentType s1);
                  dataSignaturePos = encryptedSessionKeyPos + length (pEncryptedSessionKey s1);
                  headerSignaturePos = dataSignaturePos + SHA1_HASH_SIZE;
                  dataOff = headerSignaturePos + SHA1_HASH_SIZE;
                  top = topHeaderTemplate @ [of_nat (strLength (contentType s1))];
                  s2 = s1\<lparr>dataOffset := dataOff, topHeader := top\<rparr>
              in (case ptr (contentType s2) of
                    None \<Rightarrow> None
                  | Some p \<Rightarrow>
                      if length p < strLength (contentType s2)
                         \<or> OUTPUT_BUFFER_SIZE_INCREMENT < dataOff then None
                      else Some (Status_OK, s2,
                             out\<lparr>pBuffer := Some OUTPUT_BUFFER_SIZE_INCREMENT,
                                 outBytes := top @ take (strLength (contentType s2)) p
                                   @ pEncryptedSessionKey s2
                                   @ replicate SHA1_HASH_SIZE 0 @ replicate SHA1_HASH_SIZE 0\<rparr>,
                             h')))))"

text \<open>
  \<open>FwdLockConv_MatchMimeHeaders\<close> in three parts: the scanner states of a
  \<open>Content-Transfer-Encoding\<close> value, those of header names and of the content type, and
  the rest. A letter is accepted in either case.
\<close>

definition FwdLockConv_MatchTransferEncoding ::
  "('rk, 'hc) FwdLockConv_Session \<Rightarrow> byte
     \<Rightarrow> FwdLockConv_Status \<times> ('rk, 'hc) FwdLockConv_Session" where
  "FwdLockConv_MatchTransferEncoding s ch =
     (let accept = (\<lambda>st. (Status_OK, s\<lparr>scannerState := st\<rparr>));
          refuse = (Status_UnsupportedContentTransferEncoding, s)
      in case scannerState s of
        WantsContentTransferEncodingStart \<Rightarrow>
          (if ch = byte_of CHR ''b'' \<or> ch = byte_of CHR ''B'' then accept Wants_A_OR_I
           else if ch = byte_of CHR ''7'' \<or> ch = byte_of CHR ''8'' then accept Wants_B
           else if \<not> FwdLockConv_IsWhitespace ch then refuse
           else (Status_OK, s))
      | Wants_A_OR_I \<Rightarrow>
          (if ch = byte_of CHR ''i'' \<or> ch = byte_of CHR ''I'' then accept Wants_N
           else if ch = byte_of CHR ''a'' \<or> ch = byte_of CHR ''A'' then accept Wants_S
           else refuse)
      | Wants_N \<Rightarrow> (if ch = byte_of CHR ''n'' \<or> ch = byte_of CHR ''N'' then accept Wants_A else refuse)
      | Wants_A \<Rightarrow> (if ch = byte_of CHR ''a'' \<or> ch = byte_of CHR ''A'' then accept Wants_R else refuse)
      | Wants_R \<Rightarrow> (if ch = byte_of CHR ''r'' \<or> ch = byte_of CHR ''R'' then accept Wants_Y else refuse)
      | Wants_Y \<Rightarrow>
          (if ch = byte_of CHR ''y'' \<or> ch = byte_of CHR ''Y''
           then (Status_OK, s\<lparr>contentTransferEncoding := CTE_Binary,
                              scannerState := WantsContentTransferEncodingEnd\<rparr>)
           else refuse)
      | Wants_S \<Rightarrow> (if ch = byte_of CHR ''s'' \<or> ch = byte_of CHR ''S'' then accept Wants_E else refuse)
      | Wants_E \<Rightarrow> (if ch = byte_of CHR ''e'' \<or> ch = byte_of CHR ''E'' then accept Wants_6 else refuse)
      | Wants_6 \<Rightarrow> (if ch = byte_of CHR ''6'' then accept Wants_4 else refuse)
      | Wants_4 \<Rightarrow>
          (if ch = byte_of CHR ''4''
           then (Status_OK, s\<lparr>contentTransferEncoding := CTE_Base64,
                              scannerState := WantsContentTransferEncodingEnd\<rparr>)
           else refuse)
      | Wants_B \<Rightarrow> (if ch = byte_of CHR ''b'' \<or> ch = byte_of CHR ''B'' then accept Wants_I else refuse)
      | Wants_I \<Rightarrow> (if ch = byte_of CHR ''i'' \<or> ch = byte_of CHR ''I'' then accept Wants_T else refuse)
      | Wants_T \<Rightarrow>
          (if ch = byte_of CHR ''t'' \<or> ch = byte_of CHR ''T''
           then (Status_OK, s\<lparr>contentTransferEncoding := CTE_Binary,
                              scannerState := WantsContentTransferEncodingEnd\<rparr>)
           else refuse)
      | WantsContentTransferEncodingEnd \<Rightarrow>
          (if ch = byte_of CHR '';'' then accept WantsCR
           else if ch = CR then accept WantsLF
           else if FwdLockConv_IsWhitespace ch then accept WantsMimeHeaderValueEnd
           else refuse)
      | _ \<Rightarrow> (Status_ProgramError, s))"

definition FwdLockConv_MatchHeaderName ::
  "('rk, 'hc) FwdLockConv_Session \<Rightarrow> byte \<Rightarrow> heap
     \<Rightarrow> (FwdLockConv_Status \<times> ('rk, 'hc) FwdLockConv_Session \<times> heap) option" where
  "FwdLockConv_MatchHeaderName s ch h =
     (let recognize = (case FwdLockConv_RecognizeMimeHeaderName s of
                         None \<Rightarrow> None | Some (status, s1) \<Rightarrow> Some (status, s1, h))
      in case scannerState s of
        WantsMimeHeaderNameStart \<Rightarrow>
          (if FwdLockConv_IsMimeHeaderNameChar ch
           then (case FwdLockConv_StringAppend ((mimeHeaderName s)\<lparr>strLength := 0\<rparr>) (tolower ch) h of
                   None \<Rightarrow> None
                 | Some (status, str, h') \<Rightarrow>
                     Some (status,
                           (if status = Status_OK
                            then s\<lparr>mimeHeaderName := str, scannerState := WantsMimeHeaderName\<rparr>
                            else s\<lparr>mimeHeaderName := str\<rparr>), h'))
           else if ch = CR then Some (Status_OK, s\<lparr>scannerState := WantsMimeHeadersEnd\<rparr>, h)
           else if \<not> FwdLockConv_IsWhitespace ch then Some (Status_SyntaxError, s, h)
           else Some (Status_OK, s, h))
      | WantsMimeHeaderName \<Rightarrow>
          (if FwdLockConv_IsMimeHeaderNameChar ch
           then (case FwdLockConv_StringAppend (mimeHeaderName s) (tolower ch) h of
                   None \<Rightarrow> None
                 | Some (status, str, h') \<Rightarrow> Some (status, s\<lparr>mimeHeaderName := str\<rparr>, h'))
           else if ch = byte_of CHR '':'' then recognize
           else if FwdLockConv_IsWhitespace ch
           then Some (Status_OK, s\<lparr>scannerState := WantsMimeHeaderNameEnd\<rparr>, h)
           else Some (Status_SyntaxError, s, h))
      | WantsMimeHeaderNameEnd \<Rightarrow>
          (if ch = byte_of CHR '':'' then recognize
           else if \<not> FwdLockConv_IsWhitespace ch then Some (Status_SyntaxError, s, h)
           else Some (Status_OK, s, h))
      | _ \<Rightarrow> Some (Status_ProgramError, s, h))"

definition FwdLockConv_MatchContentType ::
  "('rk, 'hc) FwdLockConv_Session \<Rightarrow> byte \<Rightarrow> heap
     \<Rightarrow> (FwdLockConv_Status \<times> ('rk, 'hc) FwdLockConv_Session \<times> heap) option" where
  "FwdLockConv_MatchContentType s ch h =
     (case scannerState s of
        WantsContentTypeStart \<Rightarrow>
          (if FwdLockConv_IsMimeHeaderValueChar ch
           then (case FwdLockConv_StringAppend (contentType s) (tolower ch) h of
                   None \<Rightarrow> None
                 | Some (status, str, h') \<Rightarrow>
                     Some (status,
                           (if status = Status_OK
                            then s\<lparr>contentType := str, scannerState := WantsContentType\<rparr>
                            else s\<lparr>contentType := str\<rparr>), h'))
           else if \<not> FwdLockConv_IsWhitespace ch then Some (Status_SyntaxError, s, h)
           else Some (Status_OK, s, h))
      | WantsContentType \<Rightarrow>
          (if FwdLockConv_IsMimeHeaderValueChar ch
           then (case FwdLockConv_StringAppend (contentType s) (tolower ch) h of
                   None \<Rightarrow> None
                 | Some (status, str, h') \<Rightarrow> Some (status, s\<lparr>contentType := str\<rparr>, h'))
           else if ch = byte_of CHR '';'' then Some (Status_OK, s\<lparr>scannerState := WantsCR\<rparr>, h)
           else if ch = CR then Some (Status_OK, s\<lparr>scannerState := WantsLF\<rparr>, h)
           else if FwdLockConv_IsWhitespace ch
           then Some (Status_OK, s\<lparr>scannerState := WantsMimeHeaderValueEnd\<rparr>, h)
           else Some (Status_SyntaxError, s, h))
      | _ \<Rightarrow> Some (Status_ProgramError, s, h))"

definition FwdLockConv_MatchHeadersEnd ::
  "('rk, 'hc) FwdLockConv_Session \<Rightarrow> FwdLockConv_ConvertData_Output \<Rightarrow> heap \<Rightarrow> ('rk, 'hc) conv_step"
  where
  "FwdLockConv_MatchHeadersEnd s out h =
     (case FwdLockConv_ApplyDefaults s h of
        (status, s1, h1) \<Rightarrow>
          if status \<noteq> Status_OK then Some (status, s1, out, h1)
          else (let status2 = FwdLockConv_VerifyContentType s1 in
            if status2 \<noteq> Status_OK then Some (status2, s1, out, h1)
            else (case FwdLockConv_WriteHeader s1 out h1 of
                    None \<Rightarrow> None
                  | Some (status3, s2, out2, h2) \<Rightarrow>
                      if status3 \<noteq> Status_OK then Some (status3, s2, out2, h2)
                      else Some (Status_OK,
                             s2\<lparr>parserState :=
                                  (if contentTransferEncoding s2 = CTE_Binary
                                   then WantsBinaryEncodedData else WantsBase64EncodedData),
                                scannerState := WantsByte1\<rparr>, out2, h2))))"

definition FwdLockConv_MatchMimeHeaders ::
  "('rk, 'hc) FwdLockConv_Session \<Rightarrow> byte \<Rightarrow> FwdLockConv_ConvertData_Output \<Rightarrow> heap
     \<Rightarrow> ('rk, 'hc) conv_step" where
  "FwdLockConv_MatchMimeHeaders s ch out h =
     (let pure = (\<lambda>(status, s1). Some (status, s1, out, h));
          heapOnly = (\<lambda>r. case r of None \<Rightarrow> None | Some (status, s1, h1) \<Rightarrow> Some (status, s1, out, h1))
      in case scannerState s of
        WantsMimeHeaderNameStart \<Rightarrow> heapOnly (FwdLockConv_MatchHeaderName s ch h)
      | WantsMimeHeaderName \<Rightarrow> heapOnly (FwdLockConv_MatchHeaderName s ch h)
      | WantsMimeHeaderNameEnd \<Rightarrow> heapOnly (FwdLockConv_MatchHeaderName s ch h)
      | WantsContentTypeStart \<Rightarrow> heapOnly (FwdLockConv_MatchContentType s ch h)
      | WantsContentType \<Rightarrow> heapOnly (FwdLockConv_MatchContentType s ch h)
      | WantsMimeHeaderValueEnd \<Rightarrow>
          pure (if ch = byte_of CHR '';'' then (Status_OK, s\<lparr>scannerState := WantsCR\<rparr>)
                else if ch = CR then (Status_OK, s\<lparr>scannerState := WantsLF\<rparr>)
                else if \<not> FwdLockConv_IsWhitespace ch then (Status_SyntaxError, s)
                else (Status_OK, s))
      | WantsCR \<Rightarrow>
          pure (Status_OK, if ch = CR then s\<lparr>scannerState := WantsLF\<rparr> else s)
      | WantsLF \<Rightarrow>
          pure (if ch = LF then (Status_OK, s\<lparr>scannerState := WantsMimeHeaderNameStart\<rparr>)
                else (Status_SyntaxError, s))
      | WantsMimeHeadersEnd \<Rightarrow>
          (if ch = LF then FwdLockConv_MatchHeadersEnd s out h
           else Some (Status_SyntaxError, s, out, h))
      | _ \<Rightarrow> pure (FwdLockConv_MatchTransferEncoding s ch))"

section \<open>The encrypted body\<close>

text \<open>
  \<open>while ((++counter[i] == 0) && (++i < AES_BLOCK_SIZE))\<close> over the counter bytes: a byte
  that wraps to zero carries into the next one.
\<close>

fun FwdLockConv_IncrementCounter :: "bytes \<Rightarrow> bytes" where
  "FwdLockConv_IncrementCounter [] = []"
| "FwdLockConv_IncrementCounter (b # bs) =
     (if b + 1 = 0 then 0 # FwdLockConv_IncrementCounter bs else (b + 1) # bs)"

text \<open>
  \<open>FwdLockConv_WriteEncryptedChar\<close> in its three steps: make room in the output buffer,
  move to the next key stream byte, store the encrypted character. Making room raises
  \<open>outputBufferSize\<close> before it knows whether \<open>realloc\<close> succeeds, as the code does.
\<close>

definition FwdLockConv_EnsureRoom ::
  "('rk, 'hc) FwdLockConv_Session \<Rightarrow> FwdLockConv_ConvertData_Output \<Rightarrow> heap
     \<Rightarrow> FwdLockConv_Status \<times> ('rk, 'hc) FwdLockConv_Session
        \<times> FwdLockConv_ConvertData_Output \<times> heap" where
  "FwdLockConv_EnsureRoom s out h =
     (if length (outBytes out) = outputBufferSize s
      then let s1 = s\<lparr>outputBufferSize := outputBufferSize s + OUTPUT_BUFFER_SIZE_INCREMENT\<rparr> in
        (case alloc h of (got, h') \<Rightarrow>
           if got then (Status_OK, s1, out\<lparr>pBuffer := Some (outputBufferSize s1)\<rparr>, h')
           else (Status_OutOfMemory, s1, out, h'))
      else (Status_OK, s, out, h))"

definition FwdLockConv_NextKeyByte ::
  "('rk, 'hc) crypto \<Rightarrow> ('rk, 'hc) FwdLockConv_Session \<Rightarrow> ('rk, 'hc) FwdLockConv_Session" where
  "FwdLockConv_NextKeyByte c s =
     (let s1 = s\<lparr>keyStreamIndex := keyStreamIndex s + 1\<rparr>;
          s2 = (if keyStreamIndex s1 = int AES_BLOCK_SIZE
                then s1\<lparr>counter := FwdLockConv_IncrementCounter (counter s1), keyStreamIndex := 0\<rparr>
                else s1)
      in if keyStreamIndex s2 = 0
         then s2\<lparr>keyStream := AES_encrypt c (counter s2) (encryptionRoundKeys s2)\<rparr>
         else s2)"

definition FwdLockConv_WriteEncryptedChar ::
  "('rk, 'hc) crypto \<Rightarrow> ('rk, 'hc) FwdLockConv_Session \<Rightarrow> byte
     \<Rightarrow> FwdLockConv_ConvertData_Output \<Rightarrow> heap \<Rightarrow> ('rk, 'hc) conv_step" where
  "FwdLockConv_WriteEncryptedChar c s ch out h =
     (case FwdLockConv_EnsureRoom s out h of
        (status, s1, out1, h1) \<Rightarrow>
          if status \<noteq> Status_OK then Some (status, s1, out1, h1)
          else let s2 = FwdLockConv_NextKeyByte c s1 in
            (case (rd (keyStream s2) (nat (keyStreamIndex s2)), pBuffer out1) of
               (Some k, Some cap) \<Rightarrow>
                 if keyStreamIndex s2 < 0 \<or> cap \<le> length (outBytes out1) then None
                 else Some (Status_OK, s2\<lparr>numDataBytes := numDataBytes s2 + 1\<rparr>,
                            out1\<lparr>outBytes := outBytes out1 @ [ch XOR k]\<rparr>, h1)
             | _ \<Rightarrow> None))"

text \<open>
  The flush of a spurious delimiter match: the matched bytes are written one by one, and
  the first failure is returned.
\<close>

fun FwdLockConv_FlushBytes ::
  "('rk, 'hc) crypto \<Rightarrow> ('rk, 'hc) FwdLockConv_Session \<Rightarrow> bytes
     \<Rightarrow> FwdLockConv_ConvertData_Output \<Rightarrow> heap \<Rightarrow> ('rk, 'hc) conv_step" where
  "FwdLockConv_FlushBytes c s [] out h = Some (Status_OK, s, out, h)"
| "FwdLockConv_FlushBytes c s (b # bs) out h =
     (case FwdLockConv_WriteEncryptedChar c s b out h of
        None \<Rightarrow> None
      | Some (status, s1, out1, h1) \<Rightarrow>
          if status \<noteq> Status_OK then Some (status, s1, out1, h1)
          else FwdLockConv_FlushBytes c s1 bs out1 h1)"

text \<open>
  The two dashes that complete the close delimiter, shared by both bodies.
\<close>

definition FwdLockConv_MatchCloseDash ::
  "('rk, 'hc) FwdLockConv_Session \<Rightarrow> byte
     \<Rightarrow> FwdLockConv_Status \<times> ('rk, 'hc) FwdLockConv_Session" where
  "FwdLockConv_MatchCloseDash s ch =
     (case scannerState s of
        WantsFirstDash \<Rightarrow>
          (if ch = DASH then (Status_OK, s\<lparr>scannerState := WantsSecondDash\<rparr>)
           else (Status_SyntaxError, s))
      | WantsSecondDash \<Rightarrow>
          (if ch = DASH then (Status_OK, s\<lparr>parserState := Done\<rparr>)
           else (Status_SyntaxError, s))
      | _ \<Rightarrow> (Status_ProgramError, s))"

definition FwdLockConv_MatchDelimiterChar ::
  "('rk, 'hc) crypto \<Rightarrow> ('rk, 'hc) FwdLockConv_Session \<Rightarrow> byte
     \<Rightarrow> FwdLockConv_ConvertData_Output \<Rightarrow> heap \<Rightarrow> ('rk, 'hc) conv_step" where
  "FwdLockConv_MatchDelimiterChar c s ch out h =
     (case rd (delimiter s) (delimiterMatchPos s) of
        None \<Rightarrow> None
      | Some d \<Rightarrow>
          if ch \<noteq> d then FwdLockConv_WriteEncryptedChar c s ch out h
          else let s1 = s\<lparr>delimiterMatchPos := delimiterMatchPos s + 1\<rparr> in
            Some (Status_OK,
                  (if delimiterMatchPos s1 = length (delimiter s1)
                   then s1\<lparr>scannerState := WantsFirstDash\<rparr> else s1), out, h))"

definition FwdLockConv_MatchBinaryEncodedData ::
  "('rk, 'hc) crypto \<Rightarrow> ('rk, 'hc) FwdLockConv_Session \<Rightarrow> byte
     \<Rightarrow> FwdLockConv_ConvertData_Output \<Rightarrow> heap \<Rightarrow> ('rk, 'hc) conv_step" where
  "FwdLockConv_MatchBinaryEncodedData c s ch out h =
     (if scannerState s = WantsByte1
      then (case rd (delimiter s) (delimiterMatchPos s) of
              None \<Rightarrow> None
            | Some d \<Rightarrow>
                if ch \<noteq> d
                then (case FwdLockConv_FlushBytes c s (take (delimiterMatchPos s) (delimiter s)) out h of
                        None \<Rightarrow> None
                      | Some (status, s1, out1, h1) \<Rightarrow>
                          if status \<noteq> Status_OK then Some (status, s1, out1, h1)
                          else FwdLockConv_MatchDelimiterChar c (s1\<lparr>delimiterMatchPos := 0\<rparr>) ch out1 h1)
                else FwdLockConv_MatchDelimiterChar c s ch out h)
      else (case FwdLockConv_MatchCloseDash s ch of (status, s1) \<Rightarrow> Some (status, s1, out, h)))"

text \<open>
  Base64: \<open>ch\<close> of the session collects the bits of the next output byte. A decoded byte
  is written first and the state changes only when that succeeded. \<open>FwdLockConv_Base64Emit\<close>
  is the common shape of the states that finish a byte; \<open>low\<close> is what the character
  contributes to it, \<open>high\<close> what is left over for the next.
\<close>

definition FwdLockConv_Base64Value :: "byte \<Rightarrow> byte" where
  "FwdLockConv_Base64Value ch = word_of_int (base64Values ! unat ch)"

definition FwdLockConv_Base64Emit ::
  "('rk, 'hc) crypto \<Rightarrow> ('rk, 'hc) FwdLockConv_Session \<Rightarrow> byte \<Rightarrow> byte
     \<Rightarrow> FwdLockConv_ScannerState
     \<Rightarrow> FwdLockConv_ConvertData_Output \<Rightarrow> heap \<Rightarrow> ('rk, 'hc) conv_step" where
  "FwdLockConv_Base64Emit c s low high st out h =
     (let s1 = s\<lparr>sesCh := sesCh s OR low\<rparr> in
        (case FwdLockConv_WriteEncryptedChar c s1 (sesCh s1) out h of
           None \<Rightarrow> None
         | Some (status, s2, out2, h2) \<Rightarrow>
             Some (status,
                   (if status = Status_OK then s2\<lparr>sesCh := high, scannerState := st\<rparr> else s2),
                   out2, h2)))"

definition FwdLockConv_MatchBase64Quantum ::
  "('rk, 'hc) crypto \<Rightarrow> ('rk, 'hc) FwdLockConv_Session \<Rightarrow> byte
     \<Rightarrow> FwdLockConv_ConvertData_Output \<Rightarrow> heap \<Rightarrow> ('rk, 'hc) conv_step" where
  "FwdLockConv_MatchBase64Quantum c s ch out h =
     (let ok = (\<lambda>s1. Some (Status_OK, s1, out, h));
          syntaxError = Some (Status_SyntaxError, s, out, h);
          v = FwdLockConv_Base64Value ch;
          lineBreak = (\<lambda>saved. ok (s\<lparr>savedScannerState := saved, scannerState := WantsLF\<rparr>));
          skip = (if FwdLockConv_IsWhitespace ch then ok s else syntaxError)
      in if scannerState s = WantsByte1 \<or> scannerState s = WantsByte1_AfterCRLF
         then if FwdLockConv_IsBase64Char ch
              then ok (s\<lparr>sesCh := push_bit 2 v, scannerState := WantsByte2\<rparr>)
              else if ch = CR then lineBreak WantsByte1_AfterCRLF
              else if ch = DASH
              then if scannerState s = WantsByte1_AfterCRLF
                   then ok (s\<lparr>delimiterMatchPos := 3, scannerState := WantsDelimiter\<rparr>)
                   else syntaxError
              else skip
         else if scannerState s = WantsByte2
         then if FwdLockConv_IsBase64Char ch
              then FwdLockConv_Base64Emit c s (drop_bit 4 v) (push_bit 4 v) WantsByte3 out h
              else if ch = CR then lineBreak WantsByte2
              else skip
         else if scannerState s = WantsByte3
         then if FwdLockConv_IsBase64Char ch
              then FwdLockConv_Base64Emit c s (drop_bit 2 v) (push_bit 6 v) WantsByte4 out h
              else if ch = CR then lineBreak WantsByte3
              else if ch = byte_of CHR ''='' then ok (s\<lparr>scannerState := WantsPadding\<rparr>)
              else skip
         else if scannerState s = WantsByte4
         then if FwdLockConv_IsBase64Char ch
              then FwdLockConv_Base64Emit c s v (sesCh s OR v) WantsByte1 out h
              else if ch = CR then lineBreak WantsByte4
              else if ch = byte_of CHR ''='' then ok (s\<lparr>scannerState := WantsWhitespace\<rparr>)
              else skip
         else Some (Status_ProgramError, s, out, h))"

definition FwdLockConv_MatchBase64EncodedData ::
  "('rk, 'hc) crypto \<Rightarrow> ('rk, 'hc) FwdLockConv_Session \<Rightarrow> byte
     \<Rightarrow> FwdLockConv_ConvertData_Output \<Rightarrow> heap \<Rightarrow> ('rk, 'hc) conv_step" where
  "FwdLockConv_MatchBase64EncodedData c s ch out h =
     (let ok = (\<lambda>s1. Some (Status_OK, s1, out, h));
          syntaxError = Some (Status_SyntaxError, s, out, h)
      in if scannerState s = WantsLF
         then if ch = LF then ok (s\<lparr>scannerState := savedScannerState s\<rparr>) else syntaxError
         else if scannerState s = WantsPadding
         then if ch = byte_of CHR ''='' then ok (s\<lparr>scannerState := WantsWhitespace\<rparr>)
              else syntaxError
         else if scannerState s = WantsWhitespace \<or> scannerState s = WantsWhitespace_AfterCRLF
         then if ch = CR
              then ok (s\<lparr>savedScannerState := WantsWhitespace_AfterCRLF, scannerState := WantsLF\<rparr>)
              else if ch = DASH
              then if scannerState s = WantsWhitespace_AfterCRLF
                   then ok (s\<lparr>delimiterMatchPos := 3, scannerState := WantsDelimiter\<rparr>)
                   else syntaxError
              else if FwdLockConv_IsWhitespace ch then ok (s\<lparr>scannerState := WantsWhitespace\<rparr>)
              else syntaxError
         else if scannerState s = WantsDelimiter
         then (case rd (delimiter s) (delimiterMatchPos s) of
                 None \<Rightarrow> None
               | Some d \<Rightarrow>
                   if ch \<noteq> d then syntaxError
                   else let s1 = s\<lparr>delimiterMatchPos := delimiterMatchPos s + 1\<rparr> in
                     ok (if delimiterMatchPos s1 = length (delimiter s1)
                         then s1\<lparr>scannerState := WantsFirstDash\<rparr> else s1))
         else if scannerState s = WantsFirstDash \<or> scannerState s = WantsSecondDash
         then (case FwdLockConv_MatchCloseDash s ch of (status, s1) \<Rightarrow> Some (status, s1, out, h))
         else FwdLockConv_MatchBase64Quantum c s ch out h)"

section \<open>Pushing characters\<close>

definition FwdLockConv_PushChar ::
  "('rk, 'hc) crypto \<Rightarrow> ('rk, 'hc) FwdLockConv_Session \<Rightarrow> byte
     \<Rightarrow> FwdLockConv_ConvertData_Output \<Rightarrow> heap \<Rightarrow> ('rk, 'hc) conv_step" where
  "FwdLockConv_PushChar c s0 ch out h =
     (let s = s0\<lparr>numCharsConsumed := numCharsConsumed s0 + 1\<rparr> in
      case parserState s of
        WantsOpenDelimiter \<Rightarrow>
          (case FwdLockConv_MatchOpenDelimiter s ch of (status, s1) \<Rightarrow> Some (status, s1, out, h))
      | WantsMimeHeaders \<Rightarrow> FwdLockConv_MatchMimeHeaders s ch out h
      | WantsBinaryEncodedData \<Rightarrow> FwdLockConv_MatchBinaryEncodedData c s ch out h
      | WantsBase64EncodedData \<Rightarrow>
          (if ch = LF \<and> scannerState s \<noteq> WantsLF
           then (case FwdLockConv_MatchBase64EncodedData c s CR out h of
                   None \<Rightarrow> None
                 | Some (status, s1, out1, h1) \<Rightarrow>
                     if status \<noteq> Status_OK then Some (status, s1, out1, h1)
                     else FwdLockConv_MatchBase64EncodedData c s1 ch out1 h1)
           else FwdLockConv_MatchBase64EncodedData c s ch out h)
      | Done \<Rightarrow> Some (Status_OK, s, out, h))"

fun FwdLockConv_PushChars ::
  "('rk, 'hc) crypto \<Rightarrow> ('rk, 'hc) FwdLockConv_Session \<Rightarrow> bytes
     \<Rightarrow> FwdLockConv_ConvertData_Output \<Rightarrow> heap \<Rightarrow> ('rk, 'hc) conv_step" where
  "FwdLockConv_PushChars c s [] out h = Some (Status_OK, s, out, h)"
| "FwdLockConv_PushChars c s (ch # chs) out h =
     (case FwdLockConv_PushChar c s ch out h of
        None \<Rightarrow> None
      | Some (status, s1, out1, h1) \<Rightarrow>
          if status \<noteq> Status_OK then Some (status, s1, out1, h1)
          else FwdLockConv_PushChars c s1 chs out1 h1)"

end
