(* ===== verification/FwdLockFile.thy ===== *)
theory FwdLockFile
  imports FwdLockGlue
begin

text \<open>
  The decoder of internal Forward Lock files
  (\<open>forward-lock/internal-format/decoder/FwdLockFile.c\<close>): sessions keyed by file
  descriptor, random access reads that decrypt with AES in counter mode, seeks relative to the
  embedded content, and the two integrity checks.

  The POSIX calls the code makes (\<open>read\<close>, \<open>lseek64\<close>, \<open>close\<close>) act on the open files of
  the state. A read may fail or fall short: the outcomes of the next reads are listed in
  \<open>ioOutcomes\<close>, and when the list is used up every read delivers all bytes up to the end
  of the file. An \<open>off64_t\<close> is an integer; \<open>off64\<close> is \<open>None\<close> where the C expression
  overflows, and a seek beyond the largest \<open>off64_t\<close> fails with \<open>EOVERFLOW\<close>. Positions that
  reads advance stay within the size of the file.
\<close>

section \<open>State\<close>

datatype io_outcome = IoFull | IoShort nat | IoError

datatype file_errno = EBADF | ENFILE | ENOSYS | EINVAL | EOVERFLOW

datatype whence = SEEK_SET | SEEK_CUR | SEEK_END | SEEK_OTHER

record posixfile =
  content :: bytes
  offset :: int

record ('rk, 'hc) FwdLockFile_Session =
  fileDesc :: int
  flTopHeader :: bytes
  pContentType :: "bytes option"
  contentTypeLength :: nat
  flEncryptedSessionKey :: "bytes option"
  dataSignature :: bytes
  headerSignature :: bytes
  flDataOffset :: int
  filePos :: int
  flRoundKeys :: 'rk
  flSigningContext :: 'hc
  flKeyStream :: bytes
  blockIndex :: u64

record ('rk, 'hc) fileworld =
  flSessions :: "('rk, 'hc) FwdLockFile_Session option list"
  flGlue :: "'rk fwdglue"
  flEnv :: fwdenv
  flHeap :: heap
  files :: "int \<Rightarrow> posixfile option"
  ioOutcomes :: "io_outcome list"
  errnoVal :: "file_errno option"

abbreviation (input) FL_MAX_NUM_SESSIONS :: nat where "FL_MAX_NUM_SESSIONS \<equiv> 128"
abbreviation (input) FL_SHA1_HASH_SIZE :: nat where "FL_SHA1_HASH_SIZE \<equiv> 20"
abbreviation (input) FL_TOP_HEADER_SIZE :: nat where "FL_TOP_HEADER_SIZE \<equiv> 8"
abbreviation (input) CONTENT_TYPE_LENGTH_POS :: nat where "CONTENT_TYPE_LENGTH_POS \<equiv> 7"
abbreviation (input) SIG_CALC_BUFFER_SIZE :: nat where "SIG_CALC_BUFFER_SIZE \<equiv> 1024"
abbreviation (input) FL_INVALID_OFFSET :: int where "FL_INVALID_OFFSET \<equiv> -1"
abbreviation (input) INVALID_BLOCK_INDEX :: u64 where "INVALID_BLOCK_INDEX \<equiv> - 1"

definition flTopHeaderTemplate :: bytes where
  "flTopHeaderTemplate = [0x46, 0x57, 0x4C, 0x4B, 0, 0, 0]"

section \<open>POSIX calls\<close>

definition off64 :: "int \<Rightarrow> int option" where
  "off64 k = (if - (2 ^ 63) \<le> k \<and> k < 2 ^ 63 then Some k else None)"

definition posix_read :: "int \<Rightarrow> nat \<Rightarrow> ('rk, 'hc) fileworld \<Rightarrow> bytes option \<times> ('rk, 'hc) fileworld" where
  "posix_read fd n w =
     (case files w fd of
        None \<Rightarrow> (None, w\<lparr>errnoVal := Some EBADF\<rparr>)
      | Some f \<Rightarrow>
          (let (io, rest) = (case ioOutcomes w of [] \<Rightarrow> (IoFull, []) | x # xs \<Rightarrow> (x, xs));
               avail = take n (drop (nat (offset f)) (content f));
               deliver = (\<lambda>bs. (Some bs,
                  w\<lparr>files := (files w)(fd \<mapsto> f\<lparr>offset := offset f + int (length bs)\<rparr>),
                    ioOutcomes := rest\<rparr>))
           in case io of
                IoFull \<Rightarrow> deliver avail
              | IoShort k \<Rightarrow> deliver (take k avail)
              | IoError \<Rightarrow> (None, w\<lparr>ioOutcomes := rest\<rparr>)))"

definition posix_lseek64 :: "int \<Rightarrow> int \<Rightarrow> whence \<Rightarrow> ('rk, 'hc) fileworld \<Rightarrow> int \<times> ('rk, 'hc) fileworld"
  where
  "posix_lseek64 fd off wh w =
     (case files w fd of
        None \<Rightarrow> (FL_INVALID_OFFSET, w\<lparr>errnoVal := Some EBADF\<rparr>)
      | Some f \<Rightarrow>
          (let target = (case wh of SEEK_SET \<Rightarrow> off | SEEK_CUR \<Rightarrow> offset f + off
                           | SEEK_END \<Rightarrow> int (length (content f)) + off | SEEK_OTHER \<Rightarrow> -1)
           in if target < 0 then (FL_INVALID_OFFSET, w\<lparr>errnoVal := Some EINVAL\<rparr>)
              else if 2 ^ 63 \<le> target then (FL_INVALID_OFFSET, w\<lparr>errnoVal := Some EOVERFLOW\<rparr>)
              else (target, w\<lparr>files := (files w)(fd \<mapsto> f\<lparr>offset := target\<rparr>)\<rparr>)))"

definition posix_close :: "int \<Rightarrow> ('rk, 'hc) fileworld \<Rightarrow> int \<times> ('rk, 'hc) fileworld" where
  "posix_close fd w =
     (if files w fd = None then (-1, w\<lparr>errnoVal := Some EBADF\<rparr>)
      else (0, w\<lparr>files := (files w)(fd := None)\<rparr>))"

section \<open>The session table\<close>

text \<open>
  Both searches probe the slots \<open>(fileDesc + i) mod 128\<close> in order; the result is the first
  slot that satisfies the test, if any of the 128 does. The sum is not checked: a descriptor is
  bounded by the limit on open files, far below the largest \<open>int\<close>.
\<close>

fun FwdLockFile_Probe :: "(nat \<Rightarrow> bool) \<Rightarrow> nat \<Rightarrow> nat \<Rightarrow> nat \<Rightarrow> nat option" where
  "FwdLockFile_Probe test fd i 0 = None"
| "FwdLockFile_Probe test fd i (Suc k) =
     (let candidateSessionId = (fd + i) mod FL_MAX_NUM_SESSIONS in
        if test candidateSessionId then Some candidateSessionId
        else FwdLockFile_Probe test fd (Suc i) k)"

definition FwdLockFile_AcquireSession ::
  "('rk, 'hc) FwdLockFile_Session \<Rightarrow> int \<Rightarrow> ('rk, 'hc) fileworld \<Rightarrow> int \<times> ('rk, 'hc) fileworld" where
  "FwdLockFile_AcquireSession fresh fd w =
     (if fd < 0 then (-1, w\<lparr>errnoVal := Some EBADF\<rparr>)
      else (case FwdLockFile_Probe (\<lambda>i. flSessions w ! i = None) (nat fd) 0 FL_MAX_NUM_SESSIONS of
              None \<Rightarrow> (-1, w\<lparr>errnoVal := Some ENFILE\<rparr>)
            | Some i \<Rightarrow>
                (case alloc (flHeap w) of (got, h) \<Rightarrow>
                   if \<not> got then (-1, w\<lparr>flHeap := h\<rparr>)
                   else (int i,
                     w\<lparr>flSessions := (flSessions w)[i := Some (fresh\<lparr>fileDesc := fd,
                          pContentType := None, flEncryptedSessionKey := None\<rparr>)],
                       flHeap := h\<rparr>))))"

definition FwdLockFile_FindSession :: "int \<Rightarrow> ('rk, 'hc) fileworld \<Rightarrow> int \<times> ('rk, 'hc) fileworld" where
  "FwdLockFile_FindSession fd w =
     (if fd < 0 then (-1, w\<lparr>errnoVal := Some EBADF\<rparr>)
      else (case FwdLockFile_Probe
                   (\<lambda>i. case flSessions w ! i of None \<Rightarrow> False | Some s \<Rightarrow> fileDesc s = fd)
                   (nat fd) 0 FL_MAX_NUM_SESSIONS of
              None \<Rightarrow> (-1, w\<lparr>errnoVal := Some EBADF\<rparr>)
            | Some i \<Rightarrow> (int i, w)))"

definition FwdLockFile_ReleaseSession ::
  "int \<Rightarrow> ('rk, 'hc) fileworld \<Rightarrow> ('rk, 'hc) fileworld option" where
  "FwdLockFile_ReleaseSession sid w =
     (if 0 \<le> sid \<and> sid < int FL_MAX_NUM_SESSIONS \<and> flSessions w ! nat sid \<noteq> None
      then Some (w\<lparr>flSessions := (flSessions w)[nat sid := None]\<rparr>)
      else None)"

section \<open>Keys and counters\<close>

definition FwdLockFile_DeriveKeys ::
  "('rk, 'hc) crypto \<Rightarrow> ('rk, 'hc) FwdLockFile_Session \<Rightarrow> ('rk, 'hc) fileworld
     \<Rightarrow> (bool \<times> ('rk, 'hc) FwdLockFile_Session \<times> ('rk, 'hc) fileworld) option" where
  "FwdLockFile_DeriveKeys c s w =
     (case alloc (flHeap w) of (got, h) \<Rightarrow>
        if \<not> got then Some (False, s, w\<lparr>flHeap := h\<rparr>)
        else (case flEncryptedSessionKey s of
                None \<Rightarrow> None
              | Some ekey \<Rightarrow>
                  (case FwdLockGlue_DecryptKey c ekey KEY_SIZE (flGlue w) (flEnv w) h of
                     None \<Rightarrow> None
                   | Some ((ok, key), g1, env1, h1) \<Rightarrow>
                       (let w1 = w\<lparr>flGlue := g1, flEnv := env1, flHeap := h1\<rparr>;
                            fail = (False, s, w1\<lparr>errnoVal := Some ENOSYS\<rparr>)
                        in Some (if \<not> ok then fail
                           else (case AES_set_encrypt_key c key of
                             None \<Rightarrow> fail
                           | Some sessionRoundKeys \<Rightarrow>
                               (case AES_set_encrypt_key c
                                       (AES_encrypt c (replicate KEY_SIZE 0) sessionRoundKeys) of
                                  None \<Rightarrow> fail
                                | Some rk \<Rightarrow>
                                    (True,
                                     s\<lparr>flRoundKeys := rk,
                                       flSigningContext := HMAC_Init c (AES_encrypt c
                                         (1 # replicate (KEY_SIZE - 1) 0) sessionRoundKeys)\<rparr>,
                                     w1))))))))"

text \<open>
  The counter of a block: the nonce plus the block index, byte by byte with a carry.
  \<open>i\<close> is the index of the first byte of the list.
\<close>

fun FwdLockFile_CounterLoop :: "nat \<Rightarrow> u64 \<Rightarrow> byte \<Rightarrow> bytes \<Rightarrow> bytes" where
  "FwdLockFile_CounterLoop i idx carry [] = []"
| "FwdLockFile_CounterLoop i idx carry (n # ns) =
     (if i < 8
      then (let part = n + ucast (drop_bit (i * 8) idx);
                ctr = part + carry
            in ctr # FwdLockFile_CounterLoop (Suc i) idx (if part < n \<or> ctr < part then 1 else 0) ns)
      else (let ctr = n + carry
            in ctr # FwdLockFile_CounterLoop (Suc i) idx (if ctr < n then 1 else 0) ns))"

definition FwdLockFile_CalculateCounter :: "bytes \<Rightarrow> u64 \<Rightarrow> bytes" where
  "FwdLockFile_CalculateCounter pNonce idx =
     FwdLockFile_CounterLoop 0 idx 0 (take AES_BLOCK_SIZE pNonce)"

definition FwdLockFile_DecryptByte ::
  "('rk, 'hc) crypto \<Rightarrow> ('rk, 'hc) FwdLockFile_Session \<Rightarrow> byte
     \<Rightarrow> (('rk, 'hc) FwdLockFile_Session \<times> byte) option" where
  "FwdLockFile_DecryptByte c s b =
     (let idx = (word_of_int (filePos s div int AES_BLOCK_SIZE) :: u64);
          blockOffset = nat (filePos s mod int AES_BLOCK_SIZE)
      in case (if idx \<noteq> blockIndex s
               then (case flEncryptedSessionKey s of
                       None \<Rightarrow> None
                     | Some ekey \<Rightarrow>
                         if length ekey < AES_BLOCK_SIZE then None
                         else Some (s\<lparr>flKeyStream :=
                                        AES_encrypt c (FwdLockFile_CalculateCounter ekey idx) (flRoundKeys s),
                                      blockIndex := idx\<rparr>))
               else Some s) of
           None \<Rightarrow> None
         | Some s1 \<Rightarrow>
             (case rd (flKeyStream s1) blockOffset of
                None \<Rightarrow> None
              | Some k \<Rightarrow> Some (s1, b XOR k)))"

fun FwdLockFile_DecryptBytes ::
  "('rk, 'hc) crypto \<Rightarrow> ('rk, 'hc) FwdLockFile_Session \<Rightarrow> bytes
     \<Rightarrow> (('rk, 'hc) FwdLockFile_Session \<times> bytes) option" where
  "FwdLockFile_DecryptBytes c s [] = Some (s, [])"
| "FwdLockFile_DecryptBytes c s (b # bs) =
     (case FwdLockFile_DecryptByte c s b of
        None \<Rightarrow> None
      | Some (s1, p) \<Rightarrow>
          (case FwdLockFile_DecryptBytes c (s1\<lparr>filePos := filePos s1 + 1\<rparr>) bs of
             None \<Rightarrow> None
           | Some (s2, ps) \<Rightarrow> Some (s2, p # ps)))"

section \<open>Attaching to a file\<close>

text \<open>
  The pattern \<open>read (fd, buffer, n) == n\<close>: the bytes read when there are exactly \<open>n\<close>.
\<close>

definition FwdLockFile_ReadExactly ::
  "int \<Rightarrow> nat \<Rightarrow> ('rk, 'hc) fileworld \<Rightarrow> bytes option \<times> ('rk, 'hc) fileworld" where
  "FwdLockFile_ReadExactly fd n w =
     (case posix_read fd n w of
        (None, w1) \<Rightarrow> (None, w1)
      | (Some bs, w1) \<Rightarrow> (if length bs = n then Some bs else None, w1))"

text \<open>
  The nested conditions of \<open>FwdLockFile_attach\<close>, from the outside in; each returns
  \<open>isSuccess\<close>, the session filled in so far and the state.
\<close>

definition FwdLockFile_AttachKeys ::
  "('rk, 'hc) crypto \<Rightarrow> ('rk, 'hc) FwdLockFile_Session \<Rightarrow> ('rk, 'hc) fileworld
     \<Rightarrow> (bool \<times> ('rk, 'hc) FwdLockFile_Session \<times> ('rk, 'hc) fileworld) option" where
  "FwdLockFile_AttachKeys c s w =
     (case alloc (flHeap w) of (got, h) \<Rightarrow>
        if \<not> got then Some (False, s, w\<lparr>flHeap := h\<rparr>)
        else (case FwdLockFile_ReadExactly (fileDesc s) (FwdLockGlue_GetEncryptedKeyLength KEY_SIZE)
                     (w\<lparr>flHeap := h\<rparr>) of
          (None, w1) \<Rightarrow> Some (False, s, w1)
        | (Some ekey, w1) \<Rightarrow>
            (case FwdLockFile_ReadExactly (fileDesc s) FL_SHA1_HASH_SIZE w1 of
               (None, w2) \<Rightarrow> Some (False, s\<lparr>flEncryptedSessionKey := Some ekey\<rparr>, w2)
             | (Some dsig, w2) \<Rightarrow>
                 (case FwdLockFile_ReadExactly (fileDesc s) FL_SHA1_HASH_SIZE w2 of
                    (None, w3) \<Rightarrow>
                      Some (False, s\<lparr>flEncryptedSessionKey := Some ekey, dataSignature := dsig\<rparr>, w3)
                  | (Some hsig, w3) \<Rightarrow>
                      FwdLockFile_DeriveKeys c
                        (s\<lparr>flEncryptedSessionKey := Some ekey, dataSignature := dsig,
                           headerSignature := hsig\<rparr>) w3))))"

definition FwdLockFile_AttachHeader ::
  "('rk, 'hc) crypto \<Rightarrow> ('rk, 'hc) FwdLockFile_Session \<Rightarrow> ('rk, 'hc) fileworld
     \<Rightarrow> (bool \<times> ('rk, 'hc) FwdLockFile_Session \<times> ('rk, 'hc) fileworld) option" where
  "FwdLockFile_AttachHeader c s w =
     (case FwdLockFile_ReadExactly (fileDesc s) FL_TOP_HEADER_SIZE w of
        (None, w1) \<Rightarrow> Some (False, s, w1)
      | (Some tophdr, w1) \<Rightarrow>
          if take (length flTopHeaderTemplate) tophdr \<noteq> flTopHeaderTemplate
          then Some (False, s\<lparr>flTopHeader := tophdr\<rparr>, w1)
          else
            (let n = unat (tophdr ! CONTENT_TYPE_LENGTH_POS);
                 s1 = s\<lparr>flTopHeader := tophdr, contentTypeLength := n\<rparr>
             in case alloc (flHeap w1) of (got, h) \<Rightarrow>
                  if \<not> got then Some (False, s1, w1\<lparr>flHeap := h\<rparr>)
                  else (case FwdLockFile_ReadExactly (fileDesc s) n (w1\<lparr>flHeap := h\<rparr>) of
                          (None, w2) \<Rightarrow> Some (False, s1, w2)
                        | (Some ct, w2) \<Rightarrow>
                            FwdLockFile_AttachKeys c (s1\<lparr>pContentType := Some ct\<rparr>) w2)))"

definition FwdLockFile_attach ::
  "('rk, 'hc) crypto \<Rightarrow> ('rk, 'hc) FwdLockFile_Session \<Rightarrow> int \<Rightarrow> ('rk, 'hc) fileworld
     \<Rightarrow> (int \<times> ('rk, 'hc) fileworld) option" where
  "FwdLockFile_attach c fresh fd w =
     (case FwdLockFile_AcquireSession fresh fd w of
        (sid, w1) \<Rightarrow>
          if sid < 0 then Some (-1, w1)
          else (case FwdLockFile_AttachHeader c (the (flSessions w1 ! nat sid)) w1 of
                  None \<Rightarrow> None
                | Some (isSuccess, s, w2) \<Rightarrow>
                    if isSuccess
                    then Some (0, w2\<lparr>flSessions := (flSessions w2)[nat sid :=
                           Some (s\<lparr>flDataOffset := int (contentTypeLength s)
                                     + int (FwdLockGlue_GetEncryptedKeyLength KEY_SIZE)
                                     + int FL_TOP_HEADER_SIZE + 2 * int FL_SHA1_HASH_SIZE,
                                   filePos := 0, blockIndex := INVALID_BLOCK_INDEX\<rparr>)]\<rparr>)
                    else (case FwdLockFile_ReleaseSession sid w2 of
                            None \<Rightarrow> None
                          | Some w3 \<Rightarrow> Some (-1, w3))))"

section \<open>Reading and seeking\<close>

text \<open>\<open>None\<close> is the return value -1.\<close>

definition FwdLockFile_read ::
  "('rk, 'hc) crypto \<Rightarrow> int \<Rightarrow> nat \<Rightarrow> ('rk, 'hc) fileworld
     \<Rightarrow> (bytes option \<times> ('rk, 'hc) fileworld) option" where
  "FwdLockFile_read c fd numBytes w =
     (case FwdLockFile_FindSession fd w of
        (sid, w1) \<Rightarrow>
          if sid < 0 then Some (None, w1)
          else (let s = the (flSessions w1 ! nat sid) in
            (case posix_read (fileDesc s) numBytes w1 of
               (None, w2) \<Rightarrow> Some (None, w2)
             | (Some bs, w2) \<Rightarrow>
                 (case FwdLockFile_DecryptBytes c s bs of
                    None \<Rightarrow> None
                  | Some (s1, ps) \<Rightarrow>
                      Some (Some ps, w2\<lparr>flSessions := (flSessions w2)[nat sid := Some s1]\<rparr>)))))"

definition FwdLockFile_lseek ::
  "int \<Rightarrow> int \<Rightarrow> whence \<Rightarrow> ('rk, 'hc) fileworld \<Rightarrow> (int \<times> ('rk, 'hc) fileworld) option" where
  "FwdLockFile_lseek fd off wh w =
     (case FwdLockFile_FindSession fd w of
        (sid, w1) \<Rightarrow>
          if sid < 0 then Some (FL_INVALID_OFFSET, w1)
          else
            (let s = the (flSessions w1 ! nat sid)
             in case (case wh of
                        SEEK_SET \<Rightarrow> (case off64 (flDataOffset s + off) of
                                       None \<Rightarrow> None
                                     | Some target \<Rightarrow> Some (posix_lseek64 (fileDesc s) target wh w1))
                      | SEEK_CUR \<Rightarrow> Some (posix_lseek64 (fileDesc s) off wh w1)
                      | SEEK_END \<Rightarrow> Some (posix_lseek64 (fileDesc s) off wh w1)
                      | SEEK_OTHER \<Rightarrow> Some (FL_INVALID_OFFSET, w1\<lparr>errnoVal := Some EINVAL\<rparr>)) of
                  None \<Rightarrow> None
                | Some (newFilePos, w2) \<Rightarrow>
                    if newFilePos = FL_INVALID_OFFSET then Some (FL_INVALID_OFFSET, w2)
                    else if newFilePos < flDataOffset s
                    then (case off64 (flDataOffset s + filePos s) of
                            None \<Rightarrow> None
                          | Some back \<Rightarrow>
                              Some (FL_INVALID_OFFSET,
                                (snd (posix_lseek64 (fileDesc s) back SEEK_SET w2))\<lparr>errnoVal := Some EINVAL\<rparr>))
                    else Some (newFilePos - flDataOffset s,
                           w2\<lparr>flSessions := (flSessions w2)[nat sid :=
                                 Some (s\<lparr>filePos := newFilePos - flDataOffset s\<rparr>)]\<rparr>)))"

section \<open>Detaching\<close>

definition FwdLockFile_detach ::
  "int \<Rightarrow> ('rk, 'hc) fileworld \<Rightarrow> (int \<times> ('rk, 'hc) fileworld) option" where
  "FwdLockFile_detach fd w =
     (case FwdLockFile_FindSession fd w of
        (sid, w1) \<Rightarrow>
          if sid < 0 then Some (-1, w1)
          else (case FwdLockFile_ReleaseSession sid w1 of
                  None \<Rightarrow> None | Some w2 \<Rightarrow> Some (0, w2)))"

definition FwdLockFile_close ::
  "int \<Rightarrow> ('rk, 'hc) fileworld \<Rightarrow> (int \<times> ('rk, 'hc) fileworld) option" where
  "FwdLockFile_close fd w =
     (case FwdLockFile_detach fd w of
        None \<Rightarrow> None
      | Some (r, w1) \<Rightarrow> Some (if r = 0 then posix_close fd w1 else (-1, w1)))"

section \<open>Integrity\<close>

text \<open>
  The loop that hashes the data: it ends when a read returns no bytes or fails. \<open>fuel\<close>
  bounds the number of reads; a file of \<open>n\<close> bytes needs at most \<open>n + 1\<close> (see the lemma
  on enough fuel). The result is the hash context, or \<open>None\<close> after a failed read.
\<close>

fun FwdLockFile_HashLoop ::
  "('rk, 'hc) crypto \<Rightarrow> int \<Rightarrow> nat \<Rightarrow> 'hc \<Rightarrow> ('rk, 'hc) fileworld
     \<Rightarrow> ('hc \<times> bool \<times> ('rk, 'hc) fileworld) option" where
  "FwdLockFile_HashLoop c fd 0 ctx w = None"
| "FwdLockFile_HashLoop c fd (Suc fuel) ctx w =
     (case posix_read fd SIG_CALC_BUFFER_SIZE w of
        (None, w1) \<Rightarrow> Some (ctx, False, w1)
      | (Some bs, w1) \<Rightarrow>
          if bs = [] then Some (ctx, True, w1)
          else FwdLockFile_HashLoop c fd fuel (HMAC_Update c ctx bs) w1)"

definition FwdLockFile_HashFuel :: "int \<Rightarrow> ('rk, 'hc) fileworld \<Rightarrow> nat" where
  "FwdLockFile_HashFuel fd w = (case files w fd of None \<Rightarrow> 1 | Some f \<Rightarrow> length (content f) + 1)"

definition FwdLockFile_CheckDataIntegrity ::
  "('rk, 'hc) crypto \<Rightarrow> int \<Rightarrow> ('rk, 'hc) fileworld \<Rightarrow> (bool \<times> ('rk, 'hc) fileworld) option" where
  "FwdLockFile_CheckDataIntegrity c fd w =
     (case FwdLockFile_FindSession fd w of
        (sid, w1) \<Rightarrow>
          if sid < 0 then Some (False, w1)
          else (case alloc (flHeap w1) of (got, h) \<Rightarrow>
            let w2 = w1\<lparr>flHeap := h\<rparr> in
            if \<not> got then Some (False, w2)
            else (let s = the (flSessions w2 ! nat sid) in
              (case posix_lseek64 (fileDesc s) (flDataOffset s) SEEK_SET w2 of
                 (p, w3) \<Rightarrow>
                   if p \<noteq> flDataOffset s then Some (False, w3)
                   else (case FwdLockFile_HashLoop c (fileDesc s) (FwdLockFile_HashFuel (fileDesc s) w3)
                                (flSigningContext s) w3 of
                           None \<Rightarrow> None
                         | Some (ctx, readOk, w4) \<Rightarrow>
                             if readOk \<and> length (HMAC_Final c ctx) \<noteq> FL_SHA1_HASH_SIZE then None
                             else (let ctx1 = HMAC_Reinit c (if readOk then HMAC_Done c ctx else ctx);
                                       w5 = w4\<lparr>flSessions := (flSessions w4)[nat sid :=
                                              Some (s\<lparr>flSigningContext := ctx1\<rparr>)]\<rparr>
                                   in (case off64 (flDataOffset s + filePos s) of
                                         None \<Rightarrow> None
                                       | Some back \<Rightarrow>
                                           Some (readOk \<and> HMAC_Final c ctx = dataSignature s,
                                             snd (posix_lseek64 (fileDesc s) back SEEK_SET w5)))))))))"

definition FwdLockFile_CheckHeaderIntegrity ::
  "('rk, 'hc) crypto \<Rightarrow> int \<Rightarrow> ('rk, 'hc) fileworld \<Rightarrow> (bool \<times> ('rk, 'hc) fileworld) option" where
  "FwdLockFile_CheckHeaderIntegrity c fd w =
     (case FwdLockFile_FindSession fd w of
        (sid, w1) \<Rightarrow>
          if sid < 0 then Some (False, w1)
          else (let s = the (flSessions w1 ! nat sid) in
            (case (pContentType s, flEncryptedSessionKey s) of
               (Some ct, Some ekey) \<Rightarrow>
                 (let ctx = HMAC_Update c
                              (HMAC_Update c
                                (HMAC_Update c
                                  (HMAC_Update c (flSigningContext s) (flTopHeader s))
                                  (take (contentTypeLength s) ct))
                                ekey)
                              (dataSignature s);
                      sig = HMAC_Final c ctx
                  in if length sig \<noteq> FL_SHA1_HASH_SIZE then None
                     else Some (sig = headerSignature s,
                            w1\<lparr>flSessions := (flSessions w1)[nat sid :=
                              Some (s\<lparr>flSigningContext := HMAC_Reinit c (HMAC_Done c ctx)\<rparr>)]\<rparr>))
             | _ \<Rightarrow> None)))"

definition FwdLockFile_CheckIntegrity ::
  "('rk, 'hc) crypto \<Rightarrow> int \<Rightarrow> ('rk, 'hc) fileworld \<Rightarrow> (bool \<times> ('rk, 'hc) fileworld) option" where
  "FwdLockFile_CheckIntegrity c fd w =
     (case FwdLockFile_CheckHeaderIntegrity c fd w of
        None \<Rightarrow> None
      | Some (ok, w1) \<Rightarrow> if ok then FwdLockFile_CheckDataIntegrity c fd w1 else Some (False, w1))"

definition FwdLockFile_GetContentType ::
  "int \<Rightarrow> ('rk, 'hc) fileworld \<Rightarrow> bytes option \<times> ('rk, 'hc) fileworld" where
  "FwdLockFile_GetContentType fd w =
     (case FwdLockFile_FindSession fd w of
        (sid, w1) \<Rightarrow>
          (if sid < 0 then None else pContentType (the (flSessions w1 ! nat sid)), w1))"

end
