(* ===== verification/FwdLockCtr.thy ===== *)
theory FwdLockCtr
  imports FwdLockConv FwdLockFile
begin

text \<open>
  The counters of the two sides agree. The converter counts blocks up one by one, the
  decoder computes the counter of a block from its index; read as little-endian numbers both
  are the nonce plus the index, modulo 2 to the power 128.
\<close>

section \<open>Little-endian numbers\<close>

fun le_val :: "bytes \<Rightarrow> nat" where
  "le_val [] = 0"
| "le_val (b # bs) = unat b + 256 * le_val bs"

lemma unat_byte_less: "unat (b :: byte) < 256"
  using unsigned_less [of b] by simp

lemma le_val_less: "le_val bs < 256 ^ length bs"
proof (induction bs)
  case (Cons b bs)
  have "unat b < 256" by (rule unat_byte_less)
  moreover have "256 * Suc (le_val bs) \<le> 256 * 256 ^ length bs"
    using Cons by (intro mult_le_mono2) simp
  ultimately show ?case by simp
qed simp

lemma le_digit_inject:
  "(a :: nat) < 256 \<Longrightarrow> b < 256 \<Longrightarrow> a + 256 * x = b + 256 * y \<longleftrightarrow> a = b \<and> x = y"
proof
  assume less: "a < 256" "b < 256" and eq: "a + 256 * x = b + 256 * y"
  from arg_cong [OF eq, of "\<lambda>n. n mod 256"] arg_cong [OF eq, of "\<lambda>n. n div 256"]
  show "a = b \<and> x = y" using less by simp
qed simp

lemma le_digit_mod:
  "(a :: nat) < 256 \<Longrightarrow> (a + 256 * x) mod (256 * m) = a + 256 * (x mod m)"
  by (simp add: mod_mult2_eq)

lemma le_val_inject: "length xs = length ys \<Longrightarrow> le_val xs = le_val ys \<longleftrightarrow> xs = ys"
proof (induction xs ys rule: list_induct2)
  case (Cons x xs y ys)
  then show ?case by (simp add: le_digit_inject unat_byte_less word_unat_eq_iff)
qed simp

lemma length_IncrementCounter [simp]: "length (FwdLockConv_IncrementCounter bs) = length bs"
  by (induction bs rule: FwdLockConv_IncrementCounter.induct) auto

lemma unat_byte_inc: "unat (b + 1 :: byte) = (unat b + 1) mod 256"
  by (simp add: unat_word_ariths)

lemma byte_inc_zero: "(b :: byte) + 1 = 0 \<longleftrightarrow> unat b = 255"
proof -
  have less: "unat b < 256" by (rule unat_byte_less)
  have "b + 1 = 0 \<longleftrightarrow> unat (b + 1) = 0" by (simp add: unat_eq_0)
  also have "\<dots> \<longleftrightarrow> unat b = 255"
    unfolding unat_byte_inc using less by (cases "unat b = 255") auto
  finally show ?thesis .
qed

lemma byte_inc_nonzero: "(b :: byte) + 1 \<noteq> 0 \<Longrightarrow> unat (b + 1) = unat b + 1"
proof -
  assume "b + 1 \<noteq> 0"
  then have "unat b \<noteq> 255" by (simp add: byte_inc_zero)
  moreover have "unat b < 256" by (rule unat_byte_less)
  ultimately show ?thesis unfolding unat_byte_inc by simp
qed

lemma le_val_IncrementCounter:
  "le_val (FwdLockConv_IncrementCounter bs) = (le_val bs + 1) mod 256 ^ length bs"
proof (induction bs)
  case (Cons b bs)
  let ?n = "256 ^ length bs :: nat"
  have less: "le_val bs < ?n" by (rule le_val_less)
  show ?case
  proof (cases "b + 1 = 0")
    case True
    then have b: "unat b = 255" by (simp add: byte_inc_zero)
    have "unat b + 256 * le_val bs + 1 = 256 * (le_val bs + 1)" by (simp add: b)
    then have "(unat b + 256 * le_val bs + 1) mod (256 * ?n) = 256 * ((le_val bs + 1) mod ?n)"
      by (simp only: mult_mod_right)
    with True Cons.IH show ?thesis by simp
  next
    case False
    have "unat (b + 1) < 256" by (rule unat_byte_less)
    moreover have "256 * Suc (le_val bs) \<le> 256 * ?n"
      using less by (intro mult_le_mono2) simp
    ultimately have "unat (b + 1) + 256 * le_val bs < 256 * ?n" by simp
    with False show ?thesis by (simp add: byte_inc_nonzero)
  qed
qed simp

lemma le_val_IncrementCounter_pow:
  "le_val ((FwdLockConv_IncrementCounter ^^ n) bs) = (le_val bs + n) mod 256 ^ length bs"
  and length_IncrementCounter_pow [simp]:
  "length ((FwdLockConv_IncrementCounter ^^ n) bs) = length bs"
proof (induction n)
  case 0
  { case 1 show ?case by (simp add: le_val_less) }
  { case 2 show ?case by simp }
next
  case (Suc n)
  { case 1
    show ?case using Suc by (simp add: le_val_IncrementCounter mod_Suc_eq) }
  { case 2 show ?case using Suc by simp }
qed

section \<open>The decoder's counter\<close>

lemma length_CounterLoop [simp]: "length (FwdLockFile_CounterLoop i idx carry ns) = length ns"
  by (induction ns arbitrary: i carry) (auto simp: Let_def)

lemma unat_index_byte:
  "unat (ucast (drop_bit (i * 8) (idx :: u64)) :: byte) = (unat idx div 256 ^ i) mod 256"
proof -
  have pow: "(2 :: nat) ^ (i * 8) = 256 ^ i"
    by (simp add: mult.commute [of i] power_mult)
  have "unat idx < 2 ^ 64" using unsigned_less [of idx] by simp
  then have "unat (drop_bit (i * 8) idx) = unat idx div 2 ^ (i * 8)"
    by (subst unsigned_drop_bit_eq) (simp add: drop_bit_eq_div take_bit_nat_eq_self)
  then show ?thesis
    by (simp only: unsigned_ucast_eq take_bit_eq_mod pow) simp
qed

lemma byte_add_carry:
  fixes n k :: byte
  assumes "unat c \<le> 1"
  defines "part \<equiv> n + k" and "ctr \<equiv> n + k + c"
  shows "unat ctr = (unat n + unat k + unat c) mod 256"
    and "(if part < n \<or> ctr < part then 1 else 0) = (unat n + unat k + unat c) div 256"
proof -
  have n: "unat n < 256" and k: "unat k < 256" by (simp_all add: unat_byte_less)
  have part: "unat part = (unat n + unat k) mod 256"
    by (simp add: part_def unat_word_ariths)
  show ctr: "unat ctr = (unat n + unat k + unat c) mod 256"
    by (simp add: ctr_def unat_word_ariths mod_add_left_eq)
  show "(if part < n \<or> ctr < part then 1 else 0) = (unat n + unat k + unat c) div 256"
  proof (cases "unat n + unat k < 256")
    case True
    then have p: "unat part = unat n + unat k" by (simp add: part)
    show ?thesis
    proof (cases "unat n + unat k + unat c < 256")
      case True
      then show ?thesis unfolding word_less_nat_alt ctr p by simp
    next
      case False
      with \<open>unat n + unat k < 256\<close> assms(1) have "unat n + unat k + unat c = 256" by simp
      then show ?thesis using assms(1) n k unfolding word_less_nat_alt ctr p by auto
    qed
  next
    case False
    then have "unat part < unat n"
      unfolding part using n k by (subst mod_if) auto
    then have l: "part < n" by (simp add: word_less_nat_alt)
    have "256 \<le> unat n + unat k + unat c" "unat n + unat k + unat c < 512"
      using False n k assms(1) by simp_all
    then have "(unat n + unat k + unat c) div 256 = 1" by (simp add: div_nat_eqI)
    then show ?thesis using l by simp
  qed
qed

lemma index_high_zero: "8 \<le> i \<Longrightarrow> unat (idx :: u64) div 256 ^ i = 0"
proof -
  assume "8 \<le> i"
  have "unat idx < 2 ^ 64" using unsigned_less [of idx] by simp
  also have "(2 :: nat) ^ 64 = 256 ^ 8" by simp
  also have "(256 :: nat) ^ 8 \<le> 256 ^ i" using \<open>8 \<le> i\<close> by (intro power_increasing) simp_all
  finally show ?thesis by simp
qed

lemma le_val_CounterLoop:
  "unat carry \<le> 1 \<Longrightarrow>
   le_val (FwdLockFile_CounterLoop i idx carry ns)
     = (le_val ns + unat idx div 256 ^ i + unat carry) mod 256 ^ length ns"
proof (induction ns arbitrary: i carry)
  case (Cons n ns)
  define k where "k = (unat idx div 256 ^ i) mod 256"
  define kb :: byte where "kb = (if i < 8 then ucast (drop_bit (i * 8) idx) else 0)"
  have kb: "unat kb = k"
    by (simp add: kb_def k_def unat_index_byte index_high_zero)
  define carry' :: byte where
    "carry' = (if n + kb < n \<or> n + kb + carry < n + kb then 1 else 0)"
  have sum: "unat (n + kb + carry) = (unat n + k + unat carry) mod 256"
    and car: "unat carry' = (unat n + k + unat carry) div 256"
    using byte_add_carry [OF Cons.prems, of n kb] by (auto simp: kb carry'_def)
  have step: "FwdLockFile_CounterLoop i idx carry (n # ns)
      = (n + kb + carry) # FwdLockFile_CounterLoop (Suc i) idx carry' ns"
    by (simp add: kb_def carry'_def Let_def)
  have "unat n < 256" "k < 256" by (simp_all add: k_def unat_byte_less)
  with Cons.prems have "unat n + k + unat carry < 2 * 256" by simp
  then have "(unat n + k + unat carry) div 256 < 2" by (rule less_mult_imp_div_less)
  then have "unat carry' \<le> 1" unfolding car by simp
  note IH = Cons.IH [OF this, of "Suc i"]
  have div_step: "unat idx div 256 ^ i = k + 256 * (unat idx div 256 ^ Suc i)"
    by (simp add: k_def div_mult2_eq mult.commute [of 256])
  have total: "le_val (n # ns) + unat idx div 256 ^ i + unat carry
      = (unat n + k + unat carry) mod 256
          + 256 * (le_val ns + unat idx div 256 ^ Suc i + unat carry')"
    unfolding car div_step by simp
  have "le_val (FwdLockFile_CounterLoop i idx carry (n # ns))
      = (unat n + k + unat carry) mod 256
          + 256 * ((le_val ns + unat idx div 256 ^ Suc i + unat carry') mod 256 ^ length ns)"
    by (simp only: step le_val.simps sum IH)
  also have "\<dots> = ((unat n + k + unat carry) mod 256
          + 256 * (le_val ns + unat idx div 256 ^ Suc i + unat carry')) mod (256 * 256 ^ length ns)"
    by (rule le_digit_mod [symmetric]) simp
  finally show ?case by (simp only: total) simp
qed simp

text \<open>The two ways to compute the counter of block \<open>unat idx\<close> give the same bytes.\<close>

lemma CalculateCounter_eq_IncrementCounter:
  assumes "AES_BLOCK_SIZE \<le> length nonce"
  shows "FwdLockFile_CalculateCounter nonce idx
     = (FwdLockConv_IncrementCounter ^^ unat idx) (take AES_BLOCK_SIZE nonce)"
proof -
  have "le_val (FwdLockFile_CalculateCounter nonce idx)
      = le_val ((FwdLockConv_IncrementCounter ^^ unat idx) (take AES_BLOCK_SIZE nonce))"
    using assms
    by (simp add: FwdLockFile_CalculateCounter_def le_val_CounterLoop le_val_IncrementCounter_pow)
  then show ?thesis
    by (simp add: le_val_inject FwdLockFile_CalculateCounter_def)
qed

end
