(* ===== verification/FwdLockStream.thy ===== *)
theory FwdLockStream
  imports FwdLockCtr
begin

text \<open>
  The two users of AES in counter mode. A byte cipher that is at position \<open>n\<close> of its stream
  combines the next byte with the key stream byte \<open>n\<close>; the locale \<open>ctr_cipher\<close> states that
  contract and derives what a whole run of bytes becomes. The converter's
  \<open>FwdLockConv_NextKeyByte\<close> and the decoder's \<open>FwdLockFile_DecryptByte\<close> are its two
  interpretations, over the same key stream, whatever bytes were skipped by seeks.
\<close>

section \<open>Streams of key bytes\<close>

fun xor_stream :: "(nat \<Rightarrow> byte) \<Rightarrow> nat \<Rightarrow> bytes \<Rightarrow> bytes" where
  "xor_stream ks n [] = []"
| "xor_stream ks n (b # bs) = (b XOR ks n) # xor_stream ks (Suc n) bs"

lemma length_xor_stream [simp]: "length (xor_stream ks n bs) = length bs"
  by (induction bs arbitrary: n) auto

lemma xor_stream_append:
  "xor_stream ks n (xs @ ys) = xor_stream ks n xs @ xor_stream ks (n + length xs) ys"
  by (induction xs arbitrary: n) auto

lemma xor_stream_invol [simp]: "xor_stream ks n (xor_stream ks n bs) = bs"
  by (induction bs arbitrary: n) (auto simp: xor.assoc)

lemma drop_xor_stream: "drop k (xor_stream ks n bs) = xor_stream ks (n + k) (drop k bs)"
  by (induction bs arbitrary: n k) (auto simp: drop_Cons split: nat.split)

lemma take_xor_stream: "take k (xor_stream ks n bs) = xor_stream ks n (take k bs)"
  by (induction bs arbitrary: n k) (auto simp: take_Cons split: nat.split)

fun crypt_all :: "('s \<Rightarrow> byte \<Rightarrow> ('s \<times> byte) option) \<Rightarrow> 's \<Rightarrow> bytes \<Rightarrow> ('s \<times> bytes) option" where
  "crypt_all crypt s [] = Some (s, [])"
| "crypt_all crypt s (b # bs) =
     (case crypt s b of
        None \<Rightarrow> None
      | Some (s1, p) \<Rightarrow>
          (case crypt_all crypt s1 bs of None \<Rightarrow> None | Some (s2, ps) \<Rightarrow> Some (s2, p # ps)))"

locale ctr_cipher =
  fixes in_pos :: "nat \<Rightarrow> 's \<Rightarrow> bool"
    and crypt :: "'s \<Rightarrow> byte \<Rightarrow> ('s \<times> byte) option"
    and ks :: "nat \<Rightarrow> byte"
    and limit :: nat
  assumes crypt_step: "in_pos n s \<Longrightarrow> n < limit \<Longrightarrow> \<exists>s'. crypt s b = Some (s', b XOR ks n) \<and> in_pos (Suc n) s'"
begin

lemma crypt_all_stream:
  "in_pos n s \<Longrightarrow> n + length bs \<le> limit \<Longrightarrow>
   \<exists>s'. crypt_all crypt s bs = Some (s', xor_stream ks n bs) \<and> in_pos (n + length bs) s'"
proof (induction bs arbitrary: n s)
  case (Cons b bs)
  then have "n < limit" by simp
  with crypt_step [OF Cons.prems(1), of b] obtain s1
    where 1: "crypt s b = Some (s1, b XOR ks n)" "in_pos (Suc n) s1" by blast
  from Cons.IH [OF 1(2)] Cons.prems(2) obtain s2
    where "crypt_all crypt s1 bs = Some (s2, xor_stream ks (Suc n) bs)" "in_pos (Suc n + length bs) s2"
    by auto
  with 1(1) show ?case by simp
qed simp

end

section \<open>The key stream of a session key and a nonce\<close>

definition block_cipher :: "('rk, 'hc) crypto \<Rightarrow> bool" where
  "block_cipher c \<longleftrightarrow> (\<forall>b rk. length b = AES_BLOCK_SIZE \<longrightarrow> length (AES_encrypt c b rk) = AES_BLOCK_SIZE)"

definition ctr_byte :: "('rk, 'hc) crypto \<Rightarrow> 'rk \<Rightarrow> bytes \<Rightarrow> nat \<Rightarrow> byte" where
  "ctr_byte c rk nonce n =
     AES_encrypt c ((FwdLockConv_IncrementCounter ^^ (n div AES_BLOCK_SIZE)) nonce) rk
       ! (n mod AES_BLOCK_SIZE)"

section \<open>The converter's stream\<close>

text \<open>The state of a session after \<open>n\<close> bytes of data have been encrypted.\<close>

definition enc_in_pos ::
  "('rk, 'hc) crypto \<Rightarrow> 'rk \<Rightarrow> bytes \<Rightarrow> nat \<Rightarrow> ('rk, 'hc) FwdLockConv_Session \<Rightarrow> bool" where
  "enc_in_pos c rk nonce n s \<longleftrightarrow>
     block_cipher c \<and> length nonce = AES_BLOCK_SIZE \<and> encryptionRoundKeys s = rk \<and>
     (if n = 0 then keyStreamIndex s = -1 \<and> counter s = nonce
      else keyStreamIndex s = int ((n - 1) mod AES_BLOCK_SIZE) \<and>
           counter s = (FwdLockConv_IncrementCounter ^^ ((n - 1) div AES_BLOCK_SIZE)) nonce \<and>
           keyStream s = AES_encrypt c (counter s) rk)"

definition FwdLockConv_EncryptByte ::
  "('rk, 'hc) crypto \<Rightarrow> ('rk, 'hc) FwdLockConv_Session \<Rightarrow> byte
     \<Rightarrow> (('rk, 'hc) FwdLockConv_Session \<times> byte) option" where
  "FwdLockConv_EncryptByte c s b =
     (let s1 = FwdLockConv_NextKeyByte c s in
        if keyStreamIndex s1 < 0 then None
        else map_option (\<lambda>k. (s1, b XOR k)) (rd (keyStream s1) (nat (keyStreamIndex s1))))"

lemma Suc_mod_div_16:
  "(n :: nat) mod 16 = 15 \<Longrightarrow> Suc n mod 16 = 0 \<and> Suc n div 16 = Suc (n div 16)"
  "(n :: nat) mod 16 \<noteq> 15 \<Longrightarrow> Suc n mod 16 = Suc (n mod 16) \<and> Suc n div 16 = n div 16"
  by (simp_all add: mod_Suc div_Suc)

lemma EncryptByte_step:
  assumes "enc_in_pos c rk nonce n s"
  shows "\<exists>s'. FwdLockConv_EncryptByte c s b = Some (s', b XOR ctr_byte c rk nonce n)
           \<and> enc_in_pos c rk nonce (Suc n) s'"
proof -
  have len: "length (AES_encrypt c ((FwdLockConv_IncrementCounter ^^ k) nonce) rk) = 16" for k
    using assms by (simp add: enc_in_pos_def block_cipher_def)
  show ?thesis
  proof (cases n)
    case 0
    then show ?thesis
      using assms len [of 0]
      by (simp add: enc_in_pos_def FwdLockConv_EncryptByte_def FwdLockConv_NextKeyByte_def
          ctr_byte_def Let_def)
  next
    case (Suc m)
    show ?thesis
    proof (cases "m mod 16 = 15")
      case True
      then show ?thesis
        using assms Suc len [of "Suc (m div 16)"] Suc_mod_div_16(1) [OF True]
        by (simp add: enc_in_pos_def FwdLockConv_EncryptByte_def FwdLockConv_NextKeyByte_def
            ctr_byte_def Let_def)
    next
      case False
      have "m mod 16 < 16" by simp
      with False have "m mod 16 < 15" by linarith
      then show ?thesis
        using assms Suc len [of "m div 16"] Suc_mod_div_16(2) [OF False]
        by (simp add: enc_in_pos_def FwdLockConv_EncryptByte_def FwdLockConv_NextKeyByte_def
            ctr_byte_def Let_def nat_add_distrib)
    qed
  qed
qed

interpretation enc: ctr_cipher "enc_in_pos c rk nonce" "FwdLockConv_EncryptByte c"
    "ctr_byte c rk nonce" limit
  for c rk nonce limit
  by unfold_locales (rule EncryptByte_step)

section \<open>The decoder's stream\<close>

text \<open>
  The decoder is ready to decrypt at \<open>n\<close>: the nonce is the start of the encrypted session
  key, and the cached key stream is that of the cached block index.
\<close>

definition key_cache_ok ::
  "('rk, 'hc) crypto \<Rightarrow> 'rk \<Rightarrow> bytes \<Rightarrow> ('rk, 'hc) FwdLockFile_Session \<Rightarrow> bool" where
  "key_cache_ok c rk nonce s \<longleftrightarrow>
     block_cipher c \<and> length nonce = AES_BLOCK_SIZE \<and> flRoundKeys s = rk \<and>
     (\<exists>ekey. flEncryptedSessionKey s = Some ekey \<and> AES_BLOCK_SIZE \<le> length ekey \<and>
        take AES_BLOCK_SIZE ekey = nonce) \<and>
     (blockIndex s \<noteq> INVALID_BLOCK_INDEX \<longrightarrow>
        flKeyStream s
          = AES_encrypt c ((FwdLockConv_IncrementCounter ^^ unat (blockIndex s)) nonce) rk)"

definition dec_in_pos ::
  "('rk, 'hc) crypto \<Rightarrow> 'rk \<Rightarrow> bytes \<Rightarrow> nat \<Rightarrow> ('rk, 'hc) FwdLockFile_Session \<Rightarrow> bool" where
  "dec_in_pos c rk nonce n s \<longleftrightarrow> filePos s = int n \<and> key_cache_ok c rk nonce s"

definition FwdLockFile_DecryptNext ::
  "('rk, 'hc) crypto \<Rightarrow> ('rk, 'hc) FwdLockFile_Session \<Rightarrow> byte
     \<Rightarrow> (('rk, 'hc) FwdLockFile_Session \<times> byte) option" where
  "FwdLockFile_DecryptNext c s b =
     map_option (\<lambda>(s1, p). (s1\<lparr>filePos := filePos s1 + 1\<rparr>, p)) (FwdLockFile_DecryptByte c s b)"

lemma DecryptBytes_crypt_all:
  "FwdLockFile_DecryptBytes c s bs = crypt_all (FwdLockFile_DecryptNext c) s bs"
  by (induction bs arbitrary: s) (auto simp: FwdLockFile_DecryptNext_def split: option.split)

lemma DecryptNext_step:
  assumes "dec_in_pos c rk nonce n s" and "n < 2 ^ 63"
  shows "\<exists>s'. FwdLockFile_DecryptNext c s b = Some (s', b XOR ctr_byte c rk nonce n)
           \<and> dec_in_pos c rk nonce (Suc n) s'"
proof -
  let ?idx = "word_of_int (int n div 16) :: u64"
  have "int n div 16 = int (n div 16)" by simp
  then have idx: "?idx = of_nat (n div 16)" by simp
  have less: "n div 16 < 2 ^ 64 - 1" using assms(2) by simp
  then have unat_idx: "unat ?idx = n div 16"
    unfolding idx by (simp add: unsigned_of_nat take_bit_nat_eq_self)
  have top: "unat (- 1 :: u64) = 2 ^ 64 - 1" by (simp add: unsigned_minus_1_eq_mask mask_eq_exp_minus_1)
  have valid: "?idx \<noteq> - 1"
  proof
    assume "?idx = - 1"
    then have "unat ?idx = 2 ^ 64 - 1" by (simp only: top)
    with less show False unfolding unat_idx by simp
  qed
  have offs: "nat (int n mod 16) = n mod 16" by (simp add: nat_mod_distrib)
  from assms(1) obtain ekey
    where s: "filePos s = int n" "block_cipher c" "length nonce = 16" "flRoundKeys s = rk"
      "flEncryptedSessionKey s = Some ekey" "16 \<le> length ekey" "take 16 ekey = nonce"
      and cache: "blockIndex s \<noteq> - 1 \<longrightarrow> flKeyStream s
          = AES_encrypt c ((FwdLockConv_IncrementCounter ^^ unat (blockIndex s)) nonce) rk"
    unfolding dec_in_pos_def key_cache_ok_def by auto
  have ctr: "FwdLockFile_CalculateCounter ekey ?idx
      = (FwdLockConv_IncrementCounter ^^ (n div 16)) nonce"
    using CalculateCounter_eq_IncrementCounter [of ekey ?idx] s by (simp only: unat_idx)
  have len: "length (AES_encrypt c ((FwdLockConv_IncrementCounter ^^ k) nonce) rk) = 16" for k
    using s by (simp add: block_cipher_def)
  show ?thesis
  proof (cases "?idx = blockIndex s")
    case True
    then have "flKeyStream s = AES_encrypt c ((FwdLockConv_IncrementCounter ^^ (n div 16)) nonce) rk"
      using cache valid unat_idx by metis
    with True s cache len [of "n div 16"] show ?thesis
      by (simp add: FwdLockFile_DecryptNext_def FwdLockFile_DecryptByte_def dec_in_pos_def
          key_cache_ok_def ctr_byte_def Let_def offs)
  next
    case False
    then show ?thesis
      using s len [of "n div 16"] ctr unat_idx
      by (simp add: FwdLockFile_DecryptNext_def FwdLockFile_DecryptByte_def dec_in_pos_def
          key_cache_ok_def ctr_byte_def Let_def offs)
  qed
qed

interpretation dec: ctr_cipher "dec_in_pos c rk nonce" "FwdLockFile_DecryptNext c"
    "ctr_byte c rk nonce" "2 ^ 63"
  for c rk nonce
  by unfold_locales (rule DecryptNext_step)

lemma DecryptBytes_stream:
  "dec_in_pos c rk nonce n s \<Longrightarrow> n + length bs \<le> 2 ^ 63 \<Longrightarrow>
   \<exists>s'. FwdLockFile_DecryptBytes c s bs = Some (s', xor_stream (ctr_byte c rk nonce) n bs)
      \<and> dec_in_pos c rk nonce (n + length bs) s'"
  unfolding DecryptBytes_crypt_all by (rule dec.crypt_all_stream)

end
