(* ===== verification/FwdLockBody.thy ===== *)
theory FwdLockBody
  imports FwdLockStream
begin

text \<open>
  The encrypted body of a message. Writing a list of bytes appends their encryption; the
  scanners of the two body encodings refine abstract machines that say which bytes a
  character releases (locale \<open>body_scanner\<close>). The binary machine is studied here: it holds
  back exactly a proper prefix of the delimiter and stops at the first occurrence.
\<close>

section \<open>Sequencing of steps\<close>

definition and_then ::
  "('rk, 'hc) conv_step
     \<Rightarrow> (('rk, 'hc) FwdLockConv_Session \<Rightarrow> FwdLockConv_ConvertData_Output \<Rightarrow> heap \<Rightarrow> ('rk, 'hc) conv_step)
     \<Rightarrow> ('rk, 'hc) conv_step" where
  "and_then r k =
     (case r of
        None \<Rightarrow> None
      | Some (status, s, out, h) \<Rightarrow>
          if status \<noteq> Status_OK then Some (status, s, out, h) else k s out h)"

lemma and_then_simps [simp]:
  "and_then None k = None"
  "and_then (Some (Status_OK, s, out, h)) k = k s out h"
  "status \<noteq> Status_OK \<Longrightarrow> and_then (Some (status, s, out, h)) k = Some (status, s, out, h)"
  by (simp_all add: and_then_def)

lemma and_then_assoc: "and_then (and_then r k) l = and_then r (\<lambda>s out h. and_then (k s out h) l)"
  by (auto simp: and_then_def split: option.split)

lemma and_then_OK_iff:
  "and_then r k = Some (Status_OK, s2, out2, h2) \<longleftrightarrow>
     (\<exists>s1 out1 h1. r = Some (Status_OK, s1, out1, h1) \<and> k s1 out1 h1 = Some (Status_OK, s2, out2, h2))"
  by (auto simp: and_then_def split: option.splits)

lemma FlushBytes_Cons:
  "FwdLockConv_FlushBytes c s (b # bs) out h =
     and_then (FwdLockConv_WriteEncryptedChar c s b out h) (\<lambda>s1. FwdLockConv_FlushBytes c s1 bs)"
  by (simp add: and_then_def)

lemma PushChars_Cons:
  "FwdLockConv_PushChars c s (ch # chs) out h =
     and_then (FwdLockConv_PushChar c s ch out h) (\<lambda>s1. FwdLockConv_PushChars c s1 chs)"
  by (simp add: and_then_def)

lemma FlushBytes_append:
  "FwdLockConv_FlushBytes c s (xs @ ys) out h =
     and_then (FwdLockConv_FlushBytes c s xs out h) (\<lambda>s1. FwdLockConv_FlushBytes c s1 ys)"
proof (induction xs arbitrary: s out h)
  case (Cons x xs)
  have "FwdLockConv_FlushBytes c t (xs @ ys) =
      (\<lambda>out h. and_then (FwdLockConv_FlushBytes c t xs out h) (\<lambda>s1. FwdLockConv_FlushBytes c s1 ys))" for t
    by (intro ext) (rule Cons.IH)
  then show ?case by (simp only: append_Cons FlushBytes_Cons and_then_assoc)
qed simp

lemma PushChars_append:
  "FwdLockConv_PushChars c s (xs @ ys) out h =
     and_then (FwdLockConv_PushChars c s xs out h) (\<lambda>s1. FwdLockConv_PushChars c s1 ys)"
proof (induction xs arbitrary: s out h)
  case (Cons x xs)
  have "FwdLockConv_PushChars c t (xs @ ys) =
      (\<lambda>out h. and_then (FwdLockConv_PushChars c t xs out h) (\<lambda>s1. FwdLockConv_PushChars c s1 ys))" for t
    by (intro ext) (rule Cons.IH)
  then show ?case by (simp only: append_Cons PushChars_Cons and_then_assoc)
qed simp

lemma FlushBytes_singleton:
  "FwdLockConv_FlushBytes c s [b] out h = FwdLockConv_WriteEncryptedChar c s b out h"
  by (simp add: split: option.split)

section \<open>Frames\<close>

text \<open>
  The fields a scanner step may change, and those a write may change.
\<close>

definition scan_frame :: "('rk, 'hc) FwdLockConv_Session \<Rightarrow> ('rk, 'hc) FwdLockConv_Session \<Rightarrow> bool" where
  "scan_frame s t \<longleftrightarrow>
     t = s\<lparr>parserState := parserState t, scannerState := scannerState t,
           savedScannerState := savedScannerState t, numCharsConsumed := numCharsConsumed t,
           delimiterMatchPos := delimiterMatchPos t, sesCh := sesCh t\<rparr>"

definition write_frame :: "('rk, 'hc) FwdLockConv_Session \<Rightarrow> ('rk, 'hc) FwdLockConv_Session \<Rightarrow> bool" where
  "write_frame s t \<longleftrightarrow>
     t = s\<lparr>counter := counter t, keyStream := keyStream t, keyStreamIndex := keyStreamIndex t,
           outputBufferSize := outputBufferSize t, numDataBytes := numDataBytes t\<rparr>"

lemma scan_frame_refl [simp]: "scan_frame s s"
  and write_frame_refl [simp]: "write_frame s s"
  by (simp_all add: scan_frame_def write_frame_def)

lemma scan_frame_trans: "scan_frame s t \<Longrightarrow> scan_frame t u \<Longrightarrow> scan_frame s u"
  by (cases s; cases t; cases u) (simp add: scan_frame_def)

lemma write_frame_trans: "write_frame s t \<Longrightarrow> write_frame t u \<Longrightarrow> write_frame s u"
  by (cases s; cases t; cases u) (simp add: write_frame_def)

lemma scan_frame_fields:
  assumes "scan_frame s t"
  shows "delimiter t = delimiter s" "mimeHeaderName t = mimeHeaderName s"
    "contentType t = contentType s" "contentTransferEncoding t = contentTransferEncoding s"
    "sessionKey t = sessionKey s" "pEncryptedSessionKey t = pEncryptedSessionKey s"
    "encryptionRoundKeys t = encryptionRoundKeys s" "signingContext t = signingContext s"
    "topHeader t = topHeader s" "counter t = counter s" "keyStream t = keyStream s"
    "keyStreamIndex t = keyStreamIndex s" "outputBufferSize t = outputBufferSize s"
    "dataOffset t = dataOffset s" "numDataBytes t = numDataBytes s"
  using assms by (cases s; cases t; simp add: scan_frame_def)+

lemma write_frame_fields:
  assumes "write_frame s t"
  shows "parserState t = parserState s" "scannerState t = scannerState s"
    "savedScannerState t = savedScannerState s" "numCharsConsumed t = numCharsConsumed s"
    "delimiter t = delimiter s" "delimiterMatchPos t = delimiterMatchPos s"
    "mimeHeaderName t = mimeHeaderName s"
    "contentType t = contentType s" "contentTransferEncoding t = contentTransferEncoding s"
    "sessionKey t = sessionKey s" "pEncryptedSessionKey t = pEncryptedSessionKey s"
    "encryptionRoundKeys t = encryptionRoundKeys s" "signingContext t = signingContext s"
    "topHeader t = topHeader s" "sesCh t = sesCh s" "dataOffset t = dataOffset s"
  using assms by (cases s; cases t; simp add: write_frame_def)+

section \<open>Writing bytes\<close>

text \<open>
  The output buffer is allocated with at least \<open>outputBufferSize\<close> bytes and the bytes written
  fit it.
\<close>

definition out_room ::
  "('rk, 'hc) FwdLockConv_Session \<Rightarrow> FwdLockConv_ConvertData_Output \<Rightarrow> bool" where
  "out_room s out \<longleftrightarrow>
     length (outBytes out) \<le> outputBufferSize s \<and>
     (case pBuffer out of None \<Rightarrow> False | Some cap \<Rightarrow> outputBufferSize s \<le> cap)"

lemma NextKeyByte_frame:
  "write_frame s (FwdLockConv_NextKeyByte c s)"
  "numDataBytes (FwdLockConv_NextKeyByte c s) = numDataBytes s"
  "outputBufferSize (FwdLockConv_NextKeyByte c s) = outputBufferSize s"
  by (simp_all add: FwdLockConv_NextKeyByte_def Let_def write_frame_def)

lemma EnsureRoom_spec:
  assumes "FwdLockConv_EnsureRoom s out h = (Status_OK, s1, out1, h1)" "out_room s out"
  shows "s1 = s\<lparr>outputBufferSize := outputBufferSize s1\<rparr>"
    "out1 = out\<lparr>pBuffer := pBuffer out1\<rparr>"
    "length (outBytes out) < outputBufferSize s1" "out_room s1 out1"
  using assms by (auto simp: FwdLockConv_EnsureRoom_def out_room_def Let_def split: if_splits prod.splits
      option.splits)

text \<open>
  A write that succeeds, in terms of the byte cipher \<open>FwdLockConv_EncryptByte\<close> of the
  stream theory.
\<close>

lemma enc_in_pos_cong:
  "encryptionRoundKeys t = encryptionRoundKeys s \<Longrightarrow> keyStreamIndex t = keyStreamIndex s \<Longrightarrow>
   counter t = counter s \<Longrightarrow> keyStream t = keyStream s \<Longrightarrow>
   enc_in_pos c rk nonce n t = enc_in_pos c rk nonce n s"
  by (simp add: enc_in_pos_def)

lemma enc_in_pos_NextKeyByte:
  assumes "enc_in_pos c rk nonce n s"
  shows "enc_in_pos c rk nonce (Suc n) (FwdLockConv_NextKeyByte c s)"
    and "rd (keyStream (FwdLockConv_NextKeyByte c s)) (nat (keyStreamIndex (FwdLockConv_NextKeyByte c s)))
       = Some (ctr_byte c rk nonce n)"
    and "0 \<le> keyStreamIndex (FwdLockConv_NextKeyByte c s)"
proof -
  from EncryptByte_step [OF assms, of 0] obtain s'
    where e: "FwdLockConv_EncryptByte c s 0 = Some (s', ctr_byte c rk nonce n)"
      and p: "enc_in_pos c rk nonce (Suc n) s'" by auto
  from e have s': "s' = FwdLockConv_NextKeyByte c s"
    by (auto simp: FwdLockConv_EncryptByte_def Let_def split: if_splits)
  from p show "enc_in_pos c rk nonce (Suc n) (FwdLockConv_NextKeyByte c s)" by (simp only: s')
  from e show "rd (keyStream (FwdLockConv_NextKeyByte c s)) (nat (keyStreamIndex (FwdLockConv_NextKeyByte c s)))
       = Some (ctr_byte c rk nonce n)"
    and "0 \<le> keyStreamIndex (FwdLockConv_NextKeyByte c s)"
    by (auto simp: FwdLockConv_EncryptByte_def Let_def s' split: if_splits)
qed

lemma WriteEncryptedChar_spec:
  assumes pos: "enc_in_pos c rk nonce n s" and room: "out_room s out"
    and ok: "fst (FwdLockConv_EnsureRoom s out h) = Status_OK"
  obtains s' out' h' where
    "FwdLockConv_WriteEncryptedChar c s b out h = Some (Status_OK, s', out', h')"
    "outBytes out' = outBytes out @ [b XOR ctr_byte c rk nonce n]" "errorPos out' = errorPos out"
    "h' = snd (snd (snd (FwdLockConv_EnsureRoom s out h)))"
    "enc_in_pos c rk nonce (Suc n) s'" "out_room s' out'" "write_frame s s'"
    "numDataBytes s' = numDataBytes s + 1"
proof -
  obtain s1 out1 h1 where e: "FwdLockConv_EnsureRoom s out h = (Status_OK, s1, out1, h1)"
    using ok by (cases "FwdLockConv_EnsureRoom s out h") auto
  note E = EnsureRoom_spec [OF e room]
  have E1: "enc_in_pos c rk nonce n s1"
    using pos by (subst E(1)) (simp add: enc_in_pos_def)
  have E2: "numDataBytes s1 = numDataBytes s" by (subst E(1)) simp
  have E3: "outBytes out1 = outBytes out" by (subst E(2)) simp
  have E5: "errorPos out1 = errorPos out" by (subst E(2)) simp
  have E4: "write_frame s s1" using E(1) by (cases s; cases s1) (simp add: write_frame_def)
  let ?s2 = "FwdLockConv_NextKeyByte c s1"
  note N = enc_in_pos_NextKeyByte [OF E1] and F = NextKeyByte_frame [where s = s1 and c = c]
  from E(4) obtain cap where cap: "pBuffer out1 = Some cap" "outputBufferSize s1 \<le> cap"
    by (auto simp: out_room_def split: option.splits)
  let ?s3 = "?s2\<lparr>numDataBytes := numDataBytes ?s2 + 1\<rparr>"
  let ?o3 = "out1\<lparr>outBytes := outBytes out1 @ [b XOR ctr_byte c rk nonce n]\<rparr>"
  show thesis
  proof (rule that)
    show "FwdLockConv_WriteEncryptedChar c s b out h = Some (Status_OK, ?s3, ?o3, h1)"
      unfolding FwdLockConv_WriteEncryptedChar_def
      using E(3) E3 N(2,3) cap by (simp add: e Let_def)
    show "enc_in_pos c rk nonce (Suc n) ?s3" using N(1) by (simp add: enc_in_pos_def)
    show "out_room ?s3 ?o3" using E(3) E3 F(3) cap by (simp add: out_room_def)
    have "write_frame ?s2 ?s3" by (simp add: write_frame_def)
    with E4 F(1) show "write_frame s ?s3" by (blast intro: write_frame_trans)
  qed (simp_all add: E3 E5 E2 e F)
qed

lemma EnsureRoom_no_failures: "\<exists>s1 out1. FwdLockConv_EnsureRoom s out [] = (Status_OK, s1, out1, [])"
  by (simp add: FwdLockConv_EnsureRoom_def Let_def)

lemma FlushBytes_spec:
  assumes "enc_in_pos c rk nonce n s" "out_room s out"
  shows "\<exists>s' out'. FwdLockConv_FlushBytes c s bs out [] = Some (Status_OK, s', out', [])
    \<and> outBytes out' = outBytes out @ xor_stream (ctr_byte c rk nonce) n bs
    \<and> errorPos out' = errorPos out
    \<and> enc_in_pos c rk nonce (n + length bs) s' \<and> out_room s' out' \<and> write_frame s s'
    \<and> numDataBytes s' = numDataBytes s + length bs"
  using assms
proof (induction bs arbitrary: n s out)
  case (Cons b bs)
  from EnsureRoom_no_failures [of s out] obtain s0 out0
    where e: "FwdLockConv_EnsureRoom s out [] = (Status_OK, s0, out0, [])" by blast
  obtain s1 out1 h1 where 1:
    "FwdLockConv_WriteEncryptedChar c s b out [] = Some (Status_OK, s1, out1, h1)"
    "outBytes out1 = outBytes out @ [b XOR ctr_byte c rk nonce n]" "errorPos out1 = errorPos out"
    "h1 = []" "enc_in_pos c rk nonce (Suc n) s1" "out_room s1 out1" "write_frame s s1"
    "numDataBytes s1 = numDataBytes s + 1"
    by (rule WriteEncryptedChar_spec [OF Cons.prems, of "[]" b]) (simp_all add: e)
  from Cons.IH [OF 1(5,6)] obtain s2 out2 where
    "FwdLockConv_FlushBytes c s1 bs out1 [] = Some (Status_OK, s2, out2, [])"
    "outBytes out2 = outBytes out1 @ xor_stream (ctr_byte c rk nonce) (Suc n) bs"
    "errorPos out2 = errorPos out1"
    "enc_in_pos c rk nonce (Suc n + length bs) s2" "out_room s2 out2" "write_frame s1 s2"
    "numDataBytes s2 = numDataBytes s1 + length bs" by blast
  with 1 show ?case by (auto intro: write_frame_trans)
qed simp

section \<open>Writes do not look at the scanner\<close>

lemma EnsureRoom_scan:
  "scan_frame s t \<Longrightarrow> FwdLockConv_EnsureRoom s out h = (status, s1, out1, h1) \<Longrightarrow>
   \<exists>t1. FwdLockConv_EnsureRoom t out h = (status, t1, out1, h1) \<and> scan_frame s1 t1 \<and> write_frame t t1"
  by (cases s; cases t)
    (auto simp: FwdLockConv_EnsureRoom_def Let_def scan_frame_def write_frame_def split: if_splits prod.splits)

lemma NextKeyByte_scan:
  "scan_frame s t \<Longrightarrow> scan_frame (FwdLockConv_NextKeyByte c s) (FwdLockConv_NextKeyByte c t)"
  by (cases s; cases t) (auto simp: FwdLockConv_NextKeyByte_def Let_def scan_frame_def)

lemma scan_frame_numDataBytes:
  "scan_frame s t \<Longrightarrow> scan_frame (s\<lparr>numDataBytes := n\<rparr>) (t\<lparr>numDataBytes := n\<rparr>)"
  by (cases s; cases t) (simp add: scan_frame_def)

lemma WriteEncryptedChar_scan:
  assumes f: "scan_frame s t"
    and w: "FwdLockConv_WriteEncryptedChar c s b out h = Some (status, s1, out1, h1)"
  shows "\<exists>t1. FwdLockConv_WriteEncryptedChar c t b out h = Some (status, t1, out1, h1)
    \<and> scan_frame s1 t1 \<and> write_frame t t1"
proof -
  obtain st se oe he where e: "FwdLockConv_EnsureRoom s out h = (st, se, oe, he)"
    by (cases "FwdLockConv_EnsureRoom s out h") auto
  from EnsureRoom_scan [OF f e] obtain te where
    te: "FwdLockConv_EnsureRoom t out h = (st, te, oe, he)" "scan_frame se te" "write_frame t te"
    by blast
  show ?thesis
  proof (cases "st = Status_OK")
    case False
    with w e te show ?thesis by (auto simp: FwdLockConv_WriteEncryptedChar_def)
  next
    case True
    let ?sn = "FwdLockConv_NextKeyByte c se" and ?tn = "FwdLockConv_NextKeyByte c te"
    have n: "scan_frame ?sn ?tn" by (rule NextKeyByte_scan [OF te(2)])
    note F = scan_frame_fields [OF n]
    have wf: "write_frame te (?tn\<lparr>numDataBytes := m\<rparr>)" for m
      using NextKeyByte_frame(1) [of te c] by (rule write_frame_trans) (simp add: write_frame_def)
    from w True e te(1) show ?thesis
      by (auto simp: FwdLockConv_WriteEncryptedChar_def Let_def F split: option.splits if_splits
          intro!: scan_frame_numDataBytes [OF n] write_frame_trans [OF te(3) wf])
  qed
qed

lemma FlushBytes_scan:
  "scan_frame s t \<Longrightarrow> FwdLockConv_FlushBytes c s bs out h = Some (status, s1, out1, h1) \<Longrightarrow>
   \<exists>t1. FwdLockConv_FlushBytes c t bs out h = Some (status, t1, out1, h1)
     \<and> scan_frame s1 t1 \<and> write_frame t t1"
proof (induction bs arbitrary: s t out h)
  case (Cons b bs)
  from Cons.prems(2) obtain st s2 out2 h2 where
    w: "FwdLockConv_WriteEncryptedChar c s b out h = Some (st, s2, out2, h2)"
    by (auto split: option.splits)
  from WriteEncryptedChar_scan [OF Cons.prems(1) w] obtain t2 where
    t2: "FwdLockConv_WriteEncryptedChar c t b out h = Some (st, t2, out2, h2)"
      "scan_frame s2 t2" "write_frame t t2" by blast
  show ?case
  proof (cases "st = Status_OK")
    case True
    with Cons.prems(2) w have "FwdLockConv_FlushBytes c s2 bs out2 h2 = Some (status, s1, out1, h1)"
      by simp
    from Cons.IH [OF t2(2) this] obtain t1 where
      "FwdLockConv_FlushBytes c t2 bs out2 h2 = Some (status, t1, out1, h1)"
      "scan_frame s1 t1" "write_frame t2 t1" by blast
    with t2 True show ?thesis by (auto intro: write_frame_trans)
  next
    case False
    with Cons.prems(2) w t2 show ?thesis by auto
  qed
qed auto

section \<open>Scanners as refinements of releasing machines\<close>

text \<open>
  A body scanner is described by a machine that consumes one character and releases the
  bytes to be written; \<open>None\<close> is a syntax error. A scanner implements the machine when a
  character has the effect of writing the released bytes and moving to the next state.
\<close>

fun machine_run :: "('a \<Rightarrow> byte \<Rightarrow> ('a \<times> bytes) option) \<Rightarrow> 'a \<Rightarrow> bytes \<Rightarrow> ('a \<times> bytes) option" where
  "machine_run stp a [] = Some (a, [])"
| "machine_run stp a (ch # chs) =
     (case stp a ch of
        None \<Rightarrow> None
      | Some (a1, em) \<Rightarrow> map_option (\<lambda>(a2, em2). (a2, em @ em2)) (machine_run stp a1 chs))"

lemma machine_run_append:
  "machine_run stp a (xs @ ys) =
     (case machine_run stp a xs of
        None \<Rightarrow> None
      | Some (a1, em) \<Rightarrow> map_option (\<lambda>(a2, em2). (a2, em @ em2)) (machine_run stp a1 ys))"
  by (induction xs arbitrary: a)
    (auto simp: map_option_case split: option.splits)

locale body_scanner =
  fixes c :: "('rk, 'hc) crypto"
    and stp :: "'a \<Rightarrow> byte \<Rightarrow> ('a \<times> bytes) option"
    and rel :: "'a \<Rightarrow> ('rk, 'hc) FwdLockConv_Session \<Rightarrow> bool"
  assumes accept: "rel a s \<Longrightarrow> stp a ch = Some (a', em) \<Longrightarrow>
      FwdLockConv_FlushBytes c s em out h = Some (Status_OK, s1, out1, h1) \<Longrightarrow>
      \<exists>s2. FwdLockConv_PushChar c s ch out h = Some (Status_OK, s2, out1, h1)
         \<and> rel a' s2 \<and> scan_frame s1 s2 \<and> numCharsConsumed s2 = numCharsConsumed s + 1"
    and fail: "rel a s \<Longrightarrow> stp a ch = Some (a', em) \<Longrightarrow>
      FwdLockConv_FlushBytes c s em out h = Some (status, s1, out1, h1) \<Longrightarrow> status \<noteq> Status_OK \<Longrightarrow>
      \<exists>s2. FwdLockConv_PushChar c s ch out h = Some (status, s2, out1, h1)"
    and reject: "rel a s \<Longrightarrow> stp a ch = None \<Longrightarrow>
      \<exists>s2. FwdLockConv_PushChar c s ch out h = Some (Status_SyntaxError, s2, out, h)
         \<and> numCharsConsumed s2 = numCharsConsumed s + 1"
begin

lemma run_accept:
  "rel a s \<Longrightarrow> machine_run stp a chs = Some (a', em) \<Longrightarrow>
   FwdLockConv_FlushBytes c s em out h = Some (Status_OK, s1, out1, h1) \<Longrightarrow>
   \<exists>s2. FwdLockConv_PushChars c s chs out h = Some (Status_OK, s2, out1, h1)
      \<and> rel a' s2 \<and> scan_frame s1 s2 \<and> numCharsConsumed s2 = numCharsConsumed s + int (length chs)"
proof (induction chs arbitrary: a s em out h s1)
  case (Cons ch chs)
  from Cons.prems(2) obtain a1 em1 em2 where
    st: "stp a ch = Some (a1, em1)" and r: "machine_run stp a1 chs = Some (a', em2)" and
    em: "em = em1 @ em2"
    by (auto split: option.splits)
  from Cons.prems(3) obtain t1 o1 k1 where
    f1: "FwdLockConv_FlushBytes c s em1 out h = Some (Status_OK, t1, o1, k1)" and
    f2: "FwdLockConv_FlushBytes c t1 em2 o1 k1 = Some (Status_OK, s1, out1, h1)"
    unfolding em FlushBytes_append and_then_OK_iff by blast
  from accept [OF Cons.prems(1) st f1] obtain u where
    u: "FwdLockConv_PushChar c s ch out h = Some (Status_OK, u, o1, k1)" "rel a1 u" "scan_frame t1 u"
      "numCharsConsumed u = numCharsConsumed s + 1" by blast
  from FlushBytes_scan [OF u(3) f2] obtain v where
    v: "FwdLockConv_FlushBytes c u em2 o1 k1 = Some (Status_OK, v, out1, h1)" "scan_frame s1 v" by blast
  from Cons.IH [OF u(2) r v(1)] obtain s2 where
    "FwdLockConv_PushChars c u chs o1 k1 = Some (Status_OK, s2, out1, h1)" "rel a' s2"
    "scan_frame v s2" "numCharsConsumed s2 = numCharsConsumed u + int (length chs)" by blast
  with u v(2) show ?case by (auto intro: scan_frame_trans)
qed auto

lemma run_reject:
  "rel a s \<Longrightarrow> machine_run stp a chs = Some (a', em) \<Longrightarrow> stp a' ch = None \<Longrightarrow>
   FwdLockConv_FlushBytes c s em out h = Some (Status_OK, s1, out1, h1) \<Longrightarrow>
   \<exists>s2. FwdLockConv_PushChars c s (chs @ ch # rest) out h = Some (Status_SyntaxError, s2, out1, h1)
      \<and> numCharsConsumed s2 = numCharsConsumed s + int (length chs) + 1"
proof -
  assume prems: "rel a s" "machine_run stp a chs = Some (a', em)" "stp a' ch = None"
    "FwdLockConv_FlushBytes c s em out h = Some (Status_OK, s1, out1, h1)"
  from run_accept [OF prems(1,2,4)] obtain s2 where
    s2: "FwdLockConv_PushChars c s chs out h = Some (Status_OK, s2, out1, h1)" "rel a' s2"
      "numCharsConsumed s2 = numCharsConsumed s + int (length chs)" by blast
  from reject [OF s2(2) prems(3), of out1 h1] obtain s3 where
    "FwdLockConv_PushChar c s2 ch out1 h1 = Some (Status_SyntaxError, s3, out1, h1)"
    "numCharsConsumed s3 = numCharsConsumed s2 + 1" by blast
  then show ?thesis using s2 by (simp add: PushChars_append)
qed

end

section \<open>The binary scanner\<close>

text \<open>
  The delimiter the open delimiter scanner builds: CR LF, two dashes and a boundary without
  CR and LF (a boundary character is neither).
\<close>

definition delimiter_ok :: "bytes \<Rightarrow> bool" where
  "delimiter_ok d \<longleftrightarrow>
     4 < length d \<and> length d \<le> MAX_DELIMITER_LENGTH \<and> take 4 d = [CR, LF, DASH, DASH] \<and>
     CR \<notin> set (tl d) \<and> LF \<notin> set (drop 2 d)"

datatype bin_state = BinData nat | BinFirstDash | BinSecondDash | BinDone

fun bin_step :: "bytes \<Rightarrow> bin_state \<Rightarrow> byte \<Rightarrow> (bin_state \<times> bytes) option" where
  "bin_step d (BinData k) ch =
     Some (if ch = d ! k then (if k + 1 = length d then BinFirstDash else BinData (k + 1), [])
           else if ch = d ! 0 then (BinData 1, take k d)
           else (BinData 0, take k d @ [ch]))"
| "bin_step d BinFirstDash ch = (if ch = DASH then Some (BinSecondDash, []) else None)"
| "bin_step d BinSecondDash ch = (if ch = DASH then Some (BinDone, []) else None)"
| "bin_step d BinDone ch = Some (BinDone, [])"

definition bin_rel :: "bytes \<Rightarrow> bin_state \<Rightarrow> ('rk, 'hc) FwdLockConv_Session \<Rightarrow> bool" where
  "bin_rel d a s \<longleftrightarrow>
     delimiter_ok d \<and> delimiter s = d \<and>
     (case a of
        BinData k \<Rightarrow> parserState s = WantsBinaryEncodedData \<and> scannerState s = WantsByte1 \<and>
                     delimiterMatchPos s = k \<and> k < length d
      | BinFirstDash \<Rightarrow> parserState s = WantsBinaryEncodedData \<and> scannerState s = WantsFirstDash
      | BinSecondDash \<Rightarrow> parserState s = WantsBinaryEncodedData \<and> scannerState s = WantsSecondDash
      | BinDone \<Rightarrow> parserState s = Done)"

lemma delimiter_ok_nth:
  assumes "delimiter_ok d"
  shows "d ! 0 = CR" and "0 < i \<Longrightarrow> i < length d \<Longrightarrow> d ! i \<noteq> CR"
proof -
  have d: "4 < length d" "take 4 d = [CR, LF, DASH, DASH]" "CR \<notin> set (tl d)"
    using assms by (auto simp: delimiter_ok_def)
  from d(1) have "d ! 0 = take 4 d ! 0" by simp
  then show "d ! 0 = CR" unfolding d(2) by simp
  show "0 < i \<Longrightarrow> i < length d \<Longrightarrow> d ! i \<noteq> CR"
  proof
    assume i: "0 < i" "i < length d" "d ! i = CR"
    then have "tl d ! (i - 1) = CR" "i - 1 < length (tl d)" by (simp_all add: nth_tl)
    then have "CR \<in> set (tl d)" by (metis nth_mem)
    with d(3) show False ..
  qed
qed

lemma scan_frame_updI:
  "scan_frame s t \<Longrightarrow> scan_frame s (t\<lparr>scannerState := a\<rparr>)"
  "scan_frame s t \<Longrightarrow> scan_frame s (t\<lparr>parserState := b\<rparr>)"
  "scan_frame s t \<Longrightarrow> scan_frame s (t\<lparr>numCharsConsumed := n\<rparr>)"
  "scan_frame s t \<Longrightarrow> scan_frame s (t\<lparr>delimiterMatchPos := k\<rparr>)"
  "scan_frame s t \<Longrightarrow> scan_frame s (t\<lparr>savedScannerState := a\<rparr>)"
  "scan_frame s t \<Longrightarrow> scan_frame s (t\<lparr>sesCh := x\<rparr>)"
  by (cases s; cases t; simp add: scan_frame_def)+

text \<open>A write to a session in a given scanner state, after the character has been counted.\<close>

lemma FlushBytes_counted:
  assumes "FwdLockConv_FlushBytes c s em out h = Some (status, s1, out1, h1)"
  obtains t1 where
    "FwdLockConv_FlushBytes c (s\<lparr>numCharsConsumed := n\<rparr>) em out h = Some (status, t1, out1, h1)"
    "scan_frame s1 t1" "write_frame (s\<lparr>numCharsConsumed := n\<rparr>) t1"
  using FlushBytes_scan [OF _ assms, of "s\<lparr>numCharsConsumed := n\<rparr>"] scan_frame_updI(3) [OF scan_frame_refl]
  by blast

lemma PushChar_binary:
  "parserState s = WantsBinaryEncodedData \<Longrightarrow>
   FwdLockConv_PushChar c s ch out h =
     FwdLockConv_MatchBinaryEncodedData c (s\<lparr>numCharsConsumed := numCharsConsumed s + 1\<rparr>) ch out h"
  by (simp add: FwdLockConv_PushChar_def Let_def)

lemma bin_accept_data:
  assumes rel: "bin_rel d (BinData k) s" and st: "bin_step d (BinData k) ch = Some (a', em)"
    and fl: "FwdLockConv_FlushBytes c s em out h = Some (Status_OK, s1, out1, h1)"
  shows "\<exists>s2. FwdLockConv_PushChar c s ch out h = Some (Status_OK, s2, out1, h1)
     \<and> bin_rel d a' s2 \<and> scan_frame s1 s2 \<and> numCharsConsumed s2 = numCharsConsumed s + 1"
proof -
  let ?s = "s\<lparr>numCharsConsumed := numCharsConsumed s + 1\<rparr>"
  have d: "delimiter_ok d" "delimiter s = d" "parserState s = WantsBinaryEncodedData"
    "scannerState s = WantsByte1" "delimiterMatchPos s = k" "k < length d"
    using rel by (simp_all add: bin_rel_def)
  have len: "4 < length d" using d(1) by (simp add: delimiter_ok_def)
  then have d0: "rd d 0 = Some (d ! 0)" by (intro rd_in) linarith
  show ?thesis
  proof (cases "ch = d ! k")
    case True
    with st fl have "em = []" "s1 = s" "out1 = out" "h1 = h"
      and a': "a' = (if k + 1 = length d then BinFirstDash else BinData (k + 1))" by auto
    with True d show ?thesis
      by (auto simp: PushChar_binary FwdLockConv_MatchBinaryEncodedData_def
          FwdLockConv_MatchDelimiterChar_def Let_def bin_rel_def intro!: scan_frame_updI)
  next
    case False
    obtain u o2 k2 where
      u: "FwdLockConv_FlushBytes c s (take k d) out h = Some (Status_OK, u, o2, k2)" and
      rest: "if ch = d ! 0 then a' = BinData 1 \<and> s1 = u \<and> out1 = o2 \<and> h1 = k2
             else a' = BinData 0 \<and>
               FwdLockConv_WriteEncryptedChar c u ch o2 k2 = Some (Status_OK, s1, out1, h1)"
      using st fl False
      by (auto simp: FlushBytes_append FlushBytes_singleton and_then_OK_iff split: if_splits
          simp del: FwdLockConv_FlushBytes.simps)
    obtain t1 where
      t1: "FwdLockConv_FlushBytes c ?s (take k d) out h = Some (Status_OK, t1, o2, k2)"
        "scan_frame u t1" "write_frame ?s t1"
      by (rule FlushBytes_counted [OF u])
    note F = write_frame_fields [OF t1(3)]
    let ?t = "t1\<lparr>delimiterMatchPos := 0\<rparr>"
    have push: "FwdLockConv_PushChar c s ch out h = FwdLockConv_MatchDelimiterChar c ?t ch o2 k2"
      using d False t1(1)
      by (simp add: PushChar_binary FwdLockConv_MatchBinaryEncodedData_def Let_def)
    show ?thesis
    proof (cases "ch = d ! 0")
      case True
      have push1: "FwdLockConv_PushChar c s ch out h
          = Some (Status_OK, ?t\<lparr>delimiterMatchPos := 1\<rparr>, o2, k2)"
        unfolding push using F d(2) len True d0
        by (simp add: FwdLockConv_MatchDelimiterChar_def Let_def)
      show ?thesis
        unfolding push1 using rest True F d len t1(2)
        by (auto simp: bin_rel_def intro!: scan_frame_updI)
    next
      case False
      have ut: "scan_frame u ?t" by (rule scan_frame_updI(4) [OF t1(2)])
      have wr: "FwdLockConv_WriteEncryptedChar c u ch o2 k2 = Some (Status_OK, s1, out1, h1)"
        using rest False by simp
      from WriteEncryptedChar_scan [OF ut wr] obtain t2 where
        t2: "FwdLockConv_WriteEncryptedChar c ?t ch o2 k2 = Some (Status_OK, t2, out1, h1)"
          "scan_frame s1 t2" "write_frame ?t t2" by blast
      have "FwdLockConv_PushChar c s ch out h = Some (Status_OK, t2, out1, h1)"
        unfolding push using False F d(2) d0 t2(1)
        by (simp add: FwdLockConv_MatchDelimiterChar_def)
      then show ?thesis
        using rest False F d write_frame_fields [OF t2(3)] t2(2) len
        by (auto simp: bin_rel_def)
    qed
  qed
qed

lemma bin_accept:
  assumes "bin_rel d a s" "bin_step d a ch = Some (a', em)"
    "FwdLockConv_FlushBytes c s em out h = Some (Status_OK, s1, out1, h1)"
  shows "\<exists>s2. FwdLockConv_PushChar c s ch out h = Some (Status_OK, s2, out1, h1)
     \<and> bin_rel d a' s2 \<and> scan_frame s1 s2 \<and> numCharsConsumed s2 = numCharsConsumed s + 1"
proof (cases a)
  case (BinData k)
  then show ?thesis using bin_accept_data assms by blast
next
  case BinDone
  with assms show ?thesis
    by (auto simp: bin_rel_def FwdLockConv_PushChar_def Let_def intro!: scan_frame_updI)
qed (use assms in \<open>auto simp: bin_rel_def PushChar_binary FwdLockConv_MatchBinaryEncodedData_def
        FwdLockConv_MatchCloseDash_def split: if_splits intro!: scan_frame_updI\<close>)

lemma bin_reject:
  assumes "bin_rel d a s" "bin_step d a ch = None"
  shows "\<exists>s2. FwdLockConv_PushChar c s ch out h = Some (Status_SyntaxError, s2, out, h)
     \<and> numCharsConsumed s2 = numCharsConsumed s + 1"
  using assms
  by (cases a) (auto simp: bin_rel_def PushChar_binary FwdLockConv_MatchBinaryEncodedData_def
        FwdLockConv_MatchCloseDash_def split: if_splits)

text \<open>A write that fails ends the step with its status.\<close>

lemma bin_fail:
  assumes rel: "bin_rel d a s" and st: "bin_step d a ch = Some (a', em)"
    and fl: "FwdLockConv_FlushBytes c s em out h = Some (status, s1, out1, h1)"
    and bad: "status \<noteq> Status_OK"
  shows "\<exists>s2. FwdLockConv_PushChar c s ch out h = Some (status, s2, out1, h1)"
proof -
  have "em \<noteq> []" using fl bad by auto
  with st obtain k where a: "a = BinData k" and ch: "ch \<noteq> d ! k"
    and em: "em = (if ch = d ! 0 then take k d else take k d @ [ch])"
    by (cases a) (auto split: if_splits)
  let ?s = "s\<lparr>numCharsConsumed := numCharsConsumed s + 1\<rparr>"
  have d: "delimiter_ok d" "delimiter s = d" "parserState s = WantsBinaryEncodedData"
    "scannerState s = WantsByte1" "delimiterMatchPos s = k" "k < length d"
    using rel by (simp_all add: bin_rel_def a)
  then have "4 < length d" by (simp add: delimiter_ok_def)
  then have d0: "rd d 0 = Some (d ! 0)" by (intro rd_in) linarith
  obtain st1 u o2 k2 where u: "FwdLockConv_FlushBytes c s (take k d) out h = Some (st1, u, o2, k2)"
    using fl unfolding em by (auto simp: FlushBytes_append and_then_def split: if_splits option.splits)
  obtain t1 where t1: "FwdLockConv_FlushBytes c ?s (take k d) out h = Some (st1, t1, o2, k2)"
    "scan_frame u t1" "write_frame ?s t1" by (rule FlushBytes_counted [OF u])
  note F = write_frame_fields [OF t1(3)]
  show ?thesis
  proof (cases "st1 = Status_OK")
    case False
    then have "st1 = status" "o2 = out1" "k2 = h1"
      using fl u unfolding em by (auto simp: FlushBytes_append split: if_splits)
    with False ch d t1(1) show ?thesis
      by (simp add: PushChar_binary FwdLockConv_MatchBinaryEncodedData_def)
  next
    case True
    then have ch0: "ch \<noteq> d ! 0" and
      w: "FwdLockConv_WriteEncryptedChar c u ch o2 k2 = Some (status, s1, out1, h1)"
      using fl u bad unfolding em
      by (auto simp: FlushBytes_append FlushBytes_singleton simp del: FwdLockConv_FlushBytes.simps
          split: if_splits)
    from WriteEncryptedChar_scan [OF scan_frame_updI(4) [OF t1(2)] w] obtain t2 where
      "FwdLockConv_WriteEncryptedChar c (t1\<lparr>delimiterMatchPos := 0\<rparr>) ch o2 k2
         = Some (status, t2, out1, h1)" by blast
    with True ch ch0 d d0 F t1(1) show ?thesis
      by (simp add: PushChar_binary FwdLockConv_MatchBinaryEncodedData_def
          FwdLockConv_MatchDelimiterChar_def)
  qed
qed

interpretation bin: body_scanner c "bin_step d" "bin_rel d"
  for c d
  by unfold_locales (blast intro: bin_accept bin_fail bin_reject)+

end
