(* ===== verification/FwdLockBinary.thy ===== *)
theory FwdLockBinary
  imports FwdLockBody "HOL-Library.Sublist"
begin

text \<open>
  What the binary scanner recognises. Only the first byte of a delimiter is a CR, so after a
  mismatch no shorter prefix of the delimiter can be pending except the empty one or the
  mismatching CR itself: the scanner, which never backs up, still finds the first occurrence
  of the delimiter, and releases every byte before it.
\<close>

section \<open>The releasing machine\<close>

lemma sublist_append_left: "sublist d xs \<Longrightarrow> sublist d (ps @ xs)"
  by (auto simp: sublist_append)

lemma bin_run_data:
  assumes "delimiter_ok d"
  shows "k < length d \<Longrightarrow> \<not> sublist d (take k d @ xs) \<Longrightarrow>
    \<exists>k' em. machine_run (bin_step d) (BinData k) xs = Some (BinData k', em)
      \<and> k' < length d \<and> take k d @ xs = em @ take k' d"
proof (induction xs arbitrary: k)
  case (Cons ch xs)
  have len: "4 < length d" using assms by (simp add: delimiter_ok_def)
  show ?case
  proof (cases "ch = d ! k")
    case True
    have pend: "take k d @ ch # xs = take (Suc k) d @ xs"
      using Cons.prems(1) True by (simp add: take_Suc_conv_app_nth)
    have "Suc k \<noteq> length d"
    proof
      assume "Suc k = length d"
      then have "take k d @ ch # xs = d @ xs" unfolding pend by simp
      moreover have "sublist d (d @ xs)" by simp
      ultimately have "sublist d (take k d @ ch # xs)" by (simp only:)
      with Cons.prems(2) show False ..
    qed
    moreover have "\<not> sublist d (take (Suc k) d @ xs)"
      using Cons.prems(2) unfolding pend .
    ultimately show ?thesis
      using Cons.IH [of "Suc k"] Cons.prems(1) True unfolding pend by auto
  next
    case False
    have rest: "\<not> sublist d (ch # xs)"
    proof
      assume "sublist d (ch # xs)"
      then have "sublist d (take k d @ ch # xs)" by (rule sublist_append_left)
      with Cons.prems(2) show False ..
    qed
    show ?thesis
    proof (cases "ch = d ! 0")
      case True
      then have pend: "ch # xs = take 1 d @ xs"
        using len by (cases d) auto
      have "1 < length d" using len by linarith
      with Cons.IH [of 1] rest obtain k' em where
        r: "machine_run (bin_step d) (BinData 1) xs = Some (BinData k', em)" "k' < length d"
          "take 1 d @ xs = em @ take k' d"
        unfolding pend by blast
      have "take k d @ ch # xs = (take k d @ em) @ take k' d"
        unfolding pend r(3) by simp
      moreover have "machine_run (bin_step d) (BinData k) (ch # xs) = Some (BinData k', take k d @ em)"
        using r(1) False True by simp
      ultimately show ?thesis using r(2) by blast
    next
      case ndiff: False
      have "\<not> sublist d (take 0 d @ xs)"
        using rest using sublist_append_left [of d xs "[ch]"] by auto
      with Cons.IH [of 0] len obtain k' em where
        r: "machine_run (bin_step d) (BinData 0) xs = Some (BinData k', em)" "k' < length d"
          "xs = em @ take k' d"
        by auto
      have "take k d @ ch # xs = (take k d @ [ch] @ em) @ take k' d"
        using r(3) by simp
      moreover have "machine_run (bin_step d) (BinData k) (ch # xs)
          = Some (BinData k', take k d @ [ch] @ em)"
        using r(1) False ndiff by simp
      ultimately show ?thesis using r(2) by blast
    qed
  qed
qed auto

lemma bin_run_tail:
  "delimiter_ok d \<Longrightarrow> k < length d \<Longrightarrow>
   machine_run (bin_step d) (BinData k) (drop k d) = Some (BinFirstDash, [])"
proof (induction "length d - k" arbitrary: k)
  case (Suc m)
  have dr: "drop k d = d ! k # drop (Suc k) d"
    using Suc.prems(2) by (simp add: Cons_nth_drop_Suc)
  show ?case
  proof (cases "Suc k = length d")
    case False
    with Suc.hyps Suc.prems have "machine_run (bin_step d) (BinData (Suc k)) (drop (Suc k) d)
        = Some (BinFirstDash, [])" by simp
    with False show ?thesis by (simp add: dr)
  qed (simp add: dr)
qed simp

lemma bin_run_delimiter:
  assumes "delimiter_ok d" "k < length d"
  shows "machine_run (bin_step d) (BinData k) d = Some (BinFirstDash, take k d)"
proof -
  have len: "4 < length d" using assms by (simp add: delimiter_ok_def)
  then have d: "d ! 0 # drop 1 d = d" by (cases d) auto
  have tail: "machine_run (bin_step d) (BinData 1) (drop 1 d) = Some (BinFirstDash, [])"
    using bin_run_tail [OF assms(1), of 1] len by simp
  show ?thesis
  proof (cases "k = 0")
    case True
    have "machine_run (bin_step d) (BinData 0) (drop 0 d) = Some (BinFirstDash, [])"
      by (rule bin_run_tail [OF assms(1)]) (use len in linarith)
    with True show ?thesis by simp
  next
    case False
    then have "d ! 0 \<noteq> d ! k" using delimiter_ok_nth(1) [OF assms(1)] delimiter_ok_nth(2) [OF assms(1), of k] assms(2)
      by simp
    then have "bin_step d (BinData k) (d ! 0) = Some (BinData 1, take k d)" by simp
    with tail have "machine_run (bin_step d) (BinData k) (d ! 0 # drop 1 d)
        = Some (BinFirstDash, take k d)" by simp
    then show ?thesis by (simp only: d)
  qed
qed

lemma bin_run_body:
  assumes d: "delimiter_ok d" and p: "\<not> sublist d p"
  shows "machine_run (bin_step d) (BinData 0) (p @ d) = Some (BinFirstDash, p)"
proof -
  have "0 < length d" using d by (auto simp: delimiter_ok_def)
  with bin_run_data [OF d, of 0 p] p obtain k em where
    r: "machine_run (bin_step d) (BinData 0) p = Some (BinData k, em)" "k < length d"
      "p = em @ take k d"
    by auto
  have "machine_run (bin_step d) (BinData 0) (p @ d) = Some (BinFirstDash, em @ take k d)"
    using r(1) bin_run_delimiter [OF d r(2)] by (simp add: machine_run_append)
  then show ?thesis by (simp only: r(3))
qed

lemma bin_run_Done: "machine_run (bin_step d) BinDone xs = Some (BinDone, [])"
  by (induction xs) auto

lemma bin_run_message:
  assumes "delimiter_ok d" "\<not> sublist d p"
  shows "machine_run (bin_step d) (BinData 0) (p @ d @ DASH # DASH # rest) = Some (BinDone, p)"
  using bin_run_body [OF assms] machine_run_append [of "bin_step d" "BinData 0" "p @ d" "DASH # DASH # rest"]
  by (simp add: bin_run_Done)

section \<open>The scanner\<close>

lemma bin_rel_start:
  "bin_rel d (BinData 0) s \<longleftrightarrow>
     delimiter_ok d \<and> delimiter s = d \<and> parserState s = WantsBinaryEncodedData \<and>
     scannerState s = WantsByte1 \<and> delimiterMatchPos s = 0"
  by (auto simp: bin_rel_def delimiter_ok_def)

text \<open>
  A machine run over fault free memory, with the output spelled out: common to both bodies.
\<close>

lemma released_output:
  assumes "enc_in_pos c rk nonce n s" "out_room s out"
  obtains s1 out1 where
    "FwdLockConv_FlushBytes c s em out [] = Some (Status_OK, s1, out1, [])"
    "outBytes out1 = outBytes out @ xor_stream (ctr_byte c rk nonce) n em"
    "errorPos out1 = errorPos out"
    "enc_in_pos c rk nonce (n + length em) s1" "out_room s1 out1" "write_frame s s1"
    "numDataBytes s1 = numDataBytes s + length em"
  using FlushBytes_spec [OF assms, of em] by blast

end
