(* ===== verification/FwdLockBase64.thy ===== *)
theory FwdLockBase64
  imports FwdLockBinary
begin

text \<open>
  The base64 scanner: its releasing machine, the refinement, and the round trip with a
  reference encoder, for any layout of the encoded text into lines.
\<close>

section \<open>The releasing machine\<close>

text \<open>
  A flag says that the last characters were a line break, after which a dash may start the
  delimiter. \<open>B64LF a\<close> has seen a CR in state \<open>a\<close>. The byte in \<open>B64Byte2\<close> to \<open>B64Byte4\<close>
  holds the bits collected for the next output byte.
\<close>

datatype b64_state =
    B64Byte1 bool | B64Byte2 byte | B64Byte3 byte | B64Byte4 byte | B64Padding | B64End bool
  | B64LF b64_state | B64Delimiter nat | B64FirstDash | B64SecondDash | B64Done

abbreviation (input) EQUALS :: byte where "EQUALS \<equiv> 61"

fun b64_broken :: "b64_state \<Rightarrow> b64_state" where
  "b64_broken (B64Byte1 _) = B64Byte1 True"
| "b64_broken (B64End _) = B64End True"
| "b64_broken a = a"

text \<open>White space and line breaks, in the states that allow them.\<close>

definition b64_skip :: "b64_state \<Rightarrow> byte \<Rightarrow> (b64_state \<times> bytes) option" where
  "b64_skip a ch =
     (if ch = CR then Some (B64LF (b64_broken a), [])
      else if ch = LF then Some (b64_broken a, [])
      else if FwdLockConv_IsWhitespace ch
      then Some (case a of B64End _ \<Rightarrow> B64End False | _ \<Rightarrow> a, [])
      else None)"

fun b64_step :: "bytes \<Rightarrow> b64_state \<Rightarrow> byte \<Rightarrow> (b64_state \<times> bytes) option" where
  "b64_step d (B64Byte1 br) ch =
     (if FwdLockConv_IsBase64Char ch
      then Some (B64Byte2 (push_bit 2 (FwdLockConv_Base64Value ch)), [])
      else if ch = DASH then (if br then Some (B64Delimiter 3, []) else None)
      else b64_skip (B64Byte1 br) ch)"
| "b64_step d (B64Byte2 x) ch =
     (if FwdLockConv_IsBase64Char ch
      then Some (B64Byte3 (push_bit 4 (FwdLockConv_Base64Value ch)),
                 [x OR drop_bit 4 (FwdLockConv_Base64Value ch)])
      else b64_skip (B64Byte2 x) ch)"
| "b64_step d (B64Byte3 x) ch =
     (if FwdLockConv_IsBase64Char ch
      then Some (B64Byte4 (push_bit 6 (FwdLockConv_Base64Value ch)),
                 [x OR drop_bit 2 (FwdLockConv_Base64Value ch)])
      else if ch = EQUALS then Some (B64Padding, [])
      else b64_skip (B64Byte3 x) ch)"
| "b64_step d (B64Byte4 x) ch =
     (if FwdLockConv_IsBase64Char ch
      then Some (B64Byte1 False, [x OR FwdLockConv_Base64Value ch])
      else if ch = EQUALS then Some (B64End False, [])
      else b64_skip (B64Byte4 x) ch)"
| "b64_step d B64Padding ch = (if ch = EQUALS then Some (B64End False, []) else None)"
| "b64_step d (B64End br) ch =
     (if ch = DASH then (if br then Some (B64Delimiter 3, []) else None)
      else b64_skip (B64End br) ch)"
| "b64_step d (B64LF a) ch = (if ch = LF then Some (a, []) else None)"
| "b64_step d (B64Delimiter k) ch =
     (if ch = d ! k \<and> ch \<noteq> LF
      then Some (if k + 1 = length d then B64FirstDash else B64Delimiter (k + 1), [])
      else None)"
| "b64_step d B64FirstDash ch = (if ch = DASH then Some (B64SecondDash, []) else None)"
| "b64_step d B64SecondDash ch = (if ch = DASH then Some (B64Done, []) else None)"
| "b64_step d B64Done ch = Some (B64Done, [])"

section \<open>Refinement\<close>

fun b64_scanner :: "b64_state \<Rightarrow> FwdLockConv_ScannerState" where
  "b64_scanner (B64Byte1 br) = (if br then WantsByte1_AfterCRLF else WantsByte1)"
| "b64_scanner (B64Byte2 _) = WantsByte2"
| "b64_scanner (B64Byte3 _) = WantsByte3"
| "b64_scanner (B64Byte4 _) = WantsByte4"
| "b64_scanner B64Padding = WantsPadding"
| "b64_scanner (B64End br) = (if br then WantsWhitespace_AfterCRLF else WantsWhitespace)"
| "b64_scanner (B64LF _) = WantsLF"
| "b64_scanner (B64Delimiter _) = WantsDelimiter"
| "b64_scanner B64FirstDash = WantsFirstDash"
| "b64_scanner B64SecondDash = WantsSecondDash"
| "b64_scanner B64Done = WantsSecondDash"

fun b64_bits :: "b64_state \<Rightarrow> byte option" where
  "b64_bits (B64Byte2 x) = Some x"
| "b64_bits (B64Byte3 x) = Some x"
| "b64_bits (B64Byte4 x) = Some x"
| "b64_bits _ = None"

fun b64_breakable :: "b64_state \<Rightarrow> bool" where
  "b64_breakable (B64Byte1 _) = True"
| "b64_breakable (B64Byte2 _) = True"
| "b64_breakable (B64Byte3 _) = True"
| "b64_breakable (B64Byte4 _) = True"
| "b64_breakable (B64End _) = True"
| "b64_breakable _ = False"

definition b64_holds :: "b64_state \<Rightarrow> byte \<Rightarrow> bool" where
  "b64_holds a x \<longleftrightarrow> (case b64_bits a of None \<Rightarrow> True | Some y \<Rightarrow> x = y)"

definition b64_rel :: "bytes \<Rightarrow> b64_state \<Rightarrow> ('rk, 'hc) FwdLockConv_Session \<Rightarrow> bool" where
  "b64_rel d a s \<longleftrightarrow>
     delimiter_ok d \<and> delimiter s = d \<and>
     parserState s = (if a = B64Done then Done else WantsBase64EncodedData) \<and>
     (a = B64Done \<or> scannerState s = b64_scanner a) \<and> b64_holds a (sesCh s) \<and>
     (case a of
        B64LF a' \<Rightarrow> b64_breakable a' \<and> savedScannerState s = b64_scanner a' \<and> b64_holds a' (sesCh s)
      | B64Delimiter k \<Rightarrow> delimiterMatchPos s = k \<and> 3 \<le> k \<and> k < length d
      | _ \<Rightarrow> True)"

lemma PushChar_base64:
  "parserState s = WantsBase64EncodedData \<Longrightarrow>
   FwdLockConv_PushChar c s ch out h =
     (let s0 = s\<lparr>numCharsConsumed := numCharsConsumed s + 1\<rparr> in
        if ch = LF \<and> scannerState s \<noteq> WantsLF
        then and_then (FwdLockConv_MatchBase64EncodedData c s0 CR out h)
               (\<lambda>s1. FwdLockConv_MatchBase64EncodedData c s1 ch)
        else FwdLockConv_MatchBase64EncodedData c s0 ch out h)"
  by (auto simp: FwdLockConv_PushChar_def Let_def and_then_def)

lemma base64_char_facts [simp]:
  "\<not> FwdLockConv_IsBase64Char CR" "\<not> FwdLockConv_IsBase64Char LF"
  "\<not> FwdLockConv_IsBase64Char DASH" "\<not> FwdLockConv_IsBase64Char EQUALS"
  "\<not> FwdLockConv_IsWhitespace CR" "\<not> FwdLockConv_IsWhitespace LF"
  "\<not> FwdLockConv_IsWhitespace DASH" "\<not> FwdLockConv_IsWhitespace EQUALS"
  by (simp_all add: FwdLockConv_IsBase64Char_def FwdLockConv_IsWhitespace_def base64Values_def)

text \<open>The states that finish an output byte.\<close>

lemma Base64Emit_flush:
  assumes "FwdLockConv_FlushBytes c s [sesCh s OR low] out h = Some (status, s1, out1, h1)"
  shows "\<exists>t. FwdLockConv_Base64Emit c (s\<lparr>numCharsConsumed := n\<rparr>) low high st out h
        = Some (status, if status = Status_OK then t\<lparr>sesCh := high, scannerState := st\<rparr> else t, out1, h1)
      \<and> scan_frame s1 t \<and> parserState t = parserState s \<and> delimiter t = delimiter s
      \<and> numCharsConsumed t = n"
proof -
  let ?t0 = "s\<lparr>numCharsConsumed := n, sesCh := sesCh s OR low\<rparr>"
  have f: "scan_frame s ?t0" by (intro scan_frame_updI scan_frame_refl)
  from assms have w: "FwdLockConv_WriteEncryptedChar c s (sesCh s OR low) out h
      = Some (status, s1, out1, h1)"
    by (simp only: FlushBytes_singleton)
  from WriteEncryptedChar_scan [OF f w] obtain t where
    t: "FwdLockConv_WriteEncryptedChar c ?t0 (sesCh s OR low) out h = Some (status, t, out1, h1)"
      "scan_frame s1 t" "write_frame ?t0 t" by blast
  from write_frame_fields [OF t(3)] t(1,2) show ?thesis
    by (auto simp: FwdLockConv_Base64Emit_def Let_def)
qed

text \<open>Characters that release nothing.\<close>

lemma b64_accept_quiet:
  assumes rel: "b64_rel d a s" and st: "b64_step d a ch = Some (a', [])"
  shows "\<exists>s2. FwdLockConv_PushChar c s ch out h = Some (Status_OK, s2, out, h)
     \<and> b64_rel d a' s2 \<and> scan_frame s s2 \<and> numCharsConsumed s2 = numCharsConsumed s + 1"
proof (cases a)
  case (B64Delimiter k)
  with rel st delimiter_ok_nth [of d] show ?thesis
    by (auto simp: b64_rel_def b64_holds_def PushChar_base64 FwdLockConv_MatchBase64EncodedData_def Let_def
        split: if_splits intro!: scan_frame_updI)
next
  case B64Done
  with rel st show ?thesis
    by (auto simp: b64_rel_def b64_holds_def FwdLockConv_PushChar_def Let_def intro!: scan_frame_updI)
next
  case (B64LF x)
  with rel st show ?thesis
    by (cases x)
      (auto simp: b64_rel_def b64_holds_def PushChar_base64 FwdLockConv_MatchBase64EncodedData_def Let_def
        split: if_splits intro!: scan_frame_updI)
qed (use rel st in \<open>auto simp: b64_rel_def b64_holds_def b64_skip_def PushChar_base64
       FwdLockConv_MatchBase64EncodedData_def FwdLockConv_MatchBase64Quantum_def
       FwdLockConv_MatchCloseDash_def delimiter_ok_def Let_def
       split: if_splits intro!: scan_frame_updI\<close>)

text \<open>Characters that finish a byte.\<close>

lemma b64_emit:
  assumes rel: "b64_rel d a s" and st: "b64_step d a ch = Some (a', em)" and em: "em \<noteq> []"
  obtains low high sc where
    "em = [sesCh s OR low]" "b64_scanner a' = sc" "parserState s = WantsBase64EncodedData"
    "a' \<noteq> B64Done" "\<And>k. a' \<noteq> B64Delimiter k" "\<And>b. a' \<noteq> B64LF b" "b64_holds a' high"
    "\<And>c out h. FwdLockConv_PushChar c s ch out h
       = FwdLockConv_Base64Emit c (s\<lparr>numCharsConsumed := numCharsConsumed s + 1\<rparr>) low high sc out h"
proof -
  have ch: "FwdLockConv_IsBase64Char ch"
    using st em by (cases a) (auto simp: b64_skip_def split: if_splits)
  then have nLF: "ch \<noteq> LF" by auto
  show thesis
  proof (cases a)
    case (B64Byte2 x)
    show thesis
      by (rule that [of "drop_bit 4 (FwdLockConv_Base64Value ch)" WantsByte3
            "push_bit 4 (FwdLockConv_Base64Value ch)"])
        (use B64Byte2 rel st ch nLF in \<open>auto simp: b64_rel_def b64_holds_def PushChar_base64
           FwdLockConv_MatchBase64EncodedData_def FwdLockConv_MatchBase64Quantum_def Let_def\<close>)
  next
    case (B64Byte3 x)
    show thesis
      by (rule that [of "drop_bit 2 (FwdLockConv_Base64Value ch)" WantsByte4
            "push_bit 6 (FwdLockConv_Base64Value ch)"])
        (use B64Byte3 rel st ch nLF in \<open>auto simp: b64_rel_def b64_holds_def PushChar_base64
           FwdLockConv_MatchBase64EncodedData_def FwdLockConv_MatchBase64Quantum_def Let_def\<close>)
  next
    case (B64Byte4 x)
    show thesis
      by (rule that [of "FwdLockConv_Base64Value ch" WantsByte1
            "sesCh s OR FwdLockConv_Base64Value ch"])
        (use B64Byte4 rel st ch nLF in \<open>auto simp: b64_rel_def b64_holds_def PushChar_base64
           FwdLockConv_MatchBase64EncodedData_def FwdLockConv_MatchBase64Quantum_def Let_def\<close>)
  qed (use st em in \<open>auto simp: b64_skip_def split: if_splits\<close>)
qed

lemma b64_accept_emit:
  assumes rel: "b64_rel d a s" and st: "b64_step d a ch = Some (a', em)" and em: "em \<noteq> []"
    and fl: "FwdLockConv_FlushBytes c s em out h = Some (Status_OK, s1, out1, h1)"
  shows "\<exists>s2. FwdLockConv_PushChar c s ch out h = Some (Status_OK, s2, out1, h1)
     \<and> b64_rel d a' s2 \<and> scan_frame s1 s2 \<and> numCharsConsumed s2 = numCharsConsumed s + 1"
proof -
  have d: "delimiter_ok d" "delimiter s = d" using rel by (simp_all add: b64_rel_def)
  obtain low high sc where
    e: "em = [sesCh s OR low]" "b64_scanner a' = sc" "parserState s = WantsBase64EncodedData"
      "a' \<noteq> B64Done" "\<And>k. a' \<noteq> B64Delimiter k" "\<And>b. a' \<noteq> B64LF b" "b64_holds a' high"
      "\<And>c out h. FwdLockConv_PushChar c s ch out h
        = FwdLockConv_Base64Emit c (s\<lparr>numCharsConsumed := numCharsConsumed s + 1\<rparr>) low high sc out h"
    by (rule b64_emit [OF rel st em]) blast
  from Base64Emit_flush [OF fl [unfolded e(1)], of "numCharsConsumed s + 1" high sc] obtain t where
    t: "FwdLockConv_PushChar c s ch out h
        = Some (Status_OK, t\<lparr>sesCh := high, scannerState := sc\<rparr>, out1, h1)"
      "scan_frame s1 t" "parserState t = parserState s" "delimiter t = delimiter s"
      "numCharsConsumed t = numCharsConsumed s + 1"
    unfolding e(8) by auto
  have "b64_rel d a' (t\<lparr>sesCh := high, scannerState := sc\<rparr>)"
    using t d e by (auto simp: b64_rel_def split: b64_state.split)
  with t show ?thesis by (auto intro!: scan_frame_updI)
qed

lemma b64_fail:
  assumes rel: "b64_rel d a s" and st: "b64_step d a ch = Some (a', em)"
    and fl: "FwdLockConv_FlushBytes c s em out h = Some (status, s1, out1, h1)"
    and bad: "status \<noteq> Status_OK"
  shows "\<exists>s2. FwdLockConv_PushChar c s ch out h = Some (status, s2, out1, h1)"
proof -
  have em: "em \<noteq> []" using fl bad by auto
  obtain low high sc where
    e: "em = [sesCh s OR low]" "\<And>c out h. FwdLockConv_PushChar c s ch out h
        = FwdLockConv_Base64Emit c (s\<lparr>numCharsConsumed := numCharsConsumed s + 1\<rparr>) low high sc out h"
    by (rule b64_emit [OF rel st em]) blast
  from Base64Emit_flush [OF fl [unfolded e(1)], of "numCharsConsumed s + 1" high sc] bad
  show ?thesis unfolding e(2) by auto
qed

lemma b64_accept:
  assumes "b64_rel d a s" "b64_step d a ch = Some (a', em)"
    "FwdLockConv_FlushBytes c s em out h = Some (Status_OK, s1, out1, h1)"
  shows "\<exists>s2. FwdLockConv_PushChar c s ch out h = Some (Status_OK, s2, out1, h1)
     \<and> b64_rel d a' s2 \<and> scan_frame s1 s2 \<and> numCharsConsumed s2 = numCharsConsumed s + 1"
proof (cases "em = []")
  case True
  with assms show ?thesis using b64_accept_quiet by fastforce
next
  case False
  then show ?thesis by (rule b64_accept_emit [OF assms(1,2) _ assms(3)])
qed

lemma b64_reject:
  assumes rel: "b64_rel d a s" and st: "b64_step d a ch = None"
  shows "\<exists>s2. FwdLockConv_PushChar c s ch out h = Some (Status_SyntaxError, s2, out, h)
     \<and> numCharsConsumed s2 = numCharsConsumed s + 1"
proof (cases a)
  case (B64Delimiter k)
  with rel st delimiter_ok_nth(2) [of d k] show ?thesis
    by (auto simp: b64_rel_def PushChar_base64 FwdLockConv_MatchBase64EncodedData_def Let_def
        split: if_splits)
next
  case (B64LF x)
  with rel st show ?thesis
    by (cases x)
      (auto simp: b64_rel_def PushChar_base64 FwdLockConv_MatchBase64EncodedData_def Let_def
        split: if_splits)
qed (use rel st in \<open>auto simp: b64_rel_def b64_skip_def PushChar_base64
       FwdLockConv_MatchBase64EncodedData_def FwdLockConv_MatchBase64Quantum_def
       FwdLockConv_MatchCloseDash_def Let_def split: if_splits\<close>)

interpretation b64: body_scanner c "b64_step d" "b64_rel d"
  for c d
  by unfold_locales (blast intro: b64_accept b64_fail b64_reject)+

section \<open>A reference encoder\<close>

definition base64Alphabet :: bytes where
  "base64Alphabet = bytes_of ''ABCDEFGHIJKLMNOPQRSTUVWXYZabcdefghijklmnopqrstuvwxyz0123456789+/''"

definition base64_char :: "byte \<Rightarrow> byte" where
  "base64_char v = base64Alphabet ! unat v"

fun base64_encode :: "bytes \<Rightarrow> bytes" where
  "base64_encode [] = []"
| "base64_encode [x] =
     [base64_char (drop_bit 2 x), base64_char (push_bit 4 x AND 48), EQUALS, EQUALS]"
| "base64_encode [x, y] =
     [base64_char (drop_bit 2 x), base64_char ((push_bit 4 x AND 48) OR drop_bit 4 y),
      base64_char (push_bit 2 y AND 60), EQUALS]"
| "base64_encode (x # y # z # bs) =
     [base64_char (drop_bit 2 x), base64_char ((push_bit 4 x AND 48) OR drop_bit 4 y),
      base64_char ((push_bit 2 y AND 60) OR drop_bit 6 z), base64_char (z AND 63)]
     @ base64_encode bs"

lemma base64_char_table:
  "list_all (\<lambda>n. FwdLockConv_IsBase64Char (base64_char (of_nat n)) \<and>
      FwdLockConv_Base64Value (base64_char (of_nat n)) = of_nat n) [0 ..< 64]"
  by (simp add: base64_char_def base64Alphabet_def FwdLockConv_IsBase64Char_def base64Values_def
      FwdLockConv_Base64Value_def upt_rec)

lemma base64_char_value:
  assumes "v < 64"
  shows "FwdLockConv_IsBase64Char (base64_char v)" "FwdLockConv_Base64Value (base64_char v) = v"
proof -
  have "unat v \<in> set [0 ..< 64]" using assms by (simp add: word_less_nat_alt)
  then show "FwdLockConv_IsBase64Char (base64_char v)" "FwdLockConv_Base64Value (base64_char v) = v"
    using base64_char_table unfolding list_all_iff by (metis of_nat_unat ucast_id)+
qed

lemma sextet_less:
  "drop_bit 2 (x :: byte) < 64" "(x :: byte) AND 63 < 64"
  "(push_bit 4 (x :: byte) AND 48) < 64" "(push_bit 4 (x :: byte) AND 48) OR drop_bit 4 y < 64"
  "(push_bit 2 (x :: byte) AND 60) < 64" "(push_bit 2 (x :: byte) AND 60) OR drop_bit 6 y < 64"
  by (rule byte_less_64; simp add: byte_bits)+

definition base64_end :: "b64_state \<Rightarrow> bool" where
  "base64_end a \<longleftrightarrow> a = B64Byte1 False \<or> a = B64End False"

lemma base64_char_step:
  assumes "v < 64"
  shows "b64_step d (B64Byte1 br) (base64_char v) = Some (B64Byte2 (push_bit 2 v), [])"
    "b64_step d (B64Byte2 x) (base64_char v) = Some (B64Byte3 (push_bit 4 v), [x OR drop_bit 4 v])"
    "b64_step d (B64Byte3 x) (base64_char v) = Some (B64Byte4 (push_bit 6 v), [x OR drop_bit 2 v])"
    "b64_step d (B64Byte4 x) (base64_char v) = Some (B64Byte1 False, [x OR v])"
  by (simp_all add: base64_char_value [OF assms])

lemma base64_equals_step:
  "b64_step d (B64Byte3 x) EQUALS = Some (B64Padding, [])"
  "b64_step d (B64Byte4 x) EQUALS = Some (B64End False, [])"
  "b64_step d B64Padding EQUALS = Some (B64End False, [])"
  by (simp_all add: b64_skip_def)

lemmas base64_steps = base64_equals_step sextet_less [THEN base64_char_step(1)]
  sextet_less [THEN base64_char_step(2)] sextet_less [THEN base64_char_step(3)]
  sextet_less [THEN base64_char_step(4)]

lemma base64_encode_run:
  "\<exists>a'. machine_run (b64_step d) (B64Byte1 False) (base64_encode bs) = Some (a', bs) \<and> base64_end a'"
proof (induction bs rule: base64_encode.induct)
  case (4 x y z bs)
  then show ?case
    by (auto simp del: b64_step.simps simp: base64_steps; simp add: byte_bits)
next
  case (2 x)
  show ?case
    by (auto simp del: b64_step.simps simp: base64_steps base64_end_def; simp add: byte_bits)
next
  case (3 x y)
  show ?case
    by (auto simp del: b64_step.simps simp: base64_steps base64_end_def; simp add: byte_bits)
qed (simp add: base64_end_def)

section \<open>Layout\<close>

text \<open>
  A text lays out an encoding when it has white space or line breaks in front of some
  characters (not of a padding character) or at the end.
\<close>

definition layout_gaps :: "bytes list" where
  "layout_gaps = [[SP], [TAB], [LF], [CR, LF]]"

inductive laid_out :: "bytes \<Rightarrow> bytes \<Rightarrow> bool" where
  laid_out_Nil: "laid_out [] []"
| laid_out_char: "laid_out e t \<Longrightarrow> laid_out (x # e) (x # t)"
| laid_out_gap: "laid_out e t \<Longrightarrow> g \<in> set layout_gaps \<Longrightarrow> e = [] \<or> hd e \<noteq> EQUALS \<Longrightarrow>
    laid_out e (g @ t)"

fun b64_mute :: "b64_state \<Rightarrow> b64_state" where
  "b64_mute (B64Byte1 _) = B64Byte1 False"
| "b64_mute (B64End _) = B64End False"
| "b64_mute a = a"

definition b64_data :: "b64_state \<Rightarrow> bool" where
  "b64_data a \<longleftrightarrow> b64_breakable a \<or> a = B64Padding"

lemma layout_gap_run:
  assumes "g \<in> set layout_gaps" "b64_breakable b"
  shows "\<exists>b'. machine_run (b64_step d) b g = Some (b', []) \<and> b64_mute b' = b64_mute b"
  using assms
  by (cases b) (auto simp: layout_gaps_def b64_skip_def FwdLockConv_IsWhitespace_def
      FwdLockConv_IsBase64Char_def base64Values_def)

lemma b64_mute_step:
  assumes "b64_mute b = b64_mute a" "x \<in> {EQUALS} \<union> {x. FwdLockConv_IsBase64Char x}" "b64_data a"
    "b64_step d a x = Some (a', em)"
  shows "b64_step d b x = Some (a', em)" "b64_data a'"
  using assms
  by (cases a; simp add: b64_data_def; cases b; auto simp: b64_skip_def split: if_splits)+

lemma b64_data_breakable:
  assumes "b64_data a" "b64_step d a x = Some r" "x \<noteq> EQUALS"
  shows "b64_breakable a"
  using assms by (cases a) (auto simp: b64_data_def)

lemma b64_mute_breakable: "b64_mute b = b64_mute a \<Longrightarrow> b64_breakable b = b64_breakable a"
  by (cases a; cases b) auto

lemma laid_out_run:
  "laid_out e t \<Longrightarrow> set e \<subseteq> {EQUALS} \<union> {x. FwdLockConv_IsBase64Char x} \<Longrightarrow>
   b64_data a \<Longrightarrow> b64_mute b = b64_mute a \<Longrightarrow>
   machine_run (b64_step d) a e = Some (a', em) \<Longrightarrow> b64_breakable a' \<Longrightarrow>
   \<exists>b'. machine_run (b64_step d) b t = Some (b', em) \<and> b64_mute b' = b64_mute a'"
proof (induction arbitrary: a b em rule: laid_out.induct)
  case (laid_out_char e t x)
  from laid_out_char.prems(4) obtain a1 em1 em2 where
    1: "b64_step d a x = Some (a1, em1)" "machine_run (b64_step d) a1 e = Some (a', em2)"
      "em = em1 @ em2"
    by (auto split: option.splits)
  have x: "x \<in> {EQUALS} \<union> {x. FwdLockConv_IsBase64Char x}" and e: "set e \<subseteq> {EQUALS} \<union> {x. FwdLockConv_IsBase64Char x}"
    using laid_out_char.prems(1) by auto
  note st = b64_mute_step [OF laid_out_char.prems(3) x laid_out_char.prems(2) 1(1)]
  from laid_out_char.IH [OF e st(2) refl 1(2) laid_out_char.prems(5)] obtain b' where
    "machine_run (b64_step d) a1 t = Some (b', em2)" "b64_mute b' = b64_mute a'" by blast
  with st(1) 1(3) show ?case by auto
next
  case (laid_out_gap e t g)
  have "b64_breakable a"
  proof (cases e)
    case Nil
    with laid_out_gap.prems show ?thesis by simp
  next
    case (Cons x e')
    with laid_out_gap.prems(4) obtain r where "b64_step d a x = Some r"
      by (auto split: option.splits)
    with b64_data_breakable laid_out_gap.prems(2) laid_out_gap.hyps(3) Cons show ?thesis by auto
  qed
  then have "b64_breakable b" using b64_mute_breakable laid_out_gap.prems(3) by blast
  from layout_gap_run [OF laid_out_gap.hyps(2) this] obtain b1 where
    b1: "machine_run (b64_step d) b g = Some (b1, [])" "b64_mute b1 = b64_mute b" by blast
  with laid_out_gap.IH [of a b1] laid_out_gap.prems show ?case
    by (auto simp: machine_run_append)
qed auto

section \<open>A whole body\<close>

lemma base64_encode_chars: "set (base64_encode bs) \<subseteq> {EQUALS} \<union> {x. FwdLockConv_IsBase64Char x}"
  by (induction bs rule: base64_encode.induct) (auto simp: base64_char_value sextet_less)

lemma delimiter_ok_drop2:
  assumes "delimiter_ok d"
  shows "drop 2 d = DASH # drop 3 d" "\<And>i. 2 \<le> i \<Longrightarrow> i < length d \<Longrightarrow> d ! i \<noteq> LF"
proof -
  have d: "4 < length d" "take 4 d = [CR, LF, DASH, DASH]" "LF \<notin> set (drop 2 d)"
    using assms by (auto simp: delimiter_ok_def)
  from d(1) have "d ! 2 = take 4 d ! 2" by simp
  then have "d ! 2 = DASH" unfolding d(2) by simp
  with d(1) show "drop 2 d = DASH # drop 3 d"
    using Cons_nth_drop_Suc [of 2 d] by simp
  fix i assume i: "2 \<le> i" "i < length d"
  show "d ! i \<noteq> LF"
  proof
    assume "d ! i = LF"
    moreover have "2 + (i - 2) = i" using i by simp
    ultimately have "drop 2 d ! (i - 2) = LF" "i - 2 < length (drop 2 d)"
      using i by (simp_all only: nth_drop less_imp_le_nat length_drop)
    then have "LF \<in> set (drop 2 d)" by (metis nth_mem)
    with d(3) show False ..
  qed
qed

lemma b64_run_delimiter:
  "delimiter_ok d \<Longrightarrow> 2 \<le> k \<Longrightarrow> k < length d \<Longrightarrow>
   machine_run (b64_step d) (B64Delimiter k) (drop k d) = Some (B64FirstDash, [])"
proof (induction "length d - k" arbitrary: k)
  case (Suc m)
  have dr: "drop k d = d ! k # drop (Suc k) d"
    using Suc.prems(3) by (simp add: Cons_nth_drop_Suc)
  have nlf: "d ! k \<noteq> LF" using delimiter_ok_drop2(2) Suc.prems by blast
  show ?case
  proof (cases "Suc k = length d")
    case False
    with Suc.hyps(2) Suc.prems have "machine_run (b64_step d) (B64Delimiter (Suc k)) (drop (Suc k) d)
        = Some (B64FirstDash, [])"
      by (intro Suc.hyps(1)) auto
    with False nlf show ?thesis by (simp add: dr)
  qed (simp add: dr nlf)
qed simp

lemma b64_run_Done: "machine_run (b64_step d) B64Done xs = Some (B64Done, [])"
  by (induction xs) auto

lemma b64_run_message:
  assumes d: "delimiter_ok d" and lay: "laid_out (base64_encode bs) lines"
    and eol: "eol \<in> set [[LF], [CR, LF]]"
  shows "machine_run (b64_step d) (B64Byte1 False) (lines @ eol @ drop 2 d @ DASH # DASH # rest)
    = Some (B64Done, bs)"
proof -
  from base64_encode_run [of d bs] obtain a' where
    a: "machine_run (b64_step d) (B64Byte1 False) (base64_encode bs) = Some (a', bs)" "base64_end a'"
    by blast
  have "b64_data (B64Byte1 False)" by (simp add: b64_data_def)
  moreover have "b64_breakable a'" using a(2) by (auto simp: base64_end_def)
  ultimately obtain b where
    b: "machine_run (b64_step d) (B64Byte1 False) lines = Some (b, bs)" "b64_mute b = b64_mute a'"
    using laid_out_run [OF lay base64_encode_chars _ refl a(1)] by blast
  have len: "3 < length d" using d by (simp add: delimiter_ok_def)
  define tail where "tail = drop 3 d @ DASH # DASH # rest"
  have tl: "machine_run (b64_step d) (B64Delimiter 3) tail = Some (B64Done, [])"
    using b64_run_delimiter [OF d, of 3] len
    by (simp add: tail_def machine_run_append b64_run_Done)
  have "machine_run (b64_step d) b (eol @ DASH # tail) = Some (B64Done, [])"
    using a(2) b(2) eol tl
    by (cases b) (auto simp: base64_end_def b64_skip_def)
  moreover have "eol @ drop 2 d @ DASH # DASH # rest = eol @ DASH # tail"
    using delimiter_ok_drop2(1) [OF d] by (simp add: tail_def)
  ultimately show ?thesis using b(1) by (simp add: machine_run_append)
qed

lemma b64_rel_start:
  "b64_rel d (B64Byte1 False) s \<longleftrightarrow>
     delimiter_ok d \<and> delimiter s = d \<and> parserState s = WantsBase64EncodedData \<and>
     scannerState s = WantsByte1"
  by (auto simp: b64_rel_def b64_holds_def)

end
