(* ===== verification/FwdLockConvApi.thy ===== *)
theory FwdLockConvApi
  imports FwdLockConv
begin

text \<open>
  The entry points of the converter (\<open>FwdLockConv.c\<close>): the table of sessions, opening and
  closing a session, pushing data, and the pull mode driver \<open>FwdLockConv_ConvertOpenFile\<close>
  over read, write and seek functions. The global state is a record; NULL arguments are
  \<open>None\<close>. \<open>fresh\<close> is the content of the memory \<open>malloc\<close> returns for a session, so a field
  that \<open>FwdLockConv_OpenSession\<close> does not set keeps whatever it held.
\<close>

section \<open>Global state\<close>

record ('rk, 'hc) convworld =
  sessionPtrs :: "('rk, 'hc) FwdLockConv_Session option list"
  convGlue :: "'rk fwdglue"
  convEnv :: fwdenv
  convHeap :: heap

section \<open>The session table\<close>

fun first_free :: "'a option list \<Rightarrow> nat option" where
  "first_free [] = None"
| "first_free (None # xs) = Some 0"
| "first_free (Some x # xs) = map_option Suc (first_free xs)"

definition FwdLockConv_AcquireSession ::
  "('rk, 'hc) FwdLockConv_Session \<Rightarrow> ('rk, 'hc) FwdLockConv_Session option list \<Rightarrow> heap
     \<Rightarrow> int \<times> ('rk, 'hc) FwdLockConv_Session option list \<times> heap" where
  "FwdLockConv_AcquireSession fresh tbl h =
     (case first_free (take MAX_NUM_SESSIONS tbl) of
        None \<Rightarrow> (-1, tbl, h)
      | Some i \<Rightarrow>
          (case alloc h of (got, h') \<Rightarrow>
             if got then (int i, tbl[i := Some fresh], h') else (-1, tbl, h')))"

definition FwdLockConv_IsValidSession ::
  "int \<Rightarrow> ('rk, 'hc) FwdLockConv_Session option list \<Rightarrow> bool" where
  "FwdLockConv_IsValidSession sessionId tbl \<longleftrightarrow>
     0 \<le> sessionId \<and> sessionId < int MAX_NUM_SESSIONS \<and> tbl ! nat sessionId \<noteq> None"

definition FwdLockConv_ReleaseSession ::
  "int \<Rightarrow> ('rk, 'hc) FwdLockConv_Session option list
     \<Rightarrow> ('rk, 'hc) FwdLockConv_Session option list option" where
  "FwdLockConv_ReleaseSession sessionId tbl =
     (if FwdLockConv_IsValidSession sessionId tbl then Some (tbl[nat sessionId := None]) else None)"

section \<open>Opening a session\<close>

text \<open>
  \<open>FwdLockConv_MakeKeys\<close> is the part of \<open>FwdLockConv_OpenSession\<close> between the allocation of
  the encrypted session key and the test of \<open>status\<close>: random session key, its encryption,
  key derivation.
\<close>

definition FwdLockConv_MakeKeys ::
  "('rk, 'hc) crypto \<Rightarrow> ('rk, 'hc) FwdLockConv_Session \<Rightarrow> 'rk fwdglue \<Rightarrow> fwdenv \<Rightarrow> heap
     \<Rightarrow> (FwdLockConv_Status \<times> ('rk, 'hc) FwdLockConv_Session \<times> 'rk fwdglue \<times> fwdenv \<times> heap) option"
  where
  "FwdLockConv_MakeKeys c s g env h =
     (case FwdLockGlue_GetRandomNumber KEY_SIZE env of
        (None, env1) \<Rightarrow> Some (Status_RandomNumberGenerationFailed, s, g, env1, h)
      | (Some key, env1) \<Rightarrow>
          (case FwdLockGlue_EncryptKey c key (FwdLockGlue_GetEncryptedKeyLength KEY_SIZE) g env1 h of
             None \<Rightarrow> None
           | Some (None, g2, env2, h2) \<Rightarrow>
               Some (Status_KeyEncryptionFailed, s\<lparr>sessionKey := key\<rparr>, g2, env2, h2)
           | Some (Some ekey, g2, env2, h2) \<Rightarrow>
               (case FwdLockConv_DeriveKeys c (s\<lparr>sessionKey := key, pEncryptedSessionKey := ekey\<rparr>) h2 of
                  (status, s3, h3) \<Rightarrow> Some (status, s3, g2, env2, h3))))"

definition FwdLockConv_InitSession ::
  "('rk, 'hc) FwdLockConv_Session \<Rightarrow> ('rk, 'hc) FwdLockConv_Session" where
  "FwdLockConv_InitSession s =
     s\<lparr>sessionKey := replicate KEY_SIZE 0,
       counter := take AES_BLOCK_SIZE (pEncryptedSessionKey s),
       parserState := WantsOpenDelimiter,
       scannerState := WantsFirstDash,
       numCharsConsumed := 0,
       delimiterMatchPos := 0,
       mimeHeaderName := nullString,
       contentType := nullString,
       contentTransferEncoding := CTE_Undefined,
       keyStreamIndex := -1\<rparr>"

definition FwdLockConv_OpenSession ::
  "('rk, 'hc) crypto \<Rightarrow> ('rk, 'hc) FwdLockConv_Session \<Rightarrow> bool
     \<Rightarrow> FwdLockConv_ConvertData_Output option \<Rightarrow> ('rk, 'hc) convworld
     \<Rightarrow> (FwdLockConv_Status \<times> int \<times> FwdLockConv_ConvertData_Output option
          \<times> ('rk, 'hc) convworld) option" where
  "FwdLockConv_OpenSession c fresh idGiven pOutput w =
     (case pOutput of
        None \<Rightarrow> Some (Status_InvalidArgument, -1, None, w)
      | Some out \<Rightarrow>
     if \<not> idGiven then Some (Status_InvalidArgument, -1, Some out, w)
     else
       (case FwdLockConv_AcquireSession fresh (sessionPtrs w) (convHeap w) of
          (sid, tbl, h) \<Rightarrow>
            if sid < 0 then Some (Status_TooManySessions, sid, Some out, w\<lparr>convHeap := h\<rparr>)
            else
              (let release = (\<lambda>status g env h'.
                     (case FwdLockConv_ReleaseSession sid tbl of
                        None \<Rightarrow> None
                      | Some tbl' \<Rightarrow>
                          Some (status, -1, Some out,
                            w\<lparr>sessionPtrs := tbl', convGlue := g, convEnv := env, convHeap := h'\<rparr>)))
               in if FwdLockGlue_GetEncryptedKeyLength KEY_SIZE < AES_BLOCK_SIZE
                  then release Status_ProgramError (convGlue w) (convEnv w) h
                  else (case alloc h of (got, h1) \<Rightarrow>
                    if \<not> got then release Status_OutOfMemory (convGlue w) (convEnv w) h1
                    else (case FwdLockConv_MakeKeys c fresh (convGlue w) (convEnv w) h1 of
                            None \<Rightarrow> None
                          | Some (status, s, g, env, h2) \<Rightarrow>
                              if status \<noteq> Status_OK then release status g env h2
                              else Some (Status_OK, sid,
                                     Some (out\<lparr>pBuffer := None, errorPos := INVALID_OFFSET\<rparr>),
                                     w\<lparr>sessionPtrs := tbl[nat sid := Some (FwdLockConv_InitSession s)],
                                       convGlue := g, convEnv := env, convHeap := h2\<rparr>))))))"

section \<open>Converting data\<close>

definition FwdLockConv_ConvertBuffer ::
  "('rk, 'hc) crypto \<Rightarrow> ('rk, 'hc) FwdLockConv_Session \<Rightarrow> bytes
     \<Rightarrow> FwdLockConv_ConvertData_Output \<Rightarrow> heap \<Rightarrow> ('rk, 'hc) conv_step" where
  "FwdLockConv_ConvertBuffer c s buf out h =
     (case FwdLockConv_PushChars c (s\<lparr>dataOffset := 0, numDataBytes := 0\<rparr>) buf
             (out\<lparr>outBytes := []\<rparr>) h of
        None \<Rightarrow> None
      | Some (status, s1, out1, h1) \<Rightarrow>
          Some (if status = Status_OK
                then (status,
                      s1\<lparr>signingContext := HMAC_Update c (signingContext s1)
                           (take (numDataBytes s1) (drop (dataOffset s1) (outBytes out1)))\<rparr>,
                      out1, h1)
                else if status = Status_SyntaxError
                then (status, s1, out1\<lparr>errorPos := numCharsConsumed s1\<rparr>, h1)
                else (status, s1, out1, h1)))"

definition FwdLockConv_ConvertData ::
  "('rk, 'hc) crypto \<Rightarrow> int \<Rightarrow> bytes option \<Rightarrow> FwdLockConv_ConvertData_Output option
     \<Rightarrow> ('rk, 'hc) convworld
     \<Rightarrow> (FwdLockConv_Status \<times> FwdLockConv_ConvertData_Output option
          \<times> ('rk, 'hc) convworld) option" where
  "FwdLockConv_ConvertData c sessionId buffer pOutput w =
     (case (buffer, pOutput) of
        (Some buf, Some out) \<Rightarrow>
          (if \<not> FwdLockConv_IsValidSession sessionId (sessionPtrs w)
           then Some (Status_InvalidArgument, pOutput, w)
           else (case FwdLockConv_ConvertBuffer c (the (sessionPtrs w ! nat sessionId)) buf out
                        (convHeap w) of
                   None \<Rightarrow> None
                 | Some (status, s, out1, h) \<Rightarrow>
                     Some (status, Some out1,
                       w\<lparr>sessionPtrs := (sessionPtrs w)[nat sessionId := Some s], convHeap := h\<rparr>)))
      | _ \<Rightarrow> Some (Status_InvalidArgument, pOutput, w))"

section \<open>Closing a session\<close>

definition FwdLockConv_Sign ::
  "('rk, 'hc) crypto \<Rightarrow> ('rk, 'hc) FwdLockConv_Session
     \<Rightarrow> (FwdLockConv_Status \<times> bytes \<times> nat) option" where
  "FwdLockConv_Sign c s =
     (let dataSignature = HMAC_Final c (signingContext s);
          ctx = HMAC_Done c (signingContext s)
      in if length dataSignature \<noteq> SHA1_HASH_SIZE then Some (Status_ProgramError, dataSignature, 0)
         else (case ptr (contentType s) of
                 None \<Rightarrow> None
               | Some p \<Rightarrow>
                   if length p < strLength (contentType s) then None
                   else (let headerSignature =
                           HMAC_Final c
                             (HMAC_Update c
                               (HMAC_Update c
                                 (HMAC_Update c
                                   (HMAC_Update c (HMAC_Reinit c ctx) (topHeader s))
                                   (take (strLength (contentType s)) p))
                                 (pEncryptedSessionKey s))
                               dataSignature)
                         in if length headerSignature \<noteq> SHA1_HASH_SIZE
                            then Some (Status_ProgramError, dataSignature @ headerSignature, 0)
                            else Some (Status_OK, dataSignature @ headerSignature,
                                   TOP_HEADER_SIZE + strLength (contentType s)
                                     + length (pEncryptedSessionKey s)))))"

definition FwdLockConv_CloseSession ::
  "('rk, 'hc) crypto \<Rightarrow> int \<Rightarrow> FwdLockConv_ConvertData_Output option \<Rightarrow> ('rk, 'hc) convworld
     \<Rightarrow> (FwdLockConv_Status \<times> FwdLockConv_CloseSession_Output \<times> ('rk, 'hc) convworld) option"
  where
  "FwdLockConv_CloseSession c sessionId pOutput w =
     (let none = \<lparr>signatures = [], fileOffset = 0, closeErrorPos = INVALID_OFFSET\<rparr> in
      if \<not> FwdLockConv_IsValidSession sessionId (sessionPtrs w) \<or> pOutput = None
      then Some (Status_InvalidArgument, none, w)
      else
        (let s = the (sessionPtrs w ! nat sessionId);
             finish = (\<lambda>status closeOut.
               (case FwdLockConv_ReleaseSession sessionId (sessionPtrs w) of
                  None \<Rightarrow> None
                | Some tbl \<Rightarrow> Some (status, closeOut, w\<lparr>sessionPtrs := tbl\<rparr>)))
         in if parserState s \<noteq> Done
            then finish Status_SyntaxError (none\<lparr>closeErrorPos := numCharsConsumed s\<rparr>)
            else (case FwdLockConv_Sign c s of
                    None \<Rightarrow> None
                  | Some (status, sigs, off) \<Rightarrow>
                      finish status (none\<lparr>signatures := sigs, fileOffset := off\<rparr>))))"

section \<open>Pull mode\<close>

text \<open>
  The caller's functions. \<open>fpReadFunc\<close> answers with the entries of a list: the bytes read
  (none at the end of the file) or \<open>None\<close> for -1; the exhausted list is the end of the
  file. The output file stores what \<open>fpWriteFunc\<close> accepts, which an entry of \<open>writeLimits\<close>
  may cut short.
\<close>

record outfile =
  fileBytes :: bytes
  outPos :: nat
  writeLimits :: "nat option list"
  seekFails :: bool

definition fpWriteFunc :: "bytes \<Rightarrow> outfile \<Rightarrow> nat \<times> outfile" where
  "fpWriteFunc bs f =
     (let (limit, rest) = (case writeLimits f of [] \<Rightarrow> (None, []) | l # ls \<Rightarrow> (l, ls));
          put = (case limit of None \<Rightarrow> bs | Some n \<Rightarrow> take n bs)
      in (length put,
          f\<lparr>fileBytes := take (outPos f) (fileBytes f) @ put
                @ drop (outPos f + length put) (fileBytes f),
            outPos := outPos f + length put, writeLimits := rest\<rparr>))"

definition fpLSeekFunc :: "nat \<Rightarrow> outfile \<Rightarrow> bool \<times> outfile" where
  "fpLSeekFunc off f = (if seekFails f then (False, f) else (True, f\<lparr>outPos := off\<rparr>))"

text \<open>The read loop: the status with which it is left and \<open>*pErrorPos\<close>.\<close>

fun FwdLockConv_ConvertLoop ::
  "('rk, 'hc) crypto \<Rightarrow> int \<Rightarrow> bytes option list \<Rightarrow> FwdLockConv_ConvertData_Output \<Rightarrow> int
     \<Rightarrow> outfile \<Rightarrow> ('rk, 'hc) convworld
     \<Rightarrow> (FwdLockConv_Status \<times> FwdLockConv_ConvertData_Output \<times> int \<times> outfile
          \<times> ('rk, 'hc) convworld) option" where
  "FwdLockConv_ConvertLoop c sid [] out epos f w = Some (Status_OK, out, epos, f, w)"
| "FwdLockConv_ConvertLoop c sid (None # rs) out epos f w =
     Some (Status_FileReadError, out, epos, f, w)"
| "FwdLockConv_ConvertLoop c sid (Some buf # rs) out epos f w =
     (if buf = [] then Some (Status_OK, out, epos, f, w)
      else if READ_BUFFER_SIZE < length buf then None
      else (case FwdLockConv_ConvertData c sid (Some buf) (Some out) w of
              Some (status, Some out1, w1) \<Rightarrow>
                if status \<noteq> Status_OK
                then Some (status, out1,
                           (if status = Status_SyntaxError then errorPos out1 else epos), f, w1)
                else if pBuffer out1 \<noteq> None \<and> 0 < length (outBytes out1)
                then (case fpWriteFunc (outBytes out1) f of (n, f1) \<Rightarrow>
                        if n \<noteq> length (outBytes out1)
                        then Some (Status_FileWriteError, out1, epos, f1, w1)
                        else FwdLockConv_ConvertLoop c sid rs out1 epos f1 w1)
                else FwdLockConv_ConvertLoop c sid rs out1 epos f w1
            | _ \<Rightarrow> None))"

definition FwdLockConv_WriteSignatures ::
  "FwdLockConv_CloseSession_Output \<Rightarrow> outfile \<Rightarrow> FwdLockConv_Status \<times> outfile" where
  "FwdLockConv_WriteSignatures closeOut f =
     (case fpLSeekFunc (fileOffset closeOut) f of (sought, f1) \<Rightarrow>
        if \<not> sought then (Status_FileSeekError, f1)
        else (case fpWriteFunc (signatures closeOut) f1 of (n, f2) \<Rightarrow>
                (if n \<noteq> FWD_LOCK_SIGNATURES_SIZE then Status_FileWriteError else Status_OK, f2)))"

definition FwdLockConv_ConvertOpenFile ::
  "('rk, 'hc) crypto \<Rightarrow> ('rk, 'hc) FwdLockConv_Session \<Rightarrow> FwdLockConv_ConvertData_Output
     \<Rightarrow> bytes option list option \<Rightarrow> outfile option \<Rightarrow> ('rk, 'hc) convworld
     \<Rightarrow> (FwdLockConv_Status \<times> int \<times> outfile option \<times> ('rk, 'hc) convworld) option" where
  "FwdLockConv_ConvertOpenFile c fresh out0 input output w =
     (case (input, output) of
        (Some reads, Some f) \<Rightarrow>
          (case alloc (convHeap w) of (got, h) \<Rightarrow>
             let w0 = w\<lparr>convHeap := h\<rparr> in
             if \<not> got then Some (Status_OutOfMemory, INVALID_OFFSET, Some f, w0)
             else
               (case FwdLockConv_OpenSession c fresh True (Some out0) w0 of
                  Some (status, sid, Some out, w1) \<Rightarrow>
                    if status \<noteq> Status_OK then Some (status, INVALID_OFFSET, Some f, w1)
                    else
                      (case FwdLockConv_ConvertLoop c sid reads out INVALID_OFFSET f w1 of
                         None \<Rightarrow> None
                       | Some (status2, out2, epos, f2, w2) \<Rightarrow>
                           (case FwdLockConv_CloseSession c sid (Some out2) w2 of
                              None \<Rightarrow> None
                            | Some (closeStatus, closeOut, w3) \<Rightarrow>
                                if status2 \<noteq> Status_OK then Some (status2, epos, Some f2, w3)
                                else if closeStatus \<noteq> Status_OK
                                then Some (closeStatus,
                                       (if closeStatus = Status_SyntaxError
                                        then closeErrorPos closeOut else epos), Some f2, w3)
                                else (case FwdLockConv_WriteSignatures closeOut f2 of
                                        (status4, f4) \<Rightarrow> Some (status4, epos, Some f4, w3))))
                | _ \<Rightarrow> None))
      | _ \<Rightarrow> Some (Status_InvalidArgument, INVALID_OFFSET, output, w))"

end
