(* ===== verification/FwdLockSafe.thy ===== *)
theory FwdLockSafe
  imports FwdLockBase64 FwdLockConvApi
begin

text \<open>
  The invariant of a converter session and its output buffer, for every outcome of the
  allocator: no access outside an allocation, no \<open>Status_ProgramError\<close>, and the invariant
  again whenever a step returns \<open>Status_OK\<close>. A failed \<open>realloc\<close> breaks it.
\<close>

section \<open>The invariant\<close>

definition string_ok :: "FwdLockConv_String \<Rightarrow> bool" where
  "string_ok str \<longleftrightarrow>
     0 < lengthIncrement str \<and> strLength str \<le> maxLength str \<and>
     (case ptr str of None \<Rightarrow> maxLength str = 0 | Some p \<Rightarrow> strLength str \<le> length p)"

definition delimiter_part :: "bytes \<Rightarrow> bool" where
  "delimiter_part d \<longleftrightarrow>
     4 \<le> length d \<and> length d \<le> MAX_DELIMITER_LENGTH \<and> take 4 d = [CR, LF, DASH, DASH] \<and>
     list_all FwdLockConv_IsBoundaryChar (drop 4 d)"

definition key_ok :: "('rk, 'hc) FwdLockConv_Session \<Rightarrow> bool" where
  "key_ok s \<longleftrightarrow>
     length (counter s) = AES_BLOCK_SIZE \<and> -1 \<le> keyStreamIndex s \<and>
     keyStreamIndex s < int AES_BLOCK_SIZE \<and>
     (0 \<le> keyStreamIndex s \<longrightarrow> length (keyStream s) = AES_BLOCK_SIZE)"

definition open_ok :: "('rk, 'hc) FwdLockConv_Session \<Rightarrow> bool" where
  "open_ok s \<longleftrightarrow>
     (case scannerState s of
        WantsFirstDash \<Rightarrow> True | WantsSecondDash \<Rightarrow> True | WantsCR \<Rightarrow> True | WantsLF \<Rightarrow> True
      | WantsBoundary \<Rightarrow> delimiter_part (delimiter s)
      | WantsWhitespace \<Rightarrow> delimiter_ok (delimiter s)
      | WantsBoundaryEnd \<Rightarrow> delimiter_ok (delimiter s)
      | _ \<Rightarrow> False)"

text \<open>The header states that need no string.\<close>

fun header_state :: "FwdLockConv_ScannerState \<Rightarrow> bool" where
  "header_state WantsMimeHeaderNameStart = True"
| "header_state WantsContentTypeStart = True"
| "header_state WantsContentType = True"
| "header_state WantsContentTransferEncodingStart = True"
| "header_state Wants_A_OR_I = True"
| "header_state Wants_N = True"
| "header_state Wants_A = True"
| "header_state Wants_R = True"
| "header_state Wants_Y = True"
| "header_state Wants_S = True"
| "header_state Wants_E = True"
| "header_state Wants_6 = True"
| "header_state Wants_4 = True"
| "header_state Wants_B = True"
| "header_state Wants_I = True"
| "header_state Wants_T = True"
| "header_state WantsContentTransferEncodingEnd = True"
| "header_state WantsMimeHeaderValueEnd = True"
| "header_state WantsCR = True"
| "header_state WantsLF = True"
| "header_state WantsMimeHeadersEnd = True"
| "header_state _ = False"

definition headers_ok :: "('rk, 'hc) FwdLockConv_Session \<Rightarrow> bool" where
  "headers_ok s \<longleftrightarrow>
     delimiter_ok (delimiter s) \<and>
     (header_state (scannerState s) \<or>
      scannerState s \<in> {WantsMimeHeaderName, WantsMimeHeaderNameEnd} \<and> ptr (mimeHeaderName s) \<noteq> None)"

definition binary_ok :: "('rk, 'hc) FwdLockConv_Session \<Rightarrow> bool" where
  "binary_ok s \<longleftrightarrow> (\<exists>a. bin_rel (delimiter s) a s \<and> a \<noteq> BinDone)"

definition base64_ok :: "('rk, 'hc) FwdLockConv_Session \<Rightarrow> bool" where
  "base64_ok s \<longleftrightarrow> (\<exists>a. b64_rel (delimiter s) a s \<and> a \<noteq> B64Done)"

text \<open>The bytes of the current call: a header, if it was written, and the data.\<close>

definition output_ok ::
  "('rk, 'hc) FwdLockConv_Session \<Rightarrow> FwdLockConv_ConvertData_Output \<Rightarrow> bool" where
  "output_ok s out \<longleftrightarrow>
     dataOffset s + numDataBytes s = length (outBytes out) \<and>
     (if parserState s \<in> {WantsOpenDelimiter, WantsMimeHeaders} then outBytes out = []
      else out_room s out \<and> ptr (contentType s) \<noteq> None)"

definition conv_inv ::
  "('rk, 'hc) FwdLockConv_Session \<Rightarrow> FwdLockConv_ConvertData_Output \<Rightarrow> bool" where
  "conv_inv s out \<longleftrightarrow>
     string_ok (mimeHeaderName s) \<and> string_ok (contentType s) \<and>
     length (pEncryptedSessionKey s) = FwdLockGlue_GetEncryptedKeyLength KEY_SIZE \<and>
     key_ok s \<and> output_ok s out \<and>
     (case parserState s of
        WantsOpenDelimiter \<Rightarrow> open_ok s \<and> delimiterMatchPos s = 0
      | WantsMimeHeaders \<Rightarrow> headers_ok s \<and> delimiterMatchPos s = 0
      | WantsBinaryEncodedData \<Rightarrow> binary_ok s
      | WantsBase64EncodedData \<Rightarrow> base64_ok s
      | Done \<Rightarrow> True)"

text \<open>What a safe step may return.\<close>

definition syntax_statuses :: "FwdLockConv_Status set" where
  "syntax_statuses = {Status_OK, Status_SyntaxError, Status_OutOfMemory, Status_UnsupportedFileFormat,
     Status_UnsupportedContentTransferEncoding}"

definition safe_step :: "('rk, 'hc) conv_step \<Rightarrow> bool" where
  "safe_step r \<longleftrightarrow>
     (case r of
        None \<Rightarrow> False
      | Some (status, s, out, h) \<Rightarrow>
          status \<in> syntax_statuses \<and> (status = Status_OK \<longrightarrow> conv_inv s out))"

lemma safe_step_Some [simp]:
  "safe_step (Some (status, s, out, h)) \<longleftrightarrow>
     status \<in> syntax_statuses \<and> (status = Status_OK \<longrightarrow> conv_inv s out)"
  by (simp add: safe_step_def)

lemma safe_step_and_then [inv_intros]:
  assumes "safe_step r"
    and "\<And>s out h. r = Some (Status_OK, s, out, h) \<Longrightarrow> conv_inv s out \<Longrightarrow> safe_step (k s out h)"
  shows "safe_step (and_then r k)"
  using assms by (auto simp: safe_step_def and_then_def split: option.splits)

section \<open>The open delimiter\<close>

lemma boundary_char_facts [simp]:
  "\<not> FwdLockConv_IsBoundaryChar CR" "\<not> FwdLockConv_IsBoundaryChar LF"
  "\<not> FwdLockConv_IsBoundaryChar TAB"
  by (simp_all add: FwdLockConv_IsBoundaryChar_def isalnum_def)

lemma delimiter_part_ok:
  assumes "delimiter_part d" "4 < length d"
  shows "delimiter_ok d"
proof -
  obtain b where d: "d = [CR, LF, DASH, DASH] @ b"
    using assms(1) append_take_drop_id [of 4 d] by (metis delimiter_part_def)
  with assms have "list_all FwdLockConv_IsBoundaryChar b" by (simp add: delimiter_part_def)
  then have "CR \<notin> set b" "LF \<notin> set b"
    by (auto simp: list_all_iff dest: bspec)
  then show ?thesis using assms d by (auto simp: delimiter_ok_def delimiter_part_def)
qed

lemma TrimSpaces_part:
  "delimiter_part d \<Longrightarrow> delimiter_part (FwdLockConv_TrimSpaces d)"
proof (induction d rule: FwdLockConv_TrimSpaces.induct)
  case (1 d)
  show ?case
  proof (cases "4 < length d \<and> last d = SP")
    case True
    with 1(2) have "delimiter_part (butlast d)"
      by (auto simp: delimiter_part_def take_butlast drop_butlast list_all_iff dest: in_set_butlastD)
    with 1(1) True show ?thesis by (subst FwdLockConv_TrimSpaces.simps) simp
  next
    case False
    with 1(2) show ?thesis by (subst FwdLockConv_TrimSpaces.simps) auto
  qed
qed

lemma MatchOpenDelimiter_safe:
  assumes "conv_inv s out" "parserState s = WantsOpenDelimiter"
    and m: "FwdLockConv_MatchOpenDelimiter s ch = (status, s')"
  shows "status \<in> {Status_OK, Status_SyntaxError} \<and> (status = Status_OK \<longrightarrow> conv_inv s' out)"
proof -
  have o: "open_ok s" using assms by (simp add: conv_inv_def)
  have trim: "scannerState s = WantsBoundary \<Longrightarrow> 4 < length (FwdLockConv_TrimSpaces (delimiter s)) \<Longrightarrow>
      delimiter_ok (FwdLockConv_TrimSpaces (delimiter s))"
    using o by (intro delimiter_part_ok TrimSpaces_part) (auto simp: open_ok_def)
  have snoc: "delimiter_part d \<Longrightarrow> length d < MAX_DELIMITER_LENGTH \<Longrightarrow> FwdLockConv_IsBoundaryChar ch \<Longrightarrow>
      delimiter_part (d @ [ch])" for d
    by (auto simp: delimiter_part_def list_all_iff)
  have "status \<in> {Status_OK, Status_SyntaxError} \<and>
      (status = Status_OK \<longrightarrow>
         (parserState s' = WantsOpenDelimiter \<and> open_ok s' \<or> parserState s' = WantsMimeHeaders \<and> headers_ok s')
         \<and> s' = s\<lparr>parserState := parserState s', scannerState := scannerState s', delimiter := delimiter s'\<rparr>)"
  proof (cases "scannerState s")
    case WantsBoundary
    with m o assms(2) trim snoc show ?thesis
      by (auto simp: FwdLockConv_MatchOpenDelimiter_def FwdLockConv_RightTrimDelimiter_def open_ok_def
          headers_ok_def Let_def split: if_splits)
  qed (use m o assms(2) in \<open>auto simp: FwdLockConv_MatchOpenDelimiter_def open_ok_def headers_ok_def
         delimiter_part_def split: if_splits\<close>)
  moreover have "conv_inv s' out" if "s' = s\<lparr>parserState := p, scannerState := sc, delimiter := d\<rparr>"
      "p = WantsOpenDelimiter \<and> open_ok s' \<or> p = WantsMimeHeaders \<and> headers_ok s'" for p sc d
    using that assms(1,2) by (auto simp: conv_inv_def key_ok_def output_ok_def)
  ultimately show ?thesis by metis
qed

section \<open>MIME headers\<close>

lemma StringAppend_safe:
  assumes "string_ok str"
  shows "\<exists>status str' h'. FwdLockConv_StringAppend str ch h = Some (status, str', h')
    \<and> string_ok str' \<and> status \<in> {Status_OK, Status_OutOfMemory}
    \<and> (status = Status_OK \<longrightarrow> ptr str' \<noteq> None)"
  using assms
  by (cases "ptr str"; cases "fst (alloc h)")
    (auto simp: FwdLockConv_StringAppend_def string_ok_def Let_def split: prod.splits)

lemma conv_inv_header_state [inv_intros]:
  assumes "conv_inv s out" "parserState s = WantsMimeHeaders" "header_state sc"
  shows "conv_inv (s\<lparr>scannerState := sc\<rparr>) out"
    "conv_inv (s\<lparr>contentTransferEncoding := e, scannerState := sc\<rparr>) out"
  using assms by (simp_all add: conv_inv_def headers_ok_def key_ok_def output_ok_def)

lemma syntax_statuses_simps [simp]:
  "Status_OK \<in> syntax_statuses" "Status_SyntaxError \<in> syntax_statuses"
  "Status_OutOfMemory \<in> syntax_statuses" "Status_UnsupportedFileFormat \<in> syntax_statuses"
  "Status_UnsupportedContentTransferEncoding \<in> syntax_statuses"
  by (simp_all add: syntax_statuses_def)

fun encoding_state :: "FwdLockConv_ScannerState \<Rightarrow> bool" where
  "encoding_state WantsContentTransferEncodingStart = True"
| "encoding_state Wants_A_OR_I = True"
| "encoding_state Wants_N = True"
| "encoding_state Wants_A = True"
| "encoding_state Wants_R = True"
| "encoding_state Wants_Y = True"
| "encoding_state Wants_S = True"
| "encoding_state Wants_E = True"
| "encoding_state Wants_6 = True"
| "encoding_state Wants_4 = True"
| "encoding_state Wants_B = True"
| "encoding_state Wants_I = True"
| "encoding_state Wants_T = True"
| "encoding_state WantsContentTransferEncodingEnd = True"
| "encoding_state _ = False"

lemma TransferEncoding_safe:
  assumes "conv_inv s out" "parserState s = WantsMimeHeaders" "encoding_state (scannerState s)"
    "FwdLockConv_MatchTransferEncoding s ch = (status, s')"
  shows "status \<in> syntax_statuses \<and> (status = Status_OK \<longrightarrow> conv_inv s' out)"
  using assms(3,4) conv_inv_header_state [OF assms(1,2)] assms(1)
  by (cases "scannerState s")
    (simp_all add: FwdLockConv_MatchTransferEncoding_def Let_def split: if_splits, auto)

lemma conv_inv_strings [inv_intros]:
  assumes "conv_inv s out" "parserState s = WantsMimeHeaders" "string_ok str"
  shows "ptr str \<noteq> None \<Longrightarrow> conv_inv (s\<lparr>mimeHeaderName := str\<rparr>) out"
    "ptr str \<noteq> None \<Longrightarrow> conv_inv (s\<lparr>mimeHeaderName := str, scannerState := WantsMimeHeaderName\<rparr>) out"
    "conv_inv (s\<lparr>contentType := str\<rparr>) out"
    "header_state sc \<Longrightarrow> conv_inv (s\<lparr>contentType := str, scannerState := sc\<rparr>) out"
  using assms by (auto simp: conv_inv_def headers_ok_def key_ok_def output_ok_def)

lemma conv_inv_name_end [inv_intros]:
  assumes "conv_inv s out" "parserState s = WantsMimeHeaders" "ptr (mimeHeaderName s) \<noteq> None"
  shows "conv_inv (s\<lparr>scannerState := WantsMimeHeaderNameEnd\<rparr>) out"
  using assms by (simp add: conv_inv_def headers_ok_def key_ok_def output_ok_def)

lemma conv_inv_name:
  assumes "conv_inv s out" "parserState s = WantsMimeHeaders"
    "scannerState s \<in> {WantsMimeHeaderName, WantsMimeHeaderNameEnd}"
  shows "ptr (mimeHeaderName s) \<noteq> None"
  using assms by (auto simp: conv_inv_def headers_ok_def)

text \<open>A result of a header step that leaves the output alone.\<close>

definition safe_header ::
  "FwdLockConv_ConvertData_Output
     \<Rightarrow> (FwdLockConv_Status \<times> ('rk, 'hc) FwdLockConv_Session \<times> heap) option \<Rightarrow> bool" where
  "safe_header out r \<longleftrightarrow>
     (case r of
        None \<Rightarrow> False
      | Some (status, s, h) \<Rightarrow> status \<in> syntax_statuses \<and> (status = Status_OK \<longrightarrow> conv_inv s out))"

lemma safe_header_Some [simp]:
  "safe_header out (Some (status, s, h)) \<longleftrightarrow>
     status \<in> syntax_statuses \<and> (status = Status_OK \<longrightarrow> conv_inv s out)"
  by (simp add: safe_header_def)

lemma RecognizeMimeHeaderName_safe:
  assumes "conv_inv s out" "parserState s = WantsMimeHeaders"
    "scannerState s \<in> {WantsMimeHeaderName, WantsMimeHeaderNameEnd}"
  shows "\<exists>status s'. FwdLockConv_RecognizeMimeHeaderName s = Some (status, s')
    \<and> status \<in> syntax_statuses \<and> (status = Status_OK \<longrightarrow> conv_inv s' out)"
  using conv_inv_name [OF assms] conv_inv_header_state [OF assms(1,2)]
  by (auto simp: FwdLockConv_RecognizeMimeHeaderName_def)

lemma StringAppend_cases:
  assumes "string_ok str"
  obtains (ok) str' h' where "FwdLockConv_StringAppend str ch h = Some (Status_OK, str', h')"
      "string_ok str'" "ptr str' \<noteq> None"
    | (oom) str' h' where "FwdLockConv_StringAppend str ch h = Some (Status_OutOfMemory, str', h')"
  using StringAppend_safe [OF assms, of ch h] by auto

lemma MatchHeaderName_safe:
  assumes inv: "conv_inv s out" "parserState s = WantsMimeHeaders"
    and st: "scannerState s \<in> {WantsMimeHeaderNameStart, WantsMimeHeaderName, WantsMimeHeaderNameEnd}"
  shows "safe_header out (FwdLockConv_MatchHeaderName s ch h)"
proof -
  have str: "string_ok (mimeHeaderName s)" using inv by (simp add: conv_inv_def)
  then have str0: "string_ok ((mimeHeaderName s)\<lparr>strLength := 0\<rparr>)"
    by (auto simp: string_ok_def split: option.splits)
  note I = conv_inv_header_state [OF inv] conv_inv_strings [OF inv] conv_inv_name_end [OF inv]
  from st consider "scannerState s = WantsMimeHeaderNameStart" | "scannerState s = WantsMimeHeaderName"
    | "scannerState s = WantsMimeHeaderNameEnd" by blast
  then show ?thesis
  proof cases
    case 1
    show ?thesis
      by (rule StringAppend_cases [OF str0, of "tolower ch" h])
        (use inv 1 I in \<open>simp_all add: FwdLockConv_MatchHeaderName_def Let_def\<close>)
  next
    case 2
    with RecognizeMimeHeaderName_safe [OF inv] obtain status s' where
      r: "FwdLockConv_RecognizeMimeHeaderName s = Some (status, s')" "status \<in> syntax_statuses"
        "status = Status_OK \<longrightarrow> conv_inv s' out" by blast
    have n: "ptr (mimeHeaderName s) \<noteq> None" using conv_inv_name [OF inv] 2 by simp
    show ?thesis
      by (rule StringAppend_cases [OF str, of "tolower ch" h])
        (use inv 2 I r n in \<open>simp_all add: FwdLockConv_MatchHeaderName_def Let_def\<close>)
  next
    case 3
    with RecognizeMimeHeaderName_safe [OF inv] obtain status s' where
      r: "FwdLockConv_RecognizeMimeHeaderName s = Some (status, s')" "status \<in> syntax_statuses"
        "status = Status_OK \<longrightarrow> conv_inv s' out" by blast
    with inv 3 I show ?thesis by (simp add: FwdLockConv_MatchHeaderName_def Let_def)
  qed
qed

lemma MatchContentType_safe:
  assumes inv: "conv_inv s out" "parserState s = WantsMimeHeaders"
    and st: "scannerState s = WantsContentTypeStart \<or> scannerState s = WantsContentType"
  shows "safe_header out (FwdLockConv_MatchContentType s ch h)"
proof -
  have str: "string_ok (contentType s)" using inv by (simp add: conv_inv_def)
  note I = conv_inv_header_state [OF inv] conv_inv_strings [OF inv]
  show ?thesis
    by (rule StringAppend_cases [OF str, of "tolower ch" h])
      (use inv st I in \<open>auto simp: FwdLockConv_MatchContentType_def\<close>)
qed

lemma MatchHeadersEnd_safe:
  assumes inv: "conv_inv s out" "parserState s = WantsMimeHeaders"
  shows "safe_step (FwdLockConv_MatchHeadersEnd s out h)"
proof -
  obtain status s1 h1 where ad: "FwdLockConv_ApplyDefaults s h = (status, s1, h1)"
    by (cases "FwdLockConv_ApplyDefaults s h") auto
  have "string_ok (contentType s)" using inv by (simp add: conv_inv_def)
  with ad have 1: "status \<in> {Status_OK, Status_OutOfMemory}"
    "status = Status_OK \<Longrightarrow> string_ok (contentType s1) \<and> ptr (contentType s1) \<noteq> None
       \<and> s1 = s\<lparr>contentType := contentType s1, contentTransferEncoding := contentTransferEncoding s1\<rparr>"
    by (auto simp: FwdLockConv_ApplyDefaults_def Let_def string_ok_def split: if_splits prod.splits
        option.splits)
  show ?thesis
  proof (cases "status = Status_OK \<and> FwdLockConv_VerifyContentType s1 = Status_OK
      \<and> strLength (contentType s1) \<le> 255 \<and> fst (alloc h1)")
    case False
    with 1 ad show ?thesis
      by (auto simp: FwdLockConv_MatchHeadersEnd_def FwdLockConv_VerifyContentType_def
          FwdLockConv_WriteHeader_def Let_def split: if_splits option.splits prod.splits)
  next
    case True
    with 1(2) obtain p ct cte where
      s1: "ptr (contentType s1) = Some p" "string_ok (contentType s1)"
        "s1 = s\<lparr>contentType := ct, contentTransferEncoding := cte\<rparr>" by auto
    then have len: "strLength (contentType s1) \<le> length p" by (simp add: string_ok_def)
    from inv have "length (pEncryptedSessionKey s1) = 48"
      "delimiter_ok (delimiter s)" "delimiterMatchPos s = 0" "dataOffset s = 0" "numDataBytes s = 0"
      by (auto simp: s1(3) conv_inv_def headers_ok_def output_ok_def FwdLockGlue_GetEncryptedKeyLength_def)
    with True ad s1 len inv show ?thesis
      by (auto simp: FwdLockConv_MatchHeadersEnd_def FwdLockConv_WriteHeader_def Let_def
          conv_inv_def output_ok_def out_room_def key_ok_def topHeaderTemplate_def
          binary_ok_def base64_ok_def split: prod.splits
          intro!: exI [of _ "BinData 0"] exI [of _ "B64Byte1 False"]
          simp: bin_rel_start b64_rel_start)
  qed
qed

lemma MatchMimeHeaders_safe:
  assumes inv: "conv_inv s out" "parserState s = WantsMimeHeaders"
  shows "safe_step (FwdLockConv_MatchMimeHeaders s ch out h)"
proof -
  let ?sc = "scannerState s"
  have st: "header_state ?sc \<or> ?sc \<in> {WantsMimeHeaderName, WantsMimeHeaderNameEnd}"
    using inv by (auto simp: conv_inv_def headers_ok_def)
  have lift: "safe_step (case r of None \<Rightarrow> None | Some (status, s1, h1) \<Rightarrow> Some (status, s1, out, h1))"
    if "safe_header out r" for r :: "(FwdLockConv_Status \<times> ('a, 'b) FwdLockConv_Session \<times> heap) option"
    using that by (auto simp: safe_header_def split: option.splits)
  consider "?sc \<in> {WantsMimeHeaderNameStart, WantsMimeHeaderName, WantsMimeHeaderNameEnd}"
    | "?sc = WantsContentTypeStart \<or> ?sc = WantsContentType"
    | "encoding_state ?sc" | "?sc = WantsMimeHeaderValueEnd" | "?sc = WantsCR" | "?sc = WantsLF"
    | "?sc = WantsMimeHeadersEnd"
    using st by (cases ?sc) auto
  then show ?thesis
  proof cases
    case 1
    with lift [OF MatchHeaderName_safe [OF inv 1, of ch h]] show ?thesis
      by (auto simp: FwdLockConv_MatchMimeHeaders_def Let_def)
  next
    case 2
    with lift [OF MatchContentType_safe [OF inv 2, of ch h]] show ?thesis
      by (auto simp: FwdLockConv_MatchMimeHeaders_def Let_def)
  next
    case 3
    obtain status s' where t: "FwdLockConv_MatchTransferEncoding s ch = (status, s')"
      by (cases "FwdLockConv_MatchTransferEncoding s ch") auto
    from TransferEncoding_safe [OF inv 3 t] 3 t show ?thesis
      by (cases ?sc) (simp_all add: FwdLockConv_MatchMimeHeaders_def Let_def)
  next
    case 7
    with MatchHeadersEnd_safe [OF inv, of h] show ?thesis
      by (simp add: FwdLockConv_MatchMimeHeaders_def Let_def)
  qed (use inv conv_inv_header_state [OF inv] in \<open>simp_all add: FwdLockConv_MatchMimeHeaders_def Let_def\<close>)
qed

section \<open>The encrypted body\<close>

lemma NextKeyByte_safe:
  assumes "key_ok s" "block_cipher c"
  shows "key_ok (FwdLockConv_NextKeyByte c s)"
    "nat (keyStreamIndex (FwdLockConv_NextKeyByte c s)) < length (keyStream (FwdLockConv_NextKeyByte c s))"
    "0 \<le> keyStreamIndex (FwdLockConv_NextKeyByte c s)"
  using assms by (auto simp: FwdLockConv_NextKeyByte_def Let_def key_ok_def block_cipher_def)

lemma FlushBytes_safe:
  assumes "block_cipher c"
  shows "key_ok s \<Longrightarrow> out_room s out \<Longrightarrow>
    \<exists>status s' out' h'. FwdLockConv_FlushBytes c s bs out h = Some (status, s', out', h')
      \<and> status \<in> {Status_OK, Status_OutOfMemory}
      \<and> (status = Status_OK \<longrightarrow> key_ok s' \<and> out_room s' out' \<and> write_frame s s'
           \<and> numDataBytes s' = numDataBytes s + length bs
           \<and> length (outBytes out') = length (outBytes out) + length bs)"
proof (induction bs arbitrary: s out h)
  case (Cons b bs)
  obtain st s1 out1 h1 where e: "FwdLockConv_EnsureRoom s out h = (st, s1, out1, h1)"
    by (cases "FwdLockConv_EnsureRoom s out h") auto
  have st: "st \<in> {Status_OK, Status_OutOfMemory}"
    using e by (auto simp: FwdLockConv_EnsureRoom_def Let_def split: if_splits prod.splits)
  show ?case
  proof (cases "st = Status_OK")
    case False
    with e st show ?thesis by (simp add: FwdLockConv_WriteEncryptedChar_def)
  next
    case True
    note E = EnsureRoom_spec [OF e [unfolded True] Cons.prems(2)]
    have k: "key_ok s1" using Cons.prems(1) by (subst E(1)) (simp add: key_ok_def)
    have nd: "numDataBytes s1 = numDataBytes s" by (subst E(1)) simp
    have ob: "outBytes out1 = outBytes out" by (subst E(2)) simp
    have wf: "write_frame s s1" using E(1) by (cases s; cases s1) (simp add: write_frame_def)
    let ?s2 = "FwdLockConv_NextKeyByte c s1"
    note N = NextKeyByte_safe [OF k assms] and F = NextKeyByte_frame [where s = s1 and c = c]
    from E(4) obtain cap where cap: "pBuffer out1 = Some cap" "outputBufferSize s1 \<le> cap"
      by (auto simp: out_room_def split: option.splits)
    let ?s3 = "?s2\<lparr>numDataBytes := numDataBytes ?s2 + 1\<rparr>"
    let ?o3 = "out1\<lparr>outBytes := outBytes out1 @ [b XOR keyStream ?s2 ! nat (keyStreamIndex ?s2)]\<rparr>"
    have w: "FwdLockConv_WriteEncryptedChar c s b out h = Some (Status_OK, ?s3, ?o3, h1)"
      unfolding FwdLockConv_WriteEncryptedChar_def
      using E(3) ob N(2,3) cap True by (simp add: e Let_def)
    have k3: "key_ok ?s3" using N(1) by (simp add: key_ok_def)
    have r3: "out_room ?s3 ?o3" using E(3) ob F(3) cap by (simp add: out_room_def)
    have "write_frame ?s2 ?s3" by (simp add: write_frame_def)
    with wf F(1) have w3: "write_frame s ?s3" by (blast intro: write_frame_trans)
    from Cons.IH [OF k3 r3, of h1] w w3 nd ob F(2) show ?thesis
      by (auto intro: write_frame_trans)
  qed
qed auto

definition body_frame ::
  "('rk, 'hc) FwdLockConv_Session \<Rightarrow> ('rk, 'hc) FwdLockConv_Session \<Rightarrow> bool" where
  "body_frame s t \<longleftrightarrow> (\<exists>u. write_frame s u \<and> scan_frame u t)"

lemma body_frame_fields:
  assumes "body_frame s t"
  shows "delimiter t = delimiter s" "mimeHeaderName t = mimeHeaderName s"
    "contentType t = contentType s" "pEncryptedSessionKey t = pEncryptedSessionKey s"
    "topHeader t = topHeader s" "encryptionRoundKeys t = encryptionRoundKeys s"
    "signingContext t = signingContext s" "dataOffset t = dataOffset s"
  using assms by (auto simp: body_frame_def scan_frame_fields write_frame_fields)

lemma scan_frame_transfer:
  assumes "scan_frame s t"
  shows "key_ok t = key_ok s" "out_room t out = out_room s out"
    "enc_in_pos c rk nonce n t = enc_in_pos c rk nonce n s"
  by (auto simp: key_ok_def out_room_def enc_in_pos_def scan_frame_fields [OF assms] split: option.split)

context body_scanner
begin

lemma step_safe:
  assumes "rel a s" "block_cipher c" "key_ok s" "out_room s out"
  shows "\<exists>status s' out' h'. FwdLockConv_PushChar c s ch out h = Some (status, s', out', h')
    \<and> status \<in> {Status_OK, Status_SyntaxError, Status_OutOfMemory}
    \<and> (status = Status_OK \<longrightarrow> (\<exists>a'. rel a' s') \<and> body_frame s s' \<and> key_ok s' \<and> out_room s' out'
         \<and> numDataBytes s' + length (outBytes out) = numDataBytes s + length (outBytes out'))"
proof (cases "stp a ch")
  case None
  with reject [OF assms(1)] show ?thesis by blast
next
  case (Some r)
  obtain a' em where r: "r = (a', em)" by (cases r) auto
  from FlushBytes_safe [OF assms(2-4), of em h] obtain status s1 out1 h1 where
    f: "FwdLockConv_FlushBytes c s em out h = Some (status, s1, out1, h1)"
      "status \<in> {Status_OK, Status_OutOfMemory}"
      "status = Status_OK \<longrightarrow> key_ok s1 \<and> out_room s1 out1 \<and> write_frame s s1
         \<and> numDataBytes s1 = numDataBytes s + length em
         \<and> length (outBytes out1) = length (outBytes out) + length em"
    by blast
  show ?thesis
  proof (cases "status = Status_OK")
    case True
    with accept [OF assms(1) _ f(1) [unfolded True]] Some r obtain s2 where
      "FwdLockConv_PushChar c s ch out h = Some (Status_OK, s2, out1, h1)" "rel a' s2" "scan_frame s1 s2"
      by blast
    moreover from this f(3) True have "key_ok s2 \<and> out_room s2 out1 \<and> body_frame s s2
        \<and> numDataBytes s2 = numDataBytes s1"
      by (auto simp: scan_frame_transfer scan_frame_fields body_frame_def)
    ultimately show ?thesis using f(3) True by auto
  next
    case False
    with fail [OF assms(1) _ f(1)] Some r f(2) show ?thesis by blast
  qed
qed

end

lemma counted_simps [simp]:
  "key_ok (s\<lparr>numCharsConsumed := n\<rparr>) = key_ok s"
  "out_room (s\<lparr>numCharsConsumed := n\<rparr>) out = out_room s out"
  "open_ok (s\<lparr>numCharsConsumed := n\<rparr>) = open_ok s"
  "headers_ok (s\<lparr>numCharsConsumed := n\<rparr>) = headers_ok s"
  "bin_rel d a (s\<lparr>numCharsConsumed := n\<rparr>) = bin_rel d a s"
  "b64_rel d b (s\<lparr>numCharsConsumed := n\<rparr>) = b64_rel d b s"
  by (simp_all add: key_ok_def out_room_def open_ok_def headers_ok_def bin_rel_def b64_rel_def
      split: option.split FwdLockConv_ScannerState.split bin_state.split b64_state.split)

lemma conv_inv_counted [simp]:
  "conv_inv (s\<lparr>numCharsConsumed := n\<rparr>) out = conv_inv s out"
  by (cases "parserState s") (simp_all add: conv_inv_def output_ok_def binary_ok_def base64_ok_def)

lemma bin_rel_parser:
  "bin_rel d a s \<Longrightarrow> delimiter s = d \<and>
     parserState s = (if a = BinDone then Done else WantsBinaryEncodedData)"
  by (cases a) (auto simp: bin_rel_def)

lemma b64_rel_parser:
  "b64_rel d a s \<Longrightarrow> delimiter s = d \<and>
     parserState s = (if a = B64Done then Done else WantsBase64EncodedData)"
  by (simp add: b64_rel_def)

lemma conv_inv_body:
  assumes "conv_inv s out" "parserState s \<notin> {WantsOpenDelimiter, WantsMimeHeaders}"
    and "body_frame s s'" "key_ok s'" "out_room s' out'"
    and "numDataBytes s' + length (outBytes out) = numDataBytes s + length (outBytes out')"
    and "parserState s' = WantsBinaryEncodedData \<and> binary_ok s' \<or>
         parserState s' = WantsBase64EncodedData \<and> base64_ok s' \<or> parserState s' = Done"
  shows "conv_inv s' out'"
  using assms body_frame_fields [OF assms(3)] by (auto simp: conv_inv_def output_ok_def)

lemma PushChar_safe:
  assumes inv: "conv_inv s out" and c: "block_cipher c"
  shows "safe_step (FwdLockConv_PushChar c s ch out h)"
proof (cases "parserState s")
  case WantsOpenDelimiter
  let ?s = "s\<lparr>numCharsConsumed := numCharsConsumed s + 1\<rparr>"
  obtain status s' where m: "FwdLockConv_MatchOpenDelimiter ?s ch = (status, s')"
    by (cases "FwdLockConv_MatchOpenDelimiter ?s ch") auto
  from MatchOpenDelimiter_safe [OF _ _ m, of out] inv WantsOpenDelimiter m show ?thesis
    by (auto simp: FwdLockConv_PushChar_def Let_def)
next
  case WantsMimeHeaders
  let ?s = "s\<lparr>numCharsConsumed := numCharsConsumed s + 1\<rparr>"
  from MatchMimeHeaders_safe [of ?s out ch h] inv WantsMimeHeaders show ?thesis
    by (simp add: FwdLockConv_PushChar_def Let_def)
next
  case WantsBinaryEncodedData
  with inv obtain a where a: "bin_rel (delimiter s) a s"
    by (auto simp: conv_inv_def binary_ok_def)
  have k: "key_ok s" "out_room s out" using inv WantsBinaryEncodedData
    by (simp_all add: conv_inv_def output_ok_def)
  from bin.step_safe [OF a c k, of ch h] obtain status s' out' h' where
    p: "FwdLockConv_PushChar c s ch out h = Some (status, s', out', h')"
      "status \<in> {Status_OK, Status_SyntaxError, Status_OutOfMemory}" and
    ok: "status = Status_OK \<Longrightarrow> (\<exists>a'. bin_rel (delimiter s) a' s') \<and> body_frame s s' \<and> key_ok s'
      \<and> out_room s' out' \<and> numDataBytes s' + length (outBytes out) = numDataBytes s + length (outBytes out')"
    by blast
  have "conv_inv s' out'" if "status = Status_OK"
  proof -
    from ok [OF that] obtain a' where a': "bin_rel (delimiter s) a' s'" and f: "body_frame s s'" by blast
    have "parserState s' = WantsBinaryEncodedData \<and> binary_ok s' \<or> parserState s' = Done"
    proof (cases "a' = BinDone")
      case False
      with a' bin_rel_parser [OF a'] body_frame_fields(1) [OF f] show ?thesis
        unfolding binary_ok_def by auto
    qed (use bin_rel_parser [OF a'] in simp)
    with conv_inv_body [OF inv _ f, of out'] ok [OF that] WantsBinaryEncodedData
    show ?thesis by (elim disjE) simp_all
  qed
  with p show ?thesis by auto
next
  case WantsBase64EncodedData
  with inv obtain a where a: "b64_rel (delimiter s) a s"
    by (auto simp: conv_inv_def base64_ok_def)
  have k: "key_ok s" "out_room s out" using inv WantsBase64EncodedData
    by (simp_all add: conv_inv_def output_ok_def)
  from b64.step_safe [OF a c k, of ch h] obtain status s' out' h' where
    p: "FwdLockConv_PushChar c s ch out h = Some (status, s', out', h')"
      "status \<in> {Status_OK, Status_SyntaxError, Status_OutOfMemory}" and
    ok: "status = Status_OK \<Longrightarrow> (\<exists>a'. b64_rel (delimiter s) a' s') \<and> body_frame s s' \<and> key_ok s'
      \<and> out_room s' out' \<and> numDataBytes s' + length (outBytes out) = numDataBytes s + length (outBytes out')"
    by blast
  have "conv_inv s' out'" if "status = Status_OK"
  proof -
    from ok [OF that] obtain a' where a': "b64_rel (delimiter s) a' s'" and f: "body_frame s s'" by blast
    have "parserState s' = WantsBase64EncodedData \<and> base64_ok s' \<or> parserState s' = Done"
    proof (cases "a' = B64Done")
      case False
      with a' b64_rel_parser [OF a'] body_frame_fields(1) [OF f] show ?thesis
        unfolding base64_ok_def by auto
    qed (use b64_rel_parser [OF a'] in simp)
    with conv_inv_body [OF inv _ f, of out'] ok [OF that] WantsBase64EncodedData
    show ?thesis by (elim disjE) simp_all
  qed
  with p show ?thesis by auto
next
  case Done
  with inv show ?thesis by (simp add: FwdLockConv_PushChar_def Let_def)
qed

lemma PushChars_safe:
  assumes "block_cipher c"
  shows "conv_inv s out \<Longrightarrow> safe_step (FwdLockConv_PushChars c s chs out h)"
proof (induction chs arbitrary: s out h)
  case (Cons ch chs)
  show ?case
    unfolding PushChars_Cons
    by (intro safe_step_and_then PushChar_safe [OF Cons.prems assms] Cons.IH)
qed simp

section \<open>Between the calls\<close>

text \<open>The state of a session when the next buffer may be converted.\<close>

definition ready ::
  "('rk, 'hc) FwdLockConv_Session \<Rightarrow> FwdLockConv_ConvertData_Output \<Rightarrow> bool" where
  "ready s out \<longleftrightarrow> conv_inv (s\<lparr>dataOffset := 0, numDataBytes := 0\<rparr>) (out\<lparr>outBytes := []\<rparr>)"

lemma rest_simps [simp]:
  "open_ok (s\<lparr>dataOffset := a, numDataBytes := b\<rparr>) = open_ok s"
  "headers_ok (s\<lparr>dataOffset := a, numDataBytes := b\<rparr>) = headers_ok s"
  "bin_rel d x (s\<lparr>dataOffset := a, numDataBytes := b\<rparr>) = bin_rel d x s"
  "b64_rel d y (s\<lparr>dataOffset := a, numDataBytes := b\<rparr>) = b64_rel d y s"
  "open_ok (s\<lparr>signingContext := hc\<rparr>) = open_ok s"
  "headers_ok (s\<lparr>signingContext := hc\<rparr>) = headers_ok s"
  "bin_rel d x (s\<lparr>signingContext := hc\<rparr>) = bin_rel d x s"
  "b64_rel d y (s\<lparr>signingContext := hc\<rparr>) = b64_rel d y s"
  by (simp_all add: open_ok_def headers_ok_def bin_rel_def b64_rel_def
      split: FwdLockConv_ScannerState.split bin_state.split b64_state.split)

lemma conv_inv_ready: "conv_inv s out \<Longrightarrow> ready (s\<lparr>signingContext := hc\<rparr>) out"
  by (cases "parserState s")
    (auto simp: ready_def conv_inv_def key_ok_def output_ok_def out_room_def binary_ok_def base64_ok_def
      split: option.splits)

lemma ConvertBuffer_cases:
  assumes "ready s out" "block_cipher c"
  obtains status s' out' h' where
    "FwdLockConv_ConvertBuffer c s buf out h = Some (status, s', out', h')"
    "status \<in> syntax_statuses"
    "status = Status_OK \<Longrightarrow> ready s' out' \<and> dataOffset s' + numDataBytes s' = length (outBytes out')"
proof -
  from PushChars_safe [OF assms(2) assms(1) [unfolded ready_def], of buf h]
  obtain status s1 out1 h1 where
    p: "FwdLockConv_PushChars c (s\<lparr>dataOffset := 0, numDataBytes := 0\<rparr>) buf (out\<lparr>outBytes := []\<rparr>) h
        = Some (status, s1, out1, h1)"
      "status \<in> syntax_statuses" "status = Status_OK \<Longrightarrow> conv_inv s1 out1"
    by (auto simp: safe_step_def split: option.splits)
  show thesis
  proof (cases "status = Status_OK")
    case True
    with p(3) have "dataOffset s1 + numDataBytes s1 = length (outBytes out1)"
      by (simp add: conv_inv_def output_ok_def)
    with p True show ?thesis
      by (intro that) (auto simp: FwdLockConv_ConvertBuffer_def intro: conv_inv_ready)
  next
    case False
    then obtain out' where
      "FwdLockConv_ConvertBuffer c s buf out h = Some (status, s1, out', h1)"
      by (cases "status = Status_SyntaxError") (simp_all add: FwdLockConv_ConvertBuffer_def p(1))
    with p(2) False show ?thesis by (intro that) auto
  qed
qed

section \<open>The failed reallocation\<close>

text \<open>A character of a binary body that cannot start the delimiter is written at once.\<close>

lemma PushChar_plain:
  assumes "bin_rel d (BinData 0) s" "ch \<noteq> CR"
  shows "FwdLockConv_PushChar c s ch out h =
     FwdLockConv_WriteEncryptedChar c (s\<lparr>numCharsConsumed := numCharsConsumed s + 1\<rparr>) ch out h"
proof -
  from assms have d: "delimiter_ok d" "delimiter s = d" "parserState s = WantsBinaryEncodedData"
    "scannerState s = WantsByte1" "delimiterMatchPos s = 0"
    by (simp_all add: bin_rel_start)
  from d(1) have "rd d 0 = Some CR"
    using delimiter_ok_nth(1) [OF d(1)] by (auto simp: delimiter_ok_def)
  then show ?thesis
    using assms(2) d
    by (cases s) (simp add: PushChar_binary FwdLockConv_MatchBinaryEncodedData_def FwdLockConv_MatchDelimiterChar_def)
qed

lemma WriteEncryptedChar_no_growth:
  assumes "key_ok s" "block_cipher c" "length (outBytes out) \<noteq> outputBufferSize s" "pBuffer out = Some cap"
  shows "FwdLockConv_WriteEncryptedChar c s b out h =
    (if cap \<le> length (outBytes out) then None
     else let s2 = FwdLockConv_NextKeyByte c s in
       Some (Status_OK, s2\<lparr>numDataBytes := numDataBytes s2 + 1\<rparr>,
         out\<lparr>outBytes := outBytes out @ [b XOR keyStream s2 ! nat (keyStreamIndex s2)]\<rparr>, h))"
  using assms NextKeyByte_safe [OF assms(1,2)]
  by (simp add: FwdLockConv_WriteEncryptedChar_def FwdLockConv_EnsureRoom_def Let_def)

text \<open>Filling the buffer up to its size needs no allocation.\<close>

lemma PushChars_fill:
  assumes "block_cipher c"
  shows "bin_rel d (BinData 0) s \<Longrightarrow> key_ok s \<Longrightarrow> CR \<notin> set buf \<Longrightarrow> pBuffer out = Some cap \<Longrightarrow>
    length (outBytes out) + length buf \<le> cap \<Longrightarrow>
    length (outBytes out) + length buf \<le> outputBufferSize s \<Longrightarrow>
    \<exists>s' out'. FwdLockConv_PushChars c s buf out h = Some (Status_OK, s', out', h)
      \<and> bin_rel d (BinData 0) s' \<and> key_ok s' \<and> pBuffer out' = Some cap
      \<and> outputBufferSize s' = outputBufferSize s
      \<and> length (outBytes out') = length (outBytes out) + length buf"
proof (induction buf arbitrary: s out)
  case (Cons b buf)
  let ?s = "s\<lparr>numCharsConsumed := numCharsConsumed s + 1\<rparr>"
  let ?s2 = "FwdLockConv_NextKeyByte c ?s"
  let ?s3 = "?s2\<lparr>numDataBytes := numDataBytes ?s2 + 1\<rparr>"
  let ?o3 = "out\<lparr>outBytes := outBytes out @ [b XOR keyStream ?s2 ! nat (keyStreamIndex ?s2)]\<rparr>"
  have "b \<noteq> CR" using Cons.prems(3) by auto
  have w: "FwdLockConv_PushChar c s b out h = Some (Status_OK, ?s3, ?o3, h)"
    unfolding PushChar_plain [OF Cons.prems(1) \<open>b \<noteq> CR\<close>]
    using WriteEncryptedChar_no_growth [of ?s c out cap b h] Cons.prems assms by (simp add: Let_def)
  have k: "key_ok ?s3" using NextKeyByte_safe(1) [of ?s c] Cons.prems(2) assms by (simp add: key_ok_def)
  note F = NextKeyByte_frame(1) [of ?s c]
  have r: "bin_rel d (BinData 0) ?s3"
    using Cons.prems(1) write_frame_fields [OF F] by (simp add: bin_rel_start)
  have z: "outputBufferSize ?s3 = outputBufferSize s" by (simp add: NextKeyByte_frame(3))
  from Cons.IH [OF r k, of ?o3] Cons.prems z w show ?case by auto
qed auto

lemma realloc_failure:
  assumes c: "block_cipher c" and s: "bin_rel d (BinData 0) s" "key_ok s"
    and out: "pBuffer out = Some (outputBufferSize s)"
    and buf: "length buf = outputBufferSize s" "CR \<notin> set buf" "ch \<noteq> CR"
  shows "\<exists>s1 out1. FwdLockConv_ConvertBuffer c s (buf @ [ch]) out [False]
        = Some (Status_OutOfMemory, s1, out1, [])
      \<and> FwdLockConv_ConvertBuffer c s1 (buf @ [ch]) out1 [] = None"
proof -
  let ?n = "outputBufferSize s"
  let ?clear = "\<lambda>s :: ('a, 'b) FwdLockConv_Session. s\<lparr>dataOffset := 0, numDataBytes := 0\<rparr>"
  have clear: "bin_rel d (BinData 0) (?clear t) = bin_rel d (BinData 0) t" "key_ok (?clear t) = key_ok t"
    for t by (simp_all add: key_ok_def)
  obtain s2 out2 where f:
    "FwdLockConv_PushChars c (?clear s) buf (out\<lparr>outBytes := []\<rparr>) [False] = Some (Status_OK, s2, out2, [False])"
    "bin_rel d (BinData 0) s2" "key_ok s2" "pBuffer out2 = Some ?n"
    "outputBufferSize s2 = ?n" "length (outBytes out2) = ?n"
    using PushChars_fill [OF c, of d "?clear s" buf "out\<lparr>outBytes := []\<rparr>" ?n "[False]"] s out buf
    by (auto simp: clear)
  let ?s3 = "s2\<lparr>numCharsConsumed := numCharsConsumed s2 + 1, outputBufferSize := ?n + 1024\<rparr>"
  have one: "FwdLockConv_ConvertBuffer c s (buf @ [ch]) out [False]
      = Some (Status_OutOfMemory, ?s3, out2, [])"
    using f(1) f(5,6)
    by (simp add: FwdLockConv_ConvertBuffer_def PushChars_append PushChar_plain [OF f(2) buf(3)]
        FwdLockConv_WriteEncryptedChar_def FwdLockConv_EnsureRoom_def Let_def)
  have s3: "bin_rel d (BinData 0) (?clear ?s3)" "key_ok (?clear ?s3)"
    using f(2,3) by (simp_all add: bin_rel_start key_ok_def)
  obtain s4 out4 where g:
    "FwdLockConv_PushChars c (?clear ?s3) buf (out2\<lparr>outBytes := []\<rparr>) [] = Some (Status_OK, s4, out4, [])"
    "bin_rel d (BinData 0) s4" "key_ok s4" "pBuffer out4 = Some ?n"
    "outputBufferSize s4 = ?n + 1024" "length (outBytes out4) = ?n"
    using PushChars_fill [OF c s3 buf(2), of "out2\<lparr>outBytes := []\<rparr>" ?n "[]"] f(4) buf(1) by auto
  have "FwdLockConv_PushChar c s4 ch out4 [] = None"
    unfolding PushChar_plain [OF g(2) buf(3)]
    using WriteEncryptedChar_no_growth
      [of "s4\<lparr>numCharsConsumed := numCharsConsumed s4 + 1\<rparr>" c out4 ?n ch "[]"] g c by simp
  then have "FwdLockConv_ConvertBuffer c ?s3 (buf @ [ch]) out2 [] = None"
    using g(1) by (simp add: FwdLockConv_ConvertBuffer_def PushChars_append)
  with one show ?thesis by blast
qed

end
