(* ===== verification/FwdLockMessage.thy ===== *)
theory FwdLockMessage
  imports FwdLockSafe
begin

text \<open>
  A whole message: open delimiter, content type and transfer encoding headers, body and close
  delimiter, pushed through the converter when no allocation fails.
\<close>

section \<open>Runs\<close>

text \<open>
  The fields that the key stream and the file header are computed from; no header character
  changes them.
\<close>

definition key_fields :: "('rk, 'hc) FwdLockConv_Session \<Rightarrow> _" where
  "key_fields s =
     (pEncryptedSessionKey s, encryptionRoundKeys s, signingContext s, counter s, keyStream s,
      keyStreamIndex s, dataOffset s, numDataBytes s)"

text \<open>A run of characters none of which writes anything or changes a field of the key stream.\<close>

fun quiet_run ::
  "('rk, 'hc) crypto \<Rightarrow> ('rk, 'hc) FwdLockConv_Session \<Rightarrow> bytes \<Rightarrow> FwdLockConv_ConvertData_Output
     \<Rightarrow> ('rk, 'hc) FwdLockConv_Session \<Rightarrow> bool" where
  "quiet_run c s [] out t \<longleftrightarrow> t = s"
| "quiet_run c s (ch # chs) out t \<longleftrightarrow>
     (\<exists>s1. FwdLockConv_PushChar c s ch out [] = Some (Status_OK, s1, out, []) \<and>
        key_fields s1 = key_fields s \<and> quiet_run c s1 chs out t)"

lemma quiet_run_append_iff:
  "quiet_run c s (xs @ ys) out u \<longleftrightarrow> (\<exists>t. quiet_run c s xs out t \<and> quiet_run c t ys out u)"
  by (induction xs arbitrary: s) auto

lemma quiet_run_append:
  "quiet_run c s xs out t \<Longrightarrow> quiet_run c t ys out u \<Longrightarrow> quiet_run c s (xs @ ys) out u"
  by (auto simp: quiet_run_append_iff)

lemma quiet_run_single:
  "FwdLockConv_PushChar c s ch out [] = Some (Status_OK, t, out, []) \<Longrightarrow>
   key_fields t = key_fields s \<Longrightarrow> quiet_run c s [ch] out t"
  by simp

lemma quiet_runD:
  assumes "quiet_run c s chs out t"
  shows "FwdLockConv_PushChars c s chs out [] = Some (Status_OK, t, out, [])" "key_fields t = key_fields s"
  using assms by (induction chs arbitrary: s) auto

section \<open>The open delimiter\<close>

definition boundary_ok :: "bytes \<Rightarrow> bool" where
  "boundary_ok b \<longleftrightarrow>
     b \<noteq> [] \<and> length b \<le> 70 \<and> list_all FwdLockConv_IsBoundaryChar b \<and> last b \<noteq> SP"

definition delimiter_of :: "bytes \<Rightarrow> bytes" where
  "delimiter_of b = [CR, LF, DASH, DASH] @ b"

lemma delimiter_of_ok: "boundary_ok b \<Longrightarrow> delimiter_ok (delimiter_of b)"
  by (rule delimiter_part_ok) (auto simp: boundary_ok_def delimiter_of_def delimiter_part_def Suc_le_eq)

lemma boundary_run:
  "parserState s = WantsOpenDelimiter \<Longrightarrow> scannerState s = WantsBoundary \<Longrightarrow>
   length (delimiter s) + length b \<le> MAX_DELIMITER_LENGTH \<Longrightarrow> list_all FwdLockConv_IsBoundaryChar b \<Longrightarrow>
   quiet_run c s b out
     (s\<lparr>delimiter := delimiter s @ b, numCharsConsumed := numCharsConsumed s + int (length b)\<rparr>)"
proof (induction b arbitrary: s)
  case (Cons x b)
  let ?t = "s\<lparr>delimiter := delimiter s @ [x], numCharsConsumed := numCharsConsumed s + 1\<rparr>"
  have "quiet_run c s [x] out ?t"
    by (rule quiet_run_single)
      (use Cons.prems in \<open>simp_all add: FwdLockConv_PushChar_def FwdLockConv_MatchOpenDelimiter_def
         key_fields_def Let_def\<close>)
  moreover have "quiet_run c ?t b out (s\<lparr>delimiter := delimiter s @ (x # b),
      numCharsConsumed := numCharsConsumed s + int (length (x # b))\<rparr>)"
    using Cons.IH [of ?t] Cons.prems by (simp add: algebra_simps)
  ultimately show ?case using quiet_run_append [of c s "[x]" out ?t b] by simp
qed simp

lemma open_delimiter_run:
  assumes s: "parserState s = WantsOpenDelimiter" "scannerState s = WantsFirstDash"
    and b: "boundary_ok b"
  shows "quiet_run c s ([DASH, DASH] @ b @ [CR, LF]) out
    (s\<lparr>parserState := WantsMimeHeaders, scannerState := WantsMimeHeaderNameStart,
       delimiter := delimiter_of b,
       numCharsConsumed := numCharsConsumed s + int (length b + 4)\<rparr>)"
proof -
  let ?t = "s\<lparr>scannerState := WantsBoundary, delimiter := [CR, LF, DASH, DASH],
    numCharsConsumed := numCharsConsumed s + 2\<rparr>"
  let ?u = "?t\<lparr>delimiter := delimiter_of b, numCharsConsumed := numCharsConsumed s + 2 + int (length b)\<rparr>"
  have 1: "quiet_run c s [DASH, DASH] out ?t"
    using s by (simp add: FwdLockConv_PushChar_def FwdLockConv_MatchOpenDelimiter_def
        key_fields_def Let_def)
  have 2: "quiet_run c ?t b out ?u"
    using boundary_run [of ?t b c out] b s by (simp add: boundary_ok_def delimiter_of_def)
  have trim: "FwdLockConv_TrimSpaces (delimiter_of b) = delimiter_of b"
    using b by (subst FwdLockConv_TrimSpaces.simps) (simp add: boundary_ok_def delimiter_of_def)
  have "4 < length (delimiter_of b)" using b by (simp add: boundary_ok_def delimiter_of_def)
  with s trim have 3: "quiet_run c ?u [CR, LF] out
      (s\<lparr>parserState := WantsMimeHeaders, scannerState := WantsMimeHeaderNameStart,
       delimiter := delimiter_of b, numCharsConsumed := numCharsConsumed s + int (length b + 4)\<rparr>)"
    by (simp add: FwdLockConv_PushChar_def FwdLockConv_MatchOpenDelimiter_def
        FwdLockConv_RightTrimDelimiter_def key_fields_def Let_def)
  from quiet_run_append [OF 1 quiet_run_append [OF 2 3]] show ?thesis .
qed

section \<open>Headers\<close>

text \<open>A string holds exactly these characters.\<close>

definition holds :: "FwdLockConv_String \<Rightarrow> bytes \<Rightarrow> bool" where
  "holds str p \<longleftrightarrow> string_ok str \<and> ptr str = Some p \<and> strLength str = length p"

lemma StringAppend_holds:
  assumes "string_ok str" "holds str p \<or> strLength str = 0 \<and> p = []"
  shows "\<exists>str'. FwdLockConv_StringAppend str ch [] = Some (Status_OK, str', []) \<and> holds str' (p @ [ch])"
  using assms
  by (auto simp: FwdLockConv_StringAppend_def holds_def string_ok_def Let_def split: option.splits)

fun holds_option :: "FwdLockConv_String \<Rightarrow> bytes option \<Rightarrow> bool" where
  "holds_option str None \<longleftrightarrow> ptr str = None"
| "holds_option str (Some p) \<longleftrightarrow> holds str p"

text \<open>The session between two characters of the headers.\<close>

definition at_header ::
  "bytes \<Rightarrow> bytes option \<Rightarrow> FwdLockConv_ContentTransferEncoding \<Rightarrow> FwdLockConv_ScannerState
     \<Rightarrow> ('rk, 'hc) FwdLockConv_Session \<Rightarrow> bool" where
  "at_header d ct enc sc s \<longleftrightarrow>
     parserState s = WantsMimeHeaders \<and> scannerState s = sc \<and> delimiter s = d \<and>
     delimiterMatchPos s = 0 \<and> contentTransferEncoding s = enc \<and> string_ok (mimeHeaderName s) \<and>
     string_ok (contentType s) \<and>
     holds_option (contentType s) ct"

lemma PushChar_headers:
  "parserState s = WantsMimeHeaders \<Longrightarrow>
   FwdLockConv_PushChar c s ch out h =
     FwdLockConv_MatchMimeHeaders (s\<lparr>numCharsConsumed := numCharsConsumed s + 1\<rparr>) ch out h"
  by (simp add: FwdLockConv_PushChar_def Let_def)

lemma header_name_run:
  assumes "at_header d ct enc WantsMimeHeaderNameStart s"
  shows "n \<noteq> [] \<Longrightarrow> list_all FwdLockConv_IsMimeHeaderNameChar n \<Longrightarrow>
    \<exists>t. quiet_run c s n out t \<and> at_header d ct enc WantsMimeHeaderName t
      \<and> holds (mimeHeaderName t) (map tolower n)"
proof (induction n rule: rev_induct)
  case (snoc x n)
  show ?case
  proof (cases "n = []")
    case True
    from assms have "string_ok ((mimeHeaderName s)\<lparr>strLength := 0\<rparr>)"
      by (auto simp: at_header_def string_ok_def split: option.splits)
    from StringAppend_holds [OF this, of "[]" "tolower x"] obtain str where
      str: "FwdLockConv_StringAppend ((mimeHeaderName s)\<lparr>strLength := 0\<rparr>) (tolower x) []
          = Some (Status_OK, str, [])" "holds str [tolower x]" by auto
    let ?t = "s\<lparr>numCharsConsumed := numCharsConsumed s + 1, mimeHeaderName := str,
      scannerState := WantsMimeHeaderName\<rparr>"
    have "quiet_run c s [x] out ?t"
      by (rule quiet_run_single) (use assms str snoc.prems in \<open>simp_all add: at_header_def
          PushChar_headers FwdLockConv_MatchMimeHeaders_def FwdLockConv_MatchHeaderName_def
          key_fields_def Let_def\<close>)
    moreover have "at_header d ct enc WantsMimeHeaderName ?t"
      using assms str(2) by (simp add: at_header_def holds_def)
    ultimately show ?thesis using True str(2) by (intro exI [of _ ?t]) simp
  next
    case False
    with snoc obtain t where
      t: "quiet_run c s n out t" "at_header d ct enc WantsMimeHeaderName t"
        "holds (mimeHeaderName t) (map tolower n)" by auto
    from t(3) have "string_ok (mimeHeaderName t)" by (simp add: holds_def)
    from StringAppend_holds [OF this, of "map tolower n" "tolower x"] t(3) obtain str where
      str: "FwdLockConv_StringAppend (mimeHeaderName t) (tolower x) [] = Some (Status_OK, str, [])"
        "holds str (map tolower n @ [tolower x])" by auto
    let ?t = "t\<lparr>numCharsConsumed := numCharsConsumed t + 1, mimeHeaderName := str\<rparr>"
    have "quiet_run c t [x] out ?t"
      by (rule quiet_run_single) (use t str snoc.prems in \<open>simp_all add: at_header_def
          PushChar_headers FwdLockConv_MatchMimeHeaders_def FwdLockConv_MatchHeaderName_def
          key_fields_def Let_def\<close>)
    moreover have "at_header d ct enc WantsMimeHeaderName ?t"
      using t(2) str(2) by (simp add: at_header_def holds_def)
    ultimately show ?thesis using t(1) str(2) by (intro exI [of _ ?t]) (auto intro: quiet_run_append)
  qed
qed simp

lemma header_name_colon:
  assumes t: "at_header d ct enc WantsMimeHeaderName s" "holds (mimeHeaderName s) (strContent @ rest)"
    and sc: "rest = strType \<and> ct = None \<and> sc = WantsContentTypeStart \<or>
      rest = strTransferEncoding \<and> enc = CTE_Undefined \<and> sc = WantsContentTransferEncodingStart"
  shows "\<exists>t. quiet_run c s [byte_of CHR '':''] out t \<and> at_header d ct enc sc t"
proof -
  let ?t = "s\<lparr>numCharsConsumed := numCharsConsumed s + 1, scannerState := sc\<rparr>"
  have n: "\<not> FwdLockConv_IsMimeHeaderNameChar (byte_of CHR '':'')" "strTransferEncoding \<noteq> strType"
    by (simp_all add: FwdLockConv_IsMimeHeaderNameChar_def strTransferEncoding_def strType_def)
  have "quiet_run c s [byte_of CHR '':''] out ?t"
    by (rule quiet_run_single) (use t sc n in \<open>auto simp: at_header_def holds_def PushChar_headers
      FwdLockConv_MatchMimeHeaders_def FwdLockConv_MatchHeaderName_def key_fields_def
      FwdLockConv_RecognizeMimeHeaderName_def Let_def\<close>)
  moreover have "at_header d ct enc sc ?t" using t by (simp add: at_header_def)
  ultimately show ?thesis by blast
qed

lemma content_type_space:
  assumes "at_header d ct enc WantsContentTypeStart s"
  shows "\<exists>t. quiet_run c s [SP] out t \<and> at_header d ct enc WantsContentTypeStart t"
proof -
  let ?t = "s\<lparr>numCharsConsumed := numCharsConsumed s + 1\<rparr>"
  have "quiet_run c s [SP] out ?t"
    by (rule quiet_run_single) (use assms in \<open>auto simp: at_header_def PushChar_headers
      FwdLockConv_MatchMimeHeaders_def FwdLockConv_MatchContentType_def key_fields_def
      FwdLockConv_IsMimeHeaderValueChar_def isgraph_def FwdLockConv_IsWhitespace_def\<close>)
  moreover have "at_header d ct enc WantsContentTypeStart ?t" using assms by (simp add: at_header_def)
  ultimately show ?thesis by blast
qed

lemma content_type_run:
  assumes "at_header d None enc WantsContentTypeStart s"
  shows "ct \<noteq> [] \<Longrightarrow> list_all FwdLockConv_IsMimeHeaderValueChar ct \<Longrightarrow>
    \<exists>t. quiet_run c s ct out t \<and> at_header d (Some (map tolower ct)) enc WantsContentType t"
proof (induction ct rule: rev_induct)
  case (snoc x ct)
  show ?case
  proof (cases "ct = []")
    case True
    from assms have "string_ok (contentType s)" "strLength (contentType s) = 0"
      by (auto simp: at_header_def string_ok_def)
    with StringAppend_holds [OF this(1), of "[]" "tolower x"] obtain str where
      str: "FwdLockConv_StringAppend (contentType s) (tolower x) [] = Some (Status_OK, str, [])"
        "holds str [tolower x]" by auto
    let ?t = "s\<lparr>numCharsConsumed := numCharsConsumed s + 1, contentType := str,
      scannerState := WantsContentType\<rparr>"
    have "quiet_run c s [x] out ?t"
      by (rule quiet_run_single) (use assms str snoc.prems in \<open>simp_all add: at_header_def
          PushChar_headers FwdLockConv_MatchMimeHeaders_def FwdLockConv_MatchContentType_def
          key_fields_def\<close>)
    moreover have "at_header d (Some [tolower x]) enc WantsContentType ?t"
      using assms str(2) by (simp add: at_header_def holds_def)
    ultimately show ?thesis using True by (intro exI [of _ ?t]) simp
  next
    case False
    with snoc obtain t where
      t: "quiet_run c s ct out t" "at_header d (Some (map tolower ct)) enc WantsContentType t" by auto
    then have "string_ok (contentType t)" by (simp add: at_header_def)
    from StringAppend_holds [OF this, of "map tolower ct" "tolower x"] t(2) obtain str where
      str: "FwdLockConv_StringAppend (contentType t) (tolower x) [] = Some (Status_OK, str, [])"
        "holds str (map tolower ct @ [tolower x])" by (auto simp: at_header_def)
    let ?t = "t\<lparr>numCharsConsumed := numCharsConsumed t + 1, contentType := str\<rparr>"
    have "quiet_run c t [x] out ?t"
      by (rule quiet_run_single) (use t str snoc.prems in \<open>simp_all add: at_header_def
          PushChar_headers FwdLockConv_MatchMimeHeaders_def FwdLockConv_MatchContentType_def
          key_fields_def\<close>)
    moreover have "at_header d (Some (map tolower (ct @ [x]))) enc WantsContentType ?t"
      using t(2) str(2) by (simp add: at_header_def holds_def)
    ultimately show ?thesis using t(1) by (intro exI [of _ ?t]) (auto intro: quiet_run_append)
  qed
qed simp

lemma header_line_end:
  assumes "at_header d ct enc sc s" "sc = WantsContentType \<or> sc = WantsContentTransferEncodingEnd"
  shows "\<exists>t. quiet_run c s [CR, LF] out t \<and> at_header d ct enc WantsMimeHeaderNameStart t"
proof -
  let ?t = "s\<lparr>numCharsConsumed := numCharsConsumed s + 2, scannerState := WantsMimeHeaderNameStart\<rparr>"
  have "quiet_run c s [CR, LF] out ?t"
    using assms by (auto simp: at_header_def PushChar_headers
      FwdLockConv_MatchMimeHeaders_def FwdLockConv_MatchContentType_def
      FwdLockConv_MatchTransferEncoding_def key_fields_def
      FwdLockConv_IsMimeHeaderValueChar_def isgraph_def Let_def)
  moreover have "at_header d ct enc WantsMimeHeaderNameStart ?t"
    using assms(1) by (simp add: at_header_def)
  ultimately show ?thesis by blast
qed

definition encoding_name :: "FwdLockConv_ContentTransferEncoding \<Rightarrow> bytes" where
  "encoding_name enc = (case enc of CTE_Base64 \<Rightarrow> bytes_of ''base64'' | _ \<Rightarrow> bytes_of ''binary'')"

lemma encoding_value_run:
  assumes "at_header d ct CTE_Undefined WantsContentTransferEncodingStart s" "enc \<noteq> CTE_Undefined"
  shows "\<exists>t. quiet_run c s (SP # encoding_name enc) out t
     \<and> at_header d ct enc WantsContentTransferEncodingEnd t"
proof -
  let ?t = "s\<lparr>numCharsConsumed := numCharsConsumed s + 7, contentTransferEncoding := enc,
    scannerState := WantsContentTransferEncodingEnd\<rparr>"
  have "quiet_run c s (SP # encoding_name enc) out ?t"
    using assms by (cases enc) (simp_all add: at_header_def PushChar_headers
      FwdLockConv_MatchMimeHeaders_def encoding_name_def FwdLockConv_IsWhitespace_def
      FwdLockConv_MatchTransferEncoding_def key_fields_def)
  moreover have "at_header d ct enc WantsContentTransferEncodingEnd ?t"
    using assms(1) by (simp add: at_header_def)
  ultimately show ?thesis by blast
qed

section \<open>The two header lines\<close>

definition content_type_line :: "bytes \<Rightarrow> bytes" where
  "content_type_line ct = bytes_of ''Content-Type: '' @ ct @ [CR, LF]"

definition encoding_line :: "FwdLockConv_ContentTransferEncoding \<Rightarrow> bytes" where
  "encoding_line enc = bytes_of ''Content-Transfer-Encoding: '' @ encoding_name enc @ [CR, LF]"

lemma content_type_line_run:
  assumes s: "at_header d None enc WantsMimeHeaderNameStart s"
    and ct: "ct \<noteq> []" "list_all FwdLockConv_IsMimeHeaderValueChar ct"
  shows "\<exists>t. quiet_run c s (content_type_line ct) out t
     \<and> at_header d (Some (map tolower ct)) enc WantsMimeHeaderNameStart t"
proof -
  let ?n = "bytes_of ''Content-Type''"
  have n: "list_all FwdLockConv_IsMimeHeaderNameChar ?n" "?n \<noteq> []" "map tolower ?n = strContent @ strType"
    by (simp_all add: FwdLockConv_IsMimeHeaderNameChar_def isgraph_def tolower_def strContent_def
        strType_def)
  from header_name_run [OF s n(2,1), of c out] obtain t1 where
    1: "quiet_run c s ?n out t1" "at_header d None enc WantsMimeHeaderName t1"
      "holds (mimeHeaderName t1) (strContent @ strType)" unfolding n(3) by blast
  from header_name_colon [OF 1(2,3), of WantsContentTypeStart c out] obtain t2 where
    2: "quiet_run c t1 [byte_of CHR '':''] out t2" "at_header d None enc WantsContentTypeStart t2" by auto
  from content_type_space [OF 2(2), of c out] obtain t3 where
    3: "quiet_run c t2 [SP] out t3" "at_header d None enc WantsContentTypeStart t3" by blast
  from content_type_run [OF 3(2) ct, of c out] obtain t4 where
    4: "quiet_run c t3 ct out t4" "at_header d (Some (map tolower ct)) enc WantsContentType t4" by blast
  from header_line_end [OF 4(2), of c out] obtain t5 where
    5: "quiet_run c t4 [CR, LF] out t5" "at_header d (Some (map tolower ct)) enc WantsMimeHeaderNameStart t5"
    by blast
  have "content_type_line ct = ?n @ [byte_of CHR '':''] @ [SP] @ ct @ [CR, LF]"
    by (simp add: content_type_line_def)
  with quiet_run_append [OF 1(1) quiet_run_append [OF 2(1) quiet_run_append [OF 3(1)
      quiet_run_append [OF 4(1) 5(1)]]]] 5(2)
  show ?thesis by auto
qed

lemma encoding_line_run:
  assumes s: "at_header d ct CTE_Undefined WantsMimeHeaderNameStart s" and enc: "enc \<noteq> CTE_Undefined"
  shows "\<exists>t. quiet_run c s (encoding_line enc) out t \<and> at_header d ct enc WantsMimeHeaderNameStart t"
proof -
  let ?n = "bytes_of ''Content-Transfer-Encoding''"
  have n: "list_all FwdLockConv_IsMimeHeaderNameChar ?n" "?n \<noteq> []"
    "map tolower ?n = strContent @ strTransferEncoding"
    by (simp_all add: FwdLockConv_IsMimeHeaderNameChar_def isgraph_def tolower_def strContent_def
        strTransferEncoding_def)
  from header_name_run [OF s n(2,1), of c out] obtain t1 where
    1: "quiet_run c s ?n out t1" "at_header d ct CTE_Undefined WantsMimeHeaderName t1"
      "holds (mimeHeaderName t1) (strContent @ strTransferEncoding)" unfolding n(3) by blast
  from header_name_colon [OF 1(2,3), of WantsContentTransferEncodingStart c out] obtain t2 where
    2: "quiet_run c t1 [byte_of CHR '':''] out t2"
      "at_header d ct CTE_Undefined WantsContentTransferEncodingStart t2" by auto
  from encoding_value_run [OF 2(2) enc, of c out] obtain t3 where
    3: "quiet_run c t2 (SP # encoding_name enc) out t3"
      "at_header d ct enc WantsContentTransferEncodingEnd t3" by blast
  from header_line_end [OF 3(2), of c out] obtain t4 where
    4: "quiet_run c t3 [CR, LF] out t4" "at_header d ct enc WantsMimeHeaderNameStart t4" by blast
  have "encoding_line enc = ?n @ [byte_of CHR '':''] @ (SP # encoding_name enc) @ [CR, LF]"
    by (simp add: encoding_line_def)
  with quiet_run_append [OF 1(1) quiet_run_append [OF 2(1) quiet_run_append [OF 3(1) 4(1)]]] 4(2)
  show ?thesis by auto
qed

section \<open>The end of the headers\<close>

text \<open>The header of the internal format for a content type and an encrypted session key.\<close>

definition file_header :: "bytes \<Rightarrow> bytes \<Rightarrow> bytes" where
  "file_header ct ekey =
     topHeaderTemplate @ [of_nat (length ct)] @ ct @ ekey @ replicate 40 0"

definition body_state :: "FwdLockConv_ContentTransferEncoding \<Rightarrow> FwdLockConv_ParserState" where
  "body_state enc = (if enc = CTE_Binary then WantsBinaryEncodedData else WantsBase64EncodedData)"

definition unsupported_types :: "bytes list" where
  "unsupported_types = [strApplicationVndOmaDrmRightsXml, strApplicationVndOmaDrmContent]"

lemma headers_end_run:
  assumes s: "at_header d (Some ct) enc WantsMimeHeaderNameStart s" "enc \<noteq> CTE_Undefined"
    and ct: "length ct \<le> 255" "ct \<notin> set unsupported_types"
    and ek: "length (pEncryptedSessionKey s) = FwdLockGlue_GetEncryptedKeyLength KEY_SIZE"
  shows "\<exists>u t out'. quiet_run c s [CR] out u \<and> FwdLockConv_PushChar c u LF out [] = Some (Status_OK, t, out', [])
    \<and> parserState t = body_state enc \<and> scannerState t = WantsByte1 \<and> delimiterMatchPos t = 0
    \<and> delimiter t = d \<and> ptr (contentType t) = Some ct \<and> strLength (contentType t) = length ct
    \<and> topHeader t = topHeaderTemplate @ [of_nat (length ct)]
    \<and> outBytes out' = file_header ct (pEncryptedSessionKey s) \<and> errorPos out' = errorPos out
    \<and> out_room t out'
    \<and> key_fields t = key_fields (s\<lparr>dataOffset := length (outBytes out')\<rparr>)
    \<and> numCharsConsumed t = numCharsConsumed s + 2"
proof -
  have "length (pEncryptedSessionKey s) = 48" using ek by (simp add: FwdLockGlue_GetEncryptedKeyLength_def)
  with s ct show ?thesis
    by (auto simp: at_header_def holds_def PushChar_headers FwdLockConv_MatchMimeHeaders_def
        FwdLockConv_MatchHeaderName_def FwdLockConv_IsMimeHeaderNameChar_def isgraph_def
        FwdLockConv_MatchHeadersEnd_def FwdLockConv_ApplyDefaults_def FwdLockConv_VerifyContentType_def
        FwdLockConv_WriteHeader_def unsupported_types_def file_header_def body_state_def
        out_room_def key_fields_def topHeaderTemplate_def Let_def
        replicate_add [of 20 20 "0 :: byte", simplified, symmetric])
qed

section \<open>A whole message\<close>

text \<open>
  The encoded body \<open>text\<close> of the data \<open>bs\<close> up to and including the close delimiter: the
  data itself, which must not contain the delimiter, or any layout of its base64 encoding.
\<close>

definition encodes_body ::
  "FwdLockConv_ContentTransferEncoding \<Rightarrow> bytes \<Rightarrow> bytes \<Rightarrow> bytes \<Rightarrow> bool" where
  "encodes_body enc d bs body \<longleftrightarrow>
     (case enc of
        CTE_Binary \<Rightarrow> \<not> sublist d bs \<and> body = bs @ d @ [DASH, DASH]
      | CTE_Base64 \<Rightarrow> (\<exists>lines eol. laid_out (base64_encode bs) lines \<and> eol \<in> set [[LF], [CR, LF]]
                        \<and> body = lines @ eol @ drop 2 d @ [DASH, DASH])
      | CTE_Undefined \<Rightarrow> False)"

definition message ::
  "bytes \<Rightarrow> bytes \<Rightarrow> FwdLockConv_ContentTransferEncoding \<Rightarrow> bytes \<Rightarrow> bytes" where
  "message b ct enc body =
     ([DASH, DASH] @ b @ [CR, LF]) @ content_type_line ct @ encoding_line enc @ [CR, LF] @ body"

definition content_type_ok :: "bytes \<Rightarrow> bool" where
  "content_type_ok ct \<longleftrightarrow>
     ct \<noteq> [] \<and> length ct \<le> 255 \<and> list_all FwdLockConv_IsMimeHeaderValueChar ct \<and>
     map tolower ct \<notin> set unsupported_types"

text \<open>A session as \<open>FwdLockConv_OpenSession\<close> leaves it.\<close>

definition opened :: "('rk, 'hc) FwdLockConv_Session \<Rightarrow> bool" where
  "opened s \<longleftrightarrow>
     parserState s = WantsOpenDelimiter \<and> scannerState s = WantsFirstDash \<and> numCharsConsumed s = 0 \<and>
     delimiterMatchPos s = 0 \<and> mimeHeaderName s = nullString \<and> contentType s = nullString \<and>
     contentTransferEncoding s = CTE_Undefined \<and> keyStreamIndex s = -1 \<and>
     length (pEncryptedSessionKey s) = FwdLockGlue_GetEncryptedKeyLength KEY_SIZE \<and>
     counter s = take AES_BLOCK_SIZE (pEncryptedSessionKey s)"

text \<open>Everything in front of the line feed that ends the headers.\<close>

definition message_headers :: "bytes \<Rightarrow> bytes \<Rightarrow> FwdLockConv_ContentTransferEncoding \<Rightarrow> bytes" where
  "message_headers b ct enc =
     (([DASH, DASH] @ b @ [CR, LF]) @ content_type_line ct @ encoding_line enc) @ [CR]"

lemma message_split: "message b ct enc body = message_headers b ct enc @ LF # body"
  by (simp add: message_def message_headers_def)

lemma headers_run:
  assumes s: "opened s" and b: "boundary_ok b" and ct: "content_type_ok ct" and enc: "enc \<noteq> CTE_Undefined"
  shows "\<exists>u t out'. quiet_run c s (message_headers b ct enc) out u
    \<and> FwdLockConv_PushChar c u LF out [] = Some (Status_OK, t, out', [])
    \<and> parserState t = body_state enc \<and> scannerState t = WantsByte1 \<and> delimiterMatchPos t = 0
    \<and> delimiter t = delimiter_of b \<and> ptr (contentType t) = Some (map tolower ct)
    \<and> strLength (contentType t) = length ct
    \<and> topHeader t = topHeaderTemplate @ [of_nat (length ct)]
    \<and> outBytes out' = file_header (map tolower ct) (pEncryptedSessionKey s)
    \<and> out_room t out' \<and> key_fields t = key_fields (s\<lparr>dataOffset := length (outBytes out')\<rparr>)"
proof -
  let ?s1 = "s\<lparr>parserState := WantsMimeHeaders, scannerState := WantsMimeHeaderNameStart,
    delimiter := delimiter_of b, numCharsConsumed := numCharsConsumed s + int (length b + 4)\<rparr>"
  have 1: "quiet_run c s ([DASH, DASH] @ b @ [CR, LF]) out ?s1"
    by (rule open_delimiter_run) (use s b in \<open>simp_all add: opened_def\<close>)
  have h1: "at_header (delimiter_of b) None CTE_Undefined WantsMimeHeaderNameStart ?s1"
    using s by (simp add: at_header_def opened_def string_ok_def nullString_def)
  from content_type_line_run [OF h1, of ct c out] ct obtain s2 where
    2: "quiet_run c ?s1 (content_type_line ct) out s2"
      "at_header (delimiter_of b) (Some (map tolower ct)) CTE_Undefined WantsMimeHeaderNameStart s2"
    by (auto simp: content_type_ok_def)
  from encoding_line_run [OF 2(2) enc, of c out] obtain s3 where
    3: "quiet_run c s2 (encoding_line enc) out s3"
      "at_header (delimiter_of b) (Some (map tolower ct)) enc WantsMimeHeaderNameStart s3"
    by blast
  note run = quiet_run_append [OF 1 quiet_run_append [OF 2(1) 3(1)]]
  note kf = quiet_runD(2) [OF run]
  then have ek: "pEncryptedSessionKey s3 = pEncryptedSessionKey s" by (simp add: key_fields_def)
  from headers_end_run [OF 3(2) enc, of c out] ct s ek obtain u t out' where
    4: "quiet_run c s3 [CR] out u" "FwdLockConv_PushChar c u LF out [] = Some (Status_OK, t, out', [])"
      "parserState t = body_state enc" "scannerState t = WantsByte1" "delimiterMatchPos t = 0"
      "delimiter t = delimiter_of b" "ptr (contentType t) = Some (map tolower ct)"
      "strLength (contentType t) = length ct" "topHeader t = topHeaderTemplate @ [of_nat (length ct)]"
      "outBytes out' = file_header (map tolower ct) (pEncryptedSessionKey s)" "out_room t out'"
      "key_fields t = key_fields (s3\<lparr>dataOffset := length (outBytes out')\<rparr>)"
    by (auto simp: content_type_ok_def opened_def simp del: quiet_run.simps)
  from quiet_run_append [OF run 4(1)] have "quiet_run c s (message_headers b ct enc) out u"
    by (simp only: message_headers_def)
  moreover have "key_fields (s3\<lparr>dataOffset := n\<rparr>) = key_fields (s\<lparr>dataOffset := n\<rparr>)" for n
    using kf by (simp add: key_fields_def)
  with 4(12) have "key_fields t = key_fields (s\<lparr>dataOffset := length (outBytes out')\<rparr>)" by (simp only:)
  ultimately show ?thesis using 4(2-11) by blast
qed

end
