(* ===== verification/FwdLockChunks.thy ===== *)
theory FwdLockChunks
  imports FwdLockMessage
begin

text \<open>
  A message that arrives in pieces: any split of it into buffers, one call of
  \<open>FwdLockConv_ConvertBuffer\<close> for each. A call resets the data region of the session and the
  bytes produced; what a scanner keeps is not touched (locale \<open>resumable_scanner\<close>), and hashing
  the pieces is hashing the whole.
\<close>

definition mac_stream :: "('rk, 'hc) crypto \<Rightarrow> bool" where
  "mac_stream c \<longleftrightarrow>
     (\<forall>ctx a b. HMAC_Update c (HMAC_Update c ctx a) b = HMAC_Update c ctx (a @ b)) \<and>
     (\<forall>ctx. HMAC_Update c ctx [] = ctx)"

lemma mac_streamD:
  assumes "mac_stream c"
  shows "HMAC_Update c (HMAC_Update c ctx a) b = HMAC_Update c ctx (a @ b)" "HMAC_Update c ctx [] = ctx"
  using assms by (simp_all add: mac_stream_def)

abbreviation cleared :: "('rk, 'hc) FwdLockConv_Session \<Rightarrow> ('rk, 'hc) FwdLockConv_Session" where
  "cleared s \<equiv> s\<lparr>dataOffset := 0, numDataBytes := 0\<rparr>"

abbreviation emptied :: "FwdLockConv_ConvertData_Output \<Rightarrow> FwdLockConv_ConvertData_Output" where
  "emptied out \<equiv> out\<lparr>outBytes := []\<rparr>"

text \<open>Every buffer is converted with \<open>Status_OK\<close>, and \<open>written\<close> is what the calls produced.\<close>

fun converts ::
  "('rk, 'hc) crypto \<Rightarrow> ('rk, 'hc) FwdLockConv_Session \<Rightarrow> FwdLockConv_ConvertData_Output \<Rightarrow> bytes list
     \<Rightarrow> ('rk, 'hc) FwdLockConv_Session \<Rightarrow> FwdLockConv_ConvertData_Output \<Rightarrow> bytes \<Rightarrow> bool" where
  "converts c s out [] t out' written \<longleftrightarrow> t = s \<and> out' = out \<and> written = []"
| "converts c s out (buf # bufs) t out' written \<longleftrightarrow>
     (\<exists>s1 o1 w. FwdLockConv_ConvertBuffer c s buf out [] = Some (Status_OK, s1, o1, []) \<and>
        (outBytes o1 \<noteq> [] \<longrightarrow> pBuffer o1 \<noteq> None) \<and> converts c s1 o1 bufs t out' w \<and>
        written = outBytes o1 @ w)"

lemma converts_append:
  "converts c s out xs s1 o1 w1 \<Longrightarrow> converts c s1 o1 ys t out' w2 \<Longrightarrow> converts c s out (xs @ ys) t out' (w1 @ w2)"
  by (induction xs arbitrary: s out w1) fastforce+

section \<open>The headers\<close>

lemma quiet_buffer:
  assumes "mac_stream c" "quiet_run c (cleared s) buf (emptied out) v"
  shows "FwdLockConv_ConvertBuffer c s buf out [] = Some (Status_OK, v, emptied out, [])"
    "cleared v = v"
proof -
  note q = quiet_runD [OF assms(2)]
  from q(2) have "dataOffset v = 0" "numDataBytes v = 0" by (simp_all add: key_fields_def)
  with q(1) mac_streamD(2) [OF assms(1)]
  show "FwdLockConv_ConvertBuffer c s buf out [] = Some (Status_OK, v, emptied out, [])" "cleared v = v"
    by (simp_all add: FwdLockConv_ConvertBuffer_def)
qed

lemma quiet_chunks:
  assumes m: "mac_stream c"
  shows "quiet_run c (cleared s) hs (emptied out) u \<Longrightarrow> concat bufs = hs @ x # ys \<Longrightarrow>
    \<exists>bufs1 hs2 ys1 bufs2 v o1. bufs = bufs1 @ (hs2 @ x # ys1) # bufs2 \<and> ys = ys1 @ concat bufs2
      \<and> converts c s out bufs1 v o1 [] \<and> emptied o1 = emptied out
      \<and> quiet_run c (cleared v) hs2 (emptied out) u"
proof (induction bufs arbitrary: s out hs)
  case (Cons buf bufs)
  from Cons.prems(2) have "buf @ concat bufs = hs @ x # ys" by simp
  then consider (in_headers) us where "hs = buf @ us" "concat bufs = us @ x # ys"
    | (over) ys1 where "buf = hs @ x # ys1" "ys = ys1 @ concat bufs"
    by (auto simp: append_eq_append_conv2 append_eq_Cons_conv Cons_eq_append_conv)
  then show ?case
  proof cases
    case in_headers
    from Cons.prems(1) obtain v where
      v: "quiet_run c (cleared s) buf (emptied out) v" "quiet_run c v us (emptied out) u"
      unfolding in_headers(1) quiet_run_append_iff by blast
    note b = quiet_buffer [OF m v(1)]
    have "quiet_run c (cleared v) us (emptied (emptied out)) u" using v(2) b(2) by simp
    from Cons.IH [OF this in_headers(2)] obtain bufs1 hs2 ys1 bufs2 v' o1 where
      i: "bufs = bufs1 @ (hs2 @ x # ys1) # bufs2" "ys = ys1 @ concat bufs2"
        "converts c v (emptied out) bufs1 v' o1 []" "emptied o1 = emptied out"
        "quiet_run c (cleared v') hs2 (emptied out) u" by auto
    have "converts c s out (buf # bufs1) v' o1 []" using b(1) i(3) by simp
    with i show ?thesis by (metis append_Cons)
  next
    case over
    have "converts c s out [] s out []" by simp
    with Cons.prems(1) over show ?thesis by (metis append_Nil)
  qed
qed simp

section \<open>The body\<close>

locale resumable_scanner = body_scanner c stp rel
  for c :: "('rk, 'hc) crypto" and stp :: "'a \<Rightarrow> byte \<Rightarrow> ('a \<times> bytes) option"
    and rel :: "'a \<Rightarrow> ('rk, 'hc) FwdLockConv_Session \<Rightarrow> bool" +
  assumes rel_cleared: "rel a (cleared s) = rel a s"
    and rel_context: "rel a (s\<lparr>signingContext := hc\<rparr>) = rel a s"
begin

text \<open>
  One call, from the state in which \<open>pre\<close> has been pushed already: what follows \<open>pre\<close> in the
  buffer is released, encrypted and hashed.
\<close>

lemma buffer_accept:
  assumes m: "mac_stream c"
    and pre: "FwdLockConv_PushChars c (cleared s) pre (emptied out) [] = Some (Status_OK, t, o1, [])"
    and t: "rel a t" "machine_run stp a ys = Some (a', em)" "enc_in_pos c rk nonce n t" "out_room t o1"
      "dataOffset t = length (outBytes o1)" "numDataBytes t = 0"
  obtains s' out' where
    "FwdLockConv_ConvertBuffer c s (pre @ ys) out [] = Some (Status_OK, s', out', [])"
    "rel a' s'" "enc_in_pos c rk nonce (n + length em) s'" "out_room s' out'"
    "outBytes out' = outBytes o1 @ xor_stream (ctr_byte c rk nonce) n em"
    "signingContext s' = HMAC_Update c (signingContext t) (xor_stream (ctr_byte c rk nonce) n em)"
    "contentType s' = contentType t" "topHeader s' = topHeader t"
    "pEncryptedSessionKey s' = pEncryptedSessionKey t"
proof -
  obtain s1 o2 where
    f: "FwdLockConv_FlushBytes c t em o1 [] = Some (Status_OK, s1, o2, [])"
      "outBytes o2 = outBytes o1 @ xor_stream (ctr_byte c rk nonce) n em"
      "enc_in_pos c rk nonce (n + length em) s1" "out_room s1 o2" "write_frame t s1"
      "numDataBytes s1 = numDataBytes t + length em"
    by (rule released_output [OF t(3,4), of em]) blast
  from run_accept [OF t(1,2) f(1)] obtain s2 where
    r: "FwdLockConv_PushChars c t ys o1 [] = Some (Status_OK, s2, o2, [])" "rel a' s2" "scan_frame s1 s2"
    by blast
  note W = write_frame_fields [OF f(5)] and S = scan_frame_fields [OF r(3)]
  have p: "FwdLockConv_PushChars c (cleared s) (pre @ ys) (emptied out) [] = Some (Status_OK, s2, o2, [])"
    by (simp only: PushChars_append pre and_then_simps r(1))
  have d: "take (numDataBytes s2) (drop (dataOffset s2) (outBytes o2)) = xor_stream (ctr_byte c rk nonce) n em"
    using f(2,6) t(5,6) W S by simp
  let ?s' = "s2\<lparr>signingContext := HMAC_Update c (signingContext s2) (xor_stream (ctr_byte c rk nonce) n em)\<rparr>"
  show thesis
  proof (rule that [of ?s' o2])
    show "FwdLockConv_ConvertBuffer c s (pre @ ys) out [] = Some (Status_OK, ?s', o2, [])"
      using p d by (simp add: FwdLockConv_ConvertBuffer_def)
    show "rel a' ?s'" using r(2) rel_context by simp
    have "enc_in_pos c rk nonce (n + length em) ?s' = enc_in_pos c rk nonce (n + length em) s1"
      by (rule enc_in_pos_cong) (simp_all add: S)
    with f(3) show "enc_in_pos c rk nonce (n + length em) ?s'" by simp
    show "out_room ?s' o2" using f(4) S(13) by (auto simp: out_room_def split: option.splits)
  qed (use W S f(2) in simp_all)
qed

lemma chunks_accept:
  assumes m: "mac_stream c"
  shows "rel a s \<Longrightarrow> machine_run stp a (concat bufs) = Some (a', em) \<Longrightarrow> enc_in_pos c rk nonce n s \<Longrightarrow>
    out_room s out \<Longrightarrow>
    \<exists>t out'. converts c s out bufs t out' (xor_stream (ctr_byte c rk nonce) n em) \<and> rel a' t
      \<and> signingContext t = HMAC_Update c (signingContext s) (xor_stream (ctr_byte c rk nonce) n em)
      \<and> contentType t = contentType s \<and> topHeader t = topHeader s
      \<and> pEncryptedSessionKey t = pEncryptedSessionKey s"
proof (induction bufs arbitrary: a s out n em)
  case Nil
  then show ?case using mac_streamD(2) [OF m] by auto
next
  case (Cons buf bufs)
  from Cons.prems(2) obtain a1 em1 em2 where
    r: "machine_run stp a buf = Some (a1, em1)" "machine_run stp a1 (concat bufs) = Some (a', em2)"
      "em = em1 @ em2"
    by (auto simp: machine_run_append split: option.splits)
  have start: "rel a (cleared s)" "enc_in_pos c rk nonce n (cleared s)" "out_room (cleared s) (emptied out)"
    using Cons.prems(1,3,4) rel_cleared by (auto simp: enc_in_pos_def out_room_def split: option.splits)
  obtain s1 o1 where b: "FwdLockConv_ConvertBuffer c s buf out [] = Some (Status_OK, s1, o1, [])"
    "rel a1 s1" "enc_in_pos c rk nonce (n + length em1) s1" "out_room s1 o1"
    "outBytes o1 = xor_stream (ctr_byte c rk nonce) n em1"
    "signingContext s1 = HMAC_Update c (signingContext s) (xor_stream (ctr_byte c rk nonce) n em1)"
    "contentType s1 = contentType s" "topHeader s1 = topHeader s"
    "pEncryptedSessionKey s1 = pEncryptedSessionKey s"
    by (rule buffer_accept [OF m, of s "[]" out "cleared s" "emptied out" a buf a1 em1 rk nonce n])
      (use start r in simp_all)
  from Cons.IH [OF b(2) r(2) b(3,4)] obtain t out' where
    i: "converts c s1 o1 bufs t out' (xor_stream (ctr_byte c rk nonce) (n + length em1) em2)" "rel a' t"
      "signingContext t = HMAC_Update c (signingContext s1) (xor_stream (ctr_byte c rk nonce) (n + length em1) em2)"
      "contentType t = contentType s1" "topHeader t = topHeader s1"
      "pEncryptedSessionKey t = pEncryptedSessionKey s1" by blast
  have "pBuffer o1 \<noteq> None" using b(4) by (auto simp: out_room_def split: option.splits)
  with b(1,5) i(1) have "converts c s out (buf # bufs) t out' (xor_stream (ctr_byte c rk nonce) n em)"
    by (auto simp: r(3) xor_stream_append)
  moreover have "signingContext t = HMAC_Update c (signingContext s) (xor_stream (ctr_byte c rk nonce) n em)"
    by (simp only: i(3) b(6) r(3) xor_stream_append mac_streamD(1) [OF m])
  ultimately show ?case using i(2,4-6) unfolding b(7-9) by blast
qed

text \<open>Any split of headers and body.\<close>

lemma message_chunks:
  assumes m: "mac_stream c" and hs: "quiet_run c (cleared s) hs (emptied out) u"
    and lf: "FwdLockConv_PushChar c u x (emptied out) [] = Some (Status_OK, t0, o0, [])"
    and t: "rel a t0" "machine_run stp a ys = Some (a', em)" "enc_in_pos c rk nonce n t0" "out_room t0 o0"
      "dataOffset t0 = length (outBytes o0)" "numDataBytes t0 = 0"
    and bufs: "concat bufs = hs @ x # ys"
  shows "\<exists>t out'. converts c s out bufs t out' (outBytes o0 @ xor_stream (ctr_byte c rk nonce) n em) \<and> rel a' t
      \<and> signingContext t = HMAC_Update c (signingContext t0) (xor_stream (ctr_byte c rk nonce) n em)
      \<and> contentType t = contentType t0 \<and> topHeader t = topHeader t0
      \<and> pEncryptedSessionKey t = pEncryptedSessionKey t0"
proof -
  from quiet_chunks [OF m hs bufs] obtain bufs1 hs2 ys1 bufs2 v o1 where
    q: "bufs = bufs1 @ ((hs2 @ [x]) @ ys1) # bufs2" "ys = ys1 @ concat bufs2"
      "converts c s out bufs1 v o1 []" "emptied o1 = emptied out"
      "quiet_run c (cleared v) hs2 (emptied out) u" by auto
  from t(2) obtain a1 em1 em2 where
    r: "machine_run stp a ys1 = Some (a1, em1)" "machine_run stp a1 (concat bufs2) = Some (a', em2)"
      "em = em1 @ em2"
    by (auto simp: q(2) machine_run_append split: option.splits)
  have "FwdLockConv_PushChars c (cleared v) hs2 (emptied o1) [] = Some (Status_OK, u, emptied o1, [])"
    using quiet_runD(1) [OF q(5)] by (simp only: q(4))
  moreover have "FwdLockConv_PushChars c u [x] (emptied o1) [] = Some (Status_OK, t0, o0, [])"
    using lf by (simp add: q(4))
  ultimately have pre: "FwdLockConv_PushChars c (cleared v) (hs2 @ [x]) (emptied o1) [] = Some (Status_OK, t0, o0, [])"
    by (simp only: PushChars_append and_then_simps)
  obtain s1 o2 where b: "FwdLockConv_ConvertBuffer c v ((hs2 @ [x]) @ ys1) o1 [] = Some (Status_OK, s1, o2, [])"
    "rel a1 s1" "enc_in_pos c rk nonce (n + length em1) s1" "out_room s1 o2"
    "outBytes o2 = outBytes o0 @ xor_stream (ctr_byte c rk nonce) n em1"
    "signingContext s1 = HMAC_Update c (signingContext t0) (xor_stream (ctr_byte c rk nonce) n em1)"
    "contentType s1 = contentType t0" "topHeader s1 = topHeader t0"
    "pEncryptedSessionKey s1 = pEncryptedSessionKey t0"
    by (rule buffer_accept [OF m pre t(1) r(1) t(3-6)])
  from chunks_accept [OF m b(2) r(2) b(3,4)] obtain t1 out' where
    i: "converts c s1 o2 bufs2 t1 out' (xor_stream (ctr_byte c rk nonce) (n + length em1) em2)" "rel a' t1"
      "signingContext t1 = HMAC_Update c (signingContext s1) (xor_stream (ctr_byte c rk nonce) (n + length em1) em2)"
      "contentType t1 = contentType s1" "topHeader t1 = topHeader s1"
      "pEncryptedSessionKey t1 = pEncryptedSessionKey s1" by blast
  have "pBuffer o2 \<noteq> None" using b(4) by (auto simp: out_room_def split: option.splits)
  with b(1) i(1) have "converts c v o1 (((hs2 @ [x]) @ ys1) # bufs2) t1 out'
      (outBytes o2 @ xor_stream (ctr_byte c rk nonce) (n + length em1) em2)" by auto
  from converts_append [OF q(3) this]
  have "converts c s out bufs t1 out' (outBytes o0 @ xor_stream (ctr_byte c rk nonce) n em)"
    by (simp only: q(1) b(5) r(3) xor_stream_append append_assoc append_Nil)
  moreover have "signingContext t1 = HMAC_Update c (signingContext t0) (xor_stream (ctr_byte c rk nonce) n em)"
    by (simp only: i(3) b(6) r(3) xor_stream_append mac_streamD(1) [OF m])
  ultimately show ?thesis using i(2,4-6) unfolding b(7-9) by blast
qed

end

interpretation bin_chunks: resumable_scanner c "bin_step d" "bin_rel d" for c d
  by unfold_locales simp_all

interpretation b64_chunks: resumable_scanner c "b64_step d" "b64_rel d" for c d
  by unfold_locales simp_all

section \<open>A whole message\<close>

lemma message_converted:
  assumes c: "mac_stream c" and bc: "block_cipher c" and s: "opened s"
    and m: "boundary_ok b" "content_type_ok ct" "encodes_body enc (delimiter_of b) bs body"
    and bufs: "concat bufs = message b ct enc body @ rest"
  shows "\<exists>t out'. converts c s out bufs t out' (file_header (map tolower ct) (pEncryptedSessionKey s)
        @ xor_stream (ctr_byte c (encryptionRoundKeys s) (counter s)) 0 bs)
    \<and> parserState t = Done
    \<and> signingContext t = HMAC_Update c (signingContext s)
        (xor_stream (ctr_byte c (encryptionRoundKeys s) (counter s)) 0 bs)
    \<and> ptr (contentType t) = Some (map tolower ct) \<and> strLength (contentType t) = length ct
    \<and> topHeader t = topHeaderTemplate @ [of_nat (length ct)]
    \<and> pEncryptedSessionKey t = pEncryptedSessionKey s"
proof -
  let ?d = "delimiter_of b"
  have enc: "enc \<noteq> CTE_Undefined" using m(3) by (auto simp: encodes_body_def)
  have d: "delimiter_ok ?d" by (rule delimiter_of_ok [OF m(1)])
  have o: "opened (cleared s)" using s by (simp add: opened_def)
  from headers_run [OF o m(1,2) enc, of c "emptied out"] obtain u t0 o0 where
    h: "quiet_run c (cleared s) (message_headers b ct enc) (emptied out) u"
      "FwdLockConv_PushChar c u LF (emptied out) [] = Some (Status_OK, t0, o0, [])" and
    t0: "parserState t0 = body_state enc" "scannerState t0 = WantsByte1" "delimiterMatchPos t0 = 0"
      "delimiter t0 = ?d" and
    f: "ptr (contentType t0) = Some (map tolower ct)" "strLength (contentType t0) = length ct"
      "topHeader t0 = topHeaderTemplate @ [of_nat (length ct)]"
      "outBytes o0 = file_header (map tolower ct) (pEncryptedSessionKey s)" "out_room t0 o0"
      "key_fields t0 = key_fields ((cleared s)\<lparr>dataOffset := length (outBytes o0)\<rparr>)"
    by auto
  from f(6) have kf: "pEncryptedSessionKey t0 = pEncryptedSessionKey s"
    "encryptionRoundKeys t0 = encryptionRoundKeys s" "signingContext t0 = signingContext s"
    "counter t0 = counter s" "keyStreamIndex t0 = keyStreamIndex s"
    "dataOffset t0 = length (outBytes o0)" "numDataBytes t0 = 0"
    by (simp_all add: key_fields_def)
  have pos: "enc_in_pos c (encryptionRoundKeys s) (counter s) 0 t0"
    using s kf bc by (simp add: enc_in_pos_def opened_def FwdLockGlue_GetEncryptedKeyLength_def)
  have all: "concat bufs = message_headers b ct enc @ LF # (body @ rest)"
    by (simp add: bufs message_split)
  have "\<exists>t out'. converts c s out bufs t out' (outBytes o0 @ xor_stream (ctr_byte c (encryptionRoundKeys s) (counter s)) 0 bs)
      \<and> parserState t = Done
      \<and> signingContext t = HMAC_Update c (signingContext t0) (xor_stream (ctr_byte c (encryptionRoundKeys s) (counter s)) 0 bs)
      \<and> contentType t = contentType t0 \<and> topHeader t = topHeader t0
      \<and> pEncryptedSessionKey t = pEncryptedSessionKey t0"
  proof (cases enc)
    case CTE_Binary
    then have b: "\<not> sublist ?d bs" "body = bs @ ?d @ [DASH, DASH]" using m(3) by (simp_all add: encodes_body_def)
    have r: "bin_rel ?d (BinData 0) t0" using t0 d CTE_Binary by (simp add: bin_rel_start body_state_def)
    have run: "machine_run (bin_step ?d) (BinData 0) (body @ rest) = Some (BinDone, bs)"
      using bin_run_message [OF d b(1), of rest] by (simp add: b(2))
    from bin_chunks.message_chunks [OF c h r run pos f(5) kf(6,7) all] show ?thesis
      using bin_rel_parser by fastforce
  next
    case CTE_Base64
    then obtain lines eol where b: "laid_out (base64_encode bs) lines" "eol \<in> set [[LF], [CR, LF]]"
      "body = lines @ eol @ drop 2 ?d @ [DASH, DASH]" using m(3) by (auto simp: encodes_body_def)
    have r: "b64_rel ?d (B64Byte1 False) t0" using t0 d CTE_Base64 by (simp add: b64_rel_start body_state_def)
    have run: "machine_run (b64_step ?d) (B64Byte1 False) (body @ rest) = Some (B64Done, bs)"
      using b64_run_message [OF d b(1,2), of rest] by (simp add: b(3))
    from b64_chunks.message_chunks [OF c h r run pos f(5) kf(6,7) all] show ?thesis
      using b64_rel_parser by fastforce
  qed (use enc in simp)
  with f kf show ?thesis by auto
qed

section \<open>The read loop\<close>

text \<open>The loop of \<open>FwdLockConv_ConvertOpenFile\<close> writes what the calls produce.\<close>

lemma ConvertLoop_converts:
  assumes "converts c s out bufs t out' written" "list_all (\<lambda>buf. buf \<noteq> [] \<and> length buf \<le> READ_BUFFER_SIZE) bufs"
    and "sessionPtrs w ! i = Some s" "i < MAX_NUM_SESSIONS" "length (sessionPtrs w) = MAX_NUM_SESSIONS"
    and "convHeap w = []" "writeLimits f = []" "outPos f = length (fileBytes f)"
  shows "FwdLockConv_ConvertLoop c (int i) (map Some bufs) out epos f w =
    Some (Status_OK, out', epos, f\<lparr>fileBytes := fileBytes f @ written, outPos := outPos f + length written\<rparr>,
      w\<lparr>sessionPtrs := (sessionPtrs w)[i := Some t]\<rparr>)"
  using assms
proof (induction bufs arbitrary: s out written f w)
  case Nil
  then have "(sessionPtrs w)[i := Some s] = sessionPtrs w" by (metis list_update_id)
  with Nil show ?case by simp
next
  case (Cons buf bufs)
  from Cons.prems(1) obtain s1 o1 wr where
    b: "FwdLockConv_ConvertBuffer c s buf out [] = Some (Status_OK, s1, o1, [])"
      "outBytes o1 \<noteq> [] \<longrightarrow> pBuffer o1 \<noteq> None" "converts c s1 o1 bufs t out' wr" "written = outBytes o1 @ wr"
    by auto
  let ?w1 = "w\<lparr>sessionPtrs := (sessionPtrs w)[i := Some s1]\<rparr>"
  let ?f1 = "f\<lparr>fileBytes := fileBytes f @ outBytes o1, outPos := outPos f + length (outBytes o1)\<rparr>"
  have cd: "FwdLockConv_ConvertData c (int i) (Some buf) (Some out) w = Some (Status_OK, Some o1, ?w1)"
    using Cons.prems(3-6) b(1) by (cases w) (simp add: FwdLockConv_ConvertData_def FwdLockConv_IsValidSession_def)
  have wr: "fpWriteFunc (outBytes o1) f = (length (outBytes o1), ?f1)"
    using Cons.prems(7,8) by (cases f) (simp add: fpWriteFunc_def Let_def)
  have f1: "outBytes o1 = [] \<Longrightarrow> ?f1 = f" by (cases f) simp
  have ih: "FwdLockConv_ConvertLoop c (int i) (map Some bufs) o1 epos ?f1 ?w1 =
    Some (Status_OK, out', epos, ?f1\<lparr>fileBytes := fileBytes ?f1 @ wr, outPos := outPos ?f1 + length wr\<rparr>,
      ?w1\<lparr>sessionPtrs := (sessionPtrs ?w1)[i := Some t]\<rparr>)"
    by (rule Cons.IH [OF b(3)]) (use Cons.prems in simp_all)
  have "FwdLockConv_ConvertLoop c (int i) (map Some (buf # bufs)) out epos f w
      = FwdLockConv_ConvertLoop c (int i) (map Some bufs) o1 epos ?f1 ?w1"
    using Cons.prems(2) cd wr b(2) f1 by (cases "outBytes o1 = []") auto
  with ih show ?case by (simp add: b(4))
qed

end
