(* ===== verification/FwdLockTable.thy ===== *)
theory FwdLockTable
  imports FwdLockConvApi FwdLockFile
begin

text \<open>
  The session tables. Converter and decoder both keep a fixed array of slots; the converter
  takes the first free one, the decoder probes from the slot the file descriptor selects. The
  locale \<open>slot_table\<close> is what both promise, and what follows from it for the number of open
  sessions.
\<close>

section \<open>The contract\<close>

locale slot_table =
  fixes slots :: "'t \<Rightarrow> 's option list"
    and cap :: nat
    and can_alloc :: "'t \<Rightarrow> bool"
    and acquire :: "'t \<Rightarrow> nat option \<times> 't"
    and release :: "nat \<Rightarrow> 't \<Rightarrow> 't option"
    and fresh :: 's
  assumes acquire_slot: "length (slots t) = cap \<Longrightarrow> acquire t = (Some i, t') \<Longrightarrow>
      i < cap \<and> slots t ! i = None \<and> slots t' = (slots t)[i := Some fresh]"
    and acquire_none: "length (slots t) = cap \<Longrightarrow> acquire t = (None, t') \<Longrightarrow>
      slots t' = slots t \<and> (None \<notin> set (slots t) \<or> \<not> can_alloc t)"
    and release_slot: "length (slots t) = cap \<Longrightarrow> i < cap \<Longrightarrow> slots t ! i \<noteq> None \<Longrightarrow>
      \<exists>t'. release i t = Some t' \<and> slots t' = (slots t)[i := None]"
    and release_none: "length (slots t) = cap \<Longrightarrow> i < cap \<Longrightarrow> slots t ! i = None \<Longrightarrow> release i t = None"
begin

lemma acquire_length:
  assumes "length (slots t) = cap" "acquire t = (r, t')"
  shows "length (slots t') = cap"
proof (cases r)
  case None
  with acquire_none [of t t'] assms show ?thesis by simp
next
  case (Some i)
  with acquire_slot [of t i t'] assms show ?thesis by simp
qed

lemma release_length:
  "length (slots t) = cap \<Longrightarrow> i < cap \<Longrightarrow> release i t = Some t' \<Longrightarrow> length (slots t') = cap"
  using release_slot [of t i] release_none [of t i] by (cases "slots t ! i = None") auto

text \<open>Acquiring fails only when every slot is in use or there is no memory.\<close>

lemma acquire_succeeds:
  assumes "length (slots t) = cap" "None \<in> set (slots t)" "can_alloc t"
  obtains i t' where "acquire t = (Some i, t')"
proof (cases "acquire t")
  case (Pair r t')
  with acquire_none [of t t'] assms that show ?thesis by (cases r) auto
qed

text \<open>Other sessions are not disturbed.\<close>

lemma acquire_others:
  "length (slots t) = cap \<Longrightarrow> acquire t = (Some i, t') \<Longrightarrow> j \<noteq> i \<Longrightarrow> slots t' ! j = slots t ! j"
  using acquire_slot [of t i t'] by auto

text \<open>A slot that has been released can be acquired again.\<close>

lemma release_acquire:
  assumes "length (slots t) = cap" "i < cap" "release i t = Some t'" "can_alloc t'"
  obtains j t'' where "acquire t' = (Some j, t'')"
proof -
  have "slots t ! i \<noteq> None" using release_none [of t i] assms by auto
  with release_slot [of t i] assms have sl: "slots t' = (slots t)[i := None]" by auto
  with assms have "None \<in> set (slots t')" by (auto simp: set_update_memI)
  with acquire_succeeds [of t'] assms sl that show thesis by auto
qed

end

section \<open>The converter's table\<close>

lemma first_free_None: "first_free xs = None \<longleftrightarrow> None \<notin> set xs"
  by (induction xs rule: first_free.induct) auto

lemma first_free_Some:
  "first_free xs = Some i \<Longrightarrow> i < length xs \<and> xs ! i = None \<and> (\<forall>j < i. xs ! j \<noteq> None)"
proof (induction xs arbitrary: i rule: first_free.induct)
  case (3 x xs)
  then obtain k where "first_free xs = Some k" "i = Suc k" by auto
  with 3 show ?case by (auto simp: less_Suc_eq_0_disj)
qed auto

definition conv_acquire ::
  "('rk, 'hc) FwdLockConv_Session
     \<Rightarrow> ('rk, 'hc) FwdLockConv_Session option list \<times> heap
     \<Rightarrow> nat option \<times> ('rk, 'hc) FwdLockConv_Session option list \<times> heap" where
  "conv_acquire fresh t =
     (case FwdLockConv_AcquireSession fresh (fst t) (snd t) of
        (sid, tbl, h) \<Rightarrow> (if sid < 0 then None else Some (nat sid), tbl, h))"

definition conv_release ::
  "nat \<Rightarrow> ('rk, 'hc) FwdLockConv_Session option list \<times> heap
     \<Rightarrow> (('rk, 'hc) FwdLockConv_Session option list \<times> heap) option" where
  "conv_release i t = map_option (\<lambda>tbl. (tbl, snd t)) (FwdLockConv_ReleaseSession (int i) (fst t))"

interpretation conv_table: slot_table fst MAX_NUM_SESSIONS "\<lambda>t. fst (alloc (snd t))"
    "conv_acquire fresh" conv_release fresh
  for fresh
  by unfold_locales
    (auto simp: conv_acquire_def conv_release_def FwdLockConv_AcquireSession_def
      FwdLockConv_ReleaseSession_def FwdLockConv_IsValidSession_def first_free_None
      dest: first_free_Some split: option.splits prod.splits if_splits)

section \<open>The decoder's table\<close>

lemma Probe_None:
  "FwdLockFile_Probe test fd i k = None \<longleftrightarrow> (\<forall>j. i \<le> j \<and> j < i + k \<longrightarrow> \<not> test ((fd + j) mod FL_MAX_NUM_SESSIONS))"
proof (induction k arbitrary: i)
  case (Suc k)
  have "(\<forall>j. i \<le> j \<and> j < i + Suc k \<longrightarrow> P j) \<longleftrightarrow> P i \<and> (\<forall>j. Suc i \<le> j \<and> j < Suc i + k \<longrightarrow> P j)"
    for P :: "nat \<Rightarrow> bool"
  proof (intro iffI allI impI)
    fix j assume "P i \<and> (\<forall>j. Suc i \<le> j \<and> j < Suc i + k \<longrightarrow> P j)" "i \<le> j \<and> j < i + Suc k"
    then show "P j" by (cases "j = i") auto
  qed auto
  with Suc show ?case by (simp add: Let_def)
qed auto

lemma Probe_Some:
  "FwdLockFile_Probe test fd i k = Some s \<Longrightarrow>
   test s \<and> (\<exists>j. i \<le> j \<and> j < i + k \<and> s = (fd + j) mod FL_MAX_NUM_SESSIONS
     \<and> (\<forall>j'. i \<le> j' \<and> j' < j \<longrightarrow> \<not> test ((fd + j') mod FL_MAX_NUM_SESSIONS)))"
proof (induction k arbitrary: i)
  case (Suc k)
  show ?case
  proof (cases "test ((fd + i) mod FL_MAX_NUM_SESSIONS)")
    case True
    with Suc.prems show ?thesis by (auto simp: Let_def intro!: exI [of _ i])
  next
    case False
    with Suc.prems have "FwdLockFile_Probe test fd (Suc i) k = Some s" by (simp add: Let_def)
    from Suc.IH [OF this] obtain j where "test s" "Suc i \<le> j" "j < Suc i + k" "s = (fd + j) mod FL_MAX_NUM_SESSIONS"
      "\<forall>j'. Suc i \<le> j' \<and> j' < j \<longrightarrow> \<not> test ((fd + j') mod FL_MAX_NUM_SESSIONS)"
      by blast
    moreover from this False
    have "\<forall>j'. i \<le> j' \<and> j' < j \<longrightarrow> \<not> test ((fd + j') mod FL_MAX_NUM_SESSIONS)"
      by (metis Suc_leI le_neq_implies_less)
    ultimately show ?thesis by (auto intro!: exI [of _ j])
  qed
qed simp

text \<open>The 128 probes visit every slot.\<close>

lemma probes_all:
  assumes "s < FL_MAX_NUM_SESSIONS"
  shows "\<exists>j < FL_MAX_NUM_SESSIONS. (fd + j) mod FL_MAX_NUM_SESSIONS = s"
proof (cases "fd mod 128 \<le> s")
  case True
  have "(fd + (s - fd mod 128)) mod 128 = (fd mod 128 + (s - fd mod 128)) mod 128"
    by (simp add: mod_add_left_eq)
  also have "\<dots> = s" using True assms by simp
  finally show ?thesis using assms by (intro exI [of _ "s - fd mod 128"]) auto
next
  case False
  define k where "k = s + 128 - fd mod 128"
  have "fd mod 128 < 128" by simp
  then have "fd mod 128 + k = s + 128" by (simp add: k_def)
  then have "(fd + k) mod 128 = (s + 128) mod 128" by (metis mod_add_left_eq)
  also have "\<dots> = s" using assms by simp
  finally show ?thesis using False by (intro exI [of _ k]) (auto simp: k_def)
qed

lemma Probe_all_None:
  "FwdLockFile_Probe test fd 0 FL_MAX_NUM_SESSIONS = None \<longleftrightarrow> (\<forall>s < FL_MAX_NUM_SESSIONS. \<not> test s)"
proof
  assume p: "FwdLockFile_Probe test fd 0 FL_MAX_NUM_SESSIONS = None"
  show "\<forall>s < FL_MAX_NUM_SESSIONS. \<not> test s"
  proof (intro allI impI)
    fix s :: nat assume "s < FL_MAX_NUM_SESSIONS"
    then obtain j where "j < FL_MAX_NUM_SESSIONS" "(fd + j) mod FL_MAX_NUM_SESSIONS = s"
      using probes_all by blast
    with p show "\<not> test s" unfolding Probe_None by auto
  qed
qed (simp add: Probe_None)

lemma Probe_all_Some:
  "FwdLockFile_Probe test fd 0 FL_MAX_NUM_SESSIONS = Some s \<Longrightarrow> s < FL_MAX_NUM_SESSIONS \<and> test s"
  using Probe_Some [of test fd 0 FL_MAX_NUM_SESSIONS s] by auto

definition file_fresh ::
  "('rk, 'hc) FwdLockFile_Session \<Rightarrow> int \<Rightarrow> ('rk, 'hc) FwdLockFile_Session" where
  "file_fresh fresh fd = fresh\<lparr>fileDesc := fd, pContentType := None, flEncryptedSessionKey := None\<rparr>"

definition file_acquire ::
  "('rk, 'hc) FwdLockFile_Session \<Rightarrow> int \<Rightarrow> ('rk, 'hc) fileworld \<Rightarrow> nat option \<times> ('rk, 'hc) fileworld"
  where
  "file_acquire fresh fd w =
     (case FwdLockFile_AcquireSession fresh fd w of
        (sid, w') \<Rightarrow> (if sid < 0 then None else Some (nat sid), w'))"

interpretation file_table: slot_table flSessions FL_MAX_NUM_SESSIONS
    "\<lambda>w. fst (alloc (flHeap w)) \<and> 0 \<le> fd" "file_acquire fresh fd"
    "\<lambda>i w. FwdLockFile_ReleaseSession (int i) w" "file_fresh fresh fd"
  for fresh fd
proof unfold_locales
  fix t t' :: "('a, 'b) fileworld" and i
  assume len: "length (flSessions t) = FL_MAX_NUM_SESSIONS"
  { assume "file_acquire fresh fd t = (Some i, t')"
    then show "i < FL_MAX_NUM_SESSIONS \<and> flSessions t ! i = None
        \<and> flSessions t' = (flSessions t)[i := Some (file_fresh fresh fd)]"
      by (auto simp: file_acquire_def FwdLockFile_AcquireSession_def file_fresh_def
          dest!: Probe_all_Some split: if_splits option.splits prod.splits) }
  { assume a: "file_acquire fresh fd t = (None, t')"
    show "flSessions t' = flSessions t \<and> (None \<notin> set (flSessions t) \<or> \<not> (fst (alloc (flHeap t)) \<and> 0 \<le> fd))"
    proof (cases "FwdLockFile_Probe (\<lambda>i. flSessions t ! i = None) (nat fd) 0 FL_MAX_NUM_SESSIONS")
      case None
      then have "None \<notin> set (flSessions t)"
        unfolding Probe_all_None using len by (auto simp: in_set_conv_nth)
      with a None show ?thesis
        by (auto simp: file_acquire_def FwdLockFile_AcquireSession_def split: if_splits)
    next
      case (Some s)
      with a show ?thesis
        by (auto simp: file_acquire_def FwdLockFile_AcquireSession_def split: if_splits prod.splits)
    qed }
qed (auto simp: FwdLockFile_ReleaseSession_def)

end
