(* ===== verification/FwdLockDecoder.thy ===== *)
theory FwdLockDecoder
  imports FwdLockStream FwdLockTable
begin

text \<open>
  The decoder as a refinement of a plain file: as long as a file is attached, reads and seeks
  behave as \<open>read\<close> and \<open>lseek64\<close> would on a file that holds the decrypted content, short
  reads and errors included; only a seek to within \<open>flDataOffset\<close> of the largest offset differs.
\<close>

section \<open>Attached files\<close>

definition attached ::
  "('rk, 'hc) crypto \<Rightarrow> 'rk \<Rightarrow> bytes \<Rightarrow> bytes \<Rightarrow> int \<Rightarrow> ('rk, 'hc) fileworld
     \<Rightarrow> nat \<Rightarrow> ('rk, 'hc) FwdLockFile_Session \<Rightarrow> posixfile \<Rightarrow> bool" where
  "attached c rk nonce plain fd w sid s f \<longleftrightarrow>
     FwdLockFile_FindSession fd w = (int sid, w) \<and> sid < length (flSessions w) \<and>
     flSessions w ! sid = Some s \<and> fileDesc s = fd \<and> files w fd = Some f \<and>
     key_cache_ok c rk nonce s \<and> 0 \<le> filePos s \<and> length plain \<le> 2 ^ 63 \<and>
     0 \<le> flDataOffset s \<and> offset f = flDataOffset s + filePos s \<and>
     length (content f) = nat (flDataOffset s) + length plain \<and>
     drop (nat (flDataOffset s)) (content f) = xor_stream (ctr_byte c rk nonce) 0 plain"

text \<open>What the user of the descriptor sees: a file with the plain content.\<close>

definition plain_view ::
  "int \<Rightarrow> bytes \<Rightarrow> ('rk, 'hc) FwdLockFile_Session \<Rightarrow> ('rk, 'hc) fileworld \<Rightarrow> ('rk, 'hc) fileworld" where
  "plain_view fd plain s w =
     w\<lparr>flSessions := [], files := [fd \<mapsto> \<lparr>content = plain, offset = filePos s\<rparr>]\<rparr>"

lemma FindSession_update:
  assumes "FwdLockFile_FindSession fd w = (int sid, w)" "sid < length (flSessions w)"
    "flSessions w ! sid = Some s" "fileDesc s' = fileDesc s"
    "flSessions w' = (flSessions w)[sid := Some s']"
  shows "FwdLockFile_FindSession fd w' = (int sid, w')"
proof -
  have "(case flSessions w' ! i of None \<Rightarrow> False | Some s \<Rightarrow> fileDesc s = fd)
      = (case flSessions w ! i of None \<Rightarrow> False | Some s \<Rightarrow> fileDesc s = fd)" for i
    using assms(2-5) by (cases "i = sid") auto
  then have "(\<lambda>i. case flSessions w' ! i of None \<Rightarrow> False | Some s \<Rightarrow> fileDesc s = fd)
      = (\<lambda>i. case flSessions w ! i of None \<Rightarrow> False | Some s \<Rightarrow> fileDesc s = fd)" by blast
  with assms(1) show ?thesis
    by (auto simp: FwdLockFile_FindSession_def split: if_splits option.splits)
qed

lemma FindSession_same:
  "FwdLockFile_FindSession fd w = (int sid, w) \<Longrightarrow> flSessions w' = flSessions w \<Longrightarrow>
   FwdLockFile_FindSession fd w' = (int sid, w')"
  by (auto simp: FwdLockFile_FindSession_def split: if_splits option.splits)

section \<open>Reading\<close>

lemma key_cache_ok_pos [simp]: "key_cache_ok c rk nonce (s\<lparr>filePos := p\<rparr>) = key_cache_ok c rk nonce s"
  by (simp add: key_cache_ok_def)

lemma DecryptByte_frame:
  assumes "FwdLockFile_DecryptByte c s b = Some (s', p)"
  shows "s' = s\<lparr>flKeyStream := flKeyStream s', blockIndex := blockIndex s'\<rparr>"
  using assms by (auto simp: FwdLockFile_DecryptByte_def Let_def split: if_splits option.splits)

lemma DecryptBytes_frame:
  "FwdLockFile_DecryptBytes c s bs = Some (s', ps) \<Longrightarrow>
   s' = s\<lparr>filePos := filePos s', flKeyStream := flKeyStream s', blockIndex := blockIndex s'\<rparr>"
proof (induction bs arbitrary: s ps)
  case (Cons b bs)
  from Cons.prems obtain s1 p ps1 where
    1: "FwdLockFile_DecryptByte c s b = Some (s1, p)"
      "FwdLockFile_DecryptBytes c (s1\<lparr>filePos := filePos s1 + 1\<rparr>) bs = Some (s', ps1)"
    by (auto split: option.splits)
  from Cons.IH [OF 1(2)] DecryptByte_frame [OF 1(1)] show ?case
    by (cases s; cases s1; cases s') simp
qed simp

text \<open>Decrypting what was read at the current position.\<close>

lemma DecryptBytes_at:
  assumes "key_cache_ok c rk nonce s" "0 \<le> filePos s" "length plain \<le> 2 ^ 63"
  shows "\<exists>s'. FwdLockFile_DecryptBytes c s
        (take m (drop (nat (filePos s)) (xor_stream (ctr_byte c rk nonce) 0 plain)))
      = Some (s', take m (drop (nat (filePos s)) plain))
    \<and> key_cache_ok c rk nonce s'
    \<and> filePos s' = filePos s + int (length (take m (drop (nat (filePos s)) plain)))"
proof -
  let ?n = "nat (filePos s)" and ?ks = "ctr_byte c rk nonce"
  let ?bs = "take m (drop ?n (xor_stream ?ks 0 plain))"
  have bs: "?bs = xor_stream ?ks ?n (take m (drop ?n plain))"
    by (simp add: drop_xor_stream take_xor_stream)
  show ?thesis
  proof (cases "take m (drop ?n plain) = []")
    case True
    with bs have "?bs = []" by simp
    with True assms(1) show ?thesis by (simp only: FwdLockFile_DecryptBytes.simps) simp
  next
    case False
    then have le: "?n + length ?bs \<le> 2 ^ 63" using assms(3) by auto
    have pos: "dec_in_pos c rk nonce ?n s" using assms by (simp add: dec_in_pos_def)
    from DecryptBytes_stream [OF pos le] obtain s' where
      "FwdLockFile_DecryptBytes c s ?bs = Some (s', xor_stream ?ks ?n ?bs)"
      "dec_in_pos c rk nonce (?n + length ?bs) s'"
      by blast
    moreover have "xor_stream ?ks ?n ?bs = take m (drop ?n plain)" unfolding bs by simp
    moreover have "length ?bs = length (take m (drop ?n plain))" by simp
    ultimately show ?thesis using assms(2) by (auto simp: dec_in_pos_def)
  qed
qed

lemma read_refines:
  assumes a: "attached c rk nonce plain fd w sid s f"
    and r: "posix_read fd n (plain_view fd plain s w) = (res, v)"
  shows "\<exists>w' s' f'. FwdLockFile_read c fd n w = Some (res, w')
    \<and> attached c rk nonce plain fd w' sid s' f' \<and> plain_view fd plain s' w' = v"
proof -
  let ?ks = "ctr_byte c rk nonce"
  have A: "FwdLockFile_FindSession fd w = (int sid, w)" "sid < length (flSessions w)"
    "flSessions w ! sid = Some s" "fileDesc s = fd" "files w fd = Some f"
    "key_cache_ok c rk nonce s" "0 \<le> filePos s" "length plain \<le> 2 ^ 63" "0 \<le> flDataOffset s"
    "offset f = flDataOffset s + filePos s"
    "length (content f) = nat (flDataOffset s) + length plain"
    "drop (nat (flDataOffset s)) (content f) = xor_stream ?ks 0 plain"
    using a by (simp_all add: attached_def)
  have off: "nat (offset f) = nat (filePos s) + nat (flDataOffset s)" using A by (simp add: nat_add_distrib)
  have drop: "drop (nat (offset f)) (content f) = drop (nat (filePos s)) (xor_stream ?ks 0 plain)"
    unfolding off drop_drop [symmetric] A(12) ..
  define io where "io = (case ioOutcomes w of [] \<Rightarrow> IoFull | x # xs \<Rightarrow> x)"
  define rest where "rest = (case ioOutcomes w of [] \<Rightarrow> [] | x # xs \<Rightarrow> xs)"
  show ?thesis
  proof (cases "io = IoError")
    case True
    then obtain xs where xs: "ioOutcomes w = IoError # xs" by (auto simp: io_def split: list.splits)
    have rd: "FwdLockFile_read c fd n w = Some (None, w\<lparr>ioOutcomes := xs\<rparr>)"
      using A xs by (simp add: FwdLockFile_read_def posix_read_def)
    have "res = None" "v = plain_view fd plain s (w\<lparr>ioOutcomes := xs\<rparr>)"
      using r xs by (auto simp: posix_read_def plain_view_def)
    moreover have "attached c rk nonce plain fd (w\<lparr>ioOutcomes := xs\<rparr>) sid s f"
      using a FindSession_same [OF A(1)] by (simp add: attached_def)
    ultimately show ?thesis using rd by blast
  next
    case False
    define m where "m = (case io of IoShort k \<Rightarrow> min n k | _ \<Rightarrow> n)"
    let ?bs = "take m (drop (nat (filePos s)) (xor_stream ?ks 0 plain))"
    let ?ps = "take m (drop (nat (filePos s)) plain)"
    let ?f' = "f\<lparr>offset := offset f + int (length ?bs)\<rparr>"
    let ?w1 = "w\<lparr>files := (files w)(fd \<mapsto> ?f'), ioOutcomes := rest\<rparr>"
    have pr: "posix_read fd n w = (Some ?bs, ?w1)"
      using A(5) False drop
      by (auto simp: posix_read_def io_def rest_def m_def min_def split: list.splits io_outcome.splits)
    have pv: "res = Some ?ps" "v = (plain_view fd plain s w)
        \<lparr>files := [fd \<mapsto> \<lparr>content = plain, offset = filePos s + int (length ?ps)\<rparr>], ioOutcomes := rest\<rparr>"
      using r False
      by (auto simp: posix_read_def plain_view_def io_def rest_def m_def min_def
          split: list.splits io_outcome.splits)
    from DecryptBytes_at [OF A(6-8), of m] obtain s' where
      s': "FwdLockFile_DecryptBytes c s ?bs = Some (s', ?ps)" "key_cache_ok c rk nonce s'"
        "filePos s' = filePos s + int (length ?ps)" by blast
    note fr = DecryptBytes_frame [OF s'(1)]
    have fields: "fileDesc s' = fd" "flDataOffset s' = flDataOffset s"
      using A(4) by (subst fr; simp)+
    let ?w2 = "?w1\<lparr>flSessions := (flSessions w)[sid := Some s']\<rparr>"
    have rd: "FwdLockFile_read c fd n w = Some (res, ?w2)"
      using A pr s'(1) pv(1) by (simp add: FwdLockFile_read_def)
    have "FwdLockFile_FindSession fd ?w2 = (int sid, ?w2)"
      by (rule FindSession_update [OF A(1-3)]) (simp_all add: fields A(4))
    then have "attached c rk nonce plain fd ?w2 sid s' ?f'"
      using A s' fields by (simp add: attached_def)
    moreover have "plain_view fd plain s' ?w2 = v"
      using pv(2) s'(3) by (simp add: plain_view_def)
    ultimately show ?thesis using rd by blast
  qed
qed

section \<open>Seeking\<close>

text \<open>
  The position a seek asks for in the plain file. The same seek of the real file asks for one that
  is \<open>flDataOffset\<close> further on.
\<close>

definition seek_target :: "int \<Rightarrow> whence \<Rightarrow> bytes \<Rightarrow> int \<Rightarrow> int" where
  "seek_target off wh bs pos =
     (case wh of SEEK_SET \<Rightarrow> off | SEEK_CUR \<Rightarrow> pos + off | SEEK_END \<Rightarrow> int (length bs) + off | SEEK_OTHER \<Rightarrow> -1)"

lemma posix_lseek64_target:
  assumes "files w fd = Some f"
  shows "posix_lseek64 fd off wh w =
    (let t = seek_target off wh (content f) (offset f)
     in if t < 0 then (-1, w\<lparr>errnoVal := Some EINVAL\<rparr>)
        else if 2 ^ 63 \<le> t then (-1, w\<lparr>errnoVal := Some EOVERFLOW\<rparr>)
        else (t, w\<lparr>files := (files w)(fd \<mapsto> f\<lparr>offset := t\<rparr>)\<rparr>))"
  using assms by (simp add: posix_lseek64_def seek_target_def Let_def)

text \<open>The real seek, when its argument does not overflow.\<close>

lemma real_seek:
  assumes a: "attached c rk nonce plain fd w sid s f" and wh: "wh \<noteq> SEEK_OTHER"
  shows "posix_lseek64 fd (if wh = SEEK_SET then flDataOffset s + off else off) wh w =
    (let t = flDataOffset s + seek_target off wh plain (filePos s)
     in if t < 0 then (-1, w\<lparr>errnoVal := Some EINVAL\<rparr>)
        else if 2 ^ 63 \<le> t then (-1, w\<lparr>errnoVal := Some EOVERFLOW\<rparr>)
        else (t, w\<lparr>files := (files w)(fd \<mapsto> f\<lparr>offset := t\<rparr>)\<rparr>))"
proof -
  have "seek_target (if wh = SEEK_SET then flDataOffset s + off else off) wh (content f) (offset f)
      = flDataOffset s + seek_target off wh plain (filePos s)"
    using a wh by (cases wh) (simp_all add: attached_def seek_target_def)
  moreover have "files w fd = Some f" using a by (simp add: attached_def)
  ultimately show ?thesis by (simp only: posix_lseek64_target)
qed

lemma lseek_run:
  assumes a: "attached c rk nonce plain fd w sid s f" and wh: "wh \<noteq> SEEK_OTHER"
    and fits: "wh = SEEK_SET \<longrightarrow> off64 (flDataOffset s + off) = Some (flDataOffset s + off)"
      "off64 (offset f) = Some (offset f)"
  shows "FwdLockFile_lseek fd off wh w =
    (let t = seek_target off wh plain (filePos s)
     in if t < 0 then Some (-1, w\<lparr>errnoVal := Some EINVAL, files := (files w)(fd \<mapsto> f)\<rparr>)
        else if 2 ^ 63 \<le> flDataOffset s + t then Some (-1, w\<lparr>errnoVal := Some EOVERFLOW\<rparr>)
        else Some (t, w\<lparr>files := (files w)(fd \<mapsto> f\<lparr>offset := flDataOffset s + t\<rparr>),
               flSessions := (flSessions w)[sid := Some (s\<lparr>filePos := t\<rparr>)]\<rparr>))"
proof -
  let ?d = "flDataOffset s" and ?t = "seek_target off wh plain (filePos s)"
  have A: "FwdLockFile_FindSession fd w = (int sid, w)" "flSessions w ! sid = Some s" "fileDesc s = fd"
    "files w fd = Some f" "0 \<le> ?d" "0 \<le> filePos s" "offset f = ?d + filePos s"
    using a by (simp_all add: attached_def)
  have restored: "off64 (?d + filePos s) = Some (?d + filePos s)" using fits(2) A(7) by simp
  have pos: "0 \<le> ?d + filePos s" "?d + filePos s < 2 ^ 63"
    using restored A(5,6) by (auto simp: off64_def split: if_splits)
  have f: "f\<lparr>offset := ?d + filePos s\<rparr> = f" using A(7) by (cases f) simp
  have restore: "snd (posix_lseek64 fd (?d + filePos s) SEEK_SET (w\<lparr>files := (files w)(fd \<mapsto> f\<lparr>offset := t\<rparr>)\<rparr>))
      = w\<lparr>files := (files w)(fd \<mapsto> f)\<rparr>" for t
    using pos f by (simp add: posix_lseek64_def)
  have id: "(files w)(fd \<mapsto> f) = files w" using A(4) by auto
  note real = real_seek [OF a wh, of off]
  define r where "r = posix_lseek64 fd (if wh = SEEK_SET then ?d + off else off) wh w"
  have step: "FwdLockFile_lseek fd off wh w =
    (case r of (newFilePos, w2) \<Rightarrow>
       if newFilePos = -1 then Some (-1, w2)
       else if newFilePos < ?d
       then Some (-1, (snd (posix_lseek64 fd (?d + filePos s) SEEK_SET w2))\<lparr>errnoVal := Some EINVAL\<rparr>)
       else Some (newFilePos - ?d, w2\<lparr>flSessions := (flSessions w2)[sid := Some (s\<lparr>filePos := newFilePos - ?d\<rparr>)]\<rparr>))"
    using A(1-3) fits(1) restored wh unfolding r_def
    by (cases wh) (simp_all add: FwdLockFile_lseek_def Let_def split: prod.splits)
  consider "?d + ?t < 0" | "0 \<le> ?d + ?t" "?t < 0" | "0 \<le> ?t" "2 ^ 63 \<le> ?d + ?t" | "0 \<le> ?t" "?d + ?t < 2 ^ 63"
    by linarith
  then show ?thesis
  proof cases
    case 1
    moreover from this A(5) have "?t < 0" by linarith
    ultimately show ?thesis using real id unfolding step r_def by (simp add: Let_def)
  next
    case 2
    then have "?d + ?t < 2 ^ 63" using pos A(5,6) by linarith
    with 2 show ?thesis using real restore [of "?d + ?t"] id unfolding step r_def by (simp add: Let_def)
  next
    case 3
    then show ?thesis using real A(5) unfolding step r_def by (simp add: Let_def)
  next
    case 4
    then show ?thesis using real A(5) unfolding step r_def by (simp add: Let_def)
  qed
qed

text \<open>
  Every origin and offset: the plain seek, unless the plain position lies so near the largest
  \<open>off64_t\<close> that the header pushes the real one beyond it; then \<open>SEEK_SET\<close> overflows and the
  other origins fail.
\<close>

lemma lseek_refines:
  assumes a: "attached c rk nonce plain fd w sid s f"
    and r: "posix_lseek64 fd off wh (plain_view fd plain s w) = (res, v)"
    and fits: "off64 off = Some off" "off64 (offset f) = Some (offset f)"
  shows "if wh = SEEK_SET \<and> 2 ^ 63 \<le> flDataOffset s + off then FwdLockFile_lseek fd off wh w = None
    else if 2 ^ 63 \<le> flDataOffset s + res
    then FwdLockFile_lseek fd off wh w = Some (-1, w\<lparr>errnoVal := Some EOVERFLOW\<rparr>)
    else \<exists>w' s' f'. FwdLockFile_lseek fd off wh w = Some (res, w')
      \<and> attached c rk nonce plain fd w' sid s' f' \<and> plain_view fd plain s' w' = v
      \<and> off64 (offset f') = Some (offset f')"
proof -
  let ?d = "flDataOffset s" and ?t = "seek_target off wh plain (filePos s)"
  have A: "FwdLockFile_FindSession fd w = (int sid, w)" "sid < length (flSessions w)"
    "flSessions w ! sid = Some s" "fileDesc s = fd" "files w fd = Some f" "0 \<le> ?d"
    using a by (simp_all add: attached_def)
  have "files (plain_view fd plain s w) fd = Some \<lparr>content = plain, offset = filePos s\<rparr>"
    by (simp add: plain_view_def)
  note plain = posix_lseek64_target [OF this, of off wh, simplified r, simplified]
  have failed: "\<exists>w' s' f'. FwdLockFile_lseek fd off wh w = Some (-1, w')
      \<and> attached c rk nonce plain fd w' sid s' f' \<and> plain_view fd plain s' w' = (plain_view fd plain s w)\<lparr>errnoVal := Some e\<rparr>
      \<and> off64 (offset f') = Some (offset f')"
    if "FwdLockFile_lseek fd off wh w = Some (-1, w\<lparr>errnoVal := Some e, files := (files w)(fd \<mapsto> f)\<rparr>)" for e
  proof -
    let ?w' = "w\<lparr>errnoVal := Some e, files := (files w)(fd \<mapsto> f)\<rparr>"
    have "attached c rk nonce plain fd ?w' sid s f"
      using a FindSession_same [OF A(1)] by (simp add: attached_def)
    moreover have "plain_view fd plain s ?w' = (plain_view fd plain s w)\<lparr>errnoVal := Some e\<rparr>"
      by (simp add: plain_view_def)
    ultimately show ?thesis using that fits(2) by blast
  qed
  have id: "(files w)(fd \<mapsto> f) = files w" using A(5) by auto
  have neg: "res = -1 \<longrightarrow> \<not> 2 ^ 63 \<le> ?d + res" using fits(2) a by (auto simp: attached_def off64_def split: if_splits)
  show ?thesis
  proof (cases "wh = SEEK_OTHER")
    case True
    have "FwdLockFile_lseek fd off wh w = Some (-1, w\<lparr>errnoVal := Some EINVAL, files := (files w)(fd \<mapsto> f)\<rparr>)"
      using A True id by (simp add: FwdLockFile_lseek_def Let_def)
    from failed [OF this] True plain neg show ?thesis by (simp add: seek_target_def Let_def)
  next
    case wh: False
    show ?thesis
    proof (cases "wh = SEEK_SET \<and> 2 ^ 63 \<le> ?d + off")
      case True
      then show ?thesis using A by (simp add: FwdLockFile_lseek_def off64_def Let_def)
    next
      case False
      have "off64 (?d + off) = Some (?d + off)" if "wh = SEEK_SET"
        using that False fits(1) A(6) by (auto simp: off64_def split: if_splits)
      then have run: "FwdLockFile_lseek fd off wh w =
        (let t = ?t
         in if t < 0 then Some (-1, w\<lparr>errnoVal := Some EINVAL, files := (files w)(fd \<mapsto> f)\<rparr>)
            else if 2 ^ 63 \<le> ?d + t then Some (-1, w\<lparr>errnoVal := Some EOVERFLOW\<rparr>)
            else Some (t, w\<lparr>files := (files w)(fd \<mapsto> f\<lparr>offset := ?d + t\<rparr>),
                   flSessions := (flSessions w)[sid := Some (s\<lparr>filePos := t\<rparr>)]\<rparr>))"
        using lseek_run [OF a wh _ fits(2)] by blast
      consider "?t < 0" | "0 \<le> ?t" "2 ^ 63 \<le> ?t" | "0 \<le> ?t" "?t < 2 ^ 63" "2 ^ 63 \<le> ?d + ?t"
        | "0 \<le> ?t" "?t < 2 ^ 63" "?d + ?t < 2 ^ 63" by linarith
      then show ?thesis
      proof cases
        case 1
        with plain have "res = -1" "v = (plain_view fd plain s w)\<lparr>errnoVal := Some EINVAL\<rparr>" by (simp_all add: Let_def)
        with 1 run failed [of EINVAL] neg show ?thesis unfolding if_not_P [OF False] by (simp add: Let_def)
      next
        case 2
        with plain have "res = -1" "v = (plain_view fd plain s w)\<lparr>errnoVal := Some EOVERFLOW\<rparr>" by (simp_all add: Let_def)
        with 2 run failed [of EOVERFLOW] neg A(6) id show ?thesis unfolding if_not_P [OF False] by (simp add: Let_def)
      next
        case 3
        with plain have "res = ?t" by (simp add: Let_def)
        with 3 run show ?thesis unfolding if_not_P [OF False] by (simp add: Let_def)
      next
        case 4
        let ?f' = "f\<lparr>offset := ?d + ?t\<rparr>" and ?s' = "s\<lparr>filePos := ?t\<rparr>"
        let ?w' = "w\<lparr>files := (files w)(fd \<mapsto> ?f'), flSessions := (flSessions w)[sid := Some ?s']\<rparr>"
        from 4 plain have rv: "res = ?t" "v = plain_view fd plain ?s' w" by (simp_all add: Let_def plain_view_def)
        have "FwdLockFile_FindSession fd ?w' = (int sid, ?w')"
          by (rule FindSession_update [OF A(1-3)]) simp_all
        then have "attached c rk nonce plain fd ?w' sid ?s' ?f'" using a 4(1) by (simp add: attached_def)
        moreover have "plain_view fd plain ?s' ?w' = v" using rv(2) by (simp add: plain_view_def)
        moreover have "off64 (offset ?f') = Some (offset ?f')" using 4 A(6) by (simp add: off64_def)
        moreover have "FwdLockFile_lseek fd off wh w = Some (res, ?w')" using run 4 rv(1) by (simp add: Let_def)
        moreover have "\<not> 2 ^ 63 \<le> ?d + res" using 4 rv(1) by simp
        ultimately show ?thesis unfolding if_not_P [OF False] by (simp only: if_False) blast
      qed
    qed
  qed
qed

end
