(* ===== verification/FwdLockKeys.thy ===== *)
theory FwdLockKeys
  imports FwdLockGlue
begin

text \<open>
  Session keys are wrapped with a device key that lives in a file. What one process encrypts a
  later process decrypts, as long as the key file is the same; a key file that was written
  only in part disables the scheme for good.
\<close>

section \<open>What the code relies on\<close>

text \<open>
  Decryption in CBC mode with the same key and initialisation vector inverts encryption of
  whole blocks, and both keep the length.
\<close>

definition cbc_ok :: "('rk, 'hc) crypto \<Rightarrow> bool" where
  "cbc_ok c \<longleftrightarrow>
     (\<forall>key ek dk p iv. AES_set_encrypt_key c key = Some ek \<longrightarrow> AES_set_decrypt_key c key = Some dk \<longrightarrow>
        length p mod AES_BLOCK_SIZE = 0 \<longrightarrow> length iv = AES_BLOCK_SIZE \<longrightarrow>
        length (AES_cbc_encrypt c p ek iv) = length p \<and>
        AES_cbc_decrypt c (AES_cbc_encrypt c p ek iv) dk iv = p)"

lemma cbc_okD:
  assumes "cbc_ok c" "AES_set_encrypt_key c key = Some ek" "AES_set_decrypt_key c key = Some dk"
    "length p mod AES_BLOCK_SIZE = 0" "length iv = AES_BLOCK_SIZE"
  shows "length (AES_cbc_encrypt c p ek iv) = length p"
    "AES_cbc_decrypt c (AES_cbc_encrypt c p ek iv) dk iv = p"
  using assms unfolding cbc_ok_def by simp_all

text \<open>The round keys in memory are those of the key file.\<close>

definition kek_of :: "fwdenv \<Rightarrow> bytes option" where
  "kek_of env =
     (case keyFile env of
        None \<Rightarrow> None
      | Some content \<Rightarrow> if KEY_SIZE \<le> length content then Some (take KEY_SIZE content) else None)"

definition glue_ok :: "('rk, 'hc) crypto \<Rightarrow> 'rk fwdglue \<Rightarrow> fwdenv \<Rightarrow> bool" where
  "glue_ok c g env \<longleftrightarrow>
     (isInitialized g \<longrightarrow>
        (\<exists>kek. kek_of env = Some kek \<and>
           encRoundKeys g = AES_set_encrypt_key c kek \<and> AES_set_encrypt_key c kek \<noteq> None \<and>
           decRoundKeys g = AES_set_decrypt_key c kek \<and> AES_set_decrypt_key c kek \<noteq> None))"

lemma GetRandomNumber_env:
  "FwdLockGlue_GetRandomNumber n env = (r, env') \<Longrightarrow> env' = env\<lparr>urandom := urandom env'\<rparr>"
  "FwdLockGlue_GetRandomNumber n env = (Some bs, env') \<Longrightarrow> length bs = n"
  by (auto simp: FwdLockGlue_GetRandomNumber_def split: list.splits option.splits if_splits)

lemma GetRandomNumber_fields:
  assumes "FwdLockGlue_GetRandomNumber n env = (r, env')"
  shows "keyOpenDenied env' = keyOpenDenied env" "keyFile env' = keyFile env"
  by (subst GetRandomNumber_env(1) [OF assms]; simp)+

lemma FindKek_env:
  assumes "FwdLockGlue_FindKek env h = (Some kek, env', h')"
  shows "kek_of env' = Some kek" "keyOpenDenied env' = keyOpenDenied env"
  using assms
  by (auto simp: FwdLockGlue_FindKek_def kek_of_def Let_def
      dest: GetRandomNumber_env(2) GetRandomNumber_fields split: if_splits option.splits prod.splits)

lemma InitializeRoundKeys_ok:
  assumes "FwdLockGlue_InitializeRoundKeys c g env h = (g', env', h')" "\<not> isInitialized g"
  shows "glue_ok c g' env'"
  using assms FindKek_env [of env h]
  by (auto simp: FwdLockGlue_InitializeRoundKeys_def glue_ok_def Let_def split: prod.splits option.splits)

lemma InitializeKeyEncryption_ok:
  assumes "FwdLockGlue_InitializeKeyEncryption c g env h = (g', env', h')"
    "glue_ok c g env" "isInitialized g \<longrightarrow> onceDone g"
  shows "glue_ok c g' env'" "isInitialized g' \<longrightarrow> onceDone g'" "onceDone g'"
  using assms InitializeRoundKeys_ok [of c g env h]
  by (auto simp: FwdLockGlue_InitializeKeyEncryption_def glue_ok_def split: if_splits prod.splits)

text \<open>A new process that finds the same key file computes the same round keys.\<close>

lemma InitializeKeyEncryption_same_file:
  assumes "kek_of env = Some kek" "\<not> keyOpenDenied env"
    "AES_set_encrypt_key c kek = Some ek" "AES_set_decrypt_key c kek = Some dk"
  shows "FwdLockGlue_InitializeKeyEncryption c fwdglue_init env h
    = (\<lparr>onceDone = True, isInitialized = True, encRoundKeys = Some ek, decRoundKeys = Some dk\<rparr>, env, h)"
  using assms
  by (auto simp: FwdLockGlue_InitializeKeyEncryption_def FwdLockGlue_InitializeRoundKeys_def
      FwdLockGlue_FindKek_def kek_of_def fwdglue_init_def split: option.splits if_splits)

section \<open>Padding\<close>

lemma ValidatePaddingLoop_replicate:
  "k < 256 \<Longrightarrow> m \<le> n \<Longrightarrow> FwdLockGlue_ValidatePaddingLoop m k (replicate n (of_nat k)) = Some True"
proof (induction m arbitrary: n)
  case (Suc m)
  then obtain n' where n: "n = Suc n'" by (cases n) auto
  have "unat (of_nat k :: byte) = k" using Suc.prems(1) by (simp add: unsigned_of_nat take_bit_nat_eq_self)
  with Suc n show ?case by simp
qed simp

lemma ValidatePadding_padded:
  "FwdLockGlue_ValidatePadding
     (key @ replicate (AES_BLOCK_SIZE - length key mod AES_BLOCK_SIZE)
              (of_nat (AES_BLOCK_SIZE - length key mod AES_BLOCK_SIZE))) (length key) = Some True"
  using ValidatePaddingLoop_replicate [of "16 - length key mod 16" "16 - length key mod 16"
      "16 - length key mod 16"]
  by (simp add: FwdLockGlue_ValidatePadding_def Let_def del: of_nat_diff)

lemma padded_length:
  "n + (AES_BLOCK_SIZE - n mod AES_BLOCK_SIZE) = (n div AES_BLOCK_SIZE + 1) * AES_BLOCK_SIZE"
proof -
  have "n mod 16 < 16" by simp
  moreover have "n = n div 16 * 16 + n mod 16" by (rule div_mult_mod_eq [symmetric])
  ultimately show ?thesis by (simp only: distrib_right)
qed

section \<open>Wrapping and unwrapping\<close>

lemma EncryptKey_result:
  assumes c: "cbc_ok c" and g: "glue_ok c g env" "isInitialized g \<longrightarrow> onceDone g"
    and e: "FwdLockGlue_EncryptKey c key (FwdLockGlue_GetEncryptedKeyLength (length key)) g env h
      = Some (Some ekey, g1, env1, h1)"
  obtains kek ek dk iv where
    "kek_of env1 = Some kek" "AES_set_encrypt_key c kek = Some ek" "AES_set_decrypt_key c kek = Some dk"
    "encRoundKeys g1 = Some ek" "decRoundKeys g1 = Some dk" "isInitialized g1" "onceDone g1"
    "glue_ok c g1 env1" "length iv = AES_BLOCK_SIZE"
    "ekey = AES_cbc_encrypt c (key @ replicate (AES_BLOCK_SIZE - length key mod AES_BLOCK_SIZE)
        (of_nat (AES_BLOCK_SIZE - length key mod AES_BLOCK_SIZE))) ek iv @ iv"
    "length ekey = FwdLockGlue_GetEncryptedKeyLength (length key)"
proof -
  obtain g2 env2 h2 where i: "FwdLockGlue_InitializeKeyEncryption c g env h = (g2, env2, h2)"
    by (cases "FwdLockGlue_InitializeKeyEncryption c g env h") auto
  note I = InitializeKeyEncryption_ok [OF i g]
  let ?p = "key @ replicate (AES_BLOCK_SIZE - length key mod AES_BLOCK_SIZE)
      (of_nat (AES_BLOCK_SIZE - length key mod AES_BLOCK_SIZE))"
  from e i obtain iv ek where
    1: "isInitialized g2" "FwdLockGlue_GetRandomNumber AES_BLOCK_SIZE env2 = (Some iv, env1)"
      "encRoundKeys g2 = Some ek" "ekey = AES_cbc_encrypt c ?p ek iv @ iv" "g1 = g2"
    by (auto simp: FwdLockGlue_EncryptKey_def Let_def split: if_splits option.splits prod.splits)
  note R = GetRandomNumber_env [OF 1(2)]
  from I(1) 1(1,3) obtain kek dk where
    2: "kek_of env2 = Some kek" "AES_set_encrypt_key c kek = Some ek" "AES_set_decrypt_key c kek = Some dk"
      "decRoundKeys g2 = Some dk"
    by (auto simp: glue_ok_def)
  have k: "kek_of env1 = kek_of env2" by (subst R(1)) (simp add: kek_of_def)
  have "length ?p = (length key div 16 + 1) * 16" using padded_length [of "length key"] by simp
  moreover from this have "length ?p mod 16 = 0" by (simp only: mod_mult_self2_is_0)
  note cbc_okD(1) [OF c 2(2,3) this R(2)]
  ultimately have "length ekey = FwdLockGlue_GetEncryptedKeyLength (length key)"
    using R(2) 1(4) by (simp add: FwdLockGlue_GetEncryptedKeyLength_def)
  with 1 2 I R(2) k show thesis by (intro that [of kek ek dk iv]) (simp_all add: glue_ok_def)
qed

lemma DecryptKey_wrapped:
  assumes c: "cbc_ok c" and keys: "AES_set_encrypt_key c kek = Some ek" "AES_set_decrypt_key c kek = Some dk"
    and iv: "length iv = AES_BLOCK_SIZE"
    and i: "FwdLockGlue_InitializeKeyEncryption c g env h = (g1, env1, h1)"
      "isInitialized g1" "decRoundKeys g1 = Some dk"
    and h: "alloc h1 = (True, h2)"
  shows "FwdLockGlue_DecryptKey c
      (AES_cbc_encrypt c (key @ replicate (AES_BLOCK_SIZE - length key mod AES_BLOCK_SIZE)
        (of_nat (AES_BLOCK_SIZE - length key mod AES_BLOCK_SIZE))) ek iv @ iv) (length key) g env h
    = Some ((True, key), g1, env1, h2)"
proof -
  let ?p = "key @ replicate (AES_BLOCK_SIZE - length key mod AES_BLOCK_SIZE)
      (of_nat (AES_BLOCK_SIZE - length key mod AES_BLOCK_SIZE))"
  let ?d = "AES_cbc_encrypt c ?p ek iv"
  have lp: "length ?p = (length key div 16 + 1) * 16" using padded_length [of "length key"] by simp
  then have "length ?p mod 16 = 0" by (simp only: mod_mult_self2_is_0)
  note d = cbc_okD [OF c keys this iv]
  have len: "length (?d @ iv) = FwdLockGlue_GetEncryptedKeyLength (length key)"
    using d(1) lp iv by (simp add: FwdLockGlue_GetEncryptedKeyLength_def)
  have "take (length (?d @ iv) - 16) (?d @ iv) = ?d" "drop (length (?d @ iv) - 16) (?d @ iv) = iv"
    using iv by simp_all
  with len d(2) i h ValidatePadding_padded [of key] show ?thesis
    by (simp add: FwdLockGlue_DecryptKey_def Let_def)
qed

section \<open>The truncated key file\<close>

lemma InitializeRoundKeys_truncated:
  assumes "keyFile env = Some content" "length content < KEY_SIZE"
  shows "FwdLockGlue_InitializeRoundKeys c g env h = (g, env, h)"
  using assms by (simp add: FwdLockGlue_InitializeRoundKeys_def FwdLockGlue_FindKek_def)

end
