(* ===== verification/FwdLockEnd.thy ===== *)
theory FwdLockEnd
  imports FwdLockChunks FwdLockDecoder FwdLockKeys
begin

text \<open>
  From the message to the player: what \<open>FwdLockConv_ConvertOpenFile\<close> writes, and that
  \<open>FwdLockFile_attach\<close> accepts it and gives the content back.
\<close>

section \<open>Keys of a session\<close>

text \<open>\<open>rk\<close> and \<open>hc\<close> are what both sides derive from a session key.\<close>

definition derived :: "('rk, 'hc) crypto \<Rightarrow> bytes \<Rightarrow> 'rk \<Rightarrow> 'hc \<Rightarrow> bool" where
  "derived c key rk hc \<longleftrightarrow>
     (\<exists>sk. AES_set_encrypt_key c key = Some sk \<and>
        AES_set_encrypt_key c (AES_encrypt c (replicate KEY_SIZE 0) sk) = Some rk \<and>
        hc = HMAC_Init c (AES_encrypt c (1 # replicate (KEY_SIZE - 1) 0) sk))"

text \<open>The device key is readable and the next random numbers are a session key and a vector.\<close>

definition device_ready ::
  "('rk, 'hc) crypto \<Rightarrow> bytes \<Rightarrow> 'rk \<Rightarrow> 'rk \<Rightarrow> bytes \<Rightarrow> bytes \<Rightarrow> fwdenv \<Rightarrow> bool" where
  "device_ready c kek ek dk key iv env \<longleftrightarrow>
     kek_of env = Some kek \<and> \<not> keyOpenDenied env \<and>
     AES_set_encrypt_key c kek = Some ek \<and> AES_set_decrypt_key c kek = Some dk \<and>
     length key = KEY_SIZE \<and> length iv = AES_BLOCK_SIZE \<and>
     (\<exists>rest. urandom env = Some key # Some iv # rest)"

definition wrapped :: "('rk, 'hc) crypto \<Rightarrow> bytes \<Rightarrow> 'rk \<Rightarrow> bytes \<Rightarrow> bytes" where
  "wrapped c key ek iv = AES_cbc_encrypt c (key @ replicate 16 16) ek iv @ iv"

lemma wrapped_length:
  assumes "cbc_ok c" "device_ready c kek ek dk key iv env"
  shows "length (wrapped c key ek iv) = 48"
proof -
  have d: "AES_set_encrypt_key c kek = Some ek" "AES_set_decrypt_key c kek = Some dk"
    "length key = 16" "length iv = 16"
    using assms(2) by (simp_all add: device_ready_def)
  from cbc_okD(1) [OF assms(1) d(1,2), of "key @ replicate 16 16" iv] d
  show ?thesis by (simp add: wrapped_def)
qed

lemma kek_of_env [simp]: "kek_of (env\<lparr>urandom := r\<rparr>) = kek_of env"
  by (simp add: kek_of_def)

lemma MakeKeys_ready:
  assumes d: "device_ready c kek ek dk key iv env" and k: "derived c key rk hc"
  shows "\<exists>env'. FwdLockConv_MakeKeys c s fwdglue_init env [] =
    Some (Status_OK, s\<lparr>sessionKey := key, pEncryptedSessionKey := wrapped c key ek iv,
        encryptionRoundKeys := rk, signingContext := hc\<rparr>,
      \<lparr>onceDone = True, isInitialized = True, encRoundKeys = Some ek, decRoundKeys = Some dk\<rparr>, env', [])
    \<and> kek_of env' = Some kek \<and> \<not> keyOpenDenied env'"
proof -
  from d obtain rest where u: "urandom env = Some key # Some iv # rest" by (auto simp: device_ready_def)
  let ?e1 = "env\<lparr>urandom := Some iv # rest\<rparr>" and ?e2 = "env\<lparr>urandom := rest\<rparr>"
  have d': "kek_of env = Some kek" "\<not> keyOpenDenied env" "AES_set_encrypt_key c kek = Some ek"
    "AES_set_decrypt_key c kek = Some dk" "length key = 16" "length iv = 16"
    using d by (simp_all add: device_ready_def)
  have i: "FwdLockGlue_InitializeKeyEncryption c fwdglue_init ?e1 [] =
      (\<lparr>onceDone = True, isInitialized = True, encRoundKeys = Some ek, decRoundKeys = Some dk\<rparr>, ?e1, [])"
    by (rule InitializeKeyEncryption_same_file) (use d' in simp_all)
  have "FwdLockConv_MakeKeys c s fwdglue_init env [] =
    Some (Status_OK, s\<lparr>sessionKey := key, pEncryptedSessionKey := wrapped c key ek iv,
        encryptionRoundKeys := rk, signingContext := hc\<rparr>,
      \<lparr>onceDone = True, isInitialized = True, encRoundKeys = Some ek, decRoundKeys = Some dk\<rparr>, ?e2, [])"
    using d' u i k
    by (auto simp: FwdLockConv_MakeKeys_def FwdLockGlue_GetRandomNumber_def FwdLockGlue_EncryptKey_def
        FwdLockConv_DeriveKeys_def derived_def wrapped_def Let_def)
  with d'(1,2) show ?thesis by simp
qed

text \<open>The session table has a free slot; no allocation fails.\<close>

definition conv_ready :: "('rk, 'hc) convworld \<Rightarrow> bool" where
  "conv_ready w \<longleftrightarrow>
     length (sessionPtrs w) = MAX_NUM_SESSIONS \<and> None \<in> set (sessionPtrs w) \<and> convHeap w = [] \<and>
     convGlue w = fwdglue_init"

lemma OpenSession_ready:
  assumes w: "conv_ready w" and c: "cbc_ok c"
    and d: "device_ready c kek ek dk key iv (convEnv w)" and k: "derived c key rk hc"
  obtains i s w1 out1 where
    "FwdLockConv_OpenSession c fresh True (Some out) w = Some (Status_OK, int i, Some out1, w1)"
    "i < MAX_NUM_SESSIONS" "length (sessionPtrs w1) = MAX_NUM_SESSIONS" "sessionPtrs w1 ! i = Some s"
    "opened s" "encryptionRoundKeys s = rk" "signingContext s = hc"
    "pEncryptedSessionKey s = wrapped c key ek iv" "counter s = take AES_BLOCK_SIZE (wrapped c key ek iv)"
    "convHeap w1 = []" "pBuffer out1 = None"
    "convGlue w1 = \<lparr>onceDone = True, isInitialized = True, encRoundKeys = Some ek, decRoundKeys = Some dk\<rparr>"
    "kek_of (convEnv w1) = Some kek" "\<not> keyOpenDenied (convEnv w1)"
proof -
  have len: "length (sessionPtrs w) = 32" "convHeap w = []" "convGlue w = fwdglue_init"
    using w by (simp_all add: conv_ready_def)
  from w have "first_free (sessionPtrs w) \<noteq> None" by (simp add: conv_ready_def first_free_None)
  then obtain i where i: "first_free (sessionPtrs w) = Some i" by blast
  with first_free_Some [OF i] len have i32: "i < 32" by simp
  from MakeKeys_ready [OF d k, of fresh] obtain env' where m:
    "FwdLockConv_MakeKeys c fresh fwdglue_init (convEnv w) [] =
      Some (Status_OK, fresh\<lparr>sessionKey := key, pEncryptedSessionKey := wrapped c key ek iv,
        encryptionRoundKeys := rk, signingContext := hc\<rparr>,
      \<lparr>onceDone = True, isInitialized = True, encRoundKeys = Some ek, decRoundKeys = Some dk\<rparr>, env', [])"
    "kek_of env' = Some kek" "\<not> keyOpenDenied env'" by blast
  let ?s = "FwdLockConv_InitSession (fresh\<lparr>sessionKey := key, pEncryptedSessionKey := wrapped c key ek iv,
        encryptionRoundKeys := rk, signingContext := hc\<rparr>)"
  let ?w1 = "w\<lparr>sessionPtrs := (sessionPtrs w)[i := Some ?s], convEnv := env',
    convGlue := \<lparr>onceDone = True, isInitialized = True, encRoundKeys = Some ek, decRoundKeys = Some dk\<rparr>,
    convHeap := []\<rparr>"
  have "opened ?s"
    using wrapped_length [OF c d]
    by (simp add: opened_def FwdLockConv_InitSession_def FwdLockGlue_GetEncryptedKeyLength_def)
  moreover have "FwdLockConv_OpenSession c fresh True (Some out) w
      = Some (Status_OK, int i, Some (out\<lparr>pBuffer := None, errorPos := -1\<rparr>), ?w1)"
    using len i i32 m
    by (simp add: FwdLockConv_OpenSession_def FwdLockConv_AcquireSession_def Let_def
        FwdLockGlue_GetEncryptedKeyLength_def)
  ultimately show thesis
    using len i32 m(2,3)
    by (intro that [of i "out\<lparr>pBuffer := None, errorPos := -1\<rparr>" ?w1 ?s])
      (simp_all add: FwdLockConv_InitSession_def)
qed

section \<open>The converted file\<close>

definition locked_file ::
  "('rk, 'hc) crypto \<Rightarrow> 'rk \<Rightarrow> 'hc \<Rightarrow> bytes \<Rightarrow> bytes \<Rightarrow> bytes \<Rightarrow> bytes" where
  "locked_file c rk hc ekey ct bs =
     (let cipher = xor_stream (ctr_byte c rk (take AES_BLOCK_SIZE ekey)) 0 bs;
          hdr = topHeaderTemplate @ [of_nat (length ct)];
          ctx = HMAC_Update c hc cipher;
          dsig = HMAC_Final c ctx;
          hsig = HMAC_Final c (HMAC_Update c (HMAC_Update c (HMAC_Update c (HMAC_Update c
                   (HMAC_Reinit c (HMAC_Done c ctx)) hdr) ct) ekey) dsig)
      in hdr @ ct @ ekey @ dsig @ hsig @ cipher)"

definition mac_ok :: "('rk, 'hc) crypto \<Rightarrow> bool" where
  "mac_ok c \<longleftrightarrow> (\<forall>ctx. length (HMAC_Final c ctx) = SHA1_HASH_SIZE)"

abbreviation empty_outfile :: outfile where
  "empty_outfile \<equiv> \<lparr>fileBytes = [], outPos = 0, writeLimits = [], seekFails = False\<rparr>"

lemma patch_middle:
  "length b = length x \<Longrightarrow> take (length a) (a @ x @ z) @ b @ drop (length a + length b) (a @ x @ z) = a @ b @ z"
  by simp

lemma Sign_converted:
  assumes "mac_ok c" "ptr (contentType s) = Some ct" "strLength (contentType s) = length ct"
  shows "\<exists>dsig hsig. FwdLockConv_Sign c s
      = Some (Status_OK, dsig @ hsig, 8 + length ct + length (pEncryptedSessionKey s))
    \<and> dsig = HMAC_Final c (signingContext s)
    \<and> hsig = HMAC_Final c (HMAC_Update c (HMAC_Update c (HMAC_Update c (HMAC_Update c
          (HMAC_Reinit c (HMAC_Done c (signingContext s))) (topHeader s)) ct) (pEncryptedSessionKey s)) dsig)
    \<and> length dsig = 20 \<and> length hsig = 20"
  using assms by (simp add: FwdLockConv_Sign_def mac_ok_def Let_def)

lemma convert_message:
  assumes w: "conv_ready w" and c: "cbc_ok c" "block_cipher c" "mac_ok c" "mac_stream c"
    and d: "device_ready c kek ek dk key iv (convEnv w)" and k: "derived c key rk hc"
    and m: "boundary_ok b" "content_type_ok ct" "encodes_body enc (delimiter_of b) bs body"
    and bufs: "concat bufs = message b ct enc body @ rest"
      "list_all (\<lambda>buf. buf \<noteq> [] \<and> length buf \<le> READ_BUFFER_SIZE) bufs"
  shows "\<exists>w' f. FwdLockConv_ConvertOpenFile c fresh out (Some (map Some bufs))
        (Some empty_outfile) w = Some (Status_OK, -1, Some f, w')
    \<and> fileBytes f = locked_file c rk hc (wrapped c key ek iv) (map tolower ct) bs
    \<and> kek_of (convEnv w') = Some kek \<and> \<not> keyOpenDenied (convEnv w')"
proof -
  let ?ekey = "wrapped c key ek iv" and ?ct = "map tolower ct"
  let ?cipher = "xor_stream (ctr_byte c rk (take AES_BLOCK_SIZE ?ekey)) 0 bs"
  have h: "convHeap w = []" using w by (simp add: conv_ready_def)
  then have w0: "w\<lparr>convHeap := []\<rparr> = w" by simp
  obtain i s w1 out1 where o:
    "FwdLockConv_OpenSession c fresh True (Some out) w = Some (Status_OK, int i, Some out1, w1)"
    "i < MAX_NUM_SESSIONS" "length (sessionPtrs w1) = MAX_NUM_SESSIONS" "sessionPtrs w1 ! i = Some s"
    "opened s" "encryptionRoundKeys s = rk" "signingContext s = hc"
    "pEncryptedSessionKey s = ?ekey" "counter s = take AES_BLOCK_SIZE ?ekey"
    "convHeap w1 = []" "kek_of (convEnv w1) = Some kek" "\<not> keyOpenDenied (convEnv w1)"
    by (rule OpenSession_ready [OF w c(1) d k])
  from o(1) have o1: "FwdLockConv_OpenSession c fresh True (Some out) (w\<lparr>convHeap := []\<rparr>)
      = Some (Status_OK, int i, Some out1, w1)" by (simp only: w0)
  from message_converted [OF c(4,2) o(5) m bufs(1), of out1] obtain t o2 where
    t: "converts c s out1 bufs t o2 (file_header ?ct ?ekey @ ?cipher)" "parserState t = Done"
      "signingContext t = HMAC_Update c hc ?cipher" "ptr (contentType t) = Some ?ct"
      "strLength (contentType t) = length ct" "topHeader t = topHeaderTemplate @ [of_nat (length ct)]"
      "pEncryptedSessionKey t = ?ekey"
    using o by auto
  let ?bytes = "file_header ?ct ?ekey @ ?cipher"
  let ?w2 = "w1\<lparr>sessionPtrs := (sessionPtrs w1)[i := Some t]\<rparr>"
  let ?w3 = "?w2\<lparr>sessionPtrs := (sessionPtrs w1)[i := None]\<rparr>"
  let ?f1 = "\<lparr>fileBytes = ?bytes, outPos = length ?bytes, writeLimits = [], seekFails = False\<rparr>"
  have loop: "FwdLockConv_ConvertLoop c (int i) (map Some bufs) out1 (-1) empty_outfile w1
      = Some (Status_OK, o2, -1, ?f1, ?w2)"
    using ConvertLoop_converts [OF t(1) bufs(2) o(4,2,3,10), of empty_outfile "-1"] by simp
  obtain dsig hsig where sg: "FwdLockConv_Sign c t = Some (Status_OK, dsig @ hsig, 8 + length ?ct + length ?ekey)"
    "dsig = HMAC_Final c (signingContext t)"
    "hsig = HMAC_Final c (HMAC_Update c (HMAC_Update c (HMAC_Update c (HMAC_Update c
          (HMAC_Reinit c (HMAC_Done c (signingContext t))) (topHeader t)) ?ct) ?ekey) dsig)"
    "length dsig = 20" "length hsig = 20"
    using Sign_converted [OF c(3) t(4)] t(5,7) by auto
  have close: "FwdLockConv_CloseSession c (int i) (Some o2) ?w2
      = Some (Status_OK, \<lparr>signatures = dsig @ hsig, fileOffset = 8 + length ?ct + length ?ekey,
          closeErrorPos = -1\<rparr>, ?w3)"
    using o(2,3) t(2) sg(1)
    by (simp add: FwdLockConv_CloseSession_def FwdLockConv_IsValidSession_def
        FwdLockConv_ReleaseSession_def Let_def)
  let ?pre = "topHeaderTemplate @ [of_nat (length ct)] @ ?ct @ ?ekey"
  have pre: "?bytes = ?pre @ replicate 40 0 @ ?cipher" "length ?pre = 8 + length ?ct + length ?ekey"
    by (simp_all add: file_header_def topHeaderTemplate_def)
  let ?f2 = "\<lparr>fileBytes = ?pre @ (dsig @ hsig) @ ?cipher,
    outPos = 8 + length ?ct + length ?ekey + 40, writeLimits = [], seekFails = False\<rparr>"
  have "take (length ?pre) ?bytes @ (dsig @ hsig) @ drop (length ?pre + length (dsig @ hsig)) ?bytes
      = ?pre @ (dsig @ hsig) @ ?cipher"
    unfolding pre(1) by (rule patch_middle) (simp add: sg(4,5))
  then have ws: "FwdLockConv_WriteSignatures \<lparr>signatures = dsig @ hsig,
      fileOffset = 8 + length ?ct + length ?ekey, closeErrorPos = -1\<rparr> ?f1 = (Status_OK, ?f2)"
    using sg(4,5) unfolding pre(2)
    by (simp add: FwdLockConv_WriteSignatures_def fpLSeekFunc_def fpWriteFunc_def Let_def)
  have "FwdLockConv_ConvertOpenFile c fresh out (Some (map Some bufs)) (Some empty_outfile) w
      = Some (Status_OK, -1, Some ?f2, ?w3)"
    using h o1 loop close ws
    by (simp add: FwdLockConv_ConvertOpenFile_def Let_def del: FwdLockConv_ConvertLoop.simps)
  moreover have "fileBytes ?f2 = locked_file c rk hc ?ekey ?ct bs"
    using sg(2,3) t(3,6) by (simp add: locked_file_def Let_def)
  ultimately show ?thesis using o by auto
qed

section \<open>Attaching\<close>

text \<open>A state in which the file \<open>fd\<close> is open at a position and nothing will fail.\<close>

definition at_pos :: "int \<Rightarrow> bytes \<Rightarrow> nat \<Rightarrow> ('rk, 'hc) fileworld \<Rightarrow> ('rk, 'hc) fileworld" where
  "at_pos fd bs p w =
     w\<lparr>files := (files w)(fd \<mapsto> \<lparr>content = bs, offset = int p\<rparr>), ioOutcomes := [], flHeap := []\<rparr>"

lemma at_pos_fields [simp]:
  "flSessions (at_pos fd bs p w) = flSessions w" "flGlue (at_pos fd bs p w) = flGlue w"
  "flEnv (at_pos fd bs p w) = flEnv w" "flHeap (at_pos fd bs p w) = []"
  "ioOutcomes (at_pos fd bs p w) = []" "files (at_pos fd bs p w) fd = Some \<lparr>content = bs, offset = int p\<rparr>"
  "at_pos fd bs p w\<lparr>flHeap := []\<rparr> = at_pos fd bs p w"
  "at_pos fd bs p w\<lparr>flSessions := t\<rparr> = at_pos fd bs p (w\<lparr>flSessions := t\<rparr>)"
  "at_pos fd bs p w\<lparr>flGlue := g, flEnv := e, flHeap := []\<rparr> = at_pos fd bs p (w\<lparr>flGlue := g, flEnv := e\<rparr>)"
  by (simp_all add: at_pos_def)

lemma ReadExactly_at_pos:
  assumes "p + n \<le> length bs"
  shows "FwdLockFile_ReadExactly fd n (at_pos fd bs p w) = (Some (take n (drop p bs)), at_pos fd bs (p + n) w)"
  using assms by (simp add: FwdLockFile_ReadExactly_def posix_read_def at_pos_def)

definition decoder_ready :: "int \<Rightarrow> bytes \<Rightarrow> bytes \<Rightarrow> ('rk, 'hc) fileworld \<Rightarrow> bool" where
  "decoder_ready fd bs kek w \<longleftrightarrow>
     0 \<le> fd \<and> files w fd = Some \<lparr>content = bs, offset = 0\<rparr> \<and> ioOutcomes w = [] \<and> flHeap w = [] \<and>
     length (flSessions w) = FL_MAX_NUM_SESSIONS \<and> None \<in> set (flSessions w) \<and>
     (\<forall>s. Some s \<in> set (flSessions w) \<longrightarrow> fileDesc s \<noteq> fd) \<and>
     flGlue w = fwdglue_init \<and> kek_of (flEnv w) = Some kek \<and> \<not> keyOpenDenied (flEnv w)"

lemma decoder_ready_at_pos:
  assumes "decoder_ready fd bs kek w"
  shows "w = at_pos fd bs 0 w"
proof -
  have "(files w)(fd \<mapsto> \<lparr>content = bs, offset = 0\<rparr>) = files w"
    using assms by (auto simp: decoder_ready_def)
  with assms show ?thesis by (cases w) (simp add: at_pos_def decoder_ready_def)
qed

text \<open>The slot a new session gets, and that it is found again.\<close>

lemma Acquire_ready:
  assumes w: "decoder_ready fd bs kek w"
  obtains i where "i < FL_MAX_NUM_SESSIONS"
    "FwdLockFile_AcquireSession fresh fd w
       = (int i, at_pos fd bs 0 (w\<lparr>flSessions := (flSessions w)[i := Some (file_fresh fresh fd)]\<rparr>))"
    "\<And>s w'. fileDesc s = fd \<Longrightarrow> flSessions w' = (flSessions w)[i := Some s] \<Longrightarrow>
       FwdLockFile_FindSession fd w' = (int i, w')"
proof -
  have W: "0 \<le> fd" "length (flSessions w) = 128" "None \<in> set (flSessions w)" "flHeap w = []"
    "\<forall>s. Some s \<in> set (flSessions w) \<longrightarrow> fileDesc s \<noteq> fd"
    using w by (simp_all add: decoder_ready_def)
  let ?free = "\<lambda>i. flSessions w ! i = None"
  from W(2,3) obtain j where "j < 128" "?free j" by (metis in_set_conv_nth)
  then have "FwdLockFile_Probe ?free (nat fd) 0 FL_MAX_NUM_SESSIONS \<noteq> None"
    unfolding Probe_all_None by blast
  then obtain i where p: "FwdLockFile_Probe ?free (nat fd) 0 FL_MAX_NUM_SESSIONS = Some i" by blast
  then have i: "i < 128" using Probe_all_Some by blast
  have acq: "FwdLockFile_AcquireSession fresh fd w
      = (int i, at_pos fd bs 0 (w\<lparr>flSessions := (flSessions w)[i := Some (file_fresh fresh fd)]\<rparr>))"
    using decoder_ready_at_pos [OF w] W(1,4) p
    by (simp add: FwdLockFile_AcquireSession_def file_fresh_def) (metis at_pos_fields(7,8))
  have find: "FwdLockFile_FindSession fd w' = (int i, w')"
    if s: "fileDesc s = fd" "flSessions w' = (flSessions w)[i := Some s]" for s w'
  proof -
    let ?mine = "\<lambda>i. case flSessions w' ! i of None \<Rightarrow> False | Some s \<Rightarrow> fileDesc s = fd"
    have mine: "k = i" if "k < 128" "?mine k" for k
    proof (rule ccontr)
      assume "k \<noteq> i"
      with s(2) that obtain s' where "flSessions w ! k = Some s'" "fileDesc s' = fd"
        by (auto split: option.splits)
      with W(2,5) that(1) show False by (metis nth_mem)
    qed
    have "?mine i" using s i W(2) by simp
    with i have "FwdLockFile_Probe ?mine (nat fd) 0 FL_MAX_NUM_SESSIONS \<noteq> None"
      unfolding Probe_all_None by blast
    then obtain k where k: "FwdLockFile_Probe ?mine (nat fd) 0 FL_MAX_NUM_SESSIONS = Some k" by blast
    with mine Probe_all_Some have "k = i" by blast
    with k W(1) show ?thesis by (simp add: FwdLockFile_FindSession_def)
  qed
  show thesis by (rule that [OF i acq find])
qed

lemma attach_locked:
  fixes c :: "('rk, 'hc) crypto"
  assumes c: "cbc_ok c" "block_cipher c"
    and keys: "AES_set_encrypt_key c kek = Some ek" "AES_set_decrypt_key c kek = Some dk"
      "length key = KEY_SIZE" "length iv = AES_BLOCK_SIZE" "derived c key rk hc"
    and ekey: "ekey = wrapped c key ek iv" "length ekey = 48"
    and ct: "length ct \<le> 255" and sigs: "length dsig = 20" "length hsig = 20"
    and blob: "bs = topHeaderTemplate @ [of_nat (length ct)] @ ct @ ekey @ dsig @ hsig
        @ xor_stream (ctr_byte c rk (take AES_BLOCK_SIZE ekey)) 0 plain"
    and plain: "length plain \<le> 2 ^ 63"
    and w: "decoder_ready fd bs kek w"
  shows "\<exists>w' i s f. FwdLockFile_attach c fresh fd w = Some (0, w')
    \<and> attached c rk (take AES_BLOCK_SIZE ekey) plain fd w' i s f \<and> filePos s = 0
    \<and> pContentType s = Some ct \<and> contentTypeLength s = length ct \<and> flEncryptedSessionKey s = Some ekey
    \<and> flTopHeader s = topHeaderTemplate @ [of_nat (length ct)] \<and> dataSignature s = dsig
    \<and> headerSignature s = hsig \<and> flSigningContext s = hc \<and> flDataOffset s = int (length ct) + 96
    \<and> flHeap w' = [] \<and> ioOutcomes w' = [] \<and> content f = bs"
proof -
  let ?n = "length ct" and ?glue = "\<lparr>onceDone = True, isInitialized = True, encRoundKeys = Some ek,
    decRoundKeys = Some dk\<rparr>"
  obtain i where i: "i < FL_MAX_NUM_SESSIONS" and acq: "FwdLockFile_AcquireSession fresh fd w
       = (int i, at_pos fd bs 0 (w\<lparr>flSessions := (flSessions w)[i := Some (file_fresh fresh fd)]\<rparr>))"
    and find: "\<And>s w'. fileDesc s = fd \<Longrightarrow> flSessions w' = (flSessions w)[i := Some s] \<Longrightarrow>
       FwdLockFile_FindSession fd w' = (int i, w')"
    by (rule Acquire_ready [OF w]) blast
  have W: "0 \<le> fd" "length (flSessions w) = 128" "flGlue w = fwdglue_init" "kek_of (flEnv w) = Some kek"
    "\<not> keyOpenDenied (flEnv w)"
    using w by (simp_all add: decoder_ready_def)
  have len: "length bs = 96 + ?n + length plain"
    using ekey(2) sigs by (simp add: blob topHeaderTemplate_def)
  have un: "unat (of_nat ?n :: byte) = ?n" using ct by (simp add: unsigned_of_nat take_bit_nat_eq_self)
  have parts: "take 8 bs = topHeaderTemplate @ [of_nat ?n]"
    "take ?n (drop 8 bs) = ct" "take 48 (drop (8 + ?n) bs) = ekey"
    "take 20 (drop (56 + ?n) bs) = dsig" "take 20 (drop (76 + ?n) bs) = hsig"
    "drop (96 + ?n) bs = xor_stream (ctr_byte c rk (take AES_BLOCK_SIZE ekey)) 0 plain"
  proof -
    obtain hd8 where h: "hd8 = topHeaderTemplate @ [of_nat ?n]" "length hd8 = 8"
      by (simp add: topHeaderTemplate_def)
    have b: "bs = hd8 @ ct @ ekey @ dsig @ hsig @ xor_stream (ctr_byte c rk (take AES_BLOCK_SIZE ekey)) 0 plain"
      by (simp add: blob h(1))
    show "take 8 bs = topHeaderTemplate @ [of_nat ?n]" using b h by simp
    show "take ?n (drop 8 bs) = ct" "take 48 (drop (8 + ?n) bs) = ekey"
      "take 20 (drop (56 + ?n) bs) = dsig" "take 20 (drop (76 + ?n) bs) = hsig"
      "drop (96 + ?n) bs = xor_stream (ctr_byte c rk (take AES_BLOCK_SIZE ekey)) 0 plain"
      unfolding b using h(2) ekey(2) sigs by simp_all
  qed
  let ?w1 = "w\<lparr>flSessions := (flSessions w)[i := Some (file_fresh fresh fd)]\<rparr>"
  have dk: "FwdLockGlue_DecryptKey c ekey KEY_SIZE (flGlue w) (flEnv w) [] = Some ((True, key), ?glue, flEnv w, [])"
  proof -
    have ini: "FwdLockGlue_InitializeKeyEncryption c (flGlue w) (flEnv w) [] = (?glue, flEnv w, [])"
      unfolding W(3) by (rule InitializeKeyEncryption_same_file [OF W(4,5) keys(1,2)])
    from DecryptKey_wrapped [OF c(1) keys(1,2,4) ini, of "[]" key] keys(3) ekey(1)
    show ?thesis by (simp add: wrapped_def)
  qed
  define s1 where "s1 = (file_fresh fresh fd)\<lparr>flTopHeader := topHeaderTemplate @ [of_nat ?n],
    contentTypeLength := ?n, pContentType := Some ct, flEncryptedSessionKey := Some ekey,
    dataSignature := dsig, headerSignature := hsig, flRoundKeys := rk, flSigningContext := hc\<rparr>"
  let ?w2 = "at_pos fd bs (96 + ?n) (?w1\<lparr>flGlue := ?glue, flEnv := flEnv w\<rparr>)"
  have hdr: "FwdLockFile_AttachHeader c (file_fresh fresh fd) (at_pos fd bs 0 ?w1) = Some (True, s1, ?w2)"
  proof -
    have fdesc: "fileDesc (file_fresh fresh fd) = fd" by (simp add: file_fresh_def)
    have der: "FwdLockFile_DeriveKeys c ((file_fresh fresh fd)\<lparr>flTopHeader := topHeaderTemplate @ [of_nat ?n],
        contentTypeLength := ?n, pContentType := Some ct, flEncryptedSessionKey := Some ekey,
        dataSignature := dsig, headerSignature := hsig\<rparr>) (at_pos fd bs (96 + ?n) ?w1)
        = Some (True, s1, ?w2)"
      using dk keys(5) by (auto simp: FwdLockFile_DeriveKeys_def derived_def s1_def Let_def)
    have p8: "(topHeaderTemplate @ [of_nat ?n]) ! 7 = of_nat ?n"
      "take (length flTopHeaderTemplate) (topHeaderTemplate @ [of_nat ?n]) = flTopHeaderTemplate"
      by (simp_all add: topHeaderTemplate_def flTopHeaderTemplate_def)
    show ?thesis
      unfolding FwdLockFile_AttachHeader_def FwdLockFile_AttachKeys_def
      using len parts fdesc der p8 un
      by (simp add: ReadExactly_at_pos FwdLockGlue_GetEncryptedKeyLength_def Let_def
          add.commute [of _ "length ct"] add.assoc)
  qed
  let ?s = "s1\<lparr>flDataOffset := 96 + int ?n, filePos := 0, blockIndex := INVALID_BLOCK_INDEX\<rparr>"
  let ?w3 = "?w2\<lparr>flSessions := (flSessions w)[i := Some ?s]\<rparr>"
  have cl: "contentTypeLength s1 = ?n" by (simp add: s1_def)
  have att: "FwdLockFile_attach c fresh fd w = Some (0, ?w3)"
    using acq hdr i W(2) cl
    by (simp add: FwdLockFile_attach_def FwdLockGlue_GetEncryptedKeyLength_def del: at_pos_fields(7-9))
  have s: "fileDesc ?s = fd" by (simp add: s1_def file_fresh_def)
  have "attached c rk (take AES_BLOCK_SIZE ekey) plain fd ?w3 i ?s \<lparr>content = bs, offset = int (96 + ?n)\<rparr>"
    unfolding attached_def
    using find [OF s, of ?w3] i W(2) s ekey(2) c(2) plain len parts(6)
    by (simp add: key_cache_ok_def s1_def nat_add_distrib add.commute)
  with att show ?thesis
    by (intro exI [of _ ?w3] exI [of _ i] exI [of _ ?s] exI [of _ "\<lparr>content = bs, offset = int (96 + ?n)\<rparr>"])
      (simp add: s1_def)
qed

section \<open>The integrity checks\<close>

text \<open>Finishing a hash and starting again restores the context.\<close>

definition mac_restart :: "('rk, 'hc) crypto \<Rightarrow> bytes \<Rightarrow> 'hc \<Rightarrow> bool" where
  "mac_restart c key hc \<longleftrightarrow>
     hc = HMAC_Init c key \<and>
     (\<forall>bs. HMAC_Reinit c (HMAC_Done c (HMAC_Update c (HMAC_Init c key) bs)) = HMAC_Init c key)"

text \<open>The hashing loop needs no more reads than the bytes left, plus one.\<close>

lemma HashLoop_at_pos:
  assumes "mac_stream c"
  shows "p \<le> length bs \<Longrightarrow> length bs - p < fuel \<Longrightarrow>
    FwdLockFile_HashLoop c fd fuel ctx (at_pos fd bs p w)
      = Some (HMAC_Update c ctx (drop p bs), True, at_pos fd bs (length bs) w)"
proof (induction fuel arbitrary: p ctx)
  case (Suc fuel)
  have rd: "posix_read fd 1024 (at_pos fd bs p w) = (Some (take 1024 (drop p bs)),
      at_pos fd bs (p + length (take 1024 (drop p bs))) w)"
    by (simp add: posix_read_def at_pos_def)
  show ?case
  proof (cases "p = length bs")
    case True
    with rd assms show ?thesis by (simp add: mac_stream_def)
  next
    case False
    with Suc.prems have lt: "p < length bs" by simp
    define q where "q = p + length (take 1024 (drop p bs))"
    have q: "q \<le> length bs" "length bs - q < fuel" "take 1024 (drop p bs) @ drop q bs = drop p bs"
      using lt Suc.prems by (auto simp: q_def min_def) (metis append_take_drop_id drop_drop add.commute)
    have ne: "take 1024 (drop p bs) \<noteq> []" using lt by simp
    have "FwdLockFile_HashLoop c fd (Suc fuel) ctx (at_pos fd bs p w)
        = FwdLockFile_HashLoop c fd fuel (HMAC_Update c ctx (take 1024 (drop p bs))) (at_pos fd bs q w)"
      using rd ne by (simp add: q_def)
    also have "\<dots> = Some (HMAC_Update c ctx (drop p bs), True, at_pos fd bs (length bs) w)"
      using Suc.IH [OF q(1,2)] assms q(3) by (simp add: mac_stream_def)
    finally show ?thesis .
  qed
qed simp

text \<open>The states in which a check can run to its end.\<close>

definition checkable ::
  "('rk, 'hc) crypto \<Rightarrow> bytes \<Rightarrow> int \<Rightarrow> ('rk, 'hc) fileworld
     \<Rightarrow> nat \<Rightarrow> ('rk, 'hc) FwdLockFile_Session \<Rightarrow> bytes \<Rightarrow> bool" where
  "checkable c key fd w sid s bs \<longleftrightarrow>
     FwdLockFile_FindSession fd w = (int sid, w) \<and> sid < length (flSessions w) \<and>
     flSessions w ! sid = Some s \<and> fileDesc s = fd \<and> 0 \<le> flDataOffset s \<and> 0 \<le> filePos s \<and>
     nat (flDataOffset s) \<le> length bs \<and> flDataOffset s + filePos s < 2 ^ 63 \<and>
     files w fd = Some \<lparr>content = bs, offset = flDataOffset s + filePos s\<rparr> \<and>
     ioOutcomes w = [] \<and> flHeap w = [] \<and> mac_restart c key (flSigningContext s) \<and>
     (\<exists>ct ekey. pContentType s = Some ct \<and> length ct = contentTypeLength s \<and>
        flEncryptedSessionKey s = Some ekey)"

lemma lseek_at_pos:
  "0 \<le> p \<Longrightarrow> p < 2 ^ 63 \<Longrightarrow> posix_lseek64 fd p SEEK_SET (at_pos fd bs q w) = (p, at_pos fd bs (nat p) w)"
  by (simp add: posix_lseek64_def at_pos_def)

lemma CheckDataIntegrity_result:
  assumes c: "mac_stream c" "mac_ok c" and w: "checkable c key fd w sid s bs"
  shows "FwdLockFile_CheckDataIntegrity c fd w
    = Some (HMAC_Final c (HMAC_Update c (flSigningContext s) (drop (nat (flDataOffset s)) bs))
              = dataSignature s, w)"
proof -
  let ?d = "flDataOffset s" and ?hc = "flSigningContext s" and ?q = "nat (flDataOffset s + filePos s)"
  let ?ctx = "HMAC_Update c ?hc (drop (nat ?d) bs)"
  have W: "FwdLockFile_FindSession fd w = (int sid, w)" "sid < length (flSessions w)"
    "flSessions w ! sid = Some s" "fileDesc s = fd" "0 \<le> ?d" "0 \<le> filePos s" "nat ?d \<le> length bs"
    "files w fd = Some \<lparr>content = bs, offset = ?d + filePos s\<rparr>" "ioOutcomes w = []" "flHeap w = []"
    "mac_restart c key ?hc" "?d + filePos s < 2 ^ 63"
    using w by (simp_all add: checkable_def)
  have "(files w)(fd \<mapsto> \<lparr>content = bs, offset = int ?q\<rparr>) = files w" using W(5,6,8) by auto
  then have at: "w = at_pos fd bs ?q w" using W(9,10) by (cases w) (simp add: at_pos_def)
  have fuel: "FwdLockFile_HashFuel fd (at_pos fd bs (nat ?d) w) = length bs + 1"
    by (simp add: FwdLockFile_HashFuel_def)
  have loop: "FwdLockFile_HashLoop c fd (length bs + 1) ?hc (at_pos fd bs (nat ?d) w)
      = Some (?ctx, True, at_pos fd bs (length bs) w)"
    by (rule HashLoop_at_pos [OF c(1) W(7)]) simp
  have re: "HMAC_Reinit c (HMAC_Done c ?ctx) = ?hc" using W(11) by (auto simp: mac_restart_def)
  have same: "s\<lparr>flSigningContext := ?hc\<rparr> = s" by simp
  have ses: "at_pos fd bs p w\<lparr>flSessions := (flSessions w)[sid := Some s]\<rparr> = at_pos fd bs p w" for p
  proof -
    have "(flSessions w)[sid := Some s] = flSessions w" using W(2,3) by (metis list_update_id)
    then show ?thesis by (simp add: at_pos_def)
  qed
  have "FwdLockFile_FindSession fd w = (int sid, at_pos fd bs ?q w)" using W(1) at by simp
  moreover have "posix_lseek64 fd ?d SEEK_SET (at_pos fd bs ?q w) = (?d, at_pos fd bs (nat ?d) w)"
    by (rule lseek_at_pos [OF W(5)]) (use W(6,12) in linarith)
  moreover have "posix_lseek64 fd (?d + filePos s) SEEK_SET (at_pos fd bs (length bs) w)
      = (?d + filePos s, at_pos fd bs ?q w)"
    by (rule lseek_at_pos) (use W(5,6,12) in simp_all)
  moreover have "off64 (?d + filePos s) = Some (?d + filePos s)" using W(5,6,12) by (simp add: off64_def)
  ultimately have "FwdLockFile_CheckDataIntegrity c fd w
      = Some (HMAC_Final c ?ctx = dataSignature s, at_pos fd bs ?q w)"
    using W(3,4) fuel loop re same ses c(2)
    by (simp add: FwdLockFile_CheckDataIntegrity_def mac_ok_def Let_def
        del: at_pos_fields(8) FwdLockFile_HashLoop.simps)
  with at show ?thesis by simp
qed

lemma CheckHeaderIntegrity_result:
  assumes c: "mac_stream c" "mac_ok c" and w: "checkable c key fd w sid s bs"
    and s: "pContentType s = Some ct" "flEncryptedSessionKey s = Some ekey"
  shows "FwdLockFile_CheckHeaderIntegrity c fd w
    = Some (HMAC_Final c (HMAC_Update c (flSigningContext s) (flTopHeader s @ ct @ ekey @ dataSignature s))
              = headerSignature s, w)"
proof -
  let ?hc = "flSigningContext s"
  have W: "FwdLockFile_FindSession fd w = (int sid, w)" "sid < length (flSessions w)"
    "flSessions w ! sid = Some s" "mac_restart c key ?hc" "length ct = contentTypeLength s"
    using w s by (auto simp: checkable_def)
  have upd: "HMAC_Update c (HMAC_Update c ctx a) b = HMAC_Update c ctx (a @ b)" for ctx a b
    using c(1) by (simp add: mac_stream_def)
  have re: "HMAC_Reinit c (HMAC_Done c (HMAC_Update c ?hc bs)) = ?hc" for bs
    using W(4) by (auto simp: mac_restart_def)
  have "(flSessions w)[sid := Some s] = flSessions w" using W(2,3) by (metis list_update_id)
  then have ses: "w\<lparr>flSessions := (flSessions w)[sid := Some s]\<rparr> = w" by simp
  have same: "s\<lparr>flSigningContext := ?hc\<rparr> = s" by simp
  show ?thesis
    using W(1,3,5) s c(2) same ses
    by (simp add: FwdLockFile_CheckHeaderIntegrity_def mac_ok_def Let_def upd re)
qed

lemma CheckIntegrity_result:
  assumes c: "mac_stream c" "mac_ok c" and w: "checkable c key fd w sid s bs"
    and s: "pContentType s = Some ct" "flEncryptedSessionKey s = Some ekey"
  shows "FwdLockFile_CheckIntegrity c fd w
    = Some (HMAC_Final c (HMAC_Update c (flSigningContext s) (flTopHeader s @ ct @ ekey @ dataSignature s))
              = headerSignature s \<and>
            HMAC_Final c (HMAC_Update c (flSigningContext s) (drop (nat (flDataOffset s)) bs))
              = dataSignature s, w)"
  using CheckHeaderIntegrity_result [OF assms] CheckDataIntegrity_result [OF c w]
  by (simp add: FwdLockFile_CheckIntegrity_def)

section \<open>A file that was just converted\<close>

lemma locked_file_plays:
  fixes c :: "('rk, 'hc) crypto"
  assumes c: "cbc_ok c" "block_cipher c" "mac_ok c" "mac_stream c" "mac_restart c mk hc"
    and d: "device_ready c kek ek dk key iv env" and k: "derived c key rk hc"
    and ct: "length ct \<le> 255" and plain: "length plain \<le> 2 ^ 63"
    and w: "decoder_ready fd (locked_file c rk hc (wrapped c key ek iv) ct plain) kek w"
  shows "\<exists>w' i s f. FwdLockFile_attach c fresh fd w = Some (0, w')
    \<and> FwdLockFile_CheckIntegrity c fd w' = Some (True, w')
    \<and> fst (FwdLockFile_GetContentType fd w') = Some ct
    \<and> attached c rk (take AES_BLOCK_SIZE (wrapped c key ek iv)) plain fd w' i s f \<and> filePos s = 0
    \<and> ioOutcomes w' = []"
proof -
  let ?ekey = "wrapped c key ek iv" and ?hdr = "topHeaderTemplate @ [of_nat (length ct)]"
  let ?cipher = "xor_stream (ctr_byte c rk (take AES_BLOCK_SIZE ?ekey)) 0 plain"
  let ?dsig = "HMAC_Final c (HMAC_Update c hc ?cipher)"
  let ?hsig = "HMAC_Final c (HMAC_Update c hc (?hdr @ ct @ ?ekey @ ?dsig))"
  let ?bs = "locked_file c rk hc ?ekey ct plain"
  have upd: "HMAC_Update c (HMAC_Update c ctx a) b = HMAC_Update c ctx (a @ b)" for ctx a b
    using c(4) by (simp add: mac_stream_def)
  have re: "HMAC_Reinit c (HMAC_Done c (HMAC_Update c hc bs)) = hc" for bs
    using c(5) by (auto simp: mac_restart_def)
  have bs: "?bs = topHeaderTemplate @ [of_nat (length ct)] @ ct @ ?ekey @ ?dsig @ ?hsig @ ?cipher"
    by (simp add: locked_file_def Let_def upd re)
  have sl: "length ?dsig = 20" "length ?hsig = 20" using c(3) by (simp_all add: mac_ok_def)
  have D: "AES_set_encrypt_key c kek = Some ek" "AES_set_decrypt_key c kek = Some dk"
    "length key = KEY_SIZE" "length iv = AES_BLOCK_SIZE"
    using d by (simp_all add: device_ready_def)
  from attach_locked [OF c(1,2) D k refl wrapped_length [OF c(1) d] ct sl bs plain w, of fresh]
  obtain w' i s f where
    a: "FwdLockFile_attach c fresh fd w = Some (0, w')"
      "attached c rk (take AES_BLOCK_SIZE ?ekey) plain fd w' i s f" "filePos s = 0"
      "pContentType s = Some ct" "contentTypeLength s = length ct" "flEncryptedSessionKey s = Some ?ekey"
      "flTopHeader s = ?hdr" "dataSignature s = ?dsig" "headerSignature s = ?hsig"
      "flSigningContext s = hc" "flDataOffset s = int (length ct) + 96" "flHeap w' = []" "ioOutcomes w' = []" "content f = ?bs"
    by auto
  have A: "FwdLockFile_FindSession fd w' = (int i, w')" "i < length (flSessions w')"
    "flSessions w' ! i = Some s" "fileDesc s = fd" "files w' fd = Some f"
    "offset f = flDataOffset s + filePos s" "length (content f) = nat (flDataOffset s) + length plain"
    "drop (nat (flDataOffset s)) (content f) = ?cipher"
    using a(2) by (simp_all add: attached_def)
  have "checkable c mk fd w' i s ?bs"
    unfolding checkable_def using A a c(5) ct by (cases f) simp
  from CheckIntegrity_result [OF c(4,3) this a(4,6)] a A(8)
  have "FwdLockFile_CheckIntegrity c fd w' = Some (True, w')" by simp
  moreover have "fst (FwdLockFile_GetContentType fd w') = Some ct"
    using A(1-3) a(4) by (simp add: FwdLockFile_GetContentType_def)
  ultimately show ?thesis using a by blast
qed

lemma read_attached:
  assumes "attached c rk nonce plain fd w i s f" "filePos s = 0" "ioOutcomes w = []"
  shows "\<exists>w'. FwdLockFile_read c fd n w = Some (Some (take n plain), w')"
proof -
  obtain v where "posix_read fd n (plain_view fd plain s w) = (Some (take n plain), v)"
    using assms(2,3) by (simp add: posix_read_def plain_view_def)
  from read_refines [OF assms(1) this] show ?thesis by blast
qed

section \<open>Hashing ends\<close>

lemma posix_read_progress:
  assumes "posix_read fd n w = (Some bs, w')" "files w fd = Some f" "0 \<le> offset f"
  shows "files w' fd = Some (f\<lparr>offset := offset f + int (length bs)\<rparr>)"
    "nat (offset f) + length bs \<le> max (nat (offset f)) (length (content f))"
  using assms
  by (auto simp: posix_read_def Let_def split: list.splits io_outcome.splits prod.splits)

text \<open>Whatever the reads return, the hashing loop stops within the fuel it is given.\<close>

lemma HashLoop_ends:
  assumes "files w fd = Some f" "0 \<le> offset f" "length (content f) - nat (offset f) < fuel"
  shows "FwdLockFile_HashLoop c fd fuel ctx w \<noteq> None"
  using assms
proof (induction fuel arbitrary: ctx w f)
  case (Suc fuel)
  obtain res w1 where rd: "posix_read fd 1024 w = (res, w1)" by (cases "posix_read fd 1024 w") auto
  show ?case
  proof (cases res)
    case None
    with rd show ?thesis by simp
  next
    case (Some bs)
    with rd have rd': "posix_read fd 1024 w = (Some bs, w1)" by simp
    note P = posix_read_progress [OF rd' Suc.prems(1,2)]
    show ?thesis
    proof (cases "bs = []")
      case True
      with rd Some show ?thesis by simp
    next
      case False
      then have "0 < length bs" by simp
      with P(2) Suc.prems(2,3)
      have "length (content f) - nat (offset f + int (length bs)) < fuel" 
        by (simp only: nat_add_distrib of_nat_0_le_iff nat_int)
      with Suc.IH [OF P(1)] Suc.prems(2) rd Some False show ?thesis by simp
    qed
  qed
qed simp

end
