(* ===== verification/FwdLockReach.thy ===== *)
theory FwdLockReach
  imports FwdLockEnd
begin

text \<open>
  The states a conversion session passes through: opened by \<open>FwdLockConv_OpenSession\<close>, then any
  number of calls of \<open>FwdLockConv_ConvertBuffer\<close> that returned \<open>Status_OK\<close>, whatever the buffers
  and whatever the allocator answers. The session is ready for another buffer in each of them.
\<close>

inductive conversion ::
  "('rk, 'hc) crypto \<Rightarrow> ('rk, 'hc) FwdLockConv_Session \<Rightarrow> FwdLockConv_ConvertData_Output \<Rightarrow> bool"
  for c :: "('rk, 'hc) crypto" where
  conversion_opened:
    "FwdLockConv_OpenSession c fresh True (Some out0) w = Some (Status_OK, sid, Some out, w') \<Longrightarrow>
     glue_ok c (convGlue w) (convEnv w) \<Longrightarrow> isInitialized (convGlue w) \<longrightarrow> onceDone (convGlue w) \<Longrightarrow>
     sessionPtrs w' ! nat sid = Some s \<Longrightarrow> conversion c s out"
| conversion_buffer:
    "conversion c s out \<Longrightarrow>
     FwdLockConv_ConvertBuffer c s buf out h = Some (Status_OK, s', out', h') \<Longrightarrow> conversion c s' out'"

lemma first_free_less: "first_free tbl = Some i \<Longrightarrow> i < length tbl"
  by (induction tbl arbitrary: i rule: first_free.induct) auto

lemma DeriveKeys_frame:
  "FwdLockConv_DeriveKeys c s h = (status, s', h') \<Longrightarrow> pEncryptedSessionKey s' = pEncryptedSessionKey s"
  by (auto simp: FwdLockConv_DeriveKeys_def split: prod.splits if_splits option.splits)

lemma MakeKeys_length:
  assumes "cbc_ok c" "glue_ok c g env" "isInitialized g \<longrightarrow> onceDone g"
    and "FwdLockConv_MakeKeys c s g env h = Some (Status_OK, s', g', env', h')"
  shows "length (pEncryptedSessionKey s') = FwdLockGlue_GetEncryptedKeyLength KEY_SIZE"
proof -
  obtain r env1 where r: "FwdLockGlue_GetRandomNumber KEY_SIZE env = (r, env1)"
    by (cases "FwdLockGlue_GetRandomNumber KEY_SIZE env") auto
  obtain key where key: "r = Some key" using assms(4) r by (cases r) (auto simp: FwdLockConv_MakeKeys_def)
  note R = GetRandomNumber_env [OF r [unfolded key]]
  have kek: "kek_of env1 = kek_of env" by (subst R(1)) (simp add: kek_of_def)
  then have g: "glue_ok c g env1" using assms(2) by (simp add: glue_ok_def)
  from assms(4) r key obtain ekey g2 env2 h2 where
    e: "FwdLockGlue_EncryptKey c key (FwdLockGlue_GetEncryptedKeyLength KEY_SIZE) g env1 h
        = Some (Some ekey, g2, env2, h2)"
    and d: "FwdLockConv_DeriveKeys c (s\<lparr>sessionKey := key, pEncryptedSessionKey := ekey\<rparr>) h2
        = (Status_OK, s', h')"
    by (auto simp: FwdLockConv_MakeKeys_def split: option.splits prod.splits)
  have "FwdLockGlue_EncryptKey c key (FwdLockGlue_GetEncryptedKeyLength (length key)) g env1 h
      = Some (Some ekey, g2, env2, h2)"
    using e R(2) by simp
  then have "length ekey = FwdLockGlue_GetEncryptedKeyLength (length key)"
    by (rule EncryptKey_result [OF assms(1) g assms(3)])
  with DeriveKeys_frame [OF d] R(2) show ?thesis by simp
qed

lemma OpenSession_opened:
  assumes c: "cbc_ok c" and g: "glue_ok c (convGlue w) (convEnv w)" "isInitialized (convGlue w) \<longrightarrow> onceDone (convGlue w)"
    and o: "FwdLockConv_OpenSession c fresh True (Some out0) w = Some (Status_OK, sid, Some out, w')"
    and s: "sessionPtrs w' ! nat sid = Some s"
  shows "opened s"
proof -
  obtain i tbl h where a: "FwdLockConv_AcquireSession fresh (sessionPtrs w) (convHeap w) = (i, tbl, h)"
    by (cases "FwdLockConv_AcquireSession fresh (sessionPtrs w) (convHeap w)") auto
  have i: "0 \<le> i" using o a by (auto simp: FwdLockConv_OpenSession_def split: if_splits)
  obtain got h1 where got: "alloc h = (got, h1)" by (cases "alloc h") auto
  from o a i got obtain t g2 env2 h2 where
    m: "FwdLockConv_MakeKeys c fresh (convGlue w) (convEnv w) h1 = Some (Status_OK, t, g2, env2, h2)"
    and w': "sid = i" "w' = w\<lparr>sessionPtrs := tbl[nat i := Some (FwdLockConv_InitSession t)],
        convGlue := g2, convEnv := env2, convHeap := h2\<rparr>"
    by (auto simp: FwdLockConv_OpenSession_def Let_def split: if_splits option.splits prod.splits)
  have "nat i < length tbl"
    using a i first_free_less [of "take MAX_NUM_SESSIONS (sessionPtrs w)"]
    by (auto simp: FwdLockConv_AcquireSession_def split: option.splits prod.splits if_splits)
  with s w' have "s = FwdLockConv_InitSession t" by simp
  with MakeKeys_length [OF c g m] show ?thesis by (simp add: opened_def FwdLockConv_InitSession_def)
qed

lemma opened_ready: "opened s \<Longrightarrow> ready s out"
  by (simp add: opened_def ready_def conv_inv_def string_ok_def nullString_def key_ok_def output_ok_def
      open_ok_def FwdLockGlue_GetEncryptedKeyLength_def)

lemma conversion_ready:
  assumes "conversion c s out" "cbc_ok c" "block_cipher c"
  shows "ready s out"
  using assms(1)
proof induction
  case conversion_opened
  then show ?case using OpenSession_opened [OF assms(2)] opened_ready by blast
next
  case (conversion_buffer s out buf h s' out' h')
  show ?case
    by (rule ConvertBuffer_cases [OF conversion_buffer.IH assms(3), of buf h])
      (use conversion_buffer.hyps(2) in auto)
qed

end
