(* ===== verification/FwdLockProps.thy ===== *)
theory FwdLockProps
  imports FwdLockReach
begin

text \<open>
  The properties of the Forward Lock converter and decoder, each with an instance that shows
  its hypotheses can hold. The instances use a toy stand-in for OpenSSL that satisfies the laws
  the code relies on: a \<open>cipher\<close> that inverts some bits, key wrapping by the identity and a
  \<open>hash\<close> that returns the first twenty bytes.
\<close>

section \<open>A stand-in for OpenSSL\<close>

definition toy :: "(bytes, bytes) crypto" where
  "toy = \<lparr>AES_set_encrypt_key = Some, AES_set_decrypt_key = Some,
     AES_encrypt = (\<lambda>b k. map (\<lambda>x. x XOR 0x5A) b),
     AES_cbc_encrypt = (\<lambda>p k iv. p), AES_cbc_decrypt = (\<lambda>p k iv. p),
     HMAC_Init = (\<lambda>k. []), HMAC_Reinit = (\<lambda>ctx. []), HMAC_Update = (\<lambda>ctx b. ctx @ b),
     HMAC_Final = (\<lambda>ctx. take 20 (ctx @ replicate 20 0)), HMAC_Done = (\<lambda>ctx. ctx)\<rparr>"

lemma toy_laws [simp]:
  "cbc_ok toy" "block_cipher toy" "mac_ok toy" "mac_stream toy" "mac_restart toy mk []"
  by (simp_all add: toy_def cbc_ok_def block_cipher_def mac_ok_def mac_stream_def mac_restart_def
      min_def)

definition toyKey :: bytes where "toyKey = replicate 16 7"
definition toyIv :: bytes where "toyIv = replicate 16 9"
definition toyKek :: bytes where "toyKek = replicate 16 3"

definition toyEnv :: fwdenv where
  "toyEnv = \<lparr>urandom = [Some toyKey, Some toyIv], keyFile = Some toyKek, keyOpenDenied = False,
     mkdirFails = (\<lambda>_. False), keyCreateFails = False, keyWriteLimit = None\<rparr>"

definition toyRk :: bytes where "toyRk = replicate 16 0x5A"

lemma toy_derived [simp]: "derived toy toyKey toyRk []"
  by (simp add: derived_def toy_def toyRk_def)

lemma toy_device [simp]: "device_ready toy toyKek toyKek toyKek toyKey toyIv toyEnv"
  by (simp add: device_ready_def toy_def toyEnv_def kek_of_def toyKek_def toyKey_def toyIv_def)

definition toySession :: "(bytes, bytes) FwdLockConv_Session" where
  "toySession = \<lparr>parserState = Done, scannerState = WantsFirstDash, savedScannerState = WantsFirstDash,
     numCharsConsumed = 0, delimiter = [], delimiterMatchPos = 0, mimeHeaderName = nullString,
     contentType = nullString, contentTransferEncoding = CTE_Undefined, sessionKey = [],
     pEncryptedSessionKey = replicate 48 0, encryptionRoundKeys = [], signingContext = [], topHeader = [],
     counter = replicate 16 0, keyStream = [], keyStreamIndex = -1, sesCh = 0, outputBufferSize = 0,
     dataOffset = 0, numDataBytes = 0\<rparr>"

definition toyFileSession :: "(bytes, bytes) FwdLockFile_Session" where
  "toyFileSession = \<lparr>fileDesc = 0, flTopHeader = [], pContentType = None, contentTypeLength = 0,
     flEncryptedSessionKey = None, dataSignature = [], headerSignature = [], flDataOffset = 0,
     filePos = 0, flRoundKeys = [], flSigningContext = [], flKeyStream = [], blockIndex = 0\<rparr>"

definition toyConvWorld :: "(bytes, bytes) convworld" where
  "toyConvWorld = \<lparr>sessionPtrs = replicate 32 None, convGlue = fwdglue_init, convEnv = toyEnv, convHeap = []\<rparr>"

definition toyFileWorld :: "bytes \<Rightarrow> (bytes, bytes) fileworld" where
  "toyFileWorld bs = \<lparr>flSessions = replicate 128 None, flGlue = fwdglue_init, flEnv = toyEnv, flHeap = [],
     files = [5 \<mapsto> \<lparr>content = bs, offset = 0\<rparr>], ioOutcomes = [], errnoVal = None\<rparr>"

lemma toy_decoder_ready [simp]: "decoder_ready 5 bs toyKek (toyFileWorld bs)"
  by (simp add: decoder_ready_def toyFileWorld_def toyEnv_def kek_of_def toyKek_def)

definition toyOut :: FwdLockConv_ConvertData_Output where
  "toyOut = \<lparr>pBuffer = None, outBytes = [], errorPos = -1\<rparr>"

definition toyBoundary :: bytes where "toyBoundary = bytes_of ''sep''"
definition toyType :: bytes where "toyType = bytes_of ''audio/mp3''"
definition toyBody :: bytes where "toyBody = [1, 2, 13, 10, 45, 45, 3]"

section \<open>The properties\<close>

text \<open>C1. A well formed OMA DRM message of any length (an open delimiter, a content type, a transfer
  encoding and a binary body, or a base64 body in any layout of lines), delivered in any sequence of
  non-empty reads of at most 1024 bytes, is converted with \<open>Status_OK\<close>; whoever attaches the file
  that was written, with the same device key, finds its integrity intact, its content type (in lower
  case), and reads the content of the message.\<close>

theorem converted_message_plays:
  fixes c :: "('rk, 'hc) crypto"
  assumes "cbc_ok c" "block_cipher c" "mac_ok c" "mac_stream c" "mac_restart c mk hc"
    and "conv_ready w" "device_ready c kek ek dk key iv (convEnv w)" "derived c key rk hc"
    and "boundary_ok b" "content_type_ok ct" "encodes_body enc (delimiter_of b) bs body"
    and "concat bufs = message b ct enc body @ rest"
    and "list_all (\<lambda>buf. buf \<noteq> [] \<and> length buf \<le> READ_BUFFER_SIZE) bufs" "length bs \<le> 2 ^ 63"
  shows "\<exists>w' f. FwdLockConv_ConvertOpenFile c fresh out (Some (map Some bufs)) (Some empty_outfile) w
        = Some (Status_OK, INVALID_OFFSET, Some f, w')
    \<and> (\<forall>fd fw. decoder_ready fd (fileBytes f) kek fw \<longrightarrow>
         (\<exists>fw'. FwdLockFile_attach c fresh' fd fw = Some (0, fw')
            \<and> FwdLockFile_CheckIntegrity c fd fw' = Some (True, fw')
            \<and> fst (FwdLockFile_GetContentType fd fw') = Some (map tolower ct)
            \<and> (\<forall>n. \<exists>fw''. FwdLockFile_read c fd n fw' = Some (Some (take n bs), fw''))))"
proof -
  obtain w' f where conv: "FwdLockConv_ConvertOpenFile c fresh out
        (Some (map Some bufs)) (Some empty_outfile) w
        = Some (Status_OK, INVALID_OFFSET, Some f, w')"
    and f: "fileBytes f = locked_file c rk hc (wrapped c key ek iv) (map tolower ct) bs"
    using convert_message [OF assms(6,1-4,7-13), of fresh out] by blast
  have ct: "length (map tolower ct) \<le> 255" using assms(10) by (simp add: content_type_ok_def)
  have "\<exists>fw'. FwdLockFile_attach c fresh' fd fw = Some (0, fw')
      \<and> FwdLockFile_CheckIntegrity c fd fw' = Some (True, fw')
      \<and> fst (FwdLockFile_GetContentType fd fw') = Some (map tolower ct)
      \<and> (\<forall>n. \<exists>fw''. FwdLockFile_read c fd n fw' = Some (Some (take n bs), fw''))"
    if ready: "decoder_ready fd (fileBytes f) kek fw" for fd fw
  proof -
    obtain fw' i s g where a: "FwdLockFile_attach c fresh' fd fw = Some (0, fw')"
      "FwdLockFile_CheckIntegrity c fd fw' = Some (True, fw')"
      "fst (FwdLockFile_GetContentType fd fw') = Some (map tolower ct)"
      "attached c rk (take AES_BLOCK_SIZE (wrapped c key ek iv)) bs fd fw' i s g" "filePos s = 0"
      "ioOutcomes fw' = []"
      using locked_file_plays [OF assms(1-5,7,8) ct assms(14) ready [unfolded f], of fresh'] by blast
    have "\<forall>n. \<exists>fw''. FwdLockFile_read c fd n fw' = Some (Some (take n bs), fw'')"
      using read_attached [OF a(4-6)] by blast
    with a(1-3) show ?thesis by blast
  qed
  with conv show ?thesis by blast
qed

text \<open>Three reads: the first cut lies in a header line, the second in the body.\<close>

definition toyMessage :: bytes where
  "toyMessage = message toyBoundary toyType CTE_Binary (toyBody @ delimiter_of toyBoundary @ [DASH, DASH]) @ [13]"

definition toyReads :: "bytes list" where
  "toyReads = [take 20 toyMessage, take 53 (drop 20 toyMessage), drop 73 toyMessage]"

theorem converted_message_plays_witness:
  "\<exists>w' f. FwdLockConv_ConvertOpenFile toy toySession toyOut (Some (map Some toyReads)) (Some empty_outfile)
        toyConvWorld = Some (Status_OK, INVALID_OFFSET, Some f, w')
    \<and> (\<forall>fd fw. decoder_ready fd (fileBytes f) toyKek fw \<longrightarrow>
         (\<exists>fw'. FwdLockFile_attach toy toyFileSession fd fw = Some (0, fw')
            \<and> FwdLockFile_CheckIntegrity toy fd fw' = Some (True, fw')
            \<and> fst (FwdLockFile_GetContentType fd fw') = Some (map tolower toyType)
            \<and> (\<forall>n. \<exists>fw''. FwdLockFile_read toy fd n fw' = Some (Some (take n toyBody), fw''))))"
proof (rule converted_message_plays)
  show "mac_restart toy [] []" by simp
  show "conv_ready toyConvWorld" by (simp add: conv_ready_def toyConvWorld_def)
  show "device_ready toy toyKek toyKek toyKek toyKey toyIv (convEnv toyConvWorld)"
    by (simp add: toyConvWorld_def)
  show "derived toy toyKey toyRk []" by simp
  show "boundary_ok toyBoundary"
    by (simp add: boundary_ok_def toyBoundary_def FwdLockConv_IsBoundaryChar_def isalnum_def)
  show "content_type_ok toyType"
    by (simp add: content_type_ok_def toyType_def FwdLockConv_IsMimeHeaderValueChar_def isgraph_def
        unsupported_types_def strApplicationVndOmaDrmRightsXml_def strApplicationVndOmaDrmContent_def)
  show "encodes_body CTE_Binary (delimiter_of toyBoundary) toyBody
      (toyBody @ delimiter_of toyBoundary @ [DASH, DASH])"
    by (simp add: encodes_body_def delimiter_of_def toyBoundary_def toyBody_def sublist_Cons_right)
  have "take 53 (drop 20 toyMessage) @ drop 73 toyMessage = drop 20 toyMessage"
    using append_take_drop_id [of 53 "drop 20 toyMessage"] by simp
  then have "concat toyReads = toyMessage" by (simp add: toyReads_def)
  then show "concat toyReads = message toyBoundary toyType CTE_Binary
      (toyBody @ delimiter_of toyBoundary @ [DASH, DASH]) @ [13]"
    by (simp only: toyMessage_def)
  have "length toyMessage = 86"
    by (simp add: toyMessage_def message_def content_type_line_def encoding_line_def encoding_name_def
        toyBoundary_def toyType_def toyBody_def delimiter_of_def)
  then show "list_all (\<lambda>buf. buf \<noteq> [] \<and> length buf \<le> READ_BUFFER_SIZE) toyReads"
    by (auto simp: toyReads_def)
qed (simp_all add: toyBody_def)

text \<open>C2. After opening a session, with a key glue that is either not set up or set up from the key
  file, and any number of conversions that returned \<open>Status_OK\<close>,
  converting another buffer, whatever the allocator does, ends without an access outside the
  output buffer, a string or the delimiter and without \<open>Status_ProgramError\<close>; on \<open>Status_OK\<close> the
  region that is signed lies within the bytes produced. (A session that returned an error must
  not be used again: see the next property.)\<close>

theorem convert_buffer_safe:
  assumes "cbc_ok c" "block_cipher c" "conversion c s out"
  shows "\<exists>status s' out' h'. FwdLockConv_ConvertBuffer c s buf out h = Some (status, s', out', h')
    \<and> status \<in> {Status_OK, Status_SyntaxError, Status_OutOfMemory, Status_UnsupportedFileFormat,
                Status_UnsupportedContentTransferEncoding}
    \<and> (status = Status_OK \<longrightarrow> conversion c s' out' \<and> ready s' out'
        \<and> dataOffset s' + numDataBytes s' = length (outBytes out'))"
  by (rule ConvertBuffer_cases [OF conversion_ready [OF assms(3,1,2)] assms(2), of buf h])
    (auto simp: syntax_statuses_def intro: conversion_buffer [OF assms(3)])

definition toyOpenedWorld :: "(bytes, bytes) convworld" where
  "toyOpenedWorld = snd (snd (snd (the (FwdLockConv_OpenSession toy toySession True (Some toyOut) toyConvWorld))))"

definition toyOpened :: "(bytes, bytes) FwdLockConv_Session" where
  "toyOpened = the (sessionPtrs toyOpenedWorld ! 0)"

lemma toy_opened: "conversion toy toyOpened toyOut"
proof -
  have 1: "conv_ready toyConvWorld" by (simp add: conv_ready_def toyConvWorld_def)
  have 2: "device_ready toy toyKek toyKek toyKek toyKey toyIv (convEnv toyConvWorld)"
    by (simp add: toyConvWorld_def)
  obtain i s w1 out1 where
    o: "FwdLockConv_OpenSession toy toySession True (Some toyOut) toyConvWorld = Some (Status_OK, int i, Some out1, w1)"
      "sessionPtrs w1 ! i = Some s"
    by (rule OpenSession_ready [OF 1 toy_laws(1) 2 toy_derived, of toySession toyOut])
  from o(1) have "i = 0" "out1 = toyOut"
    by (auto simp: FwdLockConv_OpenSession_def FwdLockConv_AcquireSession_def toyConvWorld_def Let_def toyOut_def
        numeral_eq_Suc split: if_splits option.splits prod.splits)
  with o have "toyOpened = s" "sessionPtrs w1 ! nat (int i) = Some toyOpened"
    by (simp_all add: toyOpened_def toyOpenedWorld_def)
  with conversion_opened [OF o(1)] \<open>out1 = toyOut\<close> show ?thesis
    by (simp add: toyConvWorld_def glue_ok_def fwdglue_init_def)
qed

theorem convert_buffer_safe_witness:
  "\<exists>status s' out' h'. FwdLockConv_ConvertBuffer toy toyOpened [45, 45, 65, 13, 10] toyOut [False]
      = Some (status, s', out', h')
    \<and> status \<in> {Status_OK, Status_SyntaxError, Status_OutOfMemory, Status_UnsupportedFileFormat,
                Status_UnsupportedContentTransferEncoding}
    \<and> (status = Status_OK \<longrightarrow> conversion toy s' out' \<and> ready s' out'
        \<and> dataOffset s' + numDataBytes s' = length (outBytes out'))"
  by (rule convert_buffer_safe [OF _ _ toy_opened]) simp_all

text \<open>C3. A failed \<open>realloc\<close> leaves the session inconsistent: when growing the output
  buffer fails in a binary body, the call returns \<open>Status_OutOfMemory\<close> with the buffer size
  already raised, and the same data in the next call is written past the end of the buffer.\<close>

theorem realloc_failure_overflows_later:
  assumes "block_cipher c" "bin_rel d (BinData 0) s" "key_ok s" "pBuffer out = Some (outputBufferSize s)"
    and "length buf = outputBufferSize s" "CR \<notin> set buf" "ch \<noteq> CR"
  shows "\<exists>s1 out1. FwdLockConv_ConvertBuffer c s (buf @ [ch]) out [False]
        = Some (Status_OutOfMemory, s1, out1, [])
      \<and> FwdLockConv_ConvertBuffer c s1 (buf @ [ch]) out1 [] = None"
  using realloc_failure [OF assms] .

definition toyBinary :: "(bytes, bytes) FwdLockConv_Session" where
  "toyBinary = toySession\<lparr>parserState := WantsBinaryEncodedData, scannerState := WantsByte1,
     delimiter := delimiter_of toyBoundary, outputBufferSize := 1024\<rparr>"

lemma toy_boundary [simp]: "boundary_ok toyBoundary"
  by (simp add: boundary_ok_def toyBoundary_def FwdLockConv_IsBoundaryChar_def isalnum_def)

lemma toy_delimiter [simp]: "delimiter_ok (delimiter_of toyBoundary)"
  by (rule delimiter_of_ok) simp

lemma toy_binary [simp]:
  "bin_rel (delimiter_of toyBoundary) (BinData 0) toyBinary" "key_ok toyBinary"
  "outputBufferSize toyBinary = 1024"
  "enc_in_pos toy [] (replicate 16 0) 0 toyBinary" "out_room toyBinary (toyOut\<lparr>pBuffer := Some 1024\<rparr>)"
  by (simp_all add: toyBinary_def toySession_def bin_rel_start key_ok_def enc_in_pos_def out_room_def toyOut_def)

theorem realloc_failure_overflows_later_witness:
  "\<exists>s1 out1. FwdLockConv_ConvertBuffer toy toyBinary (replicate 1024 0 @ [0]) (toyOut\<lparr>pBuffer := Some 1024\<rparr>) [False]
        = Some (Status_OutOfMemory, s1, out1, [])
      \<and> FwdLockConv_ConvertBuffer toy s1 (replicate 1024 0 @ [0]) out1 [] = None"
  by (rule realloc_failure_overflows_later [of _ "delimiter_of toyBoundary"]) simp_all

text \<open>C4. The binary scanner, which never backs up, stops exactly at the first occurrence of the
  delimiter: every byte before it is encrypted and written, two dashes after it finish the
  message, and anything else is a syntax error at the position of the offending character.\<close>

theorem binary_body_first_delimiter:
  assumes "enc_in_pos c rk nonce n s" "out_room s out" "bin_rel d (BinData 0) s"
    and "\<not> sublist d p" "ch \<noteq> DASH"
  shows "(\<exists>s' out'. FwdLockConv_PushChars c s (p @ d @ DASH # DASH # rest) out [] = Some (Status_OK, s', out', [])
      \<and> parserState s' = Done \<and> outBytes out' = outBytes out @ xor_stream (ctr_byte c rk nonce) n p
      \<and> numDataBytes s' = numDataBytes s + length p)
    \<and> (\<exists>s' out'. FwdLockConv_PushChars c s (p @ d @ ch # rest) out [] = Some (Status_SyntaxError, s', out', [])
      \<and> numCharsConsumed s' = numCharsConsumed s + int (length p + length d) + 1)"
proof -
  have d: "delimiter_ok d" using assms(3) by (simp add: bin_rel_start)
  obtain s1 out1 where f: "FwdLockConv_FlushBytes c s p out [] = Some (Status_OK, s1, out1, [])"
    "outBytes out1 = outBytes out @ xor_stream (ctr_byte c rk nonce) n p"
    "numDataBytes s1 = numDataBytes s + length p"
    by (rule released_output [OF assms(1,2), of p]) blast
  from bin.run_accept [OF assms(3) bin_run_message [OF d assms(4), of rest] f(1)] obtain s2 where
    "FwdLockConv_PushChars c s (p @ d @ DASH # DASH # rest) out [] = Some (Status_OK, s2, out1, [])"
    "bin_rel d BinDone s2" "scan_frame s1 s2" by blast
  moreover from bin.run_reject [OF assms(3) bin_run_body [OF d assms(4)] _ f(1), of ch rest] assms(5)
  have "\<exists>s'. FwdLockConv_PushChars c s (p @ d @ ch # rest) out [] = Some (Status_SyntaxError, s', out1, [])
      \<and> numCharsConsumed s' = numCharsConsumed s + int (length p + length d) + 1"
    by simp
  ultimately show ?thesis using f bin_rel_parser scan_frame_fields(15) by fastforce
qed

theorem binary_body_first_delimiter_witness:
  "(\<exists>s' out'. FwdLockConv_PushChars toy toyBinary (toyBody @ delimiter_of toyBoundary @ DASH # DASH # [])
        (toyOut\<lparr>pBuffer := Some 1024\<rparr>) [] = Some (Status_OK, s', out', [])
      \<and> parserState s' = Done
      \<and> outBytes out' = outBytes (toyOut\<lparr>pBuffer := Some 1024\<rparr>)
          @ xor_stream (ctr_byte toy [] (replicate 16 0)) 0 toyBody
      \<and> numDataBytes s' = numDataBytes toyBinary + length toyBody)
    \<and> (\<exists>s' out'. FwdLockConv_PushChars toy toyBinary (toyBody @ delimiter_of toyBoundary @ 65 # [])
        (toyOut\<lparr>pBuffer := Some 1024\<rparr>) [] = Some (Status_SyntaxError, s', out', [])
      \<and> numCharsConsumed s' = numCharsConsumed toyBinary
          + int (length toyBody + length (delimiter_of toyBoundary)) + 1)"
  by (rule binary_body_first_delimiter [OF toy_binary(4,5,1)])
    (simp_all add: delimiter_of_def toyBoundary_def toyBody_def sublist_Cons_right)

text \<open>C5. A base64 body, with white space and line breaks (CR LF or LF) anywhere but in front of
  padding, and a line break before the delimiter, is decoded and encrypted: the output is the
  encryption of exactly the bytes that were encoded.\<close>

theorem base64_body_decoded:
  assumes "enc_in_pos c rk nonce n s" "out_room s out" "b64_rel d (B64Byte1 False) s"
    and "laid_out (base64_encode bs) lines" "eol = [LF] \<or> eol = [CR, LF]"
  shows "\<exists>s' out'. FwdLockConv_PushChars c s (lines @ eol @ drop 2 d @ DASH # DASH # rest) out []
        = Some (Status_OK, s', out', [])
      \<and> parserState s' = Done \<and> outBytes out' = outBytes out @ xor_stream (ctr_byte c rk nonce) n bs
      \<and> numDataBytes s' = numDataBytes s + length bs"
proof -
  have d: "delimiter_ok d" using assms(3) by (simp add: b64_rel_start)
  have eol: "eol \<in> set [[LF], [CR, LF]]" using assms(5) by auto
  obtain s1 out1 where f: "FwdLockConv_FlushBytes c s bs out [] = Some (Status_OK, s1, out1, [])"
    "outBytes out1 = outBytes out @ xor_stream (ctr_byte c rk nonce) n bs"
    "numDataBytes s1 = numDataBytes s + length bs"
    by (rule released_output [OF assms(1,2), of bs]) blast
  from b64.run_accept [OF assms(3) b64_run_message [OF d assms(4) eol, of rest] f(1)] obtain s2 where
    "FwdLockConv_PushChars c s (lines @ eol @ drop 2 d @ DASH # DASH # rest) out []
      = Some (Status_OK, s2, out1, [])"
    "b64_rel d B64Done s2" "scan_frame s1 s2" by blast
  with f show ?thesis using b64_rel_parser scan_frame_fields(15) by fastforce
qed

definition toyBase64 :: "(bytes, bytes) FwdLockConv_Session" where
  "toyBase64 = toyBinary\<lparr>parserState := WantsBase64EncodedData\<rparr>"

lemma toy_base64 [simp]:
  "b64_rel (delimiter_of toyBoundary) (B64Byte1 False) toyBase64"
  "enc_in_pos toy [] (replicate 16 0) 0 toyBase64" "out_room toyBase64 (toyOut\<lparr>pBuffer := Some 1024\<rparr>)"
  using toy_delimiter
  by (simp_all add: toyBase64_def toyBinary_def toySession_def b64_rel_start enc_in_pos_def out_room_def toyOut_def
      del: toy_delimiter)

text \<open>The bytes of \<open>abcd\<close>, encoded as \<open>YWJjZA==\<close> and broken after four characters.\<close>

lemma toy_lines:
  "laid_out (base64_encode (bytes_of ''abcd'')) (bytes_of ''YWJj'' @ [CR, LF, SP] @ bytes_of ''ZA=='')"
proof -
  have "base64_encode (bytes_of ''abcd'') = bytes_of ''YWJjZA==''"
    by (simp add: base64_char_def base64Alphabet_def byte_bits)
  moreover have "laid_out (bytes_of ''ZA=='') (bytes_of ''ZA=='')"
    by (simp add: laid_out_char laid_out_Nil)
  then have "laid_out (bytes_of ''ZA=='') ([CR, LF] @ [SP] @ bytes_of ''ZA=='')"
    by (intro laid_out_gap) (simp_all add: layout_gaps_def)
  then have "laid_out (bytes_of ''YWJjZA=='') (bytes_of ''YWJj'' @ [CR, LF, SP] @ bytes_of ''ZA=='')"
    by (simp add: laid_out_char)
  ultimately show ?thesis by simp
qed

theorem base64_body_decoded_witness:
  "\<exists>s' out'. FwdLockConv_PushChars toy toyBase64
        ((bytes_of ''YWJj'' @ [CR, LF, SP] @ bytes_of ''ZA=='') @ [CR, LF]
          @ drop 2 (delimiter_of toyBoundary) @ DASH # DASH # []) (toyOut\<lparr>pBuffer := Some 1024\<rparr>) []
        = Some (Status_OK, s', out', [])
      \<and> parserState s' = Done
      \<and> outBytes out' = outBytes (toyOut\<lparr>pBuffer := Some 1024\<rparr>)
          @ xor_stream (ctr_byte toy [] (replicate 16 0)) 0 (bytes_of ''abcd'')
      \<and> numDataBytes s' = numDataBytes toyBase64 + length (bytes_of ''abcd'')"
  by (rule base64_body_decoded [OF _ _ _ toy_lines]) simp_all

text \<open>C6. The counter the decoder computes for block \<open>idx\<close> from the nonce is the one the converter
  reaches by counting up \<open>idx\<close> times, carries and the wrap of all sixteen bytes included.\<close>

theorem block_counters_agree:
  assumes "AES_BLOCK_SIZE \<le> length nonce"
  shows "FwdLockFile_CalculateCounter nonce idx
     = (FwdLockConv_IncrementCounter ^^ unat idx) (take AES_BLOCK_SIZE nonce)"
  by (rule CalculateCounter_eq_IncrementCounter [OF assms])

theorem block_counters_agree_witness:
  "FwdLockFile_CalculateCounter (replicate 16 255) 3
     = (FwdLockConv_IncrementCounter ^^ unat (3 :: u64)) (take AES_BLOCK_SIZE (replicate 16 255))"
  by (rule block_counters_agree) simp

text \<open>C7. Reading from an attached file is reading from a plain file: for every outcome of the
  underlying \<open>read\<close> (short reads and errors too) the result, the new position and \<open>errno\<close> are
  those of \<open>read\<close> on a file with the decrypted content, and the file stays attached.\<close>

theorem read_refines_plain_read:
  assumes "attached c rk nonce plain fd w sid s f"
    and "posix_read fd n (plain_view fd plain s w) = (res, v)"
  shows "\<exists>w' s' f'. FwdLockFile_read c fd n w = Some (res, w')
    \<and> attached c rk nonce plain fd w' sid s' f' \<and> plain_view fd plain s' w' = v"
  by (rule read_refines [OF assms])

definition toyAttachedSession :: "(bytes, bytes) FwdLockFile_Session" where
  "toyAttachedSession = toyFileSession\<lparr>fileDesc := 5, flEncryptedSessionKey := Some (replicate 48 0),
     flDataOffset := 100, filePos := 2, blockIndex := -1\<rparr>"

definition toyAttachedFile :: posixfile where
  "toyAttachedFile = \<lparr>content = replicate 100 0 @ xor_stream (ctr_byte toy [] (replicate 16 0)) 0 toyBody,
     offset = 102\<rparr>"

definition toyAttachedWorld :: "(bytes, bytes) fileworld" where
  "toyAttachedWorld = (toyFileWorld [])\<lparr>flSessions := (replicate 128 None)[5 := Some toyAttachedSession],
     files := [5 \<mapsto> toyAttachedFile], ioOutcomes := [IoShort 3]\<rparr>"

lemma toy_find: "FwdLockFile_FindSession 5 toyAttachedWorld = (5, toyAttachedWorld)"
proof -
  have "FwdLockFile_Probe test 5 0 (Suc 127) = Some 5" if "test 5" for test
    using that by (subst FwdLockFile_Probe.simps) (simp add: Let_def)
  then have "FwdLockFile_Probe test 5 0 128 = Some 5" if "test 5" for test using that by simp
  then show ?thesis
    by (simp add: FwdLockFile_FindSession_def toyAttachedWorld_def toyAttachedSession_def)
qed

lemma toy_attached:
  "attached toy [] (replicate 16 0) toyBody 5 toyAttachedWorld 5 toyAttachedSession toyAttachedFile"
  using toy_find
  by (simp add: attached_def toyAttachedWorld_def toyAttachedSession_def toyAttachedFile_def
      key_cache_ok_def toyFileSession_def toyBody_def)

theorem read_refines_plain_read_witness:
  "\<exists>w' s' f'. FwdLockFile_read toy 5 4 toyAttachedWorld = Some (Some [13, 10, 45], w')
    \<and> attached toy [] (replicate 16 0) toyBody 5 w' 5 s' f'
    \<and> plain_view 5 toyBody s' w'
        = snd (posix_read 5 4 (plain_view 5 toyBody toyAttachedSession toyAttachedWorld))"
  by (rule read_refines_plain_read [OF toy_attached])
    (simp add: posix_read_def plain_view_def toyAttachedWorld_def toyBody_def toyAttachedSession_def)

text \<open>C8. Seeking in an attached file is seeking in a plain file: same result, same position
  afterwards and same \<open>errno\<close>, for every origin and every \<open>off64_t\<close> offset; a seek into the
  file header is refused as one before the start of the plain file, and the position is restored.
  The exceptions lie within a header's length of the largest \<open>off64_t\<close>, where the plain seek still
  succeeds: \<open>SEEK_SET\<close> then computes \<open>dataOffset + offset\<close> with a signed overflow (no defined
  result), and the other origins fail with \<open>EOVERFLOW\<close> and change nothing else. Every position
  reached is again an \<open>off64_t\<close>.\<close>

theorem lseek_refines_plain_lseek:
  assumes "attached c rk nonce plain fd w sid s f"
    and "posix_lseek64 fd off wh (plain_view fd plain s w) = (res, v)"
    and "off64 off = Some off" "off64 (offset f) = Some (offset f)"
  shows "if wh = SEEK_SET \<and> 2 ^ 63 \<le> flDataOffset s + off then FwdLockFile_lseek fd off wh w = None
    else if 2 ^ 63 \<le> flDataOffset s + res
    then FwdLockFile_lseek fd off wh w = Some (-1, w\<lparr>errnoVal := Some EOVERFLOW\<rparr>)
    else \<exists>w' s' f'. FwdLockFile_lseek fd off wh w = Some (res, w')
      \<and> attached c rk nonce plain fd w' sid s' f' \<and> plain_view fd plain s' w' = v
      \<and> off64 (offset f') = Some (offset f')"
  by (rule lseek_refines [OF assms])

theorem lseek_refines_plain_lseek_witness:
  "FwdLockFile_lseek 5 (2 ^ 63 - 1) SEEK_SET toyAttachedWorld = None
    \<and> FwdLockFile_lseek 5 (2 ^ 63 - 3) SEEK_CUR toyAttachedWorld
      = Some (-1, toyAttachedWorld\<lparr>errnoVal := Some EOVERFLOW\<rparr>)
    \<and> (\<exists>w' s' f'. FwdLockFile_lseek 5 (-3) SEEK_CUR toyAttachedWorld = Some (-1, w')
      \<and> attached toy [] (replicate 16 0) toyBody 5 w' 5 s' f'
      \<and> plain_view 5 toyBody s' w'
          = snd (posix_lseek64 5 (-3) SEEK_CUR (plain_view 5 toyBody toyAttachedSession toyAttachedWorld))
      \<and> off64 (offset f') = Some (offset f'))"
proof (intro conjI)
  have f: "off64 (offset toyAttachedFile) = Some (offset toyAttachedFile)"
    by (simp add: off64_def toyAttachedFile_def)
  have d: "flDataOffset toyAttachedSession = 100" by (simp add: toyAttachedSession_def)
  have 1: "posix_lseek64 5 (2 ^ 63 - 1) SEEK_SET (plain_view 5 toyBody toyAttachedSession toyAttachedWorld)
      = (2 ^ 63 - 1, (plain_view 5 toyBody toyAttachedSession toyAttachedWorld)
          \<lparr>files := [5 \<mapsto> \<lparr>content = toyBody, offset = 2 ^ 63 - 1\<rparr>]\<rparr>)"
    by (simp add: posix_lseek64_def plain_view_def)
  from lseek_refines_plain_lseek [OF toy_attached 1 _ f] d
  show "FwdLockFile_lseek 5 (2 ^ 63 - 1) SEEK_SET toyAttachedWorld = None" by (simp add: off64_def)
  have 2: "posix_lseek64 5 (2 ^ 63 - 3) SEEK_CUR (plain_view 5 toyBody toyAttachedSession toyAttachedWorld)
      = (2 ^ 63 - 1, (plain_view 5 toyBody toyAttachedSession toyAttachedWorld)
          \<lparr>files := [5 \<mapsto> \<lparr>content = toyBody, offset = 2 ^ 63 - 1\<rparr>]\<rparr>)"
    by (simp add: posix_lseek64_def plain_view_def toyAttachedSession_def)
  from lseek_refines_plain_lseek [OF toy_attached 2 _ f] d
  show "FwdLockFile_lseek 5 (2 ^ 63 - 3) SEEK_CUR toyAttachedWorld
      = Some (-1, toyAttachedWorld\<lparr>errnoVal := Some EOVERFLOW\<rparr>)" by (simp add: off64_def)
  let ?v = "snd (posix_lseek64 5 (-3) SEEK_CUR (plain_view 5 toyBody toyAttachedSession toyAttachedWorld))"
  have 3: "posix_lseek64 5 (-3) SEEK_CUR (plain_view 5 toyBody toyAttachedSession toyAttachedWorld) = (-1, ?v)"
    by (simp add: posix_lseek64_def plain_view_def toyAttachedWorld_def toyAttachedSession_def)
  from lseek_refines_plain_lseek [OF toy_attached 3 _ f] d
  show "\<exists>w' s' f'. FwdLockFile_lseek 5 (-3) SEEK_CUR toyAttachedWorld = Some (-1, w')
      \<and> attached toy [] (replicate 16 0) toyBody 5 w' 5 s' f' \<and> plain_view 5 toyBody s' w' = ?v
      \<and> off64 (offset f') = Some (offset f')" by (simp add: off64_def)
qed

text \<open>C9. A session key that \<open>FwdLockGlue_EncryptKey\<close> wrapped is recovered by
  \<open>FwdLockGlue_DecryptKey\<close>, in the same process and in any later one that finds the same key
  file.\<close>

theorem wrapped_key_survives_restart:
  assumes "cbc_ok c" "glue_ok c g env" "isInitialized g \<longrightarrow> onceDone g"
    and "FwdLockGlue_EncryptKey c key (FwdLockGlue_GetEncryptedKeyLength (length key)) g env h
      = Some (Some ekey, g1, env1, h1)"
    and "keyFile env2 = keyFile env1" "\<not> keyOpenDenied env2"
  shows "length ekey = FwdLockGlue_GetEncryptedKeyLength (length key)
    \<and> FwdLockGlue_DecryptKey c ekey (length key) g1 env1 [] = Some ((True, key), g1, env1, [])
    \<and> (\<exists>g2. FwdLockGlue_DecryptKey c ekey (length key) fwdglue_init env2 []
          = Some ((True, key), g2, env2, []))"
proof -
  obtain kek ek dk iv where e:
    "kek_of env1 = Some kek" "AES_set_encrypt_key c kek = Some ek" "AES_set_decrypt_key c kek = Some dk"
    "encRoundKeys g1 = Some ek" "decRoundKeys g1 = Some dk" "isInitialized g1" "onceDone g1"
    "length iv = AES_BLOCK_SIZE"
    "ekey = AES_cbc_encrypt c (key @ replicate (AES_BLOCK_SIZE - length key mod AES_BLOCK_SIZE)
        (of_nat (AES_BLOCK_SIZE - length key mod AES_BLOCK_SIZE))) ek iv @ iv"
    "length ekey = FwdLockGlue_GetEncryptedKeyLength (length key)"
    by (rule EncryptKey_result [OF assms(1-4)])
  have 1: "FwdLockGlue_InitializeKeyEncryption c g1 env1 [] = (g1, env1, [])"
    using e(7) by (simp add: FwdLockGlue_InitializeKeyEncryption_def)
  have "kek_of env2 = Some kek" using e(1) assms(5) by (simp add: kek_of_def)
  note 2 = InitializeKeyEncryption_same_file [OF this assms(6) e(2,3), of "[]"]
  show ?thesis
    using DecryptKey_wrapped [OF assms(1) e(2,3,8) 1 e(6,5), of "[]" key]
      DecryptKey_wrapped [OF assms(1) e(2,3,8) 2, of "[]" key] e(10) unfolding e(9) by simp
qed

theorem wrapped_key_survives_restart_witness:
  "length (replicate 5 1 @ replicate 11 11 @ toyKey) = FwdLockGlue_GetEncryptedKeyLength (length (replicate 5 (1 :: byte)))
    \<and> FwdLockGlue_DecryptKey toy (replicate 5 1 @ replicate 11 11 @ toyKey) (length (replicate 5 (1 :: byte)))
        \<lparr>onceDone = True, isInitialized = True, encRoundKeys = Some toyKek, decRoundKeys = Some toyKek\<rparr>
        (toyEnv\<lparr>urandom := [Some toyIv]\<rparr>) []
      = Some ((True, replicate 5 1),
          \<lparr>onceDone = True, isInitialized = True, encRoundKeys = Some toyKek, decRoundKeys = Some toyKek\<rparr>,
          toyEnv\<lparr>urandom := [Some toyIv]\<rparr>, [])
    \<and> (\<exists>g2. FwdLockGlue_DecryptKey toy (replicate 5 1 @ replicate 11 11 @ toyKey) (length (replicate 5 (1 :: byte)))
          fwdglue_init toyEnv [] = Some ((True, replicate 5 1), g2, toyEnv, []))"
proof (rule wrapped_key_survives_restart)
  show "FwdLockGlue_EncryptKey toy (replicate 5 1)
      (FwdLockGlue_GetEncryptedKeyLength (length (replicate 5 (1 :: byte)))) fwdglue_init toyEnv []
    = Some (Some (replicate 5 1 @ replicate 11 11 @ toyKey),
        \<lparr>onceDone = True, isInitialized = True, encRoundKeys = Some toyKek, decRoundKeys = Some toyKek\<rparr>,
        toyEnv\<lparr>urandom := [Some toyIv]\<rparr>, [])"
    by (simp add: FwdLockGlue_EncryptKey_def FwdLockGlue_InitializeKeyEncryption_def
        FwdLockGlue_InitializeRoundKeys_def FwdLockGlue_FindKek_def FwdLockGlue_GetRandomNumber_def
        fwdglue_init_def toyEnv_def toyKek_def toyKey_def toyIv_def toy_def Let_def)
qed (simp_all add: glue_ok_def fwdglue_init_def toyEnv_def)

text \<open>When creating the key file ends in a short write, the attempt fails, and so does every
  attempt of every later process: the truncated file is taken for the key file and never
  replaced.\<close>

theorem short_write_disables_device:
  assumes "keyFile env = None" "\<not> keyOpenDenied env" "urandom env = Some kek # rest" "length kek = KEY_SIZE"
    and "fst (fst (FwdLockGlue_CreateDirectories (mkdirFails env) strKeyFilename h))"
    and "\<not> keyCreateFails env" "keyWriteLimit env = Some n" "n < KEY_SIZE"
    and "FwdLockGlue_FindKek env h = (r, env', h')" "keyFile env2 = keyFile env'"
  shows "r = None \<and> keyFile env' = Some (take n kek)
    \<and> (\<forall>c h2. isInitialized (fst (FwdLockGlue_InitializeKeyEncryption c fwdglue_init env2 h2)) = False)"
proof -
  have 1: "r = None" "keyFile env' = Some (take n kek)"
    using assms by (auto simp: FwdLockGlue_FindKek_def FwdLockGlue_GetRandomNumber_def Let_def
        split: prod.splits if_splits)
  have "FwdLockGlue_InitializeRoundKeys c fwdglue_init env2 h2 = (fwdglue_init, env2, h2)"
    for c :: "('a, 'b) crypto" and h2
    by (rule InitializeRoundKeys_truncated) (use assms(8,10) 1(2) in auto)
  with 1 show ?thesis
    by (simp add: FwdLockGlue_InitializeKeyEncryption_def fwdglue_init_def)
qed

theorem short_write_disables_device_witness:
  "None = (None :: bytes option)
    \<and> keyFile (toyEnv\<lparr>keyFile := Some (take 7 toyKey), urandom := [Some toyIv], keyWriteLimit := Some 7\<rparr>)
        = Some (take 7 toyKey)
    \<and> (\<forall>c h2. isInitialized (fst (FwdLockGlue_InitializeKeyEncryption (c :: (bytes, bytes) crypto) fwdglue_init
        (toyEnv\<lparr>keyFile := Some (take 7 toyKey)\<rparr>) h2)) = False)"
proof (rule short_write_disables_device)
  show "FwdLockGlue_FindKek (toyEnv\<lparr>keyFile := None, keyWriteLimit := Some 7\<rparr>) []
      = (None, toyEnv\<lparr>keyFile := Some (take 7 toyKey), urandom := [Some toyIv], keyWriteLimit := Some 7\<rparr>, [])"
    by (simp add: FwdLockGlue_FindKek_def FwdLockGlue_GetRandomNumber_def FwdLockGlue_CreateDirectories_def
        strKeyFilename_def toyEnv_def toyKey_def Let_def)
qed (simp_all add: toyEnv_def toyKey_def FwdLockGlue_CreateDirectories_def strKeyFilename_def)

text \<open>C10. The integrity check answers TRUE exactly when the header signature is the hash of top
  header, content type, encrypted key and data signature, and the data signature is the hash of
  everything from the data offset to the end of the file; it leaves the position (an \<open>off64_t\<close>)
  and the session as they were.\<close>

theorem integrity_check_exact:
  assumes "mac_stream c" "mac_ok c" "checkable c key fd w sid s bs"
    and "pContentType s = Some ct" "flEncryptedSessionKey s = Some ekey"
  shows "FwdLockFile_CheckIntegrity c fd w
    = Some (HMAC_Final c (HMAC_Update c (flSigningContext s) (flTopHeader s @ ct @ ekey @ dataSignature s))
              = headerSignature s \<and>
            HMAC_Final c (HMAC_Update c (flSigningContext s) (drop (nat (flDataOffset s)) bs))
              = dataSignature s, w)"
  by (rule CheckIntegrity_result [OF assms])

definition toyTampered :: "(bytes, bytes) FwdLockFile_Session" where
  "toyTampered = toyAttachedSession\<lparr>pContentType := Some []\<rparr>"

definition toyTamperedWorld :: "(bytes, bytes) fileworld" where
  "toyTamperedWorld = toyAttachedWorld\<lparr>flSessions := (replicate 128 None)[5 := Some toyTampered],
     ioOutcomes := []\<rparr>"

lemma toy_tampered:
  "checkable toy [] 5 toyTamperedWorld 5 toyTampered (content toyAttachedFile)"
proof -
  have "FwdLockFile_FindSession 5 toyTamperedWorld = (5, toyTamperedWorld)"
    using FindSession_update [of 5 toyAttachedWorld 5 toyAttachedSession toyTampered toyTamperedWorld] toy_find
    by (simp add: toyTamperedWorld_def toyAttachedWorld_def toyTampered_def)
  then show ?thesis
    by (simp add: checkable_def toyTamperedWorld_def toyAttachedWorld_def toyFileWorld_def toyTampered_def
        toyAttachedSession_def toyFileSession_def toyAttachedFile_def)
qed

theorem integrity_check_exact_witness:
  "FwdLockFile_CheckIntegrity toy 5 toyTamperedWorld
    = Some (HMAC_Final toy (HMAC_Update toy (flSigningContext toyTampered)
              (flTopHeader toyTampered @ [] @ replicate 48 0 @ dataSignature toyTampered))
              = headerSignature toyTampered \<and>
            HMAC_Final toy (HMAC_Update toy (flSigningContext toyTampered)
              (drop (nat (flDataOffset toyTampered)) (content toyAttachedFile)))
              = dataSignature toyTampered, toyTamperedWorld)"
  by (rule integrity_check_exact [OF _ _ toy_tampered])
    (simp_all add: toyTampered_def toyAttachedSession_def)

text \<open>The converter's session table: acquiring takes a free slot below 32 and changes no other
  slot, it fails only when every slot is taken or memory is out, the new identifier is valid, and
  releasing it frees exactly that slot.\<close>

theorem session_slots:
  assumes "length tbl = MAX_NUM_SESSIONS" "FwdLockConv_AcquireSession fresh tbl h = (sid, tbl', h')"
  shows "if sid < 0 then tbl' = tbl \<and> (None \<notin> set tbl \<or> \<not> fst (alloc h))
    else sid < int MAX_NUM_SESSIONS \<and> tbl ! nat sid = None \<and> tbl' = tbl[nat sid := Some fresh]
      \<and> FwdLockConv_IsValidSession sid tbl' \<and> FwdLockConv_ReleaseSession sid tbl' = Some tbl"
proof (cases "sid < 0")
  case True
  with assms conv_table.acquire_none [of "(tbl, h)" fresh "(tbl', h')"] show ?thesis
    by (simp add: conv_acquire_def)
next
  case False
  with assms conv_table.acquire_slot [of "(tbl, h)" fresh "nat sid" "(tbl', h')"]
  have s: "nat sid < 32" "tbl ! nat sid = None" "tbl' = tbl[nat sid := Some fresh]"
    by (simp_all add: conv_acquire_def)
  then have "tbl[nat sid := None] = tbl" by (metis list_update_id)
  with s False assms(1) show ?thesis
    by (simp add: FwdLockConv_IsValidSession_def FwdLockConv_ReleaseSession_def)
qed

theorem session_slots_witness:
  "if (0 :: int) < 0 then (replicate 32 None)[0 := Some toySession] = replicate 32 None
      \<and> (None \<notin> set (replicate 32 (None :: (bytes, bytes) FwdLockConv_Session option)) \<or> \<not> fst (alloc []))
    else (0 :: int) < int MAX_NUM_SESSIONS \<and> replicate 32 None ! nat 0 = (None :: (bytes, bytes) FwdLockConv_Session option)
      \<and> (replicate 32 None)[0 := Some toySession] = (replicate 32 None)[nat 0 := Some toySession]
      \<and> FwdLockConv_IsValidSession 0 ((replicate 32 None)[0 := Some toySession])
      \<and> FwdLockConv_ReleaseSession 0 ((replicate 32 None)[0 := Some toySession]) = Some (replicate 32 None)"
proof (rule session_slots)
  have "first_free (replicate (Suc 31) (None :: (bytes, bytes) FwdLockConv_Session option)) = Some 0"
    by (simp only: replicate_Suc first_free.simps)
  then show "FwdLockConv_AcquireSession toySession (replicate 32 None) []
      = (0, (replicate 32 None)[0 := Some toySession], [])"
    by (simp add: FwdLockConv_AcquireSession_def)
qed simp

text \<open>A descriptor that is attached is found again, in whatever slot its probes led to, and is
  forgotten when it is detached.\<close>

theorem attached_descriptor_found:
  assumes "decoder_ready fd bs kek w" "FwdLockFile_AcquireSession fresh fd w = (sid, w1)"
  shows "0 \<le> sid \<and> sid < int FL_MAX_NUM_SESSIONS \<and> FwdLockFile_FindSession fd w1 = (sid, w1)
    \<and> (\<exists>w2. FwdLockFile_detach fd w1 = Some (0, w2) \<and> flSessions w2 = flSessions w
         \<and> fst (FwdLockFile_FindSession fd w2) = -1)"
proof -
  obtain i where i: "i < FL_MAX_NUM_SESSIONS" and acq: "FwdLockFile_AcquireSession fresh fd w
       = (int i, at_pos fd bs 0 (w\<lparr>flSessions := (flSessions w)[i := Some (file_fresh fresh fd)]\<rparr>))"
    and find: "\<And>s w'. fileDesc s = fd \<Longrightarrow> flSessions w' = (flSessions w)[i := Some s] \<Longrightarrow>
       FwdLockFile_FindSession fd w' = (int i, w')"
    by (rule Acquire_ready [OF assms(1)]) blast
  have W: "length (flSessions w) = 128" "\<forall>s. Some s \<in> set (flSessions w) \<longrightarrow> fileDesc s \<noteq> fd" "0 \<le> fd"
    using assms(1) by (simp_all add: decoder_ready_def)
  have w1: "sid = int i" "flSessions w1 = (flSessions w)[i := Some (file_fresh fresh fd)]"
    using assms(2) acq by auto
  have free: "flSessions w ! i = None"
    using file_table.acquire_slot [of w fresh fd i w1] W(1) assms(2) w1(1) by (simp add: file_acquire_def)
  have f1: "FwdLockFile_FindSession fd w1 = (int i, w1)"
    by (rule find [OF _ w1(2)]) (simp add: file_fresh_def)
  let ?w2 = "w1\<lparr>flSessions := flSessions w\<rparr>"
  have "(flSessions w)[i := None] = flSessions w" using free by (metis list_update_id)
  then have det: "FwdLockFile_detach fd w1 = Some (0, ?w2)"
    using f1 w1(2) i W(1) by (simp add: FwdLockFile_detach_def FwdLockFile_ReleaseSession_def)
  have "FwdLockFile_Probe (\<lambda>i. case flSessions ?w2 ! i of None \<Rightarrow> False | Some s \<Rightarrow> fileDesc s = fd)
      (nat fd) 0 FL_MAX_NUM_SESSIONS = None"
    unfolding Probe_all_None using W(1,2) by (auto split: option.split) (metis nth_mem)
  then have "fst (FwdLockFile_FindSession fd ?w2) = -1" by (simp add: FwdLockFile_FindSession_def)
  with det f1 w1(1) i show ?thesis by auto
qed

theorem attached_descriptor_found_witness:
  "0 \<le> (5 :: int) \<and> (5 :: int) < int FL_MAX_NUM_SESSIONS
    \<and> FwdLockFile_FindSession 5 ((toyFileWorld [])\<lparr>flSessions := (replicate 128 None)[5 := Some (file_fresh toyFileSession 5)]\<rparr>)
        = (5, (toyFileWorld [])\<lparr>flSessions := (replicate 128 None)[5 := Some (file_fresh toyFileSession 5)]\<rparr>)
    \<and> (\<exists>w2. FwdLockFile_detach 5 ((toyFileWorld [])\<lparr>flSessions := (replicate 128 None)[5 := Some (file_fresh toyFileSession 5)]\<rparr>)
          = Some (0, w2) \<and> flSessions w2 = flSessions (toyFileWorld [])
         \<and> fst (FwdLockFile_FindSession 5 w2) = -1)"
proof (rule attached_descriptor_found [OF toy_decoder_ready])
  have "FwdLockFile_Probe test 5 0 (Suc 127) = Some 5" if "test 5" for test
    using that by (subst FwdLockFile_Probe.simps) (simp add: Let_def)
  then have "FwdLockFile_Probe test 5 0 128 = Some 5" if "test 5" for test using that by simp
  then show "FwdLockFile_AcquireSession toyFileSession 5 (toyFileWorld [])
      = (5, (toyFileWorld [])\<lparr>flSessions := (replicate 128 None)[5 := Some (file_fresh toyFileSession 5)]\<rparr>)"
    by (simp add: FwdLockFile_AcquireSession_def toyFileWorld_def file_fresh_def)
qed

text \<open>The loop that hashes the data ends for every sequence of read results (short reads,
  errors): as many reads as there are bytes left in the file, and one, always suffice.\<close>

theorem hashing_terminates:
  assumes "\<And>f. files w fd = Some f \<Longrightarrow> 0 \<le> offset f"
  shows "FwdLockFile_HashLoop c fd (FwdLockFile_HashFuel fd w) ctx w \<noteq> None"
proof (cases "files w fd")
  case None
  then show ?thesis by (simp add: FwdLockFile_HashFuel_def posix_read_def)
next
  case (Some f)
  with HashLoop_ends [OF Some assms [OF Some]] show ?thesis
    by (simp add: FwdLockFile_HashFuel_def del: FwdLockFile_HashLoop.simps)
qed

theorem hashing_terminates_witness:
  "FwdLockFile_HashLoop toy 5 (FwdLockFile_HashFuel 5 toyAttachedWorld) [] toyAttachedWorld \<noteq> None"
  by (rule hashing_terminates) (simp add: toyAttachedWorld_def toyAttachedFile_def)

end
