(* ===== verification/H264Stream.thy ===== *)
theory H264Stream
  imports Prelude
begin

text \<open>
  The bit stream reader of the H.264 decoder (\<open>h264bsd_stream.c\<close>). A stream is a window of a
  byte array with a read position counted in bits; the decoder looks at the next 32 bits
  (\<open>h264bsdShowBits32\<close>, zeros beyond the end) and removes bits (\<open>h264bsdFlushBits\<close>). The
  lemmas show that a well formed stream is the list of its remaining bits: showing reads a
  prefix, flushing drops one, and neither touches memory outside the window.

  \<open>u32\<close> values are 32 bit words, \<open>i32\<close> values are integers; \<open>sint\<close> is the conversion
  \<open>(i32)\<close> and \<open>word_of_int\<close> the conversion \<open>(u32)\<close>. A shift by a negative amount or by 32 and
  more has no defined result.
\<close>

section \<open>Constants and integer operations\<close>

definition HANTRO_OK :: u32 where "HANTRO_OK = 0"
definition HANTRO_NOK :: u32 where "HANTRO_NOK = 1"
definition END_OF_STREAM :: u32 where "END_OF_STREAM = 0xFFFFFFFF"
definition MEMORY_ALLOCATION_ERROR :: u32 where "MEMORY_ALLOCATION_ERROR = 0xFFFF"

lemma HANTRO_distinct [simp]:
  "HANTRO_OK \<noteq> HANTRO_NOK" "HANTRO_NOK \<noteq> HANTRO_OK" "HANTRO_OK \<noteq> END_OF_STREAM"
  "END_OF_STREAM \<noteq> HANTRO_OK"
  "MEMORY_ALLOCATION_ERROR \<noteq> HANTRO_OK" "HANTRO_OK \<noteq> MEMORY_ALLOCATION_ERROR"
  by (simp_all add: HANTRO_OK_def HANTRO_NOK_def END_OF_STREAM_def MEMORY_ALLOCATION_ERROR_def)

definition shl32 :: "u32 \<Rightarrow> int \<Rightarrow> u32 option" where
  "shl32 x n = (if 0 \<le> n \<and> n < 32 then Some (push_bit (nat n) x) else None)"

definition shr32 :: "u32 \<Rightarrow> u32 \<Rightarrow> u32 option" where
  "shr32 x n = (if n < 32 then Some (drop_bit (unat n) x) else None)"

section \<open>The stream\<close>

record strmData =
  strmMem :: bytes
  pStrmBuffStart :: nat
  pStrmCurrPos :: nat
  bitPosInWord :: u32
  strmBuffSize :: u32
  strmBuffReadBits :: u32

function h264bsdShowBits32Loop :: "bytes \<Rightarrow> nat \<Rightarrow> int \<Rightarrow> int \<Rightarrow> u32 \<Rightarrow> u32 option" where
  "h264bsdShowBits32Loop mem pStrm bits shift out =
     (if bits > 0
      then do {
        b \<leftarrow> rd mem pStrm;
        v \<leftarrow> shl32 (ucast b) (shift - 8);
        h264bsdShowBits32Loop mem (Suc pStrm) (bits - 8) (shift - 8) (out OR v)
      }
      else Some out)"
  by pat_completeness auto
termination by (relation "measure (\<lambda>(mem, p, bits, shift, out). nat bits)") auto

declare h264bsdShowBits32Loop.simps [simp del]

definition h264bsdShowBits32 :: "strmData \<Rightarrow> u32 option" where
  "h264bsdShowBits32 s =
     (let pStrm = pStrmCurrPos s;
          bits = sint (strmBuffSize s) * 8 - sint (strmBuffReadBits s)
      in if bits \<ge> 32
         then do {
           b0 \<leftarrow> rd (strmMem s) pStrm;
           b1 \<leftarrow> rd (strmMem s) (pStrm + 1);
           b2 \<leftarrow> rd (strmMem s) (pStrm + 2);
           b3 \<leftarrow> rd (strmMem s) (pStrm + 3);
           let out = push_bit 24 (ucast b0) OR push_bit 16 (ucast b1)
                       OR push_bit 8 (ucast b2) OR ucast b3;
           if bitPosInWord s \<noteq> 0
           then do {
             b4 \<leftarrow> rd (strmMem s) (pStrm + 4);
             out \<leftarrow> shl32 out (uint (bitPosInWord s));
             v \<leftarrow> shr32 (ucast b4) (8 - bitPosInWord s);
             Some (out OR v)
           }
           else Some out
         }
         else if bits > 0
         then do {
           b0 \<leftarrow> rd (strmMem s) pStrm;
           let shift = 24 + sint (bitPosInWord s);
           out \<leftarrow> shl32 (ucast b0) shift;
           h264bsdShowBits32Loop (strmMem s) (Suc pStrm)
             (bits - (8 - sint (bitPosInWord s))) shift out
         }
         else Some 0)"

definition h264bsdFlushBits :: "strmData \<Rightarrow> u32 \<Rightarrow> u32 \<times> strmData" where
  "h264bsdFlushBits s numBits =
     (let readBits = strmBuffReadBits s + numBits;
          s1 = s\<lparr>strmBuffReadBits := readBits, bitPosInWord := readBits AND 7\<rparr>
      in if readBits \<le> 8 * strmBuffSize s
         then (HANTRO_OK, s1\<lparr>pStrmCurrPos := pStrmBuffStart s + unat (drop_bit 3 readBits)\<rparr>)
         else (END_OF_STREAM, s1))"

definition h264bsdGetBits :: "strmData \<Rightarrow> u32 \<Rightarrow> (u32 \<times> strmData) option" where
  "h264bsdGetBits s numBits =
     do {
       bits \<leftarrow> h264bsdShowBits32 s;
       out \<leftarrow> shr32 bits (32 - numBits);
       let (status, s1) = h264bsdFlushBits s numBits;
       Some (if status = HANTRO_OK then out else END_OF_STREAM, s1)
     }"

definition h264bsdIsByteAligned :: "strmData \<Rightarrow> bool" where
  "h264bsdIsByteAligned s \<longleftrightarrow> bitPosInWord s = 0"

section \<open>The remaining bits\<close>

definition stream_bits :: "strmData \<Rightarrow> bool list" where
  "stream_bits s = map (\<lambda>i. bit (strmMem s ! (pStrmBuffStart s + i div 8)) (7 - i mod 8))
                       [0..<8 * unat (strmBuffSize s)]"

definition rest :: "strmData \<Rightarrow> bool list" where
  "rest s = drop (unat (strmBuffReadBits s)) (stream_bits s)"

definition in_window :: "strmData \<Rightarrow> bool" where
  "in_window s \<longleftrightarrow> pStrmBuffStart s + unat (strmBuffSize s) \<le> length (strmMem s)
     \<and> unat (strmBuffSize s) \<le> 2 ^ 27"

definition strm_ok :: "strmData \<Rightarrow> bool" where
  "strm_ok s \<longleftrightarrow> in_window s
     \<and> unat (strmBuffReadBits s) \<le> 8 * unat (strmBuffSize s)
     \<and> pStrmCurrPos s = pStrmBuffStart s + unat (strmBuffReadBits s) div 8
     \<and> unat (bitPosInWord s) = unat (strmBuffReadBits s) mod 8"

definition spent :: "nat \<Rightarrow> strmData \<Rightarrow> bool" where
  "spent k s \<longleftrightarrow> in_window s
     \<and> 8 * unat (strmBuffSize s) < unat (strmBuffReadBits s)
     \<and> unat (strmBuffReadBits s) \<le> 8 * unat (strmBuffSize s) + k"

lemma length_stream_bits [simp]: "length (stream_bits s) = 8 * unat (strmBuffSize s)"
  by (simp add: stream_bits_def)

lemma length_rest: "length (rest s) = 8 * unat (strmBuffSize s) - unat (strmBuffReadBits s)"
  by (simp add: rest_def)

lemma rest_nth:
  "i < length (rest s) \<Longrightarrow> rest s ! i =
     bit (strmMem s ! (pStrmBuffStart s + (unat (strmBuffReadBits s) + i) div 8))
         (7 - (unat (strmBuffReadBits s) + i) mod 8)"
  by (simp add: rest_def stream_bits_def less_diff_conv add.commute)

lemma rest_spent [simp]: "spent k s \<Longrightarrow> rest s = []"
  by (simp add: spent_def rest_def)

section \<open>Showing reads a prefix of the remaining bits\<close>

lemma pushed_byte_bit:
  fixes b :: byte
  assumes "n < 32"
  shows "bit (push_bit m (ucast b :: u32)) n \<longleftrightarrow> m \<le> n \<and> n < m + 8 \<and> bit b (n - m)"
proof -
  have "bit b (n - m) \<Longrightarrow> m \<le> n \<Longrightarrow> n < m + 8"
    using bit_imp_le_length [of b "n - m"] by simp
  then show ?thesis using assms by (auto simp: bit_simps)
qed

lemma bytes4_bit:
  fixes b0 b1 b2 b3 :: byte
  assumes "k < 32"
  shows "bit (push_bit 24 (ucast b0) OR push_bit 16 (ucast b1) OR push_bit 8 (ucast b2)
            OR (ucast b3 :: u32)) (31 - k)
       = bit ([b0, b1, b2, b3] ! (k div 8)) (7 - k mod 8)"
proof -
  define q r where "q = k div 8" and "r = k mod 8"
  have k: "k = 8 * q + r" and r: "r < 8" by (simp_all add: q_def r_def)
  have q: "q = 0 \<or> q = 1 \<or> q = 2 \<or> q = 3" using assms k by linarith
  have b3: "bit (ucast b3 :: u32) (31 - k) \<longleftrightarrow> 31 - k < 8 \<and> bit b3 (31 - k)"
    using pushed_byte_bit [of "31 - k" 0 b3] by simp
  show ?thesis
    unfolding bit_or_iff b3 q_def [symmetric] r_def [symmetric]
    using q r k by (auto simp: pushed_byte_bit numeral_2_eq_2 numeral_3_eq_3)
qed

lemma ShowBits32Loop_bits:
  "p + m \<le> length mem \<Longrightarrow> 8 * m \<le> sh \<Longrightarrow> sh < 40 \<Longrightarrow>
   \<exists>w. h264bsdShowBits32Loop mem p (8 * int m) (int sh) out = Some w
     \<and> (\<forall>n < 32. bit w n = (bit out n \<or>
          (\<exists>j < m. sh - 8 * (j + 1) \<le> n \<and> n < sh - 8 * j
             \<and> bit (mem ! (p + j)) (n - (sh - 8 * (j + 1))))))"
proof (induction m arbitrary: p sh out)
  case 0
  show ?case by (simp add: h264bsdShowBits32Loop.simps)
next
  case (Suc m)
  let ?v = "push_bit (sh - 8) (ucast (mem ! p) :: u32)"
  have eq: "h264bsdShowBits32Loop mem p (8 * int (Suc m)) (int sh) out
      = h264bsdShowBits32Loop mem (Suc p) (8 * int m) (int (sh - 8)) (out OR ?v)"
    using Suc.prems by (subst h264bsdShowBits32Loop.simps) (simp add: shl32_def of_nat_diff nat_diff_distrib)
  obtain w where w: "h264bsdShowBits32Loop mem (Suc p) (8 * int m) (int (sh - 8)) (out OR ?v) = Some w"
    and bits: "\<forall>n < 32. bit w n = (bit (out OR ?v) n \<or>
          (\<exists>j < m. sh - 8 - 8 * (j + 1) \<le> n \<and> n < sh - 8 - 8 * j
             \<and> bit (mem ! (Suc p + j)) (n - (sh - 8 - 8 * (j + 1)))))"
  proof -
    have "Suc p + m \<le> length mem" "8 * m \<le> sh - 8" "sh - 8 < 40" using Suc.prems by simp_all
    from Suc.IH [OF this, of "out OR ?v"] show ?thesis using that by blast
  qed
  have v: "bit ?v n \<longleftrightarrow> sh - 8 \<le> n \<and> n < sh \<and> bit (mem ! p) (n - (sh - 8))" if "n < 32" for n
    using pushed_byte_bit [OF that, of "sh - 8" "mem ! p"] Suc.prems by simp
  have step: "(\<exists>j < Suc m. sh - 8 * (j + 1) \<le> n \<and> n < sh - 8 * j
             \<and> bit (mem ! (p + j)) (n - (sh - 8 * (j + 1))))
      \<longleftrightarrow> (sh - 8 \<le> n \<and> n < sh \<and> bit (mem ! p) (n - (sh - 8))) \<or>
          (\<exists>j < m. sh - 8 - 8 * (j + 1) \<le> n \<and> n < sh - 8 - 8 * j
             \<and> bit (mem ! (Suc p + j)) (n - (sh - 8 - 8 * (j + 1))))" for n
    by (subst Ex_less_Suc2) (simp add: diff_diff_left)
  show ?case
    unfolding eq w using bits v step by (auto simp: bit_or_iff)
qed

lemma sint_small:
  fixes x :: u32
  assumes "unat x < 2 ^ 31"
  shows "sint x = int (unat x)"
proof -
  have "uint x = int (unat x)" by simp
  moreover have "int (unat x) < 2 ^ 31" using assms by (simp only: of_nat_less_numeral_power_cancel_iff)
  ultimately have "uint x < 2 ^ 31" by simp
  moreover have "0 \<le> uint x" by simp
  ultimately have "signed_take_bit 31 (uint x) = uint x"
    by (intro signed_take_bit_int_eq_self) linarith+
  then have "sint x = uint x" by (simp add: sint_uint)
  then show ?thesis by simp
qed

lemma div_mod_split:
  fixes a :: nat
  shows "(a + i) div 8 = a div 8 + (a mod 8 + i) div 8" "(a + i) mod 8 = (a mod 8 + i) mod 8"
proof -
  define q r where "q = a div 8" and "r = a mod 8"
  have "a + i = 8 * q + (r + i)" by (simp add: q_def r_def)
  then have "(a + i) div 8 = q + (r + i) div 8" "(a + i) mod 8 = (r + i) mod 8"
    by (simp_all only: div_mult_self4 mod_mult_self4)
  then show "(a + i) div 8 = a div 8 + (a mod 8 + i) div 8" "(a + i) mod 8 = (a mod 8 + i) mod 8"
    by (simp_all only: q_def r_def)
qed

lemma ok_left:
  assumes "strm_ok s"
  shows "sint (strmBuffSize s) * 8 - sint (strmBuffReadBits s) = int (length (rest s))"
    and "unat (strmBuffReadBits s) + length (rest s) = 8 * unat (strmBuffSize s)"
proof -
  have size: "unat (strmBuffSize s) \<le> 2 ^ 27" and le: "unat (strmBuffReadBits s) \<le> 8 * unat (strmBuffSize s)"
    using assms by (simp_all add: strm_ok_def in_window_def)
  show "unat (strmBuffReadBits s) + length (rest s) = 8 * unat (strmBuffSize s)"
    using le by (simp add: length_rest)
  then have *: "unat (strmBuffReadBits s) + length (rest s) = 8 * unat (strmBuffSize s)" .
  show "sint (strmBuffSize s) * 8 - sint (strmBuffReadBits s) = int (length (rest s))"
  proof -
    have "unat (strmBuffSize s) < 2 ^ 31" "unat (strmBuffReadBits s) < 2 ^ 31" using size le by simp_all
    from this [THEN sint_small] * show ?thesis by linarith
  qed
qed

lemma rest_bit:
  assumes "strm_ok s" "i < length (rest s)"
  shows "rest s ! i = bit (strmMem s ! (pStrmCurrPos s + (unat (bitPosInWord s) + i) div 8))
                          (7 - (unat (bitPosInWord s) + i) mod 8)"
proof -
  define a where "a = unat (strmBuffReadBits s)"
  note div_mod_split [of a i]
  with assms show ?thesis
    by (simp add: rest_nth strm_ok_def a_def [symmetric] add.assoc)
qed

lemma in_range:
  assumes "strm_ok s" "8 * k < unat (bitPosInWord s) + length (rest s)"
  shows "pStrmCurrPos s + k < length (strmMem s)"
proof -
  define a where "a = unat (strmBuffReadBits s)"
  have "a + length (rest s) = 8 * unat (strmBuffSize s)" and "8 * k < a mod 8 + length (rest s)"
    using assms ok_left(2) [OF assms(1)] by (simp_all add: strm_ok_def a_def)
  moreover have "a = 8 * (a div 8) + a mod 8" by simp
  ultimately have "a div 8 + k < unat (strmBuffSize s)" by linarith
  with assms(1) show ?thesis by (simp add: strm_ok_def in_window_def a_def)
qed

lemma ShowBits32_long:
  assumes ok: "strm_ok s" and long: "32 \<le> length (rest s)"
  shows "\<exists>w. h264bsdShowBits32 s = Some w \<and> (\<forall>i < 32. bit w (31 - i) = rest s ! i)"
proof -
  define pos where "pos = unat (bitPosInWord s)"
  define b where "b k = strmMem s ! (pStrmCurrPos s + k)" for k
  define q :: u32 where "q = push_bit 24 (ucast (b 0)) OR push_bit 16 (ucast (b 1))
    OR push_bit 8 (ucast (b 2)) OR ucast (b 3)"
  have pos: "pos < 8" using ok by (simp add: pos_def strm_ok_def)
  have rest: "rest s ! i = bit (b ((pos + i) div 8)) (7 - (pos + i) mod 8)" if "i < 32" for i
    using rest_bit [OF ok, of i] that long by (simp add: b_def pos_def)
  have rds: "pStrmCurrPos s + k < length (strmMem s)" if "k < 4" for k
    using in_range [OF ok, of k] that long by simp
  have q_bit: "bit q (31 - k) = bit (b (k div 8)) (7 - k mod 8)" if "k < 32" for k
  proof -
    have "k div 8 = 0 \<or> k div 8 = 1 \<or> k div 8 = 2 \<or> k div 8 = 3" using that by linarith
    then have "[b 0, b 1, b 2, b 3] ! (k div 8) = b (k div 8)"
      by (auto simp: numeral_2_eq_2 numeral_3_eq_3)
    with bytes4_bit [OF that] show ?thesis by (simp add: q_def)
  qed
  have left: "sint (strmBuffSize s) * 8 - sint (strmBuffReadBits s) \<ge> 32"
    using ok_left(1) [OF ok] long by simp
  show ?thesis
  proof (cases "pos = 0")
    case True
    then have "bitPosInWord s = 0" by (simp add: pos_def unat_eq_0)
    then have "h264bsdShowBits32 s = Some q"
      using left rds [of 0] rds [of 1] rds [of 2] rds [of 3]
      by (simp add: h264bsdShowBits32_def q_def b_def Let_def)
    with q_bit rest True show ?thesis by simp
  next
    case False
    have nz: "bitPosInWord s \<noteq> 0" using False by (auto simp: pos_def)
    have r4: "pStrmCurrPos s + 4 < length (strmMem s)"
      using in_range [OF ok, of 4] long False by (simp add: pos_def)
    have tmp: "8 - bitPosInWord s < 32" "unat (8 - bitPosInWord s) = 8 - pos"
      using pos by (simp_all add: pos_def word_less_nat_alt unat_sub_if')
    have upos: "uint (bitPosInWord s) < 32" using pos uint_nat [of "bitPosInWord s"] unfolding pos_def by linarith
    define w where "w = push_bit pos q OR drop_bit (8 - pos) (ucast (b 4))"
    have "h264bsdShowBits32 s = Some w"
      using left rds [of 0] rds [of 1] rds [of 2] rds [of 3] r4 nz tmp upos pos
      by (simp add: h264bsdShowBits32_def q_def b_def w_def shl32_def shr32_def pos_def Let_def)
    moreover have "bit w (31 - i) = rest s ! i" if "i < 32" for i
    proof (cases "pos + i < 32")
      case True
      then have "31 - i - pos = 31 - (pos + i)" by simp
      moreover have "\<not> bit (drop_bit (8 - pos) (ucast (b 4)) :: u32) (31 - i)"
        using True pos byte_bit_high [of "8 - pos + (31 - i)" "b 4"] by (simp add: bit_simps)
      ultimately show ?thesis
        using True that q_bit [of "pos + i"] rest [OF that]
        by (simp add: w_def bit_or_iff bit_push_bit_iff) linarith
    next
      case ge: False
      define j where "j = pos + i - 32"
      have j: "pos + i = 32 + j" "j < 8" using ge pos that by (simp_all add: j_def)
      then have "8 - pos + (31 - i) = 7 - j" "(pos + i) div 8 = 4" "(pos + i) mod 8 = j"
        using j pos that by (simp_all, presburger)
      then show ?thesis
        using ge that j rest [OF that] by (simp add: w_def bit_simps) linarith
    qed
    ultimately show ?thesis by blast
  qed
qed

lemma ShowBits32_short:
  assumes ok: "strm_ok s" and short: "length (rest s) < 32"
  shows "\<exists>w. h264bsdShowBits32 s = Some w
    \<and> (\<forall>i < 32. bit w (31 - i) \<longleftrightarrow> i < length (rest s) \<and> rest s ! i)"
proof (cases "rest s = []")
  case True
  then have "sint (strmBuffSize s) * 8 - sint (strmBuffReadBits s) = 0" using ok_left(1) [OF ok] by simp
  then have "h264bsdShowBits32 s = Some 0" by (simp add: h264bsdShowBits32_def)
  with True show ?thesis by simp
next
  case False
  define pos where "pos = unat (bitPosInWord s)"
  define b where "b k = strmMem s ! (pStrmCurrPos s + k)" for k
  define m where "m = (pos + length (rest s)) div 8"
  have pos: "pos < 8" using ok by (simp add: pos_def strm_ok_def)
  have "unat (strmBuffReadBits s) + length (rest s) = 8 * unat (strmBuffSize s)"
    using ok_left(2) [OF ok] .
  moreover have "pos = unat (strmBuffReadBits s) mod 8" using ok by (simp add: pos_def strm_ok_def)
  ultimately have "(pos + length (rest s)) mod 8 = 0" by (metis mod_add_left_eq mod_mult_self1_is_0)
  then have m: "pos + length (rest s) = 8 * m" unfolding m_def by presburger
  have "0 < length (rest s)" using False by simp
  then have m0: "0 < m" "m \<le> 4" using m pos short by linarith+
  have mem: "pStrmCurrPos s + k < length (strmMem s)" if "k < m" for k
    using in_range [OF ok, of k] that m by (simp add: pos_def)
  have rest: "rest s ! i = bit (b ((pos + i) div 8)) (7 - (pos + i) mod 8)" if "i < length (rest s)" for i
    using rest_bit [OF ok that] by (simp add: b_def pos_def)
  have "unat (bitPosInWord s) < 2 ^ 31" using pos by (simp add: pos_def)
  then have sp: "sint (bitPosInWord s) = int pos" unfolding pos_def by (rule sint_small)
  define first :: u32 where "first = push_bit (24 + pos) (ucast (b 0))"
  have shl: "shl32 (ucast (b 0)) (24 + int pos) = Some first"
    using pos by (simp add: shl32_def first_def nat_add_distrib)
  have "pStrmCurrPos s + (m - 1) < length (strmMem s)" using mem [of "m - 1"] m0 by simp
  then have "\<exists>w. h264bsdShowBits32Loop (strmMem s) (Suc (pStrmCurrPos s)) (8 * int (m - 1)) (int (24 + pos)) first
        = Some w \<and> (\<forall>n < 32. bit w n = (bit first n \<or>
          (\<exists>j < m - 1. 24 + pos - 8 * (j + 1) \<le> n \<and> n < 24 + pos - 8 * j
             \<and> bit (strmMem s ! (Suc (pStrmCurrPos s) + j)) (n - (24 + pos - 8 * (j + 1))))))"
    using m0 pos by (intro ShowBits32Loop_bits) auto
  then obtain w where loop: "h264bsdShowBits32Loop (strmMem s) (Suc (pStrmCurrPos s)) (8 * int (m - 1))
        (24 + int pos) first = Some w"
    and w: "\<And>n. n < 32 \<Longrightarrow> bit w n = (bit first n \<or>
          (\<exists>j < m - 1. 24 + pos - 8 * (j + 1) \<le> n \<and> n < 24 + pos - 8 * j
             \<and> bit (b (Suc j)) (n - (24 + pos - 8 * (j + 1)))))"
    by (auto simp: b_def)
  have bits: "int (length (rest s)) - (8 - int pos) = 8 * int (m - 1)" using m m0 by linarith
  have "h264bsdShowBits32 s = Some w"
    using ok_left(1) [OF ok] short False mem [of 0] m0 shl loop sp
    by (simp add: h264bsdShowBits32_def b_def bits)
  moreover have "bit w (31 - i) \<longleftrightarrow> i < length (rest s) \<and> rest s ! i" if i: "i < 32" for i
  proof -
    have first: "bit first (31 - i) \<longleftrightarrow> pos + i < 8 \<and> bit (b 0) (7 - (pos + i))"
      using pushed_byte_bit [of "31 - i" "24 + pos" "b 0"] i by (auto simp: first_def add.commute)
    have "bit w (31 - i) \<longleftrightarrow> (\<exists>j < m. 8 * j \<le> pos + i \<and> pos + i < 8 * j + 8 \<and> bit (b j) (7 + 8 * j - (pos + i)))"
    proof -
      have "(24 + pos - 8 * (j + 1) \<le> 31 - i \<and> 31 - i < 24 + pos - 8 * j
             \<and> bit (b (Suc j)) (31 - i - (24 + pos - 8 * (j + 1))))
        \<longleftrightarrow> (8 * Suc j \<le> pos + i \<and> pos + i < 8 * Suc j + 8 \<and> bit (b (Suc j)) (7 + 8 * Suc j - (pos + i)))"
        if "j < m - 1" for j
      proof -
        have "31 - i - (24 + pos - 8 * (j + 1)) = 7 + 8 * Suc j - (pos + i)"
          if "24 + pos - 8 * (j + 1) \<le> 31 - i"
        proof -
          define k where "k = 8 * Suc j"
          have "k \<le> 24" using \<open>j < m - 1\<close> m0 by (simp add: k_def)
          moreover have "24 + pos - k \<le> 31 - i" using that by (simp add: k_def)
          ultimately have "31 - i - (24 + pos - k) = 7 + k - (pos + i)" using i by linarith
          then show ?thesis by (simp add: k_def)
        qed
        moreover have "24 + pos - 8 * (j + 1) \<le> 31 - i \<longleftrightarrow> pos + i < 8 * Suc j + 8"
          "31 - i < 24 + pos - 8 * j \<longleftrightarrow> 8 * Suc j \<le> pos + i"
        proof -
          define k where "k = 8 * Suc j"
          have "k \<le> 24" using \<open>j < m - 1\<close> m0 by (simp add: k_def)
          with i have "24 + pos - k \<le> 31 - i \<longleftrightarrow> pos + i < k + 8"
            "31 - i < 24 + pos + 8 - k \<longleftrightarrow> k \<le> pos + i" by linarith+
          then show "24 + pos - 8 * (j + 1) \<le> 31 - i \<longleftrightarrow> pos + i < 8 * Suc j + 8"
            "31 - i < 24 + pos - 8 * j \<longleftrightarrow> 8 * Suc j \<le> pos + i"
            by (simp_all add: k_def)
        qed
        ultimately show ?thesis by auto
      qed
      moreover have "Suc (m - 1) = m" using m0 by simp
      ultimately show ?thesis
        using w [of "31 - i"] first i Ex_less_Suc2 [of "m - 1"] by auto
    qed
    also have "\<dots> \<longleftrightarrow> (pos + i) div 8 < m \<and> bit (b ((pos + i) div 8)) (7 - (pos + i) mod 8)"
    proof -
      have "8 * j \<le> pos + i \<and> pos + i < 8 * j + 8 \<longleftrightarrow> j = (pos + i) div 8" for j by auto
      moreover have "7 + 8 * ((pos + i) div 8) - (pos + i) = 7 - (pos + i) mod 8"
        by (simp add: minus_mult_div_eq_mod [symmetric])
      ultimately show ?thesis by metis
    qed
    also have "(pos + i) div 8 < m \<longleftrightarrow> i < length (rest s)" using m by linarith
    finally show ?thesis using rest by auto
  qed
  ultimately show ?thesis by blast
qed

lemma ShowBits32_ok:
  assumes "strm_ok s"
  shows "\<exists>w. h264bsdShowBits32 s = Some w
    \<and> (\<forall>i < 32. bit w (31 - i) \<longleftrightarrow> i < length (rest s) \<and> rest s ! i)"
  using ShowBits32_long [OF assms] ShowBits32_short [OF assms] by (cases "32 \<le> length (rest s)") auto

lemma ShowBits32_spent:
  assumes "spent k s" "k \<le> 2 ^ 16"
  shows "h264bsdShowBits32 s = Some 0"
proof -
  have "unat (strmBuffSize s) \<le> 2 ^ 27" "8 * unat (strmBuffSize s) < unat (strmBuffReadBits s)"
    "unat (strmBuffReadBits s) \<le> 8 * unat (strmBuffSize s) + k"
    using assms(1) by (simp_all add: spent_def in_window_def)
  moreover from this assms(2) have "unat (strmBuffSize s) < 2 ^ 31" "unat (strmBuffReadBits s) < 2 ^ 31"
    by simp_all
  from this [THEN sint_small] have "sint (strmBuffSize s) = int (unat (strmBuffSize s))"
    "sint (strmBuffReadBits s) = int (unat (strmBuffReadBits s))" .
  ultimately have "sint (strmBuffSize s) * 8 - sint (strmBuffReadBits s) < 0" by linarith
  then show ?thesis by (simp add: h264bsdShowBits32_def)
qed

section \<open>Flushing drops bits\<close>

lemma FlushBits_frame [simp]:
  assumes "h264bsdFlushBits s n = (st, s')"
  shows "strmMem s' = strmMem s" "pStrmBuffStart s' = pStrmBuffStart s" "strmBuffSize s' = strmBuffSize s"
  using assms by (auto simp: h264bsdFlushBits_def Let_def split: if_splits)

lemma same_window:
  assumes "strmMem s' = strmMem s" "pStrmBuffStart s' = pStrmBuffStart s" "strmBuffSize s' = strmBuffSize s"
  shows "stream_bits s' = stream_bits s" "in_window s' = in_window s"
  using assms by (simp_all add: stream_bits_def in_window_def)

lemma FlushBits_if:
  shows "strmBuffReadBits s + n \<le> 8 * strmBuffSize s \<Longrightarrow> h264bsdFlushBits s n =
       (HANTRO_OK, s\<lparr>strmBuffReadBits := strmBuffReadBits s + n, bitPosInWord := (strmBuffReadBits s + n) AND 7,
          pStrmCurrPos := pStrmBuffStart s + unat (drop_bit 3 (strmBuffReadBits s + n))\<rparr>)"
    and "\<not> strmBuffReadBits s + n \<le> 8 * strmBuffSize s \<Longrightarrow> h264bsdFlushBits s n =
       (END_OF_STREAM, s\<lparr>strmBuffReadBits := strmBuffReadBits s + n, bitPosInWord := (strmBuffReadBits s + n) AND 7\<rparr>)"
  unfolding h264bsdFlushBits_def Let_def by (simp_all only: if_True if_False)

lemma FlushBits_arith:
  assumes "in_window s" "unat (strmBuffReadBits s) \<le> 2 ^ 31" "unat n \<le> 32"
  shows "unat (strmBuffReadBits s + n) = unat (strmBuffReadBits s) + unat n"
    and "strmBuffReadBits s + n \<le> 8 * strmBuffSize s
           \<longleftrightarrow> unat (strmBuffReadBits s) + unat n \<le> 8 * unat (strmBuffSize s)"
proof -
  have "unat (strmBuffReadBits s) + unat n < 2 ^ 32" using assms(2,3) by simp
  then show *: "unat (strmBuffReadBits s + n) = unat (strmBuffReadBits s) + unat n"
    using unat_add_lem [of "strmBuffReadBits s" n] by simp
  have "unat (8 :: u32) * unat (strmBuffSize s) < 2 ^ 32"
    using assms(1) by (simp add: in_window_def)
  then have "unat (8 * strmBuffSize s) = 8 * unat (strmBuffSize s)"
    using unat_mult_lem [of "8 :: u32" "strmBuffSize s"] by simp
  with * show "strmBuffReadBits s + n \<le> 8 * strmBuffSize s
           \<longleftrightarrow> unat (strmBuffReadBits s) + unat n \<le> 8 * unat (strmBuffSize s)"
    by (simp only: word_le_nat_alt)
qed

lemma ok_bound: "strm_ok s \<Longrightarrow> in_window s \<and> unat (strmBuffReadBits s) \<le> 2 ^ 31"
  by (auto simp: strm_ok_def in_window_def)

lemma FlushBits_ok:
  assumes "strm_ok s" "unat n \<le> length (rest s)" "unat n \<le> 32"
  shows "\<exists>s'. h264bsdFlushBits s n = (HANTRO_OK, s') \<and> strm_ok s' \<and> rest s' = drop (unat n) (rest s)"
proof -
  note arith = FlushBits_arith [OF ok_bound [OF assms(1), THEN conjunct1]
      ok_bound [OF assms(1), THEN conjunct2] assms(3)]
  let ?r = "strmBuffReadBits s + n"
  let ?s' = "s\<lparr>strmBuffReadBits := ?r, bitPosInWord := ?r AND 7,
                pStrmCurrPos := pStrmBuffStart s + unat (drop_bit 3 ?r)\<rparr>"
  have le: "unat (strmBuffReadBits s) + unat n \<le> 8 * unat (strmBuffSize s)"
    using ok_left(2) [OF assms(1)] assms(2) by linarith
  have "h264bsdFlushBits s n = (HANTRO_OK, ?s')"
    using arith(2) le by (intro FlushBits_if(1)) simp
  moreover have "unat (?r AND 7) = unat ?r mod 8"
    using take_bit_eq_mask [of 3 "unat ?r"]
    by (simp add: unsigned_and_eq mask_eq_exp_minus_1 take_bit_eq_mod)
  moreover have "unat (drop_bit 3 ?r) = unat ?r div 8"
    by (simp add: drop_bit_eq_div unat_div_distrib)
  ultimately have "strm_ok ?s'"
    using assms(1) le arith(1) by (simp add: strm_ok_def in_window_def)
  moreover have "rest ?s' = drop (unat n) (rest s)"
    using same_window(1) [of ?s' s] arith(1) by (simp add: rest_def add.commute)
  ultimately show ?thesis using \<open>h264bsdFlushBits s n = (HANTRO_OK, ?s')\<close> by blast
qed

lemma FlushBits_end:
  assumes "strm_ok s" "length (rest s) < unat n" "unat n \<le> 32"
  shows "\<exists>s'. h264bsdFlushBits s n = (END_OF_STREAM, s') \<and> spent 32 s'"
proof -
  note arith = FlushBits_arith [OF ok_bound [OF assms(1), THEN conjunct1]
      ok_bound [OF assms(1), THEN conjunct2] assms(3)]
  have "8 * unat (strmBuffSize s) < unat (strmBuffReadBits s) + unat n"
    using ok_left(2) [OF assms(1)] assms(2) by linarith
  then have n: "\<not> strmBuffReadBits s + n \<le> 8 * strmBuffSize s"
    and "8 * unat (strmBuffSize s) < unat (strmBuffReadBits s + n)"
    "unat (strmBuffReadBits s + n) \<le> 8 * unat (strmBuffSize s) + 32"
    using arith assms(1,3) by (simp_all add: strm_ok_def)
  with ok_bound [OF assms(1)] show ?thesis
    unfolding FlushBits_if(2) [OF n] by (simp add: spent_def in_window_def)
qed

lemma FlushBits_spent:
  assumes "spent k s" "unat n \<le> 32" "k \<le> 2 ^ 16"
  shows "\<exists>s'. h264bsdFlushBits s n = (END_OF_STREAM, s') \<and> spent (k + 32) s'"
proof -
  have w: "in_window s" and left: "8 * unat (strmBuffSize s) < unat (strmBuffReadBits s)"
    "unat (strmBuffReadBits s) \<le> 8 * unat (strmBuffSize s) + k"
    using assms(1) by (simp_all add: spent_def)
  then have "unat (strmBuffReadBits s) \<le> 2 ^ 31" using assms(3) by (simp add: in_window_def)
  from FlushBits_arith [OF w this assms(2)] left assms(2)
  have n: "\<not> strmBuffReadBits s + n \<le> 8 * strmBuffSize s"
    and "8 * unat (strmBuffSize s) < unat (strmBuffReadBits s + n)"
    "unat (strmBuffReadBits s + n) \<le> 8 * unat (strmBuffSize s) + (k + 32)"
    by linarith+
  with w show ?thesis unfolding FlushBits_if(2) [OF n] by (simp add: spent_def in_window_def)
qed

end
