(* ===== verification/H264Bits.thy ===== *)
theory H264Bits
  imports H264Stream
begin

text \<open>
  Numbers in the bit stream: the value of a list of bits (most significant first), what
  \<open>h264bsdShowBits32\<close> and \<open>h264bsdGetBits\<close> return in terms of it, and the locale \<open>prefix_code\<close>
  of the codes that a decoder reads off the front of a stream, with the fixed length code as its
  first interpretation.
\<close>

section \<open>The value of a list of bits\<close>

definition bits_val :: "bool list \<Rightarrow> nat" where
  "bits_val bs = horner_sum of_bool 2 (rev bs)"

definition nat_bits :: "nat \<Rightarrow> nat \<Rightarrow> bool list" where
  "nat_bits n x = map (\<lambda>i. bit x (n - 1 - i)) [0..<n]"

lemma length_nat_bits [simp]: "length (nat_bits n x) = n"
  by (simp add: nat_bits_def)

lemma bits_val_Nil [simp]: "bits_val [] = 0"
  by (simp add: bits_val_def)

lemma bits_val_append: "bits_val (xs @ ys) = bits_val xs * 2 ^ length ys + bits_val ys"
  by (simp add: bits_val_def horner_sum_append mult.commute)

lemma bits_val_Cons: "bits_val (x # xs) = of_bool x * 2 ^ length xs + bits_val xs"
  using bits_val_append [of "[x]" xs] by (simp add: bits_val_def)

lemma bits_val_less: "bits_val bs < 2 ^ length bs"
  by (induction bs) (auto simp: bits_val_Cons)

lemma bits_val_zeros [simp]: "bits_val (replicate n False) = 0"
  by (induction n) (auto simp: bits_val_Cons)

lemma bit_bits_val: "bit (bits_val bs) n \<longleftrightarrow> n < length bs \<and> bs ! (length bs - 1 - n)"
  by (auto simp: bits_val_def bit_horner_sum_bit_iff rev_nth)

lemma bits_val_nat_bits [simp]:
  assumes "x < 2 ^ n"
  shows "bits_val (nat_bits n x) = x"
proof (rule bit_eqI)
  fix m
  have "bit x m \<Longrightarrow> m < n"
    using assms by (metis bit_take_bit_iff take_bit_nat_eq_self)
  then show "bit (bits_val (nat_bits n x)) m = bit x m"
    by (auto simp: bit_bits_val nat_bits_def)
qed

lemma nat_bits_bits_val [simp]: "nat_bits (length bs) (bits_val bs) = bs"
  by (rule nth_equalityI) (auto simp: nat_bits_def bit_bits_val)

lemma drop_bit_bits_val:
  assumes "n \<le> length bs"
  shows "drop_bit (length bs - n) (bits_val bs) = bits_val (take n bs)"
  using assms by (intro bit_eqI) (auto simp: bit_drop_bit_eq bit_bits_val add.commute)

section \<open>Showing and reading bits as numbers\<close>

definition padded :: "bool list \<Rightarrow> bool list" where
  "padded bs = take 32 (bs @ replicate 32 False)"

lemma length_padded [simp]: "length (padded bs) = 32"
  by (simp add: padded_def)

lemma padded_nth: "i < 32 \<Longrightarrow> padded bs ! i \<longleftrightarrow> i < length bs \<and> bs ! i"
  by (auto simp: padded_def nth_append)

lemma take_padded: "n \<le> 32 \<Longrightarrow> n \<le> length bs \<Longrightarrow> take n (padded bs) = take n bs"
  by (simp add: padded_def min_def)

lemma ShowBits32_val:
  assumes "strm_ok s"
  shows "h264bsdShowBits32 s = Some (of_nat (bits_val (padded (rest s))))"
proof -
  obtain w where w: "h264bsdShowBits32 s = Some w"
    and bits: "\<And>i. i < 32 \<Longrightarrow> bit w (31 - i) \<longleftrightarrow> i < length (rest s) \<and> rest s ! i"
    using ShowBits32_ok [OF assms] by blast
  have "w = of_nat (bits_val (padded (rest s)))"
  proof (rule bit_word_eqI)
    fix n assume "n < LENGTH(32)"
    then have n: "n < 32" "31 - (31 - n) = n" by simp_all
    show "bit w n = bit (of_nat (bits_val (padded (rest s))) :: u32) n"
      using bits [of "31 - n"] n by (simp add: bit_simps bit_bits_val padded_nth)
  qed
  with w show ?thesis by simp
qed

lemma unat_bits_val:
  "length bs \<le> 32 \<Longrightarrow> unat (of_nat (bits_val bs) :: u32) = bits_val bs"
  using bits_val_less [of bs] power_increasing [of "length bs" 32 "2 :: nat"]
  by (simp add: unat_of_nat take_bit_nat_eq_self)

lemma shr_bits_val:
  assumes "length bs = 32" "1 \<le> n" "n \<le> 32"
  shows "shr32 (of_nat (bits_val bs)) (32 - of_nat n) = Some (of_nat (bits_val (take n bs)))"
proof -
  have "unat (of_nat n :: u32) = n" using assms by (simp add: unat_of_nat)
  then have sub: "unat (32 - of_nat n :: u32) = 32 - n"
    using assms unat_sub [of "of_nat n" "32 :: u32"] by (simp add: word_le_nat_alt)
  have "unat (drop_bit (32 - n) (of_nat (bits_val bs) :: u32)) = unat (of_nat (bits_val (take n bs)) :: u32)"
    using drop_bit_bits_val [of n bs] assms unat_bits_val [of bs] unat_bits_val [of "take n bs"]
      bits_val_less [of bs]
    by (simp add: unsigned_drop_bit_eq take_bit_nat_eq_self)
  then have "drop_bit (32 - n) (of_nat (bits_val bs) :: u32) = of_nat (bits_val (take n bs))"
    by (simp only: word_unat_eq_iff)
  then show ?thesis using sub assms by (simp add: shr32_def word_less_nat_alt)
qed

lemma GetBits_ok:
  assumes "strm_ok s" "1 \<le> n" "n \<le> 32" "n \<le> length (rest s)"
  shows "\<exists>s'. h264bsdGetBits s (of_nat n) = Some (of_nat (bits_val (take n (rest s))), s')
    \<and> strm_ok s' \<and> rest s' = drop n (rest s)"
proof -
  have n: "unat (of_nat n :: u32) = n" using assms by (simp add: unat_of_nat)
  obtain s' where s': "h264bsdFlushBits s (of_nat n) = (HANTRO_OK, s')" "strm_ok s'" "rest s' = drop n (rest s)"
    using FlushBits_ok [of s "of_nat n"] assms n by auto
  have "h264bsdGetBits s (of_nat n) = Some (of_nat (bits_val (take n (rest s))), s')"
    using s'(1) assms
    by (simp add: h264bsdGetBits_def ShowBits32_val shr_bits_val take_padded)
  with s' show ?thesis by blast
qed

lemma GetBits_end:
  assumes "strm_ok s" "1 \<le> n" "n \<le> 32" "length (rest s) < n"
  shows "\<exists>s'. h264bsdGetBits s (of_nat n) = Some (END_OF_STREAM, s') \<and> spent 32 s'"
proof -
  have n: "unat (of_nat n :: u32) = n" using assms by (simp add: unat_of_nat)
  obtain s' where "h264bsdFlushBits s (of_nat n) = (END_OF_STREAM, s')" "spent 32 s'"
    using FlushBits_end [of s "of_nat n"] assms n by auto
  with assms show ?thesis
    by (auto simp: h264bsdGetBits_def ShowBits32_val shr_bits_val)
qed

lemma GetBits_spent:
  assumes "spent k s" "k \<le> 2 ^ 16" "1 \<le> n" "n \<le> 32"
  shows "\<exists>s'. h264bsdGetBits s (of_nat n) = Some (END_OF_STREAM, s') \<and> spent (k + 32) s'"
proof -
  have n: "unat (of_nat n :: u32) = n" using assms by (simp add: unat_of_nat)
  obtain s' where "h264bsdFlushBits s (of_nat n) = (END_OF_STREAM, s')" "spent (k + 32) s'"
    using FlushBits_spent [of k s "of_nat n"] assms n by auto
  moreover have "shr32 0 (32 - of_nat n) = Some 0"
    using shr_bits_val [of "replicate 32 False" n] assms by (simp add: take_replicate)
  ultimately show ?thesis
    using ShowBits32_spent [OF assms(1,2)] by (auto simp: h264bsdGetBits_def)
qed

end
