(* ===== verification/H264Vlc.thy ===== *)
theory H264Vlc
  imports H264Bits
begin

text \<open>
  Variable length codes (\<open>h264bsd_vlc.c\<close>) and the trailing bits of a payload
  (\<open>h264bsd_util.c\<close>). An output parameter is an argument (its value before the call) and a
  component of the result (its value after it). The constant \<open>1\<close> that the code shifts is of
  type \<open>int\<close>; shifting it by 31 is taken in two's complement.
\<close>

section \<open>The code\<close>

function h264bsdCountLeadingZerosLoop :: "u32 \<Rightarrow> u32 \<Rightarrow> u32 \<Rightarrow> u32" where
  "h264bsdCountLeadingZerosLoop v msk zeros =
     (if msk \<noteq> 0 \<and> v AND msk = 0
      then h264bsdCountLeadingZerosLoop v (drop_bit 1 msk) (zeros + 1)
      else zeros)"
  by pat_completeness auto
termination
proof (relation "measure (\<lambda>(v, m, zeros). unat m)")
  fix v m zeros :: u32
  assume "m \<noteq> 0 \<and> v AND m = 0"
  then have "unat m div 2 < unat m" by (simp add: unat_gt_0)
  then show "((v, drop_bit 1 m, zeros + 1), v, m, zeros) \<in> measure (\<lambda>(v, m, zeros). unat m)"
    by (simp add: drop_bit_eq_div unat_div_distrib)
qed simp

declare h264bsdCountLeadingZerosLoop.simps [simp del]

definition h264bsdCountLeadingZeros :: "u32 \<Rightarrow> nat \<Rightarrow> u32" where
  "h264bsdCountLeadingZeros v len = h264bsdCountLeadingZerosLoop v (push_bit (len - 1) 1) 0"

definition BIG_CODE_NUM :: u32 where "BIG_CODE_NUM = 0xFFFFFFFF"

definition ExpGolombBig :: "strmData \<Rightarrow> u32 \<Rightarrow> (u32 \<times> u32 \<times> strmData) option" where
  "ExpGolombBig s codeNum =
     do {
       (bits, s) \<leftarrow> h264bsdGetBits (snd (h264bsdFlushBits s 32)) 1;
       if bits = 1
       then do {
         bits \<leftarrow> h264bsdShowBits32 s;
         let (status, s) = h264bsdFlushBits s 32;
         if status = END_OF_STREAM then Some (HANTRO_NOK, codeNum, s)
         else if bits = 0 then Some (HANTRO_OK, BIG_CODE_NUM, s)
         else if bits = 1 then Some (HANTRO_NOK, BIG_CODE_NUM, s)
         else Some (HANTRO_NOK, codeNum, s)
       }
       else Some (HANTRO_NOK, codeNum, s)
     }"

definition h264bsdDecodeExpGolombUnsigned :: "strmData \<Rightarrow> u32 \<Rightarrow> (u32 \<times> u32 \<times> strmData) option" where
  "h264bsdDecodeExpGolombUnsigned s codeNum =
     do {
       bits \<leftarrow> h264bsdShowBits32 s;
       if bits \<ge> 0x80000000
       then Some (HANTRO_OK, 0, snd (h264bsdFlushBits s 1))
       else if bits \<ge> 0x40000000
       then (let (status, s) = h264bsdFlushBits s 3
             in Some (if status = END_OF_STREAM then (HANTRO_NOK, codeNum, s)
                      else (HANTRO_OK, 1 + (drop_bit 29 bits AND 0x1), s)))
       else if bits \<ge> 0x20000000
       then (let (status, s) = h264bsdFlushBits s 5
             in Some (if status = END_OF_STREAM then (HANTRO_NOK, codeNum, s)
                      else (HANTRO_OK, 3 + (drop_bit 27 bits AND 0x3), s)))
       else if bits \<ge> 0x10000000
       then (let (status, s) = h264bsdFlushBits s 7
             in Some (if status = END_OF_STREAM then (HANTRO_NOK, codeNum, s)
                      else (HANTRO_OK, 7 + (drop_bit 25 bits AND 0x7), s)))
       else
         let numZeros = 4 + h264bsdCountLeadingZeros bits 28
         in if numZeros = 32 then ExpGolombBig s 0
            else do {
              (bits, s) \<leftarrow> h264bsdGetBits (snd (h264bsdFlushBits s (numZeros + 1))) numZeros;
              Some (if bits = END_OF_STREAM then (HANTRO_NOK, codeNum, s)
                    else (HANTRO_OK, push_bit (unat numZeros) 1 - 1 + bits, s))
            }
     }"

definition h264bsdDecodeExpGolombSigned :: "strmData \<Rightarrow> int \<Rightarrow> (u32 \<times> int \<times> strmData) option" where
  "h264bsdDecodeExpGolombSigned s v =
     do {
       (status, codeNum, s) \<leftarrow> h264bsdDecodeExpGolombUnsigned s 0;
       Some (if codeNum = BIG_CODE_NUM
             then if status = HANTRO_OK then (HANTRO_NOK, v, s)
                  else (HANTRO_OK, sint (2147483648 :: u32), s)
             else if status = HANTRO_OK
             then (HANTRO_OK,
                   if codeNum AND 1 \<noteq> 0 then sint (drop_bit 1 (codeNum + 1))
                   else - sint (drop_bit 1 (codeNum + 1)), s)
             else (HANTRO_NOK, v, s))
     }"

definition codedBlockPatternIntra4x4 :: bytes where
  "codedBlockPatternIntra4x4 =
    [47,31,15,0,23,27,29,30,7,11,13,14,39,43,45,46,16,3,5,10,12,19,21,26,28,35,
     37,42,44,1,2,4,8,17,18,20,24,6,9,22,25,32,33,34,36,40,38,41]"

definition codedBlockPatternInter :: bytes where
  "codedBlockPatternInter =
    [0,16,1,2,4,8,32,3,5,10,12,15,47,7,11,13,14,6,9,31,35,37,42,44,33,34,36,40,
     39,43,45,46,17,18,20,24,19,21,26,28,23,27,29,30,22,25,38,41]"

definition h264bsdDecodeExpGolombMapped :: "strmData \<Rightarrow> u32 \<Rightarrow> bool \<Rightarrow> (u32 \<times> u32 \<times> strmData) option" where
  "h264bsdDecodeExpGolombMapped s v isIntra =
     do {
       (status, codeNum, s) \<leftarrow> h264bsdDecodeExpGolombUnsigned s 0;
       if status \<noteq> HANTRO_OK then Some (HANTRO_NOK, v, s)
       else if codeNum > 47 then Some (HANTRO_NOK, v, s)
       else do {
         b \<leftarrow> rd (if isIntra then codedBlockPatternIntra4x4 else codedBlockPatternInter) (unat codeNum);
         Some (HANTRO_OK, ucast b, s)
       }
     }"

definition h264bsdDecodeExpGolombTruncated :: "strmData \<Rightarrow> u32 \<Rightarrow> bool \<Rightarrow> (u32 \<times> u32 \<times> strmData) option" where
  "h264bsdDecodeExpGolombTruncated s v greaterThanOne =
     (if greaterThanOne then h264bsdDecodeExpGolombUnsigned s v
      else do {
        (v, s) \<leftarrow> h264bsdGetBits s 1;
        Some (if v = END_OF_STREAM then (HANTRO_NOK, v, s) else (HANTRO_OK, v XOR 1, s))
      })"

definition stuffingTable :: "u32 list" where
  "stuffingTable = [0x1, 0x2, 0x4, 0x8, 0x10, 0x20, 0x40, 0x80]"

definition h264bsdRbspTrailingBits :: "strmData \<Rightarrow> (u32 \<times> strmData) option" where
  "h264bsdRbspTrailingBits s =
     do {
       let stuffingLength = 8 - bitPosInWord s;
       (stuffing, s) \<leftarrow> h264bsdGetBits s stuffingLength;
       if stuffing = END_OF_STREAM then Some (HANTRO_NOK, s)
       else do {
         expected \<leftarrow> rd stuffingTable (unat (stuffingLength - 1));
         Some (if stuffing \<noteq> expected then HANTRO_NOK else HANTRO_OK, s)
       }
     }"

definition h264bsdMoreRbspData :: "strmData \<Rightarrow> bool option" where
  "h264bsdMoreRbspData s =
     (let bits = strmBuffSize s * 8 - strmBuffReadBits s
      in if bits = 0 then Some False
         else if bits > 8 then Some True
         else do {
           w \<leftarrow> h264bsdShowBits32 s;
           v \<leftarrow> shr32 w (32 - bits);
           Some (v \<noteq> push_bit (unat (bits - 1)) 1)
         })"

section \<open>Counting leading zeros\<close>

lemma bit_of_bits_val:
  "length cs \<le> 32 \<Longrightarrow> bit (of_nat (bits_val cs) :: u32) n \<longleftrightarrow> n < length cs \<and> cs ! (length cs - 1 - n)"
  by (auto simp: bit_of_nat_iff bit_bits_val)

lemma CountLeadingZerosLoop_spec:
  "length cs \<le> 32 \<Longrightarrow>
   h264bsdCountLeadingZerosLoop (of_nat (bits_val cs)) (if cs = [] then 0 else push_bit (length cs - 1) 1) zeros
     = zeros + of_nat (length (takeWhile Not cs))"
proof (induction cs arbitrary: zeros)
  case Nil
  show ?case by (simp add: h264bsdCountLeadingZerosLoop.simps)
next
  case (Cons c cs)
  let ?v = "of_nat (bits_val (c # cs)) :: u32" and ?m = "push_bit (length cs) 1 :: u32"
  have len: "length cs < 32" using Cons.prems by simp
  have "bit ?m (length cs)" using len by (simp add: bit_simps)
  then have nz: "?m \<noteq> 0" using len by auto
  have "?v AND ?m = 0 \<longleftrightarrow> \<not> bit ?v (length cs)"
    using and_exp_eq_0_iff_not_bit [of ?v "length cs"] by simp
  also have "bit ?v (length cs) = c" using Cons.prems by (simp only: bit_of_bits_val) simp
  finally have c: "?v AND ?m = 0 \<longleftrightarrow> \<not> c" .
  show ?case
  proof (cases c)
    case True
    with c nz show ?thesis by (simp add: h264bsdCountLeadingZerosLoop.simps)
  next
    case False
    have "drop_bit 1 ?m = (if cs = [] then 0 else push_bit (length cs - 1) 1)"
      using len by (cases cs) (auto intro!: bit_word_eqI simp: bit_simps)
    then have "h264bsdCountLeadingZerosLoop ?v ?m zeros
        = h264bsdCountLeadingZerosLoop (of_nat (bits_val cs)) (if cs = [] then 0 else push_bit (length cs - 1) 1) (zeros + 1)"
      using c nz False by (subst h264bsdCountLeadingZerosLoop.simps) (simp add: bits_val_Cons)
    with Cons False show ?thesis by simp
  qed
qed

lemma CountLeadingZeros_spec:
  assumes "length cs \<le> 32" "cs \<noteq> []"
  shows "h264bsdCountLeadingZeros (of_nat (bits_val cs)) (length cs) = of_nat (length (takeWhile Not cs))"
  using CountLeadingZerosLoop_spec [OF assms(1), of 0] assms(2) by (simp add: h264bsdCountLeadingZeros_def)

end
