(* ===== verification/H264Golomb.thy ===== *)
theory H264Golomb
  imports H264Vlc "HOL-Library.Log_Nat"
begin

text \<open>
  What the Exp-Golomb decoders compute. The reference code of a number \<open>v\<close> is the binary
  representation of \<open>v + 1\<close> behind one zero for each of its bits but the first; the lemmas
  follow the branches of \<open>h264bsdDecodeExpGolombUnsigned\<close> and show that it decodes exactly
  these codes, up to \<open>2 ^ 32\<close>.
\<close>

section \<open>The first 32 bits\<close>

lemma drop_bit_shown:
  assumes "length bs = 32" "1 \<le> n" "n \<le> 32"
  shows "drop_bit (32 - n) (of_nat (bits_val bs) :: u32) = of_nat (bits_val (take n bs))"
proof -
  have "unat (32 - of_nat n :: u32) = 32 - n"
    using assms unat_sub [of "of_nat n" "32 :: u32"] by (simp add: word_le_nat_alt unat_of_nat)
  then show ?thesis
    using shr_bits_val [OF assms] assms by (simp add: shr32_def split: if_splits)
qed

lemma padded_lead:
  assumes "bs = replicate z False @ True # ys" "z < 32"
  shows "\<exists>xs. padded bs = replicate z False @ True # xs \<and> length xs = 31 - z"
proof -
  have "padded bs = replicate z False @ True # take (31 - z) (ys @ replicate 32 False)"
    using assms by (simp add: padded_def take_Cons' Suc_diff_Suc)
  then show ?thesis by auto
qed

lemma lead_range:
  assumes "bs = replicate z False @ True # xs" "length xs = 31 - z" "z < 32"
  shows "2 ^ (31 - z) \<le> bits_val bs" "bits_val bs < 2 ^ (32 - z)"
proof -
  have "bits_val bs = 2 ^ (31 - z) + bits_val xs"
    using assms by (simp add: bits_val_append bits_val_Cons)
  moreover have "bits_val xs < 2 ^ (31 - z)" using bits_val_less [of xs] assms(2) by simp
  moreover have "(2 :: nat) ^ (32 - z) = 2 ^ (31 - z) + 2 ^ (31 - z)"
    using assms(3) by (simp add: Suc_diff_le [symmetric] flip: power_Suc mult_2)
  ultimately show "2 ^ (31 - z) \<le> bits_val bs" "bits_val bs < 2 ^ (32 - z)" by simp_all
qed

lemma shown_le:
  assumes "length bs = 32" "k < 32"
  shows "(2 ^ k \<le> (of_nat (bits_val bs) :: u32)) \<longleftrightarrow> 2 ^ k \<le> bits_val bs"
proof -
  have "(2 :: nat) ^ k < 2 ^ 32" using assms(2) by (intro power_strict_increasing) simp_all
  then have "unat (of_nat (2 ^ k) :: u32) = 2 ^ k" by (simp only: unat_of_nat take_bit_nat_eq_self) simp
  then have "unat ((2 :: u32) ^ k) = 2 ^ k" by simp
  moreover have "unat (of_nat (bits_val bs) :: u32) = bits_val bs" using assms(1) by (intro unat_bits_val) simp
  ultimately show ?thesis by (simp only: word_le_nat_alt)
qed

lemma shown_tests:
  fixes bs defines "w \<equiv> of_nat (bits_val (padded bs)) :: u32"
  shows "0x80000000 \<le> w \<longleftrightarrow> 2 ^ 31 \<le> bits_val (padded bs)"
    "0x40000000 \<le> w \<longleftrightarrow> 2 ^ 30 \<le> bits_val (padded bs)"
    "0x20000000 \<le> w \<longleftrightarrow> 2 ^ 29 \<le> bits_val (padded bs)"
    "0x10000000 \<le> w \<longleftrightarrow> 2 ^ 28 \<le> bits_val (padded bs)"
  using shown_le [of "padded bs" 31] shown_le [of "padded bs" 30] shown_le [of "padded bs" 29]
    shown_le [of "padded bs" 28]
  by (simp_all add: w_def)

lemma numZeros_spec:
  assumes "4 \<le> length (takeWhile Not (padded bs))"
  shows "4 + h264bsdCountLeadingZeros (of_nat (bits_val (padded bs))) 28
    = of_nat (length (takeWhile Not (padded bs)))"
proof -
  have four: "take 4 (padded bs) = replicate 4 False"
  proof (rule nth_equalityI)
    fix i assume "i < length (take 4 (padded bs))"
    then have i: "i < 4" by simp
    then have "\<not> padded bs ! i" using assms nth_length_takeWhile takeWhile_nth [of i Not "padded bs"]
        nth_mem [of i "takeWhile Not (padded bs)"] set_takeWhileD [of _ Not "padded bs"] by auto
    with i show "take 4 (padded bs) ! i = replicate 4 False ! i" by simp
  qed simp
  define cs where "cs = drop 4 (padded bs)"
  have pb: "padded bs = replicate 4 False @ cs" using four by (metis append_take_drop_id cs_def)
  have len: "length cs = 28" by (simp add: cs_def)
  then have ne: "cs \<noteq> []" by auto
  have "length (takeWhile Not (replicate n False @ cs)) = n + length (takeWhile Not cs)" for n
    by (induction n) simp_all
  then have "length (takeWhile Not (padded bs)) = 4 + length (takeWhile Not cs)"
    by (simp only: pb)
  moreover have "bits_val (padded bs) = bits_val cs" by (simp add: pb bits_val_append)
  ultimately show ?thesis using CountLeadingZeros_spec [of cs] len ne by simp
qed

section \<open>Short codes\<close>

lemma suffix_mask:
  assumes "length bs = 32" "take (2 * z + 1) bs = replicate z False @ True # zs" "length zs = z" "z < 16"
  shows "drop_bit (31 - 2 * z) (of_nat (bits_val bs) :: u32) AND mask z = of_nat (bits_val zs)"
proof -
  have "drop_bit (31 - 2 * z) (of_nat (bits_val bs) :: u32) = of_nat (2 ^ z + bits_val zs)"
    using drop_bit_shown [of bs "2 * z + 1"] assms
    by (simp add: bits_val_append bits_val_Cons)
  moreover have "take_bit z (2 ^ z + bits_val zs) = bits_val zs"
    using bits_val_less [of zs] assms(3) by (simp add: take_bit_eq_mod)
  moreover have "take_bit z (of_nat n :: u32) = of_nat (take_bit z n)" for n
    by (rule bit_word_eqI) (auto simp: bit_simps)
  ultimately show ?thesis by (simp only: take_bit_eq_mask [symmetric])
qed

lemma FlushBits_step:
  assumes "strm_ok s" "n \<le> 32"
  shows "if n \<le> length (rest s)
    then \<exists>s'. h264bsdFlushBits s (of_nat n) = (HANTRO_OK, s') \<and> strm_ok s' \<and> rest s' = drop n (rest s)
    else \<exists>s'. h264bsdFlushBits s (of_nat n) = (END_OF_STREAM, s') \<and> spent 32 s'"
proof -
  have "unat (of_nat n :: u32) = n" using assms by (simp add: unat_of_nat)
  then show ?thesis
    using FlushBits_ok [OF assms(1), of "of_nat n"] FlushBits_end [OF assms(1), of "of_nat n"] assms(2)
    by auto
qed

section \<open>The branches of the decoder\<close>

definition golomb :: "nat \<Rightarrow> bool list \<Rightarrow> bool list" where
  "golomb z xs = replicate z False @ True # xs"

lemma short_value:
  assumes "bs = golomb z ys" "z \<le> length ys" "z < 16"
  shows "drop_bit (31 - 2 * z) (of_nat (bits_val (padded bs)) :: u32) AND mask z
    = of_nat (bits_val (take z ys))"
proof -
  have "2 * z + 1 \<le> length bs" using assms by (simp add: golomb_def)
  then have "take (2 * z + 1) (padded bs) = take (2 * z + 1) bs"
    using assms(3) by (intro take_padded) simp_all
  also have "\<dots> = replicate z False @ True # take z ys"
    using assms by (simp add: golomb_def take_Cons' mult_2)
  finally show ?thesis using assms by (intro suffix_mask) simp_all
qed

lemma lead_zeros:
  assumes "bs = golomb z ys" "z < 32"
  shows "length (takeWhile Not (padded bs)) = z"
proof -
  obtain xs where "padded bs = replicate z False @ True # xs"
    using padded_lead [OF assms(1) [unfolded golomb_def] assms(2)] by blast
  moreover have "length (takeWhile Not (replicate z False @ True # xs)) = z" by (induction z) simp_all
  ultimately show ?thesis by simp
qed

lemma lead_tests:
  fixes bs defines "w \<equiv> of_nat (bits_val (padded bs)) :: u32"
  assumes "bs = golomb z ys" "z < 32"
  shows "0x80000000 \<le> w \<longleftrightarrow> z = 0" "0x40000000 \<le> w \<longleftrightarrow> z \<le> 1"
    "0x20000000 \<le> w \<longleftrightarrow> z \<le> 2" "0x10000000 \<le> w \<longleftrightarrow> z \<le> 3"
proof -
  obtain xs where xs: "padded bs = replicate z False @ True # xs" "length xs = 31 - z"
    using padded_lead [OF assms(2) [unfolded golomb_def] assms(3)] by blast
  note range = lead_range [OF this assms(3)]
  have "2 ^ k \<le> bits_val (padded bs) \<longleftrightarrow> z \<le> 31 - k" if "k < 32" for k
  proof
    assume "2 ^ k \<le> bits_val (padded bs)"
    then have "(2 :: nat) ^ k < 2 ^ (32 - z)" using range(2) by linarith
    then have "k < 32 - z" by simp
    then show "z \<le> 31 - k" by simp
  next
    assume "z \<le> 31 - k"
    then have "(2 :: nat) ^ k \<le> 2 ^ (31 - z)" using that by (intro power_increasing) simp_all
    then show "2 ^ k \<le> bits_val (padded bs)" using range(1) by linarith
  qed
  from this [of 31] this [of 30] this [of 29] this [of 28]
  show "0x80000000 \<le> w \<longleftrightarrow> z = 0" "0x40000000 \<le> w \<longleftrightarrow> z \<le> 1"
    "0x20000000 \<le> w \<longleftrightarrow> z \<le> 2" "0x10000000 \<le> w \<longleftrightarrow> z \<le> 3"
    unfolding w_def by (simp_all only: shown_tests) simp_all
qed

lemma Unsigned_short:
  assumes "strm_ok s" "rest s = golomb z ys" "z \<le> 3"
  shows "if z \<le> length ys
    then \<exists>s'. h264bsdDecodeExpGolombUnsigned s c = Some (HANTRO_OK, of_nat (2 ^ z - 1 + bits_val (take z ys)), s')
           \<and> strm_ok s' \<and> rest s' = drop z ys
    else \<exists>s'. h264bsdDecodeExpGolombUnsigned s c = Some (HANTRO_NOK, c, s') \<and> spent 32 s'"
proof -
  have z: "z < 32" "z < 16" using assms(3) by simp_all
  note show_val = ShowBits32_val [OF assms(1)] and tests = lead_tests [OF assms(2) z(1)]
  note flush = FlushBits_step [OF assms(1), of "2 * z + 1"]
  have len: "2 * z + 1 \<le> length (rest s) \<longleftrightarrow> z \<le> length ys" using assms(2) by (auto simp: golomb_def)
  have drop: "drop (2 * z + 1) (rest s) = drop z ys" using assms(2) by (simp add: golomb_def)
  have "z = 0 \<or> z = 1 \<or> z = 2 \<or> z = 3" using assms(3) by linarith
  then show ?thesis
  proof (elim disjE)
    assume "z = 0"
    then show ?thesis using show_val tests flush len drop by (auto simp: h264bsdDecodeExpGolombUnsigned_def)
  next
    assume "z = 1"
    then show ?thesis
      using show_val tests flush len drop short_value [OF assms(2) _ z(2)]
      by (auto simp: h264bsdDecodeExpGolombUnsigned_def mask_eq_exp_minus_1)
  next
    assume "z = 2"
    then show ?thesis
      using show_val tests flush len drop short_value [OF assms(2) _ z(2)]
      by (auto simp: h264bsdDecodeExpGolombUnsigned_def mask_eq_exp_minus_1)
  next
    assume "z = 3"
    then show ?thesis
      using show_val tests flush len drop short_value [OF assms(2) _ z(2)]
      by (auto simp: h264bsdDecodeExpGolombUnsigned_def mask_eq_exp_minus_1)
  qed
qed

lemma Unsigned_long:
  assumes "strm_ok s" "rest s = golomb z ys" "4 \<le> z" "z < 32"
  shows "if z \<le> length ys
    then \<exists>s'. h264bsdDecodeExpGolombUnsigned s c = Some (HANTRO_OK, of_nat (2 ^ z - 1 + bits_val (take z ys)), s')
           \<and> strm_ok s' \<and> rest s' = drop z ys
    else \<exists>s'. h264bsdDecodeExpGolombUnsigned s c = Some (HANTRO_NOK, c, s')"
proof -
  note show_val = ShowBits32_val [OF assms(1)] and tests = lead_tests [OF assms(2,4)]
  have nz: "4 + h264bsdCountLeadingZeros (of_nat (bits_val (padded (rest s)))) 28 = of_nat z"
    using numZeros_spec [of "rest s"] lead_zeros [OF assms(2,4)] assms(3) by simp
  have uz: "unat (of_nat z :: u32) = z" using assms(4) by (simp add: unat_of_nat)
  have not32: "(of_nat z :: u32) \<noteq> 32" using uz assms(4) by auto
  have "z + 1 \<le> length (rest s)" using assms(2) by (simp add: golomb_def)
  then obtain s1 where s1: "h264bsdFlushBits s (of_nat z + 1) = (HANTRO_OK, s1)" "strm_ok s1"
    "rest s1 = ys"
    using FlushBits_step [OF assms(1), of "z + 1"] assms(2,4) by (auto simp: golomb_def add.commute)
  have dec: "h264bsdDecodeExpGolombUnsigned s c =
     do {
       (bits, s') \<leftarrow> h264bsdGetBits s1 (of_nat z);
       Some (if bits = END_OF_STREAM then (HANTRO_NOK, c, s')
             else (HANTRO_OK, push_bit z 1 - 1 + bits, s'))
     }"
    unfolding h264bsdDecodeExpGolombUnsigned_def show_val bind.bind_lunit Let_def nz
    using tests not32 s1(1) assms(3) by (simp only: uz snd_conv if_False if_True) simp
  show ?thesis
  proof (cases "z \<le> length ys")
    case True
    then obtain s2 where s2: "h264bsdGetBits s1 (of_nat z) = Some (of_nat (bits_val (take z ys)), s2)"
      "strm_ok s2" "rest s2 = drop z ys"
      using GetBits_ok [OF s1(2), of z] s1(3) assms(3,4) by auto
    have "bits_val (take z ys) < 2 ^ z" using bits_val_less [of "take z ys"] True by simp
    moreover have "(2 :: nat) ^ z \<le> 2 ^ 31" using assms(4) by (intro power_increasing) simp_all
    moreover have "unat (of_nat (bits_val (take z ys)) :: u32) = bits_val (take z ys)"
      using True assms(4) by (intro unat_bits_val) simp
    ultimately have "(of_nat (bits_val (take z ys)) :: u32) \<noteq> END_OF_STREAM"
      by (auto simp: END_OF_STREAM_def)
    then have "h264bsdDecodeExpGolombUnsigned s c
        = Some (HANTRO_OK, push_bit z 1 - 1 + of_nat (bits_val (take z ys)), s2)"
      by (simp add: dec s2(1))
    moreover have "(push_bit z 1 :: u32) - 1 + of_nat (bits_val (take z ys))
        = of_nat (2 ^ z - 1 + bits_val (take z ys))"
      by (simp only: of_nat_add) (simp add: of_nat_diff)
    ultimately show ?thesis using True s2(2,3) by (simp only: if_True) blast
  next
    case False
    then obtain s2 where "h264bsdGetBits s1 (of_nat z) = Some (END_OF_STREAM, s2)" "spent 32 s2"
      using GetBits_end [OF s1(2), of z] s1(3) assms(3,4) by auto
    with False dec show ?thesis by auto
  qed
qed

lemma ExpGolombUnsigned_golomb:
  assumes "strm_ok s" "rest s = golomb z ys" "z < 32"
  shows "if z \<le> length ys
    then \<exists>s'. h264bsdDecodeExpGolombUnsigned s c = Some (HANTRO_OK, of_nat (2 ^ z - 1 + bits_val (take z ys)), s')
           \<and> strm_ok s' \<and> rest s' = drop z ys
    else \<exists>s'. h264bsdDecodeExpGolombUnsigned s c = Some (HANTRO_NOK, c, s')"
proof (cases "z \<le> 3")
  case True
  from Unsigned_short [OF assms(1,2) this, of c] show ?thesis by (auto split: if_splits)
next
  case False
  then have "4 \<le> z" by simp
  from Unsigned_long [OF assms(1,2) this assms(3), of c] show ?thesis by (auto split: if_splits)
qed

section \<open>Thirty-two zeros\<close>

lemma all_zero:
  assumes "strm_ok s" "padded (rest s) = replicate 32 False"
  shows "h264bsdDecodeExpGolombUnsigned s c = ExpGolombBig s 0"
proof -
  have zeros: "takeWhile Not (replicate n False) = replicate n False" for n
    by (induction n) simp_all
  have "4 + h264bsdCountLeadingZeros (of_nat (bits_val (padded (rest s)))) 28 = of_nat 32"
    using numZeros_spec [of "rest s"] by (simp only: assms(2) zeros) simp
  then have "4 + h264bsdCountLeadingZeros 0 28 = 32" using assms(2) by simp
  then show ?thesis
    using ShowBits32_val [OF assms(1)] assms(2) by (simp add: h264bsdDecodeExpGolombUnsigned_def)
qed

lemma FlushBits_any:
  assumes "strm_ok s" "n \<le> 32"
  obtains "n \<le> length (rest s)" "strm_ok (snd (h264bsdFlushBits s (of_nat n)))"
      "rest (snd (h264bsdFlushBits s (of_nat n))) = drop n (rest s)"
    | "length (rest s) < n" "spent 32 (snd (h264bsdFlushBits s (of_nat n)))"
  using FlushBits_step [OF assms] that by (auto split: if_splits)

lemma ExpGolombBig_spec:
  assumes "strm_ok s" "padded (rest s) = replicate 32 False"
  shows "case drop 32 (rest s) of
      True # ys \<Rightarrow>
        if length ys < 32 then \<exists>s'. ExpGolombBig s c = Some (HANTRO_NOK, c, s')
        else \<exists>s'. ExpGolombBig s c
            = Some (if bits_val (take 32 ys) = 0 then (HANTRO_OK, BIG_CODE_NUM, s')
                    else if bits_val (take 32 ys) = 1 then (HANTRO_NOK, BIG_CODE_NUM, s')
                    else (HANTRO_NOK, c, s'))
          \<and> strm_ok s' \<and> rest s' = drop 32 ys
    | _ \<Rightarrow> \<exists>s'. ExpGolombBig s c = Some (HANTRO_NOK, c, s')"
proof -
  have no: "END_OF_STREAM \<noteq> 1" by (simp add: END_OF_STREAM_def)
  define s1 where "s1 = snd (h264bsdFlushBits s 32)"
  have big: "ExpGolombBig s c =
     do {
       (bits, s2) \<leftarrow> h264bsdGetBits s1 1;
       if bits = 1
       then do {
         bits \<leftarrow> h264bsdShowBits32 s2;
         let (status, s3) = h264bsdFlushBits s2 32;
         if status = END_OF_STREAM then Some (HANTRO_NOK, c, s3)
         else if bits = 0 then Some (HANTRO_OK, BIG_CODE_NUM, s3)
         else if bits = 1 then Some (HANTRO_NOK, BIG_CODE_NUM, s3)
         else Some (HANTRO_NOK, c, s3)
       }
       else Some (HANTRO_NOK, c, s2)
     }"
    by (simp add: ExpGolombBig_def s1_def)
  show ?thesis
  proof (cases "32 < length (rest s)")
    case False
    have "\<exists>s2. h264bsdGetBits s1 1 = Some (END_OF_STREAM, s2)"
    proof -
      consider "strm_ok s1" "rest s1 = []" | "spent 32 s1"
        using FlushBits_any [OF assms(1), of 32] False by (auto simp: s1_def)
      then show ?thesis using GetBits_end [of s1 1] GetBits_spent [of 32 s1 1] by cases auto
    qed
    then show ?thesis using False no big by auto
  next
    case True
    then have s1: "strm_ok s1" "rest s1 = drop 32 (rest s)"
      using FlushBits_any [OF assms(1), of 32] by (auto simp: s1_def)
    obtain b ys where b: "drop 32 (rest s) = b # ys" using True by (cases "drop 32 (rest s)") auto
    obtain s2 where s2: "h264bsdGetBits s1 1 = Some (of_bool b, s2)" "strm_ok s2" "rest s2 = ys"
      using GetBits_ok [OF s1(1), of 1] s1(2) b by (auto simp: bits_val_Cons)
    show ?thesis
    proof (cases b)
      case False
      then show ?thesis using b big s2(1) by simp
    next
      case True
      have shown: "h264bsdShowBits32 s2 = Some (of_nat (bits_val (padded ys)))"
        using ShowBits32_val [OF s2(2)] s2(3) by simp
      show ?thesis
      proof (cases "length ys < 32")
        case short: True
        then obtain s3 where "h264bsdFlushBits s2 32 = (END_OF_STREAM, s3)"
          using FlushBits_step [OF s2(2), of 32] s2(3) by auto
        then show ?thesis using short True b big s2(1) shown by simp
      next
        case long: False
        then obtain s3 where s3: "h264bsdFlushBits s2 32 = (HANTRO_OK, s3)" "strm_ok s3" "rest s3 = drop 32 ys"
          using FlushBits_step [OF s2(2), of 32] s2(3) by auto
        have "padded ys = take 32 ys" using long by (simp add: padded_def)
        moreover have "unat (of_nat (bits_val (take 32 ys)) :: u32) = bits_val (take 32 ys)"
          by (intro unat_bits_val) simp
        then have "(of_nat (bits_val (take 32 ys)) :: u32) = 0 \<longleftrightarrow> bits_val (take 32 ys) = 0"
          "(of_nat (bits_val (take 32 ys)) :: u32) = 1 \<longleftrightarrow> bits_val (take 32 ys) = 1"
          by (simp_all only: word_unat_eq_iff unat_0 unsigned_1)
        ultimately show ?thesis using long True b big s2(1) shown s3 by simp
      qed
    qed
  qed
qed

end
