(* ===== verification/H264Codes.thy ===== *)
theory H264Codes
  imports H264Golomb
begin

text \<open>
  The Exp-Golomb codes as codes: the decoders accept exactly the reference codes, each decoder
  is an interpretation of the locale \<open>prefix_code\<close>, in which the round trip of sequences of
  code words is proved once.
\<close>

section \<open>The reference code\<close>

definition ue_code :: "nat \<Rightarrow> bool list" where
  "ue_code v = (let z = floorlog 2 (v + 1) - 1 in golomb z (nat_bits z (v + 1 - 2 ^ z)))"

lemma ue_code_of_bits: "ue_code (2 ^ length xs - 1 + bits_val xs) = golomb (length xs) xs"
proof -
  let ?v = "2 ^ length xs - 1 + bits_val xs"
  have v: "?v + 1 = 2 ^ length xs + bits_val xs" by simp
  have "floorlog 2 (?v + 1) \<le> Suc (length xs)"
    unfolding v using bits_val_less [of xs] by (intro floorlog_leI) simp_all
  moreover have "Suc (length xs) \<le> floorlog 2 (?v + 1)"
    unfolding v by (intro floorlog_geI) simp_all
  ultimately have "floorlog 2 (?v + 1) - 1 = length xs" by simp
  then show ?thesis by (simp add: ue_code_def v Let_def)
qed

lemma ue_code_bits:
  obtains xs where "ue_code v = golomb (length xs) xs" "v = 2 ^ length xs - 1 + bits_val xs"
proof -
  define z where "z = floorlog 2 (v + 1) - 1"
  have "0 < floorlog 2 (v + 1)" using floorlog_eq_zero_iff [of 2 "v + 1"] by simp
  then have "floorlog 2 (v + 1) = Suc z" by (simp add: z_def)
  then have z: "2 ^ z \<le> v + 1" "v + 1 < 2 ^ Suc z"
    using floorlog_bounds [of "v + 1" 2] by simp_all
  then have "bits_val (nat_bits z (v + 1 - 2 ^ z)) = v + 1 - 2 ^ z" by (intro bits_val_nat_bits) simp
  then have "v = 2 ^ z - 1 + bits_val (nat_bits z (v + 1 - 2 ^ z))" using z(1) by simp
  moreover have "ue_code v = golomb z (nat_bits z (v + 1 - 2 ^ z))" by (simp add: ue_code_def z_def Let_def)
  ultimately show thesis using that [of "nat_bits z (v + 1 - 2 ^ z)"] by simp
qed

lemma code_bound:
  "2 ^ length xs - 1 + bits_val xs < 2 ^ n - 1 \<Longrightarrow> length xs < n"
proof (rule ccontr)
  assume *: "2 ^ length xs - 1 + bits_val xs < (2 :: nat) ^ n - 1" "\<not> length xs < n"
  then have "(2 :: nat) ^ n \<le> 2 ^ length xs" by (intro power_increasing) simp_all
  with * show False by linarith
qed

section \<open>Every stream starts with a code or is rejected\<close>

lemma stream_start:
  assumes "strm_ok s"
  obtains (golomb) z ys where "rest s = golomb z ys" "z < 32"
  | (zeros) "padded (rest s) = replicate 32 False"
proof (cases "length (takeWhile Not (rest s)) < 32 \<and> length (takeWhile Not (rest s)) < length (rest s)")
  case True
  define z where "z = length (takeWhile Not (rest s))"
  have z: "z < length (rest s)" "rest s ! z" "z < 32"
    using True nth_length_takeWhile [of Not "rest s"] by (simp_all add: z_def)
  have "takeWhile Not (rest s) = replicate z False"
  proof (rule replicate_eqI)
    show "length (takeWhile Not (rest s)) = z" by (simp add: z_def)
    show "y = False" if "y \<in> set (takeWhile Not (rest s))" for y using set_takeWhileD [OF that] by simp
  qed
  moreover have "takeWhile Not (rest s) = take z (rest s)" unfolding z_def by (rule takeWhile_eq_take)
  ultimately have "take z (rest s) = replicate z False" by simp
  moreover have "rest s = take z (rest s) @ rest s ! z # drop (Suc z) (rest s)"
    by (rule id_take_nth_drop [OF z(1)])
  ultimately have "rest s = golomb z (drop (Suc z) (rest s))"
    using z(2) unfolding golomb_def by metis
  then show thesis using z golomb by blast
next
  case False
  have "padded (rest s) = replicate 32 False"
  proof (rule nth_equalityI)
    fix i assume "i < length (padded (rest s))"
    then have i: "i < 32" by simp
    have "\<not> (i < length (rest s) \<and> rest s ! i)"
    proof
      assume *: "i < length (rest s) \<and> rest s ! i"
      then have "length (takeWhile Not (rest s)) \<le> i"
        by (metis leI nth_mem set_takeWhileD takeWhile_nth)
      with * i False show False by simp
    qed
    with i show "padded (rest s) ! i = replicate 32 False ! i" by (simp add: padded_nth)
  qed simp
  then show thesis by (rule zeros)
qed

lemma zeros_rest:
  assumes "padded (rest s) = replicate 32 False" "32 < length (rest s)"
  shows "rest s = replicate 32 False @ drop 32 (rest s)"
  using assms by (metis append_take_drop_id order_less_imp_le padded_def take_append take_all
      append_Nil2 diff_is_0_eq take_0)

lemma padded_big:
  assumes "rest s = golomb 32 ys"
  shows "padded (rest s) = replicate 32 False"
  using assms by (simp add: padded_def golomb_def)

lemma Unsigned_code:
  assumes "strm_ok s" "rest s = ue_code v @ bs" "v \<le> 2 ^ 32"
  shows "\<exists>s'. h264bsdDecodeExpGolombUnsigned s c
      = Some (if v < 2 ^ 32 then (HANTRO_OK, of_nat v, s') else (HANTRO_NOK, BIG_CODE_NUM, s'))
    \<and> strm_ok s' \<and> rest s' = bs"
proof -
  obtain xs where xs: "ue_code v = golomb (length xs) xs" "v = 2 ^ length xs - 1 + bits_val xs"
    by (rule ue_code_bits)
  have rest: "rest s = golomb (length xs) (xs @ bs)" using assms(2) xs(1) by (simp add: golomb_def)
  show ?thesis
  proof (cases "length xs < 32")
    case True
    have "v < 2 ^ 32"
    proof -
      have "(2 :: nat) ^ length xs \<le> 2 ^ 31" using True by (intro power_increasing) simp_all
      with bits_val_less [of xs] xs(2) show ?thesis by simp
    qed
    with ExpGolombUnsigned_golomb [OF assms(1) rest True, of c] xs(2) show ?thesis by simp
  next
    case False
    have "length xs < 33" using xs(2) assms(3) by (intro code_bound [of xs 33]) simp
    with False have len: "length xs = 32" by simp
    with xs(2) assms(3) have le: "bits_val xs \<le> 1" by simp
    have pad: "padded (rest s) = replicate 32 False" using rest len by (intro padded_big) simp
    have drop: "drop 32 (rest s) = True # xs @ bs" using rest len by (simp add: golomb_def)
    obtain s' where s': "ExpGolombBig s 0 = Some (if bits_val xs = 0 then (HANTRO_OK, BIG_CODE_NUM, s')
                    else (HANTRO_NOK, BIG_CODE_NUM, s'))" "strm_ok s'" "rest s' = bs"
    proof -
      have tk: "take 32 (xs @ bs) = xs" using len by simp
      have "bits_val xs = 0 \<or> bits_val xs = 1" using le by linarith
      then show thesis
        using ExpGolombBig_spec [OF assms(1) pad, of 0] len that
        unfolding drop list.case bool.case tk by auto
    qed
    have "of_nat (2 ^ 32 - 1) = BIG_CODE_NUM" by (simp add: BIG_CODE_NUM_def)
    then show ?thesis
      using s' all_zero [OF assms(1) pad, of c] xs(2) len le by (cases "bits_val xs") auto
  qed
qed

lemma Unsigned_no_code:
  assumes "strm_ok s" "\<And>v bs. v \<le> 2 ^ 32 \<Longrightarrow> rest s \<noteq> ue_code v @ bs" "c \<noteq> BIG_CODE_NUM"
  shows "\<exists>c' s'. h264bsdDecodeExpGolombUnsigned s c = Some (HANTRO_NOK, c', s') \<and> c' \<noteq> BIG_CODE_NUM"
proof -
  have no: "\<not> (length xs = z \<and> rest s = golomb z (xs @ bs) \<and> 2 ^ z - 1 + bits_val xs \<le> 2 ^ 32)" for z xs bs
    using assms(2) [of "2 ^ length xs - 1 + bits_val xs" bs] ue_code_of_bits [of xs]
    by (auto simp: golomb_def)
  from assms(1) show ?thesis
  proof (cases rule: stream_start)
    case (golomb z ys)
    have "\<not> z \<le> length ys"
    proof
      assume z: "z \<le> length ys"
      have "(2 :: nat) ^ z \<le> 2 ^ 31" using golomb(2) by (intro power_increasing) simp_all
      with bits_val_less [of "take z ys"] z have "2 ^ z - 1 + bits_val (take z ys) \<le> 2 ^ 32" by simp
      with no [of "take z ys" z "drop z ys"] golomb(1) z show False by simp
    qed
    with ExpGolombUnsigned_golomb [OF assms(1) golomb, of c] assms(3) show ?thesis by auto
  next
    case zeros
    have big: "h264bsdDecodeExpGolombUnsigned s c = ExpGolombBig s 0" by (rule all_zero [OF assms(1) zeros])
    have nz: "(0 :: u32) \<noteq> BIG_CODE_NUM" by (simp add: BIG_CODE_NUM_def)
    note spec = ExpGolombBig_spec [OF assms(1) zeros, of 0]
    show ?thesis
    proof (cases "\<exists>ys. drop 32 (rest s) = True # ys \<and> 32 \<le> length ys")
      case True
      then obtain ys where ys: "drop 32 (rest s) = True # ys" "32 \<le> length ys" by blast
      then have "32 < length (rest s)" by (metis drop_eq_Nil leI list.discI)
      from zeros_rest [OF zeros this] ys have "rest s = golomb 32 (take 32 ys @ drop 32 ys)"
        by (simp add: golomb_def)
      with no [of "take 32 ys" 32 "drop 32 ys"] ys(2) have "1 < bits_val (take 32 ys)" by simp
      with spec ys big nz show ?thesis by auto
    next
      case False
      with spec have "\<exists>s'. ExpGolombBig s 0 = Some (HANTRO_NOK, 0, s')"
        by (cases "drop 32 (rest s)") (auto split: bool.splits if_splits)
      with big nz show ?thesis by auto
    qed
  qed
qed

end
