(* ===== verification/H264CodeLaws.thy ===== *)
theory H264CodeLaws
  imports H264Codes
begin

text \<open>
  The interface \<open>prefix_code\<close> of a decoder that reads one code word off a stream, its
  interpretations on the decoders of \<open>h264bsd_vlc.c\<close>, and sequences of code words. The parsers
  of parameter sets and slice headers rely on the stream only through such decoders.
\<close>

section \<open>The interface\<close>

definition accepted :: "(u32 \<times> 'v \<times> strmData) option \<Rightarrow> ('v \<times> strmData) option" where
  "accepted r = (case r of Some (status, v, s) \<Rightarrow> if status = HANTRO_OK then Some (v, s) else None | None \<Rightarrow> None)"

lemma accepted_simps [simp]:
  "accepted None = None"
  "accepted (Some (HANTRO_OK, v, s)) = Some (v, s)"
  "accepted (Some (HANTRO_NOK, v, s)) = None"
  by (simp_all add: accepted_def)

primrec dec_seq :: "(strmData \<Rightarrow> ('v \<times> strmData) option) \<Rightarrow> nat \<Rightarrow> strmData \<Rightarrow> ('v list \<times> strmData) option" where
  "dec_seq dec 0 s = Some ([], s)"
| "dec_seq dec (Suc n) s =
     (case dec s of
        None \<Rightarrow> None
      | Some (v, s1) \<Rightarrow> (case dec_seq dec n s1 of None \<Rightarrow> None | Some (vs, s2) \<Rightarrow> Some (v # vs, s2)))"

locale prefix_code =
  fixes enc :: "'v \<Rightarrow> bool list" and dec :: "strmData \<Rightarrow> ('v \<times> strmData) option"
    and valid :: "'v \<Rightarrow> bool"
  assumes dec_enc: "strm_ok s \<Longrightarrow> valid v \<Longrightarrow> rest s = enc v @ bs
      \<Longrightarrow> \<exists>s'. dec s = Some (v, s') \<and> strm_ok s' \<and> rest s' = bs"
    and dec_sound: "strm_ok s \<Longrightarrow> dec s = Some (v, s') \<Longrightarrow> valid v \<and> strm_ok s' \<and> rest s = enc v @ rest s'"
begin

lemma dec_iff:
  assumes "strm_ok s"
  shows "(\<exists>s'. dec s = Some (v, s') \<and> rest s' = bs) \<longleftrightarrow> valid v \<and> rest s = enc v @ bs"
  using dec_enc [OF assms] dec_sound [OF assms] by blast

lemma one_code: "strm_ok s \<Longrightarrow> valid v \<Longrightarrow> valid w \<Longrightarrow> rest s = enc v @ bs \<Longrightarrow> rest s = enc w @ cs \<Longrightarrow> v = w \<and> bs = cs"
  using dec_enc [of s v bs] dec_enc [of s w cs] by auto

lemma seq_roundtrip:
  "strm_ok s \<Longrightarrow> (\<And>v. v \<in> set vs \<Longrightarrow> valid v) \<Longrightarrow> rest s = concat (map enc vs) @ bs
     \<Longrightarrow> \<exists>s'. dec_seq dec (length vs) s = Some (vs, s') \<and> strm_ok s' \<and> rest s' = bs"
proof (induction vs arbitrary: s)
  case (Cons v vs)
  then obtain s1 where s1: "dec s = Some (v, s1)" "strm_ok s1" "rest s1 = concat (map enc vs) @ bs"
    using dec_enc [of s v "concat (map enc vs) @ bs"] by auto
  obtain s2 where "dec_seq dec (length vs) s1 = Some (vs, s2)" "strm_ok s2" "rest s2 = bs"
    using Cons.IH [OF s1(2) _ s1(3)] Cons.prems(2) by auto
  with s1 show ?case by simp
qed simp

lemma seq_sound:
  "strm_ok s \<Longrightarrow> dec_seq dec n s = Some (vs, s')
     \<Longrightarrow> length vs = n \<and> strm_ok s' \<and> (\<forall>v \<in> set vs. valid v) \<and> rest s = concat (map enc vs) @ rest s'"
proof (induction n arbitrary: s vs)
  case (Suc n)
  from Suc.prems(2) obtain v s1 vs1 where v: "dec s = Some (v, s1)" "dec_seq dec n s1 = Some (vs1, s')" "vs = v # vs1"
    by (auto split: option.splits)
  note sound = dec_sound [OF Suc.prems(1) v(1)]
  with Suc.IH [OF _ v(2)] v(3) show ?case by auto
qed simp

lemma unique_reading:
  assumes "strm_ok s" "\<And>v. v \<in> set vs \<union> set ws \<Longrightarrow> valid v" "length vs = length ws"
    and "rest s = concat (map enc vs) @ bs" "rest s = concat (map enc ws) @ cs"
  shows "vs = ws \<and> bs = cs"
proof -
  have v: "\<And>v. v \<in> set vs \<Longrightarrow> valid v" and w: "\<And>v. v \<in> set ws \<Longrightarrow> valid v"
    using assms(2) by simp_all
  from seq_roundtrip [OF assms(1) v assms(4)] obtain s1 where
    "dec_seq dec (length vs) s = Some (vs, s1)" "rest s1 = bs" by auto
  moreover from seq_roundtrip [OF assms(1) w assms(5)] obtain s2 where
    "dec_seq dec (length ws) s = Some (ws, s2)" "rest s2 = cs" by auto
  ultimately have "Some (vs, s1) = Some (ws, s2)" "bs = rest s1" "cs = rest s2"
    using assms(3) by (simp_all only:)
  then show ?thesis by (simp only: option.inject prod.inject)
qed

end

section \<open>The Exp-Golomb decoders\<close>

lemma u32_less: "unat (v :: u32) < 2 ^ 32"
proof -
  have "unat v < 2 ^ LENGTH(32)" by (rule unsigned_less)
  then show ?thesis by simp
qed

lemma Unsigned_cases:
  assumes "strm_ok s" "c \<noteq> BIG_CODE_NUM"
  obtains (small) v bs s' where "rest s = ue_code (unat v) @ bs"
      "h264bsdDecodeExpGolombUnsigned s c = Some (HANTRO_OK, v, s')" "strm_ok s'" "rest s' = bs"
  | (big) bs s' where "rest s = ue_code (2 ^ 32) @ bs"
      "h264bsdDecodeExpGolombUnsigned s c = Some (HANTRO_NOK, BIG_CODE_NUM, s')" "strm_ok s'" "rest s' = bs"
  | (none) c' s' where "\<And>v bs. v \<le> 2 ^ 32 \<Longrightarrow> rest s \<noteq> ue_code v @ bs"
      "h264bsdDecodeExpGolombUnsigned s c = Some (HANTRO_NOK, c', s')" "c' \<noteq> BIG_CODE_NUM"
proof (cases "\<exists>v bs. v \<le> 2 ^ 32 \<and> rest s = ue_code v @ bs")
  case True
  then obtain v bs where v: "v \<le> 2 ^ 32" "rest s = ue_code v @ bs" by blast
  from Unsigned_code [OF assms(1) v(2,1), of c] obtain s' where
    s': "h264bsdDecodeExpGolombUnsigned s c
      = Some (if v < 2 ^ 32 then (HANTRO_OK, of_nat v, s') else (HANTRO_NOK, BIG_CODE_NUM, s'))"
    "strm_ok s'" "rest s' = bs" by blast
  show thesis
  proof (cases "v < 2 ^ 32")
    case True
    then have "unat (of_nat v :: u32) = v" by (simp add: unat_of_nat take_bit_nat_eq_self)
    with True v s' show thesis by (intro small [of "of_nat v"]) simp_all
  next
    case False
    with v(1) have "v = 2 ^ 32" by simp
    with v s' show thesis by (intro big) simp_all
  qed
next
  case False
  with Unsigned_no_code [OF assms(1) _ assms(2)] none show thesis by blast
qed

lemma zero_not_big: "(0 :: u32) \<noteq> BIG_CODE_NUM"
  by (simp add: BIG_CODE_NUM_def)

interpretation ue: prefix_code "\<lambda>v :: u32. ue_code (unat v)"
  "\<lambda>s. accepted (h264bsdDecodeExpGolombUnsigned s 0)" "\<lambda>_. True"
proof unfold_locales
  fix s bs and v :: u32 assume *: "strm_ok s" "True" "rest s = ue_code (unat v) @ bs"
  have "unat v < 2 ^ 32" by (rule u32_less)
  with Unsigned_code [OF *(1,3), of 0]
  show "\<exists>s'. accepted (h264bsdDecodeExpGolombUnsigned s 0) = Some (v, s') \<and> strm_ok s' \<and> rest s' = bs"
    by auto
next
  fix s s' and v :: u32 assume *: "strm_ok s" "accepted (h264bsdDecodeExpGolombUnsigned s 0) = Some (v, s')"
  from *(1) zero_not_big show "True \<and> strm_ok s' \<and> rest s = ue_code (unat v) @ rest s'"
    by (cases rule: Unsigned_cases) (use *(2) in auto)
qed

definition se_num :: "int \<Rightarrow> nat" where
  "se_num k = nat (if 0 < k then 2 * k - 1 else - 2 * k)"

lemma signed_value:
  fixes v :: u32
  assumes "v \<noteq> BIG_CODE_NUM"
  shows "(if v AND 1 \<noteq> 0 then sint (drop_bit 1 (v + 1)) else - sint (drop_bit 1 (v + 1)))
    = (if odd (unat v) then int ((unat v + 1) div 2) else - int (unat v div 2))"
proof -
  have "unat v \<noteq> 2 ^ 32 - 1" using assms by (auto simp: BIG_CODE_NUM_def word_unat_eq_iff)
  moreover have "unat v < 2 ^ 32" by (rule u32_less)
  ultimately have lt: "unat v + 1 < 2 ^ 32" by simp
  then have "unat (v + 1) = unat v + 1" using unat_add_lem [of v 1] by simp
  then have half: "unat (drop_bit 1 (v + 1)) = (unat v + 1) div 2"
    by (simp add: drop_bit_eq_div unat_div_distrib)
  also have "\<dots> < 2 ^ 31" using lt by simp
  finally have "sint (drop_bit 1 (v + 1)) = int ((unat v + 1) div 2)"
    using half by (subst sint_small) simp_all
  moreover have "v AND 1 \<noteq> 0 \<longleftrightarrow> odd (unat v)"
  proof -
    have "odd (unat v) \<longleftrightarrow> bit v 0" unfolding bit_0 [symmetric] by (simp only: bit_unsigned_iff possible_bit_0) simp
    then show ?thesis using and_exp_eq_0_iff_not_bit [of v 0] by simp
  qed
  ultimately show ?thesis by simp
qed

lemma se_num_odd: "se_num (if odd n then int ((n + 1) div 2) else - int (n div 2)) = n"
  by (auto simp: se_num_def elim!: oddE evenE)

lemma se_num_inverse:
  "(if odd (se_num k) then int ((se_num k + 1) div 2) else - int (se_num k div 2)) = k"
proof (cases "0 < k")
  case True
  then obtain m where "k = int (Suc m)" by (metis zero_less_imp_eq_int gr0_implies_Suc)
  then have "se_num k = 2 * m + 1" by (simp add: se_num_def)
  with \<open>k = int (Suc m)\<close> show ?thesis by simp
next
  case False
  then obtain m where "k = - int m" by (metis int_nat_eq minus_minus not_less neg_0_le_iff_le)
  then have "se_num k = 2 * m" by (simp add: se_num_def)
  with \<open>k = - int m\<close> show ?thesis by simp
qed

definition i32_range :: "int \<Rightarrow> bool" where
  "i32_range k \<longleftrightarrow> - (2 ^ 31) \<le> k \<and> k < 2 ^ 31"

lemma se_num_range:
  assumes "i32_range k"
  shows "se_num k \<le> 2 ^ 32" "se_num k \<noteq> 2 ^ 32 - 1" "se_num k = 2 ^ 32 \<longleftrightarrow> k = - (2 ^ 31)"
proof -
  have k: "- (2 ^ 31) \<le> k" "k < 2 ^ 31" using assms by (simp_all add: i32_range_def)
  then show "se_num k \<le> 2 ^ 32" "se_num k = 2 ^ 32 \<longleftrightarrow> k = - (2 ^ 31)"
    by (auto simp: se_num_def)
  show "se_num k \<noteq> 2 ^ 32 - 1"
  proof (cases "0 < k")
    case True
    then have "int (se_num k) = 2 * k - 1" by (simp add: se_num_def)
    with k show ?thesis by auto
  next
    case False
    then have "int (se_num k) = - 2 * k" by (simp add: se_num_def)
    then have "even (int (se_num k))" by simp
    then have "even (se_num k)" by simp
    then show ?thesis by auto
  qed
qed

interpretation se: prefix_code "\<lambda>k. ue_code (se_num k)"
  "\<lambda>s. accepted (h264bsdDecodeExpGolombSigned s 0)" i32_range
proof unfold_locales
  fix s k bs assume *: "strm_ok s" "i32_range k" "rest s = ue_code (se_num k) @ bs"
  note range = se_num_range [OF *(2)]
  from Unsigned_code [OF *(1,3) range(1), of 0] obtain s' where
    s': "h264bsdDecodeExpGolombUnsigned s 0
      = Some (if se_num k < 2 ^ 32 then (HANTRO_OK, of_nat (se_num k), s') else (HANTRO_NOK, BIG_CODE_NUM, s'))"
    "strm_ok s'" "rest s' = bs" by blast
  have "h264bsdDecodeExpGolombSigned s 0 = Some (HANTRO_OK, k, s')"
  proof (cases "se_num k < 2 ^ 32")
    case True
    then have un: "unat (of_nat (se_num k) :: u32) = se_num k"
      by (simp add: unat_of_nat take_bit_nat_eq_self)
    then have nb: "(of_nat (se_num k) :: u32) \<noteq> BIG_CODE_NUM"
      using range(2) by (auto simp: BIG_CODE_NUM_def)
    have "(if (of_nat (se_num k) :: u32) AND 1 \<noteq> 0 then sint (drop_bit 1 (of_nat (se_num k) + 1 :: u32))
        else - sint (drop_bit 1 (of_nat (se_num k) + 1 :: u32))) = k"
      using signed_value [OF nb] se_num_inverse [of k] unfolding un by simp
    with s'(1) True nb show ?thesis
      by (simp only: h264bsdDecodeExpGolombSigned_def bind.bind_lunit if_True if_False prod.case simp_thms)
  next
    case False
    with range have "k = - (2 ^ 31)" by simp
    with s'(1) False show ?thesis by (simp add: h264bsdDecodeExpGolombSigned_def)
  qed
  with s' show "\<exists>s'. accepted (h264bsdDecodeExpGolombSigned s 0) = Some (k, s') \<and> strm_ok s' \<and> rest s' = bs"
    by auto
next
  fix s k s' assume *: "strm_ok s" "accepted (h264bsdDecodeExpGolombSigned s 0) = Some (k, s')"
  from *(1) zero_not_big show "i32_range k \<and> strm_ok s' \<and> rest s = ue_code (se_num k) @ rest s'"
  proof (cases rule: Unsigned_cases)
    case (small v bs t)
    with *(2) have nb: "v \<noteq> BIG_CODE_NUM" by (auto simp: h264bsdDecodeExpGolombSigned_def)
    with small *(2) signed_value [OF nb] have
      k: "k = (if odd (unat v) then int ((unat v + 1) div 2) else - int (unat v div 2))" and t: "s' = t"
      by (auto simp: h264bsdDecodeExpGolombSigned_def)
    have "se_num k = unat v" using se_num_odd [of "unat v"] k by simp
    moreover have "unat v \<noteq> 2 ^ 32 - 1" using nb by (auto simp: BIG_CODE_NUM_def word_unat_eq_iff)
    with u32_less [of v] have "unat v + 1 < 2 ^ 32" by simp
    then have "unat v div 2 < 2 ^ 31" "(unat v + 1) div 2 < 2 ^ 31" by simp_all
    then have "i32_range k" unfolding k i32_range_def by (auto split: if_splits)
    ultimately show ?thesis using small t by simp
  next
    case (big bs t)
    with *(2) have "k = - (2 ^ 31)" "s' = t" by (auto simp: h264bsdDecodeExpGolombSigned_def)
    with big show ?thesis by (simp add: se_num_def i32_range_def)
  next
    case (none c t)
    with *(2) show ?thesis by (auto simp: h264bsdDecodeExpGolombSigned_def)
  qed
qed

section \<open>Truncated and mapped codes\<close>

lemma Truncated_one_bit:
  assumes "strm_ok s"
  shows "accepted (h264bsdDecodeExpGolombTruncated s c False) = (case rest s of
      [] \<Rightarrow> None
    | b # bs \<Rightarrow> Some (of_bool (\<not> b), snd (h264bsdFlushBits s 1)))"
    and "b # bs = rest s \<Longrightarrow> strm_ok (snd (h264bsdFlushBits s 1)) \<and> rest (snd (h264bsdFlushBits s 1)) = bs"
proof -
  have no: "(of_bool b :: u32) \<noteq> END_OF_STREAM" for b by (simp add: END_OF_STREAM_def)
  have get: "h264bsdGetBits s 1 = Some (v, s') \<Longrightarrow> s' = snd (h264bsdFlushBits s 1)" for v s'
    by (cases "h264bsdFlushBits s 1") (auto simp: h264bsdGetBits_def bind_eq_Some_conv)
  show "accepted (h264bsdDecodeExpGolombTruncated s c False) = (case rest s of
      [] \<Rightarrow> None
    | b # bs \<Rightarrow> Some (of_bool (\<not> b), snd (h264bsdFlushBits s 1)))"
  proof (cases "rest s")
    case Nil
    then obtain s' where "h264bsdGetBits s 1 = Some (END_OF_STREAM, s')"
      using GetBits_end [OF assms, of 1] by auto
    with Nil show ?thesis by (simp add: h264bsdDecodeExpGolombTruncated_def)
  next
    case (Cons b bs)
    then obtain s' where s': "h264bsdGetBits s 1 = Some (of_bool b, s')"
      using GetBits_ok [OF assms, of 1] by (auto simp: bits_val_Cons)
    with Cons no [of b] get [OF s'] show ?thesis
      by (cases b) (auto simp: h264bsdDecodeExpGolombTruncated_def)
  qed
  show "strm_ok (snd (h264bsdFlushBits s 1)) \<and> rest (snd (h264bsdFlushBits s 1)) = bs" if "b # bs = rest s"
    using FlushBits_step [OF assms, of 1] by (auto simp: that [symmetric])
qed

interpretation te: prefix_code "\<lambda>v :: u32. [v = 0]"
  "\<lambda>s. accepted (h264bsdDecodeExpGolombTruncated s 0 False)" "\<lambda>v. v \<le> 1"
proof unfold_locales
  fix s bs and v :: u32 assume *: "strm_ok s" "v \<le> 1" "rest s = [v = 0] @ bs"
  have "unat v = 0 \<or> unat v = 1" using *(2) by (auto simp: word_le_nat_alt)
  then have "v = of_bool (v \<noteq> 0)" by (auto simp: word_unat_eq_iff)
  with * Truncated_one_bit(1) [OF *(1), of 0] Truncated_one_bit(2) [OF *(1), of "v = 0" bs]
  show "\<exists>s'. accepted (h264bsdDecodeExpGolombTruncated s 0 False) = Some (v, s') \<and> strm_ok s' \<and> rest s' = bs"
    by auto
next
  fix s s' and v :: u32
  assume *: "strm_ok s" "accepted (h264bsdDecodeExpGolombTruncated s 0 False) = Some (v, s')"
  then obtain b bs where b: "rest s = b # bs" "v = of_bool (\<not> b)" "s' = snd (h264bsdFlushBits s 1)"
    using Truncated_one_bit(1) [OF *(1), of 0] by (auto split: list.splits)
  with Truncated_one_bit(2) [OF *(1), of b bs] show "v \<le> 1 \<and> strm_ok s' \<and> rest s = [v = 0] @ rest s'"
    by auto
qed

definition code_index :: "bytes \<Rightarrow> u32 \<Rightarrow> nat" where
  "code_index tbl v = length (takeWhile (\<lambda>b. ucast b \<noteq> v) tbl)"

lemma pattern_tables:
  "sort (map unat codedBlockPatternIntra4x4) = [0..<48]" "sort (map unat codedBlockPatternInter) = [0..<48]"
  by (simp_all add: codedBlockPatternIntra4x4_def codedBlockPatternInter_def upt_rec)

lemma pattern_index:
  assumes "sort (map unat tbl) = [0..<48]"
  shows "length tbl = 48" "i < 48 \<Longrightarrow> code_index tbl (ucast (tbl ! i)) = i"
    "v < 48 \<Longrightarrow> code_index tbl v < 48 \<and> ucast (tbl ! code_index tbl v) = v"
    "i < 48 \<Longrightarrow> (ucast (tbl ! i) :: u32) < 48"
proof -
  show len: "length tbl = 48" using arg_cong [OF assms, of length] by simp
  have set: "unat ` set tbl = {0..<48}" using arg_cong [OF assms, of set] by simp
  have dist: "distinct (map unat tbl)" using arg_cong [OF assms, of distinct] by simp
  have uc: "unat (ucast b :: u32) = unat b" for b :: byte
    by (simp add: unsigned_ucast_eq take_bit_nat_eq_self order_less_le_trans [OF unsigned_less])
  then have inj: "(ucast a :: u32) = ucast b \<longleftrightarrow> a = b" for a b :: byte
    by (metis word_unat_eq_iff)
  show "code_index tbl (ucast (tbl ! i)) = i" if "i < 48"
  proof -
    have "distinct tbl" using dist by (simp add: distinct_map)
    then have "takeWhile (\<lambda>b. b \<noteq> tbl ! i) tbl = take i tbl"
      using that len by (intro takeWhile_eq_take_P_nth) (auto simp: nth_eq_iff_index_eq)
    with that len show ?thesis by (simp add: code_index_def inj)
  qed
  show "code_index tbl v < 48 \<and> ucast (tbl ! code_index tbl v) = v" if "v < 48"
  proof -
    have "unat v \<in> unat ` set tbl" unfolding set using that by (simp add: word_less_nat_alt)
    then obtain b where "b \<in> set tbl" "unat b = unat v" by auto
    then have ex: "b \<in> set tbl" "\<not> ucast b \<noteq> v" using uc [of b] by (simp_all add: word_unat_eq_iff)
    then have "length (takeWhile (\<lambda>b. ucast b \<noteq> v) tbl) < length tbl"
    proof -
      have "dropWhile (\<lambda>b. ucast b \<noteq> v) tbl \<noteq> []" using ex by (auto simp: dropWhile_eq_Nil_conv)
      then have "0 < length (dropWhile (\<lambda>b. ucast b \<noteq> v) tbl)" by simp
      moreover have "length (takeWhile (\<lambda>b. ucast b \<noteq> v) tbl) + length (dropWhile (\<lambda>b. ucast b \<noteq> v) tbl)
          = length tbl"
        by (metis length_append takeWhile_dropWhile_id)
      ultimately show ?thesis by linarith
    qed
    then show ?thesis
      using nth_length_takeWhile [of "\<lambda>b. ucast b \<noteq> v" tbl] len by (simp add: code_index_def)
  qed
  show "(ucast (tbl ! i) :: u32) < 48" if "i < 48"
  proof -
    have "unat (tbl ! i) \<in> unat ` set tbl" using that len by simp
    then show ?thesis unfolding set using uc [of "tbl ! i"] by (simp add: word_less_nat_alt)
  qed
qed

lemma Mapped_result:
  assumes "strm_ok s"
  shows "accepted (h264bsdDecodeExpGolombMapped s c intra) = Some (v, s')
     \<longleftrightarrow> (\<exists>n. accepted (h264bsdDecodeExpGolombUnsigned s 0) = Some (n, s') \<and> n < 48
            \<and> v = ucast ((if intra then codedBlockPatternIntra4x4 else codedBlockPatternInter) ! unat n))"
    and "h264bsdDecodeExpGolombMapped s c intra \<noteq> None"
proof -
  have len: "length codedBlockPatternIntra4x4 = 48" "length codedBlockPatternInter = 48"
    by (simp_all add: codedBlockPatternIntra4x4_def codedBlockPatternInter_def)
  have le: "47 < n \<longleftrightarrow> \<not> unat n < 48" "n < 48 \<longleftrightarrow> unat n < 48" for n :: u32
    by (auto simp: word_less_nat_alt)
  from assms(1) zero_not_big
  show "accepted (h264bsdDecodeExpGolombMapped s c intra) = Some (v, s')
     \<longleftrightarrow> (\<exists>n. accepted (h264bsdDecodeExpGolombUnsigned s 0) = Some (n, s') \<and> n < 48
            \<and> v = ucast ((if intra then codedBlockPatternIntra4x4 else codedBlockPatternInter) ! unat n))"
    by (cases rule: Unsigned_cases)
      (auto simp: h264bsdDecodeExpGolombMapped_def le len rd_def split: if_splits)
  from assms(1) zero_not_big show "h264bsdDecodeExpGolombMapped s c intra \<noteq> None"
    by (cases rule: Unsigned_cases) (auto simp: h264bsdDecodeExpGolombMapped_def le len rd_def)
qed

lemma mapped_code:
  assumes "sort (map unat tbl) = [0..<48]"
    and "\<And>s c v s'. strm_ok s \<Longrightarrow> dec s = Some (v, s') \<longleftrightarrow>
        (\<exists>n. accepted (h264bsdDecodeExpGolombUnsigned s 0) = Some (n, s') \<and> n < 48
            \<and> v = ucast (tbl ! unat n))"
  shows "prefix_code (\<lambda>v. ue_code (code_index tbl v)) dec (\<lambda>v. v < 48)"
proof
  fix s v bs assume *: "strm_ok s" "v < 48" "rest s = ue_code (code_index tbl v) @ bs"
  note idx = pattern_index(3) [OF assms(1) *(2)]
  then have un: "unat (of_nat (code_index tbl v) :: u32) = code_index tbl v"
    by (simp add: unat_of_nat take_bit_nat_eq_self)
  obtain s' where s': "accepted (h264bsdDecodeExpGolombUnsigned s 0) = Some (of_nat (code_index tbl v), s')"
    "strm_ok s'" "rest s' = bs"
    using ue.dec_enc [OF *(1), of "of_nat (code_index tbl v)" bs] *(3) un by auto
  have "(of_nat (code_index tbl v) :: u32) < 48" using idx un by (simp add: word_less_nat_alt)
  moreover have "v = ucast (tbl ! unat (of_nat (code_index tbl v) :: u32))" using idx un by simp
  ultimately have "dec s = Some (v, s')" unfolding assms(2) [OF *(1)] using s'(1) by blast
  with s' show "\<exists>s'. dec s = Some (v, s') \<and> strm_ok s' \<and> rest s' = bs" by blast
next
  fix s v s' assume *: "strm_ok s" "dec s = Some (v, s')"
  then obtain n where n: "accepted (h264bsdDecodeExpGolombUnsigned s 0) = Some (n, s')" "n < 48"
    "v = ucast (tbl ! unat n)"
    using assms(2) [OF *(1)] by auto
  then have "unat n < 48" by (simp add: word_less_nat_alt)
  with n ue.dec_sound [OF *(1) n(1)] pattern_index(2,4) [OF assms(1), of "unat n"]
  show "v < 48 \<and> strm_ok s' \<and> rest s = ue_code (code_index tbl v) @ rest s'" by simp
qed

interpretation intra: prefix_code "\<lambda>v. ue_code (code_index codedBlockPatternIntra4x4 v)"
  "\<lambda>s. accepted (h264bsdDecodeExpGolombMapped s 0 True)" "\<lambda>v. v < 48"
  by (rule mapped_code) (simp_all add: pattern_tables Mapped_result)

interpretation inter: prefix_code "\<lambda>v. ue_code (code_index codedBlockPatternInter v)"
  "\<lambda>s. accepted (h264bsdDecodeExpGolombMapped s 0 False)" "\<lambda>v. v < 48"
  by (rule mapped_code) (simp_all add: pattern_tables Mapped_result)

section \<open>The end of a payload\<close>

definition trailing_bits :: "nat \<Rightarrow> bool list" where
  "trailing_bits n = True # replicate (n - 1) False"

lemma length_trailing [simp]: "0 < n \<Longrightarrow> length (trailing_bits n) = n"
  by (simp add: trailing_bits_def)

lemma bits_val_inj: "length xs = length ys \<Longrightarrow> bits_val xs = bits_val ys \<longleftrightarrow> xs = ys"
  by (metis nat_bits_bits_val)

lemma bits_val_trailing: "0 < n \<Longrightarrow> bits_val (trailing_bits n) = 2 ^ (n - 1)"
  by (simp add: trailing_bits_def bits_val_Cons)

lemma shown_trailing:
  assumes "0 < n" "n \<le> 8" "length bs = n"
  shows "(of_nat (bits_val bs) :: u32) = push_bit (n - 1) 1 \<longleftrightarrow> bs = trailing_bits n"
proof -
  have u: "unat (of_nat (bits_val xs) :: u32) = bits_val xs" if "length xs = n" for xs
    using that assms(2) by (intro unat_bits_val) simp
  have "(push_bit (n - 1) 1 :: u32) = of_nat (bits_val (trailing_bits n))"
    using assms(1) by (simp add: bits_val_trailing)
  then show ?thesis
    using u [of bs] u [of "trailing_bits n"] bits_val_inj [of bs "trailing_bits n"] assms
    by (metis length_trailing)
qed

lemma stuffing_entry: "n < 8 \<Longrightarrow> rd stuffingTable n = Some (push_bit n 1)"
proof -
  assume "n < 8"
  then have "n = 0 \<or> n = 1 \<or> n = 2 \<or> n = 3 \<or> n = 4 \<or> n = 5 \<or> n = 6 \<or> n = 7" by linarith
  then show ?thesis by (auto simp: stuffingTable_def rd_def numeral_2_eq_2 numeral_3_eq_3)
qed

lemma RbspTrailingBits_spec:
  assumes "strm_ok s"
  defines "n \<equiv> 8 - unat (bitPosInWord s)"
  shows "\<exists>s'. h264bsdRbspTrailingBits s = Some (if take n (rest s) = trailing_bits n then HANTRO_OK else HANTRO_NOK, s')
    \<and> (n \<le> length (rest s) \<longrightarrow> strm_ok s' \<and> rest s' = drop n (rest s))"
proof -
  have pos: "unat (bitPosInWord s) < 8" using assms(1) by (simp add: strm_ok_def)
  then have n: "0 < n" "n \<le> 8" "8 - bitPosInWord s = of_nat n"
    by (simp_all add: n_def of_nat_diff)
  have n1: "unat (8 - bitPosInWord s - 1) = n - 1"
  proof -
    have eq: "(8 :: u32) - bitPosInWord s - 1 = of_nat (n - 1)" using n by (simp add: of_nat_diff)
    have "n - 1 < 2 ^ 32" using n by simp
    then show ?thesis unfolding eq by (simp add: unat_of_nat take_bit_nat_eq_self)
  qed
  show ?thesis
  proof (cases "n \<le> length (rest s)")
    case True
    then obtain s' where s': "h264bsdGetBits s (of_nat n) = Some (of_nat (bits_val (take n (rest s))), s')"
      "strm_ok s'" "rest s' = drop n (rest s)"
      using GetBits_ok [OF assms(1), of n] n by auto
    have "bits_val (take n (rest s)) < 2 ^ 8"
      using bits_val_less [of "take n (rest s)"] True n power_increasing [of n 8 "2 :: nat"] by simp
    moreover have "unat (of_nat (bits_val (take n (rest s))) :: u32) = bits_val (take n (rest s))"
      using n by (intro unat_bits_val) simp
    ultimately have "(of_nat (bits_val (take n (rest s))) :: u32) \<noteq> END_OF_STREAM"
      by (auto simp: END_OF_STREAM_def)
    then show ?thesis
      using s' True n n1 stuffing_entry [of "n - 1"] shown_trailing [OF n(1,2), of "take n (rest s)"]
      by (simp add: h264bsdRbspTrailingBits_def)
  next
    case False
    then obtain s' where s': "h264bsdGetBits s (of_nat n) = Some (END_OF_STREAM, s')"
      using GetBits_end [OF assms(1), of n] n by auto
    have "take n (rest s) \<noteq> trailing_bits n"
    proof
      assume "take n (rest s) = trailing_bits n"
      from arg_cong [OF this, of length] show False using False n(1) by simp
    qed
    with s' False n show ?thesis by (simp add: h264bsdRbspTrailingBits_def)
  qed
qed

lemma MoreRbspData_spec:
  assumes "strm_ok s"
  shows "h264bsdMoreRbspData s = Some (\<not> (rest s = [] \<or> length (rest s) \<le> 8 \<and> rest s = trailing_bits (length (rest s))))"
proof -
  define n where "n = length (rest s)"
  have le: "n \<le> 8 * unat (strmBuffSize s)" "unat (strmBuffSize s) \<le> 2 ^ 27"
    using ok_left(2) [OF assms] assms by (simp_all add: n_def strm_ok_def in_window_def)
  have small: "n < 2 ^ 32" using le by simp
  have "int n = int (8 * unat (strmBuffSize s)) - int (unat (strmBuffReadBits s))"
    using ok_left(2) [OF assms] unfolding n_def by linarith
  then have "of_int (int n) = (of_int (int (8 * unat (strmBuffSize s)) - int (unat (strmBuffReadBits s))) :: u32)"
    by simp
  then have bits: "strmBuffSize s * 8 - strmBuffReadBits s = of_nat n"
    by (simp add: mult.commute)
  have un: "unat (of_nat n :: u32) = n" using small by (simp add: unat_of_nat take_bit_nat_eq_self)
  show ?thesis
  proof (cases "n = 0 \<or> 8 < n")
    case True
    have "(of_nat n :: u32) = 0 \<longleftrightarrow> n = 0" "(8 :: u32) < of_nat n \<longleftrightarrow> 8 < n"
      using un by (auto simp: word_less_nat_alt word_unat_eq_iff)
    with True have "h264bsdMoreRbspData s = Some (n \<noteq> 0)"
      unfolding h264bsdMoreRbspData_def Let_def bits by (simp only:) auto
    with True show ?thesis by (auto simp: n_def)
  next
    case False
    then have n: "0 < n" "n \<le> 8" by simp_all
    have n1: "unat (of_nat n - 1 :: u32) = n - 1"
    proof -
      have eq: "(of_nat n :: u32) - 1 = of_nat (n - 1)" using n by (simp add: of_nat_diff)
      have "n - 1 < 2 ^ 32" using n by simp
      then show ?thesis unfolding eq by (simp add: unat_of_nat take_bit_nat_eq_self)
    qed
    have nz: "(of_nat n :: u32) \<noteq> 0" "\<not> (8 :: u32) < of_nat n"
      using un n by (auto simp: word_less_nat_alt)
    have "shr32 (of_nat (bits_val (padded (rest s)))) (32 - of_nat n) = Some (of_nat (bits_val (rest s)))"
    proof -
      have "1 \<le> n" "n \<le> 32" using n by simp_all
      from shr_bits_val [OF length_padded this] take_padded [OF this(2)] show ?thesis
        by (simp add: n_def)
    qed
    moreover have "rest s \<noteq> []" using n by (auto simp: n_def)
    ultimately show ?thesis
      using bits nz ShowBits32_val [OF assms] n n1 shown_trailing [OF n, of "rest s"]
      unfolding h264bsdMoreRbspData_def Let_def bits by (auto simp: n_def [symmetric])
  qed
qed

end
