(* ===== verification/H264Nal.thy ===== *)
theory H264Nal
  imports H264Stream
begin

text \<open>
  NAL units: finding one in a byte stream (\<open>h264bsd_byte_stream.c\<close>: start codes, removal of
  emulation prevention bytes in place) and its header (\<open>h264bsd_nal_unit.c\<close>).

  The byte array \<open>pByteStream\<close> is the list \<open>mem\<close>; \<open>readPtr\<close> and \<open>writePtr\<close> are indices into
  it. A read or write outside it is \<open>None\<close>.
\<close>

section \<open>Finding the NAL unit\<close>

text \<open>The scan for the first start code. \<open>Some None\<close> stands for the end of the buffer.\<close>

function FindStartCode :: "bytes \<Rightarrow> u32 \<Rightarrow> nat \<Rightarrow> u32 \<Rightarrow> u32 \<Rightarrow> (nat \<times> u32) option option" where
  "FindStartCode mem len readPtr byteCount zeroCount =
     (case rd mem readPtr of
        None \<Rightarrow> None
      | Some b \<Rightarrow>
          if byteCount + 1 = len then Some None
          else if b = 0 then FindStartCode mem len (Suc readPtr) (byteCount + 1) (zeroCount + 1)
          else if b = 0x01 \<and> zeroCount \<ge> 2 then Some (Some (Suc readPtr, byteCount + 1))
          else FindStartCode mem len (Suc readPtr) (byteCount + 1) 0)"
  by pat_completeness auto
termination by (relation "measure (\<lambda>(mem, len, p, bc, zc). length mem - p)") (auto simp: rd_def split: if_splits)

declare FindStartCode.simps [simp del]

record nalScan =
  scanSize :: u32
  scanZeros :: u32
  scanEmulation :: bool
  scanInvalid :: bool

text \<open>The scan for the end of the NAL unit: the next start code or the end of the buffer.\<close>

function FindNalEnd :: "bytes \<Rightarrow> u32 \<Rightarrow> u32 \<Rightarrow> nat \<Rightarrow> u32 \<Rightarrow> u32 \<Rightarrow> bool \<Rightarrow> bool \<Rightarrow> nalScan option" where
  "FindNalEnd mem len initByteCount readPtr byteCount zeroCount hasEmulation invalidStream =
     (case rd mem readPtr of
        None \<Rightarrow> None
      | Some b \<Rightarrow>
          let byteCount = byteCount + 1;
              zeroCount = (if b = 0 then zeroCount + 1 else zeroCount);
              hasEmulation = (hasEmulation \<or> b = 0x03 \<and> zeroCount = 2)
          in if b = 0x01 \<and> zeroCount \<ge> 2
             then Some \<lparr>scanSize = byteCount - initByteCount - zeroCount - 1,
                        scanZeros = zeroCount - min zeroCount 3,
                        scanEmulation = hasEmulation, scanInvalid = invalidStream\<rparr>
             else
               let invalidStream = (invalidStream \<or> b \<noteq> 0 \<and> zeroCount \<ge> 3);
                   zeroCount = (if b \<noteq> 0 then 0 else zeroCount)
               in if byteCount = len
                  then Some \<lparr>scanSize = byteCount - initByteCount - zeroCount,
                             scanZeros = zeroCount, scanEmulation = hasEmulation,
                             scanInvalid = invalidStream\<rparr>
                  else FindNalEnd mem len initByteCount (Suc readPtr) byteCount zeroCount
                         hasEmulation invalidStream)"
  by pat_completeness auto
termination by (relation "measure (\<lambda>(mem, len, init, p, bc, zc, he, inv). length mem - p)")
  (auto simp: rd_def split: if_splits)

declare FindNalEnd.simps [simp del]

section \<open>Removing emulation prevention bytes\<close>

text \<open>The loop \<open>for (i = tmp; i--;)\<close>: \<open>Suc i\<close> rounds are left, \<open>i\<close> is the counter in the body.\<close>

fun RemoveEmulation :: "nat \<Rightarrow> bytes \<Rightarrow> nat \<Rightarrow> nat \<Rightarrow> u32 \<Rightarrow> (u32 \<times> bytes \<times> nat \<times> nat) option" where
  "RemoveEmulation 0 mem readPtr writePtr zeroCount = Some (HANTRO_OK, mem, readPtr, writePtr)"
| "RemoveEmulation (Suc i) mem readPtr writePtr zeroCount =
     do {
       b \<leftarrow> rd mem readPtr;
       if zeroCount = 2 \<and> b = 0x03
       then if i = 0 then Some (HANTRO_NOK, mem, readPtr, writePtr)
            else do {
              following \<leftarrow> rd mem (Suc readPtr);
              if following > 0x03 then Some (HANTRO_NOK, mem, readPtr, writePtr)
              else RemoveEmulation i mem (Suc readPtr) writePtr 0
            }
       else if zeroCount = 2 \<and> b \<le> 0x02 then Some (HANTRO_NOK, mem, readPtr, writePtr)
       else if writePtr < length mem
            then RemoveEmulation i (mem[writePtr := b]) (Suc readPtr) (Suc writePtr)
                   (if b = 0 then zeroCount + 1 else 0)
            else None
     }"

record nalExtract =
  exStatus :: u32
  exStream :: strmData
  exReadBytes :: u32

definition h264bsdExtractNalUnit :: "bytes \<Rightarrow> u32 \<Rightarrow> strmData \<Rightarrow> nalExtract option" where
  "h264bsdExtractNalUnit mem len strm =
     do {
       annexB \<leftarrow> (if len > 3
                  then do {
                    b0 \<leftarrow> rd mem 0;
                    b1 \<leftarrow> rd mem 1;
                    b2 \<leftarrow> rd mem 2;
                    Some (b0 = 0 \<and> b1 = 0 \<and> b2 AND 0xFE = 0)
                  }
                  else Some False);
       start \<leftarrow> (if annexB then FindStartCode mem len 2 2 2 else Some (Some (0, 0)));
       case start of
         None \<Rightarrow> Some \<lparr>exStatus = HANTRO_NOK, exStream = strm\<lparr>strmMem := mem\<rparr>, exReadBytes = len\<rparr>
       | Some (readPtr, initByteCount) \<Rightarrow> do {
           scan \<leftarrow> (if annexB
                    then FindNalEnd mem len initByteCount readPtr initByteCount 0 False False
                    else Some \<lparr>scanSize = len, scanZeros = 0, scanEmulation = True, scanInvalid = False\<rparr>);
           let strm = \<lparr>strmMem = mem, pStrmBuffStart = unat initByteCount,
                       pStrmCurrPos = unat initByteCount, bitPosInWord = 0,
                       strmBuffSize = scanSize scan, strmBuffReadBits = 0\<rparr>;
           let readBytes = scanSize scan + initByteCount + scanZeros scan;
           if scanInvalid scan
           then Some \<lparr>exStatus = HANTRO_NOK, exStream = strm, exReadBytes = readBytes\<rparr>
           else if scanEmulation scan
           then do {
             (status, mem, readPtr, writePtr) \<leftarrow>
               RemoveEmulation (unat (scanSize scan)) mem (unat initByteCount) (unat initByteCount) 0;
             Some (if status = HANTRO_OK
                   then \<lparr>exStatus = HANTRO_OK,
                         exStream = strm\<lparr>strmMem := mem,
                           strmBuffSize := scanSize scan - of_nat (readPtr - writePtr)\<rparr>,
                         exReadBytes = readBytes\<rparr>
                   else \<lparr>exStatus = HANTRO_NOK, exStream = strm\<lparr>strmMem := mem\<rparr>,
                         exReadBytes = readBytes\<rparr>)
           }
           else Some \<lparr>exStatus = HANTRO_OK, exStream = strm, exReadBytes = readBytes\<rparr>
         }
     }"

section \<open>The header of a NAL unit\<close>

definition NAL_CODED_SLICE_IDR :: u32 where "NAL_CODED_SLICE_IDR = 5"
definition NAL_SEI :: u32 where "NAL_SEI = 6"
definition NAL_SEQ_PARAM_SET :: u32 where "NAL_SEQ_PARAM_SET = 7"
definition NAL_PIC_PARAM_SET :: u32 where "NAL_PIC_PARAM_SET = 8"
definition NAL_ACCESS_UNIT_DELIMITER :: u32 where "NAL_ACCESS_UNIT_DELIMITER = 9"
definition NAL_END_OF_SEQUENCE :: u32 where "NAL_END_OF_SEQUENCE = 10"
definition NAL_END_OF_STREAM :: u32 where "NAL_END_OF_STREAM = 11"
definition NAL_FILLER_DATA :: u32 where "NAL_FILLER_DATA = 12"

record nalUnit =
  nalUnitType :: u32
  nalRefIdc :: u32

definition IS_IDR_NAL_UNIT :: "nalUnit \<Rightarrow> bool" where
  "IS_IDR_NAL_UNIT nal \<longleftrightarrow> nalUnitType nal = NAL_CODED_SLICE_IDR"

definition h264bsdDecodeNalUnit :: "strmData \<Rightarrow> nalUnit \<Rightarrow> (u32 \<times> nalUnit \<times> strmData) option" where
  "h264bsdDecodeNalUnit s nal =
     do {
       (tmp, s) \<leftarrow> h264bsdGetBits s 1;
       if tmp = END_OF_STREAM then Some (HANTRO_NOK, nal, s)
       else do {
         (tmp, s) \<leftarrow> h264bsdGetBits s 2;
         let nal = nal\<lparr>nalRefIdc := tmp\<rparr>;
         (tmp, s) \<leftarrow> h264bsdGetBits s 5;
         let nal = nal\<lparr>nalUnitType := tmp\<rparr>;
         Some (if tmp = 2 \<or> tmp = 3 \<or> tmp = 4 then (HANTRO_NOK, nal, s)
               else if (tmp = NAL_SEQ_PARAM_SET \<or> tmp = NAL_PIC_PARAM_SET \<or> tmp = NAL_CODED_SLICE_IDR)
                       \<and> nalRefIdc nal = 0
               then (HANTRO_NOK, nal, s)
               else if (tmp = NAL_SEI \<or> tmp = NAL_ACCESS_UNIT_DELIMITER \<or> tmp = NAL_END_OF_SEQUENCE
                        \<or> tmp = NAL_END_OF_STREAM \<or> tmp = NAL_FILLER_DATA) \<and> nalRefIdc nal \<noteq> 0
               then (HANTRO_NOK, nal, s)
               else (HANTRO_OK, nal, s))
       }
     }"

end
