(* ===== verification/H264NalFacts.thy ===== *)
theory H264NalFacts
  imports H264Nal H264CodeLaws
begin

text \<open>
  Extracting NAL units: the removal of emulation prevention bytes accepts exactly the escaped
  payloads and restores them, the scans find the unit between its start codes, and no input
  makes them leave the buffer.
\<close>

section \<open>Emulation prevention\<close>

text \<open>The reference encoder: three bytes \<open>00 00 0x\<close> with \<open>x \<le> 3\<close> get a \<open>03\<close> in between.
  \<open>zc\<close> counts the zeros just written.\<close>

fun escape :: "nat \<Rightarrow> bytes \<Rightarrow> bytes" where
  "escape zc [] = []"
| "escape zc (b # bs) =
     (if zc = 2 \<and> b \<le> 3 then 3 # b # escape (if b = 0 then 1 else 0) bs
      else b # escape (if b = 0 then zc + 1 else 0) bs)"

fun strip :: "nat \<Rightarrow> bytes \<Rightarrow> bytes option" where
  "strip zc [] = Some []"
| "strip zc (b # bs) =
     (if zc = 2 \<and> b = 3
      then (case bs of [] \<Rightarrow> None | c # _ \<Rightarrow> if c > 3 then None else strip 0 bs)
      else if zc = 2 \<and> b \<le> 2 then None
      else map_option (Cons b) (strip (if b = 0 then zc + 1 else 0) bs))"

lemma byte_le_3: "(b :: byte) \<le> 3 \<longleftrightarrow> b \<le> 2 \<or> b = 3"
proof -
  have "unat b \<le> 3 \<longleftrightarrow> unat b \<le> 2 \<or> unat b = 3" by linarith
  then show ?thesis by (simp add: word_le_nat_alt word_unat_eq_iff)
qed

lemma strip_escape: "zc \<le> 2 \<Longrightarrow> strip zc (escape zc p) = Some p"
proof (induction zc p rule: escape.induct)
  case (2 zc b bs)
  show ?case
  proof (cases "zc = 2 \<and> b \<le> 3")
    case True
    with "2.IH"(1) have "strip (if b = 0 then 1 else 0) (escape (if b = 0 then 1 else 0) bs) = Some bs" by simp
    with True show ?thesis by (cases "b = 0") (simp_all add: not_less)
  next
    case False
    then have "\<not> (zc = 2 \<and> b = 3)" "\<not> (zc = 2 \<and> b \<le> 2)" by (auto simp: byte_le_3)
    moreover have "(if b = 0 then zc + 1 else 0) \<le> 2" using False "2.prems" by (cases "zc = 2") auto
    ultimately have "strip zc (b # escape (if b = 0 then zc + 1 else 0) bs) = Some (b # bs)"
      using "2.IH"(2) [OF False] by (simp only: strip.simps if_False option.map)
    then show ?thesis using False by (simp only: escape.simps if_False)
  qed
qed simp

lemma escape_strip: "zc \<le> 2 \<Longrightarrow> strip zc xs = Some p \<Longrightarrow> xs = escape zc p"
proof (induction zc xs arbitrary: p rule: strip.induct)
  case (2 zc b bs)
  show ?case
  proof (cases "zc = 2 \<and> b = 3")
    case True
    with 2 obtain c cs where bs: "bs = c # cs" "\<not> c > 3" "strip 0 bs = Some p"
      by (auto split: list.splits if_splits)
    from 2(1) [OF True bs(1,2) _ bs(3)] have esc: "bs = escape 0 p" by simp
    then obtain p' where "p = c # p'" using bs(1) by (cases p) auto
    with esc True bs(1,2) show ?thesis by (simp add: not_less)
  next
    case False
    with 2(3,4) obtain p' where p': "p = b # p'" "\<not> (zc = 2 \<and> b \<le> 2)"
      "strip (if b = 0 then zc + 1 else 0) bs = Some p'"
      by (auto split: if_splits)
    have "(if b = 0 then zc + 1 else 0) \<le> 2" using p'(2) 2(3) by (cases "zc = 2") auto
    from 2(2) [OF False p'(2) this p'(3)] p'(1,2) False show ?thesis by (auto simp: byte_le_3)
  qed
qed simp

lemma strip_iff: "strip 0 xs = Some p \<longleftrightarrow> xs = escape 0 p"
  using strip_escape [of 0 p] escape_strip [of 0 xs p] by auto

lemma strip_shrinks: "strip zc xs = Some p \<Longrightarrow> length p \<le> length xs"
  by (induction zc xs arbitrary: p rule: strip.induct) (fastforce split: if_splits list.splits)+

section \<open>The loop in place\<close>

lemma drop_update: "n < m \<Longrightarrow> drop m (xs[n := x]) = drop m xs"
  by simp

lemma RemoveEmulation_spec:
  assumes "length xs \<le> length mem - rp" "take (length xs) (drop rp mem) = xs" "rp \<le> length mem"
    and "wp \<le> rp" "unat zc \<le> 2"
  shows "case strip (unat zc) xs of
      None \<Rightarrow> \<exists>mem' r w. RemoveEmulation (length xs) mem rp wp zc = Some (HANTRO_NOK, mem', r, w)
    | Some p \<Rightarrow> RemoveEmulation (length xs) mem rp wp zc
         = Some (HANTRO_OK, take wp mem @ p @ drop (wp + length p) mem, rp + length xs, wp + length p)"
  using assms
proof (induction xs arbitrary: mem rp wp zc)
  case Nil
  then show ?case by simp
next
  case (Cons b bs)
  have rp: "rp < length mem" "mem ! rp = b"
    using Cons.prems(1,2,3) nth_take [of 0 "Suc (length bs)" "drop rp mem"] by auto
  have tl: "take (length bs) (drop (Suc rp) mem) = bs"
    using Cons.prems(2) rp by (simp add: Cons_nth_drop_Suc [symmetric])
  have wl: "wp < length mem" using rp Cons.prems(4) by simp
  have zc2: "zc = 2 \<longleftrightarrow> unat zc = 2" by (simp add: word_unat_eq_iff)
  consider (emu) "zc = 2" "b = 3" | (wrong) "zc = 2" "b \<le> 2" | (copy) "\<not> (zc = 2 \<and> b \<le> 3)"
    by (auto simp: byte_le_3)
  then show ?case
  proof cases
    case emu
    show ?thesis
    proof (cases bs)
      case Nil
      with emu rp show ?thesis by (simp add: zc2)
    next
      case (Cons c cs)
      have c: "Suc rp < length mem" "mem ! Suc rp = c"
        using tl Cons nth_take [of 0 "Suc (length cs)" "drop (Suc rp) mem"] Cons.prems(1) by auto
      show ?thesis
      proof (cases "c > 3")
        case True
        with emu rp c Cons show ?thesis by (simp add: zc2)
      next
        case False
        have "case strip 0 bs of
            None \<Rightarrow> \<exists>mem' r w. RemoveEmulation (length bs) mem (Suc rp) wp 0 = Some (HANTRO_NOK, mem', r, w)
          | Some p \<Rightarrow> RemoveEmulation (length bs) mem (Suc rp) wp 0
              = Some (HANTRO_OK, take wp mem @ p @ drop (wp + length p) mem, Suc rp + length bs, wp + length p)"
          using Cons.IH [OF _ tl, of wp 0] Cons.prems rp by simp
        moreover have "RemoveEmulation (length (b # bs)) mem rp wp zc = RemoveEmulation (length bs) mem (Suc rp) wp 0"
          using False emu rp c Cons by simp
        moreover have "strip (unat zc) (b # bs) = strip 0 bs" using False emu Cons by (simp add: zc2)
        moreover have "rp + length (b # bs) = Suc rp + length bs" by simp
        ultimately show ?thesis by (simp only:)
      qed
    qed
  next
    case wrong
    then have "b \<noteq> 3" by auto
    with wrong rp show ?thesis by (simp add: zc2)
  next
    case copy
    let ?zc = "if b = 0 then zc + 1 else 0" and ?mem = "mem[wp := b]"
    have uz: "unat ?zc = (if b = 0 then unat zc + 1 else 0)" "unat ?zc \<le> 2"
    proof -
      have "unat (zc + 1) = unat zc + 1" using Cons.prems(5) unat_add_lem [of zc 1] by simp
      then show "unat ?zc = (if b = 0 then unat zc + 1 else 0)" by simp
      then show "unat ?zc \<le> 2" using Cons.prems(5) copy by (auto simp: zc2)
    qed
    have tl': "take (length bs) (drop (Suc rp) ?mem) = bs" using tl Cons.prems(4) by simp
    have IH: "case strip (unat ?zc) bs of
        None \<Rightarrow> \<exists>mem' r w. RemoveEmulation (length bs) ?mem (Suc rp) (Suc wp) ?zc = Some (HANTRO_NOK, mem', r, w)
      | Some p \<Rightarrow> RemoveEmulation (length bs) ?mem (Suc rp) (Suc wp) ?zc
          = Some (HANTRO_OK, take (Suc wp) ?mem @ p @ drop (Suc wp + length p) ?mem, Suc rp + length bs, Suc wp + length p)"
      using Cons.IH [OF _ tl', of "Suc wp" ?zc] Cons.prems rp uz(2) by simp
    have step: "RemoveEmulation (length (b # bs)) mem rp wp zc = RemoveEmulation (length bs) ?mem (Suc rp) (Suc wp) ?zc"
      using copy rp wl by (auto simp: byte_le_3)
    have "strip (unat zc) (b # bs) = map_option (Cons b) (strip (unat ?zc) bs)"
      using copy uz(1) by (auto simp: byte_le_3 zc2)
    moreover have "take (Suc wp) ?mem = take wp mem @ [b]"
      using wl by (simp add: take_Suc_conv_app_nth)
    ultimately show ?thesis
      using IH step by (auto split: option.splits)
  qed
qed

section \<open>The scans over lists\<close>

fun start_scan :: "nat \<Rightarrow> nat \<Rightarrow> bytes \<Rightarrow> nat option" where
  "start_scan n zc [] = None"
| "start_scan n zc (b # xs) =
     (if xs = [] then None
      else if b = 0 then start_scan (Suc n) (Suc zc) xs
      else if b = 1 \<and> zc \<ge> 2 then Some (Suc n)
      else start_scan (Suc n) 0 xs)"

fun nal_end :: "nat \<Rightarrow> nat \<Rightarrow> bool \<Rightarrow> bool \<Rightarrow> bytes \<Rightarrow> nat \<times> nat \<times> bool \<times> bool" where
  "nal_end n zc he bad [] = (n - zc, zc, he, bad)"
| "nal_end n zc he bad (b # xs) =
     (let zc' = (if b = 0 then Suc zc else zc); he' = (he \<or> b = 3 \<and> zc' = 2)
      in if b = 1 \<and> zc' \<ge> 2 then (n - zc', zc' - min zc' 3, he', bad)
         else
           let bad' = (bad \<or> b \<noteq> 0 \<and> zc' \<ge> 3); zc'' = (if b \<noteq> 0 then 0 else zc')
           in if xs = [] then (Suc n - zc'', zc'', he', bad') else nal_end (Suc n) zc'' he' bad' xs)"

lemma unat_small: "a < 2 ^ 32 \<Longrightarrow> unat (of_nat a :: u32) = a"
  by (simp add: unat_of_nat take_bit_nat_eq_self)

lemma of_nat_eq_iff_small:
  "a < 2 ^ 32 \<Longrightarrow> b < 2 ^ 32 \<Longrightarrow> (of_nat a :: u32) = of_nat b \<longleftrightarrow> a = b"
proof
  assume *: "a < 2 ^ 32" "b < 2 ^ 32" "(of_nat a :: u32) = of_nat b"
  from arg_cong [OF *(3), of unat] show "a = b" by (simp only: unat_small [OF *(1)] unat_small [OF *(2)])
qed simp

lemma FindStartCode_scan:
  "rp < length mem \<Longrightarrow> length mem < 2 ^ 32 \<Longrightarrow> zc \<le> rp \<Longrightarrow>
   FindStartCode mem (of_nat (length mem)) rp (of_nat rp) (of_nat zc)
     = Some (map_option (\<lambda>n. (n, of_nat n)) (start_scan rp zc (drop rp mem)))
   \<and> (\<forall>n. start_scan rp zc (drop rp mem) = Some n \<longrightarrow> rp < n \<and> n < length mem)"
proof (induction "length mem - rp" arbitrary: rp zc)
  case (Suc m)
  have dr: "drop rp mem = mem ! rp # drop (Suc rp) mem" using Suc.prems(1) by (simp add: Cons_nth_drop_Suc)
  have last: "(of_nat rp + 1 :: u32) = of_nat (length mem) \<longleftrightarrow> drop (Suc rp) mem = []"
    using of_nat_eq_iff_small [of "Suc rp" "length mem"] Suc.prems by (auto simp: add.commute)
  have zc2: "(2 :: u32) \<le> of_nat zc \<longleftrightarrow> 2 \<le> zc"
    using unat_small [of zc] Suc.prems by (simp add: word_le_nat_alt)
  show ?case
  proof (cases "drop (Suc rp) mem = []")
    case True
    with dr last Suc.prems show ?thesis by (simp add: FindStartCode.simps [of mem])
  next
    case False
    then have lt: "Suc rp < length mem" by simp
    have IH: "zc' \<le> Suc rp \<Longrightarrow> FindStartCode mem (of_nat (length mem)) (Suc rp) (of_nat (Suc rp)) (of_nat zc')
        = Some (map_option (\<lambda>n. (n, of_nat n)) (start_scan (Suc rp) zc' (drop (Suc rp) mem)))
      \<and> (\<forall>n. start_scan (Suc rp) zc' (drop (Suc rp) mem) = Some n \<longrightarrow> Suc rp < n \<and> n < length mem)" for zc'
      using Suc.hyps(1) [of "Suc rp" zc'] Suc.hyps(2) lt Suc.prems(2) by simp
    show ?thesis
      using IH [of "Suc zc"] IH [of 0] False last zc2 dr lt Suc.prems
      by (subst FindStartCode.simps) (auto simp: add.commute)
  qed
qed simp

lemma FindNalEnd_scan:
  "rp < length mem \<Longrightarrow> length mem < 2 ^ 32 \<Longrightarrow> zc \<le> rp - i \<Longrightarrow> i \<le> rp \<Longrightarrow>
   (case nal_end (rp - i) zc he bad (drop rp mem) of (sz, z, he', bad') \<Rightarrow>
      FindNalEnd mem (of_nat (length mem)) (of_nat i) rp (of_nat rp) (of_nat zc) he bad
        = Some \<lparr>scanSize = of_nat sz, scanZeros = of_nat z, scanEmulation = he', scanInvalid = bad'\<rparr>
      \<and> i + sz + z \<le> length mem)"
proof (induction "length mem - rp" arbitrary: rp zc he bad)
  case (Suc m)
  define b where "b = mem ! rp"
  have dr: "drop rp mem = b # drop (Suc rp) mem"
    using Suc.prems(1) by (simp add: Cons_nth_drop_Suc b_def)
  define zc' where "zc' = (if b = 0 then Suc zc else zc)"
  define he' where "he' = (he \<or> b = 3 \<and> zc' = 2)"
  define bad' where "bad' = (bad \<or> b \<noteq> 0 \<and> zc' \<ge> 3)"
  define zc'' where "zc'' = (if b \<noteq> 0 then 0 else zc')"
  have zw: "(if b = 0 then of_nat zc + 1 else of_nat zc :: u32) = of_nat zc'" by (simp add: zc'_def)
  have bound: "zc' \<le> Suc (rp - i)" "zc' < 2 ^ 32" "b \<noteq> 0 \<Longrightarrow> zc' \<le> rp - i"
  proof -
    show *: "zc' \<le> Suc (rp - i)" "b \<noteq> 0 \<Longrightarrow> zc' \<le> rp - i" using Suc.prems by (simp_all add: zc'_def)
    have "Suc (rp - i) \<le> length mem" using Suc.prems by linarith
    with * Suc.prems(2) show "zc' < 2 ^ 32" by linarith
  qed
  have uz: "unat (of_nat zc' :: u32) = zc'" by (rule unat_small [OF bound(2)])
  have tests: "(of_nat zc' :: u32) = 2 \<longleftrightarrow> zc' = 2" "(2 :: u32) \<le> of_nat zc' \<longleftrightarrow> 2 \<le> zc'"
    "(3 :: u32) \<le> of_nat zc' \<longleftrightarrow> 3 \<le> zc'"
    using uz by (auto simp: word_le_nat_alt word_unat_eq_iff)
  have last: "(of_nat rp + 1 :: u32) = of_nat (length mem) \<longleftrightarrow> drop (Suc rp) mem = []"
    using of_nat_eq_iff_small [of "Suc rp" "length mem"] Suc.prems by (auto simp: add.commute)
  have min3: "(min (of_nat zc') 3 :: u32) = of_nat (min zc' 3)"
    using tests(3) by (auto simp: min_def word_le_nat_alt uz)
  have step: "FindNalEnd mem (of_nat (length mem)) (of_nat i) rp (of_nat rp) (of_nat zc) he bad =
     (if b = 1 \<and> 2 \<le> zc'
      then Some \<lparr>scanSize = of_nat rp + 1 - of_nat i - of_nat zc' - 1,
                 scanZeros = of_nat zc' - of_nat (min zc' 3), scanEmulation = he', scanInvalid = bad\<rparr>
      else if drop (Suc rp) mem = []
      then Some \<lparr>scanSize = of_nat rp + 1 - of_nat i - of_nat zc'', scanZeros = of_nat zc'',
                 scanEmulation = he', scanInvalid = bad'\<rparr>
      else FindNalEnd mem (of_nat (length mem)) (of_nat i) (Suc rp) (of_nat (Suc rp)) (of_nat zc'') he' bad')"
  proof -
    have "(if b \<noteq> 0 then 0 else of_nat zc' :: u32) = of_nat zc''" by (simp add: zc''_def)
    moreover have "of_nat (Suc rp) = (of_nat rp + 1 :: u32)" by simp
    moreover have "rd mem rp = Some b" using Suc.prems(1) by (simp add: b_def)
    ultimately show ?thesis
      unfolding FindNalEnd.simps [of mem _ _ rp] Let_def
      by (simp only: option.case zw tests min3 last he'_def bad'_def)
  qed
  have list_step: "nal_end (rp - i) zc he bad (drop rp mem) =
     (if b = 1 \<and> 2 \<le> zc' then (rp - i - zc', zc' - min zc' 3, he', bad)
      else if drop (Suc rp) mem = [] then (Suc (rp - i) - zc'', zc'', he', bad')
      else nal_end (Suc (rp - i)) zc'' he' bad' (drop (Suc rp) mem))"
    unfolding dr nal_end.simps Let_def zc'_def [symmetric] he'_def [symmetric] bad'_def [symmetric]
      zc''_def [symmetric] ..
  have zc'': "zc'' \<le> Suc (rp - i)" using bound(1) by (simp add: zc''_def)
  consider (code) "b = 1" "2 \<le> zc'" | (final) "\<not> (b = 1 \<and> 2 \<le> zc')" "drop (Suc rp) mem = []"
    | (go) "\<not> (b = 1 \<and> 2 \<le> zc')" "drop (Suc rp) mem \<noteq> []" by blast
  then show ?case
  proof cases
    case code
    then have "zc' \<le> rp - i" using bound(3) by simp
    then have "(of_nat rp + 1 - of_nat i - of_nat zc' - 1 :: u32) = of_nat (rp - i - zc')"
      using Suc.prems(4) by (simp add: of_nat_diff)
    moreover have "(of_nat zc' - of_nat (min zc' 3) :: u32) = of_nat (zc' - min zc' 3)"
      by (simp add: of_nat_diff)
    moreover have "i + (rp - i - zc') + (zc' - min zc' 3) \<le> length mem"
      using \<open>zc' \<le> rp - i\<close> Suc.prems by linarith
    moreover have "b = 1 \<and> 2 \<le> zc'" using code by blast
    ultimately show ?thesis unfolding step list_step by (simp only: if_True prod.case simp_thms)
  next
    case final
    have "(of_nat rp + 1 - of_nat i - of_nat zc'' :: u32) = of_nat (Suc (rp - i) - zc'')"
      using zc'' Suc.prems(4) by (simp add: of_nat_diff)
    moreover have "i + (Suc (rp - i) - zc'') + zc'' \<le> length mem"
      using zc'' Suc.prems by linarith
    ultimately show ?thesis
      unfolding step list_step if_not_P [OF final(1)] if_P [OF final(2)] by (simp only: prod.case simp_thms)
  next
    case go
    then have "Suc rp < length mem" by simp
    moreover have sd: "Suc rp - i = Suc (rp - i)" using Suc.prems(4) by simp
    moreover have "m = length mem - Suc rp" "i \<le> Suc rp" using Suc.hyps(2) Suc.prems(4) by simp_all
    ultimately show ?thesis
      using Suc.hyps(1) [of "Suc rp" zc'' he' bad'] Suc.prems(2) zc''
      unfolding step list_step if_not_P [OF go(1)] if_not_P [OF go(2)] by (simp only: sd)
  qed
qed simp

section \<open>What is extracted\<close>

definition payload :: "strmData \<Rightarrow> bytes" where
  "payload s = take (unat (strmBuffSize s)) (drop (pStrmBuffStart s) (strmMem s))"

definition annexB_start :: "bytes \<Rightarrow> bool" where
  "annexB_start mem \<longleftrightarrow> 3 < length mem \<and> mem ! 0 = 0 \<and> mem ! 1 = 0 \<and> mem ! 2 AND 0xFE = 0"

definition nal_unit_of :: "bytes \<Rightarrow> bytes option \<times> nat" where
  "nal_unit_of mem =
     (if annexB_start mem
      then case start_scan 2 2 (drop 2 mem) of
             None \<Rightarrow> (None, length mem)
           | Some i \<Rightarrow>
               (case nal_end 0 0 False False (drop i mem) of
                  (sz, z, emu, bad) \<Rightarrow>
                    (if bad then None
                     else if emu then strip 0 (take sz (drop i mem))
                     else Some (take sz (drop i mem)), sz + i + z))
      else (strip 0 mem, length mem))"

lemma remove_whole:
  assumes "i + sz \<le> length mem" "length mem < 2 ^ 32"
  defines "strm \<equiv> \<lparr>strmMem = mem, pStrmBuffStart = i, pStrmCurrPos = i, bitPosInWord = 0,
                       strmBuffSize = of_nat sz, strmBuffReadBits = 0\<rparr>"
  shows "case strip 0 (take sz (drop i mem)) of
      None \<Rightarrow> \<exists>mem' r w. RemoveEmulation sz mem i i 0 = Some (HANTRO_NOK, mem', r, w)
    | Some p \<Rightarrow> \<exists>mem' r w. RemoveEmulation sz mem i i 0 = Some (HANTRO_OK, mem', r, w)
        \<and> payload (strm\<lparr>strmMem := mem', strmBuffSize := of_nat sz - of_nat (r - w)\<rparr>) = p
        \<and> length mem' = length mem
        \<and> (of_nat sz - of_nat (r - w) :: u32) = of_nat (length p) \<and> length p \<le> sz"
proof (cases "strip 0 (take sz (drop i mem))")
  case None
  have len: "length (take sz (drop i mem)) = sz" using assms(1) by simp
  from None show ?thesis
    using RemoveEmulation_spec [of "take sz (drop i mem)" mem i i 0, unfolded len] assms(1) by simp
next
  case (Some p)
  have len: "length (take sz (drop i mem)) = sz" using assms(1) by simp
  have ple: "length p \<le> sz" using strip_shrinks [OF Some] len by simp
  let ?mem = "take i mem @ p @ drop (i + length p) mem"
  have run: "RemoveEmulation sz mem i i 0 = Some (HANTRO_OK, ?mem, i + sz, i + length p)"
    using RemoveEmulation_spec [of "take sz (drop i mem)" mem i i 0, unfolded len] assms(1) Some by simp
  have size: "(of_nat sz - of_nat (i + sz - (i + length p)) :: u32) = of_nat (length p)"
    using ple by (simp add: of_nat_diff)
  have "unat (of_nat (length p) :: u32) = length p"
    using ple assms(1,2) by (intro unat_small) linarith
  then have pay: "payload (strm\<lparr>strmMem := ?mem, strmBuffSize := of_nat sz - of_nat (i + sz - (i + length p))\<rparr>) = p"
    using assms(1) ple unfolding size by (simp add: payload_def strm_def min_def)
  have "length ?mem = length mem" using assms(1) ple by simp
  with run size pay ple show ?thesis unfolding Some option.case by (intro exI conjI)
qed

lemma fresh_stream_ok:
  assumes "i + n \<le> length mem" "length mem \<le> 2 ^ 27"
  shows "strm_ok \<lparr>strmMem = mem, pStrmBuffStart = i, pStrmCurrPos = i, bitPosInWord = 0,
                   strmBuffSize = of_nat n, strmBuffReadBits = 0\<rparr>"
proof -
  have "unat (of_nat n :: u32) = n" using assms by (intro unat_small) simp
  then show ?thesis using assms by (simp add: strm_ok_def in_window_def)
qed

lemma ExtractNalUnit_refines:
  assumes "length mem \<le> 2 ^ 27"
  shows "\<exists>ex. h264bsdExtractNalUnit mem (of_nat (length mem)) strm = Some ex
    \<and> exReadBytes ex = of_nat (snd (nal_unit_of mem))
    \<and> (case fst (nal_unit_of mem) of
         None \<Rightarrow> exStatus ex = HANTRO_NOK
       | Some p \<Rightarrow> exStatus ex = HANTRO_OK \<and> strm_ok (exStream ex) \<and> payload (exStream ex) = p
           \<and> strmBuffReadBits (exStream ex) = 0)"
proof -
  have l32: "length mem < 2 ^ 32" using assms by simp
  have ul: "unat (of_nat (length mem) :: u32) = length mem" by (rule unat_small [OF l32])
  have long: "(of_nat (length mem) :: u32) > 3 \<longleftrightarrow> 3 < length mem" by (simp add: word_less_nat_alt ul)
  let ?fresh = "\<lambda>i n. \<lparr>strmMem = mem, pStrmBuffStart = i, pStrmCurrPos = i, bitPosInWord = 0,
                   strmBuffSize = of_nat n, strmBuffReadBits = 0\<rparr> :: strmData"
  define annexB where "annexB = annexB_start mem"
  have test: "(if (of_nat (length mem) :: u32) > 3
        then do { b0 \<leftarrow> rd mem 0; b1 \<leftarrow> rd mem 1; b2 \<leftarrow> rd mem 2; Some (b0 = 0 \<and> b1 = 0 \<and> b2 AND 0xFE = 0) }
        else Some False) = Some annexB"
    unfolding long by (auto simp: annexB_def annexB_start_def rd_def)
  have stripped: "\<exists>ex. (do {
           (status, mem', readPtr, writePtr) \<leftarrow> RemoveEmulation n mem i i 0;
           Some (if status = HANTRO_OK
                 then \<lparr>exStatus = HANTRO_OK,
                       exStream = (?fresh i n)\<lparr>strmMem := mem', strmBuffSize := of_nat n - of_nat (readPtr - writePtr)\<rparr>,
                       exReadBytes = rb\<rparr>
                 else \<lparr>exStatus = HANTRO_NOK, exStream = (?fresh i n)\<lparr>strmMem := mem'\<rparr>, exReadBytes = rb\<rparr>)
         }) = Some ex \<and> exReadBytes ex = rb
      \<and> (case strip 0 (take n (drop i mem)) of
         None \<Rightarrow> exStatus ex = HANTRO_NOK
       | Some p \<Rightarrow> exStatus ex = HANTRO_OK \<and> strm_ok (exStream ex) \<and> payload (exStream ex) = p
           \<and> strmBuffReadBits (exStream ex) = 0)"
    if "i + n \<le> length mem" for i n rb
  proof (cases "strip 0 (take n (drop i mem))")
    case None
    then show ?thesis using remove_whole [OF that l32] by auto
  next
    case (Some p)
    from remove_whole [OF that l32] obtain mem' r w where
      *: "RemoveEmulation n mem i i 0 = Some (HANTRO_OK, mem', r, w)"
      "payload ((?fresh i n)\<lparr>strmMem := mem', strmBuffSize := of_nat n - of_nat (r - w)\<rparr>) = p"
      "length mem' = length mem" "(of_nat n - of_nat (r - w) :: u32) = of_nat (length p)" "length p \<le> n"
      unfolding Some option.case by (elim exE conjE) (rule that)
    have "strm_ok ((?fresh i n)\<lparr>strmMem := mem', strmBuffSize := of_nat n - of_nat (r - w)\<rparr>)"
      using fresh_stream_ok [of i "length p" mem'] *(3,5) that assms unfolding *(4) by simp
    with * Some show ?thesis by simp
  qed
  show ?thesis
  proof (cases annexB)
    case False
    then have spec: "nal_unit_of mem = (strip 0 mem, length mem)" by (simp add: nal_unit_of_def annexB_def)
    show ?thesis
      using stripped [of 0 "length mem" "of_nat (length mem)"]
      unfolding h264bsdExtractNalUnit_def test bind.bind_lunit spec
      using False by (simp add: ul Let_def cong: if_cong)
  next
    case True
    then have "3 < length mem" by (simp add: annexB_def annexB_start_def)
    then have scan: "FindStartCode mem (of_nat (length mem)) 2 2 2
        = Some (map_option (\<lambda>n. (n, of_nat n)) (start_scan 2 2 (drop 2 mem)))"
      and range: "\<And>i. start_scan 2 2 (drop 2 mem) = Some i \<Longrightarrow> 2 < i \<and> i < length mem"
    proof -
      have "2 < length mem" "(2 :: nat) \<le> 2" using \<open>3 < length mem\<close> by simp_all
      from FindStartCode_scan [OF this(1) l32 this(2)]
      show "FindStartCode mem (of_nat (length mem)) 2 2 2
        = Some (map_option (\<lambda>n. (n, of_nat n)) (start_scan 2 2 (drop 2 mem)))"
        and "\<And>i. start_scan 2 2 (drop 2 mem) = Some i \<Longrightarrow> 2 < i \<and> i < length mem"
        by (simp_all only: of_nat_numeral)
    qed
    show ?thesis
    proof (cases "start_scan 2 2 (drop 2 mem)")
      case None
      then have "nal_unit_of mem = (None, length mem)" using True by (simp add: nal_unit_of_def annexB_def)
      then show ?thesis
        unfolding h264bsdExtractNalUnit_def test bind.bind_lunit using True scan None by simp
    next
      case (Some i)
      obtain sz z emu bad where e: "nal_end 0 0 False False (drop i mem) = (sz, z, emu, bad)"
        by (metis surj_pair)
      have i: "i < length mem" "unat (of_nat i :: u32) = i" using range [OF Some] l32 by (simp_all add: unat_small)
      have fin: "FindNalEnd mem (of_nat (length mem)) (of_nat i) i (of_nat i) 0 False False
          = Some \<lparr>scanSize = of_nat sz, scanZeros = of_nat z, scanEmulation = emu, scanInvalid = bad\<rparr>"
        and le: "i + sz + z \<le> length mem"
        using FindNalEnd_scan [OF i(1) l32, of 0 i False False] e by simp_all
      have spec: "nal_unit_of mem = (if bad then None
                     else if emu then strip 0 (take sz (drop i mem))
                     else Some (take sz (drop i mem)), sz + i + z)"
        using True Some e by (simp add: nal_unit_of_def annexB_def)
      have usz: "unat (of_nat sz :: u32) = sz" using le l32 by (intro unat_small) linarith
    have plain: "strm_ok (?fresh i sz)" "payload (?fresh i sz) = take sz (drop i mem)"
        using fresh_stream_ok [of i sz mem] le assms by (simp_all add: payload_def usz)
      show ?thesis
        unfolding h264bsdExtractNalUnit_def test bind.bind_lunit
        using True scan Some fin i(2) usz plain stripped [of i sz "of_nat sz + of_nat i + of_nat z"] le
        by (cases bad; cases emu) (simp_all add: spec Let_def cong: if_cong)
    qed
  qed
qed

section \<open>Units between start codes\<close>

lemma start_scan_zeros:
  "body \<noteq> [] \<Longrightarrow> 2 \<le> zc \<Longrightarrow> start_scan n zc (replicate k 0 @ 1 # body) = Some (n + k + 1)"
  by (induction k arbitrary: n zc) auto

lemma nal_end_next_code:
  "2 \<le> zc + t \<Longrightarrow> nal_end n zc he bad (replicate t 0 @ 1 # cont)
     = (n + t - (zc + t), zc + t - min (zc + t) 3, he, bad)"
  by (induction t arbitrary: n zc) (auto simp: Let_def)

lemma nal_end_zeros:
  "nal_end n zc he bad (replicate (Suc t) 0) = (n + Suc t - (zc + Suc t), zc + Suc t, he, bad)"
  by (induction t arbitrary: n zc) (auto simp: Let_def)

lemma length_escape: "length p \<le> length (escape zc p)"
  by (induction zc p rule: escape.induct) auto

lemma nal_end_escape:
  "zc \<le> 2 \<Longrightarrow> p \<noteq> [] \<Longrightarrow> last p \<noteq> 0 \<Longrightarrow>
   nal_end n zc he bad (escape zc p @ ys) =
     (if ys = [] then (n + length (escape zc p), 0, he \<or> escape zc p \<noteq> p, bad)
      else nal_end (n + length (escape zc p)) 0 (he \<or> escape zc p \<noteq> p) bad ys)"
proof (induction zc p arbitrary: n he rule: escape.induct)
  case (2 zc b bs)
  define z where "z = (if b = 0 then zc + 1 else 0)"
  show ?case
  proof (cases "zc = 2 \<and> b \<le> 3")
    case True
    define z1 where "z1 = (if b = 0 then 1 else 0 :: nat)"
    have esc: "escape zc (b # bs) = 3 # b # escape z1 bs" using True by (simp add: z1_def)
    have "length (escape zc (b # bs)) \<noteq> length (b # bs)" unfolding esc using length_escape [of bs z1] by simp
    then have ne: "escape zc (b # bs) \<noteq> b # bs" by metis
    have one: "nal_end n zc he bad (3 # b # xs) = nal_end (Suc n) 0 True bad (b # xs)" for xs
      using True by (simp add: Let_def)
    have two: "nal_end (Suc n) 0 True bad (b # xs)
        = (if xs = [] then (Suc (Suc n) - z1, z1, True, bad) else nal_end (Suc (Suc n)) z1 True bad xs)" for xs
      by (simp add: Let_def z1_def)
    show ?thesis
    proof (cases bs)
      case Nil
      with "2.prems" have "z1 = 0" by (simp add: z1_def)
      with Nil show ?thesis using ne unfolding esc append_Cons one two by simp
    next
      case (Cons c cs)
      then have "escape z1 bs \<noteq> []" using length_escape [of bs z1] by auto
      moreover have "nal_end (Suc (Suc n)) z1 True bad (escape z1 bs @ ys) =
         (if ys = [] then (Suc (Suc n) + length (escape z1 bs), 0, True \<or> escape z1 bs \<noteq> bs, bad)
          else nal_end (Suc (Suc n) + length (escape z1 bs)) 0 (True \<or> escape z1 bs \<noteq> bs) bad ys)"
        unfolding z1_def using "2.IH"(1) [OF True] "2.prems" Cons by simp
      ultimately show ?thesis using ne unfolding esc append_Cons one two by simp
    qed
  next
    case False
    have esc: "escape zc (b # bs) = b # escape z bs" using False by (simp only: escape.simps if_False z_def)
    have zz: "z \<le> 2" using False "2.prems"(1) by (cases "b = 0") (auto simp: z_def le_Suc_eq numeral_2_eq_2)
    have "\<not> (b = 1 \<and> zc = 2)" "\<not> (b = 3 \<and> zc = 2)" using False by auto
    then have one: "nal_end n zc he bad (b # xs)
        = (if xs = [] then (Suc n - z, z, he, bad) else nal_end (Suc n) z he bad xs)" for xs
      using "2.prems"(1) zz by (auto simp: Let_def z_def)
    show ?thesis
    proof (cases bs)
      case Nil
      with "2.prems" have "z = 0" by (simp add: z_def)
      with Nil show ?thesis unfolding esc append_Cons one by simp
    next
      case (Cons c cs)
      then have "escape z bs \<noteq> []" using length_escape [of bs z] by auto
      moreover have "nal_end (Suc n) z he bad (escape z bs @ ys) =
         (if ys = [] then (Suc n + length (escape z bs), 0, he \<or> escape z bs \<noteq> bs, bad)
          else nal_end (Suc n + length (escape z bs)) 0 (he \<or> escape z bs \<noteq> bs) bad ys)"
        using "2.IH"(2) [OF False, of "Suc n" he] zz "2.prems" Cons unfolding z_def by simp
      ultimately show ?thesis unfolding esc append_Cons one by simp
    qed
  qed
qed simp

text \<open>A unit in a byte stream: zeros and a start code, the escaped payload, zeros, and either the
  end of the stream or the next start code.\<close>

definition byte_stream :: "nat \<Rightarrow> bytes \<Rightarrow> nat \<Rightarrow> bytes option \<Rightarrow> bytes" where
  "byte_stream k p t following =
     replicate k 0 @ [0, 0, 1] @ escape 0 p @ replicate t 0
       @ (case following of None \<Rightarrow> [] | Some cont \<Rightarrow> [0, 0, 1] @ cont)"

lemma nal_unit_of_byte_stream:
  assumes "p \<noteq> []" "last p \<noteq> 0"
  shows "nal_unit_of (byte_stream k p t following) =
    (Some p, case following of
       None \<Rightarrow> length (byte_stream k p t following)
     | Some cont \<Rightarrow> k + 3 + length (escape 0 p) + (t - 1))"
proof -
  define tl where "tl = replicate t 0 @ (case following of None \<Rightarrow> [] | Some cont \<Rightarrow> [0, 0, 1] @ cont)"
  define mem where "mem = byte_stream k p t following"
  have rep: "replicate k 0 @ 0 # 0 # xs = 0 # 0 # replicate k 0 @ xs" for xs :: bytes
    by (induction k) simp_all
  have mem: "mem = 0 # 0 # replicate k 0 @ 1 # escape 0 p @ tl"
    by (simp add: mem_def byte_stream_def tl_def rep)
  have esc: "escape 0 p \<noteq> []" using assms(1) length_escape [of p 0] by auto
  have "(0 :: byte) AND 0xFE = 0" "(1 :: byte) AND 0xFE = 0" by simp_all
  then have ann: "annexB_start mem" using esc by (cases k) (auto simp: annexB_start_def mem neq_Nil_conv)
  have start: "start_scan 2 2 (drop 2 mem) = Some (k + 3)"
    using start_scan_zeros [of "escape 0 p @ tl" 2 2 k] esc by (simp add: mem)
  have "mem = (0 # 0 # replicate k 0 @ [1]) @ (escape 0 p @ tl)" by (simp add: mem)
  moreover have "length (0 # 0 # replicate k 0 @ [1 :: byte]) = k + 3" by simp
  ultimately have body: "drop (k + 3) mem = escape 0 p @ tl" by (metis append_eq_conv_conj)
  let ?n = "length (escape 0 p)" and ?emu = "escape 0 p \<noteq> p"
  have tk: "take ?n (drop (k + 3) mem) = escape 0 p" unfolding body by simp
  have ends: "nal_end 0 0 False False (drop (k + 3) mem)
      = (?n, (case following of None \<Rightarrow> t | Some cont \<Rightarrow> t - 1), ?emu, False)"
  proof -
    have "nal_end 0 0 False False (escape 0 p @ tl)
        = (if tl = [] then (?n, 0, ?emu, False) else nal_end ?n 0 ?emu False tl)"
      using nal_end_escape [of 0 p 0 False False tl] assms by simp
    moreover have "nal_end ?n 0 ?emu False tl = (?n, case following of None \<Rightarrow> t | Some cont \<Rightarrow> t - 1, ?emu, False)"
      if "tl \<noteq> []"
    proof (cases following)
      case None
      with that obtain t' where "t = Suc t'" by (cases t) (auto simp: tl_def)
      with None nal_end_zeros [of ?n 0 ?emu False t'] show ?thesis by (simp add: tl_def)
    next
      case (Some cont)
      have "tl = replicate (t + 2) 0 @ 1 # cont"
        using Some by (simp add: tl_def replicate_add numeral_2_eq_2 replicate_append_same [symmetric])
      with Some nal_end_next_code [of 0 "t + 2" ?n ?emu False cont] show ?thesis by simp
    qed
    moreover have "tl = [] \<Longrightarrow> following = None \<and> t = 0" by (cases following) (auto simp: tl_def)
    ultimately show ?thesis unfolding body by (cases "tl = []") auto
  qed
  have "strip 0 (escape 0 p) = Some p" by (simp add: strip_iff)
  moreover have "length mem = k + 3 + ?n + t" if "following = None" using that by (simp add: mem tl_def)
  ultimately have "nal_unit_of mem = (Some p, case following of None \<Rightarrow> length mem
      | Some cont \<Rightarrow> k + 3 + ?n + (t - 1))"
    using ann start ends tk by (cases following) (auto simp: nal_unit_of_def)
  then show ?thesis by (simp only: mem_def)
qed

section \<open>The bits of a unit and its header\<close>

definition byte_bits_list :: "byte \<Rightarrow> bool list" where
  "byte_bits_list b = nat_bits 8 (unat b)"

lemma concat_nth_8:
  "(\<And>x. x \<in> set xs \<Longrightarrow> length (f x) = 8) \<Longrightarrow> i < 8 * length xs
     \<Longrightarrow> concat (map f xs) ! i = f (xs ! (i div 8)) ! (i mod 8)"
proof (induction xs arbitrary: i)
  case (Cons x xs)
  show ?case
  proof (cases "i < 8")
    case False
    then obtain j where j: "i = j + 8" by (metis add.commute le_Suc_ex not_less)
    with Cons show ?thesis by (simp add: nth_append)
  qed (use Cons.prems in \<open>simp add: nth_append\<close>)
qed simp

lemma payload_bits:
  assumes "in_window s" "strmBuffReadBits s = 0"
  shows "rest s = concat (map byte_bits_list (payload s))"
proof (rule nth_equalityI)
  have len: "length (payload s) = unat (strmBuffSize s)"
    using assms(1) by (auto simp: payload_def in_window_def min_def)
  have len8: "length (concat (map byte_bits_list xs)) = 8 * length xs" for xs
    by (induction xs) (simp_all add: byte_bits_list_def)
  then show "length (rest s) = length (concat (map byte_bits_list (payload s)))"
    using assms(2) len by (simp add: length_rest)
  fix i assume "i < length (rest s)"
  then have i: "i < 8 * unat (strmBuffSize s)" using assms(2) by (simp add: length_rest)
  then have id: "i div 8 < unat (strmBuffSize s)" by simp
  have "rest s ! i = bit (strmMem s ! (pStrmBuffStart s + i div 8)) (7 - i mod 8)"
    using \<open>i < length (rest s)\<close> assms(2) by (simp add: rest_nth)
  also have "\<dots> = byte_bits_list (payload s ! (i div 8)) ! (i mod 8)"
    using id assms(1) by (simp add: byte_bits_list_def nat_bits_def payload_def in_window_def bit_simps)
  also have "\<dots> = concat (map byte_bits_list (payload s)) ! i"
    using i len by (intro concat_nth_8 [symmetric]) (simp_all add: byte_bits_list_def)
  finally show "rest s ! i = concat (map byte_bits_list (payload s)) ! i" .
qed

lemma byte_bits_fields:
  "bits_val (take 2 (drop 1 (byte_bits_list b))) = unat b div 32 mod 4"
  "bits_val (take 5 (drop 3 (byte_bits_list b))) = unat b mod 32"
proof -
  have "bits_val (take m (drop (8 - n) (nat_bits 8 x))) = x mod 2 ^ n div 2 ^ (n - m)" if "m \<le> n" "n \<le> 8" for m n x
  proof (rule bit_eqI)
    fix k
    show "bit (bits_val (take m (drop (8 - n) (nat_bits 8 x)))) k = bit (x mod 2 ^ n div 2 ^ (n - m)) k"
      using that by (auto simp: bit_bits_val nat_bits_def bit_simps simp flip: take_bit_eq_mod drop_bit_eq_div)
  qed
  note field = this
  have "x mod 128 div 32 = x div 32 mod 4" for x :: nat
    using drop_bit_take_bit [of 5 7 x] by (simp add: take_bit_eq_mod drop_bit_eq_div)
  then show "bits_val (take 2 (drop 1 (byte_bits_list b))) = unat b div 32 mod 4"
    "bits_val (take 5 (drop 3 (byte_bits_list b))) = unat b mod 32"
    using field [of 2 7 "unat b"] field [of 5 5 "unat b"] by (simp_all add: byte_bits_list_def)
qed

definition header_ok :: "nat \<Rightarrow> nat \<Rightarrow> bool" where
  "header_ok ref_idc ty \<longleftrightarrow> ty \<notin> {2, 3, 4}
     \<and> (ty \<in> {5, 7, 8} \<longrightarrow> ref_idc \<noteq> 0) \<and> (ty \<in> {6, 9, 10, 11, 12} \<longrightarrow> ref_idc = 0)"

lemma DecodeNalUnit_spec:
  assumes "strm_ok s" "rest s = byte_bits_list b @ bs"
  shows "\<exists>s'. h264bsdDecodeNalUnit s nal
      = Some (if header_ok (unat b div 32 mod 4) (unat b mod 32) then HANTRO_OK else HANTRO_NOK,
              nal\<lparr>nalRefIdc := of_nat (unat b div 32 mod 4), nalUnitType := of_nat (unat b mod 32)\<rparr>, s')
    \<and> strm_ok s' \<and> rest s' = bs"
proof -
  have len: "length (byte_bits_list b) = 8" by (simp add: byte_bits_list_def)
  obtain s1 where s1: "h264bsdGetBits s 1 = Some (of_nat (bits_val (take 1 (rest s))), s1)"
    "strm_ok s1" "rest s1 = drop 1 (byte_bits_list b) @ bs"
    using GetBits_ok [OF assms(1), of 1] assms(2) len by auto
  have "bits_val (take 1 (rest s)) < 2" using bits_val_less [of "take 1 (rest s)"] assms(2) len by simp
  then have v1: "(of_nat (bits_val (take 1 (rest s))) :: u32) \<noteq> END_OF_STREAM"
    using unat_small [of "bits_val (take 1 (rest s))"] by (auto simp: END_OF_STREAM_def)
  obtain s2 where s2: "h264bsdGetBits s1 2 = Some (of_nat (unat b div 32 mod 4), s2)"
    "strm_ok s2" "rest s2 = drop 3 (byte_bits_list b) @ bs"
    using GetBits_ok [OF s1(2), of 2] s1(3) len byte_bits_fields(1) [of b] by auto
  obtain s3 where s3: "h264bsdGetBits s2 5 = Some (of_nat (unat b mod 32), s3)" "strm_ok s3" "rest s3 = bs"
    using GetBits_ok [OF s2(2), of 5] s2(3) len byte_bits_fields(2) [of b] by auto
  define t where "t = unat b mod 32"
  define r where "r = unat b div 32 mod 4"
  have small: "t < 32" "r < 4" by (simp_all add: t_def r_def)
  have eqt: "(of_nat t :: u32) = of_nat k \<longleftrightarrow> t = k" if "k < 32" for k
    using of_nat_eq_iff_small [of t k] small that by simp
  have eqr: "(of_nat r :: u32) = 0 \<longleftrightarrow> r = 0" using of_nat_eq_iff_small [of r 0] small by simp
  define u :: u32 where "u = of_nat t"
  have c: "(u = 2 \<or> u = 3 \<or> u = 4) \<longleftrightarrow> t \<in> {2, 3, 4}"
    "(u = NAL_SEQ_PARAM_SET \<or> u = NAL_PIC_PARAM_SET \<or> u = NAL_CODED_SLICE_IDR) \<longleftrightarrow> t \<in> {5, 7, 8}"
    "(u = NAL_SEI \<or> u = NAL_ACCESS_UNIT_DELIMITER \<or> u = NAL_END_OF_SEQUENCE
       \<or> u = NAL_END_OF_STREAM \<or> u = NAL_FILLER_DATA) \<longleftrightarrow> t \<in> {6, 9, 10, 11, 12}"
    using eqt [of 2] eqt [of 3] eqt [of 4] eqt [of 5] eqt [of 6] eqt [of 7] eqt [of 8] eqt [of 9]
      eqt [of 10] eqt [of 11] eqt [of 12]
    unfolding u_def NAL_SEQ_PARAM_SET_def NAL_PIC_PARAM_SET_def NAL_CODED_SLICE_IDR_def NAL_SEI_def
      NAL_ACCESS_UNIT_DELIMITER_def NAL_END_OF_SEQUENCE_def NAL_END_OF_STREAM_def NAL_FILLER_DATA_def
    by (simp_all only: of_nat_numeral insert_iff empty_iff simp_thms) (simp_all add: disj_ac)
  have sel: "nalRefIdc (nal\<lparr>nalRefIdc := x, nalUnitType := y\<rparr>) = x" for x y by simp
  have get: "h264bsdGetBits s2 5 = Some (u, s3)" using s3(1) by (simp only: u_def t_def)
  have "h264bsdDecodeNalUnit s nal
      = Some (if header_ok r t then HANTRO_OK else HANTRO_NOK, nal\<lparr>nalRefIdc := of_nat r, nalUnitType := u\<rparr>, s3)"
    unfolding h264bsdDecodeNalUnit_def s1(1) s2(1) r_def [symmetric] get bind.bind_lunit prod.case
      Let_def if_not_P [OF v1] c header_ok_def sel
    using eqr by (cases "t \<in> {2, 3, 4}"; cases "t \<in> {5, 7, 8}"; cases "t \<in> {6, 9, 10, 11, 12}"; cases "r = 0")
      (simp_all only: simp_thms if_True if_False)
  with s3 show ?thesis by (simp only: t_def r_def u_def) blast
qed

end
