(* ===== verification/H264Poc.thy ===== *)
theory H264Poc
  imports H264Nal
begin

text \<open>
  Picture order counts (\<open>h264bsd_pic_order_cnt.c\<close>). The records hold the fields of the
  sequence parameter set and the slice header that the computation reads. An \<open>i32\<close> is an
  integer; \<open>chk\<close> is \<open>None\<close> where the C expression overflows.
\<close>

definition chk :: "int \<Rightarrow> int option" where
  "chk k = (if - (2 ^ 31) \<le> k \<and> k < 2 ^ 31 then Some k else None)"

lemma chk_Some_iff [simp]: "chk k = Some x \<longleftrightarrow> x = k \<and> - (2 ^ 31) \<le> k \<and> k < 2 ^ 31"
  by (auto simp: chk_def)

record memoryManagementOperation =
  memoryManagementControlOperation :: u32
  differenceOfPicNums :: u32
  longTermPicNum :: u32
  longTermFrameIdx :: u32
  maxLongTermFrameIdx :: u32

record decRefPicMarking =
  noOutputOfPriorPicsFlag :: bool
  longTermReferenceFlag :: bool
  adaptiveRefPicMarkingModeFlag :: bool
  operation :: "memoryManagementOperation list"

record pocParams =
  picOrderCntType :: u32
  maxFrameNum :: u32
  maxPicOrderCntLsb :: u32
  numRefFramesInPicOrderCntCycle :: u32
  offsetForRefFrame :: "int list"
  offsetForNonRefPic :: int
  offsetForTopToBottomField :: int

record pocSlice =
  frameNum :: u32
  picOrderCntLsb :: u32
  deltaPicOrderCntBottom :: int
  deltaPicOrderCnt :: "int \<times> int"
  decRefPicMarkingOf :: decRefPicMarking

record pocStorage =
  prevPicOrderCntLsb :: u32
  prevPicOrderCntMsb :: int
  prevFrameNum :: u32
  prevFrameNumOffset :: u32

fun ContainsMmco5 :: "memoryManagementOperation list \<Rightarrow> bool option" where
  "ContainsMmco5 [] = None"
| "ContainsMmco5 (c # cs) =
     (if memoryManagementControlOperation c = 0 then Some False
      else if memoryManagementControlOperation c = 5 then Some True
      else ContainsMmco5 cs)"

section \<open>Type 0: most and least significant bits\<close>

definition DecodePicOrderCnt0 ::
  "pocStorage \<Rightarrow> pocParams \<Rightarrow> pocSlice \<Rightarrow> nalUnit \<Rightarrow> bool \<Rightarrow> (int \<times> pocStorage) option" where
  "DecodePicOrderCnt0 poc sps sl nal containsMmco5 =
     do {
       let poc = (if IS_IDR_NAL_UNIT nal then poc\<lparr>prevPicOrderCntMsb := 0, prevPicOrderCntLsb := 0\<rparr> else poc);
       let lsb = picOrderCntLsb sl;
       picOrderCnt \<leftarrow>
         (if lsb < prevPicOrderCntLsb poc \<and> prevPicOrderCntLsb poc - lsb \<ge> maxPicOrderCntLsb sps div 2
          then chk (prevPicOrderCntMsb poc + sint (maxPicOrderCntLsb sps))
          else if lsb > prevPicOrderCntLsb poc \<and> lsb - prevPicOrderCntLsb poc > maxPicOrderCntLsb sps div 2
          then chk (prevPicOrderCntMsb poc - sint (maxPicOrderCntLsb sps))
          else Some (prevPicOrderCntMsb poc));
       let poc = (if nalRefIdc nal \<noteq> 0 then poc\<lparr>prevPicOrderCntMsb := picOrderCnt\<rparr> else poc);
       picOrderCnt \<leftarrow> chk (picOrderCnt + sint lsb);
       picOrderCnt \<leftarrow> (if deltaPicOrderCntBottom sl < 0
                      then chk (picOrderCnt + deltaPicOrderCntBottom sl) else Some picOrderCnt);
       if nalRefIdc nal \<noteq> 0
       then if containsMmco5
            then do {
              let poc = poc\<lparr>prevPicOrderCntMsb := 0\<rparr>;
              newLsb \<leftarrow> (if deltaPicOrderCntBottom sl < 0 then chk (- deltaPicOrderCntBottom sl) else Some 0);
              Some (0, poc\<lparr>prevPicOrderCntLsb := word_of_int newLsb\<rparr>)
            }
            else Some (picOrderCnt, poc\<lparr>prevPicOrderCntLsb := lsb\<rparr>)
       else Some (picOrderCnt, poc)
     }"

section \<open>Type 1: a cycle of expected differences\<close>

fun SumOffsets :: "int list \<Rightarrow> nat \<Rightarrow> int \<Rightarrow> nat \<Rightarrow> int option" where
  "SumOffsets offsets i acc 0 = Some acc"
| "SumOffsets offsets i acc (Suc n) =
     do {
       x \<leftarrow> rd offsets i;
       acc \<leftarrow> chk (acc + x);
       SumOffsets offsets (Suc i) acc n
     }"

definition FrameNumOffset :: "pocStorage \<Rightarrow> pocParams \<Rightarrow> pocSlice \<Rightarrow> nalUnit \<Rightarrow> u32" where
  "FrameNumOffset poc sps sl nal =
     (if IS_IDR_NAL_UNIT nal then 0
      else if prevFrameNum poc > frameNum sl then prevFrameNumOffset poc + maxFrameNum sps
      else prevFrameNumOffset poc)"

definition StoreFrameNum :: "pocStorage \<Rightarrow> pocSlice \<Rightarrow> u32 \<Rightarrow> bool \<Rightarrow> int \<Rightarrow> int \<times> pocStorage" where
  "StoreFrameNum poc sl frameNumOffset containsMmco5 picOrderCnt =
     (if \<not> containsMmco5
      then (picOrderCnt, poc\<lparr>prevFrameNumOffset := frameNumOffset, prevFrameNum := frameNum sl\<rparr>)
      else (0, poc\<lparr>prevFrameNumOffset := 0, prevFrameNum := 0\<rparr>))"

definition DecodePicOrderCnt1 ::
  "pocStorage \<Rightarrow> pocParams \<Rightarrow> pocSlice \<Rightarrow> nalUnit \<Rightarrow> bool \<Rightarrow> (int \<times> pocStorage) option" where
  "DecodePicOrderCnt1 poc sps sl nal containsMmco5 =
     do {
       let frameNumOffset = FrameNumOffset poc sps sl nal;
       let n = numRefFramesInPicOrderCntCycle sps;
       let absFrameNum = (if n \<noteq> 0 then frameNumOffset + frameNum sl else 0);
       let absFrameNum = (if nalRefIdc nal = 0 \<and> absFrameNum > 0 then absFrameNum - 1 else absFrameNum);
       expectedDeltaPicOrderCntCycle \<leftarrow> SumOffsets (offsetForRefFrame sps) 0 0 (unat n);
       picOrderCnt \<leftarrow>
         (if absFrameNum > 0
          then do {
            picOrderCnt \<leftarrow> chk (sint ((absFrameNum - 1) div n) * expectedDeltaPicOrderCntCycle);
            SumOffsets (offsetForRefFrame sps) 0 picOrderCnt (Suc (unat ((absFrameNum - 1) mod n)))
          }
          else Some 0);
       picOrderCnt \<leftarrow> (if nalRefIdc nal = 0 then chk (picOrderCnt + offsetForNonRefPic sps) else Some picOrderCnt);
       picOrderCnt \<leftarrow> chk (picOrderCnt + fst (deltaPicOrderCnt sl));
       bottom \<leftarrow> chk (offsetForTopToBottomField sps + snd (deltaPicOrderCnt sl));
       picOrderCnt \<leftarrow> (if bottom < 0
                      then chk (picOrderCnt + bottom) else Some picOrderCnt);
       Some (StoreFrameNum poc sl frameNumOffset containsMmco5 picOrderCnt)
     }"

section \<open>Type 2: decoding order\<close>

definition DecodePicOrderCnt2 ::
  "pocStorage \<Rightarrow> pocParams \<Rightarrow> pocSlice \<Rightarrow> nalUnit \<Rightarrow> bool \<Rightarrow> (int \<times> pocStorage) option" where
  "DecodePicOrderCnt2 poc sps sl nal containsMmco5 =
     do {
       let frameNumOffset = FrameNumOffset poc sps sl nal;
       picOrderCnt \<leftarrow>
         (if IS_IDR_NAL_UNIT nal then Some 0
          else if nalRefIdc nal = 0
          then do {
            twice \<leftarrow> chk (2 * sint (frameNumOffset + frameNum sl));
            chk (twice - 1)
          }
          else chk (2 * sint (frameNumOffset + frameNum sl)));
       Some (StoreFrameNum poc sl frameNumOffset containsMmco5 picOrderCnt)
     }"

definition h264bsdDecodePicOrderCnt ::
  "pocStorage \<Rightarrow> pocParams \<Rightarrow> pocSlice \<Rightarrow> nalUnit \<Rightarrow> (int \<times> pocStorage) option" where
  "h264bsdDecodePicOrderCnt poc sps sl nal =
     do {
       containsMmco5 \<leftarrow> (if adaptiveRefPicMarkingModeFlag (decRefPicMarkingOf sl)
                        then ContainsMmco5 (operation (decRefPicMarkingOf sl)) else Some False);
       if picOrderCntType sps = 0 then DecodePicOrderCnt0 poc sps sl nal containsMmco5
       else if picOrderCntType sps = 1 then DecodePicOrderCnt1 poc sps sl nal containsMmco5
       else DecodePicOrderCnt2 poc sps sl nal containsMmco5
     }"

end
