(* ===== verification/H264PocFacts.thy ===== *)
theory H264PocFacts
  imports H264Poc
begin

text \<open>
  What the picture order count computation delivers: type 0 recovers the full count from its
  least significant bits, type 1 equals the sum of the offsets of all pictures so far, type 2
  counts up in decoding order.
\<close>

lemma chk_abs: "\<bar>k\<bar> < 2 ^ 31 \<Longrightarrow> chk k = Some k"
  by (simp add: abs_less_iff)

lemma bound_part:
  "\<bar>x\<bar> \<le> y \<Longrightarrow> z = y + r \<Longrightarrow> 0 \<le> r \<Longrightarrow> z + w < 2 ^ 29 \<Longrightarrow> 0 \<le> w \<Longrightarrow> \<bar>x\<bar> + r < (2 :: int) ^ 31"
  by simp

section \<open>Type 0\<close>

lemma sint_word_small:
  fixes x :: u32
  assumes "unat x < 2 ^ 31"
  shows "sint x = int (unat x)"
  by (rule sint_small [OF assms])

lemma unwrap_lsb:
  fixes M m lsb prev :: int
  assumes "0 < m" "0 \<le> lsb" "lsb < 2 * m" "0 \<le> prev" "prev < 2 * m" "M mod (2 * m) = 0"
    and "lsb = P mod (2 * m)" "- m < P - (M + prev)" "P - (M + prev) \<le> m"
  shows "(if lsb < prev \<and> m \<le> prev - lsb then M + 2 * m
          else if prev < lsb \<and> m < lsb - prev then M - 2 * m else M) + lsb = P"
proof -
  obtain q where q: "M = 2 * m * q" using assms(6) by (metis mod_0_imp_dvd dvdE)
  obtain r where r: "P = 2 * m * r + lsb" using assms(7) by (metis mult_div_mod_eq)
  have near: "- m < 2 * m * (r - q) + (lsb - prev)" "2 * m * (r - q) + (lsb - prev) \<le> m"
    using assms(8,9) unfolding q r by (simp_all add: algebra_simps)
  have "r - q < 2"
  proof (rule ccontr)
    assume "\<not> r - q < 2"
    then have "2 * m * 2 \<le> 2 * m * (r - q)" using assms(1) by (intro mult_left_mono) simp_all
    with near assms(2-5) show False by linarith
  qed
  moreover have "- 2 < r - q"
  proof (rule ccontr)
    assume "\<not> - 2 < r - q"
    then have "2 * m * (r - q) \<le> 2 * m * (- 2)" using assms(1) by (intro mult_left_mono) simp_all
    with near assms(1-5) show False by linarith
  qed
  ultimately have "r - q = - 1 \<or> r - q = 0 \<or> r - q = 1" by linarith
  then have "r = q - 1 \<or> r = q \<or> r = q + 1" by linarith
  with near assms(1-5) show ?thesis unfolding q r by (auto simp: algebra_simps)
qed

definition poc0_state :: "nat \<Rightarrow> pocStorage \<Rightarrow> int \<Rightarrow> bool" where
  "poc0_state k poc Q \<longleftrightarrow> unat (prevPicOrderCntLsb poc) < 2 ^ k
     \<and> prevPicOrderCntMsb poc mod 2 ^ k = 0
     \<and> Q = prevPicOrderCntMsb poc + int (unat (prevPicOrderCntLsb poc))"

lemma DecodePicOrderCnt0_unwraps:
  assumes "1 \<le> k" "k \<le> 16" "maxPicOrderCntLsb sps = 2 ^ k"
    and "poc0_state k (if IS_IDR_NAL_UNIT nal then poc\<lparr>prevPicOrderCntMsb := 0, prevPicOrderCntLsb := 0\<rparr> else poc) Q"
    and "int (unat (picOrderCntLsb sl)) = P mod 2 ^ k"
    and "- (2 ^ (k - 1)) < P - Q" "P - Q \<le> 2 ^ (k - 1)"
    and "\<bar>P\<bar> < 2 ^ 29" "\<bar>deltaPicOrderCntBottom sl\<bar> < 2 ^ 29"
  shows "\<exists>poc'. DecodePicOrderCnt0 poc sps sl nal False = Some (P + min 0 (deltaPicOrderCntBottom sl), poc')
    \<and> poc0_state k poc' (if nalRefIdc nal \<noteq> 0 then P else Q)"
proof -
  define m :: int where "m = 2 ^ (k - 1)"
  have m2: "2 ^ k = 2 * m" using assms(1) by (simp add: m_def power_Suc [symmetric] del: power_Suc)
  define p where "p = (if IS_IDR_NAL_UNIT nal then poc\<lparr>prevPicOrderCntMsb := 0, prevPicOrderCntLsb := 0\<rparr> else poc)"
  define M prev where "M = prevPicOrderCntMsb p" and "prev = int (unat (prevPicOrderCntLsb p))"
  define lsb where "lsb = int (unat (picOrderCntLsb sl))"
  have st: "prev < 2 * m" "M mod (2 * m) = 0" "Q = M + prev"
  proof -
    note st = assms(4) [folded p_def, unfolded poc0_state_def]
    have "int (unat (prevPicOrderCntLsb p)) < int (2 ^ k)" using st by (simp only: of_nat_less_iff)
    then show "prev < 2 * m" by (simp only: prev_def of_nat_power of_nat_numeral m2)
    show "M mod (2 * m) = 0" "Q = M + prev" using st by (simp_all only: M_def prev_def m2)
  qed
  have "m \<le> 2 ^ 15" using assms(2) unfolding m_def by (intro power_increasing) simp_all
  then have m: "0 < m" "m \<le> 32768" by (simp_all add: m_def)
  have lsb: "0 \<le> lsb" "lsb < 2 * m" "lsb = P mod (2 * m)" using assms(5) m by (simp_all add: lsb_def m2)
  have prev0: "0 \<le> prev" by (simp add: prev_def)
  note unwrap = unwrap_lsb [OF m(1) lsb(1,2) prev0 st(1,2) lsb(3)]
  have near: "- m < P - (M + prev)" "P - (M + prev) \<le> m" using assms(6,7) st(3) by (simp_all add: m_def)
  note value_eq = unwrap [OF near]
  have max_nat: "unat (maxPicOrderCntLsb sps) = 2 ^ k"
  proof -
    have "(2 :: nat) ^ k < 2 ^ 32" using assms(2) by (intro power_strict_increasing) simp_all
    then have "unat (of_nat (2 ^ k) :: u32) = 2 ^ k" by (simp only: unat_of_nat take_bit_nat_eq_self) simp
    with assms(3) show ?thesis by simp
  qed
  have "(2 :: nat) ^ k \<le> 2 ^ 16" using assms(2) by (intro power_increasing) simp_all
  then have max_int: "sint (maxPicOrderCntLsb sps) = 2 * m"
    using max_nat by (subst sint_small) (simp_all flip: m2)
  have half: "unat (maxPicOrderCntLsb sps div 2) = nat m"
  proof -
    have "int (unat (maxPicOrderCntLsb sps)) = 2 * m"
      unfolding max_nat by (simp only: of_nat_power of_nat_numeral m2)
    then have "unat (maxPicOrderCntLsb sps) = 2 * nat m" by linarith
    then show ?thesis by (simp add: unat_div_distrib)
  qed
  have lsb_sint: "sint (picOrderCntLsb sl) = lsb"
  proof -
    have "unat (picOrderCntLsb sl) < 2147483648" using lsb(2) m(2) unfolding lsb_def by linarith
    then show ?thesis unfolding lsb_def by (intro sint_small) simp
  qed
  have c1: "picOrderCntLsb sl < prevPicOrderCntLsb p \<longleftrightarrow> lsb < prev"
    "picOrderCntLsb sl > prevPicOrderCntLsb p \<longleftrightarrow> prev < lsb"
    unfolding word_less_nat_alt lsb_def prev_def by linarith+
  have d1: "prevPicOrderCntLsb p - picOrderCntLsb sl \<ge> maxPicOrderCntLsb sps div 2 \<longleftrightarrow> m \<le> prev - lsb" if "lsb < prev"
  proof -
    have le: "unat (picOrderCntLsb sl) \<le> unat (prevPicOrderCntLsb p)" using that unfolding lsb_def prev_def by linarith
    then have "unat (prevPicOrderCntLsb p - picOrderCntLsb sl) = unat (prevPicOrderCntLsb p) - unat (picOrderCntLsb sl)" by (simp add: unat_sub word_le_nat_alt)
    then have "int (unat (prevPicOrderCntLsb p - picOrderCntLsb sl)) = prev - lsb" using le unfolding lsb_def prev_def by linarith
    then show ?thesis using half m(1) unfolding word_le_nat_alt by linarith
  qed
  have d2: "picOrderCntLsb sl - prevPicOrderCntLsb p > maxPicOrderCntLsb sps div 2 \<longleftrightarrow> m < lsb - prev" if "prev < lsb"
  proof -
    have le: "unat (prevPicOrderCntLsb p) \<le> unat (picOrderCntLsb sl)" using that unfolding lsb_def prev_def by linarith
    then have "unat (picOrderCntLsb sl - prevPicOrderCntLsb p) = unat (picOrderCntLsb sl) - unat (prevPicOrderCntLsb p)" by (simp add: unat_sub word_le_nat_alt)
    then have "int (unat (picOrderCntLsb sl - prevPicOrderCntLsb p)) = lsb - prev" using le unfolding lsb_def prev_def by linarith
    then show ?thesis using half m(1) unfolding word_less_nat_alt by linarith
  qed
  define N where "N = (if lsb < prev \<and> m \<le> prev - lsb then M + 2 * m
          else if prev < lsb \<and> m < lsb - prev then M - 2 * m else M)"
  have N: "N + lsb = P" using value_eq by (simp add: N_def)
  have P_range: "- 536870912 < P" "P < 536870912" using assms(8) by (simp_all add: abs_less_iff)
  have "- 2147483648 \<le> N" "N < 2147483648" using N lsb(1,2) m P_range by linarith+
  then have N_range: "- (2 ^ 31) \<le> N" "N < 2 ^ 31" by simp_all
  have msb: "(if picOrderCntLsb sl < prevPicOrderCntLsb p \<and> prevPicOrderCntLsb p - picOrderCntLsb sl \<ge> maxPicOrderCntLsb sps div 2
          then chk (M + sint (maxPicOrderCntLsb sps))
          else if picOrderCntLsb sl > prevPicOrderCntLsb p \<and> picOrderCntLsb sl - prevPicOrderCntLsb p > maxPicOrderCntLsb sps div 2
          then chk (M - sint (maxPicOrderCntLsb sps))
          else Some M) = Some N"
    using c1 d1 d2 N_range unfolding N_def max_int by (auto split: if_splits)
  have top: "chk (N + sint (picOrderCntLsb sl)) = Some P" using N assms(8) by (simp add: lsb_sint) linarith
  have bottom: "(if deltaPicOrderCntBottom sl < 0 then chk (P + deltaPicOrderCntBottom sl) else Some P)
      = Some (P + min 0 (deltaPicOrderCntBottom sl))"
    using assms(8,9) by (auto simp: min_def)
  have Nmod: "N mod (2 * m) = 0"
    using st(2) by (auto simp: N_def mod_diff_eq [symmetric] minus_mod_self2)
  define p' where "p' = (if nalRefIdc nal \<noteq> 0
    then p\<lparr>prevPicOrderCntMsb := N, prevPicOrderCntLsb := picOrderCntLsb sl\<rparr> else p)"
  have "DecodePicOrderCnt0 poc sps sl nal False = Some (P + min 0 (deltaPicOrderCntBottom sl), p')"
    unfolding DecodePicOrderCnt0_def Let_def p_def [symmetric] M_def [symmetric] msb bind.bind_lunit top bottom
    by (simp add: p'_def)
  moreover have "poc0_state k p' (if nalRefIdc nal \<noteq> 0 then P else Q)"
  proof (cases "nalRefIdc nal = 0")
    case True
    then show ?thesis using assms(4) by (simp add: p'_def p_def)
  next
    case False
    have "unat (picOrderCntLsb sl) < 2 ^ k"
    proof -
      have "int (unat (picOrderCntLsb sl)) < int (2 ^ k)"
        using lsb(2) by (simp only: lsb_def of_nat_power of_nat_numeral m2)
      then show ?thesis by (simp only: of_nat_less_iff)
    qed
    moreover have "P = N + int (unat (picOrderCntLsb sl))" using N by (simp only: lsb_def)
    moreover have "N mod 2 ^ k = 0" using Nmod by (simp only: m2)
    ultimately show ?thesis using False by (simp add: p'_def poc0_state_def)
  qed
  ultimately show ?thesis by blast
qed

section \<open>Type 1\<close>

definition cycle_sum :: "int list \<Rightarrow> nat \<Rightarrow> int" where
  "cycle_sum offs a = (\<Sum>k<a. offs ! (k mod length offs))"

lemma cycle_sum_add: "cycle_sum offs (length offs + m) = cycle_sum offs (length offs) + cycle_sum offs m"
  by (induction m) (simp_all add: cycle_sum_def)

lemma cycle_sum_mult: "cycle_sum offs (q * length offs + m) = int q * cycle_sum offs (length offs) + cycle_sum offs m"
proof (induction q)
  case (Suc q)
  have "Suc q * length offs + m = length offs + (q * length offs + m)" by simp
  then have "cycle_sum offs (Suc q * length offs + m) = cycle_sum offs (length offs) + cycle_sum offs (q * length offs + m)"
    by (simp only: cycle_sum_add)
  with Suc show ?case by (simp add: algebra_simps)
qed simp

lemma cycle_sum_bound:
  assumes "\<forall>x \<in> set offs. \<bar>x\<bar> \<le> B" "offs \<noteq> []"
  shows "\<bar>cycle_sum offs a\<bar> \<le> int a * B"
proof (induction a)
  case (Suc a)
  have "offs ! (a mod length offs) \<in> set offs" using assms(2) by simp
  with assms(1) have "\<bar>offs ! (a mod length offs)\<bar> \<le> B" by blast
  with Suc show ?case by (simp add: cycle_sum_def algebra_simps)
qed (simp add: cycle_sum_def)

lemma SumOffsets_eq:
  assumes "\<forall>x \<in> set offs. \<bar>x\<bar> \<le> B" "0 \<le> B" "i + m \<le> length offs"
    and "\<bar>acc\<bar> + int m * B < 2 ^ 31"
  shows "SumOffsets offs i acc m = Some (acc + (\<Sum>k<m. offs ! (i + k)))"
  using assms(3,4)
proof (induction m arbitrary: i acc)
  case (Suc m)
  have x: "\<bar>offs ! i\<bar> \<le> B" using assms(1) Suc.prems(1) by simp
  have B: "0 \<le> int m * B" using assms(2) by simp
  have step: "\<bar>acc + offs ! i\<bar> + int m * B < 2 ^ 31" using Suc.prems(2) x by (simp add: algebra_simps)
  with B have "chk (acc + offs ! i) = Some (acc + offs ! i)" by (intro chk_abs) linarith
  moreover have "rd offs i = Some (offs ! i)" using Suc.prems(1) by simp
  moreover have "SumOffsets offs (Suc i) (acc + offs ! i) m
      = Some (acc + offs ! i + (\<Sum>k<m. offs ! (Suc i + k)))"
    using Suc.IH [of "Suc i"] Suc.prems(1) step by simp
  moreover have "offs ! i + (\<Sum>k<m. offs ! (Suc i + k)) = (\<Sum>k<Suc m. offs ! (i + k))"
    by (subst sum.lessThan_Suc_shift) simp
  ultimately show ?case by (simp only: SumOffsets.simps bind.bind_lunit add.assoc)
qed simp

lemma SumOffsets_cycle:
  assumes "\<forall>x \<in> set offs. \<bar>x\<bar> \<le> B" "0 \<le> B" "m \<le> length offs" "\<bar>acc\<bar> + int m * B < 2 ^ 31"
  shows "SumOffsets offs 0 acc m = Some (acc + cycle_sum offs m)"
proof -
  have "(\<Sum>k<m. offs ! (0 + k)) = cycle_sum offs m"
    unfolding cycle_sum_def using assms(3) by (intro sum.cong) simp_all
  then show ?thesis using SumOffsets_eq [OF assms(1,2), of 0 m acc] assms(3,4) by simp
qed

text \<open>The number of reference frame positions before the picture.\<close>

definition abs_frame_num :: "pocStorage \<Rightarrow> pocParams \<Rightarrow> pocSlice \<Rightarrow> nalUnit \<Rightarrow> nat" where
  "abs_frame_num poc sps sl nal =
     (if numRefFramesInPicOrderCntCycle sps = 0 then 0
      else unat (FrameNumOffset poc sps sl nal) + unat (frameNum sl) - (if nalRefIdc nal = 0 then 1 else 0))"

lemma abs_frame_num_word:
  assumes "unat (FrameNumOffset poc sps sl nal) + unat (frameNum sl) < 2 ^ 31"
    and "A = (if numRefFramesInPicOrderCntCycle sps \<noteq> 0 then FrameNumOffset poc sps sl nal + frameNum sl else 0)"
  shows "unat (if nalRefIdc nal = 0 \<and> A > 0 then A - 1 else A) = abs_frame_num poc sps sl nal"
proof (cases "numRefFramesInPicOrderCntCycle sps = 0")
  case False
  have "unat (FrameNumOffset poc sps sl nal + frameNum sl)
      = unat (FrameNumOffset poc sps sl nal) + unat (frameNum sl)"
    using assms(1) by (intro unat_add_lem [THEN iffD1]) simp
  with False have A: "unat A = unat (FrameNumOffset poc sps sl nal) + unat (frameNum sl)" using assms(2) by simp
  have "unat (A - 1) = unat A - 1" if "A > 0" using that by (simp add: unat_minus_one word_gt_0)
  with A False show ?thesis by (auto simp: abs_frame_num_def word_gt_0 unat_eq_0)
qed (use assms(2) in \<open>simp add: abs_frame_num_def\<close>)

lemma DecodePicOrderCnt1_expected:
  assumes n: "unat (numRefFramesInPicOrderCntCycle sps) = length (offsetForRefFrame sps)"
    and off: "unat (FrameNumOffset poc sps sl nal) + unat (frameNum sl) < 2 ^ 31"
    and B: "\<forall>x \<in> set (offsetForRefFrame sps). \<bar>x\<bar> \<le> B" "0 \<le> B"
    and range: "int (abs_frame_num poc sps sl nal + length (offsetForRefFrame sps)) * B < 2 ^ 29"
    and small: "\<bar>offsetForNonRefPic sps\<bar> < 2 ^ 27" "\<bar>fst (deltaPicOrderCnt sl)\<bar> < 2 ^ 27"
      "\<bar>offsetForTopToBottomField sps\<bar> < 2 ^ 27" "\<bar>snd (deltaPicOrderCnt sl)\<bar> < 2 ^ 27"
  shows "DecodePicOrderCnt1 poc sps sl nal mmco5 =
    Some (StoreFrameNum poc sl (FrameNumOffset poc sps sl nal) mmco5
      (cycle_sum (offsetForRefFrame sps) (abs_frame_num poc sps sl nal)
       + (if nalRefIdc nal = 0 then offsetForNonRefPic sps else 0) + fst (deltaPicOrderCnt sl)
       + min 0 (offsetForTopToBottomField sps + snd (deltaPicOrderCnt sl))))"
proof -
  define offs where "offs = offsetForRefFrame sps"
  define a where "a = abs_frame_num poc sps sl nal"
  define A0 where "A0 = (if numRefFramesInPicOrderCntCycle sps \<noteq> 0 then FrameNumOffset poc sps sl nal + frameNum sl else 0)"
  define A where "A = (if nalRefIdc nal = 0 \<and> A0 > 0 then A0 - 1 else A0)"
  have A: "unat A = a" unfolding A_def a_def by (rule abs_frame_num_word [OF off A0_def])
  have aB: "int a * B + int (length offs) * B < 2 ^ 29"
    using range by (simp add: a_def offs_def algebra_simps)
  have nonneg: "0 \<le> int a * B" "0 \<le> int (length offs) * B" using B(2) by simp_all
  have B': "\<forall>x \<in> set offs. \<bar>x\<bar> \<le> B" using B(1) by (simp add: offs_def)
  have all: "SumOffsets offs 0 0 (length offs) = Some (cycle_sum offs (length offs))"
    using SumOffsets_cycle [OF B' B(2) order_refl, of 0] aB nonneg by simp
  have sum_small: "\<bar>cycle_sum offs a\<bar> \<le> int a * B"
  proof (cases "offs = []")
    case True
    then have "a = 0" using n by (simp add: a_def abs_frame_num_def offs_def unat_eq_0)
    then show ?thesis by (simp add: cycle_sum_def)
  qed (rule cycle_sum_bound [OF B'])
  have expected: "(if A > 0
          then do {
            picOrderCnt \<leftarrow> chk (sint ((A - 1) div numRefFramesInPicOrderCntCycle sps) * cycle_sum offs (length offs));
            SumOffsets offs 0 picOrderCnt (Suc (unat ((A - 1) mod numRefFramesInPicOrderCntCycle sps)))
          }
          else Some 0) = Some (cycle_sum offs a)"
  proof (cases "A > 0")
    case True
    then have a0: "0 < a" using A by (simp add: word_gt_0 unat_gt_0 flip: A)
    then have len: "0 < length offs" using n by (auto simp: a_def abs_frame_num_def offs_def unat_eq_0 split: if_splits)
    have pred: "unat (A - 1) = a - 1" using True A by (simp add: unat_minus_one word_gt_0)
    define q r where "q = (a - 1) div length offs" and "r = (a - 1) mod length offs"
    have q: "unat ((A - 1) div numRefFramesInPicOrderCntCycle sps) = q"
      and r: "unat ((A - 1) mod numRefFramesInPicOrderCntCycle sps) = r"
      by (simp_all add: unat_div_distrib unat_mod_distrib pred n q_def r_def offs_def)
    have a_eq: "a = q * length offs + Suc r" using a0 by (simp add: q_def r_def)
    have rl: "Suc r \<le> length offs" using len by (simp add: r_def Suc_le_eq)
    have "a < 2 ^ 31" using off unfolding a_def abs_frame_num_def by auto
    moreover have "q \<le> a" unfolding q_def using div_le_dividend [of "a - 1" "length offs"] by linarith
    ultimately have "q < 2 ^ 31" by simp
    then have sq: "sint ((A - 1) div numRefFramesInPicOrderCntCycle sps) = int q"
      by (subst sint_small) (simp_all only: q)
    have "\<bar>cycle_sum offs (q * length offs)\<bar> \<le> int (q * length offs) * B"
      using len by (intro cycle_sum_bound [OF B']) auto
    then have qs: "\<bar>int q * cycle_sum offs (length offs)\<bar> \<le> int (q * length offs) * B"
      using cycle_sum_mult [of offs q 0] by (simp add: cycle_sum_def)
    have split: "int a * B = int (q * length offs) * B + int (Suc r) * B"
      unfolding a_eq by (simp add: algebra_simps)
    have r0: "0 \<le> int (Suc r) * B" using B(2) by simp
    have c: "chk (int q * cycle_sum offs (length offs)) = Some (int q * cycle_sum offs (length offs))"
      using bound_part [OF qs split r0 aB nonneg(2)] r0 by (intro chk_abs) linarith
    have "SumOffsets offs 0 (int q * cycle_sum offs (length offs)) (Suc r)
        = Some (int q * cycle_sum offs (length offs) + cycle_sum offs (Suc r))"
      by (rule SumOffsets_cycle [OF B' B(2) rl bound_part [OF qs split r0 aB nonneg(2)]])
    then have "SumOffsets offs 0 (int q * cycle_sum offs (length offs)) (Suc r) = Some (cycle_sum offs a)"
      by (simp only: a_eq cycle_sum_mult)
    with True show ?thesis by (simp add: sq r c del: SumOffsets.simps)
  next
    case False
    then have "a = 0" using A by (simp add: word_gt_0)
    with False show ?thesis by (simp add: cycle_sum_def)
  qed
  define e where "e = cycle_sum offs a + (if nalRefIdc nal = 0 then offsetForNonRefPic sps else 0)"
  have e_small: "\<bar>e\<bar> < 2 ^ 29 + 2 ^ 27" using sum_small aB nonneg small(1) by (auto simp: e_def)
  have s1: "(if nalRefIdc nal = 0 then chk (cycle_sum offs a + offsetForNonRefPic sps) else Some (cycle_sum offs a)) = Some e"
    using e_small sum_small aB nonneg by (auto simp: e_def)
  have s2: "chk (e + fst (deltaPicOrderCnt sl)) = Some (e + fst (deltaPicOrderCnt sl))"
    using e_small small(2) by (intro chk_abs) simp
  have s3: "chk (offsetForTopToBottomField sps + snd (deltaPicOrderCnt sl))
      = Some (offsetForTopToBottomField sps + snd (deltaPicOrderCnt sl))"
    using small(3,4) by (intro chk_abs) simp
  have s4: "(if offsetForTopToBottomField sps + snd (deltaPicOrderCnt sl) < 0
      then chk (e + fst (deltaPicOrderCnt sl) + (offsetForTopToBottomField sps + snd (deltaPicOrderCnt sl)))
      else Some (e + fst (deltaPicOrderCnt sl)))
      = Some (e + fst (deltaPicOrderCnt sl) + min 0 (offsetForTopToBottomField sps + snd (deltaPicOrderCnt sl)))"
    using e_small small(2-4) by (auto simp: min_def)
  show ?thesis
    unfolding DecodePicOrderCnt1_def Let_def A0_def [symmetric] A_def [symmetric] offs_def [symmetric]
      n all bind.bind_lunit expected s1 s2 s3 s4
    by (simp add: e_def a_def offs_def)
qed

section \<open>Type 2\<close>

text \<open>The counts of a run of pictures, in decoding order.\<close>

fun order_counts :: "pocStorage \<Rightarrow> pocParams \<Rightarrow> (pocSlice \<times> nalUnit) list \<Rightarrow> int list option" where
  "order_counts poc sps [] = Some []"
| "order_counts poc sps ((sl, nal) # pics) =
     do {
       (p, poc) \<leftarrow> h264bsdDecodePicOrderCnt poc sps sl nal;
       ps \<leftarrow> order_counts poc sps pics;
       Some (p # ps)
     }"

text \<open>Memory management operation 5 is in the list that the decoder reads.\<close>

definition marks_all_unused :: "pocSlice \<Rightarrow> bool" where
  "marks_all_unused sl \<longleftrightarrow>
     adaptiveRefPicMarkingModeFlag (decRefPicMarkingOf sl) \<and>
     ContainsMmco5 (operation (decRefPicMarkingOf sl)) = Some True"

lemma h264bsdDecodePicOrderCnt_type2:
  assumes "h264bsdDecodePicOrderCnt poc sps sl nal = Some r" "picOrderCntType sps = 2"
  shows "DecodePicOrderCnt2 poc sps sl nal (marks_all_unused sl) = Some r"
  using assms
  by (auto simp: h264bsdDecodePicOrderCnt_def marks_all_unused_def bind_eq_Some_conv split: if_splits)

text \<open>
  What the standard asks of consecutive pictures: the frame number changes, unless a reference
  picture follows a non-reference picture.
\<close>

definition frame_step :: "pocSlice \<times> nalUnit \<Rightarrow> pocSlice \<times> nalUnit \<Rightarrow> bool" where
  "frame_step = (\<lambda>(sl, nal) (sl', nal'). \<not> IS_IDR_NAL_UNIT nal' \<and>
     (frameNum sl = frameNum sl' \<longrightarrow> nalRefIdc nal = 0 \<and> nalRefIdc nal' \<noteq> 0))"

definition count2_of :: "u32 \<Rightarrow> pocSlice \<Rightarrow> nalUnit \<Rightarrow> int" where
  "count2_of off sl nal = 2 * (int (unat off) + int (unat (frameNum sl))) - (if nalRefIdc nal = 0 then 1 else 0)"

lemma DecodePicOrderCnt2_value:
  assumes "DecodePicOrderCnt2 poc sps sl nal False = Some (p, poc')" "\<not> IS_IDR_NAL_UNIT nal"
    and "unat (FrameNumOffset poc sps sl nal) + unat (frameNum sl) < 2 ^ 31"
  shows "p = count2_of (FrameNumOffset poc sps sl nal) sl nal"
    and "unat (FrameNumOffset poc sps sl nal) + unat (frameNum sl) \<le> 2 ^ 30"
    and "poc' = poc\<lparr>prevFrameNumOffset := FrameNumOffset poc sps sl nal, prevFrameNum := frameNum sl\<rparr>"
proof -
  define off where "off = FrameNumOffset poc sps sl nal"
  have u: "unat (off + frameNum sl) = unat off + unat (frameNum sl)"
    using assms(3) unfolding off_def by (intro unat_add_lem [THEN iffD1]) simp
  have s: "sint (off + frameNum sl) = int (unat off) + int (unat (frameNum sl))"
    using assms(3) [folded off_def] by (subst sint_small) (simp_all only: u of_nat_add)
  have "p = count2_of off sl nal \<and> 2 * (int (unat off) + int (unat (frameNum sl))) < 2 ^ 31
      \<and> poc' = poc\<lparr>prevFrameNumOffset := off, prevFrameNum := frameNum sl\<rparr>"
    using assms(1,2) unfolding DecodePicOrderCnt2_def Let_def off_def [symmetric] s
    by (auto simp: StoreFrameNum_def count2_of_def bind_eq_Some_conv simp del: of_nat_unat split: if_splits)
  moreover have "unat off + unat (frameNum sl) \<le> 2 ^ 30"
  proof -
    from calculation have "int (unat off) + int (unat (frameNum sl)) < 1073741824" by (simp del: of_nat_unat)
    then have "int (unat off + unat (frameNum sl)) < int 1073741824" by (simp only: of_nat_add of_nat_numeral)
    then have "unat off + unat (frameNum sl) < 1073741824" by (simp only: of_nat_less_iff)
    then show ?thesis by simp
  qed
  ultimately show "p = count2_of (FrameNumOffset poc sps sl nal) sl nal"
    "poc' = poc\<lparr>prevFrameNumOffset := FrameNumOffset poc sps sl nal, prevFrameNum := frameNum sl\<rparr>"
    "unat (FrameNumOffset poc sps sl nal) + unat (frameNum sl) \<le> 2 ^ 30"
    unfolding off_def by simp_all
qed

lemma count2_step:
  assumes prev: "prevFrameNum poc = frameNum sl" "unat (prevFrameNumOffset poc) \<le> 2 ^ 30"
    and fr: "unat (frameNum sl) < unat (maxFrameNum sps)" "unat (frameNum sl') < unat (maxFrameNum sps)"
      "unat (maxFrameNum sps) \<le> 2 ^ 16"
    and step: "frame_step (sl, nal) (sl', nal')"
    and dec: "DecodePicOrderCnt2 poc sps sl' nal' False = Some (p, poc')"
  shows "count2_of (prevFrameNumOffset poc) sl nal < p"
    and "p = count2_of (prevFrameNumOffset poc') sl' nal'"
    and "prevFrameNum poc' = frameNum sl'" and "unat (prevFrameNumOffset poc') \<le> 2 ^ 30"
proof -
  define off where "off = FrameNumOffset poc sps sl' nal'"
  have notidr: "\<not> IS_IDR_NAL_UNIT nal'" using step by (simp add: frame_step_def)
  have add: "unat (prevFrameNumOffset poc + maxFrameNum sps) = unat (prevFrameNumOffset poc) + unat (maxFrameNum sps)"
    using prev(2) fr(3) by (intro unat_add_lem [THEN iffD1]) simp
  have off: "unat off = unat (prevFrameNumOffset poc) + (if unat (frameNum sl') < unat (frameNum sl) then unat (maxFrameNum sps) else 0)"
    using notidr add by (simp add: off_def FrameNumOffset_def prev(1) word_less_nat_alt)
  have "unat off + unat (frameNum sl') < 2 ^ 31" using off prev(2) fr by (simp split: if_splits)
  note val = DecodePicOrderCnt2_value [OF dec notidr this [unfolded off_def], folded off_def]
  have same: "frameNum sl = frameNum sl' \<Longrightarrow> nalRefIdc nal = 0 \<and> nalRefIdc nal' \<noteq> 0"
    using step by (simp add: frame_step_def)
  show "count2_of (prevFrameNumOffset poc) sl nal < p"
  proof (cases "frameNum sl = frameNum sl'")
    case True
    then show ?thesis using same off unfolding val(1) count2_of_def by simp
  next
    case False
    then have "unat (frameNum sl) \<noteq> unat (frameNum sl')" by (simp add: word_unat_eq_iff)
    then have "unat (prevFrameNumOffset poc) + unat (frameNum sl) < unat off + unat (frameNum sl')"
      using off fr(1) by (simp split: if_splits)
    then show ?thesis unfolding val(1) count2_of_def by (simp del: of_nat_unat split: if_split)
  qed
  show "p = count2_of (prevFrameNumOffset poc') sl' nal'" "prevFrameNum poc' = frameNum sl'"
    using val(1) by (simp_all add: val(3))
  show "unat (prevFrameNumOffset poc') \<le> 2 ^ 30" using val(2) by (simp add: val(3))
qed

lemma order_counts_tail:
  "order_counts poc sps pics = Some ps \<Longrightarrow> successively frame_step ((sl, nal) # pics)
   \<Longrightarrow> picOrderCntType sps = 2 \<Longrightarrow> \<forall>(sl, nal) \<in> set pics. \<not> marks_all_unused sl
   \<Longrightarrow> prevFrameNum poc = frameNum sl \<Longrightarrow> unat (prevFrameNumOffset poc) \<le> 2 ^ 30
   \<Longrightarrow> unat (maxFrameNum sps) \<le> 2 ^ 16
   \<Longrightarrow> \<forall>(sl, nal) \<in> set ((sl, nal) # pics). unat (frameNum sl) < unat (maxFrameNum sps)
   \<Longrightarrow> sorted_wrt (<) (count2_of (prevFrameNumOffset poc) sl nal # ps)"
proof (induction pics arbitrary: poc sl nal ps)
  case (Cons pic pics)
  obtain sl' nal' where pic: "pic = (sl', nal')" by (cases pic)
  from Cons.prems(1) obtain p poc' ps' where
    dec': "h264bsdDecodePicOrderCnt poc sps sl' nal' = Some (p, poc')" and
    rest: "order_counts poc' sps pics = Some ps'" and ps: "ps = p # ps'"
    by (auto simp: pic bind_eq_Some_conv)
  have dec: "DecodePicOrderCnt2 poc sps sl' nal' False = Some (p, poc')"
    using h264bsdDecodePicOrderCnt_type2 [OF dec' Cons.prems(3)] Cons.prems(4) by (simp add: pic)
  have step: "frame_step (sl, nal) (sl', nal')" and more_steps: "successively frame_step ((sl', nal') # pics)"
    using Cons.prems(2) by (simp_all add: pic)
  have fr: "unat (frameNum sl) < unat (maxFrameNum sps)" "unat (frameNum sl') < unat (maxFrameNum sps)"
    using Cons.prems(8) by (simp_all add: pic)
  note val = count2_step [OF Cons.prems(5,6) fr Cons.prems(7) step dec]
  have "\<forall>(sl, nal) \<in> set ((sl', nal') # pics). unat (frameNum sl) < unat (maxFrameNum sps)"
    using Cons.prems(8) by (simp add: pic)
  from Cons.IH [OF rest more_steps Cons.prems(3) _ val(3,4) Cons.prems(7) this] Cons.prems(4) val(1,2)
  show ?case by (auto simp: ps)
qed simp

text \<open>
  From a picture that restarts the counting, an IDR picture or one with operation 5 (whose frame
  number counts as 0 afterwards), up to the next one.
\<close>

lemma order_counts_increasing:
  assumes dec: "order_counts poc sps ((sl, nal) # pics) = Some ps" and type: "picOrderCntType sps = 2"
    and start: "IS_IDR_NAL_UNIT nal \<and> frameNum sl = 0 \<or> marks_all_unused sl" and ref: "nalRefIdc nal \<noteq> 0"
    and quiet: "\<forall>(sl, nal) \<in> set pics. \<not> marks_all_unused sl"
    and steps: "successively frame_step ((sl\<lparr>frameNum := 0\<rparr>, nal) # pics)"
    and fr: "unat (maxFrameNum sps) \<le> 2 ^ 16"
      "\<forall>(sl, nal) \<in> set ((sl, nal) # pics). unat (frameNum sl) < unat (maxFrameNum sps)"
  shows "sorted_wrt (<) ps \<and> hd ps = 0 \<and> length ps = Suc (length pics)"
proof -
  define poc1 where "poc1 = poc\<lparr>prevFrameNumOffset := 0, prevFrameNum := 0\<rparr>"
  from dec obtain p poc' ps' where
    d: "h264bsdDecodePicOrderCnt poc sps sl nal = Some (p, poc')" "order_counts poc' sps pics = Some ps'" "ps = p # ps'"
    by (auto simp: bind_eq_Some_conv)
  note two = h264bsdDecodePicOrderCnt_type2 [OF d(1) type]
  have "p = 0 \<and> poc' = poc1"
  proof (cases "marks_all_unused sl")
    case True
    with two show ?thesis
      by (auto simp: DecodePicOrderCnt2_def StoreFrameNum_def poc1_def Let_def bind_eq_Some_conv)
  next
    case False
    with two start show ?thesis
      by (auto simp: DecodePicOrderCnt2_def FrameNumOffset_def StoreFrameNum_def poc1_def)
  qed
  then have ps: "ps = 0 # ps'" and rest: "order_counts poc1 sps pics = Some ps'" using d(2,3) by simp_all
  have "sorted_wrt (<) (count2_of (prevFrameNumOffset poc1) (sl\<lparr>frameNum := 0\<rparr>) nal # ps')"
    using fr(2) by (intro order_counts_tail [OF rest steps type quiet _ _ fr(1)]) (auto simp: poc1_def)
  moreover have "length ps' = length pics" if "order_counts q sps pics = Some ps'" for q
    using that by (induction pics arbitrary: q ps') (auto simp: bind_eq_Some_conv)
  ultimately show ?thesis using rest ref by (simp add: ps count2_of_def poc1_def)
qed

end
