(* ===== verification/H264Util.thy ===== *)
theory H264Util
  imports H264Stream
begin

text \<open>
  Macroblock addressing (\<open>h264bsd_util.c\<close>): the next macroblock of a slice group and the
  addresses of a macroblock's samples in the current picture, with the proofs that iterating
  the former visits a slice group and that the latter lays the macroblocks out in raster order
  inside the picture.
\<close>

section \<open>The code\<close>

function h264bsdNextMbAddressLoop :: "u32 list \<Rightarrow> u32 \<Rightarrow> u32 \<Rightarrow> u32 \<Rightarrow> u32 option" where
  "h264bsdNextMbAddressLoop pSliceGroupMap picSizeInMbs sliceGroup i =
     (if i < picSizeInMbs
      then do {
        g \<leftarrow> rd pSliceGroupMap (unat i);
        if g \<noteq> sliceGroup
        then h264bsdNextMbAddressLoop pSliceGroupMap picSizeInMbs sliceGroup (i + 1)
        else Some i
      }
      else Some i)"
  by pat_completeness auto
termination
proof (relation "measure (\<lambda>(m, n, g, i). unat n - unat i)")
  fix m :: "u32 list" and n g i x :: u32
  assume "i < n"
  then have "unat i < unat n" by (simp add: word_less_nat_alt)
  moreover from this have "unat (i + 1) = unat i + 1"
    using unsigned_less [of n, where ?'a = nat] unat_add_lem [of i 1] by simp
  ultimately show "((m, n, g, i + 1), m, n, g, i) \<in> measure (\<lambda>(m, n, g, i). unat n - unat i)" by simp
qed simp

declare h264bsdNextMbAddressLoop.simps [simp del]

definition h264bsdNextMbAddress :: "u32 list \<Rightarrow> u32 \<Rightarrow> u32 \<Rightarrow> u32 option" where
  "h264bsdNextMbAddress pSliceGroupMap picSizeInMbs currMbAddr =
     do {
       sliceGroup \<leftarrow> rd pSliceGroupMap (unat currMbAddr);
       i \<leftarrow> h264bsdNextMbAddressLoop pSliceGroupMap picSizeInMbs sliceGroup (currMbAddr + 1);
       Some (if i = picSizeInMbs then 0 else i)
     }"

text \<open>
  Pointers into the picture are offsets from \<open>image->data\<close>, which is \<open>0\<close>. The products are
  computed in 32 bits; each is added to a pointer.
\<close>

record image =
  imgWidth :: u32
  imgHeight :: u32
  imgLuma :: nat
  imgCb :: nat
  imgCr :: nat

definition h264bsdSetCurrImageMbPointers :: "image \<Rightarrow> u32 \<Rightarrow> image option" where
  "h264bsdSetCurrImageMbPointers img mbNum =
     (let width = imgWidth img; height = imgHeight img
      in if width = 0 then None
         else
           let row = mbNum div width; col = mbNum mod width;
               tmp = row * width; picSize = width * height;
               cb = unat (picSize * 256) + unat (tmp * 64) + unat (col * 8)
           in Some (img\<lparr>imgLuma := unat (col * 16) + unat (tmp * 256), imgCb := cb,
                        imgCr := cb + unat (picSize * 64)\<rparr>))"

section \<open>The next macroblock\<close>

lemma u32_inc: "unat (i :: u32) < unat (n :: u32) \<Longrightarrow> unat (i + 1) = unat i + 1"
  using unsigned_less [of n, where ?'a = nat] unat_add_lem [of i 1] by simp

lemma NextMbAddressLoop_spec:
  assumes "unat i \<le> unat n" "unat n \<le> length m"
  shows "\<exists>j. h264bsdNextMbAddressLoop m n g i = Some j \<and> unat i \<le> unat j \<and> unat j \<le> unat n
    \<and> (\<forall>k. unat i \<le> k \<and> k < unat j \<longrightarrow> m ! k \<noteq> g) \<and> (unat j < unat n \<longrightarrow> m ! unat j = g)"
  using assms
proof (induction "unat n - unat i" arbitrary: i rule: less_induct)
  case less
  show ?case
  proof (cases "unat i < unat n \<and> m ! unat i \<noteq> g")
    case True
    note inc = u32_inc [OF conjunct1 [OF True]]
    have "unat n - unat (i + 1) < unat n - unat i" "unat (i + 1) \<le> unat n"
      using conjunct1 [OF True] inc by linarith+
    from less.hyps [OF this less.prems(2)] obtain j where
      j: "h264bsdNextMbAddressLoop m n g (i + 1) = Some j" "unat (i + 1) \<le> unat j" "unat j \<le> unat n"
      "\<forall>k. unat (i + 1) \<le> k \<and> k < unat j \<longrightarrow> m ! k \<noteq> g" "unat j < unat n \<longrightarrow> m ! unat j = g" by blast
    have "h264bsdNextMbAddressLoop m n g i = Some j"
      using True j(1) less.prems by (subst h264bsdNextMbAddressLoop.simps) (simp add: word_less_nat_alt)
    moreover have "m ! k \<noteq> g" if "unat i \<le> k" "k < unat j" for k
      using True j(4) that inc by (cases "k = unat i") auto
    ultimately show ?thesis using j inc by auto
  next
    case False
    then have "h264bsdNextMbAddressLoop m n g i = Some i"
      using less.prems by (subst h264bsdNextMbAddressLoop.simps) (auto simp: word_less_nat_alt)
    with False less.prems show ?thesis by auto
  qed
qed

lemma NextMbAddress_spec:
  assumes "unat c < unat n" "unat n \<le> length m"
  shows "\<exists>j. h264bsdNextMbAddress m n c = Some j \<and> unat j < unat n
    \<and> (if j = 0 then \<forall>k. unat c < k \<and> k < unat n \<longrightarrow> m ! k \<noteq> m ! unat c
       else unat c < unat j \<and> m ! unat j = m ! unat c
         \<and> (\<forall>k. unat c < k \<and> k < unat j \<longrightarrow> m ! k \<noteq> m ! unat c))"
proof -
  note inc = u32_inc [OF assms(1)]
  have "unat (c + 1) \<le> unat n" using inc assms(1) by simp
  from NextMbAddressLoop_spec [OF this assms(2), of "m ! unat c"] obtain j where
    j: "h264bsdNextMbAddressLoop m n (m ! unat c) (c + 1) = Some j" "unat c + 1 \<le> unat j" "unat j \<le> unat n"
      "\<forall>k. unat c + 1 \<le> k \<and> k < unat j \<longrightarrow> m ! k \<noteq> m ! unat c" "unat j < unat n \<longrightarrow> m ! unat j = m ! unat c"
    unfolding inc by blast
  have "h264bsdNextMbAddress m n c = Some (if j = n then 0 else j)"
    using j(1) assms by (simp add: h264bsdNextMbAddress_def)
  moreover have "j = n \<longleftrightarrow> unat j = unat n" by (simp add: word_unat_eq_iff)
  moreover have "j \<noteq> 0" using j(2) by auto
  ultimately show ?thesis using j assms(1) by (cases "j = n") (auto simp: Suc_le_eq)
qed

text \<open>Following the addresses from a macroblock on.\<close>

fun follow_group :: "nat \<Rightarrow> u32 list \<Rightarrow> u32 \<Rightarrow> u32 \<Rightarrow> nat list option" where
  "follow_group 0 m n c = None"
| "follow_group (Suc fuel) m n c =
     do {
       j \<leftarrow> h264bsdNextMbAddress m n c;
       if j = 0 then Some [unat c]
       else do { js \<leftarrow> follow_group fuel m n j; Some (unat c # js) }
     }"

lemma follow_group_spec:
  "unat c < unat n \<Longrightarrow> unat n \<le> length m \<Longrightarrow> unat n - unat c \<le> fuel
   \<Longrightarrow> follow_group fuel m n c = Some (filter (\<lambda>k. m ! k = m ! unat c) [unat c..<unat n])"
proof (induction fuel arbitrary: c)
  case (Suc fuel)
  obtain j where j: "h264bsdNextMbAddress m n c = Some j" "unat j < unat n"
    "if j = 0 then \<forall>k. unat c < k \<and> k < unat n \<longrightarrow> m ! k \<noteq> m ! unat c
       else unat c < unat j \<and> m ! unat j = m ! unat c
         \<and> (\<forall>k. unat c < k \<and> k < unat j \<longrightarrow> m ! k \<noteq> m ! unat c)"
    using NextMbAddress_spec [OF Suc.prems(1,2)] by blast
  have head: "[unat c..<unat n] = unat c # [Suc (unat c)..<unat n]" using Suc.prems(1) by (simp add: upt_conv_Cons)
  show ?case
  proof (cases "j = 0")
    case True
    have "\<forall>k \<in> set [Suc (unat c)..<unat n]. m ! k \<noteq> m ! unat c" using j(3) True by auto
    then have "filter (\<lambda>k. m ! k = m ! unat c) [Suc (unat c)..<unat n] = []"
      by (simp only: filter_empty_conv)
    with True j(1) head show ?thesis by simp
  next
    case False
    have "[Suc (unat c)..<unat n] = [Suc (unat c)..<unat j] @ [unat j..<unat n]"
      using j False upt_add_eq_append [of "Suc (unat c)" "unat j" "unat n - unat j"] by simp
    moreover have "\<forall>k \<in> set [Suc (unat c)..<unat j]. m ! k \<noteq> m ! unat c" using j(3) False by auto
    then have "filter (\<lambda>k. m ! k = m ! unat c) [Suc (unat c)..<unat j] = []"
      by (simp only: filter_empty_conv)
    moreover have "follow_group fuel m n j = Some (filter (\<lambda>k. m ! k = m ! unat j) [unat j..<unat n])"
    proof -
      have "unat c < unat j" using j(3) False by simp
      then have "unat n - unat j \<le> fuel" using j(2) Suc.prems(3) by linarith
      from Suc.IH [OF j(2) Suc.prems(2) this] show ?thesis .
    qed
    ultimately show ?thesis using False j(1,3) head by simp
  qed
qed simp

section \<open>The samples of a macroblock\<close>

lemma MbPointers_raster:
  assumes "h264bsdSetCurrImageMbPointers img mb = Some img'"
    and "unat mb < unat (imgWidth img) * unat (imgHeight img)"
    and "unat (imgWidth img) * unat (imgHeight img) * 384 < 2 ^ 32"
  defines "w \<equiv> unat (imgWidth img)" and "h \<equiv> unat (imgHeight img)"
  defines "row \<equiv> unat mb div w" and "col \<equiv> unat mb mod w"
  shows "imgLuma img' = row * 16 * (16 * w) + col * 16"
    and "imgCb img' = 256 * (w * h) + (row * 8 * (8 * w) + col * 8)"
    and "imgCr img' = 320 * (w * h) + (row * 8 * (8 * w) + col * 8)"
    and "row < h" "col < w"
proof -
  have w0: "0 < w" using assms(2) by (cases "w = 0") (simp_all add: w_def)
  show rc: "row < h" "col < w"
    using assms(2) w0 by (simp_all add: row_def col_def w_def [symmetric] h_def [symmetric] less_mult_imp_div_less mult.commute)
  have un: "unat (mb div imgWidth img) = row" "unat (mb mod imgWidth img) = col"
    by (simp_all add: row_def col_def w_def unat_div_distrib unat_mod_distrib)
  have rw: "row * w \<le> unat mb" by (simp add: row_def)
  have mul: "unat (a * b) = unat a * unat b" if "unat a * unat b < 2 ^ 32" for a b :: u32
    using that unat_mult_lem [of a b] by simp
  define P where "P = w * h"
  define R where "R = row * w"
  have size: "P * 384 < 2 ^ 32" "R + col < P"
    using assms(2,3) rw by (simp_all add: w_def h_def P_def R_def row_def col_def)
  have tmp: "unat (mb div imgWidth img * imgWidth img) = R"
    using size by (subst mul) (simp_all add: un w_def [symmetric] R_def [symmetric])
  have ps: "unat (imgWidth img * imgHeight img) = P"
    using size by (subst mul) (simp_all add: w_def [symmetric] h_def [symmetric] P_def [symmetric])
  have c16: "unat (mb mod imgWidth img * 16) = col * 16" using size by (subst mul) (simp_all add: un)
  have c8: "unat (mb mod imgWidth img * 8) = col * 8" using size by (subst mul) (simp_all add: un)
  have t256: "unat (mb div imgWidth img * imgWidth img * 256) = R * 256"
    using size by (subst mul) (simp_all add: tmp)
  have t64: "unat (mb div imgWidth img * imgWidth img * 64) = R * 64"
    using size by (subst mul) (simp_all add: tmp)
  have p256: "unat (imgWidth img * imgHeight img * 256) = P * 256" using size by (subst mul) (simp_all add: ps)
  have p64: "unat (imgWidth img * imgHeight img * 64) = P * 64" using size by (subst mul) (simp_all add: ps)
  have "imgWidth img \<noteq> 0" using w0 by (auto simp: w_def)
  then have img': "img' = img\<lparr>imgLuma := col * 16 + R * 256, imgCb := P * 256 + R * 64 + col * 8,
      imgCr := P * 256 + R * 64 + col * 8 + P * 64\<rparr>"
    using assms(1) by (simp add: h264bsdSetCurrImageMbPointers_def Let_def c16 c8 t256 t64 p256 p64)
  show "imgLuma img' = row * 16 * (16 * w) + col * 16"
    "imgCb img' = 256 * (w * h) + (row * 8 * (8 * w) + col * 8)"
    "imgCr img' = 320 * (w * h) + (row * 8 * (8 * w) + col * 8)"
    by (simp_all add: img' P_def R_def)
qed

end
