(* ===== verification/H264CodeProps.thy ===== *)
theory H264CodeProps
  imports H264CodeLaws H264NalFacts H264PocFacts H264Util
begin

text \<open>
  Properties of the bit stream side of the H.264 decoder: code words, NAL units, macroblock
  addresses and picture order counts, each with a concrete instance.
\<close>

lemma accepted_Some: "accepted r = Some (v, s) \<longleftrightarrow> r = Some (HANTRO_OK, v, s)"
  by (auto simp: accepted_def split: option.splits if_splits)

section \<open>Code words\<close>

text \<open>C11. The unsigned decoder succeeds with \<open>v\<close> exactly when the remaining bits start with the
  Exp-Golomb code of \<open>v\<close>, and it consumes that code.\<close>

theorem unsigned_code_exact:
  assumes "strm_ok s"
  shows "(\<exists>s'. h264bsdDecodeExpGolombUnsigned s 0 = Some (HANTRO_OK, v, s') \<and> rest s' = bs)
    \<longleftrightarrow> rest s = ue_code (unat v) @ bs"
  using ue.dec_iff [OF assms, of v bs] by (simp add: accepted_Some)

text \<open>The bits \<open>00101 1\<close>: the code of 4 and one more bit.\<close>

definition sample_stream :: "bytes \<Rightarrow> strmData" where
  "sample_stream mem = \<lparr>strmMem = mem, pStrmBuffStart = 0, pStrmCurrPos = 0, bitPosInWord = 0,
     strmBuffSize = of_nat (length mem), strmBuffReadBits = 0\<rparr>"

lemma sample_ok: "length mem \<le> 100 \<Longrightarrow> strm_ok (sample_stream mem)"
  using fresh_stream_ok [of 0 "length mem" mem] by (simp add: sample_stream_def)

lemma sample_payload: "length mem \<le> 100 \<Longrightarrow> rest (sample_stream mem) = concat (map byte_bits_list mem)"
  by (subst payload_bits) (simp_all add: sample_stream_def in_window_def payload_def unat_small)

theorem unsigned_code_exact_witness:
  "\<exists>s'. h264bsdDecodeExpGolombUnsigned (sample_stream [0x2C]) 0 = Some (HANTRO_OK, 4, s')
    \<and> rest s' = [True, False, False]"
proof -
  have "rest (sample_stream [0x2C]) = ue_code (unat (4 :: u32)) @ [True, False, False]"
    by (subst sample_payload) (simp, code_simp)
  then show ?thesis using unsigned_code_exact [OF sample_ok, of "[0x2C]" 4 "[True, False, False]"] by simp
qed

text \<open>C12. Reading as many signed codes as were written gives back the numbers written, all of the
  32 bit range, and leaves what follows them.\<close>

theorem signed_codes_roundtrip:
  assumes "strm_ok s" "\<forall>v \<in> set vs. i32_range v" "rest s = concat (map (\<lambda>k. ue_code (se_num k)) vs) @ bs"
  shows "\<exists>s'. dec_seq (\<lambda>s. accepted (h264bsdDecodeExpGolombSigned s 0)) (length vs) s = Some (vs, s')
    \<and> strm_ok s' \<and> rest s' = bs"
  using assms by (intro se.seq_roundtrip) auto

theorem signed_codes_roundtrip_witness:
  "\<exists>s'. dec_seq (\<lambda>s. accepted (h264bsdDecodeExpGolombSigned s 0)) (length [- 1, 2 :: int]) (sample_stream [0x64])
     = Some ([- 1, 2 :: int], s') \<and> strm_ok s' \<and> rest s' = []"
proof (rule signed_codes_roundtrip)
  show "strm_ok (sample_stream [0x64])" by (rule sample_ok) simp
  show "\<forall>v \<in> set [- 1, 2 :: int]. i32_range v" by (simp add: i32_range_def)
  show "rest (sample_stream [0x64]) = concat (map (\<lambda>k. ue_code (se_num k)) [- 1, 2 :: int]) @ []"
    by (subst sample_payload) (simp, code_simp)
qed

text \<open>A mapped code always decodes to a coded block pattern below 48, and the bits consumed are
  the one code the pattern has in the table.\<close>

theorem mapped_pattern:
  assumes "strm_ok s"
  shows "\<exists>status v s'. h264bsdDecodeExpGolombMapped s 0 intra = Some (status, v, s')
    \<and> (status = HANTRO_OK \<longrightarrow> v < 48 \<and> strm_ok s' \<and> rest s
         = ue_code (code_index (if intra then codedBlockPatternIntra4x4 else codedBlockPatternInter) v) @ rest s')"
proof -
  obtain status v s' where r: "h264bsdDecodeExpGolombMapped s 0 intra = Some (status, v, s')"
    using Mapped_result(2) [OF assms, of 0 intra] by (cases "h264bsdDecodeExpGolombMapped s 0 intra") auto
  then show ?thesis
    using intra.dec_sound [OF assms, of v s'] inter.dec_sound [OF assms, of v s']
    by (cases intra) (auto simp: accepted_Some)
qed

theorem mapped_pattern_witness:
  "\<exists>status v s'. h264bsdDecodeExpGolombMapped (sample_stream [0xFF]) 0 True = Some (status, v, s')
    \<and> (status = HANTRO_OK \<longrightarrow> v < 48 \<and> strm_ok s' \<and> rest (sample_stream [0xFF])
         = ue_code (code_index (if True then codedBlockPatternIntra4x4 else codedBlockPatternInter) v) @ rest s')"
  by (rule mapped_pattern) (simp add: sample_ok)


text \<open>C13. The test for more data fails exactly on a stream with nothing left or nothing but the
  trailing bits, and in the second case the check of the trailing bits succeeds and consumes all.\<close>

theorem trailing_bits_end_payload:
  assumes "strm_ok s"
  shows "\<exists>more. h264bsdMoreRbspData s = Some more \<and>
    (\<not> more \<and> rest s \<noteq> [] \<longleftrightarrow> (\<exists>s'. h264bsdRbspTrailingBits s = Some (HANTRO_OK, s') \<and> rest s' = []))"
proof -
  define n where "n = 8 - unat (bitPosInWord s)"
  define more where "more \<longleftrightarrow> \<not> (rest s = [] \<or> length (rest s) \<le> 8 \<and> rest s = trailing_bits (length (rest s)))"
  have m: "h264bsdMoreRbspData s = Some more" using MoreRbspData_spec [OF assms] by (simp add: more_def)
  obtain t where t: "h264bsdRbspTrailingBits s
      = Some (if take n (rest s) = trailing_bits n then HANTRO_OK else HANTRO_NOK, t)"
    "n \<le> length (rest s) \<longrightarrow> rest t = drop n (rest s)"
    using RbspTrailingBits_spec [OF assms] unfolding n_def by blast
  have left: "length (rest s) = 8 * unat (strmBuffSize s) - unat (strmBuffReadBits s)"
    by (simp add: rest_def)
  have n: "0 < n" "n \<le> 8" "n = 8 - unat (strmBuffReadBits s) mod 8"
    using assms by (simp_all add: n_def strm_ok_def)
  have eight: "length (rest s) = n" if "length (rest s) \<le> 8" "rest s \<noteq> []"
  proof -
    have pos: "0 < length (rest s)" using that(2) by simp
    then have "unat (strmBuffReadBits s) = 8 * (unat (strmBuffSize s) - 1) + (8 - length (rest s))"
      using that(1) left by linarith
    then have "unat (strmBuffReadBits s) mod 8 = 8 - length (rest s)" using pos by simp
    then show ?thesis using that(1) n(3) by simp
  qed
  have "\<not> more \<and> rest s \<noteq> [] \<longleftrightarrow> rest s = trailing_bits n"
  proof
    assume "\<not> more \<and> rest s \<noteq> []"
    then have "rest s \<noteq> []" "length (rest s) \<le> 8" "rest s = trailing_bits (length (rest s))"
      unfolding more_def by blast+
    with eight show "rest s = trailing_bits n" by metis
  next
    assume r: "rest s = trailing_bits n"
    then have "length (rest s) = n" using n(1) by simp
    with r n(1,2) show "\<not> more \<and> rest s \<noteq> []" by (auto simp: more_def trailing_bits_def)
  qed
  also have "\<dots> \<longleftrightarrow> (\<exists>s'. h264bsdRbspTrailingBits s = Some (HANTRO_OK, s') \<and> rest s' = [])"
  proof
    assume r: "rest s = trailing_bits n"
    then have "length (rest s) = n" using n(1) by simp
    with r t show "\<exists>s'. h264bsdRbspTrailingBits s = Some (HANTRO_OK, s') \<and> rest s' = []" by simp
  next
    assume "\<exists>s'. h264bsdRbspTrailingBits s = Some (HANTRO_OK, s') \<and> rest s' = []"
    then have ok: "take n (rest s) = trailing_bits n" "rest t = []"
      using t(1) by (auto split: if_splits)
    have "n \<le> length (rest s)" using arg_cong [OF ok(1), of length] n(1) by simp
    with t(2) ok show "rest s = trailing_bits n" by simp
  qed
  finally show ?thesis using m by blast
qed

theorem trailing_bits_end_payload_witness:
  "\<exists>more. h264bsdMoreRbspData (sample_stream [0x80]) = Some more \<and>
    (\<not> more \<and> rest (sample_stream [0x80]) \<noteq> []
      \<longleftrightarrow> (\<exists>s'. h264bsdRbspTrailingBits (sample_stream [0x80]) = Some (HANTRO_OK, s') \<and> rest s' = []))"
  by (rule trailing_bits_end_payload) (simp add: sample_ok)

section \<open>NAL units\<close>

definition nal0 :: nalUnit where
  "nal0 = \<lparr>nalUnitType = 0, nalRefIdc = 0\<rparr>"

lemma nal_end_bound:
  "zc \<le> n \<Longrightarrow> nal_end n zc he bad xs = (sz, z, he', bad') \<Longrightarrow> sz + z \<le> n + length xs"
proof (induction xs arbitrary: n zc he bad)
  case (Cons b xs)
  show ?case
  proof (cases "b = 1 \<and> (if b = 0 then Suc zc else zc) \<ge> 2 \<or> xs = []")
    case True
    then show ?thesis using Cons.prems by (auto simp: Let_def split: if_splits)
  next
    case False
    define zc' where "zc' = (if b = 0 then Suc zc else zc)"
    have le: "(if b \<noteq> 0 then 0 else zc') \<le> Suc n" using Cons.prems(1) by (simp add: zc'_def)
    have "nal_end n zc he bad (b # xs) = nal_end (Suc n) (if b \<noteq> 0 then 0 else zc')
        (he \<or> b = 3 \<and> zc' = 2) (bad \<or> b \<noteq> 0 \<and> zc' \<ge> 3) xs"
    proof -
      have go: "\<not> (b = 1 \<and> zc' \<ge> 2)" "xs \<noteq> []" using False by (auto simp: zc'_def)
      show ?thesis unfolding nal_end.simps Let_def zc'_def [symmetric] if_not_P [OF go(1)] if_not_P [OF go(2)] ..
    qed
    then have "nal_end (Suc n) (if b \<noteq> 0 then 0 else zc')
        (he \<or> b = 3 \<and> zc' = 2) (bad \<or> b \<noteq> 0 \<and> zc' \<ge> 3) xs = (sz, z, he', bad')"
      using Cons.prems(2) by (simp only:)
    from Cons.IH [OF le this] show ?thesis by simp
  qed
qed auto

lemma nal_unit_of_bound: "snd (nal_unit_of mem) \<le> length mem"
proof (cases "annexB_start mem \<and> start_scan 2 2 (drop 2 mem) \<noteq> None")
  case True
  then obtain i where i: "start_scan 2 2 (drop 2 mem) = Some i" by auto
  have bound: "start_scan n zc xs = Some i \<Longrightarrow> i \<le> n + length xs" for n zc xs
    by (induction n zc xs rule: start_scan.induct) (auto split: if_splits)
  have "i \<le> length mem" using bound [OF i] True unfolding annexB_start_def length_drop by linarith
  moreover obtain sz z he bad where e: "nal_end 0 0 False False (drop i mem) = (sz, z, he, bad)"
    by (metis prod_cases4)
  moreover have "sz + z \<le> length (drop i mem)" using nal_end_bound [OF _ e] by simp
  ultimately show ?thesis using True i by (simp add: nal_unit_of_def)
qed (auto simp: nal_unit_of_def)

text \<open>C14. On every buffer the extraction ends without leaving the buffer, reports at most the bytes
  of the buffer as consumed, and returns what the list specification returns: nothing, or a
  stream over the unescaped payload.\<close>

theorem extraction_refines:
  assumes "length mem \<le> 2 ^ 27"
  shows "\<exists>ex. h264bsdExtractNalUnit mem (of_nat (length mem)) strm = Some ex
    \<and> unat (exReadBytes ex) = snd (nal_unit_of mem) \<and> unat (exReadBytes ex) \<le> length mem
    \<and> (case fst (nal_unit_of mem) of
         None \<Rightarrow> exStatus ex = HANTRO_NOK
       | Some p \<Rightarrow> exStatus ex = HANTRO_OK \<and> strm_ok (exStream ex) \<and> payload (exStream ex) = p)"
proof -
  have "unat (of_nat (snd (nal_unit_of mem)) :: u32) = snd (nal_unit_of mem)"
    using nal_unit_of_bound [of mem] assms by (intro unat_small) simp
  with ExtractNalUnit_refines [OF assms, of strm] nal_unit_of_bound [of mem] show ?thesis
    by (fastforce split: option.splits)
qed

theorem extraction_refines_witness:
  "\<exists>ex. h264bsdExtractNalUnit [0, 0, 1, 0x67] (of_nat (length [0, 0, 1, 0x67 :: byte])) (sample_stream []) = Some ex
    \<and> unat (exReadBytes ex) = snd (nal_unit_of [0, 0, 1, 0x67]) \<and> unat (exReadBytes ex) \<le> length [0, 0, 1, 0x67 :: byte]
    \<and> (case fst (nal_unit_of [0, 0, 1, 0x67]) of
         None \<Rightarrow> exStatus ex = HANTRO_NOK
       | Some p \<Rightarrow> exStatus ex = HANTRO_OK \<and> strm_ok (exStream ex) \<and> payload (exStream ex) = p)"
  by (rule extraction_refines) simp

text \<open>C15. A unit written with a start code and escaped, between zeros and before the end or the next
  start code, is extracted and its header read back; the bits left are those of its payload.\<close>

theorem unit_roundtrip:
  assumes "p = b # rbsp" "last p \<noteq> 0" "length (byte_stream k p t following) \<le> 2 ^ 27"
  shows "\<exists>ex s'. h264bsdExtractNalUnit (byte_stream k p t following) (of_nat (length (byte_stream k p t following))) strm
        = Some ex \<and> exStatus ex = HANTRO_OK
    \<and> unat (exReadBytes ex) = (case following of
        None \<Rightarrow> length (byte_stream k p t following)
      | Some cont \<Rightarrow> k + 3 + length (escape 0 p) + (t - 1))
    \<and> h264bsdDecodeNalUnit (exStream ex) nal
      = Some (if header_ok (unat b div 32 mod 4) (unat b mod 32) then HANTRO_OK else HANTRO_NOK,
              nal\<lparr>nalRefIdc := of_nat (unat b div 32 mod 4), nalUnitType := of_nat (unat b mod 32)\<rparr>, s')
    \<and> rest s' = concat (map byte_bits_list rbsp)"
proof -
  define mem where "mem = byte_stream k p t following"
  have p: "p \<noteq> []" using assms(1) by simp
  note unit = nal_unit_of_byte_stream [OF p assms(2), of k t following, folded mem_def]
  have len: "length mem \<le> 2 ^ 27" using assms(3) by (simp add: mem_def)
  obtain ex where ex: "h264bsdExtractNalUnit mem (of_nat (length mem)) strm = Some ex"
    "exReadBytes ex = of_nat (snd (nal_unit_of mem))" "exStatus ex = HANTRO_OK" "strm_ok (exStream ex)"
    "payload (exStream ex) = p" "strmBuffReadBits (exStream ex) = 0"
    using ExtractNalUnit_refines [OF len, of strm] unfolding unit by auto
  have "unat (exReadBytes ex) = snd (nal_unit_of mem)"
    unfolding ex(2) using nal_unit_of_bound [of mem] len by (intro unat_small) simp
  moreover have "rest (exStream ex) = byte_bits_list b @ concat (map byte_bits_list rbsp)"
    using payload_bits [OF _ ex(6)] ex(4,5) assms(1) by (simp add: strm_ok_def)
  from DecodeNalUnit_spec [OF ex(4) this, of nal] obtain s' where
    "h264bsdDecodeNalUnit (exStream ex) nal
      = Some (if header_ok (unat b div 32 mod 4) (unat b mod 32) then HANTRO_OK else HANTRO_NOK,
              nal\<lparr>nalRefIdc := of_nat (unat b div 32 mod 4), nalUnitType := of_nat (unat b mod 32)\<rparr>, s')"
    "rest s' = concat (map byte_bits_list rbsp)" by blast
  ultimately show ?thesis using ex(1,3) unit unfolding mem_def by fastforce
qed

theorem unit_roundtrip_witness:
  "\<exists>ex s'. h264bsdExtractNalUnit (byte_stream 1 [0x65, 0, 0, 1] 1 None)
        (of_nat (length (byte_stream 1 [0x65, 0, 0, 1] 1 None))) (sample_stream []) = Some ex \<and> exStatus ex = HANTRO_OK
    \<and> unat (exReadBytes ex) = (case (None :: bytes option) of
        None \<Rightarrow> length (byte_stream 1 [0x65, 0, 0, 1] 1 None)
      | Some cont \<Rightarrow> 1 + 3 + length (escape 0 [0x65, 0, 0, 1]) + (1 - 1))
    \<and> h264bsdDecodeNalUnit (exStream ex) nal0
      = Some (if header_ok (unat (0x65 :: byte) div 32 mod 4) (unat (0x65 :: byte) mod 32) then HANTRO_OK else HANTRO_NOK,
              nal0\<lparr>nalRefIdc := of_nat (unat (0x65 :: byte) div 32 mod 4),
                   nalUnitType := of_nat (unat (0x65 :: byte) mod 32)\<rparr>, s')
    \<and> rest s' = concat (map byte_bits_list [0, 0, 1])"
  by (rule unit_roundtrip) (simp_all add: byte_stream_def)


section \<open>Macroblock addresses\<close>

text \<open>C16. Following \<open>h264bsdNextMbAddress\<close> from a macroblock visits, in increasing order, exactly the
  macroblocks of its slice group from there on, and then ends.\<close>

theorem slice_group_walk:
  assumes "unat c < unat n" "unat n \<le> length m"
  shows "follow_group (unat n) m n c = Some (filter (\<lambda>k. m ! k = m ! unat c) [unat c..<unat n])"
  using follow_group_spec [OF assms] by simp

theorem slice_group_walk_witness:
  "follow_group (unat (6 :: u32)) [0, 1, 0, 1, 1, 0] 6 1
     = Some (filter (\<lambda>k. [0, 1, 0, 1, 1, 0 :: u32] ! k = [0, 1, 0, 1, 1, 0] ! unat (1 :: u32)) [unat (1 :: u32)..<unat (6 :: u32)])"
  by (rule slice_group_walk) simp_all

text \<open>The offsets of the samples of a square block of \<open>n\<close> lines.\<close>

definition block :: "nat \<Rightarrow> nat \<Rightarrow> nat \<Rightarrow> nat set" where
  "block n stride p = {p + stride * y + x | x y. x < n \<and> y < n}"

lemma block_decode:
  assumes "a \<in> block n (n * w) (base + (row * n * (n * w) + col * n))" "col < w"
  shows "base \<le> a" "(a - base) div (n * w) div n = row" "(a - base) mod (n * w) div n = col"
    and "row < h \<Longrightarrow> a < base + n * n * (w * h)"
proof -
  obtain x y where a: "a = base + (row * n * (n * w) + col * n) + n * w * y + x" and xy: "x < n" "y < n"
    using assms(1) by (auto simp: block_def)
  have in_row: "col * n + x < n * w"
  proof -
    have "Suc col * n \<le> w * n" using assms(2) by (intro mult_le_mono1) simp
    with xy(1) show ?thesis by (simp add: mult.commute)
  qed
  define W where "W = n * w"
  have off: "a - base = (col * n + x) + (row * n + y) * (n * w)" unfolding a by (simp add: algebra_simps)
  show "base \<le> a" unfolding a by simp
  have "(a - base) div (n * w) = row * n + y" "(a - base) mod (n * w) = col * n + x"
    using in_row unfolding off W_def [symmetric] by simp_all
  then show "(a - base) div (n * w) div n = row" "(a - base) mod (n * w) div n = col" using xy by simp_all
  assume "row < h"
  have "a - base < (row * n + y + 1) * (n * w)" unfolding off using in_row by simp
  also have "\<dots> \<le> (Suc row * n) * (n * w)" using xy(2) by (intro mult_le_mono1) simp
  also have "\<dots> \<le> (h * n) * (n * w)" using \<open>row < h\<close> by (intro mult_le_mono1) simp
  finally have "a - base < n * n * (w * h)" by (simp add: mult.assoc mult.commute mult.left_commute)
  then show "a < base + n * n * (w * h)" by linarith
qed

lemma block_within:
  assumes "row < h" "col < w"
  shows "block n (n * w) (base + (row * n * (n * w) + col * n)) \<subseteq> {base..<base + n * n * (w * h)}"
  using block_decode(1,4) [OF _ assms(2)] assms(1) by (meson atLeastLessThan_iff subsetI)

lemma block_disjoint:
  assumes "col < w" "col' < w" "row \<noteq> row' \<or> col \<noteq> col'"
  shows "block n (n * w) (base + (row * n * (n * w) + col * n)) \<inter> block n (n * w) (base + (row' * n * (n * w) + col' * n)) = {}"
proof (rule equals0I)
  fix a assume "a \<in> block n (n * w) (base + (row * n * (n * w) + col * n))
    \<inter> block n (n * w) (base + (row' * n * (n * w) + col' * n))"
  then have a: "a \<in> block n (n * w) (base + (row * n * (n * w) + col * n))"
    "a \<in> block n (n * w) (base + (row' * n * (n * w) + col' * n))" by simp_all
  show False
    using block_decode(2,3) [OF a(1) assms(1)] block_decode(2,3) [OF a(2) assms(2)] assms(3) by simp
qed

lemma macroblock_blocks:
  assumes "h264bsdSetCurrImageMbPointers img mb = Some a" "h264bsdSetCurrImageMbPointers img mb' = Some b" "mb \<noteq> mb'"
    and "unat mb < unat (imgWidth img) * unat (imgHeight img)" "unat mb' < unat (imgWidth img) * unat (imgHeight img)"
    and "unat (imgWidth img) * unat (imgHeight img) * 384 < 2 ^ 32"
  defines "w \<equiv> unat (imgWidth img)" and "mbs \<equiv> unat (imgWidth img) * unat (imgHeight img)"
  shows "block 16 (16 * w) (imgLuma a) \<subseteq> {0..<256 * mbs}"
    and "block 8 (8 * w) (imgCb a) \<subseteq> {256 * mbs..<320 * mbs}"
    and "block 8 (8 * w) (imgCr a) \<subseteq> {320 * mbs..<384 * mbs}"
    and "block 16 (16 * w) (imgLuma a) \<inter> block 16 (16 * w) (imgLuma b) = {}"
    and "block 8 (8 * w) (imgCb a) \<inter> block 8 (8 * w) (imgCb b) = {}"
    and "block 8 (8 * w) (imgCr a) \<inter> block 8 (8 * w) (imgCr b) = {}"
proof -
  note A = MbPointers_raster [OF assms(1,4,6), folded w_def] and B = MbPointers_raster [OF assms(2,5,6), folded w_def]
  have mbs: "mbs = w * unat (imgHeight img)" by (simp add: mbs_def w_def)
  have ne: "unat mb div w \<noteq> unat mb' div w \<or> unat mb mod w \<noteq> unat mb' mod w"
    using assms(3) by (metis div_mult_mod_eq word_unat_eq_iff)
  have luma: "imgLuma a = 0 + (unat mb div w * 16 * (16 * w) + unat mb mod w * 16)"
    "imgLuma b = 0 + (unat mb' div w * 16 * (16 * w) + unat mb' mod w * 16)"
    using A(1) B(1) by simp_all
  note within = block_within [OF A(4,5)] and disjoint = block_disjoint [OF A(5) B(5) ne]
  show "block 16 (16 * w) (imgLuma a) \<subseteq> {0..<256 * mbs}" using within [of 16 0] by (simp add: luma mbs)
  show "block 8 (8 * w) (imgCb a) \<subseteq> {256 * mbs..<320 * mbs}" using within [of 8 "256 * mbs"] by (simp add: A(2) mbs)
  show "block 8 (8 * w) (imgCr a) \<subseteq> {320 * mbs..<384 * mbs}" using within [of 8 "320 * mbs"] by (simp add: A(3) mbs)
  show "block 16 (16 * w) (imgLuma a) \<inter> block 16 (16 * w) (imgLuma b) = {}" unfolding luma by (rule disjoint)
  show "block 8 (8 * w) (imgCb a) \<inter> block 8 (8 * w) (imgCb b) = {}" unfolding A(2) B(2) mbs by (rule disjoint)
  show "block 8 (8 * w) (imgCr a) \<inter> block 8 (8 * w) (imgCr b) = {}" unfolding A(3) B(3) mbs by (rule disjoint)
qed

text \<open>C17. The pointers set for two different macroblocks of a picture that fits 32 bit sizes address
  disjoint luma and chroma samples, all within the three planes of the picture.\<close>

theorem macroblocks_disjoint:
  assumes "h264bsdSetCurrImageMbPointers img mb = Some a" "h264bsdSetCurrImageMbPointers img mb' = Some b" "mb \<noteq> mb'"
    and "unat mb < unat (imgWidth img) * unat (imgHeight img)" "unat mb' < unat (imgWidth img) * unat (imgHeight img)"
    and "unat (imgWidth img) * unat (imgHeight img) * 384 < 2 ^ 32"
  shows "let w = unat (imgWidth img); mbs = unat (imgWidth img) * unat (imgHeight img) in
    block 16 (16 * w) (imgLuma a) \<subseteq> {0..<256 * mbs}
    \<and> block 8 (8 * w) (imgCb a) \<subseteq> {256 * mbs..<320 * mbs}
    \<and> block 8 (8 * w) (imgCr a) \<subseteq> {320 * mbs..<384 * mbs}
    \<and> block 16 (16 * w) (imgLuma a) \<inter> block 16 (16 * w) (imgLuma b) = {}
    \<and> block 8 (8 * w) (imgCb a) \<inter> block 8 (8 * w) (imgCb b) = {}
    \<and> block 8 (8 * w) (imgCr a) \<inter> block 8 (8 * w) (imgCr b) = {}"
  unfolding Let_def by (intro conjI macroblock_blocks [OF assms])

definition picture_2x2 :: image where
  "picture_2x2 = \<lparr>imgWidth = 2, imgHeight = 2, imgLuma = 0, imgCb = 0, imgCr = 0\<rparr>"

theorem macroblocks_disjoint_witness:
  "block 16 (16 * unat (imgWidth picture_2x2)) (imgLuma (the (h264bsdSetCurrImageMbPointers picture_2x2 1)))
    \<inter> block 16 (16 * unat (imgWidth picture_2x2)) (imgLuma (the (h264bsdSetCurrImageMbPointers picture_2x2 2))) = {}"
  using macroblocks_disjoint [of picture_2x2 1 "the (h264bsdSetCurrImageMbPointers picture_2x2 1)" 2
      "the (h264bsdSetCurrImageMbPointers picture_2x2 2)"]
  by (simp add: picture_2x2_def h264bsdSetCurrImageMbPointers_def Let_def)


section \<open>Picture order counts\<close>

definition no_mmco5 :: "pocSlice \<Rightarrow> bool" where
  "no_mmco5 sl \<longleftrightarrow> (adaptiveRefPicMarkingModeFlag (decRefPicMarkingOf sl)
     \<longrightarrow> ContainsMmco5 (operation (decRefPicMarkingOf sl)) = Some False)"

lemma DecodePicOrderCnt_no_mmco5:
  "no_mmco5 sl \<Longrightarrow> h264bsdDecodePicOrderCnt poc sps sl nal =
     (if picOrderCntType sps = 0 then DecodePicOrderCnt0 poc sps sl nal False
      else if picOrderCntType sps = 1 then DecodePicOrderCnt1 poc sps sl nal False
      else DecodePicOrderCnt2 poc sps sl nal False)"
  by (simp add: h264bsdDecodePicOrderCnt_def no_mmco5_def)

text \<open>C18. With type 0, whatever the count \<open>P\<close> within half a cycle of the last reference picture's
  count \<open>Q\<close>, the decoder recovers \<open>P\<close> from its least significant bits, and the state it leaves
  represents the count of the last reference picture.\<close>

theorem order_count_unwraps:
  assumes "1 \<le> k" "k \<le> 16" "maxPicOrderCntLsb sps = 2 ^ k" "picOrderCntType sps = 0" "no_mmco5 sl"
    and "poc0_state k (if IS_IDR_NAL_UNIT nal then poc\<lparr>prevPicOrderCntMsb := 0, prevPicOrderCntLsb := 0\<rparr> else poc) Q"
    and "int (unat (picOrderCntLsb sl)) = P mod 2 ^ k"
    and "- (2 ^ (k - 1)) < P - Q" "P - Q \<le> 2 ^ (k - 1)"
    and "\<bar>P\<bar> < 2 ^ 29" "\<bar>deltaPicOrderCntBottom sl\<bar> < 2 ^ 29"
  shows "\<exists>poc'. h264bsdDecodePicOrderCnt poc sps sl nal = Some (P + min 0 (deltaPicOrderCntBottom sl), poc')
    \<and> poc0_state k poc' (if nalRefIdc nal \<noteq> 0 then P else Q)"
  using DecodePicOrderCnt0_unwraps [OF assms(1-3,6-11)] assms(4,5) by (simp add: DecodePicOrderCnt_no_mmco5)

definition params0 :: pocParams where
  "params0 = \<lparr>picOrderCntType = 0, maxFrameNum = 16, maxPicOrderCntLsb = 16, numRefFramesInPicOrderCntCycle = 0,
     offsetForRefFrame = [], offsetForNonRefPic = 0, offsetForTopToBottomField = 0\<rparr>"

definition slice_of :: "u32 \<Rightarrow> u32 \<Rightarrow> pocSlice" where
  "slice_of fn lsb = \<lparr>frameNum = fn, picOrderCntLsb = lsb, deltaPicOrderCntBottom = - 1, deltaPicOrderCnt = (0, 0),
     decRefPicMarkingOf = \<lparr>noOutputOfPriorPicsFlag = False, longTermReferenceFlag = False,
       adaptiveRefPicMarkingModeFlag = False, operation = []\<rparr>\<rparr>"

definition storage_of :: "u32 \<Rightarrow> int \<Rightarrow> u32 \<Rightarrow> u32 \<Rightarrow> pocStorage" where
  "storage_of lsb msb fn off = \<lparr>prevPicOrderCntLsb = lsb, prevPicOrderCntMsb = msb, prevFrameNum = fn,
     prevFrameNumOffset = off\<rparr>"

lemma slice_of_plain [simp]: "no_mmco5 (slice_of fn lsb)"
  by (simp add: no_mmco5_def slice_of_def)

text \<open>From the count 30 of the last reference picture, the bits 2 are those of the count 34.\<close>

theorem order_count_unwraps_witness:
  "\<exists>poc'. h264bsdDecodePicOrderCnt (storage_of 14 16 0 0) params0 (slice_of 3 2) \<lparr>nalUnitType = 1, nalRefIdc = 1\<rparr>
      = Some (34 + min 0 (deltaPicOrderCntBottom (slice_of 3 2)), poc')
    \<and> poc0_state 4 poc' (if nalRefIdc \<lparr>nalUnitType = 1, nalRefIdc = 1\<rparr> \<noteq> 0 then 34 else 30)"
  by (rule order_count_unwraps)
    (simp_all add: params0_def slice_of_def [of 3 2] storage_of_def poc0_state_def IS_IDR_NAL_UNIT_def
       NAL_CODED_SLICE_IDR_def no_mmco5_def)

text \<open>C19. With type 1, the count is the sum of the expected differences of all the reference frames
  so far, running through the cycle again and again, plus the offsets of the picture; the closed
  form of the code neither overflows nor reads past the cycle for these sizes.\<close>

theorem order_count_expected:
  assumes "picOrderCntType sps = 1" "no_mmco5 sl"
    and "unat (numRefFramesInPicOrderCntCycle sps) = length (offsetForRefFrame sps)"
    and "unat (FrameNumOffset poc sps sl nal) + unat (frameNum sl) < 2 ^ 31"
    and "\<forall>x \<in> set (offsetForRefFrame sps). \<bar>x\<bar> \<le> B" "0 \<le> B"
    and "int (abs_frame_num poc sps sl nal + length (offsetForRefFrame sps)) * B < 2 ^ 29"
    and "\<bar>offsetForNonRefPic sps\<bar> < 2 ^ 27" "\<bar>fst (deltaPicOrderCnt sl)\<bar> < 2 ^ 27"
      "\<bar>offsetForTopToBottomField sps\<bar> < 2 ^ 27" "\<bar>snd (deltaPicOrderCnt sl)\<bar> < 2 ^ 27"
  shows "h264bsdDecodePicOrderCnt poc sps sl nal =
    Some (cycle_sum (offsetForRefFrame sps) (abs_frame_num poc sps sl nal)
            + (if nalRefIdc nal = 0 then offsetForNonRefPic sps else 0) + fst (deltaPicOrderCnt sl)
            + min 0 (offsetForTopToBottomField sps + snd (deltaPicOrderCnt sl)),
          poc\<lparr>prevFrameNumOffset := FrameNumOffset poc sps sl nal, prevFrameNum := frameNum sl\<rparr>)"
  using DecodePicOrderCnt1_expected [OF assms(3-11), of False] assms(1,2)
  by (simp add: DecodePicOrderCnt_no_mmco5 StoreFrameNum_def)

definition params1 :: pocParams where
  "params1 = params0\<lparr>picOrderCntType := 1, numRefFramesInPicOrderCntCycle := 2, offsetForRefFrame := [2, 4],
     offsetForNonRefPic := - 1\<rparr>"

theorem order_count_expected_witness:
  "h264bsdDecodePicOrderCnt (storage_of 0 0 3 16) params1 (slice_of 5 0) \<lparr>nalUnitType = 1, nalRefIdc = 0\<rparr> =
    Some (cycle_sum (offsetForRefFrame params1)
              (abs_frame_num (storage_of 0 0 3 16) params1 (slice_of 5 0) \<lparr>nalUnitType = 1, nalRefIdc = 0\<rparr>)
            + (if nalRefIdc \<lparr>nalUnitType = 1, nalRefIdc = 0\<rparr> = 0 then offsetForNonRefPic params1 else 0)
            + fst (deltaPicOrderCnt (slice_of 5 0))
            + min 0 (offsetForTopToBottomField params1 + snd (deltaPicOrderCnt (slice_of 5 0))),
          (storage_of 0 0 3 16)\<lparr>prevFrameNumOffset := FrameNumOffset (storage_of 0 0 3 16) params1 (slice_of 5 0)
              \<lparr>nalUnitType = 1, nalRefIdc = 0\<rparr>, prevFrameNum := frameNum (slice_of 5 0)\<rparr>)"
  by (rule order_count_expected [where B = 4])
    (simp_all add: params1_def params0_def slice_of_def [of 5 0] storage_of_def FrameNumOffset_def abs_frame_num_def
       IS_IDR_NAL_UNIT_def NAL_CODED_SLICE_IDR_def no_mmco5_def)

text \<open>C20. With type 2, from a reference picture that restarts the counting (an IDR picture with frame
  number 0, or one with memory management operation 5) up to the next picture with operation 5 or
  the next IDR picture, the counts in decoding order are strictly increasing from 0, across every
  wrap of the frame number. (The picture with operation 5 itself gets the count 0.)\<close>

theorem order_counts_increase:
  assumes "order_counts poc sps ((sl, nal) # pics) = Some ps" "picOrderCntType sps = 2"
    and "IS_IDR_NAL_UNIT nal \<and> frameNum sl = 0 \<or> marks_all_unused sl" "nalRefIdc nal \<noteq> 0"
    and "\<forall>(sl, nal) \<in> set pics. \<not> marks_all_unused sl"
    and "successively frame_step ((sl\<lparr>frameNum := 0\<rparr>, nal) # pics)" "unat (maxFrameNum sps) \<le> 2 ^ 16"
    and "\<forall>(sl, nal) \<in> set ((sl, nal) # pics). unat (frameNum sl) < unat (maxFrameNum sps)"
  shows "sorted_wrt (<) ps \<and> hd ps = 0 \<and> length ps = Suc (length pics)"
  by (rule order_counts_increasing [OF assms])

definition plain_pictures :: "(pocSlice \<times> nalUnit) list" where
  "plain_pictures = map (\<lambda>fn. (slice_of fn 0, \<lparr>nalUnitType = 1, nalRefIdc = 1\<rparr>)) [1, 2, 15, 0]"

text \<open>A picture with operation 5 at frame number 9, then four pictures with a wrap.\<close>

definition memory_op :: "u32 \<Rightarrow> memoryManagementOperation" where
  "memory_op c = \<lparr>memoryManagementControlOperation = c, differenceOfPicNums = 0, longTermPicNum = 0,
     longTermFrameIdx = 0, maxLongTermFrameIdx = 0\<rparr>"

definition restart_picture :: "pocSlice \<times> nalUnit" where
  "restart_picture = ((slice_of 9 0)\<lparr>decRefPicMarkingOf := \<lparr>noOutputOfPriorPicsFlag = False,
      longTermReferenceFlag = False, adaptiveRefPicMarkingModeFlag = True,
      operation = [memory_op 5, memory_op 0]\<rparr>\<rparr>, \<lparr>nalUnitType = 1, nalRefIdc = 1\<rparr>)"

theorem order_counts_increase_witness:
  "order_counts (storage_of 0 0 8 32) (params0\<lparr>picOrderCntType := 2\<rparr>) (restart_picture # plain_pictures)
     = Some [0, 2, 4, 30, 32]
   \<and> sorted_wrt (<) [0, 2, 4, 30, 32 :: int] \<and> hd [0, 2, 4, 30, 32 :: int] = 0
   \<and> length [0, 2, 4, 30, 32 :: int] = Suc (length plain_pictures)"
proof -
  have c: "order_counts (storage_of 0 0 8 32) (params0\<lparr>picOrderCntType := 2\<rparr>)
      ((fst restart_picture, snd restart_picture) # plain_pictures) = Some [0, 2, 4, 30, 32]"
    by code_simp
  have "sorted_wrt (<) [0, 2, 4, 30, 32 :: int] \<and> hd [0, 2, 4, 30, 32 :: int] = 0
      \<and> length [0, 2, 4, 30, 32 :: int] = Suc (length plain_pictures)"
    by (rule order_counts_increase [OF c])
      (simp_all add: plain_pictures_def restart_picture_def memory_op_def slice_of_def params0_def frame_step_def
        marks_all_unused_def IS_IDR_NAL_UNIT_def NAL_CODED_SLICE_IDR_def)
  with c show ?thesis by simp
qed

end
