(* ===== verification/H264DpbSort.thy ===== *)
theory H264DpbSort
  imports H264Stream
begin

text \<open>
  The pictures of the decoded picture buffer and the order they are kept in
  (\<open>h264bsd_dpb.h\<close>, and \<open>ComparePictures\<close> and \<open>ShellSort\<close> of
  \<open>h264bsd_dpb.c\<close>). A pointer is an address, \<open>0\<close> for NULL; an \<open>i32\<close> is an integer;
  a flag is a truth value.
\<close>

section \<open>Pictures\<close>

datatype dpbPictureStatus = UNUSED | NON_EXISTING | SHORT_TERM | LONG_TERM

instantiation dpbPictureStatus :: linorder
begin

definition status_code :: "dpbPictureStatus \<Rightarrow> nat" where
  "status_code s = (case s of UNUSED \<Rightarrow> 0 | NON_EXISTING \<Rightarrow> 1 | SHORT_TERM \<Rightarrow> 2 | LONG_TERM \<Rightarrow> 3)"

definition less_eq_dpbPictureStatus :: "dpbPictureStatus \<Rightarrow> dpbPictureStatus \<Rightarrow> bool" where
  "s \<le> t \<longleftrightarrow> status_code s \<le> status_code t"

definition less_dpbPictureStatus :: "dpbPictureStatus \<Rightarrow> dpbPictureStatus \<Rightarrow> bool" where
  "s < t \<longleftrightarrow> status_code s < status_code t"

instance
  by standard
    (auto simp: less_eq_dpbPictureStatus_def less_dpbPictureStatus_def status_code_def
      split: dpbPictureStatus.splits)

end

record dpbPicture =
  data :: nat
  pAllocatedData :: nat
  picNum :: int
  picFrameNum :: u32
  picOrderCnt :: int
  status :: dpbPictureStatus
  toBeDisplayed :: bool
  picId :: u32
  numErrMbs :: u32
  isIdr :: bool

definition IS_REFERENCE :: "dpbPicture \<Rightarrow> bool" where
  "IS_REFERENCE p \<longleftrightarrow> status p \<noteq> UNUSED"

definition IS_EXISTING :: "dpbPicture \<Rightarrow> bool" where
  "IS_EXISTING p \<longleftrightarrow> status p > NON_EXISTING"

definition IS_SHORT_TERM :: "dpbPicture \<Rightarrow> bool" where
  "IS_SHORT_TERM p \<longleftrightarrow> status p = NON_EXISTING \<or> status p = SHORT_TERM"

definition IS_LONG_TERM :: "dpbPicture \<Rightarrow> bool" where
  "IS_LONG_TERM p \<longleftrightarrow> status p = LONG_TERM"

definition ComparePictures :: "dpbPicture \<Rightarrow> dpbPicture \<Rightarrow> int" where
  "ComparePictures pic1 pic2 =
     (if \<not> IS_REFERENCE pic1 \<and> \<not> IS_REFERENCE pic2
      then if toBeDisplayed pic1 \<and> \<not> toBeDisplayed pic2 then - 1
           else if \<not> toBeDisplayed pic1 \<and> toBeDisplayed pic2 then 1
           else 0
      else if \<not> IS_REFERENCE pic2 then - 1
      else if \<not> IS_REFERENCE pic1 then 1
      else if IS_SHORT_TERM pic1 \<and> IS_SHORT_TERM pic2
      then if picNum pic1 > picNum pic2 then - 1
           else if picNum pic1 < picNum pic2 then 1
           else 0
      else if IS_SHORT_TERM pic1 then - 1
      else if IS_SHORT_TERM pic2 then 1
      else if picNum pic1 > picNum pic2 then 1
      else if picNum pic1 < picNum pic2 then - 1
      else 0)"

section \<open>Sorting\<close>

definition wr :: "'a list \<Rightarrow> nat \<Rightarrow> 'a \<Rightarrow> 'a list option" where
  "wr xs i x = (if i < length xs then Some (xs[i := x]) else None)"

lemma wr_Some_iff [simp]: "wr xs i x = Some ys \<longleftrightarrow> i < length xs \<and> ys = xs[i := x]"
  by (auto simp: wr_def)

lemma wr_in [simp]: "i < length xs \<Longrightarrow> wr xs i x = Some (xs[i := x])"
  by simp

text \<open>
  The inner \<open>while\<close> moves pictures up by \<open>step\<close> until the place of \<open>tmpPic\<close> is found; the
  two outer loops are \<open>ShellPass\<close> and \<open>ShellSteps\<close>. The latter calls them with a positive
  \<open>step\<close> only, which the test in \<open>ShellInsert\<close> repeats.
\<close>

function ShellInsert :: "nat \<Rightarrow> nat \<Rightarrow> dpbPicture \<Rightarrow> dpbPicture list \<Rightarrow> dpbPicture list option" where
  "ShellInsert step j tmpPic pPic =
     (if step \<noteq> 0 \<and> j \<ge> step
      then do {
        p \<leftarrow> rd pPic (j - step);
        if ComparePictures p tmpPic > 0
        then do {
          pPic \<leftarrow> wr pPic j p;
          ShellInsert step (j - step) tmpPic pPic
        }
        else wr pPic j tmpPic
      }
      else wr pPic j tmpPic)"
  by pat_completeness auto
termination by (relation "measure (\<lambda>(step, j, tmp, pPic). j)") auto

function ShellPass :: "nat \<Rightarrow> nat \<Rightarrow> nat \<Rightarrow> dpbPicture list \<Rightarrow> dpbPicture list option" where
  "ShellPass step i num pPic =
     (if i < num
      then do {
        tmpPic \<leftarrow> rd pPic i;
        pPic \<leftarrow> ShellInsert step i tmpPic pPic;
        ShellPass step (Suc i) num pPic
      }
      else Some pPic)"
  by pat_completeness auto
termination by (relation "measure (\<lambda>(step, i, num, pPic). num - i)") auto

function ShellSteps :: "nat \<Rightarrow> nat \<Rightarrow> dpbPicture list \<Rightarrow> dpbPicture list option" where
  "ShellSteps step num pPic =
     (if step \<noteq> 0
      then do {
        pPic \<leftarrow> ShellPass step step num pPic;
        ShellSteps (step div 2) num pPic
      }
      else Some pPic)"
  by pat_completeness auto
termination by (relation "measure (\<lambda>(step, num, pPic). step)") auto

declare ShellInsert.simps [simp del] ShellPass.simps [simp del] ShellSteps.simps [simp del]

definition ShellSort :: "dpbPicture list \<Rightarrow> u32 \<Rightarrow> dpbPicture list option" where
  "ShellSort pPic num = ShellSteps 7 (unat num) pPic"

section \<open>The order\<close>

text \<open>What a sort needs of a three-way comparison: \<open>cmp x y > 0\<close> says \<open>y\<close> belongs before \<open>x\<close>.\<close>

locale comparison =
  fixes cmp :: "'a \<Rightarrow> 'a \<Rightarrow> int"
  assumes total: "cmp x y > 0 \<Longrightarrow> cmp y x \<le> 0"
    and trans: "cmp x y \<le> 0 \<Longrightarrow> cmp y z \<le> 0 \<Longrightarrow> cmp x z \<le> 0"
begin

abbreviation le :: "'a \<Rightarrow> 'a \<Rightarrow> bool" where
  "le x y \<equiv> cmp x y \<le> 0"

lemma not_le_swap: "\<not> le x y \<Longrightarrow> le y x"
  using total [of x y] by simp

lemma refl: "le x x"
  using not_le_swap by blast

lemma sorted_insert:
  assumes "sorted_wrt le (xs @ ys)" "\<forall>y \<in> set ys. le t y" "xs = [] \<or> le (last xs) t"
  shows "sorted_wrt le (xs @ t # ys)"
proof -
  have "le x t" if "x \<in> set xs" for x
  proof -
    obtain zs where xs: "xs = zs @ [last xs]" using \<open>x \<in> set xs\<close> by (metis append_butlast_last_id list.distinct(1) set_empty2 empty_iff)
    have "x \<in> set zs \<or> x = last xs" using that xs by (metis Un_iff empty_iff insert_iff list.set(1) list.set(2) set_append)
    then have "le x (last xs)"
    proof
      assume "x \<in> set zs"
      moreover have "sorted_wrt le (zs @ [last xs] @ ys)" using assms(1) xs by (metis append_assoc)
      ultimately show ?thesis by (simp add: sorted_wrt_append)
    qed (simp add: refl)
    moreover have "le (last xs) t" using assms(3) that by auto
    ultimately show ?thesis by (rule trans)
  qed
  then show ?thesis using assms(1,2) by (auto simp: sorted_wrt_append)
qed

end

interpretation pics: comparison ComparePictures
proof
  show "ComparePictures x y > 0 \<Longrightarrow> ComparePictures y x \<le> 0" for x y
    by (auto simp: ComparePictures_def split: if_splits)
  show "ComparePictures x y \<le> 0 \<Longrightarrow> ComparePictures y z \<le> 0 \<Longrightarrow> ComparePictures x z \<le> 0" for x y z
    by (auto simp: ComparePictures_def split: if_splits)
qed

section \<open>The sort\<close>

lemma mset_move:
  assumes "i < length xs" "j < length xs" "i \<noteq> j"
  shows "mset ((xs[j := xs ! i])[i := t]) = mset (xs[j := t])"
  using assms by (simp add: mset_update)

lemma ShellInsert_perm:
  assumes "j < length xs"
  shows "\<exists>ys. ShellInsert step j t xs = Some ys \<and> mset ys = mset (xs[j := t])
    \<and> (\<forall>k. j < k \<longrightarrow> ys ! k = xs ! k)"
  using assms
proof (induction step j t xs rule: ShellInsert.induct)
  case (1 step j t xs)
  show ?case
  proof (cases "step \<noteq> 0 \<and> j \<ge> step \<and> ComparePictures (xs ! (j - step)) t > 0")
    case True
    then have j: "step \<noteq> 0 \<and> j \<ge> step" "j - step < length xs" "j - step \<noteq> j"
      and gt: "ComparePictures (xs ! (j - step)) t > 0" using "1.prems" by auto
    have "\<exists>ys. ShellInsert step (j - step) t (xs[j := xs ! (j - step)]) = Some ys
      \<and> mset ys = mset ((xs[j := xs ! (j - step)])[j - step := t])
      \<and> (\<forall>k. j - step < k \<longrightarrow> ys ! k = xs[j := xs ! (j - step)] ! k)"
      using j gt "1.prems" by (intro "1.IH") simp_all
    then obtain ys where ys: "ShellInsert step (j - step) t (xs[j := xs ! (j - step)]) = Some ys"
      "mset ys = mset ((xs[j := xs ! (j - step)])[j - step := t])"
      "\<forall>k. j - step < k \<longrightarrow> ys ! k = xs[j := xs ! (j - step)] ! k" by blast
    have "ShellInsert step j t xs = Some ys"
      using j gt "1.prems" ys(1) by (subst ShellInsert.simps) simp
    moreover have "mset ys = mset (xs[j := t])"
      using ys(2) mset_move [OF j(2) "1.prems" j(3)] by simp
    ultimately show ?thesis using ys(3) by simp
  next
    case False
    then have "ShellInsert step j t xs = Some (xs[j := t])"
      using "1.prems" by (subst ShellInsert.simps) auto
    then show ?thesis by simp
  qed
qed

lemma ShellInsert_one:
  assumes "sorted_wrt pics.le (as @ bs)" "\<forall>y \<in> set bs. pics.le t y"
  shows "\<exists>ds. ShellInsert 1 (length as) t (as @ g # bs @ cs) = Some (ds @ cs)
    \<and> sorted_wrt pics.le ds \<and> length ds = Suc (length as + length bs)"
  using assms
proof (induction as arbitrary: g bs rule: rev_induct)
  case Nil
  have "ShellInsert 1 0 t (g # bs @ cs) = Some ((t # bs) @ cs)" by (subst ShellInsert.simps) simp
  then show ?case using Nil.prems by (intro exI [of _ "t # bs"]) simp
next
  case (snoc a as)
  show ?case
  proof (cases "ComparePictures a t > 0")
    case True
    have "sorted_wrt pics.le (as @ a # bs)" "\<forall>y \<in> set (a # bs). pics.le t y"
      using snoc.prems pics.total [OF True] by simp_all
    from snoc.IH [OF this, of a] obtain ds where
      ds: "ShellInsert 1 (length as) t (as @ a # (a # bs) @ cs) = Some (ds @ cs)"
      "sorted_wrt pics.le ds" "length ds = Suc (length as + Suc (length bs))" by auto
    have "ShellInsert 1 (length (as @ [a])) t ((as @ [a]) @ g # bs @ cs) = Some (ds @ cs)"
      using True ds(1) by (subst ShellInsert.simps) (simp add: nth_append list_update_append)
    with ds(2,3) show ?thesis by auto
  next
    case False
    have "ShellInsert 1 (length (as @ [a])) t ((as @ [a]) @ g # bs @ cs) = Some (((as @ [a]) @ t # bs) @ cs)"
      using False by (subst ShellInsert.simps) (simp add: nth_append list_update_append)
    moreover have "sorted_wrt pics.le ((as @ [a]) @ t # bs)"
      using snoc.prems False by (intro pics.sorted_insert) simp_all
    ultimately show ?thesis by (intro exI [of _ "(as @ [a]) @ t # bs"]) simp
  qed
qed

lemma ShellPass_perm:
  assumes "num \<le> length xs"
  shows "\<exists>ys. ShellPass step i num xs = Some ys \<and> mset ys = mset xs \<and> drop num ys = drop num xs"
  using assms
proof (induction "num - i" arbitrary: i xs)
  case 0
  then show ?case by (subst ShellPass.simps) simp
next
  case (Suc n)
  then have i: "i < num" by simp
  obtain ys where ys: "ShellInsert step i (xs ! i) xs = Some ys" "mset ys = mset (xs[i := xs ! i])"
    "\<forall>k. i < k \<longrightarrow> ys ! k = xs ! k"
    using ShellInsert_perm [of i xs step "xs ! i"] i Suc.prems by auto
  have len: "length ys = length xs" using ys(2) by (metis length_list_update mset_eq_length)
  have n: "n = num - Suc i" "num \<le> length ys" using Suc.hyps(2) Suc.prems len by simp_all
  from Suc.hyps(1) [OF this] obtain zs where
    zs: "ShellPass step (Suc i) num ys = Some zs" "mset zs = mset ys" "drop num zs = drop num ys" by blast
  have "drop num ys = drop num xs"
    using ys(3) i len by (intro nth_equalityI) simp_all
  moreover have "ShellPass step i num xs = Some zs"
    using i Suc.prems ys(1) zs(1) by (subst ShellPass.simps) simp
  ultimately show ?case using zs ys(2) by simp
qed

lemma ShellPass_sorts:
  assumes "num \<le> length xs" "sorted_wrt pics.le (take i xs)" "i \<le> num"
    and "ShellPass 1 i num xs = Some ys"
  shows "sorted_wrt pics.le (take num ys)"
  using assms
proof (induction "num - i" arbitrary: i xs)
  case 0
  then have "ys = xs" using ShellPass.simps [of 1 i num xs] by simp
  with 0 show ?case by simp
next
  case (Suc n)
  then have i: "i < num" "i < length xs" by simp_all
  define cs where "cs = drop (Suc i) xs"
  have xs: "xs = take i xs @ xs ! i # [] @ cs" using i by (simp add: cs_def id_take_nth_drop)
  obtain ds where ds: "ShellInsert 1 i (xs ! i) xs = Some (ds @ cs)" "sorted_wrt pics.le ds" "length ds = Suc i"
    using ShellInsert_one [of "take i xs" "[]" "xs ! i" "xs ! i" cs] Suc.prems(2) i xs by auto
  have "ShellPass 1 (Suc i) num (ds @ cs) = Some ys"
    using Suc.prems(4) i ds(1) by (subst (asm) ShellPass.simps) simp
  moreover have "length (ds @ cs) = length xs" using ds(3) i by (simp add: cs_def)
  ultimately show ?case
    using Suc.hyps(1) [of "Suc i" "ds @ cs"] Suc.hyps(2) Suc.prems i ds(2,3) by simp
qed

lemma ShellSort_spec:
  assumes "unat num \<le> length xs"
  shows "\<exists>ys. ShellSort xs num = Some ys \<and> mset ys = mset xs
    \<and> sorted_wrt pics.le (take (unat num) ys) \<and> drop (unat num) ys = drop (unat num) xs"
proof -
  obtain ys where ys: "ShellPass 7 7 (unat num) xs = Some ys" "mset ys = mset xs"
    "drop (unat num) ys = drop (unat num) xs" using ShellPass_perm [OF assms] by blast
  then have "unat num \<le> length ys" using assms by (metis mset_eq_length)
  then obtain zs where zs: "ShellPass 3 3 (unat num) ys = Some zs" "mset zs = mset ys"
    "drop (unat num) zs = drop (unat num) ys" using ShellPass_perm by blast
  then have len: "unat num \<le> length zs" using \<open>unat num \<le> length ys\<close> by (metis mset_eq_length)
  then obtain us where us: "ShellPass 1 1 (unat num) zs = Some us" "mset us = mset zs"
    "drop (unat num) us = drop (unat num) zs" using ShellPass_perm by blast
  have "ShellSort xs num = Some us"
    using us(1) by (simp add: ShellSort_def ShellSteps.simps ys(1) zs(1))
  moreover have "sorted_wrt pics.le (take (unat num) us)"
  proof (cases "unat num = 0")
    case False
    have "sorted_wrt pics.le (take 1 zs)" by (cases zs) simp_all
    with False len us(1) show ?thesis by (intro ShellPass_sorts [OF _ _ _ us(1)]) simp_all
  qed simp
  ultimately show ?thesis using ys zs us by simp
qed

end
