(* ===== verification/H264Dpb.thy ===== *)
theory H264Dpb
  imports H264DpbSort H264Poc
begin

text \<open>
  The operations of the decoded picture buffer (\<open>h264bsd_dpb.c\<close>). A picture pointer is the
  index of its slot in \<open>buffer\<close>; a NULL array is the empty list; an element of \<open>outBuf\<close> is
  \<open>None\<close> until it is written, since the code does not initialise it. Loops that end only when the
  buffer is consistent are partial functions: not returning is \<open>None\<close>, as undefined behaviour is.
\<close>

section \<open>State\<close>

record dpbOutPicture =
  outData :: nat
  outPicId :: u32
  outNumErrMbs :: u32
  outIsIdr :: bool

record dpbStorage =
  buffer :: "dpbPicture list"
  refList :: "nat option list"
  currentOut :: "nat option"
  outBuf :: "dpbOutPicture option list"
  numOut :: u32
  outIndex :: u32
  maxRefFrames :: u32
  dpbSize :: u32
  dpbMaxFrameNum :: u32
  dpbMaxLongTermFrameIdx :: u32
  numRefFrames :: u32
  fullness :: u32
  prevRefFrameNum :: u32
  lastContainsMmco5 :: bool
  noReordering :: bool
  flushed :: bool

record refPicListReorderingOperation =
  reorderingOfPicNumsIdc :: u32
  absDiffPicNum :: u32
  reorderLongTermPicNum :: u32

record refPicListReordering =
  refPicListReorderingFlagL0 :: bool
  command :: "refPicListReorderingOperation list"

abbreviation NO_LONG_TERM_FRAME_INDICES :: u32 where
  "NO_LONG_TERM_FRAME_INDICES \<equiv> 0xFFFF"

abbreviation MAX_NUM_REF_IDX_L0_ACTIVE :: nat where
  "MAX_NUM_REF_IDX_L0_ACTIVE \<equiv> 16"

section \<open>Finding pictures\<close>

fun FindDpbPicLoop :: "dpbPicture list \<Rightarrow> (dpbPicture \<Rightarrow> bool) \<Rightarrow> nat \<Rightarrow> nat \<Rightarrow> nat option option" where
  "FindDpbPicLoop buf wanted i 0 = Some None"
| "FindDpbPicLoop buf wanted i (Suc n) =
     do {
       p \<leftarrow> rd buf i;
       if wanted p then Some (Some i) else FindDpbPicLoop buf wanted (Suc i) n
     }"

definition FindDpbPic :: "dpbStorage \<Rightarrow> int \<Rightarrow> bool \<Rightarrow> nat option option" where
  "FindDpbPic dpb k isShortTerm =
     FindDpbPicLoop (buffer dpb)
       (\<lambda>p. (if isShortTerm then IS_SHORT_TERM p else IS_LONG_TERM p) \<and> picNum p = k)
       0 (unat (maxRefFrames dpb))"

fun SetPicNumsLoop :: "dpbPicture list \<Rightarrow> u32 \<Rightarrow> u32 \<Rightarrow> nat \<Rightarrow> nat \<Rightarrow> dpbPicture list option" where
  "SetPicNumsLoop buf maxFN currFrameNum i 0 = Some buf"
| "SetPicNumsLoop buf maxFN currFrameNum i (Suc n) =
     do {
       p \<leftarrow> rd buf i;
       buf \<leftarrow> (if IS_SHORT_TERM p
              then do {
                frameNumWrap \<leftarrow> (if picFrameNum p > currFrameNum
                                then chk (sint (picFrameNum p) - sint maxFN)
                                else Some (sint (picFrameNum p)));
                wr buf i (p\<lparr>picNum := frameNumWrap\<rparr>)
              }
              else Some buf);
       SetPicNumsLoop buf maxFN currFrameNum (Suc i) n
     }"

definition SetPicNums :: "dpbStorage \<Rightarrow> u32 \<Rightarrow> dpbStorage option" where
  "SetPicNums dpb currFrameNum =
     do {
       buf \<leftarrow> SetPicNumsLoop (buffer dpb) (dpbMaxFrameNum dpb) currFrameNum 0 (unat (numRefFrames dpb));
       Some (dpb\<lparr>buffer := buf\<rparr>)
     }"

section \<open>Output\<close>

fun FindSmallestLoop :: "dpbPicture list \<Rightarrow> nat \<Rightarrow> nat \<Rightarrow> int \<Rightarrow> nat option \<Rightarrow> nat option option" where
  "FindSmallestLoop buf i 0 smallest tmp = Some tmp"
| "FindSmallestLoop buf i (Suc n) smallest tmp =
     do {
       p \<leftarrow> rd buf i;
       if toBeDisplayed p \<and> picOrderCnt p < smallest
       then FindSmallestLoop buf (Suc i) n (picOrderCnt p) (Some i)
       else FindSmallestLoop buf (Suc i) n smallest tmp
     }"

definition FindSmallestPicOrderCnt :: "dpbStorage \<Rightarrow> nat option option" where
  "FindSmallestPicOrderCnt dpb =
     FindSmallestLoop (buffer dpb) 0 (Suc (unat (dpbSize dpb))) 0x7FFFFFFF None"

definition out_of :: "dpbPicture \<Rightarrow> dpbOutPicture" where
  "out_of p = \<lparr>outData = data p, outPicId = picId p, outNumErrMbs = numErrMbs p, outIsIdr = isIdr p\<rparr>"

definition OutputPicture :: "dpbStorage \<Rightarrow> (u32 \<times> dpbStorage) option" where
  "OutputPicture dpb =
     (if noReordering dpb then Some (HANTRO_NOK, dpb)
      else do {
        tmp \<leftarrow> FindSmallestPicOrderCnt dpb;
        case tmp of
          None \<Rightarrow> Some (HANTRO_NOK, dpb)
        | Some i \<Rightarrow> do {
            p \<leftarrow> rd (buffer dpb) i;
            out \<leftarrow> wr (outBuf dpb) (unat (numOut dpb)) (Some (out_of p));
            let dpb = dpb\<lparr>outBuf := out, numOut := numOut dpb + 1,
                          buffer := (buffer dpb)[i := p\<lparr>toBeDisplayed := False\<rparr>]\<rparr>;
            let dpb = (if \<not> IS_REFERENCE p then dpb\<lparr>fullness := fullness dpb - 1\<rparr> else dpb);
            Some (HANTRO_OK, dpb)
          }
      })"

text \<open>The loop \<open>while (OutputPicture(dpb) == HANTRO_OK);\<close>.\<close>

partial_function (option) OutputAll :: "dpbStorage \<Rightarrow> dpbStorage option" where
  "OutputAll dpb =
     do {
       (ret, dpb) \<leftarrow> OutputPicture dpb;
       if ret = HANTRO_OK then OutputAll dpb else Some dpb
     }"

text \<open>The loops that call \<open>OutputPicture\<close> while the buffer is \<open>full\<close>.\<close>

partial_function (option) OutputWhile :: "(u32 \<Rightarrow> u32 \<Rightarrow> bool) \<Rightarrow> dpbStorage \<Rightarrow> dpbStorage option" where
  "OutputWhile full dpb =
     (if full (fullness dpb) (dpbSize dpb)
      then do {
        (ret, dpb) \<leftarrow> OutputPicture dpb;
        OutputWhile full dpb
      }
      else Some dpb)"

text \<open>The pointer returned is an index of \<open>outBuf\<close>.\<close>

definition h264bsdDpbOutputPicture :: "dpbStorage \<Rightarrow> nat option \<times> dpbStorage" where
  "h264bsdDpbOutputPicture dpb =
     (if outIndex dpb < numOut dpb
      then (Some (unat (outIndex dpb)), dpb\<lparr>outIndex := outIndex dpb + 1\<rparr>)
      else (None, dpb))"

definition h264bsdFlushDpb :: "dpbStorage \<Rightarrow> dpbStorage option" where
  "h264bsdFlushDpb dpb = (if buffer dpb \<noteq> [] then OutputAll (dpb\<lparr>flushed := True\<rparr>) else Some dpb)"

section \<open>Marking operations\<close>

text \<open>
  The statements \<open>SET_UNUSED(dpb->buffer[i]); dpb->numRefFrames--;\<close> and the decrement of
  \<open>fullness\<close> under \<open>!toBeDisplayed\<close>, which the marking operations share.
\<close>

definition DropReference :: "dpbStorage \<Rightarrow> nat \<Rightarrow> dpbStorage option" where
  "DropReference dpb i =
     do {
       p \<leftarrow> rd (buffer dpb) i;
       let dpb = dpb\<lparr>buffer := (buffer dpb)[i := p\<lparr>status := UNUSED\<rparr>], numRefFrames := numRefFrames dpb - 1\<rparr>;
       Some (if \<not> toBeDisplayed p then dpb\<lparr>fullness := fullness dpb - 1\<rparr> else dpb)
     }"

text \<open>The search for a long term picture with the index to be assigned, and its removal.\<close>

definition ReleaseLongTermIdx :: "dpbStorage \<Rightarrow> u32 \<Rightarrow> dpbStorage option" where
  "ReleaseLongTermIdx dpb idx =
     do {
       i \<leftarrow> FindDpbPicLoop (buffer dpb) (\<lambda>p. IS_LONG_TERM p \<and> word_of_int (picNum p) = idx)
             0 (unat (maxRefFrames dpb));
       (case i of None \<Rightarrow> Some dpb | Some i \<Rightarrow> DropReference dpb i)
     }"

definition Mmcop1 :: "dpbStorage \<Rightarrow> u32 \<Rightarrow> u32 \<Rightarrow> (u32 \<times> dpbStorage) option" where
  "Mmcop1 dpb currPicNum diff =
     do {
       k \<leftarrow> chk (sint currPicNum - sint diff);
       index \<leftarrow> FindDpbPic dpb k True;
       (case index of
          None \<Rightarrow> Some (HANTRO_NOK, dpb)
        | Some i \<Rightarrow> do { dpb \<leftarrow> DropReference dpb i; Some (HANTRO_OK, dpb) })
     }"

definition Mmcop2 :: "dpbStorage \<Rightarrow> u32 \<Rightarrow> (u32 \<times> dpbStorage) option" where
  "Mmcop2 dpb ltPicNum =
     do {
       index \<leftarrow> FindDpbPic dpb (sint ltPicNum) False;
       (case index of
          None \<Rightarrow> Some (HANTRO_NOK, dpb)
        | Some i \<Rightarrow> do { dpb \<leftarrow> DropReference dpb i; Some (HANTRO_OK, dpb) })
     }"

definition Mmcop3 :: "dpbStorage \<Rightarrow> u32 \<Rightarrow> u32 \<Rightarrow> u32 \<Rightarrow> (u32 \<times> dpbStorage) option" where
  "Mmcop3 dpb currPicNum diff ltFrameIdx =
     (if dpbMaxLongTermFrameIdx dpb = NO_LONG_TERM_FRAME_INDICES \<or> ltFrameIdx > dpbMaxLongTermFrameIdx dpb
      then Some (HANTRO_NOK, dpb)
      else do {
        dpb \<leftarrow> ReleaseLongTermIdx dpb ltFrameIdx;
        k \<leftarrow> chk (sint currPicNum - sint diff);
        index \<leftarrow> FindDpbPic dpb k True;
        (case index of
           None \<Rightarrow> Some (HANTRO_NOK, dpb)
         | Some i \<Rightarrow> do {
             p \<leftarrow> rd (buffer dpb) i;
             if \<not> IS_EXISTING p then Some (HANTRO_NOK, dpb)
             else Some (HANTRO_OK,
               dpb\<lparr>buffer := (buffer dpb)[i := p\<lparr>status := LONG_TERM, picNum := sint ltFrameIdx\<rparr>]\<rparr>)
           })
      })"

fun Mmcop4Loop :: "dpbStorage \<Rightarrow> u32 \<Rightarrow> nat \<Rightarrow> nat \<Rightarrow> dpbStorage option" where
  "Mmcop4Loop dpb maxIdx i 0 = Some dpb"
| "Mmcop4Loop dpb maxIdx i (Suc n) =
     do {
       p \<leftarrow> rd (buffer dpb) i;
       dpb \<leftarrow> (if IS_LONG_TERM p
               \<and> (word_of_int (picNum p) > maxIdx \<or> dpbMaxLongTermFrameIdx dpb = NO_LONG_TERM_FRAME_INDICES)
             then DropReference dpb i else Some dpb);
       Mmcop4Loop dpb maxIdx (Suc i) n
     }"

definition Mmcop4 :: "dpbStorage \<Rightarrow> u32 \<Rightarrow> (u32 \<times> dpbStorage) option" where
  "Mmcop4 dpb maxIdx =
     do {
       dpb \<leftarrow> Mmcop4Loop (dpb\<lparr>dpbMaxLongTermFrameIdx := maxIdx\<rparr>) maxIdx 0 (unat (maxRefFrames dpb));
       Some (HANTRO_OK, dpb)
     }"

fun Mmcop5Loop :: "dpbStorage \<Rightarrow> nat \<Rightarrow> nat \<Rightarrow> dpbStorage option" where
  "Mmcop5Loop dpb i 0 = Some dpb"
| "Mmcop5Loop dpb i (Suc n) =
     do {
       p \<leftarrow> rd (buffer dpb) i;
       let dpb = (if IS_REFERENCE p
         then (let dpb = dpb\<lparr>buffer := (buffer dpb)[i := p\<lparr>status := UNUSED\<rparr>]\<rparr>
               in if \<not> toBeDisplayed p then dpb\<lparr>fullness := fullness dpb - 1\<rparr> else dpb)
         else dpb);
       Mmcop5Loop dpb (Suc i) n
     }"

definition Mmcop5 :: "dpbStorage \<Rightarrow> (u32 \<times> dpbStorage) option" where
  "Mmcop5 dpb =
     do {
       dpb \<leftarrow> Mmcop5Loop dpb 0 16;
       dpb \<leftarrow> OutputAll dpb;
       Some (HANTRO_OK, dpb\<lparr>numRefFrames := 0, dpbMaxLongTermFrameIdx := NO_LONG_TERM_FRAME_INDICES,
                            prevRefFrameNum := 0\<rparr>)
     }"

definition UpdateCurrent :: "dpbStorage \<Rightarrow> (dpbPicture \<Rightarrow> dpbPicture) \<Rightarrow> dpbStorage option" where
  "UpdateCurrent dpb f =
     do {
       i \<leftarrow> currentOut dpb;
       p \<leftarrow> rd (buffer dpb) i;
       Some (dpb\<lparr>buffer := (buffer dpb)[i := f p]\<rparr>)
     }"

definition Mmcop6 :: "dpbStorage \<Rightarrow> u32 \<Rightarrow> int \<Rightarrow> u32 \<Rightarrow> (u32 \<times> dpbStorage) option" where
  "Mmcop6 dpb fn poc ltFrameIdx =
     (if dpbMaxLongTermFrameIdx dpb = NO_LONG_TERM_FRAME_INDICES \<or> ltFrameIdx > dpbMaxLongTermFrameIdx dpb
      then Some (HANTRO_NOK, dpb)
      else do {
        dpb \<leftarrow> ReleaseLongTermIdx dpb ltFrameIdx;
        if numRefFrames dpb < maxRefFrames dpb
        then do {
          dpb \<leftarrow> UpdateCurrent dpb (\<lambda>p. p\<lparr>picFrameNum := fn, picNum := sint ltFrameIdx, picOrderCnt := poc,
                   status := LONG_TERM, toBeDisplayed := \<not> noReordering dpb\<rparr>);
          Some (HANTRO_OK, dpb\<lparr>numRefFrames := numRefFrames dpb + 1, fullness := fullness dpb + 1\<rparr>)
        }
        else Some (HANTRO_NOK, dpb)
      })"

fun SlidingWindowLoop :: "dpbPicture list \<Rightarrow> nat \<Rightarrow> nat \<Rightarrow> nat option \<Rightarrow> int \<Rightarrow> nat option option" where
  "SlidingWindowLoop buf i 0 index k = Some index"
| "SlidingWindowLoop buf i (Suc n) index k =
     do {
       p \<leftarrow> rd buf i;
       if IS_SHORT_TERM p \<and> (picNum p < k \<or> index = None)
       then SlidingWindowLoop buf (Suc i) n (Some i) (picNum p)
       else SlidingWindowLoop buf (Suc i) n index k
     }"

definition SlidingWindowRefPicMarking :: "dpbStorage \<Rightarrow> (u32 \<times> dpbStorage) option" where
  "SlidingWindowRefPicMarking dpb =
     (if numRefFrames dpb < maxRefFrames dpb then Some (HANTRO_OK, dpb)
      else do {
        index \<leftarrow> SlidingWindowLoop (buffer dpb) 0 (unat (numRefFrames dpb)) None 0;
        (case index of
           Some i \<Rightarrow> do { dpb \<leftarrow> DropReference dpb i; Some (HANTRO_OK, dpb) }
         | None \<Rightarrow> Some (HANTRO_NOK, dpb))
      })"

section \<open>Marking a decoded picture\<close>

text \<open>
  One operation of an adaptive marking. The result also holds the frame number in use and
  whether the current picture was stored as a long term reference.
\<close>

definition MarkOperation ::
  "memoryManagementOperation \<Rightarrow> dpbStorage \<Rightarrow> u32 \<Rightarrow> int \<Rightarrow> bool \<Rightarrow> (u32 \<times> dpbStorage \<times> u32 \<times> bool) option" where
  "MarkOperation c dpb fn poc marked =
     (let mmco = memoryManagementControlOperation c
      in if mmco = 1
         then do { (ret, dpb) \<leftarrow> Mmcop1 dpb fn (differenceOfPicNums c); Some (ret, dpb, fn, marked) }
         else if mmco = 2
         then do { (ret, dpb) \<leftarrow> Mmcop2 dpb (longTermPicNum c); Some (ret, dpb, fn, marked) }
         else if mmco = 3
         then do { (ret, dpb) \<leftarrow> Mmcop3 dpb fn (differenceOfPicNums c) (longTermFrameIdx c);
                   Some (ret, dpb, fn, marked) }
         else if mmco = 4
         then do { (ret, dpb) \<leftarrow> Mmcop4 dpb (maxLongTermFrameIdx c); Some (ret, dpb, fn, marked) }
         else if mmco = 5
         then do { (ret, dpb) \<leftarrow> Mmcop5 dpb; Some (ret, dpb\<lparr>lastContainsMmco5 := True\<rparr>, 0, marked) }
         else if mmco = 6
         then do { (ret, dpb) \<leftarrow> Mmcop6 dpb fn poc (longTermFrameIdx c);
                   Some (ret, dpb, fn, if ret = HANTRO_OK then True else marked) }
         else Some (HANTRO_NOK, dpb, fn, marked))"

fun MarkOperations ::
  "memoryManagementOperation list \<Rightarrow> dpbStorage \<Rightarrow> u32 \<Rightarrow> int \<Rightarrow> bool \<Rightarrow> (u32 \<times> dpbStorage \<times> u32 \<times> bool) option" where
  "MarkOperations [] dpb fn poc marked = None"
| "MarkOperations (c # cs) dpb fn poc marked =
     (if memoryManagementControlOperation c = 0 then Some (HANTRO_OK, dpb, fn, marked)
      else do {
        (ret, dpb, fn, marked) \<leftarrow> MarkOperation c dpb fn poc marked;
        if ret \<noteq> HANTRO_OK then Some (ret, dpb, fn, marked)
        else MarkOperations cs dpb fn poc marked
      })"

definition MarkNonReference :: "dpbStorage \<Rightarrow> u32 \<Rightarrow> int \<Rightarrow> (u32 \<times> dpbStorage) option" where
  "MarkNonReference dpb fn poc =
     do {
       dpb \<leftarrow> UpdateCurrent dpb (\<lambda>p. p\<lparr>status := UNUSED, picFrameNum := fn, picNum := sint fn,
                picOrderCnt := poc, toBeDisplayed := \<not> noReordering dpb\<rparr>);
       Some (HANTRO_OK, if \<not> noReordering dpb then dpb\<lparr>fullness := fullness dpb + 1\<rparr> else dpb)
     }"

definition MarkIdr :: "dpbStorage \<Rightarrow> decRefPicMarking \<Rightarrow> (u32 \<times> dpbStorage) option" where
  "MarkIdr dpb mark =
     do {
       (ret, dpb) \<leftarrow> Mmcop5 (dpb\<lparr>numOut := 0, outIndex := 0\<rparr>);
       let dpb = (if noOutputOfPriorPicsFlag mark \<or> noReordering dpb
                  then dpb\<lparr>numOut := 0, outIndex := 0\<rparr> else dpb);
       let dpb = (if longTermReferenceFlag mark then dpb\<lparr>dpbMaxLongTermFrameIdx := 0\<rparr>
                  else dpb\<lparr>dpbMaxLongTermFrameIdx := NO_LONG_TERM_FRAME_INDICES\<rparr>);
       dpb \<leftarrow> UpdateCurrent dpb (\<lambda>p. p\<lparr>status := (if longTermReferenceFlag mark then LONG_TERM else SHORT_TERM),
                picFrameNum := 0, picNum := 0, picOrderCnt := 0, toBeDisplayed := \<not> noReordering dpb\<rparr>);
       Some (HANTRO_OK, dpb\<lparr>fullness := 1, numRefFrames := 1\<rparr>)
     }"

definition MarkReference :: "dpbStorage \<Rightarrow> decRefPicMarking \<Rightarrow> u32 \<Rightarrow> int \<Rightarrow> (u32 \<times> dpbStorage) option" where
  "MarkReference dpb mark fn poc =
     do {
       (ret, dpb, fn, marked) \<leftarrow>
         (if adaptiveRefPicMarkingModeFlag mark then MarkOperations (operation mark) dpb fn poc False
          else do { (ret, dpb) \<leftarrow> SlidingWindowRefPicMarking dpb; Some (ret, dpb, fn, False) });
       if \<not> marked
       then if numRefFrames dpb < maxRefFrames dpb
            then do {
              dpb \<leftarrow> UpdateCurrent dpb (\<lambda>p. p\<lparr>picFrameNum := fn, picNum := sint fn, picOrderCnt := poc,
                       status := SHORT_TERM, toBeDisplayed := \<not> noReordering dpb\<rparr>);
              Some (ret, dpb\<lparr>fullness := fullness dpb + 1, numRefFrames := numRefFrames dpb + 1\<rparr>)
            }
            else Some (HANTRO_NOK, dpb)
       else Some (ret, dpb)
     }"

definition h264bsdMarkDecRefPic ::
  "dpbStorage \<Rightarrow> decRefPicMarking option \<Rightarrow> nat \<Rightarrow> u32 \<Rightarrow> int \<Rightarrow> bool \<Rightarrow> u32 \<Rightarrow> u32 \<Rightarrow> (u32 \<times> dpbStorage) option" where
  "h264bsdMarkDecRefPic dpb mark imageData fn poc idr currentPicId errMbs =
     do {
       i \<leftarrow> currentOut dpb;
       p \<leftarrow> rd (buffer dpb) i;
       if imageData \<noteq> data p then Some (HANTRO_NOK, dpb)
       else do {
         let dpb = dpb\<lparr>lastContainsMmco5 := False\<rparr>;
         (ret, dpb) \<leftarrow>
           (case mark of
              None \<Rightarrow> MarkNonReference dpb fn poc
            | Some mark \<Rightarrow> if idr then MarkIdr dpb mark else MarkReference dpb mark fn poc);
         dpb \<leftarrow> UpdateCurrent dpb (\<lambda>p. p\<lparr>isIdr := idr, picId := currentPicId, numErrMbs := errMbs\<rparr>);
         dpb \<leftarrow>
           (if noReordering dpb
            then do {
              p \<leftarrow> rd (buffer dpb) i;
              out \<leftarrow> wr (outBuf dpb) (unat (numOut dpb)) (Some (out_of p));
              Some (dpb\<lparr>outBuf := out, numOut := numOut dpb + 1\<rparr>)
            }
            else OutputWhile (>) dpb);
         buf \<leftarrow> ShellSort (buffer dpb) (dpbSize dpb + 1);
         Some (ret, dpb\<lparr>buffer := buf\<rparr>)
       }
     }"

section \<open>Allocation of the buffer\<close>

text \<open>
  The allocator is the list of the addresses it will return, \<open>None\<close> for NULL and for every
  request after the last; a picture address is aligned to 16 bytes. The sizes of the requests,
  the only use of \<open>picSizeInMbs\<close>, are not modelled.
\<close>

fun malloc :: "nat option list \<Rightarrow> nat option \<times> nat option list" where
  "malloc [] = (None, [])"
| "malloc (a # as) = (a, as)"

definition ALIGN16 :: "nat \<Rightarrow> nat" where
  "ALIGN16 ptr = ptr + (16 - ptr mod 16) mod 16"

definition zeroPicture :: dpbPicture where
  "zeroPicture = \<lparr>data = 0, pAllocatedData = 0, picNum = 0, picFrameNum = 0, picOrderCnt = 0,
     status = UNUSED, toBeDisplayed = False, picId = 0, numErrMbs = 0, isIdr = False\<rparr>"

fun AllocatePictures ::
  "dpbPicture list \<Rightarrow> nat \<Rightarrow> nat \<Rightarrow> nat option list \<Rightarrow> (bool \<times> dpbPicture list \<times> nat option list) option" where
  "AllocatePictures buf i 0 heap = Some (True, buf, heap)"
| "AllocatePictures buf i (Suc n) heap =
     do {
       p \<leftarrow> rd buf i;
       case malloc heap of
         (None, heap) \<Rightarrow> Some (False, buf[i := p\<lparr>pAllocatedData := 0\<rparr>], heap)
       | (Some a, heap) \<Rightarrow>
           AllocatePictures (buf[i := p\<lparr>pAllocatedData := a, data := ALIGN16 a\<rparr>]) (Suc i) n heap
     }"

definition h264bsdInitDpb ::
  "dpbStorage \<Rightarrow> u32 \<Rightarrow> u32 \<Rightarrow> u32 \<Rightarrow> bool \<Rightarrow> nat option list \<Rightarrow> (u32 \<times> dpbStorage \<times> nat option list) option" where
  "h264bsdInitDpb dpb sz maxRef maxFN noReorder heap =
     do {
       let maxRef = max maxRef 1;
       let dpb = dpb\<lparr>dpbMaxLongTermFrameIdx := NO_LONG_TERM_FRAME_INDICES, maxRefFrames := maxRef,
                     dpbSize := (if noReorder then maxRef else sz), dpbMaxFrameNum := maxFN,
                     noReordering := noReorder, fullness := 0, numRefFrames := 0, prevRefFrameNum := 0\<rparr>;
       case malloc heap of
         (None, heap) \<Rightarrow> Some (MEMORY_ALLOCATION_ERROR, dpb\<lparr>buffer := []\<rparr>, heap)
       | (Some a, heap) \<Rightarrow> do {
           (got, buf, heap) \<leftarrow> AllocatePictures (replicate (MAX_NUM_REF_IDX_L0_ACTIVE + 1) zeroPicture)
                                0 (unat (dpbSize dpb + 1)) heap;
           let dpb = dpb\<lparr>buffer := buf\<rparr>;
           if \<not> got then Some (MEMORY_ALLOCATION_ERROR, dpb, heap)
           else case malloc heap of
             (l, heap) \<Rightarrow> (case malloc heap of
               (b, heap) \<Rightarrow>
                 (let dpb = dpb\<lparr>refList := (if l = None then [] else replicate (MAX_NUM_REF_IDX_L0_ACTIVE + 1) None),
                                outBuf := (if b = None then [] else replicate (unat (dpbSize dpb + 1)) None)\<rparr>
                  in if l = None \<or> b = None then Some (MEMORY_ALLOCATION_ERROR, dpb, heap)
                     else Some (HANTRO_OK, dpb\<lparr>numOut := 0, outIndex := 0\<rparr>, heap)))
         }
     }"

text \<open>The first component of the result lists the picture allocations that are released.\<close>

fun FreePictures :: "dpbPicture list \<Rightarrow> nat \<Rightarrow> nat \<Rightarrow> nat list option" where
  "FreePictures buf i 0 = Some []"
| "FreePictures buf i (Suc n) =
     do { p \<leftarrow> rd buf i; as \<leftarrow> FreePictures buf (Suc i) n; Some (pAllocatedData p # as) }"

definition h264bsdFreeDpb :: "dpbStorage \<Rightarrow> (nat list \<times> dpbStorage) option" where
  "h264bsdFreeDpb dpb =
     do {
       freed \<leftarrow> (if buffer dpb \<noteq> [] then FreePictures (buffer dpb) 0 (unat (dpbSize dpb + 1)) else Some []);
       Some (freed, dpb\<lparr>buffer := [], refList := [], outBuf := []\<rparr>)
     }"

definition h264bsdResetDpb ::
  "dpbStorage \<Rightarrow> u32 \<Rightarrow> u32 \<Rightarrow> u32 \<Rightarrow> bool \<Rightarrow> nat option list
   \<Rightarrow> (nat list \<times> u32 \<times> dpbStorage \<times> nat option list) option" where
  "h264bsdResetDpb dpb sz maxRef maxFN noReorder heap =
     do {
       (freed, dpb) \<leftarrow> h264bsdFreeDpb dpb;
       (ret, dpb, heap) \<leftarrow> h264bsdInitDpb dpb sz maxRef maxFN noReorder heap;
       Some (freed, ret, dpb, heap)
     }"

text \<open>The result is the slot reserved and the address of its samples.\<close>

definition h264bsdAllocateDpbImage :: "dpbStorage \<Rightarrow> (nat \<times> dpbStorage) option" where
  "h264bsdAllocateDpbImage dpb =
     do {
       p \<leftarrow> rd (buffer dpb) (unat (dpbSize dpb));
       Some (data p, dpb\<lparr>currentOut := Some (unat (dpbSize dpb))\<rparr>)
     }"

section \<open>Reference picture list\<close>

fun InitRefPicListLoop :: "nat option list \<Rightarrow> nat \<Rightarrow> nat \<Rightarrow> nat option list option" where
  "InitRefPicListLoop l i 0 = Some l"
| "InitRefPicListLoop l i (Suc n) = do { l \<leftarrow> wr l i (Some i); InitRefPicListLoop l (Suc i) n }"

definition h264bsdInitRefPicList :: "dpbStorage \<Rightarrow> dpbStorage option" where
  "h264bsdInitRefPicList dpb =
     do {
       l \<leftarrow> InitRefPicListLoop (refList dpb) 0 (unat (numRefFrames dpb));
       Some (dpb\<lparr>refList := l\<rparr>)
     }"

definition h264bsdGetRefPicData :: "dpbStorage \<Rightarrow> u32 \<Rightarrow> nat option" where
  "h264bsdGetRefPicData dpb index =
     (if index > 16 then Some 0
      else do {
        e \<leftarrow> rd (refList dpb) (unat index);
        (case e of
           None \<Rightarrow> Some 0
         | Some i \<Rightarrow> do {
             p \<leftarrow> rd (buffer dpb) i;
             Some (if \<not> IS_EXISTING p then 0 else data p)
           })
      })"

fun ShiftList :: "nat option list \<Rightarrow> nat \<Rightarrow> nat \<Rightarrow> nat option list option" where
  "ShiftList l refIdx 0 = Some l"
| "ShiftList l refIdx (Suc j) =
     (if Suc j > refIdx
      then do {
        e \<leftarrow> rd l j;
        l \<leftarrow> wr l (Suc j) e;
        ShiftList l refIdx j
      }
      else Some l)"

fun RemoveLater :: "nat option list \<Rightarrow> nat \<Rightarrow> nat \<Rightarrow> nat \<Rightarrow> nat \<Rightarrow> nat option list option" where
  "RemoveLater l index j k 0 = Some l"
| "RemoveLater l index j k (Suc n) =
     do {
       e \<leftarrow> rd l j;
       if e \<noteq> Some index
       then do { l \<leftarrow> wr l k e; RemoveLater l index (Suc j) (Suc k) n }
       else RemoveLater l index (Suc j) k n
     }"

definition PlaceInList :: "nat option list \<Rightarrow> nat \<Rightarrow> nat \<Rightarrow> nat \<Rightarrow> nat option list option" where
  "PlaceInList l index refIdx numRefIdxActive =
     do {
       l \<leftarrow> ShiftList l refIdx numRefIdxActive;
       l \<leftarrow> wr l refIdx (Some index);
       RemoveLater l index (Suc refIdx) (Suc refIdx) (Suc numRefIdxActive - Suc refIdx)
     }"

definition ReorderPicNumNoWrap :: "dpbStorage \<Rightarrow> refPicListReorderingOperation \<Rightarrow> u32 \<Rightarrow> int option" where
  "ReorderPicNumNoWrap dpb c picNumPred =
     (if reorderingOfPicNumsIdc c = 0
      then do {
        k \<leftarrow> chk (sint picNumPred - sint (absDiffPicNum c));
        if k < 0 then chk (k + sint (dpbMaxFrameNum dpb)) else Some k
      }
      else let k = sint (picNumPred + absDiffPicNum c)
           in if k \<ge> sint (dpbMaxFrameNum dpb) then chk (k - sint (dpbMaxFrameNum dpb)) else Some k)"

fun ReorderCommands ::
  "refPicListReorderingOperation list \<Rightarrow> dpbStorage \<Rightarrow> u32 \<Rightarrow> nat \<Rightarrow> nat \<Rightarrow> u32 \<Rightarrow> (u32 \<times> dpbStorage) option" where
  "ReorderCommands [] dpb currFrameNum numRefIdxActive refIdx picNumPred = None"
| "ReorderCommands (c # cs) dpb currFrameNum numRefIdxActive refIdx picNumPred =
     (if \<not> reorderingOfPicNumsIdc c < 3 then Some (HANTRO_OK, dpb)
      else do {
        (k, picNumPred, isShortTerm) \<leftarrow>
          (if reorderingOfPicNumsIdc c < 2
           then do {
             noWrap \<leftarrow> ReorderPicNumNoWrap dpb c picNumPred;
             k \<leftarrow> (if word_of_int noWrap > currFrameNum
                  then chk (noWrap - sint (dpbMaxFrameNum dpb)) else Some noWrap);
             Some (k, word_of_int noWrap, True)
           }
           else Some (sint (reorderLongTermPicNum c), picNumPred, False));
        index \<leftarrow> FindDpbPic dpb k isShortTerm;
        (case index of
           None \<Rightarrow> Some (HANTRO_NOK, dpb)
         | Some i \<Rightarrow> do {
             p \<leftarrow> rd (buffer dpb) i;
             if \<not> IS_EXISTING p then Some (HANTRO_NOK, dpb)
             else do {
               l \<leftarrow> PlaceInList (refList dpb) i refIdx numRefIdxActive;
               ReorderCommands cs (dpb\<lparr>refList := l\<rparr>) currFrameNum numRefIdxActive (Suc refIdx) picNumPred
             }
           })
      })"

definition h264bsdReorderRefPicList ::
  "dpbStorage \<Rightarrow> refPicListReordering \<Rightarrow> u32 \<Rightarrow> u32 \<Rightarrow> (u32 \<times> dpbStorage) option" where
  "h264bsdReorderRefPicList dpb order currFrameNum numRefIdxActive =
     do {
       dpb \<leftarrow> SetPicNums dpb currFrameNum;
       if \<not> refPicListReorderingFlagL0 order then Some (HANTRO_OK, dpb)
       else ReorderCommands (command order) dpb currFrameNum (unat numRefIdxActive) 0 currFrameNum
     }"

section \<open>Gaps in the frame numbers\<close>

text \<open>The body of the loop that inserts a non-existing picture.\<close>

definition InsertNonExisting :: "dpbStorage \<Rightarrow> u32 \<Rightarrow> (u32 \<times> dpbStorage) option" where
  "InsertNonExisting dpb unUsed =
     do {
       dpb \<leftarrow> SetPicNums dpb unUsed;
       (ret, dpb) \<leftarrow> SlidingWindowRefPicMarking dpb;
       if ret \<noteq> HANTRO_OK then Some (HANTRO_NOK, dpb)
       else do {
         dpb \<leftarrow> OutputWhile (\<ge>) dpb;
         p \<leftarrow> rd (buffer dpb) (unat (dpbSize dpb));
         let dpb = dpb\<lparr>buffer := (buffer dpb)[unat (dpbSize dpb) := p\<lparr>status := NON_EXISTING,
                         picFrameNum := unUsed, picNum := sint unUsed, picOrderCnt := 0, toBeDisplayed := False\<rparr>],
                       fullness := fullness dpb + 1, numRefFrames := numRefFrames dpb + 1\<rparr>;
         buf \<leftarrow> ShellSort (buffer dpb) (dpbSize dpb + 1);
         Some (HANTRO_OK, dpb\<lparr>buffer := buf\<rparr>)
       }
     }"

partial_function (option) FillGap :: "dpbStorage \<Rightarrow> u32 \<Rightarrow> u32 \<Rightarrow> (u32 \<times> dpbStorage) option" where
  "FillGap dpb unUsed fn =
     do {
       (ret, dpb) \<leftarrow> InsertNonExisting dpb unUsed;
       if ret \<noteq> HANTRO_OK then Some (ret, dpb)
       else let unUsed = (unUsed + 1) mod dpbMaxFrameNum dpb
            in if unUsed \<noteq> fn then FillGap dpb unUsed fn else Some (HANTRO_OK, dpb)
     }"

text \<open>The exchange of data pointers that keeps the next picture off the output buffer.\<close>

definition ExchangeData :: "dpbStorage \<Rightarrow> nat \<Rightarrow> dpbStorage option" where
  "ExchangeData dpb tmp =
     do {
       lst \<leftarrow> rd (buffer dpb) (unat (dpbSize dpb));
       found \<leftarrow> FindDpbPicLoop (buffer dpb) (\<lambda>p. data p = tmp) 0 (unat (dpbSize dpb));
       (case found of
          None \<Rightarrow> Some dpb
        | Some i \<Rightarrow> do {
            p \<leftarrow> rd (buffer dpb) i;
            Some (dpb\<lparr>buffer := (buffer dpb)[i := p\<lparr>data := data lst\<rparr>,
                                            unat (dpbSize dpb) := lst\<lparr>data := tmp\<rparr>]\<rparr>)
          })
     }"

fun ProtectOutput :: "dpbStorage \<Rightarrow> nat \<Rightarrow> nat \<Rightarrow> nat \<Rightarrow> dpbStorage option" where
  "ProtectOutput dpb tmp i 0 = Some dpb"
| "ProtectOutput dpb tmp i (Suc n) =
     do {
       e \<leftarrow> rd (outBuf dpb) i;
       out \<leftarrow> e;
       lst \<leftarrow> rd (buffer dpb) (unat (dpbSize dpb));
       if outData out = data lst then ExchangeData dpb tmp else ProtectOutput dpb tmp (Suc i) n
     }"

definition h264bsdCheckGapsInFrameNum ::
  "dpbStorage \<Rightarrow> u32 \<Rightarrow> bool \<Rightarrow> bool \<Rightarrow> (u32 \<times> dpbStorage) option" where
  "h264bsdCheckGapsInFrameNum dpb fn isRefPic gapsAllowed =
     (let dpb = dpb\<lparr>numOut := 0, outIndex := 0\<rparr>
      in if \<not> gapsAllowed then Some (HANTRO_OK, dpb)
         else if dpbMaxFrameNum dpb = 0 \<and> fn \<noteq> prevRefFrameNum dpb then None
         else do {
           (ret, dpb) \<leftarrow>
             (if fn \<noteq> prevRefFrameNum dpb \<and> fn \<noteq> (prevRefFrameNum dpb + 1) mod dpbMaxFrameNum dpb
              then do {
                lst \<leftarrow> rd (buffer dpb) (unat (dpbSize dpb));
                let tmp = data lst;
                (ret, dpb) \<leftarrow> FillGap dpb ((prevRefFrameNum dpb + 1) mod dpbMaxFrameNum dpb) fn;
                if ret \<noteq> HANTRO_OK then Some (HANTRO_NOK, dpb)
                else do {
                  dpb \<leftarrow> ProtectOutput dpb tmp 0 (unat (numOut dpb));
                  Some (HANTRO_OK, dpb)
                }
              }
              else if isRefPic \<and> fn = prevRefFrameNum dpb then Some (HANTRO_NOK, dpb)
              else Some (HANTRO_OK, dpb));
           if ret \<noteq> HANTRO_OK then Some (ret, dpb)
           else Some (HANTRO_OK,
             if isRefPic then dpb\<lparr>prevRefFrameNum := fn\<rparr>
             else if fn \<noteq> prevRefFrameNum dpb
             then dpb\<lparr>prevRefFrameNum := (fn + dpbMaxFrameNum dpb - 1) mod dpbMaxFrameNum dpb\<rparr>
             else dpb)
         })"

end
