(* ===== verification/H264DpbInv.thy ===== *)
theory H264DpbInv
  imports H264Dpb
begin

text \<open>
  The invariant of the decoded picture buffer and the relation between states that all its
  operations respect. An operation is shown to \<open>evolve\<close> the state, which carries every part
  of the invariant but the two counters; these are then counted.
\<close>

section \<open>Counting\<close>

definition cnt :: "('a \<Rightarrow> bool) \<Rightarrow> 'a list \<Rightarrow> nat" where
  "cnt P xs = length (filter P xs)"

lemma cnt_update:
  "i < length xs \<Longrightarrow> cnt P (xs[i := x]) + of_bool (P (xs ! i)) = cnt P xs + of_bool (P x)"
proof -
  assume i: "i < length xs"
  have "filter P xs = filter P (take i xs) @ filter P [xs ! i] @ filter P (drop (Suc i) xs)"
    using i by (metis append_Cons append_Nil filter_append id_take_nth_drop)
  moreover have "filter P (xs[i := x]) = filter P (take i xs) @ filter P [x] @ filter P (drop (Suc i) xs)"
    using i by (simp add: upd_conv_take_nth_drop)
  ultimately show ?thesis by (simp add: cnt_def)
qed

lemma cnt_mono:
  "length xs = length ys \<Longrightarrow> (\<And>i. i < length ys \<Longrightarrow> P (xs ! i) \<Longrightarrow> Q (ys ! i)) \<Longrightarrow> cnt P xs \<le> cnt Q ys"
proof (induction xs ys rule: list_induct2)
  case Nil
  show ?case by (simp add: cnt_def)
next
  case (Cons x xs y ys)
  have "P x \<Longrightarrow> Q y" using Cons.prems [of 0] by simp
  moreover have "cnt P xs \<le> cnt Q ys"
    using Cons.prems [of "Suc _"] by (intro Cons.IH) auto
  ultimately show ?case by (auto simp: cnt_def)
qed

lemma cnt_mset: "mset xs = mset ys \<Longrightarrow> cnt P xs = cnt P ys"
  unfolding cnt_def by (metis mset_filter size_mset)

lemma cnt_pos_iff: "0 < cnt P xs \<longleftrightarrow> (\<exists>i < length xs. P (xs ! i))"
  unfolding cnt_def by (metis filter_empty_conv in_set_conv_nth length_greater_0_conv)

lemma u32_dec: "0 < unat (x :: u32) \<Longrightarrow> unat (x - 1) = unat x - 1"
  by (metis less_numeral_extra(3) unat_eq_zero unat_minus_one)

lemma u32_small_inc: "unat (x :: u32) < 4294967295 \<Longrightarrow> unat (x + 1) = Suc (unat x)"
  using unat_add_lem [of x 1] by simp

section \<open>The invariant\<close>

definition occupied :: "dpbPicture \<Rightarrow> bool" where
  "occupied p \<longleftrightarrow> IS_REFERENCE p \<or> toBeDisplayed p"

abbreviation slots :: "dpbStorage \<Rightarrow> nat" where
  "slots dpb \<equiv> unat (dpbSize dpb)"

definition dpb_shape :: "dpbStorage \<Rightarrow> bool" where
  "dpb_shape dpb \<longleftrightarrow> length (buffer dpb) = 17 \<and> length (refList dpb) = 17
     \<and> length (outBuf dpb) = Suc (slots dpb) \<and> 1 \<le> unat (maxRefFrames dpb)
     \<and> unat (maxRefFrames dpb) \<le> slots dpb \<and> slots dpb \<le> 16"

definition fullness_exact :: "dpbStorage \<Rightarrow> bool" where
  "fullness_exact dpb \<longleftrightarrow> unat (fullness dpb) = cnt occupied (buffer dpb)"

definition refs_exact :: "dpbStorage \<Rightarrow> bool" where
  "refs_exact dpb \<longleftrightarrow> unat (numRefFrames dpb) = cnt IS_REFERENCE (buffer dpb)"

text \<open>References lie where the searches look, but for the picture being stored.\<close>

definition dpb_layout :: "dpbStorage \<Rightarrow> bool" where
  "dpb_layout dpb \<longleftrightarrow>
     (\<forall>i < 17. IS_REFERENCE (buffer dpb ! i) \<longrightarrow> i < unat (maxRefFrames dpb) \<or> i = slots dpb)
     \<and> (\<forall>i < 17. slots dpb < i \<longrightarrow> \<not> occupied (buffer dpb ! i))
     \<and> cnt IS_REFERENCE (buffer dpb) \<le> unat (maxRefFrames dpb)"

definition dpb_display :: "dpbStorage \<Rightarrow> bool" where
  "dpb_display dpb \<longleftrightarrow>
     (\<forall>i < 17. toBeDisplayed (buffer dpb ! i) \<longrightarrow> \<not> noReordering dpb \<and> picOrderCnt (buffer dpb ! i) < 0x7FFFFFFF)"

definition dpb_outputs :: "dpbStorage \<Rightarrow> bool" where
  "dpb_outputs dpb \<longleftrightarrow> unat (numOut dpb) + cnt toBeDisplayed (buffer dpb) \<le> Suc (slots dpb)
     \<and> (\<forall>i < unat (numOut dpb). outBuf dpb ! i \<noteq> None)"

text \<open>Frame numbers are small enough for signed arithmetic.\<close>

definition dpb_numbers :: "dpbStorage \<Rightarrow> bool" where
  "dpb_numbers dpb \<longleftrightarrow> 0 < unat (dpbMaxFrameNum dpb) \<and> unat (dpbMaxFrameNum dpb) < 2 ^ 31
     \<and> (\<forall>i < 17. unat (picFrameNum (buffer dpb ! i)) < 2 ^ 31)"

definition dpb_frame :: "dpbStorage \<Rightarrow> bool" where
  "dpb_frame dpb \<longleftrightarrow> dpb_shape dpb \<and> dpb_layout dpb \<and> dpb_display dpb \<and> dpb_outputs dpb \<and> dpb_numbers dpb"

definition dpb_core :: "dpbStorage \<Rightarrow> bool" where
  "dpb_core dpb \<longleftrightarrow> dpb_frame dpb \<and> fullness_exact dpb \<and> refs_exact dpb"

section \<open>Evolution\<close>

definition same_picture :: "dpbPicture \<Rightarrow> dpbPicture \<Rightarrow> bool" where
  "same_picture p p' \<longleftrightarrow> data p' = data p \<and> pAllocatedData p' = pAllocatedData p
     \<and> picOrderCnt p' = picOrderCnt p \<and> picFrameNum p' = picFrameNum p \<and> (IS_REFERENCE p' \<longrightarrow> IS_REFERENCE p)
     \<and> (toBeDisplayed p' \<longrightarrow> toBeDisplayed p)"

definition same_config :: "dpbStorage \<Rightarrow> dpbStorage \<Rightarrow> bool" where
  "same_config dpb dpb' \<longleftrightarrow> maxRefFrames dpb' = maxRefFrames dpb \<and> dpbSize dpb' = dpbSize dpb
     \<and> dpbMaxFrameNum dpb' = dpbMaxFrameNum dpb \<and> noReordering dpb' = noReordering dpb
     \<and> currentOut dpb' = currentOut dpb \<and> refList dpb' = refList dpb
     \<and> length (buffer dpb') = length (buffer dpb) \<and> length (outBuf dpb') = length (outBuf dpb)"

definition same_outputs :: "dpbStorage \<Rightarrow> dpbStorage \<Rightarrow> bool" where
  "same_outputs dpb dpb' \<longleftrightarrow>
     unat (numOut dpb') + cnt toBeDisplayed (buffer dpb') = unat (numOut dpb) + cnt toBeDisplayed (buffer dpb)
     \<and> unat (numOut dpb) \<le> unat (numOut dpb')
     \<and> (\<forall>i < unat (numOut dpb). outBuf dpb' ! i = outBuf dpb ! i)
     \<and> (\<forall>i < unat (numOut dpb'). unat (numOut dpb) \<le> i \<longrightarrow>
          (\<exists>p \<in> set (buffer dpb). toBeDisplayed p \<and> (\<exists>out. outBuf dpb' ! i = Some out \<and> outData out = data p)))"

definition evolves :: "dpbStorage \<Rightarrow> dpbStorage \<Rightarrow> bool" where
  "evolves dpb dpb' \<longleftrightarrow> same_config dpb dpb' \<and> same_outputs dpb dpb'
     \<and> list_all2 same_picture (buffer dpb) (buffer dpb')"

lemma same_picture_refl [simp]: "same_picture p p"
  by (simp add: same_picture_def)

lemma evolves_refl [simp]: "evolves dpb dpb"
  by (simp add: evolves_def same_config_def same_outputs_def list_all2_refl)

lemma same_picture_trans: "same_picture p q \<Longrightarrow> same_picture q r \<Longrightarrow> same_picture p r"
  by (simp add: same_picture_def)

lemma same_outputs_trans:
  assumes ab: "same_outputs a b" and bc: "same_outputs b c"
    and pics: "list_all2 same_picture (buffer a) (buffer b)"
  shows "same_outputs a c"
proof -
  have old: "\<exists>p \<in> set (buffer a). toBeDisplayed p \<and> (\<exists>out. outBuf c ! i = Some out \<and> outData out = data p)"
    if i: "i < unat (numOut c)" "unat (numOut a) \<le> i" for i
  proof (cases "i < unat (numOut b)")
    case True
    then have "outBuf c ! i = outBuf b ! i" using bc by (simp add: same_outputs_def)
    then show ?thesis using ab True i(2) by (simp add: same_outputs_def)
  next
    case False
    then obtain q out where q: "q \<in> set (buffer b)" "toBeDisplayed q" "outBuf c ! i = Some out" "outData out = data q"
      using bc i(1) False unfolding same_outputs_def by (meson not_less)
    then obtain k where k: "k < length (buffer b)" "buffer b ! k = q" by (auto simp: in_set_conv_nth)
    then have "same_picture (buffer a ! k) q" "buffer a ! k \<in> set (buffer a)"
      using pics list_all2_nthD2 [OF pics k(1)] by (auto simp: list_all2_lengthD)
    with q show ?thesis by (intro bexI [of _ "buffer a ! k"]) (auto simp: same_picture_def)
  qed
  have "\<forall>i < unat (numOut a). outBuf c ! i = outBuf a ! i"
    using ab bc by (simp add: same_outputs_def)
  then show ?thesis using ab bc old unfolding same_outputs_def by simp
qed

lemma evolves_trans:
  assumes "evolves a b" "evolves b c"
  shows "evolves a c"
proof -
  have "list_all2 same_picture (buffer a) (buffer c)"
    using assms list_all2_trans [where ?P1.0 = same_picture and ?P2.0 = same_picture and ?P3.0 = same_picture]
      same_picture_trans by (metis evolves_def)
  moreover have "same_config a c" using assms by (simp add: evolves_def same_config_def)
  moreover have "same_outputs a c" using assms same_outputs_trans unfolding evolves_def by blast
  ultimately show ?thesis by (simp add: evolves_def)
qed

lemma evolves_nth:
  assumes "evolves dpb dpb'" "i < length (buffer dpb)"
  shows "same_picture (buffer dpb ! i) (buffer dpb' ! i)"
  using assms by (simp add: evolves_def list_all2_nthD)

lemma frame_evolves:
  assumes "dpb_frame dpb" "evolves dpb dpb'"
  shows "dpb_frame dpb'"
proof -
  have conf: "same_config dpb dpb'" and out: "same_outputs dpb dpb'" using assms(2) by (simp_all add: evolves_def)
  have len: "length (buffer dpb) = 17" "length (buffer dpb') = 17"
    using assms(1) conf by (simp_all add: dpb_frame_def dpb_shape_def same_config_def)
  have pic: "same_picture (buffer dpb ! i) (buffer dpb' ! i)" if "i < 17" for i
    using evolves_nth [OF assms(2)] that len by simp
  have ref: "IS_REFERENCE (buffer dpb ! i)" if "i < 17" "IS_REFERENCE (buffer dpb' ! i)" for i
    using pic that by (simp add: same_picture_def)
  have "cnt IS_REFERENCE (buffer dpb') \<le> cnt IS_REFERENCE (buffer dpb)"
    using ref len by (intro cnt_mono) simp_all
  then have "dpb_layout dpb'"
    using assms(1) conf ref pic unfolding dpb_frame_def dpb_layout_def same_config_def occupied_def same_picture_def
    by (metis order_trans)
  moreover have "dpb_shape dpb'" using assms(1) conf by (simp add: dpb_frame_def dpb_shape_def same_config_def)
  moreover have "dpb_display dpb'"
    using assms(1) conf pic unfolding dpb_frame_def dpb_display_def same_config_def same_picture_def by metis
  moreover have "dpb_numbers dpb'"
    using assms(1) conf pic by (simp add: dpb_frame_def dpb_numbers_def same_config_def same_picture_def)
  moreover have "dpb_outputs dpb'"
  proof -
    have "outBuf dpb' ! i \<noteq> None" if "i < unat (numOut dpb')" for i
    proof (cases "i < unat (numOut dpb)")
      case True
      then show ?thesis using out assms(1) by (simp add: same_outputs_def dpb_frame_def dpb_outputs_def)
    next
      case False
      then show ?thesis using out that by (auto simp: same_outputs_def)
    qed
    then show ?thesis using out conf assms(1)
      by (simp add: same_outputs_def same_config_def dpb_frame_def dpb_outputs_def)
  qed
  ultimately show ?thesis by (simp add: dpb_frame_def)
qed

text \<open>Changing one slot, the outputs untouched.\<close>

lemma evolves_slot:
  assumes "i < length (buffer dpb)" "same_picture (buffer dpb ! i) p"
    and "toBeDisplayed p = toBeDisplayed (buffer dpb ! i)"
    and "buffer dpb' = (buffer dpb)[i := p]" "outBuf dpb' = outBuf dpb" "numOut dpb' = numOut dpb"
    and "maxRefFrames dpb' = maxRefFrames dpb" "dpbSize dpb' = dpbSize dpb"
    and "dpbMaxFrameNum dpb' = dpbMaxFrameNum dpb" "noReordering dpb' = noReordering dpb"
    and "currentOut dpb' = currentOut dpb" "refList dpb' = refList dpb"
  shows "evolves dpb dpb'"
proof -
  have "list_all2 same_picture (buffer dpb) ((buffer dpb)[i := p])"
    using assms(1,2) by (auto simp: list_all2_conv_all_nth nth_list_update)
  moreover have "cnt toBeDisplayed ((buffer dpb)[i := p]) = cnt toBeDisplayed (buffer dpb)"
    using cnt_update [OF assms(1), of toBeDisplayed p] assms(3) by simp
  ultimately show ?thesis using assms by (simp add: evolves_def same_config_def same_outputs_def)
qed

end
