(* ===== verification/H264DpbOutput.thy ===== *)
theory H264DpbOutput
  imports H264DpbInv
begin

text \<open>
  Output of pictures: what one call delivers, that the output loops end, and that flushing
  delivers the displayable pictures in display order.
\<close>

section \<open>The picture with the smallest count\<close>

definition smallest :: "dpbPicture list \<Rightarrow> int \<Rightarrow> nat \<Rightarrow> nat option \<Rightarrow> bool" where
  "smallest buf lim n r \<longleftrightarrow>
     (case r of
        None \<Rightarrow> \<forall>m < n. toBeDisplayed (buf ! m) \<longrightarrow> lim \<le> picOrderCnt (buf ! m)
      | Some k \<Rightarrow> k < n \<and> toBeDisplayed (buf ! k) \<and> picOrderCnt (buf ! k) < lim
          \<and> (\<forall>m < n. toBeDisplayed (buf ! m) \<longrightarrow> picOrderCnt (buf ! k) \<le> picOrderCnt (buf ! m))
          \<and> (\<forall>m < k. toBeDisplayed (buf ! m) \<longrightarrow> picOrderCnt (buf ! k) < picOrderCnt (buf ! m)))"

definition bound_of :: "dpbPicture list \<Rightarrow> int \<Rightarrow> nat option \<Rightarrow> int" where
  "bound_of buf lim r = (case r of None \<Rightarrow> lim | Some k \<Rightarrow> picOrderCnt (buf ! k))"

lemma smallest_step:
  assumes "smallest buf lim i r"
  shows "smallest buf lim (Suc i)
    (if toBeDisplayed (buf ! i) \<and> picOrderCnt (buf ! i) < bound_of buf lim r then Some i else r)"
  using assms by (cases r) (auto simp: smallest_def bound_of_def less_Suc_eq)

lemma FindSmallestLoop_spec:
  "i + n \<le> length buf \<Longrightarrow> smallest buf lim i r
   \<Longrightarrow> \<exists>r'. FindSmallestLoop buf i n (bound_of buf lim r) r = Some r' \<and> smallest buf lim (i + n) r'"
proof (induction n arbitrary: i r)
  case (Suc n)
  define r1 where
    "r1 = (if toBeDisplayed (buf ! i) \<and> picOrderCnt (buf ! i) < bound_of buf lim r then Some i else r)"
  have "smallest buf lim (Suc i) r1" unfolding r1_def by (rule smallest_step [OF Suc.prems(2)])
  moreover have "FindSmallestLoop buf i (Suc n) (bound_of buf lim r) r
      = FindSmallestLoop buf (Suc i) n (bound_of buf lim r1) r1"
    using Suc.prems(1) by (auto simp: r1_def bound_of_def)
  ultimately show ?case using Suc.IH [of "Suc i" r1] Suc.prems(1) by simp
qed simp

lemma FindSmallest_spec:
  assumes "dpb_shape dpb"
  shows "\<exists>r. FindSmallestPicOrderCnt dpb = Some r \<and> smallest (buffer dpb) 0x7FFFFFFF (Suc (slots dpb)) r"
proof -
  have "smallest (buffer dpb) 0x7FFFFFFF 0 None" by (simp add: smallest_def)
  from FindSmallestLoop_spec [OF _ this, of "Suc (slots dpb)"] assms show ?thesis
    by (simp add: FindSmallestPicOrderCnt_def bound_of_def dpb_shape_def)
qed

section \<open>One picture\<close>

definition output_slot :: "dpbStorage \<Rightarrow> nat \<Rightarrow> dpbStorage" where
  "output_slot dpb i =
     dpb\<lparr>outBuf := (outBuf dpb)[unat (numOut dpb) := Some (out_of (buffer dpb ! i))], numOut := numOut dpb + 1,
         buffer := (buffer dpb)[i := (buffer dpb ! i)\<lparr>toBeDisplayed := False\<rparr>],
         fullness := (if IS_REFERENCE (buffer dpb ! i) then fullness dpb else fullness dpb - 1)\<rparr>"

definition displayed :: "dpbStorage \<Rightarrow> nat" where
  "displayed dpb = cnt toBeDisplayed (buffer dpb)"

lemma displayed_none_iff:
  assumes "dpb_frame dpb"
  shows "displayed dpb = 0 \<longleftrightarrow> (\<forall>m < Suc (slots dpb). \<not> toBeDisplayed (buffer dpb ! m))"
proof -
  have "length (buffer dpb) = 17" using assms by (simp add: dpb_frame_def dpb_shape_def)
  then have none: "displayed dpb = 0 \<longleftrightarrow> (\<forall>m < 17. \<not> toBeDisplayed (buffer dpb ! m))"
    unfolding displayed_def using cnt_pos_iff [of toBeDisplayed "buffer dpb"] by auto
  have size: "slots dpb \<le> 16" using assms by (simp add: dpb_frame_def dpb_shape_def)
  have above: "\<not> toBeDisplayed (buffer dpb ! m)" if "m < 17" "slots dpb < m" for m
    using assms that by (simp add: dpb_frame_def dpb_layout_def occupied_def)
  show ?thesis
  proof
    assume "displayed dpb = 0"
    then show "\<forall>m < Suc (slots dpb). \<not> toBeDisplayed (buffer dpb ! m)" using none size by simp
  next
    assume low: "\<forall>m < Suc (slots dpb). \<not> toBeDisplayed (buffer dpb ! m)"
    have "\<not> toBeDisplayed (buffer dpb ! m)" if "m < 17" for m
      using low above [OF that] by (cases "slots dpb < m") simp_all
    then show "displayed dpb = 0" using none by simp
  qed
qed

lemma OutputPicture_none:
  assumes "dpb_frame dpb" "displayed dpb = 0"
  shows "OutputPicture dpb = Some (HANTRO_NOK, dpb)"
proof -
  obtain r where r: "FindSmallestPicOrderCnt dpb = Some r" "smallest (buffer dpb) 0x7FFFFFFF (Suc (slots dpb)) r"
    using FindSmallest_spec assms(1) unfolding dpb_frame_def by blast
  have "r = None" using r(2) assms displayed_none_iff by (cases r) (auto simp: smallest_def)
  with r(1) show ?thesis by (simp add: OutputPicture_def)
qed

lemma OutputPicture_some:
  assumes "dpb_frame dpb" "0 < displayed dpb"
  shows "\<exists>i. OutputPicture dpb = Some (HANTRO_OK, output_slot dpb i)
    \<and> smallest (buffer dpb) 0x7FFFFFFF (Suc (slots dpb)) (Some i) \<and> i < 17"
proof -
  obtain r where r: "FindSmallestPicOrderCnt dpb = Some r" "smallest (buffer dpb) 0x7FFFFFFF (Suc (slots dpb)) r"
    using FindSmallest_spec assms(1) unfolding dpb_frame_def by blast
  have len: "length (buffer dpb) = 17" "slots dpb \<le> 16" "length (outBuf dpb) = Suc (slots dpb)"
    using assms(1) by (simp_all add: dpb_frame_def dpb_shape_def)
  obtain m where m: "m < Suc (slots dpb)" "toBeDisplayed (buffer dpb ! m)"
    using assms displayed_none_iff by (metis less_numeral_extra(3))
  then have low: "\<not> noReordering dpb" "picOrderCnt (buffer dpb ! m) < 0x7FFFFFFF"
    using assms(1) len unfolding dpb_frame_def dpb_display_def by auto
  obtain i where i: "r = Some i" using r(2) m low by (cases r) (auto simp: smallest_def)
  have "i < 17" using r(2) len by (simp add: i smallest_def)
  moreover have "unat (numOut dpb) < length (outBuf dpb)"
    using assms len unfolding dpb_frame_def dpb_outputs_def displayed_def by simp
  ultimately have "OutputPicture dpb = Some (HANTRO_OK, output_slot dpb i)"
    using r(1) low len by (simp add: i OutputPicture_def output_slot_def Let_def)
  with r(2) \<open>i < 17\<close> show ?thesis unfolding i by blast
qed

lemma output_slot_evolves:
  assumes "dpb_frame dpb" "i < 17" "toBeDisplayed (buffer dpb ! i)"
  shows "evolves dpb (output_slot dpb i)" and "Suc (displayed (output_slot dpb i)) = displayed dpb"
    and "cnt IS_REFERENCE (buffer (output_slot dpb i)) = cnt IS_REFERENCE (buffer dpb)"
    and "map IS_REFERENCE (buffer (output_slot dpb i)) = map IS_REFERENCE (buffer dpb)"
    and "unat (numOut (output_slot dpb i)) = Suc (unat (numOut dpb))"
proof -
  define p where "p = (buffer dpb ! i)\<lparr>toBeDisplayed := False\<rparr>"
  have len: "length (buffer dpb) = 17" "length (outBuf dpb) = Suc (slots dpb)" "slots dpb \<le> 16"
    using assms(1) by (simp_all add: dpb_frame_def dpb_shape_def)
  have d: "Suc (cnt toBeDisplayed ((buffer dpb)[i := p])) = cnt toBeDisplayed (buffer dpb)"
    using cnt_update [of i "buffer dpb" toBeDisplayed p] assms(2,3) len by (simp add: p_def)
  show disp: "Suc (displayed (output_slot dpb i)) = displayed dpb"
    using d by (simp add: displayed_def output_slot_def p_def)
  have same_ref: "IS_REFERENCE p = IS_REFERENCE (buffer dpb ! i)" by (simp add: p_def IS_REFERENCE_def)
  then show "map IS_REFERENCE (buffer (output_slot dpb i)) = map IS_REFERENCE (buffer dpb)"
    using assms(2) len by (intro nth_equalityI) (auto simp: output_slot_def p_def nth_list_update)
  show "cnt IS_REFERENCE (buffer (output_slot dpb i)) = cnt IS_REFERENCE (buffer dpb)"
    using cnt_update [of i "buffer dpb" IS_REFERENCE p] assms(2) len same_ref by (simp add: output_slot_def p_def)
  have room: "unat (numOut dpb) < Suc (slots dpb)"
    using assms(1) disp unfolding dpb_frame_def dpb_outputs_def displayed_def by simp
  then show out: "unat (numOut (output_slot dpb i)) = Suc (unat (numOut dpb))"
    using len(3) by (simp add: output_slot_def u32_small_inc)
  have "same_picture (buffer dpb ! i) p" by (simp add: same_picture_def p_def IS_REFERENCE_def)
  then have "list_all2 same_picture (buffer dpb) ((buffer dpb)[i := p])"
    using assms(2) len by (auto simp: list_all2_conv_all_nth nth_list_update)
  moreover have "same_outputs dpb (output_slot dpb i)"
    unfolding same_outputs_def out using d room len assms(2,3)
    by (auto simp: output_slot_def p_def nth_list_update out_of_def less_Suc_eq intro: bexI [of _ "buffer dpb ! i"])
  ultimately show "evolves dpb (output_slot dpb i)"
    by (simp add: evolves_def same_config_def output_slot_def p_def)
qed

lemma output_slot_fullness:
  assumes "dpb_frame dpb" "i < 17" "toBeDisplayed (buffer dpb ! i)" "fullness_exact dpb"
  shows "fullness_exact (output_slot dpb i)"
proof -
  define p where "p = (buffer dpb ! i)\<lparr>toBeDisplayed := False\<rparr>"
  have len: "i < length (buffer dpb)" using assms(1,2) by (simp add: dpb_frame_def dpb_shape_def)
  have occ: "occupied (buffer dpb ! i)" "occupied p = IS_REFERENCE (buffer dpb ! i)"
    using assms(3) by (simp_all add: occupied_def p_def IS_REFERENCE_def)
  have upd: "cnt occupied ((buffer dpb)[i := p]) + 1 = cnt occupied (buffer dpb) + of_bool (IS_REFERENCE (buffer dpb ! i))"
    using cnt_update [OF len, of occupied p] occ by simp
  show ?thesis
  proof (cases "IS_REFERENCE (buffer dpb ! i)")
    case False
    then have "unat (fullness dpb - 1) = unat (fullness dpb) - 1"
      using assms(4) upd unfolding fullness_exact_def by (intro u32_dec) simp
    with False upd assms(4) show ?thesis by (simp add: fullness_exact_def output_slot_def p_def)
  qed (use upd assms(4) in \<open>simp add: fullness_exact_def output_slot_def p_def\<close>)
qed

text \<open>What every output step keeps, and what it appends to the output.\<close>

definition output_step :: "dpbStorage \<Rightarrow> dpbStorage \<Rightarrow> bool" where
  "output_step dpb dpb' \<longleftrightarrow> evolves dpb dpb' \<and> fullness_exact dpb' \<and> numRefFrames dpb' = numRefFrames dpb
     \<and> cnt IS_REFERENCE (buffer dpb') = cnt IS_REFERENCE (buffer dpb)
     \<and> map IS_REFERENCE (buffer dpb') = map IS_REFERENCE (buffer dpb)
     \<and> dpbMaxLongTermFrameIdx dpb' = dpbMaxLongTermFrameIdx dpb \<and> prevRefFrameNum dpb' = prevRefFrameNum dpb
     \<and> outIndex dpb' = outIndex dpb"

lemma output_step_refl: "fullness_exact dpb \<Longrightarrow> output_step dpb dpb"
  by (simp add: output_step_def)

lemma output_step_trans: "output_step a b \<Longrightarrow> output_step b c \<Longrightarrow> output_step a c"
  unfolding output_step_def using evolves_trans by metis

definition outputs :: "dpbStorage \<Rightarrow> dpbOutPicture option list" where
  "outputs dpb = take (unat (numOut dpb)) (outBuf dpb)"

lemma OutputPicture_step:
  assumes "dpb_frame dpb" "fullness_exact dpb" "0 < displayed dpb"
  shows "\<exists>i < 17. OutputPicture dpb = Some (HANTRO_OK, output_slot dpb i)
    \<and> smallest (buffer dpb) 0x7FFFFFFF (Suc (slots dpb)) (Some i)
    \<and> output_step dpb (output_slot dpb i) \<and> Suc (displayed (output_slot dpb i)) = displayed dpb
    \<and> outputs (output_slot dpb i) = outputs dpb @ [Some (out_of (buffer dpb ! i))]"
proof -
  obtain i where i: "OutputPicture dpb = Some (HANTRO_OK, output_slot dpb i)"
    "smallest (buffer dpb) 0x7FFFFFFF (Suc (slots dpb)) (Some i)" "i < 17"
    using OutputPicture_some [OF assms(1,3)] by blast
  have d: "toBeDisplayed (buffer dpb ! i)" using i(2) by (simp add: smallest_def)
  note ev = output_slot_evolves [OF assms(1) i(3) d]
  have "output_step dpb (output_slot dpb i)"
    using ev output_slot_fullness [OF assms(1) i(3) d assms(2)] by (simp add: output_step_def output_slot_def)
  moreover have "unat (numOut dpb) < length (outBuf dpb)"
    using assms(1,3) unfolding dpb_frame_def dpb_outputs_def dpb_shape_def displayed_def by simp
  then have "outputs (output_slot dpb i) = outputs dpb @ [Some (out_of (buffer dpb ! i))]"
    unfolding outputs_def ev(5) by (simp add: output_slot_def take_Suc_conv_app_nth)
  ultimately show ?thesis using i ev(2) by blast
qed

section \<open>The output loops\<close>

lemma sort_key_first:
  assumes "\<forall>a \<in> set as. f x < f a" "\<forall>b \<in> set bs. f x \<le> f b"
  shows "sort_key f (as @ x # bs) = x # sort_key f (as @ bs)"
proof (rule properties_for_sort_key)
  show "mset (x # sort_key f (as @ bs)) = mset (as @ x # bs)" by simp
  show "sorted (map f (x # sort_key f (as @ bs)))" using assms by (auto simp: less_imp_le)
  fix k
  have stable: "filter (\<lambda>y. f k = f y) (sort_key f (as @ bs)) = filter (\<lambda>y. f k = f y) (as @ bs)"
    using sort_key_stable [of f "f k" "as @ bs"] by (simp add: eq_commute)
  show "filter (\<lambda>y. f k = f y) (x # sort_key f (as @ bs)) = filter (\<lambda>y. f k = f y) (as @ x # bs)"
  proof (cases "f k = f x")
    case True
    then have "filter (\<lambda>y. f k = f y) as = []" using assms(1) by (auto simp: filter_empty_conv)
    with True stable show ?thesis by simp
  qed (use stable in simp)
qed

lemma displayed_sorted_step:
  assumes "dpb_frame dpb" "i < 17" "smallest (buffer dpb) lim (Suc (slots dpb)) (Some i)"
  shows "sort_key picOrderCnt (filter toBeDisplayed (buffer dpb))
    = buffer dpb ! i # sort_key picOrderCnt (filter toBeDisplayed (buffer (output_slot dpb i)))"
proof -
  define xs where "xs = buffer dpb"
  define as bs where "as = filter toBeDisplayed (take i xs)" and "bs = filter toBeDisplayed (drop (Suc i) xs)"
  have i: "i < length xs" and len: "length xs = 17" using assms(1,2) by (simp_all add: xs_def dpb_frame_def dpb_shape_def)
  have min: "toBeDisplayed (xs ! i)" "\<forall>m < i. toBeDisplayed (xs ! m) \<longrightarrow> picOrderCnt (xs ! i) < picOrderCnt (xs ! m)"
    "\<forall>m < Suc (slots dpb). toBeDisplayed (xs ! m) \<longrightarrow> picOrderCnt (xs ! i) \<le> picOrderCnt (xs ! m)"
    using assms(3) by (auto simp: smallest_def xs_def)
  have le: "picOrderCnt (xs ! i) \<le> picOrderCnt (xs ! m)" if "m < 17" "toBeDisplayed (xs ! m)" for m
  proof -
    have "\<not> slots dpb < m"
      using assms(1) that by (auto simp: dpb_frame_def dpb_layout_def occupied_def xs_def)
    then show ?thesis using min(3) that(2) by simp
  qed
  have "filter toBeDisplayed xs = as @ xs ! i # bs"
    using min(1) i id_take_nth_drop [OF i] unfolding as_def bs_def by (metis filter.simps(2) filter_append)
  moreover have "filter toBeDisplayed (buffer (output_slot dpb i)) = as @ bs"
    using i by (simp add: output_slot_def as_def bs_def upd_conv_take_nth_drop xs_def [symmetric])
  moreover have "\<forall>a \<in> set as. picOrderCnt (xs ! i) < picOrderCnt a"
    using min(2) i by (auto simp: as_def set_take_nth)
  moreover have "\<forall>b \<in> set bs. picOrderCnt (xs ! i) \<le> picOrderCnt b"
    using le len by (auto simp: bs_def in_set_conv_nth)
  ultimately show ?thesis using sort_key_first unfolding xs_def by metis
qed

lemma OutputAll_spec:
  "dpb_frame dpb \<Longrightarrow> fullness_exact dpb \<Longrightarrow>
   \<exists>dpb'. OutputAll dpb = Some dpb' \<and> output_step dpb dpb' \<and> displayed dpb' = 0
     \<and> outputs dpb' = outputs dpb @ map (Some \<circ> out_of) (sort_key picOrderCnt (filter toBeDisplayed (buffer dpb)))"
proof (induction "displayed dpb" arbitrary: dpb)
  case 0
  then have none: "displayed dpb = 0" by simp
  then have "OutputAll dpb = Some dpb"
    using OutputPicture_none [OF "0.prems"(1)] by (subst OutputAll.simps) simp
  moreover have "filter toBeDisplayed (buffer dpb) = []" using none by (simp add: displayed_def cnt_def)
  ultimately show ?case using none output_step_refl [OF "0.prems"(2)] by simp
next
  case (Suc n)
  then have some: "0 < displayed dpb" by simp
  obtain i where i: "i < 17" "OutputPicture dpb = Some (HANTRO_OK, output_slot dpb i)"
    "smallest (buffer dpb) 0x7FFFFFFF (Suc (slots dpb)) (Some i)"
    "output_step dpb (output_slot dpb i)" "Suc (displayed (output_slot dpb i)) = displayed dpb"
    "outputs (output_slot dpb i) = outputs dpb @ [Some (out_of (buffer dpb ! i))]"
    using OutputPicture_step [OF Suc.prems some] by blast
  have "n = displayed (output_slot dpb i)" "dpb_frame (output_slot dpb i)" "fullness_exact (output_slot dpb i)"
    using Suc.hyps(2) i(4,5) frame_evolves [OF Suc.prems(1)] by (simp_all add: output_step_def)
  from Suc.hyps(1) [OF this] obtain dpb' where d: "OutputAll (output_slot dpb i) = Some dpb'"
    "output_step (output_slot dpb i) dpb'" "displayed dpb' = 0"
    "outputs dpb' = outputs (output_slot dpb i)
      @ map (Some \<circ> out_of) (sort_key picOrderCnt (filter toBeDisplayed (buffer (output_slot dpb i))))" by blast
  have "OutputAll dpb = Some dpb'" using i(2) d(1) by (subst OutputAll.simps) simp
  moreover have "output_step dpb dpb'" using i(4) d(2) by (rule output_step_trans)
  ultimately show ?case
    using d(3,4) i(6) displayed_sorted_step [OF Suc.prems(1) i(1,3)] by simp
qed

lemma occupied_le: "cnt occupied buf \<le> cnt IS_REFERENCE buf + cnt toBeDisplayed buf"
  by (induction buf) (auto simp: cnt_def occupied_def)

lemma OutputWhile_spec:
  "dpb_frame dpb \<Longrightarrow> fullness_exact dpb
   \<Longrightarrow> (\<And>f. full f (dpbSize dpb) \<Longrightarrow> cnt IS_REFERENCE (buffer dpb) < unat f)
   \<Longrightarrow> \<exists>dpb'. OutputWhile full dpb = Some dpb' \<and> output_step dpb dpb'
     \<and> \<not> full (fullness dpb') (dpbSize dpb')"
proof (induction "displayed dpb" arbitrary: dpb rule: less_induct)
  case less
  show ?case
  proof (cases "full (fullness dpb) (dpbSize dpb)")
    case True
    have "0 < displayed dpb"
      using less.prems(2) less.prems(3) [OF True] occupied_le [of "buffer dpb"]
      unfolding fullness_exact_def displayed_def by linarith
    from OutputPicture_step [OF less.prems(1,2) this] obtain i where
      i: "OutputPicture dpb = Some (HANTRO_OK, output_slot dpb i)"
      "output_step dpb (output_slot dpb i)" "Suc (displayed (output_slot dpb i)) = displayed dpb" by blast
    define q where "q = output_slot dpb i"
    have "displayed q < displayed dpb" using i(3) by (simp add: q_def)
    moreover have "dpb_frame q" "fullness_exact q"
      using i(2) frame_evolves [OF less.prems(1)] by (simp_all add: output_step_def q_def)
    moreover have "cnt IS_REFERENCE (buffer q) < unat f" if "full f (dpbSize q)" for f
      using less.prems(3) [of f] i(2) that by (simp add: output_step_def evolves_def same_config_def q_def)
    ultimately obtain dpb' where "OutputWhile full q = Some dpb'" "output_step q dpb'"
      "\<not> full (fullness dpb') (dpbSize dpb')"
      using less.hyps by blast
    moreover have "OutputWhile full dpb = OutputWhile full q"
      using True i(1) by (subst OutputWhile.simps) (simp add: q_def)
    ultimately show ?thesis using i(2) output_step_trans unfolding q_def by auto
  next
    case False
    then have "OutputWhile full dpb = Some dpb" by (subst OutputWhile.simps) simp
    with False show ?thesis using output_step_refl [OF less.prems(2)] by simp
  qed
qed

end
