(* ===== verification/H264DpbMark.thy ===== *)
theory H264DpbMark
  imports H264DpbOutput
begin

text \<open>
  The marking operations keep the invariant of the decoded picture buffer: each removes
  references, corrects both counters for every reference it removes, and leaves the slot of the
  picture being stored alone until that picture is marked.
\<close>

section \<open>Steps\<close>

definition mark_step :: "dpbStorage \<Rightarrow> dpbStorage \<Rightarrow> bool" where
  "mark_step dpb dpb' \<longleftrightarrow> dpb_core dpb' \<and> evolves dpb dpb'"

lemma mark_step_refl: "dpb_core dpb \<Longrightarrow> mark_step dpb dpb"
  by (simp add: mark_step_def)

lemma mark_step_trans: "mark_step a b \<Longrightarrow> mark_step b c \<Longrightarrow> mark_step a c"
  unfolding mark_step_def using evolves_trans by blast

lemma mark_stepI:
  "dpb_core dpb \<Longrightarrow> evolves dpb dpb' \<Longrightarrow> refs_exact dpb' \<Longrightarrow> fullness_exact dpb' \<Longrightarrow> mark_step dpb dpb'"
  unfolding mark_step_def dpb_core_def using frame_evolves by blast

lemma core_shape:
  assumes "dpb_core dpb"
  shows "length (buffer dpb) = 17" "unat (maxRefFrames dpb) \<le> 16" "slots dpb \<le> 16"
    "1 \<le> unat (maxRefFrames dpb)" "unat (maxRefFrames dpb) \<le> slots dpb"
  using assms by (simp_all add: dpb_core_def dpb_frame_def dpb_shape_def)

lemma FindDpbPicLoop_spec:
  "i + n \<le> length buf \<Longrightarrow> \<exists>r. FindDpbPicLoop buf wanted i n = Some r
    \<and> (case r of None \<Rightarrow> \<forall>k. i \<le> k \<and> k < i + n \<longrightarrow> \<not> wanted (buf ! k)
       | Some k \<Rightarrow> i \<le> k \<and> k < i + n \<and> wanted (buf ! k) \<and> (\<forall>m. i \<le> m \<and> m < k \<longrightarrow> \<not> wanted (buf ! m)))"
proof (induction n arbitrary: i)
  case (Suc n)
  show ?case
  proof (cases "wanted (buf ! i)")
    case False
    from Suc.IH [of "Suc i"] Suc.prems obtain r where r: "FindDpbPicLoop buf wanted (Suc i) n = Some r"
      "case r of None \<Rightarrow> \<forall>k. Suc i \<le> k \<and> k < Suc i + n \<longrightarrow> \<not> wanted (buf ! k)
       | Some k \<Rightarrow> Suc i \<le> k \<and> k < Suc i + n \<and> wanted (buf ! k) \<and> (\<forall>m. Suc i \<le> m \<and> m < k \<longrightarrow> \<not> wanted (buf ! m))"
      by auto
    have step: "i \<le> k \<longleftrightarrow> k = i \<or> Suc i \<le> k" for k by auto
    show ?thesis using r False Suc.prems by (cases r) (auto simp: step)
  qed (use Suc.prems in auto)
qed auto

lemma FindDpbPicLoop_core:
  assumes "dpb_core dpb"
  shows "\<exists>r. FindDpbPicLoop (buffer dpb) wanted 0 (unat (maxRefFrames dpb)) = Some r
    \<and> (\<forall>i. r = Some i \<longrightarrow> i < 17 \<and> i < unat (maxRefFrames dpb) \<and> wanted (buffer dpb ! i))"
  using FindDpbPicLoop_spec [of 0 "unat (maxRefFrames dpb)" "buffer dpb" wanted] core_shape [OF assms]
  by (auto split: option.splits)

lemma DropReference_step:
  assumes core: "dpb_core dpb" and i: "i < 17" and ref: "IS_REFERENCE (buffer dpb ! i)"
  shows "\<exists>dpb'. DropReference dpb i = Some dpb' \<and> mark_step dpb dpb'
    \<and> numRefFrames dpb' = numRefFrames dpb - 1 \<and> 0 < unat (numRefFrames dpb)
    \<and> buffer dpb' = (buffer dpb)[i := (buffer dpb ! i)\<lparr>status := UNUSED\<rparr>]"
proof -
  define p where "p = (buffer dpb ! i)\<lparr>status := UNUSED\<rparr>"
  define dpb' where "dpb' = dpb\<lparr>buffer := (buffer dpb)[i := p], numRefFrames := numRefFrames dpb - 1,
    fullness := (if toBeDisplayed (buffer dpb ! i) then fullness dpb else fullness dpb - 1)\<rparr>"
  have len: "i < length (buffer dpb)" using core_shape [OF core] i by simp
  have DR: "DropReference dpb i = Some dpb'"
    using len by (simp add: DropReference_def dpb'_def p_def Let_def)
  have p: "\<not> IS_REFERENCE p" "occupied p = toBeDisplayed (buffer dpb ! i)" "occupied (buffer dpb ! i)"
    using ref by (simp_all add: p_def IS_REFERENCE_def occupied_def)
  have r: "Suc (cnt IS_REFERENCE ((buffer dpb)[i := p])) = cnt IS_REFERENCE (buffer dpb)"
    using cnt_update [OF len, of IS_REFERENCE p] p ref by simp
  have f: "cnt occupied ((buffer dpb)[i := p]) + 1 = cnt occupied (buffer dpb) + of_bool (toBeDisplayed (buffer dpb ! i))"
    using cnt_update [OF len, of occupied p] p by simp
  have num: "0 < unat (numRefFrames dpb)" using core r by (simp add: dpb_core_def refs_exact_def)
  have "refs_exact dpb'"
    using core r u32_dec [OF num] by (simp add: dpb_core_def refs_exact_def dpb'_def)
  moreover have "fullness_exact dpb'"
  proof (cases "toBeDisplayed (buffer dpb ! i)")
    case False
    have "0 < unat (fullness dpb)" using core f False by (simp add: dpb_core_def fullness_exact_def)
    from u32_dec [OF this] show ?thesis
      using core f False by (simp add: dpb_core_def fullness_exact_def dpb'_def)
  qed (use core f in \<open>simp add: dpb_core_def fullness_exact_def dpb'_def\<close>)
  moreover have "evolves dpb dpb'"
    by (rule evolves_slot [OF len, of p]) (simp_all add: same_picture_def p_def dpb'_def IS_REFERENCE_def)
  ultimately have "mark_step dpb dpb'" using mark_stepI [OF core] by blast
  with DR num show ?thesis by (simp add: dpb'_def p_def)
qed

section \<open>The operations\<close>

lemma short_term_reference: "IS_SHORT_TERM p \<Longrightarrow> IS_REFERENCE p"
  by (auto simp: IS_SHORT_TERM_def IS_REFERENCE_def)

lemma long_term_reference: "IS_LONG_TERM p \<Longrightarrow> IS_REFERENCE p"
  by (auto simp: IS_LONG_TERM_def IS_REFERENCE_def)

lemma FindDpbPic_core:
  assumes "dpb_core dpb"
  shows "\<exists>r. FindDpbPic dpb k short = Some r
    \<and> (\<forall>i. r = Some i \<longrightarrow> i < 17 \<and> i < unat (maxRefFrames dpb) \<and> IS_REFERENCE (buffer dpb ! i) \<and> picNum (buffer dpb ! i) = k)"
proof -
  define wanted where "wanted = (\<lambda>p. (if short then IS_SHORT_TERM p else IS_LONG_TERM p) \<and> picNum p = k)"
  have "wanted p \<Longrightarrow> IS_REFERENCE p \<and> picNum p = k" for p
    by (auto simp: wanted_def short_term_reference long_term_reference split: if_splits)
  with FindDpbPicLoop_core [OF assms, of wanted] show ?thesis
    unfolding FindDpbPic_def wanted_def [symmetric] by blast
qed

lemma ReleaseLongTermIdx_step:
  assumes "dpb_core dpb"
  shows "\<exists>dpb'. ReleaseLongTermIdx dpb idx = Some dpb' \<and> mark_step dpb dpb'"
proof -
  obtain r where r: "FindDpbPicLoop (buffer dpb) (\<lambda>p. IS_LONG_TERM p \<and> word_of_int (picNum p) = idx)
      0 (unat (maxRefFrames dpb)) = Some r"
    "\<forall>i. r = Some i \<longrightarrow> i < 17 \<and> IS_REFERENCE (buffer dpb ! i)"
    using FindDpbPicLoop_core [OF assms, of "\<lambda>p. IS_LONG_TERM p \<and> word_of_int (picNum p) = idx"]
      long_term_reference by blast
  show ?thesis
  proof (cases r)
    case None
    then show ?thesis using r(1) mark_step_refl [OF assms] by (simp add: ReleaseLongTermIdx_def)
  next
    case (Some i)
    then show ?thesis using r DropReference_step [OF assms, of i] by (auto simp: ReleaseLongTermIdx_def)
  qed
qed

lemma chk_defined: "chk k \<noteq> None \<Longrightarrow> chk k = Some k"
  by (simp add: chk_def split: if_splits)

lemma Mmcop1_step:
  assumes "dpb_core dpb" "chk (sint fn - sint diff) \<noteq> None"
  shows "\<exists>ret dpb'. Mmcop1 dpb fn diff = Some (ret, dpb') \<and> mark_step dpb dpb'"
proof -
  obtain r where r: "FindDpbPic dpb (sint fn - sint diff) True = Some r"
    "\<forall>i. r = Some i \<longrightarrow> i < 17 \<and> IS_REFERENCE (buffer dpb ! i)"
    using FindDpbPic_core [OF assms(1)] by blast
  note k = chk_defined [OF assms(2)]
  show ?thesis
  proof (cases r)
    case None
    then show ?thesis using r(1) mark_step_refl [OF assms(1)] by (simp add: Mmcop1_def k del: chk_Some_iff)
  next
    case (Some i)
    then show ?thesis using r DropReference_step [OF assms(1), of i] by (auto simp: Mmcop1_def k simp del: chk_Some_iff)
  qed
qed

lemma Mmcop2_step:
  assumes "dpb_core dpb"
  shows "\<exists>ret dpb'. Mmcop2 dpb n = Some (ret, dpb') \<and> mark_step dpb dpb'"
proof -
  obtain r where r: "FindDpbPic dpb (sint n) False = Some r"
    "\<forall>i. r = Some i \<longrightarrow> i < 17 \<and> IS_REFERENCE (buffer dpb ! i)"
    using FindDpbPic_core [OF assms(1)] by blast
  show ?thesis
  proof (cases r)
    case None
    then show ?thesis using r(1) mark_step_refl [OF assms(1)] by (auto simp: Mmcop2_def)
  next
    case (Some i)
    then show ?thesis using r DropReference_step [OF assms(1), of i] by (auto simp: Mmcop2_def)
  qed
qed

lemma long_term_slot_step:
  assumes "dpb_core dpb" "i < 17" "IS_REFERENCE (buffer dpb ! i)"
  shows "mark_step dpb (dpb\<lparr>buffer := (buffer dpb)[i := (buffer dpb ! i)\<lparr>status := LONG_TERM, picNum := k\<rparr>]\<rparr>)"
proof -
  define p where "p = (buffer dpb ! i)\<lparr>status := LONG_TERM, picNum := k\<rparr>"
  define dpb' where "dpb' = dpb\<lparr>buffer := (buffer dpb)[i := p]\<rparr>"
  have len: "i < length (buffer dpb)" using core_shape [OF assms(1)] assms(2) by simp
  have ref: "IS_REFERENCE p" "occupied p" "occupied (buffer dpb ! i)"
    using assms(3) by (simp_all add: p_def IS_REFERENCE_def occupied_def)
  have "cnt IS_REFERENCE (buffer dpb') = cnt IS_REFERENCE (buffer dpb)"
    "cnt occupied (buffer dpb') = cnt occupied (buffer dpb)"
    using cnt_update [OF len, of IS_REFERENCE p] cnt_update [OF len, of occupied p] ref assms(3)
    by (simp_all add: dpb'_def)
  then have "refs_exact dpb'" "fullness_exact dpb'"
    using assms(1) by (simp_all add: dpb_core_def refs_exact_def fullness_exact_def) (simp_all add: dpb'_def)
  moreover have "evolves dpb dpb'"
    using assms(3) by (intro evolves_slot [OF len, of p])
      (simp_all add: same_picture_def p_def dpb'_def IS_REFERENCE_def)
  ultimately show ?thesis using mark_stepI [OF assms(1)] unfolding dpb'_def p_def by blast
qed

lemma Mmcop3_step:
  assumes "dpb_core dpb" "chk (sint fn - sint diff) \<noteq> None"
  shows "\<exists>ret dpb'. Mmcop3 dpb fn diff idx = Some (ret, dpb') \<and> mark_step dpb dpb'"
proof (cases "dpbMaxLongTermFrameIdx dpb = NO_LONG_TERM_FRAME_INDICES \<or> idx > dpbMaxLongTermFrameIdx dpb")
  case True
  then show ?thesis using mark_step_refl [OF assms(1)] by (simp add: Mmcop3_def)
next
  case False
  obtain q where q: "ReleaseLongTermIdx dpb idx = Some q" "mark_step dpb q"
    using ReleaseLongTermIdx_step [OF assms(1)] by blast
  have core: "dpb_core q" using q(2) by (simp add: mark_step_def)
  obtain r where r: "FindDpbPic q (sint fn - sint diff) True = Some r"
    "\<forall>i. r = Some i \<longrightarrow> i < 17 \<and> IS_REFERENCE (buffer q ! i)"
    using FindDpbPic_core [OF core] by blast
  note k = chk_defined [OF assms(2)]
  show ?thesis
  proof (cases r)
    case None
    then show ?thesis using False q r(1) by (simp add: Mmcop3_def k del: chk_Some_iff)
  next
    case (Some i)
    then have i: "i < 17" "IS_REFERENCE (buffer q ! i)" using r(2) by simp_all
    note step = mark_step_trans [OF q(2) long_term_slot_step [OF core i]]
    have "i < length (buffer q)" using core_shape [OF core] i by simp
    then show ?thesis using False q r(1) Some step by (simp add: Mmcop3_def k del: chk_Some_iff)
  qed
qed

lemma Mmcop4Loop_step:
  "dpb_core dpb \<Longrightarrow> i + n \<le> 17 \<Longrightarrow> \<exists>dpb'. Mmcop4Loop dpb m i n = Some dpb' \<and> mark_step dpb dpb'"
proof (induction n arbitrary: i dpb)
  case 0
  then show ?case by (simp add: mark_step_refl)
next
  case (Suc n)
  have i: "i < 17" "i < length (buffer dpb)" using Suc.prems core_shape [OF Suc.prems(1)] by simp_all
  define drop_it where "drop_it = (IS_LONG_TERM (buffer dpb ! i)
    \<and> (word_of_int (picNum (buffer dpb ! i)) > m \<or> dpbMaxLongTermFrameIdx dpb = NO_LONG_TERM_FRAME_INDICES))"
  have "\<exists>q. (if drop_it then DropReference dpb i else Some dpb) = Some q \<and> mark_step dpb q"
    using DropReference_step [OF Suc.prems(1) i(1)] long_term_reference mark_step_refl [OF Suc.prems(1)]
    by (auto simp: drop_it_def)
  then obtain q where q: "(if drop_it then DropReference dpb i else Some dpb) = Some q" "mark_step dpb q" by blast
  obtain dpb' where "Mmcop4Loop q m (Suc i) n = Some dpb'" "mark_step q dpb'"
    using Suc.IH [of q "Suc i"] q(2) Suc.prems by (auto simp: mark_step_def)
  moreover from this q(2) have "mark_step dpb dpb'" using mark_step_trans by blast
  ultimately show ?case using i q(1) by (simp add: drop_it_def)
qed

lemmas dpb_parts = dpb_frame_def dpb_shape_def dpb_layout_def dpb_display_def dpb_outputs_def dpb_numbers_def
  fullness_exact_def refs_exact_def

lemma core_other_fields [simp]:
  "dpb_core (dpb\<lparr>dpbMaxLongTermFrameIdx := x\<rparr>) = dpb_core dpb"
  "dpb_core (dpb\<lparr>prevRefFrameNum := x\<rparr>) = dpb_core dpb"
  "dpb_core (dpb\<lparr>lastContainsMmco5 := b\<rparr>) = dpb_core dpb"
  "dpb_core (dpb\<lparr>outIndex := x\<rparr>) = dpb_core dpb"
  "dpb_frame (dpb\<lparr>numRefFrames := x\<rparr>) = dpb_frame dpb"
  "dpb_frame (dpb\<lparr>dpbMaxLongTermFrameIdx := x\<rparr>) = dpb_frame dpb"
  "dpb_frame (dpb\<lparr>prevRefFrameNum := x\<rparr>) = dpb_frame dpb"
  by (simp_all add: dpb_core_def dpb_parts)

lemma evolves_other_fields [simp]:
  "evolves (dpb\<lparr>dpbMaxLongTermFrameIdx := x\<rparr>) dpb' = evolves dpb dpb'"
  "evolves dpb (dpb'\<lparr>dpbMaxLongTermFrameIdx := x\<rparr>) = evolves dpb dpb'"
  "evolves dpb (dpb'\<lparr>prevRefFrameNum := x\<rparr>) = evolves dpb dpb'"
  "evolves dpb (dpb'\<lparr>numRefFrames := x\<rparr>) = evolves dpb dpb'"
  "evolves dpb (dpb'\<lparr>lastContainsMmco5 := b\<rparr>) = evolves dpb dpb'"
  by (simp_all add: evolves_def same_config_def same_outputs_def)

lemma Mmcop4_step:
  assumes "dpb_core dpb"
  shows "\<exists>dpb'. Mmcop4 dpb m = Some (HANTRO_OK, dpb') \<and> mark_step dpb dpb'"
  using Mmcop4Loop_step [of "dpb\<lparr>dpbMaxLongTermFrameIdx := m\<rparr>" 0 "unat (maxRefFrames dpb)" m] assms
    core_shape [OF assms] by (auto simp: Mmcop4_def mark_step_def)

section \<open>Marking every picture unused\<close>

text \<open>The slot of the picture being stored is free.\<close>

definition current_free :: "dpbStorage \<Rightarrow> bool" where
  "current_free dpb \<longleftrightarrow> currentOut dpb = Some (slots dpb) \<and> \<not> occupied (buffer dpb ! slots dpb)"

definition out_room :: "dpbStorage \<Rightarrow> bool" where
  "out_room dpb \<longleftrightarrow> unat (numOut dpb) + displayed dpb \<le> slots dpb"

lemma current_free_evolves:
  assumes "dpb_core dpb" "evolves dpb dpb'" "current_free dpb"
  shows "current_free dpb'"
proof -
  have "slots dpb < length (buffer dpb)" using core_shape [OF assms(1)] by simp
  from evolves_nth [OF assms(2) this] assms(2,3) show ?thesis
    by (auto simp: current_free_def occupied_def same_picture_def evolves_def same_config_def)
qed

lemma out_room_evolves: "evolves dpb dpb' \<Longrightarrow> out_room dpb' = out_room dpb"
  by (simp add: out_room_def evolves_def same_config_def same_outputs_def displayed_def)

lemma Mmcop5Loop_step:
  "dpb_frame dpb \<Longrightarrow> fullness_exact dpb \<Longrightarrow> i + n \<le> 17 \<Longrightarrow>
   \<exists>dpb'. Mmcop5Loop dpb i n = Some dpb' \<and> dpb_frame dpb' \<and> fullness_exact dpb' \<and> evolves dpb dpb'
     \<and> (\<forall>j. i \<le> j \<and> j < i + n \<longrightarrow> \<not> IS_REFERENCE (buffer dpb' ! j))"
proof (induction n arbitrary: i dpb)
  case (Suc n)
  define p where "p = (buffer dpb ! i)\<lparr>status := UNUSED\<rparr>"
  define q where "q = dpb\<lparr>buffer := (buffer dpb)[i := p],
    fullness := (if IS_REFERENCE (buffer dpb ! i) \<and> \<not> toBeDisplayed (buffer dpb ! i)
                 then fullness dpb - 1 else fullness dpb)\<rparr>"
  have len: "i < length (buffer dpb)" "length (buffer dpb) = 17"
    using Suc.prems by (simp_all add: dpb_frame_def dpb_shape_def)
  have loop: "Mmcop5Loop dpb i (Suc n) = Mmcop5Loop q (Suc i) n"
  proof (cases "IS_REFERENCE (buffer dpb ! i)")
    case True
    then show ?thesis using len by (simp add: q_def p_def Let_def)
  next
    case False
    then have "p = buffer dpb ! i" by (simp add: p_def IS_REFERENCE_def)
    then have "q = dpb" using False by (simp add: q_def)
    then show ?thesis using False len by (simp add: Let_def)
  qed
  have p: "\<not> IS_REFERENCE p" "toBeDisplayed p = toBeDisplayed (buffer dpb ! i)"
    by (simp_all add: p_def IS_REFERENCE_def)
  have ev: "evolves dpb q"
    by (rule evolves_slot [OF len(1), of p]) (simp_all add: same_picture_def p_def q_def IS_REFERENCE_def)
  have cnt: "cnt occupied ((buffer dpb)[i := p]) + of_bool (occupied (buffer dpb ! i))
      = cnt occupied (buffer dpb) + of_bool (toBeDisplayed (buffer dpb ! i))"
    using cnt_update [OF len(1), of occupied p] p by (simp add: occupied_def)
  have "fullness_exact q"
  proof (cases "IS_REFERENCE (buffer dpb ! i) \<and> \<not> toBeDisplayed (buffer dpb ! i)")
    case True
    then have c: "Suc (cnt occupied ((buffer dpb)[i := p])) = cnt occupied (buffer dpb)"
      using cnt by (simp add: occupied_def)
    then have "0 < unat (fullness dpb)" using Suc.prems(2) by (simp add: fullness_exact_def)
    from u32_dec [OF this] show ?thesis using Suc.prems(2) c True by (simp add: fullness_exact_def q_def)
  next
    case False
    then have "cnt occupied ((buffer dpb)[i := p]) = cnt occupied (buffer dpb)"
      using cnt by (auto simp: occupied_def)
    then show ?thesis using Suc.prems(2) False by (auto simp: fullness_exact_def q_def)
  qed
  moreover have "dpb_frame q" using frame_evolves [OF Suc.prems(1) ev] .
  ultimately obtain dpb' where d: "Mmcop5Loop q (Suc i) n = Some dpb'" "dpb_frame dpb'" "fullness_exact dpb'"
    "evolves q dpb'" "\<forall>j. Suc i \<le> j \<and> j < Suc i + n \<longrightarrow> \<not> IS_REFERENCE (buffer dpb' ! j)"
    using Suc.IH [of q "Suc i"] Suc.prems(3) by auto
  have "i < length (buffer q)" "buffer q ! i = p" using len by (simp_all add: q_def)
  then have "\<not> IS_REFERENCE (buffer dpb' ! i)"
    using evolves_nth [OF d(4)] p(1) by (auto simp: same_picture_def)
  then have "\<not> IS_REFERENCE (buffer dpb' ! j)" if "i \<le> j" "j < i + Suc n" for j
    using d(5) that by (cases "j = i") auto
  then show ?case using loop d(1-4) evolves_trans [OF ev d(4)] by auto
qed auto

lemma no_references:
  assumes "dpb_core dpb" "evolves dpb q" "current_free dpb"
    and "\<forall>j. 0 \<le> j \<and> j < 0 + 16 \<longrightarrow> \<not> IS_REFERENCE (buffer q ! j)"
  shows "cnt IS_REFERENCE (buffer q) = 0"
proof -
  have "length (buffer q) = 17"
    using core_shape [OF assms(1)] assms(2) by (simp add: evolves_def same_config_def)
  moreover have "dpb_frame q" using assms(1,2) frame_evolves by (simp add: dpb_core_def) blast
  then have "\<not> IS_REFERENCE (buffer q ! 16)"
    using current_free_evolves [OF assms(1-3)] core_shape [OF assms(1)] assms(2)
    by (cases "slots q = 16")
      (auto simp: current_free_def occupied_def dpb_frame_def dpb_layout_def evolves_def same_config_def)
  then have "\<not> IS_REFERENCE (buffer q ! j)" if "j < 17" for j
    using assms(4) that by (cases "j = 16") auto
  ultimately show ?thesis using cnt_pos_iff [of IS_REFERENCE "buffer q"] by auto
qed

lemma Mmcop5_step:
  assumes "dpb_core dpb" "current_free dpb"
  shows "\<exists>dpb'. Mmcop5 dpb = Some (HANTRO_OK, dpb') \<and> mark_step dpb dpb' \<and> displayed dpb' = 0
    \<and> fullness dpb' = 0 \<and> numRefFrames dpb' = 0"
proof -
  have frame: "dpb_frame dpb" "fullness_exact dpb" using assms(1) by (simp_all add: dpb_core_def)
  obtain q where q: "Mmcop5Loop dpb 0 16 = Some q" "dpb_frame q" "fullness_exact q" "evolves dpb q"
    "\<forall>j. 0 \<le> j \<and> j < 0 + 16 \<longrightarrow> \<not> IS_REFERENCE (buffer q ! j)"
    using Mmcop5Loop_step [OF frame, of 0 16] by auto
  obtain r where r: "OutputAll q = Some r" "output_step q r" "displayed r = 0"
    using OutputAll_spec [OF q(2,3)] by blast
  define dpb' where "dpb' = r\<lparr>numRefFrames := 0, dpbMaxLongTermFrameIdx := NO_LONG_TERM_FRAME_INDICES,
    prevRefFrameNum := 0\<rparr>"
  have refs: "cnt IS_REFERENCE (buffer r) = 0"
    using r(2) no_references [OF assms(1) q(4) assms(2) q(5)] by (simp add: output_step_def)
  then have "cnt occupied (buffer r) = 0"
    using r(3) occupied_le [of "buffer r"] by (simp add: displayed_def)
  then have full: "fullness r = 0" using r(2) by (simp add: output_step_def fullness_exact_def unat_eq_0)
  have ev: "evolves dpb dpb'"
    using evolves_trans [OF q(4)] r(2) by (simp add: dpb'_def output_step_def)
  moreover have "refs_exact dpb'" using refs by (simp add: refs_exact_def dpb'_def)
  moreover have "fullness_exact dpb'" using r(2) by (simp add: output_step_def fullness_exact_def dpb'_def)
  ultimately have "mark_step dpb dpb'" using mark_stepI [OF assms(1)] by blast
  moreover have "Mmcop5 dpb = Some (HANTRO_OK, dpb')" using q(1) r(1) by (simp add: Mmcop5_def dpb'_def)
  ultimately show ?thesis using r(3) full by (auto simp: dpb'_def displayed_def)
qed

end
