(* ===== verification/H264DpbStore.thy ===== *)
theory H264DpbStore
  imports H264DpbMark
begin

text \<open>
  Storing a decoded picture: the sliding window, the list of marking operations and
  \<open>h264bsdMarkDecRefPic\<close> as a whole keep the invariant, end, and leave the buffer sorted
  with a free slot for the next picture.
\<close>

section \<open>The slot of the current picture\<close>

text \<open>What stays with every slot through marking, storing and output.\<close>

definition carries :: "dpbStorage \<Rightarrow> dpbStorage \<Rightarrow> bool" where
  "carries dpb dpb' \<longleftrightarrow> same_config dpb dpb' \<and> map data (buffer dpb') = map data (buffer dpb)
     \<and> map pAllocatedData (buffer dpb') = map pAllocatedData (buffer dpb)"

lemma carries_refl [simp]: "carries dpb dpb"
  by (simp add: carries_def same_config_def)

lemma carries_trans: "carries a b \<Longrightarrow> carries b c \<Longrightarrow> carries a c"
  by (simp add: carries_def same_config_def)

lemma evolves_carries: "evolves dpb dpb' \<Longrightarrow> carries dpb dpb'"
  by (auto simp: evolves_def carries_def list_all2_conv_all_nth same_picture_def intro!: nth_equalityI)

lemma same_config_sym: "same_config a b \<Longrightarrow> same_config b a"
  by (simp add: same_config_def)

definition store :: "dpbStorage \<Rightarrow> dpbPicture \<Rightarrow> dpbStorage" where
  "store dpb p = dpb\<lparr>buffer := (buffer dpb)[slots dpb := p],
     fullness := (if occupied p then fullness dpb + 1 else fullness dpb),
     numRefFrames := (if IS_REFERENCE p then numRefFrames dpb + 1 else numRefFrames dpb)\<rparr>"

lemma store_free_core:
  assumes core: "dpb_core dpb" and free: "\<not> occupied (buffer dpb ! slots dpb)" and room: "out_room dpb"
    and ref: "IS_REFERENCE p \<Longrightarrow> numRefFrames dpb < maxRefFrames dpb"
    and disp: "toBeDisplayed p \<Longrightarrow> \<not> noReordering dpb \<and> picOrderCnt p < 0x7FFFFFFF"
    and fn: "unat (picFrameNum p) < 2 ^ 31"
  shows "dpb_core (store dpb p)"
proof -
  define q where "q = store dpb p"
  have len: "slots dpb < length (buffer dpb)" "length (buffer dpb) = 17" "slots dpb \<le> 16"
    using core_shape [OF core] by simp_all
  have size: "slots q = slots dpb" "maxRefFrames q = maxRefFrames dpb" "noReordering q = noReordering dpb"
    "numOut q = numOut dpb" "outBuf q = outBuf dpb" "refList q = refList dpb"
    by (simp_all add: q_def store_def)
  have buf: "buffer q = (buffer dpb)[slots dpb := p]" by (simp add: q_def store_def)
  have old: "\<not> occupied (buffer dpb ! slots dpb)" "\<not> IS_REFERENCE (buffer dpb ! slots dpb)"
    "\<not> toBeDisplayed (buffer dpb ! slots dpb)"
    using free by (simp_all add: occupied_def)
  have occ: "cnt occupied (buffer q) = cnt occupied (buffer dpb) + of_bool (occupied p)"
    and refs: "cnt IS_REFERENCE (buffer q) = cnt IS_REFERENCE (buffer dpb) + of_bool (IS_REFERENCE p)"
    and dis: "cnt toBeDisplayed (buffer q) = cnt toBeDisplayed (buffer dpb) + of_bool (toBeDisplayed p)"
    using old len by (simp_all add: buf cnt_update [OF len(1), of _ p, symmetric])
  have small: "cnt occupied (buffer dpb) \<le> 17" "cnt IS_REFERENCE (buffer dpb) \<le> 17"
    using length_filter_le [of _ "buffer dpb"] len by (simp_all add: cnt_def)
  have f: "unat (fullness dpb) = cnt occupied (buffer dpb)" and n: "unat (numRefFrames dpb) = cnt IS_REFERENCE (buffer dpb)"
    using core by (simp_all add: dpb_core_def fullness_exact_def refs_exact_def)
  have "fullness_exact q" using f small(1) occ
    by (simp add: fullness_exact_def) (simp add: q_def store_def u32_small_inc)
  moreover have "refs_exact q" using n small(2) refs
    by (simp add: refs_exact_def) (simp add: q_def store_def u32_small_inc)
  moreover have "dpb_shape q" using core by (simp add: dpb_core_def dpb_frame_def dpb_shape_def size buf)
  moreover have "dpb_layout q"
    using core len ref n refs
    by (auto simp: dpb_core_def dpb_frame_def dpb_layout_def size buf nth_list_update word_less_nat_alt)
  moreover have "dpb_display q"
    using core disp len by (auto simp: dpb_core_def dpb_frame_def dpb_display_def size buf nth_list_update)
  moreover have "dpb_outputs q"
    using core room dis by (auto simp: dpb_core_def dpb_frame_def dpb_outputs_def out_room_def displayed_def size)
  moreover have "dpb_numbers q"
    using core fn len by (auto simp: dpb_core_def dpb_frame_def dpb_numbers_def buf nth_list_update)
      (simp_all add: q_def store_def)
  ultimately show ?thesis by (simp add: dpb_core_def dpb_frame_def q_def)
qed

lemma store_core:
  assumes "dpb_core dpb" "current_free dpb" "out_room dpb" "IS_REFERENCE p \<Longrightarrow> numRefFrames dpb < maxRefFrames dpb"
    and "toBeDisplayed p \<Longrightarrow> \<not> noReordering dpb \<and> picOrderCnt p < 0x7FFFFFFF" "unat (picFrameNum p) < 2 ^ 31"
  shows "dpb_core (store dpb p)"
  using assms by (intro store_free_core) (simp_all add: current_free_def)

lemma store_carries:
  assumes "dpb_core dpb" "data p = data (buffer dpb ! slots dpb)"
    and "pAllocatedData p = pAllocatedData (buffer dpb ! slots dpb)"
  shows "carries dpb (store dpb p)"
  using core_shape [OF assms(1)] assms(2,3)
  by (auto simp: carries_def same_config_def store_def map_update intro!: list_update_same_conv [THEN iffD2])

lemma store_room:
  assumes "dpb_core dpb" "\<not> occupied (buffer dpb ! slots dpb)" "out_room dpb" "\<not> toBeDisplayed p"
  shows "out_room (store dpb p)"
proof -
  have "slots dpb < length (buffer dpb)" using core_shape [OF assms(1)] by simp
  from cnt_update [OF this, of toBeDisplayed p] assms(2-4) show ?thesis
    by (simp add: out_room_def displayed_def store_def occupied_def)
qed

lemma UpdateCurrent_free:
  assumes "dpb_core dpb" "current_free dpb"
  shows "UpdateCurrent dpb f = Some (dpb\<lparr>buffer := (buffer dpb)[slots dpb := f (buffer dpb ! slots dpb)]\<rparr>)"
  using assms core_shape [OF assms(1)] by (simp add: UpdateCurrent_def current_free_def)

text \<open>What marking leaves: the picture is stored, or its slot is still free.\<close>

definition marked_ok :: "dpbStorage \<Rightarrow> bool \<Rightarrow> bool" where
  "marked_ok dpb marked \<longleftrightarrow> dpb_core dpb \<and> currentOut dpb = Some (slots dpb)
     \<and> (noReordering dpb \<longrightarrow> out_room dpb)
     \<and> (\<not> marked \<longrightarrow> current_free dpb \<and> out_room dpb)"

lemma mark_step_marked:
  assumes "mark_step dpb dpb'" "marked_ok dpb marked"
  shows "marked_ok dpb' marked" and "carries dpb dpb'"
proof -
  have core: "dpb_core dpb" "dpb_core dpb'" and ev: "evolves dpb dpb'"
    using assms by (simp_all add: mark_step_def marked_ok_def)
  have "currentOut dpb' = Some (slots dpb')"
    using assms(2) ev by (simp add: marked_ok_def evolves_def same_config_def)
  moreover have "noReordering dpb' = noReordering dpb" using ev by (simp add: evolves_def same_config_def)
  ultimately show "marked_ok dpb' marked"
    using assms(2) core current_free_evolves [OF core(1) ev] out_room_evolves [OF ev]
    by (simp add: marked_ok_def)
  show "carries dpb dpb'" using ev by (rule evolves_carries)
qed

section \<open>Assigning a long term index to the current picture\<close>

lemma Mmcop6_step:
  assumes ok: "marked_ok dpb False" and poc: "poc < 0x7FFFFFFF" and fn: "unat fn < 2 ^ 31"
  shows "\<exists>ret dpb'. Mmcop6 dpb fn poc idx = Some (ret, dpb') \<and> carries dpb dpb'
    \<and> marked_ok dpb' (ret = HANTRO_OK)"
proof (cases "dpbMaxLongTermFrameIdx dpb = NO_LONG_TERM_FRAME_INDICES \<or> idx > dpbMaxLongTermFrameIdx dpb")
  case True
  then show ?thesis using ok by (simp add: Mmcop6_def)
next
  case False
  obtain q where q: "ReleaseLongTermIdx dpb idx = Some q" "mark_step dpb q"
    using ReleaseLongTermIdx_step ok unfolding marked_ok_def by blast
  have okq: "marked_ok q False" and car: "carries dpb q" using mark_step_marked [OF q(2) ok] .
  then have core: "dpb_core q" and free: "current_free q" and room: "out_room q" by (simp_all add: marked_ok_def)
  show ?thesis
  proof (cases "numRefFrames q < maxRefFrames q")
    case True
    define p where "p = (buffer q ! slots q)\<lparr>picFrameNum := fn, picNum := sint idx, picOrderCnt := poc,
      status := LONG_TERM, toBeDisplayed := \<not> noReordering q\<rparr>"
    have ref: "IS_REFERENCE p" "occupied p" by (simp_all add: p_def IS_REFERENCE_def occupied_def)
    have "Mmcop6 dpb fn poc idx = Some (HANTRO_OK, store q p)"
      using False q(1) True ref UpdateCurrent_free [OF core free]
      by (simp add: Mmcop6_def store_def p_def)
    moreover have "dpb_core (store q p)"
      using True poc fn by (intro store_core [OF core free room]) (simp_all add: p_def)
    moreover have "carries dpb (store q p)"
      using carries_trans [OF car store_carries [OF core]] by (simp add: p_def)
    moreover have "currentOut (store q p) = Some (slots (store q p))"
      using okq by (simp add: marked_ok_def store_def)
    moreover have "noReordering (store q p) \<longrightarrow> out_room (store q p)"
      using store_room [OF core _ room] free by (simp add: store_def p_def current_free_def)
    ultimately show ?thesis by (simp add: marked_ok_def)
  next
    case no_room: False
    then have "Mmcop6 dpb fn poc idx = Some (HANTRO_NOK, q)" using False q(1) by (simp add: Mmcop6_def)
    with okq car show ?thesis by simp
  qed
qed

section \<open>The sliding window\<close>

lemma SlidingWindowLoop_spec:
  "i + n \<le> length buf \<Longrightarrow> (\<forall>m. r = Some m \<longrightarrow> m < i \<and> IS_SHORT_TERM (buf ! m) \<and> picNum (buf ! m) = k)
   \<Longrightarrow> \<exists>r'. SlidingWindowLoop buf i n r k = Some r'
     \<and> (\<forall>m. r' = Some m \<longrightarrow> m < i + n \<and> IS_SHORT_TERM (buf ! m))
     \<and> (r' = None \<longrightarrow> r = None \<and> (\<forall>m. i \<le> m \<and> m < i + n \<longrightarrow> \<not> IS_SHORT_TERM (buf ! m)))"
proof (induction n arbitrary: i r k)
  case (Suc n)
  define r1 where "r1 = (if IS_SHORT_TERM (buf ! i) \<and> (picNum (buf ! i) < k \<or> r = None) then Some i else r)"
  define k1 where "k1 = (if IS_SHORT_TERM (buf ! i) \<and> (picNum (buf ! i) < k \<or> r = None) then picNum (buf ! i) else k)"
  have "\<forall>m. r1 = Some m \<longrightarrow> m < Suc i \<and> IS_SHORT_TERM (buf ! m) \<and> picNum (buf ! m) = k1"
    using Suc.prems(2) by (auto simp: r1_def k1_def)
  then obtain r' where r': "SlidingWindowLoop buf (Suc i) n r1 k1 = Some r'"
    "\<forall>m. r' = Some m \<longrightarrow> m < Suc i + n \<and> IS_SHORT_TERM (buf ! m)"
    "r' = None \<longrightarrow> r1 = None \<and> (\<forall>m. Suc i \<le> m \<and> m < Suc i + n \<longrightarrow> \<not> IS_SHORT_TERM (buf ! m))"
    using Suc.IH [of "Suc i" r1 k1] Suc.prems(1) by auto
  have "SlidingWindowLoop buf i (Suc n) r k = SlidingWindowLoop buf (Suc i) n r1 k1"
    using Suc.prems(1) by (auto simp: r1_def k1_def)
  moreover have "\<not> IS_SHORT_TERM (buf ! m)" if "r' = None" "i \<le> m" "m < i + Suc n" for m
    using r'(3) that by (cases "m = i") (auto simp: r1_def split: if_splits)
  moreover have "r' = None \<longrightarrow> r = None" using r'(3) by (auto simp: r1_def split: if_splits)
  ultimately show ?case using r'(1,2) by auto
qed auto

lemma SlidingWindow_step:
  assumes "dpb_core dpb"
  shows "\<exists>ret dpb'. SlidingWindowRefPicMarking dpb = Some (ret, dpb') \<and> mark_step dpb dpb'
    \<and> (ret = HANTRO_OK \<longrightarrow> numRefFrames dpb' < maxRefFrames dpb') \<and> (ret = HANTRO_OK \<or> ret = HANTRO_NOK)"
proof (cases "numRefFrames dpb < maxRefFrames dpb")
  case True
  then show ?thesis using mark_step_refl [OF assms] by (simp add: SlidingWindowRefPicMarking_def)
next
  case False
  have n: "unat (numRefFrames dpb) \<le> unat (maxRefFrames dpb)"
    using assms by (simp add: dpb_core_def dpb_frame_def dpb_layout_def refs_exact_def)
  then have len: "0 + unat (numRefFrames dpb) \<le> length (buffer dpb)" using core_shape [OF assms] by simp
  obtain r where r: "SlidingWindowLoop (buffer dpb) 0 (unat (numRefFrames dpb)) None 0 = Some r"
    "\<forall>m. r = Some m \<longrightarrow> m < 0 + unat (numRefFrames dpb) \<and> IS_SHORT_TERM (buffer dpb ! m)"
    using SlidingWindowLoop_spec [OF len, of None 0] by auto
  show ?thesis
  proof (cases r)
    case None
    then show ?thesis using r(1) False mark_step_refl [OF assms] by (simp add: SlidingWindowRefPicMarking_def)
  next
    case (Some i)
    then have i: "i < 17" "IS_REFERENCE (buffer dpb ! i)"
      using r(2) n core_shape [OF assms] short_term_reference by auto
    obtain dpb' where d: "DropReference dpb i = Some dpb'" "mark_step dpb dpb'"
      "numRefFrames dpb' = numRefFrames dpb - 1" "0 < unat (numRefFrames dpb)"
      using DropReference_step [OF assms i] by blast
    have "numRefFrames dpb' < maxRefFrames dpb'"
      using d(2,3) u32_dec [OF d(4)] n d(4)
      by (simp add: word_less_nat_alt mark_step_def evolves_def same_config_def)
    then show ?thesis using r(1) False Some d by (simp add: SlidingWindowRefPicMarking_def)
  qed
qed

section \<open>The list of operations\<close>

text \<open>
  What the operations must satisfy: the list is terminated, no difference of picture numbers
  makes the subtraction overflow, and nothing reassigns or flushes the current picture once
  operation 6 has stored it.
\<close>

fun mmcos_ok :: "bool \<Rightarrow> memoryManagementOperation list \<Rightarrow> bool" where
  "mmcos_ok marked [] = False"
| "mmcos_ok marked (c # cs) =
     (let mmco = memoryManagementControlOperation c
      in mmco = 0 \<or>
         ((mmco = 1 \<or> mmco = 3 \<longrightarrow> unat (differenceOfPicNums c) < 2 ^ 31)
          \<and> (mmco = 5 \<or> mmco = 6 \<longrightarrow> \<not> marked) \<and> mmcos_ok (marked \<or> mmco = 6) cs))"

lemma mmcos_ok_weaken: "mmcos_ok True cs \<Longrightarrow> mmcos_ok False cs"
proof (induction cs)
  case (Cons c cs)
  then show ?case by (auto simp: Let_def)
qed simp

lemma chk_difference:
  assumes "unat (fn :: u32) < 2 ^ 31" "unat (diff :: u32) < 2 ^ 31"
  shows "chk (sint fn - sint diff) \<noteq> None"
proof -
  have "sint fn = int (unat fn)" "sint diff = int (unat diff)" using assms by (simp_all only: sint_small)
  moreover have "int (unat fn) < int (2 ^ 31)" "int (unat diff) < int (2 ^ 31)"
    using assms by (simp_all only: of_nat_less_iff)
  ultimately show ?thesis by (simp add: chk_def del: of_nat_unat)
qed

lemma marked_ok_flag [simp]: "marked_ok (dpb\<lparr>lastContainsMmco5 := b\<rparr>) marked = marked_ok dpb marked"
  by (simp add: marked_ok_def current_free_def out_room_def displayed_def)

lemma carries_flag [simp]: "carries dpb (dpb'\<lparr>lastContainsMmco5 := b\<rparr>) = carries dpb dpb'"
  by (simp add: carries_def same_config_def)

lemma MarkOperation_step:
  assumes ok: "marked_ok dpb marked" and c: "mmcos_ok marked (c # cs)" "memoryManagementControlOperation c \<noteq> 0"
    and poc: "poc < 0x7FFFFFFF" and fn: "unat fn < 2 ^ 31"
  shows "\<exists>ret dpb' fn' marked'. MarkOperation c dpb fn poc marked = Some (ret, dpb', fn', marked')
    \<and> carries dpb dpb' \<and> marked_ok dpb' marked' \<and> unat fn' < 2 ^ 31 \<and> mmcos_ok marked' cs"
proof -
  define m where "m = memoryManagementControlOperation c"
  have core: "dpb_core dpb" using ok by (simp add: marked_ok_def)
  have rest: "mmcos_ok (marked \<or> m = 6) cs" using c by (simp add: m_def Let_def)
  have diff: "chk (sint fn - sint (differenceOfPicNums c)) \<noteq> None" if "m = 1 \<or> m = 3"
    using c that by (intro chk_difference [OF fn]) (auto simp: m_def Let_def)
  have simple: ?thesis
    if "\<exists>ret dpb'. MarkOperation c dpb fn poc marked = Some (ret, dpb', fn, marked) \<and> mark_step dpb dpb'" "m \<noteq> 6"
    using that rest fn mark_step_marked [OF _ ok] by auto
  consider "m = 1" | "m = 2" | "m = 3" | "m = 4" | "m = 5" | "m = 6"
    | "m \<notin> {1, 2, 3, 4, 5, 6}" by blast
  then show ?thesis
  proof cases
    case 1
    then show ?thesis using Mmcop1_step [OF core diff] by (intro simple) (auto simp: MarkOperation_def m_def)
  next
    case 2
    then show ?thesis using Mmcop2_step [OF core, of "longTermPicNum c"]
      by (intro simple) (auto simp: MarkOperation_def m_def)
  next
    case 3
    then show ?thesis using Mmcop3_step [OF core diff, of "longTermFrameIdx c"]
      by (intro simple) (auto simp: MarkOperation_def m_def)
  next
    case 4
    then show ?thesis using Mmcop4_step [OF core, of "maxLongTermFrameIdx c"]
      by (intro simple) (auto simp: MarkOperation_def m_def)
  next
    case 5
    then have free: "current_free dpb" and nm: "\<not> marked" using c ok by (simp_all add: m_def Let_def marked_ok_def)
    obtain dpb' where d: "Mmcop5 dpb = Some (HANTRO_OK, dpb')" "mark_step dpb dpb'"
      using Mmcop5_step [OF core free] by blast
    then have "MarkOperation c dpb fn poc marked = Some (HANTRO_OK, dpb'\<lparr>lastContainsMmco5 := True\<rparr>, 0, marked)"
      using 5 by (simp add: MarkOperation_def m_def)
    with rest 5 mark_step_marked [OF d(2) ok] show ?thesis by simp
  next
    case 6
    then have nm: "\<not> marked" using c by (simp add: m_def Let_def)
    then obtain ret dpb' where d: "Mmcop6 dpb fn poc (longTermFrameIdx c) = Some (ret, dpb')" "carries dpb dpb'"
      "marked_ok dpb' (ret = HANTRO_OK)"
      using Mmcop6_step [OF _ poc fn] ok by (metis (full_types))
    have "MarkOperation c dpb fn poc marked = Some (ret, dpb', fn, ret = HANTRO_OK)"
      using 6 d(1) nm by (simp add: MarkOperation_def m_def)
    moreover have "mmcos_ok (ret = HANTRO_OK) cs"
      using rest 6 mmcos_ok_weaken [of cs] by (cases "ret = HANTRO_OK") simp_all
    ultimately show ?thesis using d(2,3) fn by blast
  next
    case 7
    then have "MarkOperation c dpb fn poc marked = Some (HANTRO_NOK, dpb, fn, marked)"
      by (auto simp: MarkOperation_def m_def)
    then show ?thesis using 7 core by (intro simple) (simp_all add: mark_step_refl)
  qed
qed

lemma MarkOperations_step:
  "marked_ok dpb marked \<Longrightarrow> mmcos_ok marked cs \<Longrightarrow> poc < 0x7FFFFFFF \<Longrightarrow> unat fn < 2 ^ 31 \<Longrightarrow>
   \<exists>ret dpb' fn' marked'. MarkOperations cs dpb fn poc marked = Some (ret, dpb', fn', marked')
     \<and> carries dpb dpb' \<and> marked_ok dpb' marked' \<and> unat fn' < 2 ^ 31"
proof (induction cs arbitrary: dpb fn marked)
  case (Cons c cs)
  show ?case
  proof (cases "memoryManagementControlOperation c = 0")
    case True
    then show ?thesis using Cons.prems(1,4) by simp
  next
    case False
    obtain ret dpb1 fn1 marked1 where d: "MarkOperation c dpb fn poc marked = Some (ret, dpb1, fn1, marked1)"
      "carries dpb dpb1" "marked_ok dpb1 marked1" "unat fn1 < 2 ^ 31" "mmcos_ok marked1 cs"
      using MarkOperation_step [OF Cons.prems(1,2) False Cons.prems(3,4)] by blast
    show ?thesis
    proof (cases "ret = HANTRO_OK")
      case True
      obtain ret' dpb' fn' marked' where "MarkOperations cs dpb1 fn1 poc marked1 = Some (ret', dpb', fn', marked')"
        "carries dpb1 dpb'" "marked_ok dpb' marked'" "unat fn' < 2 ^ 31"
        using Cons.IH [OF d(3,5) Cons.prems(3) d(4)] by blast
      then show ?thesis using True False d(1) carries_trans [OF d(2)]
        by simp
    next
      case bad: False
      then show ?thesis using False d(1-4) by simp
    qed
  qed
qed simp

section \<open>Storing a picture\<close>

lemma store_marked:
  assumes ok: "marked_ok dpb False" and car: "carries dpb0 dpb"
    and ref: "IS_REFERENCE p \<Longrightarrow> numRefFrames dpb < maxRefFrames dpb"
    and p: "toBeDisplayed p \<Longrightarrow> \<not> noReordering dpb" "picOrderCnt p < 0x7FFFFFFF" "unat (picFrameNum p) < 2 ^ 31"
    and same: "data p = data (buffer dpb ! slots dpb)" "pAllocatedData p = pAllocatedData (buffer dpb ! slots dpb)"
  shows "marked_ok (store dpb p) True" and "carries dpb0 (store dpb p)"
proof -
  have core: "dpb_core dpb" "current_free dpb" "out_room dpb" using ok by (simp_all add: marked_ok_def)
  have "dpb_core (store dpb p)" using ref p by (intro store_core [OF core]) simp_all
  moreover have "noReordering (store dpb p) = noReordering dpb" by (simp add: store_def)
  then have "noReordering (store dpb p) \<longrightarrow> out_room (store dpb p)"
    using store_room [OF core(1) _ core(3), of p] core(2) p(1) unfolding current_free_def by blast
  ultimately show "marked_ok (store dpb p) True" using ok by (simp add: marked_ok_def store_def)
  show "carries dpb0 (store dpb p)" using carries_trans [OF car store_carries [OF core(1) same]] .
qed

lemma marked_ok_weaken: "marked_ok dpb marked \<Longrightarrow> marked_ok dpb True"
  by (simp add: marked_ok_def)

lemma MarkNonReference_step:
  assumes ok: "marked_ok dpb False" and poc: "poc < 0x7FFFFFFF" and fn: "unat fn < 2 ^ 31"
  shows "\<exists>dpb'. MarkNonReference dpb fn poc = Some (HANTRO_OK, dpb') \<and> marked_ok dpb' True \<and> carries dpb dpb'"
proof -
  have core: "dpb_core dpb" "current_free dpb" using ok by (simp_all add: marked_ok_def)
  define p where "p = (buffer dpb ! slots dpb)\<lparr>status := UNUSED, picFrameNum := fn, picNum := sint fn,
    picOrderCnt := poc, toBeDisplayed := \<not> noReordering dpb\<rparr>"
  have ref: "\<not> IS_REFERENCE p" "occupied p = (\<not> noReordering dpb)" by (simp_all add: p_def IS_REFERENCE_def occupied_def)
  have "MarkNonReference dpb fn poc = Some (HANTRO_OK, store dpb p)"
    using ref UpdateCurrent_free [OF core] by (simp add: MarkNonReference_def store_def p_def)
  moreover have "marked_ok (store dpb p) True" "carries dpb (store dpb p)"
    using store_marked [OF ok carries_refl, of p] ref poc fn by (simp_all add: p_def)
  ultimately show ?thesis by blast
qed

lemma MarkReference_step:
  assumes ok: "marked_ok dpb False" and poc: "poc < 0x7FFFFFFF" and fn: "unat fn < 2 ^ 31"
    and ops: "adaptiveRefPicMarkingModeFlag mark \<Longrightarrow> mmcos_ok False (operation mark)"
  shows "\<exists>ret dpb'. MarkReference dpb mark fn poc = Some (ret, dpb') \<and> marked_ok dpb' True \<and> carries dpb dpb'"
proof -
  obtain ret q fn' marked where q: "(if adaptiveRefPicMarkingModeFlag mark
        then MarkOperations (operation mark) dpb fn poc False
        else do { (ret, dpb) \<leftarrow> SlidingWindowRefPicMarking dpb; Some (ret, dpb, fn, False) })
      = Some (ret, q, fn', marked)" "carries dpb q" "marked_ok q marked" "unat fn' < 2 ^ 31"
  proof (cases "adaptiveRefPicMarkingModeFlag mark")
    case True
    from MarkOperations_step [OF ok ops [OF True] poc fn] True that show thesis by auto
  next
    case False
    have "dpb_core dpb" using ok by (simp add: marked_ok_def)
    from SlidingWindow_step [OF this] obtain ret q where
      "SlidingWindowRefPicMarking dpb = Some (ret, q)" "mark_step dpb q" by blast
    moreover from this have "marked_ok q False" "carries dpb q" using mark_step_marked [OF _ ok] by simp_all
    ultimately show thesis using False fn by (intro that [of ret q fn False]) simp_all
  qed
  show ?thesis
  proof (cases "\<not> marked \<and> numRefFrames q < maxRefFrames q")
    case True
    then have okq: "marked_ok q False" and core: "dpb_core q" "current_free q"
      using q(3) by (simp_all add: marked_ok_def)
    define p where "p = (buffer q ! slots q)\<lparr>picFrameNum := fn', picNum := sint fn', picOrderCnt := poc,
      status := SHORT_TERM, toBeDisplayed := \<not> noReordering q\<rparr>"
    have ref: "IS_REFERENCE p" "occupied p" by (simp_all add: p_def IS_REFERENCE_def occupied_def)
    have "MarkReference dpb mark fn poc = Some (ret, store q p)"
      using q(1) True ref UpdateCurrent_free [OF core] by (simp add: MarkReference_def store_def p_def)
    moreover have "marked_ok (store q p) True" "carries dpb (store q p)"
      using store_marked [OF okq q(2), of p] True poc q(4) by (simp_all add: p_def)
    ultimately show ?thesis by blast
  next
    case False
    then have "\<exists>ret. MarkReference dpb mark fn poc = Some (ret, q)" using q(1) by (auto simp: MarkReference_def)
    with q marked_ok_weaken show ?thesis by blast
  qed
qed

lemma cnt_le_prefix:
  assumes "\<And>i. n \<le> i \<Longrightarrow> i < length xs \<Longrightarrow> \<not> P (xs ! i)"
  shows "cnt P xs \<le> n"
proof -
  have "filter P (drop n xs) = []" using assms by (auto simp: filter_empty_conv in_set_conv_nth)
  then have "filter P xs = filter P (take n xs)" by (metis append_Nil2 append_take_drop_id filter_append)
  then have "cnt P xs \<le> length (take n xs)" unfolding cnt_def by (metis length_filter_le)
  then show ?thesis by simp
qed

lemma displayed_free:
  assumes "dpb_core dpb" "current_free dpb"
  shows "displayed dpb \<le> slots dpb"
  unfolding displayed_def
proof (rule cnt_le_prefix)
  fix i assume "slots dpb \<le> i" "i < length (buffer dpb)"
  then show "\<not> toBeDisplayed (buffer dpb ! i)"
    using assms core_shape [OF assms(1)]
    by (cases "i = slots dpb") (auto simp: current_free_def occupied_def dpb_core_def dpb_frame_def dpb_layout_def)
qed

lemma core_no_output:
  "dpb_core dpb \<Longrightarrow> displayed dpb \<le> slots dpb \<Longrightarrow> dpb_core (dpb\<lparr>numOut := 0, outIndex := 0\<rparr>)"
  by (auto simp: dpb_core_def dpb_parts displayed_def)

text \<open>An IDR picture may come while the output buffer still holds pictures.\<close>

lemma MarkIdr_step:
  assumes core: "dpb_core dpb" and free: "current_free dpb"
  shows "\<exists>dpb'. MarkIdr dpb mark = Some (HANTRO_OK, dpb') \<and> marked_ok dpb' True \<and> carries dpb dpb'
    \<and> fullness dpb' = 1 \<and> numRefFrames dpb' = 1"
proof -
  define a where "a = dpb\<lparr>numOut := 0, outIndex := 0\<rparr>"
  have core_a: "dpb_core a" using core_no_output [OF core displayed_free [OF core free]] by (simp add: a_def)
  have free_a: "current_free a" using free by (simp add: current_free_def a_def)
  obtain b where b: "Mmcop5 a = Some (HANTRO_OK, b)" "mark_step a b" "displayed b = 0"
    "fullness b = 0" "numRefFrames b = 0" using Mmcop5_step [OF core_a free_a] by blast
  have core_b: "dpb_core b" and ev: "evolves a b" using b(2) by (simp_all add: mark_step_def)
  have free_b: "current_free b" using current_free_evolves [OF core_a ev free_a] .
  have "out_room a" using displayed_free [OF core_a free_a] by (simp add: out_room_def a_def)
  then have room_b: "out_room b" using out_room_evolves [OF ev] by simp
  define cut where "cut = (noOutputOfPriorPicsFlag mark \<or> noReordering b)"
  define c where "c = (if cut then b\<lparr>numOut := 0, outIndex := 0\<rparr> else b)
    \<lparr>dpbMaxLongTermFrameIdx := (if longTermReferenceFlag mark then 0 else NO_LONG_TERM_FRAME_INDICES)\<rparr>"
  have c_fields: "buffer c = buffer b" "dpbSize c = dpbSize b" "currentOut c = currentOut b"
    "noReordering c = noReordering b" "fullness c = 0" "numRefFrames c = 0" "maxRefFrames c = maxRefFrames b"
    "numOut c = (if cut then 0 else numOut b)"
    using b(4,5) by (simp_all add: c_def)
  have core_c: "dpb_core c" using core_b core_no_output [OF core_b] b(3) by (simp add: c_def)
  have free_c: "current_free c" and room_c: "out_room c"
    using free_b room_b by (simp_all add: current_free_def out_room_def displayed_def c_fields)
  have okc: "marked_ok c False" using core_c free_c room_c by (simp add: marked_ok_def current_free_def)
  define p where "p = (buffer c ! slots c)\<lparr>status := (if longTermReferenceFlag mark then LONG_TERM else SHORT_TERM),
    picFrameNum := 0, picNum := 0, picOrderCnt := 0, toBeDisplayed := \<not> noReordering c\<rparr>"
  have ref: "IS_REFERENCE p" "occupied p" by (simp_all add: p_def IS_REFERENCE_def occupied_def)
  have "carries dpb b" using evolves_carries [OF ev] by (simp add: a_def carries_def same_config_def)
  then have car: "carries dpb c" by (simp add: carries_def same_config_def c_def)
  have less: "numRefFrames c < maxRefFrames c"
    using core_shape [OF core_b] by (simp add: c_fields word_less_nat_alt)
  have "MarkIdr dpb mark = do {
      dpb \<leftarrow> UpdateCurrent c (\<lambda>p. p\<lparr>status := (if longTermReferenceFlag mark then LONG_TERM else SHORT_TERM),
        picFrameNum := 0, picNum := 0, picOrderCnt := 0, toBeDisplayed := \<not> noReordering c\<rparr>);
      Some (HANTRO_OK, dpb\<lparr>fullness := 1, numRefFrames := 1\<rparr>) }"
    unfolding MarkIdr_def a_def [symmetric] b(1) c_def cut_def
    by (cases "noOutputOfPriorPicsFlag mark \<or> noReordering b"; cases "longTermReferenceFlag mark") (simp_all add: Let_def)
  moreover have "store c p = c\<lparr>buffer := (buffer c)[slots c := p], fullness := 1, numRefFrames := 1\<rparr>"
    using ref by (simp add: store_def c_fields)
  ultimately have "MarkIdr dpb mark = Some (HANTRO_OK, store c p)"
    using UpdateCurrent_free [OF core_c free_c] by (simp add: p_def)
  moreover have "marked_ok (store c p) True" "carries dpb (store c p)"
    using store_marked [OF okc car, of p] less by (simp_all add: p_def)
  moreover have "fullness (store c p) = 1" "numRefFrames (store c p) = 1"
    using ref by (simp_all add: store_def c_fields)
  ultimately show ?thesis by blast
qed

end
