(* ===== verification/H264DpbRest.thy ===== *)
theory H264DpbRest
  imports H264DpbStore
begin

text \<open>
  The decoded picture buffer between two pictures: references first, then pictures that wait
  for display, then free slots, the last slot always free. \<open>h264bsdMarkDecRefPic\<close> returns
  and re-establishes this, whatever the picture and its marking.
\<close>

section \<open>The buffer at rest\<close>

definition rank :: "dpbPicture \<Rightarrow> nat" where
  "rank p = (if IS_REFERENCE p then 0 else if toBeDisplayed p then 1 else 2)"

definition dpb_rest :: "dpbStorage \<Rightarrow> bool" where
  "dpb_rest dpb \<longleftrightarrow> dpb_core dpb \<and> unat (fullness dpb) \<le> slots dpb
     \<and> sorted (map rank (take (Suc (slots dpb)) (buffer dpb)))"

lemma sorted_prefix:
  "(\<And>i j. i < j \<Longrightarrow> j < length xs \<Longrightarrow> P (xs ! j) \<Longrightarrow> P (xs ! i)) \<Longrightarrow> i < length xs
   \<Longrightarrow> P (xs ! i) \<longleftrightarrow> i < cnt P xs"
proof (induction xs arbitrary: i)
  case (Cons x xs)
  have tl: "P (xs ! j) \<Longrightarrow> P (xs ! i)" if "i < j" "j < length xs" for i j
    using Cons.prems(1) [of "Suc i" "Suc j"] that by simp
  show ?case
  proof (cases "P x")
    case True
    then show ?thesis using Cons.IH [OF tl] Cons.prems(2) by (cases i) (auto simp: cnt_def)
  next
    case False
    then have none: "\<not> P (xs ! j)" if "j < length xs" for j
      using Cons.prems(1) [of 0 "Suc j"] that by auto
    then have "cnt P xs = 0" using cnt_pos_iff [of P xs] by auto
    then show ?thesis using False none Cons.prems(2) by (cases i) (auto simp: cnt_def)
  qed
qed simp

lemma rank_sorted_slots:
  assumes "length xs = 17" "n \<le> 16" "sorted (map rank (take (Suc n) xs))"
    and "\<And>i. n < i \<Longrightarrow> i < 17 \<Longrightarrow> \<not> occupied (xs ! i)" and "i < 17"
  shows "IS_REFERENCE (xs ! i) \<longleftrightarrow> i < cnt IS_REFERENCE xs" and "occupied (xs ! i) \<longleftrightarrow> i < cnt occupied xs"
proof -
  have mono: "rank (xs ! i) \<le> rank (xs ! j)" if "i < j" "j \<le> n" for i j
    using sorted_nth_mono [OF assms(3), of i j] assms(1,2) that by simp
  have ref: "IS_REFERENCE (xs ! i)" if "i < j" "j < length xs" "IS_REFERENCE (xs ! j)" for i j
    using mono [OF that(1)] assms(4) [of j] that assms(1) by (cases "j \<le> n") (auto simp: rank_def occupied_def split: if_splits)
  have occ: "occupied (xs ! i)" if "i < j" "j < length xs" "occupied (xs ! j)" for i j
    using mono [OF that(1)] assms(4) [of j] that assms(1) by (cases "j \<le> n") (auto simp: rank_def occupied_def split: if_splits)
  have i: "i < length xs" using assms(1,5) by simp
  show "IS_REFERENCE (xs ! i) \<longleftrightarrow> i < cnt IS_REFERENCE xs" by (rule sorted_prefix [OF _ i]) (rule ref)
  show "occupied (xs ! i) \<longleftrightarrow> i < cnt occupied xs" by (rule sorted_prefix [OF _ i]) (rule occ)
qed

lemma rest_slots:
  assumes "dpb_rest dpb" "i < 17"
  shows "IS_REFERENCE (buffer dpb ! i) \<longleftrightarrow> i < unat (numRefFrames dpb)"
    and "occupied (buffer dpb ! i) \<longleftrightarrow> i < unat (fullness dpb)"
proof -
  have core: "dpb_core dpb" using assms by (simp add: dpb_rest_def)
  have "\<And>i. slots dpb < i \<Longrightarrow> i < 17 \<Longrightarrow> \<not> occupied (buffer dpb ! i)"
    using core by (simp add: dpb_core_def dpb_frame_def dpb_layout_def)
  from rank_sorted_slots [OF core_shape(1) [OF core] core_shape(3) [OF core] _ this assms(2)] assms(1) core
  show "IS_REFERENCE (buffer dpb ! i) \<longleftrightarrow> i < unat (numRefFrames dpb)"
    "occupied (buffer dpb ! i) \<longleftrightarrow> i < unat (fullness dpb)"
    by (simp_all add: dpb_rest_def dpb_core_def refs_exact_def fullness_exact_def)
qed

section \<open>Sorting the buffer\<close>

lemma compare_rank: "ComparePictures p q \<le> 0 \<Longrightarrow> rank p \<le> rank q"
  by (auto simp: ComparePictures_def rank_def split: if_splits)

lemma rank_sorted_take: "sorted_wrt pics.le xs \<Longrightarrow> sorted (map rank xs)"
  by (induction xs) (auto intro: compare_rank)

text \<open>
  Sorting may move every slot, so it keeps the addresses in the slots in use as multisets; the
  addresses of the samples may also be exchanged.
\<close>

definition active :: "dpbStorage \<Rightarrow> dpbPicture list" where
  "active dpb = take (Suc (slots dpb)) (buffer dpb)"

definition permutes :: "dpbStorage \<Rightarrow> dpbStorage \<Rightarrow> bool" where
  "permutes dpb dpb' \<longleftrightarrow> same_config dpb dpb'
     \<and> mset (map data (active dpb')) = mset (map data (active dpb))
     \<and> mset (map pAllocatedData (active dpb')) = mset (map pAllocatedData (active dpb))"

lemma carries_permutes:
  assumes "carries dpb dpb'"
  shows "permutes dpb dpb'"
  using assms by (simp add: carries_def permutes_def active_def same_config_def take_map [symmetric])

lemma permutes_refl [simp]: "permutes dpb dpb"
  by (simp add: permutes_def same_config_def)

lemma permutes_flag [simp]: "permutes (dpb\<lparr>lastContainsMmco5 := b\<rparr>) dpb' = permutes dpb dpb'"
  by (simp add: permutes_def same_config_def active_def)

lemma permutes_trans: "permutes a b \<Longrightarrow> permutes b c \<Longrightarrow> permutes a c"
  by (simp add: permutes_def same_config_def)

lemma sort_rest:
  assumes core: "dpb_core dpb" and full: "unat (fullness dpb) \<le> slots dpb"
  shows "\<exists>buf. ShellSort (buffer dpb) (dpbSize dpb + 1) = Some buf \<and> mset buf = mset (buffer dpb)
    \<and> dpb_rest (dpb\<lparr>buffer := buf\<rparr>) \<and> permutes dpb (dpb\<lparr>buffer := buf\<rparr>)"
proof -
  note shape = core_shape [OF core]
  have num: "unat (dpbSize dpb + 1) = Suc (slots dpb)" using shape by (simp add: u32_small_inc)
  obtain buf where buf: "ShellSort (buffer dpb) (dpbSize dpb + 1) = Some buf" "mset buf = mset (buffer dpb)"
    "sorted_wrt pics.le (take (Suc (slots dpb)) buf)"
    "drop (Suc (slots dpb)) buf = drop (Suc (slots dpb)) (buffer dpb)"
    using ShellSort_spec [of "dpbSize dpb + 1" "buffer dpb"] shape unfolding num by auto
  define q where "q = dpb\<lparr>buffer := buf\<rparr>"
  have len: "length buf = 17" using buf(2) shape by (metis mset_eq_length)
  have sorted: "sorted (map rank (take (Suc (slots dpb)) buf))" using rank_sorted_take [OF buf(3)] .
  have counts: "cnt P buf = cnt P (buffer dpb)" for P by (rule cnt_mset [OF buf(2)])
  have above: "\<not> occupied (buf ! i)" if "slots dpb < i" "i < 17" for i
  proof -
    have "buf ! i = drop (Suc (slots dpb)) buf ! (i - Suc (slots dpb))" using that len by simp
    also have "\<dots> = buffer dpb ! i" unfolding buf(4) using that shape by simp
    finally show ?thesis using core that by (simp add: dpb_core_def dpb_frame_def dpb_layout_def)
  qed
  have ref: "IS_REFERENCE (buf ! i) \<longleftrightarrow> i < cnt IS_REFERENCE (buffer dpb)" if "i < 17" for i
    using rank_sorted_slots(1) [OF len shape(3) sorted above that] by (simp add: counts)
  have "dpb_layout q"
    using core ref above by (auto simp: dpb_core_def dpb_frame_def dpb_layout_def q_def counts)
  moreover have "dpb_display q"
  proof -
    have "\<forall>p \<in> set (buffer dpb). toBeDisplayed p \<longrightarrow> \<not> noReordering dpb \<and> picOrderCnt p < 0x7FFFFFFF"
      using core shape by (auto simp: dpb_core_def dpb_frame_def dpb_display_def in_set_conv_nth)
    moreover have "set buf = set (buffer dpb)" using buf(2) by (rule mset_eq_setD)
    ultimately show ?thesis using len by (auto simp: dpb_display_def q_def)
  qed
  moreover have "dpb_numbers q"
  proof -
    have "\<forall>p \<in> set (buffer dpb). unat (picFrameNum p) < 2 ^ 31"
      using core shape by (auto simp: dpb_core_def dpb_frame_def dpb_numbers_def in_set_conv_nth)
    moreover have "set buf = set (buffer dpb)" using buf(2) by (rule mset_eq_setD)
    ultimately show ?thesis using len core by (auto simp: dpb_core_def dpb_frame_def dpb_numbers_def q_def)
  qed
  moreover have "dpb_shape q \<and> dpb_outputs q \<and> fullness_exact q \<and> refs_exact q"
    using core len by (simp add: dpb_core_def dpb_frame_def dpb_shape_def dpb_outputs_def fullness_exact_def
        refs_exact_def q_def counts)
  ultimately have "dpb_rest q" using full sorted by (simp add: dpb_rest_def dpb_core_def dpb_frame_def q_def)
  moreover have "mset (take (Suc (slots dpb)) buf) = mset (take (Suc (slots dpb)) (buffer dpb))"
    using buf(2,4) by (metis add_right_cancel append_take_drop_id mset_append)
  then have "permutes dpb q"
    using len shape by (simp add: permutes_def same_config_def active_def q_def)
  ultimately show ?thesis using buf(1,2) by (auto simp: q_def)
qed

section \<open>Marking a picture\<close>

lemma stamp_step:
  assumes ok: "marked_ok dpb True"
    and same: "\<And>p. data (f p) = data p" "\<And>p. pAllocatedData (f p) = pAllocatedData p"
      "\<And>p. picOrderCnt (f p) = picOrderCnt p" "\<And>p. picFrameNum (f p) = picFrameNum p" "\<And>p. status (f p) = status p" "\<And>p. toBeDisplayed (f p) = toBeDisplayed p"
  shows "\<exists>dpb'. UpdateCurrent dpb f = Some dpb' \<and> marked_ok dpb' True \<and> carries dpb dpb'
    \<and> fullness dpb' = fullness dpb"
proof -
  have core: "dpb_core dpb" and cur: "currentOut dpb = Some (slots dpb)" using ok by (simp_all add: marked_ok_def)
  have len: "slots dpb < length (buffer dpb)" using core_shape [OF core] by simp
  define p where "p = f (buffer dpb ! slots dpb)"
  define q where "q = dpb\<lparr>buffer := (buffer dpb)[slots dpb := p]\<rparr>"
  have U: "UpdateCurrent dpb f = Some q" using cur len by (simp add: UpdateCurrent_def q_def p_def)
  have ref: "IS_REFERENCE p = IS_REFERENCE (buffer dpb ! slots dpb)" "occupied p = occupied (buffer dpb ! slots dpb)"
    using same by (simp_all add: p_def IS_REFERENCE_def occupied_def)
  have ev: "evolves dpb q"
    using same ref by (intro evolves_slot [OF len, of p]) (simp_all add: same_picture_def q_def, simp_all add: p_def)
  have "cnt IS_REFERENCE (buffer q) = cnt IS_REFERENCE (buffer dpb)" "cnt occupied (buffer q) = cnt occupied (buffer dpb)"
    using cnt_update [OF len, of IS_REFERENCE p] cnt_update [OF len, of occupied p] ref by (simp_all add: q_def)
  then have "refs_exact q" "fullness_exact q"
    using core by (simp_all add: dpb_core_def refs_exact_def fullness_exact_def) (simp_all add: q_def)
  then have "mark_step dpb q" using mark_stepI [OF core ev] by blast
  from mark_step_marked [OF this ok] U show ?thesis by (simp add: q_def)
qed

text \<open>
  The pictures that are stored as the standard means it: any IDR picture; another picture when its
  count is below the largest \<open>i32\<close> and its operations, if it has a list of them, satisfy
  \<open>mmcos_ok\<close>.
\<close>

definition tame_picture :: "decRefPicMarking option \<Rightarrow> int \<Rightarrow> bool \<Rightarrow> bool" where
  "tame_picture mark poc idr \<longleftrightarrow>
     idr \<and> mark \<noteq> None
     \<or> poc < 0x7FFFFFFF
       \<and> (case mark of None \<Rightarrow> True
          | Some m \<Rightarrow> adaptiveRefPicMarkingModeFlag m \<longrightarrow> mmcos_ok False (operation m))"

lemma marked_ok_clear [simp]: "marked_ok (dpb\<lparr>lastContainsMmco5 := b\<rparr>) m = marked_ok dpb m"
  by simp

lemma carries_clear [simp]: "carries (dpb\<lparr>lastContainsMmco5 := b\<rparr>) dpb' = carries dpb dpb'"
  by (simp add: carries_def same_config_def)

lemma Mark_dispatch:
  assumes core: "dpb_core dpb" and free: "current_free dpb"
    and room: "out_room dpb \<or> idr \<and> mark \<noteq> None"
    and args: "tame_picture mark poc idr" "idr \<and> mark \<noteq> None \<or> unat fn < 2 ^ 31"
  shows "\<exists>ret dpb'. (case mark of None \<Rightarrow> MarkNonReference dpb fn poc
      | Some m \<Rightarrow> if idr then MarkIdr dpb m else MarkReference dpb m fn poc) = Some (ret, dpb')
    \<and> marked_ok dpb' True \<and> carries dpb dpb'"
proof (cases mark)
  case None
  then have ok: "marked_ok dpb False" using core free room by (simp add: marked_ok_def current_free_def)
  from None show ?thesis using MarkNonReference_step [OF ok] args by (fastforce simp: tame_picture_def)
next
  case (Some m)
  show ?thesis
  proof (cases idr)
    case True
    from MarkIdr_step [OF core free] obtain dpb' where
      "MarkIdr dpb m = Some (HANTRO_OK, dpb')" "marked_ok dpb' True" "carries dpb dpb'" by blast
    with Some True show ?thesis by simp
  next
    case False
    then have ok: "marked_ok dpb False" using core free room by (simp add: marked_ok_def current_free_def)
    have "poc < 0x7FFFFFFF" "unat fn < 2 ^ 31" "adaptiveRefPicMarkingModeFlag m \<Longrightarrow> mmcos_ok False (operation m)"
      using args Some False by (simp_all add: tame_picture_def)
    from MarkReference_step [OF ok this] Some False show ?thesis by simp
  qed
qed

lemma Output_stage:
  assumes ok: "marked_ok dpb True"
  shows "\<exists>dpb'. (if noReordering dpb
      then do {
        p \<leftarrow> rd (buffer dpb) (slots dpb);
        out \<leftarrow> wr (outBuf dpb) (unat (numOut dpb)) (Some (out_of p));
        Some (dpb\<lparr>outBuf := out, numOut := numOut dpb + 1\<rparr>)
      }
      else OutputWhile (>) dpb) = Some dpb' \<and> dpb_core dpb' \<and> unat (fullness dpb') \<le> slots dpb'
    \<and> carries dpb dpb'"
proof -
  have core: "dpb_core dpb" using ok by (simp add: marked_ok_def)
  note shape = core_shape [OF core]
  have refs: "cnt IS_REFERENCE (buffer dpb) \<le> slots dpb"
    using core shape by (simp add: dpb_core_def dpb_frame_def dpb_layout_def)
  show ?thesis
  proof (cases "noReordering dpb")
    case True
    then have room: "out_room dpb" using ok by (simp add: marked_ok_def)
    define out where "out = (outBuf dpb)[unat (numOut dpb) := Some (out_of (buffer dpb ! slots dpb))]"
    define q where "q = dpb\<lparr>outBuf := out, numOut := numOut dpb + 1\<rparr>"
    have n: "unat (numOut dpb + 1) = Suc (unat (numOut dpb))"
      using room shape by (intro u32_small_inc) (simp add: out_room_def)
    have len: "length (outBuf dpb) = Suc (slots dpb)" using core by (simp add: dpb_core_def dpb_frame_def dpb_shape_def)
    have "unat (numOut dpb) < length (outBuf dpb)" using room len by (simp add: out_room_def)
    then have new: "out ! unat (numOut dpb) \<noteq> None" by (simp add: out_def)
    have "out ! i \<noteq> None" if "i < Suc (unat (numOut dpb))" for i
      using that new core by (cases "i = unat (numOut dpb)")
        (simp_all add: out_def dpb_core_def dpb_frame_def dpb_outputs_def)
    then have "dpb_outputs q"
      using room unfolding dpb_outputs_def out_room_def displayed_def by (simp add: q_def n)
    then have "dpb_core q"
      using core by (simp add: dpb_core_def dpb_frame_def dpb_shape_def dpb_layout_def dpb_display_def
          dpb_numbers_def fullness_exact_def refs_exact_def q_def out_def)
    moreover have "displayed dpb = 0"
      using core True shape cnt_pos_iff [of toBeDisplayed "buffer dpb"]
      by (auto simp: dpb_core_def dpb_frame_def dpb_display_def displayed_def)
    then have "unat (fullness dpb) \<le> slots dpb"
      using core refs occupied_le [of "buffer dpb"] by (simp add: dpb_core_def fullness_exact_def displayed_def)
    moreover have "carries dpb q" by (simp add: carries_def same_config_def q_def out_def)
    ultimately show ?thesis
      using True room shape len by (simp add: q_def out_def out_room_def)
  next
    case False
    have frame: "dpb_frame dpb" "fullness_exact dpb" using core by (simp_all add: dpb_core_def)
    have progress: "cnt IS_REFERENCE (buffer dpb) < unat f" if "f > dpbSize dpb" for f
      using refs that by (simp add: word_less_nat_alt)
    have "\<exists>q. OutputWhile (>) dpb = Some q \<and> output_step dpb q \<and> \<not> fullness q > dpbSize q"
      by (rule OutputWhile_spec [OF frame]) (rule progress)
    then obtain q where
      q: "OutputWhile (>) dpb = Some q" "output_step dpb q" "\<not> fullness q > dpbSize q" by (elim exE conjE)
    have "refs_exact q" using q(2) core by (simp add: output_step_def dpb_core_def refs_exact_def)
    then have "dpb_core q" using q(2) frame_evolves [OF frame(1)] by (simp add: output_step_def dpb_core_def)
    moreover have "carries dpb q" using q(2) by (simp add: output_step_def evolves_carries)
    ultimately show ?thesis using False q(1,3) by (simp add: word_less_nat_alt)
  qed
qed

lemma MarkDecRefPic_rest:
  assumes core: "dpb_core dpb" and free: "current_free dpb"
    and room: "out_room dpb \<or> idr \<and> mark \<noteq> None"
    and args: "tame_picture mark poc idr" "idr \<and> mark \<noteq> None \<or> unat fn < 2 ^ 31" and img: "imageData = data (buffer dpb ! slots dpb)"
  shows "\<exists>ret dpb'. h264bsdMarkDecRefPic dpb mark imageData fn poc idr pid errs = Some (ret, dpb')
    \<and> dpb_rest dpb' \<and> permutes dpb dpb'"
proof -
  have cur: "currentOut dpb = Some (slots dpb)" "slots dpb < length (buffer dpb)"
    using free core_shape [OF core] by (simp_all add: current_free_def)
  define a where "a = dpb\<lparr>lastContainsMmco5 := False\<rparr>"
  have a: "dpb_core a" "current_free a" "out_room a \<or> idr \<and> mark \<noteq> None"
    using core free room by (simp_all add: a_def current_free_def out_room_def displayed_def)
  obtain ret b where b: "(case mark of None \<Rightarrow> MarkNonReference a fn poc
      | Some m \<Rightarrow> if idr then MarkIdr a m else MarkReference a m fn poc) = Some (ret, b)"
    "marked_ok b True" "carries a b" using Mark_dispatch [OF a args] by blast
  define stamp :: "dpbPicture \<Rightarrow> dpbPicture" where "stamp = (\<lambda>p. p\<lparr>isIdr := idr, picId := pid, numErrMbs := errs\<rparr>)"
  obtain c where c: "UpdateCurrent b stamp = Some c" "marked_ok c True" "carries b c"
    using stamp_step [OF b(2), of stamp] by (auto simp: stamp_def)
  obtain d where d: "(if noReordering c
      then do {
        p \<leftarrow> rd (buffer c) (slots c);
        out \<leftarrow> wr (outBuf c) (unat (numOut c)) (Some (out_of p));
        Some (c\<lparr>outBuf := out, numOut := numOut c + 1\<rparr>)
      }
      else OutputWhile (>) c) = Some d" "dpb_core d" "unat (fullness d) \<le> slots d" "carries c d"
    using Output_stage [OF c(2)] by blast
  obtain buf where e: "ShellSort (buffer d) (dpbSize d + 1) = Some buf"
    "dpb_rest (d\<lparr>buffer := buf\<rparr>)" "permutes d (d\<lparr>buffer := buf\<rparr>)"
    using sort_rest [OF d(2,3)] by blast
  have "slots c = slots dpb"
    using b(3) c(3) by (simp add: carries_def same_config_def a_def)
  note d1 = d(1) [unfolded this]
  have "h264bsdMarkDecRefPic dpb mark imageData fn poc idr pid errs = Some (ret, d\<lparr>buffer := buf\<rparr>)"
    unfolding h264bsdMarkDecRefPic_def cur(1) bind.bind_lunit rd_in [OF cur(2)] img Let_def
      a_def [symmetric] stamp_def [symmetric] b(1) prod.case c(1) d1 e(1) by simp
  moreover have "permutes dpb (d\<lparr>buffer := buf\<rparr>)"
    using permutes_trans [OF carries_permutes [OF carries_trans [OF carries_trans [OF b(3) c(3)] d(4)]] e(3)]
    by (simp only: a_def permutes_flag)
  ultimately show ?thesis using e(2) by blast
qed

end
