(* ===== verification/H264DpbGaps.thy ===== *)
theory H264DpbGaps
  imports H264DpbRest
begin

text \<open>
  Gaps in the frame numbers (\<open>h264bsdCheckGapsInFrameNum\<close>): the loop that inserts
  non-existing pictures ends and keeps the buffer at rest, and the slot handed to the next
  picture is none of those waiting in the output buffer.
\<close>

section \<open>Picture numbers\<close>

definition frame_num_wrap :: "u32 \<Rightarrow> u32 \<Rightarrow> dpbPicture \<Rightarrow> int" where
  "frame_num_wrap maxFN cur p =
     int (unat (picFrameNum p)) - (if picFrameNum p > cur then int (unat maxFN) else 0)"

definition renumber :: "u32 \<Rightarrow> u32 \<Rightarrow> dpbPicture \<Rightarrow> dpbPicture" where
  "renumber maxFN cur p = (if IS_SHORT_TERM p then p\<lparr>picNum := frame_num_wrap maxFN cur p\<rparr> else p)"

lemma frame_num_wrap_sint:
  assumes "unat (picFrameNum p) < 2 ^ 31" "unat maxFN < 2 ^ 31"
  shows "(if picFrameNum p > cur then chk (sint (picFrameNum p) - sint maxFN) else Some (sint (picFrameNum p)))
    = Some (frame_num_wrap maxFN cur p)"
proof -
  have "sint (picFrameNum p) = int (unat (picFrameNum p))" "sint maxFN = int (unat maxFN)"
    using assms by (simp_all only: sint_small)
  then show ?thesis using chk_defined [OF chk_difference [OF assms]]
    by (simp add: frame_num_wrap_def del: of_nat_unat chk_Some_iff)
qed

lemma SetPicNumsLoop_spec:
  assumes "unat maxFN < 2 ^ 31"
  shows "i + n \<le> length buf \<Longrightarrow> \<forall>p \<in> set buf. unat (picFrameNum p) < 2 ^ 31
    \<Longrightarrow> SetPicNumsLoop buf maxFN cur i n
        = Some (take i buf @ map (renumber maxFN cur) (take n (drop i buf)) @ drop (i + n) buf)"
proof (induction n arbitrary: i buf)
  case (Suc n)
  have i: "i < length buf" using Suc.prems(1) by simp
  then have "unat (picFrameNum (buf ! i)) < 2 ^ 31" using Suc.prems(2) by simp
  from frame_num_wrap_sint [OF this assms, of cur]
  have step: "SetPicNumsLoop buf maxFN cur i (Suc n)
      = SetPicNumsLoop (buf[i := renumber maxFN cur (buf ! i)]) maxFN cur (Suc i) n"
    using i by (auto simp: renumber_def simp del: chk_Some_iff)
  have "\<forall>p \<in> set (buf[i := renumber maxFN cur (buf ! i)]). unat (picFrameNum p) < 2 ^ 31"
  proof
    fix p assume "p \<in> set (buf[i := renumber maxFN cur (buf ! i)])"
    then have "p = renumber maxFN cur (buf ! i) \<or> p \<in> set buf" using set_update_subset_insert by fast
    moreover have "unat (picFrameNum (buf ! i)) < 2 ^ 31" using Suc.prems(2) i by simp
    ultimately show "unat (picFrameNum p) < 2 ^ 31" using Suc.prems(2) by (auto simp: renumber_def)
  qed
  from Suc.IH [OF _ this, of "Suc i"] Suc.prems(1) i show ?case
    unfolding step by (simp add: take_Suc_conv_app_nth Cons_nth_drop_Suc [symmetric, of i])
qed simp

definition same_role :: "dpbPicture \<Rightarrow> dpbPicture \<Rightarrow> bool" where
  "same_role p p' \<longleftrightarrow> same_picture p p' \<and> IS_REFERENCE p' = IS_REFERENCE p \<and> toBeDisplayed p' = toBeDisplayed p"

lemma renumber_role [simp]: "same_role p (renumber maxFN cur p)"
  by (simp add: same_role_def same_picture_def renumber_def IS_REFERENCE_def)

lemma same_role_refl [simp]: "same_role p p"
  by (simp add: same_role_def)

lemma same_roles_cnt:
  assumes "list_all2 same_role xs ys"
  shows "cnt IS_REFERENCE ys = cnt IS_REFERENCE xs" "cnt occupied ys = cnt occupied xs"
    "cnt toBeDisplayed ys = cnt toBeDisplayed xs" "map rank ys = map rank xs"
  using assms by (induction rule: list_all2_induct)
    (simp_all add: cnt_def same_role_def occupied_def rank_def)

lemma same_roles_step:
  assumes core: "dpb_core dpb" and roles: "list_all2 same_role (buffer dpb) buf"
  shows "mark_step dpb (dpb\<lparr>buffer := buf\<rparr>)" and "dpb_rest dpb \<Longrightarrow> dpb_rest (dpb\<lparr>buffer := buf\<rparr>)"
proof -
  have pics: "list_all2 same_picture (buffer dpb) buf"
    using roles by (rule list_all2_mono) (simp add: same_role_def)
  have "evolves dpb (dpb\<lparr>buffer := buf\<rparr>)"
    using pics same_roles_cnt(3) [OF roles] list_all2_lengthD [OF pics]
    by (simp add: evolves_def same_config_def same_outputs_def)
  then show step: "mark_step dpb (dpb\<lparr>buffer := buf\<rparr>)"
    using core same_roles_cnt [OF roles]
    by (intro mark_stepI) (simp_all add: dpb_core_def refs_exact_def fullness_exact_def)
  assume "dpb_rest dpb"
  moreover have "map rank (take k buf) = map rank (take k (buffer dpb))" for k
    using same_roles_cnt(4) [OF list_all2_takeI [OF roles]] .
  ultimately show "dpb_rest (dpb\<lparr>buffer := buf\<rparr>)"
    using step by (simp add: dpb_rest_def mark_step_def)
qed

lemma SetPicNums_spec:
  assumes core: "dpb_core dpb"
  defines "n \<equiv> unat (numRefFrames dpb)" and "maxFN \<equiv> dpbMaxFrameNum dpb"
  shows "SetPicNums dpb cur = Some (dpb\<lparr>buffer :=
      map (renumber maxFN cur) (take n (buffer dpb)) @ drop n (buffer dpb)\<rparr>)"
    and "list_all2 same_role (buffer dpb) (map (renumber maxFN cur) (take n (buffer dpb)) @ drop n (buffer dpb))"
proof -
  have len: "0 + n \<le> length (buffer dpb)"
    using core by (simp add: n_def dpb_core_def refs_exact_def cnt_def)
  have "\<forall>p \<in> set (buffer dpb). unat (picFrameNum p) < 2 ^ 31" "unat maxFN < 2 ^ 31"
    using core core_shape(1) [OF core]
    by (auto simp: dpb_core_def dpb_frame_def dpb_numbers_def in_set_conv_nth maxFN_def)
  from SetPicNumsLoop_spec [OF this(2) len this(1), of cur]
  show "SetPicNums dpb cur = Some (dpb\<lparr>buffer :=
      map (renumber maxFN cur) (take n (buffer dpb)) @ drop n (buffer dpb)\<rparr>)"
    by (simp add: SetPicNums_def n_def maxFN_def)
  show "list_all2 same_role (buffer dpb) (map (renumber maxFN cur) (take n (buffer dpb)) @ drop n (buffer dpb))"
    using len by (auto simp: list_all2_conv_all_nth nth_append)
qed

lemma SetPicNums_step:
  assumes "dpb_core dpb"
  shows "\<exists>dpb'. SetPicNums dpb cur = Some dpb' \<and> mark_step dpb dpb' \<and> (dpb_rest dpb \<longrightarrow> dpb_rest dpb')"
  using SetPicNums_spec [OF assms, of cur] same_roles_step [OF assms] by auto

text \<open>At rest the references come first, so every one of them is renumbered.\<close>

lemma SetPicNums_rest:
  assumes rest: "dpb_rest dpb"
  shows "SetPicNums dpb cur = Some (dpb\<lparr>buffer := map (renumber (dpbMaxFrameNum dpb) cur) (buffer dpb)\<rparr>)"
proof -
  define n where "n = unat (numRefFrames dpb)"
  have core: "dpb_core dpb" using rest by (simp add: dpb_rest_def)
  have "renumber mx cur p = p" if "p \<in> set (drop n (buffer dpb))" for p mx
  proof -
    obtain j where "j < length (buffer dpb) - n" "p = buffer dpb ! (n + j)"
      using \<open>p \<in> set (drop n (buffer dpb))\<close> by (auto simp: in_set_conv_nth)
    then obtain i where "n \<le> i" "i < 17" "p = buffer dpb ! i"
      using core_shape(1) [OF core] by (intro that [of "n + j"]) simp_all
    then have "\<not> IS_REFERENCE p" using rest_slots(1) [OF rest, of i] by (simp add: n_def)
    then show ?thesis using short_term_reference by (auto simp: renumber_def)
  qed
  then have "map (renumber (dpbMaxFrameNum dpb) cur) (drop n (buffer dpb)) = drop n (buffer dpb)"
    by (simp add: map_idI)
  then have "map (renumber (dpbMaxFrameNum dpb) cur) (buffer dpb)
      = map (renumber (dpbMaxFrameNum dpb) cur) (take n (buffer dpb)) @ drop n (buffer dpb)"
    by (metis append_take_drop_id map_append)
  then show ?thesis using SetPicNums_spec(1) [OF core, of cur] by (simp add: n_def)
qed

section \<open>Addresses that are not shown\<close>

definition unseen :: "dpbStorage \<Rightarrow> nat \<Rightarrow> bool" where
  "unseen dpb a \<longleftrightarrow> (\<forall>p \<in> set (buffer dpb). toBeDisplayed p \<longrightarrow> data p \<noteq> a)
     \<and> (\<forall>i < unat (numOut dpb). \<forall>out. outBuf dpb ! i = Some out \<longrightarrow> outData out \<noteq> a)"

lemma unseen_evolves:
  assumes "evolves dpb dpb'" "unseen dpb a"
  shows "unseen dpb' a"
proof -
  have pics: "list_all2 same_picture (buffer dpb) (buffer dpb')" and out: "same_outputs dpb dpb'"
    using assms(1) by (simp_all add: evolves_def)
  have "data p \<noteq> a" if p: "p \<in> set (buffer dpb')" "toBeDisplayed p" for p
  proof -
    obtain i where i: "i < length (buffer dpb')" "p = buffer dpb' ! i" using p(1) by (auto simp: in_set_conv_nth)
    then have "same_picture (buffer dpb ! i) p" "buffer dpb ! i \<in> set (buffer dpb)"
      using pics by (simp_all add: list_all2_conv_all_nth)
    then show ?thesis using assms(2) p(2) by (auto simp: unseen_def same_picture_def)
  qed
  moreover have "outData x \<noteq> a" if i: "i < unat (numOut dpb')" "outBuf dpb' ! i = Some x" for i x
  proof (cases "i < unat (numOut dpb)")
    case True
    then show ?thesis using out assms(2) i(2) by (simp add: same_outputs_def unseen_def)
  next
    case False
    then obtain p where "p \<in> set (buffer dpb)" "toBeDisplayed p" "outData x = data p"
      using out i unfolding same_outputs_def by (metis not_less option.inject)
    then show ?thesis using assms(2) by (auto simp: unseen_def)
  qed
  ultimately show ?thesis by (simp add: unseen_def)
qed

lemma unseen_store:
  assumes "unseen dpb a" "\<not> toBeDisplayed p"
  shows "unseen (store dpb p) a"
proof -
  have "set ((buffer dpb)[slots dpb := p]) \<subseteq> insert p (set (buffer dpb))" by (rule set_update_subset_insert)
  then show ?thesis using assms by (auto simp: unseen_def store_def)
qed

lemma unseen_sort: "mset buf = mset (buffer dpb) \<Longrightarrow> unseen dpb a \<Longrightarrow> unseen (dpb\<lparr>buffer := buf\<rparr>) a"
  by (auto simp: unseen_def dest: mset_eq_setD)

section \<open>Inserting non-existing pictures\<close>

text \<open>What one insertion, and so the whole loop, keeps.\<close>

definition gap_step :: "dpbStorage \<Rightarrow> dpbStorage \<Rightarrow> bool" where
  "gap_step dpb dpb' \<longleftrightarrow> dpb_rest dpb' \<and> out_room dpb' \<and> permutes dpb dpb'
     \<and> (\<forall>a. unseen dpb a \<longrightarrow> unseen dpb' a)"

lemma gap_step_refl: "dpb_rest dpb \<Longrightarrow> out_room dpb \<Longrightarrow> gap_step dpb dpb"
  by (simp add: gap_step_def)

lemma gap_step_trans: "gap_step a b \<Longrightarrow> gap_step b c \<Longrightarrow> gap_step a c"
  unfolding gap_step_def using permutes_trans by blast

lemma rest_slot_free: "dpb_rest dpb \<Longrightarrow> \<not> occupied (buffer dpb ! slots dpb)"
  using rest_slots(2) [of dpb "slots dpb"] core_shape(3) [of dpb] by (simp add: dpb_rest_def)

lemma slot_free_evolves:
  assumes "dpb_core dpb" "evolves dpb dpb'" "\<not> occupied (buffer dpb ! slots dpb)"
  shows "\<not> occupied (buffer dpb' ! slots dpb')"
proof -
  have "slots dpb < length (buffer dpb)" using core_shape [OF assms(1)] by simp
  from evolves_nth [OF assms(2) this] assms(2,3) show ?thesis
    by (auto simp: occupied_def same_picture_def evolves_def same_config_def)
qed

lemma OutputWhile_at_limit:
  assumes core: "dpb_core dpb" and few: "numRefFrames dpb < maxRefFrames dpb"
  shows "\<exists>dpb'. OutputWhile (\<ge>) dpb = Some dpb' \<and> mark_step dpb dpb'
    \<and> numRefFrames dpb' < maxRefFrames dpb' \<and> unat (fullness dpb') < slots dpb'"
proof -
  have frame: "dpb_frame dpb" "fullness_exact dpb" using core by (simp_all add: dpb_core_def)
  have progress: "cnt IS_REFERENCE (buffer dpb) < unat f" if "f \<ge> dpbSize dpb" for f
    using few that core core_shape [OF core]
    by (simp add: word_less_nat_alt word_le_nat_alt dpb_core_def refs_exact_def)
  have "\<exists>q. OutputWhile (\<ge>) dpb = Some q \<and> output_step dpb q \<and> \<not> fullness q \<ge> dpbSize q"
    by (rule OutputWhile_spec [OF frame]) (rule progress)
  then obtain q where q: "OutputWhile (\<ge>) dpb = Some q" "output_step dpb q" "\<not> fullness q \<ge> dpbSize q"
    by (elim exE conjE)
  have "refs_exact q" using q(2) core by (simp add: output_step_def dpb_core_def refs_exact_def)
  then have "mark_step dpb q" using q(2) by (intro mark_stepI [OF core]) (simp_all add: output_step_def)
  moreover have "numRefFrames q < maxRefFrames q"
    using q(2) few by (simp add: output_step_def evolves_def same_config_def)
  ultimately show ?thesis using q(1,3) by (auto simp: word_le_nat_alt)
qed

lemma InsertNonExisting_step:
  assumes rest: "dpb_rest dpb" and room: "out_room dpb" and fn: "unat fn < 2 ^ 31"
  shows "\<exists>ret dpb'. InsertNonExisting dpb fn = Some (ret, dpb') \<and> gap_step dpb dpb'"
proof -
  have core: "dpb_core dpb" using rest by (simp add: dpb_rest_def)
  obtain a where a: "SetPicNums dpb fn = Some a" "mark_step dpb a" "dpb_rest a"
    using SetPicNums_step [OF core] rest by blast
  then have core_a: "dpb_core a" and ev_a: "evolves dpb a" by (simp_all add: mark_step_def)
  obtain ret b where b: "SlidingWindowRefPicMarking a = Some (ret, b)" "mark_step a b"
    "ret = HANTRO_OK \<longrightarrow> numRefFrames b < maxRefFrames b"
    using SlidingWindow_step [OF core_a] by blast
  show ?thesis
  proof (cases "ret = HANTRO_OK")
    case False
    have "b = a"
    proof (cases "numRefFrames a < maxRefFrames a")
      case True
      then show ?thesis using b(1) by (simp add: SlidingWindowRefPicMarking_def)
    next
      case full: False
      then show ?thesis using b(1) \<open>ret \<noteq> HANTRO_OK\<close>
        by (auto simp: SlidingWindowRefPicMarking_def bind_eq_Some_conv split: option.splits)
    qed
    then have "InsertNonExisting dpb fn = Some (HANTRO_NOK, a)"
      using a(1) b(1) False by (simp add: InsertNonExisting_def)
    moreover have "gap_step dpb a"
      using a(3) room ev_a out_room_evolves [OF ev_a] unseen_evolves [OF ev_a]
      by (simp add: gap_step_def carries_permutes [OF evolves_carries])
    ultimately show ?thesis by blast
  next
    case True
    have core_b: "dpb_core b" using b(2) by (simp add: mark_step_def)
    obtain c where c: "OutputWhile (\<ge>) b = Some c" "mark_step b c" "numRefFrames c < maxRefFrames c"
      "unat (fullness c) < slots c"
      using OutputWhile_at_limit [OF core_b] b(3) True by blast
    have step: "mark_step dpb c" using mark_step_trans [OF mark_step_trans [OF a(2) b(2)] c(2)] .
    then have core_c: "dpb_core c" and ev: "evolves dpb c" by (simp_all add: mark_step_def)
    have free: "\<not> occupied (buffer c ! slots c)"
      using slot_free_evolves [OF core ev rest_slot_free [OF rest]] .
    have room_c: "out_room c" using out_room_evolves [OF ev] room by simp
    define p where "p = (buffer c ! slots c)\<lparr>status := NON_EXISTING, picFrameNum := fn, picNum := sint fn,
      picOrderCnt := 0, toBeDisplayed := False\<rparr>"
    define d where "d = store c p"
    have ref: "IS_REFERENCE p" "occupied p" by (simp_all add: p_def IS_REFERENCE_def occupied_def)
    have core_d: "dpb_core d"
      unfolding d_def using c(3) fn by (intro store_free_core [OF core_c free room_c]) (simp_all add: p_def)
    have full: "unat (fullness d) \<le> slots d"
      using c(4) core_shape [OF core_c] ref by (simp add: d_def store_def u32_small_inc)
    obtain buf where e: "ShellSort (buffer d) (dpbSize d + 1) = Some buf" "mset buf = mset (buffer d)"
      "dpb_rest (d\<lparr>buffer := buf\<rparr>)" "permutes d (d\<lparr>buffer := buf\<rparr>)"
      using sort_rest [OF core_d full] by blast
    have len: "slots c < length (buffer c)" using core_shape [OF core_c] by simp
    have d_fields: "d = c\<lparr>buffer := (buffer c)[slots c := p], fullness := fullness c + 1,
        numRefFrames := numRefFrames c + 1\<rparr>" using ref by (simp add: d_def store_def)
    have "InsertNonExisting dpb fn = Some (HANTRO_OK, d\<lparr>buffer := buf\<rparr>)"
      unfolding InsertNonExisting_def a(1) b(1) True c(1) bind.bind_lunit prod.case rd_in [OF len] Let_def
        p_def [symmetric] d_fields [symmetric] e(1) by simp
    moreover have "permutes dpb (d\<lparr>buffer := buf\<rparr>)"
    proof -
      have "carries dpb d" unfolding d_def
        using carries_trans [OF evolves_carries [OF ev] store_carries [OF core_c]] by (simp add: p_def)
      then show ?thesis using carries_permutes permutes_trans e(4) by blast
    qed
    moreover have "out_room (d\<lparr>buffer := buf\<rparr>)"
    proof -
      have "out_room d" unfolding d_def using store_room [OF core_c free room_c] by (simp add: p_def)
      then show ?thesis using cnt_mset [OF e(2)] by (simp add: out_room_def displayed_def)
    qed
    moreover have "unseen (d\<lparr>buffer := buf\<rparr>) x" if "unseen dpb x" for x
      using unseen_sort [OF e(2)] unseen_store [OF unseen_evolves [OF ev that], of p]
      by (simp add: d_def p_def)
    ultimately show ?thesis using e(3) by (auto simp: gap_step_def)
  qed
qed

text \<open>The frame numbers still to be filled in.\<close>

definition gap_left :: "nat \<Rightarrow> nat \<Rightarrow> nat \<Rightarrow> nat" where
  "gap_left m u f = (if u < f then f - u else f + m - u)"

lemma next_frame_num:
  assumes "unat u < unat (m :: u32)"
  shows "unat ((u + 1) mod m) = (if Suc (unat u) = unat m then 0 else Suc (unat u))"
proof -
  have "unat u < 4294967295" using assms unsigned_less [of m, where ?'a = nat] by simp
  from u32_small_inc [OF this] assms show ?thesis by (simp add: unat_mod_distrib)
qed

lemma FillGap_step:
  "dpb_rest dpb \<Longrightarrow> out_room dpb \<Longrightarrow> unat u < unat (dpbMaxFrameNum dpb) \<Longrightarrow> unat fn < unat (dpbMaxFrameNum dpb)
   \<Longrightarrow> \<exists>ret dpb'. FillGap dpb u fn = Some (ret, dpb') \<and> gap_step dpb dpb'"
proof (induction "gap_left (unat (dpbMaxFrameNum dpb)) (unat u) (unat fn)" arbitrary: dpb u rule: less_induct)
  case less
  have m: "unat (dpbMaxFrameNum dpb) < 2 ^ 31"
    using less.prems(1) by (simp add: dpb_rest_def dpb_core_def dpb_frame_def dpb_numbers_def)
  then have "unat u < 2 ^ 31" using less.prems(3) by simp
  then obtain ret a where a: "InsertNonExisting dpb u = Some (ret, a)" "gap_step dpb a"
    using InsertNonExisting_step [OF less.prems(1,2)] by blast
  have max: "dpbMaxFrameNum a = dpbMaxFrameNum dpb"
    using a(2) by (simp add: gap_step_def permutes_def same_config_def)
  define v where "v = (u + 1) mod dpbMaxFrameNum a"
  show ?case
  proof (cases "ret = HANTRO_OK \<and> v \<noteq> fn")
    case False
    then have "\<exists>ret. FillGap dpb u fn = Some (ret, a)"
      using a(1) by (subst FillGap.simps) (auto simp: Let_def v_def)
    with a(2) show ?thesis by blast
  next
    case True
    have v: "unat v = (if Suc (unat u) = unat (dpbMaxFrameNum dpb) then 0 else Suc (unat u))"
      unfolding v_def max by (rule next_frame_num [OF less.prems(3)])
    have vm: "unat v < unat (dpbMaxFrameNum a)" using v less.prems(3) by (simp add: max)
    have "unat v \<noteq> unat fn" using True by (simp add: word_unat_eq_iff)
    then have "gap_left (unat (dpbMaxFrameNum a)) (unat v) (unat fn)
        < gap_left (unat (dpbMaxFrameNum dpb)) (unat u) (unat fn)"
      using v less.prems(3,4) by (auto simp: gap_left_def max split: if_splits)
    moreover have "dpb_rest a" "out_room a" using a(2) by (simp_all add: gap_step_def)
    ultimately obtain ret' dpb' where "FillGap a v fn = Some (ret', dpb')" "gap_step a dpb'"
      using less.hyps [of a v] vm less.prems(4) max by auto
    moreover have "FillGap dpb u fn = FillGap a v fn"
      using True a(1) by (subst FillGap.simps) (simp add: Let_def v_def)
    ultimately show ?thesis using gap_step_trans [OF a(2)] by auto
  qed
qed

section \<open>Keeping the output buffer intact\<close>

definition same_state :: "dpbPicture \<Rightarrow> dpbPicture \<Rightarrow> bool" where
  "same_state p p' \<longleftrightarrow> IS_REFERENCE p' = IS_REFERENCE p \<and> toBeDisplayed p' = toBeDisplayed p
     \<and> picOrderCnt p' = picOrderCnt p \<and> picFrameNum p' = picFrameNum p"

lemma same_states_cnt:
  assumes "list_all2 same_state xs ys"
  shows "cnt IS_REFERENCE ys = cnt IS_REFERENCE xs" "cnt occupied ys = cnt occupied xs"
    "cnt toBeDisplayed ys = cnt toBeDisplayed xs" "map rank ys = map rank xs"
  using assms by (induction rule: list_all2_induct)
    (simp_all add: cnt_def same_state_def occupied_def rank_def)

lemma same_states_rest:
  assumes rest: "dpb_rest dpb" and states: "list_all2 same_state (buffer dpb) buf"
  shows "dpb_rest (dpb\<lparr>buffer := buf\<rparr>)" and "out_room (dpb\<lparr>buffer := buf\<rparr>) = out_room dpb"
proof -
  have core: "dpb_core dpb" using rest by (simp add: dpb_rest_def)
  have len: "length buf = 17" using core_shape(1) [OF core] list_all2_lengthD [OF states] by simp
  have st: "same_state (buffer dpb ! i) (buf ! i)" if "i < 17" for i
    using states that len by (simp add: list_all2_conv_all_nth)
  have "dpb_frame (dpb\<lparr>buffer := buf\<rparr>)"
    using core len st same_states_cnt [OF states]
    by (auto simp: dpb_core_def dpb_parts occupied_def same_state_def)
  moreover have "map rank (take k buf) = map rank (take k (buffer dpb))" for k
    using same_states_cnt(4) [OF list_all2_takeI [OF states]] .
  ultimately show "dpb_rest (dpb\<lparr>buffer := buf\<rparr>)"
    using rest same_states_cnt [OF states] by (simp add: dpb_rest_def dpb_core_def refs_exact_def fullness_exact_def)
  show "out_room (dpb\<lparr>buffer := buf\<rparr>) = out_room dpb"
    using same_states_cnt(3) [OF states] by (simp add: out_room_def displayed_def)
qed

lemma ExchangeData_step:
  assumes rest: "dpb_rest dpb" and tmp: "tmp \<in> set (map data (active dpb))"
  shows "\<exists>dpb'. ExchangeData dpb tmp = Some dpb' \<and> dpb_rest dpb' \<and> out_room dpb' = out_room dpb
    \<and> permutes dpb dpb' \<and> outBuf dpb' = outBuf dpb \<and> numOut dpb' = numOut dpb
    \<and> data (buffer dpb' ! slots dpb') = tmp"
proof -
  have core: "dpb_core dpb" using rest by (simp add: dpb_rest_def)
  note shape = core_shape [OF core]
  have len: "slots dpb < length (buffer dpb)" using shape by simp
  obtain r where r: "FindDpbPicLoop (buffer dpb) (\<lambda>p. data p = tmp) 0 (slots dpb) = Some r"
    "case r of None \<Rightarrow> \<forall>k. 0 \<le> k \<and> k < 0 + slots dpb \<longrightarrow> data (buffer dpb ! k) \<noteq> tmp
     | Some k \<Rightarrow> 0 \<le> k \<and> k < 0 + slots dpb \<and> data (buffer dpb ! k) = tmp
         \<and> (\<forall>m. 0 \<le> m \<and> m < k \<longrightarrow> data (buffer dpb ! m) \<noteq> tmp)"
    using FindDpbPicLoop_spec [of 0 "slots dpb" "buffer dpb" "\<lambda>p. data p = tmp"] shape by auto
  show ?thesis
  proof (cases r)
    case None
    obtain k where "k \<le> slots dpb" "data (buffer dpb ! k) = tmp"
      using tmp len by (auto simp: active_def in_set_conv_nth less_Suc_eq_le)
    then have "data (buffer dpb ! slots dpb) = tmp" using r(2) None by (cases "k = slots dpb") auto
    then show ?thesis using r(1) None len rest by (simp add: ExchangeData_def)
  next
    case (Some i)
    then have i: "i < slots dpb" "data (buffer dpb ! i) = tmp" using r(2) by simp_all
    define buf where "buf = (buffer dpb)[i := (buffer dpb ! i)\<lparr>data := data (buffer dpb ! slots dpb)\<rparr>,
      slots dpb := (buffer dpb ! slots dpb)\<lparr>data := tmp\<rparr>]"
    have E: "ExchangeData dpb tmp = Some (dpb\<lparr>buffer := buf\<rparr>)"
      using r(1) Some len i by (simp add: ExchangeData_def buf_def)
    have "list_all2 same_state (buffer dpb) buf"
      using len i by (auto simp: list_all2_conv_all_nth buf_def nth_list_update same_state_def IS_REFERENCE_def)
    note same = same_states_rest [OF rest this]
    define ds where "ds = map data (active dpb)"
    have ds: "length ds = Suc (slots dpb)" "ds ! i = tmp" "ds ! slots dpb = data (buffer dpb ! slots dpb)"
      using len i by (simp_all add: ds_def active_def)
    have "map data (take (Suc (slots dpb)) buf) = ds[i := ds ! slots dpb, slots dpb := ds ! i]"
      unfolding ds(2,3) using i len by (simp add: buf_def ds_def active_def take_update_swap map_update)
    then have "mset (map data (take (Suc (slots dpb)) buf)) = mset ds"
      using ds(1) i mset_swap [of "slots dpb" ds i] by simp
    moreover have "map pAllocatedData buf = map pAllocatedData (buffer dpb)"
      using len i by (intro nth_equalityI) (auto simp: buf_def nth_list_update)
    ultimately have "permutes dpb (dpb\<lparr>buffer := buf\<rparr>)"
      using len by (simp add: permutes_def same_config_def active_def ds_def take_map [symmetric] buf_def)
    moreover have "data (buf ! slots dpb) = tmp" using len by (simp add: buf_def)
    ultimately show ?thesis using E same by simp
  qed
qed

lemma core_outputs:
  assumes "dpb_core dpb"
  shows "\<forall>j < unat (numOut dpb). outBuf dpb ! j \<noteq> None" and "unat (numOut dpb) \<le> length (outBuf dpb)"
proof -
  show "\<forall>j < unat (numOut dpb). outBuf dpb ! j \<noteq> None"
    using assms unfolding dpb_core_def dpb_frame_def dpb_outputs_def by blast
  have "unat (numOut dpb) \<le> Suc (slots dpb)" "length (outBuf dpb) = Suc (slots dpb)"
    using assms unfolding dpb_core_def dpb_frame_def dpb_outputs_def dpb_shape_def by linarith+
  then show "unat (numOut dpb) \<le> length (outBuf dpb)" by simp
qed

lemma ProtectOutput_step:
  assumes "\<forall>j < i + n. outBuf dpb ! j \<noteq> None" "i + n \<le> length (outBuf dpb)" "slots dpb < length (buffer dpb)"
    and "ExchangeData dpb tmp = Some e"
  shows "ProtectOutput dpb tmp i n = Some e
    \<or> ProtectOutput dpb tmp i n = Some dpb
      \<and> (\<forall>j. i \<le> j \<and> j < i + n \<longrightarrow> outData (the (outBuf dpb ! j)) \<noteq> data (buffer dpb ! slots dpb))"
  using assms(1,2)
proof (induction n arbitrary: i)
  case (Suc n)
  have "outBuf dpb ! i \<noteq> None" using Suc.prems(1) by simp
  then obtain out where out: "outBuf dpb ! i = Some out" by blast
  show ?case
  proof (cases "outData out = data (buffer dpb ! slots dpb)")
    case True
    then show ?thesis using out Suc.prems(2) assms(3,4) by simp
  next
    case False
    then have "ProtectOutput dpb tmp i (Suc n) = ProtectOutput dpb tmp (Suc i) n"
      using out Suc.prems(2) assms(3) by simp
    moreover have "outData (the (outBuf dpb ! j)) \<noteq> data (buffer dpb ! slots dpb)"
      if "i \<le> j" "j < i + Suc n" "\<forall>j. Suc i \<le> j \<and> j < Suc i + n \<longrightarrow> outData (the (outBuf dpb ! j)) \<noteq> data (buffer dpb ! slots dpb)" for j
      using that out False by (cases "j = i") auto
    moreover have "ProtectOutput dpb tmp (Suc i) n = Some e
      \<or> ProtectOutput dpb tmp (Suc i) n = Some dpb
        \<and> (\<forall>j. Suc i \<le> j \<and> j < Suc i + n \<longrightarrow> outData (the (outBuf dpb ! j)) \<noteq> data (buffer dpb ! slots dpb))"
      using Suc.prems by (intro Suc.IH) simp_all
    ultimately show ?thesis by metis
  qed
qed simp

section \<open>Checking for gaps\<close>

definition slot_unseen :: "dpbStorage \<Rightarrow> bool" where
  "slot_unseen dpb \<longleftrightarrow> (\<forall>i < unat (numOut dpb). \<forall>out.
     outBuf dpb ! i = Some out \<longrightarrow> outData out \<noteq> data (buffer dpb ! slots dpb))"

lemma rest_displayed: "dpb_rest dpb \<Longrightarrow> displayed dpb \<le> slots dpb"
proof -
  assume rest: "dpb_rest dpb"
  have "displayed dpb \<le> cnt occupied (buffer dpb)"
    unfolding displayed_def by (intro cnt_mono) (simp_all add: occupied_def)
  with rest show ?thesis by (simp add: dpb_rest_def dpb_core_def fullness_exact_def)
qed

lemma rest_no_output:
  assumes "dpb_rest dpb"
  shows "dpb_rest (dpb\<lparr>numOut := 0, outIndex := 0\<rparr>)" and "out_room (dpb\<lparr>numOut := 0, outIndex := 0\<rparr>)"
  using assms core_no_output [OF _ rest_displayed [OF assms]] rest_displayed [OF assms]
  by (simp_all add: dpb_rest_def out_room_def displayed_def)

lemma last_unseen:
  assumes rest: "dpb_rest dpb" and dist: "distinct (map data (active dpb))" and none: "numOut dpb = 0"
  shows "unseen dpb (data (buffer dpb ! slots dpb))"
proof -
  have shape: "length (buffer dpb) = 17" "slots dpb \<le> 16" using rest core_shape by (simp_all add: dpb_rest_def)
  have "data p \<noteq> data (buffer dpb ! slots dpb)" if p: "p \<in> set (buffer dpb)" "toBeDisplayed p" for p
  proof -
    obtain i where i: "i < 17" "p = buffer dpb ! i" using p(1) shape(1) by (metis in_set_conv_nth)
    then have "i < slots dpb"
      using rest_slots(2) [OF rest i(1)] p(2) rest by (simp add: occupied_def dpb_rest_def)
    then show ?thesis using dist nth_eq_iff_index_eq [OF dist, of i "slots dpb"] shape i(2)
      by (simp add: active_def)
  qed
  with none show ?thesis by (simp add: unseen_def)
qed

lemma CheckGaps_rest:
  assumes rest: "dpb_rest dpb" and fn: "unat fn < unat (dpbMaxFrameNum dpb)"
    and dist: "distinct (map data (active dpb))"
  shows "\<exists>ret dpb'. h264bsdCheckGapsInFrameNum dpb fn isRef gapsAllowed = Some (ret, dpb')
    \<and> dpb_rest dpb' \<and> out_room dpb' \<and> permutes dpb dpb' \<and> (ret = HANTRO_OK \<longrightarrow> slot_unseen dpb')"
proof -
  define a where "a = dpb\<lparr>numOut := 0, outIndex := 0\<rparr>"
  have rest_a: "dpb_rest a" and room_a: "out_room a" using rest_no_output [OF rest] by (simp_all add: a_def)
  have seen_a: "slot_unseen a" by (simp add: slot_unseen_def a_def)
  have perm_a: "permutes dpb a" by (simp add: permutes_def same_config_def active_def a_def)
  have max0: "dpbMaxFrameNum a \<noteq> 0" using fn by (auto simp: a_def)
  have len: "slots a < length (buffer a)" using core_shape [of a] rest_a by (simp add: dpb_rest_def)
  define good where "good = (\<lambda>ret q. dpb_rest q \<and> out_room q \<and> permutes dpb q \<and> (ret = HANTRO_OK \<longrightarrow> slot_unseen q))"
  have good_a: "good ret a" for ret using rest_a room_a seen_a perm_a by (simp add: good_def)
  define gap where "gap = (do {
      lst \<leftarrow> rd (buffer a) (slots a);
      let tmp = data lst;
      (ret, b) \<leftarrow> FillGap a ((prevRefFrameNum a + 1) mod dpbMaxFrameNum a) fn;
      if ret \<noteq> HANTRO_OK then Some (HANTRO_NOK, b)
      else do { c \<leftarrow> ProtectOutput b tmp 0 (unat (numOut b)); Some (HANTRO_OK, c) } })"
  have gap: "\<exists>ret q. gap = Some (ret, q) \<and> good ret q"
  proof -
    define tmp where "tmp = data (buffer a ! slots a)"
    have "unat (dpbMaxFrameNum a) = unat (dpbMaxFrameNum dpb)" by (simp add: a_def)
    then have lim: "unat ((prevRefFrameNum a + 1) mod dpbMaxFrameNum a) < unat (dpbMaxFrameNum a)"
      "unat fn < unat (dpbMaxFrameNum a)" using fn by (simp_all add: unat_mod_distrib)
    obtain ret b where b: "FillGap a ((prevRefFrameNum a + 1) mod dpbMaxFrameNum a) fn = Some (ret, b)" "gap_step a b"
      using FillGap_step [OF rest_a room_a lim] by blast
    have rest_b: "dpb_rest b" and room_b: "out_room b" and perm_ab: "permutes a b"
      and perm_b: "permutes dpb b" using b(2) permutes_trans [OF perm_a] by (simp_all add: gap_step_def)
    have "unseen a tmp" unfolding tmp_def
      using dist by (intro last_unseen [OF rest_a]) (simp_all add: a_def active_def)
    then have seen: "unseen b tmp" using b(2) by (simp add: gap_step_def)
    show ?thesis
    proof (cases "ret = HANTRO_OK")
      case False
      then have "gap = Some (HANTRO_NOK, b)" using b(1) len by (simp add: gap_def Let_def)
      moreover have "good HANTRO_NOK b" using rest_b room_b perm_b by (simp add: good_def)
      ultimately show ?thesis by blast
    next
      case True
      have "tmp \<in> set (map data (active a))"
        using len by (simp add: tmp_def active_def take_Suc_conv_app_nth)
      moreover have "set (map data (active b)) = set (map data (active a))"
        using perm_ab unfolding permutes_def by (metis mset_eq_setD)
      ultimately have tmp_b: "tmp \<in> set (map data (active b))" by simp
      obtain e where e: "ExchangeData b tmp = Some e" "dpb_rest e" "out_room e = out_room b" "permutes b e"
        "outBuf e = outBuf b" "numOut e = numOut b" "data (buffer e ! slots e) = tmp"
        using ExchangeData_step [OF rest_b tmp_b] by blast
      have outs: "\<forall>j < 0 + unat (numOut b). outBuf b ! j \<noteq> None" "0 + unat (numOut b) \<le> length (outBuf b)"
        "slots b < length (buffer b)"
      proof -
        have core_b: "dpb_core b" using rest_b by (simp add: dpb_rest_def)
        show "\<forall>j < 0 + unat (numOut b). outBuf b ! j \<noteq> None" "0 + unat (numOut b) \<le> length (outBuf b)"
          unfolding add_0 by (rule core_outputs [OF core_b])+
        show "slots b < length (buffer b)" using core_shape [OF core_b] by simp
      qed
      have gap_eq: "gap = do { c \<leftarrow> ProtectOutput b tmp 0 (unat (numOut b)); Some (HANTRO_OK, c) }"
        using b(1) len True by (simp add: gap_def Let_def tmp_def)
      from ProtectOutput_step [OF outs e(1)] show ?thesis
      proof
        assume "ProtectOutput b tmp 0 (unat (numOut b)) = Some e"
        moreover have "slot_unseen e" using seen e(5-7) by (auto simp: slot_unseen_def unseen_def)
        then have "good HANTRO_OK e" using e(2-4) room_b permutes_trans [OF perm_b] by (simp add: good_def)
        ultimately show ?thesis using gap_eq by auto
      next
        assume keep: "ProtectOutput b tmp 0 (unat (numOut b)) = Some b \<and> (\<forall>j. 0 \<le> j \<and> j < 0 + unat (numOut b)
          \<longrightarrow> outData (the (outBuf b ! j)) \<noteq> data (buffer b ! slots b))"
        then have "slot_unseen b" by (auto simp: slot_unseen_def)
        then have "good HANTRO_OK b" using rest_b room_b perm_b by (simp add: good_def)
        then show ?thesis using gap_eq keep by auto
      qed
    qed
  qed
  have prev: "good ret (q\<lparr>prevRefFrameNum := x\<rparr>) = good ret q" for ret q x
    by (simp add: good_def dpb_rest_def out_room_def displayed_def permutes_def same_config_def active_def slot_unseen_def)
  define mid where "mid =
    (if fn \<noteq> prevRefFrameNum a \<and> fn \<noteq> (prevRefFrameNum a + 1) mod dpbMaxFrameNum a then gap
     else if isRef \<and> fn = prevRefFrameNum a then Some (HANTRO_NOK, a)
     else Some (HANTRO_OK, a))"
  define finish where "finish = (\<lambda>(ret :: u32, q :: dpbStorage). if ret \<noteq> HANTRO_OK then Some (ret, q)
    else Some (HANTRO_OK,
      if isRef then q\<lparr>prevRefFrameNum := fn\<rparr>
      else if fn \<noteq> prevRefFrameNum q
      then q\<lparr>prevRefFrameNum := (fn + dpbMaxFrameNum q - 1) mod dpbMaxFrameNum q\<rparr>
      else q))"
  have eq: "h264bsdCheckGapsInFrameNum dpb fn isRef gapsAllowed
      = (if \<not> gapsAllowed then Some (HANTRO_OK, a) else Option.bind mid finish)"
    using max0 unfolding h264bsdCheckGapsInFrameNum_def Let_def a_def [symmetric] mid_def finish_def gap_def by simp
  obtain ret q where mid: "mid = Some (ret, q)" "good ret q"
    using gap good_a unfolding mid_def by (metis (full_types))
  have "\<exists>q'. finish (ret, q) = Some (ret, q') \<and> good ret q'"
    using mid(2) prev by (auto simp: finish_def)
  then have "\<exists>ret q. h264bsdCheckGapsInFrameNum dpb fn isRef gapsAllowed = Some (ret, q) \<and> good ret q"
    using good_a mid(1) unfolding eq by auto
  then show ?thesis by (simp add: good_def)
qed

end
