(* ===== verification/H264DpbLife.thy ===== *)
theory H264DpbLife
  imports H264DpbGaps
begin

text \<open>
  The life of a decoded picture buffer: allocation, the operations the decoder performs picture
  after picture as a step relation, what holds in every reachable state, and release.
\<close>

section \<open>Allocation\<close>

text \<open>Slots that hold no picture yet.\<close>

definition blank :: "dpbPicture \<Rightarrow> bool" where
  "blank p \<longleftrightarrow> status p = UNUSED \<and> \<not> toBeDisplayed p \<and> picFrameNum p = 0"

lemma AllocatePictures_fails:
  "i + n \<le> length buf \<Longrightarrow> \<exists>ok buf' heap'. AllocatePictures buf i n heap = Some (ok, buf', heap')
     \<and> length buf' = length buf"
proof (induction n arbitrary: i buf heap)
  case (Suc n)
  show ?case
  proof (cases heap)
    case Nil
    then show ?thesis using Suc.prems by auto
  next
    case (Cons a as)
    show ?thesis
    proof (cases a)
      case None
      then show ?thesis using Cons Suc.prems by auto
    next
      case (Some x)
      then show ?thesis
        using Cons Suc.prems Suc.IH [of "Suc i" "buf[i := (buf ! i)\<lparr>pAllocatedData := x, data := ALIGN16 x\<rparr>]" as]
        by simp
    qed
  qed
qed auto

lemma AllocatePictures_spec:
  "i + n \<le> length buf \<Longrightarrow> AllocatePictures buf i n heap = Some (True, buf', heap') \<Longrightarrow>
   \<exists>as. heap = map Some as @ heap' \<and> length as = n \<and> length buf' = length buf
     \<and> take i buf' = take i buf \<and> map data (take n (drop i buf')) = map ALIGN16 as
     \<and> map pAllocatedData (take n (drop i buf')) = as
     \<and> ((\<forall>p \<in> set buf. blank p) \<longrightarrow> (\<forall>p \<in> set buf'. blank p))"
proof (induction n arbitrary: i buf heap)
  case (Suc n)
  have i: "i < length buf" using Suc.prems(1) by simp
  from Suc.prems(2) i obtain x as where heap: "heap = Some x # as" and
    rest: "AllocatePictures (buf[i := (buf ! i)\<lparr>pAllocatedData := x, data := ALIGN16 x\<rparr>]) (Suc i) n as
      = Some (True, buf', heap')"
    by (cases heap rule: malloc.cases) (auto split: option.splits)
  define b where "b = buf[i := (buf ! i)\<lparr>pAllocatedData := x, data := ALIGN16 x\<rparr>]"
  have "Suc i + n \<le> length b" using Suc.prems(1) by (simp add: b_def)
  from Suc.IH [OF this rest [folded b_def]] obtain xs where
    xs: "as = map Some xs @ heap'" "length xs = n" "length buf' = length b" "take (Suc i) buf' = take (Suc i) b"
    "map data (take n (drop (Suc i) buf')) = map ALIGN16 xs" "map pAllocatedData (take n (drop (Suc i) buf')) = xs"
    "(\<forall>p \<in> set b. blank p) \<longrightarrow> (\<forall>p \<in> set buf'. blank p)" by blast
  have bi: "buf' ! i = b ! i" "i < length buf'"
    using xs(3,4) i by (metis b_def length_list_update lessI nth_take) (simp add: xs(3) b_def i)
  have "take (Suc n) (drop i buf') = b ! i # take n (drop (Suc i) buf')"
    using bi by (simp add: Cons_nth_drop_Suc [symmetric])
  moreover have "data (b ! i) = ALIGN16 x" "pAllocatedData (b ! i) = x" using i by (simp_all add: b_def)
  moreover have "take i buf' = take i buf"
    using xs(4) by (metis b_def le_add2 min.absorb1 plus_1_eq_Suc take_take take_update_cancel order_refl)
  moreover have "(\<forall>p \<in> set buf. blank p) \<longrightarrow> (\<forall>p \<in> set b. blank p)"
    using i set_update_subset_insert [of buf i] by (auto simp: b_def blank_def dest!: subsetD [OF set_update_subset_insert])
  ultimately show ?case
    using xs heap by (intro exI [of _ "x # xs"]) (auto simp: b_def)
qed simp

text \<open>The sizes a decoder asks for.\<close>

definition init_args :: "u32 \<Rightarrow> u32 \<Rightarrow> u32 \<Rightarrow> bool" where
  "init_args sz maxRef maxFN \<longleftrightarrow> unat maxRef \<le> 16 \<and> unat maxRef \<le> unat sz \<and> 1 \<le> unat sz \<and> unat sz \<le> 16
     \<and> 0 < unat maxFN \<and> unat maxFN < 2 ^ 31"

lemma blank_cnt:
  assumes "\<forall>p \<in> set buf. blank p"
  shows "cnt IS_REFERENCE buf = 0" "cnt occupied buf = 0" "cnt toBeDisplayed buf = 0" "map rank buf = replicate (length buf) 2"
  using assms by (induction buf) (auto simp: cnt_def blank_def IS_REFERENCE_def occupied_def rank_def)

lemma blank_rest:
  assumes "\<forall>p \<in> set (buffer dpb). blank p" "length (buffer dpb) = 17" "length (refList dpb) = 17"
    and "length (outBuf dpb) = Suc (slots dpb)" "1 \<le> unat (maxRefFrames dpb)" "unat (maxRefFrames dpb) \<le> slots dpb"
    and "slots dpb \<le> 16" "fullness dpb = 0" "numRefFrames dpb = 0" "numOut dpb = 0"
    and "0 < unat (dpbMaxFrameNum dpb)" "unat (dpbMaxFrameNum dpb) < 2 ^ 31"
  shows "dpb_rest dpb"
proof -
  have "blank (buffer dpb ! i)" if "i < 17" for i using assms(1,2) that by simp
  then have "\<not> IS_REFERENCE (buffer dpb ! i)" "\<not> occupied (buffer dpb ! i)" "\<not> toBeDisplayed (buffer dpb ! i)"
    "picFrameNum (buffer dpb ! i) = 0" if "i < 17" for i
    using that by (auto simp: blank_def IS_REFERENCE_def occupied_def)
  then have "dpb_core dpb" using assms(2-12) blank_cnt [OF assms(1)] by (simp add: dpb_core_def dpb_parts)
  moreover have "map rank (take (Suc (slots dpb)) (buffer dpb)) = replicate (Suc (slots dpb)) 2"
    using blank_cnt(4) [OF assms(1)] assms(2,7) by (simp add: take_map [symmetric])
  ultimately show ?thesis using assms(8) by (simp add: dpb_rest_def)
qed

lemma unat_max1: "unat (max (x :: u32) 1) = max (unat x) 1"
  by (simp add: max_def word_le_nat_alt)

lemma InitDpb_ok:
  assumes args: "init_args sz maxRef maxFN"
    and ok: "h264bsdInitDpb dpb sz maxRef maxFN noReorder heap = Some (HANTRO_OK, dpb', heap')"
  shows "dpb_rest dpb'" and "numOut dpb' = 0" and "dpbMaxFrameNum dpb' = maxFN"
    and "\<exists>b as l q. heap = Some b # map Some as @ Some l # Some q # heap'
      \<and> map data (active dpb') = map ALIGN16 as \<and> map pAllocatedData (active dpb') = as"
    and "outIndex dpb' = 0"
proof -
  define size where "size = (if noReorder then max maxRef 1 else sz)"
  have size: "max (unat maxRef) 1 \<le> unat size" "unat size \<le> 16"
    using args by (auto simp: size_def init_args_def unat_max1)
  then have num: "unat (size + 1) = Suc (unat size)" by (simp add: u32_small_inc)
  obtain b h1 where h1: "heap = Some b # h1"
    using ok by (cases heap rule: malloc.cases) (auto simp: h264bsdInitDpb_def Let_def split: option.splits)
  define zero where "zero = replicate 17 zeroPicture"
  have "0 + Suc (unat size) \<le> length zero" using size by (simp add: zero_def)
  note pics = AllocatePictures_spec [OF this] and total = AllocatePictures_fails [OF this]
  obtain got buf h2 where A: "AllocatePictures zero 0 (Suc (unat size)) h1 = Some (got, buf, h2)"
    using total by blast
  obtain l q where h2: "got" "h2 = Some l # Some q # heap'" and
    d: "buffer dpb' = buf" "refList dpb' = replicate 17 None" "outBuf dpb' = replicate (Suc (unat size)) None"
      "maxRefFrames dpb' = max maxRef 1" "dpbSize dpb' = size" "fullness dpb' = 0" "numRefFrames dpb' = 0"
      "numOut dpb' = 0" "dpbMaxFrameNum dpb' = maxFN" "outIndex dpb' = 0"
  proof -
    define dpb1 where "dpb1 = dpb\<lparr>dpbMaxLongTermFrameIdx := NO_LONG_TERM_FRAME_INDICES, maxRefFrames := max maxRef 1,
      dpbSize := size, dpbMaxFrameNum := maxFN, noReordering := noReorder, fullness := 0, numRefFrames := 0,
      prevRefFrameNum := 0, buffer := buf\<rparr>"
    have "(if \<not> got then Some (MEMORY_ALLOCATION_ERROR, dpb1, h2)
       else case malloc h2 of (l, h3) \<Rightarrow> (case malloc h3 of (q, h4) \<Rightarrow>
         (let e = dpb1\<lparr>refList := (if l = None then [] else replicate 17 None),
                       outBuf := (if q = None then [] else replicate (Suc (unat size)) None)\<rparr>
          in if l = None \<or> q = None then Some (MEMORY_ALLOCATION_ERROR, e, h4)
             else Some (HANTRO_OK, e\<lparr>numOut := 0, outIndex := 0\<rparr>, h4))))
      = Some (HANTRO_OK, dpb', heap')"
      using ok A unfolding h264bsdInitDpb_def h1 Let_def
      by (simp add: size_def [symmetric] zero_def [symmetric] num dpb1_def split del: if_split del: AllocatePictures.simps
          cong: if_cong prod.case_cong option.case_cong)
    then show thesis
      by (cases h2 rule: malloc.cases; cases "snd (malloc h2)" rule: malloc.cases)
        (auto simp: Let_def dpb1_def split: if_splits intro!: that)
  qed
  from A h2(1) have "AllocatePictures zero 0 (Suc (unat size)) h1 = Some (True, buf, h2)" by simp
  from pics [OF this, unfolded drop_0] obtain as where
    as: "h1 = map Some as @ h2" "length as = Suc (unat size)" "length buf = length zero"
    "map data (take (Suc (unat size)) buf) = map ALIGN16 as" "map pAllocatedData (take (Suc (unat size)) buf) = as"
    "(\<forall>p \<in> set zero. blank p) \<longrightarrow> (\<forall>p \<in> set buf. blank p)" by blast
  have "\<forall>p \<in> set zero. blank p" by (simp add: zero_def blank_def zeroPicture_def)
  then have "\<forall>p \<in> set buf. blank p" using as(6) by blast
  then show "dpb_rest dpb'"
    using d as(3) size args by (intro blank_rest) (simp_all add: unat_max1 init_args_def zero_def)
  show "numOut dpb' = 0" "dpbMaxFrameNum dpb' = maxFN" "outIndex dpb' = 0" by (simp_all add: d)
  show "\<exists>b as l q. heap = Some b # map Some as @ Some l # Some q # heap'
      \<and> map data (active dpb') = map ALIGN16 as \<and> map pAllocatedData (active dpb') = as"
    using h1 h2(2) as(1,4,5) by (auto simp: active_def d)
qed

lemma FreePictures_spec:
  "i + n \<le> length buf \<Longrightarrow> FreePictures buf i n = Some (map pAllocatedData (take n (drop i buf)))"
  by (induction n arbitrary: i) (simp_all add: Cons_nth_drop_Suc [symmetric])

lemma FreeDpb_spec:
  assumes "dpb_rest dpb"
  shows "h264bsdFreeDpb dpb = Some (map pAllocatedData (active dpb), dpb\<lparr>buffer := [], refList := [], outBuf := []\<rparr>)"
proof -
  have shape: "length (buffer dpb) = 17" "slots dpb \<le> 16" using assms core_shape by (simp_all add: dpb_rest_def)
  then have "unat (dpbSize dpb + 1) = Suc (slots dpb)" by (simp add: u32_small_inc)
  moreover have "buffer dpb \<noteq> []" using shape by auto
  ultimately show ?thesis
    using FreePictures_spec [of 0 "Suc (slots dpb)" "buffer dpb"] shape by (simp add: h264bsdFreeDpb_def active_def)
qed

section \<open>The slot for the next picture\<close>

lemma AllocateDpbImage_spec:
  assumes "dpb_rest dpb"
  shows "h264bsdAllocateDpbImage dpb = Some (data (buffer dpb ! slots dpb), dpb\<lparr>currentOut := Some (slots dpb)\<rparr>)"
    and "dpb_rest (dpb\<lparr>currentOut := Some (slots dpb)\<rparr>)" and "current_free (dpb\<lparr>currentOut := Some (slots dpb)\<rparr>)"
proof -
  have core: "dpb_core dpb" using assms by (simp add: dpb_rest_def)
  have "slots dpb < length (buffer dpb)" using core_shape [OF core] by simp
  then show "h264bsdAllocateDpbImage dpb = Some (data (buffer dpb ! slots dpb), dpb\<lparr>currentOut := Some (slots dpb)\<rparr>)"
    by (simp add: h264bsdAllocateDpbImage_def)
  show "dpb_rest (dpb\<lparr>currentOut := Some (slots dpb)\<rparr>)"
    using assms by (simp add: dpb_rest_def dpb_core_def dpb_parts)
  show "current_free (dpb\<lparr>currentOut := Some (slots dpb)\<rparr>)"
    using rest_slot_free [OF assms] by (simp add: current_free_def)
qed

section \<open>Flushing\<close>

lemma FlushDpb_spec:
  assumes rest: "dpb_rest dpb"
  shows "\<exists>dpb'. h264bsdFlushDpb dpb = Some dpb' \<and> dpb_rest dpb' \<and> permutes dpb dpb' \<and> displayed dpb' = 0
    \<and> outIndex dpb' = outIndex dpb
    \<and> outputs dpb' = outputs dpb @ map (Some \<circ> out_of) (sort_key picOrderCnt (filter toBeDisplayed (buffer dpb)))"
proof -
  define a where "a = dpb\<lparr>flushed := True\<rparr>"
  have core: "dpb_core a" using rest by (simp add: dpb_rest_def dpb_core_def dpb_parts a_def)
  then have frame: "dpb_frame a" "fullness_exact a" by (simp_all add: dpb_core_def)
  obtain b where b: "OutputAll a = Some b" "output_step a b" "displayed b = 0"
    "outputs b = outputs a @ map (Some \<circ> out_of) (sort_key picOrderCnt (filter toBeDisplayed (buffer a)))"
    using OutputAll_spec [OF frame] by blast
  have len: "length (buffer dpb) = 17" "slots dpb \<le> 16" using core_shape [OF core] by (simp_all add: a_def)
  have "refs_exact b" using b(2) core by (simp add: output_step_def dpb_core_def refs_exact_def)
  then have core_b: "dpb_core b" using b(2) frame_evolves [OF frame(1)] by (simp add: output_step_def dpb_core_def)
  have len_b: "length (buffer b) = 17" "slots b = slots dpb"
    using core_shape [OF core_b] b(2) by (simp_all add: output_step_def evolves_def same_config_def a_def)
  have ref: "IS_REFERENCE (buffer b ! i) = IS_REFERENCE (buffer dpb ! i)" if "i < 17" for i
    using b(2) that len len_b by (auto simp: output_step_def a_def dest: arg_cong [of _ _ "\<lambda>xs. xs ! i"])
  have dis: "\<not> toBeDisplayed (buffer b ! i)" if "i < 17" for i
    using b(3) that len_b cnt_pos_iff [of toBeDisplayed "buffer b"] by (auto simp: displayed_def)
  have rank: "rank (buffer b ! i) = (if i < unat (numRefFrames dpb) then 0 else 2)" if "i < 17" for i
    using ref [OF that] dis [OF that] rest_slots(1) [OF rest that] by (simp add: rank_def)
  have "sorted (map rank (take (Suc (slots b)) (buffer b)))"
    using len_b len(2) by (auto simp: sorted_iff_nth_mono rank)
  moreover have "unat (fullness b) \<le> slots b"
  proof -
    have "unat (fullness b) \<le> cnt IS_REFERENCE (buffer b)"
      using core_b b(3) occupied_le [of "buffer b"] by (simp add: dpb_core_def fullness_exact_def displayed_def)
    then show ?thesis using core_shape [OF core_b] core_b by (simp add: dpb_core_def dpb_frame_def dpb_layout_def)
  qed
  ultimately have "dpb_rest b" using core_b by (simp add: dpb_rest_def)
  moreover have "permutes dpb b"
  proof -
    have "permutes a b" using b(2) by (intro carries_permutes evolves_carries) (simp add: output_step_def)
    moreover have "permutes (dpb\<lparr>flushed := True\<rparr>) q = permutes dpb q" for q
      by (simp add: permutes_def same_config_def active_def)
    ultimately show ?thesis by (simp only: a_def)
  qed
  moreover have "buffer dpb \<noteq> []" using len by auto
  then have "h264bsdFlushDpb dpb = Some b" using b(1) by (simp add: h264bsdFlushDpb_def a_def)
  moreover have "outIndex b = outIndex dpb" using b(2) by (simp add: output_step_def a_def)
  ultimately show ?thesis using b(3,4) by (simp add: outputs_def a_def)
qed

section \<open>The reference picture list\<close>

lemma InitRefPicListLoop_spec:
  "i + n \<le> length l \<Longrightarrow> InitRefPicListLoop l i n = Some (take i l @ map Some [i..<i + n] @ drop (i + n) l)"
proof (induction n arbitrary: i l)
  case (Suc n)
  then have "InitRefPicListLoop l i (Suc n) = InitRefPicListLoop (l[i := Some i]) (Suc i) n" by simp
  also have "\<dots> = Some (take (Suc i) (l[i := Some i]) @ map Some [Suc i..<Suc i + n] @ drop (Suc i + n) l)"
    using Suc.IH [of "Suc i" "l[i := Some i]"] Suc.prems by simp
  finally show ?case using Suc.prems by (simp add: take_Suc_conv_app_nth upt_conv_Cons)
qed simp

lemma InitRefPicList_spec:
  assumes "dpb_rest dpb"
  defines "n \<equiv> unat (numRefFrames dpb)"
  shows "h264bsdInitRefPicList dpb = Some (dpb\<lparr>refList := map Some [0..<n] @ drop n (refList dpb)\<rparr>)"
proof -
  have "n \<le> 17" using assms(1) core_shape
    by (fastforce simp: n_def dpb_rest_def dpb_core_def refs_exact_def dpb_frame_def dpb_layout_def)
  moreover have "length (refList dpb) = 17" using assms(1) by (simp add: dpb_rest_def dpb_core_def dpb_frame_def dpb_shape_def)
  ultimately show ?thesis using InitRefPicListLoop_spec [of 0 n "refList dpb"]
    by (simp add: h264bsdInitRefPicList_def n_def)
qed

text \<open>Reordering moves entries of the list only; the buffer is renumbered.\<close>

lemma ShiftList_length: "ShiftList l r j = Some l' \<Longrightarrow> length l' = length l"
  by (induction l r j rule: ShiftList.induct) (auto simp: bind_eq_Some_conv split: if_splits)

lemma RemoveLater_length: "RemoveLater l i j k n = Some l' \<Longrightarrow> length l' = length l"
proof (induction n arbitrary: l j k)
  case (Suc n)
  from Suc.prems obtain e where "RemoveLater l i (Suc j) k n = Some l'
      \<or> (\<exists>m. wr l k e = Some m \<and> RemoveLater m i (Suc j) (Suc k) n = Some l')"
    by (auto simp: bind_eq_Some_conv split: if_splits)
  then show ?case using Suc.IH by fastforce
qed simp

lemma PlaceInList_length: "PlaceInList l i r n = Some l' \<Longrightarrow> length l' = length l"
  by (auto simp: PlaceInList_def bind_eq_Some_conv dest!: ShiftList_length RemoveLater_length)

lemma ReorderCommands_frame:
  "ReorderCommands cs dpb cur n r pred = Some (ret, dpb') \<Longrightarrow>
   \<exists>l. dpb' = dpb\<lparr>refList := l\<rparr> \<and> length l = length (refList dpb)"
proof (induction cs arbitrary: dpb r pred)
  case (Cons c cs)
  have same: "\<exists>l. dpb = dpb\<lparr>refList := l\<rparr> \<and> length l = length (refList dpb)"
    by (intro exI [of _ "refList dpb"]) simp
  show ?case
  proof (cases "reorderingOfPicNumsIdc c < 3")
    case False
    then show ?thesis using Cons.prems same by auto
  next
    case True
    with Cons.prems obtain k pred' short index where
      idx: "FindDpbPic dpb k short = Some index" and
      rest: "(case index of None \<Rightarrow> Some (HANTRO_NOK, dpb)
        | Some i \<Rightarrow> do {
            p \<leftarrow> rd (buffer dpb) i;
            if \<not> IS_EXISTING p then Some (HANTRO_NOK, dpb)
            else do {
              l \<leftarrow> PlaceInList (refList dpb) i r n;
              ReorderCommands cs (dpb\<lparr>refList := l\<rparr>) cur n (Suc r) pred'
            }
          }) = Some (ret, dpb')"
      by (auto simp: bind_eq_Some_conv)
    show ?thesis
    proof (cases index)
      case None
      then show ?thesis using rest same by auto
    next
      case (Some i)
      show ?thesis
      proof (cases "IS_EXISTING (buffer dpb ! i)")
        case False
        then show ?thesis using rest Some same by (auto simp: bind_eq_Some_conv)
      next
        case ex: True
        then obtain l where l: "PlaceInList (refList dpb) i r n = Some l"
          "ReorderCommands cs (dpb\<lparr>refList := l\<rparr>) cur n (Suc r) pred' = Some (ret, dpb')"
          using rest Some by (auto simp: bind_eq_Some_conv)
        from Cons.IH [OF l(2)] obtain l' where "dpb' = dpb\<lparr>refList := l, refList := l'\<rparr>" "length l' = length l" by auto
        then show ?thesis using PlaceInList_length [OF l(1)] by (intro exI [of _ l']) simp
      qed
    qed
  qed
qed simp

lemma rest_refList:
  assumes "dpb_rest dpb" "length l = length (refList dpb)"
  shows "dpb_rest (dpb\<lparr>refList := l\<rparr>)"
  using assms by (simp add: dpb_rest_def dpb_core_def dpb_parts)

lemma ReorderRefPicList_result:
  assumes rest: "dpb_rest dpb" and r: "h264bsdReorderRefPicList dpb order cur n = Some (ret, dpb')"
  obtains l where "length l = length (refList dpb)"
    "dpb' = dpb\<lparr>buffer := map (renumber (dpbMaxFrameNum dpb) cur) (buffer dpb), refList := l\<rparr>" "dpb_rest dpb'"
proof -
  define a where "a = dpb\<lparr>buffer := map (renumber (dpbMaxFrameNum dpb) cur) (buffer dpb)\<rparr>"
  have core: "dpb_core dpb" using rest by (simp add: dpb_rest_def)
  have set: "SetPicNums dpb cur = Some a" using SetPicNums_rest [OF rest] by (simp add: a_def)
  then have rest_a: "dpb_rest a" using SetPicNums_step [OF core, of cur] rest by auto
  have "\<exists>l. dpb' = a\<lparr>refList := l\<rparr> \<and> length l = length (refList a)"
  proof (cases "refPicListReorderingFlagL0 order")
    case True
    then show ?thesis using r set ReorderCommands_frame by (simp add: h264bsdReorderRefPicList_def)
  next
    case False
    then have "dpb' = a" using r set by (simp add: h264bsdReorderRefPicList_def)
    then show ?thesis by (intro exI [of _ "refList a"]) simp
  qed
  then obtain l where l: "dpb' = a\<lparr>refList := l\<rparr>" "length l = length (refList a)" by blast
  with rest_refList [OF rest_a l(2)] show thesis by (intro that) (simp_all add: a_def)
qed

section \<open>Pictures in sequence\<close>

text \<open>The reference list is set up and reordered again for every slice of a picture.\<close>

inductive list_step :: "dpbStorage \<Rightarrow> dpbStorage \<Rightarrow> bool" where
  init_list: "h264bsdInitRefPicList dpb = Some dpb' \<Longrightarrow> list_step dpb dpb'"
| reorder: "h264bsdReorderRefPicList dpb order cur n = Some (ret, dpb') \<Longrightarrow> list_step dpb dpb'"

text \<open>
  The operations in the order \<open>h264bsdDecode\<close> performs them. A picture that is stored passes the
  check for gaps (unless it is an IDR picture), the reservation of its slot, the reference lists of
  its slices and its marking, and satisfies \<open>P\<close>; it may also be abandoned after any of the first
  three. Between the pictures the application fetches output and flushes.
\<close>

inductive dpb_step :: "(decRefPicMarking option \<Rightarrow> int \<Rightarrow> bool \<Rightarrow> bool) \<Rightarrow> dpbStorage \<Rightarrow> dpbStorage \<Rightarrow> bool"
  for P where
  gaps: "unat fn < unat (dpbMaxFrameNum dpb)
    \<Longrightarrow> h264bsdCheckGapsInFrameNum dpb fn isRef allowed = Some (ret, dpb') \<Longrightarrow> dpb_step P dpb dpb'"
| reserve: "h264bsdAllocateDpbImage dpb = Some (img, dpb') \<Longrightarrow> dpb_step P dpb dpb'"
| lists: "list_step dpb dpb' \<Longrightarrow> dpb_step P dpb dpb'"
| picture: "unat fn < unat (dpbMaxFrameNum dpb)
    \<Longrightarrow> h264bsdCheckGapsInFrameNum dpb fn isRef allowed = Some (ret0, a)
    \<Longrightarrow> h264bsdAllocateDpbImage a = Some (img, b) \<Longrightarrow> list_step\<^sup>*\<^sup>* b b' \<Longrightarrow> P mark poc False
    \<Longrightarrow> h264bsdMarkDecRefPic b' mark img fn poc False pid errs = Some (ret, dpb') \<Longrightarrow> dpb_step P dpb dpb'"
| idr: "h264bsdAllocateDpbImage dpb = Some (img, b) \<Longrightarrow> list_step\<^sup>*\<^sup>* b b' \<Longrightarrow> P (Some m) poc True
    \<Longrightarrow> h264bsdMarkDecRefPic b' (Some m) img fn poc True pid errs = Some (ret, dpb') \<Longrightarrow> dpb_step P dpb dpb'"
| fetch: "h264bsdDpbOutputPicture dpb = (pic, dpb') \<Longrightarrow> dpb_step P dpb dpb'"
| flush: "h264bsdFlushDpb dpb = Some dpb' \<Longrightarrow> dpb_step P dpb dpb'"

definition dpb_inv :: "nat multiset \<Rightarrow> nat multiset \<Rightarrow> dpbStorage \<Rightarrow> bool" where
  "dpb_inv datas allocs dpb \<longleftrightarrow> dpb_rest dpb \<and> mset (map data (active dpb)) = datas
     \<and> mset (map pAllocatedData (active dpb)) = allocs"

lemma inv_permutes: "dpb_inv D A dpb \<Longrightarrow> permutes dpb dpb' \<Longrightarrow> dpb_rest dpb' \<Longrightarrow> dpb_inv D A dpb'"
  by (simp add: dpb_inv_def permutes_def)

lemma inv_distinct:
  assumes "dpb_inv D A dpb" "\<forall>x. count D x \<le> 1"
  shows "distinct (map data (active dpb))"
  using assms by (metis count_mset_0_iff dpb_inv_def distinct_count_atmost_1 le_antisym less_one not_le)

text \<open>The reference lists leave alone what marking needs.\<close>

lemma renumber_fields [simp]:
  "data (renumber mx cur p) = data p" "pAllocatedData (renumber mx cur p) = pAllocatedData p"
  "status (renumber mx cur p) = status p" "toBeDisplayed (renumber mx cur p) = toBeDisplayed p"
  by (simp_all add: renumber_def)

definition awaits_marking :: "nat multiset \<Rightarrow> nat multiset \<Rightarrow> bool \<Rightarrow> nat \<Rightarrow> u32 \<Rightarrow> dpbStorage \<Rightarrow> bool" where
  "awaits_marking D A room img maxFN dpb \<longleftrightarrow> dpb_inv D A dpb \<and> current_free dpb
     \<and> img = data (buffer dpb ! slots dpb) \<and> out_room dpb = room \<and> dpbMaxFrameNum dpb = maxFN"

lemma list_step_keeps:
  assumes "list_step dpb dpb'" "dpb_inv D A dpb"
  shows "dpb_inv D A dpb'" and "awaits_marking D A room img maxFN dpb \<Longrightarrow> awaits_marking D A room img maxFN dpb'"
proof -
  have rest: "dpb_rest dpb" using assms(2) by (simp add: dpb_inv_def)
  then have "dpb_core dpb" by (simp add: dpb_rest_def)
  then have len: "slots dpb < length (buffer dpb)" using core_shape [of dpb] by simp
  have "dpb_inv D A dpb' \<and> (awaits_marking D A room img maxFN dpb \<longrightarrow> awaits_marking D A room img maxFN dpb')"
    using assms(1)
  proof cases
    case init_list
    have "dpb' = dpb\<lparr>refList := map Some [0..<unat (numRefFrames dpb)] @ drop (unat (numRefFrames dpb)) (refList dpb)\<rparr>"
      using InitRefPicList_spec [OF rest] init_list by simp
    then obtain l where l: "dpb' = dpb\<lparr>refList := l\<rparr>"
      "l = map Some [0..<unat (numRefFrames dpb)] @ drop (unat (numRefFrames dpb)) (refList dpb)" by blast
    have "cnt IS_REFERENCE (buffer dpb) \<le> length (buffer dpb)" by (simp add: cnt_def)
    then have "length l = length (refList dpb)"
      using rest by (simp add: l(2) dpb_rest_def dpb_core_def refs_exact_def dpb_frame_def dpb_shape_def)
    from rest_refList [OF rest this] assms(2) show ?thesis
      by (simp add: l(1) dpb_inv_def active_def awaits_marking_def current_free_def out_room_def displayed_def)
  next
    case (reorder order cur n ret)
    obtain l where l: "length l = length (refList dpb)"
      "dpb' = dpb\<lparr>buffer := map (renumber (dpbMaxFrameNum dpb) cur) (buffer dpb), refList := l\<rparr>" "dpb_rest dpb'"
      by (rule ReorderRefPicList_result [OF rest reorder])
    have "displayed dpb' = displayed dpb"
      by (simp add: l(2) displayed_def cnt_def filter_map comp_def)
    with l assms(2) len show ?thesis
      by (auto simp: dpb_inv_def active_def take_map awaits_marking_def current_free_def out_room_def
          occupied_def IS_REFERENCE_def comp_def)
  qed
  then show "dpb_inv D A dpb'" "awaits_marking D A room img maxFN dpb \<Longrightarrow> awaits_marking D A room img maxFN dpb'"
    by blast+
qed

lemma list_steps_await:
  assumes "list_step\<^sup>*\<^sup>* dpb dpb'" "awaits_marking D A room img maxFN dpb"
  shows "awaits_marking D A room img maxFN dpb'"
  using assms
proof (induction rule: rtranclp_induct)
  case (step b b')
  then have "awaits_marking D A room img maxFN b" by blast
  moreover from this have "dpb_inv D A b" by (simp add: awaits_marking_def)
  ultimately show ?case using list_step_keeps(2) [OF step.hyps(2)] by blast
qed

lemma Allocate_awaits:
  assumes inv: "dpb_inv D A dpb" and alloc: "h264bsdAllocateDpbImage dpb = Some (img, b)"
  shows "awaits_marking D A (out_room dpb) img (dpbMaxFrameNum dpb) b"
proof -
  have rest: "dpb_rest dpb" using inv by (simp add: dpb_inv_def)
  note al = AllocateDpbImage_spec [OF rest]
  have b: "b = dpb\<lparr>currentOut := Some (slots dpb)\<rparr>" "img = data (buffer b ! slots b)" using al(1) alloc by auto
  have "dpb_inv D A b" using inv al(2) by (simp add: dpb_inv_def b active_def)
  then show ?thesis using al(3) b(2) by (simp add: awaits_marking_def b(1) out_room_def displayed_def)
qed

lemma MarkDecRefPic_inv:
  assumes inv: "dpb_inv D A dpb" and alloc: "h264bsdAllocateDpbImage dpb = Some (img, b)"
    and lists: "list_step\<^sup>*\<^sup>* b b'"
    and room: "out_room dpb \<or> idr \<and> mark \<noteq> None"
    and args: "tame_picture mark poc idr" "idr \<and> mark \<noteq> None \<or> unat fn < 2 ^ 31"
  shows "\<exists>ret dpb'. h264bsdMarkDecRefPic b' mark img fn poc idr pid errs = Some (ret, dpb') \<and> dpb_inv D A dpb'"
proof -
  have b': "dpb_inv D A b'" "current_free b'" "img = data (buffer b' ! slots b')" "out_room b' = out_room dpb"
    using list_steps_await [OF lists Allocate_awaits [OF inv alloc]] by (simp_all add: awaits_marking_def)
  have "dpb_core b'" using b'(1) by (simp add: dpb_inv_def dpb_rest_def)
  then obtain ret dpb' where r: "h264bsdMarkDecRefPic b' mark img fn poc idr pid errs = Some (ret, dpb')"
    "dpb_rest dpb'" "permutes b' dpb'"
    using MarkDecRefPic_rest [of b' idr mark poc fn img pid errs] b'(2-4) room args by auto
  from inv_permutes [OF b'(1) r(3,2)] r(1) show ?thesis by blast
qed

lemma inv_frame_num: "dpb_inv D A dpb \<Longrightarrow> unat fn < unat (dpbMaxFrameNum dpb) \<Longrightarrow> unat (fn :: u32) < 2 ^ 31"
  by (simp add: dpb_inv_def dpb_rest_def dpb_core_def dpb_frame_def dpb_numbers_def)

lemma dpb_step_inv:
  assumes "dpb_step tame_picture dpb dpb'" "dpb_inv D A dpb" "\<forall>x. count D x \<le> 1"
  shows "dpb_inv D A dpb'"
  using assms
proof (induction rule: dpb_step.induct)
  case (gaps fn dpb isRef allowed ret dpb')
  have "dpb_rest dpb" using gaps.prems(1) by (simp add: dpb_inv_def)
  from CheckGaps_rest [OF this gaps.hyps(1) inv_distinct [OF gaps.prems], of isRef allowed] gaps.hyps(2)
  show ?case using inv_permutes [OF gaps.prems(1)] by auto
next
  case (reserve dpb img dpb')
  from Allocate_awaits [OF reserve.prems(1) reserve.hyps] show ?case by (simp add: awaits_marking_def)
next
  case (lists dpb dpb')
  then show ?case using list_step_keeps(1) by blast
next
  case (picture fn dpb isRef allowed ret0 a img b b' mark poc pid errs ret dpb')
  have "dpb_rest dpb" using picture.prems(1) by (simp add: dpb_inv_def)
  from CheckGaps_rest [OF this picture.hyps(1) inv_distinct [OF picture.prems], of isRef allowed] picture.hyps(2)
  have "dpb_inv D A a" "out_room a" using inv_permutes [OF picture.prems(1)] by auto
  then show ?case
    using MarkDecRefPic_inv [OF _ picture.hyps(3,4) _ picture.hyps(5), of D A fn pid errs] picture.hyps(6)
      inv_frame_num [OF picture.prems(1) picture.hyps(1)] by auto
next
  case (idr dpb img b b' m poc fn pid errs ret dpb')
  then show ?case using MarkDecRefPic_inv [OF idr.prems(1) idr.hyps(1,2) _ idr.hyps(3), of fn pid errs] by auto
next
  case (fetch dpb pic dpb')
  then show ?case
    by (auto simp: h264bsdDpbOutputPicture_def dpb_inv_def dpb_rest_def dpb_core_def dpb_parts active_def split: if_splits)
next
  case (flush dpb dpb')
  have "dpb_rest dpb" using flush.prems(1) by (simp add: dpb_inv_def)
  from FlushDpb_spec [OF this] flush.hyps show ?case using inv_permutes [OF flush.prems(1)] by auto
qed

lemma dpb_reach_inv:
  assumes "(dpb_step tame_picture)\<^sup>*\<^sup>* dpb dpb'" "dpb_inv D A dpb" "\<forall>x. count D x \<le> 1"
  shows "dpb_inv D A dpb'"
  using assms by (induction rule: rtranclp_induct) (auto intro: dpb_step_inv)

end
