(* ===== verification/H264DpbLists.thy ===== *)
theory H264DpbLists
  imports H264DpbLife
begin

text \<open>
  The reference picture list: placing a picture does what the standard asks, inserting it at the
  current position and removing its later occurrence, and the decoder gets the samples of the
  picture the list names.
\<close>

section \<open>Placing one picture\<close>

lemma ShiftList_spec:
  "r \<le> j \<Longrightarrow> j < length l \<Longrightarrow>
   ShiftList l r j = Some (take r l @ l ! r # take (j - r) (drop r l) @ drop (Suc j) l)"
proof (induction j arbitrary: l)
  case 0
  then show ?case by (cases l) simp_all
next
  case (Suc j)
  show ?case
  proof (cases "r \<le> j")
    case False
    then have "r = Suc j" using Suc.prems by simp
    then show ?thesis using Suc.prems by (simp add: id_take_nth_drop)
  next
    case True
    define m where "m = l[Suc j := l ! j]"
    have m: "j < length m" "take r m = take r l" "m ! r = l ! r" "drop (Suc j) m = l ! j # drop (Suc (Suc j)) l"
      using True Suc.prems by (simp_all add: m_def drop_update_swap Cons_nth_drop_Suc [symmetric])
    have "take (j - r) (drop r m) = take (j - r) (drop r l)" using True by (simp add: m_def take_drop)
    moreover have "take (Suc j - r) (drop r l) = take (j - r) (drop r l) @ [l ! j]"
      using True Suc.prems by (simp add: Suc_diff_le take_Suc_conv_app_nth)
    moreover have "ShiftList l r (Suc j) = ShiftList m r j" using True Suc.prems by (simp add: m_def)
    ultimately show ?thesis using Suc.IH [OF True m(1)] m by simp
  qed
qed

lemma RemoveLater_spec:
  "RemoveLater (ps @ qs @ ss @ ts) i (length ps + length qs) (length ps) (length ss)
   = Some (ps @ filter (\<lambda>e. e \<noteq> Some i) ss @ drop (length (filter (\<lambda>e. e \<noteq> Some i) ss)) (qs @ ss) @ ts)"
proof (induction ss arbitrary: ps qs)
  case (Cons e ss)
  define l where "l = ps @ qs @ (e # ss) @ ts"
  have e: "rd l (length ps + length qs) = Some e" by (simp add: l_def rd_def nth_append)
  show ?case
  proof (cases "e = Some i")
    case True
    then have "RemoveLater l i (length ps + length qs) (length ps) (length (e # ss))
        = RemoveLater (ps @ (qs @ [e]) @ ss @ ts) i (length ps + length (qs @ [e])) (length ps) (length ss)"
      using e by (simp add: l_def)
    also have "\<dots> = Some (ps @ filter (\<lambda>e. e \<noteq> Some i) ss
        @ drop (length (filter (\<lambda>e. e \<noteq> Some i) ss)) ((qs @ [e]) @ ss) @ ts)" by (rule Cons.IH)
    finally show ?thesis using True by (simp add: l_def)
  next
    case False
    obtain qs' where w: "wr l (length ps) e = Some ((ps @ [e]) @ qs' @ ss @ ts)" "length qs' = length qs"
      "\<forall>k. drop k (qs' @ ss) = drop (Suc k) (qs @ e # ss)"
    proof (cases qs)
      case Nil
      then show thesis by (intro that [of "[]"]) (simp_all add: l_def wr_def list_update_append)
    next
      case (Cons q qs')
      then show thesis by (intro that [of "qs' @ [e]"]) (simp_all add: l_def wr_def list_update_append)
    qed
    have "RemoveLater l i (length ps + length qs) (length ps) (length (e # ss))
        = RemoveLater ((ps @ [e]) @ qs' @ ss @ ts) i (length (ps @ [e]) + length qs') (length (ps @ [e])) (length ss)"
      using False e w(1,2) by simp
    also have "\<dots> = Some ((ps @ [e]) @ filter (\<lambda>e. e \<noteq> Some i) ss
        @ drop (length (filter (\<lambda>e. e \<noteq> Some i) ss)) (qs' @ ss) @ ts)" by (rule Cons.IH)
    finally show ?thesis using False w(3) by (simp add: l_def)
  qed
qed simp

lemma filter_other_length:
  "count_list xs x \<le> 1 \<Longrightarrow> length xs \<le> Suc (length (filter (\<lambda>e. e \<noteq> x) xs))"
proof (induction xs)
  case (Cons y ys)
  show ?case
  proof (cases "y = x")
    case True
    then have "x \<notin> set ys" using Cons.prems by (simp add: count_list_0_iff)
    then have "filter (\<lambda>e. e \<noteq> x) ys = ys" by (auto simp: filter_id_conv)
    with True show ?thesis by simp
  qed (use Cons in simp)
qed simp

text \<open>The first \<open>n\<close> entries are the list in use, entry \<open>n\<close> is the scratch position.\<close>

lemma PlaceInList_spec:
  assumes "r < n" "n < length l" "count_list (drop r (take n l)) (Some i) \<le> 1"
  shows "\<exists>l'. PlaceInList l i r n = Some l' \<and> length l' = length l
    \<and> take n l' = take n (take r l @ Some i # filter (\<lambda>e. e \<noteq> Some i) (drop r (take n l)))"
proof -
  define S where "S = take (n - r) (drop r l)"
  define F where "F = filter (\<lambda>e. e \<noteq> Some i) S"
  have S: "S = drop r (take n l)" "length S = n - r" using assms by (simp_all add: S_def take_drop)
  have shift: "ShiftList l r n = Some (take r l @ l ! r # S @ drop (Suc n) l)"
    using ShiftList_spec [of r n l] assms by (simp add: S_def)
  have put: "wr (take r l @ l ! r # S @ drop (Suc n) l) r (Some i)
      = Some ((take r l @ [Some i]) @ [] @ S @ drop (Suc n) l)"
    using assms by (simp add: wr_def list_update_append)
  have pos: "length (take r l @ [Some i]) = Suc r" using assms by simp
  have "PlaceInList l i r n = Some (take r l @ Some i # F @ drop (length F) S @ drop (Suc n) l)"
    using RemoveLater_spec [of "take r l @ [Some i]" "[]" S "drop (Suc n) l" i] assms S(2)
    unfolding PlaceInList_def shift bind.bind_lunit put pos by (simp add: F_def)
  moreover have "length (take r l @ Some i # F @ drop (length F) S @ drop (Suc n) l) = length l"
    using assms(1,2) S(2) length_filter_le [of "\<lambda>e. e \<noteq> Some i" S, folded F_def] by simp
  moreover have "take n (take r l @ Some i # F @ drop (length F) S @ drop (Suc n) l) = take n (take r l @ Some i # F)"
    using filter_other_length [of S "Some i"] assms S by (simp add: F_def take_Cons')
  ultimately show ?thesis by (simp add: F_def S(1))
qed

end
