(* ===== verification/H264DpbFaults.thy ===== *)
theory H264DpbFaults
  imports H264DpbLife
begin

text \<open>
  Two inputs the decoded picture buffer does not survive: a picture order count equal to the
  initial minimum of the search for the smallest, and a current picture that one marking
  operation stores and a later one flushes.
\<close>

section \<open>A count the search cannot see\<close>

lemma FindSmallestLoop_blind:
  "i + n \<le> length buf \<Longrightarrow> \<forall>p \<in> set buf. toBeDisplayed p \<longrightarrow> s \<le> picOrderCnt p
   \<Longrightarrow> FindSmallestLoop buf i n s r = Some r"
  by (induction n arbitrary: i) (auto simp: not_less dest: nth_mem)

lemma OutputWhile_stuck:
  assumes "full (fullness dpb) (dpbSize dpb)" "\<exists>ret. OutputPicture dpb = Some (ret, dpb)"
  shows "OutputWhile full dpb = None"
proof (rule ccontr)
  assume "OutputWhile full dpb \<noteq> None"
  then obtain q0 where q0: "OutputWhile full dpb = Some q0" by blast
  have "f = full \<longrightarrow> d \<noteq> dpb" if "OutputWhile f d = Some q" for f d q
    by (rule OutputWhile.raw_induct [of "\<lambda>f d q. f = full \<longrightarrow> d \<noteq> dpb", OF _ that])
      (use assms in \<open>clarsimp split: if_splits, blast\<close>)
  with q0 show False by blast
qed

lemma blind_output:
  assumes "length (buffer dpb) = 17" "slots dpb \<le> 16"
    and "\<forall>p \<in> set (buffer dpb). toBeDisplayed p \<longrightarrow> picOrderCnt p = 0x7FFFFFFF"
  shows "OutputPicture dpb = Some (HANTRO_NOK, dpb)"
proof -
  have "FindSmallestPicOrderCnt dpb = Some None"
    unfolding FindSmallestPicOrderCnt_def using assms by (intro FindSmallestLoop_blind) auto
  then show ?thesis by (simp add: OutputPicture_def)
qed

lemma blind_output_loops:
  assumes "length (buffer dpb) = 17" "slots dpb \<le> 16"
    and "\<forall>p \<in> set (buffer dpb). toBeDisplayed p \<longrightarrow> picOrderCnt p = 0x7FFFFFFF"
    and "fullness dpb > dpbSize dpb"
  shows "OutputWhile (>) dpb = None"
  using OutputWhile_stuck [of "(>)" dpb] blind_output [OF assms(1-3)] assms(4) by blast

section \<open>Differences of picture numbers\<close>

text \<open>Nothing bounds a difference that is read; from \<open>2^31\<close> on the subtraction can overflow.\<close>

lemma difference_overflows:
  assumes "unat fn < 2 ^ 31"
  shows "Mmcop1 dpb fn 0x80000000 = None"
proof -
  have "sint fn = int (unat fn)" using assms by (simp only: sint_small)
  then have "chk (sint fn - sint (0x80000000 :: u32)) = None" by (simp add: chk_def del: of_nat_unat)
  then show ?thesis by (simp only: Mmcop1_def bind.bind_lzero)
qed

section \<open>Storing and then flushing the current picture\<close>

definition mmco :: "u32 \<Rightarrow> memoryManagementOperation" where
  "mmco c = \<lparr>memoryManagementControlOperation = c, differenceOfPicNums = 0, longTermPicNum = 0,
     longTermFrameIdx = 0, maxLongTermFrameIdx = 0\<rparr>"

definition empty16 :: dpbStorage where
  "empty16 = \<lparr>buffer = replicate 17 zeroPicture, refList = replicate 17 None, currentOut = Some 16,
     outBuf = replicate 17 None, numOut = 0, outIndex = 0, maxRefFrames = 16, dpbSize = 16,
     dpbMaxFrameNum = 16, dpbMaxLongTermFrameIdx = NO_LONG_TERM_FRAME_INDICES, numRefFrames = 0, fullness = 0,
     prevRefFrameNum = 0, lastContainsMmco5 = False, noReordering = False, flushed = False\<rparr>"

definition mark_of :: "memoryManagementOperation list \<Rightarrow> decRefPicMarking" where
  "mark_of ops = \<lparr>noOutputOfPriorPicsFlag = False, longTermReferenceFlag = False,
     adaptiveRefPicMarkingModeFlag = True, operation = ops\<rparr>"

text \<open>
  The first picture of a buffer of 16 is stored by operation 6 and flushed by operation 5; the
  next one releases it.
\<close>

lemma lost_reference_values:
  "do {
     (ret, d) \<leftarrow> h264bsdMarkDecRefPic empty16 (Some (mark_of [mmco 4, mmco 6, mmco 5, mmco 0])) 0 1 2 False 0 0;
     (ret', e) \<leftarrow> Mmcop2 d 0;
     Some (ret, numRefFrames d, cnt IS_REFERENCE (buffer d), ret', numRefFrames e, maxRefFrames e, length (buffer e))
   } = Some (HANTRO_OK, 0, 1, HANTRO_OK, 0xFFFFFFFF, 16, 17)"
  apply code_simp
  apply (subst OutputAll.simps, code_simp)
  apply (subst OutputAll.simps, code_simp)
  apply (subst OutputWhile.simps, code_simp)
  done

lemma SlidingWindowLoop_overrun: "length buf < i + n \<Longrightarrow> i \<le> length buf \<Longrightarrow> SlidingWindowLoop buf i n r k = None"
proof (induction n arbitrary: i r k)
  case (Suc n)
  show ?case
  proof (cases "i < length buf")
    case True
    then show ?thesis using Suc.IH [of "Suc i"] Suc.prems by simp
  qed (simp add: rd_def)
qed simp

lemma SlidingWindow_overrun:
  assumes "numRefFrames d = 0xFFFFFFFF" "maxRefFrames d = 16" "length (buffer d) = 17"
  shows "SlidingWindowRefPicMarking d = None"
proof -
  have "length (buffer d) < 0 + unat (numRefFrames d)" using assms by simp
  from SlidingWindowLoop_overrun [OF this] show ?thesis
    using assms by (simp add: SlidingWindowRefPicMarking_def word_less_nat_alt)
qed

end
