(* ===== verification/H264DpbIndex.thy ===== *)
theory H264DpbIndex
  imports H264DpbLife
begin

text \<open>
  The index of the next picture to fetch: no operation but the fetch and the three that empty the
  output buffer change it, so that it never runs ahead of the number of pictures in that buffer.
\<close>

named_theorems index_kept "the index of the next picture to fetch is left unchanged"

text \<open>The cases of an operation that returns normally.\<close>

lemmas op_cases = bind_eq_Some_conv Let_def

lemma DropReference_index [index_kept]: "DropReference d i = Some d' \<Longrightarrow> outIndex d' = outIndex d"
  by (auto simp: DropReference_def op_cases split: if_split_asm)

lemma UpdateCurrent_index [index_kept]: "UpdateCurrent d f = Some d' \<Longrightarrow> outIndex d' = outIndex d"
  by (auto simp: UpdateCurrent_def op_cases)

lemma ReleaseLongTermIdx_index [index_kept]: "ReleaseLongTermIdx d k = Some d' \<Longrightarrow> outIndex d' = outIndex d"
  by (auto simp: ReleaseLongTermIdx_def op_cases split: option.split_asm dest!: index_kept)

lemma OutputPicture_index [index_kept]:
  assumes "OutputPicture d = Some (r, d')" shows "outIndex d' = outIndex d"
proof (cases "noReordering d")
  case False
  show ?thesis
  proof (cases "FindSmallestPicOrderCnt d")
    case (Some tmp)
    show ?thesis using assms False Some by (cases tmp) (auto simp: OutputPicture_def op_cases)
  qed (use assms False in \<open>simp add: OutputPicture_def\<close>)
qed (use assms in \<open>simp add: OutputPicture_def\<close>)

lemma OutputAll_index [index_kept]: "OutputAll d = Some d' \<Longrightarrow> outIndex d' = outIndex d"
  by (induction rule: OutputAll.raw_induct [rotated, consumes 1])
    (fastforce simp: op_cases split: if_split_asm dest!: index_kept)

lemma OutputWhile_index [index_kept]: "OutputWhile f d = Some d' \<Longrightarrow> outIndex d' = outIndex d"
  by (induction rule: OutputWhile.raw_induct [rotated, consumes 1])
    (fastforce simp: op_cases split: if_split_asm dest!: index_kept)

lemma Mmcop1_index [index_kept]: "Mmcop1 d n k = Some (r, d') \<Longrightarrow> outIndex d' = outIndex d"
  by (auto simp: Mmcop1_def op_cases split: option.split_asm dest!: index_kept)

lemma Mmcop2_index [index_kept]: "Mmcop2 d n = Some (r, d') \<Longrightarrow> outIndex d' = outIndex d"
  by (auto simp: Mmcop2_def op_cases split: option.split_asm dest!: index_kept)

lemma Mmcop3_index [index_kept]: "Mmcop3 d n k l = Some (r, d') \<Longrightarrow> outIndex d' = outIndex d"
  by (auto simp: Mmcop3_def op_cases split: option.split_asm if_split_asm dest!: index_kept)

lemma Mmcop4Loop_index [index_kept]: "Mmcop4Loop d m i n = Some d' \<Longrightarrow> outIndex d' = outIndex d"
proof (induction d m i n arbitrary: d' rule: Mmcop4Loop.induct)
  case (2 d m i n)
  from 2(2) obtain p a where a: "rd (buffer d) i = Some p" "Mmcop4Loop a m (Suc i) n = Some d'"
    and "(if IS_LONG_TERM p \<and> (word_of_int (picNum p) > m \<or> dpbMaxLongTermFrameIdx d = NO_LONG_TERM_FRAME_INDICES)
      then DropReference d i else Some d) = Some a" by (auto simp: bind_eq_Some_conv)
  moreover from this(3) have "outIndex a = outIndex d" by (auto split: if_split_asm dest: DropReference_index)
  ultimately show ?case using 2(1) [of p a d'] by simp
qed simp

lemma Mmcop4_index [index_kept]: "Mmcop4 d m = Some (r, d') \<Longrightarrow> outIndex d' = outIndex d"
  by (auto simp: Mmcop4_def op_cases dest!: index_kept)

lemma Mmcop5Loop_index [index_kept]: "Mmcop5Loop d i n = Some d' \<Longrightarrow> outIndex d' = outIndex d"
  by (induction d i n arbitrary: d' rule: Mmcop5Loop.induct)
    (fastforce simp: op_cases split: if_split_asm)+

lemma Mmcop5_index [index_kept]: "Mmcop5 d = Some (r, d') \<Longrightarrow> outIndex d' = outIndex d"
  by (auto simp: Mmcop5_def op_cases dest!: index_kept)

lemma Mmcop6_index [index_kept]: "Mmcop6 d n p l = Some (r, d') \<Longrightarrow> outIndex d' = outIndex d"
  by (auto simp: Mmcop6_def op_cases split: if_split_asm dest!: index_kept)

lemma MarkOperation_index [index_kept]:
  "MarkOperation c d fn poc m = Some (r, d', fn', m') \<Longrightarrow> outIndex d' = outIndex d"
  by (auto simp: MarkOperation_def op_cases split: if_split_asm dest!: index_kept)

lemma MarkOperations_index [index_kept]:
  "MarkOperations cs d fn poc m = Some (r, d', fn', m') \<Longrightarrow> outIndex d' = outIndex d"
proof (induction cs d fn poc m rule: MarkOperations.induct)
  case (2 c cs d fn poc m)
  show ?case
  proof (cases "memoryManagementControlOperation c = 0")
    case False
    with 2(2) obtain r1 a fn1 m1 where a: "MarkOperation c d fn poc m = Some (r1, a, fn1, m1)"
      by (auto simp: bind_eq_Some_conv)
    show ?thesis
    proof (cases "r1 = HANTRO_OK")
      case True
      with 2 False a have "outIndex d' = outIndex a" by auto
      then show ?thesis using MarkOperation_index [OF a] by simp
    next
      case not_ok: False
      with 2(2) False a show ?thesis using MarkOperation_index [OF a] by auto
    qed
  qed (use 2(2) in simp)
qed simp

lemma SlidingWindow_index [index_kept]:
  "SlidingWindowRefPicMarking d = Some (r, d') \<Longrightarrow> outIndex d' = outIndex d"
  by (auto simp: SlidingWindowRefPicMarking_def op_cases split: option.split_asm if_split_asm dest!: index_kept)

lemma MarkNonReference_index [index_kept]:
  "MarkNonReference d fn poc = Some (r, d') \<Longrightarrow> outIndex d' = outIndex d"
  by (auto simp: MarkNonReference_def op_cases dest!: index_kept)

lemma MarkReference_index [index_kept]:
  "MarkReference d m fn poc = Some (r, d') \<Longrightarrow> outIndex d' = outIndex d"
  by (auto simp: MarkReference_def op_cases split: if_split_asm dest!: index_kept)

lemma MarkIdr_index: "MarkIdr d m = Some (r, d') \<Longrightarrow> outIndex d' = 0"
  by (auto simp: MarkIdr_def op_cases split: if_split_asm dest!: index_kept)

lemma SetPicNums_index [index_kept]: "SetPicNums d n = Some d' \<Longrightarrow> outIndex d' = outIndex d"
  by (auto simp: SetPicNums_def op_cases)

lemma InsertNonExisting_index [index_kept]:
  "InsertNonExisting d n = Some (r, d') \<Longrightarrow> outIndex d' = outIndex d"
  by (auto simp: InsertNonExisting_def op_cases split: if_splits)
    (simp_all add: SetPicNums_index [of d n] OutputWhile_index SlidingWindow_index)

lemma FillGap_index [index_kept]: "FillGap d n fn = Some (r, d') \<Longrightarrow> outIndex d' = outIndex d"
proof -
  have "outIndex (snd y) = outIndex d" if "FillGap d n fn = Some y" for y
    using that by (induction rule: FillGap.raw_induct [rotated, consumes 1])
    (fastforce simp: op_cases split: if_split_asm dest!: index_kept)
  then show "FillGap d n fn = Some (r, d') \<Longrightarrow> outIndex d' = outIndex d" by fastforce
qed

lemma ExchangeData_index [index_kept]: "ExchangeData d a = Some d' \<Longrightarrow> outIndex d' = outIndex d"
  by (auto simp: ExchangeData_def op_cases split: option.split_asm)

lemma ProtectOutput_index [index_kept]: "ProtectOutput d a i n = Some d' \<Longrightarrow> outIndex d' = outIndex d"
  by (induction d a i n rule: ProtectOutput.induct)
    (fastforce simp: op_cases split: if_split_asm dest!: index_kept)+

lemma CheckGaps_index:
  assumes "h264bsdCheckGapsInFrameNum d fn isRef allowed = Some (r, d')"
  shows "outIndex d' = 0"
proof -
  define a where "a = d\<lparr>numOut := 0, outIndex := 0\<rparr>"
  have a: "outIndex a = 0" by (simp add: a_def)
  have fill: "outIndex b = 0" if "FillGap a n m = Some (r1, b)" for n m r1 b
    using FillGap_index [OF that] a by simp
  have protect: "outIndex c = 0" if "FillGap a n m = Some (r1, b)" "ProtectOutput b k 0 l = Some c" for n m r1 b k l c
    using fill [OF that(1)] ProtectOutput_index [OF that(2)] by simp
  show ?thesis using assms a unfolding h264bsdCheckGapsInFrameNum_def Let_def a_def [symmetric]
    by (auto simp: bind_eq_Some_conv protect split: if_split_asm dest: fill)
qed

section \<open>The fetches never run ahead\<close>

definition fetch_ok :: "dpbStorage \<Rightarrow> bool" where
  "fetch_ok dpb \<longleftrightarrow> outIndex dpb \<le> numOut dpb"

lemma fetch_ok_0 [simp]: "outIndex dpb = 0 \<Longrightarrow> fetch_ok dpb"
  by (simp add: fetch_ok_def)

lemma MarkDecRefPic_index:
  assumes "h264bsdMarkDecRefPic d mark img fn poc idr pid errs = Some (r, d')" and "outIndex d = 0"
  shows "outIndex d' = 0"
proof -
  define a where "a = d\<lparr>lastContainsMmco5 := False\<rparr>"
  have a: "outIndex a = 0" using assms(2) by (simp add: a_def)
  have marking: "outIndex b = 0"
    if "(case mark of None \<Rightarrow> MarkNonReference a fn poc
         | Some m \<Rightarrow> if idr then MarkIdr a m else MarkReference a m fn poc) = Some (r1, b)" for r1 b
    using that a by (auto split: option.split_asm if_split_asm dest: index_kept MarkIdr_index)
  show ?thesis using assms unfolding h264bsdMarkDecRefPic_def Let_def a_def [symmetric]
    by (auto simp: bind_eq_Some_conv split: if_split_asm dest!: marking UpdateCurrent_index OutputWhile_index)
qed

lemma MarkDecRefPic_idr_index:
  assumes "h264bsdMarkDecRefPic d (Some m) img fn poc True pid errs = Some (r, d')" and "fetch_ok d"
  shows "fetch_ok d'"
proof -
  define a where "a = d\<lparr>lastContainsMmco5 := False\<rparr>"
  show ?thesis using assms unfolding h264bsdMarkDecRefPic_def Let_def a_def [symmetric]
    by (auto simp: bind_eq_Some_conv split: if_split_asm dest!: MarkIdr_index UpdateCurrent_index OutputWhile_index)
qed

text \<open>The reference lists leave the output buffer alone.\<close>

lemma SetPicNums_output: "SetPicNums d n = Some d' \<Longrightarrow> outIndex d' = outIndex d \<and> numOut d' = numOut d"
  by (auto simp: SetPicNums_def op_cases)

lemma ReorderCommands_output:
  "ReorderCommands cs d cur n i pred = Some (r, d') \<Longrightarrow> outIndex d' = outIndex d \<and> numOut d' = numOut d"
  by (induction cs d cur n i pred rule: ReorderCommands.induct)
    (fastforce simp: op_cases split: if_splits option.splits)+

lemma list_step_output: "list_step d d' \<Longrightarrow> outIndex d' = outIndex d \<and> numOut d' = numOut d"
  by (auto simp: list_step.simps h264bsdInitRefPicList_def h264bsdReorderRefPicList_def op_cases
      split: if_splits dest!: ReorderCommands_output SetPicNums_output)

lemma list_steps_output: "list_step\<^sup>*\<^sup>* d d' \<Longrightarrow> outIndex d' = outIndex d \<and> numOut d' = numOut d"
  by (induction rule: rtranclp_induct) (auto dest: list_step_output)

lemma AllocateDpbImage_output:
  "h264bsdAllocateDpbImage d = Some (img, d') \<Longrightarrow> outIndex d' = outIndex d \<and> numOut d' = numOut d"
  by (auto simp: h264bsdAllocateDpbImage_def op_cases)

lemma FlushDpb_fetch_ok:
  assumes "h264bsdFlushDpb d = Some d'" "dpb_rest d" "fetch_ok d"
  shows "fetch_ok d'"
proof -
  have len: "length (outputs e) = unat (numOut e)" if "dpb_rest e" for e
    using that by (simp add: outputs_def dpb_rest_def dpb_core_def dpb_frame_def dpb_outputs_def dpb_shape_def)
  from FlushDpb_spec [OF assms(2)] assms(1) obtain xs where
    "dpb_rest d'" "outIndex d' = outIndex d" "outputs d' = outputs d @ xs" by auto
  with len [of d] len [of d'] assms(2,3) show ?thesis by (simp add: fetch_ok_def word_le_nat_alt)
qed

lemma dpb_step_fetch_ok:
  assumes "dpb_step P d d'" "dpb_rest d" "fetch_ok d"
  shows "fetch_ok d'"
  using assms
proof (induction rule: dpb_step.induct)
  case (gaps fn dpb isRef allowed ret dpb')
  then show ?case by (auto dest: CheckGaps_index)
next
  case (reserve dpb img dpb')
  then show ?case by (auto simp: fetch_ok_def dest: AllocateDpbImage_output)
next
  case (lists dpb dpb')
  then show ?case by (auto simp: fetch_ok_def dest: list_step_output)
next
  case (picture fn dpb isRef allowed ret0 a img b b' mark poc pid errs ret dpb')
  have "outIndex b' = 0"
    using CheckGaps_index [OF picture(2)] AllocateDpbImage_output [OF picture(3)] list_steps_output [OF picture(4)] by simp
  with picture show ?case by (auto dest: MarkDecRefPic_index)
next
  case (idr dpb img b b' m poc fn pid errs ret dpb')
  have "fetch_ok b'"
    using idr.prems AllocateDpbImage_output [OF idr(1)] list_steps_output [OF idr(2)] by (simp add: fetch_ok_def)
  with idr show ?case by (auto dest: MarkDecRefPic_idr_index)
next
  case (fetch dpb pic dpb')
  then show ?case by (auto simp: h264bsdDpbOutputPicture_def fetch_ok_def inc_le split: if_split_asm)
next
  case (flush dpb dpb')
  then show ?case by (auto dest: FlushDpb_fetch_ok)
qed

end
