(* ===== verification/H264DpbProps.thy ===== *)
theory H264DpbProps
  imports H264DpbLists H264DpbFaults H264DpbIndex
begin

text \<open>
  Properties of the decoded picture buffer over its whole life, from initialisation through any
  sequence of the operations the decoder performs, and of its single algorithms; and the two
  faults, as facts about the entry points.
\<close>

section \<open>Reachable states\<close>

text \<open>The addresses an allocator hands out.\<close>

definition addresses :: "nat option list \<Rightarrow> nat list" where
  "addresses heap = map the (filter (\<lambda>a. a \<noteq> None) heap)"

lemma InitDpb_inv:
  assumes args: "init_args sz maxRef maxFN"
    and ok: "h264bsdInitDpb d0 sz maxRef maxFN noReorder heap = Some (HANTRO_OK, d1, heap')"
    and dist: "distinct (map ALIGN16 (addresses heap))"
  obtains b as l q where "heap = Some b # map Some as @ Some l # Some q # heap'"
    "dpb_inv (mset (map ALIGN16 as)) (mset as) d1" "\<forall>x. count (mset (map ALIGN16 as)) x \<le> 1"
proof -
  from InitDpb_ok(4) [OF args ok] obtain b as l q where
    h: "heap = Some b # map Some as @ Some l # Some q # heap'"
    and m: "map data (active d1) = map ALIGN16 as" "map pAllocatedData (active d1) = as" by blast
  have "addresses (map Some as) = as" by (induction as) (simp_all add: addresses_def)
  then have "distinct (map ALIGN16 as)" using dist unfolding h by (simp add: addresses_def)
  then have "\<forall>x. count (mset (map ALIGN16 as)) x \<le> 1" by (simp add: distinct_count_atmost_1)
  moreover have "dpb_inv (mset (map ALIGN16 as)) (mset as) d1"
    using InitDpb_ok(1) [OF args ok] m by (simp add: dpb_inv_def)
  ultimately show thesis by (intro that [OF h]) simp_all
qed

lemma reached_inv:
  assumes "init_args sz maxRef maxFN" "h264bsdInitDpb d0 sz maxRef maxFN noReorder heap = Some (HANTRO_OK, d1, heap')"
    and "distinct (map ALIGN16 (addresses heap))" "(dpb_step tame_picture)\<^sup>*\<^sup>* d1 d2"
  obtains b as l q where "heap = Some b # map Some as @ Some l # Some q # heap'"
    "dpb_inv (mset (map ALIGN16 as)) (mset as) d2" "dpb_rest d2" "distinct (map data (active d2))"
proof -
  from InitDpb_inv [OF assms(1-3)] obtain b as l q where
    as: "heap = Some b # map Some as @ Some l # Some q # heap'"
    "dpb_inv (mset (map ALIGN16 as)) (mset as) d1" "\<forall>x. count (mset (map ALIGN16 as)) x \<le> 1" .
  note inv = dpb_reach_inv [OF assms(4) as(2,3)]
  then show thesis using as inv_distinct [OF inv as(3)] by (intro that) (simp_all add: dpb_inv_def)
qed

lemma reached_fetch_ok:
  assumes init: "init_args sz maxRef maxFN" "h264bsdInitDpb d0 sz maxRef maxFN noReorder heap = Some (HANTRO_OK, d1, heap')"
    "distinct (map ALIGN16 (addresses heap))" and steps: "(dpb_step tame_picture)\<^sup>*\<^sup>* d1 d2"
  shows "fetch_ok d2"
  using steps
proof (induction rule: rtranclp_induct)
  case base
  show ?case using InitDpb_ok(5) [OF init(1,2)] by simp
next
  case (step d e)
  have "dpb_rest d" by (rule reached_inv [OF init step(1)])
  then show ?case by (rule dpb_step_fetch_ok [OF step(2) _ step(3)])
qed

text \<open>A buffer of one picture, as initialisation leaves it, and after one reference picture.\<close>

definition heap1 :: "nat option list" where
  "heap1 = map Some [16, 100, 600, 1000, 2000]"

definition start1 :: dpbStorage where
  "start1 = \<lparr>buffer = [zeroPicture\<lparr>pAllocatedData := 100, data := 112\<rparr>, zeroPicture\<lparr>pAllocatedData := 600, data := 608\<rparr>]
       @ replicate 15 zeroPicture,
     refList = replicate 17 None, currentOut = Some 16, outBuf = [None, None], numOut = 0, outIndex = 0,
     maxRefFrames = 1, dpbSize = 1, dpbMaxFrameNum = 16, dpbMaxLongTermFrameIdx = NO_LONG_TERM_FRAME_INDICES,
     numRefFrames = 0, fullness = 0, prevRefFrameNum = 0, lastContainsMmco5 = False, noReordering = False, flushed = False\<rparr>"

definition idr_mark :: decRefPicMarking where
  "idr_mark = \<lparr>noOutputOfPriorPicsFlag = False, longTermReferenceFlag = False,
     adaptiveRefPicMarkingModeFlag = False, operation = []\<rparr>"

definition stored1 :: dpbStorage where
  "stored1 = start1\<lparr>currentOut := Some 1, numRefFrames := 1, fullness := 1,
     buffer := [zeroPicture\<lparr>pAllocatedData := 600, data := 608, status := SHORT_TERM, toBeDisplayed := True,
                  isIdr := True, picId := 7\<rparr>, zeroPicture\<lparr>pAllocatedData := 100, data := 112\<rparr>]
       @ replicate 15 zeroPicture\<rparr>"

lemma start1_init: "h264bsdInitDpb empty16 1 1 16 False heap1 = Some (HANTRO_OK, start1, [])"
  by code_simp

lemma stored1_steps: "(dpb_step tame_picture)\<^sup>*\<^sup>* start1 stored1"
proof -
  have alloc: "h264bsdAllocateDpbImage start1 = Some (608, start1\<lparr>currentOut := Some 1\<rparr>)" by code_simp
  have "h264bsdInitRefPicList (start1\<lparr>currentOut := Some 1\<rparr>) = Some (start1\<lparr>currentOut := Some 1\<rparr>)" by code_simp
  then have lists: "list_step\<^sup>*\<^sup>* (start1\<lparr>currentOut := Some 1\<rparr>) (start1\<lparr>currentOut := Some 1\<rparr>)"
    by (blast intro: init_list)
  have "h264bsdMarkDecRefPic (start1\<lparr>currentOut := Some 1\<rparr>) (Some idr_mark) 608 0 0 True 7 0 = Some (HANTRO_OK, stored1)"
    apply code_simp
    apply (subst OutputAll.simps, code_simp)
    apply (subst OutputWhile.simps, code_simp)
    done
  moreover have "tame_picture (Some idr_mark) 0 True" by (simp add: tame_picture_def)
  ultimately have "dpb_step tame_picture start1 stored1" by (intro dpb_step.idr [OF alloc lists])
  then show ?thesis by (rule r_into_rtranclp)
qed

lemma init_args1: "init_args 1 1 16" "distinct (map ALIGN16 (addresses heap1))"
  by (simp add: init_args_def) code_simp


text \<open>
  The relation \<open>dpb_step tame_picture\<close>: any sequence of the operations, when every picture that is
  stored is an IDR picture, or has a picture order count below \<open>0x7FFFFFFF\<close> and, if it has a list
  of marking operations, one with differences of picture numbers below \<open>2^31\<close> and neither operation
  5 nor 6 after an operation 6. C29 and C30 show what other pictures do.
\<close>

text \<open>C21. From an initialised buffer whose pictures do not overlap, after any sequence of tame
  pictures, gaps, abandoned pictures, reference lists, fetches and flushes: the references fill
  exactly the first \<open>numRefFrames\<close> slots, at most \<open>maxRefFrames\<close>; references and pictures waiting
  for display fill exactly the first \<open>fullness\<close> slots, at most \<open>dpbSize\<close>; so the slot of the next
  picture is free. (Tame: \<open>tame_picture\<close>, described above.)\<close>

theorem reachable_buffer:
  assumes "init_args sz maxRef maxFN" "h264bsdInitDpb d0 sz maxRef maxFN noReorder heap = Some (HANTRO_OK, d1, heap')"
    and "distinct (map ALIGN16 (addresses heap))" "(dpb_step tame_picture)\<^sup>*\<^sup>* d1 d2"
  shows "(\<forall>i < 17. IS_REFERENCE (buffer d2 ! i) \<longleftrightarrow> i < unat (numRefFrames d2))
    \<and> (\<forall>i < 17. IS_REFERENCE (buffer d2 ! i) \<or> toBeDisplayed (buffer d2 ! i) \<longleftrightarrow> i < unat (fullness d2))
    \<and> numRefFrames d2 \<le> maxRefFrames d2 \<and> fullness d2 \<le> dpbSize d2"
proof (intro conjI)
  have rest: "dpb_rest d2" by (rule reached_inv [OF assms])
  then show "\<forall>i < 17. IS_REFERENCE (buffer d2 ! i) \<longleftrightarrow> i < unat (numRefFrames d2)"
    "\<forall>i < 17. IS_REFERENCE (buffer d2 ! i) \<or> toBeDisplayed (buffer d2 ! i) \<longleftrightarrow> i < unat (fullness d2)"
    using rest_slots [OF rest] by (simp_all add: occupied_def)
  show "fullness d2 \<le> dpbSize d2" "numRefFrames d2 \<le> maxRefFrames d2"
    using rest by (simp_all add: dpb_rest_def dpb_core_def dpb_frame_def dpb_layout_def refs_exact_def word_le_nat_alt)
qed

theorem reachable_buffer_witness:
  "(IS_REFERENCE (buffer stored1 ! 0) \<longleftrightarrow> 0 < unat (numRefFrames stored1))
    \<and> (IS_REFERENCE (buffer stored1 ! 1) \<or> toBeDisplayed (buffer stored1 ! 1) \<longleftrightarrow> 1 < unat (fullness stored1))
    \<and> numRefFrames stored1 \<le> maxRefFrames stored1 \<and> fullness stored1 \<le> dpbSize stored1"
proof -
  note all = reachable_buffer [OF init_args1(1) start1_init init_args1(2) stored1_steps]
  have "IS_REFERENCE (buffer stored1 ! 0) \<longleftrightarrow> 0 < unat (numRefFrames stored1)"
    using all by (metis zero_less_numeral)
  moreover have "IS_REFERENCE (buffer stored1 ! 1) \<or> toBeDisplayed (buffer stored1 ! 1) \<longleftrightarrow> 1 < unat (fullness stored1)"
    using all by (auto dest: conjunct2 spec [of _ 1])
  ultimately show ?thesis using all by blast
qed

text \<open>C22. Releasing the buffer at any point of its life (with tame pictures) frees the picture allocations of its
  initialisation, each exactly once, wherever the pictures have moved.\<close>

theorem release_frees_allocations:
  assumes "init_args sz maxRef maxFN" "h264bsdInitDpb d0 sz maxRef maxFN noReorder heap = Some (HANTRO_OK, d1, heap')"
    and "distinct (map ALIGN16 (addresses heap))" "(dpb_step tame_picture)\<^sup>*\<^sup>* d1 d2"
  shows "\<exists>b as l q freed d3. heap = Some b # map Some as @ Some l # Some q # heap'
    \<and> h264bsdFreeDpb d2 = Some (freed, d3) \<and> mset freed = mset as \<and> buffer d3 = []"
proof -
  from reached_inv [OF assms] obtain b as l q where
    as: "heap = Some b # map Some as @ Some l # Some q # heap'"
    "dpb_inv (mset (map ALIGN16 as)) (mset as) d2" "dpb_rest d2" .
  have "mset (map pAllocatedData (active d2)) = mset as" using as(2) by (simp add: dpb_inv_def)
  moreover have "buffer (d2\<lparr>buffer := [], refList := [], outBuf := []\<rparr>) = []" by simp
  ultimately show ?thesis using as(1) FreeDpb_spec [OF as(3)] by blast
qed

theorem release_frees_allocations_witness:
  "\<exists>b as l q freed d3. heap1 = Some b # map Some as @ Some l # Some q # []
    \<and> h264bsdFreeDpb stored1 = Some (freed, d3) \<and> mset freed = mset as \<and> buffer d3 = []"
  by (rule release_frees_allocations [OF init_args1(1) start1_init init_args1(2) stored1_steps])

lemma picture_stored:
  assumes "init_args sz maxRef maxFN" "h264bsdInitDpb d0 sz maxRef maxFN noReorder heap = Some (HANTRO_OK, d1, heap')"
    and "distinct (map ALIGN16 (addresses heap))" "(dpb_step tame_picture)\<^sup>*\<^sup>* d1 d2"
  shows "unat fn < unat (dpbMaxFrameNum d2) \<Longrightarrow> tame_picture mark poc False \<Longrightarrow>
      \<exists>ret0 a img b. h264bsdCheckGapsInFrameNum d2 fn isRef gapsAllowed = Some (ret0, a)
        \<and> h264bsdAllocateDpbImage a = Some (img, b)
        \<and> (\<forall>b'. list_step\<^sup>*\<^sup>* b b' \<longrightarrow> (\<exists>ret d3. h264bsdMarkDecRefPic b' mark img fn poc False pid errs = Some (ret, d3)
              \<and> (dpb_step tame_picture)\<^sup>*\<^sup>* d1 d3))"
    and "\<exists>img b. h264bsdAllocateDpbImage d2 = Some (img, b)
        \<and> (\<forall>b'. list_step\<^sup>*\<^sup>* b b' \<longrightarrow> (\<exists>ret d3. h264bsdMarkDecRefPic b' (Some m) img fn poc True pid errs = Some (ret, d3)
              \<and> (dpb_step tame_picture)\<^sup>*\<^sup>* d1 d3))"
proof -
  obtain D A where inv: "dpb_inv D A d2" and rest: "dpb_rest d2"
    and dist: "distinct (map data (active d2))" by (rule reached_inv [OF assms])
  show "\<exists>ret0 a img b. h264bsdCheckGapsInFrameNum d2 fn isRef gapsAllowed = Some (ret0, a)
        \<and> h264bsdAllocateDpbImage a = Some (img, b)
        \<and> (\<forall>b'. list_step\<^sup>*\<^sup>* b b' \<longrightarrow> (\<exists>ret d3. h264bsdMarkDecRefPic b' mark img fn poc False pid errs = Some (ret, d3)
              \<and> (dpb_step tame_picture)\<^sup>*\<^sup>* d1 d3))"
    if args: "unat fn < unat (dpbMaxFrameNum d2)" "tame_picture mark poc False"
  proof -
    from CheckGaps_rest [OF rest args(1) dist, of isRef gapsAllowed] obtain ret0 a where
      a: "h264bsdCheckGapsInFrameNum d2 fn isRef gapsAllowed = Some (ret0, a)" "dpb_rest a" "out_room a" "permutes d2 a"
      by blast
    note alloc = AllocateDpbImage_spec(1) [OF a(2)] and inv_a = inv_permutes [OF inv a(4,2)]
    have "\<exists>ret d3. h264bsdMarkDecRefPic b' mark (data (buffer a ! slots a)) fn poc False pid errs = Some (ret, d3)
        \<and> (dpb_step tame_picture)\<^sup>*\<^sup>* d1 d3"
      if lists: "list_step\<^sup>*\<^sup>* (a\<lparr>currentOut := Some (slots a)\<rparr>) b'" for b'
    proof -
      obtain ret d3 where m: "h264bsdMarkDecRefPic b' mark (data (buffer a ! slots a)) fn poc False pid errs = Some (ret, d3)"
        using MarkDecRefPic_inv [OF inv_a alloc lists _ args(2), of fn pid errs] a(3)
          inv_frame_num [OF inv args(1)] by auto
      have "dpb_step tame_picture d2 d3"
        by (rule dpb_step.picture [where P = tame_picture and fn = fn, OF args(1) a(1) alloc lists _ m]) (rule args(2))
      with m assms(4) show ?thesis by (blast intro: rtranclp.rtrancl_into_rtrancl)
    qed
    with a(1) alloc show ?thesis by blast
  qed
  show "\<exists>img b. h264bsdAllocateDpbImage d2 = Some (img, b)
        \<and> (\<forall>b'. list_step\<^sup>*\<^sup>* b b' \<longrightarrow> (\<exists>ret d3. h264bsdMarkDecRefPic b' (Some m) img fn poc True pid errs = Some (ret, d3)
              \<and> (dpb_step tame_picture)\<^sup>*\<^sup>* d1 d3))"
  proof -
    note alloc = AllocateDpbImage_spec(1) [OF rest]
    have tame: "tame_picture (Some m) poc True" by (simp add: tame_picture_def)
    have "\<exists>ret d3. h264bsdMarkDecRefPic b' (Some m) (data (buffer d2 ! slots d2)) fn poc True pid errs = Some (ret, d3)
        \<and> (dpb_step tame_picture)\<^sup>*\<^sup>* d1 d3"
      if lists: "list_step\<^sup>*\<^sup>* (d2\<lparr>currentOut := Some (slots d2)\<rparr>) b'" for b'
    proof -
      obtain ret d3 where m: "h264bsdMarkDecRefPic b' (Some m) (data (buffer d2 ! slots d2)) fn poc True pid errs = Some (ret, d3)"
        using MarkDecRefPic_inv [OF inv alloc lists _ tame, of fn pid errs] by auto
      have "dpb_step tame_picture d2 d3" by (rule dpb_step.idr [where P = tame_picture, OF alloc lists tame m])
      with m assms(4) show ?thesis by (blast intro: rtranclp.rtrancl_into_rtrancl)
    qed
    with alloc show ?thesis by blast
  qed
qed

text \<open>C23. In every state reached with tame pictures another tame picture, IDR or not, is stored: the
  check for gaps and the reservation of its slot end without undefined behaviour, and so does its
  marking after any setting up and reordering of the reference lists for its slices; the state
  reached is again one of the sequence. Tame means a picture order count below \<open>0x7FFFFFFF\<close>,
  differences of picture numbers below \<open>2^31\<close> in the marking operations, and no operation 5 or 6
  after an operation 6; the operations are otherwise arbitrary, and an IDR picture is always tame.
  With a larger count the marking need not end (C29).\<close>

theorem picture_always_stored:
  assumes "init_args sz maxRef maxFN" "h264bsdInitDpb d0 sz maxRef maxFN noReorder heap = Some (HANTRO_OK, d1, heap')"
    and "distinct (map ALIGN16 (addresses heap))" "(dpb_step tame_picture)\<^sup>*\<^sup>* d1 d2"
    and "if idr then mark \<noteq> None else tame_picture mark poc False \<and> unat fn < unat (dpbMaxFrameNum d2)"
  shows "\<exists>ret0 a img b.
    (if idr then Some (ret0, a) = Some (HANTRO_OK, d2) else h264bsdCheckGapsInFrameNum d2 fn isRef gapsAllowed = Some (ret0, a))
    \<and> h264bsdAllocateDpbImage a = Some (img, b)
    \<and> (\<forall>b'. list_step\<^sup>*\<^sup>* b b' \<longrightarrow> (\<exists>ret d3. h264bsdMarkDecRefPic b' mark img fn poc idr pid errs = Some (ret, d3)
          \<and> (dpb_step tame_picture)\<^sup>*\<^sup>* d1 d3))"
proof (cases idr)
  case True
  with assms(5) obtain m where "mark = Some m" by auto
  with picture_stored(2) [OF assms(1-4), of m fn poc pid errs] True show ?thesis by simp
next
  case False
  with picture_stored(1) [OF assms(1-4), of fn mark poc isRef gapsAllowed pid errs] assms(5) show ?thesis by simp
qed

theorem picture_always_stored_witness:
  "\<exists>ret0 a img b.
    (if False then Some (ret0, a) = Some (HANTRO_OK, stored1) else h264bsdCheckGapsInFrameNum stored1 3 True True = Some (ret0, a))
    \<and> h264bsdAllocateDpbImage a = Some (img, b)
    \<and> (\<forall>b'. list_step\<^sup>*\<^sup>* b b' \<longrightarrow> (\<exists>ret d3. h264bsdMarkDecRefPic b' None img 3 6 False 8 0 = Some (ret, d3)
          \<and> (dpb_step tame_picture)\<^sup>*\<^sup>* start1 d3))"
  by (rule picture_always_stored [OF init_args1(1) start1_init init_args1(2) stored1_steps])
    (simp add: stored1_def start1_def tame_picture_def)

text \<open>In every reachable state the output buffer holds at most \<open>dpbSize + 1\<close> pictures, the
  room it was allocated with, and every entry counted was written.\<close>

theorem output_buffer_bound:
  assumes "init_args sz maxRef maxFN" "h264bsdInitDpb d0 sz maxRef maxFN noReorder heap = Some (HANTRO_OK, d1, heap')"
    and "distinct (map ALIGN16 (addresses heap))" "(dpb_step tame_picture)\<^sup>*\<^sup>* d1 d2"
  shows "unat (numOut d2) \<le> Suc (unat (dpbSize d2)) \<and> length (outBuf d2) = Suc (unat (dpbSize d2))
    \<and> None \<notin> set (take (unat (numOut d2)) (outBuf d2))"
proof (intro conjI)
  have "dpb_rest d2" by (rule reached_inv [OF assms])
  then have out: "dpb_outputs d2" "dpb_shape d2" by (simp_all add: dpb_rest_def dpb_core_def dpb_frame_def)
  then show "unat (numOut d2) \<le> Suc (slots d2)" "length (outBuf d2) = Suc (slots d2)"
    by (simp_all add: dpb_outputs_def dpb_shape_def)
  show "None \<notin> set (take (unat (numOut d2)) (outBuf d2))"
    using out by (auto simp: dpb_outputs_def in_set_conv_nth)
qed

theorem output_buffer_bound_witness:
  "unat (numOut stored1) \<le> Suc (unat (dpbSize stored1)) \<and> length (outBuf stored1) = Suc (unat (dpbSize stored1))
    \<and> None \<notin> set (take (unat (numOut stored1)) (outBuf stored1))"
  by (rule output_buffer_bound [OF init_args1(1) start1_init init_args1(2) stored1_steps])


section \<open>Output\<close>

text \<open>Calling \<open>h264bsdDpbOutputPicture\<close> up to \<open>n\<close> times, until it has no picture.\<close>

fun fetch_all :: "nat \<Rightarrow> dpbStorage \<Rightarrow> dpbOutPicture option list \<times> dpbStorage" where
  "fetch_all 0 dpb = ([], dpb)"
| "fetch_all (Suc n) dpb =
     (case h264bsdDpbOutputPicture dpb of
        (None, dpb) \<Rightarrow> ([], dpb)
      | (Some i, dpb) \<Rightarrow> (case fetch_all n dpb of (os, dpb') \<Rightarrow> (outBuf dpb ! i # os, dpb')))"

lemma fetch_all_outputs:
  "unat (numOut dpb) \<le> length (outBuf dpb) \<Longrightarrow> unat (numOut dpb) - unat (outIndex dpb) \<le> n
   \<Longrightarrow> \<exists>dpb'. fetch_all n dpb = (drop (unat (outIndex dpb)) (outputs dpb), dpb')
     \<and> h264bsdDpbOutputPicture dpb' = (None, dpb') \<and> buffer dpb' = buffer dpb"
proof (induction n arbitrary: dpb)
  case (Suc n)
  show ?case
  proof (cases "outIndex dpb < numOut dpb")
    case True
    then have lt: "unat (outIndex dpb) < unat (numOut dpb)" by (simp add: word_less_nat_alt)
    define a where "a = dpb\<lparr>outIndex := outIndex dpb + 1\<rparr>"
    have next_index: "unat (outIndex a) = Suc (unat (outIndex dpb))"
      using lt unsigned_less [of "numOut dpb", where ?'a = nat] by (simp add: a_def u32_small_inc)
    have "unat (numOut a) \<le> length (outBuf a)" "unat (numOut a) - unat (outIndex a) \<le> n"
      using Suc.prems next_index by (simp_all add: a_def)
    from Suc.IH [OF this] obtain d where
      d: "fetch_all n a = (drop (unat (outIndex a)) (outputs a), d)" "h264bsdDpbOutputPicture d = (None, d)"
      "buffer d = buffer a" by blast
    have fetch: "h264bsdDpbOutputPicture dpb = (Some (unat (outIndex dpb)), a)"
      using True by (simp add: h264bsdDpbOutputPicture_def a_def)
    have same: "outputs a = outputs dpb" "outBuf a = outBuf dpb" "buffer a = buffer dpb"
      by (simp_all add: a_def outputs_def)
    have "unat (outIndex dpb) < length (outputs dpb)" using lt Suc.prems(1) by (simp add: outputs_def)
    moreover have "outputs dpb ! unat (outIndex dpb) = outBuf dpb ! unat (outIndex dpb)"
      using lt by (simp add: outputs_def)
    ultimately have "drop (unat (outIndex dpb)) (outputs dpb)
        = outBuf dpb ! unat (outIndex dpb) # drop (unat (outIndex a)) (outputs a)"
      unfolding next_index same by (simp add: Cons_nth_drop_Suc [symmetric])
    with d fetch same show ?thesis by simp
  next
    case False
    then have "unat (numOut dpb) \<le> unat (outIndex dpb)" by (simp add: word_le_nat_alt not_less)
    with False show ?thesis by (auto simp: h264bsdDpbOutputPicture_def outputs_def)
  qed
qed (auto simp: h264bsdDpbOutputPicture_def outputs_def word_less_nat_alt)

text \<open>C24. As long as every stored picture was tame (in particular no picture order count was
  \<open>0x7FFFFFFF\<close>, which the search for the smallest count passes over), no picture is lost: flushing
  the buffer ends, and the fetches that follow hand out the pictures not fetched yet and then every
  picture still waiting for display, in picture order count order, and then report the end.\<close>

theorem flushed_pictures_fetched:
  assumes "init_args sz maxRef maxFN" "h264bsdInitDpb d0 sz maxRef maxFN noReorder heap = Some (HANTRO_OK, d1, heap')"
    and "distinct (map ALIGN16 (addresses heap))" "(dpb_step tame_picture)\<^sup>*\<^sup>* d1 d2"
  shows "\<exists>d3 d4. h264bsdFlushDpb d2 = Some d3
    \<and> fetch_all (unat (numOut d3)) d3 = (drop (unat (outIndex d2)) (take (unat (numOut d2)) (outBuf d2))
        @ map (Some \<circ> out_of) (sort_key picOrderCnt (filter toBeDisplayed (buffer d2))), d4)
    \<and> h264bsdDpbOutputPicture d4 = (None, d4) \<and> (\<forall>p \<in> set (buffer d4). \<not> toBeDisplayed p)"
proof -
  have rest: "dpb_rest d2" by (rule reached_inv [OF assms(1-4)])
  from FlushDpb_spec [OF this] obtain d3 where
    d3: "h264bsdFlushDpb d2 = Some d3" "dpb_rest d3" "displayed d3 = 0" "outIndex d3 = outIndex d2"
    "outputs d3 = outputs d2 @ map (Some \<circ> out_of) (sort_key picOrderCnt (filter toBeDisplayed (buffer d2)))" by blast
  have len: "unat (numOut d) \<le> length (outBuf d)" if "dpb_rest d" for d
    using that by (simp add: dpb_rest_def dpb_core_def dpb_frame_def dpb_outputs_def dpb_shape_def)
  obtain d4 where d4: "fetch_all (unat (numOut d3)) d3 = (drop (unat (outIndex d3)) (outputs d3), d4)"
    "h264bsdDpbOutputPicture d4 = (None, d4)" "buffer d4 = buffer d3"
    using fetch_all_outputs [OF len [OF d3(2)], of "unat (numOut d3)"] by auto
  have "unat (outIndex d2) \<le> length (outputs d2)"
    using reached_fetch_ok [OF assms] len [OF rest] by (simp add: fetch_ok_def outputs_def word_le_nat_alt)
  moreover have "\<forall>p \<in> set (buffer d4). \<not> toBeDisplayed p"
    using d3(3) by (simp add: d4(3) displayed_def cnt_def filter_empty_conv)
  ultimately show ?thesis using d3(1,4,5) d4(1,2) by (simp add: outputs_def)
qed

theorem flushed_pictures_fetched_witness:
  "\<exists>d3 d4. h264bsdFlushDpb stored1 = Some d3
    \<and> fetch_all (unat (numOut d3)) d3 = (drop (unat (outIndex stored1)) (take (unat (numOut stored1)) (outBuf stored1))
        @ map (Some \<circ> out_of) (sort_key picOrderCnt (filter toBeDisplayed (buffer stored1))), d4)
    \<and> h264bsdDpbOutputPicture d4 = (None, d4) \<and> (\<forall>p \<in> set (buffer d4). \<not> toBeDisplayed p)"
  by (rule flushed_pictures_fetched [OF init_args1(1) start1_init init_args1(2) stored1_steps])

text \<open>C25. When the check for gaps in frame numbers succeeds in a state reached with tame pictures, the
  picture decoded next is not written over a picture that waits in the output buffer.\<close>

theorem gap_keeps_outputs:
  assumes "init_args sz maxRef maxFN" "h264bsdInitDpb d0 sz maxRef maxFN noReorder heap = Some (HANTRO_OK, d1, heap')"
    and "distinct (map ALIGN16 (addresses heap))" "(dpb_step tame_picture)\<^sup>*\<^sup>* d1 d2"
    and "unat fn < unat (dpbMaxFrameNum d2)"
    and "h264bsdCheckGapsInFrameNum d2 fn isRef gapsAllowed = Some (HANTRO_OK, a)"
    and "h264bsdAllocateDpbImage a = Some (img, b)" and "Some out \<in> set (take (unat (numOut b)) (outBuf b))"
  shows "outData out \<noteq> img"
proof -
  from reached_inv [OF assms(1-4)] obtain D where rest: "dpb_rest d2" "distinct (map data (active d2))" .
  from CheckGaps_rest [OF rest(1) assms(5) rest(2), of isRef gapsAllowed] assms(6)
  have a: "dpb_rest a" "slot_unseen a" by auto
  have b: "img = data (buffer a ! slots a)" "b = a\<lparr>currentOut := Some (slots a)\<rparr>"
    using AllocateDpbImage_spec(1) [OF a(1)] assms(7) by auto
  from assms(8) obtain i where "i < unat (numOut a)" "outBuf a ! i = Some out"
    by (auto simp: b in_set_conv_nth)
  with a(2) show ?thesis unfolding b(1) by (auto simp: slot_unseen_def)
qed


text \<open>Two frames are missing after \<open>stored1\<close>: it is output, and its slot filled again.\<close>

definition gapped1 :: dpbStorage where
  "gapped1 = stored1\<lparr>prevRefFrameNum := 3, numOut := 1,
     outBuf := [Some \<lparr>outData = 608, outPicId = 7, outNumErrMbs = 0, outIsIdr = True\<rparr>, None],
     buffer := [zeroPicture\<lparr>pAllocatedData := 600, data := 608, picNum := 2, picFrameNum := 2, status := NON_EXISTING,
                  isIdr := True, picId := 7\<rparr>,
                zeroPicture\<lparr>pAllocatedData := 100, data := 112, picNum := 1, picFrameNum := 1\<rparr>]
       @ replicate 15 zeroPicture\<rparr>"

lemma gapped1_gaps: "h264bsdCheckGapsInFrameNum stored1 3 True True = Some (HANTRO_OK, gapped1)"
  apply code_simp
  apply (subst FillGap.simps, code_simp)
  apply (subst OutputWhile.simps, code_simp)
  apply (subst OutputWhile.simps, code_simp)
  apply (subst FillGap.simps, code_simp)
  apply (subst OutputWhile.simps, code_simp)
  done

theorem gap_keeps_outputs_witness:
  "Some \<lparr>outData = 608, outPicId = 7, outNumErrMbs = 0, outIsIdr = True\<rparr> \<in> set (take (unat (numOut gapped1)) (outBuf gapped1))
   \<and> h264bsdAllocateDpbImage gapped1 = Some (112, gapped1) \<and> (608 :: nat) \<noteq> 112"
proof -
  have alloc: "h264bsdAllocateDpbImage gapped1 = Some (112, gapped1)" by code_simp
  have out: "Some \<lparr>outData = 608, outPicId = 7, outNumErrMbs = 0, outIsIdr = True\<rparr>
      \<in> set (take (unat (numOut gapped1)) (outBuf gapped1))"
    by (simp add: gapped1_def)
  have "unat (3 :: u32) < unat (dpbMaxFrameNum stored1)" by (simp add: stored1_def start1_def)
  from gap_keeps_outputs [OF init_args1(1) start1_init init_args1(2) stored1_steps this gapped1_gaps alloc out]
  have "(608 :: nat) \<noteq> 112" by simp
  with alloc out show ?thesis by blast
qed

section \<open>Single algorithms\<close>

text \<open>C26. The sort ends with the same pictures, in the order of \<open>ComparePictures\<close> over the slots asked
  for, the other slots untouched.\<close>

theorem shell_sort_sorts:
  assumes "unat num \<le> length pics"
  shows "\<exists>sorted. ShellSort pics num = Some sorted \<and> mset sorted = mset pics
    \<and> sorted_wrt (\<lambda>p q. ComparePictures p q \<le> 0) (take (unat num) sorted)
    \<and> drop (unat num) sorted = drop (unat num) pics"
  using ShellSort_spec [OF assms] by blast

theorem shell_sort_sorts_witness:
  "\<exists>sorted. ShellSort (buffer stored1) 2 = Some sorted \<and> mset sorted = mset (buffer stored1)
    \<and> sorted_wrt (\<lambda>p q. ComparePictures p q \<le> 0) (take (unat (2 :: u32)) sorted)
    \<and> drop (unat (2 :: u32)) sorted = drop (unat (2 :: u32)) (buffer stored1)"
  by (rule shell_sort_sorts) (simp add: stored1_def)

text \<open>C27. One reordering command leaves the list of the standard: the entries before the index, the
  picture, and the entries after it without that picture, over the active length of the list.\<close>

theorem place_in_list_standard:
  assumes "r < n" "n < length l" "count_list (drop r (take n l)) (Some i) \<le> 1"
  shows "\<exists>l'. PlaceInList l i r n = Some l' \<and> length l' = length l
    \<and> take n l' = take n (take r l @ Some i # filter (\<lambda>e. e \<noteq> Some i) (drop r (take n l)))"
  by (rule PlaceInList_spec [OF assms])

definition ref_list4 :: "nat option list" where
  "ref_list4 = [Some 0, Some 1, Some 2, Some 3, None]"

theorem place_in_list_standard_witness:
  "\<exists>l'. PlaceInList ref_list4 2 0 4 = Some l' \<and> length l' = length ref_list4
    \<and> take 4 l' = take 4 (take 0 ref_list4 @ Some 2 # filter (\<lambda>e. e \<noteq> Some 2) (drop 0 (take 4 ref_list4)))"
  by (rule place_in_list_standard) (simp_all add: ref_list4_def)

text \<open>The first \<open>i\<close> slots hold no short term reference, or the one at \<open>m\<close> has the smallest number.\<close>

definition oldest :: "dpbPicture list \<Rightarrow> nat \<Rightarrow> nat option \<Rightarrow> bool" where
  "oldest buf i r \<longleftrightarrow> (case r of None \<Rightarrow> \<forall>j < i. \<not> IS_SHORT_TERM (buf ! j)
      | Some m \<Rightarrow> m < i \<and> IS_SHORT_TERM (buf ! m)
          \<and> (\<forall>j < i. IS_SHORT_TERM (buf ! j) \<longrightarrow> picNum (buf ! m) \<le> picNum (buf ! j)))"

lemma SlidingWindowLoop_oldest:
  "i + n \<le> length buf \<Longrightarrow> oldest buf i r \<Longrightarrow> (\<And>m. r = Some m \<Longrightarrow> k = picNum (buf ! m)) \<Longrightarrow>
   \<exists>r'. SlidingWindowLoop buf i n r k = Some r' \<and> oldest buf (i + n) r'"
proof (induction n arbitrary: i r k)
  case (Suc n)
  have i: "i < length buf" "Suc i + n \<le> length buf" using Suc.prems(1) by simp_all
  show ?case
  proof (cases "IS_SHORT_TERM (buf ! i) \<and> (picNum (buf ! i) < k \<or> r = None)")
    case True
    have "oldest buf (Suc i) (Some i)"
      using True Suc.prems(2,3) by (cases r) (fastforce simp: oldest_def less_Suc_eq)+
    with Suc.IH [OF i(2) this, of "picNum (buf ! i)"] True i show ?thesis by simp
  next
    case False
    have "oldest buf (Suc i) r"
      using False Suc.prems(2,3) by (cases r) (auto simp: oldest_def less_Suc_eq)
    with Suc.IH [OF i(2) this, of k] False i Suc.prems(3) show ?thesis by auto
  qed
qed simp

text \<open>C28. With the reference count at its maximum, the sliding window removes the short term reference
  with the smallest picture number, and only it, and fails only if there is none.\<close>

theorem sliding_window_oldest:
  assumes "dpb_rest dpb" "numRefFrames dpb = maxRefFrames dpb"
  shows "\<exists>ret dpb'. SlidingWindowRefPicMarking dpb = Some (ret, dpb')
    \<and> (if ret = HANTRO_OK
       then \<exists>m < unat (numRefFrames dpb). IS_SHORT_TERM (buffer dpb ! m)
         \<and> (\<forall>j < 17. IS_SHORT_TERM (buffer dpb ! j) \<longrightarrow> picNum (buffer dpb ! m) \<le> picNum (buffer dpb ! j))
         \<and> buffer dpb' = (buffer dpb)[m := (buffer dpb ! m)\<lparr>status := UNUSED\<rparr>]
         \<and> Suc (unat (numRefFrames dpb')) = unat (numRefFrames dpb)
       else dpb' = dpb \<and> (\<forall>j < 17. \<not> IS_SHORT_TERM (buffer dpb ! j)))"
proof -
  define n where "n = unat (numRefFrames dpb)"
  have core: "dpb_core dpb" using assms(1) by (simp add: dpb_rest_def)
  have len: "length (buffer dpb) = 17" "n \<le> 17"
    using core_shape [OF core] assms(2) by (simp_all add: n_def)
  have beyond: "\<not> IS_SHORT_TERM (buffer dpb ! j)" if "n \<le> j" "j < 17" for j
    using rest_slots(1) [OF assms(1) that(2)] that(1) short_term_reference by (auto simp: n_def)
  obtain r where r: "SlidingWindowLoop (buffer dpb) 0 n None 0 = Some r" "oldest (buffer dpb) n r"
    using SlidingWindowLoop_oldest [of 0 n "buffer dpb" None 0] len by (auto simp: oldest_def)
  show ?thesis
  proof (cases r)
    case None
    then have "\<forall>j < 17. \<not> IS_SHORT_TERM (buffer dpb ! j)" using r(2) beyond unfolding oldest_def by (auto simp: not_le [symmetric])
    with None r(1) assms(2) show ?thesis by (simp add: SlidingWindowRefPicMarking_def n_def)
  next
    case (Some m)
    then have m: "m < n" "IS_SHORT_TERM (buffer dpb ! m)"
      "\<forall>j < n. IS_SHORT_TERM (buffer dpb ! j) \<longrightarrow> picNum (buffer dpb ! m) \<le> picNum (buffer dpb ! j)"
      using r(2) by (simp_all add: oldest_def)
    then have all: "\<forall>j < 17. IS_SHORT_TERM (buffer dpb ! j) \<longrightarrow> picNum (buffer dpb ! m) \<le> picNum (buffer dpb ! j)"
      using beyond by (meson not_le)
    have dec: "unat (numRefFrames dpb - 1) = n - 1" using m(1) by (simp add: n_def u32_dec)
    obtain d where d: "DropReference dpb m = Some d" "numRefFrames d = numRefFrames dpb - 1"
      "buffer d = (buffer dpb)[m := (buffer dpb ! m)\<lparr>status := UNUSED\<rparr>]"
      using m(1) len by (auto simp: DropReference_def Let_def)
    have "SlidingWindowRefPicMarking dpb = Some (HANTRO_OK, d)"
      using Some r(1) d(1) assms(2) by (simp add: SlidingWindowRefPicMarking_def n_def)
    with m(1,2) all d(2,3) dec show ?thesis unfolding n_def by auto
  qed
qed

theorem sliding_window_oldest_witness:
  "\<exists>ret dpb'. SlidingWindowRefPicMarking gapped1 = Some (ret, dpb')
    \<and> (if ret = HANTRO_OK
       then \<exists>m < unat (numRefFrames gapped1). IS_SHORT_TERM (buffer gapped1 ! m)
         \<and> (\<forall>j < 17. IS_SHORT_TERM (buffer gapped1 ! j) \<longrightarrow> picNum (buffer gapped1 ! m) \<le> picNum (buffer gapped1 ! j))
         \<and> buffer dpb' = (buffer gapped1)[m := (buffer gapped1 ! m)\<lparr>status := UNUSED\<rparr>]
         \<and> Suc (unat (numRefFrames dpb')) = unat (numRefFrames gapped1)
       else dpb' = gapped1 \<and> (\<forall>j < 17. \<not> IS_SHORT_TERM (buffer gapped1 ! j)))"
proof (rule sliding_window_oldest)
  have "unat (3 :: u32) < unat (dpbMaxFrameNum stored1)" by (simp add: stored1_def start1_def)
  then have "dpb_step tame_picture stored1 gapped1" by (rule dpb_step.gaps [OF _ gapped1_gaps])
  with stored1_steps have "(dpb_step tame_picture)\<^sup>*\<^sup>* start1 gapped1" by (rule rtranclp.rtrancl_into_rtrancl)
  then show "dpb_rest gapped1" by (rule reached_inv [OF init_args1(1) start1_init init_args1(2)])
  show "numRefFrames gapped1 = maxRefFrames gapped1" by (simp add: gapped1_def stored1_def start1_def)
qed


section \<open>Two faults\<close>

text \<open>C29. When every picture waiting for display has the picture order count \<open>0x7FFFFFFF\<close>, storing
  one more such picture in a full buffer never returns: the search for the smallest count starts
  from that value and finds none of them, so the output loop makes no progress.\<close>

theorem largest_count_never_ends:
  assumes "length (buffer dpb) = 17" "unat (dpbSize dpb) \<le> 16" "currentOut dpb = Some c" "c < 17" "\<not> noReordering dpb"
    and "\<forall>p \<in> set (buffer dpb). toBeDisplayed p \<longrightarrow> picOrderCnt p = 0x7FFFFFFF"
    and "fullness dpb + 1 > dpbSize dpb"
  shows "h264bsdMarkDecRefPic dpb None (data (buffer dpb ! c)) fn 0x7FFFFFFF False pid errs = None"
proof -
  define p where "p = (buffer dpb ! c)\<lparr>status := UNUSED, picFrameNum := fn, picNum := sint fn, picOrderCnt := 0x7FFFFFFF,
    toBeDisplayed := True, isIdr := False, picId := pid, numErrMbs := errs\<rparr>"
  define q where "q = dpb\<lparr>lastContainsMmco5 := False, fullness := fullness dpb + 1, buffer := (buffer dpb)[c := p]\<rparr>"
  have "\<forall>p \<in> set (buffer q). toBeDisplayed p \<longrightarrow> picOrderCnt p = 0x7FFFFFFF"
    using assms(6) by (auto simp: q_def p_def dest!: subsetD [OF set_update_subset_insert])
  then have "OutputWhile (>) q = None"
    using assms by (intro blind_output_loops) (simp_all add: q_def)
  moreover have "h264bsdMarkDecRefPic dpb None (data (buffer dpb ! c)) fn 0x7FFFFFFF False pid errs
      = do { q \<leftarrow> OutputWhile (>) q; buf \<leftarrow> ShellSort (buffer q) (dpbSize q + 1); Some (HANTRO_OK, q\<lparr>buffer := buf\<rparr>) }"
    using assms by (simp add: h264bsdMarkDecRefPic_def MarkNonReference_def UpdateCurrent_def Let_def q_def p_def)
  ultimately show ?thesis by simp
qed

theorem largest_count_never_ends_witness:
  "h264bsdMarkDecRefPic (stored1\<lparr>buffer := (buffer stored1)[0 := (buffer stored1 ! 0)\<lparr>picOrderCnt := 0x7FFFFFFF\<rparr>]\<rparr>) None
     (data (buffer (stored1\<lparr>buffer := (buffer stored1)[0 := (buffer stored1 ! 0)\<lparr>picOrderCnt := 0x7FFFFFFF\<rparr>]\<rparr>) ! 1))
     1 0x7FFFFFFF False 8 0 = None"
  by (rule largest_count_never_ends) (simp_all add: stored1_def start1_def zeroPicture_def)

text \<open>C30. In an empty buffer of 16 pictures, the marking operations 4, 6, 5 store the current picture as
  a long term reference and flush it: the marking succeeds with a reference that is not counted;
  releasing that reference makes the count wrap to \<open>0xFFFFFFFF\<close>, and the next sliding window reads
  past the buffer.\<close>

theorem stored_then_flushed_overruns:
  "\<exists>d e. h264bsdMarkDecRefPic empty16 (Some (mark_of [mmco 4, mmco 6, mmco 5, mmco 0])) 0 1 2 False 0 0 = Some (HANTRO_OK, d)
     \<and> numRefFrames d = 0 \<and> cnt IS_REFERENCE (buffer d) = 1
     \<and> Mmcop2 d 0 = Some (HANTRO_OK, e) \<and> numRefFrames e = 0xFFFFFFFF
     \<and> SlidingWindowRefPicMarking e = None"
proof -
  note v = lost_reference_values
  obtain ret d where m: "h264bsdMarkDecRefPic empty16 (Some (mark_of [mmco 4, mmco 6, mmco 5, mmco 0])) 0 1 2 False 0 0 = Some (ret, d)"
    using v by (cases "h264bsdMarkDecRefPic empty16 (Some (mark_of [mmco 4, mmco 6, mmco 5, mmco 0])) 0 1 2 False 0 0") auto
  moreover obtain ret' e where r: "Mmcop2 d 0 = Some (ret', e)" using v m by (cases "Mmcop2 d 0") auto
  ultimately have "ret = HANTRO_OK" "numRefFrames d = 0" "cnt IS_REFERENCE (buffer d) = 1" "ret' = HANTRO_OK"
    "numRefFrames e = 0xFFFFFFFF" "maxRefFrames e = 16" "length (buffer e) = 17" using v by simp_all
  with m r SlidingWindow_overrun [of e] show ?thesis by blast
qed

end
