(* ===== verification/H264Parse.thy ===== *)
theory H264Parse
  imports H264CodeLaws
begin

text \<open>
  The shape of the parsers of slice headers and parameter sets: a sequence of syntax elements
  that are read from the stream and stored in a structure, each with an early return on a
  stream error or on a value out of range. A step takes the structure and the stream and
  returns a status with both; \<open>parse_all\<close> runs steps until one returns an error, as the
  sequence of \<open>if (tmp != HANTRO_OK) return(tmp)\<close> in the code does. Every caller discards the
  structure after an error, so an element that fails to decode leaves its field alone here, also
  where the code passes the address of the field to the decoder.
\<close>

section \<open>Steps\<close>

type_synonym 'h result = "(u32 \<times> 'h \<times> strmData) option"
type_synonym 'h step = "'h \<Rightarrow> strmData \<Rightarrow> 'h result"

fun parse_all :: "'h step list \<Rightarrow> 'h step" where
  "parse_all [] h s = Some (HANTRO_OK, h, s)"
| "parse_all (p # ps) h s =
     do {
       (ret, h, s) \<leftarrow> p h s;
       if ret \<noteq> HANTRO_OK then Some (ret, h, s) else parse_all ps h s
     }"

text \<open>\<open>tmp = h264bsdDecodeExpGolombUnsigned(...); if (tmp != HANTRO_OK) return(tmp);\<close>, a check of
  the value that returns an error, and the assignment; the same for signed codes.\<close>

definition ReadUe :: "(u32 \<Rightarrow> bool) \<Rightarrow> (u32 \<Rightarrow> 'h \<Rightarrow> 'h) \<Rightarrow> 'h step" where
  "ReadUe bad put h s =
     do {
       (ret, v, s) \<leftarrow> h264bsdDecodeExpGolombUnsigned s 0;
       Some (if ret \<noteq> HANTRO_OK then (ret, h, s) else if bad v then (HANTRO_NOK, h, s) else (HANTRO_OK, put v h, s))
     }"

definition ReadSe :: "(int \<Rightarrow> bool) \<Rightarrow> (int \<Rightarrow> 'h \<Rightarrow> 'h) \<Rightarrow> 'h step" where
  "ReadSe bad put h s =
     do {
       (ret, v, s) \<leftarrow> h264bsdDecodeExpGolombSigned s 0;
       Some (if ret \<noteq> HANTRO_OK then (ret, h, s) else if bad v then (HANTRO_NOK, h, s) else (HANTRO_OK, put v h, s))
     }"

text \<open>\<open>tmp = h264bsdGetBits(pStrmData, n); if (tmp == END_OF_STREAM) return(HANTRO_NOK);\<close>\<close>

definition ReadBits :: "u32 \<Rightarrow> (u32 \<Rightarrow> bool) \<Rightarrow> (u32 \<Rightarrow> 'h \<Rightarrow> 'h) \<Rightarrow> 'h step" where
  "ReadBits n bad put h s =
     do {
       (v, s) \<leftarrow> h264bsdGetBits s n;
       Some (if v = END_OF_STREAM \<or> bad v then (HANTRO_NOK, h, s) else (HANTRO_OK, put v h, s))
     }"

text \<open>A check on what was read so far, an assignment, steps under a condition, and a counted loop.\<close>

definition ErrorIf :: "u32 \<Rightarrow> ('h \<Rightarrow> bool) \<Rightarrow> 'h step" where
  "ErrorIf err bad h s = Some (if bad h then err else HANTRO_OK, h, s)"

abbreviation FailIf :: "('h \<Rightarrow> bool) \<Rightarrow> 'h step" where
  "FailIf bad \<equiv> ErrorIf HANTRO_NOK bad"

definition Assign :: "('h \<Rightarrow> 'h) \<Rightarrow> 'h step" where
  "Assign f h s = Some (HANTRO_OK, f h, s)"

definition IfElse :: "('h \<Rightarrow> bool) \<Rightarrow> 'h step list \<Rightarrow> 'h step list \<Rightarrow> 'h step" where
  "IfElse c ps qs h s = parse_all (if c h then ps else qs) h s"

abbreviation When :: "('h \<Rightarrow> bool) \<Rightarrow> 'h step list \<Rightarrow> 'h step" where
  "When c ps \<equiv> IfElse c ps []"

fun ForLoop :: "(nat \<Rightarrow> 'h step) \<Rightarrow> nat \<Rightarrow> nat \<Rightarrow> 'h step" where
  "ForLoop body i 0 h s = Some (HANTRO_OK, h, s)"
| "ForLoop body i (Suc n) h s =
     do {
       (ret, h, s) \<leftarrow> body i h s;
       if ret \<noteq> HANTRO_OK then Some (ret, h, s) else ForLoop body (Suc i) n h s
     }"

definition For :: "('h \<Rightarrow> nat) \<Rightarrow> (nat \<Rightarrow> 'h step) \<Rightarrow> 'h step" where
  "For bound body h s = ForLoop body 0 (bound h) h s"

text \<open>A part of the structure that another function fills in.\<close>

definition Part :: "('h \<Rightarrow> 'p) \<Rightarrow> ('p \<Rightarrow> 'h \<Rightarrow> 'h) \<Rightarrow> 'p step \<Rightarrow> 'h step" where
  "Part get put p h s = do { (ret, x, s) \<leftarrow> p (get h) s; Some (ret, put x h, s) }"

text \<open>Values that any 32 bit value may take.\<close>

abbreviation any :: "'v \<Rightarrow> bool" where
  "any v \<equiv> False"

text \<open>\<open>(tmp == 1) ? HANTRO_TRUE : HANTRO_FALSE\<close>, for a single bit.\<close>

definition flag :: "u32 \<Rightarrow> bool" where
  "flag v \<longleftrightarrow> v = 1"

abbreviation ReadFlag :: "(bool \<Rightarrow> 'h \<Rightarrow> 'h) \<Rightarrow> 'h step" where
  "ReadFlag put \<equiv> ReadBits 1 any (\<lambda>v. put (flag v))"

text \<open>\<open>tmp = h264bsdShowBits32(...)\<close>, the flush of 32 bits and its check, a check of the value.\<close>

definition Read32 :: "(u32 \<Rightarrow> bool) \<Rightarrow> (u32 \<Rightarrow> 'h \<Rightarrow> 'h) \<Rightarrow> 'h step" where
  "Read32 bad put h s =
     do {
       v \<leftarrow> h264bsdShowBits32 s;
       let (status, s) = h264bsdFlushBits s 32;
       Some (if status = END_OF_STREAM \<or> bad v then (HANTRO_NOK, h, s) else (HANTRO_OK, put v h, s))
     }"

text \<open>\<open>i = 0; while (x >> i) i++; i--;\<close>: the width of a power of two.\<close>

function Log2Loop :: "u32 \<Rightarrow> u32 \<Rightarrow> u32 option" where
  "Log2Loop x i =
     do {
       y \<leftarrow> shr32 x i;
       if y \<noteq> 0 then Log2Loop x (i + 1) else Some i
     }"
  by pat_completeness auto
termination
proof (relation "measure (\<lambda>(x, i). 32 - unat i)")
  fix x i y :: u32
  assume "shr32 x i = Some y"
  then have lt: "unat i < 32" by (auto simp: shr32_def word_less_nat_alt split: if_splits)
  then have "unat (i + 1) = unat i + 1" using unat_add_lem [of i 1] by simp
  with lt show "((x, i + 1), x, i) \<in> measure (\<lambda>(x, i). 32 - unat i)" by simp
qed simp

declare Log2Loop.simps [simp del]

definition Log2 :: "u32 \<Rightarrow> u32 option" where
  "Log2 x = do { i \<leftarrow> Log2Loop x 0; Some (i - 1) }"

definition ReadBitsOf :: "u32 \<Rightarrow> (u32 \<Rightarrow> bool) \<Rightarrow> (u32 \<Rightarrow> 'h \<Rightarrow> 'h) \<Rightarrow> 'h step" where
  "ReadBitsOf maxVal bad put h s = do { n \<leftarrow> Log2 maxVal; ReadBits n bad put h s }"

section \<open>What a step that succeeds has done\<close>

named_theorems parsed \<open>a step returns HANTRO_OK exactly when\<close>

lemma parse_all_Nil [parsed]: "parse_all [] h s = Some (HANTRO_OK, h', s') \<longleftrightarrow> h' = h \<and> s' = s"
  by auto

lemma parse_all_Cons [parsed]:
  "parse_all (p # ps) h s = Some (HANTRO_OK, h', s')
    \<longleftrightarrow> (\<exists>h1 s1. p h s = Some (HANTRO_OK, h1, s1) \<and> parse_all ps h1 s1 = Some (HANTRO_OK, h', s'))"
  by (auto split: bind_splits if_splits)

declare parse_all.simps [simp del]

lemma parse_all_append:
  "parse_all (ps @ qs) h s = Some (HANTRO_OK, h', s')
    \<longleftrightarrow> (\<exists>h1 s1. parse_all ps h s = Some (HANTRO_OK, h1, s1) \<and> parse_all qs h1 s1 = Some (HANTRO_OK, h', s'))"
  by (induction ps arbitrary: h s) (auto simp: parsed)

lemma ReadUe_OK [parsed]:
  "ReadUe bad put h s = Some (HANTRO_OK, h', s')
    \<longleftrightarrow> (\<exists>v. h264bsdDecodeExpGolombUnsigned s 0 = Some (HANTRO_OK, v, s') \<and> \<not> bad v \<and> h' = put v h)"
  by (auto simp: ReadUe_def split: bind_splits if_splits)

lemma ReadSe_OK [parsed]:
  "ReadSe bad put h s = Some (HANTRO_OK, h', s')
    \<longleftrightarrow> (\<exists>v. h264bsdDecodeExpGolombSigned s 0 = Some (HANTRO_OK, v, s') \<and> \<not> bad v \<and> h' = put v h)"
  by (auto simp: ReadSe_def split: bind_splits if_splits)

lemma ReadBits_OK [parsed]:
  "ReadBits n bad put h s = Some (HANTRO_OK, h', s')
    \<longleftrightarrow> (\<exists>v. h264bsdGetBits s n = Some (v, s') \<and> v \<noteq> END_OF_STREAM \<and> \<not> bad v \<and> h' = put v h)"
  by (auto simp: ReadBits_def split: bind_splits if_splits)

lemma ReadBitsOf_OK [parsed]:
  "ReadBitsOf m bad put h s = Some (HANTRO_OK, h', s')
    \<longleftrightarrow> (\<exists>n v. Log2 m = Some n \<and> h264bsdGetBits s n = Some (v, s') \<and> v \<noteq> END_OF_STREAM \<and> \<not> bad v
      \<and> h' = put v h)"
  by (auto simp: ReadBitsOf_def ReadBits_OK split: bind_splits)

lemma ErrorIf_OK [parsed]:
  "err \<noteq> HANTRO_OK \<Longrightarrow> ErrorIf err bad h s = Some (HANTRO_OK, h', s') \<longleftrightarrow> \<not> bad h \<and> h' = h \<and> s' = s"
  by (auto simp: ErrorIf_def)

lemma Assign_OK [parsed]: "Assign f h s = Some (HANTRO_OK, h', s') \<longleftrightarrow> h' = f h \<and> s' = s"
  by (auto simp: Assign_def)

lemma IfElse_OK [parsed]:
  "IfElse c ps qs h s = Some (HANTRO_OK, h', s')
    \<longleftrightarrow> (if c h then parse_all ps h s = Some (HANTRO_OK, h', s') else parse_all qs h s = Some (HANTRO_OK, h', s'))"
  by (simp add: IfElse_def)

lemma Part_OK [parsed]:
  "Part get put p h s = Some (HANTRO_OK, h', s')
    \<longleftrightarrow> (\<exists>x. p (get h) s = Some (HANTRO_OK, x, s') \<and> h' = put x h)"
  by (auto simp: Part_def split: bind_splits)

section \<open>What steps leave alone\<close>

definition keeps :: "('h \<Rightarrow> 'x) \<Rightarrow> 'h step \<Rightarrow> bool" where
  "keeps f p \<longleftrightarrow> (\<forall>h s ret h' s'. p h s = Some (ret, h', s') \<longrightarrow> f h' = f h)"

lemma keepsD: "keeps f p \<Longrightarrow> p h s = Some (ret, h', s') \<Longrightarrow> f h' = f h"
  unfolding keeps_def by blast

named_theorems keeping \<open>steps that leave a part of the structure alone\<close>

lemma keeps_parse_all [keeping]:
  assumes "\<And>p. p \<in> set ps \<Longrightarrow> keeps f p"
  shows "keeps f (parse_all ps)"
  unfolding keeps_def
proof (intro allI impI)
  fix h s ret h' s'
  assume "parse_all ps h s = Some (ret, h', s')"
  then show "f h' = f h" using assms
  proof (induction ps arbitrary: h s)
    case (Cons p ps)
    from Cons.prems(1) obtain r1 h1 s1 where p: "p h s = Some (r1, h1, s1)"
      and "r1 = HANTRO_OK \<longrightarrow> parse_all ps h1 s1 = Some (ret, h', s')"
      and "r1 \<noteq> HANTRO_OK \<longrightarrow> h' = h1"
      by (auto simp: parse_all.simps split: bind_splits if_splits)
    moreover have "f h1 = f h" using Cons.prems(2) p by (metis keepsD list.set_intros(1))
    ultimately show ?case using Cons.IH Cons.prems(2) by (cases "r1 = HANTRO_OK") auto
  qed (simp add: parse_all.simps)
qed

lemma keeps_steps [keeping]:
  "(\<And>v h. f (put v h) = f h) \<Longrightarrow> keeps f (ReadUe bad put)"
  "(\<And>w h. f (puts w h) = f h) \<Longrightarrow> keeps f (ReadSe bads puts)"
  "(\<And>v h. f (put v h) = f h) \<Longrightarrow> keeps f (ReadBits n bad put)"
  "(\<And>v h. f (put v h) = f h) \<Longrightarrow> keeps f (ReadBitsOf m bad put)"
  "keeps f (ErrorIf err c)"
  "(\<And>h. f (g h) = f h) \<Longrightarrow> keeps f (Assign g)"
  "(\<And>x h. f (puti x h) = f h) \<Longrightarrow> keeps f (Part get puti p)"
  by (auto simp: keeps_def ReadUe_def ReadSe_def ReadBits_def ReadBitsOf_def ErrorIf_def Assign_def Part_def
        split: bind_splits if_splits)

lemma keeps_IfElse [keeping]:
  "keeps f (parse_all ps) \<Longrightarrow> keeps f (parse_all qs) \<Longrightarrow> keeps f (IfElse c ps qs)"
  by (auto simp: keeps_def IfElse_def split: if_splits)

end
