(* ===== verification/H264Vui.thy ===== *)
theory H264Vui
  imports H264Parse
begin

text \<open>
  Video usability information and hypothetical reference decoder parameters (\<open>h264bsd_vui.c\<close>).
  The arrays of \<open>MAX_CPB_CNT\<close> entries are lists of that length, zero at first.
\<close>

definition MAX_CPB_CNT :: u32 where "MAX_CPB_CNT = 32"
definition MAX_DPB_SIZE :: u32 where "MAX_DPB_SIZE = 16"
definition MAX_BR :: u32 where "MAX_BR = 240000"
definition MAX_CPB :: u32 where "MAX_CPB = 240000"
definition ASPECT_RATIO_EXTENDED_SAR :: u32 where "ASPECT_RATIO_EXTENDED_SAR = 255"

record hrdParameters =
  cpbCnt :: u32
  bitRateScale :: u32
  cpbSizeScale :: u32
  bitRateValue :: "u32 list"
  cpbSizeValue :: "u32 list"
  cbrFlag :: "bool list"
  initialCpbRemovalDelayLength :: u32
  cpbRemovalDelayLength :: u32
  dpbOutputDelayLength :: u32
  timeOffsetLength :: u32

definition zeroHrd :: hrdParameters where
  "zeroHrd = \<lparr>cpbCnt = 0, bitRateScale = 0, cpbSizeScale = 0, bitRateValue = replicate 32 0,
     cpbSizeValue = replicate 32 0, cbrFlag = replicate 32 False, initialCpbRemovalDelayLength = 0,
     cpbRemovalDelayLength = 0, dpbOutputDelayLength = 0, timeOffsetLength = 0\<rparr>"

record vuiParameters =
  aspectRatioPresentFlag :: bool
  aspectRatioIdc :: u32
  sarWidth :: u32
  sarHeight :: u32
  overscanInfoPresentFlag :: bool
  overscanAppropriateFlag :: bool
  videoSignalTypePresentFlag :: bool
  videoFormat :: u32
  videoFullRangeFlag :: bool
  colourDescriptionPresentFlag :: bool
  colourPrimaries :: u32
  transferCharacteristics :: u32
  matrixCoefficients :: u32
  chromaLocInfoPresentFlag :: bool
  chromaSampleLocTypeTopField :: u32
  chromaSampleLocTypeBottomField :: u32
  timingInfoPresentFlag :: bool
  numUnitsInTick :: u32
  timeScale :: u32
  fixedFrameRateFlag :: bool
  nalHrdParametersPresentFlag :: bool
  nalHrdParameters :: hrdParameters
  vclHrdParametersPresentFlag :: bool
  vclHrdParameters :: hrdParameters
  lowDelayHrdFlag :: bool
  picStructPresentFlag :: bool
  bitstreamRestrictionFlag :: bool
  motionVectorsOverPicBoundariesFlag :: bool
  maxBytesPerPicDenom :: u32
  maxBitsPerMbDenom :: u32
  log2MaxMvLengthHorizontal :: u32
  log2MaxMvLengthVertical :: u32
  numReorderFrames :: u32
  maxDecFrameBuffering :: u32

definition zeroVui :: vuiParameters where
  "zeroVui = \<lparr>aspectRatioPresentFlag = False, aspectRatioIdc = 0, sarWidth = 0, sarHeight = 0,
     overscanInfoPresentFlag = False, overscanAppropriateFlag = False, videoSignalTypePresentFlag = False,
     videoFormat = 0, videoFullRangeFlag = False, colourDescriptionPresentFlag = False, colourPrimaries = 0,
     transferCharacteristics = 0, matrixCoefficients = 0, chromaLocInfoPresentFlag = False,
     chromaSampleLocTypeTopField = 0, chromaSampleLocTypeBottomField = 0, timingInfoPresentFlag = False,
     numUnitsInTick = 0, timeScale = 0, fixedFrameRateFlag = False, nalHrdParametersPresentFlag = False,
     nalHrdParameters = zeroHrd, vclHrdParametersPresentFlag = False, vclHrdParameters = zeroHrd,
     lowDelayHrdFlag = False, picStructPresentFlag = False, bitstreamRestrictionFlag = False,
     motionVectorsOverPicBoundariesFlag = False, maxBytesPerPicDenom = 0, maxBitsPerMbDenom = 0,
     log2MaxMvLengthHorizontal = 0, log2MaxMvLengthVertical = 0, numReorderFrames = 0, maxDecFrameBuffering = 0\<rparr>"

section \<open>HRD parameters\<close>

text \<open>The values written are \<open>(v + 1) * (1 << (6 + scale))\<close>, which may wrap.\<close>

definition DecodeCpb :: "nat \<Rightarrow> hrdParameters step" where
  "DecodeCpb i = parse_all
    [ReadUe (\<lambda>v. v > 4294967294) (\<lambda>v h. h\<lparr>bitRateValue :=
       (bitRateValue h)[i := (v + 1) * push_bit (6 + unat (bitRateScale h)) 1]\<rparr>),
     ReadUe (\<lambda>v. v > 4294967294) (\<lambda>v h. h\<lparr>cpbSizeValue :=
       (cpbSizeValue h)[i := (v + 1) * push_bit (4 + unat (cpbSizeScale h)) 1]\<rparr>),
     ReadFlag (\<lambda>b h. h\<lparr>cbrFlag := (cbrFlag h)[i := b]\<rparr>)]"

definition DecodeHrdParameters :: "hrdParameters step" where
  "DecodeHrdParameters = parse_all
    [ReadUe any (\<lambda>v h. h\<lparr>cpbCnt := v + 1\<rparr>),
     FailIf (\<lambda>h. cpbCnt h > MAX_CPB_CNT),
     ReadBits 4 any (\<lambda>v h. h\<lparr>bitRateScale := v\<rparr>),
     ReadBits 4 any (\<lambda>v h. h\<lparr>cpbSizeScale := v\<rparr>),
     For (\<lambda>h. unat (cpbCnt h)) DecodeCpb,
     ReadBits 5 any (\<lambda>v h. h\<lparr>initialCpbRemovalDelayLength := v + 1\<rparr>),
     ReadBits 5 any (\<lambda>v h. h\<lparr>cpbRemovalDelayLength := v + 1\<rparr>),
     ReadBits 5 any (\<lambda>v h. h\<lparr>dpbOutputDelayLength := v + 1\<rparr>),
     ReadBits 5 any (\<lambda>v h. h\<lparr>timeOffsetLength := v\<rparr>)]"

text \<open>The values assigned when the parameters are absent.\<close>

definition defaultHrd :: "u32 \<Rightarrow> hrdParameters \<Rightarrow> hrdParameters" where
  "defaultHrd factor h = h\<lparr>cpbCnt := 1, bitRateValue := (bitRateValue h)[0 := factor * MAX_BR + 1],
     cpbSizeValue := (cpbSizeValue h)[0 := factor * MAX_CPB + 1], initialCpbRemovalDelayLength := 24,
     cpbRemovalDelayLength := 24, dpbOutputDelayLength := 24, timeOffsetLength := 24\<rparr>"

section \<open>VUI parameters\<close>

definition DecodeVideoSignalType :: "vuiParameters step list" where
  "DecodeVideoSignalType =
    [ReadBits 3 any (\<lambda>v h. h\<lparr>videoFormat := v\<rparr>),
     ReadFlag (\<lambda>b h. h\<lparr>videoFullRangeFlag := b\<rparr>),
     ReadFlag (\<lambda>b h. h\<lparr>colourDescriptionPresentFlag := b\<rparr>),
     IfElse colourDescriptionPresentFlag
       [ReadBits 8 any (\<lambda>v h. h\<lparr>colourPrimaries := v\<rparr>),
        ReadBits 8 any (\<lambda>v h. h\<lparr>transferCharacteristics := v\<rparr>),
        ReadBits 8 any (\<lambda>v h. h\<lparr>matrixCoefficients := v\<rparr>)]
       [Assign (\<lambda>h. h\<lparr>colourPrimaries := 2, transferCharacteristics := 2, matrixCoefficients := 2\<rparr>)]]"

definition DecodeBitstreamRestriction :: "vuiParameters step list" where
  "DecodeBitstreamRestriction =
    [ReadFlag (\<lambda>b h. h\<lparr>motionVectorsOverPicBoundariesFlag := b\<rparr>),
     ReadUe any (\<lambda>v h. h\<lparr>maxBytesPerPicDenom := v\<rparr>), FailIf (\<lambda>h. maxBytesPerPicDenom h > 16),
     ReadUe any (\<lambda>v h. h\<lparr>maxBitsPerMbDenom := v\<rparr>), FailIf (\<lambda>h. maxBitsPerMbDenom h > 16),
     ReadUe any (\<lambda>v h. h\<lparr>log2MaxMvLengthHorizontal := v\<rparr>), FailIf (\<lambda>h. log2MaxMvLengthHorizontal h > 16),
     ReadUe any (\<lambda>v h. h\<lparr>log2MaxMvLengthVertical := v\<rparr>), FailIf (\<lambda>h. log2MaxMvLengthVertical h > 16),
     ReadUe any (\<lambda>v h. h\<lparr>numReorderFrames := v\<rparr>),
     ReadUe any (\<lambda>v h. h\<lparr>maxDecFrameBuffering := v\<rparr>)]"

definition h264bsdDecodeVuiParameters :: "strmData \<Rightarrow> vuiParameters result" where
  "h264bsdDecodeVuiParameters s = parse_all
    [ReadFlag (\<lambda>b h. h\<lparr>aspectRatioPresentFlag := b\<rparr>),
     When aspectRatioPresentFlag
       [ReadBits 8 any (\<lambda>v h. h\<lparr>aspectRatioIdc := v\<rparr>),
        When (\<lambda>h. aspectRatioIdc h = ASPECT_RATIO_EXTENDED_SAR)
          [ReadBits 16 any (\<lambda>v h. h\<lparr>sarWidth := v\<rparr>), ReadBits 16 any (\<lambda>v h. h\<lparr>sarHeight := v\<rparr>)]],
     ReadFlag (\<lambda>b h. h\<lparr>overscanInfoPresentFlag := b\<rparr>),
     When overscanInfoPresentFlag [ReadFlag (\<lambda>b h. h\<lparr>overscanAppropriateFlag := b\<rparr>)],
     ReadFlag (\<lambda>b h. h\<lparr>videoSignalTypePresentFlag := b\<rparr>),
     IfElse videoSignalTypePresentFlag DecodeVideoSignalType
       [Assign (\<lambda>h. h\<lparr>videoFormat := 5, colourPrimaries := 2, transferCharacteristics := 2, matrixCoefficients := 2\<rparr>)],
     ReadFlag (\<lambda>b h. h\<lparr>chromaLocInfoPresentFlag := b\<rparr>),
     When chromaLocInfoPresentFlag
       [ReadUe any (\<lambda>v h. h\<lparr>chromaSampleLocTypeTopField := v\<rparr>), FailIf (\<lambda>h. chromaSampleLocTypeTopField h > 5),
        ReadUe any (\<lambda>v h. h\<lparr>chromaSampleLocTypeBottomField := v\<rparr>), FailIf (\<lambda>h. chromaSampleLocTypeBottomField h > 5)],
     ReadFlag (\<lambda>b h. h\<lparr>timingInfoPresentFlag := b\<rparr>),
     When timingInfoPresentFlag
       [Read32 (\<lambda>v. v = 0) (\<lambda>v h. h\<lparr>numUnitsInTick := v\<rparr>),
        Read32 (\<lambda>v. v = 0) (\<lambda>v h. h\<lparr>timeScale := v\<rparr>),
        ReadFlag (\<lambda>b h. h\<lparr>fixedFrameRateFlag := b\<rparr>)],
     ReadFlag (\<lambda>b h. h\<lparr>nalHrdParametersPresentFlag := b\<rparr>),
     IfElse nalHrdParametersPresentFlag
       [Part nalHrdParameters (\<lambda>x h. h\<lparr>nalHrdParameters := x\<rparr>) DecodeHrdParameters]
       [Assign (\<lambda>h. h\<lparr>nalHrdParameters := defaultHrd 1200 (nalHrdParameters h)\<rparr>)],
     ReadFlag (\<lambda>b h. h\<lparr>vclHrdParametersPresentFlag := b\<rparr>),
     IfElse vclHrdParametersPresentFlag
       [Part vclHrdParameters (\<lambda>x h. h\<lparr>vclHrdParameters := x\<rparr>) DecodeHrdParameters]
       [Assign (\<lambda>h. h\<lparr>vclHrdParameters := defaultHrd 1000 (vclHrdParameters h)\<rparr>)],
     When (\<lambda>h. nalHrdParametersPresentFlag h \<or> vclHrdParametersPresentFlag h)
       [ReadFlag (\<lambda>b h. h\<lparr>lowDelayHrdFlag := b\<rparr>)],
     ReadFlag (\<lambda>b h. h\<lparr>picStructPresentFlag := b\<rparr>),
     ReadFlag (\<lambda>b h. h\<lparr>bitstreamRestrictionFlag := b\<rparr>),
     IfElse bitstreamRestrictionFlag DecodeBitstreamRestriction
       [Assign (\<lambda>h. h\<lparr>motionVectorsOverPicBoundariesFlag := True, maxBytesPerPicDenom := 2, maxBitsPerMbDenom := 1,
          log2MaxMvLengthHorizontal := 16, log2MaxMvLengthVertical := 16,
          numReorderFrames := MAX_DPB_SIZE, maxDecFrameBuffering := MAX_DPB_SIZE\<rparr>)]]
    zeroVui s"

end
