(* ===== verification/H264SeqParamSet.thy ===== *)
theory H264SeqParamSet
  imports H264Vui H264Poc
begin

text \<open>
  Sequence parameter sets (\<open>h264bsd_seq_param_set.c\<close>). The record extends the fields the
  picture order count reads by the others. The two allocations of the parser succeed or fail as
  its arguments say; an array that was allocated grows as it is filled.
\<close>

definition MAX_NUM_REF_PICS :: u32 where "MAX_NUM_REF_PICS = 16"
definition MAX_NUM_SEQ_PARAM_SETS :: u32 where "MAX_NUM_SEQ_PARAM_SETS = 32"
definition INVALID_DPB_SIZE :: u32 where "INVALID_DPB_SIZE = 0x7FFFFFFF"

record seqParamSet = pocParams +
  profileIdc :: u32
  levelIdc :: u32
  seqParameterSetId :: u32
  deltaPicOrderAlwaysZeroFlag :: bool
  spsNumRefFrames :: u32
  gapsInFrameNumValueAllowedFlag :: bool
  picWidthInMbs :: u32
  picHeightInMbs :: u32
  frameCroppingFlag :: bool
  frameCropLeftOffset :: u32
  frameCropRightOffset :: u32
  frameCropTopOffset :: u32
  frameCropBottomOffset :: u32
  vuiParametersPresentFlag :: bool
  vuiParametersOf :: "vuiParameters option"
  maxDpbSize :: u32

definition zeroSps :: seqParamSet where
  "zeroSps = \<lparr>picOrderCntType = 0, maxFrameNum = 0, maxPicOrderCntLsb = 0, numRefFramesInPicOrderCntCycle = 0,
     offsetForRefFrame = [], offsetForNonRefPic = 0, offsetForTopToBottomField = 0, profileIdc = 0, levelIdc = 0,
     seqParameterSetId = 0, deltaPicOrderAlwaysZeroFlag = False, spsNumRefFrames = 0,
     gapsInFrameNumValueAllowedFlag = False, picWidthInMbs = 0, picHeightInMbs = 0, frameCroppingFlag = False,
     frameCropLeftOffset = 0, frameCropRightOffset = 0, frameCropTopOffset = 0, frameCropBottomOffset = 0,
     vuiParametersPresentFlag = False, vuiParametersOf = None, maxDpbSize = 0\<rparr>"

section \<open>The size of the buffer\<close>

text \<open>The bytes and the macroblocks a level allows.\<close>

definition levelLimits :: "u32 \<Rightarrow> (u32 \<times> u32) option" where
  "levelLimits level =
     (if level = 10 then Some (152064, 99)
      else if level = 11 then Some (345600, 396)
      else if level = 12 \<or> level = 13 \<or> level = 20 then Some (912384, 396)
      else if level = 21 then Some (1824768, 792)
      else if level = 22 \<or> level = 30 then Some (3110400, 1620)
      else if level = 31 then Some (6912000, 3600)
      else if level = 32 then Some (7864320, 5120)
      else if level = 40 \<or> level = 41 then Some (12582912, 8192)
      else if level = 42 then Some (34816 * 384, 8704)
      else if level = 50 then Some (42393600, 22080)
      else if level = 51 then Some (70778880, 36864)
      else None)"

text \<open>\<open>None\<close> is the division by zero of a picture without macroblocks.\<close>

definition GetDpbSize :: "u32 \<Rightarrow> u32 \<Rightarrow> u32 option" where
  "GetDpbSize picSizeInMbs level =
     (case levelLimits level of
        None \<Rightarrow> Some INVALID_DPB_SIZE
      | Some (tmp, maxPicSizeInMbs) \<Rightarrow>
          if picSizeInMbs > maxPicSizeInMbs then Some INVALID_DPB_SIZE
          else if picSizeInMbs * 384 = 0 then None
          else Some (min (tmp div (picSizeInMbs * 384)) 16))"

section \<open>The parser\<close>

definition SkipBits :: "u32 \<Rightarrow> 'h step" where
  "SkipBits n h s = do { (v, s) \<leftarrow> h264bsdGetBits s n; Some (HANTRO_OK, h, s) }"

definition FailWhen :: "('h \<Rightarrow> bool option) \<Rightarrow> 'h step" where
  "FailWhen c h s = do { b \<leftarrow> c h; Some (if b then HANTRO_NOK else HANTRO_OK, h, s) }"

lemma FailWhen_OK [parsed]:
  "FailWhen c h s = Some (HANTRO_OK, h', s') \<longleftrightarrow> c h = Some False \<and> h' = h \<and> s' = s"
  by (auto simp: FailWhen_def split: bind_splits if_splits)

lemma keeps_FailWhen [keeping]: "keeps f (FailWhen c)"
  by (auto simp: keeps_def FailWhen_def split: bind_splits)

definition IgnoreTrailingBits :: "'h step" where
  "IgnoreTrailingBits h s = do { (ret, s) \<leftarrow> h264bsdRbspTrailingBits s; Some (HANTRO_OK, h, s) }"

definition DecodeOffsets :: "bool \<Rightarrow> seqParamSet step" where
  "DecodeOffsets gotOffsets = When (\<lambda>h. numRefFramesInPicOrderCntCycle h \<noteq> 0)
    [ErrorIf MEMORY_ALLOCATION_ERROR (\<lambda>h. \<not> gotOffsets),
     For (\<lambda>h. unat (numRefFramesInPicOrderCntCycle h))
       (\<lambda>i. ReadSe any (\<lambda>v h. h\<lparr>offsetForRefFrame := offsetForRefFrame h @ [v]\<rparr>))]"

definition DecodePocCycle :: "bool \<Rightarrow> seqParamSet step list" where
  "DecodePocCycle gotOffsets =
    [ReadFlag (\<lambda>b h. h\<lparr>deltaPicOrderAlwaysZeroFlag := b\<rparr>),
     ReadSe any (\<lambda>v h. h\<lparr>offsetForNonRefPic := v\<rparr>),
     ReadSe any (\<lambda>v h. h\<lparr>offsetForTopToBottomField := v\<rparr>),
     ReadUe any (\<lambda>v h. h\<lparr>numRefFramesInPicOrderCntCycle := v\<rparr>),
     FailIf (\<lambda>h. numRefFramesInPicOrderCntCycle h > 255),
     DecodeOffsets gotOffsets]"

text \<open>The comparison of one cropped dimension, in signed arithmetic.\<close>

definition CropExceeds :: "u32 \<Rightarrow> u32 \<Rightarrow> u32 \<Rightarrow> bool option" where
  "CropExceeds low mbs high =
     do {
       total \<leftarrow> chk (8 * sint mbs);
       last1 \<leftarrow> chk (sint high + 1);
       limit \<leftarrow> chk (total - last1);
       Some (sint low > limit)
     }"

definition CropInvalid :: "seqParamSet \<Rightarrow> bool option" where
  "CropInvalid h =
     do {
       x \<leftarrow> CropExceeds (frameCropLeftOffset h) (picWidthInMbs h) (frameCropRightOffset h);
       if x then Some True
       else CropExceeds (frameCropTopOffset h) (picHeightInMbs h) (frameCropBottomOffset h)
     }"

definition DecodeCropping :: "seqParamSet step list" where
  "DecodeCropping =
    [ReadUe any (\<lambda>v h. h\<lparr>frameCropLeftOffset := v\<rparr>),
     ReadUe any (\<lambda>v h. h\<lparr>frameCropRightOffset := v\<rparr>),
     ReadUe any (\<lambda>v h. h\<lparr>frameCropTopOffset := v\<rparr>),
     ReadUe any (\<lambda>v h. h\<lparr>frameCropBottomOffset := v\<rparr>),
     FailWhen CropInvalid]"

definition SetDpbSize :: "seqParamSet step" where
  "SetDpbSize h s =
     do {
       value \<leftarrow> GetDpbSize (picWidthInMbs h * picHeightInMbs h) (levelIdc h);
       let value = (if value = INVALID_DPB_SIZE \<or> spsNumRefFrames h > value then spsNumRefFrames h else value);
       Some (HANTRO_OK, h\<lparr>maxDpbSize := value\<rparr>, s)
     }"

text \<open>The checks of the restrictions in the VUI parameters, and the size they allow.\<close>

definition BufferingInvalid :: "seqParamSet \<Rightarrow> bool" where
  "BufferingInvalid h =
     (case vuiParametersOf h of
        None \<Rightarrow> False
      | Some v \<Rightarrow> bitstreamRestrictionFlag v \<and>
          (numReorderFrames v > maxDecFrameBuffering v \<or> maxDecFrameBuffering v < spsNumRefFrames h
           \<or> maxDecFrameBuffering v > maxDpbSize h))"

definition SetBuffering :: "seqParamSet \<Rightarrow> seqParamSet" where
  "SetBuffering h =
     (case vuiParametersOf h of
        None \<Rightarrow> h
      | Some v \<Rightarrow> if bitstreamRestrictionFlag v then h\<lparr>maxDpbSize := max 1 (maxDecFrameBuffering v)\<rparr> else h)"

definition ReadVui :: "seqParamSet step" where
  "ReadVui h s =
     do { (ret, v, s) \<leftarrow> h264bsdDecodeVuiParameters s; Some (ret, h\<lparr>vuiParametersOf := Some v\<rparr>, s) }"

definition DecodeVui :: "bool \<Rightarrow> seqParamSet step list" where
  "DecodeVui gotVui =
    [ErrorIf MEMORY_ALLOCATION_ERROR (\<lambda>h. \<not> gotVui),
     ReadVui,
     FailIf BufferingInvalid,
     Assign SetBuffering]"

text \<open>The elements in the order of the structure, in groups.\<close>

definition SeqParamIds :: "seqParamSet step list" where
  "SeqParamIds =
    [ReadBits 8 any (\<lambda>v h. h\<lparr>profileIdc := v\<rparr>),
     SkipBits 1,
     SkipBits 1,
     ReadBits 1 any (\<lambda>v h. h),
     ReadBits 5 any (\<lambda>v h. h),
     ReadBits 8 any (\<lambda>v h. h\<lparr>levelIdc := v\<rparr>),
     ReadUe any (\<lambda>v h. h\<lparr>seqParameterSetId := v\<rparr>),
     FailIf (\<lambda>h. seqParameterSetId h \<ge> MAX_NUM_SEQ_PARAM_SETS),
     ReadUe (\<lambda>v. v > 12) (\<lambda>v h. h\<lparr>maxFrameNum := push_bit (unat (v + 4)) 1\<rparr>)]"

definition SeqParamOrderCnt :: "bool \<Rightarrow> seqParamSet step list" where
  "SeqParamOrderCnt gotOffsets =
    [ReadUe (\<lambda>v. v > 2) (\<lambda>v h. h\<lparr>picOrderCntType := v\<rparr>),
     IfElse (\<lambda>h. picOrderCntType h = 0)
       [ReadUe (\<lambda>v. v > 12) (\<lambda>v h. h\<lparr>maxPicOrderCntLsb := push_bit (unat (v + 4)) 1\<rparr>)]
       [When (\<lambda>h. picOrderCntType h = 1) (DecodePocCycle gotOffsets)]]"

definition SeqParamSize :: "seqParamSet step list" where
  "SeqParamSize =
    [ReadUe any (\<lambda>v h. h\<lparr>spsNumRefFrames := v\<rparr>),
     FailIf (\<lambda>h. spsNumRefFrames h > MAX_NUM_REF_PICS),
     ReadFlag (\<lambda>b h. h\<lparr>gapsInFrameNumValueAllowedFlag := b\<rparr>),
     ReadUe any (\<lambda>v h. h\<lparr>picWidthInMbs := v + 1\<rparr>),
     ReadUe any (\<lambda>v h. h\<lparr>picHeightInMbs := v + 1\<rparr>),
     ReadBits 1 (\<lambda>v. v = 0) (\<lambda>v h. h),
     ReadBits 1 any (\<lambda>v h. h),
     ReadFlag (\<lambda>b h. h\<lparr>frameCroppingFlag := b\<rparr>),
     When frameCroppingFlag DecodeCropping]"

definition SeqParamBuffer :: "bool \<Rightarrow> seqParamSet step list" where
  "SeqParamBuffer gotVui =
    [SetDpbSize,
     ReadFlag (\<lambda>b h. h\<lparr>vuiParametersPresentFlag := b\<rparr>),
     When vuiParametersPresentFlag (DecodeVui gotVui),
     IgnoreTrailingBits]"

definition h264bsdDecodeSeqParamSet :: "bool \<Rightarrow> bool \<Rightarrow> strmData \<Rightarrow> seqParamSet result" where
  "h264bsdDecodeSeqParamSet gotOffsets gotVui s = parse_all
     (SeqParamIds @ SeqParamOrderCnt gotOffsets @ SeqParamSize @ SeqParamBuffer gotVui) zeroSps s"

section \<open>Comparison\<close>

fun OffsetsDiffer :: "int list \<Rightarrow> int list \<Rightarrow> nat \<Rightarrow> nat \<Rightarrow> bool option" where
  "OffsetsDiffer xs ys i 0 = Some False"
| "OffsetsDiffer xs ys i (Suc n) =
     do { x \<leftarrow> rd xs i; y \<leftarrow> rd ys i; if x \<noteq> y then Some True else OffsetsDiffer xs ys (Suc i) n }"

text \<open>The result is 0 for equal parameter sets and 1 otherwise.\<close>

definition h264bsdCompareSeqParamSets :: "seqParamSet \<Rightarrow> seqParamSet \<Rightarrow> u32 option" where
  "h264bsdCompareSeqParamSets a b =
     (if profileIdc a = profileIdc b \<and> levelIdc a = levelIdc b \<and> maxFrameNum a = maxFrameNum b
         \<and> picOrderCntType a = picOrderCntType b \<and> spsNumRefFrames a = spsNumRefFrames b
         \<and> gapsInFrameNumValueAllowedFlag a = gapsInFrameNumValueAllowedFlag b
         \<and> picWidthInMbs a = picWidthInMbs b \<and> picHeightInMbs a = picHeightInMbs b
         \<and> frameCroppingFlag a = frameCroppingFlag b \<and> vuiParametersPresentFlag a = vuiParametersPresentFlag b
      then do {
        differ \<leftarrow>
          (if picOrderCntType a = 0 then Some (maxPicOrderCntLsb a \<noteq> maxPicOrderCntLsb b)
           else if picOrderCntType a = 1
           then if deltaPicOrderAlwaysZeroFlag a \<noteq> deltaPicOrderAlwaysZeroFlag b
                   \<or> offsetForNonRefPic a \<noteq> offsetForNonRefPic b
                   \<or> offsetForTopToBottomField a \<noteq> offsetForTopToBottomField b
                   \<or> numRefFramesInPicOrderCntCycle a \<noteq> numRefFramesInPicOrderCntCycle b
                then Some True
                else OffsetsDiffer (offsetForRefFrame a) (offsetForRefFrame b) 0
                       (unat (numRefFramesInPicOrderCntCycle a))
           else Some False);
        Some (if differ then 1
              else if frameCroppingFlag a \<and>
                (frameCropLeftOffset a \<noteq> frameCropLeftOffset b \<or> frameCropRightOffset a \<noteq> frameCropRightOffset b
                 \<or> frameCropTopOffset a \<noteq> frameCropTopOffset b
                 \<or> frameCropBottomOffset a \<noteq> frameCropBottomOffset b)
              then 1 else 0)
      }
      else Some 1)"

end
