(* ===== verification/H264PicParamSet.thy ===== *)
theory H264PicParamSet
  imports H264SeqParamSet
begin

text \<open>
  Picture parameter sets (\<open>h264bsd_pic_param_set.c\<close>) and the checks of their slice group
  parameters at activation (\<open>CheckPps\<close> of \<open>h264bsd_storage.c\<close>). The allocations succeed or
  fail as the arguments say. The size of an allocation is a 32 bit number of bytes, so the
  array of slice group identifiers has \<open>picSizeInMapUnits * 4 mod 2 ^ 32\<close> bytes; a store past
  its end is undefined.
\<close>

definition MAX_NUM_PIC_PARAM_SETS :: u32 where "MAX_NUM_PIC_PARAM_SETS = 256"
definition MAX_NUM_SLICE_GROUPS :: u32 where "MAX_NUM_SLICE_GROUPS = 8"

definition CeilLog2NumSliceGroups :: "u32 list" where
  "CeilLog2NumSliceGroups = [1, 1, 2, 2, 3, 3, 3, 3]"

record picParamSet =
  picParameterSetId :: u32
  ppsSeqParameterSetId :: u32
  picOrderPresentFlag :: bool
  numSliceGroups :: u32
  sliceGroupMapType :: u32
  runLength :: "u32 list"
  topLeft :: "u32 list"
  bottomRight :: "u32 list"
  sliceGroupChangeDirectionFlag :: bool
  sliceGroupChangeRate :: u32
  picSizeInMapUnits :: u32
  sliceGroupId :: "u32 list"
  ppsNumRefIdxL0Active :: u32
  picInitQp :: u32
  chromaQpIndexOffset :: int
  deblockingFilterControlPresentFlag :: bool
  constrainedIntraPredFlag :: bool
  redundantPicCntPresentFlag :: bool

definition zeroPps :: picParamSet where
  "zeroPps = \<lparr>picParameterSetId = 0, ppsSeqParameterSetId = 0, picOrderPresentFlag = False, numSliceGroups = 0,
     sliceGroupMapType = 0, runLength = [], topLeft = [], bottomRight = [], sliceGroupChangeDirectionFlag = False,
     sliceGroupChangeRate = 0, picSizeInMapUnits = 0, sliceGroupId = [], ppsNumRefIdxL0Active = 0, picInitQp = 0,
     chromaQpIndexOffset = 0, deblockingFilterControlPresentFlag = False, constrainedIntraPredFlag = False,
     redundantPicCntPresentFlag = False\<rparr>"

section \<open>Slice groups\<close>

text \<open>The identifier is stored before it is compared with the number of groups.\<close>

definition StoreSliceGroupId :: "nat \<Rightarrow> picParamSet step" where
  "StoreSliceGroupId i h s =
     do {
       bits \<leftarrow> rd CeilLog2NumSliceGroups (unat (numSliceGroups h - 1));
       (v, s) \<leftarrow> h264bsdGetBits s bits;
       if unat (picSizeInMapUnits h * 4) div 4 \<le> i then None
       else Some (if v \<ge> numSliceGroups h then HANTRO_NOK else HANTRO_OK,
                  h\<lparr>sliceGroupId := sliceGroupId h @ [v]\<rparr>, s)
     }"

definition DecodeGroupParameters :: "bool \<Rightarrow> picParamSet step" where
  "DecodeGroupParameters got =
     IfElse (\<lambda>h. sliceGroupMapType h = 0)
       [ErrorIf MEMORY_ALLOCATION_ERROR (\<lambda>h. \<not> got),
        For (\<lambda>h. unat (numSliceGroups h)) (\<lambda>i. ReadUe any (\<lambda>v h. h\<lparr>runLength := runLength h @ [v + 1]\<rparr>))]
       [IfElse (\<lambda>h. sliceGroupMapType h = 2)
          [ErrorIf MEMORY_ALLOCATION_ERROR (\<lambda>h. \<not> got),
           For (\<lambda>h. unat (numSliceGroups h - 1))
             (\<lambda>i. parse_all [ReadUe any (\<lambda>v h. h\<lparr>topLeft := topLeft h @ [v]\<rparr>),
                             ReadUe any (\<lambda>v h. h\<lparr>bottomRight := bottomRight h @ [v]\<rparr>)])]
          [IfElse (\<lambda>h. sliceGroupMapType h = 3 \<or> sliceGroupMapType h = 4 \<or> sliceGroupMapType h = 5)
             [ReadFlag (\<lambda>b h. h\<lparr>sliceGroupChangeDirectionFlag := b\<rparr>),
              ReadUe any (\<lambda>v h. h\<lparr>sliceGroupChangeRate := v + 1\<rparr>)]
             [When (\<lambda>h. sliceGroupMapType h = 6)
                [ReadUe any (\<lambda>v h. h\<lparr>picSizeInMapUnits := v + 1\<rparr>),
                 ErrorIf MEMORY_ALLOCATION_ERROR (\<lambda>h. \<not> got),
                 For (\<lambda>h. unat (picSizeInMapUnits h)) StoreSliceGroupId]]]]"

definition DecodeSliceGroups :: "bool \<Rightarrow> picParamSet step list" where
  "DecodeSliceGroups got =
    [ReadUe any (\<lambda>v h. h\<lparr>sliceGroupMapType := v\<rparr>),
     FailIf (\<lambda>h. sliceGroupMapType h > 6),
     DecodeGroupParameters got]"

section \<open>The parser\<close>

text \<open>The elements in the order of the structure, in groups.\<close>

definition PicParamStart :: "picParamSet step list" where
  "PicParamStart =
    [ReadUe any (\<lambda>v h. h\<lparr>picParameterSetId := v\<rparr>),
     FailIf (\<lambda>h. picParameterSetId h \<ge> MAX_NUM_PIC_PARAM_SETS),
     ReadUe any (\<lambda>v h. h\<lparr>ppsSeqParameterSetId := v\<rparr>),
     FailIf (\<lambda>h. ppsSeqParameterSetId h \<ge> MAX_NUM_SEQ_PARAM_SETS),
     ReadBits 1 (\<lambda>v. v \<noteq> 0) (\<lambda>v h. h),
     ReadFlag (\<lambda>b h. h\<lparr>picOrderPresentFlag := b\<rparr>),
     ReadUe any (\<lambda>v h. h\<lparr>numSliceGroups := v + 1\<rparr>),
     FailIf (\<lambda>h. numSliceGroups h > MAX_NUM_SLICE_GROUPS)]"

definition PicParamEnd :: "picParamSet step list" where
  "PicParamEnd =
    [ReadUe (\<lambda>v. v > 31) (\<lambda>v h. h\<lparr>ppsNumRefIdxL0Active := v + 1\<rparr>),
     ReadUe (\<lambda>v. v > 31) (\<lambda>v h. h),
     ReadBits 1 (\<lambda>v. v \<noteq> 0) (\<lambda>v h. h),
     ReadBits 2 (\<lambda>v. v > 2) (\<lambda>v h. h),
     ReadSe (\<lambda>v. v < - 26 \<or> v > 25) (\<lambda>v h. h\<lparr>picInitQp := word_of_int (v + 26)\<rparr>),
     ReadSe (\<lambda>v. v < - 26 \<or> v > 25) (\<lambda>v h. h),
     ReadSe (\<lambda>v. v < - 12 \<or> v > 12) (\<lambda>v h. h\<lparr>chromaQpIndexOffset := v\<rparr>),
     ReadFlag (\<lambda>b h. h\<lparr>deblockingFilterControlPresentFlag := b\<rparr>),
     ReadFlag (\<lambda>b h. h\<lparr>constrainedIntraPredFlag := b\<rparr>),
     ReadFlag (\<lambda>b h. h\<lparr>redundantPicCntPresentFlag := b\<rparr>),
     IgnoreTrailingBits]"

definition h264bsdDecodePicParamSet :: "bool \<Rightarrow> strmData \<Rightarrow> picParamSet result" where
  "h264bsdDecodePicParamSet got s = parse_all
     (PicParamStart @ [When (\<lambda>h. numSliceGroups h > 1) (DecodeSliceGroups got)] @ PicParamEnd) zeroPps s"

section \<open>The checks at activation\<close>

fun CheckRunLengths :: "u32 list \<Rightarrow> u32 \<Rightarrow> nat \<Rightarrow> nat \<Rightarrow> u32 option" where
  "CheckRunLengths rl picSize i 0 = Some HANTRO_OK"
| "CheckRunLengths rl picSize i (Suc n) =
     do { r \<leftarrow> rd rl i; if r > picSize then Some HANTRO_NOK else CheckRunLengths rl picSize (Suc i) n }"

fun CheckRectangles :: "u32 list \<Rightarrow> u32 list \<Rightarrow> u32 \<Rightarrow> u32 \<Rightarrow> nat \<Rightarrow> nat \<Rightarrow> u32 option" where
  "CheckRectangles tls brs picSize width i 0 = Some HANTRO_OK"
| "CheckRectangles tls brs picSize width i (Suc n) =
     do {
       a \<leftarrow> rd tls i;
       b \<leftarrow> rd brs i;
       if a > b \<or> b \<ge> picSize then Some HANTRO_NOK
       else if width = 0 then None
       else if a mod width > b mod width then Some HANTRO_NOK
       else CheckRectangles tls brs picSize width (Suc i) n
     }"

definition CheckPps :: "picParamSet \<Rightarrow> seqParamSet \<Rightarrow> u32 option" where
  "CheckPps pps sps =
     (let picSize = picWidthInMbs sps * picHeightInMbs sps
      in if numSliceGroups pps > 1
         then
           if sliceGroupMapType pps = 0
           then CheckRunLengths (runLength pps) picSize 0 (unat (numSliceGroups pps))
           else if sliceGroupMapType pps = 2
           then CheckRectangles (topLeft pps) (bottomRight pps) picSize (picWidthInMbs sps) 0
                  (unat (numSliceGroups pps - 1))
           else if sliceGroupMapType pps > 2 \<and> sliceGroupMapType pps < 6
           then Some (if sliceGroupChangeRate pps > picSize then HANTRO_NOK else HANTRO_OK)
           else if sliceGroupMapType pps = 6 \<and> picSizeInMapUnits pps < picSize then Some HANTRO_NOK
           else Some HANTRO_OK
         else Some HANTRO_OK)"

end
