(* ===== verification/H264SliceHeader.thy ===== *)
theory H264SliceHeader
  imports H264PicParamSet H264Dpb
begin

text \<open>
  Slice headers (\<open>h264bsd_slice_header.c\<close>): the parser that fills the structure, and the
  functions that peek at one element of a header through a copy of the stream. The structure is
  all zero at first; its two arrays of commands are lists of their fixed lengths, and a store
  past the end of one is undefined.
\<close>

section \<open>State\<close>

record sliceHeader = pocSlice +
  firstMbInSlice :: u32
  sliceType :: u32
  slicePpsId :: u32
  idrPicId :: u32
  redundantPicCnt :: u32
  numRefIdxActiveOverrideFlag :: bool
  numRefIdxL0Active :: u32
  sliceQpDelta :: int
  disableDeblockingFilterIdc :: u32
  sliceAlphaC0Offset :: int
  sliceBetaOffset :: int
  sliceGroupChangeCycle :: u32
  refPicListReorderingOf :: refPicListReordering

abbreviation MAX_NUM_MMC_OPERATIONS :: nat where
  "MAX_NUM_MMC_OPERATIONS \<equiv> 2 * 16 + 2 + 1"

abbreviation MAX_NUM_REORDERING_COMMANDS :: nat where
  "MAX_NUM_REORDERING_COMMANDS \<equiv> 16 + 1"

definition zeroMarking :: decRefPicMarking where
  "zeroMarking = \<lparr>noOutputOfPriorPicsFlag = False, longTermReferenceFlag = False,
     adaptiveRefPicMarkingModeFlag = False,
     operation = replicate MAX_NUM_MMC_OPERATIONS
       \<lparr>memoryManagementControlOperation = 0, differenceOfPicNums = 0, longTermPicNum = 0,
        longTermFrameIdx = 0, maxLongTermFrameIdx = 0\<rparr>\<rparr>"

definition zeroReordering :: refPicListReordering where
  "zeroReordering = \<lparr>refPicListReorderingFlagL0 = False,
     command = replicate MAX_NUM_REORDERING_COMMANDS
       \<lparr>reorderingOfPicNumsIdc = 0, absDiffPicNum = 0, reorderLongTermPicNum = 0\<rparr>\<rparr>"

definition zeroSlice :: sliceHeader where
  "zeroSlice = \<lparr>frameNum = 0, picOrderCntLsb = 0, deltaPicOrderCntBottom = 0, deltaPicOrderCnt = (0, 0),
     decRefPicMarkingOf = zeroMarking, firstMbInSlice = 0, sliceType = 0, slicePpsId = 0, idrPicId = 0,
     redundantPicCnt = 0, numRefIdxActiveOverrideFlag = False, numRefIdxL0Active = 0, sliceQpDelta = 0,
     disableDeblockingFilterIdc = 0, sliceAlphaC0Offset = 0, sliceBetaOffset = 0, sliceGroupChangeCycle = 0,
     refPicListReorderingOf = zeroReordering\<rparr>"

definition IS_P_SLICE :: "u32 \<Rightarrow> bool" where
  "IS_P_SLICE t \<longleftrightarrow> t = 0 \<or> t = 5"

definition IS_I_SLICE :: "u32 \<Rightarrow> bool" where
  "IS_I_SLICE t \<longleftrightarrow> t = 2 \<or> t = 7"

section \<open>Commands stored in an array\<close>

text \<open>An unsigned code whose store may be past the end of the array.\<close>

definition ReadUeInto :: "(u32 \<Rightarrow> bool) \<Rightarrow> (u32 \<Rightarrow> 'h \<Rightarrow> 'h option) \<Rightarrow> 'h step" where
  "ReadUeInto bad put h s =
     do {
       (ret, v, s) \<leftarrow> h264bsdDecodeExpGolombUnsigned s 0;
       if ret \<noteq> HANTRO_OK then Some (ret, h, s)
       else if bad v then Some (HANTRO_NOK, h, s)
       else do { h \<leftarrow> put v h; Some (HANTRO_OK, h, s) }
     }"

definition StoreCommand ::
  "nat \<Rightarrow> (refPicListReorderingOperation \<Rightarrow> refPicListReorderingOperation)
    \<Rightarrow> refPicListReordering \<Rightarrow> refPicListReordering option" where
  "StoreCommand i f r =
     do { c \<leftarrow> rd (command r) i; cs \<leftarrow> wr (command r) i (f c); Some (r\<lparr>command := cs\<rparr>) }"

definition StoreOperation ::
  "nat \<Rightarrow> (memoryManagementOperation \<Rightarrow> memoryManagementOperation)
    \<Rightarrow> decRefPicMarking \<Rightarrow> decRefPicMarking option" where
  "StoreOperation i f m =
     do { c \<leftarrow> rd (operation m) i; cs \<leftarrow> wr (operation m) i (f c); Some (m\<lparr>operation := cs\<rparr>) }"

definition command_at :: "nat \<Rightarrow> refPicListReordering \<Rightarrow> u32" where
  "command_at i r = reorderingOfPicNumsIdc (command r ! i)"

definition operation_at :: "nat \<Rightarrow> decRefPicMarking \<Rightarrow> u32" where
  "operation_at i m = memoryManagementControlOperation (operation m ! i)"

section \<open>Reordering of the reference picture list\<close>

definition CommandArgument :: "u32 \<Rightarrow> nat \<Rightarrow> refPicListReordering step list" where
  "CommandArgument maxPicNum i =
    [IfElse (\<lambda>r. command_at i r = 0 \<or> command_at i r = 1)
       [ReadUeInto (\<lambda>v. v \<ge> maxPicNum) (\<lambda>v. StoreCommand i (\<lambda>c. c\<lparr>absDiffPicNum := v + 1\<rparr>))]
       [When (\<lambda>r. command_at i r = 2)
          [ReadUeInto any (\<lambda>v. StoreCommand i (\<lambda>c. c\<lparr>reorderLongTermPicNum := v\<rparr>))]]]"

definition ReadCommand :: "u32 \<Rightarrow> nat \<Rightarrow> refPicListReordering step" where
  "ReadCommand maxPicNum i = parse_all
    (ReadUeInto (\<lambda>v. v > 3) (\<lambda>v. StoreCommand i (\<lambda>c. c\<lparr>reorderingOfPicNumsIdc := v\<rparr>))
      # CommandArgument maxPicNum i)"

lemma ReadUeInto_OK [parsed]:
  "ReadUeInto bad put h s = Some (HANTRO_OK, h', s')
    \<longleftrightarrow> (\<exists>v. h264bsdDecodeExpGolombUnsigned s 0 = Some (HANTRO_OK, v, s') \<and> \<not> bad v \<and> put v h = Some h')"
  by (auto simp: ReadUeInto_def split: bind_splits if_splits)

lemma StoreCommand_length:
  "StoreCommand i f r = Some r' \<Longrightarrow> i < length (command r) \<and> length (command r') = length (command r)"
  by (auto simp: StoreCommand_def split: bind_splits)

lemma StoreOperation_length:
  "StoreOperation i f m = Some m' \<Longrightarrow> i < length (operation m) \<and> length (operation m') = length (operation m)"
  by (auto simp: StoreOperation_def split: bind_splits)

lemma keeps_into: "(\<And>v h h'. put v h = Some h' \<Longrightarrow> f h' = f h) \<Longrightarrow> keeps f (ReadUeInto bad put)"
  by (auto simp: keeps_def ReadUeInto_def split: bind_splits if_splits)

lemma CommandArgument_keeps: "keeps (\<lambda>h. length (command h)) (parse_all (CommandArgument maxPicNum i))"
  unfolding CommandArgument_def
  by (intro keeping, auto intro!: keeping keeps_into simp: StoreCommand_length [THEN conjunct2])

lemma ReadCommand_length:
  assumes "ReadCommand maxPicNum i h s = Some (HANTRO_OK, h', s')"
  shows "i < length (command h) \<and> length (command h') = length (command h)"
  using assms keepsD [OF CommandArgument_keeps]
  by (fastforce simp: ReadCommand_def parse_all_Cons ReadUeInto_OK dest: StoreCommand_length)

function CommandLoop :: "u32 \<Rightarrow> u32 \<Rightarrow> nat \<Rightarrow> refPicListReordering step" where
  "CommandLoop numRefIdxActive maxPicNum i r s =
     (if i > unat numRefIdxActive then Some (HANTRO_NOK, r, s)
      else do {
        (ret, r, s) \<leftarrow> ReadCommand maxPicNum i r s;
        if ret \<noteq> HANTRO_OK then Some (ret, r, s)
        else if command_at i r \<noteq> 3 then CommandLoop numRefIdxActive maxPicNum (Suc i) r s
        else Some (if Suc i = 1 then HANTRO_NOK else HANTRO_OK, r, s)
      })"
  by pat_completeness auto
termination
  by (relation "measure (\<lambda>(n, m, i, r, s). length (command r) - i)") (auto dest!: ReadCommand_length)

declare CommandLoop.simps [simp del]

definition RefPicListReordering :: "u32 \<Rightarrow> u32 \<Rightarrow> refPicListReordering step" where
  "RefPicListReordering numRefIdxActive maxPicNum = parse_all
    [ReadFlag (\<lambda>b r. r\<lparr>refPicListReorderingFlagL0 := b\<rparr>),
     When refPicListReorderingFlagL0 [CommandLoop numRefIdxActive maxPicNum 0]]"

section \<open>Marking of reference pictures\<close>

definition OperationArguments :: "u32 \<Rightarrow> nat \<Rightarrow> decRefPicMarking step list" where
  "OperationArguments numRef i =
    [When (\<lambda>m. operation_at i m = 1 \<or> operation_at i m = 3)
       [ReadUeInto any (\<lambda>v. StoreOperation i (\<lambda>c. c\<lparr>differenceOfPicNums := v + 1\<rparr>))],
     When (\<lambda>m. operation_at i m = 2)
       [ReadUeInto any (\<lambda>v. StoreOperation i (\<lambda>c. c\<lparr>longTermPicNum := v\<rparr>))],
     When (\<lambda>m. operation_at i m = 3 \<or> operation_at i m = 6)
       [ReadUeInto any (\<lambda>v. StoreOperation i (\<lambda>c. c\<lparr>longTermFrameIdx := v\<rparr>))],
     When (\<lambda>m. operation_at i m = 4)
       [ReadUeInto (\<lambda>v. v > numRef) (\<lambda>v. StoreOperation i (\<lambda>c. c\<lparr>maxLongTermFrameIdx :=
          (if v = 0 then NO_LONG_TERM_FRAME_INDICES else v - 1)\<rparr>))]]"

definition ReadOperation :: "u32 \<Rightarrow> nat \<Rightarrow> decRefPicMarking step" where
  "ReadOperation numRef i = parse_all
    (ReadUeInto (\<lambda>v. v > 6) (\<lambda>v. StoreOperation i (\<lambda>c. c\<lparr>memoryManagementControlOperation := v\<rparr>))
      # OperationArguments numRef i)"

lemma OperationArguments_keeps: "keeps (\<lambda>h. length (operation h)) (parse_all (OperationArguments numRef i))"
  unfolding OperationArguments_def
  by (intro keeping, auto intro!: keeping keeps_into simp: StoreOperation_length [THEN conjunct2])

lemma ReadOperation_length:
  assumes "ReadOperation numRef i h s = Some (HANTRO_OK, h', s')"
  shows "i < length (operation h) \<and> length (operation h') = length (operation h)"
  using assms keepsD [OF OperationArguments_keeps]
  by (fastforce simp: ReadOperation_def parse_all_Cons ReadUeInto_OK dest: StoreOperation_length)

text \<open>The loop counts the operations 4, 5, 6 and 1 to 3.\<close>

function OperationLoop ::
  "u32 \<Rightarrow> nat \<Rightarrow> u32 \<Rightarrow> u32 \<Rightarrow> u32 \<Rightarrow> u32 \<Rightarrow> decRefPicMarking step" where
  "OperationLoop numRef i num4 num5 num6 num1to3 m s =
     (if i > unat (2 * numRef + 2) then Some (HANTRO_NOK, m, s)
      else do {
        (ret, m, s) \<leftarrow> ReadOperation numRef i m s;
        if ret \<noteq> HANTRO_OK then Some (ret, m, s)
        else let op = operation_at i m;
                 num4 = (if op = 4 then num4 + 1 else num4);
                 num5 = (if op = 5 then num5 + 1 else num5);
                 num1to3 = (if op \<noteq> 0 \<and> op \<le> 3 then num1to3 + 1 else num1to3);
                 num6 = (if op = 6 then num6 + 1 else num6)
             in if op \<noteq> 0 then OperationLoop numRef (Suc i) num4 num5 num6 num1to3 m s
                else Some (if num4 > 1 \<or> num5 > 1 \<or> num6 > 1 \<or> (num1to3 \<noteq> 0 \<and> num5 \<noteq> 0)
                           then HANTRO_NOK else HANTRO_OK, m, s)
      })"
  by pat_completeness auto
termination
  by (relation "measure (\<lambda>(n, i, a, b, c, d, m, s). length (operation m) - i)") (auto dest!: ReadOperation_length)

declare OperationLoop.simps [simp del]

definition DecRefPicMarking :: "u32 \<Rightarrow> u32 \<Rightarrow> decRefPicMarking step" where
  "DecRefPicMarking unitType numRef =
     (if unitType = NAL_CODED_SLICE_IDR
      then parse_all
        [ReadFlag (\<lambda>b m. m\<lparr>noOutputOfPriorPicsFlag := b\<rparr>),
         ReadFlag (\<lambda>b m. m\<lparr>longTermReferenceFlag := b\<rparr>),
         FailIf (\<lambda>m. numRef = 0 \<and> longTermReferenceFlag m)]
      else parse_all
        [ReadFlag (\<lambda>b m. m\<lparr>adaptiveRefPicMarkingModeFlag := b\<rparr>),
         When adaptiveRefPicMarkingModeFlag [OperationLoop numRef 0 0 0 0 0]])"

section \<open>Slice groups that change\<close>

text \<open>\<open>while (tmp & (mask << ++numBits));\<close>: a shift by 32 is undefined.\<close>

function HighBitLoop :: "u32 \<Rightarrow> u32 \<Rightarrow> u32 option" where
  "HighBitLoop tmp numBits =
     do {
       m \<leftarrow> shl32 0xFFFFFFFF (int (unat (numBits + 1)));
       if tmp AND m \<noteq> 0 then HighBitLoop tmp (numBits + 1) else Some (numBits + 1)
     }"
  by pat_completeness auto
termination
proof (relation "measure (\<lambda>(tmp, n). 32 - unat (n + 1))")
  fix tmp n m :: u32
  assume "shl32 0xFFFFFFFF (int (unat (n + 1))) = Some m"
  then have lt: "unat (n + 1) < 32" by (auto simp: shl32_def simp del: of_nat_unat split: if_splits)
  have "unat (k + 1) = unat k + 1" if "unat k < 32" for k :: u32
    using that unat_add_lem [of k 1] by simp
  from this [OF lt] lt show "((tmp, n + 1), tmp, n) \<in> measure (\<lambda>(tmp, n). 32 - unat (n + 1))" by simp
qed simp

declare HighBitLoop.simps [simp del]

definition NumSliceGroupChangeCycleBits :: "u32 \<Rightarrow> u32 \<Rightarrow> u32 option" where
  "NumSliceGroupChangeCycleBits picSizeInMbs rate =
     (if rate = 0 then None
      else do {
        let tmp = (if picSizeInMbs mod rate \<noteq> 0 then 2 else 1) + picSizeInMbs div rate;
        numBits \<leftarrow> HighBitLoop tmp 0;
        let numBits = numBits - 1;
        Some (if tmp AND (push_bit (unat numBits) 1 - 1) \<noteq> 0 then numBits + 1 else numBits)
      })"

definition ReadChangeCycle :: "u32 \<Rightarrow> u32 \<Rightarrow> sliceHeader step" where
  "ReadChangeCycle picSizeInMbs rate h s =
     do {
       n \<leftarrow> NumSliceGroupChangeCycleBits picSizeInMbs rate;
       (v, s) \<leftarrow> h264bsdGetBits s n;
       if v = END_OF_STREAM then Some (HANTRO_NOK, h, s)
       else if rate = 0 then None
       else Some (if v > (picSizeInMbs + rate - 1) div rate then HANTRO_NOK else HANTRO_OK,
                  h\<lparr>sliceGroupChangeCycle := v\<rparr>, s)
     }"

section \<open>The parser\<close>

text \<open>The checks that the picture order count of an IDR picture is 0, and of the quantiser
  parameter, are signed additions that may overflow.\<close>

definition IdrLsbInvalid :: "seqParamSet \<Rightarrow> sliceHeader \<Rightarrow> bool option" where
  "IdrLsbInvalid sps h =
     (if picOrderCntLsb h > maxPicOrderCntLsb sps div 2 then Some True
      else do {
        bottom \<leftarrow> chk (sint (picOrderCntLsb h) + deltaPicOrderCntBottom h);
        Some (min (sint (picOrderCntLsb h)) bottom \<noteq> 0)
      })"

definition IdrDeltaInvalid :: "seqParamSet \<Rightarrow> sliceHeader \<Rightarrow> bool option" where
  "IdrDeltaInvalid sps h =
     do {
       bottom \<leftarrow> chk (fst (deltaPicOrderCnt h) + offsetForTopToBottomField sps);
       bottom \<leftarrow> chk (bottom + snd (deltaPicOrderCnt h));
       Some (min (fst (deltaPicOrderCnt h)) bottom \<noteq> 0)
     }"

definition QpInvalid :: "picParamSet \<Rightarrow> sliceHeader \<Rightarrow> bool option" where
  "QpInvalid pps h = do { qp \<leftarrow> chk (sliceQpDelta h + sint (picInitQp pps)); Some (qp < 0 \<or> qp > 51) }"

text \<open>The elements in the order of the header, in groups.\<close>

definition SliceIds :: "seqParamSet \<Rightarrow> picParamSet \<Rightarrow> nalUnit \<Rightarrow> sliceHeader step list" where
  "SliceIds sps pps nal =
    [ReadUe any (\<lambda>v h. h\<lparr>firstMbInSlice := v\<rparr>),
     FailIf (\<lambda>h. firstMbInSlice h \<ge> picWidthInMbs sps * picHeightInMbs sps),
     ReadUe any (\<lambda>v h. h\<lparr>sliceType := v\<rparr>),
     FailIf (\<lambda>h. \<not> IS_I_SLICE (sliceType h)
       \<and> (\<not> IS_P_SLICE (sliceType h) \<or> IS_IDR_NAL_UNIT nal \<or> spsNumRefFrames sps = 0)),
     ReadUe any (\<lambda>v h. h\<lparr>slicePpsId := v\<rparr>),
     FailIf (\<lambda>h. slicePpsId h \<noteq> picParameterSetId pps)]"

definition SliceFrameNum :: "seqParamSet \<Rightarrow> nalUnit \<Rightarrow> sliceHeader step list" where
  "SliceFrameNum sps nal =
    [ReadBitsOf (maxFrameNum sps) (\<lambda>v. IS_IDR_NAL_UNIT nal \<and> v \<noteq> 0) (\<lambda>v h. h\<lparr>frameNum := v\<rparr>),
     When (\<lambda>h. IS_IDR_NAL_UNIT nal)
       [ReadUe any (\<lambda>v h. h\<lparr>idrPicId := v\<rparr>), FailIf (\<lambda>h. idrPicId h > 65535)]]"

definition SliceOrderCnt :: "seqParamSet \<Rightarrow> picParamSet \<Rightarrow> nalUnit \<Rightarrow> sliceHeader step list" where
  "SliceOrderCnt sps pps nal =
    [When (\<lambda>h. picOrderCntType sps = 0)
       [ReadBitsOf (maxPicOrderCntLsb sps) any (\<lambda>v h. h\<lparr>picOrderCntLsb := v\<rparr>),
        When (\<lambda>h. picOrderPresentFlag pps) [ReadSe any (\<lambda>v h. h\<lparr>deltaPicOrderCntBottom := v\<rparr>)],
        When (\<lambda>h. IS_IDR_NAL_UNIT nal) [FailWhen (IdrLsbInvalid sps)]],
     When (\<lambda>h. picOrderCntType sps = 1 \<and> \<not> deltaPicOrderAlwaysZeroFlag sps)
       [ReadSe any (\<lambda>v h. h\<lparr>deltaPicOrderCnt := (v, snd (deltaPicOrderCnt h))\<rparr>),
        When (\<lambda>h. picOrderPresentFlag pps)
          [ReadSe any (\<lambda>v h. h\<lparr>deltaPicOrderCnt := (fst (deltaPicOrderCnt h), v)\<rparr>)],
        When (\<lambda>h. IS_IDR_NAL_UNIT nal) [FailWhen (IdrDeltaInvalid sps)]]]"

definition SliceRedundant :: "picParamSet \<Rightarrow> sliceHeader step list" where
  "SliceRedundant pps =
    [When (\<lambda>h. redundantPicCntPresentFlag pps)
       [ReadUe any (\<lambda>v h. h\<lparr>redundantPicCnt := v\<rparr>), FailIf (\<lambda>h. redundantPicCnt h > 127)]]"

definition ReadReordering :: "seqParamSet \<Rightarrow> sliceHeader step" where
  "ReadReordering sps h =
     Part refPicListReorderingOf (\<lambda>x h. h\<lparr>refPicListReorderingOf := x\<rparr>)
       (RefPicListReordering (numRefIdxL0Active h) (maxFrameNum sps)) h"

definition SliceReferences :: "seqParamSet \<Rightarrow> picParamSet \<Rightarrow> sliceHeader step list" where
  "SliceReferences sps pps =
    [When (\<lambda>h. IS_P_SLICE (sliceType h))
       [ReadFlag (\<lambda>b h. h\<lparr>numRefIdxActiveOverrideFlag := b\<rparr>),
        IfElse numRefIdxActiveOverrideFlag
          [ReadUe (\<lambda>v. v > 15) (\<lambda>v h. h\<lparr>numRefIdxL0Active := v + 1\<rparr>)]
          [FailIf (\<lambda>h. ppsNumRefIdxL0Active pps > 16),
           Assign (\<lambda>h. h\<lparr>numRefIdxL0Active := ppsNumRefIdxL0Active pps\<rparr>)]],
     When (\<lambda>h. IS_P_SLICE (sliceType h)) [ReadReordering sps]]"

definition SliceMarking :: "seqParamSet \<Rightarrow> nalUnit \<Rightarrow> sliceHeader step list" where
  "SliceMarking sps nal =
    [When (\<lambda>h. nalRefIdc nal \<noteq> 0)
       [Part decRefPicMarkingOf (\<lambda>x h. h\<lparr>decRefPicMarkingOf := x\<rparr>)
          (DecRefPicMarking (nalUnitType nal) (spsNumRefFrames sps))]]"

definition SliceFilter :: "seqParamSet \<Rightarrow> picParamSet \<Rightarrow> sliceHeader step list" where
  "SliceFilter sps pps =
    [ReadSe any (\<lambda>v h. h\<lparr>sliceQpDelta := v\<rparr>),
     FailWhen (QpInvalid pps),
     When (\<lambda>h. deblockingFilterControlPresentFlag pps)
       [ReadUe any (\<lambda>v h. h\<lparr>disableDeblockingFilterIdc := v\<rparr>),
        FailIf (\<lambda>h. disableDeblockingFilterIdc h > 2),
        When (\<lambda>h. disableDeblockingFilterIdc h \<noteq> 1)
          [ReadSe (\<lambda>v. v < - 6 \<or> v > 6) (\<lambda>v h. h\<lparr>sliceAlphaC0Offset := v * 2\<rparr>),
           ReadSe (\<lambda>v. v < - 6 \<or> v > 6) (\<lambda>v h. h\<lparr>sliceBetaOffset := v * 2\<rparr>)]],
     When (\<lambda>h. numSliceGroups pps > 1 \<and> sliceGroupMapType pps \<ge> 3 \<and> sliceGroupMapType pps \<le> 5)
       [ReadChangeCycle (picWidthInMbs sps * picHeightInMbs sps) (sliceGroupChangeRate pps)]]"

definition h264bsdDecodeSliceHeader ::
  "seqParamSet \<Rightarrow> picParamSet \<Rightarrow> nalUnit \<Rightarrow> strmData \<Rightarrow> sliceHeader result" where
  "h264bsdDecodeSliceHeader sps pps nal s = parse_all
     (SliceIds sps pps nal @ SliceFrameNum sps nal @ SliceOrderCnt sps pps nal @ SliceRedundant pps
       @ SliceReferences sps pps @ SliceMarking sps nal @ SliceFilter sps pps)
     zeroSlice s"

section \<open>Peeking\<close>

text \<open>The functions below read a copy of the stream, so that only the status and the output
  variable remain. An element that is skipped is decoded and dropped.\<close>

definition Peek :: "'h step list \<Rightarrow> 'h \<Rightarrow> strmData \<Rightarrow> (u32 \<times> 'h) option" where
  "Peek ps out s = do { (ret, out, _) \<leftarrow> parse_all ps out s; Some (ret, out) }"

definition SkipUe :: "'h step" where "SkipUe = ReadUe any (\<lambda>v out. out)"
definition SkipSe :: "'h step" where "SkipSe = ReadSe any (\<lambda>v out. out)"
definition SkipBitsOf :: "u32 \<Rightarrow> 'h step" where "SkipBitsOf m = ReadBitsOf m any (\<lambda>v out. out)"

text \<open>The output variable is passed to the decoder of the code, which may write it on failure too.\<close>

definition UeOut :: "u32 step" where "UeOut out s = h264bsdDecodeExpGolombUnsigned s out"
definition SeOut :: "int step" where "SeOut out s = h264bsdDecodeExpGolombSigned s out"

text \<open>The first macroblock, the slice type and the parameter set come first in every header.\<close>

definition SkipIds :: "'h step list" where
  "SkipIds = [SkipUe, SkipUe, SkipUe]"

definition SkipToOrderCnt :: "seqParamSet \<Rightarrow> u32 \<Rightarrow> 'h step list" where
  "SkipToOrderCnt sps unitType =
     SkipIds @ [SkipBitsOf (maxFrameNum sps), When (\<lambda>_. unitType = NAL_CODED_SLICE_IDR) [SkipUe]]"

definition SkipOrderCnt :: "seqParamSet \<Rightarrow> picParamSet \<Rightarrow> 'h step list" where
  "SkipOrderCnt sps pps =
    [When (\<lambda>_. picOrderCntType sps = 0)
       [SkipBitsOf (maxPicOrderCntLsb sps), When (\<lambda>_. picOrderPresentFlag pps) [SkipSe]],
     When (\<lambda>_. picOrderCntType sps = 1 \<and> \<not> deltaPicOrderAlwaysZeroFlag sps)
       [SkipSe, When (\<lambda>_. picOrderPresentFlag pps) [SkipSe]]]"

definition h264bsdCheckPpsId :: "strmData \<Rightarrow> u32 \<Rightarrow> (u32 \<times> u32) option" where
  "h264bsdCheckPpsId s ppsId =
     Peek [SkipUe, SkipUe, ReadUe (\<lambda>v. v \<ge> MAX_NUM_PIC_PARAM_SETS) (\<lambda>v _. v)] ppsId s"

definition h264bsdCheckFrameNum :: "strmData \<Rightarrow> u32 \<Rightarrow> u32 \<Rightarrow> (u32 \<times> u32) option" where
  "h264bsdCheckFrameNum s maxFN fn = Peek (SkipIds @ [ReadBitsOf maxFN any (\<lambda>v _. v)]) fn s"

definition h264bsdCheckIdrPicId :: "strmData \<Rightarrow> u32 \<Rightarrow> u32 \<Rightarrow> u32 \<Rightarrow> (u32 \<times> u32) option" where
  "h264bsdCheckIdrPicId s maxFN unitType pid =
     (if unitType \<noteq> NAL_CODED_SLICE_IDR then Some (HANTRO_NOK, pid)
      else Peek (SkipIds @ [SkipBitsOf maxFN, UeOut]) pid s)"

definition h264bsdCheckPicOrderCntLsb ::
  "strmData \<Rightarrow> seqParamSet \<Rightarrow> u32 \<Rightarrow> u32 \<Rightarrow> (u32 \<times> u32) option" where
  "h264bsdCheckPicOrderCntLsb s sps unitType lsb =
     Peek (SkipToOrderCnt sps unitType @ [ReadBitsOf (maxPicOrderCntLsb sps) any (\<lambda>v _. v)]) lsb s"

definition h264bsdCheckDeltaPicOrderCntBottom ::
  "strmData \<Rightarrow> seqParamSet \<Rightarrow> u32 \<Rightarrow> int \<Rightarrow> (u32 \<times> int) option" where
  "h264bsdCheckDeltaPicOrderCntBottom s sps unitType delta =
     Peek (SkipToOrderCnt sps unitType @ [SkipBitsOf (maxPicOrderCntLsb sps), SeOut]) delta s"

definition h264bsdCheckDeltaPicOrderCnt ::
  "strmData \<Rightarrow> seqParamSet \<Rightarrow> u32 \<Rightarrow> bool \<Rightarrow> int \<times> int \<Rightarrow> (u32 \<times> int \<times> int) option" where
  "h264bsdCheckDeltaPicOrderCnt s sps unitType present delta =
     Peek (SkipToOrderCnt sps unitType
       @ [Part fst (\<lambda>x d. (x, snd d)) SeOut, When (\<lambda>_. present) [Part snd (\<lambda>x d. (fst d, x)) SeOut]]) delta s"

definition h264bsdCheckRedundantPicCnt ::
  "strmData \<Rightarrow> seqParamSet \<Rightarrow> picParamSet \<Rightarrow> u32 \<Rightarrow> u32 \<Rightarrow> (u32 \<times> u32) option" where
  "h264bsdCheckRedundantPicCnt s sps pps unitType cnt =
     Peek (SkipToOrderCnt sps unitType @ SkipOrderCnt sps pps @ [UeOut]) cnt s"

text \<open>The flag is read as a number; \<open>END_OF_STREAM\<close> is stored before it is recognised.\<close>

definition BitOut :: "u32 step" where
  "BitOut out s =
     do { (v, s) \<leftarrow> h264bsdGetBits s 1; Some (if v = END_OF_STREAM then HANTRO_NOK else HANTRO_OK, v, s) }"

definition h264bsdCheckPriorPicsFlag ::
  "u32 \<Rightarrow> strmData \<Rightarrow> seqParamSet \<Rightarrow> picParamSet \<Rightarrow> (u32 \<times> u32) option" where
  "h264bsdCheckPriorPicsFlag out s sps pps =
     Peek (SkipIds @ [SkipBitsOf (maxFrameNum sps), SkipUe] @ SkipOrderCnt sps pps
       @ [When (\<lambda>_. redundantPicCntPresentFlag pps) [SkipUe], BitOut]) out s"

end
