(* ===== verification/H264PeekFacts.thy ===== *)
theory H264PeekFacts
  imports H264SliceHeader
begin

text \<open>
  The elements the peek functions read are those the parser of the slice header stores.
\<close>

lemma Peek_OK: "Peek ps out s = Some (HANTRO_OK, v) \<longleftrightarrow> (\<exists>s'. parse_all ps out s = Some (HANTRO_OK, v, s'))"
  by (auto simp: Peek_def split: bind_splits)

lemma BitOut_OK [parsed]:
  "BitOut out s = Some (HANTRO_OK, v, s') \<longleftrightarrow> h264bsdGetBits s 1 = Some (v, s') \<and> v \<noteq> END_OF_STREAM"
  by (auto simp: BitOut_def split: bind_splits)

text \<open>On success the decoders overwrite their output variable.\<close>

lemma Unsigned_out:
  assumes "h264bsdDecodeExpGolombUnsigned s prev = Some (HANTRO_OK, v, s')"
  shows "h264bsdDecodeExpGolombUnsigned s out = Some (HANTRO_OK, v, s')"
proof (cases "h264bsdShowBits32 s")
  case None
  with assms show ?thesis by (simp add: h264bsdDecodeExpGolombUnsigned_def)
next
  case (Some bits)
  note shown = assms [unfolded h264bsdDecodeExpGolombUnsigned_def Some bind.bind_lunit Let_def]
  have "h264bsdDecodeExpGolombUnsigned s out = h264bsdDecodeExpGolombUnsigned s prev"
    if "bits \<ge> 0x80000000"
    using that by (simp add: h264bsdDecodeExpGolombUnsigned_def Some)
  moreover have ?thesis if "\<not> bits \<ge> 0x80000000" "bits \<ge> 0x40000000 \<or> bits \<ge> 0x20000000 \<or> bits \<ge> 0x10000000"
    using shown that unfolding h264bsdDecodeExpGolombUnsigned_def Some bind.bind_lunit Let_def
    by (simp only: if_False split: if_splits prod.splits) simp_all
  moreover have ?thesis if "\<not> bits \<ge> 0x80000000" "\<not> bits \<ge> 0x40000000" "\<not> bits \<ge> 0x20000000" "\<not> bits \<ge> 0x10000000"
    using shown unfolding h264bsdDecodeExpGolombUnsigned_def Some bind.bind_lunit Let_def
    by (simp only: that if_False split: if_splits bind_split_asm bind_split) auto
  ultimately show ?thesis using assms by metis
qed

lemma Signed_out:
  assumes "h264bsdDecodeExpGolombSigned s prev = Some (HANTRO_OK, v, s')"
  shows "h264bsdDecodeExpGolombSigned s out = Some (HANTRO_OK, v, s')"
  using assms
  by (auto simp: h264bsdDecodeExpGolombSigned_def Let_def split: bind_splits if_splits prod.splits)

lemma UeOut_OK [parsed]:
  "UeOut out s = Some (HANTRO_OK, v, s') \<longleftrightarrow> h264bsdDecodeExpGolombUnsigned s 0 = Some (HANTRO_OK, v, s')"
  unfolding UeOut_def using Unsigned_out by metis

lemma SeOut_OK [parsed]:
  "SeOut out s = Some (HANTRO_OK, v, s') \<longleftrightarrow> h264bsdDecodeExpGolombSigned s 0 = Some (HANTRO_OK, v, s')"
  unfolding SeOut_def using Signed_out by metis

section \<open>Skipping what the parser reads\<close>

text \<open>Steps that succeed are matched by other steps that end at the same place of the stream
  and leave their own structure as it was.\<close>

definition skipped_by :: "'h step list \<Rightarrow> 'o step list \<Rightarrow> bool" where
  "skipped_by ps qs \<longleftrightarrow> (\<forall>h s h' s' out. parse_all ps h s = Some (HANTRO_OK, h', s')
     \<longrightarrow> parse_all qs out s = Some (HANTRO_OK, out, s'))"

lemma skipped_byD:
  "skipped_by ps qs \<Longrightarrow> parse_all ps h s = Some (HANTRO_OK, h', s') \<Longrightarrow> parse_all qs out s = Some (HANTRO_OK, out, s')"
  unfolding skipped_by_def by blast

lemma skipped_by_append: "skipped_by ps qs \<Longrightarrow> skipped_by ps' qs' \<Longrightarrow> skipped_by (ps @ ps') (qs @ qs')"
  unfolding skipped_by_def parse_all_append by metis

lemmas skips = SkipIds_def SkipToOrderCnt_def SkipOrderCnt_def SkipUe_def SkipSe_def SkipBitsOf_def

lemma skip_ids: "skipped_by (SliceIds sps pps nal) SkipIds"
  by (auto simp: skipped_by_def SliceIds_def skips parsed)

lemma skip_frame_num:
  "skipped_by (SliceFrameNum sps nal)
    [SkipBitsOf (maxFrameNum sps), When (\<lambda>_. nalUnitType nal = NAL_CODED_SLICE_IDR) [SkipUe]]"
  by (auto simp: skipped_by_def SliceFrameNum_def skips parsed IS_IDR_NAL_UNIT_def split: if_splits)

lemma skip_order_cnt: "skipped_by (SliceOrderCnt sps pps nal) (SkipOrderCnt sps pps)"
  unfolding skipped_by_def
proof (intro allI impI)
  fix h s h' s' and out :: 'o
  assume run: "parse_all (SliceOrderCnt sps pps nal) h s = Some (HANTRO_OK, h', s')"
  show "parse_all (SkipOrderCnt sps pps) out s = Some (HANTRO_OK, out, s')"
  proof (cases "picOrderCntType sps = 0")
    case True
    with run show ?thesis
      by (cases "picOrderPresentFlag pps"; cases "IS_IDR_NAL_UNIT nal";
        simp add: SliceOrderCnt_def parsed; simp add: skips parsed; blast?)
  next
    case False
    with run show ?thesis
      by (cases "picOrderCntType sps = 1"; cases "deltaPicOrderAlwaysZeroFlag sps"; cases "picOrderPresentFlag pps";
        cases "IS_IDR_NAL_UNIT nal"; simp add: SliceOrderCnt_def parsed; simp add: skips parsed; blast?)
  qed
qed

lemma skip_redundant: "skipped_by (SliceRedundant pps) [When (\<lambda>_. redundantPicCntPresentFlag pps) [SkipUe]]"
  by (auto simp: skipped_by_def SliceRedundant_def skips parsed split: if_splits)

lemma skip_to_order_cnt:
  "skipped_by (SliceIds sps pps nal @ SliceFrameNum sps nal) (SkipToOrderCnt sps (nalUnitType nal))"
  unfolding SkipToOrderCnt_def by (rule skipped_by_append [OF skip_ids skip_frame_num])

section \<open>The elements that are peeked at\<close>

lemma header_stages:
  assumes "h264bsdDecodeSliceHeader sps pps nal s = Some (HANTRO_OK, h, s')"
  obtains h1 s1 h2 s2 h3 s3 h4 s4 where
    "parse_all (SliceIds sps pps nal) zeroSlice s = Some (HANTRO_OK, h1, s1)"
    "parse_all (SliceFrameNum sps nal) h1 s1 = Some (HANTRO_OK, h2, s2)"
    "parse_all (SliceOrderCnt sps pps nal) h2 s2 = Some (HANTRO_OK, h3, s3)"
    "parse_all (SliceRedundant pps) h3 s3 = Some (HANTRO_OK, h4, s4)"
    "parse_all (SliceReferences sps pps @ SliceMarking sps nal @ SliceFilter sps pps) h4 s4 = Some (HANTRO_OK, h, s')"
  using assms unfolding h264bsdDecodeSliceHeader_def parse_all_append by blast

abbreviation ids_of where "ids_of h \<equiv> (sliceType h, slicePpsId h)"
abbreviation nums_of where "nums_of h \<equiv> (ids_of h, frameNum h, idrPicId h)"
abbreviation counts_of where
  "counts_of h \<equiv> (nums_of h, picOrderCntLsb h, deltaPicOrderCntBottom h, deltaPicOrderCnt h)"
abbreviation start_of where "start_of h \<equiv> (counts_of h, redundantPicCnt h)"

lemma frame_num_keeps: "keeps (\<lambda>h. ids_of h) (parse_all (SliceFrameNum sps nal))"
  unfolding SliceFrameNum_def by (rule keeps_parse_all) (auto intro!: keeping)

lemma order_cnt_keeps: "keeps (\<lambda>h. nums_of h) (parse_all (SliceOrderCnt sps pps nal))"
  unfolding SliceOrderCnt_def by (rule keeps_parse_all) (auto intro!: keeping)

lemma redundant_keeps: "keeps (\<lambda>h. counts_of h) (parse_all (SliceRedundant pps))"
  unfolding SliceRedundant_def by (rule keeps_parse_all) (auto intro!: keeping)

lemma ReadReordering_keeps: "keeps (\<lambda>h. start_of h) (ReadReordering sps)"
  unfolding keeps_def ReadReordering_def by (auto simp: Part_def split: bind_splits)

lemma ReadChangeCycle_keeps:
  "keeps (\<lambda>h. start_of h) (ReadChangeCycle n r)" "keeps decRefPicMarkingOf (ReadChangeCycle n r)"
  by (auto simp: keeps_def ReadChangeCycle_def split: bind_splits if_splits)

lemma references_keeps: "keeps (\<lambda>h. start_of h) (parse_all (SliceReferences sps pps))"
  unfolding SliceReferences_def by (rule keeps_parse_all) (auto intro!: keeping ReadReordering_keeps)

lemma marking_keeps: "keeps (\<lambda>h. start_of h) (parse_all (SliceMarking sps nal))"
  unfolding SliceMarking_def by (rule keeps_parse_all) (auto intro!: keeping)

lemma filter_keeps_start: "keeps (\<lambda>h. start_of h) (parse_all (SliceFilter sps pps))"
  unfolding SliceFilter_def by (rule keeps_parse_all) (auto intro!: keeping ReadChangeCycle_keeps)

lemma end_keeps:
  assumes "parse_all (SliceReferences sps pps @ SliceMarking sps nal @ SliceFilter sps pps) h s = Some (HANTRO_OK, h', s')"
  shows "start_of h' = start_of h"
  using assms keepsD [OF references_keeps] keepsD [OF marking_keeps] keepsD [OF filter_keeps_start]
  unfolding parse_all_append by metis

lemma filter_keeps: "keeps decRefPicMarkingOf (parse_all (SliceFilter sps pps))"
  unfolding SliceFilter_def by (rule keeps_parse_all) (auto intro!: keeping ReadChangeCycle_keeps)

lemma ids_peek:
  assumes "parse_all (SliceIds sps pps nal) h s = Some (HANTRO_OK, h1, s1)"
  shows "picParameterSetId pps < MAX_NUM_PIC_PARAM_SETS \<Longrightarrow> h264bsdCheckPpsId s v = Some (HANTRO_OK, slicePpsId h1)"
    and "IS_IDR_NAL_UNIT nal \<Longrightarrow> IS_I_SLICE (sliceType h1)"
  using assms by (auto simp: SliceIds_def parsed h264bsdCheckPpsId_def Peek_OK skips)

lemma frame_num_peek:
  assumes "parse_all (SliceFrameNum sps nal) h s = Some (HANTRO_OK, h2, s2)"
  shows "\<exists>t. parse_all [ReadBitsOf (maxFrameNum sps) any (\<lambda>v _. v)] v s = Some (HANTRO_OK, frameNum h2, t)"
  using assms
  by (cases "IS_IDR_NAL_UNIT nal"; simp add: SliceFrameNum_def parsed; elim exE conjE; simp)

lemma idr_id_peek:
  assumes "parse_all (SliceFrameNum sps nal) h s = Some (HANTRO_OK, h2, s2)" "IS_IDR_NAL_UNIT nal"
  shows "parse_all [SkipBitsOf (maxFrameNum sps), UeOut] v s = Some (HANTRO_OK, idrPicId h2, s2)"
  using assms
  by (simp add: SliceFrameNum_def parsed skips; elim exE conjE; simp)

lemma lsb_peek:
  assumes "parse_all (SliceOrderCnt sps pps nal) h s = Some (HANTRO_OK, h3, s3)" "picOrderCntType sps = 0"
  shows "\<exists>t. parse_all [ReadBitsOf (maxPicOrderCntLsb sps) any (\<lambda>v _. v)] v s = Some (HANTRO_OK, picOrderCntLsb h3, t)"
    and "picOrderPresentFlag pps
      \<Longrightarrow> parse_all [SkipBitsOf (maxPicOrderCntLsb sps), SeOut] d s = Some (HANTRO_OK, deltaPicOrderCntBottom h3, s3)"
  using assms
  by (cases "picOrderPresentFlag pps"; cases "IS_IDR_NAL_UNIT nal";
    auto simp: SliceOrderCnt_def parsed skips)+

lemma delta_peek:
  assumes "parse_all (SliceOrderCnt sps pps nal) h s = Some (HANTRO_OK, h3, s3)" "picOrderCntType sps = 1"
    "\<not> deltaPicOrderAlwaysZeroFlag sps"
  shows "parse_all [Part fst (\<lambda>x d. (x, snd d)) SeOut,
      When (\<lambda>_. picOrderPresentFlag pps) [Part snd (\<lambda>x d. (fst d, x)) SeOut]] d s
    = Some (HANTRO_OK, (fst (deltaPicOrderCnt h3),
        if picOrderPresentFlag pps then snd (deltaPicOrderCnt h3) else snd d), s3)"
  using assms
  by (cases "picOrderPresentFlag pps"; cases "IS_IDR_NAL_UNIT nal";
    auto simp: SliceOrderCnt_def parsed)

lemma redundant_peek:
  assumes "parse_all (SliceRedundant pps) h s = Some (HANTRO_OK, h4, s4)" "redundantPicCntPresentFlag pps"
  shows "parse_all [UeOut] v s = Some (HANTRO_OK, redundantPicCnt h4, s4)"
  using assms by (auto simp: SliceRedundant_def parsed)

lemma prior_flag_peek:
  assumes "parse_all (SliceReferences sps pps @ SliceMarking sps nal @ SliceFilter sps pps) h s = Some (HANTRO_OK, h', s')"
    "IS_I_SLICE (sliceType h)" "IS_IDR_NAL_UNIT nal" "nalRefIdc nal \<noteq> 0"
  shows "\<exists>b t. parse_all [BitOut] v s = Some (HANTRO_OK, b, t) \<and> noOutputOfPriorPicsFlag (decRefPicMarkingOf h') = flag b"
proof -
  have notP: "\<not> IS_P_SLICE (sliceType h)" using assms(2) by (auto simp: IS_I_SLICE_def IS_P_SLICE_def)
  from assms(1) obtain h5 s5 where marking: "parse_all (SliceMarking sps nal) h s = Some (HANTRO_OK, h5, s5)"
    and rest: "parse_all (SliceFilter sps pps) h5 s5 = Some (HANTRO_OK, h', s')"
    using notP by (auto simp: parse_all_append SliceReferences_def parsed)
  have "decRefPicMarkingOf h' = decRefPicMarkingOf h5" using keepsD [OF filter_keeps rest] .
  moreover have "\<exists>b t. parse_all [BitOut] v s = Some (HANTRO_OK, b, t)
      \<and> noOutputOfPriorPicsFlag (decRefPicMarkingOf h5) = flag b"
    using marking assms(3,4) by (auto simp: SliceMarking_def DecRefPicMarking_def IS_IDR_NAL_UNIT_def parsed)
  ultimately show ?thesis by simp
qed

lemma prior_flag_check:
  assumes "parse_all (SkipToOrderCnt sps (nalUnitType nal)) v s = Some (HANTRO_OK, v, s2)" "IS_IDR_NAL_UNIT nal"
    and "parse_all (SkipOrderCnt sps pps) v s2 = Some (HANTRO_OK, v, s3)"
    and "parse_all [When (\<lambda>_. redundantPicCntPresentFlag pps) [SkipUe]] v s3 = Some (HANTRO_OK, v, s4)"
    and "parse_all [BitOut] v s4 = Some (HANTRO_OK, b, t)"
  shows "h264bsdCheckPriorPicsFlag v s sps pps = Some (HANTRO_OK, b)"
proof -
  have "parse_all (SkipIds @ [SkipBitsOf (maxFrameNum sps), SkipUe]) v s = Some (HANTRO_OK, v, s2)"
    using assms(1,2) by (auto simp: SkipToOrderCnt_def parse_all_append parsed IS_IDR_NAL_UNIT_def)
  then have "parse_all ((SkipIds @ [SkipBitsOf (maxFrameNum sps), SkipUe]) @ SkipOrderCnt sps pps
      @ [When (\<lambda>_. redundantPicCntPresentFlag pps) [SkipUe]] @ [BitOut]) v s = Some (HANTRO_OK, b, t)"
    using assms(3-5) unfolding parse_all_append by blast
  then show ?thesis by (auto simp: h264bsdCheckPriorPicsFlag_def Peek_OK)
qed

end
