(* ===== verification/H264SliceGroupMap.thy ===== *)
theory H264SliceGroupMap
  imports H264PicParamSet H264DpbSort
begin

text \<open>
  The map from macroblocks to slice groups (\<open>h264bsd_slice_group_map.c\<close>), one function for each
  type of map. The map is the list of the words allocated for it; a store past its end is
  undefined. Loops that may not end are partial functions.
\<close>

section \<open>Loops over the map\<close>

lemma loop_decreases: "i < (n :: u32) \<Longrightarrow> unat n - unat (i + 1) < unat n - unat i"
proof -
  assume lt: "i < n"
  have "unat n < 2 ^ 32" using u32_less .
  then have "unat (i + 1) = unat i + 1" using lt unat_add_lem [of i 1] by (simp add: word_less_nat_alt)
  then show ?thesis using lt by (simp add: word_less_nat_alt)
qed

text \<open>\<open>for (i = 0; i < picSize; i++) map[i] = f(i);\<close>\<close>

function ForEach :: "(u32 \<Rightarrow> u32 option) \<Rightarrow> u32 list \<Rightarrow> u32 \<Rightarrow> u32 \<Rightarrow> u32 list option" where
  "ForEach f m i picSize =
     (if i < picSize
      then do { v \<leftarrow> f i; m \<leftarrow> wr m (unat i) v; ForEach f m (i + 1) picSize }
      else Some m)"
  by pat_completeness auto

termination
  by (relation "measure (\<lambda>(f, m, i, n). unat n - unat i)") (auto intro: loop_decreases)

declare ForEach.simps [simp del]

section \<open>Interleaved, type 0\<close>

function FillRun :: "u32 list \<Rightarrow> u32 \<Rightarrow> u32 \<Rightarrow> u32 \<Rightarrow> u32 \<Rightarrow> u32 \<Rightarrow> u32 list option" where
  "FillRun m i j g run picSize =
     (if j < run \<and> i + j < picSize
      then do { m \<leftarrow> wr m (unat (i + j)) g; FillRun m i (j + 1) g run picSize }
      else Some m)"
  by pat_completeness auto
termination
  by (relation "measure (\<lambda>(m, i, j, g, run, n). unat run - unat j)") (auto intro: loop_decreases)

declare FillRun.simps [simp del]

fun InterleavedGroups :: "u32 list \<Rightarrow> u32 list \<Rightarrow> u32 \<Rightarrow> u32 \<Rightarrow> nat \<Rightarrow> nat \<Rightarrow> (u32 list \<times> u32) option" where
  "InterleavedGroups runs m i picSize g 0 = Some (m, i)"
| "InterleavedGroups runs m i picSize g (Suc k) =
     (if i < picSize
      then do {
        run \<leftarrow> rd runs g;
        m \<leftarrow> FillRun m i 0 (of_nat g) run picSize;
        InterleavedGroups runs m (i + run) picSize (Suc g) k
      }
      else Some (m, i))"

partial_function (option) InterleavedLoop :: "u32 \<Rightarrow> u32 list \<Rightarrow> u32 \<Rightarrow> u32 list \<Rightarrow> u32 \<Rightarrow> u32 list option" where
  "InterleavedLoop n runs picSize m i =
     do {
       (m, i) \<leftarrow> InterleavedGroups runs m i picSize 0 (unat n);
       if i < picSize then InterleavedLoop n runs picSize m i else Some m
     }"

definition DecodeInterleavedMap :: "u32 list \<Rightarrow> u32 \<Rightarrow> u32 list \<Rightarrow> u32 \<Rightarrow> u32 list option" where
  "DecodeInterleavedMap m n runs picSize = InterleavedLoop n runs picSize m 0"

section \<open>Dispersed, type 1\<close>

definition DecodeDispersedMap :: "u32 list \<Rightarrow> u32 \<Rightarrow> u32 \<Rightarrow> u32 \<Rightarrow> u32 list option" where
  "DecodeDispersedMap m n picWidth picHeight =
     ForEach (\<lambda>i. if picWidth = 0 \<or> n = 0 then None
                  else Some ((i mod picWidth + drop_bit 1 (i div picWidth * n)) mod n))
       m 0 (picWidth * picHeight)"

section \<open>Foreground and left-over, type 2\<close>

partial_function (option) RectangleRow :: "u32 \<Rightarrow> u32 \<Rightarrow> u32 \<Rightarrow> u32 \<Rightarrow> u32 list \<Rightarrow> u32 \<Rightarrow> u32 list option" where
  "RectangleRow picWidth g y xLast m x =
     (if x \<le> xLast
      then do { m \<leftarrow> wr m (unat (y * picWidth + x)) g; RectangleRow picWidth g y xLast m (x + 1) }
      else Some m)"

partial_function (option) Rectangle :: "u32 \<Rightarrow> u32 \<Rightarrow> u32 \<Rightarrow> u32 \<Rightarrow> u32 \<Rightarrow> u32 list \<Rightarrow> u32 \<Rightarrow> u32 list option" where
  "Rectangle picWidth g xFirst xLast yLast m y =
     (if y \<le> yLast
      then do {
        m \<leftarrow> RectangleRow picWidth g y xLast m xFirst;
        Rectangle picWidth g xFirst xLast yLast m (y + 1)
      }
      else Some m)"

text \<open>\<open>for (group = numSliceGroups - 1; group--; )\<close>: the last argument is the value tested.\<close>

fun ForegroundGroups :: "u32 list \<Rightarrow> u32 list \<Rightarrow> u32 \<Rightarrow> u32 list \<Rightarrow> nat \<Rightarrow> u32 list option" where
  "ForegroundGroups tls brs picWidth m 0 = Some m"
| "ForegroundGroups tls brs picWidth m (Suc g) =
     do {
       a \<leftarrow> rd tls g;
       b \<leftarrow> rd brs g;
       m \<leftarrow> (if picWidth = 0 then None
            else Rectangle picWidth (of_nat g) (a mod picWidth) (b mod picWidth) (b div picWidth) m (a div picWidth));
       ForegroundGroups tls brs picWidth m g
     }"

definition DecodeForegroundLeftOverMap ::
  "u32 list \<Rightarrow> u32 \<Rightarrow> u32 list \<Rightarrow> u32 list \<Rightarrow> u32 \<Rightarrow> u32 \<Rightarrow> u32 list option" where
  "DecodeForegroundLeftOverMap m n tls brs picWidth picHeight =
     do {
       m \<leftarrow> ForEach (\<lambda>_. Some (n - 1)) m 0 (picWidth * picHeight);
       ForegroundGroups tls brs picWidth m (unat (n - 1))
     }"

section \<open>Box-out, type 3\<close>

record boxOut =
  boxX :: int
  boxY :: int
  xDir :: int
  yDir :: int
  leftBound :: int
  topBound :: int
  rightBound :: int
  bottomBound :: int

text \<open>The direction flag as the number the code computes with.\<close>

definition BoxOutTurn :: "int \<Rightarrow> u32 \<Rightarrow> u32 \<Rightarrow> boxOut \<Rightarrow> boxOut option" where
  "BoxOutTurn dir picWidth picHeight b =
     (if xDir b = - 1 \<and> boxX b = leftBound b
      then do {
        left \<leftarrow> chk (leftBound b - 1);
        Some (b\<lparr>leftBound := max left 0, boxX := max left 0, xDir := 0, yDir := 2 * dir - 1\<rparr>)
      }
      else if xDir b = 1 \<and> boxX b = rightBound b
      then do {
        right \<leftarrow> chk (rightBound b + 1);
        last_x \<leftarrow> chk (sint picWidth - 1);
        Some (b\<lparr>rightBound := min right last_x, boxX := min right last_x, xDir := 0, yDir := 1 - 2 * dir\<rparr>)
      }
      else if yDir b = - 1 \<and> boxY b = topBound b
      then do {
        top \<leftarrow> chk (topBound b - 1);
        Some (b\<lparr>topBound := max top 0, boxY := max top 0, xDir := 1 - 2 * dir, yDir := 0\<rparr>)
      }
      else if yDir b = 1 \<and> boxY b = bottomBound b
      then do {
        bottom \<leftarrow> chk (bottomBound b + 1);
        last_y \<leftarrow> chk (sint picHeight - 1);
        Some (b\<lparr>bottomBound := min bottom last_y, boxY := min bottom last_y, xDir := 2 * dir - 1, yDir := 0\<rparr>)
      }
      else do {
        x \<leftarrow> chk (boxX b + xDir b);
        y \<leftarrow> chk (boxY b + yDir b);
        Some (b\<lparr>boxX := x, boxY := y\<rparr>)
      })"

partial_function (option) BoxOutLoop ::
  "int \<Rightarrow> u32 \<Rightarrow> u32 \<Rightarrow> u32 \<Rightarrow> u32 list \<Rightarrow> u32 \<Rightarrow> boxOut \<Rightarrow> u32 list option" where
  "BoxOutLoop dir units picWidth picHeight m k b =
     (if k < units
      then do {
        let i = unat (word_of_int (boxY b) * picWidth + word_of_int (boxX b) :: u32);
        v \<leftarrow> rd m i;
        m \<leftarrow> (if v = 1 then wr m i 0 else Some m);
        b \<leftarrow> BoxOutTurn dir picWidth picHeight b;
        BoxOutLoop dir units picWidth picHeight m (if v = 1 then k + 1 else k) b
      }
      else Some m)"

definition DecodeBoxOutMap :: "u32 list \<Rightarrow> bool \<Rightarrow> u32 \<Rightarrow> u32 \<Rightarrow> u32 \<Rightarrow> u32 list option" where
  "DecodeBoxOutMap m directionFlag units picWidth picHeight =
     do {
       m \<leftarrow> ForEach (\<lambda>_. Some 1) m 0 (picWidth * picHeight);
       let dir = (if directionFlag then 1 else 0 :: int);
       let x = sint (drop_bit 1 (picWidth - word_of_int dir));
       let y = sint (drop_bit 1 (picHeight - word_of_int dir));
       BoxOutLoop dir units picWidth picHeight m 0
         \<lparr>boxX = x, boxY = y, xDir = dir - 1, yDir = dir, leftBound = x, topBound = y, rightBound = x,
          bottomBound = y\<rparr>
     }"

section \<open>Raster scan and wipe, types 4 and 5\<close>

definition group_of_flag :: "bool \<Rightarrow> bool \<Rightarrow> u32" where
  "group_of_flag directionFlag upperLeft = (if directionFlag = upperLeft then 1 else 0)"

definition DecodeRasterScanMap :: "u32 list \<Rightarrow> bool \<Rightarrow> u32 \<Rightarrow> u32 \<Rightarrow> u32 list option" where
  "DecodeRasterScanMap m directionFlag sizeOfUpperLeftGroup picSize =
     ForEach (\<lambda>i. Some (group_of_flag directionFlag (i < sizeOfUpperLeftGroup))) m 0 picSize"

function WipeColumn :: "bool \<Rightarrow> u32 \<Rightarrow> u32 \<Rightarrow> u32 \<Rightarrow> u32 \<Rightarrow> u32 list \<Rightarrow> u32 \<Rightarrow> u32 \<Rightarrow> (u32 list \<times> u32) option" where
  "WipeColumn directionFlag size_ul picWidth picHeight j m i k =
     (if i < picHeight
      then do {
        m \<leftarrow> wr m (unat (i * picWidth + j)) (group_of_flag directionFlag (k < size_ul));
        WipeColumn directionFlag size_ul picWidth picHeight j m (i + 1) (k + 1)
      }
      else Some (m, k))"
  by pat_completeness auto
termination
  by (relation "measure (\<lambda>(d, u, w, h, j, m, i, k). unat h - unat i)") (auto intro: loop_decreases)

declare WipeColumn.simps [simp del]

function WipeColumns :: "bool \<Rightarrow> u32 \<Rightarrow> u32 \<Rightarrow> u32 \<Rightarrow> u32 list \<Rightarrow> u32 \<Rightarrow> u32 \<Rightarrow> u32 list option" where
  "WipeColumns directionFlag size_ul picWidth picHeight m j k =
     (if j < picWidth
      then do {
        (m, k) \<leftarrow> WipeColumn directionFlag size_ul picWidth picHeight j m 0 k;
        WipeColumns directionFlag size_ul picWidth picHeight m (j + 1) k
      }
      else Some m)"
  by pat_completeness auto
termination
  by (relation "measure (\<lambda>(d, u, w, h, m, j, k). unat w - unat j)") (auto intro: loop_decreases)

declare WipeColumns.simps [simp del]

definition DecodeWipeMap :: "u32 list \<Rightarrow> bool \<Rightarrow> u32 \<Rightarrow> u32 \<Rightarrow> u32 \<Rightarrow> u32 list option" where
  "DecodeWipeMap m directionFlag sizeOfUpperLeftGroup picWidth picHeight =
     WipeColumns directionFlag sizeOfUpperLeftGroup picWidth picHeight m 0 0"

section \<open>The map of a picture\<close>

text \<open>\<open>H264SwDecMemset(map, 0, picSize * sizeof(u32))\<close>: the number of bytes is a 32 bit number.\<close>

definition ClearMap :: "u32 list \<Rightarrow> u32 \<Rightarrow> u32 list option" where
  "ClearMap m picSize =
     (let n = unat (picSize * 4) div 4
      in if n \<le> length m then Some (replicate n 0 @ drop n m) else None)"

definition h264bsdDecodeSliceGroupMap ::
  "u32 list \<Rightarrow> picParamSet \<Rightarrow> u32 \<Rightarrow> u32 \<Rightarrow> u32 \<Rightarrow> u32 list option" where
  "h264bsdDecodeSliceGroupMap m pps sliceGroupChangeCycle picWidth picHeight =
     (let picSize = picWidth * picHeight;
          t = sliceGroupMapType pps;
          units = min (sliceGroupChangeCycle * sliceGroupChangeRate pps) picSize;
          upperLeft = (if sliceGroupChangeDirectionFlag pps then picSize - units else units)
      in if numSliceGroups pps = 1 then ClearMap m picSize
         else if t = 0 then DecodeInterleavedMap m (numSliceGroups pps) (runLength pps) picSize
         else if t = 1 then DecodeDispersedMap m (numSliceGroups pps) picWidth picHeight
         else if t = 2
         then DecodeForegroundLeftOverMap m (numSliceGroups pps) (topLeft pps) (bottomRight pps) picWidth picHeight
         else if t = 3 then DecodeBoxOutMap m (sliceGroupChangeDirectionFlag pps) units picWidth picHeight
         else if t = 4 then DecodeRasterScanMap m (sliceGroupChangeDirectionFlag pps) upperLeft picSize
         else if t = 5 then DecodeWipeMap m (sliceGroupChangeDirectionFlag pps) upperLeft picWidth picHeight
         else ForEach (\<lambda>i. rd (sliceGroupId pps) (unat i)) m 0 picSize)"

end
