(* ===== verification/H264MapFacts.thy ===== *)
theory H264MapFacts
  imports H264SliceGroupMap H264Util
begin

text \<open>
  What the loops over a slice group map store, as functions of the macroblock number, and the
  maps of the standard they agree with.
\<close>

section \<open>Arithmetic of macroblock numbers\<close>

lemma unat_of_nat_small [simp]: "k < 2 ^ 32 \<Longrightarrow> unat (of_nat k :: u32) = k"
  by (simp add: unat_of_nat)

lemma unat_position:
  assumes "unat y * unat w + unat x < 2 ^ 32"
  shows "unat (y * w + x :: u32) = unat y * unat w + unat x"
proof -
  have "unat (y * w) = unat y * unat w" using assms unat_mult_lem [of y w] by simp
  then show ?thesis using assms unat_add_lem [of "y * w" x] by simp
qed

lemma position_less:
  assumes "y < h" "x < (w :: nat)"
  shows "y * w + x < w * h"
proof -
  have "Suc y * w \<le> h * w" using assms(1) by (intro mult_le_mono1) simp
  then show ?thesis using assms(2) by (simp add: mult.commute)
qed

lemma position_eq: "x < w \<Longrightarrow> y * w + x = k \<longleftrightarrow> k div w = y \<and> k mod w = (x :: nat)"
  by auto

section \<open>One pass over the map\<close>

lemma ForEach_spec:
  assumes "unat n \<le> length m" "\<And>k. unat i \<le> k \<Longrightarrow> k < unat n \<Longrightarrow> f (of_nat k) = Some (g k)"
  shows "\<exists>m'. ForEach f m i n = Some m' \<and> length m' = length m
    \<and> (\<forall>k < length m. m' ! k = (if unat i \<le> k \<and> k < unat n then g k else m ! k))"
  using assms
proof (induction f m i n rule: ForEach.induct)
  case (1 f m i n)
  show ?case
  proof (cases "i < n")
    case True
    then have lt: "unat i < unat n" by (simp add: word_less_nat_alt)
    have inc: "unat (i + 1) = unat i + 1" by (rule u32_inc [OF lt])
    have f: "f i = Some (g (unat i))" using "1.prems"(2) [of "unat i"] lt by simp
    have w: "wr m (unat i) (g (unat i)) = Some (m[unat i := g (unat i)])" using lt "1.prems"(1) by simp
    from "1.IH" [OF True f w] obtain m' where "ForEach f (m[unat i := g (unat i)]) (i + 1) n = Some m'"
      "length m' = length m"
      "\<forall>k < length m. m' ! k = (if unat i + 1 \<le> k \<and> k < unat n then g k else m[unat i := g (unat i)] ! k)"
      using "1.prems" by (auto simp: inc)
    then show ?thesis using True f w lt
      by (subst ForEach.simps) (auto simp: nth_list_update)
  next
    case False
    then show ?thesis by (subst ForEach.simps) (auto simp: word_less_nat_alt)
  qed
qed

lemma FillRun_spec:
  assumes "unat n \<le> length m" "unat i + unat run < 2 ^ 32" "unat j \<le> unat run"
  shows "\<exists>m'. FillRun m i j g run n = Some m' \<and> length m' = length m
    \<and> (\<forall>k < length m. m' ! k = (if unat i + unat j \<le> k \<and> k < unat i + unat run \<and> k < unat n then g else m ! k))"
  using assms
proof (induction m i j g run n rule: FillRun.induct)
  case (1 m i j g run n)
  have sum: "unat (i + j) = unat i + unat j"
    using "1.prems" by (simp add: unat_add_lem [symmetric])
  show ?case
  proof (cases "j < run \<and> i + j < n")
    case True
    then have lt: "unat j < unat run" "unat i + unat j < unat n" by (simp_all add: word_less_nat_alt sum)
    have inc: "unat (j + 1) = unat j + 1" by (rule u32_inc [OF lt(1)])
    have w: "wr m (unat (i + j)) g = Some (m[unat i + unat j := g])" using lt "1.prems"(1) by (simp add: sum)
    from "1.IH" [OF True w] obtain m' where "FillRun (m[unat i + unat j := g]) i (j + 1) g run n = Some m'"
      "length m' = length m" "\<forall>k < length m. m' ! k =
        (if unat i + (unat j + 1) \<le> k \<and> k < unat i + unat run \<and> k < unat n then g else m[unat i + unat j := g] ! k)"
      using "1.prems" lt by (auto simp: inc)
    then show ?thesis using True w lt
      by (subst FillRun.simps) (auto simp: nth_list_update sum)
  next
    case False
    then have "unat run \<le> unat j \<or> unat n \<le> unat i + unat j"
      by (auto simp: word_less_nat_alt sum)
    with False show ?thesis by (subst FillRun.simps) auto
  qed
qed

section \<open>Interleaved maps\<close>

text \<open>One round of runs, which repeats over the picture.\<close>

definition run_pattern :: "u32 list \<Rightarrow> nat \<Rightarrow> u32 list" where
  "run_pattern runs g = concat (map (\<lambda>j. replicate (unat (runs ! j)) (of_nat j)) [0..<g])"

abbreviation whole_pattern :: "u32 list \<Rightarrow> u32 list" where
  "whole_pattern runs \<equiv> run_pattern runs (length runs)"

definition interleaved :: "u32 list \<Rightarrow> nat \<Rightarrow> u32" where
  "interleaved runs k = whole_pattern runs ! (k mod length (whole_pattern runs))"

lemma run_pattern_Suc:
  "run_pattern runs (Suc g) = run_pattern runs g @ replicate (unat (runs ! g)) (of_nat g)"
  by (simp add: run_pattern_def)

lemma run_pattern_prefix: "g \<le> h \<Longrightarrow> \<exists>zs. run_pattern runs h = run_pattern runs g @ zs"
  by (induction h) (auto simp: run_pattern_Suc le_Suc_eq)

lemma run_pattern_nth:
  assumes "g < length runs" "d < unat (runs ! g)"
  shows "length (run_pattern runs g) + d < length (whole_pattern runs)
    \<and> whole_pattern runs ! (length (run_pattern runs g) + d) = of_nat g"
proof -
  from run_pattern_prefix [of "Suc g" "length runs" runs] assms(1) obtain zs where
    "whole_pattern runs = run_pattern runs g @ replicate (unat (runs ! g)) (of_nat g) @ zs"
    by (auto simp: run_pattern_Suc)
  then show ?thesis using assms(2) by (simp add: nth_append)
qed

lemma interleaved_run:
  assumes "g < length runs" "q * length (whole_pattern runs) + length (run_pattern runs g) \<le> k"
    "k < q * length (whole_pattern runs) + length (run_pattern runs g) + unat (runs ! g)"
  shows "interleaved runs k = of_nat g"
proof -
  define d where "d = k - (q * length (whole_pattern runs) + length (run_pattern runs g))"
  have k: "k = q * length (whole_pattern runs) + (length (run_pattern runs g) + d)" and "d < unat (runs ! g)"
    using assms(2,3) by (simp_all add: d_def)
  then show ?thesis using run_pattern_nth [OF assms(1), of d] by (simp add: interleaved_def k)
qed

text \<open>The map is right up to a position.\<close>

definition filled :: "(nat \<Rightarrow> u32) \<Rightarrow> nat \<Rightarrow> u32 list \<Rightarrow> bool" where
  "filled f n m \<longleftrightarrow> n \<le> length m \<and> (\<forall>k < n. m ! k = f k)"

lemma InterleavedGroups_spec:
  assumes "length m = unat n" "unat n \<le> 2 ^ 31" "\<forall>r \<in> set runs. unat r \<le> unat n"
    and "g + c = length runs" "unat i = q * length (whole_pattern runs) + length (run_pattern runs g)"
    and "filled (interleaved runs) (min (unat i) (unat n)) m"
  shows "\<exists>m' i'. InterleavedGroups runs m i n g c = Some (m', i') \<and> length m' = unat n
    \<and> filled (interleaved runs) (min (unat i') (unat n)) m'
    \<and> (unat n \<le> unat i' \<or> unat i' = Suc q * length (whole_pattern runs))"
  using assms
proof (induction c arbitrary: m i g)
  case 0
  then show ?case by (auto simp: word_less_nat_alt)
next
  case (Suc c)
  show ?case
  proof (cases "i < n")
    case True
    then have lt: "unat i < unat n" by (simp add: word_less_nat_alt)
    have g: "g < length runs" using Suc.prems(4) by simp
    then have run: "unat (runs ! g) \<le> unat n" using Suc.prems(3) by simp
    then have sum: "unat i + unat (runs ! g) < 2 ^ 32" using lt Suc.prems(2) by simp
    then have i': "unat (i + runs ! g) = unat i + unat (runs ! g)" using unat_add_lem [of i "runs ! g"] by simp
    from FillRun_spec [of n m i "runs ! g" 0 "of_nat g"] sum Suc.prems(1) obtain m1 where
      m1: "FillRun m i 0 (of_nat g) (runs ! g) n = Some m1" "length m1 = length m"
      "\<forall>k < length m. m1 ! k = (if unat i \<le> k \<and> k < unat i + unat (runs ! g) \<and> k < unat n then of_nat g else m ! k)"
      by auto
    have "filled (interleaved runs) (min (unat (i + runs ! g)) (unat n)) m1"
      using m1 Suc.prems(1,5,6) lt interleaved_run [OF g, of q] by (auto simp: filled_def i')
    moreover have "unat (i + runs ! g) = q * length (whole_pattern runs) + length (run_pattern runs (Suc g))"
      using Suc.prems(5) by (simp add: i' run_pattern_Suc)
    ultimately have "\<exists>m' i'. InterleavedGroups runs m1 (i + runs ! g) n (Suc g) c = Some (m', i') \<and> length m' = unat n
        \<and> filled (interleaved runs) (min (unat i') (unat n)) m'
        \<and> (unat n \<le> unat i' \<or> unat i' = Suc q * length (whole_pattern runs))"
      using Suc.prems m1(2) by (intro Suc.IH) simp_all
    then show ?thesis using True g m1(1) by simp
  next
    case False
    then have "unat n \<le> unat i" by (simp add: word_less_nat_alt)
    then show ?thesis using False Suc.prems(1,6) by simp
  qed
qed

lemma InterleavedLoop_spec:
  assumes "length m = unat n" "unat n \<le> 2 ^ 31" "\<forall>r \<in> set runs. unat r \<le> unat n"
    and "whole_pattern runs \<noteq> []" "unat i = q * length (whole_pattern runs)"
    and "filled (interleaved runs) (min (unat i) (unat n)) m" "unat gs = length runs"
  shows "\<exists>m'. InterleavedLoop gs runs n m i = Some m' \<and> length m' = unat n \<and> filled (interleaved runs) (unat n) m'"
  using assms
proof (induction "unat n - unat i" arbitrary: m i q rule: less_induct)
  case less
  from InterleavedGroups_spec [of m n runs 0 "length runs" i q] less.prems obtain m' i' where
    round: "InterleavedGroups runs m i n 0 (length runs) = Some (m', i')" "length m' = unat n"
    "filled (interleaved runs) (min (unat i') (unat n)) m'"
    "unat n \<le> unat i' \<or> unat i' = Suc q * length (whole_pattern runs)"
    by (auto simp: run_pattern_def)
  show ?case
  proof (cases "i' < n")
    case True
    then have lt: "unat i' < unat n" by (simp add: word_less_nat_alt)
    then have i': "unat i' = Suc q * length (whole_pattern runs)" using round(4) by simp
    then have "unat i < unat i'" using less.prems(4,5) by simp
    then have "unat n - unat i' < unat n - unat i" using lt by linarith
    from less.hyps [OF this round(2) less.prems(2,3,4) i' round(3) less.prems(7)] show ?thesis
      using True round(1) less.prems(7) by (subst InterleavedLoop.simps) simp
  next
    case False
    then have "min (unat i') (unat n) = unat n" by (simp add: word_less_nat_alt)
    then show ?thesis using False round less.prems(7) by (subst InterleavedLoop.simps) simp
  qed
qed

section \<open>Rectangles\<close>

definition in_rectangle :: "nat \<Rightarrow> u32 \<Rightarrow> u32 \<Rightarrow> nat \<Rightarrow> bool" where
  "in_rectangle w a b k \<longleftrightarrow> unat a div w \<le> k div w \<and> k div w \<le> unat b div w
     \<and> unat a mod w \<le> k mod w \<and> k mod w \<le> unat b mod w"

lemma RectangleRow_spec:
  assumes "unat xLast < unat w" "unat y < h" "length m = unat w * h" "unat w * h \<le> 2 ^ 31"
  shows "\<exists>m'. RectangleRow w g y xLast m x = Some m' \<and> length m' = length m
    \<and> (\<forall>k < length m. m' ! k =
        (if k div unat w = unat y \<and> unat x \<le> k mod unat w \<and> k mod unat w \<le> unat xLast then g else m ! k))"
  using assms
proof (induction "unat xLast + 1 - unat x" arbitrary: m x rule: less_induct)
  case less
  show ?case
  proof (cases "x \<le> xLast")
    case True
    then have le: "unat x \<le> unat xLast" by (simp add: word_le_nat_alt)
    then have x: "unat x < unat w" using less.prems(1) by simp
    then have inc: "unat (x + 1) = unat x + 1" by (rule u32_inc)
    have pos: "unat y * unat w + unat x < unat w * h" by (rule position_less [OF less.prems(2) x])
    then have at: "unat (y * w + x) = unat y * unat w + unat x" using less.prems(4) by (intro unat_position) simp
    have "unat xLast + 1 - unat (x + 1) < unat xLast + 1 - unat x" using le by (simp add: inc)
    from less.hyps [OF this less.prems(1,2) _ less.prems(4), of "m[unat y * unat w + unat x := g]"] obtain m' where
      "RectangleRow w g y xLast (m[unat y * unat w + unat x := g]) (x + 1) = Some m'" "length m' = length m"
      "\<forall>k < length m. m' ! k = (if k div unat w = unat y \<and> unat x + 1 \<le> k mod unat w \<and> k mod unat w \<le> unat xLast
        then g else m[unat y * unat w + unat x := g] ! k)"
      using less.prems(3) by (auto simp: inc)
    moreover have "m[unat y * unat w + unat x := g] ! k
        = (if k div unat w = unat y \<and> k mod unat w = unat x then g else m ! k)" if "k < length m" for k
      using position_eq [OF x, of "unat y" k] that by (auto simp: nth_list_update)
    moreover have "unat x + 1 \<le> j \<or> j = unat x \<longleftrightarrow> unat x \<le> j" for j by auto
    ultimately show ?thesis using True pos less.prems(3) le
      by (subst RectangleRow.simps) (auto simp: at)
  next
    case False
    then show ?thesis by (subst RectangleRow.simps) (auto simp: word_le_nat_alt)
  qed
qed

lemma Rectangle_spec:
  assumes "unat xLast < unat w" "unat yLast < h" "length m = unat w * h" "unat w * h \<le> 2 ^ 31"
  shows "\<exists>m'. Rectangle w g xFirst xLast yLast m y = Some m' \<and> length m' = length m
    \<and> (\<forall>k < length m. m' ! k =
        (if unat y \<le> k div unat w \<and> k div unat w \<le> unat yLast
            \<and> unat xFirst \<le> k mod unat w \<and> k mod unat w \<le> unat xLast then g else m ! k))"
  using assms
proof (induction "unat yLast + 1 - unat y" arbitrary: m y rule: less_induct)
  case less
  show ?case
  proof (cases "y \<le> yLast")
    case True
    then have le: "unat y \<le> unat yLast" by (simp add: word_le_nat_alt)
    then have y: "unat y < h" using less.prems(2) by simp
    have "unat w * h \<le> 2 ^ 31" "0 < unat w" using less.prems(1,4) by simp_all
    then have "h \<le> 2 ^ 31" by (metis One_nat_def Suc_leI le_trans mult_le_mono1 nat_mult_1)
    then have "unat yLast < unat (2 ^ 31 :: u32)" using less.prems(2) by simp
    then have inc: "unat (y + 1) = unat y + 1" using le by (intro u32_inc [of _ "2 ^ 31"]) simp
    from RectangleRow_spec [OF less.prems(1) y less.prems(3,4), of g xFirst] obtain m1 where
      row: "RectangleRow w g y xLast m xFirst = Some m1" "length m1 = length m"
      "\<forall>k < length m. m1 ! k = (if k div unat w = unat y \<and> unat xFirst \<le> k mod unat w \<and> k mod unat w \<le> unat xLast
        then g else m ! k)" by blast
    have "unat yLast + 1 - unat (y + 1) < unat yLast + 1 - unat y" using le by (simp add: inc)
    from less.hyps [OF this less.prems(1,2) _ less.prems(4), of m1] obtain m' where
      "Rectangle w g xFirst xLast yLast m1 (y + 1) = Some m'" "length m' = length m"
      "\<forall>k < length m. m' ! k = (if unat y + 1 \<le> k div unat w \<and> k div unat w \<le> unat yLast
        \<and> unat xFirst \<le> k mod unat w \<and> k mod unat w \<le> unat xLast then g else m1 ! k)"
      using row(2) less.prems(3) by (auto simp: inc)
    then show ?thesis using True row le
      by (subst Rectangle.simps) auto
  next
    case False
    then show ?thesis by (subst Rectangle.simps) (auto simp: word_le_nat_alt)
  qed
qed

text \<open>Rectangles of lower numbers are drawn later, so the first one that holds a macroblock wins.\<close>

definition foreground :: "nat \<Rightarrow> u32 list \<Rightarrow> u32 list \<Rightarrow> nat \<Rightarrow> u32 \<Rightarrow> nat \<Rightarrow> u32" where
  "foreground w tls brs n background k =
     (case find (\<lambda>g. in_rectangle w (tls ! g) (brs ! g) k) [0..<n] of Some g \<Rightarrow> of_nat g | None \<Rightarrow> background)"

lemma foreground_Suc:
  "foreground w tls brs (Suc n) b k
    = foreground w tls brs n (if in_rectangle w (tls ! n) (brs ! n) k then of_nat n else b) k"
proof -
  have "find P (xs @ [x]) = (case find P xs of Some y \<Rightarrow> Some y | None \<Rightarrow> if P x then Some x else None)"
    for P and xs :: "nat list" and x
    by (induction xs) auto
  then show ?thesis by (auto simp: foreground_def split: option.split)
qed

lemma ForegroundGroups_spec:
  assumes "length m = unat w * h" "unat w * h \<le> 2 ^ 31" "0 < unat w" "n \<le> length tls" "n \<le> length brs"
    and "\<forall>g < n. unat (brs ! g) < unat w * h"
  shows "\<exists>m'. ForegroundGroups tls brs w m n = Some m' \<and> length m' = length m
    \<and> (\<forall>k < length m. m' ! k = foreground (unat w) tls brs n (m ! k) k)"
  using assms
proof (induction n arbitrary: m)
  case (Suc n)
  have w0: "w \<noteq> 0" using Suc.prems(3) by auto
  have b: "unat (brs ! n mod w) < unat w" "unat (brs ! n div w) < h"
    using Suc.prems(3,6) by (simp_all add: unat_mod unat_div less_mult_imp_div_less mult.commute)
  from Rectangle_spec [OF b Suc.prems(1,2), of "of_nat n" "tls ! n mod w" "tls ! n div w"] obtain m1 where
    m1: "Rectangle w (of_nat n) (tls ! n mod w) (brs ! n mod w) (brs ! n div w) m (tls ! n div w) = Some m1"
    "length m1 = length m"
    "\<forall>k < length m. m1 ! k = (if in_rectangle (unat w) (tls ! n) (brs ! n) k then of_nat n else m ! k)"
    by (auto simp: in_rectangle_def unat_mod unat_div)
  from Suc.IH [of m1] Suc.prems m1(2) obtain m' where
    "ForegroundGroups tls brs w m1 n = Some m'" "length m' = length m"
    "\<forall>k < length m. m' ! k = foreground (unat w) tls brs n (m1 ! k) k" by auto
  then show ?case using m1 w0 Suc.prems(4,5) by (simp add: foreground_Suc)
qed (simp add: foreground_def)

section \<open>Wipe maps\<close>

abbreviation wiped :: "bool \<Rightarrow> u32 \<Rightarrow> nat \<Rightarrow> nat \<Rightarrow> nat \<Rightarrow> u32" where
  "wiped d ul w h k \<equiv> group_of_flag d (k mod w * h + k div w < unat ul)"

lemma WipeColumn_spec:
  assumes "unat j < unat w" "length m = unat w * unat h" "unat w * unat h \<le> 2 ^ 31"
    and "unat i \<le> unat h" "unat c = unat j * unat h + unat i"
  shows "\<exists>m' c'. WipeColumn d ul w h j m i c = Some (m', c') \<and> length m' = length m
    \<and> unat c' = unat j * unat h + unat h
    \<and> (\<forall>k < length m. m' ! k =
        (if k mod unat w = unat j \<and> unat i \<le> k div unat w then wiped d ul (unat w) (unat h) k else m ! k))"
  using assms
proof (induction "unat h - unat i" arbitrary: m i c rule: less_induct)
  case less
  show ?case
  proof (cases "i < h")
    case True
    then have lt: "unat i < unat h" by (simp add: word_less_nat_alt)
    have inc: "unat (i + 1) = unat i + 1" by (rule u32_inc [OF lt])
    have pos: "unat i * unat w + unat j < unat w * unat h" by (rule position_less [OF lt less.prems(1)])
    then have at: "unat (i * w + j) = unat i * unat w + unat j" using less.prems(3) by (intro unat_position) simp
    have "unat j * unat h + unat i < unat h * unat w" by (rule position_less [OF less.prems(1) lt])
    then have "unat c < unat (2 ^ 31 :: u32)" using less.prems(3,5) by (simp add: mult.commute)
    then have c: "unat (c + 1) = unat j * unat h + (unat i + 1)" using less.prems(5) u32_inc [of c "2 ^ 31"] by simp
    define v where "v = group_of_flag d (c < ul)"
    have v: "v = wiped d ul (unat w) (unat h) (unat i * unat w + unat j)"
      using less.prems(1,5) by (simp add: v_def word_less_nat_alt)
    have "unat h - unat (i + 1) < unat h - unat i" using lt by (simp add: inc)
    from less.hyps [OF this less.prems(1) _ less.prems(3), of "m[unat i * unat w + unat j := v]" "c + 1"] lt c
    obtain m' c' where
      rest: "WipeColumn d ul w h j (m[unat i * unat w + unat j := v]) (i + 1) (c + 1) = Some (m', c')"
      "length m' = length m" "unat c' = unat j * unat h + unat h"
      "\<forall>k < length m. m' ! k = (if k mod unat w = unat j \<and> unat i + 1 \<le> k div unat w
        then wiped d ul (unat w) (unat h) k else m[unat i * unat w + unat j := v] ! k)"
      using less.prems(2) by (auto simp: inc)
    have "m[unat i * unat w + unat j := v] ! k
        = (if k mod unat w = unat j \<and> k div unat w = unat i then wiped d ul (unat w) (unat h) k else m ! k)"
      if "k < length m" for k
      using position_eq [OF less.prems(1), of "unat i" k] that v by (auto simp: nth_list_update)
    moreover have "unat i + 1 \<le> a \<or> a = unat i \<longleftrightarrow> unat i \<le> a" for a by auto
    ultimately show ?thesis using True rest pos less.prems(2)
      by (subst WipeColumn.simps) (auto simp: at v_def)
  next
    case False
    then have "unat h = unat i" using less.prems(4) by (simp add: word_less_nat_alt)
    moreover have "\<not> unat i \<le> k div unat w" if "k < length m" for k
      using that less.prems(2) \<open>unat h = unat i\<close> by (simp add: less_mult_imp_div_less mult.commute not_le)
    ultimately show ?thesis using False less.prems(5) by (subst WipeColumn.simps) auto
  qed
qed

lemma WipeColumns_spec:
  assumes "length m = unat w * unat h" "unat w * unat h \<le> 2 ^ 31" "unat j \<le> unat w" "unat c = unat j * unat h"
  shows "\<exists>m'. WipeColumns d ul w h m j c = Some m' \<and> length m' = length m
    \<and> (\<forall>k < length m. m' ! k = (if unat j \<le> k mod unat w then wiped d ul (unat w) (unat h) k else m ! k))"
  using assms
proof (induction "unat w - unat j" arbitrary: m j c rule: less_induct)
  case less
  show ?case
  proof (cases "j < w")
    case True
    then have lt: "unat j < unat w" by (simp add: word_less_nat_alt)
    have inc: "unat (j + 1) = unat j + 1" by (rule u32_inc [OF lt])
    from WipeColumn_spec [OF lt less.prems(1,2), of 0 c d ul] less.prems(4) obtain m1 c1 where
      m1: "WipeColumn d ul w h j m 0 c = Some (m1, c1)" "length m1 = length m" "unat c1 = unat (j + 1) * unat h"
      "\<forall>k < length m. m1 ! k = (if k mod unat w = unat j then wiped d ul (unat w) (unat h) k else m ! k)"
      by (auto simp: inc)
    have "unat w - unat (j + 1) < unat w - unat j" using lt by (simp add: inc)
    from less.hyps [OF this _ less.prems(2) _ m1(3), of m1] less.prems(1) m1(2) lt obtain m' where
      m': "WipeColumns d ul w h m1 (j + 1) c1 = Some m'" "length m' = length m"
      "\<forall>k < length m. m' ! k = (if unat j + 1 \<le> k mod unat w then wiped d ul (unat w) (unat h) k else m1 ! k)"
      by (auto simp: inc)
    have "unat j + 1 \<le> a \<or> a = unat j \<longleftrightarrow> unat j \<le> a" for a by auto
    then show ?thesis using True m1 m' by (subst WipeColumns.simps) auto
  next
    case False
    moreover have "\<not> unat j \<le> k mod unat w" if "k < length m" for k
      using that less.prems(1,3) False by (cases "unat w = 0") (auto simp: word_less_nat_alt not_le)
    ultimately show ?thesis by (subst WipeColumns.simps) auto
  qed
qed

section \<open>Dispersed maps\<close>

lemma dispersed_value:
  assumes "k < unat w * unat h" "unat w * unat h \<le> 2 ^ 28" "unat n \<le> 8"
  shows "((of_nat k mod w + drop_bit 1 (of_nat k div w * n)) mod n :: u32)
    = of_nat ((k mod unat w + k div unat w * unat n div 2) mod unat n)"
proof -
  have k: "unat (of_nat k :: u32) = k" using assms(1,2) by simp
  have "k div unat w * unat n \<le> k * 8" using assms(3) by (intro mult_le_mono) simp_all
  then have prod: "k div unat w * unat n < 2 ^ 31" using assms(1,2) by simp
  then have "unat (of_nat k div w * n) = k div unat w * unat n"
    using unat_mult_lem [of "of_nat k div w" n] by (simp add: unat_div k)
  moreover define y where "y = drop_bit 1 (of_nat k div w * n)"
  ultimately have half: "unat y = k div unat w * unat n div 2"
    by (simp add: unat_drop_bit_eq drop_bit_eq_div unat_div)
  have "k < 2 ^ 31" using assms(1,2) by simp
  then have "k mod unat w < 2 ^ 31" by (rule le_less_trans [OF mod_less_eq_dividend])
  moreover have "k div unat w * unat n div 2 < 2 ^ 31" using prod by simp
  ultimately have "k mod unat w + k div unat w * unat n div 2 < 2 ^ 32" by simp
  then have "unat (of_nat k mod w + y) = k mod unat w + k div unat w * unat n div 2"
    using unat_add_lem [of "of_nat k mod w" y] by (simp add: unat_mod k half)
  then have "unat ((of_nat k mod w + y) mod n) = (k mod unat w + k div unat w * unat n div 2) mod unat n"
    by (simp add: unat_mod)
  then show ?thesis unfolding y_def by (metis of_nat_unat ucast_id)
qed

end
