(* ===== verification/H264MapStandard.thy ===== *)
theory H264MapStandard
  imports H264MapFacts
begin

text \<open>
  The slice group maps of the standard, as functions of the macroblock number, and what the
  parser of picture parameter sets establishes of the parameters they depend on. The box-out map
  (type 3) is defined in the standard by the loop of the code and has no closed form here.
\<close>

section \<open>The maps of the standard\<close>

definition flag_number :: "bool \<Rightarrow> u32" where
  "flag_number b = (if b then 1 else 0)"

definition standard_units :: "picParamSet \<Rightarrow> u32 \<Rightarrow> nat \<Rightarrow> nat" where
  "standard_units pps cycle picSize = min (unat cycle * unat (sliceGroupChangeRate pps)) picSize"

definition standard_upper_left :: "picParamSet \<Rightarrow> u32 \<Rightarrow> nat \<Rightarrow> nat" where
  "standard_upper_left pps cycle picSize =
     (if sliceGroupChangeDirectionFlag pps then picSize - standard_units pps cycle picSize
      else standard_units pps cycle picSize)"

definition standard_group :: "picParamSet \<Rightarrow> u32 \<Rightarrow> nat \<Rightarrow> nat \<Rightarrow> nat \<Rightarrow> u32" where
  "standard_group pps cycle w h k =
     (let n = numSliceGroups pps;
          t = sliceGroupMapType pps;
          d = flag_number (sliceGroupChangeDirectionFlag pps);
          ul = standard_upper_left pps cycle (w * h)
      in if n = 1 then 0
         else if t = 0 then interleaved (runLength pps) k
         else if t = 1 then of_nat ((k mod w + k div w * unat n div 2) mod unat n)
         else if t = 2 then foreground w (topLeft pps) (bottomRight pps) (unat n - 1) (n - 1) k
         else if t = 4 then if k < ul then d else 1 - d
         else if t = 5 then if k mod w * h + k div w < ul then d else 1 - d
         else sliceGroupId pps ! k)"

section \<open>Parameters that were parsed\<close>

definition groups_parsed :: "picParamSet \<Rightarrow> bool" where
  "groups_parsed pps \<longleftrightarrow> unat (numSliceGroups pps) \<le> 8
     \<and> (1 < numSliceGroups pps \<longrightarrow>
          sliceGroupMapType pps \<le> 6
        \<and> (sliceGroupMapType pps = 0 \<longrightarrow> length (runLength pps) = unat (numSliceGroups pps))
        \<and> (sliceGroupMapType pps = 2 \<longrightarrow> length (topLeft pps) = unat (numSliceGroups pps) - 1
             \<and> length (bottomRight pps) = unat (numSliceGroups pps) - 1)
        \<and> (sliceGroupMapType pps = 6 \<longrightarrow> length (sliceGroupId pps) = unat (picSizeInMapUnits pps)
             \<and> (\<forall>g \<in> set (sliceGroupId pps). g < numSliceGroups pps)))"

text \<open>A loop that succeeds keeps what each round keeps.\<close>

lemma ForLoop_rule:
  assumes "ForLoop body i n h s = Some (HANTRO_OK, h', s')" "P i h"
    and "\<And>j h s h' s'. P j h \<Longrightarrow> body j h s = Some (HANTRO_OK, h', s') \<Longrightarrow> P (Suc j) h'"
  shows "P (i + n) h'"
  using assms(1,2)
proof (induction n arbitrary: i h s)
  case (Suc n)
  from Suc.prems(1) obtain h1 s1 where "body i h s = Some (HANTRO_OK, h1, s1)"
    "ForLoop body (Suc i) n h1 s1 = Some (HANTRO_OK, h', s')"
    by (auto split: bind_splits if_splits)
  then show ?case using Suc.IH [of "Suc i" h1 s1] assms(3) [OF Suc.prems(2)] by simp
qed simp

lemma For_rule:
  assumes "For bound body h s = Some (HANTRO_OK, h', s')" "P 0 h"
    and "\<And>j h s h' s'. P j h \<Longrightarrow> body j h s = Some (HANTRO_OK, h', s') \<Longrightarrow> P (Suc j) h'"
  shows "P (bound h) h'"
  using ForLoop_rule [of body 0 "bound h" h s h' s' P] assms by (simp add: For_def)

lemma run_lengths_parsed:
  fixes h h' :: picParamSet
  assumes "For (\<lambda>h. unat (numSliceGroups h)) (\<lambda>i. ReadUe any (\<lambda>v h. h\<lparr>runLength := runLength h @ [v + 1]\<rparr>)) h s
      = Some (HANTRO_OK, h', s')" "runLength h = []"
  shows "length (runLength h') = unat (numSliceGroups h') \<and> numSliceGroups h' = numSliceGroups h
    \<and> sliceGroupMapType h' = sliceGroupMapType h"
proof -
  define P where "P = (\<lambda>j (h' :: picParamSet). length (runLength h') = j \<and> numSliceGroups h' = numSliceGroups h
    \<and> sliceGroupMapType h' = sliceGroupMapType h)"
  have "P (unat (numSliceGroups h)) h'"
    by (rule For_rule [OF assms(1), of P]) (auto simp: P_def assms(2) parsed)
  then show ?thesis unfolding P_def by auto
qed

lemma rectangles_parsed:
  fixes h h' :: picParamSet
  assumes "For (\<lambda>h. unat (numSliceGroups h - 1))
      (\<lambda>i. parse_all [ReadUe any (\<lambda>v h. h\<lparr>topLeft := topLeft h @ [v]\<rparr>),
                      ReadUe any (\<lambda>v h. h\<lparr>bottomRight := bottomRight h @ [v]\<rparr>)]) h s
      = Some (HANTRO_OK, h', s')" "topLeft h = []" "bottomRight h = []"
  shows "length (topLeft h') = unat (numSliceGroups h' - 1) \<and> length (bottomRight h') = unat (numSliceGroups h' - 1)
    \<and> numSliceGroups h' = numSliceGroups h \<and> sliceGroupMapType h' = sliceGroupMapType h"
proof -
  define P where "P = (\<lambda>j (h' :: picParamSet). length (topLeft h') = j \<and> length (bottomRight h') = j
    \<and> numSliceGroups h' = numSliceGroups h \<and> sliceGroupMapType h' = sliceGroupMapType h)"
  have "P (unat (numSliceGroups h - 1)) h'"
    by (rule For_rule [OF assms(1), of P]) (auto simp: P_def assms(2,3) parsed)
  then show ?thesis unfolding P_def by auto
qed

lemma group_ids_parsed:
  fixes h h' :: picParamSet
  assumes "For (\<lambda>h. unat (picSizeInMapUnits h)) StoreSliceGroupId h s = Some (HANTRO_OK, h', s')" "sliceGroupId h = []"
  shows "length (sliceGroupId h') = unat (picSizeInMapUnits h') \<and> (\<forall>g \<in> set (sliceGroupId h'). g < numSliceGroups h')
    \<and> numSliceGroups h' = numSliceGroups h \<and> sliceGroupMapType h' = sliceGroupMapType h"
proof -
  define P where "P = (\<lambda>j (h' :: picParamSet). length (sliceGroupId h') = j
    \<and> (\<forall>g \<in> set (sliceGroupId h'). g < numSliceGroups h') \<and> picSizeInMapUnits h' = picSizeInMapUnits h
    \<and> numSliceGroups h' = numSliceGroups h \<and> sliceGroupMapType h' = sliceGroupMapType h)"
  have "P (unat (picSizeInMapUnits h)) h'"
    by (rule For_rule [OF assms(1), of P]) (auto simp: P_def assms(2) StoreSliceGroupId_def not_le split: bind_splits if_splits)
  then show ?thesis unfolding P_def by auto
qed

abbreviation group_params where
  "group_params h \<equiv> (numSliceGroups h, sliceGroupMapType h, runLength h, topLeft h, bottomRight h, sliceGroupId h,
     picSizeInMapUnits h)"

lemma slice_groups_parsed:
  fixes h h' :: picParamSet
  assumes "parse_all (DecodeSliceGroups got) h s = Some (HANTRO_OK, h', s')"
    and "runLength h = []" "topLeft h = []" "bottomRight h = []" "sliceGroupId h = []"
    and "1 < numSliceGroups h" "unat (numSliceGroups h) \<le> 8"
  shows "groups_parsed h'"
proof -
  from assms(1) obtain t s1 where t: "t \<le> 6"
    and step: "DecodeGroupParameters got (h\<lparr>sliceGroupMapType := t\<rparr>) s1 = Some (HANTRO_OK, h', s')"
    by (auto simp: DecodeSliceGroups_def parsed not_less)
  have n1: "unat (numSliceGroups h - 1) = unat (numSliceGroups h) - 1"
    using assms(6) by (simp add: unat_sub word_le_nat_alt word_less_nat_alt)
  note step = step [unfolded DecodeGroupParameters_def]
  consider (runs) "t = 0" | (rects) "t = 2" | (change) "t = 3 \<or> t = 4 \<or> t = 5" | (ids) "t = 6" | (other) "t = 1"
  proof -
    have "unat t \<le> 6" using t by (simp add: word_le_nat_alt)
    then have "unat t = 0 \<or> unat t = 1 \<or> unat t = 2 \<or> unat t = 3 \<or> unat t = 4 \<or> unat t = 5 \<or> unat t = 6" by linarith
    then have "t = 0 \<or> t = 1 \<or> t = 2 \<or> t = 3 \<or> t = 4 \<or> t = 5 \<or> t = 6" by (simp add: word_unat_eq_iff)
    then show thesis using that by blast
  qed
  then show ?thesis
  proof cases
    case runs
    with step obtain s2 s3 where "For (\<lambda>h. unat (numSliceGroups h))
        (\<lambda>i. ReadUe any (\<lambda>v h. h\<lparr>runLength := runLength h @ [v + 1]\<rparr>)) (h\<lparr>sliceGroupMapType := 0\<rparr>) s2
        = Some (HANTRO_OK, h', s3)" by (auto simp: parsed)
    from run_lengths_parsed [OF this] show ?thesis using assms(2,7) by (simp add: groups_parsed_def)
  next
    case rects
    with step obtain s2 s3 where "For (\<lambda>h. unat (numSliceGroups h - 1))
        (\<lambda>i. parse_all [ReadUe any (\<lambda>v h. h\<lparr>topLeft := topLeft h @ [v]\<rparr>),
                        ReadUe any (\<lambda>v h. h\<lparr>bottomRight := bottomRight h @ [v]\<rparr>)]) (h\<lparr>sliceGroupMapType := 2\<rparr>) s2
        = Some (HANTRO_OK, h', s3)" by (auto simp: parsed)
    from rectangles_parsed [OF this] show ?thesis using assms(3,4,7) n1 by (simp add: groups_parsed_def)
  next
    case change
    with step have "group_params h' = group_params (h\<lparr>sliceGroupMapType := t\<rparr>)" by (auto simp: parsed)
    then show ?thesis using change t assms(7) by (auto simp: groups_parsed_def)
  next
    case ids
    with step obtain u s2 s3 where "For (\<lambda>h. unat (picSizeInMapUnits h)) StoreSliceGroupId
        (h\<lparr>sliceGroupMapType := 6, picSizeInMapUnits := u\<rparr>) s2 = Some (HANTRO_OK, h', s3)" by (auto simp: parsed)
    from group_ids_parsed [OF this] show ?thesis using assms(5,7) by (auto simp: groups_parsed_def)
  next
    case other
    with step have "h' = h\<lparr>sliceGroupMapType := 1\<rparr>" by (auto simp: parsed)
    then show ?thesis using assms(7) by (simp add: groups_parsed_def)
  qed
qed

lemma rest_of_pps_keeps: "keeps (\<lambda>h. group_params h) (parse_all PicParamEnd)"
proof -
  have "keeps f (IgnoreTrailingBits :: picParamSet step)" for f :: "picParamSet \<Rightarrow> 'x"
    by (auto simp: keeps_def IgnoreTrailingBits_def split: bind_splits)
  then show ?thesis unfolding PicParamEnd_def by (intro keeps_parse_all) (auto intro!: keeping)
qed

lemma pps_parsed:
  assumes "h264bsdDecodePicParamSet got s = Some (HANTRO_OK, pps, s')"
  shows "groups_parsed pps"
proof -
  from assms obtain h1 s1 h2 s2 where
    start: "parse_all PicParamStart zeroPps s = Some (HANTRO_OK, h1, s1)" and
    groups: "When (\<lambda>h. numSliceGroups h > 1) (DecodeSliceGroups got) h1 s1 = Some (HANTRO_OK, h2, s2)" and
    fin: "parse_all PicParamEnd h2 s2 = Some (HANTRO_OK, pps, s')"
    by (auto simp: h264bsdDecodePicParamSet_def parse_all_append parse_all_Cons parse_all_Nil)
  have h1: "runLength h1 = [] \<and> topLeft h1 = [] \<and> bottomRight h1 = [] \<and> sliceGroupId h1 = [] \<and> numSliceGroups h1 \<le> 8"
    using start by (auto simp: PicParamStart_def parsed zeroPps_def MAX_NUM_SLICE_GROUPS_def not_less)
  then have n: "unat (numSliceGroups h1) \<le> 8" by (simp add: word_le_nat_alt)
  have "groups_parsed h2"
  proof (cases "1 < numSliceGroups h1")
    case True
    then show ?thesis using slice_groups_parsed [of got h1 s1 h2 s2] groups h1 n by (simp add: IfElse_OK)
  next
    case False
    then show ?thesis using groups n by (simp add: IfElse_OK parse_all_Nil groups_parsed_def)
  qed
  then show ?thesis using keepsD [OF rest_of_pps_keeps fin] by (simp add: groups_parsed_def)
qed

section \<open>Parameters that were checked\<close>

lemma CheckRunLengths_OK:
  assumes "CheckRunLengths runs picSize i n = Some HANTRO_OK" "i \<le> j" "j < i + n"
  shows "j < length runs \<and> runs ! j \<le> picSize"
  using assms
proof (induction n arbitrary: i)
  case (Suc n)
  then show ?case using Suc.IH [of "Suc i"] by (cases "j = i") (auto split: if_splits bind_splits)
qed simp

lemma CheckRectangles_OK:
  assumes "CheckRectangles tls brs picSize w i n = Some HANTRO_OK" "i \<le> j" "j < i + n"
  shows "j < length tls \<and> j < length brs \<and> brs ! j < picSize"
  using assms
proof (induction n arbitrary: i)
  case (Suc n)
  then show ?case using Suc.IH [of "Suc i"] by (cases "j = i") (auto split: if_splits bind_splits)
qed simp

section \<open>The values of the standard are group numbers\<close>

lemma run_pattern_groups: "g \<in> set (run_pattern runs n) \<Longrightarrow> n < 2 ^ 32 \<Longrightarrow> unat g < n"
  by (auto simp: run_pattern_def split: if_splits)

lemma interleaved_groups:
  assumes "whole_pattern runs \<noteq> []" "length runs < 2 ^ 32"
  shows "unat (interleaved runs k) < length runs"
  using assms by (intro run_pattern_groups [of _ runs]) (simp_all add: interleaved_def)

lemma foreground_groups:
  assumes "n < 2 ^ 32"
  shows "unat (foreground w tls brs n b k) < n \<or> foreground w tls brs n b k = b"
  using assms by (auto simp: foreground_def find_Some_iff split: option.splits)

lemma whole_pattern_nonempty:
  assumes "0 < length runs" "0 \<notin> set runs"
  shows "whole_pattern runs \<noteq> []"
proof -
  have "runs ! 0 \<noteq> 0" using assms nth_mem [of 0 runs] by metis
  then have "0 < unat (runs ! 0)" by (simp add: unat_gt_0)
  from run_pattern_nth [OF assms(1) this] show ?thesis by auto
qed

section \<open>The map computed is the map of the standard\<close>

definition map_is :: "u32 list option \<Rightarrow> nat \<Rightarrow> (nat \<Rightarrow> u32) \<Rightarrow> u32 \<Rightarrow> bool" where
  "map_is r mbs f n \<longleftrightarrow>
     (\<exists>m. r = Some m \<and> length m = mbs \<and> (\<forall>k < mbs. m ! k = f k \<and> f k < n))"

lemma pass_map_is:
  assumes "length m = unat mbs" "\<And>k. k < unat mbs \<Longrightarrow> f (of_nat k) = Some (g k) \<and> g k < n"
  shows "map_is (ForEach f m 0 mbs) (unat mbs) g n"
  using ForEach_spec [of mbs m 0 f g] assms by (force simp: map_is_def)

lemma interleaved_map_is:
  assumes "length m = unat mbs" "unat mbs \<le> 2 ^ 31" "\<forall>r \<in> set runs. unat r \<le> unat mbs" "0 \<notin> set runs"
    and "unat n = length runs" "n \<noteq> 0"
  shows "map_is (DecodeInterleavedMap m n runs mbs) (unat mbs) (interleaved runs) n"
proof -
  have len: "0 < length runs" "length runs < 2 ^ 32"
    using assms(5,6) unat_eq_zero [of n] u32_less [of n] by (simp_all flip: assms(5) add: unat_gt_0)
  have ne: "whole_pattern runs \<noteq> []" by (rule whole_pattern_nonempty [OF len(1) assms(4)])
  from InterleavedLoop_spec [OF assms(1-3) ne, of 0 0 n] assms(5) obtain m' where
    "DecodeInterleavedMap m n runs mbs = Some m'" "length m' = unat mbs" "filled (interleaved runs) (unat mbs) m'"
    by (auto simp: DecodeInterleavedMap_def filled_def)
  moreover have "interleaved runs k < n" for k
    using interleaved_groups [OF ne len(2), of k] by (simp add: word_less_nat_alt assms(5))
  ultimately show ?thesis by (simp add: map_is_def filled_def)
qed

lemma foreground_map_is:
  assumes "length m = unat w * unat h" "unat (w * h) = unat w * unat h" "unat w * unat h \<le> 2 ^ 28" "0 < unat w"
    and "1 < n" "length tls = unat n - 1" "length brs = unat n - 1" "\<forall>g < unat n - 1. unat (brs ! g) < unat w * unat h"
  shows "map_is (DecodeForegroundLeftOverMap m n tls brs w h) (unat w * unat h)
    (foreground (unat w) tls brs (unat n - 1) (n - 1)) n"
proof -
  have n1: "unat (n - 1) = unat n - 1" "unat n - 1 < 2 ^ 32" "n - 1 < n"
    using assms(5) u32_less [of n] by (simp_all add: unat_sub word_le_nat_alt word_less_nat_alt)
  from ForEach_spec [of "w * h" m 0 "\<lambda>_. Some (n - 1)" "\<lambda>_. n - 1"] assms(1,2) obtain m1 where
    m1: "ForEach (\<lambda>_. Some (n - 1)) m 0 (w * h) = Some m1" "length m1 = length m"
    "\<forall>k < length m. m1 ! k = n - 1" by auto
  from ForegroundGroups_spec [of m1 w "unat h" "unat n - 1" tls brs] assms m1(2) obtain m2 where
    "ForegroundGroups tls brs w m1 (unat n - 1) = Some m2" "length m2 = length m"
    "\<forall>k < length m. m2 ! k = foreground (unat w) tls brs (unat n - 1) (m1 ! k) k" by auto
  moreover have "foreground (unat w) tls brs (unat n - 1) (n - 1) k < n" for k
    using foreground_groups [OF n1(2), of "unat w" tls brs "n - 1" k] n1(3) by (auto simp: word_less_nat_alt)
  ultimately show ?thesis using m1 assms(1)
    by (simp add: map_is_def DecodeForegroundLeftOverMap_def n1(1))
qed

lemma wipe_map_is:
  assumes "length m = unat w * unat h" "unat w * unat h \<le> 2 ^ 28" "1 < n"
  shows "map_is (DecodeWipeMap m d ul w h) (unat w * unat h) (wiped d ul (unat w) (unat h)) n"
proof -
  have "group_of_flag d b < n" for b
    using assms(3) by (simp add: group_of_flag_def word_less_nat_alt)
  then show ?thesis using WipeColumns_spec [of m w h 0 0 d ul] assms(1,2)
    by (auto simp: map_is_def DecodeWipeMap_def)
qed

lemma cleared_map_is:
  assumes "length m = unat mbs" "unat mbs \<le> 2 ^ 28"
  shows "map_is (ClearMap m mbs) (unat mbs) (\<lambda>_. 0) 1"
proof -
  have "unat (mbs * 4) = unat mbs * 4" using assms(2) unat_mult_lem [of mbs 4] by simp
  then show ?thesis using assms(1) by (simp add: map_is_def ClearMap_def)
qed

lemma map_is_cong: "map_is r N f n \<Longrightarrow> (\<And>k. k < N \<Longrightarrow> f k = g k) \<Longrightarrow> map_is r N g n"
  by (simp add: map_is_def)

text \<open>The parameters the functions of a map are called with.\<close>

lemma upper_left_standard:
  assumes "unat cycle * unat (sliceGroupChangeRate pps) < 2 ^ 32" "unat (w * h) = unat w * unat h"
  defines "units \<equiv> min (cycle * sliceGroupChangeRate pps) (w * h)"
  shows "unat (if sliceGroupChangeDirectionFlag pps then w * h - units else units)
    = standard_upper_left pps cycle (unat w * unat h)"
proof -
  have "unat (cycle * sliceGroupChangeRate pps) = unat cycle * unat (sliceGroupChangeRate pps)"
    using assms(1) unat_mult_lem [of cycle "sliceGroupChangeRate pps"] by simp
  then have u: "unat units = standard_units pps cycle (unat w * unat h)"
    using assms(2) by (simp add: units_def standard_units_def min_def word_le_nat_alt)
  moreover have "units \<le> w * h" by (simp add: units_def)
  ultimately show ?thesis using assms(2) by (simp add: standard_upper_left_def unat_sub)
qed

lemma group_of_flag_number: "group_of_flag d b = (if b then flag_number d else 1 - flag_number d)"
  by (simp add: group_of_flag_def flag_number_def)

text \<open>What the parser and the activation of a picture parameter set establish, together with the
  conditions they do not check.\<close>

definition map_args :: "picParamSet \<Rightarrow> seqParamSet \<Rightarrow> u32 \<Rightarrow> u32 list \<Rightarrow> u32 \<Rightarrow> u32 \<Rightarrow> bool" where
  "map_args pps sps cycle m w h \<longleftrightarrow>
     groups_parsed pps \<and> CheckPps pps sps = Some HANTRO_OK
     \<and> picWidthInMbs sps = w \<and> picHeightInMbs sps = h \<and> length m = unat w * unat h
     \<and> 0 < unat w * unat h \<and> unat w * unat h \<le> 2 ^ 28
     \<and> numSliceGroups pps \<noteq> 0 \<and> 0 \<notin> set (runLength pps)
     \<and> unat cycle * unat (sliceGroupChangeRate pps) < 2 ^ 32"

lemma map_args_facts:
  assumes "map_args pps sps cycle m w h" "numSliceGroups pps \<noteq> 1"
  shows "unat (w * h) = unat w * unat h" "1 < numSliceGroups pps" "1 < unat (numSliceGroups pps)"
    "unat (numSliceGroups pps) \<le> 8" "0 < unat w" "length m = unat w * unat h" "unat w * unat h \<le> 2 ^ 28"
    "unat (numSliceGroups pps - 1) = unat (numSliceGroups pps) - 1"
proof -
  show wh: "unat (w * h) = unat w * unat h" using assms(1) unat_mult_lem [of w h] by (simp add: map_args_def)
  have "unat (numSliceGroups pps) \<noteq> 0" "unat (numSliceGroups pps) \<noteq> 1"
    using assms by (simp_all add: map_args_def word_unat_eq_iff)
  then show n1: "1 < numSliceGroups pps" and "1 < unat (numSliceGroups pps)" by (simp_all add: word_less_nat_alt)
  show "unat (numSliceGroups pps - 1) = unat (numSliceGroups pps) - 1"
    using n1 by (simp add: unat_sub word_le_nat_alt word_less_nat_alt)
qed (use assms in \<open>simp_all add: map_args_def groups_parsed_def\<close>)

abbreviation standard_map_is where
  "standard_map_is m pps cycle w h \<equiv> map_is (h264bsdDecodeSliceGroupMap m pps cycle w h) (unat w * unat h)
     (standard_group pps cycle (unat w) (unat h)) (numSliceGroups pps)"

lemma interleaved_standard:
  assumes args: "map_args pps sps cycle m w h" and n: "numSliceGroups pps \<noteq> 1" and t: "sliceGroupMapType pps = 0"
  shows "standard_map_is m pps cycle w h"
proof -
  note facts = map_args_facts [OF args n]
  have len: "length (runLength pps) = unat (numSliceGroups pps)"
    using args facts(2) t by (simp add: map_args_def groups_parsed_def)
  have "CheckRunLengths (runLength pps) (w * h) 0 (unat (numSliceGroups pps)) = Some HANTRO_OK"
    using args facts(2) t by (auto simp: map_args_def CheckPps_def Let_def)
  from CheckRunLengths_OK [OF this] have "\<forall>r \<in> set (runLength pps). unat r \<le> unat (w * h)"
    by (auto simp: in_set_conv_nth len word_le_nat_alt)
  moreover have "standard_group pps cycle (unat w) (unat h) = interleaved (runLength pps)"
    using n t by (simp add: standard_group_def fun_eq_iff)
  ultimately show ?thesis using interleaved_map_is [of m "w * h" "runLength pps" "numSliceGroups pps"] args facts(1,6,7) n t len
    by (simp add: h264bsdDecodeSliceGroupMap_def map_args_def Let_def)
qed

lemma dispersed_standard:
  assumes args: "map_args pps sps cycle m w h" and n: "numSliceGroups pps \<noteq> 1" and t: "sliceGroupMapType pps = 1"
  shows "standard_map_is m pps cycle w h"
proof -
  let ?n = "numSliceGroups pps" and ?std = "standard_group pps cycle (unat w) (unat h)"
  note facts = map_args_facts [OF args n]
  have "map_is (DecodeDispersedMap m ?n w h) (unat (w * h)) ?std ?n"
    unfolding DecodeDispersedMap_def
  proof (rule pass_map_is)
    fix k assume "k < unat (w * h)"
    then have k: "k < unat w * unat h" by (simp add: facts)
    have "w \<noteq> 0" using facts(5) by auto
    moreover have "?std k = of_nat ((k mod unat w + k div unat w * unat ?n div 2) mod unat ?n)"
      using n t by (simp add: standard_group_def Let_def)
    moreover have "(of_nat (j mod unat ?n) :: u32) < ?n" for j
    proof -
      have "j mod unat ?n < unat ?n" using facts(3) by (intro mod_less_divisor) simp
      then show ?thesis using facts(4) by (simp add: word_less_nat_alt)
    qed
    ultimately show "(if w = 0 \<or> ?n = 0 then None
        else Some ((of_nat k mod w + drop_bit 1 (of_nat k div w * ?n)) mod ?n)) = Some (?std k) \<and> ?std k < ?n"
      using dispersed_value [OF k facts(7,4)] args by (simp add: map_args_def)
  qed (simp add: facts)
  then show ?thesis using n t by (simp add: h264bsdDecodeSliceGroupMap_def facts(1) Let_def)
qed

lemma foreground_standard:
  assumes args: "map_args pps sps cycle m w h" and n: "numSliceGroups pps \<noteq> 1" and t: "sliceGroupMapType pps = 2"
  shows "standard_map_is m pps cycle w h"
proof -
  note facts = map_args_facts [OF args n]
  have len: "length (topLeft pps) = unat (numSliceGroups pps) - 1" "length (bottomRight pps) = unat (numSliceGroups pps) - 1"
    using args facts(2) t by (simp_all add: map_args_def groups_parsed_def)
  have "CheckRectangles (topLeft pps) (bottomRight pps) (w * h) w 0 (unat (numSliceGroups pps - 1)) = Some HANTRO_OK"
    using args facts(2) t by (auto simp: map_args_def CheckPps_def Let_def)
  from CheckRectangles_OK [OF this [unfolded facts(8)]]
  have "\<forall>g < unat (numSliceGroups pps) - 1. unat (bottomRight pps ! g) < unat w * unat h"
    by (simp add: word_less_nat_alt flip: facts(1))
  from foreground_map_is [OF facts(6,1,7,5,2) len this] show ?thesis
    using n t by (auto simp: h264bsdDecodeSliceGroupMap_def standard_group_def Let_def elim: map_is_cong)
qed

lemma flag_group_less: "1 < n \<Longrightarrow> group_of_flag d b < n"
  by (simp add: group_of_flag_def word_less_nat_alt)

lemma raster_standard:
  assumes args: "map_args pps sps cycle m w h" and n: "numSliceGroups pps \<noteq> 1" and t: "sliceGroupMapType pps = 4"
  shows "standard_map_is m pps cycle w h"
proof -
  let ?n = "numSliceGroups pps" and ?d = "sliceGroupChangeDirectionFlag pps"
  note facts = map_args_facts [OF args n]
  define units where "units = min (cycle * sliceGroupChangeRate pps) (w * h)"
  define ul where "ul = (if ?d then w * h - units else units)"
  have ul: "unat ul = standard_upper_left pps cycle (unat w * unat h)"
    unfolding ul_def units_def using args facts(1) by (intro upper_left_standard) (simp_all add: map_args_def)
  have "map_is (DecodeRasterScanMap m ?d ul (w * h)) (unat (w * h)) (standard_group pps cycle (unat w) (unat h)) ?n"
    unfolding DecodeRasterScanMap_def
  proof (rule pass_map_is)
    fix k assume "k < unat (w * h)"
    then have "unat (of_nat k :: u32) = k" using facts(7) by (simp add: facts)
    then have "group_of_flag ?d (of_nat k < ul) = standard_group pps cycle (unat w) (unat h) k"
      using n t by (simp add: standard_group_def group_of_flag_number word_less_nat_alt ul Let_def)
    then show "Some (group_of_flag ?d (of_nat k < ul)) = Some (standard_group pps cycle (unat w) (unat h) k)
        \<and> standard_group pps cycle (unat w) (unat h) k < ?n" using flag_group_less [OF facts(2)] by metis
  qed (simp add: facts)
  then show ?thesis using n t by (simp add: h264bsdDecodeSliceGroupMap_def ul_def units_def facts(1) Let_def split: if_splits)
qed

lemma wipe_standard:
  assumes args: "map_args pps sps cycle m w h" and n: "numSliceGroups pps \<noteq> 1" and t: "sliceGroupMapType pps = 5"
  shows "standard_map_is m pps cycle w h"
proof -
  let ?d = "sliceGroupChangeDirectionFlag pps"
  note facts = map_args_facts [OF args n]
  define units where "units = min (cycle * sliceGroupChangeRate pps) (w * h)"
  define ul where "ul = (if ?d then w * h - units else units)"
  have ul: "unat ul = standard_upper_left pps cycle (unat w * unat h)"
    unfolding ul_def units_def using args facts(1) by (intro upper_left_standard) (simp_all add: map_args_def)
  have "wiped ?d ul (unat w) (unat h) k = standard_group pps cycle (unat w) (unat h) k" for k
    using n t by (simp add: standard_group_def group_of_flag_number ul Let_def)
  with wipe_map_is [OF facts(6,7,2), of ?d ul]
  have "map_is (DecodeWipeMap m ?d ul w h) (unat w * unat h) (standard_group pps cycle (unat w) (unat h)) (numSliceGroups pps)"
    by (simp add: map_is_def)
  then show ?thesis using n t by (simp add: h264bsdDecodeSliceGroupMap_def ul_def units_def Let_def split: if_splits)
qed

lemma assigned_standard:
  assumes args: "map_args pps sps cycle m w h" and n: "numSliceGroups pps \<noteq> 1" and t: "sliceGroupMapType pps = 6"
  shows "standard_map_is m pps cycle w h"
proof -
  note facts = map_args_facts [OF args n]
  have ids: "length (sliceGroupId pps) = unat (picSizeInMapUnits pps)"
    "\<forall>g \<in> set (sliceGroupId pps). g < numSliceGroups pps"
    using args facts(2) t by (simp_all add: map_args_def groups_parsed_def)
  have "\<not> picSizeInMapUnits pps < w * h"
    using args facts(2) t by (auto simp: map_args_def CheckPps_def Let_def split: if_splits)
  then have "unat w * unat h \<le> length (sliceGroupId pps)" by (simp add: ids word_less_nat_alt facts)
  then have "map_is (ForEach (\<lambda>i. rd (sliceGroupId pps) (unat i)) m 0 (w * h)) (unat (w * h))
      (standard_group pps cycle (unat w) (unat h)) (numSliceGroups pps)"
    using ids(2) n t facts(6,7) by (intro pass_map_is) (simp_all add: facts standard_group_def)
  then show ?thesis using n t by (simp add: h264bsdDecodeSliceGroupMap_def facts(1) Let_def)
qed

lemma slice_group_map_is_standard:
  assumes args: "map_args pps sps cycle m w h" and t3: "sliceGroupMapType pps \<noteq> 3"
  shows "standard_map_is m pps cycle w h"
proof (cases "numSliceGroups pps = 1")
  case True
  have "unat (w * h) = unat w * unat h" using args unat_mult_lem [of w h] by (simp add: map_args_def)
  then show ?thesis using cleared_map_is [of m "w * h"] args True
    by (simp add: map_args_def map_is_def h264bsdDecodeSliceGroupMap_def standard_group_def Let_def)
next
  case False
  have "unat (sliceGroupMapType pps) \<le> 6" "unat (sliceGroupMapType pps) \<noteq> 3"
    using args map_args_facts(2) [OF args False] t3
    by (simp_all add: map_args_def groups_parsed_def word_le_nat_alt word_unat_eq_iff)
  then have "unat (sliceGroupMapType pps) \<in> {0, 1, 2, 4, 5, 6}" by auto
  then show ?thesis
    using interleaved_standard [OF args False] dispersed_standard [OF args False] foreground_standard [OF args False]
      raster_standard [OF args False] wipe_standard [OF args False] assigned_standard [OF args False]
    by (auto simp: word_unat_eq_iff)
qed

end
