(* ===== verification/H264SpsFacts.thy ===== *)
theory H264SpsFacts
  imports H264MapStandard
begin

text \<open>
  What the parser of sequence parameter sets guarantees of the sets it accepts.
\<close>

definition power_of_two :: "nat \<Rightarrow> nat \<Rightarrow> u32 \<Rightarrow> bool" where
  "power_of_two lo hi x \<longleftrightarrow> (\<exists>k. lo \<le> k \<and> k \<le> hi \<and> unat x = 2 ^ k)"

definition sps_accepted :: "seqParamSet \<Rightarrow> bool" where
  "sps_accepted sps \<longleftrightarrow> unat (seqParameterSetId sps) < 32
     \<and> power_of_two 4 16 (maxFrameNum sps)
     \<and> unat (picOrderCntType sps) \<le> 2
     \<and> (picOrderCntType sps = 0 \<longrightarrow> power_of_two 4 16 (maxPicOrderCntLsb sps))
     \<and> (picOrderCntType sps = 1 \<longrightarrow> unat (numRefFramesInPicOrderCntCycle sps) \<le> 255
          \<and> length (offsetForRefFrame sps) = unat (numRefFramesInPicOrderCntCycle sps))
     \<and> unat (spsNumRefFrames sps) \<le> 16 \<and> unat (spsNumRefFrames sps) \<le> unat (maxDpbSize sps)
     \<and> unat (maxDpbSize sps) \<le> 16
     \<and> (maxDpbSize sps = 0 \<longrightarrow> spsNumRefFrames sps = 0
          \<and> GetDpbSize (picWidthInMbs sps * picHeightInMbs sps) (levelIdc sps) = Some INVALID_DPB_SIZE)"

section \<open>The size a level allows\<close>

lemma levelLimits_room: "levelLimits level = Some (bytes, mbs) \<Longrightarrow> unat mbs \<le> 36864 \<and> unat mbs * 384 \<le> unat bytes"
  by (auto simp: levelLimits_def split: if_splits)

lemma GetDpbSize_range:
  assumes "GetDpbSize mbs level = Some v" "v \<noteq> INVALID_DPB_SIZE"
  shows "1 \<le> unat v \<and> unat v \<le> 16"
proof -
  from assms obtain bytes limit where limits: "levelLimits level = Some (bytes, limit)" "\<not> mbs > limit"
    "mbs * 384 \<noteq> 0" "v = min (bytes div (mbs * 384)) 16"
    by (auto simp: GetDpbSize_def split: option.splits if_splits)
  have "unat mbs \<le> unat limit" using limits(2) by (simp add: word_less_nat_alt)
  moreover note levelLimits_room [OF limits(1)]
  ultimately have "unat mbs * 384 \<le> unat bytes" "unat mbs \<le> 36864" by linarith+
  then have le: "unat mbs * 384 \<le> unat bytes" "unat mbs * 384 < 2 ^ 32" by simp_all
  then have prod: "unat (mbs * 384) = unat mbs * 384" using unat_mult_lem [of mbs 384] by simp
  have "0 < unat mbs * 384" using limits(3) prod by (simp add: unat_gt_0 [symmetric])
  then have "1 \<le> unat bytes div (unat mbs * 384)" using le(1) by (metis One_nat_def Suc_leI div_greater_zero_iff)
  then have "1 \<le> unat (bytes div (mbs * 384))" by (simp add: unat_div prod)
  then show ?thesis unfolding limits(4) by (simp add: min_def word_le_nat_alt)
qed

section \<open>The groups of elements\<close>

lemma shifted_power: "\<not> 12 < unat v \<Longrightarrow> power_of_two 4 16 (2 ^ unat (v + 4))" for v :: u32
proof -
  assume v: "\<not> 12 < unat v"
  then have "unat (v + 4) = unat v + 4" using unat_add_lem [of v 4] by simp
  moreover have "unat (2 ^ k :: u32) = 2 ^ k" if "k \<le> 16" for k
  proof -
    have "(2 :: nat) ^ k < 2 ^ 32" using that by (intro power_strict_increasing) auto
    then show ?thesis using unat_of_nat_small [of "2 ^ k"] by simp
  qed
  ultimately show ?thesis using v by (auto simp: power_of_two_def intro!: exI [of _ "unat v + 4"])
qed

lemma SkipBits_OK [parsed]:
  "SkipBits n h s = Some (HANTRO_OK, h', s') \<longleftrightarrow> h' = h \<and> (\<exists>v. h264bsdGetBits s n = Some (v, s'))"
  by (auto simp: SkipBits_def split: bind_splits)

lemma ids_accepted:
  assumes "parse_all SeqParamIds zeroSps s = Some (HANTRO_OK, h, s')"
  shows "unat (seqParameterSetId h) < 32 \<and> power_of_two 4 16 (maxFrameNum h) \<and> offsetForRefFrame h = []"
  using assms
  by (auto simp: SeqParamIds_def parsed zeroSps_def MAX_NUM_SEQ_PARAM_SETS_def not_le word_less_nat_alt
        intro!: shifted_power)

abbreviation poc_params where
  "poc_params h \<equiv> (picOrderCntType h, maxPicOrderCntLsb h, numRefFramesInPicOrderCntCycle h, offsetForRefFrame h)"

lemma poc_cycle_parsed:
  fixes h h' :: seqParamSet
  assumes "parse_all (DecodePocCycle got) h s = Some (HANTRO_OK, h', s')" "offsetForRefFrame h = []"
  shows "unat (numRefFramesInPicOrderCntCycle h') \<le> 255
    \<and> length (offsetForRefFrame h') = unat (numRefFramesInPicOrderCntCycle h')
    \<and> picOrderCntType h' = picOrderCntType h \<and> seqParameterSetId h' = seqParameterSetId h \<and> maxFrameNum h' = maxFrameNum h"
proof -
  from assms(1) obtain z n t n_cycle s1 where n: "unat n_cycle \<le> 255"
    and offsets: "DecodeOffsets got (h\<lparr>deltaPicOrderAlwaysZeroFlag := z, offsetForNonRefPic := n,
      offsetForTopToBottomField := t, numRefFramesInPicOrderCntCycle := n_cycle\<rparr>) s1 = Some (HANTRO_OK, h', s')"
    by (auto simp: DecodePocCycle_def parse_all_Cons parse_all_Nil ReadBits_OK ReadSe_OK ReadUe_OK ErrorIf_OK
        not_less word_le_nat_alt)
  define h1 where "h1 = h\<lparr>deltaPicOrderAlwaysZeroFlag := z, offsetForNonRefPic := n,
      offsetForTopToBottomField := t, numRefFramesInPicOrderCntCycle := n_cycle\<rparr>"
  note offsets = offsets [folded h1_def]
  have h1: "offsetForRefFrame h1 = []" "unat (numRefFramesInPicOrderCntCycle h1) \<le> 255"
    "picOrderCntType h1 = picOrderCntType h" "seqParameterSetId h1 = seqParameterSetId h" "maxFrameNum h1 = maxFrameNum h"
    using n assms(2) by (simp_all add: h1_def)
  show ?thesis
  proof (cases "numRefFramesInPicOrderCntCycle h1 = 0")
    case True
    then show ?thesis using offsets h1 by (simp add: DecodeOffsets_def IfElse_OK parse_all_Nil)
  next
    case False
    then obtain s2 where loop: "For (\<lambda>h. unat (numRefFramesInPicOrderCntCycle h))
        (\<lambda>i. ReadSe any (\<lambda>v h. h\<lparr>offsetForRefFrame := offsetForRefFrame h @ [v]\<rparr>)) h1 s2 = Some (HANTRO_OK, h', s')"
      using offsets by (auto simp: DecodeOffsets_def IfElse_OK parse_all_Cons parse_all_Nil ErrorIf_OK)
    define P where "P = (\<lambda>j (h' :: seqParamSet). length (offsetForRefFrame h') = j
      \<and> numRefFramesInPicOrderCntCycle h' = numRefFramesInPicOrderCntCycle h1
      \<and> picOrderCntType h' = picOrderCntType h1 \<and> seqParameterSetId h' = seqParameterSetId h1 \<and> maxFrameNum h' = maxFrameNum h1)"
    have "P (unat (numRefFramesInPicOrderCntCycle h1)) h'"
      by (rule For_rule [OF loop, of P]) (auto simp: P_def h1 ReadSe_OK)
    then show ?thesis using h1 by (simp add: P_def)
  qed
qed

lemma order_cnt_accepted:
  fixes h h' :: seqParamSet
  assumes "parse_all (SeqParamOrderCnt got) h s = Some (HANTRO_OK, h', s')" "offsetForRefFrame h = []"
  shows "unat (picOrderCntType h') \<le> 2 \<and> (picOrderCntType h' = 0 \<longrightarrow> power_of_two 4 16 (maxPicOrderCntLsb h'))
    \<and> (picOrderCntType h' = 1 \<longrightarrow> unat (numRefFramesInPicOrderCntCycle h') \<le> 255
        \<and> length (offsetForRefFrame h') = unat (numRefFramesInPicOrderCntCycle h'))
    \<and> seqParameterSetId h' = seqParameterSetId h \<and> maxFrameNum h' = maxFrameNum h"
proof -
  from assms(1) obtain t s1 where t: "t \<le> 2" and step: "IfElse (\<lambda>h. picOrderCntType h = 0)
       [ReadUe (\<lambda>v. v > 12) (\<lambda>v h. h\<lparr>maxPicOrderCntLsb := push_bit (unat (v + 4)) 1\<rparr>)]
       [When (\<lambda>h. picOrderCntType h = 1) (DecodePocCycle got)] (h\<lparr>picOrderCntType := t\<rparr>) s1 = Some (HANTRO_OK, h', s')"
    by (auto simp: SeqParamOrderCnt_def parse_all_Cons parse_all_Nil ReadUe_OK not_less)
  have t2: "unat t \<le> 2" using t by (simp add: word_le_nat_alt)
  show ?thesis
  proof (cases "t = 1")
    case True
    then have "parse_all (DecodePocCycle got) (h\<lparr>picOrderCntType := 1\<rparr>) s1 = Some (HANTRO_OK, h', s')"
      using step by (simp add: IfElse_OK parse_all_Cons parse_all_Nil)
    from poc_cycle_parsed [OF this] show ?thesis using assms(2) by simp
  next
    case False
    then show ?thesis using step t2
      by (auto simp: IfElse_OK parse_all_Cons parse_all_Nil ReadUe_OK not_less word_le_nat_alt split: if_splits intro!: shifted_power)
  qed
qed

abbreviation params_before_size where
  "params_before_size h \<equiv> (seqParameterSetId h, maxFrameNum h, poc_params h)"

abbreviation params_before_buffer where
  "params_before_buffer h \<equiv> (params_before_size h, spsNumRefFrames h, levelIdc h, picWidthInMbs h, picHeightInMbs h)"

lemma size_keeps: "keeps (\<lambda>h. params_before_size h) (parse_all SeqParamSize)"
proof -
  have "keeps (\<lambda>h. params_before_size h) (parse_all DecodeCropping)"
    unfolding DecodeCropping_def by (intro keeps_parse_all) (auto intro!: keeping keeps_FailWhen)
  then show ?thesis unfolding SeqParamSize_def by (intro keeps_parse_all) (auto intro!: keeping)
qed

lemma size_accepted:
  assumes "parse_all SeqParamSize h s = Some (HANTRO_OK, h', s')"
  shows "unat (spsNumRefFrames h') \<le> 16"
proof -
  from assms obtain v h1 s1 where v: "unat v \<le> 16" "spsNumRefFrames h1 = v"
    and rest: "parse_all (tl (tl SeqParamSize)) h1 s1 = Some (HANTRO_OK, h', s')"
    unfolding SeqParamSize_def list.sel
    by (auto simp: parse_all_Cons [of "ReadUe any (\<lambda>v h. h\<lparr>spsNumRefFrames := v\<rparr>)"] parse_all_Cons [of "FailIf _"]
        ReadUe_OK ErrorIf_OK MAX_NUM_REF_PICS_def not_less word_le_nat_alt)
  have "keeps (\<lambda>h. spsNumRefFrames h) (parse_all DecodeCropping)"
    unfolding DecodeCropping_def by (intro keeps_parse_all) (auto intro!: keeping keeps_FailWhen)
  then have "keeps (\<lambda>h. spsNumRefFrames h) (parse_all (tl (tl SeqParamSize)))"
    unfolding SeqParamSize_def list.sel by (intro keeps_parse_all) (auto intro!: keeping)
  from keepsD [OF this rest] v show ?thesis by simp
qed

section \<open>The size of the buffer\<close>

lemma set_dpb_size_accepted:
  assumes "SetDpbSize h s = Some (HANTRO_OK, h', s')" "unat (spsNumRefFrames h) \<le> 16"
  shows "unat (spsNumRefFrames h') \<le> unat (maxDpbSize h') \<and> unat (maxDpbSize h') \<le> 16
    \<and> (maxDpbSize h' = 0 \<longrightarrow> spsNumRefFrames h' = 0
        \<and> GetDpbSize (picWidthInMbs h * picHeightInMbs h) (levelIdc h) = Some INVALID_DPB_SIZE)
    \<and> params_before_buffer h' = params_before_buffer h"
proof -
  from assms(1) obtain v where v: "GetDpbSize (picWidthInMbs h * picHeightInMbs h) (levelIdc h) = Some v"
    and h': "h' = h\<lparr>maxDpbSize := (if v = INVALID_DPB_SIZE \<or> spsNumRefFrames h > v then spsNumRefFrames h else v)\<rparr>"
    by (auto simp: SetDpbSize_def Let_def split: bind_splits)
  show ?thesis
  proof (cases "v = INVALID_DPB_SIZE")
    case True
    then show ?thesis using v h' assms(2) by simp
  next
    case False
    note range = GetDpbSize_range [OF v False]
    then have "v \<noteq> 0" by auto
    then show ?thesis using range h' assms(2) False by (auto simp: word_less_nat_alt not_less)
  qed
qed

lemma vui_accepted:
  assumes "parse_all (DecodeVui got) h s = Some (HANTRO_OK, h', s')" "unat (maxDpbSize h) \<le> 16"
    and "unat (spsNumRefFrames h) \<le> unat (maxDpbSize h)"
  shows "unat (spsNumRefFrames h') \<le> unat (maxDpbSize h') \<and> unat (maxDpbSize h') \<le> 16
    \<and> (maxDpbSize h' = 0 \<longrightarrow> maxDpbSize h = 0) \<and> params_before_buffer h' = params_before_buffer h"
proof -
  from assms(1) obtain v where ok: "\<not> BufferingInvalid (h\<lparr>vuiParametersOf := Some v\<rparr>)"
    and h': "h' = SetBuffering (h\<lparr>vuiParametersOf := Some v\<rparr>)"
    by (auto simp: DecodeVui_def parsed ReadVui_def split: bind_splits)
  show ?thesis
  proof (cases "bitstreamRestrictionFlag v")
    case True
    then have "unat (spsNumRefFrames h) \<le> unat (maxDecFrameBuffering v)" "unat (maxDecFrameBuffering v) \<le> unat (maxDpbSize h)"
      using ok by (simp_all add: BufferingInvalid_def word_less_nat_alt not_less)
    moreover have "unat (max 1 (maxDecFrameBuffering v)) = max 1 (unat (maxDecFrameBuffering v))"
      by (simp add: max_def word_le_nat_alt)
    moreover have "maxDpbSize h' = max 1 (maxDecFrameBuffering v)" "params_before_buffer h' = params_before_buffer h"
      using True h' by (simp_all add: SetBuffering_def)
    moreover from calculation have "unat (maxDpbSize h') \<noteq> 0" by simp
    then have "maxDpbSize h' \<noteq> 0" by auto
    ultimately show ?thesis using assms(2) by simp
  next
    case False
    then show ?thesis using h' assms(2,3) by (simp add: SetBuffering_def)
  qed
qed

lemma buffer_accepted:
  assumes "parse_all (SeqParamBuffer got) h s = Some (HANTRO_OK, h', s')" "unat (spsNumRefFrames h) \<le> 16"
  shows "unat (spsNumRefFrames h') \<le> unat (maxDpbSize h') \<and> unat (maxDpbSize h') \<le> 16
    \<and> (maxDpbSize h' = 0 \<longrightarrow> spsNumRefFrames h' = 0
        \<and> GetDpbSize (picWidthInMbs h * picHeightInMbs h) (levelIdc h) = Some INVALID_DPB_SIZE)
    \<and> params_before_buffer h' = params_before_buffer h"
proof -
  from assms(1) obtain h1 s1 b h2 s2 s3 where size: "SetDpbSize h s = Some (HANTRO_OK, h1, s1)"
    and vui: "When vuiParametersPresentFlag (DecodeVui got) (h1\<lparr>vuiParametersPresentFlag := b\<rparr>) s2 = Some (HANTRO_OK, h2, s3)"
    and fin: "h' = h2"
    by (auto simp: SeqParamBuffer_def parse_all_Cons parse_all_Nil ReadBits_OK IgnoreTrailingBits_def split: bind_splits)
  note set = set_dpb_size_accepted [OF size assms(2)]
  show ?thesis
  proof (cases b)
    case True
    then have "parse_all (DecodeVui got) (h1\<lparr>vuiParametersPresentFlag := b\<rparr>) s2 = Some (HANTRO_OK, h2, s3)"
      using vui by (simp add: IfElse_OK)
    from vui_accepted [OF this] set fin show ?thesis by auto
  next
    case False
    then show ?thesis using vui set fin by (auto simp: IfElse_OK parse_all_Nil)
  qed
qed

lemma sps_parsed:
  assumes "h264bsdDecodeSeqParamSet gotOffsets gotVui s = Some (HANTRO_OK, sps, s')"
  shows "sps_accepted sps"
proof -
  from assms obtain h1 s1 h2 s2 h3 s3 where
    ids: "parse_all SeqParamIds zeroSps s = Some (HANTRO_OK, h1, s1)" and
    poc: "parse_all (SeqParamOrderCnt gotOffsets) h1 s1 = Some (HANTRO_OK, h2, s2)" and
    size: "parse_all SeqParamSize h2 s2 = Some (HANTRO_OK, h3, s3)" and
    buf: "parse_all (SeqParamBuffer gotVui) h3 s3 = Some (HANTRO_OK, sps, s')"
    unfolding h264bsdDecodeSeqParamSet_def parse_all_append by blast
  note i = ids_accepted [OF ids]
  then have o1: "offsetForRefFrame h1 = []" by simp
  show ?thesis using i order_cnt_accepted [OF poc o1] keepsD [OF size_keeps size] size_accepted [OF size]
      buffer_accepted [OF buf size_accepted [OF size]]
    unfolding sps_accepted_def by auto
qed

end
