(* ===== verification/H264ParamProps.thy ===== *)
theory H264ParamProps
  imports H264PeekFacts H264SpsFacts H264CodeProps H264DpbLife
begin

text \<open>
  Properties of slice headers, parameter sets and slice group maps.
\<close>

section \<open>Sample parameter sets and a slice header\<close>

definition sps1 :: seqParamSet where
  "sps1 = zeroSps\<lparr>maxFrameNum := 16, maxPicOrderCntLsb := 16, spsNumRefFrames := 1, picWidthInMbs := 1,
     picHeightInMbs := 1, maxDpbSize := 1\<rparr>"

definition pps1 :: picParamSet where
  "pps1 = zeroPps\<lparr>numSliceGroups := 1, ppsNumRefIdxL0Active := 1, picInitQp := 26\<rparr>"

definition idr1 :: nalUnit where
  "idr1 = \<lparr>nalUnitType = 5, nalRefIdc = 3\<rparr>"

definition header1 :: strmData where
  "header1 = sample_stream [0x88, 0x81, 0x82, 0xC0]"

definition slice1 :: sliceHeader where
  "slice1 = zeroSlice\<lparr>sliceType := 7, idrPicId := 5,
     decRefPicMarkingOf := zeroMarking\<lparr>noOutputOfPriorPicsFlag := True\<rparr>\<rparr>"

lemma header1_decoded:
  "map_option (\<lambda>(ret, h, s). (ret, h)) (h264bsdDecodeSliceHeader sps1 pps1 idr1 header1) = Some (HANTRO_OK, slice1)"
  by code_simp

text \<open>C31. Whatever the full parser of a slice header accepts, the functions that peek at single
  elements through a copy of the stream read the same values.\<close>

theorem peeks_agree_with_header:
  assumes "h264bsdDecodeSliceHeader sps pps nal s = Some (HANTRO_OK, h, s')"
    and "picParameterSetId pps < MAX_NUM_PIC_PARAM_SETS"
  shows "h264bsdCheckPpsId s v = Some (HANTRO_OK, slicePpsId h)
    \<and> h264bsdCheckFrameNum s (maxFrameNum sps) v = Some (HANTRO_OK, frameNum h)
    \<and> (IS_IDR_NAL_UNIT nal \<longrightarrow>
        h264bsdCheckIdrPicId s (maxFrameNum sps) (nalUnitType nal) v = Some (HANTRO_OK, idrPicId h))
    \<and> (picOrderCntType sps = 0 \<longrightarrow>
        h264bsdCheckPicOrderCntLsb s sps (nalUnitType nal) v = Some (HANTRO_OK, picOrderCntLsb h))
    \<and> (picOrderCntType sps = 0 \<and> picOrderPresentFlag pps \<longrightarrow>
        h264bsdCheckDeltaPicOrderCntBottom s sps (nalUnitType nal) d = Some (HANTRO_OK, deltaPicOrderCntBottom h))
    \<and> (picOrderCntType sps = 1 \<and> \<not> deltaPicOrderAlwaysZeroFlag sps \<longrightarrow>
        h264bsdCheckDeltaPicOrderCnt s sps (nalUnitType nal) (picOrderPresentFlag pps) (d, e)
          = Some (HANTRO_OK, fst (deltaPicOrderCnt h), if picOrderPresentFlag pps then snd (deltaPicOrderCnt h) else e))
    \<and> (redundantPicCntPresentFlag pps \<longrightarrow>
        h264bsdCheckRedundantPicCnt s sps pps (nalUnitType nal) v = Some (HANTRO_OK, redundantPicCnt h))
    \<and> (IS_IDR_NAL_UNIT nal \<and> nalRefIdc nal \<noteq> 0 \<longrightarrow> (\<exists>b. h264bsdCheckPriorPicsFlag v s sps pps = Some (HANTRO_OK, b)
        \<and> noOutputOfPriorPicsFlag (decRefPicMarkingOf h) = flag b))"
proof -
  from header_stages [OF assms(1)] obtain h1 s1 h2 s2 h3 s3 h4 s4 where
    ids: "parse_all (SliceIds sps pps nal) zeroSlice s = Some (HANTRO_OK, h1, s1)" and
    fn: "parse_all (SliceFrameNum sps nal) h1 s1 = Some (HANTRO_OK, h2, s2)" and
    poc: "parse_all (SliceOrderCnt sps pps nal) h2 s2 = Some (HANTRO_OK, h3, s3)" and
    red: "parse_all (SliceRedundant pps) h3 s3 = Some (HANTRO_OK, h4, s4)" and
    fin: "parse_all (SliceReferences sps pps @ SliceMarking sps nal @ SliceFilter sps pps) h4 s4 = Some (HANTRO_OK, h, s')" .
  have kept: "ids_of h2 = ids_of h1" "nums_of h3 = nums_of h2" "counts_of h4 = counts_of h3" "start_of h = start_of h4"
    using keepsD [OF frame_num_keeps fn] keepsD [OF order_cnt_keeps poc] keepsD [OF redundant_keeps red]
      end_keeps [OF fin] by blast+
  have upto: "parse_all (SliceIds sps pps nal @ SliceFrameNum sps nal) zeroSlice s = Some (HANTRO_OK, h2, s2)"
    using ids fn by (auto simp: parse_all_append)
  note skip1 = skipped_byD [OF skip_ids ids] and skip2 = skipped_byD [OF skip_to_order_cnt upto]
  note skip3 = skipped_byD [OF skip_order_cnt poc] and skip4 = skipped_byD [OF skip_redundant red]
  note peek = Peek_OK parse_all_append
  have "h264bsdCheckPpsId s v = Some (HANTRO_OK, slicePpsId h)" using ids_peek(1) [OF ids assms(2)] kept by simp
  moreover have "h264bsdCheckFrameNum s (maxFrameNum sps) v = Some (HANTRO_OK, frameNum h)"
    using frame_num_peek [OF fn, of v] skip1 [of v] kept by (auto simp: h264bsdCheckFrameNum_def peek)
  moreover have "h264bsdCheckIdrPicId s (maxFrameNum sps) (nalUnitType nal) v = Some (HANTRO_OK, idrPicId h)"
    if "IS_IDR_NAL_UNIT nal"
    using idr_id_peek [OF fn that, of v] skip1 [of v] kept that
    by (auto simp: h264bsdCheckIdrPicId_def peek IS_IDR_NAL_UNIT_def)
  moreover have "h264bsdCheckPicOrderCntLsb s sps (nalUnitType nal) v = Some (HANTRO_OK, picOrderCntLsb h)"
    if "picOrderCntType sps = 0"
    using lsb_peek(1) [OF poc that, of v] skip2 [of v] kept by (auto simp: h264bsdCheckPicOrderCntLsb_def peek)
  moreover have "h264bsdCheckDeltaPicOrderCntBottom s sps (nalUnitType nal) d = Some (HANTRO_OK, deltaPicOrderCntBottom h)"
    if "picOrderCntType sps = 0" "picOrderPresentFlag pps"
    using lsb_peek(2) [OF poc that, of d] skip2 [of d] kept by (auto simp: h264bsdCheckDeltaPicOrderCntBottom_def peek)
  moreover have "h264bsdCheckDeltaPicOrderCnt s sps (nalUnitType nal) (picOrderPresentFlag pps) (d, e)
      = Some (HANTRO_OK, fst (deltaPicOrderCnt h), if picOrderPresentFlag pps then snd (deltaPicOrderCnt h) else e)"
    if "picOrderCntType sps = 1" "\<not> deltaPicOrderAlwaysZeroFlag sps"
    using delta_peek [OF poc that, of "(d, e)"] skip2 [of "(d, e)"] kept
    by (auto simp: h264bsdCheckDeltaPicOrderCnt_def peek simp del: parsed)
  moreover have "h264bsdCheckRedundantPicCnt s sps pps (nalUnitType nal) v = Some (HANTRO_OK, redundantPicCnt h)"
    if "redundantPicCntPresentFlag pps"
    using redundant_peek [OF red that, of v] skip2 [of v] skip3 [of v] kept
    by (auto simp: h264bsdCheckRedundantPicCnt_def peek)
  moreover have "\<exists>b. h264bsdCheckPriorPicsFlag v s sps pps = Some (HANTRO_OK, b)
      \<and> noOutputOfPriorPicsFlag (decRefPicMarkingOf h) = flag b"
    if "IS_IDR_NAL_UNIT nal" "nalRefIdc nal \<noteq> 0"
  proof -
    have "IS_I_SLICE (sliceType h4)" using ids_peek(2) [OF ids that(1)] kept by simp
    from prior_flag_peek [OF fin this that] obtain b t where
      "parse_all [BitOut] v s4 = Some (HANTRO_OK, b, t)" "noOutputOfPriorPicsFlag (decRefPicMarkingOf h) = flag b" by blast
    then show ?thesis using prior_flag_check [OF skip2 [of v] that(1) skip3 [of v] skip4 [of v]] by metis
  qed
  ultimately show ?thesis by blast
qed

theorem peeks_agree_with_header_witness:
  "h264bsdCheckIdrPicId header1 16 5 0 = Some (HANTRO_OK, 5)
    \<and> h264bsdCheckPicOrderCntLsb header1 sps1 5 9 = Some (HANTRO_OK, 0)
    \<and> (\<exists>b. h264bsdCheckPriorPicsFlag 0 header1 sps1 pps1 = Some (HANTRO_OK, b) \<and> flag b)"
proof -
  from header1_decoded obtain s' where "h264bsdDecodeSliceHeader sps1 pps1 idr1 header1 = Some (HANTRO_OK, slice1, s')"
    by auto
  note all = peeks_agree_with_header [OF this]
  have "picParameterSetId pps1 < MAX_NUM_PIC_PARAM_SETS" by code_simp
  from all [OF this, of 0] all [OF this, of 9] show ?thesis
    by (simp add: idr1_def sps1_def zeroSps_def pps1_def zeroPps_def slice1_def zeroSlice_def zeroMarking_def
        IS_IDR_NAL_UNIT_def NAL_CODED_SLICE_IDR_def)
qed

section \<open>Slice group maps\<close>

definition sps2 :: seqParamSet where
  "sps2 = sps1\<lparr>picWidthInMbs := 2, picHeightInMbs := 2\<rparr>"

definition pps2 :: picParamSet where
  "pps2 = pps1\<lparr>numSliceGroups := 2, runLength := [1, 2]\<rparr>"

lemma pps2_decoded:
  "map_option (\<lambda>(ret, h, s). (ret, h)) (h264bsdDecodePicParamSet True (sample_stream [0xC5, 0xAC, 0x71]))
    = Some (HANTRO_OK, pps2)"
  by code_simp

text \<open>C32. For a picture parameter set that was parsed and checked against the dimensions, has a
  slice group and no empty run, and is not of the box-out type, computing the slice group map
  ends, stays in the map and gives every macroblock the group of the standard.\<close>

theorem slice_group_map_standard:
  assumes "h264bsdDecodePicParamSet got s = Some (HANTRO_OK, pps, s')" "CheckPps pps sps = Some HANTRO_OK"
    and "0 < unat (picWidthInMbs sps) * unat (picHeightInMbs sps)"
    and "unat (picWidthInMbs sps) * unat (picHeightInMbs sps) \<le> 2 ^ 28"
    and "length m = unat (picWidthInMbs sps) * unat (picHeightInMbs sps)"
    and "numSliceGroups pps \<noteq> 0" "0 \<notin> set (runLength pps)" "sliceGroupMapType pps \<noteq> 3"
    and "unat cycle * unat (sliceGroupChangeRate pps) < 2 ^ 32"
  shows "\<exists>m'. h264bsdDecodeSliceGroupMap m pps cycle (picWidthInMbs sps) (picHeightInMbs sps) = Some m'
    \<and> length m' = length m
    \<and> (\<forall>k < length m. m' ! k < numSliceGroups pps
        \<and> m' ! k = standard_group pps cycle (unat (picWidthInMbs sps)) (unat (picHeightInMbs sps)) k)"
proof -
  have "map_args pps sps cycle m (picWidthInMbs sps) (picHeightInMbs sps)"
    using assms pps_parsed [OF assms(1)] by (simp add: map_args_def)
  from slice_group_map_is_standard [OF this assms(8)] show ?thesis using assms(5) by (auto simp: map_is_def)
qed

theorem slice_group_map_standard_witness:
  "\<exists>m'. h264bsdDecodeSliceGroupMap [7, 7, 7, 7] pps2 0 2 2 = Some m' \<and> length m' = 4
    \<and> m' ! 3 = standard_group pps2 0 2 2 3 \<and> standard_group pps2 0 2 2 3 = 0"
proof -
  from pps2_decoded obtain s' where
    parsed: "h264bsdDecodePicParamSet True (sample_stream [0xC5, 0xAC, 0x71]) = Some (HANTRO_OK, pps2, s')" by auto
  have dims: "picWidthInMbs sps2 = 2" "picHeightInMbs sps2 = 2" by (simp_all add: sps2_def)
  have "CheckPps pps2 sps2 = Some HANTRO_OK" by code_simp
  note params = pps2_def pps1_def zeroPps_def
  have "\<exists>m'. h264bsdDecodeSliceGroupMap [7, 7, 7, 7] pps2 0 (picWidthInMbs sps2) (picHeightInMbs sps2) = Some m'
      \<and> length m' = length [7, 7, 7, 7 :: u32] \<and> (\<forall>k < length [7, 7, 7, 7 :: u32]. m' ! k < numSliceGroups pps2
        \<and> m' ! k = standard_group pps2 0 (unat (picWidthInMbs sps2)) (unat (picHeightInMbs sps2)) k)"
    by (rule slice_group_map_standard [OF parsed \<open>CheckPps pps2 sps2 = Some HANTRO_OK\<close>]) (simp_all add: dims params)
  then obtain m' where m': "h264bsdDecodeSliceGroupMap [7, 7, 7, 7] pps2 0 2 2 = Some m'" "length m' = length [7, 7, 7, 7 :: u32]"
    and groups: "\<And>k. k < length [7, 7, 7, 7 :: u32] \<Longrightarrow> m' ! k = standard_group pps2 0 2 2 k"
    unfolding dims by auto
  have "m' ! 3 = standard_group pps2 0 2 2 3" by (rule groups) simp
  moreover have "standard_group pps2 0 2 2 3 = 0" by code_simp
  ultimately show ?thesis using m' by auto
qed

text \<open>The interleaved loop makes no progress without a group.\<close>

lemma InterleavedLoop_stuck:
  assumes "i < picSize"
  shows "InterleavedLoop 0 runs picSize m i = None"
proof (rule ccontr)
  assume "InterleavedLoop 0 runs picSize m i \<noteq> None"
  then obtain m' where run: "InterleavedLoop 0 runs picSize m i = Some m'" by blast
  have "n = 0 \<and> i < picSize \<longrightarrow> False" if "InterleavedLoop n runs picSize m i = Some m'" for n runs picSize m i m'
    by (rule InterleavedLoop.raw_induct [of "\<lambda>n runs picSize m i m'. n = 0 \<and> i < picSize \<longrightarrow> False", OF _ that])
      (auto split: if_splits bind_splits)
  with run assms show False by blast
qed

definition no_groups :: strmData where
  "no_groups = sample_stream [192, 0, 0, 0, 8, 0, 0, 0, 6, 56, 128]"

definition pps0 :: picParamSet where
  "pps0 = pps1\<lparr>numSliceGroups := 0\<rparr>"

lemma pps0_decoded:
  "map_option (\<lambda>(ret, h, s). (ret, h)) (h264bsdDecodePicParamSet True no_groups) = Some (HANTRO_OK, pps0)"
  by code_simp

text \<open>C33. A picture parameter set whose \<open>num_slice_groups_minus1\<close> is the largest 32 bit number is
  accepted as one without slice groups and passes the checks of every activation; computing its
  slice group map never ends.\<close>

theorem no_slice_groups_never_ends:
  assumes "picWidth * picHeight \<noteq> 0"
  shows "\<exists>pps s'. h264bsdDecodePicParamSet True no_groups = Some (HANTRO_OK, pps, s')
    \<and> CheckPps pps sps = Some HANTRO_OK
    \<and> h264bsdDecodeSliceGroupMap m pps cycle picWidth picHeight = None"
proof -
  from pps0_decoded obtain s' where "h264bsdDecodePicParamSet True no_groups = Some (HANTRO_OK, pps0, s')" by auto
  moreover have "CheckPps pps0 sps = Some HANTRO_OK" by (simp add: CheckPps_def pps0_def)
  moreover have "0 < picWidth * picHeight" using assms by (simp add: word_neq_0_conv)
  from InterleavedLoop_stuck [OF this] have "h264bsdDecodeSliceGroupMap m pps0 cycle picWidth picHeight = None"
    by (simp add: h264bsdDecodeSliceGroupMap_def DecodeInterleavedMap_def pps0_def pps1_def zeroPps_def)
  ultimately show ?thesis by blast
qed

theorem no_slice_groups_never_ends_witness:
  "\<exists>pps s'. h264bsdDecodePicParamSet True no_groups = Some (HANTRO_OK, pps, s')
    \<and> CheckPps pps sps1 = Some HANTRO_OK \<and> h264bsdDecodeSliceGroupMap [0] pps 0 1 1 = None"
  by (rule no_slice_groups_never_ends) simp

section \<open>Sequence parameter sets\<close>

definition sps3 :: seqParamSet where
  "sps3 = zeroSps\<lparr>profileIdc := 66, levelIdc := 10, maxFrameNum := 16, picOrderCntType := 2, spsNumRefFrames := 1,
     picWidthInMbs := 1, picHeightInMbs := 1, maxDpbSize := 16\<rparr>"

lemma sps3_decoded:
  "map_option (\<lambda>(ret, h, s). (ret, h)) (h264bsdDecodeSeqParamSet True True (sample_stream [0x42, 0x00, 0x0A, 0xDA, 0x71]))
    = Some (HANTRO_OK, sps3)"
  by code_simp

text \<open>C34. A sequence parameter set that the parser accepts has its values in their ranges, and its
  buffer size, reference frames and frame number range meet the conditions under which the
  decoded picture buffer is initialised consistently, except for a stream without reference
  frames whose picture size or level gives no buffer size.\<close>

theorem accepted_sps_configures_buffer:
  assumes "h264bsdDecodeSeqParamSet gotOffsets gotVui s = Some (HANTRO_OK, sps, s')"
  shows "sps_accepted sps
    \<and> (init_args (maxDpbSize sps) (spsNumRefFrames sps) (maxFrameNum sps)
       \<or> maxDpbSize sps = 0 \<and> spsNumRefFrames sps = 0
         \<and> GetDpbSize (picWidthInMbs sps * picHeightInMbs sps) (levelIdc sps) = Some INVALID_DPB_SIZE)"
proof -
  have ok: "sps_accepted sps" by (rule sps_parsed [OF assms])
  then obtain k where "k \<le> 16" "unat (maxFrameNum sps) = 2 ^ k" by (auto simp: sps_accepted_def power_of_two_def)
  moreover have "(2 :: nat) ^ k < 2 ^ 31" using \<open>k \<le> 16\<close> by (intro power_strict_increasing) auto
  moreover have "1 \<le> unat (maxDpbSize sps)" if "maxDpbSize sps \<noteq> 0" using that by (simp add: Suc_leI unat_gt_0)
  ultimately show ?thesis using ok by (auto simp: sps_accepted_def init_args_def)
qed

theorem accepted_sps_configures_buffer_witness:
  "sps_accepted sps3 \<and> init_args 16 1 16"
proof -
  from sps3_decoded obtain s' where
    "h264bsdDecodeSeqParamSet True True (sample_stream [0x42, 0x00, 0x0A, 0xDA, 0x71]) = Some (HANTRO_OK, sps3, s')" by auto
  from accepted_sps_configures_buffer [OF this] show ?thesis by (simp add: sps3_def)
qed

end
