(* ===== verification/H264ParamFaults.thy ===== *)
theory H264ParamFaults
  imports H264SpsFacts H264SliceHeader H264DpbFaults
begin

text \<open>
  Faults of the parameter set parsers, as facts about their steps: values at the ends of their
  32 bit range that no check rejects.
\<close>

section \<open>The array of slice group identifiers\<close>

text \<open>With \<open>pic_size_in_map_units_minus1 = 2 ^ 30\<close> the array has four bytes, and the store of the
  second identifier is past its end.\<close>

lemma slice_group_ids_overflow:
  assumes "picSizeInMapUnits h = 0x40000001" "numSliceGroups h = 2"
    and "h264bsdGetBits s 1 = Some (v0, s1)" "v0 < 2" "h264bsdGetBits s1 1 = Some (v1, s2)"
  shows "For (\<lambda>h. unat (picSizeInMapUnits h)) StoreSliceGroupId h s = None"
proof -
  have room: "unat ((0x40000001 :: u32) * 4) div 4 = 1" by simp
  have "ForLoop StoreSliceGroupId 0 (Suc (Suc n)) h s = None" for n
    by (simp add: StoreSliceGroupId_def CeilLog2NumSliceGroups_def assms room not_le del: of_nat_unat)
  moreover have "unat (0x40000001 :: u32) = Suc (Suc 0x3FFFFFFF)" by simp
  ultimately show ?thesis unfolding For_def assms(1) by metis
qed

section \<open>The bits of the slice group change cycle\<close>

text \<open>With \<open>slice_group_change_rate_minus1 = 2 ^ 32 - 1\<close> the rate is zero; the check at activation
  passes, and every slice header with the element divides by it.\<close>

lemma zero_change_rate:
  assumes "numSliceGroups pps > 1" "sliceGroupMapType pps = 4" "sliceGroupChangeRate pps = 0"
  shows "CheckPps pps sps = Some HANTRO_OK \<and> ReadChangeCycle n (sliceGroupChangeRate pps) h s = None"
  using assms by (simp add: CheckPps_def ReadChangeCycle_def NumSliceGroupChangeCycleBits_def Let_def)

section \<open>A buffer of no pictures\<close>

text \<open>Without reference frames and with a level that gives no buffer size, the buffer has size
  zero; marking the first reference picture never ends.\<close>

definition start0 :: dpbStorage where
  "start0 = \<lparr>buffer = [zeroPicture\<lparr>pAllocatedData := 100, data := 112\<rparr>] @ replicate 16 zeroPicture,
     refList = replicate 17 None, currentOut = Some 16, outBuf = [None], numOut = 0, outIndex = 0,
     maxRefFrames = 1, dpbSize = 0, dpbMaxFrameNum = 16, dpbMaxLongTermFrameIdx = NO_LONG_TERM_FRAME_INDICES,
     numRefFrames = 0, fullness = 0, prevRefFrameNum = 0, lastContainsMmco5 = False, noReordering = False, flushed = False\<rparr>"

definition idr_marking :: decRefPicMarking where
  "idr_marking = \<lparr>noOutputOfPriorPicsFlag = False, longTermReferenceFlag = False,
     adaptiveRefPicMarkingModeFlag = False, operation = []\<rparr>"

lemma start0_init: "h264bsdInitDpb empty16 0 0 16 False (map Some [16, 100, 1000, 2000]) = Some (HANTRO_OK, start0, [])"
  by code_simp

lemma empty_buffer_loops:
  "h264bsdAllocateDpbImage start0 = Some (112, start0\<lparr>currentOut := Some 0\<rparr>)
    \<and> h264bsdMarkDecRefPic (start0\<lparr>currentOut := Some 0\<rparr>) (Some idr_marking) 112 0 0 True 7 0 = None"
proof (intro conjI)
  show "h264bsdAllocateDpbImage start0 = Some (112, start0\<lparr>currentOut := Some 0\<rparr>)" by code_simp
  show "h264bsdMarkDecRefPic (start0\<lparr>currentOut := Some 0\<rparr>) (Some idr_marking) 112 0 0 True 7 0 = None"
    apply code_simp
    apply (subst OutputAll.simps, code_simp)
    apply (subst OutputWhile.simps, code_simp)
    apply (subst OutputWhile_stuck)
      apply code_simp
     apply (rule exI [of _ HANTRO_NOK])
     apply code_simp
    apply simp
    done
qed

end
