(* ===== verification/H264Neighbour.thy ===== *)
theory H264Neighbour
  imports H264SliceGroupMap
begin

text \<open>
  The storage of a macroblock (\<open>h264bsd_macroblock_layer.h\<close>), and neighbouring macroblocks and
  blocks (\<open>h264bsd_neighbour.c\<close>). A pointer to a macroblock is its index in the array, a pointer
  to picture data the number of its allocation.
\<close>

section \<open>Macroblocks\<close>

text \<open>The types of macroblocks; the code calculates with the numbers of the enumeration.\<close>

type_synonym mbType_e = u32

abbreviation (input) P_Skip :: u32 where "P_Skip \<equiv> 0"
abbreviation (input) P_L0_16x16 :: u32 where "P_L0_16x16 \<equiv> 1"
abbreviation (input) P_L0_L0_16x8 :: u32 where "P_L0_L0_16x8 \<equiv> 2"
abbreviation (input) P_L0_L0_8x16 :: u32 where "P_L0_L0_8x16 \<equiv> 3"
abbreviation (input) P_8x8 :: u32 where "P_8x8 \<equiv> 4"
abbreviation (input) P_8x8ref0 :: u32 where "P_8x8ref0 \<equiv> 5"
abbreviation (input) I_4x4 :: u32 where "I_4x4 \<equiv> 6"
abbreviation (input) I_16x16_0_0_0 :: u32 where "I_16x16_0_0_0 \<equiv> 7"
abbreviation (input) I_16x16_3_2_1 :: u32 where "I_16x16_3_2_1 \<equiv> 30"
abbreviation (input) I_PCM :: u32 where "I_PCM \<equiv> 31"

type_synonym mv_t = "16 word \<times> 16 word"

record mbStorage =
  mbType :: mbType_e
  mbSliceId :: u32
  mbDisableFilter :: u32
  filterOffsetA :: int
  filterOffsetB :: int
  qpY :: u32
  mbChromaQpOffset :: int
  totalCoeff :: "16 word list"
  intra4x4PredMode :: "8 word list"
  refPic :: "u32 list"
  refAddr :: "nat option list"
  mvs :: "mv_t list"
  mbDecoded :: u32
  mbA :: "nat option"
  mbB :: "nat option"
  mbC :: "nat option"
  mbD :: "nat option"

definition zeroMb :: mbStorage where
  "zeroMb = \<lparr>mbType = P_Skip, mbSliceId = 0, mbDisableFilter = 0, filterOffsetA = 0, filterOffsetB = 0,
     qpY = 0, mbChromaQpOffset = 0, totalCoeff = replicate 27 0, intra4x4PredMode = replicate 16 0,
     refPic = replicate 4 0, refAddr = replicate 4 None, mvs = replicate 16 (0, 0), mbDecoded = 0,
     mbA = None, mbB = None, mbC = None, mbD = None\<rparr>"

section \<open>Neighbouring macroblocks\<close>

datatype neighbourMb = MB_A | MB_B | MB_C | MB_D | MB_CURR | MB_NA

function InitNeighboursLoop ::
  "mbStorage list \<Rightarrow> u32 \<Rightarrow> u32 \<Rightarrow> u32 \<Rightarrow> u32 \<Rightarrow> u32 \<Rightarrow> mbStorage list option" where
  "InitNeighboursLoop mbs picWidth picSizeInMbs i row col =
     (if i < picSizeInMbs
      then do {
        b \<leftarrow> rd mbs (unat i);
        mbs \<leftarrow> wr mbs (unat i)
          (b\<lparr>mbA := (if col \<noteq> 0 then Some (unat i - 1) else None),
             mbB := (if row \<noteq> 0 then Some (unat i - unat picWidth) else None),
             mbC := (if row \<noteq> 0 \<and> col < picWidth - 1 then Some (unat i - unat (picWidth - 1)) else None),
             mbD := (if row \<noteq> 0 \<and> col \<noteq> 0 then Some (unat i - unat (picWidth + 1)) else None)\<rparr>);
        if col + 1 = picWidth
        then InitNeighboursLoop mbs picWidth picSizeInMbs (i + 1) (row + 1) 0
        else InitNeighboursLoop mbs picWidth picSizeInMbs (i + 1) row (col + 1)
      }
      else Some mbs)"
  by pat_completeness auto
termination
  by (relation "measure (\<lambda>(m, w, n, i, r, c). unat n - unat i)") (auto intro: loop_decreases)

declare InitNeighboursLoop.simps [simp del]

definition h264bsdInitMbNeighbours :: "mbStorage list \<Rightarrow> u32 \<Rightarrow> u32 \<Rightarrow> mbStorage list option" where
  "h264bsdInitMbNeighbours mbs picWidth picSizeInMbs = InitNeighboursLoop mbs picWidth picSizeInMbs 0 0 0"

text \<open>The neighbour of macroblock \<open>i\<close>, \<open>None\<close> for a NULL pointer.\<close>

definition h264bsdGetNeighbourMb :: "mbStorage list \<Rightarrow> nat \<Rightarrow> neighbourMb \<Rightarrow> nat option option" where
  "h264bsdGetNeighbourMb mbs i neighbour =
     do {
       b \<leftarrow> rd mbs i;
       Some (case neighbour of
               MB_A \<Rightarrow> mbA b | MB_B \<Rightarrow> mbB b | MB_C \<Rightarrow> mbC b | MB_D \<Rightarrow> mbD b | MB_CURR \<Rightarrow> Some i | MB_NA \<Rightarrow> None)
     }"

definition h264bsdIsNeighbourAvailable :: "mbStorage list \<Rightarrow> nat \<Rightarrow> nat option \<Rightarrow> bool option" where
  "h264bsdIsNeighbourAvailable mbs i neighbour =
     (case neighbour of
        None \<Rightarrow> Some False
      | Some j \<Rightarrow> do { b \<leftarrow> rd mbs i; n \<leftarrow> rd mbs j; Some (mbSliceId b = mbSliceId n) })"

section \<open>Neighbouring blocks\<close>

text \<open>The tables give the macroblock and the block of it for the sixteen luma blocks and the two
  times four chroma blocks of a macroblock.\<close>

type_synonym neighbour = "neighbourMb \<times> nat"

definition N_A_4x4B :: "neighbour list" where
  "N_A_4x4B =
    [(MB_A, 5), (MB_CURR, 0), (MB_A, 7), (MB_CURR, 2),
     (MB_CURR, 1), (MB_CURR, 4), (MB_CURR, 3), (MB_CURR, 6),
     (MB_A, 13), (MB_CURR, 8), (MB_A, 15), (MB_CURR, 10),
     (MB_CURR, 9), (MB_CURR, 12), (MB_CURR, 11), (MB_CURR, 14),
     (MB_A, 17), (MB_CURR, 16), (MB_A, 19), (MB_CURR, 18),
     (MB_A, 21), (MB_CURR, 20), (MB_A, 23), (MB_CURR, 22)]"

definition N_B_4x4B :: "neighbour list" where
  "N_B_4x4B =
    [(MB_B, 10), (MB_B, 11), (MB_CURR, 0), (MB_CURR, 1),
     (MB_B, 14), (MB_B, 15), (MB_CURR, 4), (MB_CURR, 5),
     (MB_CURR, 2), (MB_CURR, 3), (MB_CURR, 8), (MB_CURR, 9),
     (MB_CURR, 6), (MB_CURR, 7), (MB_CURR, 12), (MB_CURR, 13),
     (MB_B, 18), (MB_B, 19), (MB_CURR, 16), (MB_CURR, 17),
     (MB_B, 22), (MB_B, 23), (MB_CURR, 20), (MB_CURR, 21)]"

definition N_C_4x4B :: "neighbour list" where
  "N_C_4x4B =
    [(MB_B, 11), (MB_B, 14), (MB_CURR, 1), (MB_NA, 4),
     (MB_B, 15), (MB_C, 10), (MB_CURR, 5), (MB_NA, 0),
     (MB_CURR, 3), (MB_CURR, 6), (MB_CURR, 9), (MB_NA, 12),
     (MB_CURR, 7), (MB_NA, 2), (MB_CURR, 13), (MB_NA, 8),
     (MB_B, 19), (MB_C, 18), (MB_CURR, 17), (MB_NA, 16),
     (MB_B, 23), (MB_C, 22), (MB_CURR, 21), (MB_NA, 20)]"

definition N_D_4x4B :: "neighbour list" where
  "N_D_4x4B =
    [(MB_D, 15), (MB_B, 10), (MB_A, 5), (MB_CURR, 0),
     (MB_B, 11), (MB_B, 14), (MB_CURR, 1), (MB_CURR, 4),
     (MB_A, 7), (MB_CURR, 2), (MB_A, 13), (MB_CURR, 8),
     (MB_CURR, 3), (MB_CURR, 6), (MB_CURR, 9), (MB_CURR, 12),
     (MB_D, 19), (MB_B, 18), (MB_A, 17), (MB_CURR, 16),
     (MB_D, 23), (MB_B, 22), (MB_A, 21), (MB_CURR, 20)]"

definition h264bsdNeighbour4x4BlockA :: "nat \<Rightarrow> neighbour option" where
  "h264bsdNeighbour4x4BlockA b = rd N_A_4x4B b"

definition h264bsdNeighbour4x4BlockB :: "nat \<Rightarrow> neighbour option" where
  "h264bsdNeighbour4x4BlockB b = rd N_B_4x4B b"

definition h264bsdNeighbour4x4BlockC :: "nat \<Rightarrow> neighbour option" where
  "h264bsdNeighbour4x4BlockC b = rd N_C_4x4B b"

definition h264bsdNeighbour4x4BlockD :: "nat \<Rightarrow> neighbour option" where
  "h264bsdNeighbour4x4BlockD b = rd N_D_4x4B b"

end
