(* ===== verification/H264Storage.thy ===== *)
theory H264Storage
  imports H264SliceHeader H264Neighbour H264Dpb
begin

text \<open>
  The storage of a decoder instance (\<open>h264bsd_storage.c\<close>): parameter sets and their activation,
  the boundaries of access units and pictures. A pointer to a parameter set is the number of its
  slot, so that a set overwritten in its slot is seen through the pointer; a NULL pointer is
  \<open>None\<close>. The release of memory is not modelled except for the picture buffer. The size of an
  allocation is a 32 bit number of bytes.
\<close>

section \<open>State\<close>

record aubCheck =
  nuPrev :: nalUnit
  aubFrameNum :: u32
  aubIdrPicId :: u32
  aubPicOrderCntLsb :: u32
  aubDeltaPicOrderCntBottom :: int
  aubDeltaPicOrderCnt :: "int \<times> int"
  firstCallFlag :: bool

record storage =
  oldSpsId :: u32
  activePpsId :: u32
  activeSpsId :: u32
  activePps :: "nat option"
  activeSps :: "nat option"
  spsSets :: "seqParamSet option list"
  ppsSets :: "picParamSet option list"
  sliceGroupMap :: "u32 list option"
  picSizeInMbs :: u32
  skipRedundantSlices :: bool
  picStarted :: bool
  validSliceInAccessUnit :: bool
  sliceId :: u32
  numDecodedMbs :: u32
  lastMbAddr :: u32
  numConcealedMbs :: u32
  currentPicId :: u32
  macroblocks :: "mbStorage list option"
  appNoReordering :: bool
  dpbOf :: dpbStorage
  pocOf :: pocStorage
  aub :: aubCheck
  imageWidth :: u32
  imageHeight :: u32
  prevNalUnit :: nalUnit
  sliceHeader0 :: sliceHeader
  sliceHeader1 :: sliceHeader
  pendingActivation :: bool

abbreviation (input) NAL_CODED_SLICE :: u32 where "NAL_CODED_SLICE \<equiv> 1"
abbreviation (input) PARAM_SET_ERROR :: u32 where "PARAM_SET_ERROR \<equiv> 0xFFF0"

abbreviation (input) NO_NAL :: nalUnit where
  "NO_NAL \<equiv> \<lparr>nalUnitType = 0, nalRefIdc = 0\<rparr>"

definition zeroDpb :: dpbStorage where
  "zeroDpb = \<lparr>buffer = [], refList = [], currentOut = None, outBuf = [], numOut = 0, outIndex = 0,
     maxRefFrames = 0, dpbSize = 0, dpbMaxFrameNum = 0, dpbMaxLongTermFrameIdx = 0, numRefFrames = 0,
     fullness = 0, prevRefFrameNum = 0, lastContainsMmco5 = False, noReordering = False, flushed = False\<rparr>"

definition h264bsdInitStorage :: storage where
  "h264bsdInitStorage = \<lparr>oldSpsId = 0, activePpsId = MAX_NUM_PIC_PARAM_SETS,
     activeSpsId = MAX_NUM_SEQ_PARAM_SETS, activePps = None, activeSps = None,
     spsSets = replicate 32 None, ppsSets = replicate 256 None, sliceGroupMap = None, picSizeInMbs = 0,
     skipRedundantSlices = False, picStarted = False, validSliceInAccessUnit = False, sliceId = 0,
     numDecodedMbs = 0, lastMbAddr = 0, numConcealedMbs = 0, currentPicId = 0, macroblocks = None, appNoReordering = False,
     dpbOf = zeroDpb,
     pocOf = \<lparr>prevPicOrderCntLsb = 0, prevPicOrderCntMsb = 0, prevFrameNum = 0, prevFrameNumOffset = 0\<rparr>,
     aub = \<lparr>nuPrev = NO_NAL, aubFrameNum = 0, aubIdrPicId = 0, aubPicOrderCntLsb = 0,
            aubDeltaPicOrderCntBottom = 0, aubDeltaPicOrderCnt = (0, 0), firstCallFlag = True\<rparr>,
     imageWidth = 0, imageHeight = 0, prevNalUnit = NO_NAL, sliceHeader0 = zeroSlice, sliceHeader1 = zeroSlice,
     pendingActivation = False\<rparr>"

section \<open>Pointers to parameter sets\<close>

text \<open>Reading a set through its slot; \<open>None\<close> when the slot or the pointer is NULL.\<close>

definition sps_at :: "storage \<Rightarrow> nat \<Rightarrow> seqParamSet option" where
  "sps_at st i = do { slot \<leftarrow> rd (spsSets st) i; slot }"

definition pps_at :: "storage \<Rightarrow> nat \<Rightarrow> picParamSet option" where
  "pps_at st i = do { slot \<leftarrow> rd (ppsSets st) i; slot }"

definition active_sps :: "storage \<Rightarrow> seqParamSet option" where
  "active_sps st = do { i \<leftarrow> activeSps st; sps_at st i }"

definition active_pps :: "storage \<Rightarrow> picParamSet option" where
  "active_pps st = do { i \<leftarrow> activePps st; pps_at st i }"

section \<open>Storing parameter sets\<close>

text \<open>The flag says whether the allocation of a new slot succeeds.\<close>

definition h264bsdStoreSeqParamSet :: "bool \<Rightarrow> storage \<Rightarrow> seqParamSet \<Rightarrow> (u32 \<times> storage) option" where
  "h264bsdStoreSeqParamSet got st sps =
     do {
       let i = seqParameterSetId sps;
       slot \<leftarrow> rd (spsSets st) (unat i);
       if slot = None \<and> \<not> got then Some (MEMORY_ALLOCATION_ERROR, st)
       else do {
         sets \<leftarrow> wr (spsSets st) (unat i) (Some sps);
         if slot \<noteq> None \<and> i = activeSpsId st
         then do {
           old \<leftarrow> active_sps st;
           differ \<leftarrow> h264bsdCompareSeqParamSets sps old;
           Some (HANTRO_OK,
                 if differ \<noteq> 0
                 then st\<lparr>spsSets := sets, activeSpsId := MAX_NUM_SEQ_PARAM_SETS + 1,
                         activePpsId := MAX_NUM_PIC_PARAM_SETS + 1, activeSps := None, activePps := None\<rparr>
                 else st)
         }
         else Some (HANTRO_OK, st\<lparr>spsSets := sets\<rparr>)
       }
     }"

definition h264bsdStorePicParamSet :: "bool \<Rightarrow> storage \<Rightarrow> picParamSet \<Rightarrow> (u32 \<times> storage) option" where
  "h264bsdStorePicParamSet got st pps =
     do {
       let i = picParameterSetId pps;
       slot \<leftarrow> rd (ppsSets st) (unat i);
       if slot = None \<and> \<not> got then Some (MEMORY_ALLOCATION_ERROR, st)
       else do {
         sets \<leftarrow> wr (ppsSets st) (unat i) (Some pps);
         let st = (if slot \<noteq> None \<and> i = activePpsId st \<and> ppsSeqParameterSetId pps \<noteq> activeSpsId st
                   then st\<lparr>activePpsId := MAX_NUM_PIC_PARAM_SETS + 1\<rparr> else st);
         Some (HANTRO_OK, st\<lparr>ppsSets := sets\<rparr>)
       }
     }"

section \<open>Activation\<close>

definition SetActive :: "storage \<Rightarrow> u32 \<Rightarrow> storage option" where
  "SetActive st ppsId =
     do {
       pps \<leftarrow> pps_at st (unat ppsId);
       sps \<leftarrow> sps_at st (unat (ppsSeqParameterSetId pps));
       Some (st\<lparr>activePpsId := ppsId, activePps := Some (unat ppsId),
                activeSpsId := ppsSeqParameterSetId pps, activeSps := Some (unat (ppsSeqParameterSetId pps)),
                picSizeInMbs := picWidthInMbs sps * picHeightInMbs sps,
                imageWidth := picWidthInMbs sps, imageHeight := picHeightInMbs sps,
                pendingActivation := True\<rparr>)
     }"

definition NoOutputReordering :: "storage \<Rightarrow> seqParamSet \<Rightarrow> bool option" where
  "NoOutputReordering st sps =
     (if appNoReordering st \<or> picOrderCntType sps = 2 then Some True
      else if vuiParametersPresentFlag sps
      then do { v \<leftarrow> vuiParametersOf sps; Some (bitstreamRestrictionFlag v \<and> numReorderFrames v = 0) }
      else Some False)"

text \<open>The second part of an activation. \<open>sizeofMb\<close> is the size of a macroblock's storage,
  \<open>fresh\<close> the contents of the map as it is allocated, and the list the results of the allocator.
  The first component of the result lists the pictures released.\<close>

definition CompleteActivation ::
  "u32 \<Rightarrow> (nat \<Rightarrow> u32) \<Rightarrow> nat option list \<Rightarrow> storage \<Rightarrow> (nat list \<times> u32 \<times> storage \<times> nat option list) option" where
  "CompleteActivation sizeofMb fresh heap st =
     do {
       let st = st\<lparr>pendingActivation := False\<rparr>;
       let (mb, heap) = malloc heap;
       let (groups, heap) = malloc heap;
       let mbs = replicate (unat (picSizeInMbs st * sizeofMb) div unat sizeofMb) zeroMb;
       let gmap = map fresh [0..<unat (picSizeInMbs st * 4) div 4];
       let st = st\<lparr>macroblocks := (if mb = None then None else Some mbs),
                   sliceGroupMap := (if groups = None then None else Some gmap)\<rparr>;
       if mb = None \<or> groups = None then Some ([], MEMORY_ALLOCATION_ERROR, st, heap)
       else do {
         sps \<leftarrow> active_sps st;
         mbs \<leftarrow> h264bsdInitMbNeighbours mbs (picWidthInMbs sps) (picSizeInMbs st);
         noReorder \<leftarrow> NoOutputReordering st sps;
         (freed, ret, dpb, heap) \<leftarrow> h264bsdResetDpb (dpbOf st) (maxDpbSize sps) (spsNumRefFrames sps)
           (maxFrameNum sps) noReorder heap;
         Some (freed, ret, st\<lparr>macroblocks := Some mbs, dpbOf := dpb\<rparr>, heap)
       }
     }"

definition h264bsdActivateParamSets ::
  "u32 \<Rightarrow> (nat \<Rightarrow> u32) \<Rightarrow> nat option list \<Rightarrow> storage \<Rightarrow> u32 \<Rightarrow> bool
   \<Rightarrow> (nat list \<times> u32 \<times> storage \<times> nat option list) option" where
  "h264bsdActivateParamSets sizeofMb fresh heap st ppsId idr =
     do {
       slot \<leftarrow> rd (ppsSets st) (unat ppsId);
       case slot of
         None \<Rightarrow> Some ([], HANTRO_NOK, st, heap)
       | Some pps \<Rightarrow> do {
           sslot \<leftarrow> rd (spsSets st) (unat (ppsSeqParameterSetId pps));
           case sslot of
             None \<Rightarrow> Some ([], HANTRO_NOK, st, heap)
           | Some sps \<Rightarrow> do {
               ret \<leftarrow> CheckPps pps sps;
               if ret \<noteq> HANTRO_OK then Some ([], ret, st, heap)
               else if activePpsId st = MAX_NUM_PIC_PARAM_SETS
               then do { st \<leftarrow> SetActive st ppsId; Some ([], HANTRO_OK, st, heap) }
               else if pendingActivation st then CompleteActivation sizeofMb fresh heap st
               else if ppsId \<noteq> activePpsId st
               then if ppsSeqParameterSetId pps \<noteq> activeSpsId st
                    then if idr then do { st \<leftarrow> SetActive st ppsId; Some ([], HANTRO_OK, st, heap) }
                         else Some ([], HANTRO_NOK, st, heap)
                    else Some ([], HANTRO_OK, st\<lparr>activePpsId := ppsId, activePps := Some (unat ppsId)\<rparr>, heap)
               else Some ([], HANTRO_OK, st, heap)
             }
         }
     }"

section \<open>Pictures\<close>

fun ResetMacroblocks :: "mbStorage list \<Rightarrow> nat \<Rightarrow> nat \<Rightarrow> mbStorage list option" where
  "ResetMacroblocks mbs i 0 = Some mbs"
| "ResetMacroblocks mbs i (Suc n) =
     do {
       b \<leftarrow> rd mbs i;
       mbs \<leftarrow> wr mbs i (b\<lparr>mbSliceId := 0, mbDecoded := 0\<rparr>);
       ResetMacroblocks mbs (Suc i) n
     }"

definition h264bsdResetStorage :: "storage \<Rightarrow> storage option" where
  "h264bsdResetStorage st =
     do {
       let st = st\<lparr>numDecodedMbs := 0, sliceId := 0\<rparr>;
       if picSizeInMbs st = 0 then Some st
       else do {
         mbs \<leftarrow> macroblocks st;
         mbs \<leftarrow> ResetMacroblocks mbs 0 (unat (picSizeInMbs st));
         Some (st\<lparr>macroblocks := Some mbs\<rparr>)
       }
     }"

definition h264bsdIsStartOfPicture :: "storage \<Rightarrow> bool" where
  "h264bsdIsStartOfPicture st \<longleftrightarrow> \<not> validSliceInAccessUnit st"

fun CountDecoded :: "mbStorage list \<Rightarrow> nat \<Rightarrow> nat \<Rightarrow> u32 \<Rightarrow> u32 option" where
  "CountDecoded mbs i 0 tmp = Some tmp"
| "CountDecoded mbs i (Suc n) tmp =
     do { b \<leftarrow> rd mbs i; CountDecoded mbs (Suc i) n (tmp + (if mbDecoded b \<noteq> 0 then 1 else 0)) }"

definition h264bsdIsEndOfPicture :: "storage \<Rightarrow> bool option" where
  "h264bsdIsEndOfPicture st =
     (if redundantPicCnt (sliceHeader0 st) = 0 then Some (numDecodedMbs st = picSizeInMbs st)
      else if picSizeInMbs st = 0 then Some True
      else do {
        mbs \<leftarrow> macroblocks st;
        tmp \<leftarrow> CountDecoded mbs 0 (unat (picSizeInMbs st)) 0;
        Some (tmp = picSizeInMbs st)
      })"

definition h264bsdComputeSliceGroupMap :: "storage \<Rightarrow> u32 \<Rightarrow> storage option" where
  "h264bsdComputeSliceGroupMap st cycle =
     do {
       m \<leftarrow> sliceGroupMap st;
       pps \<leftarrow> active_pps st;
       sps \<leftarrow> active_sps st;
       m \<leftarrow> h264bsdDecodeSliceGroupMap m pps cycle (picWidthInMbs sps) (picHeightInMbs sps);
       Some (st\<lparr>sliceGroupMap := Some m\<rparr>)
     }"

section \<open>Access unit boundaries\<close>

text \<open>
  The checks of \<open>h264bsdCheckAccessUnitBoundary\<close> are steps over the boundary flag and the storage
  that peek at the stream. What was stored before a failing check stays stored.
\<close>

type_synonym boundary = "bool \<times> storage"

definition SetAub :: "(aubCheck \<Rightarrow> aubCheck) \<Rightarrow> storage \<Rightarrow> storage" where
  "SetAub f st = st\<lparr>aub := f (aub st)\<rparr>"

text \<open>\<open>tmp = h264bsdCheck...; if (tmp != HANTRO_OK) return(...);\<close> and the comparison of the value
  with the stored one. \<open>err\<close> is the status returned for a failure of the peek.\<close>

definition Compare ::
  "(u32 \<times> 'v) option \<Rightarrow> (u32 \<Rightarrow> u32) \<Rightarrow> (aubCheck \<Rightarrow> 'v) \<Rightarrow> ('v \<Rightarrow> aubCheck \<Rightarrow> aubCheck) \<Rightarrow> boundary step" where
  "Compare peek err old store b s =
     do {
       (ret, v) \<leftarrow> peek;
       let (flag, st) = b;
       Some (if ret \<noteq> HANTRO_OK then (err ret, b, s)
             else if old (aub st) \<noteq> v then (HANTRO_OK, (True, SetAub (store v) st), s)
             else (HANTRO_OK, b, s))
     }"

definition FirstCall :: "boundary step" where
  "FirstCall b s =
     (let (flag, st) = b
      in Some (HANTRO_OK, if firstCallFlag (aub st) then (True, SetAub (\<lambda>a. a\<lparr>firstCallFlag := False\<rparr>) st) else b, s))"

definition CompareUnits :: "nalUnit \<Rightarrow> boundary step" where
  "CompareUnits nuNext b s =
     (let (flag, st) = b; prev = nuPrev (aub st);
          refIdc = nalRefIdc prev \<noteq> nalRefIdc nuNext \<and> (nalRefIdc prev = 0 \<or> nalRefIdc nuNext = 0);
          idr = (nalUnitType prev = NAL_CODED_SLICE_IDR) \<noteq> (nalUnitType nuNext = NAL_CODED_SLICE_IDR)
      in Some (HANTRO_OK, (flag \<or> refIdc \<or> idr, st), s))"

definition CompareFrameNum :: "strmData \<Rightarrow> seqParamSet \<Rightarrow> boundary step" where
  "CompareFrameNum strm sps =
     Compare (h264bsdCheckFrameNum strm (maxFrameNum sps) 0) (\<lambda>_. HANTRO_NOK) aubFrameNum
       (\<lambda>v a. a\<lparr>aubFrameNum := v\<rparr>)"

definition CompareIdrPicId :: "strmData \<Rightarrow> seqParamSet \<Rightarrow> nalUnit \<Rightarrow> boundary step" where
  "CompareIdrPicId strm sps nuNext b s =
     do {
       (ret, v) \<leftarrow> h264bsdCheckIdrPicId strm (maxFrameNum sps) (nalUnitType nuNext) 0;
       let (flag, st) = b;
       Some (if ret \<noteq> HANTRO_OK then (HANTRO_NOK, b, s)
             else (HANTRO_OK,
                   (flag \<or> (nalUnitType (nuPrev (aub st)) = NAL_CODED_SLICE_IDR \<and> aubIdrPicId (aub st) \<noteq> v),
                    SetAub (\<lambda>a. a\<lparr>aubIdrPicId := v\<rparr>) st), s))
     }"

definition CompareLsb :: "strmData \<Rightarrow> seqParamSet \<Rightarrow> nalUnit \<Rightarrow> boundary step" where
  "CompareLsb strm sps nuNext =
     Compare (h264bsdCheckPicOrderCntLsb strm sps (nalUnitType nuNext) 0) (\<lambda>_. HANTRO_NOK) aubPicOrderCntLsb
       (\<lambda>v a. a\<lparr>aubPicOrderCntLsb := v\<rparr>)"

definition CompareBottom :: "strmData \<Rightarrow> seqParamSet \<Rightarrow> nalUnit \<Rightarrow> boundary step" where
  "CompareBottom strm sps nuNext =
     Compare (h264bsdCheckDeltaPicOrderCntBottom strm sps (nalUnitType nuNext) 0) (\<lambda>ret. ret)
       aubDeltaPicOrderCntBottom (\<lambda>v a. a\<lparr>aubDeltaPicOrderCntBottom := v\<rparr>)"

definition CompareDelta :: "strmData \<Rightarrow> seqParamSet \<Rightarrow> picParamSet \<Rightarrow> nalUnit \<Rightarrow> boundary step" where
  "CompareDelta strm sps pps nuNext b s =
     do {
       (ret, d) \<leftarrow> h264bsdCheckDeltaPicOrderCnt strm sps (nalUnitType nuNext) (picOrderPresentFlag pps) (0, 0);
       let (flag, st) = b;
       let (old0, old1) = aubDeltaPicOrderCnt (aub st);
       let first = (old0 \<noteq> fst d);
       let second = (picOrderPresentFlag pps \<and> old1 \<noteq> snd d);
       Some (if ret \<noteq> HANTRO_OK then (ret, b, s)
             else (HANTRO_OK,
                   (flag \<or> first \<or> second,
                    SetAub (\<lambda>a. a\<lparr>aubDeltaPicOrderCnt := (fst d, if second then snd d else old1)\<rparr>) st), s))
     }"

definition BoundaryChecks :: "strmData \<Rightarrow> seqParamSet \<Rightarrow> picParamSet \<Rightarrow> nalUnit \<Rightarrow> boundary step list" where
  "BoundaryChecks strm sps pps nuNext =
    [CompareUnits nuNext,
     CompareFrameNum strm sps,
     When (\<lambda>_. nalUnitType nuNext = NAL_CODED_SLICE_IDR) [CompareIdrPicId strm sps nuNext],
     IfElse (\<lambda>_. picOrderCntType sps = 0)
       [CompareLsb strm sps nuNext,
        When (\<lambda>_. picOrderPresentFlag pps) [CompareBottom strm sps nuNext]]
       [When (\<lambda>_. picOrderCntType sps = 1 \<and> \<not> deltaPicOrderAlwaysZeroFlag sps)
          [CompareDelta strm sps pps nuNext]],
     Assign (\<lambda>(flag, st). (flag, SetAub (\<lambda>a. a\<lparr>nuPrev := nuNext\<rparr>) st))]"

text \<open>\<open>PARAM_SET_ERROR\<close> unless the sets of the slice exist and fit the active ones.\<close>

definition SetsOfSlice :: "storage \<Rightarrow> u32 \<Rightarrow> nalUnit \<Rightarrow> (picParamSet \<times> seqParamSet) option option" where
  "SetsOfSlice st ppsId nuNext =
     do {
       slot \<leftarrow> rd (ppsSets st) (unat ppsId);
       case slot of
         None \<Rightarrow> Some None
       | Some pps \<Rightarrow> do {
           sslot \<leftarrow> rd (spsSets st) (unat (ppsSeqParameterSetId pps));
           Some (case sslot of
                   None \<Rightarrow> None
                 | Some sps \<Rightarrow>
                     if activeSpsId st \<noteq> MAX_NUM_SEQ_PARAM_SETS
                        \<and> ppsSeqParameterSetId pps \<noteq> activeSpsId st \<and> nalUnitType nuNext \<noteq> NAL_CODED_SLICE_IDR
                     then None else Some (pps, sps))
         }
     }"

definition h264bsdCheckAccessUnitBoundary :: "strmData \<Rightarrow> nalUnit \<Rightarrow> storage \<Rightarrow> (u32 \<times> bool \<times> storage) option" where
  "h264bsdCheckAccessUnitBoundary strm nuNext st =
     (let t = nalUnitType nuNext
      in if (t > 5 \<and> t < 12) \<or> (t > 12 \<and> t \<le> 18) then Some (HANTRO_OK, True, st)
         else if t \<noteq> NAL_CODED_SLICE \<and> t \<noteq> NAL_CODED_SLICE_IDR then Some (HANTRO_OK, False, st)
         else do {
           (_, b, _) \<leftarrow> FirstCall (False, st) strm;
           (ret, ppsId) \<leftarrow> h264bsdCheckPpsId strm 0;
           if ret \<noteq> HANTRO_OK then Some (ret, b)
           else do {
             sets \<leftarrow> SetsOfSlice (snd b) ppsId nuNext;
             case sets of
               None \<Rightarrow> Some (PARAM_SET_ERROR, b)
             | Some (pps, sps) \<Rightarrow> do {
                 (ret, b, _) \<leftarrow> parse_all (BoundaryChecks strm sps pps nuNext) b strm;
                 Some (ret, b)
               }
           }
         })"

section \<open>Valid parameter sets\<close>

fun ValidLoop :: "storage \<Rightarrow> nat \<Rightarrow> nat \<Rightarrow> u32 option" where
  "ValidLoop st i 0 = Some HANTRO_NOK"
| "ValidLoop st i (Suc n) =
     do {
       slot \<leftarrow> rd (ppsSets st) i;
       case slot of
         None \<Rightarrow> ValidLoop st (Suc i) n
       | Some pps \<Rightarrow> do {
           sslot \<leftarrow> rd (spsSets st) (unat (ppsSeqParameterSetId pps));
           case sslot of
             None \<Rightarrow> ValidLoop st (Suc i) n
           | Some sps \<Rightarrow> do {
               ret \<leftarrow> CheckPps pps sps;
               if ret = HANTRO_OK then Some HANTRO_OK else ValidLoop st (Suc i) n
             }
         }
     }"

definition h264bsdValidParamSets :: "storage \<Rightarrow> u32 option" where
  "h264bsdValidParamSets st = ValidLoop st 0 256"

end
