(* ===== verification/H264Decoder.thy ===== *)
theory H264Decoder
  imports H264Storage
begin

text \<open>
  The entry points of the decoder (\<open>h264bsd_decoder.c\<close>) that read and change the storage, and the
  activation of parameter sets at the start of a picture, a part of \<open>h264bsdDecode\<close>.
\<close>

section \<open>Status values\<close>

abbreviation (input) H264BSD_RDY :: u32 where "H264BSD_RDY \<equiv> 0"
abbreviation (input) H264BSD_PIC_RDY :: u32 where "H264BSD_PIC_RDY \<equiv> 1"
abbreviation (input) H264BSD_HDRS_RDY :: u32 where "H264BSD_HDRS_RDY \<equiv> 2"
abbreviation (input) H264BSD_ERROR :: u32 where "H264BSD_ERROR \<equiv> 3"
abbreviation (input) H264BSD_PARAM_SET_ERROR :: u32 where "H264BSD_PARAM_SET_ERROR \<equiv> 4"
abbreviation (input) H264BSD_MEMALLOC_ERROR :: u32 where "H264BSD_MEMALLOC_ERROR \<equiv> 5"

section \<open>Initialisation and output\<close>

text \<open>The flag says whether the memory of the macroblock layer is allocated.\<close>

definition h264bsdInit :: "bool \<Rightarrow> bool \<Rightarrow> u32 \<times> storage" where
  "h264bsdInit got noOutputReordering =
     (let st = h264bsdInitStorage
      in if \<not> got then (HANTRO_NOK, st)
         else (HANTRO_OK, if noOutputReordering then st\<lparr>appNoReordering := True\<rparr> else st))"

definition h264bsdNextOutputPicture :: "storage \<Rightarrow> (dpbOutPicture option \<times> storage) option" where
  "h264bsdNextOutputPicture st =
     (case h264bsdDpbOutputPicture (dpbOf st) of
        (None, dpb) \<Rightarrow> Some (None, st\<lparr>dpbOf := dpb\<rparr>)
      | (Some i, dpb) \<Rightarrow> do { slot \<leftarrow> rd (outBuf dpb) i; out \<leftarrow> slot; Some (Some out, st\<lparr>dpbOf := dpb\<rparr>) })"

definition h264bsdFlushBuffer :: "storage \<Rightarrow> storage option" where
  "h264bsdFlushBuffer st = do { dpb \<leftarrow> h264bsdFlushDpb (dpbOf st); Some (st\<lparr>dpbOf := dpb\<rparr>) }"

definition h264bsdCheckValidParamSets :: "storage \<Rightarrow> u32 option" where
  "h264bsdCheckValidParamSets st = do { ret \<leftarrow> h264bsdValidParamSets st; Some (if ret = HANTRO_OK then 1 else 0) }"

section \<open>Values of the active sequence parameter set\<close>

text \<open>\<open>None\<close> is a pointer to a set that does not exist, \<open>dflt\<close> the value for the NULL pointer.\<close>

definition ofActiveSps :: "storage \<Rightarrow> 'v \<Rightarrow> (seqParamSet \<Rightarrow> 'v) \<Rightarrow> 'v option" where
  "ofActiveSps st dflt f =
     (case activeSps st of None \<Rightarrow> Some dflt | Some i \<Rightarrow> do { sps \<leftarrow> sps_at st i; Some (f sps) })"

definition vui_of :: "seqParamSet \<Rightarrow> vuiParameters option" where
  "vui_of sps = (if vuiParametersPresentFlag sps then vuiParametersOf sps else None)"

definition h264bsdPicWidth :: "storage \<Rightarrow> u32 option" where
  "h264bsdPicWidth st = ofActiveSps st 0 picWidthInMbs"

definition h264bsdPicHeight :: "storage \<Rightarrow> u32 option" where
  "h264bsdPicHeight st = ofActiveSps st 0 picHeightInMbs"

definition h264bsdProfile :: "storage \<Rightarrow> u32 option" where
  "h264bsdProfile st = ofActiveSps st 0 profileIdc"

definition h264bsdVideoRange :: "storage \<Rightarrow> u32 option" where
  "h264bsdVideoRange st = ofActiveSps st 0
     (\<lambda>sps. case vui_of sps of
        None \<Rightarrow> 0
      | Some v \<Rightarrow> if videoSignalTypePresentFlag v \<and> videoFullRangeFlag v then 1 else 0)"

definition h264bsdMatrixCoefficients :: "storage \<Rightarrow> u32 option" where
  "h264bsdMatrixCoefficients st = ofActiveSps st 2
     (\<lambda>sps. case vui_of sps of
        None \<Rightarrow> 2
      | Some v \<Rightarrow> if videoSignalTypePresentFlag v \<and> colourDescriptionPresentFlag v then matrixCoefficients v else 2)"

text \<open>The flag, the left offset, the width, the top offset and the height, in samples.\<close>

definition h264bsdCroppingParams :: "storage \<Rightarrow> (u32 \<times> u32 \<times> u32 \<times> u32 \<times> u32) option" where
  "h264bsdCroppingParams st = ofActiveSps st (0, 0, 0, 0, 0)
     (\<lambda>sps. if frameCroppingFlag sps
        then (1, 2 * frameCropLeftOffset sps,
              16 * picWidthInMbs sps - 2 * (frameCropLeftOffset sps + frameCropRightOffset sps),
              2 * frameCropTopOffset sps,
              16 * picHeightInMbs sps - 2 * (frameCropTopOffset sps + frameCropBottomOffset sps))
        else (0, 0, 0, 0, 0))"

definition aspectRatios :: "(u32 \<times> u32) list" where
  "aspectRatios = [(0, 0), (1, 1), (12, 11), (10, 11), (16, 11), (40, 33), (24, 11), (20, 11), (32, 11),
     (80, 33), (18, 11), (15, 11), (64, 33), (160, 99)]"

definition h264bsdSampleAspectRatio :: "storage \<Rightarrow> (u32 \<times> u32) option" where
  "h264bsdSampleAspectRatio st = ofActiveSps st (1, 1)
     (\<lambda>sps. case vui_of sps of
        None \<Rightarrow> (1, 1)
      | Some v \<Rightarrow>
          if \<not> aspectRatioPresentFlag v then (1, 1)
          else if aspectRatioIdc v \<le> 13 then aspectRatios ! unat (aspectRatioIdc v)
          else if aspectRatioIdc v = 255
          then if sarWidth v = 0 \<or> sarHeight v = 0 then (0, 0) else (sarWidth v, sarHeight v)
          else (0, 0))"

section \<open>Activation at the start of a picture\<close>

text \<open>
  Part of \<open>h264bsdDecode\<close>: the sequence parameter set changed, and the pictures that wait are
  flushed if the new set and the slice allow it.
\<close>

definition SlotOf :: "storage \<Rightarrow> u32 \<Rightarrow> seqParamSet option option" where
  "SlotOf st i = (if i < MAX_NUM_SEQ_PARAM_SETS then rd (spsSets st) (unat i) else Some None)"

definition HeadersReady :: "strmData \<Rightarrow> nalUnit \<Rightarrow> storage \<Rightarrow> storage option" where
  "HeadersReady strm nalUnit st =
     do {
       oldSPS \<leftarrow> SlotOf st (oldSpsId st);
       newSPS \<leftarrow> active_sps st;
       pps \<leftarrow> active_pps st;
       (tmp, noOutput) \<leftarrow> (if nalUnitType nalUnit = NAL_CODED_SLICE_IDR
                           then h264bsdCheckPriorPicsFlag 1 strm newSPS pps else Some (HANTRO_NOK, 1));
       let drop = (tmp \<noteq> HANTRO_OK \<or> noOutput \<noteq> 0 \<or> noReordering (dpbOf st)
                   \<or> (case oldSPS of None \<Rightarrow> True
                      | Some old \<Rightarrow> picWidthInMbs old \<noteq> picWidthInMbs newSPS
                          \<or> picHeightInMbs old \<noteq> picHeightInMbs newSPS \<or> maxDpbSize old \<noteq> maxDpbSize newSPS));
       dpb \<leftarrow> (if drop then Some ((dpbOf st)\<lparr>flushed := False\<rparr>) else h264bsdFlushDpb (dpbOf st));
       Some (st\<lparr>dpbOf := dpb, oldSpsId := activeSpsId st\<rparr>)
     }"

text \<open>\<open>None\<close> in the status: decoding goes on with the slice header.\<close>

definition ActivateForPicture ::
  "u32 \<Rightarrow> (nat \<Rightarrow> u32) \<Rightarrow> nat option list \<Rightarrow> strmData \<Rightarrow> nalUnit \<Rightarrow> u32 \<Rightarrow> storage
   \<Rightarrow> (nat list \<times> u32 option \<times> storage \<times> nat option list) option" where
  "ActivateForPicture sizeofMb fresh heap strm nalUnit appPicId st =
     do {
       let st = st\<lparr>numConcealedMbs := 0, currentPicId := appPicId\<rparr>;
       (_, ppsId) \<leftarrow> h264bsdCheckPpsId strm 0;
       let spsId = activeSpsId st;
       (freed, tmp, st, heap) \<leftarrow> h264bsdActivateParamSets sizeofMb fresh heap st ppsId (IS_IDR_NAL_UNIT nalUnit);
       if tmp \<noteq> HANTRO_OK
       then Some (freed,
                  Some (if tmp = MEMORY_ALLOCATION_ERROR then H264BSD_MEMALLOC_ERROR else H264BSD_PARAM_SET_ERROR),
                  st\<lparr>activePpsId := MAX_NUM_PIC_PARAM_SETS, activePps := None,
                     activeSpsId := MAX_NUM_SEQ_PARAM_SETS, activeSps := None, pendingActivation := False\<rparr>, heap)
       else if spsId \<noteq> activeSpsId st
       then do { st \<leftarrow> HeadersReady strm nalUnit st; Some (freed, Some H264BSD_HDRS_RDY, st, heap) }
       else Some (freed, None, st, heap)
     }"

end
