(* ===== verification/H264Cavlc.thy ===== *)
theory H264Cavlc
  imports H264Parse H264DpbSort
begin

text \<open>
  The decoder of residual blocks (\<open>h264bsd_cavlc.c\<close>). Its local variables are the fields of a
  record, uninitialised array elements are \<open>None\<close>, and its statements are steps that share the
  early return of a status. \<open>coeffLevel\<close> is a position in the array of coefficients the caller
  points into.
\<close>

section \<open>Tables\<close>

definition coeffToken0_0 :: "16 word list" where
  "coeffToken0_0 =
    [0x0000, 0x0000, 0x0000, 0x2066, 0x1026, 0x0806, 0x1865, 0x1865,
     0x1043, 0x1043, 0x1043, 0x1043, 0x1043, 0x1043, 0x1043, 0x1043,
     0x0822, 0x0822, 0x0822, 0x0822, 0x0822, 0x0822, 0x0822, 0x0822,
     0x0822, 0x0822, 0x0822, 0x0822, 0x0822, 0x0822, 0x0822, 0x0822]"

definition coeffToken0_1 :: "16 word list" where
  "coeffToken0_1 =
    [0x0000, 0x0000, 0x0000, 0x0000, 0x406a, 0x304a, 0x282a, 0x200a,
     0x3869, 0x3869, 0x2849, 0x2849, 0x2029, 0x2029, 0x1809, 0x1809,
     0x3068, 0x3068, 0x3068, 0x3068, 0x2048, 0x2048, 0x2048, 0x2048,
     0x1828, 0x1828, 0x1828, 0x1828, 0x1008, 0x1008, 0x1008, 0x1008,
     0x2867, 0x2867, 0x2867, 0x2867, 0x2867, 0x2867, 0x2867, 0x2867,
     0x1847, 0x1847, 0x1847, 0x1847, 0x1847, 0x1847, 0x1847, 0x1847]"

definition coeffToken0_2 :: "16 word list" where
  "coeffToken0_2 =
    [0x606e, 0x584e, 0x502e, 0x500e, 0x586e, 0x504e, 0x482e, 0x480e,
     0x400d, 0x400d, 0x484d, 0x484d, 0x402d, 0x402d, 0x380d, 0x380d,
     0x506d, 0x506d, 0x404d, 0x404d, 0x382d, 0x382d, 0x300d, 0x300d,
     0x486b, 0x486b, 0x486b, 0x486b, 0x486b, 0x486b, 0x486b, 0x486b,
     0x384b, 0x384b, 0x384b, 0x384b, 0x384b, 0x384b, 0x384b, 0x384b,
     0x302b, 0x302b, 0x302b, 0x302b, 0x302b, 0x302b, 0x302b, 0x302b,
     0x280b, 0x280b, 0x280b, 0x280b, 0x280b, 0x280b, 0x280b, 0x280b]"

definition coeffToken0_3 :: "16 word list" where
  "coeffToken0_3 =
    [0x0000, 0x0000, 0x682f, 0x682f, 0x8010, 0x8050, 0x8030, 0x7810,
     0x8070, 0x7850, 0x7830, 0x7010, 0x7870, 0x7050, 0x7030, 0x6810,
     0x706f, 0x706f, 0x684f, 0x684f, 0x602f, 0x602f, 0x600f, 0x600f,
     0x686f, 0x686f, 0x604f, 0x604f, 0x582f, 0x582f, 0x580f, 0x580f]"

definition coeffToken2_0 :: "16 word list" where
  "coeffToken2_0 =
    [0x0000, 0x0000, 0x0000, 0x0000, 0x3866, 0x2046, 0x2026, 0x1006,
     0x3066, 0x1846, 0x1826, 0x0806, 0x2865, 0x2865, 0x1025, 0x1025,
     0x2064, 0x2064, 0x2064, 0x2064, 0x1864, 0x1864, 0x1864, 0x1864,
     0x1043, 0x1043, 0x1043, 0x1043, 0x1043, 0x1043, 0x1043, 0x1043]"

definition coeffToken2_1 :: "16 word list" where
  "coeffToken2_1 =
    [0x0000, 0x0000, 0x0000, 0x0000, 0x4869, 0x3849, 0x3829, 0x3009,
     0x2808, 0x2808, 0x3048, 0x3048, 0x3028, 0x3028, 0x2008, 0x2008,
     0x4067, 0x4067, 0x4067, 0x4067, 0x2847, 0x2847, 0x2847, 0x2847,
     0x2827, 0x2827, 0x2827, 0x2827, 0x1807, 0x1807, 0x1807, 0x1807]"

definition coeffToken2_2 :: "16 word list" where
  "coeffToken2_2 =
    [0x0000, 0x0000, 0x786d, 0x786d, 0x806e, 0x804e, 0x802e, 0x800e,
     0x782e, 0x780e, 0x784e, 0x702e, 0x704d, 0x704d, 0x700d, 0x700d,
     0x706d, 0x706d, 0x684d, 0x684d, 0x682d, 0x682d, 0x680d, 0x680d,
     0x686d, 0x686d, 0x604d, 0x604d, 0x602d, 0x602d, 0x600d, 0x600d,
     0x580c, 0x580c, 0x580c, 0x580c, 0x584c, 0x584c, 0x584c, 0x584c,
     0x582c, 0x582c, 0x582c, 0x582c, 0x500c, 0x500c, 0x500c, 0x500c,
     0x606c, 0x606c, 0x606c, 0x606c, 0x504c, 0x504c, 0x504c, 0x504c,
     0x502c, 0x502c, 0x502c, 0x502c, 0x480c, 0x480c, 0x480c, 0x480c,
     0x586b, 0x586b, 0x586b, 0x586b, 0x586b, 0x586b, 0x586b, 0x586b,
     0x484b, 0x484b, 0x484b, 0x484b, 0x484b, 0x484b, 0x484b, 0x484b,
     0x482b, 0x482b, 0x482b, 0x482b, 0x482b, 0x482b, 0x482b, 0x482b,
     0x400b, 0x400b, 0x400b, 0x400b, 0x400b, 0x400b, 0x400b, 0x400b,
     0x506b, 0x506b, 0x506b, 0x506b, 0x506b, 0x506b, 0x506b, 0x506b,
     0x404b, 0x404b, 0x404b, 0x404b, 0x404b, 0x404b, 0x404b, 0x404b,
     0x402b, 0x402b, 0x402b, 0x402b, 0x402b, 0x402b, 0x402b, 0x402b,
     0x380b, 0x380b, 0x380b, 0x380b, 0x380b, 0x380b, 0x380b, 0x380b]"

definition coeffToken4_0 :: "16 word list" where
  "coeffToken4_0 =
    [0x0000, 0x0000, 0x0000, 0x0000, 0x0000, 0x0000, 0x0000, 0x0000,
     0x1806, 0x3846, 0x3826, 0x1006, 0x4866, 0x3046, 0x3026, 0x0806,
     0x2825, 0x2825, 0x2845, 0x2845, 0x2025, 0x2025, 0x2045, 0x2045,
     0x1825, 0x1825, 0x4065, 0x4065, 0x1845, 0x1845, 0x1025, 0x1025,
     0x3864, 0x3864, 0x3864, 0x3864, 0x3064, 0x3064, 0x3064, 0x3064,
     0x2864, 0x2864, 0x2864, 0x2864, 0x2064, 0x2064, 0x2064, 0x2064,
     0x1864, 0x1864, 0x1864, 0x1864, 0x1044, 0x1044, 0x1044, 0x1044,
     0x0824, 0x0824, 0x0824, 0x0824, 0x0004, 0x0004, 0x0004, 0x0004]"

definition coeffToken4_1 :: "16 word list" where
  "coeffToken4_1 =
    [0x0000, 0x800a, 0x806a, 0x804a, 0x802a, 0x780a, 0x786a, 0x784a,
     0x782a, 0x700a, 0x706a, 0x704a, 0x702a, 0x680a, 0x6829, 0x6829,
     0x6009, 0x6009, 0x6849, 0x6849, 0x6029, 0x6029, 0x5809, 0x5809,
     0x6869, 0x6869, 0x6049, 0x6049, 0x5829, 0x5829, 0x5009, 0x5009,
     0x6068, 0x6068, 0x6068, 0x6068, 0x5848, 0x5848, 0x5848, 0x5848,
     0x5028, 0x5028, 0x5028, 0x5028, 0x4808, 0x4808, 0x4808, 0x4808,
     0x5868, 0x5868, 0x5868, 0x5868, 0x5048, 0x5048, 0x5048, 0x5048,
     0x4828, 0x4828, 0x4828, 0x4828, 0x4008, 0x4008, 0x4008, 0x4008,
     0x3807, 0x3807, 0x3807, 0x3807, 0x3807, 0x3807, 0x3807, 0x3807,
     0x3007, 0x3007, 0x3007, 0x3007, 0x3007, 0x3007, 0x3007, 0x3007,
     0x4847, 0x4847, 0x4847, 0x4847, 0x4847, 0x4847, 0x4847, 0x4847,
     0x2807, 0x2807, 0x2807, 0x2807, 0x2807, 0x2807, 0x2807, 0x2807,
     0x5067, 0x5067, 0x5067, 0x5067, 0x5067, 0x5067, 0x5067, 0x5067,
     0x4047, 0x4047, 0x4047, 0x4047, 0x4047, 0x4047, 0x4047, 0x4047,
     0x4027, 0x4027, 0x4027, 0x4027, 0x4027, 0x4027, 0x4027, 0x4027,
     0x2007, 0x2007, 0x2007, 0x2007, 0x2007, 0x2007, 0x2007, 0x2007]"

definition coeffToken8 :: "16 word list" where
  "coeffToken8 =
    [0x0806, 0x0826, 0x0000, 0x0006, 0x1006, 0x1026, 0x1046, 0x0000,
     0x1806, 0x1826, 0x1846, 0x1866, 0x2006, 0x2026, 0x2046, 0x2066,
     0x2806, 0x2826, 0x2846, 0x2866, 0x3006, 0x3026, 0x3046, 0x3066,
     0x3806, 0x3826, 0x3846, 0x3866, 0x4006, 0x4026, 0x4046, 0x4066,
     0x4806, 0x4826, 0x4846, 0x4866, 0x5006, 0x5026, 0x5046, 0x5066,
     0x5806, 0x5826, 0x5846, 0x5866, 0x6006, 0x6026, 0x6046, 0x6066,
     0x6806, 0x6826, 0x6846, 0x6866, 0x7006, 0x7026, 0x7046, 0x7066,
     0x7806, 0x7826, 0x7846, 0x7866, 0x8006, 0x8026, 0x8046, 0x8066]"

definition coeffTokenMinus1_0 :: "16 word list" where
  "coeffTokenMinus1_0 =
    [0x0000, 0x1043, 0x0002, 0x0002, 0x0821, 0x0821, 0x0821, 0x0821]"

definition coeffTokenMinus1_1 :: "16 word list" where
  "coeffTokenMinus1_1 =
    [0x2067, 0x2067, 0x2048, 0x2028, 0x1847, 0x1847, 0x1827, 0x1827,
     0x2006, 0x2006, 0x2006, 0x2006, 0x1806, 0x1806, 0x1806, 0x1806,
     0x1006, 0x1006, 0x1006, 0x1006, 0x1866, 0x1866, 0x1866, 0x1866,
     0x1026, 0x1026, 0x1026, 0x1026, 0x0806, 0x0806, 0x0806, 0x0806]"

definition totalZeros_1_0 :: "8 word list" where
  "totalZeros_1_0 =
    [0x00, 0x00, 0x65, 0x55, 0x44, 0x44, 0x34, 0x34,
     0x23, 0x23, 0x23, 0x23, 0x13, 0x13, 0x13, 0x13,
     0x01, 0x01, 0x01, 0x01, 0x01, 0x01, 0x01, 0x01,
     0x01, 0x01, 0x01, 0x01, 0x01, 0x01, 0x01, 0x01]"

definition totalZeros_1_1 :: "8 word list" where
  "totalZeros_1_1 =
    [0x00, 0xf9, 0xe9, 0xd9, 0xc8, 0xc8, 0xb8, 0xb8,
     0xa7, 0xa7, 0xa7, 0xa7, 0x97, 0x97, 0x97, 0x97,
     0x86, 0x86, 0x86, 0x86, 0x86, 0x86, 0x86, 0x86,
     0x76, 0x76, 0x76, 0x76, 0x76, 0x76, 0x76, 0x76]"

definition totalZeros_2 :: "8 word list" where
  "totalZeros_2 =
    [0xe6, 0xd6, 0xc6, 0xb6, 0xa5, 0xa5, 0x95, 0x95,
     0x84, 0x84, 0x84, 0x84, 0x74, 0x74, 0x74, 0x74,
     0x64, 0x64, 0x64, 0x64, 0x54, 0x54, 0x54, 0x54,
     0x43, 0x43, 0x43, 0x43, 0x43, 0x43, 0x43, 0x43,
     0x33, 0x33, 0x33, 0x33, 0x33, 0x33, 0x33, 0x33,
     0x23, 0x23, 0x23, 0x23, 0x23, 0x23, 0x23, 0x23,
     0x13, 0x13, 0x13, 0x13, 0x13, 0x13, 0x13, 0x13,
     0x03, 0x03, 0x03, 0x03, 0x03, 0x03, 0x03, 0x03]"

definition totalZeros_3 :: "8 word list" where
  "totalZeros_3 =
    [0xd6, 0xb6, 0xc5, 0xc5, 0xa5, 0xa5, 0x95, 0x95,
     0x84, 0x84, 0x84, 0x84, 0x54, 0x54, 0x54, 0x54,
     0x44, 0x44, 0x44, 0x44, 0x04, 0x04, 0x04, 0x04,
     0x73, 0x73, 0x73, 0x73, 0x73, 0x73, 0x73, 0x73,
     0x63, 0x63, 0x63, 0x63, 0x63, 0x63, 0x63, 0x63,
     0x33, 0x33, 0x33, 0x33, 0x33, 0x33, 0x33, 0x33,
     0x23, 0x23, 0x23, 0x23, 0x23, 0x23, 0x23, 0x23,
     0x13, 0x13, 0x13, 0x13, 0x13, 0x13, 0x13, 0x13]"

definition totalZeros_4 :: "8 word list" where
  "totalZeros_4 =
    [0xc5, 0xb5, 0xa5, 0x05, 0x94, 0x94, 0x74, 0x74,
     0x34, 0x34, 0x24, 0x24, 0x83, 0x83, 0x83, 0x83,
     0x63, 0x63, 0x63, 0x63, 0x53, 0x53, 0x53, 0x53,
     0x43, 0x43, 0x43, 0x43, 0x13, 0x13, 0x13, 0x13]"

definition totalZeros_5 :: "8 word list" where
  "totalZeros_5 =
    [0xb5, 0x95, 0xa4, 0xa4, 0x84, 0x84, 0x24, 0x24,
     0x14, 0x14, 0x04, 0x04, 0x73, 0x73, 0x73, 0x73,
     0x63, 0x63, 0x63, 0x63, 0x53, 0x53, 0x53, 0x53,
     0x43, 0x43, 0x43, 0x43, 0x33, 0x33, 0x33, 0x33]"

definition totalZeros_6 :: "8 word list" where
  "totalZeros_6 =
    [0xa6, 0x06, 0x15, 0x15, 0x84, 0x84, 0x84, 0x84,
     0x93, 0x93, 0x93, 0x93, 0x93, 0x93, 0x93, 0x93,
     0x73, 0x73, 0x73, 0x73, 0x73, 0x73, 0x73, 0x73,
     0x63, 0x63, 0x63, 0x63, 0x63, 0x63, 0x63, 0x63,
     0x53, 0x53, 0x53, 0x53, 0x53, 0x53, 0x53, 0x53,
     0x43, 0x43, 0x43, 0x43, 0x43, 0x43, 0x43, 0x43,
     0x33, 0x33, 0x33, 0x33, 0x33, 0x33, 0x33, 0x33,
     0x23, 0x23, 0x23, 0x23, 0x23, 0x23, 0x23, 0x23]"

definition totalZeros_7 :: "8 word list" where
  "totalZeros_7 =
    [0x96, 0x06, 0x15, 0x15, 0x74, 0x74, 0x74, 0x74,
     0x83, 0x83, 0x83, 0x83, 0x83, 0x83, 0x83, 0x83,
     0x63, 0x63, 0x63, 0x63, 0x63, 0x63, 0x63, 0x63,
     0x43, 0x43, 0x43, 0x43, 0x43, 0x43, 0x43, 0x43,
     0x33, 0x33, 0x33, 0x33, 0x33, 0x33, 0x33, 0x33,
     0x23, 0x23, 0x23, 0x23, 0x23, 0x23, 0x23, 0x23,
     0x52, 0x52, 0x52, 0x52, 0x52, 0x52, 0x52, 0x52,
     0x52, 0x52, 0x52, 0x52, 0x52, 0x52, 0x52, 0x52]"

definition totalZeros_8 :: "8 word list" where
  "totalZeros_8 =
    [0x86, 0x06, 0x25, 0x25, 0x14, 0x14, 0x14, 0x14,
     0x73, 0x73, 0x73, 0x73, 0x73, 0x73, 0x73, 0x73,
     0x63, 0x63, 0x63, 0x63, 0x63, 0x63, 0x63, 0x63,
     0x33, 0x33, 0x33, 0x33, 0x33, 0x33, 0x33, 0x33,
     0x52, 0x52, 0x52, 0x52, 0x52, 0x52, 0x52, 0x52,
     0x52, 0x52, 0x52, 0x52, 0x52, 0x52, 0x52, 0x52,
     0x42, 0x42, 0x42, 0x42, 0x42, 0x42, 0x42, 0x42,
     0x42, 0x42, 0x42, 0x42, 0x42, 0x42, 0x42, 0x42]"

definition totalZeros_9 :: "8 word list" where
  "totalZeros_9 =
    [0x16, 0x06, 0x75, 0x75, 0x24, 0x24, 0x24, 0x24,
     0x53, 0x53, 0x53, 0x53, 0x53, 0x53, 0x53, 0x53,
     0x62, 0x62, 0x62, 0x62, 0x62, 0x62, 0x62, 0x62,
     0x62, 0x62, 0x62, 0x62, 0x62, 0x62, 0x62, 0x62,
     0x42, 0x42, 0x42, 0x42, 0x42, 0x42, 0x42, 0x42,
     0x42, 0x42, 0x42, 0x42, 0x42, 0x42, 0x42, 0x42,
     0x32, 0x32, 0x32, 0x32, 0x32, 0x32, 0x32, 0x32,
     0x32, 0x32, 0x32, 0x32, 0x32, 0x32, 0x32, 0x32]"

definition totalZeros_10 :: "8 word list" where
  "totalZeros_10 =
    [0x15, 0x05, 0x64, 0x64, 0x23, 0x23, 0x23, 0x23,
     0x52, 0x52, 0x52, 0x52, 0x52, 0x52, 0x52, 0x52,
     0x42, 0x42, 0x42, 0x42, 0x42, 0x42, 0x42, 0x42,
     0x32, 0x32, 0x32, 0x32, 0x32, 0x32, 0x32, 0x32]"

definition totalZeros_11 :: "8 word list" where
  "totalZeros_11 =
    [0x04, 0x14, 0x23, 0x23, 0x33, 0x33, 0x53, 0x53,
     0x41, 0x41, 0x41, 0x41, 0x41, 0x41, 0x41, 0x41]"

definition totalZeros_12 :: "8 word list" where
  "totalZeros_12 =
    [0x04, 0x14, 0x43, 0x43, 0x22, 0x22, 0x22, 0x22,
     0x31, 0x31, 0x31, 0x31, 0x31, 0x31, 0x31, 0x31]"

definition totalZeros_13 :: "8 word list" where
  "totalZeros_13 =
    [0x03, 0x13, 0x32, 0x32, 0x21, 0x21, 0x21, 0x21]"

definition totalZeros_14 :: "8 word list" where
  "totalZeros_14 =
    [0x02, 0x12, 0x21, 0x21]"

definition runBefore_6 :: "8 word list" where
  "runBefore_6 =
    [0x13, 0x23, 0x43, 0x33, 0x63, 0x53, 0x02, 0x02]"

definition runBefore_5 :: "8 word list" where
  "runBefore_5 =
    [0x53, 0x43, 0x33, 0x23, 0x12, 0x12, 0x02, 0x02]"

definition runBefore_4 :: "8 word list" where
  "runBefore_4 =
    [0x43, 0x33, 0x22, 0x22, 0x12, 0x12, 0x02, 0x02]"

definition runBefore_3 :: "8 word list" where
  "runBefore_3 =
    [0x32, 0x22, 0x12, 0x02]"

definition runBefore_2 :: "8 word list" where
  "runBefore_2 =
    [0x22, 0x12, 0x01, 0x01]"

definition runBefore_1 :: "8 word list" where
  "runBefore_1 =
    [0x11, 0x01]"

abbreviation (input) VLC_NOT_FOUND :: u32 where "VLC_NOT_FOUND \<equiv> 0xFFFFFFFE"

text \<open>The fields of a table entry.\<close>

definition LENGTH_TC :: "u32 \<Rightarrow> u32" where "LENGTH_TC v = v AND 0x1F"
definition LENGTH_VLC :: "u32 \<Rightarrow> u32" where "LENGTH_VLC v = v AND 0xF"
definition INFO :: "u32 \<Rightarrow> u32" where "INFO v = drop_bit 4 v AND 0xF"
definition TRAILING_ONES :: "u32 \<Rightarrow> u32" where "TRAILING_ONES v = drop_bit 5 v AND 0x3F"
definition TOTAL_COEFF :: "u32 \<Rightarrow> u32" where "TOTAL_COEFF v = drop_bit 11 v AND 0x1F"

definition look :: "('w :: len) word list \<Rightarrow> u32 \<Rightarrow> u32 option" where
  "look tbl i = do { v \<leftarrow> rd tbl (unat i); Some (ucast v) }"

section \<open>Code words\<close>

definition DecodeCoeffToken :: "u32 \<Rightarrow> u32 \<Rightarrow> u32 option" where
  "DecodeCoeffToken bits nc =
     (if nc < 2
      then if bits \<ge> 0x8000 then Some 0x0001
           else if bits \<ge> 0x0C00 then look coeffToken0_0 (drop_bit 10 bits)
           else if bits \<ge> 0x0100 then look coeffToken0_1 (drop_bit 6 bits)
           else if bits \<ge> 0x0020 then look coeffToken0_2 (drop_bit 2 bits - 8)
           else look coeffToken0_3 bits
      else if nc < 4
      then if bits \<ge> 0x8000 then Some (if bits AND 0x4000 \<noteq> 0 then 0x0002 else 0x0822)
           else if bits \<ge> 0x1000 then look coeffToken2_0 (drop_bit 10 bits)
           else if bits \<ge> 0x0200 then look coeffToken2_1 (drop_bit 7 bits)
           else look coeffToken2_2 (drop_bit 2 bits)
      else if nc < 8
      then do {
        v \<leftarrow> look coeffToken4_0 (drop_bit 10 bits);
        if v = 0 then look coeffToken4_1 (drop_bit 6 bits) else Some v
      }
      else if nc \<le> 16 then look coeffToken8 (drop_bit 10 bits)
      else do {
        v \<leftarrow> look coeffTokenMinus1_0 (drop_bit 13 bits);
        if v = 0 then look coeffTokenMinus1_1 (drop_bit 8 bits) else Some v
      })"

definition DecodeLevelPrefix :: "u32 \<Rightarrow> u32" where
  "DecodeLevelPrefix bits =
     (if bits \<ge> 0x8000 then 0
      else if bits \<ge> 0x4000 then 1
      else if bits \<ge> 0x2000 then 2
      else if bits \<ge> 0x1000 then 3
      else if bits \<ge> 0x0800 then 4
      else if bits \<ge> 0x0400 then 5
      else if bits \<ge> 0x0200 then 6
      else if bits \<ge> 0x0100 then 7
      else if bits \<ge> 0x0080 then 8
      else if bits \<ge> 0x0040 then 9
      else if bits \<ge> 0x0020 then 10
      else if bits \<ge> 0x0010 then 11
      else if bits \<ge> 0x0008 then 12
      else if bits \<ge> 0x0004 then 13
      else if bits \<ge> 0x0002 then 14
      else if bits \<ge> 0x0001 then 15
      else VLC_NOT_FOUND)"

definition TotalZerosLuma :: "u32 \<Rightarrow> u32 \<Rightarrow> u32 option" where
  "TotalZerosLuma bits n =
     (if n = 1
      then do {
        v \<leftarrow> look totalZeros_1_0 (drop_bit 4 bits);
        if v = 0 then look totalZeros_1_1 bits else Some v
      }
      else if n = 2 then look totalZeros_2 (drop_bit 3 bits)
      else if n = 3 then look totalZeros_3 (drop_bit 3 bits)
      else if n = 4 then look totalZeros_4 (drop_bit 4 bits)
      else if n = 5 then look totalZeros_5 (drop_bit 4 bits)
      else if n = 6 then look totalZeros_6 (drop_bit 3 bits)
      else if n = 7 then look totalZeros_7 (drop_bit 3 bits)
      else if n = 8 then look totalZeros_8 (drop_bit 3 bits)
      else if n = 9 then look totalZeros_9 (drop_bit 3 bits)
      else if n = 10 then look totalZeros_10 (drop_bit 4 bits)
      else if n = 11 then look totalZeros_11 (drop_bit 5 bits)
      else if n = 12 then look totalZeros_12 (drop_bit 5 bits)
      else if n = 13 then look totalZeros_13 (drop_bit 6 bits)
      else if n = 14 then look totalZeros_14 (drop_bit 7 bits)
      else Some (if drop_bit 8 bits \<noteq> 0 then 0x11 else 0x01))"

definition TotalZerosChromaDc :: "u32 \<Rightarrow> u32 \<Rightarrow> u32" where
  "TotalZerosChromaDc bits n =
     (let bits = drop_bit 6 bits
      in if bits > 3 then 0x01
         else if n = 3 then 0x11
         else if bits > 1 then 0x12
         else if n = 2 then 0x22
         else if bits \<noteq> 0 then 0x23
         else 0x33)"

definition DecodeTotalZeros :: "u32 \<Rightarrow> u32 \<Rightarrow> bool \<Rightarrow> u32 option" where
  "DecodeTotalZeros bits n isChromaDC =
     (if \<not> isChromaDC then TotalZerosLuma bits n else Some (TotalZerosChromaDc bits n))"

definition RunBeforeLong :: "u32 \<Rightarrow> u32" where
  "RunBeforeLong bits =
     (if bits \<ge> 0x100 then push_bit 4 (7 - drop_bit 8 bits) + 0x3
      else if bits \<ge> 0x80 then 0x74
      else if bits \<ge> 0x40 then 0x85
      else if bits \<ge> 0x20 then 0x96
      else if bits \<ge> 0x10 then 0xa7
      else if bits \<ge> 0x8 then 0xb8
      else if bits \<ge> 0x4 then 0xc9
      else if bits \<ge> 0x2 then 0xdA
      else if bits \<noteq> 0 then 0xeB
      else 0)"

definition DecodeRunBefore :: "u32 \<Rightarrow> u32 \<Rightarrow> u32 option" where
  "DecodeRunBefore bits left =
     (if left = 1 then look runBefore_1 (drop_bit 10 bits)
      else if left = 2 then look runBefore_2 (drop_bit 9 bits)
      else if left = 3 then look runBefore_3 (drop_bit 9 bits)
      else if left = 4 then look runBefore_4 (drop_bit 8 bits)
      else if left = 5 then look runBefore_5 (drop_bit 8 bits)
      else if left = 6 then look runBefore_6 (drop_bit 8 bits)
      else Some (let v = RunBeforeLong bits in if INFO v > left then 0 else v))"

section \<open>The stream cache\<close>

record cavlc =
  bufferValue :: u32
  bufferBits :: u32
  tokenTotal :: u32
  tokenOnes :: u32
  suffixLength :: u32
  levelCount :: nat
  levels :: "int option list"
  runs :: "u32 option list"
  zerosLeft :: u32

definition Refill :: "u32 \<Rightarrow> cavlc step" where
  "Refill n h s =
     (if bufferBits h < n
      then let (status, s) = h264bsdFlushBits s (32 - bufferBits h)
           in if status = END_OF_STREAM then Some (HANTRO_NOK, h, s)
              else do {
                v \<leftarrow> h264bsdShowBits32 s;
                Some (HANTRO_OK, h\<lparr>bufferValue := v, bufferBits := 32\<rparr>, s)
              }
      else Some (HANTRO_OK, h, s))"

text \<open>\<open>use\<close> is what follows the macro, with the variable it sets.\<close>

definition BUFFER_SHOW :: "u32 \<Rightarrow> (u32 \<Rightarrow> cavlc step) \<Rightarrow> cavlc step" where
  "BUFFER_SHOW n use h s =
     do {
       (ret, h, s) \<leftarrow> Refill n h s;
       if ret \<noteq> HANTRO_OK then Some (ret, h, s)
       else do { v \<leftarrow> shr32 (bufferValue h) (32 - n); use v h s }
     }"

definition BUFFER_FLUSH :: "u32 \<Rightarrow> cavlc step" where
  "BUFFER_FLUSH n h s =
     do {
       v \<leftarrow> shl32 (bufferValue h) (uint n);
       Some (HANTRO_OK, h\<lparr>bufferValue := v, bufferBits := bufferBits h - n\<rparr>, s)
     }"

definition BUFFER_GET :: "u32 \<Rightarrow> (u32 \<Rightarrow> cavlc step) \<Rightarrow> cavlc step" where
  "BUFFER_GET n use = BUFFER_SHOW n (\<lambda>v. parse_all [BUFFER_FLUSH n, use v])"

section \<open>One block\<close>

definition CoeffToken :: "u32 \<Rightarrow> u32 \<Rightarrow> cavlc step" where
  "CoeffToken nc maxNumCoeff = BUFFER_SHOW 16 (\<lambda>v h s.
     do {
       tmp \<leftarrow> DecodeCoeffToken v nc;
       if tmp = 0 then Some (HANTRO_NOK, h, s)
       else parse_all
         [BUFFER_FLUSH (LENGTH_TC tmp),
          FailIf (\<lambda>h. TOTAL_COEFF tmp > maxNumCoeff),
          Assign (\<lambda>h. h\<lparr>tokenTotal := TOTAL_COEFF tmp, tokenOnes := TRAILING_ONES tmp\<rparr>)] h s
     })"

function TrailingLoop :: "u32 \<Rightarrow> u32 \<Rightarrow> nat \<Rightarrow> int option list \<Rightarrow> (nat \<times> int option list) option" where
  "TrailingLoop v tmp i level =
     (if tmp \<noteq> 0
      then do {
        level \<leftarrow> wr level i (Some (if v AND tmp \<noteq> 0 then - 1 else 1));
        TrailingLoop v (drop_bit 1 tmp) (Suc i) level
      }
      else Some (i, level))"
  by pat_completeness auto
termination
  by (relation "measure (\<lambda>(v, tmp, i, level). unat tmp)")
    (auto simp: drop_bit_eq_div unat_div unat_gt_0)

declare TrailingLoop.simps [simp del]

definition TrailingOnes :: "cavlc step" where
  "TrailingOnes h s =
     (if tokenOnes h \<noteq> 0
      then BUFFER_GET (tokenOnes h) (\<lambda>v h s. do {
             tmp \<leftarrow> shl32 1 (uint (tokenOnes h - 1));
             (i, level) \<leftarrow> TrailingLoop v tmp 0 (levels h);
             Some (HANTRO_OK, h\<lparr>levelCount := i, levels := level\<rparr>, s)
           }) h s
      else Some (HANTRO_OK, h\<lparr>levelCount := 0\<rparr>, s))"

definition InitSuffix :: "cavlc step" where
  "InitSuffix = Assign (\<lambda>h. h\<lparr>suffixLength := (if tokenTotal h > 10 \<and> tokenOnes h < 3 then 1 else 0)\<rparr>)"

definition StoreLevel :: "nat \<Rightarrow> u32 \<Rightarrow> cavlc step" where
  "StoreLevel i levelPrefix h s =
     do {
       let tmp = (if i = unat (tokenOnes h) \<and> tokenOnes h < 3 then levelPrefix + 2 else levelPrefix);
       let lev = sint (drop_bit 1 (tmp + 2));
       let suffix = (if suffixLength h = 0 then 1 else suffixLength h);
       limit \<leftarrow> shl32 3 (uint (suffix - 1));
       let suffix = (if lev > sint limit \<and> suffix < 6 then suffix + 1 else suffix);
       level \<leftarrow> wr (levels h) i (Some (if tmp AND 1 \<noteq> 0 then - lev else lev));
       Some (HANTRO_OK, h\<lparr>suffixLength := suffix, levels := level\<rparr>, s)
     }"

definition LevelSuffix :: "nat \<Rightarrow> u32 \<Rightarrow> cavlc step" where
  "LevelSuffix i levelPrefix h s =
     do {
       let suffix = suffixLength h;
       let (tmp, suffix) =
         (if levelPrefix < 14 then (suffix, suffix)
          else if levelPrefix = 14 then (if suffix \<noteq> 0 then suffix else 4, suffix)
          else (12, if suffix = 0 then 1 else suffix));
       levelPrefix \<leftarrow> (if suffix \<noteq> 0 then shl32 levelPrefix (uint suffix) else Some levelPrefix);
       let h = h\<lparr>suffixLength := suffix\<rparr>;
       if tmp \<noteq> 0 then BUFFER_GET tmp (\<lambda>levelSuffix. StoreLevel i (levelPrefix + levelSuffix)) h s
       else StoreLevel i levelPrefix h s
     }"

definition DecodeLevel :: "nat \<Rightarrow> cavlc step" where
  "DecodeLevel i = BUFFER_SHOW 16 (\<lambda>v h s.
     let levelPrefix = DecodeLevelPrefix v
     in if levelPrefix = VLC_NOT_FOUND then Some (HANTRO_NOK, h, s)
        else parse_all [BUFFER_FLUSH (levelPrefix + 1), LevelSuffix i levelPrefix] h s)"

definition Levels :: "cavlc step" where
  "Levels h = ForLoop DecodeLevel (levelCount h) (unat (tokenTotal h) - levelCount h) h"

definition TotalZeros :: "u32 \<Rightarrow> cavlc step" where
  "TotalZeros maxNumCoeff h s =
     (if tokenTotal h < maxNumCoeff
      then BUFFER_SHOW 9 (\<lambda>v h s. do {
             z \<leftarrow> DecodeTotalZeros v (tokenTotal h) (maxNumCoeff = 4);
             if z = 0 then Some (HANTRO_NOK, h, s)
             else parse_all [BUFFER_FLUSH (LENGTH_VLC z), Assign (\<lambda>h. h\<lparr>zerosLeft := INFO z\<rparr>)] h s
           }) h s
      else Some (HANTRO_OK, h\<lparr>zerosLeft := 0\<rparr>, s))"

definition StoreRun :: "nat \<Rightarrow> u32 \<Rightarrow> cavlc step" where
  "StoreRun i r h s =
     do { run \<leftarrow> wr (runs h) i (Some (r + 1)); Some (HANTRO_OK, h\<lparr>runs := run, zerosLeft := zerosLeft h - r\<rparr>, s) }"

definition DecodeRun :: "nat \<Rightarrow> cavlc step" where
  "DecodeRun i h s =
     (if zerosLeft h > 0
      then BUFFER_SHOW 11 (\<lambda>v h s. do {
             tmp \<leftarrow> DecodeRunBefore v (zerosLeft h);
             if tmp = 0 then Some (HANTRO_NOK, h, s)
             else parse_all [BUFFER_FLUSH (LENGTH_VLC tmp), StoreRun i (INFO tmp)] h s
           }) h s
      else StoreRun i 0 h s)"

definition Runs :: "cavlc step" where
  "Runs h = ForLoop DecodeRun 0 (unat (tokenTotal h - 1)) h"

definition BlockSteps :: "u32 \<Rightarrow> u32 \<Rightarrow> cavlc step list" where
  "BlockSteps nc maxNumCoeff =
    [CoeffToken nc maxNumCoeff,
     When (\<lambda>h. tokenTotal h \<noteq> 0) [TrailingOnes, InitSuffix, Levels, TotalZeros maxNumCoeff, Runs]]"

text \<open>Combining levels and runs; \<open>map\<close> has a bit for every coefficient that is not zero.\<close>

definition PutCoeff :: "int list \<Rightarrow> nat \<Rightarrow> cavlc \<Rightarrow> u32 \<Rightarrow> nat \<Rightarrow> int list option" where
  "PutCoeff coeffs coeffLevel h tmp i =
     do { slot \<leftarrow> rd (levels h) i; lev \<leftarrow> slot; wr coeffs (coeffLevel + unat tmp) lev }"

fun Combine :: "cavlc \<Rightarrow> nat \<Rightarrow> nat \<Rightarrow> u32 \<Rightarrow> u32 \<Rightarrow> int list \<Rightarrow> (u32 \<times> int list) option" where
  "Combine h coeffLevel 0 tmp m coeffs = Some (m, coeffs)"
| "Combine h coeffLevel (Suc i) tmp m coeffs =
     do {
       slot \<leftarrow> rd (runs h) i;
       r \<leftarrow> slot;
       let tmp = tmp + r;
       b \<leftarrow> shl32 1 (uint tmp);
       coeffs \<leftarrow> PutCoeff coeffs coeffLevel h tmp i;
       Combine h coeffLevel i tmp (m OR b) coeffs
     }"

definition CombineAll :: "cavlc \<Rightarrow> nat \<Rightarrow> int list \<Rightarrow> (u32 \<times> int list) option" where
  "CombineAll h coeffLevel coeffs =
     (if tokenTotal h \<noteq> 0
      then do {
        let n = unat (tokenTotal h - 1);
        coeffs \<leftarrow> PutCoeff coeffs coeffLevel h (zerosLeft h) n;
        b \<leftarrow> shl32 1 (uint (zerosLeft h));
        Combine h coeffLevel n (zerosLeft h) b coeffs
      }
      else Some (0, coeffs))"

text \<open>The result is the status, or the number of coefficients and their map. The stream after an
  error is not read again.\<close>

definition h264bsdDecodeResidualBlockCavlc ::
  "strmData \<Rightarrow> int list \<Rightarrow> nat \<Rightarrow> u32 \<Rightarrow> u32 \<Rightarrow> (u32 \<times> int list \<times> strmData) option" where
  "h264bsdDecodeResidualBlockCavlc s coeffs coeffLevel nc maxNumCoeff =
     do {
       v \<leftarrow> h264bsdShowBits32 s;
       let h = \<lparr>bufferValue = v, bufferBits = 32, tokenTotal = 0, tokenOnes = 0, suffixLength = 0,
                levelCount = 0, levels = replicate 16 None, runs = replicate 16 None, zerosLeft = 0\<rparr>;
       (ret, h, s) \<leftarrow> parse_all (BlockSteps nc maxNumCoeff) h s;
       if ret \<noteq> HANTRO_OK then Some (ret, coeffs, s)
       else do {
         (m, coeffs) \<leftarrow> CombineAll h coeffLevel coeffs;
         let (status, s) = h264bsdFlushBits s (32 - bufferBits h);
         if status \<noteq> HANTRO_OK then Some (HANTRO_NOK, coeffs, s)
         else Some (push_bit 4 (tokenTotal h) OR push_bit 16 m, coeffs, s)
       }
     }"

end
