(* ===== verification/H264MbLayer.thy ===== *)
theory H264MbLayer
  imports H264Neighbour H264Cavlc H264SliceHeader
begin

text \<open>
  The parser of macroblocks (\<open>h264bsd_macroblock_layer.c\<close>, in the variant without OpenMAX
  routines). The rows of \<open>level\<close>, 26 blocks of 16 coefficients, are one list, so that a block's
  coefficients start at a position of it. The storage of the neighbouring macroblocks is read to
  choose the tables of coefficient tokens.
\<close>

section \<open>Data\<close>

record mbPred =
  prevIntra4x4PredModeFlag :: "bool list"
  remIntra4x4PredMode :: "u32 list"
  intraChromaPredMode :: u32
  refIdxL0 :: "u32 list"
  mvdL0 :: "mv_t list"

record subMbPred =
  subMbType :: "u32 list"
  subRefIdxL0 :: "u32 list"
  subMvdL0 :: "mv_t list list"

record residual =
  resTotalCoeff :: "16 word list"
  level :: "int list"
  coeffMap :: "u32 list"

record macroblockLayer =
  layerType :: mbType_e
  codedBlockPattern :: u32
  mbQpDelta :: int
  mbPredOf :: mbPred
  subMbPredOf :: subMbPred
  residualOf :: residual

definition zeroLayer :: macroblockLayer where
  "zeroLayer = \<lparr>layerType = P_Skip, codedBlockPattern = 0, mbQpDelta = 0,
     mbPredOf = \<lparr>prevIntra4x4PredModeFlag = replicate 16 False, remIntra4x4PredMode = replicate 16 0,
       intraChromaPredMode = 0, refIdxL0 = replicate 4 0, mvdL0 = replicate 4 (0, 0)\<rparr>,
     subMbPredOf = \<lparr>subMbType = replicate 4 0, subRefIdxL0 = replicate 4 0,
       subMvdL0 = replicate 4 (replicate 4 (0, 0))\<rparr>,
     residualOf = \<lparr>resTotalCoeff = replicate 27 0, level = replicate 416 0, coeffMap = replicate 24 0\<rparr>\<rparr>"

datatype mbPartPredMode = PRED_MODE_INTRA4x4 | PRED_MODE_INTRA16x16 | PRED_MODE_INTER

section \<open>Macroblock types\<close>

definition h264bsdMbPartPredMode :: "mbType_e \<Rightarrow> mbPartPredMode" where
  "h264bsdMbPartPredMode t =
     (if t \<le> P_8x8ref0 then PRED_MODE_INTER else if t = I_4x4 then PRED_MODE_INTRA4x4 else PRED_MODE_INTRA16x16)"

definition h264bsdNumMbPart :: "mbType_e \<Rightarrow> nat" where
  "h264bsdNumMbPart t =
     (if t = P_L0_16x16 \<or> t = P_Skip then 1 else if t = P_L0_L0_16x8 \<or> t = P_L0_L0_8x16 then 2 else 4)"

definition h264bsdNumSubMbPart :: "u32 \<Rightarrow> nat" where
  "h264bsdNumSubMbPart t = (if t = 0 then 1 else if t = 1 \<or> t = 2 then 2 else 4)"

definition CbpIntra16x16 :: "mbType_e \<Rightarrow> u32" where
  "CbpIntra16x16 t =
     (let cbp = (if t \<ge> 19 then 15 else 0);
          tmp = drop_bit 2 (t - I_16x16_0_0_0);
          tmp = (if tmp > 2 then tmp - 3 else tmp)
      in cbp + push_bit 4 tmp)"

definition h264bsdPredModeIntra16x16 :: "mbType_e \<Rightarrow> u32" where
  "h264bsdPredModeIntra16x16 t = (t - I_16x16_0_0_0) AND 0x3"

section \<open>Prediction\<close>

text \<open>A reference index, and a motion vector difference whose components are cut to 16 bits.\<close>

definition ReadRefIdx :: "u32 \<Rightarrow> (u32 \<Rightarrow> 'h \<Rightarrow> 'h option) \<Rightarrow> 'h step" where
  "ReadRefIdx numRefIdxActive put h s =
     do {
       (ret, v, s) \<leftarrow> h264bsdDecodeExpGolombTruncated s 0 (numRefIdxActive > 2);
       if ret \<noteq> HANTRO_OK \<or> v \<ge> numRefIdxActive then Some (HANTRO_NOK, h, s)
       else do { h \<leftarrow> put v h; Some (HANTRO_OK, h, s) }
     }"

definition ReadMvd :: "(mv_t \<Rightarrow> 'h \<Rightarrow> 'h option) \<Rightarrow> 'h step" where
  "ReadMvd put h s =
     do {
       (ret, hor, s) \<leftarrow> h264bsdDecodeExpGolombSigned s 0;
       if ret \<noteq> HANTRO_OK then Some (ret, h, s)
       else do {
         (ret, ver, s) \<leftarrow> h264bsdDecodeExpGolombSigned s 0;
         if ret \<noteq> HANTRO_OK then Some (ret, h, s)
         else do { h \<leftarrow> put (word_of_int hor, word_of_int ver) h; Some (HANTRO_OK, h, s) }
       }
     }"

definition PutRefIdx :: "nat \<Rightarrow> u32 \<Rightarrow> mbPred \<Rightarrow> mbPred option" where
  "PutRefIdx j v p = do { l \<leftarrow> wr (refIdxL0 p) j v; Some (p\<lparr>refIdxL0 := l\<rparr>) }"

definition PutMvd :: "nat \<Rightarrow> mv_t \<Rightarrow> mbPred \<Rightarrow> mbPred option" where
  "PutMvd j v p = do { l \<leftarrow> wr (mvdL0 p) j v; Some (p\<lparr>mvdL0 := l\<rparr>) }"

definition InterPred :: "mbType_e \<Rightarrow> u32 \<Rightarrow> mbPred step" where
  "InterPred t numRefIdxActive = parse_all
    [When (\<lambda>_. numRefIdxActive > 1)
       [For (\<lambda>_. h264bsdNumMbPart t) (\<lambda>j. ReadRefIdx numRefIdxActive (PutRefIdx j))],
     For (\<lambda>_. h264bsdNumMbPart t) (\<lambda>j. ReadMvd (PutMvd j))]"

text \<open>Eight flags at a time, each followed by three bits if it is not set.\<close>

fun IntraModes :: "nat \<Rightarrow> nat \<Rightarrow> u32 \<Rightarrow> u32 \<Rightarrow> mbPred \<Rightarrow> (u32 \<times> mbPred) option" where
  "IntraModes i 0 v tmp p = Some (tmp, p)"
| "IntraModes i (Suc n) v tmp p =
     do {
       let flag = (v AND 0x80000000 \<noteq> 0);
       flags \<leftarrow> wr (prevIntra4x4PredModeFlag p) i flag;
       let p = p\<lparr>prevIntra4x4PredModeFlag := flags\<rparr>;
       let v = push_bit 1 v;
       if \<not> flag then do {
         rems \<leftarrow> wr (remIntra4x4PredMode p) i (drop_bit 29 v);
         IntraModes (Suc i) n (push_bit 3 v) (tmp + 1) (p\<lparr>remIntra4x4PredMode := rems\<rparr>)
       }
       else IntraModes (Suc i) n v tmp p
     }"

definition HalfIntraModes :: "nat \<Rightarrow> mbPred step" where
  "HalfIntraModes k p s =
     do {
       v \<leftarrow> h264bsdShowBits32 s;
       (tmp, p) \<leftarrow> IntraModes (8 * k) 8 v 0 p;
       let (status, s) = h264bsdFlushBits s (8 + 3 * tmp);
       Some (if status = END_OF_STREAM then HANTRO_NOK else HANTRO_OK, p, s)
     }"

definition ChromaMode :: "mbPred step" where
  "ChromaMode = ReadUe (\<lambda>v. v > 3) (\<lambda>v p. p\<lparr>intraChromaPredMode := v\<rparr>)"

definition DecodeMbPred :: "mbType_e \<Rightarrow> u32 \<Rightarrow> mbPred step" where
  "DecodeMbPred t numRefIdxActive =
     (case h264bsdMbPartPredMode t of
        PRED_MODE_INTER \<Rightarrow> InterPred t numRefIdxActive
      | PRED_MODE_INTRA4x4 \<Rightarrow> parse_all [For (\<lambda>_. 2) HalfIntraModes, ChromaMode]
      | PRED_MODE_INTRA16x16 \<Rightarrow> ChromaMode)"

definition PutSubType :: "nat \<Rightarrow> u32 \<Rightarrow> subMbPred \<Rightarrow> subMbPred option" where
  "PutSubType i v p = do { l \<leftarrow> wr (subMbType p) i v; Some (p\<lparr>subMbType := l\<rparr>) }"

definition PutSubRefIdx :: "nat \<Rightarrow> u32 \<Rightarrow> subMbPred \<Rightarrow> subMbPred option" where
  "PutSubRefIdx i v p = do { l \<leftarrow> wr (subRefIdxL0 p) i v; Some (p\<lparr>subRefIdxL0 := l\<rparr>) }"

definition PutSubMvd :: "nat \<Rightarrow> nat \<Rightarrow> mv_t \<Rightarrow> subMbPred \<Rightarrow> subMbPred option" where
  "PutSubMvd i j v p =
     do {
       row \<leftarrow> rd (subMvdL0 p) i;
       row \<leftarrow> wr row j v;
       rows \<leftarrow> wr (subMvdL0 p) i row;
       Some (p\<lparr>subMvdL0 := rows\<rparr>)
     }"

definition ReadSubType :: "nat \<Rightarrow> subMbPred step" where
  "ReadSubType i h s =
     do {
       (ret, v, s) \<leftarrow> h264bsdDecodeExpGolombUnsigned s 0;
       if ret \<noteq> HANTRO_OK \<or> v > 3 then Some (HANTRO_NOK, h, s)
       else do { h \<leftarrow> PutSubType i v h; Some (HANTRO_OK, h, s) }
     }"

definition SubMvds :: "nat \<Rightarrow> subMbPred step" where
  "SubMvds i p s = do { t \<leftarrow> rd (subMbType p) i; ForLoop (\<lambda>j. ReadMvd (PutSubMvd i j)) 0 (h264bsdNumSubMbPart t) p s }"

definition DecodeSubMbPred :: "mbType_e \<Rightarrow> u32 \<Rightarrow> subMbPred step" where
  "DecodeSubMbPred t numRefIdxActive = parse_all
    [For (\<lambda>_. 4) ReadSubType,
     When (\<lambda>_. numRefIdxActive > 1 \<and> t \<noteq> P_8x8ref0)
       [For (\<lambda>_. 4) (\<lambda>i. ReadRefIdx numRefIdxActive (PutSubRefIdx i))],
     For (\<lambda>_. 4) SubMvds]"

section \<open>Residual\<close>

text \<open>The number of coefficients of a block of a neighbouring macroblock, if it is in the slice.\<close>

definition NeighbourCoeffs :: "mbStorage list \<Rightarrow> nat \<Rightarrow> nat option \<Rightarrow> nat \<Rightarrow> int option option" where
  "NeighbourCoeffs mbs i n b =
     do {
       available \<leftarrow> h264bsdIsNeighbourAvailable mbs i n;
       if available then do { j \<leftarrow> n; m \<leftarrow> rd mbs j; t \<leftarrow> rd (totalCoeff m) b; Some (Some (sint t)) }
       else Some None
     }"

definition HalfSum :: "int \<Rightarrow> int \<Rightarrow> int" where
  "HalfSum a b = (a + b + 1) div 2"

definition DetermineNc :: "mbStorage list \<Rightarrow> nat \<Rightarrow> nat \<Rightarrow> 16 word list \<Rightarrow> u32 option" where
  "DetermineNc mbs i blockIndex coeffs =
     do {
       mb \<leftarrow> rd mbs i;
       (nA, iA) \<leftarrow> h264bsdNeighbour4x4BlockA blockIndex;
       (nB, iB) \<leftarrow> h264bsdNeighbour4x4BlockB blockIndex;
       n \<leftarrow> (if nA = MB_CURR \<and> nB = MB_CURR
             then do { a \<leftarrow> rd coeffs iA; b \<leftarrow> rd coeffs iB; Some (HalfSum (sint a) (sint b)) }
             else if nA = MB_CURR
             then do {
               a \<leftarrow> rd coeffs iA;
               b \<leftarrow> NeighbourCoeffs mbs i (mbB mb) iB;
               Some (case b of Some b \<Rightarrow> HalfSum (sint a) b | None \<Rightarrow> sint a)
             }
             else if nB = MB_CURR
             then do {
               b \<leftarrow> rd coeffs iB;
               a \<leftarrow> NeighbourCoeffs mbs i (mbA mb) iA;
               Some (case a of Some a \<Rightarrow> HalfSum (sint b) a | None \<Rightarrow> sint b)
             }
             else do {
               a \<leftarrow> NeighbourCoeffs mbs i (mbA mb) iA;
               b \<leftarrow> NeighbourCoeffs mbs i (mbB mb) iB;
               Some (case (a, b) of
                       (Some a, Some b) \<Rightarrow> HalfSum a b
                     | (Some a, None) \<Rightarrow> a
                     | (None, Some b) \<Rightarrow> b
                     | (None, None) \<Rightarrow> 0)
             });
       Some (word_of_int n)
     }"

text \<open>A call of \<open>h264bsdDecodeResidualBlockCavlc\<close>: its result is put into the map of the block
  before it is checked, as in the luma blocks, and into the structure after that.\<close>

definition CallCavlc :: "nat \<Rightarrow> u32 \<Rightarrow> u32 \<Rightarrow> (u32 \<Rightarrow> residual \<Rightarrow> residual option) \<Rightarrow> (u32 \<Rightarrow> residual \<Rightarrow> residual option) \<Rightarrow> residual step" where
  "CallCavlc coeffLevel nc maxNumCoeff before after h s =
     do {
       (tmp, lev, s) \<leftarrow> h264bsdDecodeResidualBlockCavlc s (level h) coeffLevel nc maxNumCoeff;
       h \<leftarrow> before tmp (h\<lparr>level := lev\<rparr>);
       if tmp AND 0xF \<noteq> HANTRO_OK then Some (tmp, h, s)
       else do { h \<leftarrow> after tmp h; Some (HANTRO_OK, h, s) }
     }"

definition Unchanged :: "u32 \<Rightarrow> residual \<Rightarrow> residual option" where
  "Unchanged tmp h = Some h"

definition PutTotal :: "nat \<Rightarrow> u32 \<Rightarrow> residual \<Rightarrow> residual option" where
  "PutTotal b tmp h = do { l \<leftarrow> wr (resTotalCoeff h) b (ucast (drop_bit 4 tmp AND 0xFF)); Some (h\<lparr>resTotalCoeff := l\<rparr>) }"

definition PutMap :: "nat \<Rightarrow> u32 \<Rightarrow> residual \<Rightarrow> residual option" where
  "PutMap b m h = do { l \<leftarrow> wr (coeffMap h) b m; Some (h\<lparr>coeffMap := l\<rparr>) }"

definition LumaBlock :: "mbStorage list \<Rightarrow> nat \<Rightarrow> bool \<Rightarrow> nat \<Rightarrow> residual step" where
  "LumaBlock mbs i is16x16 b h s =
     do {
       nc \<leftarrow> DetermineNc mbs i b (resTotalCoeff h);
       if is16x16 then CallCavlc (16 * b + 1) nc 15 (\<lambda>tmp. PutMap b (drop_bit 15 tmp)) (PutTotal b) h s
       else CallCavlc (16 * b) nc 16 (\<lambda>tmp. PutMap b (drop_bit 16 tmp)) (PutTotal b) h s
     }"

definition ChromaAcBlock :: "mbStorage list \<Rightarrow> nat \<Rightarrow> nat \<Rightarrow> residual step" where
  "ChromaAcBlock mbs i b h s =
     do {
       nc \<leftarrow> DetermineNc mbs i b (resTotalCoeff h);
       CallCavlc (16 * b + 1) nc 15 Unchanged (\<lambda>tmp h. do { h \<leftarrow> PutTotal b tmp h; PutMap b (drop_bit 15 tmp) h }) h s
     }"

definition LumaDc :: "mbStorage list \<Rightarrow> nat \<Rightarrow> residual step" where
  "LumaDc mbs i h s =
     do { nc \<leftarrow> DetermineNc mbs i 0 (resTotalCoeff h); CallCavlc (16 * 24) nc 16 Unchanged (PutTotal 24) h s }"

definition LumaBlocks :: "mbStorage list \<Rightarrow> nat \<Rightarrow> bool \<Rightarrow> u32 \<Rightarrow> nat \<Rightarrow> residual step" where
  "LumaBlocks mbs i is16x16 cbp k =
     When (\<lambda>_. drop_bit k cbp AND 1 \<noteq> 0) [ForLoop (LumaBlock mbs i is16x16) (4 * k) 4]"

definition DecodeResidual :: "mbStorage list \<Rightarrow> nat \<Rightarrow> mbType_e \<Rightarrow> u32 \<Rightarrow> residual step" where
  "DecodeResidual mbs i t cbp =
     (let is16x16 = (h264bsdMbPartPredMode t = PRED_MODE_INTRA16x16)
      in parse_all
        [When (\<lambda>_. is16x16) [LumaDc mbs i],
         For (\<lambda>_. 4) (LumaBlocks mbs i is16x16 cbp),
         When (\<lambda>_. drop_bit 4 cbp AND 3 \<noteq> 0)
           [CallCavlc (16 * 25) (- 1) 4 Unchanged (PutTotal 25),
            CallCavlc (16 * 25 + 4) (- 1) 4 Unchanged (PutTotal 26)],
         When (\<lambda>_. drop_bit 4 cbp AND 2 \<noteq> 0) [ForLoop (ChromaAcBlock mbs i) 16 8]])"

section \<open>The macroblock layer\<close>

text \<open>Every round moves the position in the byte one bit further; the first may also correct it.\<close>

definition align_rank :: "strmData \<Rightarrow> nat" where
  "align_rank s = (if bitPosInWord s = 0 then 0
     else if bitPosInWord s = strmBuffReadBits s AND 7 then 8 - unat (bitPosInWord s) else 8)"

lemma FlushBits_position:
  "strmBuffReadBits (snd (h264bsdFlushBits s n)) = strmBuffReadBits s + n
   \<and> bitPosInWord (snd (h264bsdFlushBits s n)) = (strmBuffReadBits s + n) AND 7"
proof (cases "strmBuffReadBits s + n \<le> 8 * strmBuffSize s")
  case True
  show ?thesis unfolding FlushBits_if(1) [OF True] by simp
next
  case False
  show ?thesis unfolding FlushBits_if(2) [OF False] by simp
qed

lemma GetBits_flushes:
  assumes "h264bsdGetBits s n = Some (v, s')"
  shows "s' = snd (h264bsdFlushBits s n)"
proof -
  from assms obtain b w where "h264bsdShowBits32 s = Some b" "shr32 b (32 - n) = Some w"
    unfolding h264bsdGetBits_def by (auto simp only: bind_eq_Some_conv)
  with assms show ?thesis
    unfolding h264bsdGetBits_def by (cases "h264bsdFlushBits s n") (simp only: bind.bind_lunit Let_def split_beta option.inject prod.inject fst_conv snd_conv)
qed

lemma align_rank_less:
  assumes "\<not> h264bsdIsByteAligned s" "h264bsdGetBits s 1 = Some (v, s')"
  shows "align_rank s' < align_rank s"
proof -
  define r where "r = strmBuffReadBits s"
  have s': "strmBuffReadBits s' = r + 1" "bitPosInWord s' = (r + 1) AND 7"
    unfolding GetBits_flushes [OF assms(2)] r_def by (simp_all only: FlushBits_position)
  have m: "unat (x AND 7) = unat x mod 8" for x :: u32
    using take_bit_eq_mask [of 3 "unat x"]
    by (simp add: unsigned_and_eq mask_eq_exp_minus_1 take_bit_eq_mod)
  have "unat (r + 1) mod 8 = (unat r + 1) mod 8" by (simp add: unat_word_ariths mod_mod_cancel)
  moreover have "bitPosInWord s \<noteq> 0" using assms(1) by (simp add: h264bsdIsByteAligned_def)
  moreover have "unat (bitPosInWord s) = unat r mod 8" if "bitPosInWord s = r AND 7" using that m by simp
  moreover have "unat (bitPosInWord s) = 0 \<longleftrightarrow> bitPosInWord s = 0" "unat (bitPosInWord s') = 0 \<longleftrightarrow> bitPosInWord s' = 0"
    by (simp_all add: unat_eq_0)
  moreover have "(unat r + 1) mod 8 = (if unat r mod 8 = 7 then 0 else unat r mod 8 + 1)" by (simp add: mod_Suc)
  moreover have "7 - k < 8 - k" "7 - k < 8" if "k < 8" for k :: nat using that by linarith+
  then have "7 - unat r mod 8 < 8 - unat r mod 8" "7 - unat r mod 8 < 8" by simp_all
  ultimately show ?thesis using s' m [of "r + 1"]
    by (simp add: align_rank_def r_def [symmetric] split: if_splits)
qed

function AlignLoop :: "strmData \<Rightarrow> (u32 \<times> strmData) option" where
  "AlignLoop s =
     (if h264bsdIsByteAligned s then Some (HANTRO_OK, s)
      else do {
        (tmp, s) \<leftarrow> h264bsdGetBits s 1;
        if tmp \<noteq> 0 then Some (HANTRO_NOK, s) else AlignLoop s
      })"
  by pat_completeness auto
termination
  by (relation "measure align_rank") (auto intro: align_rank_less)

declare AlignLoop.simps [simp del]

definition PcmAlignment :: "'h step" where
  "PcmAlignment h s = do { (ret, s) \<leftarrow> AlignLoop s; Some (ret, h, s) }"

definition PcmSample :: "nat \<Rightarrow> residual step" where
  "PcmSample i h s =
     do {
       (v, s) \<leftarrow> h264bsdGetBits s 8;
       if v = END_OF_STREAM then Some (HANTRO_NOK, h, s)
       else do { lev \<leftarrow> wr (level h) i (sint v); Some (HANTRO_OK, h\<lparr>level := lev\<rparr>, s) }
     }"

definition ReadMbType :: "u32 \<Rightarrow> macroblockLayer step" where
  "ReadMbType mbSliceType h s =
     do {
       (ret, v, s) \<leftarrow> h264bsdDecodeExpGolombUnsigned s 0;
       let t = (if IS_I_SLICE mbSliceType then v + 6 else v + 1);
       Some (if t > 31 \<or> ret \<noteq> HANTRO_OK then (HANTRO_NOK, h, s) else (HANTRO_OK, h\<lparr>layerType := t\<rparr>, s))
     }"

definition ReadPrediction :: "u32 \<Rightarrow> macroblockLayer step" where
  "ReadPrediction numRefIdxActive h =
     (let t = layerType h
      in if h264bsdMbPartPredMode t = PRED_MODE_INTER \<and> h264bsdNumMbPart t = 4
         then Part subMbPredOf (\<lambda>p h. h\<lparr>subMbPredOf := p\<rparr>) (DecodeSubMbPred t numRefIdxActive) h
         else Part mbPredOf (\<lambda>p h. h\<lparr>mbPredOf := p\<rparr>) (DecodeMbPred t numRefIdxActive) h)"

definition ReadPattern :: "macroblockLayer step" where
  "ReadPattern h s =
     (case h264bsdMbPartPredMode (layerType h) of
        PRED_MODE_INTRA16x16 \<Rightarrow> Some (HANTRO_OK, h\<lparr>codedBlockPattern := CbpIntra16x16 (layerType h)\<rparr>, s)
      | mode \<Rightarrow> do {
          (ret, v, s) \<leftarrow> h264bsdDecodeExpGolombMapped s 0 (mode = PRED_MODE_INTRA4x4);
          Some (if ret \<noteq> HANTRO_OK then (ret, h, s) else (HANTRO_OK, h\<lparr>codedBlockPattern := v\<rparr>, s))
        })"

definition ReadQpDelta :: "macroblockLayer step" where
  "ReadQpDelta h s =
     do {
       (ret, v, s) \<leftarrow> h264bsdDecodeExpGolombSigned s 0;
       Some (if ret \<noteq> HANTRO_OK \<or> v < - 26 \<or> v > 25 then (HANTRO_NOK, h, s) else (HANTRO_OK, h\<lparr>mbQpDelta := v\<rparr>, s))
     }"

text \<open>The number of bits read is computed again from the position after the residual.\<close>

definition ReadResidual :: "mbStorage list \<Rightarrow> nat \<Rightarrow> macroblockLayer step" where
  "ReadResidual mbs i h s =
     do {
       (ret, r, s) \<leftarrow> DecodeResidual mbs i (layerType h) (codedBlockPattern h) (residualOf h) s;
       let s = s\<lparr>strmBuffReadBits := of_nat (pStrmCurrPos s - pStrmBuffStart s) * 8 + bitPosInWord s\<rparr>;
       Some (ret, h\<lparr>residualOf := r\<rparr>, s)
     }"

definition h264bsdDecodeMacroblockLayer ::
  "mbStorage list \<Rightarrow> nat \<Rightarrow> u32 \<Rightarrow> u32 \<Rightarrow> strmData \<Rightarrow> macroblockLayer result" where
  "h264bsdDecodeMacroblockLayer mbs i mbSliceType numRefIdxActive s = parse_all
    [ReadMbType mbSliceType,
     IfElse (\<lambda>h. layerType h = I_PCM)
       [PcmAlignment,
        Part residualOf (\<lambda>r h. h\<lparr>residualOf := r\<rparr>) (For (\<lambda>_. 384) PcmSample)]
       [ReadPrediction numRefIdxActive,
        ReadPattern,
        When (\<lambda>h. codedBlockPattern h \<noteq> 0 \<or> h264bsdMbPartPredMode (layerType h) = PRED_MODE_INTRA16x16)
          [ReadQpDelta, ReadResidual mbs i]]] zeroLayer s"

end
