(* ===== verification/H264Total.thy ===== *)
theory H264Total
  imports H264Parse
begin

text \<open>
  Total correctness of steps: from a state that satisfies \<open>P\<close> and a good stream, \<open>ensures P p Q\<close>
  says that the step returns, without undefined behaviour, and that after \<open>HANTRO_OK\<close> the state
  satisfies \<open>Q\<close> and the stream is good again. One rule for each way to build a step.
\<close>

section \<open>The decoders of single elements\<close>

lemma Unsigned_total:
  assumes "strm_ok s"
  obtains ret v s' where "h264bsdDecodeExpGolombUnsigned s 0 = Some (ret, v, s')"
    "ret = HANTRO_OK \<longrightarrow> strm_ok s'" "ret = HANTRO_OK \<or> ret = HANTRO_NOK"
    "v = BIG_CODE_NUM \<longrightarrow> strm_ok s'"
proof (cases rule: Unsigned_cases [OF assms zero_not_big])
  case 1
  show ?thesis by (rule that [OF 1(2)]) (simp_all add: 1)
next
  case 2
  show ?thesis by (rule that [OF 2(2)]) (simp_all add: 2)
next
  case 3
  show ?thesis by (rule that [OF 3(2)]) (simp_all add: 3)
qed

lemma Signed_total:
  assumes "strm_ok s"
  obtains ret v s' where "h264bsdDecodeExpGolombSigned s 0 = Some (ret, v, s')" "ret = HANTRO_OK \<longrightarrow> strm_ok s'"
proof (cases "h264bsdDecodeExpGolombSigned s 0")
  case None
  then show ?thesis using Unsigned_total [OF assms]
    by (auto simp: h264bsdDecodeExpGolombSigned_def split: bind_splits if_splits)
next
  case (Some r)
  then obtain ret v s' where r: "r = (ret, v, s')" by (cases r)
  from Unsigned_total [OF assms] obtain ret' n t where
    *: "h264bsdDecodeExpGolombUnsigned s 0 = Some (ret', n, t)" "ret' = HANTRO_OK \<longrightarrow> strm_ok t"
      "n = BIG_CODE_NUM \<longrightarrow> strm_ok t" by blast
  with Some r have "ret = HANTRO_OK \<longrightarrow> strm_ok s'"
    by (auto simp: h264bsdDecodeExpGolombSigned_def split: if_splits)
  with Some r show ?thesis using that by blast
qed

lemma GetBits_total:
  assumes "strm_ok s" "1 \<le> n" "n \<le> 32"
  obtains v s' where "h264bsdGetBits s (of_nat n) = Some (v, s')" "v \<noteq> END_OF_STREAM \<longrightarrow> strm_ok s'"
  using GetBits_ok [OF assms] GetBits_end [OF assms] by (cases "n \<le> length (rest s)") auto

lemma FlushBits_total:
  assumes "strm_ok s" "unat n \<le> 32"
  obtains s' where "h264bsdFlushBits s n = (HANTRO_OK, s')" "strm_ok s'"
  | s' where "h264bsdFlushBits s n = (END_OF_STREAM, s')"
  using FlushBits_ok [OF assms(1) _ assms(2)] FlushBits_end [OF assms(1) _ assms(2)]
  by (cases "unat n \<le> length (rest s)") (blast, metis not_le)

section \<open>Total correctness\<close>

definition ensures :: "('h \<Rightarrow> bool) \<Rightarrow> 'h step \<Rightarrow> ('h \<Rightarrow> bool) \<Rightarrow> bool" where
  "ensures P p Q \<longleftrightarrow> (\<forall>h s. strm_ok s \<and> P h \<longrightarrow>
     (\<exists>ret h' s'. p h s = Some (ret, h', s') \<and> (ret = HANTRO_OK \<longrightarrow> strm_ok s' \<and> Q h')))"

lemma ensuresI:
  "(\<And>h s. strm_ok s \<Longrightarrow> P h \<Longrightarrow> \<exists>ret h' s'. p h s = Some (ret, h', s') \<and> (ret = HANTRO_OK \<longrightarrow> strm_ok s' \<and> Q h'))
    \<Longrightarrow> ensures P p Q"
  by (auto simp: ensures_def)

lemma ensuresD:
  assumes "ensures P p Q" "strm_ok s" "P h"
  obtains ret h' s' where "p h s = Some (ret, h', s')" "ret = HANTRO_OK \<longrightarrow> strm_ok s' \<and> Q h'"
  using assms by (fastforce simp: ensures_def)

lemma ensures_conseq:
  "ensures P p Q \<Longrightarrow> (\<And>h. P' h \<Longrightarrow> P h) \<Longrightarrow> (\<And>h. Q h \<Longrightarrow> Q' h) \<Longrightarrow> ensures P' p Q'"
  unfolding ensures_def by meson



lemma ensures_Nil: "(\<And>h. P h \<Longrightarrow> Q h) \<Longrightarrow> ensures P (parse_all []) Q"
  by (simp add: ensures_def parse_all.simps)

lemma ensures_Cons:
  assumes "ensures P p R" "ensures R (parse_all ps) Q"
  shows "ensures P (parse_all (p # ps)) Q"
proof (rule ensuresI)
  fix h s assume "strm_ok s" "P h"
  with assms(1) obtain ret h1 s1 where p: "p h s = Some (ret, h1, s1)" "ret = HANTRO_OK \<longrightarrow> strm_ok s1 \<and> R h1"
    by (rule ensuresD)
  show "\<exists>ret h' s'. parse_all (p # ps) h s = Some (ret, h', s') \<and> (ret = HANTRO_OK \<longrightarrow> strm_ok s' \<and> Q h')"
  proof (cases "ret = HANTRO_OK")
    case True
    with p have "strm_ok s1" "R h1" by auto
    with assms(2) obtain ret2 h2 s2 where "parse_all ps h1 s1 = Some (ret2, h2, s2)"
      "ret2 = HANTRO_OK \<longrightarrow> strm_ok s2 \<and> Q h2" by (rule ensuresD)
    with p True show ?thesis by (simp add: parse_all.simps)
  qed (use p in \<open>simp add: parse_all.simps\<close>)
qed

lemma ensures_single: "ensures P p Q \<Longrightarrow> ensures P (parse_all [p]) Q"
  by (rule ensures_Cons [OF _ ensures_Nil])

lemma parse_all_append_run:
  "parse_all (ps @ qs) h s =
     do { (ret, h, s) \<leftarrow> parse_all ps h s; if ret \<noteq> HANTRO_OK then Some (ret, h, s) else parse_all qs h s }"
proof (induction ps arbitrary: h s)
  case (Cons p ps)
  show ?case
  proof (cases "p h s")
    case (Some r)
    then obtain ret h1 s1 where "p h s = Some (ret, h1, s1)" by (cases r) auto
    with Cons.IH [of h1 s1] show ?thesis by (simp add: parse_all.simps)
  qed (simp add: parse_all.simps)
qed (simp add: parse_all.simps)

lemma ensures_append:
  assumes "ensures P (parse_all ps) R" "ensures R (parse_all qs) Q"
  shows "ensures P (parse_all (ps @ qs)) Q"
proof (rule ensuresI)
  fix h s assume "strm_ok s" "P h"
  with assms(1) obtain ret h1 s1 where "parse_all ps h s = Some (ret, h1, s1)" "ret = HANTRO_OK \<longrightarrow> strm_ok s1 \<and> R h1"
    by (rule ensuresD)
  with assms(2) show "\<exists>ret h' s'. parse_all (ps @ qs) h s = Some (ret, h', s') \<and> (ret = HANTRO_OK \<longrightarrow> strm_ok s' \<and> Q h')"
    by (cases "ret = HANTRO_OK") (auto simp: parse_all_append_run elim: ensuresD)
qed

lemma ensures_IfElse:
  "ensures (\<lambda>h. P h \<and> c h) (parse_all ps) Q \<Longrightarrow> ensures (\<lambda>h. P h \<and> \<not> c h) (parse_all qs) Q
    \<Longrightarrow> ensures P (IfElse c ps qs) Q"
  by (auto simp: ensures_def IfElse_def)

lemma ensures_Assign: "(\<And>h. P h \<Longrightarrow> Q (f h)) \<Longrightarrow> ensures P (Assign f) Q"
  by (simp add: ensures_def Assign_def)

lemma ensures_ErrorIf: "(\<And>h. P h \<Longrightarrow> \<not> c h \<Longrightarrow> Q h) \<Longrightarrow> err \<noteq> HANTRO_OK \<Longrightarrow> ensures P (ErrorIf err c) Q"
  by (simp add: ensures_def ErrorIf_def)

lemma ensures_ReadUe:
  assumes "\<And>h v. P h \<Longrightarrow> \<not> bad v \<Longrightarrow> Q (put v h)"
  shows "ensures P (ReadUe bad put) Q"
proof (rule ensuresI)
  fix h s assume "strm_ok s" "P h"
  from Unsigned_total [OF this(1)] obtain ret v s' where
    "h264bsdDecodeExpGolombUnsigned s 0 = Some (ret, v, s')" "ret = HANTRO_OK \<longrightarrow> strm_ok s'" by blast
  with assms \<open>P h\<close> show "\<exists>ret h' s'. ReadUe bad put h s = Some (ret, h', s') \<and> (ret = HANTRO_OK \<longrightarrow> strm_ok s' \<and> Q h')"
    by (simp add: ReadUe_def)
qed

lemma ensures_ReadSe:
  assumes "\<And>h v. P h \<Longrightarrow> \<not> bad v \<Longrightarrow> Q (put v h)"
  shows "ensures P (ReadSe bad put) Q"
proof (rule ensuresI)
  fix h s assume "strm_ok s" "P h"
  from Signed_total [OF this(1)] obtain ret v s' where
    "h264bsdDecodeExpGolombSigned s 0 = Some (ret, v, s')" "ret = HANTRO_OK \<longrightarrow> strm_ok s'" by blast
  with assms \<open>P h\<close> show "\<exists>ret h' s'. ReadSe bad put h s = Some (ret, h', s') \<and> (ret = HANTRO_OK \<longrightarrow> strm_ok s' \<and> Q h')"
    by (simp add: ReadSe_def)
qed

lemma ensures_ReadBits:
  assumes "\<And>h v. P h \<Longrightarrow> \<not> bad v \<Longrightarrow> Q (put v h)" "1 \<le> n" "n \<le> 32"
  shows "ensures P (ReadBits (of_nat n) bad put) Q"
proof (rule ensuresI)
  fix h s assume "strm_ok s" "P h"
  from GetBits_total [OF this(1) assms(2,3)] obtain v s' where
    "h264bsdGetBits s (of_nat n) = Some (v, s')" "v \<noteq> END_OF_STREAM \<longrightarrow> strm_ok s'" by blast
  with assms(1) \<open>P h\<close>
  show "\<exists>ret h' s'. ReadBits (of_nat n) bad put h s = Some (ret, h', s') \<and> (ret = HANTRO_OK \<longrightarrow> strm_ok s' \<and> Q h')"
    by (simp add: ReadBits_def)
qed

lemma ensures_Part:
  assumes "ensures P' p Q'" "\<And>h. P h \<Longrightarrow> P' (get h)" "\<And>h x. P h \<Longrightarrow> Q' x \<Longrightarrow> Q (put x h)"
  shows "ensures P (Part get put p) Q"
proof (rule ensuresI)
  fix h s assume "strm_ok s" "P h"
  with assms(1,2) obtain ret x s' where "p (get h) s = Some (ret, x, s')" "ret = HANTRO_OK \<longrightarrow> strm_ok s' \<and> Q' x"
    by (metis ensuresD)
  with assms(3) \<open>P h\<close> show "\<exists>ret h' s'. Part get put p h s = Some (ret, h', s') \<and> (ret = HANTRO_OK \<longrightarrow> strm_ok s' \<and> Q h')"
    by (simp add: Part_def)
qed

lemma ensures_ForLoop:
  assumes "\<And>j. i \<le> j \<Longrightarrow> j < i + n \<Longrightarrow> ensures (P j) (body j) (P (Suc j))"
  shows "ensures (P i) (ForLoop body i n) (P (i + n))"
  using assms
proof (induction n arbitrary: i)
  case (Suc n)
  show ?case
  proof (rule ensuresI)
    fix h s assume "strm_ok s" "P i h"
    with Suc.prems [of i] obtain ret h1 s1 where b: "body i h s = Some (ret, h1, s1)"
      "ret = HANTRO_OK \<longrightarrow> strm_ok s1 \<and> P (Suc i) h1" by (metis ensuresD le_refl less_add_Suc1 add_Suc_right)
    have "ensures (P (Suc i)) (ForLoop body (Suc i) n) (P (i + Suc n))"
      using Suc.IH [of "Suc i"] Suc.prems by simp
    then show "\<exists>ret h' s'. ForLoop body i (Suc n) h s = Some (ret, h', s') \<and> (ret = HANTRO_OK \<longrightarrow> strm_ok s' \<and> P (i + Suc n) h')"
      using b by (cases "ret = HANTRO_OK") (auto elim: ensuresD)
  qed
qed (simp add: ensures_def)

lemma ensures_For:
  assumes "\<And>h0 j. P h0 \<Longrightarrow> j < bound h0 \<Longrightarrow> ensures (I h0 j) (body j) (I h0 (Suc j))"
    and "\<And>h0. P h0 \<Longrightarrow> I h0 0 h0" "\<And>h0 h. P h0 \<Longrightarrow> I h0 (bound h0) h \<Longrightarrow> Q h"
  shows "ensures P (For bound body) Q"
proof (rule ensuresI)
  fix h s assume s: "strm_ok s" and P: "P h"
  have "ensures (I h 0) (ForLoop body 0 (bound h)) (I h (0 + bound h))"
    by (rule ensures_ForLoop) (simp add: assms(1) [OF P])
  then show "\<exists>ret h' s'. For bound body h s = Some (ret, h', s') \<and> (ret = HANTRO_OK \<longrightarrow> strm_ok s' \<and> Q h')"
    using assms(2,3) [OF P] s by (fastforce simp: For_def elim: ensuresD)
qed

end
