(* ===== verification/H264CavlcFacts.thy ===== *)
theory H264CavlcFacts
  imports H264Cavlc H264Total
begin

text \<open>
  Decoding a residual block is safe on every stream, and the number and the map of coefficients it
  returns describe what it stored.
\<close>

section \<open>Table entries\<close>

lemma look_ok:
  assumes "list_all P (map ucast tbl)" "unat i < length tbl"
  shows "\<exists>v. look tbl i = Some v \<and> P v"
  using assms by (auto simp: look_def list_all_length)

lemma unat_drop: "unat (drop_bit k (v :: u32)) = unat v div 2 ^ k"
  by (simp only: unat_drop_bit_eq) (simp add: drop_bit_eq_div)

text \<open>A table of short codes whose entries are zero below \<open>k\<close> only, and a table of longer codes.\<close>

lemma look2_ok:
  assumes "list_all P (map ucast t1)" "unat i < length t1" "list_all P (map ucast t2)"
    and "list_all (\<lambda>v. v \<noteq> (0 :: u32)) (map ucast (drop k t1))" "unat i < k \<Longrightarrow> unat j < length t2"
  shows "\<exists>v. (look t1 i \<bind> (\<lambda>v. if v = 0 then look t2 j else Some v)) = Some v \<and> P v"
proof (cases "unat i < k")
  case True
  then show ?thesis using look_ok [OF assms(1,2)] look_ok [OF assms(3,5)] by auto
next
  case False
  from look_ok [OF assms(1,2)] obtain v where v: "look t1 i = Some v" "P v" by blast
  have "\<forall>n < length t1 - k. (ucast (t1 ! (k + n)) :: u32) \<noteq> 0" using assms(4) by (simp add: list_all_length)
  from this [rule_format, of "unat i - k"] have "(ucast (t1 ! unat i) :: u32) \<noteq> 0" using False assms(2) by simp
  with v False assms(2) show ?thesis by (auto simp: look_def)
qed

definition token_ok :: "u32 \<Rightarrow> bool" where
  "token_ok v \<longleftrightarrow> v = 0 \<or> (LENGTH_TC v \<le> 16 \<and> TOTAL_COEFF v \<le> 16 \<and> TRAILING_ONES v \<le> TOTAL_COEFF v \<and> TRAILING_ONES v \<le> 3)"

lemma token_tables:
  "list_all token_ok (map ucast coeffToken0_0)" "list_all token_ok (map ucast coeffToken0_1)"
  "list_all token_ok (map ucast coeffToken0_2)" "list_all token_ok (map ucast coeffToken0_3)"
  "list_all token_ok (map ucast coeffToken2_0)" "list_all token_ok (map ucast coeffToken2_1)"
  "list_all token_ok (map ucast coeffToken2_2)" "list_all token_ok (map ucast coeffToken4_0)"
  "list_all token_ok (map ucast coeffToken4_1)" "list_all token_ok (map ucast coeffToken8)"
  "list_all token_ok (map ucast coeffTokenMinus1_0)" "list_all token_ok (map ucast coeffTokenMinus1_1)"
  by code_simp+

lemma table_lengths:
  "length coeffToken0_0 = 32" "length coeffToken0_1 = 48" "length coeffToken0_2 = 56"
  "length coeffToken0_3 = 32" "length coeffToken2_0 = 32" "length coeffToken2_1 = 32"
  "length coeffToken2_2 = 128" "length coeffToken4_0 = 64" "length coeffToken4_1 = 128"
  "length coeffToken8 = 64" "length coeffTokenMinus1_0 = 8" "length coeffTokenMinus1_1 = 32"
  "length totalZeros_1_0 = 32" "length totalZeros_1_1 = 32" "length totalZeros_2 = 64" "length totalZeros_3 = 64"
  "length totalZeros_4 = 32" "length totalZeros_5 = 32" "length totalZeros_6 = 64" "length totalZeros_7 = 64"
  "length totalZeros_8 = 64" "length totalZeros_9 = 64" "length totalZeros_10 = 32" "length totalZeros_11 = 16"
  "length totalZeros_12 = 16" "length totalZeros_13 = 8" "length totalZeros_14 = 4"
  "length runBefore_1 = 2" "length runBefore_2 = 4" "length runBefore_3 = 4" "length runBefore_4 = 8"
  "length runBefore_5 = 8" "length runBefore_6 = 8"
  by code_simp+

lemma long_tables:
  "list_all (\<lambda>v. v \<noteq> (0 :: u32)) (map ucast (drop 8 coeffToken4_0))"
  "list_all (\<lambda>v. v \<noteq> (0 :: u32)) (map ucast (drop 1 coeffTokenMinus1_0))"
  "list_all (\<lambda>v. v \<noteq> (0 :: u32)) (map ucast (drop 2 totalZeros_1_0))"
  by code_simp+

lemma token_short: "token_ok 0x0001" "token_ok 0x0002" "token_ok 0x0822"
  by code_simp+

lemma CoeffToken_ok:
  assumes "unat v < 2 ^ 16"
  shows "\<exists>t. DecodeCoeffToken v nc = Some t \<and> token_ok t"
proof -
  have b: "v \<ge> 0x8000 \<longleftrightarrow> 0x8000 \<le> unat v" "v \<ge> 0x0C00 \<longleftrightarrow> 0x0C00 \<le> unat v"
    "v \<ge> 0x0100 \<longleftrightarrow> 0x0100 \<le> unat v" "v \<ge> 0x0020 \<longleftrightarrow> 0x0020 \<le> unat v"
    "v \<ge> 0x1000 \<longleftrightarrow> 0x1000 \<le> unat v" "v \<ge> 0x0200 \<longleftrightarrow> 0x0200 \<le> unat v"
    by (simp_all add: word_le_nat_alt)
  have sub: "unat (drop_bit 2 v - 8) = unat v div 4 - 8" if "0x0020 \<le> unat v"
  proof -
    have "8 \<le> drop_bit 2 v" using that by (simp add: word_le_nat_alt unat_drop)
    then show ?thesis using unat_sub [of 8 "drop_bit 2 v"] by (simp add: unat_drop)
  qed
  note look = token_tables [THEN look_ok]
  have long4: "\<exists>t. (look coeffToken4_0 (drop_bit 10 v) \<bind>
      (\<lambda>t. if t = 0 then look coeffToken4_1 (drop_bit 6 v) else Some t)) = Some t \<and> token_ok t"
    using assms by (intro look2_ok [OF token_tables(8) _ token_tables(9) long_tables(1)])
      (auto simp: unat_drop table_lengths)
  have longM: "\<exists>t. (look coeffTokenMinus1_0 (drop_bit 13 v) \<bind>
      (\<lambda>t. if t = 0 then look coeffTokenMinus1_1 (drop_bit 8 v) else Some t)) = Some t \<and> token_ok t"
    using assms by (intro look2_ok [OF token_tables(11) _ token_tables(12) long_tables(2)])
      (auto simp: unat_drop table_lengths)
  show ?thesis
  proof (cases "nc < 2")
    case True
    show ?thesis
      using look(1) [of "drop_bit 10 v"] look(2) [of "drop_bit 6 v"] look(3) [of "drop_bit 2 v - 8"] look(4) [of v]
        sub token_short
      by (simp add: DecodeCoeffToken_def True b unat_drop table_lengths)
  next
    case nc2: False
    show ?thesis
    proof (cases "nc < 4")
      case True
      show ?thesis
        using look(5) [of "drop_bit 10 v"] look(6) [of "drop_bit 7 v"] look(7) [of "drop_bit 2 v"] token_short
        by (simp add: DecodeCoeffToken_def True nc2 b unat_drop table_lengths)
    next
      case nc4: False
      show ?thesis
        using long4 longM look(10) [of "drop_bit 10 v"] assms
        by (simp add: DecodeCoeffToken_def nc4 nc2 unat_drop table_lengths)
    qed
  qed
qed

text \<open>The entries for \<open>n\<close> coefficients out of \<open>room\<close>, and the entries for \<open>left\<close> zeros.\<close>

definition zeros_ok :: "nat \<Rightarrow> nat \<Rightarrow> u32 \<Rightarrow> bool" where
  "zeros_ok room n v \<longleftrightarrow> v = 0 \<or> (LENGTH_VLC v \<le> 9 \<and> unat (INFO v) + n \<le> room)"

lemma zeros_tables:
  "list_all (zeros_ok 16 1) (map ucast totalZeros_1_0)" "list_all (zeros_ok 16 1) (map ucast totalZeros_1_1)"
  "list_all (zeros_ok 16 2) (map ucast totalZeros_2)" "list_all (zeros_ok 16 3) (map ucast totalZeros_3)"
  "list_all (zeros_ok 16 4) (map ucast totalZeros_4)" "list_all (zeros_ok 16 5) (map ucast totalZeros_5)"
  "list_all (zeros_ok 16 6) (map ucast totalZeros_6)" "list_all (zeros_ok 16 7) (map ucast totalZeros_7)"
  "list_all (zeros_ok 16 8) (map ucast totalZeros_8)" "list_all (zeros_ok 16 9) (map ucast totalZeros_9)"
  "list_all (zeros_ok 16 10) (map ucast totalZeros_10)" "list_all (zeros_ok 16 11) (map ucast totalZeros_11)"
  "list_all (zeros_ok 16 12) (map ucast totalZeros_12)" "list_all (zeros_ok 16 13) (map ucast totalZeros_13)"
  "list_all (zeros_ok 16 14) (map ucast totalZeros_14)"
  by code_simp+

lemma zeros_short: "zeros_ok 16 15 0x11" "zeros_ok 16 15 0x01" "zeros_ok 4 3 0x01" "zeros_ok 4 3 0x11"
  "zeros_ok 4 2 0x01" "zeros_ok 4 2 0x12" "zeros_ok 4 2 0x22" "zeros_ok 4 1 0x01" "zeros_ok 4 1 0x12"
  "zeros_ok 4 1 0x23" "zeros_ok 4 1 0x33"
  by code_simp+

lemma word_of_unat: "unat (n :: u32) = k \<Longrightarrow> n = of_nat k"
  by auto

lemma TotalZerosLuma_ok:
  assumes "unat v < 2 ^ 9" "1 \<le> unat n" "unat n \<le> 15"
  shows "\<exists>z. TotalZerosLuma v n = Some z \<and> zeros_ok 16 (unat n) z"
proof -
  note look = zeros_tables [THEN look_ok]
  have first: "\<exists>z. (look totalZeros_1_0 (drop_bit 4 v) \<bind>
      (\<lambda>z. if z = 0 then look totalZeros_1_1 v else Some z)) = Some z \<and> zeros_ok 16 1 z"
    using assms(1) by (intro look2_ok [OF zeros_tables(1) _ zeros_tables(2) long_tables(3)])
      (auto simp: unat_drop table_lengths)
  have "unat n = 15 \<or> unat n = 1 \<or> unat n = 2 \<or> unat n = 3 \<or> unat n = 4 \<or> unat n = 5 \<or> unat n = 6 \<or> unat n = 7
    \<or> unat n = 8 \<or> unat n = 9 \<or> unat n = 10 \<or> unat n = 11 \<or> unat n = 12 \<or> unat n = 13 \<or> unat n = 14"
    using assms(2,3) by presburger
  then consider "n = 15" | "n = 1" | "n = 2" | "n = 3" | "n = 4" | "n = 5" | "n = 6" | "n = 7" | "n = 8" | "n = 9"
    | "n = 10" | "n = 11" | "n = 12" | "n = 13" | "n = 14"
    by (auto dest: word_of_unat)
  then show ?thesis
  proof cases
    case 1
    then show ?thesis using zeros_short by (simp add: TotalZerosLuma_def)
  next
    case 2
    then show ?thesis using first assms(1) by (simp add: TotalZerosLuma_def table_lengths unat_drop)
  qed (use assms(1) look(3) [of "drop_bit 3 v"] look(4) [of "drop_bit 3 v"] look(5) [of "drop_bit 4 v"]
      look(6) [of "drop_bit 4 v"] look(7) [of "drop_bit 3 v"] look(8) [of "drop_bit 3 v"]
      look(9) [of "drop_bit 3 v"] look(10) [of "drop_bit 3 v"] look(11) [of "drop_bit 4 v"]
      look(12) [of "drop_bit 5 v"] look(13) [of "drop_bit 5 v"] look(14) [of "drop_bit 6 v"]
      look(15) [of "drop_bit 7 v"] in \<open>simp_all add: TotalZerosLuma_def table_lengths unat_drop\<close>)
qed

lemma TotalZerosChromaDc_ok:
  assumes "1 \<le> unat n" "unat n \<le> 3"
  shows "zeros_ok 4 (unat n) (TotalZerosChromaDc v n)"
proof -
  have "unat n = 1 \<or> unat n = 2 \<or> unat n = 3" using assms by linarith
  then have "n = 1 \<or> n = 2 \<or> n = 3" by (auto dest: word_of_unat)
  then show ?thesis using zeros_short by (auto simp: TotalZerosChromaDc_def Let_def)
qed

definition run_ok :: "u32 \<Rightarrow> u32 \<Rightarrow> bool" where
  "run_ok left v \<longleftrightarrow> v = 0 \<or> (LENGTH_VLC v \<le> 11 \<and> INFO v \<le> left)"

lemma run_tables:
  "list_all (run_ok 1) (map ucast runBefore_1)" "list_all (run_ok 2) (map ucast runBefore_2)"
  "list_all (run_ok 3) (map ucast runBefore_3)" "list_all (run_ok 4) (map ucast runBefore_4)"
  "list_all (run_ok 5) (map ucast runBefore_5)" "list_all (run_ok 6) (map ucast runBefore_6)"
  by code_simp+

lemma RunBeforeLong_length:
  assumes "unat v < 2 ^ 11"
  shows "LENGTH_VLC (RunBeforeLong v) \<le> 11"
proof -
  have "LENGTH_VLC (push_bit 4 (7 - drop_bit 8 v) + 3) \<le> 11" if "v \<ge> 0x100"
  proof -
    have "unat (drop_bit 8 v) < 8" using assms by (simp add: unat_drop)
    then have "unat (drop_bit 8 v) \<in> {0, 1, 2, 3, 4, 5, 6, 7}" by auto
    then have "drop_bit 8 v \<in> {0, 1, 2, 3, 4, 5, 6, 7}" by (auto dest: word_of_unat)
    moreover have "list_all (\<lambda>w :: u32. LENGTH_VLC (push_bit 4 (7 - w) + 3) \<le> 11) [0, 1, 2, 3, 4, 5, 6, 7]" by code_simp
    ultimately show ?thesis by auto
  qed
  moreover have "list_all (\<lambda>w :: u32. LENGTH_VLC w \<le> 11) [0x74, 0x85, 0x96, 0xa7, 0xb8, 0xc9, 0xdA, 0xeB, 0]" by code_simp
  ultimately show ?thesis by (simp add: RunBeforeLong_def)
qed

lemma DecodeRunBefore_ok:
  assumes "unat v < 2 ^ 11" "left \<noteq> 0"
  shows "\<exists>r. DecodeRunBefore v left = Some r \<and> run_ok left r"
proof -
  note look = run_tables [THEN look_ok]
  have long: "run_ok left (let w = RunBeforeLong v in if left < INFO w then 0 else w)"
    using RunBeforeLong_length [OF assms(1)] by (auto simp: run_ok_def Let_def not_less)
  show ?thesis
    using look(1) [of "drop_bit 10 v"] look(2) [of "drop_bit 9 v"] look(3) [of "drop_bit 9 v"]
      look(4) [of "drop_bit 8 v"] look(5) [of "drop_bit 8 v"] look(6) [of "drop_bit 8 v"] assms long
    by (cases "left \<in> {1, 2, 3, 4, 5, 6}") (auto simp: DecodeRunBefore_def table_lengths unat_drop)
qed

end
