(* ===== verification/H264CavlcSafe.thy ===== *)
theory H264CavlcSafe
  imports H264CavlcFacts
begin

text \<open>
  The steps of the residual block decoder, in the order of the code: each is total and keeps what
  is known of the levels and runs decoded so far.
\<close>

section \<open>The stream cache\<close>

definition cached :: "nat \<Rightarrow> cavlc \<Rightarrow> bool" where
  "cached n h \<longleftrightarrow> n \<le> unat (bufferBits h) \<and> unat (bufferBits h) \<le> 32"

text \<open>A predicate that does not depend on the cache.\<close>

definition uncached :: "(cavlc \<Rightarrow> bool) \<Rightarrow> bool" where
  "uncached R \<longleftrightarrow> (\<forall>h v b. R (h\<lparr>bufferValue := v, bufferBits := b\<rparr>) = R h)"

lemma Refill_total:
  assumes "uncached R" "unat n \<le> 32"
  shows "ensures (\<lambda>h. cached 0 h \<and> R h) (Refill n) (\<lambda>h. cached (unat n) h \<and> R h)"
proof (rule ensuresI)
  fix h s assume s: "strm_ok s" and P: "cached 0 h \<and> R h"
  show "\<exists>ret h' s'. Refill n h s = Some (ret, h', s') \<and> (ret = HANTRO_OK \<longrightarrow> strm_ok s' \<and> cached (unat n) h' \<and> R h')"
  proof (cases "bufferBits h < n")
    case True
    have b: "unat (32 - bufferBits h) \<le> 32"
      using P by (simp add: cached_def unat_sub word_le_nat_alt)
    from FlushBits_total [OF s this] show ?thesis
    proof cases
      case (1 s')
      then obtain v where "h264bsdShowBits32 s' = Some v" using ShowBits32_ok by blast
      with 1 True assms P show ?thesis by (simp add: Refill_def uncached_def cached_def)
    qed (use True in \<open>simp add: Refill_def\<close>)
  next
    case False
    with s P show ?thesis by (simp add: Refill_def cached_def word_less_nat_alt)
  qed
qed

lemma shown_bound:
  assumes "1 \<le> unat n" "unat n \<le> 32"
  shows "\<exists>v. shr32 w (32 - n) = Some v \<and> unat v < 2 ^ unat n"
proof -
  have n: "unat (32 - n) = 32 - unat n" using assms unat_sub [of n 32] by (simp add: word_le_nat_alt)
  then have "32 - n < 32" using assms by (simp add: word_less_nat_alt)
  moreover have "unat w < 2 ^ (32 - unat n) * 2 ^ unat n"
    using u32_less [of w] assms by (simp add: power_add [symmetric])
  then have "unat (drop_bit (32 - unat n) w) < 2 ^ unat n"
    by (simp add: unat_drop less_mult_imp_div_less mult.commute)
  ultimately show ?thesis by (simp add: shr32_def n)
qed

lemma SHOW_total:
  assumes "uncached R" "1 \<le> unat n" "unat n \<le> 32"
    and "\<And>v. unat v < 2 ^ unat n \<Longrightarrow> ensures (\<lambda>h. cached (unat n) h \<and> R h) (use v) Q"
  shows "ensures (\<lambda>h. cached 0 h \<and> R h) (BUFFER_SHOW n use) Q"
proof (rule ensuresI)
  fix h s assume "strm_ok s" "cached 0 h \<and> R h"
  with Refill_total [OF assms(1,3)] obtain ret h1 s1 where
    r: "Refill n h s = Some (ret, h1, s1)" "ret = HANTRO_OK \<longrightarrow> strm_ok s1 \<and> cached (unat n) h1 \<and> R h1"
    by (rule ensuresD)
  from shown_bound [OF assms(2,3)] obtain v where v: "shr32 (bufferValue h1) (32 - n) = Some v" "unat v < 2 ^ unat n" by blast
  show "\<exists>ret h' s'. BUFFER_SHOW n use h s = Some (ret, h', s') \<and> (ret = HANTRO_OK \<longrightarrow> strm_ok s' \<and> Q h')"
  proof (cases "ret = HANTRO_OK")
    case True
    with r have "strm_ok s1" "cached (unat n) h1 \<and> R h1" by simp_all
    with assms(4) [OF v(2)] obtain ret2 h2 s2 where "use v h1 s1 = Some (ret2, h2, s2)"
      "ret2 = HANTRO_OK \<longrightarrow> strm_ok s2 \<and> Q h2" by (rule ensuresD)
    with True r v show ?thesis by (simp add: BUFFER_SHOW_def)
  qed (use r in \<open>simp add: BUFFER_SHOW_def\<close>)
qed

lemma FLUSH_total:
  assumes "uncached R" "unat n < 32" "unat n \<le> k"
  shows "ensures (\<lambda>h. cached k h \<and> R h) (BUFFER_FLUSH n) (\<lambda>h. cached 0 h \<and> R h)"
proof (rule ensuresI)
  fix h s assume s: "strm_ok s" and P: "cached k h \<and> R h"
  have "unat (bufferBits h - n) = unat (bufferBits h) - unat n"
    using P assms(3) unat_sub [of n "bufferBits h"] by (simp add: cached_def word_le_nat_alt)
  moreover have "uint n < 32" using assms(2) uint_nat [of n] by linarith
  ultimately show "\<exists>ret h' s'. BUFFER_FLUSH n h s = Some (ret, h', s') \<and> (ret = HANTRO_OK \<longrightarrow> strm_ok s' \<and> cached 0 h' \<and> R h')"
    using s P assms(1) by (auto simp: BUFFER_FLUSH_def shl32_def uncached_def cached_def intro: le_trans [OF diff_le_self])
qed

lemma GET_total:
  assumes "uncached R" "1 \<le> unat n" "unat n < 32"
    and "\<And>v. unat v < 2 ^ unat n \<Longrightarrow> ensures (\<lambda>h. cached 0 h \<and> R h) (use v) Q"
  shows "ensures (\<lambda>h. cached 0 h \<and> R h) (BUFFER_GET n use) Q"
  unfolding BUFFER_GET_def
proof (rule SHOW_total [OF assms(1,2)])
  show "unat n \<le> 32" using assms(3) by simp
  fix v :: u32 assume "unat v < 2 ^ unat n"
  from ensures_single [OF assms(4) [OF this]]
  show "ensures (\<lambda>h. cached (unat n) h \<and> R h) (parse_all [BUFFER_FLUSH n, use v]) Q"
    by (rule ensures_Cons [OF FLUSH_total [OF assms(1,3) order_refl]])
qed

section \<open>Tokens\<close>

definition token_read :: "u32 \<Rightarrow> cavlc \<Rightarrow> bool" where
  "token_read maxNum h \<longleftrightarrow> tokenTotal h \<le> maxNum \<and> unat (tokenTotal h) \<le> 16
     \<and> tokenOnes h \<le> tokenTotal h \<and> tokenOnes h \<le> 3 \<and> length (levels h) = 16 \<and> length (runs h) = 16"

definition blank :: "cavlc \<Rightarrow> bool" where
  "blank h \<longleftrightarrow> length (levels h) = 16 \<and> length (runs h) = 16"

lemma uncached_intros [intro, simp]:
  "uncached blank" "uncached (token_read m)" "uncached (\<lambda>h. True)"
  by (simp_all add: uncached_def blank_def token_read_def)

lemma CoeffToken_total:
  "ensures (\<lambda>h. cached 0 h \<and> blank h) (CoeffToken nc maxNum) (\<lambda>h. cached 0 h \<and> token_read maxNum h)"
  unfolding CoeffToken_def
proof (rule SHOW_total)
  fix v :: u32 assume "unat v < 2 ^ unat (16 :: u32)"
  then obtain t where t: "DecodeCoeffToken v nc = Some t" "token_ok t" using CoeffToken_ok [of v nc] by auto
  show "ensures (\<lambda>h. cached (unat (16 :: u32)) h \<and> blank h) (\<lambda>h s.
     do {
       tmp \<leftarrow> DecodeCoeffToken v nc;
       if tmp = 0 then Some (HANTRO_NOK, h, s)
       else parse_all
         [BUFFER_FLUSH (LENGTH_TC tmp),
          FailIf (\<lambda>h. TOTAL_COEFF tmp > maxNum),
          Assign (\<lambda>h. h\<lparr>tokenTotal := TOTAL_COEFF tmp, tokenOnes := TRAILING_ONES tmp\<rparr>)] h s
     }) (\<lambda>h. cached 0 h \<and> token_read maxNum h)"
  proof (cases "t = 0")
    case True
    then show ?thesis by (simp add: t ensures_def)
  next
    case False
    with t(2) have ok: "LENGTH_TC t \<le> 16" "TOTAL_COEFF t \<le> 16" "TRAILING_ONES t \<le> TOTAL_COEFF t" "TRAILING_ONES t \<le> 3"
      by (simp_all add: token_ok_def)
    then have "unat (LENGTH_TC t) \<le> 16" "unat (TOTAL_COEFF t) \<le> 16" by (simp_all add: word_le_nat_alt)
    then have flush: "ensures (\<lambda>h. cached (unat (16 :: u32)) h \<and> blank h) (BUFFER_FLUSH (LENGTH_TC t)) (\<lambda>h. cached 0 h \<and> blank h)"
      by (intro FLUSH_total) simp_all
    have "ensures (\<lambda>h. cached (unat (16 :: u32)) h \<and> blank h) (parse_all
         [BUFFER_FLUSH (LENGTH_TC t),
          FailIf (\<lambda>h. TOTAL_COEFF t > maxNum),
          Assign (\<lambda>h. h\<lparr>tokenTotal := TOTAL_COEFF t, tokenOnes := TRAILING_ONES t\<rparr>)])
       (\<lambda>h. cached 0 h \<and> token_read maxNum h)"
      using ok \<open>unat (TOTAL_COEFF t) \<le> 16\<close>
      by (intro ensures_Cons [OF flush] ensures_Cons [OF ensures_ErrorIf
            [where Q = "\<lambda>h. (cached 0 h \<and> blank h) \<and> \<not> TOTAL_COEFF t > maxNum"]] ensures_single ensures_Assign)
        (auto simp: token_read_def blank_def cached_def not_less)
    then show ?thesis by (simp add: t False ensures_def)
  qed
qed simp_all

section \<open>Levels\<close>

definition known_level :: "int option \<Rightarrow> bool" where
  "known_level l \<longleftrightarrow> (\<exists>x. l = Some x \<and> x \<noteq> 0 \<and> abs x < 2 ^ 12)"

definition levels_read :: "u32 \<Rightarrow> u32 \<Rightarrow> nat \<Rightarrow> cavlc \<Rightarrow> bool" where
  "levels_read maxNum tot n h \<longleftrightarrow> token_read maxNum h \<and> tokenTotal h \<noteq> 0 \<and> tokenTotal h = tot \<and> unat (suffixLength h) \<le> 6
     \<and> (\<forall>j < n. known_level (levels h ! j))"

lemma uncached_levels [intro, simp]: "uncached (levels_read m tot n)"
  by (simp add: uncached_def levels_read_def token_read_def)

lemma known_one [simp]: "known_level (Some 1)" "known_level (Some (- 1))"
  by (simp_all add: known_level_def)

lemma all_below: "(\<forall>j < 2. P j) \<longleftrightarrow> P 0 \<and> P (Suc 0)" "(\<forall>j < 3. P j) \<longleftrightarrow> P 0 \<and> P (Suc 0) \<and> P (Suc (Suc 0))" for P :: "nat \<Rightarrow> bool"
  by (auto simp: less_2_cases_iff numeral_3_eq_3 less_Suc_eq)

lemma TrailingLoop_ones:
  fixes n :: u32
  assumes "length level = 16" "n \<noteq> 0" "n \<le> 3"
  shows "\<exists>tmp level'. shl32 1 (uint (n - 1)) = Some tmp \<and> TrailingLoop v tmp 0 level = Some (unat n, level')
    \<and> length level' = 16 \<and> (\<forall>j < unat n. known_level (level' ! j))"
proof -
  have "unat n \<noteq> 0" "unat n \<le> 3" using assms by (simp_all add: word_le_nat_alt unat_eq_0)
  then have "unat n = 1 \<or> unat n = 2 \<or> unat n = 3" by linarith
  then consider "n = 1" | "n = 2" | "n = 3" by (auto dest: word_of_unat)
  then show ?thesis
  proof cases
    case 1
    then show ?thesis using assms(1)
      by (simp add: shl32_def TrailingLoop.simps [of v 1] TrailingLoop.simps [of v 0])
  next
    case 2
    then show ?thesis using assms(1)
      by (simp add: shl32_def TrailingLoop.simps [of v 2] TrailingLoop.simps [of v 1] TrailingLoop.simps [of v 0]
          all_below)
  next
    case 3
    then show ?thesis using assms(1)
      by (simp add: shl32_def TrailingLoop.simps [of v 4] TrailingLoop.simps [of v 2] TrailingLoop.simps [of v 1]
          TrailingLoop.simps [of v 0] all_below)
  qed
qed

definition ones_read :: "u32 \<Rightarrow> cavlc \<Rightarrow> bool" where
  "ones_read maxNum h \<longleftrightarrow> token_read maxNum h \<and> tokenTotal h \<noteq> 0 \<and> levelCount h = unat (tokenOnes h)
     \<and> (\<forall>j < levelCount h. known_level (levels h ! j))"

lemma uncached_ones [intro, simp]: "uncached (ones_read m)" "uncached (\<lambda>h. token_read m h \<and> tokenTotal h \<noteq> 0)"
  "uncached (\<lambda>h. token_read m h \<and> tokenTotal h \<noteq> 0 \<and> tokenOnes h = k)"
  by (simp_all add: uncached_def ones_read_def token_read_def)

lemma TrailingOnes_total:
  "ensures (\<lambda>h. cached 0 h \<and> token_read maxNum h \<and> tokenTotal h \<noteq> 0) TrailingOnes (\<lambda>h. cached 0 h \<and> ones_read maxNum h)"
proof (rule ensuresI)
  fix h s assume s: "strm_ok s" and P: "cached 0 h \<and> token_read maxNum h \<and> tokenTotal h \<noteq> 0"
  show "\<exists>ret h' s'. TrailingOnes h s = Some (ret, h', s') \<and> (ret = HANTRO_OK \<longrightarrow> strm_ok s' \<and> cached 0 h' \<and> ones_read maxNum h')"
  proof (cases "tokenOnes h = 0")
    case True
    with s P show ?thesis by (simp add: TrailingOnes_def cached_def ones_read_def token_read_def)
  next
    case False
    define n where "n = tokenOnes h"
    have n: "n \<noteq> 0" "n \<le> 3" using False P by (simp_all add: n_def token_read_def)
    then have un: "1 \<le> unat n" "unat n < 32" by (simp_all add: word_le_nat_alt unat_gt_0 Suc_le_eq)
    have "ensures (\<lambda>h. cached 0 h \<and> token_read maxNum h \<and> tokenTotal h \<noteq> 0 \<and> tokenOnes h = n)
      (BUFFER_GET n (\<lambda>v h s. do {
             tmp \<leftarrow> shl32 1 (uint (tokenOnes h - 1));
             (i, level) \<leftarrow> TrailingLoop v tmp 0 (levels h);
             Some (HANTRO_OK, h\<lparr>levelCount := i, levels := level\<rparr>, s)
           })) (\<lambda>h. cached 0 h \<and> ones_read maxNum h)"
    proof (rule GET_total [OF _ un])
      fix v :: u32
      show "ensures (\<lambda>h. cached 0 h \<and> token_read maxNum h \<and> tokenTotal h \<noteq> 0 \<and> tokenOnes h = n)
        (\<lambda>h s. do {
             tmp \<leftarrow> shl32 1 (uint (tokenOnes h - 1));
             (i, level) \<leftarrow> TrailingLoop v tmp 0 (levels h);
             Some (HANTRO_OK, h\<lparr>levelCount := i, levels := level\<rparr>, s)
           }) (\<lambda>h. cached 0 h \<and> ones_read maxNum h)"
      proof (rule ensuresI)
        fix h s assume "strm_ok s" and Q: "cached 0 h \<and> token_read maxNum h \<and> tokenTotal h \<noteq> 0 \<and> tokenOnes h = n"
        moreover from Q n TrailingLoop_ones [of "levels h" n v] obtain tmp level' where
          "shl32 1 (uint (n - 1)) = Some tmp" "TrailingLoop v tmp 0 (levels h) = Some (unat n, level')"
          "length level' = 16" "\<forall>j < unat n. known_level (level' ! j)"
          by (auto simp: token_read_def)
        ultimately show "\<exists>ret h' s'. (do {
             tmp \<leftarrow> shl32 1 (uint (tokenOnes h - 1));
             (i, level) \<leftarrow> TrailingLoop v tmp 0 (levels h);
             Some (HANTRO_OK, h\<lparr>levelCount := i, levels := level\<rparr>, s)
           }) = Some (ret, h', s') \<and> (ret = HANTRO_OK \<longrightarrow> strm_ok s' \<and> cached 0 h' \<and> ones_read maxNum h')"
          by (auto simp: cached_def ones_read_def token_read_def)
      qed
    qed simp
    moreover have "cached 0 h \<and> token_read maxNum h \<and> tokenTotal h \<noteq> 0 \<and> tokenOnes h = n" using P by (simp add: n_def)
    ultimately show ?thesis using s False unfolding TrailingOnes_def n_def by (simp add: ensures_def)
  qed
qed

lemma InitSuffix_total:
  "ensures (\<lambda>h. cached 0 h \<and> ones_read maxNum h) InitSuffix
     (\<lambda>h. cached 0 h \<and> levelCount h \<le> unat (tokenTotal h) \<and> levels_read maxNum (tokenTotal h) (levelCount h) h)"
  unfolding InitSuffix_def
  by (rule ensures_Assign) (auto simp: cached_def ones_read_def levels_read_def token_read_def word_le_nat_alt)

lemma StoreLevel_total:
  assumes "unat code < 2 ^ 13 - 4" "i < 16"
  shows "ensures (\<lambda>h. cached 0 h \<and> levels_read maxNum tot i h) (StoreLevel i code)
     (\<lambda>h. cached 0 h \<and> levels_read maxNum tot (Suc i) h)"
proof (rule ensuresI)
  fix h s assume s: "strm_ok s" and P: "cached 0 h \<and> levels_read maxNum tot i h"
  define tmp where "tmp = (if i = unat (tokenOnes h) \<and> tokenOnes h < 3 then code + 2 else code)"
  have "unat (code + 2) = unat code + 2" using unat_add_lem [of code 2] assms(1) by simp
  then have tmp: "unat tmp < 2 ^ 13 - 2" using assms(1) by (simp add: tmp_def)
  then have "unat (tmp + 2) = unat tmp + 2" using unat_add_lem [of tmp 2] by simp
  then have lev: "unat (drop_bit 1 (tmp + 2)) = unat tmp div 2 + 1" by (simp add: unat_drop)
  then have slev: "sint (drop_bit 1 (tmp + 2)) = int (unat tmp div 2 + 1)"
    using tmp by (subst sint_small) simp_all
  define suffix where "suffix = (if suffixLength h = 0 then 1 else suffixLength h)"
  have suffix: "1 \<le> unat suffix" "unat suffix \<le> 6"
    using P by (auto simp: suffix_def levels_read_def Suc_le_eq unat_gt_0)
  then have u: "unat (suffix - 1) = unat suffix - 1" using unat_sub [of 1 suffix] by (simp add: word_le_nat_alt)
  have "uint (suffix - 1) < 32" using u suffix uint_nat [of "suffix - 1"] by linarith
  then have limit: "shl32 3 (uint (suffix - 1)) = Some (push_bit (nat (uint (suffix - 1))) 3)" by (simp add: shl32_def)
  have inc: "unat (suffix + 1) \<le> 6" if "suffix < 6"
    using that unat_add_lem [of suffix 1] suffix by (simp add: word_less_nat_alt)
  have len: "i < length (levels h)" using P assms(2) by (simp add: levels_read_def token_read_def)
  show "\<exists>ret h' s'. StoreLevel i code h s = Some (ret, h', s') \<and> (ret = HANTRO_OK \<longrightarrow> strm_ok s' \<and> cached 0 h' \<and> levels_read maxNum tot (Suc i) h')"
    unfolding StoreLevel_def Let_def tmp_def [symmetric] suffix_def [symmetric] limit slev
    using s P len inc suffix tmp
    by (auto simp: cached_def levels_read_def token_read_def less_Suc_eq nth_list_update known_level_def)
qed

lemma uncached_limited [intro, simp]: "uncached (\<lambda>h. levels_read m tot n h \<and> suffixLength h = k)"
  by (simp add: uncached_def levels_read_def token_read_def)

lemma LevelSuffix_total:
  assumes "unat p \<le> 15" "i < 16"
  shows "ensures (\<lambda>h. cached 0 h \<and> levels_read maxNum tot i h) (LevelSuffix i p)
     (\<lambda>h. cached 0 h \<and> levels_read maxNum tot (Suc i) h)"
proof (rule ensuresI)
  fix h s assume s: "strm_ok s" and P: "cached 0 h \<and> levels_read maxNum tot i h"
  define old where "old = suffixLength h"
  have old: "unat old \<le> 6" using P by (simp add: old_def levels_read_def)
  obtain tmp suffix where ts: "(if p < 14 then (old, old)
      else if p = 14 then (if old \<noteq> 0 then old else 4, old)
      else (12, if old = 0 then 1 else old)) = (tmp, suffix)" by (metis surj_pair)
  then have tmp: "unat tmp \<le> 12" "unat suffix \<le> 6" using old by (auto split: if_splits)
  have shift: "\<exists>q. (if suffix \<noteq> 0 then shl32 p (uint suffix) else Some p) = Some q \<and> unat q \<le> 15 * 2 ^ 6"
  proof (cases "suffix = 0")
    case False
    have us: "uint suffix < 32" "nat (uint suffix) = unat suffix" using tmp(2) uint_nat [of suffix] by linarith+
    have le: "unat p * 2 ^ unat suffix \<le> 15 * 2 ^ 6"
      using assms(1) tmp(2) by (intro mult_le_mono power_increasing) simp_all
    have "unat (push_bit (unat suffix) p) = take_bit 32 (push_bit (unat suffix) (unat p))"
      by (simp add: unsigned_push_bit_eq)
    also have "\<dots> = unat p * 2 ^ unat suffix"
      using le by (simp add: take_bit_nat_eq_self push_bit_eq_mult)
    finally have "unat (push_bit (unat suffix) p) = unat p * 2 ^ unat suffix" .
    with le us False show ?thesis by (simp add: shl32_def)
  qed (use assms(1) in simp)
  then obtain q where q: "(if suffix \<noteq> 0 then shl32 p (uint suffix) else Some p) = Some q" "unat q \<le> 15 * 2 ^ 6" by blast
  define h1 where "h1 = h\<lparr>suffixLength := suffix\<rparr>"
  have P1: "cached 0 h1 \<and> levels_read maxNum tot i h1"
    using P tmp(2) by (auto simp: h1_def cached_def levels_read_def token_read_def)
  have eq: "LevelSuffix i p h s = (if tmp \<noteq> 0 then BUFFER_GET tmp (\<lambda>x. StoreLevel i (q + x)) h1 s else StoreLevel i q h1 s)"
    unfolding LevelSuffix_def Let_def old_def [symmetric] ts by (simp add: q(1) h1_def cong: if_cong)
  have "ensures (\<lambda>h. cached 0 h \<and> levels_read maxNum tot i h) (if tmp \<noteq> 0 then BUFFER_GET tmp (\<lambda>x. StoreLevel i (q + x)) else StoreLevel i q)
     (\<lambda>h. cached 0 h \<and> levels_read maxNum tot (Suc i) h)"
  proof (cases "tmp = 0")
    case True
    with q(2) show ?thesis using StoreLevel_total [OF _ assms(2)] by simp
  next
    case False
    have "ensures (\<lambda>h. cached 0 h \<and> levels_read maxNum tot i h) (BUFFER_GET tmp (\<lambda>x. StoreLevel i (q + x)))
     (\<lambda>h. cached 0 h \<and> levels_read maxNum tot (Suc i) h)"
    proof (rule GET_total)
      fix x :: u32 assume "unat x < 2 ^ unat tmp"
      moreover have "(2 :: nat) ^ unat tmp \<le> 2 ^ 12" using tmp(1) by (intro power_increasing) simp_all
      ultimately have x: "unat x < 2 ^ 12" by linarith
      then have "unat (q + x) = unat q + unat x" using unat_add_lem [of q x] q(2) by simp
      with x q(2) show "ensures (\<lambda>h. cached 0 h \<and> levels_read maxNum tot i h) (StoreLevel i (q + x))
          (\<lambda>h. cached 0 h \<and> levels_read maxNum tot (Suc i) h)"
        by (intro StoreLevel_total [OF _ assms(2)]) simp
    qed (use False tmp in \<open>simp_all add: unat_gt_0 Suc_le_eq\<close>)
    with False show ?thesis by simp
  qed
  with s P1 show "\<exists>ret h' s'. LevelSuffix i p h s = Some (ret, h', s') \<and> (ret = HANTRO_OK \<longrightarrow> strm_ok s' \<and> cached 0 h' \<and> levels_read maxNum tot (Suc i) h')"
    unfolding eq by (simp add: ensures_def split: if_splits)
qed

lemma DecodeLevelPrefix_range: "DecodeLevelPrefix v = VLC_NOT_FOUND \<or> unat (DecodeLevelPrefix v) \<le> 15"
  by (simp add: DecodeLevelPrefix_def)

lemma DecodeLevel_total:
  assumes "i < 16"
  shows "ensures (\<lambda>h. cached 0 h \<and> levels_read maxNum tot i h) (DecodeLevel i)
     (\<lambda>h. cached 0 h \<and> levels_read maxNum tot (Suc i) h)"
  unfolding DecodeLevel_def
proof (rule SHOW_total)
  fix v :: u32
  define p where "p = DecodeLevelPrefix v"
  show "ensures (\<lambda>h. cached (unat (16 :: u32)) h \<and> levels_read maxNum tot i h) (\<lambda>h s.
     let levelPrefix = DecodeLevelPrefix v
     in if levelPrefix = VLC_NOT_FOUND then Some (HANTRO_NOK, h, s)
        else parse_all [BUFFER_FLUSH (levelPrefix + 1), LevelSuffix i levelPrefix] h s)
     (\<lambda>h. cached 0 h \<and> levels_read maxNum tot (Suc i) h)"
  proof (cases "p = VLC_NOT_FOUND")
    case True
    then show ?thesis by (simp add: ensures_def p_def [symmetric])
  next
    case False
    with DecodeLevelPrefix_range [of v] have p: "unat p \<le> 15" by (simp add: p_def)
    then have "unat (p + 1) = unat p + 1" using unat_add_lem [of p 1] by simp
    with p have "ensures (\<lambda>h. cached (unat (16 :: u32)) h \<and> levels_read maxNum tot i h)
        (parse_all [BUFFER_FLUSH (p + 1), LevelSuffix i p]) (\<lambda>h. cached 0 h \<and> levels_read maxNum tot (Suc i) h)"
      by (intro ensures_Cons [OF FLUSH_total] ensures_single LevelSuffix_total assms) simp_all
    with False show ?thesis by (simp add: ensures_def p_def [symmetric])
  qed
qed simp_all

definition all_levels :: "u32 \<Rightarrow> cavlc \<Rightarrow> bool" where
  "all_levels maxNum h \<longleftrightarrow> token_read maxNum h \<and> tokenTotal h \<noteq> 0 \<and> (\<forall>j < unat (tokenTotal h). known_level (levels h ! j))"

lemma Levels_total:
  "ensures (\<lambda>h. cached 0 h \<and> levelCount h \<le> unat (tokenTotal h) \<and> levels_read maxNum (tokenTotal h) (levelCount h) h)
     Levels (\<lambda>h. cached 0 h \<and> all_levels maxNum h)"
proof (rule ensuresI)
  fix h s assume s: "strm_ok s"
    and P: "cached 0 h \<and> levelCount h \<le> unat (tokenTotal h) \<and> levels_read maxNum (tokenTotal h) (levelCount h) h"
  define tot where "tot = tokenTotal h"
  have n: "levelCount h \<le> unat tot" "unat tot \<le> 16"
    using P by (auto simp: tot_def levels_read_def token_read_def)
  have loop: "ensures (\<lambda>h. cached 0 h \<and> levels_read maxNum tot (levelCount h0) h)
      (ForLoop DecodeLevel (levelCount h0) (unat tot - levelCount h0))
      (\<lambda>h'. cached 0 h' \<and> levels_read maxNum tot (levelCount h0 + (unat tot - levelCount h0)) h')"
    if "levelCount h0 \<le> unat tot" for h0
    using that n(2) by (intro ensures_ForLoop DecodeLevel_total) simp
  have "cached 0 h \<and> levels_read maxNum tot (levelCount h) h" using P by (simp add: tot_def)
  from loop [OF n(1), unfolded ensures_def, rule_format, OF conjI [OF s this]] obtain ret h' s' where
    r: "ForLoop DecodeLevel (levelCount h) (unat tot - levelCount h) h s = Some (ret, h', s')"
    "ret = HANTRO_OK \<longrightarrow> strm_ok s' \<and> cached 0 h' \<and> levels_read maxNum tot (levelCount h + (unat tot - levelCount h)) h'"
    by blast
  have "all_levels maxNum h'" if "levels_read maxNum tot (unat tot) h'"
    using that by (auto simp: all_levels_def levels_read_def)
  with r n(1) show "\<exists>ret h' s'. Levels h s = Some (ret, h', s') \<and> (ret = HANTRO_OK \<longrightarrow> strm_ok s' \<and> cached 0 h' \<and> all_levels maxNum h')"
    by (simp add: Levels_def tot_def)
qed

section \<open>Runs\<close>

text \<open>
  How far a block can write: the tables of total zeros are those of 4 or of 16 coefficients, so a
  block of 15 can reach one entry behind its own.
\<close>

definition room :: "u32 \<Rightarrow> nat" where
  "room maxNum = (if maxNum = 4 then 4 else 16)"

definition zeros_read :: "u32 \<Rightarrow> cavlc \<Rightarrow> bool" where
  "zeros_read maxNum h \<longleftrightarrow> all_levels maxNum h \<and> unat (zerosLeft h) + unat (tokenTotal h) \<le> room maxNum"

lemma uncached_all [intro, simp]: "uncached (all_levels m)" "uncached (\<lambda>h. all_levels m h \<and> tokenTotal h = n)"
  by (simp_all add: uncached_def all_levels_def token_read_def)

lemma TotalZeros_total:
  assumes "maxNum \<in> {4, 15, 16}"
  shows "ensures (\<lambda>h. cached 0 h \<and> all_levels maxNum h) (TotalZeros maxNum) (\<lambda>h. cached 0 h \<and> zeros_read maxNum h)"
proof (rule ensuresI)
  fix h s assume s: "strm_ok s" and P: "cached 0 h \<and> all_levels maxNum h"
  define tot where "tot = tokenTotal h"
  have le: "tot \<le> maxNum" "1 \<le> unat tot" using P by (simp_all add: tot_def all_levels_def token_read_def unat_gt_0 Suc_le_eq)
  show "\<exists>ret h' s'. TotalZeros maxNum h s = Some (ret, h', s') \<and> (ret = HANTRO_OK \<longrightarrow> strm_ok s' \<and> cached 0 h' \<and> zeros_read maxNum h')"
  proof (cases "tot < maxNum")
    case False
    with le have "tot = maxNum" by simp
    then have "unat tot \<le> room maxNum" using assms by (auto simp: room_def)
    with False s P show ?thesis
      by (auto simp: TotalZeros_def tot_def zeros_read_def all_levels_def token_read_def cached_def)
  next
    case True
    then have lt: "unat tot < unat maxNum" by (simp add: word_less_nat_alt)
    have "ensures (\<lambda>h. cached 0 h \<and> all_levels maxNum h \<and> tokenTotal h = tot)
      (BUFFER_SHOW 9 (\<lambda>v h s. do {
             z \<leftarrow> DecodeTotalZeros v (tokenTotal h) (maxNum = 4);
             if z = 0 then Some (HANTRO_NOK, h, s)
             else parse_all [BUFFER_FLUSH (LENGTH_VLC z), Assign (\<lambda>h. h\<lparr>zerosLeft := INFO z\<rparr>)] h s
           })) (\<lambda>h. cached 0 h \<and> zeros_read maxNum h)"
    proof (rule SHOW_total)
      fix v :: u32 assume v: "unat v < 2 ^ unat (9 :: u32)"
      obtain z where z: "DecodeTotalZeros v tot (maxNum = 4) = Some z" "zeros_ok (room maxNum) (unat tot) z"
      proof (cases "maxNum = 4")
        case True
        then show ?thesis using that TotalZerosChromaDc_ok [of tot v] le lt by (simp add: DecodeTotalZeros_def room_def)
      next
        case False
        then have "unat tot \<le> 15" using lt assms by auto
        with False show ?thesis using that TotalZerosLuma_ok [of v tot] le v by (auto simp: DecodeTotalZeros_def room_def)
      qed
      show "ensures (\<lambda>h. cached (unat (9 :: u32)) h \<and> all_levels maxNum h \<and> tokenTotal h = tot) (\<lambda>h s. do {
             z \<leftarrow> DecodeTotalZeros v (tokenTotal h) (maxNum = 4);
             if z = 0 then Some (HANTRO_NOK, h, s)
             else parse_all [BUFFER_FLUSH (LENGTH_VLC z), Assign (\<lambda>h. h\<lparr>zerosLeft := INFO z\<rparr>)] h s
           }) (\<lambda>h. cached 0 h \<and> zeros_read maxNum h)"
      proof (cases "z = 0")
        case True
        then show ?thesis by (simp add: ensures_def z(1))
      next
        case False
        with z(2) have ok: "LENGTH_VLC z \<le> 9" "unat (INFO z) + unat tot \<le> room maxNum" by (simp_all add: zeros_ok_def)
        then have "unat (LENGTH_VLC z) \<le> 9" by (simp add: word_le_nat_alt)
        then have flush: "ensures (\<lambda>h. cached (unat (9 :: u32)) h \<and> all_levels maxNum h \<and> tokenTotal h = tot)
            (BUFFER_FLUSH (LENGTH_VLC z)) (\<lambda>h. cached 0 h \<and> all_levels maxNum h \<and> tokenTotal h = tot)"
          by (intro FLUSH_total) simp_all
        have "ensures (\<lambda>h. cached (unat (9 :: u32)) h \<and> all_levels maxNum h \<and> tokenTotal h = tot)
            (parse_all [BUFFER_FLUSH (LENGTH_VLC z), Assign (\<lambda>h. h\<lparr>zerosLeft := INFO z\<rparr>)])
            (\<lambda>h. cached 0 h \<and> zeros_read maxNum h)"
          using ok(2) by (intro ensures_Cons [OF flush] ensures_single ensures_Assign)
            (auto simp: cached_def zeros_read_def all_levels_def token_read_def)
        with False show ?thesis by (simp add: ensures_def z(1))
      qed
    qed simp_all
    with True s P show ?thesis unfolding TotalZeros_def by (simp add: ensures_def tot_def)
  qed
qed

definition run_at :: "cavlc \<Rightarrow> nat \<Rightarrow> nat" where
  "run_at h j = unat (the (runs h ! j))"

definition covered :: "cavlc \<Rightarrow> nat \<Rightarrow> nat" where
  "covered h i = unat (zerosLeft h) + (\<Sum>j < i. run_at h j)"

definition runs_read :: "u32 \<Rightarrow> u32 \<Rightarrow> nat \<Rightarrow> cavlc \<Rightarrow> bool" where
  "runs_read maxNum tot i h \<longleftrightarrow> all_levels maxNum h \<and> tokenTotal h = tot
     \<and> (\<forall>j < i. runs h ! j \<noteq> None \<and> 1 \<le> run_at h j) \<and> covered h i + unat tot \<le> room maxNum + i"

lemma uncached_runs [intro, simp]: "uncached (runs_read m tot i)" "uncached (\<lambda>h. runs_read m tot i h \<and> zerosLeft h = z)"
  by (simp_all add: uncached_def runs_read_def all_levels_def token_read_def run_at_def covered_def)

lemma StoreRun_total:
  assumes "i < 16" "unat r \<le> 15"
  shows "ensures (\<lambda>h. cached 0 h \<and> runs_read maxNum tot i h \<and> r \<le> zerosLeft h) (StoreRun i r)
    (\<lambda>h. cached 0 h \<and> runs_read maxNum tot (Suc i) h)"
proof (rule ensuresI)
  fix h s assume s: "strm_ok s" and P: "cached 0 h \<and> runs_read maxNum tot i h \<and> r \<le> zerosLeft h"
  define h' where "h' = h\<lparr>runs := (runs h)[i := Some (r + 1)], zerosLeft := zerosLeft h - r\<rparr>"
  have len: "length (runs h) = 16" using P by (simp add: runs_read_def all_levels_def token_read_def)
  have r1: "unat (r + 1) = unat r + 1" using unat_add_lem [of r 1] assms(2) by simp
  have z: "unat (zerosLeft h - r) = unat (zerosLeft h) - unat r" "unat r \<le> unat (zerosLeft h)"
    using P by (simp_all add: unat_sub word_le_nat_alt)
  have old: "run_at h' j = run_at h j" if "j < i" for j using that by (simp add: h'_def run_at_def)
  have new: "run_at h' i = unat r + 1" using assms(1) len r1 by (simp add: h'_def run_at_def)
  have "covered h' (Suc i) = covered h i + 1" using z old new by (simp add: covered_def h'_def)
  moreover have "runs h' ! j \<noteq> None \<and> 1 \<le> run_at h' j" if "j < Suc i" for j
    using that P old new assms(1) len by (cases "j = i") (auto simp: runs_read_def h'_def less_Suc_eq)
  ultimately have "runs_read maxNum tot (Suc i) h'"
    using P by (auto simp: runs_read_def h'_def all_levels_def token_read_def)
  moreover have "StoreRun i r h s = Some (HANTRO_OK, h', s)" using assms(1) len by (simp add: StoreRun_def h'_def)
  moreover have "cached 0 h'" using P by (simp add: h'_def cached_def)
  ultimately show "\<exists>ret h' s'. StoreRun i r h s = Some (ret, h', s')
      \<and> (ret = HANTRO_OK \<longrightarrow> strm_ok s' \<and> cached 0 h' \<and> runs_read maxNum tot (Suc i) h')"
    using s by simp
qed

lemma DecodeRun_total:
  assumes "Suc i < unat tot" "unat tot \<le> 16"
  shows "ensures (\<lambda>h. cached 0 h \<and> runs_read maxNum tot i h) (DecodeRun i)
    (\<lambda>h. cached 0 h \<and> runs_read maxNum tot (Suc i) h)"
proof (rule ensuresI)
  fix h s assume s: "strm_ok s" and P: "cached 0 h \<and> runs_read maxNum tot i h"
  define z where "z = zerosLeft h"
  have i: "i < 16" using assms by simp
  show "\<exists>ret h' s'. DecodeRun i h s = Some (ret, h', s')
      \<and> (ret = HANTRO_OK \<longrightarrow> strm_ok s' \<and> cached 0 h' \<and> runs_read maxNum tot (Suc i) h')"
  proof (cases "z = 0")
    case True
    with P s StoreRun_total [OF i, of 0 maxNum tot] show ?thesis by (simp add: DecodeRun_def z_def ensures_def)
  next
    case False
    have "ensures (\<lambda>h. cached 0 h \<and> runs_read maxNum tot i h \<and> zerosLeft h = z)
       (BUFFER_SHOW 11 (\<lambda>v h s. do {
             tmp \<leftarrow> DecodeRunBefore v (zerosLeft h);
             if tmp = 0 then Some (HANTRO_NOK, h, s)
             else parse_all [BUFFER_FLUSH (LENGTH_VLC tmp), StoreRun i (INFO tmp)] h s
           })) (\<lambda>h. cached 0 h \<and> runs_read maxNum tot (Suc i) h)"
    proof (rule SHOW_total)
      fix v :: u32 assume "unat v < 2 ^ unat (11 :: u32)"
      then obtain t where t: "DecodeRunBefore v z = Some t" "run_ok z t" using DecodeRunBefore_ok [OF _ False, of v] by auto
      show "ensures (\<lambda>h. cached (unat (11 :: u32)) h \<and> runs_read maxNum tot i h \<and> zerosLeft h = z) (\<lambda>h s. do {
             tmp \<leftarrow> DecodeRunBefore v (zerosLeft h);
             if tmp = 0 then Some (HANTRO_NOK, h, s)
             else parse_all [BUFFER_FLUSH (LENGTH_VLC tmp), StoreRun i (INFO tmp)] h s
           }) (\<lambda>h. cached 0 h \<and> runs_read maxNum tot (Suc i) h)"
      proof (cases "t = 0")
        case True
        then show ?thesis by (simp add: ensures_def t(1))
      next
        case False
        with t(2) have ok: "LENGTH_VLC t \<le> 11" "INFO t \<le> z" by (simp_all add: run_ok_def)
        then have "unat (LENGTH_VLC t) \<le> 11" by (simp add: word_le_nat_alt)
        then have flush: "ensures (\<lambda>h. cached (unat (11 :: u32)) h \<and> runs_read maxNum tot i h \<and> zerosLeft h = z)
            (BUFFER_FLUSH (LENGTH_VLC t)) (\<lambda>h. cached 0 h \<and> runs_read maxNum tot i h \<and> zerosLeft h = z)"
          by (intro FLUSH_total) simp_all
        have "unat (INFO t) \<le> 15" using word_and_le1 [of "drop_bit 4 t" 15] by (simp add: INFO_def word_le_nat_alt)
        then have "ensures (\<lambda>h. cached 0 h \<and> runs_read maxNum tot i h \<and> zerosLeft h = z) (StoreRun i (INFO t))
            (\<lambda>h. cached 0 h \<and> runs_read maxNum tot (Suc i) h)"
          by (rule ensures_conseq [OF StoreRun_total [OF i]]) (use ok(2) in auto)
        then have "ensures (\<lambda>h. cached (unat (11 :: u32)) h \<and> runs_read maxNum tot i h \<and> zerosLeft h = z)
            (parse_all [BUFFER_FLUSH (LENGTH_VLC t), StoreRun i (INFO t)]) (\<lambda>h. cached 0 h \<and> runs_read maxNum tot (Suc i) h)"
          by (intro ensures_Cons [OF flush] ensures_single)
        with False show ?thesis by (simp add: ensures_def t(1))
      qed
    qed simp_all
    with s P False show ?thesis unfolding DecodeRun_def by (simp add: ensures_def z_def word_gt_0)
  qed
qed

definition block_read :: "u32 \<Rightarrow> cavlc \<Rightarrow> bool" where
  "block_read maxNum h \<longleftrightarrow> unat (tokenTotal h) \<le> 16
     \<and> (tokenTotal h \<noteq> 0 \<longrightarrow> runs_read maxNum (tokenTotal h) (unat (tokenTotal h) - 1) h)"

lemma Runs_total:
  "ensures (\<lambda>h. cached 0 h \<and> zeros_read maxNum h) Runs (\<lambda>h. cached 0 h \<and> block_read maxNum h)"
proof (rule ensuresI)
  fix h s assume s: "strm_ok s" and P: "cached 0 h \<and> zeros_read maxNum h"
  define tot where "tot = tokenTotal h"
  have tot: "tot \<noteq> 0" "unat tot \<le> 16" using P by (simp_all add: tot_def zeros_read_def all_levels_def token_read_def)
  then have n: "unat (tot - 1) = unat tot - 1" using unat_sub [of 1 tot] by (simp add: word_le_nat_alt unat_gt_0 Suc_le_eq)
  have "ensures (\<lambda>h. cached 0 h \<and> runs_read maxNum tot 0 h) (ForLoop DecodeRun 0 (unat tot - 1))
      (\<lambda>h. cached 0 h \<and> runs_read maxNum tot (0 + (unat tot - 1)) h)"
    using tot(2) by (intro ensures_ForLoop DecodeRun_total) auto
  moreover have "cached 0 h \<and> runs_read maxNum tot 0 h" using P by (simp add: runs_read_def zeros_read_def covered_def tot_def)
  ultimately obtain ret h' s' where "ForLoop DecodeRun 0 (unat tot - 1) h s = Some (ret, h', s')"
    "ret = HANTRO_OK \<longrightarrow> strm_ok s' \<and> cached 0 h' \<and> runs_read maxNum tot (unat tot - 1) h'"
    using s by (metis (no_types, lifting) add_0 ensuresD)
  with tot n show "\<exists>ret h' s'. Runs h s = Some (ret, h', s') \<and> (ret = HANTRO_OK \<longrightarrow> strm_ok s' \<and> cached 0 h' \<and> block_read maxNum h')"
    by (auto simp: Runs_def tot_def block_read_def runs_read_def)
qed

lemma BlockSteps_total:
  assumes "maxNum \<in> {4, 15, 16}"
  shows "ensures (\<lambda>h. cached 0 h \<and> blank h) (parse_all (BlockSteps nc maxNum)) (\<lambda>h. cached 0 h \<and> block_read maxNum h)"
  unfolding BlockSteps_def
proof (rule ensures_Cons [OF CoeffToken_total], rule ensures_single, rule ensures_IfElse)
  show "ensures (\<lambda>h. (cached 0 h \<and> token_read maxNum h) \<and> tokenTotal h \<noteq> 0)
    (parse_all [TrailingOnes, InitSuffix, Levels, TotalZeros maxNum, Runs]) (\<lambda>h. cached 0 h \<and> block_read maxNum h)"
  proof -
    have "ensures (\<lambda>h. cached 0 h \<and> token_read maxNum h \<and> tokenTotal h \<noteq> 0)
      (parse_all [TrailingOnes, InitSuffix, Levels, TotalZeros maxNum, Runs]) (\<lambda>h. cached 0 h \<and> block_read maxNum h)"
      by (rule ensures_Cons [OF TrailingOnes_total], rule ensures_Cons [OF InitSuffix_total],
          rule ensures_Cons [OF Levels_total], rule ensures_Cons [OF TotalZeros_total [OF assms]],
          rule ensures_single, rule Runs_total)
    then show ?thesis by (rule ensures_conseq) simp_all
  qed
qed (rule ensures_Nil, auto simp: block_read_def token_read_def)

section \<open>Combining\<close>

text \<open>\<open>m\<close> marks the \<open>n\<close> coefficients stored so far in the \<open>L\<close> entries from \<open>off\<close> on, none of them
  beyond \<open>t\<close>; the other entries are those of \<open>cs0\<close>.\<close>

definition coded :: "nat \<Rightarrow> nat \<Rightarrow> int list \<Rightarrow> int list \<Rightarrow> u32 \<Rightarrow> nat \<Rightarrow> nat \<Rightarrow> bool" where
  "coded off L cs0 cs m n t \<longleftrightarrow>
     (\<forall>k. bit m k \<longrightarrow> k < L \<and> k \<le> t \<and> cs ! (off + k) \<noteq> 0 \<and> abs (cs ! (off + k)) < 2 ^ 12)
     \<and> (\<forall>k < L. \<not> bit m k \<longrightarrow> cs ! (off + k) = cs0 ! (off + k)) \<and> card {k. bit m k} = n"

lemma bits_finite [simp]: "finite {k. bit (m :: u32) k}"
  by (rule finite_subset [of _ "{..<32}"]) (auto dest: bit_imp_le_length)

lemma coded_put:
  assumes "coded off L cs0 cs m n t" "t < p \<or> n = 0" "p < L" "L \<le> 16" "off + L \<le> length cs" "x \<noteq> 0" "abs x < 2 ^ 12"
  shows "coded off L cs0 (cs[off + p := x]) (m OR push_bit p 1) (Suc n) p"
proof -
  let ?m = "m OR push_bit p 1"
  have nth: "cs[off + p := x] ! (off + k) = (if k = p then x else cs ! (off + k))" if "k < L" for k
    using that assms by (simp add: nth_list_update)
  have before: "k < p" if "bit m k" for k
  proof (cases "n = 0")
    case True
    then have "{k. bit m k} = {}" using assms(1) by (simp add: coded_def)
    then show ?thesis using that by blast
  next
    case False
    with assms(1,2) that show ?thesis by (auto simp: coded_def dest!: spec [of _ k])
  qed
  have bits: "bit ?m k \<longleftrightarrow> k = p \<or> bit m k" for k
    using assms(3,4) by (auto simp: bit_simps)
  then have "{k. bit ?m k} = insert p {k. bit m k}" by auto
  moreover have "p \<notin> {k. bit m k}" using before [of p] by auto
  ultimately have "card {k. bit ?m k} = Suc n" using assms(1) by (simp add: coded_def)
  moreover have "k < L \<and> k \<le> p \<and> cs[off + p := x] ! (off + k) \<noteq> 0 \<and> abs (cs[off + p := x] ! (off + k)) < 2 ^ 12"
    if "bit ?m k" for k
  proof (cases "k = p")
    case True
    then show ?thesis using assms(3,6,7) nth [of p] by simp
  next
    case False
    with that bits have "bit m k" by simp
    with before assms(1) have "k < L" "k < p" "cs ! (off + k) \<noteq> 0" "abs (cs ! (off + k)) < 2 ^ 12"
      by (auto simp: coded_def)
    with nth [of k] show ?thesis by simp
  qed
  moreover have "cs[off + p := x] ! (off + k) = cs0 ! (off + k)" if "k < L" "\<not> bit ?m k" for k
    using that bits [of k] nth [of k] assms(1) by (simp add: coded_def)
  ultimately show ?thesis unfolding coded_def by blast
qed

lemma PutCoeff_known:
  assumes "known_level (levels h ! i)" "i < length (levels h)" "off + unat tmp < length cs"
  obtains x where "levels h ! i = Some x" "x \<noteq> 0" "abs x < 2 ^ 12" "PutCoeff cs off h tmp i = Some (cs[off + unat tmp := x])"
  using assms by (auto simp: known_level_def PutCoeff_def)

definition outside_same :: "nat \<Rightarrow> nat \<Rightarrow> int list \<Rightarrow> int list \<Rightarrow> bool" where
  "outside_same off L cs cs' \<longleftrightarrow> length cs' = length cs \<and> (\<forall>k. k < off \<or> off + L \<le> k \<longrightarrow> cs' ! k = cs ! k)"

lemma Combine_spec:
  assumes "coded off L cs0 cs m n (unat tmp)" "0 < n" "L \<le> 16" "off + L \<le> length cs"
    and "i \<le> length (levels h)" "i \<le> length (runs h)" "\<forall>j < i. known_level (levels h ! j)"
    and "\<forall>j < i. runs h ! j \<noteq> None \<and> 1 \<le> run_at h j" "unat tmp + (\<Sum>j < i. run_at h j) < L"
  shows "\<exists>m' cs' t. Combine h off i tmp m cs = Some (m', cs') \<and> outside_same off L cs cs' \<and> coded off L cs0 cs' m' (n + i) t"
  using assms
proof (induction i arbitrary: tmp m cs n)
  case 0
  then show ?case by (auto simp: outside_same_def)
next
  case (Suc i)
  from Suc.prems(8) obtain r where r: "runs h ! i = Some r" "1 \<le> unat r" "run_at h i = unat r"
    by (auto simp: run_at_def)
  have sum: "unat tmp + unat r + (\<Sum>j < i. run_at h j) < L" using Suc.prems(9) r by simp
  then have un: "unat (tmp + r) = unat tmp + unat r" using unat_add_lem [of tmp r] Suc.prems(3) by simp
  have lt: "unat (tmp + r) < L" "unat tmp < unat (tmp + r)" using sum un r by simp_all
  have "known_level (levels h ! i)" "i < length (levels h)" "off + unat (tmp + r) < length cs"
    using Suc.prems(4,5,7) lt(1) by simp_all
  from PutCoeff_known [OF this] obtain x where x: "levels h ! i = Some x" "x \<noteq> 0" "abs x < 2 ^ 12"
    "PutCoeff cs off h (tmp + r) i = Some (cs[off + unat (tmp + r) := x])" .
  have ui: "uint (tmp + r) < 32" "nat (uint (tmp + r)) = unat (tmp + r)"
    using lt(1) Suc.prems(3) uint_nat [of "tmp + r"] by linarith+
  have "coded off L cs0 (cs[off + unat (tmp + r) := x]) (m OR push_bit (unat (tmp + r)) 1) (Suc n) (unat (tmp + r))"
    by (rule coded_put [OF Suc.prems(1)]) (use Suc.prems lt x in auto)
  then obtain m' cs' t where "Combine h off i (tmp + r) (m OR push_bit (unat (tmp + r)) 1) (cs[off + unat (tmp + r) := x]) = Some (m', cs')"
    "outside_same off L (cs[off + unat (tmp + r) := x]) cs'" "coded off L cs0 cs' m' (Suc n + i) t"
    using Suc.IH [of "cs[off + unat (tmp + r) := x]" "m OR push_bit (unat (tmp + r)) 1" "Suc n" "tmp + r"] Suc.prems sum un by auto
  moreover have "outside_same off L cs (cs[off + unat (tmp + r) := x])"
    using lt(1) by (auto simp: outside_same_def nth_list_update)
  ultimately show ?case
    using r x ui Suc.prems(6) by (auto simp: shl32_def Let_def outside_same_def)
qed

end
