(* ===== verification/H264CavlcBlock.thy ===== *)
theory H264CavlcBlock
  imports H264CavlcSafe
begin

text \<open>
  What decoding a residual block delivers, for every stream.
\<close>

section \<open>Statuses\<close>

text \<open>A step that returns no status but \<open>HANTRO_OK\<close> and \<open>HANTRO_NOK\<close>.\<close>

definition plain :: "'h step \<Rightarrow> bool" where
  "plain p \<longleftrightarrow> (\<forall>h s ret h' s'. p h s = Some (ret, h', s') \<longrightarrow> ret = HANTRO_OK \<or> ret = HANTRO_NOK)"

lemma plainD: "plain p \<Longrightarrow> p h s = Some (ret, h', s') \<Longrightarrow> ret = HANTRO_OK \<or> ret = HANTRO_NOK"
  unfolding plain_def by blast

named_theorems plain_intros \<open>steps that return plain statuses\<close>

lemma plain_parse_all [plain_intros]:
  assumes "\<And>p. p \<in> set ps \<Longrightarrow> plain p"
  shows "plain (parse_all ps)"
  unfolding plain_def
proof (intro allI impI)
  fix h s ret h' s'
  assume "parse_all ps h s = Some (ret, h', s')"
  then show "ret = HANTRO_OK \<or> ret = HANTRO_NOK" using assms
  proof (induction ps arbitrary: h s)
    case (Cons p ps)
    from Cons.prems(1) obtain r1 h1 s1 where p: "p h s = Some (r1, h1, s1)"
      and "r1 = HANTRO_OK \<longrightarrow> parse_all ps h1 s1 = Some (ret, h', s')" and "r1 \<noteq> HANTRO_OK \<longrightarrow> ret = r1"
      by (auto simp: parse_all.simps split: bind_splits if_splits)
    moreover have "r1 = HANTRO_OK \<or> r1 = HANTRO_NOK" using Cons.prems(2) p by (metis plainD list.set_intros(1))
    ultimately show ?case using Cons.IH Cons.prems(2) by (cases "r1 = HANTRO_OK") auto
  qed (simp add: parse_all.simps)
qed

lemma plain_ForLoop [plain_intros]:
  assumes "\<And>i. plain (body i)"
  shows "plain (ForLoop body i n)"
  unfolding plain_def
proof (intro allI impI)
  fix h s ret h' s'
  assume "ForLoop body i n h s = Some (ret, h', s')"
  then show "ret = HANTRO_OK \<or> ret = HANTRO_NOK"
  proof (induction n arbitrary: i h s)
    case (Suc n)
    from Suc.prems obtain r1 h1 s1 where p: "body i h s = Some (r1, h1, s1)"
      and "r1 = HANTRO_OK \<longrightarrow> ForLoop body (Suc i) n h1 s1 = Some (ret, h', s')" and "r1 \<noteq> HANTRO_OK \<longrightarrow> ret = r1"
      by (auto split: bind_splits if_splits)
    with Suc.IH plainD [OF assms p] show ?case by (cases "r1 = HANTRO_OK") auto
  qed simp
qed

lemma plain_steps [plain_intros]:
  "plain (Assign f)" "plain (FailIf c)" "plain (Refill n)" "plain (BUFFER_FLUSH n)" "plain (StoreRun i r)"
  "plain (StoreLevel i v)"
  by (auto simp: plain_def Assign_def ErrorIf_def Refill_def BUFFER_FLUSH_def StoreRun_def StoreLevel_def Let_def
        split: bind_splits if_splits prod.splits)

lemma plain_IfElse [plain_intros]: "plain (parse_all ps) \<Longrightarrow> plain (parse_all qs) \<Longrightarrow> plain (IfElse c ps qs)"
  by (auto simp: plain_def IfElse_def split: if_splits)

lemma plain_SHOW [plain_intros]: "(\<And>v. plain (use v)) \<Longrightarrow> plain (BUFFER_SHOW n use)"
  using plain_steps(3) [of n] by (fastforce simp: plain_def BUFFER_SHOW_def split: bind_splits if_splits)

lemma plain_GET [plain_intros]: "(\<And>v. plain (use v)) \<Longrightarrow> plain (BUFFER_GET n use)"
  unfolding BUFFER_GET_def by (auto intro!: plain_intros)

lemma plain_state: "(\<And>h. plain (p h)) \<Longrightarrow> plain (\<lambda>h. p h h)"
  by (auto simp: plain_def)

lemma plain_bind: "(\<And>h v. plain (p h v)) \<Longrightarrow> plain (\<lambda>h s. do { v \<leftarrow> c h; p h v h s })"
  by (fastforce simp: plain_def split: bind_splits)

lemma plain_guard:
  assumes "plain p"
  shows "plain (\<lambda>h s. if c h then p h s else Some (HANTRO_NOK, h, s))" "plain (\<lambda>h s. if c h then Some (HANTRO_NOK, h, s) else p h s)"
  using assms by (auto simp: plain_def)

lemma plain_DecodeLevel: "plain (DecodeLevel i)"
proof -
  have suffix: "plain (LevelSuffix i p)" for p
    unfolding plain_def
  proof (intro allI impI)
    fix h s ret h' s'
    assume run: "LevelSuffix i p h s = Some (ret, h', s')"
    have get: "plain (BUFFER_GET n (\<lambda>x. StoreLevel i (q + x)))" for n q by (intro plain_intros)
    from run show "ret = HANTRO_OK \<or> ret = HANTRO_NOK"
      by (auto simp: LevelSuffix_def Let_def dest!: plainD [OF get] plainD [OF plain_steps(6)] split: bind_splits if_splits)
  qed
  have "plain (parse_all [BUFFER_FLUSH (p + 1), LevelSuffix i p])" for p
    by (rule plain_parse_all) (auto intro: suffix plain_steps)
  from plain_guard(2) [OF this, of "\<lambda>_. DecodeLevelPrefix v = VLC_NOT_FOUND" for v]
  have "plain (\<lambda>h s. let levelPrefix = DecodeLevelPrefix v
     in if levelPrefix = VLC_NOT_FOUND then Some (HANTRO_NOK, h, s)
        else parse_all [BUFFER_FLUSH (levelPrefix + 1), LevelSuffix i levelPrefix] h s)" for v
    unfolding Let_def .
  then show ?thesis unfolding DecodeLevel_def by (intro plain_intros)
qed

lemma plain_BlockSteps: "plain (parse_all (BlockSteps nc maxNum))"
proof -
  have token: "plain (CoeffToken nc maxNum)"
    unfolding CoeffToken_def by (intro plain_SHOW plain_bind plain_guard plain_intros) (auto intro: plain_intros)
  have ones: "plain TrailingOnes"
  proof -
    have "plain (BUFFER_GET n (\<lambda>v h s. do {
             tmp \<leftarrow> shl32 1 (uint (tokenOnes h - 1));
             (i, level) \<leftarrow> TrailingLoop v tmp 0 (levels h);
             Some (HANTRO_OK, h\<lparr>levelCount := i, levels := level\<rparr>, s)
           }))" for n
      by (rule plain_GET) (auto simp: plain_def split: bind_splits)
    then show ?thesis by (auto simp: plain_def TrailingOnes_def split: if_splits)
  qed
  have zeros: "plain (TotalZeros maxNum)"
  proof -
    have "plain (BUFFER_SHOW 9 (\<lambda>v h s. do {
             z \<leftarrow> DecodeTotalZeros v (tokenTotal h) (maxNum = 4);
             if z = 0 then Some (HANTRO_NOK, h, s)
             else parse_all [BUFFER_FLUSH (LENGTH_VLC z), Assign (\<lambda>h. h\<lparr>zerosLeft := INFO z\<rparr>)] h s
           }))"
      by (intro plain_SHOW plain_bind plain_guard plain_intros) (auto intro: plain_intros)
    then show ?thesis by (auto simp: plain_def TotalZeros_def split: if_splits)
  qed
  have run: "plain (DecodeRun i)" for i
  proof -
    have "plain (BUFFER_SHOW 11 (\<lambda>v h s. do {
             tmp \<leftarrow> DecodeRunBefore v (zerosLeft h);
             if tmp = 0 then Some (HANTRO_NOK, h, s)
             else parse_all [BUFFER_FLUSH (LENGTH_VLC tmp), StoreRun i (INFO tmp)] h s
           }))"
      by (intro plain_SHOW plain_bind plain_guard plain_intros) (auto intro: plain_intros)
    with plain_steps(5) show ?thesis by (auto simp: plain_def DecodeRun_def split: if_splits)
  qed
  have "plain Levels" using plain_ForLoop [OF plain_DecodeLevel] by (auto simp: plain_def Levels_def)
  moreover have "plain Runs" using plain_ForLoop [OF run] by (auto simp: plain_def Runs_def)
  ultimately show ?thesis
    unfolding BlockSteps_def using token ones zeros by (auto intro!: plain_intros simp: InitSuffix_def)
qed

section \<open>The whole block\<close>

definition block_result :: "nat \<Rightarrow> nat \<Rightarrow> u32 \<Rightarrow> int list \<Rightarrow> int list \<Rightarrow> u32 \<Rightarrow> bool" where
  "block_result off L maxNum cs0 cs ret \<longleftrightarrow> (\<exists>n m t. ret = push_bit 4 n OR push_bit 16 m \<and> n \<le> maxNum \<and> coded off L cs0 cs m (unat n) t)"

text \<open>
  The range the code can write, \<open>room\<close>, is larger than the block for 15 coefficients: zeros are
  counted with the tables for 16. What it then writes behind the block shows in the top bit of
  the result.
\<close>

lemma outside_sameD:
  assumes "outside_same off L cs cs'" "cs' ! k \<noteq> cs ! k"
  shows "off \<le> k" "k < off + L"
  using assms by (metis not_le outside_same_def)+

lemma block_result_behind:
  assumes "block_result off (room maxNum) maxNum cs cs' ret" "maxNum \<in> {4, 15, 16}"
    and "outside_same off (room maxNum) cs cs'" "k < off \<or> off + unat maxNum \<le> k" "cs' ! k \<noteq> cs ! k"
  shows "maxNum = 15 \<and> k = off + 15 \<and> bit ret 31"
proof -
  from assms(1) obtain n m t where r: "ret = push_bit 4 n OR push_bit 16 m" "coded off (room maxNum) cs cs' m (unat n) t"
    by (auto simp: block_result_def)
  note outside_sameD [OF assms(3,5)]
  with assms(2,4) have k: "maxNum = 15" "k = off + 15" by (auto simp: room_def split: if_splits)
  have "bit m 15"
  proof (rule ccontr)
    assume "\<not> bit m 15"
    with r(2) have "cs' ! (off + 15) = cs ! (off + 15)" by (simp add: coded_def k(1) room_def)
    with assms(5) k(2) show False by simp
  qed
  then have "bit ret 31" by (simp add: r(1) bit_or_iff bit_push_bit_iff)
  with k show ?thesis by simp
qed

lemma CombineAll_spec:
  assumes "block_read maxNum h" "off + room maxNum \<le> length cs"
  shows "\<exists>m cs' t. CombineAll h off cs = Some (m, cs') \<and> outside_same off (room maxNum) cs cs'
    \<and> coded off (room maxNum) cs cs' m (unat (tokenTotal h)) t \<and> (tokenTotal h \<noteq> 0 \<longrightarrow> tokenTotal h \<le> maxNum)"
proof -
  define L where "L = room maxNum"
  have L: "L \<le> 16" by (simp add: L_def room_def)
  have empty: "coded off L cs cs 0 0 0" by (simp add: coded_def)
  show ?thesis
  proof (cases "tokenTotal h = 0")
    case True
    with empty show ?thesis by (auto simp: CombineAll_def outside_same_def L_def)
  next
    case False
    define n where "n = unat (tokenTotal h) - 1"
    have n: "unat (tokenTotal h) = Suc n" using False by (simp add: n_def unat_gt_0)
    then have n1: "unat (tokenTotal h - 1) = n" using unat_sub [of 1 "tokenTotal h"] by (simp add: word_le_nat_alt)
    have r: "all_levels maxNum h" "\<forall>j < n. runs h ! j \<noteq> None \<and> 1 \<le> run_at h j" "covered h n + Suc n \<le> L + n" "n < 16"
      using assms(1) False n by (auto simp: block_read_def runs_read_def L_def)
    define z where "z = zerosLeft h"
    have sum: "unat z + (\<Sum>j < n. run_at h j) < L" using r(3) by (simp add: covered_def z_def)
    then have z: "unat z < L" by simp
    have lv: "known_level (levels h ! j)" if "j < Suc n" for j using r(1) that n by (simp add: all_levels_def)
    have len: "length (levels h) = 16" "length (runs h) = 16" "tokenTotal h \<le> maxNum"
      using r(1) by (simp_all add: all_levels_def token_read_def)
    have "off + unat z < length cs" using z assms(2) by (simp add: L_def)
    from PutCoeff_known [OF lv [of n] _ this] len r(4) obtain x where
      x: "x \<noteq> 0" "abs x < 2 ^ 12" "PutCoeff cs off h z n = Some (cs[off + unat z := x])" by auto
    have "coded off L cs (cs[off + unat z := x]) (0 OR push_bit (unat z) 1) (Suc 0) (unat z)"
      using assms(2) by (intro coded_put [OF empty _ z L _ x(1,2)]) (simp_all add: L_def)
    then have c: "coded off L cs (cs[off + unat z := x]) (push_bit (unat z) 1) (Suc 0) (unat z)" by simp
    have uz: "uint z < 32" "nat (uint z) = unat z" using z L uint_nat [of z] by linarith+
    have "\<exists>m cs' t. Combine h off n z (push_bit (unat z) 1) (cs[off + unat z := x]) = Some (m, cs')
      \<and> outside_same off L (cs[off + unat z := x]) cs' \<and> coded off L cs cs' m (Suc 0 + n) t"
      by (rule Combine_spec [OF c]) (use L assms(2) len r(2,4) lv sum in \<open>simp_all add: L_def\<close>)
    then obtain m cs' t where "Combine h off n z (push_bit (unat z) 1) (cs[off + unat z := x]) = Some (m, cs')"
      "outside_same off L (cs[off + unat z := x]) cs'" "coded off L cs cs' m (Suc 0 + n) t"
      by blast
    moreover have "outside_same off L cs (cs[off + unat z := x])"
      using z by (auto simp: outside_same_def nth_list_update)
    ultimately show ?thesis
      using False x(3) uz n n1 len(3) by (auto simp: CombineAll_def z_def [symmetric] shl32_def Let_def outside_same_def L_def)
  qed
qed

theorem ResidualBlock_spec:
  assumes "strm_ok s" "maxNum \<in> {4, 15, 16}" "off + room maxNum \<le> length cs"
  shows "\<exists>ret cs' s'. h264bsdDecodeResidualBlockCavlc s cs off nc maxNum = Some (ret, cs', s')
    \<and> outside_same off (room maxNum) cs cs'
    \<and> (ret = HANTRO_NOK \<or> strm_ok s' \<and> block_result off (room maxNum) maxNum cs cs' ret)"
proof -
  from assms(1) obtain v where v: "h264bsdShowBits32 s = Some v" using ShowBits32_ok by blast
  define h where "h = \<lparr>bufferValue = v, bufferBits = 32, tokenTotal = 0, tokenOnes = 0, suffixLength = 0,
                levelCount = 0, levels = replicate 16 None, runs = replicate 16 None, zerosLeft = 0\<rparr>"
  have "cached 0 h \<and> blank h" by (simp add: h_def cached_def blank_def)
  from ensuresD [OF BlockSteps_total [OF assms(2), of nc] assms(1) this] obtain ret h1 s1 where
    run: "parse_all (BlockSteps nc maxNum) h s = Some (ret, h1, s1)"
    "ret = HANTRO_OK \<longrightarrow> strm_ok s1 \<and> cached 0 h1 \<and> block_read maxNum h1" .
  show ?thesis
  proof (cases "ret = HANTRO_OK")
    case False
    then have "ret = HANTRO_NOK" using plainD [OF plain_BlockSteps run(1)] by simp
    then show ?thesis using run(1) v
      by (simp add: h264bsdDecodeResidualBlockCavlc_def h_def [symmetric] outside_same_def)
  next
    case True
    with run(2) have ok: "strm_ok s1" "cached 0 h1" "block_read maxNum h1" by simp_all
    from CombineAll_spec [OF ok(3) assms(3)] obtain m cs' t where
      c: "CombineAll h1 off cs = Some (m, cs')" "outside_same off (room maxNum) cs cs'"
      "coded off (room maxNum) cs cs' m (unat (tokenTotal h1)) t" "tokenTotal h1 \<noteq> 0 \<longrightarrow> tokenTotal h1 \<le> maxNum" by blast
    then have le: "tokenTotal h1 \<le> maxNum" by (cases "tokenTotal h1 = 0") simp_all
    have "unat (32 - bufferBits h1) \<le> 32" using ok(2) by (simp add: cached_def unat_sub word_le_nat_alt)
    from FlushBits_total [OF ok(1) this] show ?thesis
    proof cases
      case (1 s')
      with c le run(1) True v show ?thesis
        by (auto simp: h264bsdDecodeResidualBlockCavlc_def h_def [symmetric] block_result_def)
    next
      case (2 s')
      with c run(1) True v show ?thesis
        by (auto simp: h264bsdDecodeResidualBlockCavlc_def h_def [symmetric])
    qed
  qed
qed

end
