(* ===== verification/H264MbSafe.thy ===== *)
theory H264MbSafe
  imports H264MbLayer H264CavlcBlock
begin

text \<open>
  The parser of the macroblock layer is total on a good stream, reads and writes only inside its
  arrays, and what it returns with \<open>HANTRO_OK\<close> is a macroblock in range.
\<close>

section \<open>Macroblocks in range\<close>

definition all_in :: "('a \<Rightarrow> bool) \<Rightarrow> nat \<Rightarrow> 'a list \<Rightarrow> bool" where
  "all_in ok n xs \<longleftrightarrow> length xs = n \<and> (\<forall>x \<in> set xs. ok x)"

lemma all_in_update [intro, simp]: "all_in ok n xs \<Longrightarrow> ok x \<Longrightarrow> all_in ok n (xs[i := x])"
  using set_update_subset_insert [of xs i x] by (auto simp: all_in_def)

lemma all_in_length [dest]: "all_in ok n xs \<Longrightarrow> length xs = n"
  by (simp add: all_in_def)

lemma all_in_less [simp]: "all_in ok n xs \<Longrightarrow> i < n \<Longrightarrow> i < length xs"
  by (simp add: all_in_def)

lemma all_in_nth: "all_in ok n xs \<Longrightarrow> i < n \<Longrightarrow> ok (xs ! i)"
  by (simp add: all_in_def)

lemma all_in_replicate [simp]: "ok x \<Longrightarrow> all_in ok n (replicate n x)"
  by (simp add: all_in_def)

definition pred_ok :: "u32 \<Rightarrow> mbPred \<Rightarrow> bool" where
  "pred_ok n p \<longleftrightarrow> length (prevIntra4x4PredModeFlag p) = 16 \<and> all_in (\<lambda>m. m < 8) 16 (remIntra4x4PredMode p)
     \<and> intraChromaPredMode p \<le> 3 \<and> all_in (\<lambda>r. r < n \<or> r = 0) 4 (refIdxL0 p) \<and> length (mvdL0 p) = 4"

definition sub_ok :: "u32 \<Rightarrow> subMbPred \<Rightarrow> bool" where
  "sub_ok n p \<longleftrightarrow> all_in (\<lambda>t. t \<le> 3) 4 (subMbType p) \<and> all_in (\<lambda>r. r < n \<or> r = 0) 4 (subRefIdxL0 p)
     \<and> all_in (\<lambda>row. length row = 4) 4 (subMvdL0 p)"

definition res_ok :: "residual \<Rightarrow> bool" where
  "res_ok r \<longleftrightarrow> all_in (\<lambda>t. unat t \<le> 16) 27 (resTotalCoeff r) \<and> all_in (\<lambda>x. abs x < 2 ^ 12) 416 (level r)
     \<and> length (coeffMap r) = 24"

definition layer_ok :: "u32 \<Rightarrow> macroblockLayer \<Rightarrow> bool" where
  "layer_ok n l \<longleftrightarrow> layerType l \<le> 31 \<and> codedBlockPattern l < 48 \<and> - 26 \<le> mbQpDelta l \<and> mbQpDelta l \<le> 25
     \<and> pred_ok n (mbPredOf l) \<and> sub_ok n (subMbPredOf l) \<and> res_ok (residualOf l)"

lemma zeroLayer_ok: "layer_ok n zeroLayer"
  by (simp add: layer_ok_def zeroLayer_def pred_ok_def sub_ok_def res_ok_def)

text \<open>The macroblocks of a picture: a neighbour is one of them.\<close>

definition mbs_ok :: "mbStorage list \<Rightarrow> bool" where
  "mbs_ok mbs \<longleftrightarrow> (\<forall>m \<in> set mbs. length (totalCoeff m) = 27
     \<and> (\<forall>j. mbA m = Some j \<or> mbB m = Some j \<longrightarrow> j < length mbs))"

section \<open>Numbers of partitions\<close>

lemma parts_less: "j < h264bsdNumMbPart t \<Longrightarrow> j < 4" "j < h264bsdNumSubMbPart v \<Longrightarrow> j < 4"
  by (auto simp: h264bsdNumMbPart_def h264bsdNumSubMbPart_def split: if_splits)

lemma CbpIntra16x16_less: "7 \<le> t \<Longrightarrow> t < 31 \<Longrightarrow> CbpIntra16x16 t < 48"
proof -
  assume t: "7 \<le> t" "t < 31"
  have all: "list_all (\<lambda>n. CbpIntra16x16 (of_nat n) < 48) [7..<31]" by code_simp
  from t have "unat t \<in> {7..<31}" by (simp add: word_le_nat_alt word_less_nat_alt)
  then have "unat t \<in> set [7..<31]" by (simp only: set_upt)
  with all have "CbpIntra16x16 (of_nat (unat t)) < 48" unfolding list_all_iff by blast
  then show ?thesis by simp
qed

section \<open>Steps of the prediction\<close>

lemma Truncated_total:
  assumes "strm_ok s"
  obtains ret v s' where "h264bsdDecodeExpGolombTruncated s 0 b = Some (ret, v, s')" "ret = HANTRO_OK \<longrightarrow> strm_ok s'"
proof (cases b)
  case True
  then show ?thesis using Unsigned_total [OF assms] that by (metis h264bsdDecodeExpGolombTruncated_def)
next
  case False
  from GetBits_total [OF assms, of 1] obtain v s' where
    "h264bsdGetBits s 1 = Some (v, s')" "v \<noteq> END_OF_STREAM \<longrightarrow> strm_ok s'" by auto
  with False show ?thesis using that by (cases "v = END_OF_STREAM") (auto simp: h264bsdDecodeExpGolombTruncated_def)
qed

lemma Mapped_total:
  assumes "strm_ok s"
  obtains ret v s' where "h264bsdDecodeExpGolombMapped s 0 intra = Some (ret, v, s')"
    "ret = HANTRO_OK \<longrightarrow> strm_ok s' \<and> v < 48"
proof -
  from Mapped_result(2) [OF assms] obtain r where "h264bsdDecodeExpGolombMapped s 0 intra = Some r" by blast
  then obtain ret v s' where m: "h264bsdDecodeExpGolombMapped s 0 intra = Some (ret, v, s')" by (cases r) auto
  have "strm_ok s' \<and> v < 48" if "ret = HANTRO_OK"
  proof -
    from m that have "accepted (h264bsdDecodeExpGolombMapped s 0 intra) = Some (v, s')" by simp
    with Mapped_result(1) [OF assms] obtain n where n: "accepted (h264bsdDecodeExpGolombUnsigned s 0) = Some (n, s')" "n < 48"
      "v = ucast ((if intra then codedBlockPatternIntra4x4 else codedBlockPatternInter) ! unat n)" by blast
    have "list_all (\<lambda>b. unat b < 48) (codedBlockPatternIntra4x4 @ codedBlockPatternInter)"
      "length codedBlockPatternIntra4x4 = 48" "length codedBlockPatternInter = 48" by code_simp+
    then have "unat ((if intra then codedBlockPatternIntra4x4 else codedBlockPatternInter) ! unat n) < 48"
      using n(2) by (simp add: list_all_iff word_less_nat_alt)
    then have "v < 48" using n(3) by (simp add: word_less_nat_alt unsigned_ucast_eq take_bit_nat_eq_self)
    moreover have "strm_ok s'"
    proof -
      from Unsigned_total [OF assms] obtain ret' v' t where
        u: "h264bsdDecodeExpGolombUnsigned s 0 = Some (ret', v', t)" "ret' = HANTRO_OK \<longrightarrow> strm_ok t" by blast
      with n(1) show ?thesis by (simp add: accepted_def split: if_splits)
    qed
    ultimately show ?thesis by simp
  qed
  with m show ?thesis using that by blast
qed

lemma ensures_ReadRefIdx:
  assumes "\<And>h v. P h \<Longrightarrow> v < n \<Longrightarrow> \<exists>h'. put v h = Some h' \<and> Q h'"
  shows "ensures P (ReadRefIdx n put) Q"
proof (rule ensuresI)
  fix h s assume "strm_ok s" "P h"
  from Truncated_total [OF this(1), of "n > 2"] obtain ret v s' where
    "h264bsdDecodeExpGolombTruncated s 0 (n > 2) = Some (ret, v, s')" "ret = HANTRO_OK \<longrightarrow> strm_ok s'" by blast
  with assms [OF \<open>P h\<close>, of v] show "\<exists>ret h' s'. ReadRefIdx n put h s = Some (ret, h', s') \<and> (ret = HANTRO_OK \<longrightarrow> strm_ok s' \<and> Q h')"
    by (cases "ret = HANTRO_OK \<and> v < n") (auto simp: ReadRefIdx_def not_less)
qed

lemma ensures_ReadMvd:
  assumes "\<And>h v. P h \<Longrightarrow> \<exists>h'. put v h = Some h' \<and> Q h'"
  shows "ensures P (ReadMvd put) Q"
proof (rule ensuresI)
  fix h s assume "strm_ok s" "P h"
  from Signed_total [OF this(1)] obtain ret v s' where
    1: "h264bsdDecodeExpGolombSigned s 0 = Some (ret, v, s')" "ret = HANTRO_OK \<longrightarrow> strm_ok s'" by blast
  show "\<exists>ret h' s'. ReadMvd put h s = Some (ret, h', s') \<and> (ret = HANTRO_OK \<longrightarrow> strm_ok s' \<and> Q h')"
  proof (cases "ret = HANTRO_OK")
    case True
    with 1 have "strm_ok s'" by simp
    from Signed_total [OF this] obtain ret2 v2 s2 where
      2: "h264bsdDecodeExpGolombSigned s' 0 = Some (ret2, v2, s2)" "ret2 = HANTRO_OK \<longrightarrow> strm_ok s2" by blast
    with 1 True assms [OF \<open>P h\<close>, of "(word_of_int v, word_of_int v2)"] show ?thesis
      by (cases "ret2 = HANTRO_OK") (force simp: ReadMvd_def)+
  qed (use 1 in \<open>force simp: ReadMvd_def\<close>)
qed

text \<open>A loop with an invariant that does not depend on the index.\<close>

lemma ensures_For_inv:
  assumes "\<And>h0 j. I h0 \<Longrightarrow> j < bound h0 \<Longrightarrow> ensures I (body j) I"
  shows "ensures I (For bound body) I"
  by (rule ensures_For [where I = "\<lambda>h0 j. I"]) (use assms in auto)

lemma ensures_When:
  "(\<And>h. P h \<Longrightarrow> \<not> c h \<Longrightarrow> Q h) \<Longrightarrow> ensures (\<lambda>h. P h \<and> c h) (parse_all ps) Q \<Longrightarrow> ensures P (When c ps) Q"
  by (rule ensures_IfElse) (auto intro: ensures_Nil)

lemmas ensures_intros = ensures_Cons ensures_Nil ensures_When ensures_For_inv

lemma InterPred_ok: "ensures (pred_ok n) (InterPred t n) (pred_ok n)"
proof -
  have 1: "ensures (pred_ok n) (ReadRefIdx n (PutRefIdx j)) (pred_ok n)" if "j < h264bsdNumMbPart t" for j
    by (rule ensures_ReadRefIdx) (use parts_less(1) [OF that] in \<open>auto simp: PutRefIdx_def pred_ok_def\<close>)
  have 2: "ensures (pred_ok n) (ReadMvd (PutMvd j)) (pred_ok n)" if "j < h264bsdNumMbPart t" for j
    by (rule ensures_ReadMvd) (use parts_less(1) [OF that] in \<open>auto simp: PutMvd_def pred_ok_def\<close>)
  have 3: "ensures (\<lambda>h. pred_ok n h \<and> 1 < n) (parse_all [For (\<lambda>_. h264bsdNumMbPart t) (\<lambda>j. ReadRefIdx n (PutRefIdx j))]) (pred_ok n)"
    by (rule ensures_conseq [OF ensures_single [OF ensures_For_inv [OF 1]]]) simp_all
  show ?thesis unfolding InterPred_def
    by (rule ensures_Cons [OF ensures_When [OF _ 3] ensures_single [OF ensures_For_inv [OF 2]]])
qed

lemma IntraModes_ok:
  "i + k \<le> 16 \<Longrightarrow> pred_ok n p \<Longrightarrow> unat tmp + k \<le> 8 \<Longrightarrow>
    \<exists>tmp' p'. IntraModes i k v tmp p = Some (tmp', p') \<and> pred_ok n p' \<and> unat tmp' \<le> 8"
proof (induction k arbitrary: i v tmp p)
  case (Suc k)
  define f where "f = (v AND 0x80000000 \<noteq> 0)"
  define q where "q = p\<lparr>prevIntra4x4PredModeFlag := (prevIntra4x4PredModeFlag p)[i := f]\<rparr>"
  have q: "pred_ok n q" and i: "i < length (prevIntra4x4PredModeFlag p)" "i < length (remIntra4x4PredMode q)"
    using Suc.prems by (auto simp: q_def pred_ok_def)
  show ?case
  proof (cases f)
    case True
    then show ?thesis using Suc.IH [of "Suc i" q tmp "push_bit 1 v"] Suc.prems q i by (simp add: f_def [symmetric] q_def)
  next
    case False
    define w where "w = drop_bit 29 (push_bit 1 v)"
    define r where "r = q\<lparr>remIntra4x4PredMode := (remIntra4x4PredMode q)[i := w]\<rparr>"
    have "unat w < 8" using unsigned_less [of "push_bit 1 v", where 'a=nat] by (simp add: w_def unat_drop less_mult_imp_div_less)
    then have "pred_ok n r" using q by (simp add: r_def pred_ok_def word_less_nat_alt)
    moreover have "unat (tmp + 1) = unat tmp + 1" using Suc.prems(3) unat_add_lem [of tmp 1] by simp
    ultimately show ?thesis
      using Suc.IH [of "Suc i" r "tmp + 1" "push_bit 3 (push_bit 1 v)"] Suc.prems False i
      by (simp add: f_def [symmetric] q_def r_def w_def Let_def)
  qed
qed simp

lemma HalfIntraModes_ok:
  assumes "k < 2"
  shows "ensures (pred_ok n) (HalfIntraModes k) (pred_ok n)"
proof (rule ensuresI)
  fix p s assume s: "strm_ok s" and p: "pred_ok n p"
  from ShowBits32_ok [OF s] obtain v where v: "h264bsdShowBits32 s = Some v" by blast
  from assms p obtain t q where t: "IntraModes (8 * k) 8 v 0 p = Some (t, q)" "pred_ok n q" "unat t \<le> 8"
    using IntraModes_ok [of "8 * k" 8 n p 0 v] by fastforce
  have "unat (8 + 3 * t) \<le> 32" using t(3) by (simp add: unat_word_ariths)
  from FlushBits_total [OF s this] show "\<exists>ret h' s'. HalfIntraModes k p s = Some (ret, h', s') \<and> (ret = HANTRO_OK \<longrightarrow> strm_ok s' \<and> pred_ok n h')"
    by cases (use v t in \<open>auto simp: HalfIntraModes_def\<close>)
qed

lemma ChromaMode_ok: "ensures (pred_ok n) ChromaMode (pred_ok n)"
  unfolding ChromaMode_def by (rule ensures_ReadUe) (simp add: pred_ok_def)

lemma DecodeMbPred_ok: "ensures (pred_ok n) (DecodeMbPred t n) (pred_ok n)"
proof -
  have "ensures (pred_ok n) (parse_all [For (\<lambda>_. 2) HalfIntraModes, ChromaMode]) (pred_ok n)"
    by (rule ensures_Cons [OF ensures_For_inv ensures_single [OF ChromaMode_ok]]) (rule HalfIntraModes_ok)
  then show ?thesis
    by (simp add: DecodeMbPred_def InterPred_ok ChromaMode_ok split: mbPartPredMode.split)
qed

section \<open>Steps of the prediction of sub-macroblocks\<close>

lemma ReadSubType_ok: "j < 4 \<Longrightarrow> ensures (sub_ok n) (ReadSubType j) (sub_ok n)"
proof (rule ensuresI)
  fix h s assume j: "j < 4" and "strm_ok s" and h: "sub_ok n h"
  from Unsigned_total [OF this(2)] obtain ret v s' where
    "h264bsdDecodeExpGolombUnsigned s 0 = Some (ret, v, s')" "ret = HANTRO_OK \<longrightarrow> strm_ok s'" by blast
  with j h show "\<exists>ret h' s'. ReadSubType j h s = Some (ret, h', s') \<and> (ret = HANTRO_OK \<longrightarrow> strm_ok s' \<and> sub_ok n h')"
    by (cases "ret = HANTRO_OK"; cases "v > 3") (auto simp: ReadSubType_def PutSubType_def sub_ok_def)
qed

lemma SubMvds_ok: "i < 4 \<Longrightarrow> ensures (sub_ok n) (SubMvds i) (sub_ok n)"
proof (rule ensuresI)
  fix p s assume i: "i < 4" and s: "strm_ok s" and p: "sub_ok n p"
  let ?k = "h264bsdNumSubMbPart (subMbType p ! i)"
  have put: "\<exists>q. PutSubMvd i j v h = Some q \<and> sub_ok n q" if "j < 4" "sub_ok n h" for j v h
  proof -
    from that(2) i have "length (subMvdL0 h ! i) = 4" by (auto simp: sub_ok_def dest: all_in_nth)
    with that i show ?thesis by (auto simp: PutSubMvd_def sub_ok_def)
  qed
  have body: "ensures (sub_ok n) (ReadMvd (PutSubMvd i j)) (sub_ok n)" if "j < ?k" for j
    by (rule ensures_ReadMvd, rule put) (use parts_less(2) [OF that] in simp_all)
  have "ensures (sub_ok n) (ForLoop (\<lambda>j. ReadMvd (PutSubMvd i j)) 0 ?k) (sub_ok n)"
    by (rule ensures_ForLoop [where P = "\<lambda>_. sub_ok n"]) (simp add: body)
  moreover have "rd (subMbType p) i = Some (subMbType p ! i)" using p i by (auto simp: sub_ok_def)
  ultimately show "\<exists>ret h' s'. SubMvds i p s = Some (ret, h', s') \<and> (ret = HANTRO_OK \<longrightarrow> strm_ok s' \<and> sub_ok n h')"
    using s p by (simp add: SubMvds_def ensures_def)
qed

lemma DecodeSubMbPred_ok: "ensures (sub_ok n) (DecodeSubMbPred t n) (sub_ok n)"
proof -
  have 1: "ensures (sub_ok n) (ReadRefIdx n (PutSubRefIdx i)) (sub_ok n)" if "i < 4" for i
    by (rule ensures_ReadRefIdx) (use that in \<open>auto simp: PutSubRefIdx_def sub_ok_def\<close>)
  have 2: "ensures (\<lambda>h. sub_ok n h \<and> 1 < n \<and> t \<noteq> P_8x8ref0) (parse_all [For (\<lambda>_. 4) (\<lambda>i. ReadRefIdx n (PutSubRefIdx i))]) (sub_ok n)"
    by (rule ensures_conseq [OF ensures_single [OF ensures_For_inv [OF 1]]]) simp_all
  show ?thesis unfolding DecodeSubMbPred_def
    by (rule ensures_Cons [OF ensures_For_inv ensures_Cons [OF ensures_When [OF _ 2] ensures_single [OF ensures_For_inv]]])
      (simp_all add: ReadSubType_ok SubMvds_ok)
qed

section \<open>Steps of the residual\<close>

lemma NeighbourCoeffs_total:
  assumes "mbs_ok mbs" "i < length mbs" "b < 24" "\<forall>j. n = Some j \<longrightarrow> j < length mbs"
  shows "\<exists>t. NeighbourCoeffs mbs i n b = Some t"
proof (cases n)
  case (Some j)
  with assms have "j < length mbs" "b < length (totalCoeff (mbs ! j))" by (auto simp: mbs_ok_def)
  with assms(2) Some show ?thesis by (auto simp: NeighbourCoeffs_def h264bsdIsNeighbourAvailable_def)
qed (simp add: NeighbourCoeffs_def h264bsdIsNeighbourAvailable_def)

lemma neighbour_blocks:
  assumes "b < 24"
  obtains nA iA nB iB where "h264bsdNeighbour4x4BlockA b = Some (nA, iA)" "h264bsdNeighbour4x4BlockB b = Some (nB, iB)"
    "iA < 24" "iB < 24"
proof -
  have "list_all (\<lambda>p. snd p < 24) (N_A_4x4B @ N_B_4x4B)" "length N_A_4x4B = 24" "length N_B_4x4B = 24" by code_simp+
  with assms that [of "fst (N_A_4x4B ! b)" "snd (N_A_4x4B ! b)" "fst (N_B_4x4B ! b)" "snd (N_B_4x4B ! b)"]
  show ?thesis by (simp add: h264bsdNeighbour4x4BlockA_def h264bsdNeighbour4x4BlockB_def list_all_iff)
qed

lemma DetermineNc_total:
  assumes "mbs_ok mbs" "i < length mbs" "b < 24" "length coeffs = 27"
  shows "\<exists>nc. DetermineNc mbs i b coeffs = Some nc"
proof -
  from neighbour_blocks [OF assms(3)] obtain nA iA nB iB where
    t: "h264bsdNeighbour4x4BlockA b = Some (nA, iA)" "h264bsdNeighbour4x4BlockB b = Some (nB, iB)" "iA < 24" "iB < 24" .
  have n: "\<forall>j. mbA (mbs ! i) = Some j \<longrightarrow> j < length mbs" "\<forall>j. mbB (mbs ! i) = Some j \<longrightarrow> j < length mbs"
    using assms(1,2) by (auto simp: mbs_ok_def)
  from NeighbourCoeffs_total [OF assms(1,2) t(3) n(1)] NeighbourCoeffs_total [OF assms(1,2) t(4) n(2)] obtain a c where
    "NeighbourCoeffs mbs i (mbA (mbs ! i)) iA = Some a" "NeighbourCoeffs mbs i (mbB (mbs ! i)) iB = Some c" by blast
  with t assms(2,4) show ?thesis by (simp add: DetermineNc_def)
qed

lemma block_result_total:
  assumes "block_result off L m cs0 cs ret" "m \<le> 16"
  shows "ret AND 0xF = HANTRO_OK" "unat (drop_bit 4 ret AND 0xFF) \<le> 16"
proof -
  from assms obtain n k where r: "ret = push_bit 4 n OR push_bit 16 k" "n \<le> m" by (auto simp: block_result_def)
  have masks: "x AND 0xF = take_bit 4 x" "x AND 0xFF = take_bit 8 x" for x :: u32
    by (simp_all add: take_bit_eq_mask mask_eq_exp_minus_1)
  have "take_bit 4 ret = 0"
    unfolding r by (rule bit_eqI) (simp add: bit_simps)
  then show "ret AND 0xF = HANTRO_OK" by (simp add: masks HANTRO_OK_def)
  have "take_bit 8 (drop_bit 4 ret) = take_bit 8 n"
    unfolding r by (rule bit_eqI) (auto simp: bit_simps)
  moreover have "unat n \<le> 16" using r(2) assms(2) by (simp add: word_le_nat_alt)
  ultimately show "unat (drop_bit 4 ret AND 0xFF) \<le> 16" unfolding masks
    by (simp add: unsigned_take_bit_eq take_bit_nat_eq_self)
qed

lemma block_result_levels:
  assumes "block_result off L m cs0 cs ret" "outside_same off L cs0 cs" "off + L \<le> n" "all_in (\<lambda>x. abs x < 2 ^ 12) n cs0"
  shows "all_in (\<lambda>x. abs x < 2 ^ 12) n cs"
proof -
  from assms(2,4) have len: "length cs = n" "length cs0 = n" by (auto simp: outside_same_def)
  have "abs (cs ! k) < 2 ^ 12" if "k < n" for k
  proof -
    have old: "abs (cs0 ! k) < 2 ^ 12" using assms(4) that by (rule all_in_nth)
    show ?thesis
    proof (cases "k < off \<or> off + L \<le> k")
      case True
      with assms(2) have "cs ! k = cs0 ! k" by (auto simp: outside_same_def)
      with old show ?thesis by simp
    next
      case False
      define d where "d = k - off"
      with False have "k = off + d" "d < L" by auto
      moreover from assms(1) obtain m n t where "coded off L cs0 cs m n t" by (auto simp: block_result_def)
      ultimately show ?thesis using old unfolding coded_def by (cases "bit m d") auto
    qed
  qed
  with len show ?thesis by (simp add: all_in_def all_set_conv_all_nth)
qed

definition map_kept :: "(u32 \<Rightarrow> residual \<Rightarrow> residual option) \<Rightarrow> bool" where
  "map_kept f \<longleftrightarrow> (\<forall>tmp h. length (coeffMap h) = 24 \<longrightarrow> (\<exists>m. f tmp h = Some (h\<lparr>coeffMap := m\<rparr>) \<and> length m = 24))"

lemma map_kept_put: "b < 24 \<Longrightarrow> map_kept (\<lambda>tmp. PutMap b (drop_bit k tmp))" "map_kept Unchanged"
proof -
  have "\<exists>m. h = h\<lparr>coeffMap := m\<rparr> \<and> length m = 24" if "length (coeffMap h) = 24" for h :: residual
    by (rule exI [of _ "coeffMap h"]) (simp add: that)
  then show "map_kept Unchanged" by (simp add: map_kept_def Unchanged_def)
next
  have "\<exists>m. h\<lparr>coeffMap := (coeffMap h)[b := x]\<rparr> = h\<lparr>coeffMap := m\<rparr> \<and> length m = 24"
    if "length (coeffMap h) = 24" for h :: residual and x
    by (rule exI [of _ "(coeffMap h)[b := x]"]) (simp add: that)
  then show "b < 24 \<Longrightarrow> map_kept (\<lambda>tmp. PutMap b (drop_bit k tmp))" by (simp add: map_kept_def PutMap_def)
qed

lemma CallCavlc_ok:
  assumes "m \<in> {4, 15, 16}" "off + room m \<le> 416" "map_kept before"
    and after: "\<And>tmp h. res_ok h \<Longrightarrow> unat (drop_bit 4 tmp AND 0xFF) \<le> 16 \<Longrightarrow> \<exists>h'. after tmp h = Some h' \<and> res_ok h'"
  shows "ensures res_ok (CallCavlc off nc m before after) res_ok"
proof (rule ensuresI)
  fix h s assume s: "strm_ok s" and h: "res_ok h"
  from h have len: "length (level h) = 416" "length (coeffMap h) = 24" by (auto simp: res_ok_def)
  from ResidualBlock_spec [OF s assms(1), of off "level h" nc] assms(2) len obtain ret cs s' where
    c: "h264bsdDecodeResidualBlockCavlc s (level h) off nc m = Some (ret, cs, s')" "outside_same off (room m) (level h) cs"
      "ret = HANTRO_NOK \<or> strm_ok s' \<and> block_result off (room m) m (level h) cs ret" by auto
  from assms(3) len obtain q where q: "before ret (h\<lparr>level := cs\<rparr>) = Some (h\<lparr>level := cs, coeffMap := q\<rparr>)" "length q = 24"
    unfolding map_kept_def by (metis residual.update_convs(2) residual.select_convs(3) residual.surjective)
  show "\<exists>ret h' s'. CallCavlc off nc m before after h s = Some (ret, h', s') \<and> (ret = HANTRO_OK \<longrightarrow> strm_ok s' \<and> res_ok h')"
  proof (cases "ret = HANTRO_NOK")
    case True
    have "HANTRO_NOK AND 0xF \<noteq> HANTRO_OK" by code_simp
    with True c(1) q show ?thesis by (simp add: CallCavlc_def)
  next
    case False
    with c(3) have ok: "strm_ok s'" "block_result off (room m) m (level h) cs ret" by simp_all
    have "m \<le> 16" using assms(1) by auto
    note tot = block_result_total [OF ok(2) this]
    have "res_ok (h\<lparr>level := cs, coeffMap := q\<rparr>)"
      using block_result_levels [OF ok(2) c(2) assms(2)] h q(2) by (simp add: res_ok_def)
    with after tot obtain h' where "after ret (h\<lparr>level := cs, coeffMap := q\<rparr>) = Some h'" "res_ok h'" by blast
    with c(1) q(1) tot(1) ok(1) show ?thesis by (simp add: CallCavlc_def)
  qed
qed

lemma PutTotal_ok:
  assumes "b < 27" "res_ok h" "unat (drop_bit 4 tmp AND 0xFF) \<le> 16"
  shows "\<exists>h'. PutTotal b tmp h = Some h' \<and> res_ok h'"
proof -
  have "unat (ucast (drop_bit 4 tmp AND 0xFF) :: 16 word) \<le> 16"
    using assms(3) by (simp add: unsigned_ucast_eq take_bit_nat_eq_self)
  with assms(1,2) show ?thesis by (auto simp: PutTotal_def res_ok_def)
qed

lemma PutMap_ok: "b < 24 \<Longrightarrow> res_ok h \<Longrightarrow> \<exists>h'. PutMap b v h = Some h' \<and> res_ok h'"
  by (auto simp: PutMap_def res_ok_def)

lemma with_Nc:
  assumes "mbs_ok mbs" "i < length mbs" "b < 24" "\<And>nc. ensures res_ok (use nc) res_ok"
  shows "ensures res_ok (\<lambda>h s. do { nc \<leftarrow> DetermineNc mbs i b (resTotalCoeff h); use nc h s }) res_ok"
proof (rule ensuresI)
  fix h s assume *: "strm_ok s" "res_ok h"
  then have "length (resTotalCoeff h) = 27" by (auto simp: res_ok_def)
  from DetermineNc_total [OF assms(1-3) this] obtain nc where "DetermineNc mbs i b (resTotalCoeff h) = Some nc" ..
  with assms(4) [of nc] * show "\<exists>ret h' s'. do { nc \<leftarrow> DetermineNc mbs i b (resTotalCoeff h); use nc h s } = Some (ret, h', s')
    \<and> (ret = HANTRO_OK \<longrightarrow> strm_ok s' \<and> res_ok h')" by (simp add: ensures_def)
qed

lemma LumaBlock_ok: "mbs_ok mbs \<Longrightarrow> i < length mbs \<Longrightarrow> b < 24 \<Longrightarrow> ensures res_ok (LumaBlock mbs i is16 b) res_ok"
  unfolding LumaBlock_def
  by (rule with_Nc; assumption?; cases is16)
    (simp_all del: split_paired_All, auto simp: room_def intro!: CallCavlc_ok map_kept_put PutTotal_ok)

lemma ChromaAcBlock_ok:
  assumes "mbs_ok mbs" "i < length mbs" "b < 24"
  shows "ensures res_ok (ChromaAcBlock mbs i b) res_ok"
  unfolding ChromaAcBlock_def
proof (rule with_Nc [OF assms])
  fix nc
  have "\<exists>h'. do { h \<leftarrow> PutTotal b tmp h; PutMap b (drop_bit 15 tmp) h } = Some h' \<and> res_ok h'"
    if "res_ok h" "unat (drop_bit 4 tmp AND 0xFF) \<le> 16" for tmp h
  proof -
    have "b < 27" using assms(3) by simp
    from PutTotal_ok [OF this that] obtain h' where "PutTotal b tmp h = Some h'" "res_ok h'" by blast
    with PutMap_ok [OF assms(3) this(2), of "drop_bit 15 tmp"] show ?thesis by simp
  qed
  then show "ensures res_ok (CallCavlc (16 * b + 1) nc 15 Unchanged (\<lambda>tmp h. do { h \<leftarrow> PutTotal b tmp h; PutMap b (drop_bit 15 tmp) h })) res_ok"
    using assms(3) by (intro CallCavlc_ok map_kept_put) (auto simp: room_def)
qed

lemma DecodeResidual_ok:
  assumes "mbs_ok mbs" "i < length mbs"
  shows "ensures res_ok (DecodeResidual mbs i t cbp) res_ok"
proof -
  have dc: "ensures res_ok (LumaDc mbs i) res_ok"
    unfolding LumaDc_def by (rule with_Nc [OF assms]) (auto simp: room_def intro!: CallCavlc_ok map_kept_put PutTotal_ok)
  have inv: "ensures res_ok (ForLoop body j k) res_ok" if "\<And>b. j \<le> b \<Longrightarrow> b < j + k \<Longrightarrow> ensures res_ok (body b) res_ok" for body j k
    by (rule ensures_ForLoop [where P = "\<lambda>_. res_ok", OF that])
  have whenI: "ensures res_ok (When c ps) res_ok" if "ensures res_ok (parse_all ps) res_ok" for c ps
    by (rule ensures_When [OF _ ensures_conseq [OF that]]) simp_all
  have luma: "ensures res_ok (LumaBlocks mbs i is16 cbp k) res_ok" if "k < 4" for is16 k
    unfolding LumaBlocks_def using that by (intro whenI ensures_single inv LumaBlock_ok assms) simp
  have chroma: "ensures res_ok (CallCavlc off (- 1) 4 Unchanged (PutTotal b)) res_ok" if "b < 27" "off + 4 \<le> 416" for off b
    using that by (intro CallCavlc_ok map_kept_put PutTotal_ok) (simp_all add: room_def)
  show ?thesis unfolding DecodeResidual_def Let_def
    by (intro ensures_Cons [where R = res_ok] ensures_Nil whenI dc ensures_For_inv luma chroma inv ChromaAcBlock_ok assms) simp_all
qed

section \<open>The macroblock layer\<close>

lemma AlignLoop_total:
  "strm_ok s \<Longrightarrow> \<exists>ret s'. AlignLoop s = Some (ret, s') \<and> (ret = HANTRO_OK \<longrightarrow> strm_ok s' \<and> h264bsdIsByteAligned s')"
proof (induction s rule: AlignLoop.induct)
  case (1 s)
  show ?case
  proof (cases "h264bsdIsByteAligned s")
    case True
    with 1 show ?thesis by (simp add: AlignLoop.simps)
  next
    case False
    from GetBits_total [OF 1(2), of 1] obtain v t where
      g: "h264bsdGetBits s 1 = Some (v, t)" "v \<noteq> END_OF_STREAM \<longrightarrow> strm_ok t" by auto
    show ?thesis
    proof (cases "v = 0")
      case True
      then have "v \<noteq> END_OF_STREAM" by (simp add: END_OF_STREAM_def)
      with 1(1) [OF False g(1) refl] g True show ?thesis by (simp add: AlignLoop.simps [of s] False)
    qed (use False g in \<open>simp add: AlignLoop.simps [of s]\<close>)
  qed
qed

lemma PcmAlignment_ok: "ensures P PcmAlignment P"
proof (rule ensuresI)
  fix h s assume "strm_ok s" "P h"
  with AlignLoop_total [OF this(1)] show "\<exists>ret h' s'. PcmAlignment h s = Some (ret, h', s') \<and> (ret = HANTRO_OK \<longrightarrow> strm_ok s' \<and> P h')"
    by (auto simp: PcmAlignment_def)
qed

lemma GetBits_byte:
  assumes "strm_ok s"
  obtains v t where "h264bsdGetBits s 8 = Some (v, t)" "v \<noteq> END_OF_STREAM \<longrightarrow> strm_ok t \<and> unat v < 256"
proof (cases "8 \<le> length (rest s)")
  case True
  then obtain t where t: "h264bsdGetBits s 8 = Some (of_nat (bits_val (take 8 (rest s))), t)" "strm_ok t"
    using GetBits_ok [OF assms, of 8] by auto
  have "bits_val (take 8 (rest s)) < 256" using bits_val_less [of "take 8 (rest s)"] True by simp
  then have "unat (of_nat (bits_val (take 8 (rest s))) :: u32) < 256" by (simp add: unat_of_nat take_bit_nat_eq_self)
  with t that show ?thesis by blast
next
  case False
  then show ?thesis using GetBits_end [OF assms, of 8] that by auto
qed

lemma PcmSample_ok: "j < 384 \<Longrightarrow> ensures res_ok (PcmSample j) res_ok"
proof (rule ensuresI)
  fix h s assume j: "j < 384" and s: "strm_ok s" and h: "res_ok h"
  from GetBits_byte [OF s] obtain v t where
    g: "h264bsdGetBits s 8 = Some (v, t)" "v \<noteq> END_OF_STREAM \<longrightarrow> strm_ok t \<and> unat v < 256" by blast
  show "\<exists>ret h' s'. PcmSample j h s = Some (ret, h', s') \<and> (ret = HANTRO_OK \<longrightarrow> strm_ok s' \<and> res_ok h')"
  proof (cases "v = END_OF_STREAM")
    case True
    with g show ?thesis by (simp add: PcmSample_def)
  next
    case False
    with g have v: "unat v < 256" "strm_ok t" by auto
    then have "sint v = int (unat v)" by (intro sint_small) simp
    moreover have "int (unat v) < 256" using v(1) by (metis of_nat_less_numeral_iff)
    ultimately have "0 \<le> sint v" "sint v < 4096" by linarith+
    then have "abs (sint v) < 2 ^ 12" by simp
    with False g v(2) h j show ?thesis by (auto simp: PcmSample_def res_ok_def)
  qed
qed

lemma ReadMbType_ok: "ensures (layer_ok n) (ReadMbType st) (layer_ok n)"
proof (rule ensuresI)
  fix h s assume "strm_ok s" and h: "layer_ok n h"
  from Unsigned_total [OF this(1)] obtain ret v s' where
    "h264bsdDecodeExpGolombUnsigned s 0 = Some (ret, v, s')" "ret = HANTRO_OK \<longrightarrow> strm_ok s'" by blast
  with h show "\<exists>ret h' s'. ReadMbType st h s = Some (ret, h', s') \<and> (ret = HANTRO_OK \<longrightarrow> strm_ok s' \<and> layer_ok n h')"
    by (auto simp: ReadMbType_def layer_ok_def Let_def not_less)
qed

definition not_pcm :: "u32 \<Rightarrow> macroblockLayer \<Rightarrow> bool" where
  "not_pcm n l \<longleftrightarrow> layer_ok n l \<and> layerType l \<noteq> I_PCM"

lemma ReadPrediction_ok: "ensures (not_pcm n) (ReadPrediction n) (not_pcm n)"
proof (rule ensuresI)
  fix h s assume s: "strm_ok s" and h: "not_pcm n h"
  have 1: "ensures (not_pcm n) (Part subMbPredOf (\<lambda>p h. h\<lparr>subMbPredOf := p\<rparr>) (DecodeSubMbPred t n)) (not_pcm n)" for t
    by (rule ensures_Part [OF DecodeSubMbPred_ok]) (auto simp: not_pcm_def layer_ok_def)
  have 2: "ensures (not_pcm n) (Part mbPredOf (\<lambda>p h. h\<lparr>mbPredOf := p\<rparr>) (DecodeMbPred t n)) (not_pcm n)" for t
    by (rule ensures_Part [OF DecodeMbPred_ok]) (auto simp: not_pcm_def layer_ok_def)
  show "\<exists>ret h' s'. ReadPrediction n h s = Some (ret, h', s') \<and> (ret = HANTRO_OK \<longrightarrow> strm_ok s' \<and> not_pcm n h')"
    using 1 [of "layerType h"] 2 [of "layerType h"] s h unfolding ReadPrediction_def Let_def
    by (cases "h264bsdMbPartPredMode (layerType h) = PRED_MODE_INTER \<and> h264bsdNumMbPart (layerType h) = 4") (simp_all add: ensures_def)
qed

lemma ReadPattern_ok: "ensures (not_pcm n) ReadPattern (not_pcm n)"
proof (rule ensuresI)
  fix h s assume s: "strm_ok s" and h: "not_pcm n h"
  show "\<exists>ret h' s'. ReadPattern h s = Some (ret, h', s') \<and> (ret = HANTRO_OK \<longrightarrow> strm_ok s' \<and> not_pcm n h')"
  proof (cases "h264bsdMbPartPredMode (layerType h) = PRED_MODE_INTRA16x16")
    case True
    from h have "layerType h \<le> 31" "layerType h \<noteq> 31" by (auto simp: not_pcm_def layer_ok_def)
    moreover from True have "\<not> layerType h \<le> 5" "layerType h \<noteq> 6" by (auto simp: h264bsdMbPartPredMode_def split: if_splits)
    ultimately have "7 \<le> layerType h" "layerType h < 31"
      by (simp_all add: word_le_nat_alt word_less_nat_alt word_unat_eq_iff)
    then have "CbpIntra16x16 (layerType h) < 48" by (rule CbpIntra16x16_less)
    with True s h show ?thesis by (simp add: ReadPattern_def not_pcm_def layer_ok_def)
  next
    case False
    let ?intra = "h264bsdMbPartPredMode (layerType h) = PRED_MODE_INTRA4x4"
    from Mapped_total [OF s, of ?intra] obtain ret v s' where
      m: "h264bsdDecodeExpGolombMapped s 0 ?intra = Some (ret, v, s')" "ret = HANTRO_OK \<longrightarrow> strm_ok s' \<and> v < 48" .
    with False h show ?thesis
      by (cases "h264bsdMbPartPredMode (layerType h)") (auto simp: ReadPattern_def not_pcm_def layer_ok_def)
  qed
qed

lemma ReadQpDelta_ok: "ensures (not_pcm n) ReadQpDelta (not_pcm n)"
proof (rule ensuresI)
  fix h s assume s: "strm_ok s" and h: "not_pcm n h"
  from Signed_total [OF s] obtain ret v s' where
    "h264bsdDecodeExpGolombSigned s 0 = Some (ret, v, s')" "ret = HANTRO_OK \<longrightarrow> strm_ok s'" .
  with h show "\<exists>ret h' s'. ReadQpDelta h s = Some (ret, h', s') \<and> (ret = HANTRO_OK \<longrightarrow> strm_ok s' \<and> not_pcm n h')"
    by (cases "ret \<noteq> HANTRO_OK \<or> v < - 26 \<or> v > 25") (auto simp: ReadQpDelta_def not_pcm_def layer_ok_def)
qed

lemma same_position:
  assumes "strm_ok s"
  shows "s\<lparr>strmBuffReadBits := of_nat (pStrmCurrPos s - pStrmBuffStart s) * 8 + bitPosInWord s\<rparr> = s"
proof -
  let ?r = "strmBuffReadBits s"
  from assms have p: "pStrmCurrPos s - pStrmBuffStart s = unat ?r div 8" "unat (bitPosInWord s) = unat ?r mod 8"
    by (simp_all add: strm_ok_def)
  have "bitPosInWord s = of_nat (unat ?r mod 8)" using p(2) by (rule word_of_unat)
  then have "of_nat (pStrmCurrPos s - pStrmBuffStart s) * 8 + bitPosInWord s = of_nat (unat ?r div 8 * 8 + unat ?r mod 8)"
    unfolding p(1) by (simp only: of_nat_add of_nat_mult of_nat_numeral)
  also have "\<dots> = ?r" by (simp only: div_mult_mod_eq word_of_unat [OF refl, symmetric])
  finally show ?thesis by simp
qed

lemma ReadResidual_ok:
  assumes "mbs_ok mbs" "i < length mbs"
  shows "ensures (not_pcm n) (ReadResidual mbs i) (not_pcm n)"
proof (rule ensuresI)
  fix h s assume s: "strm_ok s" and h: "not_pcm n h"
  then have "res_ok (residualOf h)" by (simp add: not_pcm_def layer_ok_def)
  with DecodeResidual_ok [OF assms, of "layerType h" "codedBlockPattern h"] s obtain ret r s' where
    "DecodeResidual mbs i (layerType h) (codedBlockPattern h) (residualOf h) s = Some (ret, r, s')"
    "ret = HANTRO_OK \<longrightarrow> strm_ok s' \<and> res_ok r" by (rule ensuresD)
  with h show "\<exists>ret h' s'. ReadResidual mbs i h s = Some (ret, h', s') \<and> (ret = HANTRO_OK \<longrightarrow> strm_ok s' \<and> not_pcm n h')"
    by (auto simp: ReadResidual_def not_pcm_def layer_ok_def same_position)
qed

theorem DecodeMacroblockLayer_spec:
  assumes "mbs_ok mbs" "i < length mbs" "strm_ok s"
  shows "\<exists>ret l s'. h264bsdDecodeMacroblockLayer mbs i st n s = Some (ret, l, s')
    \<and> (ret = HANTRO_OK \<longrightarrow> strm_ok s' \<and> layer_ok n l)"
proof -
  have pcm: "ensures (\<lambda>h. layer_ok n h \<and> layerType h = I_PCM)
      (parse_all [PcmAlignment, Part residualOf (\<lambda>r h. h\<lparr>residualOf := r\<rparr>) (For (\<lambda>_. 384) PcmSample)]) (layer_ok n)"
    by (rule ensures_Cons [OF PcmAlignment_ok ensures_single [OF ensures_Part [OF ensures_For_inv [OF PcmSample_ok]]]])
      (simp_all add: layer_ok_def)
  have body: "ensures (\<lambda>h. not_pcm n h \<and> c h) (parse_all [ReadQpDelta, ReadResidual mbs i]) (layer_ok n)" for c
    by (rule ensures_Cons [OF ensures_conseq [OF ReadQpDelta_ok [of n]] ensures_single [OF ensures_conseq [OF ReadResidual_ok [OF assms(1,2), of n]]]])
      (simp_all add: not_pcm_def)
  have "ensures (not_pcm n) (When c [ReadQpDelta, ReadResidual mbs i]) (layer_ok n)" for c
    by (rule ensures_When [OF _ body]) (simp add: not_pcm_def)
  then have "ensures (not_pcm n) (parse_all [ReadPrediction n, ReadPattern, When c [ReadQpDelta, ReadResidual mbs i]]) (layer_ok n)" for c
    by (rule ensures_Cons [OF ReadPrediction_ok ensures_Cons [OF ReadPattern_ok ensures_single]])
  then have "ensures (\<lambda>h. layer_ok n h \<and> layerType h \<noteq> I_PCM)
      (parse_all [ReadPrediction n, ReadPattern, When c [ReadQpDelta, ReadResidual mbs i]]) (layer_ok n)" for c
    by (simp add: not_pcm_def [abs_def])
  from ensures_Cons [OF ReadMbType_ok ensures_single [OF ensures_IfElse [OF pcm this]], unfolded ensures_def,
      rule_format, OF conjI [OF assms(3) zeroLayer_ok]]
  show ?thesis unfolding h264bsdDecodeMacroblockLayer_def by simp
qed

end
