(* ===== verification/H264StorageFacts.thy ===== *)
theory H264StorageFacts
  imports H264Decoder H264MbSafe H264SpsFacts
begin

text \<open>
  The neighbours of the macroblocks of a picture, and the invariant of the storage: sets are in the
  slots of their identifiers, and the active identifiers and pointers agree.
\<close>

section \<open>Neighbours in a picture\<close>

text \<open>The neighbours of macroblock \<open>i\<close> in a picture of \<open>w\<close> macroblocks a row.\<close>

definition raster_neighbours :: "nat \<Rightarrow> nat \<Rightarrow> mbStorage \<Rightarrow> mbStorage" where
  "raster_neighbours w i m = m\<lparr>
     mbA := (if i mod w \<noteq> 0 then Some (i - 1) else None),
     mbB := (if w \<le> i then Some (i - w) else None),
     mbC := (if w \<le> i \<and> i mod w + 1 < w then Some (i - (w - 1)) else None),
     mbD := (if w \<le> i \<and> i mod w \<noteq> 0 then Some (i - (w + 1)) else None)\<rparr>"

lemma u32_Suc: "unat (x :: u32) + 1 < 2 ^ 32 \<Longrightarrow> unat (x + 1) = unat x + 1"
  using unat_add_lem [of x 1] by simp

lemma InitNeighboursLoop_spec:
  assumes "0 < unat w" "unat w < 2 ^ 31" "unat n < 2 ^ 31"
  shows "unat n - unat i = d \<Longrightarrow> unat i \<le> unat n \<Longrightarrow> unat row = unat i div unat w \<Longrightarrow> unat col = unat i mod unat w
    \<Longrightarrow> length mbs = unat n
    \<Longrightarrow> InitNeighboursLoop mbs w n i row col
      = Some (map (\<lambda>k. if k < unat i then mbs ! k else raster_neighbours (unat w) k (mbs ! k)) [0..<unat n])"
proof (induction d arbitrary: mbs i row col)
  case 0
  then have "unat i = unat n" by simp
  then have "map (\<lambda>k. if k < unat i then mbs ! k else raster_neighbours (unat w) k (mbs ! k)) [0..<unat n] = mbs" "\<not> i < n"
    using 0 by (auto intro!: nth_equalityI simp: word_less_nat_alt)
  then show ?case by (subst InitNeighboursLoop.simps) simp
next
  case (Suc d)
  define W where "W = unat w"
  define I where "I = unat i"
  from Suc.prems(1) have i: "I < unat n" "i < n" by (simp_all add: I_def word_less_nat_alt)
  have W: "0 < W" "W < 2 ^ 31" using assms(1,2) by (simp_all add: W_def)
  have lt: "I < 2 ^ 31" using i assms(3) by simp
  have col: "unat col = I mod W" "unat row = I div W" using Suc.prems(3,4) by (simp_all add: I_def W_def)
  have bounds: "I div W < 2 ^ 31" "I mod W < 2 ^ 31" "I mod W < W"
    using W le_less_trans [OF div_le_dividend lt] less_trans [OF mod_less_divisor W(2)] by auto
  have row0: "row \<noteq> 0 \<longleftrightarrow> W \<le> I" using col(2) W by (simp add: div_eq_0_iff unat_eq_0 [symmetric] not_less)
  have col0: "col \<noteq> 0 \<longleftrightarrow> I mod W \<noteq> 0" by (simp add: col(1) [symmetric] unat_eq_0)
  have w1: "unat (w - 1) = W - 1" "unat (w + 1) = W + 1"
    using W u32_Suc [of w] by (simp_all add: W_def unat_minus_one unat_gt_0 [symmetric])
  have colw: "col < w - 1 \<longleftrightarrow> I mod W + 1 < W" using col(1) w1(1) bounds(3) unfolding word_less_nat_alt by linarith
  let ?m = "raster_neighbours W I (mbs ! I)"
  let ?mbs = "mbs[I := ?m]"
  have step: "InitNeighboursLoop mbs w n i row col =
    (if col + 1 = w then InitNeighboursLoop ?mbs w n (i + 1) (row + 1) 0 else InitNeighboursLoop ?mbs w n (i + 1) row (col + 1))"
    using i Suc.prems(5) row0 col0 colw w1
    by (subst InitNeighboursLoop.simps) (simp add: raster_neighbours_def I_def [symmetric] W_def [symmetric])
  have c1: "unat (col + 1) = I mod W + 1" "unat (row + 1) = I div W + 1" "unat (i + 1) = I + 1"
    using col bounds lt u32_Suc [of col] u32_Suc [of row] u32_Suc [of i] by (simp_all add: I_def)
  have cw: "col + 1 = w \<longleftrightarrow> I mod W + 1 = W" by (simp only: word_unat_eq_iff c1 W_def)
  have "InitNeighboursLoop mbs w n i row col
    = Some (map (\<lambda>k. if k < unat (i + 1) then ?mbs ! k else raster_neighbours (unat w) k (?mbs ! k)) [0..<unat n])"
  proof (cases "col + 1 = w")
    case True
    with cw have "I mod W + 1 = W" by simp
    then have "(I + 1) div W = I div W + 1" "(I + 1) mod W = 0" by (simp_all add: div_Suc mod_Suc)
    then show ?thesis unfolding step using True Suc.prems c1 i
      by (subst Suc.IH) (simp_all add: W_def [symmetric] I_def [symmetric])
  next
    case False
    with cw have "(I + 1) div W = I div W" "(I + 1) mod W = I mod W + 1" by (simp_all add: div_Suc mod_Suc)
    then show ?thesis unfolding step using False Suc.prems c1 i col
      by (subst Suc.IH) (simp_all add: W_def [symmetric] I_def [symmetric])
  qed
  also have "map (\<lambda>k. if k < unat (i + 1) then ?mbs ! k else raster_neighbours (unat w) k (?mbs ! k)) [0..<unat n]
      = map (\<lambda>k. if k < unat i then mbs ! k else raster_neighbours (unat w) k (mbs ! k)) [0..<unat n]"
    using i Suc.prems(5) c1(3) by (intro map_cong) (auto simp: I_def W_def nth_list_update less_Suc_eq)
  finally show ?case .
qed

theorem InitMbNeighbours_raster:
  assumes "0 < unat w" "unat w < 2 ^ 31" "unat n < 2 ^ 31" "length mbs = unat n"
  shows "h264bsdInitMbNeighbours mbs w n = Some (map (\<lambda>k. raster_neighbours (unat w) k (mbs ! k)) [0..<unat n])"
  using InitNeighboursLoop_spec [OF assms(1-3) refl, of 0 0 0 mbs] assms(4) by (simp add: h264bsdInitMbNeighbours_def)

lemma raster_mbs_ok:
  assumes "length mbs = n" "\<forall>m \<in> set mbs. length (totalCoeff m) = 27"
  shows "mbs_ok (map (\<lambda>k. raster_neighbours w k (mbs ! k)) [0..<n])"
  using assms by (auto simp: mbs_ok_def raster_neighbours_def)

section \<open>The invariant of the storage\<close>

definition slots_ok :: "storage \<Rightarrow> bool" where
  "slots_ok st \<longleftrightarrow> length (spsSets st) = 32 \<and> length (ppsSets st) = 256
     \<and> (\<forall>i < 32. \<forall>sps. spsSets st ! i = Some sps \<longrightarrow> unat (seqParameterSetId sps) = i)
     \<and> (\<forall>i < 256. \<forall>pps. ppsSets st ! i = Some pps \<longrightarrow> unat (picParameterSetId pps) = i \<and> unat (ppsSeqParameterSetId pps) < 32)"

text \<open>A valid identifier is that of the set pointed to, the active picture parameter set refers to
  the active sequence parameter set, and the picture has its size.\<close>

definition active_ok :: "storage \<Rightarrow> bool" where
  "active_ok st \<longleftrightarrow>
     (unat (activeSpsId st) < 32 \<longleftrightarrow> activeSps st \<noteq> None)
     \<and> (\<forall>i. activeSps st = Some i \<longrightarrow> i = unat (activeSpsId st)
          \<and> (\<exists>sps. spsSets st ! i = Some sps \<and> picSizeInMbs st = picWidthInMbs sps * picHeightInMbs sps
               \<and> imageWidth st = picWidthInMbs sps \<and> imageHeight st = picHeightInMbs sps))
     \<and> (unat (activePpsId st) < 256 \<longrightarrow> activePps st = Some (unat (activePpsId st))
          \<and> (\<exists>pps. ppsSets st ! unat (activePpsId st) = Some pps \<and> ppsSeqParameterSetId pps = activeSpsId st)
          \<and> activeSps st \<noteq> None)
     \<and> (\<forall>i. activePps st = Some i \<longrightarrow> i < 256 \<and> ppsSets st ! i \<noteq> None)"

definition storage_inv :: "storage \<Rightarrow> bool" where
  "storage_inv st \<longleftrightarrow> slots_ok st \<and> active_ok st"

lemma InitStorage_inv: "storage_inv h264bsdInitStorage"
  by (simp add: storage_inv_def slots_ok_def active_ok_def h264bsdInitStorage_def
      MAX_NUM_SEQ_PARAM_SETS_def MAX_NUM_PIC_PARAM_SETS_def)

lemma ids: "unat MAX_NUM_SEQ_PARAM_SETS = 32" "unat MAX_NUM_PIC_PARAM_SETS = 256"
  "unat (MAX_NUM_SEQ_PARAM_SETS + 1) = 33" "unat (MAX_NUM_PIC_PARAM_SETS + 1) = 257"
  by (simp_all add: MAX_NUM_SEQ_PARAM_SETS_def MAX_NUM_PIC_PARAM_SETS_def)

lemma StoreSeqParamSet_inv:
  assumes "storage_inv st" "h264bsdStoreSeqParamSet got st sps = Some (ret, st')" "unat (seqParameterSetId sps) < 32"
  shows "storage_inv st'"
proof -
  define i where "i = unat (seqParameterSetId sps)"
  define sets where "sets = (spsSets st)[i := Some sps]"
  have slots: "slots_ok st" and act: "active_ok st" using assms(1) by (auto simp: storage_inv_def)
  have i: "i < 32" "length (spsSets st) = 32" using assms(3) slots by (auto simp: i_def slots_ok_def)
  have stored: "slots_ok (st\<lparr>spsSets := sets\<rparr>)"
    using slots i by (auto simp: slots_ok_def sets_def i_def nth_list_update)
  consider (same) "st' = st" | (stored) "st' = st\<lparr>spsSets := sets\<rparr>" "\<not> (spsSets st ! i \<noteq> None \<and> seqParameterSetId sps = activeSpsId st)"
    | (changed) "st' = st\<lparr>spsSets := sets, activeSpsId := MAX_NUM_SEQ_PARAM_SETS + 1,
                         activePpsId := MAX_NUM_PIC_PARAM_SETS + 1, activeSps := None, activePps := None\<rparr>"
    using assms(2) i by (auto simp: h264bsdStoreSeqParamSet_def Let_def i_def [symmetric] sets_def split: if_splits bind_splits)
  then show ?thesis
  proof cases
    case stored': stored
    have "j \<noteq> i" if "activeSps st = Some j" for j
      using that act stored'(2) i by (auto simp: active_ok_def i_def word_unat_eq_iff)
    then have "active_ok st'" using act unfolding stored'(1) by (fastforce simp: active_ok_def sets_def)
    with stored stored'(1) show ?thesis by (simp add: storage_inv_def)
  next
    case changed
    with stored show ?thesis by (simp add: storage_inv_def active_ok_def slots_ok_def ids)
  qed (use assms(1) in simp)
qed

lemma StorePicParamSet_inv:
  assumes "storage_inv st" "h264bsdStorePicParamSet got st pps = Some (ret, st')"
    and "unat (picParameterSetId pps) < 256" "unat (ppsSeqParameterSetId pps) < 32"
  shows "storage_inv st'"
proof -
  define i where "i = unat (picParameterSetId pps)"
  define sets where "sets = (ppsSets st)[i := Some pps]"
  have slots: "slots_ok st" and act: "active_ok st" using assms(1) by (auto simp: storage_inv_def)
  have i: "i < 256" "length (ppsSets st) = 256" using assms(3) slots by (auto simp: i_def slots_ok_def)
  have stored: "slots_ok (st\<lparr>ppsSets := sets\<rparr>)"
    using slots i assms(4) by (auto simp: slots_ok_def sets_def i_def nth_list_update)
  consider (same) "st' = st" | (stored) "st' = st\<lparr>ppsSets := sets\<rparr>"
      "\<not> (ppsSets st ! i \<noteq> None \<and> picParameterSetId pps = activePpsId st \<and> ppsSeqParameterSetId pps \<noteq> activeSpsId st)"
    | (changed) "st' = st\<lparr>ppsSets := sets, activePpsId := MAX_NUM_PIC_PARAM_SETS + 1\<rparr>"
    using assms(2) i by (auto simp: h264bsdStorePicParamSet_def Let_def i_def [symmetric] sets_def split: if_splits)
  then show ?thesis
  proof cases
    case stored': stored
    have "ppsSeqParameterSetId pps = activeSpsId st" if "unat (activePpsId st) = i" "i < 256"
      using that act stored'(2) by (auto simp: active_ok_def i_def word_unat_eq_iff)
    then have "active_ok st'" using act i unfolding stored'(1) by (fastforce simp: active_ok_def sets_def nth_list_update)
    with stored stored'(1) show ?thesis by (simp add: storage_inv_def)
  next
    case changed
    have "active_ok st'" using act i unfolding changed by (fastforce simp: active_ok_def ids sets_def nth_list_update)
    with stored changed show ?thesis by (simp add: storage_inv_def slots_ok_def)
  qed (use assms(1) in simp)
qed

lemma SetActive_inv:
  assumes "storage_inv st" "SetActive st ppsId = Some st'" "unat ppsId < 256"
  shows "storage_inv st'"
proof -
  from assms(2) obtain pps sps where
    p: "pps_at st (unat ppsId) = Some pps" "sps_at st (unat (ppsSeqParameterSetId pps)) = Some sps" and
    st': "st' = st\<lparr>activePpsId := ppsId, activePps := Some (unat ppsId),
                activeSpsId := ppsSeqParameterSetId pps, activeSps := Some (unat (ppsSeqParameterSetId pps)),
                picSizeInMbs := picWidthInMbs sps * picHeightInMbs sps,
                imageWidth := picWidthInMbs sps, imageHeight := picHeightInMbs sps,
                pendingActivation := True\<rparr>"
    by (auto simp: SetActive_def bind_eq_Some_conv)
  from p have "ppsSets st ! unat ppsId = Some pps" "spsSets st ! unat (ppsSeqParameterSetId pps) = Some sps"
    by (auto simp: pps_at_def sps_at_def bind_eq_Some_conv)
  moreover have "unat (ppsSeqParameterSetId pps) < 32"
    using calculation(1) assms(1,3) by (auto simp: storage_inv_def slots_ok_def)
  ultimately show ?thesis using assms(1,3) unfolding st' by (auto simp: storage_inv_def slots_ok_def active_ok_def)
qed

section \<open>Identifiers of parsed sets\<close>

lemma keeps_For:
  assumes "\<And>i. keeps f (body i)"
  shows "keeps f (For bound body)"
proof -
  have "f h' = f h" if "ForLoop body i n h s = Some (ret, h', s')" for i n h s ret h' s'
    using that
  proof (induction n arbitrary: i h s)
    case (Suc n)
    from Suc.prems obtain r h1 s1 where b: "body i h s = Some (r, h1, s1)" by (auto simp: bind_eq_Some_conv)
    then have "f h1 = f h" using keepsD [OF assms] by blast
    with b Suc.prems Suc.IH [of "Suc i" h1 s1] show ?case by (cases "r = HANTRO_OK") auto
  qed simp
  then show ?thesis by (auto simp: keeps_def For_def)
qed

definition pps_ids :: "picParamSet \<Rightarrow> u32 \<times> u32" where
  "pps_ids h = (picParameterSetId h, ppsSeqParameterSetId h)"

lemma pps_ids_kept: "keeps pps_ids (DecodeGroupParameters got)" "keeps pps_ids (parse_all PicParamEnd)"
proof -
  have ids: "keeps pps_ids (StoreSliceGroupId i)" for i
    by (auto simp: keeps_def StoreSliceGroupId_def pps_ids_def Let_def split: bind_splits if_splits)
  show "keeps pps_ids (DecodeGroupParameters got)"
    unfolding DecodeGroupParameters_def
    by (intro keeps_IfElse keeps_parse_all) (auto intro!: keeping keeps_For ids simp: pps_ids_def)
  have "keeps pps_ids (IgnoreTrailingBits :: picParamSet step)"
    by (auto simp: keeps_def IgnoreTrailingBits_def split: bind_splits)
  then show "keeps pps_ids (parse_all PicParamEnd)"
    unfolding PicParamEnd_def by (intro keeps_parse_all) (auto intro!: keeping simp: pps_ids_def)
qed

lemma pps_ids_parsed:
  assumes "h264bsdDecodePicParamSet got s = Some (HANTRO_OK, pps, s')"
  shows "unat (picParameterSetId pps) < 256 \<and> unat (ppsSeqParameterSetId pps) < 32"
proof -
  from assms obtain h1 s1 h2 s2 where
    start: "parse_all PicParamStart zeroPps s = Some (HANTRO_OK, h1, s1)" and
    groups: "When (\<lambda>h. numSliceGroups h > 1) (DecodeSliceGroups got) h1 s1 = Some (HANTRO_OK, h2, s2)" and
    fin: "parse_all PicParamEnd h2 s2 = Some (HANTRO_OK, pps, s')"
    by (auto simp: h264bsdDecodePicParamSet_def parse_all_append parse_all_Cons parse_all_Nil)
  have "unat (picParameterSetId h1) < 256 \<and> unat (ppsSeqParameterSetId h1) < 32"
    using start by (auto simp: PicParamStart_def parsed word_less_nat_alt MAX_NUM_PIC_PARAM_SETS_def MAX_NUM_SEQ_PARAM_SETS_def not_le)
  moreover have kept: "keeps pps_ids (When (\<lambda>h. numSliceGroups h > 1) (DecodeSliceGroups got))"
    unfolding DecodeSliceGroups_def
    by (intro keeps_IfElse keeps_parse_all) (auto intro!: keeping pps_ids_kept simp: pps_ids_def)
  have "pps_ids h2 = pps_ids h1" by (rule keepsD [OF kept groups])
  ultimately show ?thesis using keepsD [OF pps_ids_kept(2) fin] by (simp add: pps_ids_def)
qed

section \<open>Activation\<close>

text \<open>The picture fits into 32 bit sizes of memory.\<close>

definition size_fits :: "u32 \<Rightarrow> seqParamSet \<Rightarrow> bool" where
  "size_fits sizeofMb sps \<longleftrightarrow> 0 < unat (picWidthInMbs sps) \<and> 4 \<le> unat sizeofMb
     \<and> unat (picWidthInMbs sps) * unat (picHeightInMbs sps) * unat sizeofMb < 2 ^ 32 \<and> 0 < unat (picHeightInMbs sps)"

text \<open>The memory of a picture after an activation.\<close>

definition picture_memory :: "storage \<Rightarrow> seqParamSet \<Rightarrow> bool" where
  "picture_memory st sps \<longleftrightarrow> (let n = unat (picWidthInMbs sps) * unat (picHeightInMbs sps)
     in unat (picSizeInMbs st) = n
        \<and> macroblocks st = Some (map (\<lambda>i. raster_neighbours (unat (picWidthInMbs sps)) i zeroMb) [0..<n])
        \<and> (\<exists>m. sliceGroupMap st = Some m \<and> length m = n))"

lemma size_fits_arith:
  assumes "size_fits sizeofMb sps"
  defines "w \<equiv> unat (picWidthInMbs sps)" and "h \<equiv> unat (picHeightInMbs sps)"
  shows "unat (picWidthInMbs sps * picHeightInMbs sps) = w * h" "w * h < 2 ^ 30" "0 < w" "w < 2 ^ 31"
    "unat (picWidthInMbs sps * picHeightInMbs sps * sizeofMb) div unat sizeofMb = w * h"
    "unat (picWidthInMbs sps * picHeightInMbs sps * 4) div 4 = w * h"
proof -
  have p: "0 < w" "0 < h" "4 \<le> unat sizeofMb" "w * h * unat sizeofMb < 2 ^ 32"
    using assms by (simp_all add: size_fits_def)
  have "w * h * 4 \<le> w * h * unat sizeofMb" using p(3) by simp
  then have "w * h * 4 < 2 ^ 32" using p(4) by linarith
  moreover have "p < 2 ^ 30" if "p * 4 < 2 ^ 32" for p :: nat using that by simp
  ultimately show 2: "w * h < 2 ^ 30" by blast
  show wh: "unat (picWidthInMbs sps * picHeightInMbs sps) = w * h"
    using 2 unat_mult_lem [of "picWidthInMbs sps" "picHeightInMbs sps"] by (simp add: w_def h_def)
  show "0 < w" by (rule p)
  have "w * 1 \<le> w * h" using p(2) by (intro mult_le_mono) simp_all
  with 2 have "w < 2 ^ 30" by linarith
  then show "w < 2 ^ 31" by simp
  have "unat (picWidthInMbs sps * picHeightInMbs sps * sizeofMb) = w * h * unat sizeofMb"
    using p(4) wh unat_mult_lem [of "picWidthInMbs sps * picHeightInMbs sps" sizeofMb] by simp
  then show "unat (picWidthInMbs sps * picHeightInMbs sps * sizeofMb) div unat sizeofMb = w * h" using p(3) by simp
  have "unat (picWidthInMbs sps * picHeightInMbs sps * 4) = w * h * 4"
    using \<open>w * h * 4 < 2 ^ 32\<close> wh unat_mult_lem [of "picWidthInMbs sps * picHeightInMbs sps" 4] by simp
  then show "unat (picWidthInMbs sps * picHeightInMbs sps * 4) div 4 = w * h" by simp
qed

lemma active_sps_size:
  assumes "storage_inv st" "active_sps st = Some sps"
  shows "picSizeInMbs st = picWidthInMbs sps * picHeightInMbs sps" "activeSps st \<noteq> None"
  using assms by (auto simp: active_sps_def sps_at_def storage_inv_def active_ok_def bind_eq_Some_conv)

lemma CompleteActivation_spec:
  assumes "storage_inv st" "active_sps st = Some sps" "size_fits sizeofMb sps"
    and "CompleteActivation sizeofMb fresh heap st = Some (freed, HANTRO_OK, st', heap')"
  shows "storage_inv st' \<and> \<not> pendingActivation st' \<and> active_sps st' = Some sps \<and> picture_memory st' sps"
proof -
  note ar = size_fits_arith [OF assms(3)]
  let ?w = "unat (picWidthInMbs sps)"
  let ?n = "?w * unat (picHeightInMbs sps)"
  have n: "picSizeInMbs st = picWidthInMbs sps * picHeightInMbs sps" by (rule active_sps_size [OF assms(1,2)])
  have nb: "h264bsdInitMbNeighbours (replicate ?n zeroMb) (picWidthInMbs sps) (picSizeInMbs st)
      = Some (map (\<lambda>k. raster_neighbours ?w k zeroMb) [0..<?n])"
  proof -
    have "map (\<lambda>k. raster_neighbours ?w k (replicate ?n zeroMb ! k)) [0..<?n] = map (\<lambda>k. raster_neighbours ?w k zeroMb) [0..<?n]"
      by (intro map_cong) auto
    then show ?thesis using InitMbNeighbours_raster [of "picWidthInMbs sps" "picSizeInMbs st" "replicate ?n zeroMb"] ar n by simp
  qed
  have act: "active_sps (st\<lparr>pendingActivation := False, macroblocks := m, sliceGroupMap := g\<rparr>) = Some sps" for m g
    using assms(2) by (simp add: active_sps_def sps_at_def)
  define g where "g = map fresh [0..<?n]"
  from assms(4) obtain dpb where st':
    "st' = st\<lparr>pendingActivation := False, sliceGroupMap := Some g, macroblocks := Some (map (\<lambda>k. raster_neighbours ?w k zeroMb) [0..<?n]), dpbOf := dpb\<rparr>"
    unfolding CompleteActivation_def Let_def
    by (auto simp: act nb [unfolded n] n ar g_def [symmetric] split: prod.splits if_splits bind_splits)
  have "active_sps st' = Some sps" "storage_inv st'"
    using assms(1,2) st' by (simp_all add: active_sps_def sps_at_def storage_inv_def slots_ok_def active_ok_def)
  moreover have "length g = ?n" by (simp add: g_def)
  ultimately show ?thesis using st' n ar by (simp add: picture_memory_def)
qed

text \<open>The part of the storage the invariant speaks of.\<close>

definition sets_part where
  "sets_part st = (spsSets st, ppsSets st, activeSpsId st, activePpsId st, activeSps st, activePps st,
     picSizeInMbs st, imageWidth st, imageHeight st)"

lemma inv_sets_part: "sets_part st' = sets_part st \<Longrightarrow> storage_inv st' = storage_inv st"
  by (simp add: sets_part_def storage_inv_def slots_ok_def active_ok_def)

lemma CompleteActivation_part:
  "CompleteActivation sizeofMb fresh heap st = Some (freed, ret, st', heap') \<Longrightarrow> sets_part st' = sets_part st"
  unfolding CompleteActivation_def Let_def
  by (auto simp: sets_part_def split: prod.splits if_splits bind_splits)

lemma ActivateParamSets_inv:
  assumes "storage_inv st" "h264bsdActivateParamSets sizeofMb fresh heap st ppsId idr = Some (freed, ret, st', heap')"
    and "unat ppsId < 256"
  shows "storage_inv st'"
proof -
  have slots: "rd (ppsSets st) (unat ppsId) = Some (ppsSets st ! unat ppsId)"
    using assms(1,3) by (simp add: storage_inv_def slots_ok_def)
  consider (same) "st' = st" | (active) "SetActive st ppsId = Some st'"
    | (complete) "CompleteActivation sizeofMb fresh heap st = Some (freed, ret, st', heap')"
    | (pps) pps where "ppsSets st ! unat ppsId = Some pps" "spsSets st ! unat (ppsSeqParameterSetId pps) \<noteq> None"
        "ppsSeqParameterSetId pps = activeSpsId st" "st' = st\<lparr>activePpsId := ppsId, activePps := Some (unat ppsId)\<rparr>"
  proof (cases "ppsSets st ! unat ppsId")
    case None
    with assms(2) slots same show ?thesis by (simp add: h264bsdActivateParamSets_def)
  next
    case pps': (Some p)
    then have lt: "unat (ppsSeqParameterSetId p) < 32" using assms(1,3) by (simp add: storage_inv_def slots_ok_def)
    then have rd2: "rd (spsSets st) (unat (ppsSeqParameterSetId p)) = Some (spsSets st ! unat (ppsSeqParameterSetId p))"
      using assms(1) by (simp add: storage_inv_def slots_ok_def)
    show ?thesis
    proof (cases "spsSets st ! unat (ppsSeqParameterSetId p)")
      case None
      with assms(2) slots pps' rd2 same show ?thesis by (simp add: h264bsdActivateParamSets_def)
    next
      case (Some q)
      with assms(2) slots pps' rd2 obtain c where "CheckPps p q = Some c"
        by (cases "CheckPps p q") (simp_all add: h264bsdActivateParamSets_def)
      then have run: "(if c \<noteq> HANTRO_OK then Some ([], c, st, heap)
               else if activePpsId st = MAX_NUM_PIC_PARAM_SETS
               then do { st \<leftarrow> SetActive st ppsId; Some ([], HANTRO_OK, st, heap) }
               else if pendingActivation st then CompleteActivation sizeofMb fresh heap st
               else if ppsId \<noteq> activePpsId st
               then if ppsSeqParameterSetId p \<noteq> activeSpsId st
                    then if idr then do { st \<leftarrow> SetActive st ppsId; Some ([], HANTRO_OK, st, heap) }
                         else Some ([], HANTRO_NOK, st, heap)
                    else Some ([], HANTRO_OK, st\<lparr>activePpsId := ppsId, activePps := Some (unat ppsId)\<rparr>, heap)
               else Some ([], HANTRO_OK, st, heap)) = Some (freed, ret, st', heap')"
        using assms(2) slots pps' rd2 Some by (simp add: h264bsdActivateParamSets_def)
      have act: "SetActive st ppsId = Some st'"
        if "do { st \<leftarrow> SetActive st ppsId; Some ([], HANTRO_OK, st, heap) } = Some (freed, ret, st', heap')"
        using that by (auto simp: bind_eq_Some_conv)
      show ?thesis
      proof (cases "c \<noteq> HANTRO_OK \<or> (activePpsId st \<noteq> MAX_NUM_PIC_PARAM_SETS \<and> \<not> pendingActivation st
          \<and> (ppsId = activePpsId st \<or> ppsSeqParameterSetId p \<noteq> activeSpsId st \<and> \<not> idr))")
        case True
        with run have "st' = st" by (simp split: if_splits)
        then show ?thesis by (rule same)
      next
        case rest: False
        show ?thesis
        proof (cases "activePpsId st = MAX_NUM_PIC_PARAM_SETS \<or> \<not> pendingActivation st \<and> ppsSeqParameterSetId p \<noteq> activeSpsId st")
          case True
          with run rest have "do { st \<leftarrow> SetActive st ppsId; Some ([], HANTRO_OK, st, heap) } = Some (freed, ret, st', heap')"
            by (simp split: if_splits)
          then show ?thesis by (rule active [OF act])
        next
          case False
          show ?thesis
          proof (cases "pendingActivation st")
            case True
            with run rest False have "CompleteActivation sizeofMb fresh heap st = Some (freed, ret, st', heap')" by simp
            then show ?thesis by (rule complete)
          next
            case quiet: False
            with run rest False have "st' = st\<lparr>activePpsId := ppsId, activePps := Some (unat ppsId)\<rparr>" by (simp split: if_splits)
            then show ?thesis using pps' Some False quiet by (intro pps) auto
          qed
        qed
      qed
    qed
  qed
  then show ?thesis
  proof cases
    case active
    with assms(1,3) show ?thesis using SetActive_inv by blast
  next
    case complete
    then show ?thesis using assms(1) CompleteActivation_part inv_sets_part by blast
  next
    case pps
    have "unat (activeSpsId st) < 32" using pps(1,3) assms(1,3) by (auto simp: storage_inv_def slots_ok_def)
    with pps assms(1,3) show ?thesis by (auto simp: storage_inv_def slots_ok_def active_ok_def)
  qed (use assms(1) in simp)
qed

lemma PpsId_range:
  assumes "h264bsdCheckPpsId s 0 = Some (ret, v)"
  shows "unat v < 256"
proof -
  show ?thesis using assms
    by (auto simp: h264bsdCheckPpsId_def Peek_def parse_all.simps SkipUe_def ReadUe_def MAX_NUM_PIC_PARAM_SETS_def
        word_less_nat_alt not_le split: bind_splits if_splits)
qed

text \<open>A failed activation leaves no set active.\<close>

lemma ActivateForPicture_inv:
  assumes "storage_inv st" "ActivateForPicture sizeofMb fresh heap strm nal n st = Some (freed, code, st', heap')"
  shows "storage_inv st'"
proof -
  let ?st = "st\<lparr>numConcealedMbs := 0, currentPicId := n\<rparr>"
  from assms(2) obtain r0 ppsId fr tmp st1 h1 where
    id: "h264bsdCheckPpsId strm 0 = Some (r0, ppsId)" and
    act: "h264bsdActivateParamSets sizeofMb fresh heap ?st ppsId (IS_IDR_NAL_UNIT nal) = Some (fr, tmp, st1, h1)" and
    cases: "st' = st1\<lparr>activePpsId := MAX_NUM_PIC_PARAM_SETS, activePps := None,
                     activeSpsId := MAX_NUM_SEQ_PARAM_SETS, activeSps := None, pendingActivation := False\<rparr>
       \<or> HeadersReady strm nal st1 = Some st' \<or> st' = st1"
    unfolding ActivateForPicture_def Let_def by (auto split: bind_splits if_splits)
  have "storage_inv ?st" using assms(1) inv_sets_part [of ?st st] by (simp add: sets_part_def)
  from ActivateParamSets_inv [OF this act PpsId_range [OF id]] have inv: "storage_inv st1" .
  moreover have "sets_part st' = sets_part st1" if "HeadersReady strm nal st1 = Some st'"
    using that unfolding HeadersReady_def Let_def by (auto simp: sets_part_def split: bind_splits)
  ultimately show ?thesis using cases inv_sets_part [of st' st1]
    by (auto simp: storage_inv_def slots_ok_def active_ok_def ids)
qed

section \<open>Reachable storages\<close>

text \<open>What the decoder does with the storage of parameter sets, on any streams and with any results
  of the allocator.\<close>

inductive storage_step :: "storage \<Rightarrow> storage \<Rightarrow> bool" where
  sps: "h264bsdDecodeSeqParamSet g v s = Some (HANTRO_OK, sps, s') \<Longrightarrow>
    h264bsdStoreSeqParamSet got st sps = Some (ret, st') \<Longrightarrow> storage_step st st'"
| pps: "h264bsdDecodePicParamSet g s = Some (HANTRO_OK, pps, s') \<Longrightarrow>
    h264bsdStorePicParamSet got st pps = Some (ret, st') \<Longrightarrow> storage_step st st'"
| start: "ActivateForPicture sizeofMb fresh heap strm nal n st = Some (freed, code, st', heap') \<Longrightarrow> storage_step st st'"

lemma storage_step_inv: "storage_step st st' \<Longrightarrow> storage_inv st \<Longrightarrow> storage_inv st'"
proof (induction rule: storage_step.induct)
  case (sps g v s sps s' got st ret st')
  from sps_parsed [OF sps(1)] have "unat (seqParameterSetId sps) < 32" by (simp add: sps_accepted_def)
  with sps show ?case using StoreSeqParamSet_inv by blast
next
  case (pps g s pps s' got st ret st')
  with pps_ids_parsed [OF pps(1)] show ?case using StorePicParamSet_inv by blast
next
  case (start sizeofMb fresh heap strm nal n st freed code st' heap')
  then show ?case using ActivateForPicture_inv by blast
qed

lemma reachable_inv: "storage_step\<^sup>*\<^sup>* h264bsdInitStorage st \<Longrightarrow> storage_inv st"
  by (induction rule: rtranclp_induct) (auto intro: InitStorage_inv storage_step_inv)

end
