(* ===== verification/H264MbProps.thy ===== *)
theory H264MbProps
  imports H264StorageFacts H264ParamProps
begin

text \<open>
  Properties of residual blocks, the macroblock layer, neighbouring blocks and the storage.
\<close>

section \<open>Sample storages\<close>

definition pps3 :: picParamSet where
  "pps3 = pps1"

lemma pps3_decoded:
  "map_option (\<lambda>(ret, h, s). (ret, h)) (h264bsdDecodePicParamSet True (sample_stream [0xCE, 0x38, 0x80]))
    = Some (HANTRO_OK, pps3)"
  by code_simp

definition storage1 :: storage where
  "storage1 = h264bsdInitStorage\<lparr>spsSets := (replicate 32 None)[0 := Some sps3]\<rparr>"

definition storage2 :: storage where
  "storage2 = storage1\<lparr>ppsSets := (replicate 256 None)[0 := Some pps3]\<rparr>"

definition storage3 :: storage where
  "storage3 = storage2\<lparr>currentPicId := 7, activePpsId := 0, activePps := Some 0, activeSpsId := 0, activeSps := Some 0,
     picSizeInMbs := 1, imageWidth := 1, imageHeight := 1, pendingActivation := True, oldSpsId := 0\<rparr>"

lemma storage1_stored: "h264bsdStoreSeqParamSet True h264bsdInitStorage sps3 = Some (HANTRO_OK, storage1)"
  by code_simp

lemma storage2_stored: "h264bsdStorePicParamSet True storage1 pps3 = Some (HANTRO_OK, storage2)"
  by code_simp

lemma storage3_activated:
  "ActivateForPicture 216 (\<lambda>i. 0) [] header1 idr1 7 storage2 = Some ([], Some H264BSD_HDRS_RDY, storage3, [])"
  by code_simp

definition sps_huge :: seqParamSet where
  "sps_huge = sps3\<lparr>picWidthInMbs := 32768, picHeightInMbs := 16384, maxDpbSize := 1\<rparr>"

lemma sps_huge_decoded:
  "map_option (\<lambda>(ret, h, s). (ret, h))
     (h264bsdDecodeSeqParamSet True True (sample_stream [0x42, 0x00, 0x0A, 0xDA, 0, 0, 0x80, 0, 0, 2, 0, 4, 0x40]))
    = Some (HANTRO_OK, sps_huge)"
  by code_simp

section \<open>Macroblocks\<close>

text \<open>C35. A residual block of 4, 15 or 16 coefficients is decoded on every good stream without
  undefined behaviour, if the array holds the block and, for a block of 15, one entry more. No entry
  outside the block changes, except that entry behind a block of 15; and unless the block is
  rejected, that one changes only when the result reports a coefficient at position 15, its top
  bit. Unless an error is reported the stream is good again, the result holds the number of
  coefficients, at most that of the block, and the map of their positions, and every coefficient is
  nonzero and below 4096 in magnitude. (The instance below writes behind a block of 15.)\<close>

theorem residual_block_in_bounds:
  assumes "strm_ok s" "maxNum \<in> {4, 15, 16}" "off + (if maxNum = 15 then 16 else unat maxNum) \<le> length cs"
  shows "\<exists>ret cs' s'. h264bsdDecodeResidualBlockCavlc s cs off nc maxNum = Some (ret, cs', s')
    \<and> length cs' = length cs
    \<and> (\<forall>k. (k < off \<or> off + unat maxNum \<le> k) \<and> cs' ! k \<noteq> cs ! k
          \<longrightarrow> maxNum = 15 \<and> k = off + 15 \<and> (ret = HANTRO_NOK \<or> bit ret 31))
    \<and> (ret = HANTRO_NOK \<or> strm_ok s' \<and> block_result off (room maxNum) maxNum cs cs' ret)"
proof -
  have rm: "off + room maxNum \<le> length cs" using assms(2,3) by (auto simp: room_def)
  from ResidualBlock_spec [OF assms(1,2) rm, of nc] obtain ret cs' s' where
    d: "h264bsdDecodeResidualBlockCavlc s cs off nc maxNum = Some (ret, cs', s')" "outside_same off (room maxNum) cs cs'"
      "ret = HANTRO_NOK \<or> strm_ok s' \<and> block_result off (room maxNum) maxNum cs cs' ret" by blast
  have "maxNum = 15 \<and> k = off + 15 \<and> (ret = HANTRO_NOK \<or> bit ret 31)"
    if k: "k < off \<or> off + unat maxNum \<le> k" "cs' ! k \<noteq> cs ! k" for k
  proof (cases "ret = HANTRO_NOK")
    case True
    note outside_sameD [OF d(2) k(2)]
    with True assms(2) k(1) show ?thesis by (auto simp: room_def split: if_splits)
  next
    case False
    with d(3) have "block_result off (room maxNum) maxNum cs cs' ret" by simp
    from block_result_behind [OF this assms(2) d(2) k] show ?thesis by simp
  qed
  moreover have "length cs' = length cs" using d(2) by (simp add: outside_same_def)
  ultimately show ?thesis using d(1,3) by blast
qed

text \<open>One coefficient with 15 zeros before it, in a block of 15 at offset 2: it is stored in entry 17.\<close>

lemma block15_overruns:
  "map_option (\<lambda>(ret, cs, s). (ret, cs)) (h264bsdDecodeResidualBlockCavlc (sample_stream [0x40, 0x10, 0, 0, 0, 0]) (replicate 20 0) 2 0 15)
    = Some (0x80000010, (replicate 20 0)[17 := 1])"
  by code_simp

theorem residual_block_in_bounds_witness:
  "\<exists>s'. h264bsdDecodeResidualBlockCavlc (sample_stream [0x40, 0x10, 0, 0, 0, 0]) (replicate 20 0) 2 0 15
      = Some (0x80000010, (replicate 20 0)[17 := 1], s') \<and> strm_ok s'
    \<and> block_result 2 16 15 (replicate 20 0) ((replicate 20 0)[17 := 1]) 0x80000010 \<and> bit (0x80000010 :: u32) 31"
proof -
  from block15_overruns obtain s' where
    d: "h264bsdDecodeResidualBlockCavlc (sample_stream [0x40, 0x10, 0, 0, 0, 0]) (replicate 20 0) 2 0 15
      = Some (0x80000010, (replicate 20 0)[17 := 1], s')" by auto
  have nok: "(0x80000010 :: u32) \<noteq> HANTRO_NOK" by (simp add: HANTRO_NOK_def)
  have ok: "strm_ok (sample_stream [0x40, 0x10, 0, 0, 0, 0])" by (rule sample_ok) simp
  have "2 + (if (15 :: u32) = 15 then 16 else unat (15 :: u32)) \<le> length (replicate 20 (0 :: int))" by simp
  from residual_block_in_bounds [OF ok _ this, of 0] obtain ret cs' t where
    r: "h264bsdDecodeResidualBlockCavlc (sample_stream [0x40, 0x10, 0, 0, 0, 0]) (replicate 20 0) 2 0 15 = Some (ret, cs', t)"
      "\<forall>k. (k < 2 \<or> 2 + unat (15 :: u32) \<le> k) \<and> cs' ! k \<noteq> replicate 20 0 ! k
          \<longrightarrow> (15 :: u32) = 15 \<and> k = 2 + 15 \<and> (ret = HANTRO_NOK \<or> bit ret 31)"
      "ret = HANTRO_NOK \<or> strm_ok t \<and> block_result 2 (room 15) 15 (replicate 20 0) cs' ret" by auto
  from r(1) d have e: "ret = 0x80000010" "cs' = (replicate 20 0)[17 := 1]" "t = s'" by simp_all
  have "bit ret 31" using spec [OF r(2), of 17] nok by (simp add: e(1,2))
  with d r(3) nok show ?thesis by (simp add: e room_def)
qed

text \<open>C36. The parser of a macroblock is total on a good stream and the macroblocks of a picture, and
  a macroblock it accepts has its type, coded block pattern, quantiser change, prediction modes,
  reference indices, sub-macroblock types and coefficients in range, with the stream good again.\<close>

theorem macroblock_layer_in_range:
  assumes "mbs_ok mbs" "i < length mbs" "strm_ok s"
  shows "\<exists>ret l s'. h264bsdDecodeMacroblockLayer mbs i st n s = Some (ret, l, s')
    \<and> (ret = HANTRO_OK \<longrightarrow> strm_ok s' \<and> layer_ok n l)"
  by (rule DecodeMacroblockLayer_spec [OF assms])

text \<open>An intra 16x16 macroblock with one coefficient.\<close>

lemma mb_decoded:
  "map_option (\<lambda>(ret, l, s). (ret, layerType l)) (h264bsdDecodeMacroblockLayer [zeroMb] 0 7 1 (sample_stream [0x5A, 0x80, 0, 0, 0, 0]))
    = Some (HANTRO_OK, 7)"
  by code_simp

theorem macroblock_layer_in_range_witness:
  "\<exists>l s'. h264bsdDecodeMacroblockLayer [zeroMb] 0 7 1 (sample_stream [0x5A, 0x80, 0, 0, 0, 0]) = Some (HANTRO_OK, l, s')
    \<and> strm_ok s' \<and> layer_ok 1 l"
proof -
  have "mbs_ok [zeroMb]" by (simp add: mbs_ok_def zeroMb_def)
  moreover have "strm_ok (sample_stream [0x5A, 0x80, 0, 0, 0, 0])" by (rule sample_ok) simp
  ultimately obtain ret l s' where d:
    "h264bsdDecodeMacroblockLayer [zeroMb] 0 7 1 (sample_stream [0x5A, 0x80, 0, 0, 0, 0]) = Some (ret, l, s')"
    "ret = HANTRO_OK \<longrightarrow> strm_ok s' \<and> layer_ok 1 l"
    using macroblock_layer_in_range [of "[zeroMb]" 0 "sample_stream [0x5A, 0x80, 0, 0, 0, 0]" 7 1] by auto
  with mb_decoded show ?thesis by auto
qed

text \<open>The check of the macroblock type wraps: type 2^32 - 6 of an intra slice is a skipped macroblock.\<close>

lemma inter_type_in_I_slice:
  "map_option (\<lambda>(ret, l, s). (ret, layerType l))
     (h264bsdDecodeMacroblockLayer [] 0 7 1 (sample_stream [0, 0, 0, 1, 0xFF, 0xFF, 0xFF, 0xF7, 0xC0, 0]))
    = Some (HANTRO_OK, P_Skip)"
  by code_simp

section \<open>Neighbouring blocks\<close>

text \<open>
  The place of a block in its macroblock, in blocks, and the block at a place next to it, as the
  standard derives it: the sixteen luma blocks lie in quarters, the four blocks of a chroma plane in
  a square. A place to the right, or of a block that is decoded later, is not available.
\<close>

definition block_side :: "nat \<Rightarrow> int" where
  "block_side b = (if b < 16 then 4 else 2)"

definition block_place :: "nat \<Rightarrow> int \<times> int" where
  "block_place b =
     (if b < 16 then (2 * int (b div 4 mod 2) + int (b mod 2), 2 * int (b div 8) + int (b mod 4 div 2))
      else (int (b mod 2), int (b mod 4 div 2)))"

definition block_index :: "nat \<Rightarrow> int \<Rightarrow> int \<Rightarrow> nat" where
  "block_index b x y =
     (if b < 16 then nat (8 * (y div 2) + 4 * (x div 2) + 2 * (y mod 2) + x mod 2)
      else b div 4 * 4 + nat (2 * y + x))"

definition block_beside :: "nat \<Rightarrow> int \<Rightarrow> int \<Rightarrow> neighbour" where
  "block_beside b dx dy =
     (let n = block_side b; x = fst (block_place b) + dx; y = snd (block_place b) + dy;
          k = block_index b (x mod n) (y mod n);
          mb = (if y < 0 then if x < 0 then MB_D else if x < n then MB_B else MB_C
                else if x < 0 then MB_A else if x < n \<and> k \<le> b then MB_CURR else MB_NA)
      in (mb, k))"

text \<open>C37. The tables of neighbouring blocks are those of the standard: the blocks to the left, above,
  above to the right and above to the left of each of the 24 blocks of a macroblock.\<close>

theorem neighbour_tables_geometry:
  assumes "b < 24"
  shows "h264bsdNeighbour4x4BlockA b = Some (block_beside b (- 1) 0)
    \<and> h264bsdNeighbour4x4BlockB b = Some (block_beside b 0 (- 1))
    \<and> h264bsdNeighbour4x4BlockC b = Some (block_beside b 1 (- 1))
    \<and> h264bsdNeighbour4x4BlockD b = Some (block_beside b (- 1) (- 1))"
proof -
  have "list_all (\<lambda>b. h264bsdNeighbour4x4BlockA b = Some (block_beside b (- 1) 0)
    \<and> h264bsdNeighbour4x4BlockB b = Some (block_beside b 0 (- 1))
    \<and> h264bsdNeighbour4x4BlockC b = Some (block_beside b 1 (- 1))
    \<and> h264bsdNeighbour4x4BlockD b = Some (block_beside b (- 1) (- 1))) [0..<24]" by code_simp
  moreover have "b \<in> set [0..<24]" using assms by simp
  ultimately show ?thesis unfolding list_all_iff by blast
qed

theorem neighbour_tables_geometry_witness:
  "h264bsdNeighbour4x4BlockC 5 = Some (MB_C, 10) \<and> block_beside 5 1 (- 1) = (MB_C, 10)"
  using neighbour_tables_geometry [of 5] by (simp add: block_beside_def block_side_def block_place_def block_index_def)

section \<open>The storage\<close>

text \<open>C38. In every storage that storing parsed parameter sets and activating them can reach, sets are
  in the slots of their identifiers, the active identifiers and pointers agree, the active picture
  parameter set refers to the active sequence parameter set, and the picture has its size.\<close>

theorem storage_consistent:
  assumes "storage_step\<^sup>*\<^sup>* h264bsdInitStorage st"
  shows "storage_inv st"
  by (rule reachable_inv [OF assms])

lemma storage3_reached: "storage_step\<^sup>*\<^sup>* h264bsdInitStorage storage3"
proof -
  from sps3_decoded obtain s1 where
    "h264bsdDecodeSeqParamSet True True (sample_stream [0x42, 0x00, 0x0A, 0xDA, 0x71]) = Some (HANTRO_OK, sps3, s1)" by auto
  then have 1: "storage_step h264bsdInitStorage storage1" by (rule storage_step.sps) (rule storage1_stored)
  from pps3_decoded obtain s2 where
    "h264bsdDecodePicParamSet True (sample_stream [0xCE, 0x38, 0x80]) = Some (HANTRO_OK, pps3, s2)" by auto
  then have 2: "storage_step storage1 storage2" by (rule storage_step.pps) (rule storage2_stored)
  from storage3_activated have 3: "storage_step storage2 storage3" by (rule storage_step.start)
  from 1 2 3 show ?thesis by (meson rtranclp.rtrancl_into_rtrancl rtranclp.rtrancl_refl)
qed

theorem storage_consistent_witness: "storage_inv storage3 \<and> activeSps storage3 = Some 0"
  using storage_consistent [OF storage3_reached] by (simp add: storage3_def)

text \<open>C39. When the second part of an activation succeeds and the picture fits into 32 bit sizes, the
  picture has its macroblocks, each with its neighbours in raster order and ready for the parser of
  macroblocks, and a slice group map of its size.\<close>

theorem activation_prepares_picture:
  assumes "storage_step\<^sup>*\<^sup>* h264bsdInitStorage st" "active_sps st = Some sps" "size_fits sizeofMb sps"
    and "CompleteActivation sizeofMb fresh heap st = Some (freed, HANTRO_OK, st', heap')"
  shows "storage_inv st' \<and> \<not> pendingActivation st' \<and> picture_memory st' sps
    \<and> (\<exists>mbs. macroblocks st' = Some mbs \<and> mbs_ok mbs)"
proof -
  note spec = CompleteActivation_spec [OF reachable_inv [OF assms(1)] assms(2-4)]
  let ?n = "unat (picWidthInMbs sps) * unat (picHeightInMbs sps)"
  let ?mbs = "map (\<lambda>k. raster_neighbours (unat (picWidthInMbs sps)) k zeroMb) [0..<?n]"
  have "mbs_ok (map (\<lambda>k. raster_neighbours (unat (picWidthInMbs sps)) k (replicate ?n zeroMb ! k)) [0..<?n])"
    by (rule raster_mbs_ok) (simp_all add: zeroMb_def)
  moreover have "map (\<lambda>k. raster_neighbours (unat (picWidthInMbs sps)) k (replicate ?n zeroMb ! k)) [0..<?n] = ?mbs"
    by (intro map_cong) auto
  ultimately have "mbs_ok ?mbs" by simp
  with spec show ?thesis by (simp add: picture_memory_def Let_def)
qed

lemma storage3_completed:
  "map_option (\<lambda>(f, ret, st, h). ret) (CompleteActivation 216 (\<lambda>i. 0) (map Some [0..<60]) storage3) = Some HANTRO_OK"
  by code_simp

theorem activation_prepares_picture_witness:
  "\<exists>st'. picture_memory st' sps3 \<and> (\<exists>mbs. macroblocks st' = Some mbs \<and> mbs_ok mbs)"
proof -
  from storage3_completed obtain f st' h where
    c: "CompleteActivation 216 (\<lambda>i. 0) (map Some [0..<60]) storage3 = Some (f, HANTRO_OK, st', h)" by auto
  have "active_sps storage3 = Some sps3" by code_simp
  moreover have "size_fits 216 sps3" by (simp add: size_fits_def sps3_def)
  ultimately show ?thesis using activation_prepares_picture [OF storage3_reached _ _ c] by blast
qed

text \<open>A size of zero bytes: the initialisation of the macroblocks leaves the memory allocated.\<close>

lemma CompleteActivation_overflow:
  assumes "active_sps st = Some sps" "picSizeInMbs st * sizeofMb = 0" "picSizeInMbs st \<noteq> 0"
  shows "CompleteActivation sizeofMb fresh (Some a # Some b # heap) st = None"
proof -
  have act: "active_sps (st\<lparr>pendingActivation := False, macroblocks := m, sliceGroupMap := g\<rparr>) = Some sps" for m g
    using assms(1) by (simp add: active_sps_def sps_at_def)
  have "h264bsdInitMbNeighbours [] w (picSizeInMbs st) = None" for w
    using assms(3) by (subst h264bsdInitMbNeighbours_def, subst InitNeighboursLoop.simps) (simp add: word_neq_0_conv rd_def)
  then show ?thesis using assms(2) by (simp add: CompleteActivation_def Let_def act)
qed

definition storage4 :: storage where
  "storage4 = storage3\<lparr>spsSets := (replicate 32 None)[0 := Some sps_huge], picSizeInMbs := 536870912,
     imageWidth := 32768, imageHeight := 16384\<rparr>"

text \<open>C40. A sequence parameter set of 32768 by 16384 macroblocks is accepted and activated. With 216
  bytes for a macroblock the size of their memory wraps to 0, and the second part of the activation
  writes outside it.\<close>

theorem huge_picture_overflows:
  "(\<exists>s'. h264bsdDecodeSeqParamSet True True (sample_stream [0x42, 0x00, 0x0A, 0xDA, 0, 0, 0x80, 0, 0, 2, 0, 4, 0x40])
        = Some (HANTRO_OK, sps_huge, s'))
   \<and> (\<exists>st1 st2. h264bsdStoreSeqParamSet True h264bsdInitStorage sps_huge = Some (HANTRO_OK, st1)
        \<and> h264bsdStorePicParamSet True st1 pps3 = Some (HANTRO_OK, st2)
        \<and> ActivateForPicture 216 fresh [] header1 idr1 7 st2 = Some ([], Some H264BSD_HDRS_RDY, storage4, []))
   \<and> h264bsdActivateParamSets 216 fresh (Some a # Some b # heap) storage4 0 True = None"
proof (intro conjI)
  show "\<exists>s'. h264bsdDecodeSeqParamSet True True (sample_stream [0x42, 0x00, 0x0A, 0xDA, 0, 0, 0x80, 0, 0, 2, 0, 4, 0x40])
        = Some (HANTRO_OK, sps_huge, s')"
    using sps_huge_decoded by auto
  let ?s1 = "h264bsdInitStorage\<lparr>spsSets := (replicate 32 None)[0 := Some sps_huge]\<rparr>"
  have 1: "h264bsdStoreSeqParamSet True h264bsdInitStorage sps_huge = Some (HANTRO_OK, ?s1)" by code_simp
  have 2: "h264bsdStorePicParamSet True ?s1 pps3 = Some (HANTRO_OK, ?s1\<lparr>ppsSets := (replicate 256 None)[0 := Some pps3]\<rparr>)"
    by code_simp
  have 3: "ActivateForPicture 216 fresh [] header1 idr1 7 (?s1\<lparr>ppsSets := (replicate 256 None)[0 := Some pps3]\<rparr>)
      = Some ([], Some H264BSD_HDRS_RDY, storage4, [])"
    by code_simp
  from 1 2 3 show "\<exists>st1 st2. h264bsdStoreSeqParamSet True h264bsdInitStorage sps_huge = Some (HANTRO_OK, st1)
        \<and> h264bsdStorePicParamSet True st1 pps3 = Some (HANTRO_OK, st2)
        \<and> ActivateForPicture 216 fresh [] header1 idr1 7 st2 = Some ([], Some H264BSD_HDRS_RDY, storage4, [])"
    by blast
  have "active_sps storage4 = Some sps_huge" "picSizeInMbs storage4 * 216 = 0" "picSizeInMbs storage4 \<noteq> 0" by code_simp+
  note none = CompleteActivation_overflow [OF this]
  have "rd (ppsSets storage4) 0 = Some (Some pps3)" "rd (spsSets storage4) 0 = Some (Some sps_huge)"
    "CheckPps pps3 sps_huge = Some HANTRO_OK" "activePpsId storage4 \<noteq> MAX_NUM_PIC_PARAM_SETS" "pendingActivation storage4"
    "unat (ppsSeqParameterSetId pps3) = 0" by code_simp+
  then show "h264bsdActivateParamSets 216 fresh (Some a # Some b # heap) storage4 0 True = None"
    by (simp add: h264bsdActivateParamSets_def none)
qed

end
