(* ===== verification/H264Transform.thy ===== *)
theory H264Transform
  imports H264Stream H264Poc H264DpbSort
begin

text \<open>
  The inverse scan, scaling and transforms of residual blocks (\<open>h264bsd_transform.c\<close>). A block is
  a list of 16 numbers, in the order of the scan before and of the rows after. Signed overflow is
  undefined; \<open>x >> n\<close> of a signed number rounds down.
\<close>

section \<open>Tables\<close>

definition levelScale :: "int list list" where
  "levelScale = [[10, 13, 16], [11, 14, 18], [13, 16, 20], [14, 18, 23], [16, 20, 25], [18, 23, 29]]"

definition qpMod6 :: "nat list" where
  "qpMod6 = [0,1,2,3,4,5,0,1,2,3,4,5,0,1,2,3,4,5,0,1,2,3,4,5,
     0,1,2,3,4,5,0,1,2,3,4,5,0,1,2,3,4,5,0,1,2,3,4,5,0,1,2,3]"

definition qpDiv6 :: "nat list" where
  "qpDiv6 = [0,0,0,0,0,0,1,1,1,1,1,1,2,2,2,2,2,2,3,3,3,3,3,3,
     4,4,4,4,4,4,5,5,5,5,5,5,6,6,6,6,6,6,7,7,7,7,7,7,8,8,8,8]"

definition Scale :: "nat \<Rightarrow> nat \<Rightarrow> int option" where
  "Scale qp k = do { m \<leftarrow> rd qpMod6 qp; row \<leftarrow> rd levelScale m; rd row k }"

section \<open>Steps\<close>

text \<open>Results of signed arithmetic.\<close>

fun chk_all :: "int list \<Rightarrow> int list option" where
  "chk_all [] = Some []"
| "chk_all (x # xs) = do { y \<leftarrow> chk x; ys \<leftarrow> chk_all xs; Some (y # ys) }"

definition asr :: "int \<Rightarrow> nat \<Rightarrow> int" where
  "asr x n = x div 2 ^ n"

text \<open>One row or column of the transform of a block, and of the transform of DC coefficients.\<close>

definition Butterfly :: "int \<Rightarrow> int \<Rightarrow> int \<Rightarrow> int \<Rightarrow> int list option" where
  "Butterfly p0 p1 p2 p3 =
     do {
       tmp0 \<leftarrow> chk (p0 + p2);
       tmp1 \<leftarrow> chk (p0 - p2);
       tmp2 \<leftarrow> chk (asr p1 1 - p3);
       tmp3 \<leftarrow> chk (p1 + asr p3 1);
       chk_all [tmp0 + tmp3, tmp1 + tmp2, tmp1 - tmp2, tmp0 - tmp3]
     }"

definition DcButterfly :: "int \<Rightarrow> int \<Rightarrow> int \<Rightarrow> int \<Rightarrow> int list option" where
  "DcButterfly p0 p1 p2 p3 =
     do {
       tmp0 \<leftarrow> chk (p0 + p2);
       tmp1 \<leftarrow> chk (p0 - p2);
       tmp2 \<leftarrow> chk (p1 - p3);
       tmp3 \<leftarrow> chk (p1 + p3);
       chk_all [tmp0 + tmp3, tmp1 + tmp2, tmp1 - tmp2, tmp0 - tmp3]
     }"

text \<open>\<open>f\<close> on a row of a block, on a column, and on all rows.\<close>

definition OnPlaces :: "(int \<Rightarrow> int \<Rightarrow> int \<Rightarrow> int \<Rightarrow> int list option) \<Rightarrow> nat \<Rightarrow> nat \<Rightarrow> nat \<Rightarrow> nat \<Rightarrow> int list \<Rightarrow> int list option" where
  "OnPlaces f i j k l d =
     do {
       r \<leftarrow> f (d ! i) (d ! j) (d ! k) (d ! l);
       Some (d[i := r ! 0, j := r ! 1, k := r ! 2, l := r ! 3])
     }"

definition OnRow :: "(int \<Rightarrow> int \<Rightarrow> int \<Rightarrow> int \<Rightarrow> int list option) \<Rightarrow> nat \<Rightarrow> int list \<Rightarrow> int list option" where
  "OnRow f i = OnPlaces f (4 * i) (4 * i + 1) (4 * i + 2) (4 * i + 3)"

definition OnColumn :: "(int \<Rightarrow> int \<Rightarrow> int \<Rightarrow> int \<Rightarrow> int list option) \<Rightarrow> nat \<Rightarrow> int list \<Rightarrow> int list option" where
  "OnColumn f i = OnPlaces f i (4 + i) (8 + i) (12 + i)"

definition OnRows :: "(int \<Rightarrow> int \<Rightarrow> int \<Rightarrow> int \<Rightarrow> int list option) \<Rightarrow> int list \<Rightarrow> int list option" where
  "OnRows f d = do { d \<leftarrow> OnRow f 0 d; d \<leftarrow> OnRow f 1 d; d \<leftarrow> OnRow f 2 d; OnRow f 3 d }"

text \<open>\<open>(x + 32) >> 6\<close>, and the check of the range.\<close>

definition Rounded :: "int list \<Rightarrow> int list option" where
  "Rounded d = do { d \<leftarrow> chk_all (map (\<lambda>x. x + 32) d); Some (map (\<lambda>x. asr x 6) d) }"

definition OutOfRange :: "int \<Rightarrow> bool" where
  "OutOfRange x \<longleftrightarrow> (word_of_int (x + 512) :: u32) > 1023"

definition RoundedButterfly :: "int \<Rightarrow> int \<Rightarrow> int \<Rightarrow> int \<Rightarrow> int list option" where
  "RoundedButterfly p0 p1 p2 p3 = do { r \<leftarrow> Butterfly p0 p1 p2 p3; Rounded r }"

section \<open>A block\<close>

text \<open>Inverse scan and scaling; \<open>d ! 0\<close> is scaled before.\<close>

definition ScanAndScale :: "int \<Rightarrow> int \<Rightarrow> int \<Rightarrow> int list \<Rightarrow> int list option" where
  "ScanAndScale tmp1 tmp2 tmp3 d = chk_all
    [d ! 0, d ! 1 * tmp2, d ! 5 * tmp1, d ! 6 * tmp2,
     d ! 2 * tmp2, d ! 4 * tmp3, d ! 7 * tmp2, d ! 12 * tmp3,
     d ! 3 * tmp1, d ! 8 * tmp2, d ! 11 * tmp1, d ! 13 * tmp2,
     d ! 9 * tmp2, d ! 10 * tmp3, d ! 14 * tmp2, d ! 15 * tmp3]"

text \<open>The columns, up to the first that is out of range.\<close>

fun Columns :: "nat \<Rightarrow> nat \<Rightarrow> int list \<Rightarrow> (u32 \<times> int list) option" where
  "Columns i 0 d = Some (HANTRO_OK, d)"
| "Columns i (Suc n) d =
     do {
       d \<leftarrow> OnColumn RoundedButterfly i d;
       if OutOfRange (d ! i) \<or> OutOfRange (d ! (4 + i)) \<or> OutOfRange (d ! (8 + i)) \<or> OutOfRange (d ! (12 + i))
       then Some (HANTRO_NOK, d)
       else Columns (Suc i) n d
     }"

definition FullBlock :: "int \<Rightarrow> int \<Rightarrow> int \<Rightarrow> int list \<Rightarrow> (u32 \<times> int list) option" where
  "FullBlock tmp1 tmp2 tmp3 d =
     do {
       d \<leftarrow> ScanAndScale tmp1 tmp2 tmp3 d;
       d \<leftarrow> OnRows Butterfly d;
       Columns 0 4 d
     }"

definition DcBlock :: "int list \<Rightarrow> (u32 \<times> int list) option" where
  "DcBlock d =
     do {
       t \<leftarrow> Rounded [d ! 0];
       Some (if OutOfRange (t ! 0) then (HANTRO_NOK, d) else (HANTRO_OK, replicate 16 (t ! 0)))
     }"

definition TopRowBlock :: "int \<Rightarrow> int \<Rightarrow> int list \<Rightarrow> (u32 \<times> int list) option" where
  "TopRowBlock tmp1 tmp2 d =
     do {
       s \<leftarrow> chk_all [d ! 1 * tmp2, d ! 5 * tmp1, d ! 6 * tmp2];
       r \<leftarrow> RoundedButterfly (d ! 0) (s ! 0) (s ! 1) (s ! 2);
       let d = r @ r @ r @ r;
       Some (if OutOfRange (d ! 0) \<or> OutOfRange (d ! 1) \<or> OutOfRange (d ! 2) \<or> OutOfRange (d ! 3)
             then HANTRO_NOK else HANTRO_OK, d)
     }"

definition h264bsdProcessBlock :: "int list \<Rightarrow> nat \<Rightarrow> bool \<Rightarrow> u32 \<Rightarrow> (u32 \<times> int list) option" where
  "h264bsdProcessBlock blk qp skip coeffMap =
     (if length blk \<noteq> 16 then None
      else do {
        qpDiv \<leftarrow> rd qpDiv6 qp;
        s1 \<leftarrow> Scale qp 0;
        s2 \<leftarrow> Scale qp 1;
        s3 \<leftarrow> Scale qp 2;
        let tmp1 = s1 * 2 ^ qpDiv;
        let tmp2 = s2 * 2 ^ qpDiv;
        let tmp3 = s3 * 2 ^ qpDiv;
        dc \<leftarrow> (if skip then Some (blk ! 0) else chk (blk ! 0 * tmp1));
        let blk = blk[0 := dc];
        if coeffMap AND 0xFF9C \<noteq> 0 then FullBlock tmp1 tmp2 tmp3 blk
        else if coeffMap AND 0x62 = 0 then DcBlock blk
        else TopRowBlock tmp1 tmp2 blk
      })"

section \<open>Blocks of DC coefficients\<close>

definition DcScan :: "int list \<Rightarrow> int list" where
  "DcScan d = [d ! 0, d ! 1, d ! 5, d ! 6, d ! 2, d ! 4, d ! 7, d ! 12,
     d ! 3, d ! 8, d ! 11, d ! 13, d ! 9, d ! 10, d ! 14, d ! 15]"

definition ScaledDc :: "nat \<Rightarrow> nat \<Rightarrow> int \<Rightarrow> int \<Rightarrow> int \<Rightarrow> int \<Rightarrow> int \<Rightarrow> int list option" where
  "ScaledDc qp qpDiv levScale p0 p1 p2 p3 =
     do {
       r \<leftarrow> DcButterfly p0 p1 p2 p3;
       if qp \<ge> 12 then chk_all (map (\<lambda>x. x * (levScale * 2 ^ (qpDiv - 2))) r)
       else do {
         r \<leftarrow> chk_all (map (\<lambda>x. x * levScale) r);
         r \<leftarrow> chk_all (map (\<lambda>x. x + (if qpDiv = 1 then 1 else 2)) r);
         Some (map (\<lambda>x. asr x (2 - qpDiv)) r)
       }
     }"

definition h264bsdProcessLumaDc :: "int list \<Rightarrow> nat \<Rightarrow> int list option" where
  "h264bsdProcessLumaDc blk qp =
     (if length blk \<noteq> 16 then None
      else do {
        qpDiv \<leftarrow> rd qpDiv6 qp;
        levScale \<leftarrow> Scale qp 0;
        blk \<leftarrow> OnRows DcButterfly (DcScan blk);
        blk \<leftarrow> OnColumn (ScaledDc qp qpDiv levScale) 0 blk;
        blk \<leftarrow> OnColumn (ScaledDc qp qpDiv levScale) 1 blk;
        blk \<leftarrow> OnColumn (ScaledDc qp qpDiv levScale) 2 blk;
        OnColumn (ScaledDc qp qpDiv levScale) 3 blk
      })"

definition ChromaDcHalf :: "int \<Rightarrow> nat \<Rightarrow> int \<Rightarrow> int \<Rightarrow> int \<Rightarrow> int \<Rightarrow> int list option" where
  "ChromaDcHalf levScale levShift d0 d1 d2 d3 =
     do {
       tmp0 \<leftarrow> chk (d0 + d2);
       tmp1 \<leftarrow> chk (d0 - d2);
       tmp2 \<leftarrow> chk (d1 - d3);
       tmp3 \<leftarrow> chk (d1 + d3);
       r \<leftarrow> chk_all [tmp0 + tmp3, tmp0 - tmp3, tmp1 + tmp2, tmp1 - tmp2];
       r \<leftarrow> chk_all (map (\<lambda>x. x * levScale) r);
       Some (map (\<lambda>x. asr x levShift) r)
     }"

definition h264bsdProcessChromaDc :: "int list \<Rightarrow> nat \<Rightarrow> int list option" where
  "h264bsdProcessChromaDc blk qp =
     (if length blk < 8 then None
      else do {
        qpDiv \<leftarrow> rd qpDiv6 qp;
        s \<leftarrow> Scale qp 0;
        let levScale = (if qp \<ge> 6 then s * 2 ^ (qpDiv - 1) else s);
        let levShift = (if qp \<ge> 6 then 0 else 1);
        a \<leftarrow> ChromaDcHalf levScale levShift (blk ! 0) (blk ! 1) (blk ! 2) (blk ! 3);
        b \<leftarrow> ChromaDcHalf levScale levShift (blk ! 4) (blk ! 5) (blk ! 6) (blk ! 7);
        Some (a @ b @ drop 8 blk)
      })"

end
