(* ===== verification/H264TransformFacts.thy ===== *)
theory H264TransformFacts
  imports H264Transform
begin

text \<open>
  The transforms of a residual block are those of the standard (clauses 8.5.6, 8.5.8 and 8.5.12), and
  no signed arithmetic overflows: a coefficient is below 4096 and a quantiser parameter below 52.
\<close>

section \<open>The standard\<close>

text \<open>The place of each coefficient of a block in its scan, as row and column.\<close>

definition zigzag :: "(nat \<times> nat) list" where
  "zigzag = [(0, 0), (0, 1), (1, 0), (2, 0), (1, 1), (0, 2), (0, 3), (1, 2),
     (2, 1), (3, 0), (3, 1), (2, 2), (1, 3), (2, 3), (3, 2), (3, 3)]"

definition scan_index :: "nat \<Rightarrow> nat \<Rightarrow> nat" where
  "scan_index i j = the (List.find (\<lambda>k. zigzag ! k = (i, j)) [0..<16])"

definition norm_adjust :: "nat \<Rightarrow> nat \<Rightarrow> nat \<Rightarrow> int" where
  "norm_adjust m i j =
     (if even i \<and> even j then [10, 11, 13, 14, 16, 18] ! m
      else if odd i \<and> odd j then [16, 18, 20, 23, 25, 29] ! m
      else [13, 14, 16, 18, 20, 23] ! m)"

text \<open>The one-dimensional transforms: the \<open>k\<close>-th of the four results.\<close>

definition tap :: "int \<Rightarrow> int \<Rightarrow> int \<Rightarrow> int \<Rightarrow> nat \<Rightarrow> int" where
  "tap p0 p1 p2 p3 k =
     (let e0 = p0 + p2; e1 = p0 - p2; e2 = p1 div 2 - p3; e3 = p1 + p3 div 2
      in if k = 0 then e0 + e3 else if k = 1 then e1 + e2 else if k = 2 then e1 - e2 else e0 - e3)"

definition hadamard :: "nat \<Rightarrow> nat \<Rightarrow> int" where
  "hadamard k l = [[1, 1, 1, 1], [1, 1, - 1, - 1], [1, - 1, - 1, 1], [1, - 1, 1, - 1]] ! k ! l"

text \<open>The residual of a block: scaling, rows, columns, rounding.\<close>

definition scaled :: "int list \<Rightarrow> nat \<Rightarrow> bool \<Rightarrow> nat \<Rightarrow> nat \<Rightarrow> int" where
  "scaled c qp skip i j =
     (if i = 0 \<and> j = 0 \<and> skip then c ! 0
      else c ! scan_index i j * norm_adjust (qp mod 6) i j * 2 ^ (qp div 6))"

definition row_transformed :: "int list \<Rightarrow> nat \<Rightarrow> bool \<Rightarrow> nat \<Rightarrow> nat \<Rightarrow> int" where
  "row_transformed c qp skip i j =
     tap (scaled c qp skip i 0) (scaled c qp skip i 1) (scaled c qp skip i 2) (scaled c qp skip i 3) j"

definition residual_sample :: "int list \<Rightarrow> nat \<Rightarrow> bool \<Rightarrow> nat \<Rightarrow> nat \<Rightarrow> int" where
  "residual_sample c qp skip i j =
     (tap (row_transformed c qp skip 0 j) (row_transformed c qp skip 1 j)
        (row_transformed c qp skip 2 j) (row_transformed c qp skip 3 j) i + 32) div 64"

definition in_range :: "int \<Rightarrow> bool" where
  "in_range x \<longleftrightarrow> - 512 \<le> x \<and> x \<le> 511"

text \<open>A block by rows.\<close>

definition grid :: "(nat \<Rightarrow> nat \<Rightarrow> int) \<Rightarrow> int list" where
  "grid w = [w 0 0, w 0 1, w 0 2, w 0 3, w 1 0, w 1 1, w 1 2, w 1 3,
     w 2 0, w 2 1, w 2 2, w 2 3, w 3 0, w 3 1, w 3 2, w 3 3]"

definition residual_block :: "int list \<Rightarrow> nat \<Rightarrow> bool \<Rightarrow> int list" where
  "residual_block c qp skip = grid (residual_sample c qp skip)"

section \<open>Tables\<close>

lemma qp_tables:
  assumes "qp < 52"
  shows "rd qpDiv6 qp = Some (qp div 6)" "rd qpMod6 qp = Some (qp mod 6)"
proof -
  have "list_all (\<lambda>q. rd qpDiv6 q = Some (q div 6) \<and> rd qpMod6 q = Some (q mod 6)) [0..<52]" by code_simp
  moreover have "qp \<in> set [0..<52]" using assms by simp
  ultimately show "rd qpDiv6 qp = Some (qp div 6)" "rd qpMod6 qp = Some (qp mod 6)"
    unfolding list_all_iff by blast+
qed

lemma Scale_table:
  assumes "qp < 52"
  shows "Scale qp 0 = Some (norm_adjust (qp mod 6) 0 0)" "Scale qp 1 = Some (norm_adjust (qp mod 6) 0 1)"
    "Scale qp 2 = Some (norm_adjust (qp mod 6) 1 1)"
proof -
  have "list_all (\<lambda>q. Scale q 0 = Some (norm_adjust (q mod 6) 0 0) \<and> Scale q 1 = Some (norm_adjust (q mod 6) 0 1)
    \<and> Scale q 2 = Some (norm_adjust (q mod 6) 1 1)) [0..<52]" by code_simp
  moreover have "qp \<in> set [0..<52]" using assms by simp
  ultimately show "Scale qp 0 = Some (norm_adjust (qp mod 6) 0 0)" "Scale qp 1 = Some (norm_adjust (qp mod 6) 0 1)"
    "Scale qp 2 = Some (norm_adjust (qp mod 6) 1 1)" unfolding list_all_iff by blast+
qed

lemma factor_bound:
  assumes "qp < 52"
  shows "0 < norm_adjust (qp mod 6) i j * 2 ^ (qp div 6)" "norm_adjust (qp mod 6) i j * 2 ^ (qp div 6) \<le> 7424"
proof -
  have "list_all (\<lambda>q. list_all (\<lambda>(i, j). 0 < norm_adjust (q mod 6) i j * 2 ^ (q div 6)
    \<and> norm_adjust (q mod 6) i j * 2 ^ (q div 6) \<le> 7424) [(0, 0), (0, 1), (1, 0), (1, 1)]) [0..<52]" by code_simp
  moreover have "qp \<in> set [0..<52]" using assms by simp
  moreover have "(i mod 2, j mod 2) \<in> set [(0, 0), (0, 1), (1, 0), (1, 1)]" by auto
  moreover have "norm_adjust m (i mod 2) (j mod 2) = norm_adjust m i j" for m by (simp add: norm_adjust_def)
  ultimately show "0 < norm_adjust (qp mod 6) i j * 2 ^ (qp div 6)" "norm_adjust (qp mod 6) i j * 2 ^ (qp div 6) \<le> 7424"
    unfolding list_all_iff by fastforce+
qed

section \<open>Bounds of the steps\<close>

definition within :: "int \<Rightarrow> int \<Rightarrow> bool" where
  "within b x \<longleftrightarrow> - b \<le> x \<and> x \<le> b"

lemma chk_within: "within b x \<Longrightarrow> b < 2 ^ 31 \<Longrightarrow> chk x = Some x"
  by (simp add: chk_def within_def)

lemma chk_all_within:
  assumes "\<And>x. x \<in> set xs \<Longrightarrow> within b x" "b < 2 ^ 31"
  shows "chk_all xs = Some xs"
  using assms(1) by (induction xs) (simp_all add: chk_within [OF _ assms(2)])

lemma within_mono: "within b x \<Longrightarrow> b \<le> c \<Longrightarrow> within c x"
  by (simp add: within_def)

lemma within_mult: "within a x \<Longrightarrow> 0 \<le> f \<Longrightarrow> f \<le> g \<Longrightarrow> within (a * g) (x * f)"
  unfolding within_def
  by (smt (verit) mult_left_mono mult_mono mult_minus_left mult_right_mono)

lemma half_within: "within (2 * b) p \<Longrightarrow> within b (p div 2)"
  by (simp add: within_def) linarith

lemma tap_within:
  assumes "within (2 * b) p0" "within (2 * b) p1" "within (2 * b) p2" "within (2 * b) p3"
  shows "within (7 * b) (tap p0 p1 p2 p3 k)"
proof -
  obtain q1 q3 where q: "p1 div 2 = q1" "p3 div 2 = q3" "within b q1" "within b q3"
    using half_within [OF assms(2)] half_within [OF assms(4)] by blast
  with assms show ?thesis unfolding within_def tap_def Let_def q by (auto split: if_splits)
qed

lemma Butterfly_tap:
  assumes "within (2 * b) p0" "within (2 * b) p1" "within (2 * b) p2" "within (2 * b) p3" "7 * b < 2 ^ 31"
  shows "Butterfly p0 p1 p2 p3 = Some (map (tap p0 p1 p2 p3) [0, 1, 2, 3])"
proof -
  have e: "within (4 * b) (p0 + p2)" "within (4 * b) (p0 - p2)" "within (3 * b) (p1 div 2 - p3)" "within (3 * b) (p1 + p3 div 2)"
    using assms(1-4) half_within [OF assms(2)] half_within [OF assms(4)] by (simp_all add: within_def)
  have "0 \<le> b" using assms(1) by (simp add: within_def)
  then have l: "4 * b < 2 ^ 31" "3 * b < 2 ^ 31" using assms(5) by simp_all
  have "chk_all (map (tap p0 p1 p2 p3) [0, 1, 2, 3]) = Some (map (tap p0 p1 p2 p3) [0, 1, 2, 3])"
    using tap_within [OF assms(1-4)] assms(5) by (intro chk_all_within [of _ "7 * b"]) auto
  then show ?thesis using e l by (simp add: Butterfly_def asr_def chk_within [of "4 * b"] chk_within [of "3 * b"] tap_def)
qed


section \<open>Rows and columns\<close>

lemma below_4: "i < (4 :: nat) \<Longrightarrow> i = 0 \<or> i = 1 \<or> i = 2 \<or> i = 3"
  by linarith

lemma all_below_4: "(\<forall>i < (4 :: nat). P i) \<longleftrightarrow> P 0 \<and> P 1 \<and> P 2 \<and> P 3"
  using below_4 by (auto simp: numeral_eq_Suc)

lemma grid_nth: "i < 4 \<Longrightarrow> j < 4 \<Longrightarrow> grid w ! (4 * i + j) = w i j"
  by (elim below_4 [THEN disjE] disjE) (simp_all add: grid_def)

lemma length_grid [simp]: "length (grid w) = 16"
  by (simp add: grid_def)

lemma grid_cong: "(\<And>i j. i < 4 \<Longrightarrow> j < 4 \<Longrightarrow> v i j = w i j) \<Longrightarrow> grid v = grid w"
  by (simp add: grid_def)

lemma OnRow_grid:
  assumes "i < 4" "f (w i 0) (w i 1) (w i 2) (w i 3) = Some (map g [0, 1, 2, 3])"
  shows "OnRow f i (grid w) = Some (grid (w(i := g)))"
  using below_4 [OF assms(1)] assms(2) by (elim disjE) (simp_all add: OnRow_def OnPlaces_def grid_def)

lemma OnColumn_grid:
  assumes "j < 4" "f (w 0 j) (w 1 j) (w 2 j) (w 3 j) = Some (map g [0, 1, 2, 3])"
  shows "OnColumn f j (grid w) = Some (grid (\<lambda>i. (w i)(j := g i)))"
  using below_4 [OF assms(1)] assms(2) by (elim disjE) (simp_all add: OnColumn_def OnPlaces_def grid_def)

lemma OnRows_grid:
  assumes "\<And>i. i < 4 \<Longrightarrow> f (w i 0) (w i 1) (w i 2) (w i 3) = Some (map (g i) [0, 1, 2, 3])"
  shows "OnRows f (grid w) = Some (grid g)"
proof -
  have "OnRow f 0 (grid w) = Some (grid (w(0 := g 0)))" using assms [of 0] by (intro OnRow_grid) simp_all
  moreover have "OnRow f 1 (grid (w(0 := g 0))) = Some (grid (w(0 := g 0, 1 := g 1)))"
    using assms [of 1] by (intro OnRow_grid) simp_all
  moreover have "OnRow f 2 (grid (w(0 := g 0, 1 := g 1))) = Some (grid (w(0 := g 0, 1 := g 1, 2 := g 2)))"
    using assms [of 2] by (intro OnRow_grid) simp_all
  moreover have "OnRow f 3 (grid (w(0 := g 0, 1 := g 1, 2 := g 2))) = Some (grid (w(0 := g 0, 1 := g 1, 2 := g 2, 3 := g 3)))"
    using assms [of 3] by (intro OnRow_grid) simp_all
  moreover have "grid (w(0 := g 0, 1 := g 1, 2 := g 2, 3 := g 3)) = grid g" by (simp add: grid_def)
  ultimately show ?thesis by (simp add: OnRows_def)
qed

section \<open>A block\<close>

lemma OutOfRange_iff:
  assumes "within (2 ^ 30) x"
  shows "OutOfRange x \<longleftrightarrow> \<not> in_range x"
proof -
  have u: "uint (word_of_int (x + 512) :: u32) = (x + 512) mod 2 ^ 32"
    by (subst uint_word_of_int) simp
  have "(x + 512) mod 2 ^ 32 = (if 0 \<le> x + 512 then x + 512 else x + 512 + 2 ^ 32)"
  proof (cases "0 \<le> x + 512")
    case False
    have "(x + 512) mod 2 ^ 32 = (x + 512 + 2 ^ 32) mod 2 ^ 32"
      by (rule mod_add_self2 [symmetric])
    also have "\<dots> = x + 512 + 2 ^ 32" using assms False by (simp add: within_def)
    finally show ?thesis using False by simp
  qed (use assms in \<open>simp add: within_def\<close>)
  then show ?thesis using assms unfolding OutOfRange_def word_less_def u by (simp add: in_range_def within_def) linarith
qed

lemma Rounded_within:
  assumes "\<And>x. x \<in> set xs \<Longrightarrow> within b x" "b + 32 < 2 ^ 31"
  shows "Rounded xs = Some (map (\<lambda>x. (x + 32) div 64) xs)"
proof -
  have "chk_all (map (\<lambda>x. x + 32) xs) = Some (map (\<lambda>x. x + 32) xs)"
    using assms by (intro chk_all_within [of _ "b + 32"]) (force simp: within_def)+
  then show ?thesis by (simp add: Rounded_def asr_def o_def)
qed

lemma RoundedButterfly_tap:
  assumes "within (2 * b) p0" "within (2 * b) p1" "within (2 * b) p2" "within (2 * b) p3" "7 * b + 32 < 2 ^ 31"
  shows "RoundedButterfly p0 p1 p2 p3 = Some (map (\<lambda>k. (tap p0 p1 p2 p3 k + 32) div 64) [0, 1, 2, 3])"
proof -
  have "Rounded (map (tap p0 p1 p2 p3) [0, 1, 2, 3]) = Some (map (\<lambda>x. (x + 32) div 64) (map (tap p0 p1 p2 p3) [0, 1, 2, 3]))"
    using tap_within [OF assms(1-4)] assms(5) by (intro Rounded_within [of _ "7 * b"]) auto
  then show ?thesis using Butterfly_tap [OF assms(1-4)] assms(5) by (simp add: RoundedButterfly_def o_def)
qed

lemma div_64_within: "within b x \<Longrightarrow> b \<le> 2 ^ 30 * 64 - 64 \<Longrightarrow> within (2 ^ 30) ((x + 32) div 64)"
  by (simp add: within_def) linarith

text \<open>A result is the good one if there is one, and an error if not.\<close>

definition answers :: "(u32 \<times> int list) option \<Rightarrow> bool \<Rightarrow> int list \<Rightarrow> bool" where
  "answers r good out \<longleftrightarrow>
     (case r of None \<Rightarrow> False | Some (ret, d) \<Rightarrow> if good then ret = HANTRO_OK \<and> d = out else ret = HANTRO_NOK)"

lemma Columns_grid:
  assumes "\<And>i k. i < 4 \<Longrightarrow> k < 4 \<Longrightarrow> within (7 * 2 ^ 26) (f i k)"
    and "\<And>i k. R i k = (tap (f 0 k) (f 1 k) (f 2 k) (f 3 k) i + 32) div 64"
    and "j + n = 4" "\<And>i k. j \<le> k \<Longrightarrow> w i k = f i k"
  shows "answers (Columns j n (grid w)) (\<forall>k. j \<le> k \<and> k < 4 \<longrightarrow> (\<forall>i < 4. in_range (R i k)))
    (grid (\<lambda>i k. if j \<le> k then R i k else w i k))"
  using assms(3,4)
proof (induction n arbitrary: j w)
  case 0
  then have "grid (\<lambda>i k. if j \<le> k then R i k else w i k) = grid w" by (intro grid_cong) simp
  then show ?case using 0 by (simp add: answers_def)
next
  case (Suc n)
  then have j: "j < 4" by simp
  define v where "v = (\<lambda>i. (w i)(j := R i j))"
  have b: "within (2 * (7 * 2 ^ 25)) (f i j)" if "i < 4" for i using assms(1) [OF that j] by simp
  have "RoundedButterfly (w 0 j) (w 1 j) (w 2 j) (w 3 j) = Some (map (\<lambda>i. R i j) [0, 1, 2, 3])"
    using RoundedButterfly_tap [of "7 * 2 ^ 25" "f 0 j" "f 1 j" "f 2 j" "f 3 j"] b Suc.prems(2) [of j]
    by (simp add: assms(2))
  from OnColumn_grid [OF j, of RoundedButterfly w "\<lambda>i. R i j", OF this]
  have col: "OnColumn RoundedButterfly j (grid w) = Some (grid v)" by (simp add: v_def)
  have "within (2 ^ 30) (R i j)" for i
    using tap_within [of "7 * 2 ^ 25" "f 0 j" "f 1 j" "f 2 j" "f 3 j" i] b
    unfolding assms(2) by (intro div_64_within [of "7 * (7 * 2 ^ 25)"]) simp_all
  then have out: "OutOfRange (R i j) \<longleftrightarrow> \<not> in_range (R i j)" for i by (rule OutOfRange_iff)
  have at: "grid v ! j = R 0 j" "grid v ! (4 + j) = R 1 j" "grid v ! (8 + j) = R 2 j" "grid v ! (12 + j) = R 3 j"
    using grid_nth [OF _ j, of 0 v] grid_nth [OF _ j, of 1 v] grid_nth [OF _ j, of 2 v] grid_nth [OF _ j, of 3 v]
    by (simp_all add: v_def)
  have split: "(\<forall>k. j \<le> k \<and> k < 4 \<longrightarrow> (\<forall>i < 4. in_range (R i k))) \<longleftrightarrow>
      (\<forall>i < 4. in_range (R i j)) \<and> (\<forall>k. Suc j \<le> k \<and> k < 4 \<longrightarrow> (\<forall>i < 4. in_range (R i k)))"
    using j by (metis Suc_leD Suc_leI le_less order_refl)
  show ?case
  proof (cases "\<forall>i < 4. in_range (R i j)")
    case True
    then have step: "Columns j (Suc n) (grid w) = Columns (Suc j) n (grid v)"
      by (simp add: col at out all_below_4)
    have same: "grid (\<lambda>i k. if Suc j \<le> k then R i k else v i k) = grid (\<lambda>i k. if j \<le> k then R i k else w i k)"
      by (intro grid_cong) (auto simp: v_def not_less_eq_eq [symmetric] dest: antisym)
    have "v i k = f i k" if "Suc j \<le> k" for i k using that Suc.prems(2) [of k i] by (simp add: v_def)
    moreover have "Suc j + n = 4" using Suc.prems(1) by simp
    ultimately have "answers (Columns (Suc j) n (grid v)) (\<forall>k. Suc j \<le> k \<and> k < 4 \<longrightarrow> (\<forall>i < 4. in_range (R i k)))
        (grid (\<lambda>i k. if Suc j \<le> k then R i k else v i k))" using Suc.IH [of "Suc j" v] by blast
    then show ?thesis unfolding step split same using True by simp
  next
    case False
    then show ?thesis unfolding split by (auto simp: answers_def col at out all_below_4)
  qed
qed


text \<open>The coefficients of a block that the transform takes, and the map of the nonzero ones.\<close>

definition block_ok :: "int list \<Rightarrow> bool \<Rightarrow> bool" where
  "block_ok c skip \<longleftrightarrow> length c = 16 \<and> (\<forall>k < 16. abs (c ! k) < 2 ^ 12 \<or> k = 0 \<and> skip \<and> abs (c ! k) \<le> 2 ^ 27)"

definition mapped :: "int list \<Rightarrow> u32 \<Rightarrow> bool" where
  "mapped c m \<longleftrightarrow> (\<forall>k < 16. 0 < k \<and> c ! k \<noteq> 0 \<longrightarrow> bit m k)"

lemma scan_index_less: "i < 4 \<Longrightarrow> j < 4 \<Longrightarrow> scan_index i j < 16"
proof -
  have "list_all (\<lambda>i. list_all (\<lambda>j. scan_index i j < 16) [0..<4]) [0..<4]" by code_simp
  then show "i < 4 \<Longrightarrow> j < 4 \<Longrightarrow> scan_index i j < 16" by (auto simp: list_all_iff)
qed

lemma scaled_within:
  assumes "block_ok c skip" "qp < 52" "i < 4" "j < 4"
  shows "within (2 ^ 27) (scaled c qp skip i j)"
proof (cases "i = 0 \<and> j = 0 \<and> skip")
  case True
  from assms(1) have "abs (c ! 0) < 2 ^ 12 \<or> abs (c ! 0) \<le> 2 ^ 27" unfolding block_ok_def by force
  then show ?thesis using True by (auto simp: scaled_def within_def)
next
  case False
  let ?k = "scan_index i j"
  have "?k = 0 \<and> skip \<longrightarrow> i = 0 \<and> j = 0"
  proof -
    have "list_all (\<lambda>i. list_all (\<lambda>j. scan_index i j = 0 \<longrightarrow> i = 0 \<and> j = 0) [0..<4]) [0..<4]" by code_simp
    then show ?thesis using assms(3,4) by (auto simp: list_all_iff)
  qed
  with False assms(1) scan_index_less [OF assms(3,4)] have "within (2 ^ 12) (c ! ?k)"
    unfolding block_ok_def within_def by fastforce
  from within_mult [OF this, of "norm_adjust (qp mod 6) i j * 2 ^ (qp div 6)" 7424] factor_bound [OF assms(2), of i j]
  have "within (2 ^ 12 * 7424) (c ! ?k * (norm_adjust (qp mod 6) i j * 2 ^ (qp div 6)))" by simp
  then show ?thesis using False by (auto simp: scaled_def within_def mult.assoc)
qed

definition valid_residual :: "int list \<Rightarrow> nat \<Rightarrow> bool \<Rightarrow> bool" where
  "valid_residual c qp skip \<longleftrightarrow> (\<forall>x \<in> set (residual_block c qp skip). in_range x)"

lemma all_grid: "(\<forall>x \<in> set (grid w). P x) \<longleftrightarrow> (\<forall>k < 4. \<forall>i < 4. P (w i k))"
  unfolding all_below_4 by (auto simp: grid_def)

lemma row_within:
  assumes "block_ok c skip" "qp < 52" "i < 4"
  shows "within (7 * 2 ^ 26) (row_transformed c qp skip i j)"
  unfolding row_transformed_def using scaled_within [OF assms] by (intro tap_within) simp_all

lemma FullBlock_spec:
  assumes "block_ok c skip" "qp < 52"
    and "ScanAndScale tmp1 tmp2 tmp3 d = Some (grid (scaled c qp skip))"
  shows "answers (FullBlock tmp1 tmp2 tmp3 d) (valid_residual c qp skip) (residual_block c qp skip)"
proof -
  have "OnRows Butterfly (grid (scaled c qp skip)) = Some (grid (row_transformed c qp skip))"
    unfolding row_transformed_def using scaled_within [OF assms(1,2)]
    by (intro OnRows_grid Butterfly_tap [of "2 ^ 26"]) simp_all
  then have "FullBlock tmp1 tmp2 tmp3 d = Columns 0 4 (grid (row_transformed c qp skip))"
    using assms(3) by (simp add: FullBlock_def)
  moreover have "(\<forall>k. 0 \<le> k \<and> k < 4 \<longrightarrow> (\<forall>i < 4. in_range (residual_sample c qp skip i k))) \<longleftrightarrow> valid_residual c qp skip"
    by (simp add: valid_residual_def residual_block_def all_grid)
  moreover note Columns_grid [of "row_transformed c qp skip" "residual_sample c qp skip" 0 4 "row_transformed c qp skip",
    OF row_within [OF assms(1,2)] residual_sample_def]
  ultimately show ?thesis by (simp add: residual_block_def)
qed


lemma scan_indices:
  "scan_index 0 0 = 0" "scan_index 0 1 = 1" "scan_index 0 2 = 5" "scan_index 0 3 = 6"
  "scan_index 1 0 = 2" "scan_index 1 1 = 4" "scan_index 1 2 = 7" "scan_index 1 3 = 12"
  "scan_index 2 0 = 3" "scan_index 2 1 = 8" "scan_index 2 2 = 11" "scan_index 2 3 = 13"
  "scan_index 3 0 = 9" "scan_index 3 1 = 10" "scan_index 3 2 = 14" "scan_index 3 3 = 15"
  by code_simp+

definition factor :: "nat \<Rightarrow> nat \<Rightarrow> nat \<Rightarrow> int" where
  "factor qp i j = norm_adjust (qp mod 6) i j * 2 ^ (qp div 6)"

lemma factor_parity:
  "factor qp 0 2 = factor qp 0 0" "factor qp 0 3 = factor qp 0 1" "factor qp 1 0 = factor qp 0 1"
  "factor qp 1 2 = factor qp 0 1" "factor qp 1 3 = factor qp 1 1" "factor qp 2 0 = factor qp 0 0"
  "factor qp 2 1 = factor qp 0 1" "factor qp 2 2 = factor qp 0 0" "factor qp 2 3 = factor qp 0 1"
  "factor qp 3 0 = factor qp 0 1" "factor qp 3 1 = factor qp 1 1" "factor qp 3 2 = factor qp 0 1"
  "factor qp 3 3 = factor qp 1 1"
  by (simp_all add: factor_def norm_adjust_def)

lemma scaled_factor: "scaled c qp skip i j = (if i = 0 \<and> j = 0 \<and> skip then c ! 0 else c ! scan_index i j * factor qp i j)"
  by (simp add: scaled_def factor_def mult.assoc)

lemma ScanAndScale_grid:
  assumes "block_ok c skip" "qp < 52" "d = c[0 := scaled c qp skip 0 0]"
  shows "ScanAndScale (factor qp 0 0) (factor qp 0 1) (factor qp 1 1) d = Some (grid (scaled c qp skip))"
proof -
  have "length c = 16" using assms(1) by (simp add: block_ok_def)
  then have "ScanAndScale (factor qp 0 0) (factor qp 0 1) (factor qp 1 1) d = chk_all (grid (scaled c qp skip))"
    unfolding ScanAndScale_def grid_def assms(3)
    by (simp add: scaled_factor scan_indices [simplified] factor_parity [simplified])
  moreover have "\<forall>x \<in> set (grid (scaled c qp skip)). within (2 ^ 27) x"
    unfolding all_grid using scaled_within [OF assms(1,2)] by blast
  ultimately show ?thesis using chk_all_within [of "grid (scaled c qp skip)" "2 ^ 27"] by simp
qed

text \<open>Only coefficients of the first row.\<close>

lemma first_row:
  assumes "\<And>i j. 0 < i \<Longrightarrow> i < 4 \<Longrightarrow> j < 4 \<Longrightarrow> scaled c qp skip i j = 0"
  shows "residual_sample c qp skip i j = (row_transformed c qp skip 0 j + 32) div 64"
proof -
  have "row_transformed c qp skip i j = 0" if "0 < i" "i < 4" for i
    using assms [OF that] by (simp add: row_transformed_def tap_def)
  then show ?thesis by (simp add: residual_sample_def tap_def Let_def)
qed

lemma TopRowBlock_spec:
  assumes "block_ok c skip" "qp < 52" "d = c[0 := scaled c qp skip 0 0]"
    and "\<And>i j. 0 < i \<Longrightarrow> i < 4 \<Longrightarrow> j < 4 \<Longrightarrow> scaled c qp skip i j = 0"
  shows "answers (TopRowBlock (factor qp 0 0) (factor qp 0 1) d) (valid_residual c qp skip) (residual_block c qp skip)"
proof -
  let ?w = "scaled c qp skip 0" and ?r = "\<lambda>j. (row_transformed c qp skip 0 j + 32) div 64"
  have w: "within (2 ^ 27) (?w j)" if "j < 4" for j using scaled_within [OF assms(1,2)] that by simp
  have len: "length c = 16" using assms(1) by (simp add: block_ok_def)
  then have "[d ! 1 * factor qp 0 1, d ! 5 * factor qp 0 0, d ! 6 * factor qp 0 1] = [?w 1, ?w 2, ?w 3]" "d ! 0 = ?w 0"
    unfolding assms(3) by (simp_all add: scaled_factor scan_indices [simplified] factor_parity [simplified])
  moreover have "chk_all [?w 1, ?w 2, ?w 3] = Some [?w 1, ?w 2, ?w 3]"
    using w by (intro chk_all_within [of _ "2 ^ 27"]) auto
  moreover have "RoundedButterfly (?w 0) (?w 1) (?w 2) (?w 3) = Some (map ?r [0, 1, 2, 3])"
    unfolding row_transformed_def using w by (intro RoundedButterfly_tap [of "2 ^ 26"]) simp_all
  moreover have "OutOfRange (?r j) \<longleftrightarrow> \<not> in_range (?r j)" for j
    using row_within [OF assms(1,2), of 0 j] by (intro OutOfRange_iff div_64_within [of "7 * 2 ^ 26"]) simp_all
  moreover have "residual_block c qp skip = map ?r [0, 1, 2, 3] @ map ?r [0, 1, 2, 3] @ map ?r [0, 1, 2, 3] @ map ?r [0, 1, 2, 3]"
    unfolding residual_block_def grid_def by (simp add: first_row assms(4))
  ultimately show ?thesis
    by (auto simp: TopRowBlock_def valid_residual_def answers_def Let_def)
qed

lemma DcBlock_spec:
  assumes "block_ok c skip" "qp < 52" "d = c[0 := scaled c qp skip 0 0]"
    and "\<And>i j. i < 4 \<Longrightarrow> j < 4 \<Longrightarrow> i \<noteq> 0 \<or> j \<noteq> 0 \<Longrightarrow> scaled c qp skip i j = 0"
  shows "answers (DcBlock d) (valid_residual c qp skip) (residual_block c qp skip)"
proof -
  let ?x = "scaled c qp skip 0 0"
  have "d ! 0 = ?x" using assms(1,3) by (simp add: block_ok_def)
  moreover have x: "within (2 ^ 27) ?x" by (rule scaled_within [OF assms(1,2)]) simp_all
  have "Rounded [?x] = Some (map (\<lambda>x. (x + 32) div 64) [?x])"
    using x by (intro Rounded_within [of _ "2 ^ 27"]) simp_all
  moreover have "OutOfRange ((?x + 32) div 64) \<longleftrightarrow> \<not> in_range ((?x + 32) div 64)"
    by (rule OutOfRange_iff) (rule div_64_within [OF x], simp)
  moreover have "residual_sample c qp skip i j = (?x + 32) div 64" for i j
    using assms(4) by (subst first_row) (simp_all add: row_transformed_def tap_def Let_def)
  then have "residual_block c qp skip = replicate 16 ((?x + 32) div 64)"
    by (simp add: residual_block_def grid_def numeral_eq_Suc)
  ultimately show ?thesis by (simp add: DcBlock_def valid_residual_def answers_def)
qed


text \<open>What the masks of the coefficient map say.\<close>

lemma masked_off:
  assumes "m AND c = (0 :: u32)" "bit c k"
  shows "\<not> bit m k"
proof -
  have "bit (m AND c) k \<longleftrightarrow> bit m k \<and> bit c k" by (rule bit_and_iff)
  then show ?thesis using assms by simp
qed

lemma lower_rows_zero:
  assumes "mapped c m" "m AND 0xFF9C = 0" "0 < i" "i < 4" "j < 4"
  shows "scaled c qp skip i j = 0"
proof -
  have "list_all (\<lambda>i. list_all (\<lambda>j. 0 < i \<longrightarrow> bit (0xFF9C :: u32) (scan_index i j) \<and> 0 < scan_index i j) [0..<4]) [0..<4]"
    by code_simp
  then have "bit (0xFF9C :: u32) (scan_index i j)" "0 < scan_index i j" using assms(3-5) by (auto simp: list_all_iff)
  with assms(1) masked_off [OF assms(2)] scan_index_less [OF assms(4,5)] have "c ! scan_index i j = 0"
    unfolding mapped_def by blast
  then show ?thesis using assms(3) by (simp add: scaled_def)
qed

lemma first_row_zero:
  assumes "mapped c m" "m AND 0x62 = 0" "0 < j" "j < 4"
  shows "scaled c qp skip 0 j = 0"
proof -
  have "list_all (\<lambda>j. 0 < j \<longrightarrow> bit (0x62 :: u32) (scan_index 0 j) \<and> 0 < scan_index 0 j) [0..<4]" by code_simp
  then have "bit (0x62 :: u32) (scan_index 0 j)" "0 < scan_index 0 j" using assms(3,4) by (auto simp: list_all_iff)
  moreover have "scan_index 0 j < 16" using scan_index_less [of 0 j] assms(4) by simp
  ultimately have "c ! scan_index 0 j = 0" using assms(1) masked_off [OF assms(2)] unfolding mapped_def by blast
  then show ?thesis using assms(3) by (simp add: scaled_def)
qed

theorem ProcessBlock_spec:
  assumes "block_ok c skip" "qp < 52" "mapped c m"
  shows "answers (h264bsdProcessBlock c qp skip m) (valid_residual c qp skip) (residual_block c qp skip)"
proof -
  let ?d = "c[0 := scaled c qp skip 0 0]"
  have len: "length c = 16" using assms(1) by (simp add: block_ok_def)
  have "(if skip then Some (c ! 0) else chk (c ! 0 * factor qp 0 0)) = Some (scaled c qp skip 0 0)"
    using chk_within [OF scaled_within [OF assms(1,2), of 0 0]] by (auto simp: scaled_factor scan_indices)
  then have run: "h264bsdProcessBlock c qp skip m =
      (if m AND 0xFF9C \<noteq> 0 then FullBlock (factor qp 0 0) (factor qp 0 1) (factor qp 1 1) ?d
       else if m AND 0x62 = 0 then DcBlock ?d else TopRowBlock (factor qp 0 0) (factor qp 0 1) ?d)"
    unfolding h264bsdProcessBlock_def factor_def by (simp add: len qp_tables [OF assms(2)] Scale_table [simplified, OF assms(2)])
  note zero = lower_rows_zero [OF assms(3), of _ _ qp skip] first_row_zero [OF assms(3), of _ qp skip]
  consider "m AND 0xFF9C \<noteq> 0" | "m AND 0xFF9C = 0" "m AND 0x62 = 0" | "m AND 0xFF9C = 0" "m AND 0x62 \<noteq> 0" by blast
  then show ?thesis
  proof cases
    case 1
    then show ?thesis using FullBlock_spec [OF assms(1,2) ScanAndScale_grid [OF assms(1,2) refl]] by (simp add: run)
  next
    case 2
    have "scaled c qp skip i j = 0" if "i < 4" "j < 4" "i \<noteq> 0 \<or> j \<noteq> 0" for i j
      using zero(1) [OF 2(1), of i j] zero(2) [OF 2(2), of j] that by (cases "i = 0") simp_all
    from DcBlock_spec [OF assms(1,2) refl this] 2 show ?thesis by (simp add: run)
  next
    case 3
    from TopRowBlock_spec [OF assms(1,2) refl zero(1) [OF 3(1)]] 3 show ?thesis by (simp add: run)
  qed
qed

section \<open>Blocks of DC coefficients\<close>

text \<open>The standard multiplies the matrix of coefficients by the Hadamard matrix from both sides.\<close>

definition dc_sum :: "int \<Rightarrow> int \<Rightarrow> int \<Rightarrow> int \<Rightarrow> nat \<Rightarrow> int" where
  "dc_sum p0 p1 p2 p3 k = p0 * hadamard 0 k + p1 * hadamard 1 k + p2 * hadamard 2 k + p3 * hadamard 3 k"

definition luma_dc_rows :: "int list \<Rightarrow> nat \<Rightarrow> nat \<Rightarrow> int" where
  "luma_dc_rows c i = dc_sum (c ! scan_index i 0) (c ! scan_index i 1) (c ! scan_index i 2) (c ! scan_index i 3)"

definition luma_dc_sum :: "int list \<Rightarrow> nat \<Rightarrow> nat \<Rightarrow> int" where
  "luma_dc_sum c i j = dc_sum (luma_dc_rows c 0 j) (luma_dc_rows c 1 j) (luma_dc_rows c 2 j) (luma_dc_rows c 3 j) i"

definition dc_scaled :: "nat \<Rightarrow> int \<Rightarrow> int" where
  "dc_scaled qp f =
     (if 12 \<le> qp then f * norm_adjust (qp mod 6) 0 0 * 2 ^ (qp div 6 - 2)
      else (f * norm_adjust (qp mod 6) 0 0 + 2 ^ (1 - qp div 6)) div 2 ^ (2 - qp div 6))"

definition luma_dc :: "int list \<Rightarrow> nat \<Rightarrow> nat \<Rightarrow> nat \<Rightarrow> int" where
  "luma_dc c qp i j = dc_scaled qp (luma_dc_sum c i j)"

definition chroma_dc_sum :: "int list \<Rightarrow> nat \<Rightarrow> int" where
  "chroma_dc_sum c k =
     [c ! 0 + c ! 1 + c ! 2 + c ! 3, c ! 0 - c ! 1 + c ! 2 - c ! 3,
      c ! 0 + c ! 1 - c ! 2 - c ! 3, c ! 0 - c ! 1 - c ! 2 + c ! 3] ! k"

definition chroma_dc :: "int list \<Rightarrow> nat \<Rightarrow> nat \<Rightarrow> int" where
  "chroma_dc c qp k =
     (if 6 \<le> qp then chroma_dc_sum c k * norm_adjust (qp mod 6) 0 0 * 2 ^ (qp div 6 - 1)
      else chroma_dc_sum c k * norm_adjust (qp mod 6) 0 0 div 2)"

lemma DcButterfly_sums:
  assumes "within b p0" "within b p1" "within b p2" "within b p3" "4 * b < 2 ^ 31"
  shows "DcButterfly p0 p1 p2 p3 = Some (map (dc_sum p0 p1 p2 p3) [0, 1, 2, 3])"
    "\<And>k. k < 4 \<Longrightarrow> within (4 * b) (dc_sum p0 p1 p2 p3 k)"
proof -
  let ?g = "dc_sum p0 p1 p2 p3"
  have g: "?g 0 = p0 + p2 + (p1 + p3)" "?g 1 = p0 - p2 + (p1 - p3)" "?g 2 = p0 - p2 - (p1 - p3)" "?g 3 = p0 + p2 - (p1 + p3)"
    by (simp_all add: dc_sum_def hadamard_def)
  have "within (4 * b) (p0 + p2 + (p1 + p3))" "within (4 * b) (p0 - p2 + (p1 - p3))"
    "within (4 * b) (p0 - p2 - (p1 - p3))" "within (4 * b) (p0 + p2 - (p1 + p3))"
    using assms(1-4) by (auto simp: within_def)
  then show all: "within (4 * b) (?g k)" if "k < 4" for k
    using below_4 [OF that] by (elim disjE) (simp_all only: g)
  have b: "4 * b < 2147483648" using assms(5) by simp
  have "within (4 * b) (p0 + p2)" "within (4 * b) (p0 - p2)" "within (4 * b) (p1 - p3)" "within (4 * b) (p1 + p3)"
    using assms(1-4) by (auto simp: within_def)
  moreover have "chk_all (map ?g [0, 1, 2, 3]) = Some (map ?g [0, 1, 2, 3])"
    using all assms(5) by (intro chk_all_within [of _ "4 * b"]) auto
  ultimately show "DcButterfly p0 p1 p2 p3 = Some (map ?g [0, 1, 2, 3])"
    using b by (simp add: DcButterfly_def chk_within [of "4 * b"] g g [simplified])
qed


definition dc_ok :: "int list \<Rightarrow> bool" where
  "dc_ok c \<longleftrightarrow> 16 \<le> length c \<and> (\<forall>k < 16. within (2 ^ 12) (c ! k))"

lemma DcScan_grid: "DcScan c = grid (\<lambda>i j. c ! scan_index i j)"
  by (simp add: DcScan_def grid_def scan_indices [simplified])

lemma luma_rows:
  assumes "dc_ok c"
  shows "OnRows DcButterfly (DcScan c) = Some (grid (luma_dc_rows c))"
    "i < 4 \<Longrightarrow> j < 4 \<Longrightarrow> within (2 ^ 14) (luma_dc_rows c i j)"
proof -
  have b: "within (2 ^ 12) (c ! scan_index i j)" if "i < 4" "j < 4" for i j
    using assms scan_index_less [OF that] by (simp add: dc_ok_def)
  have rows: "DcButterfly (c ! scan_index i 0) (c ! scan_index i 1) (c ! scan_index i 2) (c ! scan_index i 3)
      = Some (map (luma_dc_rows c i) [0, 1, 2, 3])"
    and range: "\<And>j. j < 4 \<Longrightarrow> within (4 * 2 ^ 12) (luma_dc_rows c i j)" if "i < 4" for i
    using DcButterfly_sums [of "2 ^ 12" "c ! scan_index i 0" "c ! scan_index i 1" "c ! scan_index i 2" "c ! scan_index i 3"]
      b [OF that] by (simp_all add: luma_dc_rows_def)
  show "OnRows DcButterfly (DcScan c) = Some (grid (luma_dc_rows c))"
    unfolding DcScan_grid by (rule OnRows_grid) (rule rows)
  show "i < 4 \<Longrightarrow> j < 4 \<Longrightarrow> within (2 ^ 14) (luma_dc_rows c i j)" using range [of i j] by simp
qed

lemma dc_factor:
  assumes "qp < 52"
  shows "0 < norm_adjust (qp mod 6) 0 0 * 2 ^ (qp div 6 - 2)" "norm_adjust (qp mod 6) 0 0 * 2 ^ (qp div 6 - 2) \<le> 1152"
    "0 < norm_adjust (qp mod 6) 0 0" "norm_adjust (qp mod 6) 0 0 \<le> 18"
    "0 < norm_adjust (qp mod 6) 0 0 * 2 ^ (qp div 6 - 1)" "norm_adjust (qp mod 6) 0 0 * 2 ^ (qp div 6 - 1) \<le> 2304"
proof -
  have "list_all (\<lambda>q. let v = norm_adjust (q mod 6) 0 0 in 0 < v * 2 ^ (q div 6 - 2) \<and> v * 2 ^ (q div 6 - 2) \<le> 1152
    \<and> 0 < v \<and> v \<le> 18 \<and> 0 < v * 2 ^ (q div 6 - 1) \<and> v * 2 ^ (q div 6 - 1) \<le> 2304) [0..<52]" by code_simp
  moreover have "qp \<in> set [0..<52]" using assms by simp
  ultimately show "0 < norm_adjust (qp mod 6) 0 0 * 2 ^ (qp div 6 - 2)" "norm_adjust (qp mod 6) 0 0 * 2 ^ (qp div 6 - 2) \<le> 1152"
    "0 < norm_adjust (qp mod 6) 0 0" "norm_adjust (qp mod 6) 0 0 \<le> 18"
    "0 < norm_adjust (qp mod 6) 0 0 * 2 ^ (qp div 6 - 1)" "norm_adjust (qp mod 6) 0 0 * 2 ^ (qp div 6 - 1) \<le> 2304"
    unfolding list_all_iff Let_def by blast+
qed

lemma chk_all_scaled:
  assumes "\<And>x. x \<in> set xs \<Longrightarrow> within b x" "0 < f" "f \<le> g" "b * g < 2 ^ 31"
  shows "chk_all (map (\<lambda>x. x * f) xs) = Some (map (\<lambda>x. x * f) xs)"
proof (rule chk_all_within [of _ "b * g"])
  fix y assume "y \<in> set (map (\<lambda>x. x * f) xs)"
  then obtain x where "y = x * f" "within b x" using assms(1) by auto
  then show "within (b * g) y" using within_mult [of b x f g] assms(2,3) by simp
qed (rule assms(4))

lemma ScaledDc_spec:
  assumes "qp < 52" "within (2 ^ 14) p0" "within (2 ^ 14) p1" "within (2 ^ 14) p2" "within (2 ^ 14) p3"
  shows "ScaledDc qp (qp div 6) (norm_adjust (qp mod 6) 0 0) p0 p1 p2 p3 = Some (map (\<lambda>k. dc_scaled qp (dc_sum p0 p1 p2 p3 k)) [0, 1, 2, 3])"
proof -
  let ?g = "dc_sum p0 p1 p2 p3"
  have "4 * 2 ^ 14 < (2 ^ 31 :: int)" by simp
  note sums = DcButterfly_sums [OF assms(2-5) this]
  have g: "within (2 ^ 16) x" if "x \<in> set (map ?g [0, 1, 2, 3])" for x
    using that sums(2) by auto
  show ?thesis
  proof (cases "12 \<le> qp")
    case True
    have "chk_all (map (\<lambda>x. x * (norm_adjust (qp mod 6) 0 0 * 2 ^ (qp div 6 - 2))) (map ?g [0, 1, 2, 3]))
        = Some (map (\<lambda>x. x * (norm_adjust (qp mod 6) 0 0 * 2 ^ (qp div 6 - 2))) (map ?g [0, 1, 2, 3]))"
      by (rule chk_all_scaled [OF g dc_factor(1,2) [OF assms(1)]]) simp_all
    then show ?thesis using True sums(1) by (simp add: ScaledDc_def dc_scaled_def mult.assoc)
  next
    case False
    let ?v = "norm_adjust (qp mod 6) 0 0" and ?r = "if qp div 6 = 1 then 1 else 2 :: int"
    have 1: "chk_all (map (\<lambda>x. x * ?v) (map ?g [0, 1, 2, 3])) = Some (map (\<lambda>x. x * ?v) (map ?g [0, 1, 2, 3]))"
      by (rule chk_all_scaled [OF g dc_factor(3,4) [OF assms(1)]]) simp_all
    have s: "within (2 ^ 16 * 18) (x * ?v)" if "x \<in> set (map ?g [0, 1, 2, 3])" for x
      using within_mult [OF g [OF that], of ?v 18] dc_factor(3,4) [OF assms(1)] by simp
    have 2: "chk_all (map (\<lambda>x. x + ?r) (map (\<lambda>x. x * ?v) (map ?g [0, 1, 2, 3])))
        = Some (map (\<lambda>x. x + ?r) (map (\<lambda>x. x * ?v) (map ?g [0, 1, 2, 3])))"
    proof (rule chk_all_within [of _ "2 ^ 16 * 18 + 2"])
      fix y assume "y \<in> set (map (\<lambda>x. x + ?r) (map (\<lambda>x. x * ?v) (map ?g [0, 1, 2, 3])))"
      then obtain x where "x \<in> set (map ?g [0, 1, 2, 3])" "y = x * ?v + ?r" unfolding set_map by blast
      with s [of x] show "within (2 ^ 16 * 18 + 2) y" by (simp add: within_def)
    qed simp
    from False have "qp div 6 = 0 \<or> qp div 6 = 1" by linarith
    then have r: "?r = 2 ^ (1 - qp div 6)" by auto
    have "ScaledDc qp (qp div 6) ?v p0 p1 p2 p3
        = Some (map (\<lambda>x. asr x (2 - qp div 6)) (map (\<lambda>x. x + ?r) (map (\<lambda>x. x * ?v) (map ?g [0, 1, 2, 3]))))"
      by (simp only: ScaledDc_def sums(1) Option.bind.simps 1 2 False if_False)
    then show ?thesis using False unfolding r by (simp add: dc_scaled_def asr_def)
  qed
qed


theorem ProcessLumaDc_spec:
  assumes "dc_ok c" "length c = 16" "qp < 52"
  shows "h264bsdProcessLumaDc c qp = Some (grid (luma_dc c qp))"
proof -
  let ?f = "ScaledDc qp (qp div 6) (norm_adjust (qp mod 6) 0 0)"
  let ?w = "luma_dc_rows c"
  define V where "V n i j = (if j < n then luma_dc c qp i j else ?w i j)" for n i j
  have col: "OnColumn ?f j (grid (V j)) = Some (grid (V (Suc j)))" if "j < 4" for j
  proof -
    have "?f (?w 0 j) (?w 1 j) (?w 2 j) (?w 3 j) = Some (map (\<lambda>i. luma_dc c qp i j) [0, 1, 2, 3])"
      using ScaledDc_spec [OF assms(3), of "?w 0 j" "?w 1 j" "?w 2 j" "?w 3 j"] luma_rows(2) [OF assms(1) _ that]
      by (simp add: luma_dc_def luma_dc_sum_def)
    then have "OnColumn ?f j (grid (V j)) = Some (grid (\<lambda>i. (V j i)(j := luma_dc c qp i j)))"
      by (intro OnColumn_grid that) (simp add: V_def)
    moreover have "grid (\<lambda>i. (V j i)(j := luma_dc c qp i j)) = grid (V (Suc j))"
      by (intro grid_cong) (auto simp: V_def less_Suc_eq)
    ultimately show ?thesis by simp
  qed
  have suc: "Suc 0 = 1" "Suc 1 = 2" "Suc 2 = 3" "Suc 3 = 4" by simp_all
  note cols = col [of 0] col [of 1] col [of 2] col [of 3]
  have "grid (V 0) = grid ?w" "grid (V 4) = grid (luma_dc c qp)" by (intro grid_cong, simp add: V_def)+
  then show ?thesis
    using luma_rows(1) [OF assms(1)] cols [unfolded suc]
    by (simp add: h264bsdProcessLumaDc_def assms(2) qp_tables [OF assms(3)] Scale_table [OF assms(3)])
qed

lemma ChromaDcHalf_spec:
  assumes "within (2 ^ 12) d0" "within (2 ^ 12) d1" "within (2 ^ 12) d2" "within (2 ^ 12) d3" "0 < v" "v \<le> 2304"
  shows "ChromaDcHalf v k d0 d1 d2 d3 = Some (map (\<lambda>s. s * v div 2 ^ k)
    [d0 + d1 + d2 + d3, d0 - d1 + d2 - d3, d0 + d1 - d2 - d3, d0 - d1 - d2 + d3])"
proof -
  let ?s = "[d0 + d1 + d2 + d3, d0 - d1 + d2 - d3, d0 + d1 - d2 - d3, d0 - d1 - d2 + d3]"
  have s: "within (2 ^ 14) x" if "x \<in> set ?s" for x using that assms(1-4) by (auto simp: within_def)
  then have "chk_all ?s = Some ?s" by (intro chk_all_within [of ?s "2 ^ 14"]) simp_all
  moreover have "[d0 + d2 + (d1 + d3), d0 + d2 - (d1 + d3), d0 - d2 + (d1 - d3), d0 - d2 - (d1 - d3)] = ?s" by simp
  moreover have "chk_all (map (\<lambda>x. x * v) ?s) = Some (map (\<lambda>x. x * v) ?s)"
    by (rule chk_all_scaled [OF s assms(5,6)]) simp_all
  moreover have "within (2 ^ 13) (d0 + d2)" "within (2 ^ 13) (d0 - d2)" "within (2 ^ 13) (d1 - d3)" "within (2 ^ 13) (d1 + d3)"
    using assms(1-4) by (auto simp: within_def)
  then have "chk (d0 + d2) = Some (d0 + d2)" "chk (d0 - d2) = Some (d0 - d2)"
    "chk (d1 - d3) = Some (d1 - d3)" "chk (d1 + d3) = Some (d1 + d3)" by (simp_all add: chk_within)
  ultimately show ?thesis by (simp only: ChromaDcHalf_def Option.bind.simps asr_def) simp
qed

theorem ProcessChromaDc_spec:
  assumes "dc_ok c" "qp < 52"
  shows "h264bsdProcessChromaDc c qp =
    Some (map (chroma_dc c qp) [0, 1, 2, 3] @ map (chroma_dc (drop 4 c) qp) [0, 1, 2, 3] @ drop 8 c)"
proof -
  let ?n = "norm_adjust (qp mod 6) 0 0"
  define v k where "v = (if 6 \<le> qp then ?n * 2 ^ (qp div 6 - 1) else ?n)" and "k = (if 6 \<le> qp then 0 else 1 :: nat)"
  have len: "\<not> length c < 8" and w: "\<And>k. k < 8 \<Longrightarrow> within (2 ^ 12) (c ! k)" using assms(1) by (auto simp: dc_ok_def)
  have v: "0 < v" "v \<le> 2304" using dc_factor(3-6) [OF assms(2)] by (auto simp: v_def)
  have dc: "chroma_dc d qp i = chroma_dc_sum d i * v div 2 ^ k" for d i
    by (simp add: chroma_dc_def v_def k_def mult.assoc)
  have nth: "drop 4 c ! i = c ! (4 + i)" for i using len by (intro nth_drop) simp
  have "h264bsdProcessChromaDc c qp = do {
      a \<leftarrow> ChromaDcHalf v k (c ! 0) (c ! 1) (c ! 2) (c ! 3);
      b \<leftarrow> ChromaDcHalf v k (c ! 4) (c ! 5) (c ! 6) (c ! 7);
      Some (a @ b @ drop 8 c)
    }"
    unfolding h264bsdProcessChromaDc_def v_def k_def using len
    by (simp add: qp_tables [OF assms(2)] Scale_table [OF assms(2)] Let_def)
  moreover note ChromaDcHalf_spec [OF w [of 0] w [of 1] w [of 2] w [of 3] v, of k]
    ChromaDcHalf_spec [OF w [of 4] w [of 5] w [of 6] w [of 7] v, of k]
  ultimately show ?thesis by (simp add: dc chroma_dc_sum_def nth)
qed

end
