(* ===== verification/Spec2Isabelle.thy ===== *)
theory Spec2Isabelle
  imports FwdLockProps H264CodeProps H264DpbProps H264ParamProps H264ParamFaults H264MbProps
    H264TransformFacts
begin

text \<open>
  Verification of two C subsystems of an Android audio/video framework: the Forward Lock
  converter and decoder of the DRM framework, and the software H.264 decoder of stagefright
  (\<open>src/media/libstagefright/codecs/on2/h264dec\<close>).

  The Forward Lock library (\<open>src/drm/libdrmframework/plugins/forward-lock/internal-format\<close>)
  turns an OMA DRM v1 message into an encrypted file bound to the device and plays such files.
  The converter (\<open>FwdLockConv.c\<close>) is fed the message in buffers of any size, parses it
  character by character, encrypts the body and at the end patches two signatures into the
  header; the decoder (\<open>FwdLockFile.c\<close>) attaches to an open file descriptor, checks the
  signatures and decrypts what is read; both wrap the session key with the device key of
  \<open>FwdLockGlue.c\<close>.
    \<^item> \<open>FwdLockGlue\<close>, \<open>FwdLockKeys\<close>: the key file and the wrapping of session keys; keys survive
      a restart, and a short write of the key file disables the device.
    \<^item> \<open>FwdLockConv\<close>, \<open>FwdLockConvApi\<close>: the state of a session, the delimiter, header and body
      parsers, the output buffer with a fault injecting allocator, the entry points.
      \<open>FwdLockBody\<close>, \<open>FwdLockBinary\<close>, \<open>FwdLockBase64\<close>, \<open>FwdLockMessage\<close>: both scanners refine
      abstract machines and accept exactly the stated bodies; a whole message is converted as
      specified. \<open>FwdLockChunks\<close>: the same, however the message is split into reads.
      \<open>FwdLockSafe\<close>: the memory invariant of a session on every input; \<open>FwdLockReach\<close>: every
      session that is opened and only returned \<open>Status_OK\<close> meets it.
    \<^item> \<open>FwdLockFile\<close>, \<open>FwdLockDecoder\<close>: the decoder, as a refinement of a plain file. Offsets are
      of type \<open>off64_t\<close> (\<open>off64\<close>): a signed sum out of its range is undefined, a position out of
      its range is \<open>EOVERFLOW\<close>.
    \<^item> \<open>FwdLockCtr\<close>, \<open>FwdLockStream\<close>, \<open>FwdLockTable\<close>, \<open>FwdLockEnd\<close>: the counters of the two
      sides agree, their key streams agree, their slot tables meet one contract, and what the
      converter writes the decoder plays. \<open>FwdLockProps\<close> holds the properties.

  The H.264 decoder (\<open>source/h264bsd_*.c\<close>) extracts NAL units from a byte stream, parses
  parameter sets and slice headers from them, and keeps decoded pictures in a buffer that
  serves references and display order.
    \<^item> \<open>H264Stream\<close>, \<open>H264Bits\<close>: the bit reader (\<open>h264bsd_stream.c\<close>) as a function on the list of
      remaining bits. \<open>H264Vlc\<close>, \<open>H264Golomb\<close>, \<open>H264Codes\<close>, \<open>H264CodeLaws\<close>: the variable length codes
      (\<open>h264bsd_vlc.c\<close>) accept exactly the Exp-Golomb codes; the locale \<open>prefix_code\<close> gives the
      round trip of sequences. \<open>H264Nal\<close>, \<open>H264NalFacts\<close>: \<open>h264bsd_byte_stream.c\<close> and
      \<open>h264bsd_nal_unit.c\<close> against a list specification. \<open>H264Util\<close>: \<open>h264bsd_util.c\<close>, macroblock
      addresses. \<open>H264Poc\<close>, \<open>H264PocFacts\<close>: \<open>h264bsd_pic_order_cnt.c\<close>. \<open>H264CodeProps\<close> holds the
      properties of this group.
    \<^item> \<open>H264DpbSort\<close>, \<open>H264Dpb\<close>: the decoded picture buffer (\<open>h264bsd_dpb.c\<close>). \<open>H264DpbInv\<close>,
      \<open>H264DpbOutput\<close>, \<open>H264DpbMark\<close>, \<open>H264DpbStore\<close>, \<open>H264DpbRest\<close>, \<open>H264DpbGaps\<close>, \<open>H264DpbLife\<close>,
      \<open>H264DpbIndex\<close>, \<open>H264DpbLists\<close>: its invariant, what every operation does to it, the reachable
      states of its whole life. These are stated for tame pictures (\<open>tame_picture\<close>): IDR pictures,
      and pictures with a picture order count below \<open>0x7FFFFFFF\<close> whose marking operations have
      differences of picture numbers below \<open>2^31\<close> and no operation 5 or 6 after an operation 6.
      \<open>H264DpbFaults\<close>: what other pictures lead to. \<open>H264DpbProps\<close>: the properties.
    \<^item> \<open>H264Parse\<close>: parsers as lists of steps. \<open>H264Vui\<close>, \<open>H264SeqParamSet\<close>, \<open>H264PicParamSet\<close>,
      \<open>H264SliceHeader\<close>: the parsers of \<open>h264bsd_vui.c\<close>, \<open>h264bsd_seq_param_set.c\<close>,
      \<open>h264bsd_pic_param_set.c\<close> and \<open>h264bsd_slice_header.c\<close>; \<open>H264SpsFacts\<close>, \<open>H264PeekFacts\<close>: what
      accepted structures satisfy. \<open>H264SliceGroupMap\<close>, \<open>H264MapFacts\<close>, \<open>H264MapStandard\<close>:
      \<open>h264bsd_slice_group_map.c\<close> against the maps of the standard. \<open>H264ParamProps\<close>,
      \<open>H264ParamFaults\<close>: properties and faults.
    \<^item> \<open>H264Storage\<close> (\<open>h264bsd_storage.c\<close>): the storage of an instance, parameter sets and their
      activation, the boundaries of access units. \<open>H264Decoder\<close>: the entry points of
      \<open>h264bsd_decoder.c\<close> and the activation at the start of a picture. \<open>H264StorageFacts\<close>: the
      invariant of the storage, and the picture an activation prepares.
    \<^item> \<open>H264Neighbour\<close> (\<open>h264bsd_neighbour.c\<close>): the storage of macroblocks, neighbouring macroblocks
      and blocks. \<open>H264Cavlc\<close> (\<open>h264bsd_cavlc.c\<close>): residual blocks with their tables and the cache of
      the stream; \<open>H264CavlcFacts\<close>, \<open>H264CavlcSafe\<close>, \<open>H264CavlcBlock\<close>: a block is decoded within its
      coefficients, but for the entry behind a block of 15. \<open>H264MbLayer\<close>: the parser of \<open>h264bsd_macroblock_layer.c\<close>; \<open>H264MbSafe\<close>: it is
      total and what it accepts is in range. \<open>H264Total\<close>: the rules of total correctness for
      steps they share. \<open>H264MbProps\<close> holds the properties of this group.
    \<^item> \<open>H264Transform\<close> (\<open>h264bsd_transform.c\<close>): the inverse scan, scaling and transforms;
      \<open>H264TransformFacts\<close>: they are those of the standard and do not overflow for coefficients in
      the range the block decoder gives.

  Conventions. Machine integers are words of their width and wrap; signed C integers are
  \<open>int\<close> with overflow as undefined (\<open>chk\<close> of \<open>H264Poc\<close>). A result \<open>None\<close> of an operation
  means undefined behaviour (a read or write outside an allocation, a NULL pointer, signed
  overflow, a division by zero) or, for the loops written as \<open>partial_function (option)\<close>,
  that the loop never ends; a theorem that says \<open>Some\<close> of a result therefore proves safety and
  termination. The loops written this way are the output loops of the picture buffer
  (\<open>OutputAll\<close>, \<open>OutputWhile\<close>), the insertion of missing frames (\<open>FillGap\<close>) and the loops of the
  slice group maps whose step or bound comes from the stream. All other loops are recursive
  functions on the number of rounds left, or with a measure; no result depends on fuel, except
  for the specification functions \<open>fetch_all\<close> and \<open>follow_group\<close>, which take a number of calls.
  Return codes of the C code are the numbers of its headers (\<open>HANTRO_OK\<close> is 0), errors of the
  Forward Lock library a datatype. An allocation is an argument: a list of results of the
  allocator, or a flag.

  Parameters for code outside the repository: AES, the key schedule and HMAC of OpenSSL (the
  record \<open>crypto\<close>, with the documented laws used as named hypotheses and a toy instance that
  meets them), the file system calls, the random source and the clock.

  Not modelled. In the Forward Lock library: the mutexes (operations run one at a time). In the
  H.264 decoder: sample arithmetic, that is prediction, reconstruction, concealment and the deblocking
  filter, and with them the loops over slices and pictures that call them; the C++ glue; the OpenMAX
  routines, which are vendored. The rest of the repository (the DRM, media and camera services,
  extractors, other codecs, effects) is C++ over interfaces of the platform or imported signal
  processing code, and is left out.
\<close>

end
